(* ===== verification/Prelude.thy ===== *)
theory Prelude
  imports Main "HOL-Library.Word"
begin

text \<open>
  The shared vocabulary of the development: byte strings as the code's \<open>Uint8Array\<close>, the
  big- and little-endian integer layouts that the wire formats use, JavaScript's slice and
  unsigned shift, insertion-ordered maps (JavaScript's \<open>Map\<close>), and the generic lemmas on
  lists that the components share. The collections \<open>bytes_simps\<close> and \<open>amap_simps\<close> carry
  the proofs about them.

  What the event machines of the development share, as locales. A machine has a step function and an
  invariant that steps keep, as long as the events are admissible; then runs keep it. A history
  machine relates the state to the events that led to it. A logging machine only ever appends to its
  log. Every component that is driven by events interprets the ones it needs.
\<close>

locale machine =
  fixes step :: "'e \<Rightarrow> 's \<Rightarrow> 's" and ok :: "'e \<Rightarrow> bool" and inv :: "'s \<Rightarrow> bool"
  assumes step_inv: "inv s \<Longrightarrow> ok e \<Longrightarrow> inv (step e s)"
begin

lemma run_inv: "inv s \<Longrightarrow> list_all ok es \<Longrightarrow> inv (fold step es s)"
  by (induction es arbitrary: s) (auto simp: step_inv)

end

locale history_machine =
  fixes step :: "'e \<Rightarrow> 's \<Rightarrow> 's" and hist :: "'e list \<Rightarrow> 's \<Rightarrow> bool"
  assumes step_hist: "hist es s \<Longrightarrow> hist (es @ [e]) (step e s)"
begin

lemma run_hist_from: "hist es s \<Longrightarrow> hist (es @ fs) (fold step fs s)"
proof (induction fs arbitrary: es s)
  case (Cons f fs)
  then show ?case using step_hist [of es s f] Cons.IH [of "es @ [f]"] by simp
qed simp

lemma run_hist: "hist [] s \<Longrightarrow> hist es (fold step es s)"
  using run_hist_from [of "[]" s es] by simp

end

locale logging_machine = machine +
  fixes log :: "'s \<Rightarrow> 'l list" and may_log :: "'l \<Rightarrow> bool"
  assumes step_log: "inv s \<Longrightarrow> ok e \<Longrightarrow> \<exists>xs. log (step e s) = log s @ xs \<and> list_all may_log xs"
begin

lemma run_log:
  "inv s \<Longrightarrow> list_all ok es \<Longrightarrow> \<exists>xs. log (fold step es s) = log s @ xs \<and> list_all may_log xs"
proof (induction es arbitrary: s)
  case (Cons e es)
  obtain xs where "log (step e s) = log s @ xs \<and> list_all may_log xs" using Cons.prems step_log [of s e] by auto
  moreover obtain ys where "log (fold step es (step e s)) = log (step e s) @ ys \<and> list_all may_log ys"
    using Cons.prems step_inv [of s e] Cons.IH [of "step e s"] by auto
  ultimately show ?case by simp
qed simp

end

named_theorems bytes_simps "layout of integers in byte strings"

named_theorems amap_simps "insertion-ordered maps"

type_synonym byte = "8 word"

type_synonym bytes = "byte list"

subsection \<open>Big-endian and little-endian integers\<close>

text \<open>\<open>be_bytes k n\<close> is what \<open>DataView.setUint32\<close> and its kin write: the low \<open>k\<close> bytes of
  \<open>n\<close>, most significant first; higher bits are lost, as the setters do.\<close>

primrec be_bytes :: "nat \<Rightarrow> nat \<Rightarrow> bytes" where
  "be_bytes 0 n = []"
| "be_bytes (Suc k) n = be_bytes k (n div 256) @ [of_nat n]"

definition be_nat :: "bytes \<Rightarrow> nat" where
  "be_nat bs = foldl (\<lambda>v b. v * 256 + unat b) 0 bs"

definition le_bytes :: "nat \<Rightarrow> nat \<Rightarrow> bytes" where
  "le_bytes k n = rev (be_bytes k n)"

definition le_nat :: "bytes \<Rightarrow> nat" where
  "le_nat bs = be_nat (rev bs)"

text \<open>JavaScript's \<open>x >>> 0\<close> on a non-negative integer.\<close>

definition to_u32 :: "nat \<Rightarrow> nat" where
  "to_u32 n = n mod 2 ^ 32"

lemma length_be_bytes [simp]: "length (be_bytes k n) = k"
  by (induction k arbitrary: n) auto

lemma length_le_bytes [simp]: "length (le_bytes k n) = k"
  by (simp add: le_bytes_def)

lemma unat_byte_bound: "unat (b :: byte) < 256"
  using unsigned_less [where 'b = 8 and 'a = nat, of b] by simp

lemma be_nat_Nil [simp]: "be_nat [] = 0"
  by (simp add: be_nat_def)

lemma be_nat_snoc [simp]: "be_nat (bs @ [b]) = be_nat bs * 256 + unat b"
  by (simp add: be_nat_def)

lemma foldl_be_acc: "foldl (\<lambda>v b. v * 256 + unat b) a bs = a * 256 ^ length bs + be_nat bs"
proof (induction bs rule: rev_induct)
  case Nil
  then show ?case by simp
next
  case (snoc b bs)
  then show ?case by (simp add: algebra_simps)
qed

lemma be_nat_append: "be_nat (xs @ ys) = be_nat xs * 256 ^ length ys + be_nat ys"
proof -
  have "be_nat (xs @ ys) = foldl (\<lambda>v b. v * 256 + unat b) (be_nat xs) ys"
    by (simp add: be_nat_def)
  then show ?thesis by (simp only: foldl_be_acc)
qed

lemma be_nat_Cons: "be_nat (b # bs) = unat b * 256 ^ length bs + be_nat bs"
  using be_nat_append [of "[b]" bs] by (simp add: be_nat_def)

lemma be_nat_bound: "be_nat bs < 256 ^ length bs"
proof (induction bs rule: rev_induct)
  case Nil
  then show ?case by simp
next
  case (snoc b bs)
  have "unat b < 256" by (rule unat_byte_bound)
  moreover have "Suc (be_nat bs) \<le> 256 ^ length bs" using snoc.IH by simp
  then have "Suc (be_nat bs) * 256 \<le> 256 ^ length bs * 256" by (rule mult_le_mono1)
  ultimately show ?case by simp
qed

lemma unat_of_nat_byte: "unat (of_nat n :: byte) = n mod 256"
  by (simp add: unat_of_nat)

lemma be_nat_be_bytes [bytes_simps]: "be_nat (be_bytes k n) = n mod 256 ^ k"
proof (induction k arbitrary: n)
  case 0
  then show ?case by simp
next
  case (Suc k)
  have "(n div 256) mod 256 ^ k * 256 + n mod 256 = n mod (256 * 256 ^ k)"
    by (simp add: mod_mult2_eq)
  then show ?case by (simp add: Suc.IH unat_of_nat_byte)
qed

lemma be_bytes_be_nat [bytes_simps]: "length bs = k \<Longrightarrow> be_bytes k (be_nat bs) = bs"
proof (induction bs arbitrary: k rule: rev_induct)
  case Nil
  then show ?case by simp
next
  case (snoc b bs)
  have lt: "unat b < 256" by (rule unat_byte_bound)
  have "(be_nat bs * 256 + unat b) div 256 = be_nat bs" using lt by simp
  moreover have "(of_nat (be_nat bs * 256 + unat b) :: byte) = b"
    by (rule word_unat_eq_iff [THEN iffD2], subst unat_of_nat_byte) (use lt in simp)
  ultimately show ?case using snoc by auto
qed

lemma be_bytes_add: "be_bytes (j + k) n = be_bytes j (n div 256 ^ k) @ be_bytes k n"
proof (induction k arbitrary: n)
  case 0
  then show ?case by simp
next
  case (Suc k)
  then show ?case by (simp add: div_mult2_eq)
qed

lemma be_bytes_inject [bytes_simps]:
  "be_bytes k m = be_bytes k n \<longleftrightarrow> m mod 256 ^ k = n mod 256 ^ k"
proof
  assume "be_bytes k m = be_bytes k n"
  then show "m mod 256 ^ k = n mod 256 ^ k" by (metis be_nat_be_bytes)
next
  assume "m mod 256 ^ k = n mod 256 ^ k"
  then have "be_nat (be_bytes k m) = be_nat (be_bytes k n)" by (simp add: be_nat_be_bytes)
  then show "be_bytes k m = be_bytes k n" by (metis be_bytes_be_nat length_be_bytes)
qed

lemma le_nat_le_bytes [bytes_simps]: "le_nat (le_bytes k n) = n mod 256 ^ k"
  by (simp add: le_nat_def le_bytes_def be_nat_be_bytes)

lemma le_bytes_le_nat [bytes_simps]: "length bs = k \<Longrightarrow> le_bytes k (le_nat bs) = bs"
  by (simp add: le_nat_def le_bytes_def be_bytes_be_nat)

lemma le_nat_bound: "le_nat bs < 256 ^ length bs"
  using be_nat_bound [of "rev bs"] by (simp add: le_nat_def)

subsection \<open>JavaScript's slice and strings\<close>

text \<open>\<open>xs.slice(i)\<close> with a possibly negative start.\<close>

definition js_slice_from :: "int \<Rightarrow> 'a list \<Rightarrow> 'a list" where
  "js_slice_from i xs =
     (if i < 0 then drop (nat (max 0 (int (length xs) + i))) xs else drop (nat i) xs)"

lemma js_slice_from_nonneg [simp]: "0 \<le> i \<Longrightarrow> js_slice_from i xs = drop (nat i) xs"
  by (simp add: js_slice_from_def)

text \<open>A string of the code is modelled by its UTF-8 encoding, a list of 8-bit characters, so
  \<open>TextEncoder.encode\<close> reads the characters as bytes.\<close>

definition utf8 :: "string \<Rightarrow> bytes" where
  "utf8 s = map (\<lambda>c. of_nat (of_char c)) s"

lemma byte_of_char_inj: "inj (\<lambda>c. of_nat (of_char c) :: byte)"
proof (rule injI)
  fix c d :: char
  assume "(of_nat (of_char c) :: byte) = of_nat (of_char d)"
  then have "unat (of_nat (of_char c) :: byte) = unat (of_nat (of_char d) :: byte)" by simp
  then have "(of_char c :: nat) mod 256 = of_char d mod 256" by (simp add: unat_of_nat_byte)
  moreover have "(of_char c :: nat) < 256" "(of_char d :: nat) < 256"
    using nat_of_char_less_256 by auto
  ultimately have "(of_char c :: nat) = of_char d" by simp
  then show "c = d" by simp
qed

lemma utf8_inject [simp]: "utf8 s = utf8 t \<longleftrightarrow> s = t"
  unfolding utf8_def by (rule inj_map_eq_map [OF byte_of_char_inj])

lemma length_utf8 [simp]: "length (utf8 s) = length s"
  by (simp add: utf8_def)

lemma zero_in_utf8: "0 \<in> set (utf8 s) \<longleftrightarrow> CHR 0x00 \<in> set s"
proof -
  have "(0 :: byte) = of_nat (of_char (CHR 0x00))" by simp
  then show ?thesis
    unfolding utf8_def set_map by (metis byte_of_char_inj inj_image_mem_iff)
qed

subsection \<open>Splitting at a separator\<close>

text \<open>The wire's transcripts join variable-length fields with a zero byte; the join can be undone
  at the first separator where the left field holds none, and at the last where the right
  field holds none.\<close>

lemma append_sep_inject_left:
  assumes "xs @ s # ys = xs' @ s # ys'" and "s \<notin> set xs" and "s \<notin> set xs'"
  shows "xs = xs' \<and> ys = ys'"
proof -
  have "takeWhile (\<lambda>b. b \<noteq> s) (xs @ s # ys) = xs"
    using assms(2) by (induction xs) auto
  moreover have "takeWhile (\<lambda>b. b \<noteq> s) (xs' @ s # ys') = xs'"
    using assms(3) by (induction xs') auto
  ultimately have "xs = xs'" using assms(1) by simp
  then show ?thesis using assms(1) by simp
qed

lemma append_sep_inject_right:
  assumes "xs @ s # ys = xs' @ s # ys'" and "s \<notin> set ys" and "s \<notin> set ys'"
  shows "xs = xs' \<and> ys = ys'"
proof -
  have "rev ys @ s # rev xs = rev ys' @ s # rev xs'"
    using assms(1) by (metis rev.simps(2) rev_append append.assoc append_Cons append_Nil)
  then have "rev ys = rev ys' \<and> rev xs = rev xs'"
    by (rule append_sep_inject_left) (use assms in auto)
  then show ?thesis by simp
qed

subsection \<open>Insertion-ordered maps\<close>

text \<open>JavaScript's \<open>Map\<close> iterates in insertion order: setting a present key keeps its place,
  setting a new one appends it. It is an association list with distinct keys.\<close>

type_synonym ('k, 'v) amap = "('k \<times> 'v) list"

fun aset :: "'k \<Rightarrow> 'v \<Rightarrow> ('k, 'v) amap \<Rightarrow> ('k, 'v) amap" where
  "aset k v [] = [(k, v)]"
| "aset k v ((k', v') # m) = (if k = k' then (k, v) # m else (k', v') # aset k v m)"

definition adel :: "'k \<Rightarrow> ('k, 'v) amap \<Rightarrow> ('k, 'v) amap" where
  "adel k m = filter (\<lambda>(k', _). k' \<noteq> k) m"

abbreviation aget :: "('k, 'v) amap \<Rightarrow> 'k \<Rightarrow> 'v option" where
  "aget \<equiv> map_of"

abbreviation akeys :: "('k, 'v) amap \<Rightarrow> 'k list" where
  "akeys m \<equiv> map fst m"

lemma aget_aset [amap_simps, simp]: "aget (aset k v m) k' = (if k' = k then Some v else aget m k')"
  by (induction m) auto

lemma aget_adel [amap_simps, simp]: "aget (adel k m) k' = (if k' = k then None else aget m k')"
  by (induction m) (auto simp: adel_def)

lemma set_akeys_aset [amap_simps]: "fst ` set (aset k v m) = insert k (fst ` set m)"
  by (induction k v m rule: aset.induct) auto

lemma akeys_adel [amap_simps]: "akeys (adel k m) = filter (\<lambda>k'. k' \<noteq> k) (akeys m)"
  by (induction m) (auto simp: adel_def)

lemma distinct_akeys_aset [amap_simps]: "distinct (akeys m) \<Longrightarrow> distinct (akeys (aset k v m))"
  by (induction m) (auto simp: set_akeys_aset)

lemma distinct_akeys_adel [amap_simps]: "distinct (akeys m) \<Longrightarrow> distinct (akeys (adel k m))"
  by (simp add: akeys_adel)

lemma set_adel [amap_simps]: "set (adel k m) = {(k', v). (k', v) \<in> set m \<and> k' \<noteq> k}"
  by (auto simp: adel_def)

lemma in_set_aset:
  "(k', v') \<in> set (aset k v m) \<Longrightarrow> (k' = k \<and> v' = v) \<or> (k', v') \<in> set m"
  by (induction m) (auto split: if_splits)

end
