(* ===== verification/Crypto.thy ===== *)
theory Crypto
  imports Prelude
begin

text \<open>
  The cryptographic primitives of the \<open>@noble\<close> packages, which the repository only calls:
  they are a parameter (a record of functions) of every definition that uses them, and what
  the code relies on is a named hypothesis about that parameter. \<open>None\<close> is a throw. The
  constant-time comparison of \<open>packages/channel/src/keys.ts\<close> is modelled here.
\<close>

record crypto =
  x_public :: "bytes \<Rightarrow> bytes"                 \<comment> \<open>x25519.getPublicKey\<close>
  x_shared :: "bytes \<Rightarrow> bytes \<Rightarrow> bytes option" \<comment> \<open>x25519.getSharedSecret\<close>
  sha_256 :: "bytes \<Rightarrow> bytes"
  hkdf_256 :: "bytes \<Rightarrow> bytes \<Rightarrow> bytes \<Rightarrow> nat \<Rightarrow> bytes" \<comment> \<open>ikm, salt, info, length\<close>
  hmac_256 :: "bytes \<Rightarrow> bytes \<Rightarrow> bytes"       \<comment> \<open>key, message\<close>
  aead_seal :: "bytes \<Rightarrow> bytes \<Rightarrow> bytes \<Rightarrow> bytes" \<comment> \<open>key, nonce, plaintext\<close>
  aead_open :: "bytes \<Rightarrow> bytes \<Rightarrow> bytes \<Rightarrow> bytes option"

definition KEY_BYTES :: nat where
  "KEY_BYTES = 32"

definition TAG_BYTES :: nat where
  "TAG_BYTES = 16"

text \<open>What the AEAD documents: decryption inverts encryption, and a ciphertext is the plaintext's
  length plus the tag. (The package throws on keys and nonces of the wrong length; the code never
  passes one, and the parameter is a total function.)\<close>

definition aead_correct :: "crypto \<Rightarrow> bool" where
  "aead_correct C \<longleftrightarrow>
     (\<forall>k n p. aead_open C k n (aead_seal C k n p) = Some p \<and>
        length (aead_seal C k n p) = length p + TAG_BYTES)"

text \<open>What Diffie-Hellman documents: both sides compute one shared secret.\<close>

definition dh_commutes :: "crypto \<Rightarrow> bool" where
  "dh_commutes C \<longleftrightarrow>
     (\<forall>a b. x_shared C a (x_public C b) = x_shared C b (x_public C a))"

definition public_length :: "crypto \<Rightarrow> bool" where
  "public_length C \<longleftrightarrow> (\<forall>a. length (x_public C a) = KEY_BYTES)"

lemma aead_correct_open: "aead_correct C \<Longrightarrow> aead_open C k n (aead_seal C k n p) = Some p"
  by (simp add: aead_correct_def)

lemma aead_correct_length:
  "aead_correct C \<Longrightarrow> length (aead_seal C k n p) = length p + TAG_BYTES"
  by (simp add: aead_correct_def)

subsection \<open>Constant-time equality\<close>

unbundle bit_operations_syntax

definition constantTimeEqual :: "bytes \<Rightarrow> bytes \<Rightarrow> bool" where
  "constantTimeEqual a b =
     (if length a \<noteq> length b then False
      else foldl (\<lambda>diff (x, y). diff OR (x XOR y)) 0 (zip a b) = 0)"

lemma xor_zero_byte: "x XOR y = 0 \<longleftrightarrow> x = (y :: byte)"
  by (auto simp: bit_eq_iff bit_xor_iff)

lemma ct_fold_zero:
  "foldl (\<lambda>diff (x, y). diff OR (x XOR y)) d (zip a b) = (0 :: byte) \<longleftrightarrow>
     d = 0 \<and> (\<forall>(x, y) \<in> set (zip a b). x = y)"
proof (induction a arbitrary: b d)
  case Nil
  then show ?case by simp
next
  case (Cons x a)
  have "(d OR (x XOR y) = 0) \<longleftrightarrow> d = 0 \<and> x = y" for y
    by (metis or_eq_0_iff xor_zero_byte)
  with Cons show ?case by (cases b) auto
qed

lemma constantTimeEqual_iff: "constantTimeEqual a b \<longleftrightarrow> a = b"
proof (cases "length a = length b")
  case False
  then show ?thesis by (auto simp: constantTimeEqual_def)
next
  case True
  then have "(\<forall>(x, y) \<in> set (zip a b). x = y) \<longleftrightarrow> a = b"
    by (induction a b rule: list_induct2) auto
  with True show ?thesis by (simp add: constantTimeEqual_def ct_fold_zero)
qed

subsection \<open>A concrete instance\<close>

text \<open>An instance of the parameter on which closed examples evaluate: it satisfies the hypotheses
  above and separates counters (the tag is the sum of the nonce's last eight bytes kept whole),
  and stands for no real cipher.\<close>

definition pad :: "nat \<Rightarrow> bytes \<Rightarrow> bytes" where
  "pad n bs = take n bs @ replicate (n - length bs) 0"

lemma length_pad [simp]: "length (pad n bs) = n"
  by (simp add: pad_def)

lemma pad_id [simp]: "length bs = n \<Longrightarrow> pad n bs = bs"
  by (simp add: pad_def)

definition demo_crypto :: crypto where
  "demo_crypto =
     \<lparr>x_public = pad 32,
      x_shared = (\<lambda>a b. Some (map2 (+) (pad 32 a) (pad 32 b))),
      sha_256 = (\<lambda>m. pad 32 (rev m)),
      hkdf_256 = (\<lambda>ikm salt info n. pad n (ikm @ salt @ info)),
      hmac_256 = (\<lambda>k m. pad 32 (rev m @ k)),
      aead_seal = (\<lambda>k n p. p @ pad 16 (rev n)),
      aead_open = (\<lambda>k n c.
        if 16 \<le> length c \<and> drop (length c - 16) c = pad 16 (rev n)
        then Some (take (length c - 16) c) else None)\<rparr>"

lemma demo_aead_correct: "aead_correct demo_crypto"
  by (simp add: aead_correct_def demo_crypto_def TAG_BYTES_def)

lemma demo_dh_commutes: "dh_commutes demo_crypto"
proof -
  have "map2 (+) a b = map2 (+) b a" for a b :: bytes
    by (induction a arbitrary: b; case_tac b) (auto simp: add.commute)
  then show ?thesis by (simp add: dh_commutes_def demo_crypto_def)
qed

lemma demo_public_length: "public_length demo_crypto"
  by (simp add: public_length_def demo_crypto_def KEY_BYTES_def)

end
