(* ===== verification/RecordLayer.thy ===== *)
theory RecordLayer
  imports Crypto
begin

text \<open>
  \<open>packages/channel/src/frame.ts\<close> and \<open>record.ts\<close>: the tagged plaintext frame and the record
  layer. A sealer and an opener hold a key, a nonce prefix and a counter; the nonce of a record
  is the prefix followed by the counter, so it is never on the wire and never repeats.
\<close>

datatype chan_error =
    HandshakeLength | HandshakeKey | CounterExhausted | Replay | Decrypt
  | FrameEmpty | FrameTagUnknown byte | RecordTooLong nat
  | ChannelClosed | ChannelNotOpen | PreAuthBudget | HandlerThrew

subsection \<open>Frames\<close>

datatype frame_tag = Control | Binary

fun tag_byte :: "frame_tag \<Rightarrow> byte" where
  "tag_byte Control = 0x01"
| "tag_byte Binary = 0x02"

record frame =
  f_tag :: frame_tag
  f_payload :: bytes

definition FRAME_TAG_BYTES :: nat where
  "FRAME_TAG_BYTES = 1"

definition controlFrame :: "bytes \<Rightarrow> frame" where
  "controlFrame p = \<lparr>f_tag = Control, f_payload = p\<rparr>"

definition binaryFrame :: "bytes \<Rightarrow> frame" where
  "binaryFrame p = \<lparr>f_tag = Binary, f_payload = p\<rparr>"

definition encodeFrame :: "frame \<Rightarrow> bytes" where
  "encodeFrame f = tag_byte (f_tag f) # f_payload f"

definition decodeFrame :: "bytes \<Rightarrow> chan_error + frame" where
  "decodeFrame bs =
     (case bs of
        [] \<Rightarrow> Inl FrameEmpty
      | t # p \<Rightarrow>
          if t = tag_byte Control then Inr \<lparr>f_tag = Control, f_payload = p\<rparr>
          else if t = tag_byte Binary then Inr \<lparr>f_tag = Binary, f_payload = p\<rparr>
          else Inl (FrameTagUnknown t))"

lemma decode_encodeFrame [simp]: "decodeFrame (encodeFrame f) = Inr f"
  by (cases f; cases "f_tag f") (auto simp: decodeFrame_def encodeFrame_def)

lemma encode_decodeFrame: "decodeFrame bs = Inr f \<Longrightarrow> encodeFrame f = bs"
  by (auto simp: decodeFrame_def encodeFrame_def split: list.splits if_splits)

lemma encodeFrame_inject [simp]: "encodeFrame f = encodeFrame g \<longleftrightarrow> f = g"
  by (metis decode_encodeFrame sum.inject(2))

lemma length_encodeFrame [simp]: "length (encodeFrame f) = Suc (length (f_payload f))"
  by (simp add: encodeFrame_def)

subsection \<open>Nonces\<close>

datatype direction = InitiatorToResponder | ResponderToInitiator

fun direction_byte :: "direction \<Rightarrow> byte" where
  "direction_byte InitiatorToResponder = 0x00"
| "direction_byte ResponderToInitiator = 0x01"

definition NONCE_PREFIX_BYTES :: nat where
  "NONCE_PREFIX_BYTES = 16"

definition noncePrefix :: "crypto \<Rightarrow> bytes \<Rightarrow> direction \<Rightarrow> bytes" where
  "noncePrefix C sid d = take NONCE_PREFIX_BYTES (sha_256 C (sid @ [direction_byte d]))"

text \<open>The two \<open>setUint32\<close> calls: the high half of the counter, then its low half.\<close>

definition nonceFor :: "bytes \<Rightarrow> nat \<Rightarrow> bytes" where
  "nonceFor prefix counter =
     prefix @ be_bytes 4 (counter div 2 ^ 32) @ be_bytes 4 (to_u32 counter)"

definition MAX_SAFE_INTEGER :: nat where
  "MAX_SAFE_INTEGER = 2 ^ 53 - 1"

lemma nonceFor_be: "nonceFor prefix n = prefix @ be_bytes 8 n"
proof -
  have "be_bytes 8 n = be_bytes 4 (n div 2 ^ 32) @ be_bytes 4 n"
    using be_bytes_add [of 4 4 n] by simp
  moreover have "be_bytes 4 (to_u32 n) = be_bytes 4 n"
    by (simp add: be_bytes_inject to_u32_def)
  ultimately show ?thesis by (simp add: nonceFor_def)
qed

lemma nonceFor_inject:
  assumes "m \<le> MAX_SAFE_INTEGER" and "n \<le> MAX_SAFE_INTEGER"
  shows "nonceFor prefix m = nonceFor prefix n \<longleftrightarrow> m = n"
  using assms by (simp add: nonceFor_be be_bytes_inject MAX_SAFE_INTEGER_def)

subsection \<open>Sealer and opener\<close>

text \<open>Adding one to a JavaScript number that counts up from zero: above \<open>2 ^ 53 - 1\<close> it stops moving, since the
  sum is rounded back.\<close>

definition js_increment :: "nat \<Rightarrow> nat" where
  "js_increment n = (if n < 2 ^ 53 then n + 1 else n)"

lemma js_increment_below: "n < 2 ^ 53 \<Longrightarrow> js_increment n = Suc n"
  by (simp add: js_increment_def)

record sealer =
  sl_key :: bytes
  sl_prefix :: bytes
  sl_counter :: nat

definition new_sealer :: "crypto \<Rightarrow> bytes \<Rightarrow> bytes \<Rightarrow> direction \<Rightarrow> sealer" where
  "new_sealer C key sid d = \<lparr>sl_key = key, sl_prefix = noncePrefix C sid d, sl_counter = 0\<rparr>"

definition seal :: "crypto \<Rightarrow> bytes \<Rightarrow> sealer \<Rightarrow> chan_error + bytes \<times> sealer" where
  "seal C bs s =
     (if MAX_SAFE_INTEGER < sl_counter s then Inl CounterExhausted
      else Inr (aead_seal C (sl_key s) (nonceFor (sl_prefix s) (sl_counter s)) bs,
                s\<lparr>sl_counter := js_increment (sl_counter s)\<rparr>))"

text \<open>The guard keeps the counter where adding one is exact.\<close>

lemma seal_InrD:
  "seal C b s = Inr (rec, s') \<Longrightarrow>
   sl_counter s \<le> MAX_SAFE_INTEGER \<and> s' = s\<lparr>sl_counter := sl_counter s + 1\<rparr> \<and>
   rec = aead_seal C (sl_key s) (nonceFor (sl_prefix s) (sl_counter s)) b"
  by (auto simp: seal_def js_increment_def MAX_SAFE_INTEGER_def split: if_splits)

lemma seal_Inr:
  "sl_counter s \<le> MAX_SAFE_INTEGER \<Longrightarrow>
   seal C b s = Inr (aead_seal C (sl_key s) (nonceFor (sl_prefix s) (sl_counter s)) b, s\<lparr>sl_counter := sl_counter s + 1\<rparr>)"
  by (simp add: seal_def js_increment_def MAX_SAFE_INTEGER_def)

lemma seal_exhausted: "seal C b s = Inl CounterExhausted \<longleftrightarrow> 2 ^ 53 \<le> sl_counter s"
  by (auto simp: seal_def MAX_SAFE_INTEGER_def)

record opener =
  op_key :: bytes
  op_prefix :: bytes
  op_counter :: nat
  op_lastTag :: "bytes option"

definition new_opener :: "crypto \<Rightarrow> bytes \<Rightarrow> bytes \<Rightarrow> direction \<Rightarrow> opener" where
  "new_opener C key sid d =
     \<lparr>op_key = key, op_prefix = noncePrefix C sid d, op_counter = 0, op_lastTag = None\<rparr>"

definition recordTagEquals :: "bytes \<Rightarrow> bytes \<Rightarrow> bool" where
  "recordTagEquals rec tag =
     (if length rec < TAG_BYTES then False
      else constantTimeEqual (drop (length rec - TAG_BYTES) rec) tag)"

definition open_record :: "crypto \<Rightarrow> bytes \<Rightarrow> opener \<Rightarrow> chan_error + bytes \<times> opener" where
  "open_record C rec r =
     (if (case op_lastTag r of None \<Rightarrow> False | Some t \<Rightarrow> recordTagEquals rec t) then Inl Replay
      else case aead_open C (op_key r) (nonceFor (op_prefix r) (op_counter r)) rec of
        None \<Rightarrow> Inl Decrypt
      | Some bs \<Rightarrow>
          Inr (bs, r\<lparr>op_counter := js_increment (op_counter r),
                     op_lastTag := Some (js_slice_from (int (length rec) - int TAG_BYTES) rec)\<rparr>))"

text \<open>An opener is in step with a sealer: same key, same prefix, same counter.\<close>

definition in_step :: "sealer \<Rightarrow> opener \<Rightarrow> bool" where
  "in_step s r \<longleftrightarrow>
     op_key r = sl_key s \<and> op_prefix r = sl_prefix s \<and> op_counter r = sl_counter s"

text \<open>The replay check compares only the trailing tag, so a genuine next record passes it exactly
  when its tag differs from the previous record's.\<close>

definition tag_of :: "bytes \<Rightarrow> bytes" where
  "tag_of rec = drop (length rec - TAG_BYTES) rec"

definition fresh_tag :: "bytes \<Rightarrow> opener \<Rightarrow> bool" where
  "fresh_tag rec r \<longleftrightarrow> op_lastTag r \<noteq> Some (tag_of rec)"

lemma open_seal:
  assumes C: "aead_correct C" and st: "in_step s r" and fresh: "fresh_tag rec r"
    and s: "seal C bs s = Inr (rec, s')"
  shows "\<exists>r'. open_record C rec r = Inr (bs, r') \<and> in_step s' r' \<and> op_lastTag r' = Some (tag_of rec)"
proof -
  have rec: "rec = aead_seal C (sl_key s) (nonceFor (sl_prefix s) (sl_counter s)) bs"
    and s': "s' = s\<lparr>sl_counter := sl_counter s + 1\<rparr>" and g: "sl_counter s \<le> MAX_SAFE_INTEGER"
    using seal_InrD [OF s] by simp_all
  have l: "TAG_BYTES \<le> length rec" using C by (simp add: rec aead_correct_length)
  have "\<not> (case op_lastTag r of None \<Rightarrow> False | Some t \<Rightarrow> recordTagEquals rec t)"
    using fresh by (auto simp: fresh_tag_def recordTagEquals_def constantTimeEqual_iff tag_of_def
        split: option.splits)
  moreover have "aead_open C (op_key r) (nonceFor (op_prefix r) (op_counter r)) rec = Some bs"
    using C st by (simp add: rec in_step_def aead_correct_open)
  moreover have "js_increment (op_counter r) = Suc (sl_counter s)"
    using st g by (simp add: in_step_def js_increment_def MAX_SAFE_INTEGER_def)
  ultimately show ?thesis
    using st l by (simp add: open_record_def s' in_step_def tag_of_def nat_diff_distrib)
qed

lemma open_record_errors:
  "open_record C rec r = Inl e \<Longrightarrow> e = Replay \<or> e = Decrypt"
  by (auto simp: open_record_def split: if_splits option.splits)

lemma open_record_counter:
  "open_record C rec r = Inr (bs, r') \<Longrightarrow>
   op_counter r' = js_increment (op_counter r) \<and> op_key r' = op_key r \<and> op_prefix r' = op_prefix r"
  by (auto simp: open_record_def split: if_splits option.splits)

text \<open>An exact re-delivery of the record just opened is refused before decryption.\<close>

lemma open_record_replay:
  assumes C: "aead_correct C" and "open_record C rec r = Inr (bs, r')" and "TAG_BYTES \<le> length rec"
  shows "open_record C rec r' = Inl Replay"
  using assms
  by (auto simp: open_record_def recordTagEquals_def constantTimeEqual_iff nat_diff_distrib
      split: if_splits option.splits)

end
