(* ===== verification/Handshake.thy ===== *)
theory Handshake
  imports RecordLayer
begin

text \<open>
  \<open>packages/channel/src/kdf.ts\<close> and \<open>handshake.ts\<close>: the Noise-NK exchange. Each side holds a
  fresh ephemeral secret; the initiator pins the responder's static public key, the responder
  holds the static secret. Two Diffie-Hellman secrets and both ephemeral public keys go into
  one HKDF pass. The random ephemeral secret is an argument; wiping a secret is the value with
  its bytes replaced by zeros.
\<close>

datatype role = Initiator | Responder

definition wipe :: "bytes \<Rightarrow> bytes" where
  "wipe bs = replicate (length bs) 0"

subsection \<open>Key schedule\<close>

record session_keys =
  keyI2R :: bytes
  keyR2I :: bytes
  sessionId :: bytes

definition SALT_LABEL :: bytes where
  "SALT_LABEL = utf8 ''pherry/channel/v1/salt''"

definition HKDF_INFO :: bytes where
  "HKDF_INFO = utf8 ''pherry/channel/v1''"

definition RECORD_KEY_BYTES :: nat where
  "RECORD_KEY_BYTES = 32"

definition SESSION_ID_BYTES :: nat where
  "SESSION_ID_BYTES = 32"

definition OKM_BYTES :: nat where
  "OKM_BYTES = RECORD_KEY_BYTES * 2 + SESSION_ID_BYTES"

definition salt_input :: "bytes \<Rightarrow> bytes \<Rightarrow> bytes option \<Rightarrow> bytes" where
  "salt_input eI eR context =
     SALT_LABEL @ eI @ eR @ (case context of None \<Rightarrow> [] | Some c \<Rightarrow> c)"

text \<open>The keys, and the two Diffie-Hellman inputs as the call leaves them.\<close>

definition deriveSessionKeys ::
  "crypto \<Rightarrow> bytes \<Rightarrow> bytes \<Rightarrow> bytes \<Rightarrow> bytes \<Rightarrow> bytes option \<Rightarrow> session_keys \<times> bytes \<times> bytes" where
  "deriveSessionKeys C dhEE dhES eI eR context =
     (let ikm = dhEE @ dhES;
          salt = sha_256 C (salt_input eI eR context);
          okm = hkdf_256 C ikm salt HKDF_INFO OKM_BYTES
      in (\<lparr>keyI2R = take RECORD_KEY_BYTES okm,
           keyR2I = take RECORD_KEY_BYTES (drop RECORD_KEY_BYTES okm),
           sessionId = take SESSION_ID_BYTES (drop (RECORD_KEY_BYTES * 2) okm)\<rparr>,
          wipe dhEE, wipe dhES))"

lemma salt_input_inject:
  assumes "length eI = KEY_BYTES" "length eI' = KEY_BYTES" "length eR = KEY_BYTES"
    "length eR' = KEY_BYTES"
  shows "salt_input eI eR c = salt_input eI' eR' c' \<longleftrightarrow>
    eI = eI' \<and> eR = eR' \<and> (case c of None \<Rightarrow> [] | Some x \<Rightarrow> x) = (case c' of None \<Rightarrow> [] | Some x \<Rightarrow> x)"
  using assms by (simp add: salt_input_def)

subsection \<open>The two sides\<close>

record handshake =
  hs_role :: role
  hs_secret :: bytes             \<comment> \<open>own ephemeral secret\<close>
  hs_message :: bytes            \<comment> \<open>own ephemeral public key\<close>
  hs_static :: bytes             \<comment> \<open>pinned public key (initiator), own static secret (responder)\<close>
  hs_context :: "bytes option"

definition dh :: "crypto \<Rightarrow> bytes \<Rightarrow> bytes \<Rightarrow> chan_error + bytes" where
  "dh C own peer =
     (if length peer \<noteq> KEY_BYTES then Inl HandshakeLength
      else case x_shared C own peer of None \<Rightarrow> Inl HandshakeKey | Some s \<Rightarrow> Inr s)"

definition initiatorHandshake ::
  "crypto \<Rightarrow> bytes \<Rightarrow> bytes \<Rightarrow> bytes option \<Rightarrow> chan_error + handshake" where
  "initiatorHandshake C secret pinned context =
     (if length pinned \<noteq> KEY_BYTES then Inl HandshakeLength
      else Inr \<lparr>hs_role = Initiator, hs_secret = secret, hs_message = x_public C secret,
                hs_static = pinned, hs_context = context\<rparr>)"

definition responderHandshake :: "crypto \<Rightarrow> bytes \<Rightarrow> bytes \<Rightarrow> bytes option \<Rightarrow> handshake" where
  "responderHandshake C secret ownStatic context =
     \<lparr>hs_role = Responder, hs_secret = secret, hs_message = x_public C secret,
      hs_static = ownStatic, hs_context = context\<rparr>"

text \<open>\<open>consume\<close>: the session keys and the handshake with its ephemeral secret wiped.\<close>

definition consume :: "crypto \<Rightarrow> bytes \<Rightarrow> handshake \<Rightarrow> chan_error + session_keys \<times> handshake" where
  "consume C peer h =
     (case dh C (hs_secret h) peer of
        Inl e \<Rightarrow> Inl e
      | Inr dhEE \<Rightarrow>
          (case hs_role h of
             Initiator \<Rightarrow>
               (case dh C (hs_secret h) (hs_static h) of
                  Inl e \<Rightarrow> Inl e
                | Inr dhES \<Rightarrow>
                    Inr (fst (deriveSessionKeys C dhEE dhES (hs_message h) peer (hs_context h)),
                         h\<lparr>hs_secret := wipe (hs_secret h)\<rparr>))
           | Responder \<Rightarrow>
               (case dh C (hs_static h) peer of
                  Inl e \<Rightarrow> Inl e
                | Inr dhES \<Rightarrow>
                    Inr (fst (deriveSessionKeys C dhEE dhES peer (hs_message h) (hs_context h)),
                         h\<lparr>hs_secret := wipe (hs_secret h)\<rparr>))))"

lemma consume_errors: "consume C peer h = Inl e \<Longrightarrow> e = HandshakeLength \<or> e = HandshakeKey"
  by (auto simp: consume_def dh_def split: sum.splits option.splits role.splits if_splits)

lemma consume_wipes: "consume C peer h = Inr (k, h') \<Longrightarrow> set (hs_secret h') \<subseteq> {0}"
  by (auto simp: consume_def wipe_def split: sum.splits role.splits)

text \<open>Two sides that run the exchange against each other derive the same keys: only the holder of
  the pinned static key's secret plays the responder.\<close>

lemma handshake_agree:
  assumes C: "dh_commutes C" "public_length C"
    and i: "initiatorHandshake C a (x_public C s) context = Inr hi"
    and r: "hr = responderHandshake C b s context"
    and ki: "consume C (hs_message hr) hi = Inr (ki, hi')"
    and kr: "consume C (hs_message hi) hr = Inr (kr, hr')"
  shows "ki = kr"
proof -
  have dh: "x_shared C a (x_public C b) = x_shared C b (x_public C a)"
    "x_shared C a (x_public C s) = x_shared C s (x_public C a)"
    using C(1) by (simp_all add: dh_commutes_def)
  have hi: "hi = \<lparr>hs_role = Initiator, hs_secret = a, hs_message = x_public C a,
      hs_static = x_public C s, hs_context = context\<rparr>"
    using i by (simp add: initiatorHandshake_def split: if_splits)
  show ?thesis
    using ki kr unfolding r hi
    by (auto simp: consume_def responderHandshake_def dh_def dh deriveSessionKeys_def Let_def
        split: if_splits option.splits)
qed

end
