(* ===== verification/ByteStream.thy ===== *)
theory ByteStream
  imports Prelude
begin

text \<open>
  The interface of a byte queue: what the record layer of \<open>packages/channel\<close> and the outer
  framing of \<open>packages/relay-core\<close> both rely on. The abstract content of a queue is the list
  of its unread bytes; the locale's laws say what \<open>push\<close>, \<open>length\<close>, \<open>peekUint32BE\<close> and
  \<open>take\<close> do to it. The client is the length-prefixed reframing both components perform; it is
  proved once, against \<open>split_frame\<close> on the content, and rests on the laws alone.
\<close>

subsection \<open>Peeking and taking from a chunk list\<close>

text \<open>The two nested \<open>for\<close> loops of \<open>peekUint32BE\<close>: the inner one runs over a chunk and
  either returns the value of the first four bytes (\<open>Inr\<close>) or goes on (\<open>Inl\<close>).\<close>

fun peek_bytes :: "bytes \<Rightarrow> nat \<Rightarrow> nat \<Rightarrow> nat \<times> nat + nat" where
  "peek_bytes [] v r = Inl (v, r)"
| "peek_bytes (b # bs) v r =
     (let v' = v * 256 + unat b
      in if 4 \<le> Suc r then Inr (to_u32 v') else peek_bytes bs v' (Suc r))"

fun peek_chunks :: "bytes list \<Rightarrow> nat \<Rightarrow> nat \<Rightarrow> nat" where
  "peek_chunks [] v r = to_u32 v"
| "peek_chunks (c # cs) v r =
     (case peek_bytes c v r of Inl (v', r') \<Rightarrow> peek_chunks cs v' r' | Inr n \<Rightarrow> n)"

lemma peek_bytes_short:
  "r + length bs < 4 \<Longrightarrow>
   peek_bytes bs v r = Inl (v * 256 ^ length bs + be_nat bs, r + length bs)"
proof (induction bs arbitrary: v r)
  case Nil
  then show ?case by simp
next
  case (Cons b bs)
  then have "peek_bytes (b # bs) v r = peek_bytes bs (v * 256 + unat b) (Suc r)"
    by (simp add: Let_def)
  with Cons show ?case
    by (simp add: be_nat_Cons algebra_simps)
qed

lemma peek_bytes_enough:
  "r < 4 \<Longrightarrow> 4 \<le> r + length bs \<Longrightarrow>
   peek_bytes bs v r = Inr (to_u32 (v * 256 ^ (4 - r) + be_nat (take (4 - r) bs)))"
proof (induction bs arbitrary: v r)
  case Nil
  then show ?case by simp
next
  case (Cons b bs)
  show ?case
  proof (cases "r = 3")
    case True
    then show ?thesis by (simp add: Let_def be_nat_def)
  next
    case False
    with Cons.prems have r: "Suc r < 4" by simp
    then have d: "4 - r = Suc (4 - Suc r)" by simp
    have "peek_bytes (b # bs) v r = peek_bytes bs (v * 256 + unat b) (Suc r)"
      using r by (simp add: Let_def)
    also have "\<dots> = Inr (to_u32 ((v * 256 + unat b) * 256 ^ (4 - Suc r)
        + be_nat (take (4 - Suc r) bs)))"
      by (rule Cons.IH) (use r Cons.prems in simp_all)
    also have "(v * 256 + unat b) * 256 ^ (4 - Suc r) + be_nat (take (4 - Suc r) bs)
        = v * 256 ^ (4 - r) + be_nat (take (4 - r) (b # bs))"
      using Cons.prems
      by (simp add: d be_nat_Cons min_absorb2 algebra_simps)
    finally show ?thesis .
  qed
qed

lemma peek_chunks_acc:
  assumes "r < 4" and "4 \<le> r + length (concat cs)"
  shows "peek_chunks cs v r = to_u32 (v * 256 ^ (4 - r) + be_nat (take (4 - r) (concat cs)))"
  using assms
proof (induction cs arbitrary: v r)
  case Nil
  then show ?case by simp
next
  case (Cons c cs)
  show ?case
  proof (cases "r + length c < 4")
    case True
    then have p: "256 ^ (4 - r) = 256 ^ length c * (256 :: nat) ^ (4 - (r + length c))"
      by (simp flip: power_add)
    have "peek_chunks (c # cs) v r = peek_chunks cs (v * 256 ^ length c + be_nat c) (r + length c)"
      using True by (simp add: peek_bytes_short)
    also have "\<dots> = to_u32 ((v * 256 ^ length c + be_nat c) * 256 ^ (4 - (r + length c))
        + be_nat (take (4 - (r + length c)) (concat cs)))"
      by (rule Cons.IH) (use True Cons.prems in simp_all)
    finally show ?thesis
      using True Cons.prems
      by (simp add: be_nat_append p algebra_simps min_absorb2)
  next
    case False
    then show ?thesis using Cons.prems by (simp add: peek_bytes_enough)
  qed
qed

lemma peek_chunks_eq:
  assumes "4 \<le> length (concat cs)"
  shows "peek_chunks cs 0 0 = be_nat (take 4 (concat cs))"
proof -
  have "be_nat (take 4 (concat cs)) < 2 ^ 32"
    using be_nat_bound [of "take 4 (concat cs)"] assms by (simp add: min_absorb2)
  then show ?thesis using peek_chunks_acc [of 0 cs 0] assms by (simp add: to_u32_def)
qed

subsection \<open>Reading one length-prefixed frame\<close>

datatype 'q frame_read = NeedMore | TooLong nat | Frame bytes 'q

text \<open>The reframing step of the code over a queue's operations: wait for four bytes, peek the
  length, refuse it over the cap, wait for the body, take the prefix, take the body.\<close>

definition read_frame ::
  "('q \<Rightarrow> nat) \<Rightarrow> ('q \<Rightarrow> nat) \<Rightarrow> (nat \<Rightarrow> 'q \<Rightarrow> bytes \<times> 'q) \<Rightarrow> nat \<Rightarrow> 'q \<Rightarrow> 'q frame_read" where
  "read_frame qlen peek take' cap q =
     (if qlen q < 4 then NeedMore
      else let n = peek q in
        if cap < n then TooLong n
        else if qlen q < 4 + n then NeedMore
        else let (_, q1) = take' 4 q; (body, q2) = take' n q1 in Frame body q2)"

text \<open>The specification: the same step on the unread bytes themselves.\<close>

definition split_frame :: "nat \<Rightarrow> bytes \<Rightarrow> bytes frame_read" where
  "split_frame cap bs =
     (if length bs < 4 then NeedMore
      else let n = be_nat (take 4 bs) in
        if cap < n then TooLong n
        else if length bs < 4 + n then NeedMore
        else Frame (take n (drop 4 bs)) (drop (4 + n) bs))"

text \<open>What a sender writes for one frame.\<close>

definition frame_bytes :: "bytes \<Rightarrow> bytes" where
  "frame_bytes body = be_bytes 4 (length body) @ body"

lemma split_frame_NeedMore_iff:
  "split_frame cap bs = NeedMore \<longleftrightarrow>
     length bs < 4 \<or> (be_nat (take 4 bs) \<le> cap \<and> length bs < 4 + be_nat (take 4 bs))"
  by (auto simp: split_frame_def Let_def)

lemma split_frame_FrameD:
  assumes "split_frame cap bs = Frame body rest"
  shows "bs = take 4 bs @ body @ rest" "length body = be_nat (take 4 bs)" "length body \<le> cap"
    "length rest < length bs"
proof -
  let ?n = "be_nat (take 4 bs)"
  have l: "4 \<le> length bs" "?n \<le> cap" "4 + ?n \<le> length bs"
    and b: "body = take ?n (drop 4 bs)" and r: "rest = drop (4 + ?n) bs"
    using assms by (auto simp: split_frame_def Let_def split: if_splits)
  have "rest = drop ?n (drop 4 bs)" using r by (simp add: add.commute)
  then have "body @ rest = drop 4 bs" using b by (simp only: append_take_drop_id)
  then show "bs = take 4 bs @ body @ rest" by (simp only: append_take_drop_id)
  show "length body = ?n" using b l by simp
  then show "length body \<le> cap" using l by simp
  show "length rest < length bs" using r l by simp
qed

lemma split_frame_frame_bytes [bytes_simps]:
  assumes "length body \<le> cap" and "length body < 2 ^ 32"
  shows "split_frame cap (frame_bytes body @ rest) = Frame body rest"
  using assms by (simp add: split_frame_def frame_bytes_def Let_def bytes_simps)

text \<open>More input never changes a decision already made.\<close>

lemma split_frame_append:
  "split_frame cap bs = Frame body rest \<Longrightarrow> split_frame cap (bs @ ys) = Frame body (rest @ ys)"
  "split_frame cap bs = TooLong n \<Longrightarrow> split_frame cap (bs @ ys) = TooLong n"
  by (auto simp: split_frame_def Let_def split: if_splits)

subsection \<open>The interface\<close>

locale byte_stream =
  fixes content :: "'q \<Rightarrow> bytes"
    and inv :: "'q \<Rightarrow> bool"
    and push :: "bytes \<Rightarrow> 'q \<Rightarrow> 'q"
    and qlen :: "'q \<Rightarrow> nat"
    and peek :: "'q \<Rightarrow> nat"
    and take' :: "nat \<Rightarrow> 'q \<Rightarrow> bytes \<times> 'q"
  assumes inv_push: "inv q \<Longrightarrow> inv (push c q)"
    and content_push: "inv q \<Longrightarrow> content (push c q) = content q @ c"
    and qlen_content: "inv q \<Longrightarrow> qlen q = length (content q)"
    and peek_content: "inv q \<Longrightarrow> 4 \<le> length (content q) \<Longrightarrow> peek q = be_nat (take 4 (content q))"
    and inv_take: "inv q \<Longrightarrow> n \<le> length (content q) \<Longrightarrow> inv (snd (take' n q))"
    and fst_take: "inv q \<Longrightarrow> n \<le> length (content q) \<Longrightarrow> fst (take' n q) = take n (content q)"
    and content_take: "inv q \<Longrightarrow> n \<le> length (content q) \<Longrightarrow>
      content (snd (take' n q)) = drop n (content q)"
begin

text \<open>Whatever the chunking, reading a frame from the queue is \<open>split_frame\<close> on its content.\<close>

lemma read_frame_NeedMore:
  assumes "inv q"
  shows "read_frame qlen peek take' cap q = NeedMore \<longleftrightarrow> split_frame cap (content q) = NeedMore"
  using assms
  by (auto simp: read_frame_def split_frame_def Let_def qlen_content peek_content
      split: prod.splits)

lemma read_frame_TooLong:
  assumes "inv q"
  shows "read_frame qlen peek take' cap q = TooLong n \<longleftrightarrow> split_frame cap (content q) = TooLong n"
  using assms
  by (auto simp: read_frame_def split_frame_def Let_def qlen_content peek_content
      split: prod.splits)

lemma read_frame_Frame:
  assumes q: "inv q" and r: "read_frame qlen peek take' cap q = Frame body q'"
  shows "split_frame cap (content q) = Frame body (content q')" and "inv q'"
proof -
  let ?n = "be_nat (take 4 (content q))"
  let ?q1 = "snd (take' 4 q)"
  have l: "4 \<le> length (content q)" and cap: "?n \<le> cap" and n: "4 + ?n \<le> length (content q)"
    and b: "body = fst (take' ?n ?q1)" and q': "q' = snd (take' ?n ?q1)"
    using r q
    by (auto simp: read_frame_def Let_def qlen_content peek_content case_prod_beta
        split: if_splits)
  have q1: "inv ?q1" and c1: "content ?q1 = drop 4 (content q)"
    using q l by (simp_all add: inv_take content_take)
  have n1: "?n \<le> length (content ?q1)" using n by (simp add: c1)
  have "body = take ?n (drop 4 (content q))" using b fst_take [OF q1 n1] by (simp add: c1)
  moreover have "content q' = drop ?n (drop 4 (content q))"
    using q' content_take [OF q1 n1] by (simp add: c1)
  ultimately show "split_frame cap (content q) = Frame body (content q')"
    using l cap n by (simp add: split_frame_def Let_def add.commute)
  show "inv q'" using q' inv_take [OF q1 n1] by simp
qed

lemma read_frame_cases:
  assumes q: "inv q"
  obtains (need) "read_frame qlen peek take' cap q = NeedMore" "split_frame cap (content q) = NeedMore"
  | (long) n where "read_frame qlen peek take' cap q = TooLong n"
      "split_frame cap (content q) = TooLong n"
  | (frame) body q' where "read_frame qlen peek take' cap q = Frame body q'"
      "split_frame cap (content q) = Frame body (content q')" "inv q'"
  using read_frame_NeedMore [OF q] read_frame_TooLong [OF q] read_frame_Frame [OF q]
  by (metis frame_read.exhaust)

lemma read_frame_shrinks:
  assumes "inv q" and "read_frame qlen peek take' cap q = Frame body q'"
  shows "qlen q' < qlen q"
  using read_frame_Frame [OF assms] split_frame_FrameD(4) assms(1) by (simp add: qlen_content)

text \<open>Taking the whole content leaves nothing: the raw-phase hand-over.\<close>

lemma take_all:
  assumes "inv q"
  shows "fst (take' (qlen q) q) = content q" and "content (snd (take' (qlen q) q)) = []"
  using assms by (simp_all add: qlen_content fst_take content_take)

end

end
