(* ===== verification/ByteQueue.thy ===== *)
theory ByteQueue
  imports ByteStream
begin

text \<open>
  \<open>packages/channel/src/byte-queue.ts\<close>: the queue of inbound chunks behind a secure channel.
  Chunks are kept by reference; past \<open>COALESCE_THRESHOLD\<close> of them they are merged into one
  accumulator chunk that is a view of a backing buffer with slack, and later merges append into
  the slack in place. A chunk is therefore either an external array or a view (offset, length)
  of the current backing, and reading a view reads the backing. The queue is a refinement of
  the list of its unread bytes (interpretation \<open>bq\<close>), and the number of chunks is bounded.
\<close>

datatype chunk = Ext bytes | View nat nat

record byte_queue =
  bq_chunks :: "chunk list"
  bq_length :: nat
  bq_backing :: "bytes option"
  bq_used :: nat

definition COALESCE_THRESHOLD :: nat where
  "COALESCE_THRESHOLD = 256"

definition empty_queue :: byte_queue where
  "empty_queue = \<lparr>bq_chunks = [], bq_length = 0, bq_backing = None, bq_used = 0\<rparr>"

definition backing_bytes :: "bytes option \<Rightarrow> bytes" where
  "backing_bytes bk = (case bk of None \<Rightarrow> [] | Some b \<Rightarrow> b)"

fun chunk_bytes :: "bytes option \<Rightarrow> chunk \<Rightarrow> bytes" where
  "chunk_bytes bk (Ext bs) = bs"
| "chunk_bytes bk (View off len) = take len (drop off (backing_bytes bk))"

fun chunk_len :: "chunk \<Rightarrow> nat" where
  "chunk_len (Ext bs) = length bs"
| "chunk_len (View off len) = len"

text \<open>\<open>chunk.subarray(n)\<close>\<close>

fun chunk_from :: "nat \<Rightarrow> chunk \<Rightarrow> chunk" where
  "chunk_from n (Ext bs) = Ext (drop n bs)"
| "chunk_from n (View off len) = View (off + n) (len - n)"

text \<open>\<open>buffer.set(bs, off)\<close>\<close>

definition set_at :: "nat \<Rightarrow> bytes \<Rightarrow> bytes \<Rightarrow> bytes" where
  "set_at off bs buf = take off buf @ bs @ drop (off + length bs) buf"

text \<open>The copying loop of both paths of \<open>#coalesce\<close>: write the chunks one after the other from
  the given offset; the result is the buffer and the offset reached.\<close>

fun copy_chunks :: "bytes option \<Rightarrow> chunk list \<Rightarrow> nat \<Rightarrow> bytes \<Rightarrow> bytes \<times> nat" where
  "copy_chunks src [] off buf = (buf, off)"
| "copy_chunks src (c # cs) off buf =
     copy_chunks src cs (off + length (chunk_bytes src c)) (set_at off (chunk_bytes src c) buf)"

text \<open>The guard of the in-place path: the head chunk is the live view of the accumulator, it ends
  at the append offset, and the slack holds the rest.\<close>

fun in_place_ok :: "byte_queue \<Rightarrow> bool" where
  "in_place_ok q =
     (case (bq_backing q, bq_chunks q) of
        (Some b, View off len # _) \<Rightarrow>
          off + len = bq_used q \<and> bq_length q - len \<le> length b - bq_used q
      | _ \<Rightarrow> False)"

definition coalesce :: "byte_queue \<Rightarrow> byte_queue" where
  "coalesce q =
     (if in_place_ok q then
        (case (bq_backing q, bq_chunks q) of
           (Some b, View off len # cs) \<Rightarrow>
             let (b', used) = copy_chunks (Some b) cs (bq_used q) b
             in q\<lparr>bq_backing := Some b', bq_used := used, bq_chunks := [View off (used - off)]\<rparr>
         | _ \<Rightarrow> q)
      else
        let (b', used) = copy_chunks (bq_backing q) (bq_chunks q) 0 (replicate (bq_length q * 2) 0)
        in q\<lparr>bq_backing := Some b', bq_used := used, bq_chunks := [View 0 used]\<rparr>)"

definition push :: "bytes \<Rightarrow> byte_queue \<Rightarrow> byte_queue" where
  "push c q =
     (if c = [] then q
      else let q' = q\<lparr>bq_chunks := bq_chunks q @ [Ext c], bq_length := bq_length q + length c\<rparr>
        in if COALESCE_THRESHOLD < length (bq_chunks q') then coalesce q' else q')"

definition peekUint32BE :: "byte_queue \<Rightarrow> nat" where
  "peekUint32BE q = peek_chunks (map (chunk_bytes (bq_backing q)) (bq_chunks q)) 0 0"

text \<open>The loop of \<open>take\<close>: the bytes gathered (fewer than asked when the queue runs dry) and the
  chunks left.\<close>

fun take_loop :: "bytes option \<Rightarrow> chunk list \<Rightarrow> nat \<Rightarrow> bytes \<times> chunk list" where
  "take_loop bk [] want = ([], [])"
| "take_loop bk (c # cs) want =
     (if want = 0 then ([], c # cs)
      else if chunk_len c \<le> want then
        (let (out, rest) = take_loop bk cs (want - chunk_len c) in (chunk_bytes bk c @ out, rest))
      else (take want (chunk_bytes bk c), chunk_from want c # cs))"

definition take_bytes :: "nat \<Rightarrow> byte_queue \<Rightarrow> bytes \<times> byte_queue" where
  "take_bytes n q =
     (let (out, rest) = take_loop (bq_backing q) (bq_chunks q) n;
          q' = q\<lparr>bq_chunks := rest, bq_length := bq_length q - length out\<rparr>;
          q'' = (if rest = [] then q'\<lparr>bq_backing := None, bq_used := 0\<rparr> else q')
      in (out @ replicate (n - length out) 0, q''))"

definition chunkCount :: "byte_queue \<Rightarrow> nat" where
  "chunkCount q = length (bq_chunks q)"

subsection \<open>Abstraction and invariant\<close>

definition queue_content :: "byte_queue \<Rightarrow> bytes" where
  "queue_content q = concat (map (chunk_bytes (bq_backing q)) (bq_chunks q))"

text \<open>A view reads inside the filled part of the backing; only the head chunk can be one; no
  chunk is empty; the recorded length is the content's.\<close>

fun chunk_ok :: "bytes option \<Rightarrow> nat \<Rightarrow> chunk \<Rightarrow> bool" where
  "chunk_ok bk used (Ext bs) \<longleftrightarrow> bs \<noteq> []"
| "chunk_ok bk used (View off len) \<longleftrightarrow> 0 < len \<and> off + len \<le> used"

fun is_ext :: "chunk \<Rightarrow> bool" where
  "is_ext (Ext bs) = True"
| "is_ext (View off len) = False"

definition queue_inv :: "byte_queue \<Rightarrow> bool" where
  "queue_inv q \<longleftrightarrow>
     list_all (chunk_ok (bq_backing q) (bq_used q)) (bq_chunks q) \<and>
     list_all is_ext (tl (bq_chunks q)) \<and>
     bq_used q \<le> length (backing_bytes (bq_backing q)) \<and>
     bq_length q = length (queue_content q) \<and>
     length (bq_chunks q) \<le> COALESCE_THRESHOLD"

lemma length_chunk_bytes:
  "chunk_ok bk used c \<Longrightarrow> used \<le> length (backing_bytes bk) \<Longrightarrow>
   length (chunk_bytes bk c) = chunk_len c"
  by (cases c) auto

lemma chunk_from_bytes: "chunk_bytes bk (chunk_from n c) = drop n (chunk_bytes bk c)"
  by (cases c) (auto simp: drop_take add.commute)

lemma chunk_from_ok:
  "chunk_ok bk used c \<Longrightarrow> n < chunk_len c \<Longrightarrow> chunk_ok bk used (chunk_from n c)"
  by (cases c) auto

lemma is_ext_chunk_bytes: "is_ext c \<Longrightarrow> chunk_bytes bk c = chunk_bytes bk' c"
  by (cases c) auto

lemma map_ext_chunk_bytes:
  "list_all is_ext cs \<Longrightarrow> map (chunk_bytes bk) cs = map (chunk_bytes bk') cs"
  by (induction cs) (auto simp: is_ext_chunk_bytes [of _ bk bk'])

lemma copy_chunks_spec:
  assumes "off + length (concat (map (chunk_bytes src) cs)) \<le> length buf"
  shows "copy_chunks src cs off buf =
    (take off buf @ concat (map (chunk_bytes src) cs)
       @ drop (off + length (concat (map (chunk_bytes src) cs))) buf,
     off + length (concat (map (chunk_bytes src) cs)))"
  using assms
proof (induction cs arbitrary: off buf)
  case Nil
  then show ?case by simp
next
  case (Cons c cs)
  let ?b = "chunk_bytes src c"
  have l: "length (set_at off ?b buf) = length buf"
    using Cons.prems by (simp add: set_at_def)
  have t: "take (off + length ?b) (set_at off ?b buf) = take off buf @ ?b"
    using Cons.prems by (simp add: set_at_def)
  have d: "drop (off + (length ?b + k)) (set_at off ?b buf) = drop (off + (length ?b + k)) buf" for k
    using Cons.prems by (simp add: set_at_def min_absorb2 add.commute add.left_commute)
  show ?case
    using Cons.prems Cons.IH [of "off + length ?b" "set_at off ?b buf"]
    by (simp add: l t d add.assoc)
qed

lemma take_loop_spec:
  assumes "list_all (chunk_ok bk used) cs" and "used \<le> length (backing_bytes bk)"
  shows "fst (take_loop bk cs n) = take n (concat (map (chunk_bytes bk) cs))
    \<and> concat (map (chunk_bytes bk) (snd (take_loop bk cs n)))
        = drop n (concat (map (chunk_bytes bk) cs))
    \<and> list_all (chunk_ok bk used) (snd (take_loop bk cs n))
    \<and> length (snd (take_loop bk cs n)) \<le> length cs
    \<and> (list_all is_ext (tl cs) \<longrightarrow> list_all is_ext (tl (snd (take_loop bk cs n))))"
  using assms
proof (induction bk cs n rule: take_loop.induct)
  case (1 bk want)
  then show ?case by simp
next
  case (2 bk c cs want)
  have l: "length (chunk_bytes bk c) = chunk_len c"
    by (rule length_chunk_bytes) (use "2.prems" in auto)
  consider "want = 0" | "want \<noteq> 0" "chunk_len c \<le> want" | "want \<noteq> 0" "want < chunk_len c"
    by linarith
  then show ?case
  proof cases
    case 1
    then show ?thesis using 2 by simp
  next
    case 2
    have tl: "list_all is_ext cs \<Longrightarrow> list_all is_ext (tl cs)" by (cases cs) auto
    have rest: "list_all (chunk_ok bk used) cs" using "2.prems" by simp
    note IH = "2.IH" [OF 2(1,2) rest "2.prems"(2)]
    show ?thesis
      using 2 IH "2.prems" l tl by (auto simp: case_prod_beta)
  next
    case 3
    then show ?thesis
      using 2 l by (auto simp: chunk_from_bytes chunk_from_ok)
  qed
qed

lemma queue_inv_empty [simp]: "queue_inv empty_queue"
  by (simp add: queue_inv_def empty_queue_def queue_content_def)

lemma queue_content_empty [simp]: "queue_content empty_queue = []"
  by (simp add: queue_content_def empty_queue_def)

subsection \<open>Each operation refines its list counterpart\<close>

lemma coalesce_content:
  assumes ok: "list_all (chunk_ok (bq_backing q) (bq_used q)) (bq_chunks q)"
    and ext: "list_all is_ext (tl (bq_chunks q))"
    and used: "bq_used q \<le> length (backing_bytes (bq_backing q))"
    and len: "bq_length q = length (queue_content q)"
    and ne: "bq_chunks q \<noteq> []"
  shows "queue_content (coalesce q) = queue_content q \<and> queue_inv (coalesce q)"
proof (cases "in_place_ok q")
  case True
  then obtain b off l cs where b: "bq_backing q = Some b" and c: "bq_chunks q = View off l # cs"
    and u: "off + l = bq_used q" and sl: "bq_length q - l \<le> length b - bq_used q"
    by (auto split: option.splits list.splits chunk.splits)
  let ?tail = "concat (map (chunk_bytes (Some b)) cs)"
  have lb: "bq_used q \<le> length b" using used b by (simp add: backing_bytes_def)
  have l0: "0 < l" using ok c by simp
  have head: "length (take l (drop off b)) = l" using lb u by simp
  have qc: "queue_content q = take l (drop off b) @ ?tail"
    by (simp add: queue_content_def b c backing_bytes_def)
  have room: "bq_used q + length ?tail \<le> length b" using sl len lb head qc by simp
  have res: "coalesce q = q\<lparr>bq_backing := Some (take (bq_used q) b @ ?tail
      @ drop (bq_used q + length ?tail) b), bq_used := bq_used q + length ?tail,
      bq_chunks := [View off (bq_used q + length ?tail - off)]\<rparr>"
    using True room by (simp add: coalesce_def b c copy_chunks_spec)
  have d: "drop off (take (bq_used q) b) = take l (drop off b)"
    unfolding u [symmetric] by (simp add: drop_take)
  have n: "bq_used q + length ?tail - off = l + length ?tail" using u by simp
  have off: "off \<le> bq_used q" using u by simp
  have "queue_content (coalesce q) = queue_content q"
    unfolding res qc using lb off head
    by (simp add: queue_content_def backing_bytes_def n d)
  moreover have "queue_inv (coalesce q)"
  proof -
    have "bq_length (coalesce q) = length (queue_content (coalesce q))"
      using calculation len by (simp add: res)
    moreover have "0 < bq_used q + length ?tail - off" using u l0 by simp
    moreover have "off + (bq_used q + length ?tail - off) \<le> bq_used q + length ?tail"
      using u by simp
    moreover have "bq_used q + length ?tail \<le> length (take (bq_used q) b @ ?tail
        @ drop (bq_used q + length ?tail) b)"
      using room lb by simp
    ultimately show ?thesis
      unfolding queue_inv_def by (simp add: res backing_bytes_def COALESCE_THRESHOLD_def)
  qed
  ultimately show ?thesis by simp
next
  case False
  let ?n = "length (queue_content q)"
  have lq: "length (concat (map (chunk_bytes (bq_backing q)) (bq_chunks q))) = ?n"
    by (simp add: queue_content_def)
  have res: "coalesce q = q\<lparr>bq_backing := Some (queue_content q @ drop ?n (replicate (?n * 2) 0)),
      bq_used := ?n, bq_chunks := [View 0 ?n]\<rparr>"
    using False len by (simp add: coalesce_def copy_chunks_spec queue_content_def)
  have "0 < ?n"
    using ok ne used
    by (cases "bq_chunks q")
      (auto simp: queue_content_def dest: length_chunk_bytes elim: chunk_ok.elims)
  then show ?thesis
    using len by (simp add: res queue_content_def queue_inv_def backing_bytes_def
        COALESCE_THRESHOLD_def)
qed

lemma push_spec:
  assumes q: "queue_inv q"
  shows "queue_content (push c q) = queue_content q @ c \<and> queue_inv (push c q)"
proof (cases "c = []")
  case True
  then show ?thesis using q by (simp add: push_def)
next
  case False
  let ?q = "q\<lparr>bq_chunks := bq_chunks q @ [Ext c], bq_length := bq_length q + length c\<rparr>"
  have qc: "queue_content ?q = queue_content q @ c" by (simp add: queue_content_def)
  have ext: "list_all is_ext (tl (bq_chunks ?q))"
    using q by (cases "bq_chunks q") (auto simp: queue_inv_def)
  have ok: "list_all (chunk_ok (bq_backing ?q) (bq_used ?q)) (bq_chunks ?q)"
    using q False by (auto simp: queue_inv_def)
  have len: "bq_length ?q = length (queue_content ?q)"
    unfolding qc using q by (simp add: queue_inv_def)
  have used: "bq_used ?q \<le> length (backing_bytes (bq_backing ?q))"
    using q by (simp add: queue_inv_def)
  show ?thesis
  proof (cases "COALESCE_THRESHOLD < length (bq_chunks ?q)")
    case True
    then have p: "push c q = coalesce ?q" using False by (simp add: push_def)
    have "queue_content (coalesce ?q) = queue_content ?q \<and> queue_inv (coalesce ?q)"
      by (rule coalesce_content [OF ok ext used len]) simp
    then show ?thesis by (simp add: p qc)
  next
    case nt: False
    then have "push c q = ?q" using False by (simp add: push_def)
    then show ?thesis using used ok ext qc nt len unfolding queue_inv_def by simp
  qed
qed

lemma take_bytes_spec:
  assumes q: "queue_inv q" and n: "n \<le> length (queue_content q)"
  shows "fst (take_bytes n q) = take n (queue_content q)"
    "queue_content (snd (take_bytes n q)) = drop n (queue_content q)"
    "queue_inv (snd (take_bytes n q))"
proof -
  obtain out rest where t: "take_loop (bq_backing q) (bq_chunks q) n = (out, rest)"
    by (cases "take_loop (bq_backing q) (bq_chunks q) n")
  have o: "out = take n (queue_content q)"
    and r: "concat (map (chunk_bytes (bq_backing q)) rest) = drop n (queue_content q)"
    and ok: "list_all (chunk_ok (bq_backing q) (bq_used q)) rest"
    and lr: "length rest \<le> length (bq_chunks q)" and ext: "list_all is_ext (tl rest)"
    using take_loop_spec [of "bq_backing q" "bq_used q" "bq_chunks q" n] q t
    by (auto simp: queue_inv_def queue_content_def)
  have lo: "length out = n" using o n by simp
  show "fst (take_bytes n q) = take n (queue_content q)"
    using t o lo by (simp add: take_bytes_def Let_def)
  show c: "queue_content (snd (take_bytes n q)) = drop n (queue_content q)"
    using t r by (auto simp: take_bytes_def Let_def queue_content_def)
  show "queue_inv (snd (take_bytes n q))"
  proof -
    let ?q = "snd (take_bytes n q)"
    have "bq_length ?q = length (queue_content q) - n"
      using q t lo by (simp add: take_bytes_def Let_def queue_inv_def)
    then have "bq_length ?q = length (queue_content ?q)" by (simp add: c)
    then show ?thesis
      using q t lo ok lr ext unfolding queue_inv_def
      by (auto simp: take_bytes_def Let_def backing_bytes_def)
  qed
qed

lemma peekUint32BE_spec:
  "4 \<le> length (queue_content q) \<Longrightarrow> peekUint32BE q = be_nat (take 4 (queue_content q))"
  by (simp add: peekUint32BE_def queue_content_def peek_chunks_eq)

interpretation bq: byte_stream queue_content queue_inv push bq_length peekUint32BE take_bytes
  by unfold_locales
    (simp_all add: push_spec take_bytes_spec peekUint32BE_spec, simp add: queue_inv_def)

text \<open>The accumulator's backing never exceeds twice what was buffered when it was allocated, so
  the slack is bounded, and the chunk count never passes the threshold.\<close>

lemma chunkCount_bound: "queue_inv q \<Longrightarrow> chunkCount q \<le> COALESCE_THRESHOLD"
  by (simp add: queue_inv_def chunkCount_def)

end
