(* ===== verification/Channel.thy ===== *)
theory Channel
  imports Handshake ByteQueue
begin

text \<open>
  \<open>packages/channel/src/channel.ts\<close>: \<open>SecureChannel\<close> as a state machine. The state holds the
  class's private fields; \<open>ch_log\<close> is the sequence of effects (bytes handed to the duplex,
  promises settled, handlers called). The application's handlers are a parameter: given the
  log so far and the frame, they answer with the calls they make back into the channel and
  whether they end by throwing, so any deterministic handler is covered, reentrant ones
  included. The duplex itself is taken not to throw.
\<close>

definition HANDSHAKE_MSG_BYTES :: nat where
  "HANDSHAKE_MSG_BYTES = 32"

definition LENGTH_PREFIX_BYTES :: nat where
  "LENGTH_PREFIX_BYTES = 4"

definition RECORD_OVERHEAD_BYTES :: nat where
  "RECORD_OVERHEAD_BYTES = FRAME_TAG_BYTES + TAG_BYTES"

definition MAX_RECORD_BYTES :: nat where
  "MAX_RECORD_BYTES = 4 * 1024 * 1024"

datatype chan_event =
    DuplexSend bytes | DuplexClose
  | ReadyResolved | ReadyRejected "chan_error option"
  | AuthResolved | AuthRejected "chan_error option"
  | OnOpen | OnFrame frame | OnClose "chan_error option"
  | HandlerError | SendThrew chan_error

record channel =
  ch_role :: role
  ch_hs :: "handshake option"
  ch_in :: byte_queue
  ch_keys :: "session_keys option"
  ch_sealer :: "sealer option"
  ch_opener :: "opener option"
  ch_open :: bool
  ch_closed :: bool
  ch_auth :: bool
  ch_log :: "chan_event list"

text \<open>What a handler does to the channel while it runs, and the handlers.\<close>

datatype app_action = DoSend frame | DoClose

record app =
  on_frame :: "chan_event list \<Rightarrow> frame \<Rightarrow> app_action list \<times> bool"
  on_open :: "chan_event list \<Rightarrow> app_action list \<times> bool"

definition emit :: "chan_event \<Rightarrow> channel \<Rightarrow> channel" where
  "emit e ch = ch\<lparr>ch_log := ch_log ch @ [e]\<rparr>"

definition new_channel :: "role \<Rightarrow> handshake \<Rightarrow> channel" where
  "new_channel r h =
     \<lparr>ch_role = r, ch_hs = Some h, ch_in = empty_queue, ch_keys = None, ch_sealer = None,
      ch_opener = None, ch_open = False, ch_closed = False, ch_auth = False, ch_log = []\<rparr>"

text \<open>The constructor's microtask: the initiator opens the conversation.\<close>

definition start :: "channel \<Rightarrow> channel" where
  "start ch =
     (case ch_hs ch of
        Some h \<Rightarrow>
          if ch_role ch = Initiator \<and> \<not> ch_closed ch then emit (DuplexSend (hs_message h)) ch else ch
      | None \<Rightarrow> ch)"

subsection \<open>Shutdown and send\<close>

definition shutdown :: "chan_error option \<Rightarrow> channel \<Rightarrow> channel" where
  "shutdown err ch =
     (if ch_closed ch then ch
      else
        let ch = ch\<lparr>ch_closed := True, ch_open := False\<rparr>;
            ch = (if ch_keys ch = None then emit (ReadyRejected err) ch else ch);
            ch = (if \<not> ch_auth ch then emit (AuthRejected err) ch else ch);
            ch = ch\<lparr>ch_keys := None, ch_sealer := None, ch_opener := None\<rparr>
        in emit (OnClose err) (emit DuplexClose ch))"

definition send :: "crypto \<Rightarrow> frame \<Rightarrow> channel \<Rightarrow> chan_error + channel" where
  "send C f ch =
     (if ch_closed ch then Inl ChannelClosed
      else case (ch_open ch, ch_sealer ch) of
        (True, Some s) \<Rightarrow>
          if ch_role ch = Initiator \<and> \<not> ch_auth ch \<and> 1 \<le> sl_counter s then Inl PreAuthBudget
          else
            let recordLength = RECORD_OVERHEAD_BYTES + length (f_payload f)
            in if MAX_RECORD_BYTES < recordLength then Inl (RecordTooLong recordLength)
            else (case seal C (encodeFrame f) s of
                Inl e \<Rightarrow> Inl e
              | Inr (rec, s') \<Rightarrow>
                  Inr (emit (DuplexSend (frame_bytes rec)) (ch\<lparr>ch_sealer := Some s'\<rparr>)))
      | _ \<Rightarrow> Inl ChannelNotOpen)"

fun run_action :: "crypto \<Rightarrow> app_action \<Rightarrow> channel \<Rightarrow> channel" where
  "run_action C (DoSend f) ch =
     (case send C f ch of Inl e \<Rightarrow> emit (SendThrew e) ch | Inr ch' \<Rightarrow> ch')"
| "run_action C DoClose ch = shutdown None ch"

fun run_actions :: "crypto \<Rightarrow> app_action list \<Rightarrow> channel \<Rightarrow> channel" where
  "run_actions C [] ch = ch"
| "run_actions C (a # as) ch = run_actions C as (run_action C a ch)"

subsection \<open>Receive\<close>

text \<open>\<open>#deliverFrame\<close>: a throwing frame handler is reported and does not touch the channel.\<close>

definition deliverFrame :: "crypto \<Rightarrow> app \<Rightarrow> frame \<Rightarrow> channel \<Rightarrow> channel" where
  "deliverFrame C A f ch =
     (let (acts, throws) = on_frame A (ch_log ch) f;
          ch = run_actions C acts (emit (OnFrame f) ch)
      in if throws then emit HandlerError ch else ch)"

definition send_direction :: "role \<Rightarrow> direction" where
  "send_direction r = (if r = Initiator then InitiatorToResponder else ResponderToInitiator)"

definition recv_direction :: "role \<Rightarrow> direction" where
  "recv_direction r = (if r = Initiator then ResponderToInitiator else InitiatorToResponder)"

definition key_for :: "direction \<Rightarrow> session_keys \<Rightarrow> bytes" where
  "key_for d k = (if d = InitiatorToResponder then keyI2R k else keyR2I k)"

text \<open>Results of the code under the \<open>try\<close> of \<open>#receive\<close>: it returns, or throws an error from the
  state it had reached.\<close>

type_synonym outcome = "chan_error \<times> channel + channel"

text \<open>\<open>#completeHandshake\<close>. The open handler runs inside the fatal path, so its throw counts.\<close>

definition completeHandshake :: "crypto \<Rightarrow> app \<Rightarrow> bytes \<Rightarrow> channel \<Rightarrow> outcome" where
  "completeHandshake C A peer ch =
     (case ch_hs ch of
        None \<Rightarrow> Inr ch
      | Some h \<Rightarrow>
          (case consume C peer h of
             Inl e \<Rightarrow> Inl (e, ch)
           | Inr (keys, h') \<Rightarrow>
               let ch = (if ch_role ch = Responder then emit (DuplexSend (hs_message h)) ch else ch);
                   sd = send_direction (ch_role ch);
                   rd = recv_direction (ch_role ch);
                   ch = ch\<lparr>ch_keys := Some keys,
                           ch_sealer := Some (new_sealer C (key_for sd keys) (sessionId keys) sd),
                           ch_opener := Some (new_opener C (key_for rd keys) (sessionId keys) rd),
                           ch_open := True, ch_hs := None\<rparr>;
                   ch = emit OnOpen (emit ReadyResolved ch);
                   (acts, throws) = on_open A (ch_log ch);
                   ch = run_actions C acts ch
               in if throws then Inl (HandlerThrew, ch) else Inr ch))"

text \<open>The body of the record loop after a record has been taken off the queue.\<close>

definition process_record :: "crypto \<Rightarrow> app \<Rightarrow> bytes \<Rightarrow> channel \<Rightarrow> outcome" where
  "process_record C A rec ch =
     (case ch_opener ch of
        None \<Rightarrow> Inr ch
      | Some r \<Rightarrow>
          (case open_record C rec r of
             Inl e \<Rightarrow> Inl (e, ch)
           | Inr (bs, r') \<Rightarrow>
               let ch = ch\<lparr>ch_opener := Some r'\<rparr>
               in (case decodeFrame bs of
                     Inl e \<Rightarrow> Inl (e, ch)
                   | Inr f \<Rightarrow>
                       let ch = (if \<not> ch_auth ch then emit AuthResolved (ch\<lparr>ch_auth := True\<rparr>) else ch)
                       in Inr (deliverFrame C A f ch))))"

text \<open>The \<open>while\<close> loop of \<open>#drain\<close>. Every round takes a frame off the queue, so the queue's
  length is fuel enough (\<open>drain_records_total\<close>); \<open>None\<close> is a loop that has not returned.\<close>

fun drain_records :: "crypto \<Rightarrow> app \<Rightarrow> nat \<Rightarrow> channel \<Rightarrow> outcome option" where
  "drain_records C A 0 ch = None"
| "drain_records C A (Suc fuel) ch =
     (case ch_opener ch of
        None \<Rightarrow> Some (Inr ch)
      | Some _ \<Rightarrow>
          (case read_frame bq_length peekUint32BE take_bytes MAX_RECORD_BYTES (ch_in ch) of
             NeedMore \<Rightarrow> Some (Inr ch)
           | TooLong n \<Rightarrow> Some (Inl (RecordTooLong n, ch))
           | Frame rec q \<Rightarrow>
               (case process_record C A rec (ch\<lparr>ch_in := q\<rparr>) of
                  Inl x \<Rightarrow> Some (Inl x)
                | Inr ch' \<Rightarrow> drain_records C A fuel ch')))"

definition drain :: "crypto \<Rightarrow> app \<Rightarrow> channel \<Rightarrow> outcome option" where
  "drain C A ch =
     (if \<not> ch_open ch then
        if bq_length (ch_in ch) < HANDSHAKE_MSG_BYTES then Some (Inr ch)
        else
          let (msg, q) = take_bytes HANDSHAKE_MSG_BYTES (ch_in ch)
          in (case completeHandshake C A msg (ch\<lparr>ch_in := q\<rparr>) of
                Inl x \<Rightarrow> Some (Inl x)
              | Inr ch' \<Rightarrow> drain_records C A (Suc (bq_length (ch_in ch'))) ch')
      else drain_records C A (Suc (bq_length (ch_in ch))) ch)"

definition receive :: "crypto \<Rightarrow> app \<Rightarrow> bytes \<Rightarrow> channel \<Rightarrow> channel option" where
  "receive C A bs ch =
     (if ch_closed ch then Some ch
      else case drain C A (ch\<lparr>ch_in := push bs (ch_in ch)\<rparr>) of
        None \<Rightarrow> None
      | Some (Inr ch') \<Rightarrow> Some ch'
      | Some (Inl (e, ch')) \<Rightarrow> Some (shutdown (Some e) ch'))"

fun receive_all :: "crypto \<Rightarrow> app \<Rightarrow> bytes list \<Rightarrow> channel \<Rightarrow> channel option" where
  "receive_all C A [] ch = Some ch"
| "receive_all C A (c # cs) ch =
     (case receive C A c ch of None \<Rightarrow> None | Some ch' \<Rightarrow> receive_all C A cs ch')"

text \<open>The public \<open>close()\<close>, and a batch of sends that all succeed.\<close>

definition close_channel :: "channel \<Rightarrow> channel" where
  "close_channel ch = shutdown None ch"

fun send_all :: "crypto \<Rightarrow> frame list \<Rightarrow> channel \<Rightarrow> chan_error + channel" where
  "send_all C [] ch = Inr ch"
| "send_all C (f # fs) ch = (case send C f ch of Inl e \<Rightarrow> Inl e | Inr ch' \<Rightarrow> send_all C fs ch')"

end
