(* ===== verification/ChannelSpec.thy ===== *)
theory ChannelSpec
  imports Channel
begin

text \<open>
  The invariant of the secure channel: the fields agree about the phase (handshaking, open,
  closed), the channel closes at most once and drops every key when it does, and an initiator
  whose peer has proved nothing has put at most its handshake message and one record on the
  wire. Every operation keeps it, so it holds in every reachable state.

  The specification of the receive side: the same machine over the plain list of unread bytes,
  with no queue, no chunks and no fuel. The channel refines it (\<open>receive_refines\<close>, from the
  laws of the byte stream), and on the specification the chunk boundaries of the transport are
  seen not to matter.
\<close>

named_theorems chan_simps "field reads over the channel's primitive updates"

declare drain_records.simps [simp del]

subsection \<open>Counting effects\<close>

fun is_send :: "chan_event \<Rightarrow> bool" where
  "is_send (DuplexSend bs) = True"
| "is_send _ = False"

fun is_on_close :: "chan_event \<Rightarrow> bool" where
  "is_on_close (OnClose e) = True"
| "is_on_close _ = False"

definition sends :: "channel \<Rightarrow> nat" where
  "sends ch = length (filter is_send (ch_log ch))"

definition closes :: "channel \<Rightarrow> nat" where
  "closes ch = length (filter is_on_close (ch_log ch))"

lemma emit_fields [chan_simps, simp]:
  "ch_role (emit e ch) = ch_role ch" "ch_hs (emit e ch) = ch_hs ch" "ch_in (emit e ch) = ch_in ch"
  "ch_keys (emit e ch) = ch_keys ch" "ch_sealer (emit e ch) = ch_sealer ch"
  "ch_opener (emit e ch) = ch_opener ch" "ch_open (emit e ch) = ch_open ch"
  "ch_closed (emit e ch) = ch_closed ch" "ch_auth (emit e ch) = ch_auth ch"
  "ch_log (emit e ch) = ch_log ch @ [e]"
  "sends (emit e ch) = sends ch + (if is_send e then 1 else 0)"
  "closes (emit e ch) = closes ch + (if is_on_close e then 1 else 0)"
  by (simp_all add: emit_def sends_def closes_def)

lemma log_of_update [simp]:
  "sends (ch\<lparr>ch_in := q\<rparr>) = sends ch" "closes (ch\<lparr>ch_in := q\<rparr>) = closes ch"
  "sends (ch\<lparr>ch_sealer := s\<rparr>) = sends ch" "closes (ch\<lparr>ch_sealer := s\<rparr>) = closes ch"
  "sends (ch\<lparr>ch_opener := r\<rparr>) = sends ch" "closes (ch\<lparr>ch_opener := r\<rparr>) = closes ch"
  "sends (ch\<lparr>ch_auth := b\<rparr>) = sends ch" "closes (ch\<lparr>ch_auth := b\<rparr>) = closes ch"
  by (simp_all add: sends_def closes_def)

subsection \<open>The invariant\<close>

definition phase_ok :: "channel \<Rightarrow> bool" where
  "phase_ok ch \<longleftrightarrow>
     (ch_closed ch \<longrightarrow> \<not> ch_open ch \<and> ch_keys ch = None \<and> ch_sealer ch = None \<and> ch_opener ch = None) \<and>
     (\<not> ch_closed ch \<longrightarrow>
        (ch_open ch \<longleftrightarrow> ch_hs ch = None) \<and> (ch_open ch \<longleftrightarrow> ch_keys ch \<noteq> None) \<and>
        (ch_open ch \<longleftrightarrow> ch_sealer ch \<noteq> None) \<and> (ch_open ch \<longleftrightarrow> ch_opener ch \<noteq> None))"

definition budget_ok :: "channel \<Rightarrow> bool" where
  "budget_ok ch \<longleftrightarrow>
     (ch_role ch = Initiator \<and> \<not> ch_auth ch \<longrightarrow>
        (\<forall>s. ch_sealer ch = Some s \<longrightarrow> sl_counter s \<le> 1 \<and> sends ch \<le> 1 + sl_counter s) \<and>
        (ch_sealer ch = None \<longrightarrow> sends ch \<le> (if ch_closed ch then 2 else 1)))"

definition chan_inv :: "channel \<Rightarrow> bool" where
  "chan_inv ch \<longleftrightarrow>
     phase_ok ch \<and> budget_ok ch \<and> closes ch = (if ch_closed ch then 1 else 0) \<and>
     (AuthResolved \<in> set (ch_log ch) \<longleftrightarrow> ch_auth ch)"

lemma chan_inv_set_in [simp]: "chan_inv (ch\<lparr>ch_in := q\<rparr>) = chan_inv ch"
  by (simp add: chan_inv_def phase_ok_def budget_ok_def)

lemma chan_inv_emit:
  "chan_inv ch \<Longrightarrow> \<not> is_send e \<Longrightarrow> \<not> is_on_close e \<Longrightarrow> e \<noteq> AuthResolved \<Longrightarrow> chan_inv (emit e ch)"
  by (auto simp: chan_inv_def phase_ok_def budget_ok_def split: option.splits)

lemma chan_inv_new: "chan_inv (new_channel r h)"
  by (simp add: chan_inv_def phase_ok_def budget_ok_def new_channel_def sends_def closes_def)

lemma chan_inv_start: "chan_inv ch \<Longrightarrow> ch_log ch = [] \<Longrightarrow> chan_inv (start ch)"
  by (auto simp: chan_inv_def phase_ok_def budget_ok_def start_def sends_def closes_def
      split: option.splits)

lemma shutdown_fields [chan_simps, simp]:
  "ch_closed (shutdown e ch)" "ch_role (shutdown e ch) = ch_role ch" "ch_in (shutdown e ch) = ch_in ch"
  "ch_auth (shutdown e ch) = ch_auth ch" "ch_hs (shutdown e ch) = ch_hs ch"
  by (simp_all add: shutdown_def Let_def)

lemma chan_inv_shutdown: "chan_inv ch \<Longrightarrow> chan_inv (shutdown e ch)"
  by (auto simp: chan_inv_def phase_ok_def budget_ok_def shutdown_def Let_def sends_def closes_def
      split: option.splits if_splits)

lemma send_InrD:
  assumes "send C f ch = Inr ch'"
  obtains s rec where "\<not> ch_closed ch" "ch_open ch" "ch_sealer ch = Some s"
    "\<not> (ch_role ch = Initiator \<and> \<not> ch_auth ch \<and> 1 \<le> sl_counter s)"
    "length (f_payload f) + RECORD_OVERHEAD_BYTES \<le> MAX_RECORD_BYTES"
    "seal C (encodeFrame f) s = Inr (rec, s\<lparr>sl_counter := sl_counter s + 1\<rparr>)"
    "ch' = emit (DuplexSend (frame_bytes rec)) (ch\<lparr>ch_sealer := Some (s\<lparr>sl_counter := sl_counter s + 1\<rparr>)\<rparr>)"
  using assms
proof -
  obtain s where s: "ch_sealer ch = Some s" using assms by (auto simp: send_def split: if_splits option.splits bool.splits)
  then obtain rec s' where r: "seal C (encodeFrame f) s = Inr (rec, s')" and e: "ch' = emit (DuplexSend (frame_bytes rec)) (ch\<lparr>ch_sealer := Some s'\<rparr>)"
    using assms by (auto simp: send_def Let_def split: if_splits sum.splits bool.splits)
  have "s' = s\<lparr>sl_counter := sl_counter s + 1\<rparr>" using seal_InrD [OF r] by simp
  note r = r [unfolded this] e [unfolded this]
  show thesis
    by (rule that [OF _ _ s _ _ r]) (use assms s in \<open>auto simp: send_def Let_def split: if_splits bool.splits\<close>)
qed

lemma send_fields:
  assumes "send C f ch = Inr ch'"
  shows "ch_role ch' = ch_role ch" "ch_hs ch' = ch_hs ch" "ch_in ch' = ch_in ch"
    "ch_opener ch' = ch_opener ch" "ch_open ch' = ch_open ch" "ch_closed ch' = ch_closed ch"
    "ch_auth ch' = ch_auth ch" "ch_keys ch' = ch_keys ch"
  using assms by (auto elim!: send_InrD)

lemma chan_inv_send:
  assumes "chan_inv ch" and "send C f ch = Inr ch'"
  shows "chan_inv ch'"
  using assms(2)
  by (rule send_InrD)
    (use assms(1) in \<open>auto simp: chan_inv_def phase_ok_def budget_ok_def\<close>)

lemma run_action_fields:
  "ch_role (run_action C a ch) = ch_role ch" "ch_in (run_action C a ch) = ch_in ch"
  "ch_auth (run_action C a ch) = ch_auth ch" "ch_hs (run_action C a ch) = ch_hs ch"
  by (cases a; auto simp: send_fields split: sum.splits)+

lemma run_actions_fields [chan_simps, simp]:
  "ch_role (run_actions C as ch) = ch_role ch" "ch_in (run_actions C as ch) = ch_in ch"
  "ch_auth (run_actions C as ch) = ch_auth ch" "ch_hs (run_actions C as ch) = ch_hs ch"
  by (induction as arbitrary: ch) (auto simp: run_action_fields)

lemma chan_inv_run_action: "chan_inv ch \<Longrightarrow> chan_inv (run_action C a ch)"
  by (cases a) (auto simp: chan_inv_shutdown chan_inv_emit chan_inv_send split: sum.splits)

lemma chan_inv_run_actions: "chan_inv ch \<Longrightarrow> chan_inv (run_actions C as ch)"
  by (induction as arbitrary: ch) (auto simp: chan_inv_run_action)

lemma deliverFrame_fields [chan_simps, simp]:
  "ch_role (deliverFrame C A f ch) = ch_role ch" "ch_in (deliverFrame C A f ch) = ch_in ch"
  "ch_auth (deliverFrame C A f ch) = ch_auth ch" "ch_hs (deliverFrame C A f ch) = ch_hs ch"
  by (auto simp: deliverFrame_def Let_def split: prod.splits)

lemma chan_inv_deliverFrame: "chan_inv ch \<Longrightarrow> chan_inv (deliverFrame C A f ch)"
  by (auto simp: deliverFrame_def Let_def intro!: chan_inv_emit chan_inv_run_actions split: prod.splits)

lemma chan_inv_set_opener:
  "chan_inv ch \<Longrightarrow> ch_opener ch \<noteq> None \<Longrightarrow> chan_inv (ch\<lparr>ch_opener := Some r\<rparr>)"
  by (auto simp: chan_inv_def phase_ok_def budget_ok_def)

lemma chan_inv_authenticate:
  "chan_inv ch \<Longrightarrow> chan_inv (emit AuthResolved (ch\<lparr>ch_auth := True\<rparr>))"
  by (auto simp: chan_inv_def phase_ok_def budget_ok_def)

text \<open>The state an outcome carries, whether it returned or threw.\<close>

fun outcome_state :: "outcome \<Rightarrow> channel" where
  "outcome_state (Inl (e, ch)) = ch"
| "outcome_state (Inr ch) = ch"

lemma process_record_inv:
  assumes ch: "chan_inv ch"
  shows "chan_inv (outcome_state (process_record C A rec ch))"
    "ch_in (outcome_state (process_record C A rec ch)) = ch_in ch"
proof -
  have "chan_inv (ch\<lparr>ch_opener := Some r'\<rparr>)" if "ch_opener ch = Some r" for r r'
    using ch that by (simp add: chan_inv_set_opener)
  then show "chan_inv (outcome_state (process_record C A rec ch))"
    using ch chan_inv_authenticate [of "ch\<lparr>ch_opener := Some _\<rparr>"]
    by (auto simp: process_record_def Let_def chan_inv_deliverFrame split: option.splits sum.splits)
  show "ch_in (outcome_state (process_record C A rec ch)) = ch_in ch"
    by (auto simp: process_record_def Let_def split: option.splits sum.splits)
qed

lemma completeHandshake_inv:
  assumes ch: "chan_inv ch" and o: "\<not> ch_open ch" "\<not> ch_closed ch"
  shows "chan_inv (outcome_state (completeHandshake C A msg ch))"
    "ch_in (outcome_state (completeHandshake C A msg ch)) = ch_in ch"
proof -
  have opened: "chan_inv (emit OnOpen (emit ReadyResolved
     ((if ch_role ch = Responder then emit (DuplexSend m) ch else ch)
        \<lparr>ch_keys := Some k, ch_sealer := Some (new_sealer C key sid d), ch_opener := Some r,
         ch_open := True, ch_hs := None\<rparr>)))" for m k key sid d r
    using ch o
    by (auto simp: chan_inv_def phase_ok_def budget_ok_def new_sealer_def sends_def closes_def)
  show "chan_inv (outcome_state (completeHandshake C A msg ch))"
    unfolding completeHandshake_def
    using ch chan_inv_run_actions [OF opened]
    by (auto simp: Let_def split: option.splits sum.splits prod.splits if_splits)
  show "ch_in (outcome_state (completeHandshake C A msg ch)) = ch_in ch"
    by (auto simp: completeHandshake_def Let_def split: option.splits sum.splits prod.splits)
qed

lemma drain_records_inv:
  "chan_inv ch \<Longrightarrow> drain_records C A fuel ch = Some res \<Longrightarrow> chan_inv (outcome_state res)"
proof (induction fuel arbitrary: ch)
  case 0
  then show ?case by (simp add: drain_records.simps)
next
  case (Suc fuel)
  show ?case
  proof (cases "ch_opener ch")
    case None
    then show ?thesis using Suc.prems by (auto simp: drain_records.simps)
  next
    case (Some r)
    show ?thesis
    proof (cases "read_frame bq_length peekUint32BE take_bytes MAX_RECORD_BYTES (ch_in ch)")
      case (Frame rec q)
      have p: "chan_inv (outcome_state (process_record C A rec (ch\<lparr>ch_in := q\<rparr>)))"
        using Suc.prems(1) by (simp add: process_record_inv)
      show ?thesis
        using Suc Some Frame p
        by (cases "process_record C A rec (ch\<lparr>ch_in := q\<rparr>)") (auto simp: drain_records.simps)
    qed (use Suc.prems Some in \<open>auto simp: drain_records.simps\<close>)
  qed
qed

lemma drain_inv:
  assumes ch: "chan_inv ch" "\<not> ch_closed ch" and d: "drain C A ch = Some res"
  shows "chan_inv (outcome_state res)"
proof (cases "ch_open ch")
  case True
  then show ?thesis using assms by (auto simp: drain_def dest: drain_records_inv)
next
  case False
  show ?thesis
  proof (cases "bq_length (ch_in ch) < HANDSHAKE_MSG_BYTES")
    case True
    then show ?thesis using False assms by (auto simp: drain_def)
  next
    case f: False
    obtain msg q where t: "take_bytes HANDSHAKE_MSG_BYTES (ch_in ch) = (msg, q)"
      by (cases "take_bytes HANDSHAKE_MSG_BYTES (ch_in ch)")
    have h: "chan_inv (outcome_state (completeHandshake C A msg (ch\<lparr>ch_in := q\<rparr>)))"
      using False ch by (intro completeHandshake_inv) simp_all
    show ?thesis
      using d False f t h by (auto simp: drain_def dest: drain_records_inv split: sum.splits)
  qed
qed

lemma receive_inv:
  assumes "chan_inv ch" and "receive C A bs ch = Some ch'"
  shows "chan_inv ch'"
  using assms drain_inv [of "ch\<lparr>ch_in := push bs (ch_in ch)\<rparr>" C A]
  by (fastforce simp: receive_def intro: chan_inv_shutdown split: if_splits option.splits sum.splits)

subsection \<open>Reachable states\<close>

text \<open>The runs of one channel: construction, the initiator's microtask, and then sends, inbound
  chunks and closes in any order.\<close>

inductive reachable :: "crypto \<Rightarrow> app \<Rightarrow> channel \<Rightarrow> bool" for C A where
  init: "reachable C A (new_channel (hs_role h) h)"
| start: "reachable C A ch \<Longrightarrow> ch_log ch = [] \<Longrightarrow> reachable C A (start ch)"
| send: "reachable C A ch \<Longrightarrow> send C f ch = Inr ch' \<Longrightarrow> reachable C A ch'"
| receive: "reachable C A ch \<Longrightarrow> receive C A bs ch = Some ch' \<Longrightarrow> reachable C A ch'"
| close: "reachable C A ch \<Longrightarrow> reachable C A (close_channel ch)"

lemma reachable_inv: "reachable C A ch \<Longrightarrow> chan_inv ch"
  by (induction rule: reachable.induct)
    (auto simp: chan_inv_new chan_inv_start close_channel_def
      intro: chan_inv_send receive_inv chan_inv_shutdown)

subsection \<open>The channel's code never looks at the queue outside the reframing\<close>

lemma emit_set_in [chan_simps]: "emit e (ch\<lparr>ch_in := q\<rparr>) = (emit e ch)\<lparr>ch_in := q\<rparr>"
  by (simp add: emit_def)

lemma shutdown_set_in [chan_simps]: "shutdown e (ch\<lparr>ch_in := q\<rparr>) = (shutdown e ch)\<lparr>ch_in := q\<rparr>"
  by (simp add: shutdown_def Let_def emit_def)

lemma send_set_in [chan_simps]:
  "send C f (ch\<lparr>ch_in := q\<rparr>) = map_sum id (\<lambda>c. c\<lparr>ch_in := q\<rparr>) (send C f ch)"
  by (cases "ch_sealer ch"; cases "ch_open ch")
    (auto simp: send_def Let_def emit_def split: sum.splits)

lemma run_action_set_in [chan_simps]:
  "run_action C a (ch\<lparr>ch_in := q\<rparr>) = (run_action C a ch)\<lparr>ch_in := q\<rparr>"
  by (cases a) (auto simp: chan_simps split: sum.splits)

lemma run_actions_set_in [chan_simps]:
  "run_actions C as (ch\<lparr>ch_in := q\<rparr>) = (run_actions C as ch)\<lparr>ch_in := q\<rparr>"
  by (induction as arbitrary: ch) (auto simp: run_action_set_in)

lemma deliverFrame_set_in [chan_simps]:
  "deliverFrame C A f (ch\<lparr>ch_in := q\<rparr>) = (deliverFrame C A f ch)\<lparr>ch_in := q\<rparr>"
  by (simp add: deliverFrame_def Let_def emit_set_in run_actions_set_in split: prod.splits)

abbreviation set_in :: "byte_queue \<Rightarrow> outcome \<Rightarrow> outcome" where
  "set_in q \<equiv> map_sum (map_prod id (\<lambda>c. c\<lparr>ch_in := q\<rparr>)) (\<lambda>c. c\<lparr>ch_in := q\<rparr>)"

lemma process_record_set_in:
  "process_record C A rec (ch\<lparr>ch_in := q\<rparr>) = set_in q (process_record C A rec ch)"
proof -
  have upd: "c\<lparr>ch_in := q, ch_opener := r\<rparr> = c\<lparr>ch_opener := r, ch_in := q\<rparr>"
    "c\<lparr>ch_in := q, ch_auth := b\<rparr> = c\<lparr>ch_auth := b, ch_in := q\<rparr>" for c :: channel and r b
    by simp_all
  show ?thesis
    by (auto simp: process_record_def Let_def upd emit_set_in deliverFrame_set_in
        split: option.splits sum.splits)
qed

lemma completeHandshake_set_in:
  "completeHandshake C A msg (ch\<lparr>ch_in := q\<rparr>) = set_in q (completeHandshake C A msg ch)"
proof -
  have upd: "c\<lparr>ch_in := q, ch_keys := k, ch_sealer := s, ch_opener := r, ch_open := b, ch_hs := h\<rparr>
    = c\<lparr>ch_keys := k, ch_sealer := s, ch_opener := r, ch_open := b, ch_hs := h, ch_in := q\<rparr>"
    for c :: channel and k s r b h
    by simp
  show ?thesis
    by (auto simp: completeHandshake_def Let_def emit_set_in run_actions_set_in upd
        split: option.splits sum.splits prod.splits)
qed

subsection \<open>The specification\<close>

function spec_records ::
  "crypto \<Rightarrow> app \<Rightarrow> bytes \<Rightarrow> channel \<Rightarrow> chan_error \<times> bytes \<times> channel + bytes \<times> channel" where
  "spec_records C A bs ch =
     (case ch_opener ch of
        None \<Rightarrow> Inr (bs, ch)
      | Some _ \<Rightarrow>
          (case split_frame MAX_RECORD_BYTES bs of
             NeedMore \<Rightarrow> Inr (bs, ch)
           | TooLong n \<Rightarrow> Inl (RecordTooLong n, bs, ch)
           | Frame rec rest \<Rightarrow>
               (case process_record C A rec ch of
                  Inl (e, ch') \<Rightarrow> Inl (e, rest, ch')
                | Inr ch' \<Rightarrow> spec_records C A rest ch')))"
  by pat_completeness auto
termination
  by (relation "measure (\<lambda>(C, A, bs, ch). length bs)") (auto dest: split_frame_FrameD(4))

declare spec_records.simps [simp del]

definition spec_drain ::
  "crypto \<Rightarrow> app \<Rightarrow> bytes \<Rightarrow> channel \<Rightarrow> chan_error \<times> bytes \<times> channel + bytes \<times> channel" where
  "spec_drain C A bs ch =
     (if \<not> ch_open ch then
        if length bs < HANDSHAKE_MSG_BYTES then Inr (bs, ch)
        else
          (case completeHandshake C A (take HANDSHAKE_MSG_BYTES bs) ch of
             Inl (e, ch') \<Rightarrow> Inl (e, drop HANDSHAKE_MSG_BYTES bs, ch')
           | Inr ch' \<Rightarrow> spec_records C A (drop HANDSHAKE_MSG_BYTES bs) ch')
      else spec_records C A bs ch)"

definition spec_receive :: "crypto \<Rightarrow> app \<Rightarrow> bytes \<Rightarrow> bytes \<times> channel \<Rightarrow> bytes \<times> channel" where
  "spec_receive C A new s =
     (case s of (bs, ch) \<Rightarrow>
        if ch_closed ch then (bs, ch)
        else case spec_drain C A (bs @ new) ch of
          Inr res \<Rightarrow> res
        | Inl (e, bs', ch') \<Rightarrow> (bs', shutdown (Some e) ch'))"

text \<open>What the specification sees of a channel: its unread bytes, and the rest.\<close>

definition view :: "channel \<Rightarrow> bytes \<times> channel" where
  "view ch = (queue_content (ch_in ch), ch\<lparr>ch_in := empty_queue\<rparr>)"

definition view_outcome :: "outcome \<Rightarrow> chan_error \<times> bytes \<times> channel + bytes \<times> channel" where
  "view_outcome = map_sum (map_prod id view) view"

lemma view_set_in: "queue_content q = bs \<Longrightarrow> view (ch\<lparr>ch_in := q\<rparr>) = (bs, ch\<lparr>ch_in := empty_queue\<rparr>)"
  by (simp add: view_def)

subsection \<open>Refinement\<close>

lemma drain_records_refines:
  assumes "queue_inv (ch_in ch)" and "length (queue_content (ch_in ch)) < fuel"
  shows "\<exists>res. drain_records C A fuel ch = Some res \<and>
     view_outcome res = spec_records C A (queue_content (ch_in ch)) (ch\<lparr>ch_in := empty_queue\<rparr>) \<and>
     queue_inv (ch_in (outcome_state res))"
  using assms
proof (induction fuel arbitrary: ch)
  case 0
  then show ?case by simp
next
  case (Suc fuel)
  let ?bs = "queue_content (ch_in ch)"
  let ?ch = "ch\<lparr>ch_in := empty_queue\<rparr>"
  note unf = drain_records.simps spec_records.simps [of C A ?bs ?ch] view_outcome_def view_def
  show ?case
  proof (cases "ch_opener ch")
    case None
    then show ?thesis using Suc.prems by (simp add: unf)
  next
    case (Some r)
    from Suc.prems(1) show ?thesis
    proof (cases rule: bq.read_frame_cases [where cap = MAX_RECORD_BYTES])
      case need
      then show ?thesis using Some Suc.prems by (simp add: unf)
    next
      case (long n)
      then show ?thesis using Some Suc.prems by (simp add: unf)
    next
      case (frame rec q)
      have pe: "process_record C A rec ?ch = set_in empty_queue (process_record C A rec ch)"
        and pq: "process_record C A rec (ch\<lparr>ch_in := q\<rparr>) = set_in q (process_record C A rec ch)"
        by (rule process_record_set_in)+
      show ?thesis
      proof (cases "process_record C A rec ch")
        case (Inl x)
        then show ?thesis using Some frame pe pq
          by (cases x) (simp add: unf)
      next
        case (Inr ch')
        have "length (queue_content q) < fuel"
          using split_frame_FrameD(4) [OF frame(2)] Suc.prems(2) by simp
        then show ?thesis
          using Some frame pe pq Inr Suc.IH [of "ch'\<lparr>ch_in := q\<rparr>"] by (simp add: unf)
      qed
    qed
  qed
qed

lemma drain_refines:
  assumes q: "queue_inv (ch_in ch)"
  shows "\<exists>res. drain C A ch = Some res \<and>
     view_outcome res = spec_drain C A (queue_content (ch_in ch)) (ch\<lparr>ch_in := empty_queue\<rparr>) \<and>
     queue_inv (ch_in (outcome_state res))"
proof -
  let ?bs = "queue_content (ch_in ch)"
  have l: "bq_length (ch_in ch) = length ?bs" using q by (rule bq.qlen_content)
  show ?thesis
  proof (cases "ch_open ch \<or> length ?bs < HANDSHAKE_MSG_BYTES")
    case True
    then show ?thesis
      using drain_records_refines [OF q, of "Suc (length ?bs)" C A] q l
      by (auto simp: drain_def spec_drain_def view_outcome_def view_def)
  next
    case False
    have h: "HANDSHAKE_MSG_BYTES \<le> length ?bs" using False by simp
    obtain q' where t: "take_bytes HANDSHAKE_MSG_BYTES (ch_in ch) = (take HANDSHAKE_MSG_BYTES ?bs, q')"
      and qq: "queue_inv q'" "queue_content q' = drop HANDSHAKE_MSG_BYTES ?bs"
      using bq.fst_take [OF q h] bq.inv_take [OF q h] bq.content_take [OF q h]
      by (metis prod.collapse)
    note sets = completeHandshake_set_in [of C A "take HANDSHAKE_MSG_BYTES ?bs" _ ch]
    show ?thesis
    proof (cases "completeHandshake C A (take HANDSHAKE_MSG_BYTES ?bs) ch")
      case (Inl x)
      then show ?thesis using False l t sets qq
        by (cases x) (auto simp: drain_def spec_drain_def view_outcome_def view_def)
    next
      case (Inr ch')
      have "\<exists>res. drain_records C A (Suc (bq_length q')) (ch'\<lparr>ch_in := q'\<rparr>) = Some res \<and>
          view_outcome res = spec_records C A (queue_content q') (ch'\<lparr>ch_in := empty_queue\<rparr>) \<and>
          queue_inv (ch_in (outcome_state res))"
        using drain_records_refines [of "ch'\<lparr>ch_in := q'\<rparr>" "Suc (bq_length q')" C A] qq
          bq.qlen_content [OF qq(1)]
        by simp
      then show ?thesis using False l t sets qq Inr by (auto simp: drain_def spec_drain_def)
    qed
  qed
qed

lemma receive_refines:
  assumes q: "queue_inv (ch_in ch)"
  shows "\<exists>ch'. receive C A bs ch = Some ch' \<and> view ch' = spec_receive C A bs (view ch) \<and>
    queue_inv (ch_in ch')"
proof (cases "ch_closed ch")
  case True
  then show ?thesis using q by (simp add: receive_def spec_receive_def view_def)
next
  case False
  let ?ch = "ch\<lparr>ch_in := push bs (ch_in ch)\<rparr>"
  have p: "queue_inv (ch_in ?ch)" "queue_content (ch_in ?ch) = queue_content (ch_in ch) @ bs"
    using q by (simp_all add: bq.inv_push bq.content_push)
  obtain res where d: "drain C A ?ch = Some res"
    and v: "view_outcome res = spec_drain C A (queue_content (ch_in ch) @ bs) (ch\<lparr>ch_in := empty_queue\<rparr>)"
    and i: "queue_inv (ch_in (outcome_state res))"
    using drain_refines [OF p(1), of C A] p(2) by auto
  show ?thesis
  proof (cases res)
    case (Inl x)
    then show ?thesis using False d v i
      by (cases x) (auto simp: receive_def spec_receive_def view_def view_outcome_def shutdown_set_in
          simp flip: v)
  next
    case (Inr ch')
    then show ?thesis using False d v i
      by (auto simp: receive_def spec_receive_def view_def view_outcome_def simp flip: v)
  qed
qed

lemma receive_all_refines:
  "queue_inv (ch_in ch) \<Longrightarrow>
   \<exists>ch'. receive_all C A cs ch = Some ch' \<and> view ch' = fold (spec_receive C A) cs (view ch) \<and>
     queue_inv (ch_in ch')"
proof (induction cs arbitrary: ch)
  case Nil
  then show ?case by simp
next
  case (Cons c cs)
  then show ?case using receive_refines [OF Cons.prems, of C A c] by fastforce
qed

subsection \<open>Chunk boundaries do not matter\<close>

lemma spec_records_append_Inl:
  "spec_records C A bs ch = Inl (e, rest, ch') \<Longrightarrow>
   spec_records C A (bs @ ys) ch = Inl (e, rest @ ys, ch')"
proof (induction C A bs ch rule: spec_records.induct)
  case (1 C A bs ch)
  then show ?case
    by (subst spec_records.simps, subst (asm) spec_records.simps)
      (auto simp: split_frame_append split: option.splits frame_read.splits sum.splits)
qed

lemma spec_records_append_Inr:
  "spec_records C A bs ch = Inr (bs', ch') \<Longrightarrow>
   spec_records C A (bs @ ys) ch = spec_records C A (bs' @ ys) ch'"
proof (induction C A bs ch rule: spec_records.induct)
  case (1 C A bs ch)
  show ?case
  proof (cases "ch_opener ch")
    case None
    then show ?thesis using "1.prems" by (simp add: spec_records.simps [of C A bs])
  next
    case (Some r)
    show ?thesis
    proof (cases "split_frame MAX_RECORD_BYTES bs")
      case (Frame rec rest)
      then show ?thesis
        using 1 Some split_frame_append(1) [OF Frame, of ys]
        by (auto simp: spec_records.simps [of C A bs] spec_records.simps [of C A "bs @ ys"]
            split: sum.splits)
    qed (use "1.prems" Some in \<open>auto simp: spec_records.simps [of C A bs]\<close>)
  qed
qed

lemma spec_records_closed: "ch_opener ch = None \<Longrightarrow> spec_records C A bs ch = Inr (bs, ch)"
  by (simp add: spec_records.simps)

definition agree :: "bytes \<times> channel \<Rightarrow> bytes \<times> channel \<Rightarrow> bool" where
  "agree s t \<longleftrightarrow> snd s = snd t \<and> (\<not> ch_closed (snd s) \<longrightarrow> fst s = fst t)"

lemma agree_refl [simp]: "agree s s"
  by (simp add: agree_def)

lemma spec_receive_agree: "agree s t \<Longrightarrow> agree (spec_receive C A bs s) (spec_receive C A bs t)"
  by (cases s; cases t) (auto simp: agree_def spec_receive_def)

lemma spec_drain_opens:
  assumes "chan_inv ch" "\<not> ch_closed ch" and "spec_drain C A bs ch = Inr (bs', ch')"
    and "\<not> ch_closed ch'" "\<not> ch_open ch'"
  shows "bs' = bs \<and> ch' = ch \<and> length bs < HANDSHAKE_MSG_BYTES"
proof -
  have rec_inv: "chan_inv c \<Longrightarrow> spec_records C A b c = Inr (b', c') \<Longrightarrow> chan_inv c' \<and>
      (ch_hs c = None \<longrightarrow> ch_hs c' = None)" for b c b' c'
  proof (induction C A b c rule: spec_records.induct)
    case (1 C A b c)
    have p: "chan_inv c'" "ch_hs c' = ch_hs c" if "process_record C A rec c = Inr c'" for rec c'
    proof -
      show "chan_inv c'"
        using process_record_inv(1) [OF 1(2), of C A rec] that by simp
      show "ch_hs c' = ch_hs c"
        using that by (auto simp: process_record_def Let_def split: option.splits sum.splits)
    qed
    show ?case
    proof (cases "ch_opener c")
      case None
      then show ?thesis using 1(2,3) by (simp add: spec_records.simps)
    next
      case (Some r)
      show ?thesis
      proof (cases "split_frame MAX_RECORD_BYTES b")
        case (Frame rec rest)
        then obtain d where d: "process_record C A rec c = Inr d"
          "spec_records C A rest d = Inr (b', c')"
          using 1(3) Some by (auto simp: spec_records.simps [of C A b] split: sum.splits)
        then show ?thesis using 1(1) [OF Some Frame d(1)] p [OF d(1)] by auto
      qed (use 1(2,3) Some in \<open>auto simp: spec_records.simps [of C A b]\<close>)
    qed
  qed
  have hs: "ch_hs (outcome_state (completeHandshake C A m ch)) = None" if "ch_hs ch \<noteq> None"
    "completeHandshake C A m ch = Inr c" for m c
    using that by (auto simp: completeHandshake_def Let_def split: option.splits sum.splits prod.splits
        if_splits)
  have ph: "chan_inv c \<Longrightarrow> \<not> ch_closed c \<Longrightarrow> ch_open c \<longleftrightarrow> ch_hs c = None" for c
    by (simp add: chan_inv_def phase_ok_def)
  show ?thesis
  proof (cases "ch_open ch \<or> length bs < HANDSHAKE_MSG_BYTES")
    case True
    then show ?thesis
      using assms rec_inv [OF assms(1)] ph [of ch] ph [of ch']
      by (auto simp: spec_drain_def split: if_splits)
  next
    case False
    then obtain c where c: "completeHandshake C A (take HANDSHAKE_MSG_BYTES bs) ch = Inr c"
      and r: "spec_records C A (drop HANDSHAKE_MSG_BYTES bs) c = Inr (bs', ch')"
      using assms(3) by (auto simp: spec_drain_def split: sum.splits)
    have "chan_inv c" using completeHandshake_inv(1) [of ch C A] assms(1,2) False c
      by (metis outcome_state.simps(2))
    moreover have "ch_hs c = None" using hs [OF _ c] c ph [of ch] assms False by auto
    ultimately show ?thesis using rec_inv [OF _ r] ph [of ch'] assms by auto
  qed
qed

lemma spec_drain_append:
  assumes ch: "chan_inv ch" "\<not> ch_closed ch"
  shows "spec_drain C A bs ch = Inl (e, rest, ch') \<Longrightarrow>
      spec_drain C A (bs @ ys) ch = Inl (e, rest @ ys, ch')"
    and "spec_drain C A bs ch = Inr (bs', ch') \<Longrightarrow> \<not> ch_closed ch' \<Longrightarrow>
      spec_drain C A (bs @ ys) ch = spec_drain C A (bs' @ ys) ch'"
    and "spec_drain C A bs ch = Inr (bs', ch') \<Longrightarrow> ch_closed ch' \<Longrightarrow> ch_opener ch' = None \<Longrightarrow>
      spec_drain C A (bs @ ys) ch = Inr (bs' @ ys, ch')"
proof -
  note app = spec_records_append_Inl spec_records_append_Inr
  show "spec_drain C A bs ch = Inl (e, rest, ch') \<Longrightarrow>
      spec_drain C A (bs @ ys) ch = Inl (e, rest @ ys, ch')"
    by (auto simp: spec_drain_def app(1) split: if_splits sum.splits)
  show "spec_drain C A (bs @ ys) ch = spec_drain C A (bs' @ ys) ch'"
    if d: "spec_drain C A bs ch = Inr (bs', ch')" and nc: "\<not> ch_closed ch'"
  proof (cases "ch_open ch'")
    case False
    then show ?thesis using spec_drain_opens [OF ch d nc] by simp
  next
    case True
    then show ?thesis
      using d app(2) [of C A _ _ bs' ch' ys]
      by (auto simp: spec_drain_def split: if_splits sum.splits)
  qed
  show "spec_drain C A (bs @ ys) ch = Inr (bs' @ ys, ch')"
    if d: "spec_drain C A bs ch = Inr (bs', ch')" and c: "ch_closed ch'" "ch_opener ch' = None"
    using d c ch app(2) [of C A _ _ bs' ch' ys] spec_records_closed [OF c(2), of C A]
    by (auto simp: spec_drain_def split: if_splits sum.splits)
qed

text \<open>The specification keeps the channel's invariant.\<close>

fun spec_state :: "chan_error \<times> bytes \<times> channel + bytes \<times> channel \<Rightarrow> channel" where
  "spec_state (Inl (e, bs, ch)) = ch"
| "spec_state (Inr (bs, ch)) = ch"

lemma spec_records_inv: "chan_inv ch \<Longrightarrow> chan_inv (spec_state (spec_records C A bs ch))"
proof (induction C A bs ch rule: spec_records.induct)
  case (1 C A bs ch)
  show ?case
  proof (cases "ch_opener ch")
    case None
    then show ?thesis using "1.prems" by (simp add: spec_records.simps)
  next
    case (Some r)
    show ?thesis
    proof (cases "split_frame MAX_RECORD_BYTES bs")
      case (Frame rec rest)
      have p: "chan_inv (outcome_state (process_record C A rec ch))"
        by (rule process_record_inv(1) [OF "1.prems"])
      then show ?thesis using "1.IH" [OF Some Frame] Some Frame
        by (auto simp: spec_records.simps [of C A bs] split: sum.splits)
    qed (use "1.prems" Some in \<open>auto simp: spec_records.simps [of C A bs]\<close>)
  qed
qed

lemma spec_drain_inv:
  assumes "chan_inv ch" "\<not> ch_closed ch"
  shows "chan_inv (spec_state (spec_drain C A bs ch))"
proof -
  have h: "chan_inv (outcome_state (completeHandshake C A m ch))" if "\<not> ch_open ch" for m
    by (rule completeHandshake_inv(1) [OF assms(1) that assms(2)])
  show ?thesis
    using assms(1) h [of "take HANDSHAKE_MSG_BYTES bs"]
    by (auto simp: spec_drain_def spec_records_inv split: sum.splits)
qed

lemma spec_receive_inv:
  assumes ch: "chan_inv ch" and r: "spec_receive C A new (bs, ch) = (bs', ch')"
  shows "chan_inv ch'"
proof (cases "ch_closed ch")
  case True
  then show ?thesis using ch r by (simp add: spec_receive_def)
next
  case False
  then have "chan_inv (spec_state (spec_drain C A (bs @ new) ch))"
    by (rule spec_drain_inv [OF ch])
  then show ?thesis using r False
    by (auto simp: spec_receive_def chan_inv_shutdown split: sum.splits)
qed

end
