(* ===== verification/ChannelIntegrity.thy ===== *)
theory ChannelIntegrity
  imports ChannelSpec
begin

text \<open>
  What the secure channel promises: the bytes a sender puts on the wire come out of the peer as
  the same frames in the same order, however the transport splits them; the receiver accepts
  only the next record in order; nonces never repeat; the channel fails closed; an initiator
  says no more than its greeting before the peer has proved itself.

  Strict order. What reaches the frame handler is decided by the receiver's own counter: if
  the AEAD is authentic (at each nonce nothing opens but what the sealer sealed there), then
  against any bytes whatever, genuine records dropped, repeated, reordered or altered included,
  the frames delivered are a prefix of the frames sent.
\<close>

subsection \<open>Sealing a batch\<close>

fun seal_all :: "crypto \<Rightarrow> bytes list \<Rightarrow> sealer \<Rightarrow> chan_error + bytes list \<times> sealer" where
  "seal_all C [] s = Inr ([], s)"
| "seal_all C (b # bs) s =
     (case seal C b s of
        Inl e \<Rightarrow> Inl e
      | Inr (rec, s') \<Rightarrow>
          (case seal_all C bs s' of Inl e \<Rightarrow> Inl e | Inr (recs, s'') \<Rightarrow> Inr (rec # recs, s'')))"

lemma seal_all_ConsE:
  assumes "seal_all C (b # bs) s = Inr (recs, s')"
  obtains rec recs' s1 where "recs = rec # recs'" "seal C b s = Inr (rec, s1)"
    "seal_all C bs s1 = Inr (recs', s')"
  using assms by (auto split: sum.splits)

definition nonces :: "sealer \<Rightarrow> nat \<Rightarrow> bytes list" where
  "nonces s n = map (\<lambda>i. nonceFor (sl_prefix s) (sl_counter s + i)) [0..<n]"

lemma nonces_Suc:
  "nonces s (Suc n) = nonceFor (sl_prefix s) (sl_counter s) # nonces (s\<lparr>sl_counter := sl_counter s + 1\<rparr>) n"
proof -
  have "[0..<Suc n] = 0 # map Suc [0..<n]" by (simp add: upt_conv_Cons map_Suc_upt)
  then show ?thesis by (simp add: nonces_def comp_def)
qed

lemma seal_all_records:
  "seal_all C bs s = Inr (recs, s') \<Longrightarrow>
     recs = map2 (aead_seal C (sl_key s)) (nonces s (length bs)) bs \<and>
     s' = s\<lparr>sl_counter := sl_counter s + length bs\<rparr> \<and>
     (bs \<noteq> [] \<longrightarrow> sl_counter s + length bs \<le> Suc MAX_SAFE_INTEGER)"
proof (induction bs arbitrary: s recs)
  case Nil
  then show ?case by (simp add: nonces_def)
next
  case (Cons b bs)
  obtain rec recs' s1 where r: "recs = rec # recs'" and 1: "seal C b s = Inr (rec, s1)"
    and 2: "seal_all C bs s1 = Inr (recs', s')"
    by (rule seal_all_ConsE [OF Cons.prems])
  note ih = Cons.IH [OF 2] and h = seal_InrD [OF 1]
  have "sl_counter s + length (b # bs) \<le> Suc MAX_SAFE_INTEGER"
    using ih h by (cases bs) simp_all
  then show ?case using ih h by (simp add: r nonces_Suc)
qed

text \<open>One sealer never uses a nonce twice.\<close>

lemma nonces_distinct:
  assumes "sl_counter s + n \<le> Suc MAX_SAFE_INTEGER"
  shows "distinct (nonces s n)"
  unfolding nonces_def distinct_map
proof (intro conjI inj_onI)
  show "distinct [0..<n]" by simp
  fix i j assume "i \<in> set [0..<n]" "j \<in> set [0..<n]"
    "nonceFor (sl_prefix s) (sl_counter s + i) = nonceFor (sl_prefix s) (sl_counter s + j)"
  then show "i = j" using assms by (simp add: nonceFor_inject)
qed

subsection \<open>Frames delivered\<close>

fun frames_of :: "chan_event list \<Rightarrow> frame list" where
  "frames_of [] = []"
| "frames_of (OnFrame f # es) = f # frames_of es"
| "frames_of (_ # es) = frames_of es"

definition delivered :: "channel \<Rightarrow> frame list" where
  "delivered ch = frames_of (ch_log ch)"

text \<open>A handler that never closes the channel.\<close>

definition never_closes :: "app \<Rightarrow> bool" where
  "never_closes A \<longleftrightarrow> (\<forall>log f. DoClose \<notin> set (fst (on_frame A log f)))"

lemma frames_of_append [simp]: "frames_of (xs @ ys) = frames_of xs @ frames_of ys"
  by (induction xs rule: frames_of.induct) auto

lemma delivered_set_in [simp]: "delivered (ch\<lparr>ch_in := q\<rparr>) = delivered ch"
  by (simp add: delivered_def)

lemma delivered_emit [simp]: "delivered (emit e ch) = delivered ch @ frames_of [e]"
  by (simp add: delivered_def)

lemma delivered_send: "send C f ch = Inr ch' \<Longrightarrow> delivered ch' = delivered ch"
  by (auto elim!: send_InrD simp: delivered_def)

lemma delivered_shutdown [simp]: "delivered (shutdown e ch) = delivered ch"
  by (simp add: shutdown_def Let_def delivered_def)

lemma delivered_run_actions [simp]: "delivered (run_actions C as ch) = delivered ch"
proof (induction as arbitrary: ch)
  case Nil
  then show ?case by simp
next
  case (Cons a as)
  have "delivered (run_action C a ch) = delivered ch"
    by (cases a) (auto simp: delivered_send split: sum.splits)
  with Cons show ?case by simp
qed

lemma delivered_deliverFrame [simp]: "delivered (deliverFrame C A f ch) = delivered ch @ [f]"
  by (auto simp: deliverFrame_def Let_def split: prod.splits)

lemma run_action_keeps_open:
  "a \<noteq> DoClose \<Longrightarrow> ch_closed (run_action C a ch) = ch_closed ch \<and>
     ch_opener (run_action C a ch) = ch_opener ch \<and> ch_open (run_action C a ch) = ch_open ch"
  by (cases a) (auto simp: send_fields split: sum.splits)

lemma run_actions_keep_open:
  "DoClose \<notin> set as \<Longrightarrow> ch_closed (run_actions C as ch) = ch_closed ch \<and>
     ch_opener (run_actions C as ch) = ch_opener ch \<and> ch_open (run_actions C as ch) = ch_open ch"
proof (induction as arbitrary: ch)
  case Nil
  then show ?case by simp
next
  case (Cons a as)
  then have "a \<noteq> DoClose" "DoClose \<notin> set as" by auto
  then show ?case using Cons.IH [of "run_action C a ch"] run_action_keeps_open [of a C ch] by simp
qed

lemma deliverFrame_keeps_open:
  assumes "never_closes A"
  shows "ch_closed (deliverFrame C A f ch) = ch_closed ch"
    "ch_opener (deliverFrame C A f ch) = ch_opener ch" "ch_open (deliverFrame C A f ch) = ch_open ch"
proof -
  obtain acts throws where h: "on_frame A (ch_log ch) f = (acts, throws)"
    by (cases "on_frame A (ch_log ch) f")
  have "DoClose \<notin> set acts"
    using assms h unfolding never_closes_def by (metis fst_conv)
  then show "ch_closed (deliverFrame C A f ch) = ch_closed ch"
    "ch_opener (deliverFrame C A f ch) = ch_opener ch" "ch_open (deliverFrame C A f ch) = ch_open ch"
    by (simp_all add: deliverFrame_def h run_actions_keep_open Let_def)
qed

text \<open>What opening one record does to the channel, whatever the handler answers.\<close>

lemma process_record_step:
  assumes r: "ch_opener ch = Some r" and o: "open_record C rec r = Inr (encodeFrame f, r')"
  shows "\<exists>ch1. process_record C A rec ch = Inr (deliverFrame C A f ch1) \<and> ch_opener ch1 = Some r' \<and>
    ch_auth ch1 \<and> ch_closed ch1 = ch_closed ch \<and> ch_open ch1 = ch_open ch \<and> delivered ch1 = delivered ch"
  using assms by (auto simp: process_record_def Let_def delivered_def)

subsection \<open>Receiving what was sealed\<close>

text \<open>Consecutive records with different tags: the replay check compares tags alone, so this is
  exactly what it needs to let genuine records pass.\<close>

fun tags_fresh :: "bytes option \<Rightarrow> bytes list \<Rightarrow> bool" where
  "tags_fresh lt [] = True"
| "tags_fresh lt (rec # recs) = (lt \<noteq> Some (tag_of rec) \<and> tags_fresh (Some (tag_of rec)) recs)"

definition wire :: "bytes list \<Rightarrow> bytes" where
  "wire recs = concat (map frame_bytes recs)"

lemma seal_length:
  assumes "aead_correct C" and "seal C (encodeFrame f) s = Inr (rec, s')"
    and "length (f_payload f) + RECORD_OVERHEAD_BYTES \<le> MAX_RECORD_BYTES"
  shows "length rec \<le> MAX_RECORD_BYTES" "length rec < 2 ^ 32"
proof -
  have "length rec = length (f_payload f) + RECORD_OVERHEAD_BYTES"
    using seal_InrD [OF assms(2)] assms(1)
    by (simp add: aead_correct_length RECORD_OVERHEAD_BYTES_def FRAME_TAG_BYTES_def)
  then show "length rec \<le> MAX_RECORD_BYTES" "length rec < 2 ^ 32"
    using assms(3) by (simp_all add: MAX_RECORD_BYTES_def)
qed

lemma spec_records_wire:
  assumes C: "aead_correct C" and A: "never_closes A"
    and op: "ch_opener ch = Some r" and st: "in_step s r"
    and sealed: "seal_all C (map encodeFrame fs) s = Inr (recs, s')"
    and small: "\<forall>f \<in> set fs. length (f_payload f) + RECORD_OVERHEAD_BYTES \<le> MAX_RECORD_BYTES"
    and fresh: "tags_fresh (op_lastTag r) recs"
  shows "\<exists>ch' r'. spec_records C A (wire recs) ch = Inr ([], ch') \<and> ch_opener ch' = Some r' \<and>
    in_step s' r' \<and> delivered ch' = delivered ch @ fs \<and> ch_closed ch' = ch_closed ch \<and>
    ch_open ch' = ch_open ch \<and> (fs \<noteq> [] \<longrightarrow> ch_auth ch')"
  using op st sealed small fresh
proof (induction fs arbitrary: ch r s recs)
  case Nil
  then show ?case by (simp add: wire_def spec_records.simps split_frame_def)
next
  case (Cons f fs)
  obtain rec recs' s1 where recs: "recs = rec # recs'" and s1: "seal C (encodeFrame f) s = Inr (rec, s1)"
    and rest: "seal_all C (map encodeFrame fs) s1 = Inr (recs', s')"
    using Cons.prems(3) unfolding list.map by (rule seal_all_ConsE)
  have "fresh_tag rec r" using Cons.prems(5) by (simp add: recs fresh_tag_def)
  then obtain r1 where r1: "open_record C rec r = Inr (encodeFrame f, r1)" "in_step s1 r1"
    "op_lastTag r1 = Some (tag_of rec)"
    using open_seal [OF C Cons.prems(2) _ s1] by blast
  obtain ch1 where ch1: "process_record C A rec ch = Inr (deliverFrame C A f ch1)" "ch_opener ch1 = Some r1"
    "ch_auth ch1" "ch_closed ch1 = ch_closed ch" "ch_open ch1 = ch_open ch" "delivered ch1 = delivered ch"
    using process_record_step [OF Cons.prems(1) r1(1)] by blast
  let ?d = "deliverFrame C A f ch1"
  have len: "length rec \<le> MAX_RECORD_BYTES" "length rec < 2 ^ 32"
    using seal_length [OF C s1] Cons.prems(4) by simp_all
  have "spec_records C A (wire recs) ch = spec_records C A (wire recs') ?d"
    using Cons.prems(1) ch1(1) split_frame_frame_bytes [OF len, of "wire recs'"]
    by (subst spec_records.simps) (simp add: wire_def recs)
  moreover have "\<exists>ch' r'. spec_records C A (wire recs') ?d = Inr ([], ch') \<and> ch_opener ch' = Some r' \<and>
      in_step s' r' \<and> delivered ch' = delivered ?d @ fs \<and> ch_closed ch' = ch_closed ?d \<and>
      ch_open ch' = ch_open ?d \<and> (fs \<noteq> [] \<longrightarrow> ch_auth ch')"
    using Cons.IH [of ?d r1 s1 recs'] Cons.prems ch1 r1 rest
    by (simp add: recs deliverFrame_keeps_open [OF A])
  moreover have "fs = [] \<longrightarrow> spec_records C A (wire recs') ?d = Inr ([], ?d)"
    using rest ch1 deliverFrame_keeps_open(2) [OF A]
    by (auto simp: wire_def spec_records.simps split_frame_def)
  ultimately show ?case
    using ch1 by (fastforce simp: deliverFrame_keeps_open [OF A])
qed

subsection \<open>Whole runs of the receive side\<close>

lemma reachable_queue_inv: "reachable C A ch \<Longrightarrow> queue_inv (ch_in ch)"
proof (induction rule: reachable.induct)
  case (init h)
  then show ?case by (simp add: new_channel_def)
next
  case (start ch)
  then show ?case by (simp add: start_def split: option.splits)
next
  case (send ch f ch')
  then show ?case by (simp add: send_fields)
next
  case (receive ch bs ch')
  then show ?case using receive_refines [OF receive.IH, of C A bs] by auto
next
  case (close ch)
  then show ?case by (simp add: close_channel_def)
qed

lemma view_inv: "chan_inv ch \<Longrightarrow> chan_inv (snd (view ch))"
  by (simp add: view_def)

lemma spec_receive_append:
  assumes "chan_inv ch"
  shows "agree (spec_receive C A ys (spec_receive C A xs (bs, ch))) (spec_receive C A (xs @ ys) (bs, ch))"
proof (cases "ch_closed ch")
  case True
  then show ?thesis by (simp add: spec_receive_def)
next
  case False
  show ?thesis
  proof (cases "spec_drain C A (bs @ xs) ch")
    case (Inl x)
    obtain e rest ch' where x: "x = (e, rest, ch')" by (cases x)
    then have "spec_drain C A ((bs @ xs) @ ys) ch = Inl (e, rest @ ys, ch')"
      using spec_drain_append(1) [OF assms False] Inl by blast
    then show ?thesis using False Inl x by (simp add: spec_receive_def agree_def)
  next
    case (Inr x)
    obtain bs' ch' where x: "x = (bs', ch')" by (cases x)
    show ?thesis
    proof (cases "ch_closed ch'")
      case nc: False
      then have "spec_drain C A ((bs @ xs) @ ys) ch = spec_drain C A (bs' @ ys) ch'"
        using spec_drain_append(2) [OF assms False] Inr x by blast
      then show ?thesis using False Inr x nc by (simp add: spec_receive_def)
    next
      case True
      have "chan_inv ch'" using spec_drain_inv [OF assms False, of C A "bs @ xs"] Inr x by simp
      then have "ch_opener ch' = None" using True by (simp add: chan_inv_def phase_ok_def)
      then have "spec_drain C A ((bs @ xs) @ ys) ch = Inr (bs' @ ys, ch')"
        using spec_drain_append(3) [OF assms False] Inr x True by blast
      then show ?thesis using False Inr x True by (simp add: spec_receive_def agree_def)
    qed
  qed
qed

lemma fold_spec_receive:
  assumes "chan_inv ch"
  shows "agree (fold (spec_receive C A) (c # cs) (bs, ch)) (spec_receive C A (concat (c # cs)) (bs, ch))"
  using assms
proof (induction cs arbitrary: bs ch c)
  case Nil
  then show ?case by simp
next
  case (Cons d cs)
  obtain bs' ch' where r: "spec_receive C A c (bs, ch) = (bs', ch')"
    by (cases "spec_receive C A c (bs, ch)")
  have "chan_inv ch'" using spec_receive_inv [OF Cons.prems r] .
  then have "agree (fold (spec_receive C A) (d # cs) (bs', ch'))
      (spec_receive C A (concat (d # cs)) (bs', ch'))"
    by (rule Cons.IH)
  moreover have "agree (spec_receive C A (concat (d # cs)) (bs', ch'))
      (spec_receive C A (c @ concat (d # cs)) (bs, ch))"
    using spec_receive_append [OF Cons.prems, of C A "concat (d # cs)" c bs] by (simp add: r)
  ultimately show ?case using r by (auto simp: agree_def)
qed

subsection \<open>Opening a pair of channels\<close>

lemma view_fields:
  assumes "view ch = (bs, c)"
  shows "queue_content (ch_in ch) = bs" "ch_role ch = ch_role c" "ch_hs ch = ch_hs c"
    "ch_keys ch = ch_keys c" "ch_sealer ch = ch_sealer c" "ch_opener ch = ch_opener c"
    "ch_open ch = ch_open c" "ch_closed ch = ch_closed c" "ch_auth ch = ch_auth c"
    "ch_log ch = ch_log c"
  using assms by (auto simp: view_def)

lemma split_frame_Nil [simp]: "split_frame cap [] = NeedMore"
  by (simp add: split_frame_def)

definition quiet :: "app \<Rightarrow> bool" where
  "quiet A \<longleftrightarrow> (\<forall>log. on_open A log = ([], False))"

lemma receive_handshake:
  assumes ch: "ch_hs ch = Some h" "ch_in ch = empty_queue" "\<not> ch_open ch" "\<not> ch_closed ch"
    and msg: "length msg = HANDSHAKE_MSG_BYTES" and k: "consume C msg h = Inr (keys, h')"
    and A: "quiet A"
  shows "\<exists>ch'. receive C A msg ch = Some ch' \<and> queue_content (ch_in ch') = [] \<and>
    ch_sealer ch' = Some (new_sealer C (key_for (send_direction (ch_role ch)) keys) (sessionId keys)
      (send_direction (ch_role ch))) \<and>
    ch_opener ch' = Some (new_opener C (key_for (recv_direction (ch_role ch)) keys) (sessionId keys)
      (recv_direction (ch_role ch))) \<and>
    ch_open ch' \<and> \<not> ch_closed ch' \<and> ch_auth ch' = ch_auth ch \<and> ch_role ch' = ch_role ch \<and>
    ch_log ch' = ch_log ch @ (if ch_role ch = Responder then [DuplexSend (hs_message h)] else [])
      @ [ReadyResolved, OnOpen]"
proof -
  obtain ch' where r: "receive C A msg ch = Some ch'" and v: "view ch' = spec_receive C A msg (view ch)"
    using receive_refines [of ch C A msg] ch by auto
  obtain c where c: "completeHandshake C A msg (ch\<lparr>ch_in := empty_queue\<rparr>) = Inr c"
    and cf: "ch_sealer c = Some (new_sealer C (key_for (send_direction (ch_role ch)) keys)
        (sessionId keys) (send_direction (ch_role ch)))"
      "ch_opener c = Some (new_opener C (key_for (recv_direction (ch_role ch)) keys)
        (sessionId keys) (recv_direction (ch_role ch)))"
      "ch_open c" "\<not> ch_closed c" "ch_auth c = ch_auth ch" "ch_role c = ch_role ch"
      "ch_log c = ch_log ch @ (if ch_role ch = Responder then [DuplexSend (hs_message h)] else [])
        @ [ReadyResolved, OnOpen]"
    using ch k A by (simp add: completeHandshake_def quiet_def Let_def emit_def)
  have "view ch' = ([], c)"
    using v ch msg c cf(2)
    by (simp add: view_def spec_receive_def spec_drain_def spec_records.simps)
  note f = view_fields [OF this]
  show ?thesis using r f cf by auto
qed

lemma handshake_open:
  assumes C: "dh_commutes C" "public_length C"
    and i: "initiatorHandshake C a (x_public C s) context = Inr hi"
    and r: "hr = responderHandshake C b s context"
    and sh: "x_shared C a (x_public C b) \<noteq> None" "x_shared C a (x_public C s) \<noteq> None"
    and AB: "quiet A" "quiet B"
  shows "\<exists>i r si oi sr or'.
    receive C A (hs_message hr) (start (new_channel Initiator hi)) = Some i \<and>
    receive C B (hs_message hi) (new_channel Responder hr) = Some r \<and>
    reachable C A i \<and> reachable C B r \<and>
    ch_sealer i = Some si \<and> ch_opener i = Some oi \<and> ch_sealer r = Some sr \<and> ch_opener r = Some or' \<and>
    in_step si or' \<and> in_step sr oi \<and> sl_counter si = 0 \<and> sl_counter sr = 0 \<and>
    op_lastTag oi = None \<and> op_lastTag or' = None \<and> ch_role i = Initiator \<and> ch_role r = Responder \<and>
    ch_open i \<and> ch_open r \<and> \<not> ch_closed i \<and> \<not> ch_closed r \<and>
    queue_content (ch_in i) = [] \<and> queue_content (ch_in r) = [] \<and>
    \<not> ch_auth i \<and> \<not> ch_auth r \<and>
    ch_log i = [DuplexSend (hs_message hi), ReadyResolved, OnOpen] \<and>
    ch_log r = [DuplexSend (hs_message hr), ReadyResolved, OnOpen]"
proof -
  have pl: "length (x_public C x) = KEY_BYTES" for x using C(2) by (simp add: public_length_def)
  have hi: "hi = \<lparr>hs_role = Initiator, hs_secret = a, hs_message = x_public C a,
      hs_static = x_public C s, hs_context = context\<rparr>"
    using i by (simp add: initiatorHandshake_def pl)
  have dh: "x_shared C b (x_public C a) = x_shared C a (x_public C b)"
    "x_shared C s (x_public C a) = x_shared C a (x_public C s)"
    using C(1) by (simp_all add: dh_commutes_def)
  obtain ki hi' where ki: "consume C (hs_message hr) hi = Inr (ki, hi')"
    using sh by (auto simp: consume_def dh_def hi r responderHandshake_def pl)
  obtain kr hr' where kr: "consume C (hs_message hi) hr = Inr (kr, hr')"
    using sh by (auto simp: consume_def dh_def hi r responderHandshake_def pl dh)
  have k: "ki = kr" by (rule handshake_agree [OF C i r ki kr])
  have len: "length (hs_message hr) = HANDSHAKE_MSG_BYTES" "length (hs_message hi) = HANDSHAKE_MSG_BYTES"
    using pl by (simp_all add: hi r responderHandshake_def HANDSHAKE_MSG_BYTES_def KEY_BYTES_def)
  let ?i0 = "start (new_channel Initiator hi)" and ?r0 = "new_channel Responder hr"
  have i0: "ch_hs ?i0 = Some hi" "ch_in ?i0 = empty_queue" "\<not> ch_open ?i0" "\<not> ch_closed ?i0"
    "ch_role ?i0 = Initiator" "\<not> ch_auth ?i0" "ch_log ?i0 = [DuplexSend (hs_message hi)]"
    by (simp_all add: start_def new_channel_def)
  have r0: "ch_hs ?r0 = Some hr" "ch_in ?r0 = empty_queue" "\<not> ch_open ?r0" "\<not> ch_closed ?r0"
    "ch_role ?r0 = Responder" "\<not> ch_auth ?r0" "ch_log ?r0 = []"
    by (simp_all add: new_channel_def)
  obtain ci where ci: "receive C A (hs_message hr) ?i0 = Some ci"
    and fi: "queue_content (ch_in ci) = []" "ch_role ci = Initiator" "ch_open ci" "\<not> ch_closed ci"
      "\<not> ch_auth ci" "ch_log ci = [DuplexSend (hs_message hi), ReadyResolved, OnOpen]"
      "ch_sealer ci = Some (new_sealer C (keyI2R ki) (sessionId ki) InitiatorToResponder)"
      "ch_opener ci = Some (new_opener C (keyR2I ki) (sessionId ki) ResponderToInitiator)"
    using receive_handshake [OF i0(1-4) len(1) ki AB(1)] i0(5-)
    by (auto simp: key_for_def send_direction_def recv_direction_def)
  obtain cr where cr: "receive C B (hs_message hi) ?r0 = Some cr"
    and fr: "queue_content (ch_in cr) = []" "ch_role cr = Responder" "ch_open cr" "\<not> ch_closed cr"
      "\<not> ch_auth cr" "ch_log cr = [DuplexSend (hs_message hr), ReadyResolved, OnOpen]"
      "ch_sealer cr = Some (new_sealer C (keyR2I kr) (sessionId kr) ResponderToInitiator)"
      "ch_opener cr = Some (new_opener C (keyI2R kr) (sessionId kr) InitiatorToResponder)"
    using receive_handshake [OF r0(1-4) len(2) kr AB(2)] r0(5-)
    by (auto simp: key_for_def send_direction_def recv_direction_def)
  have "reachable C A (new_channel Initiator hi)" using reachable.init [of C A hi] by (simp add: hi)
  then have "reachable C A ci"
    by (rule reachable.receive [OF reachable.start ci]) (simp add: new_channel_def)
  moreover have "reachable C B cr"
    using reachable.receive [OF reachable.init [of C B hr], of "hs_message hi" cr] cr
    by (simp add: r responderHandshake_def)
  ultimately show ?thesis
    using ci cr fi fr k by (fastforce simp: in_step_def new_sealer_def new_opener_def)
qed

lemma send_all_seal_all:
  assumes "send_all C fs ch = Inr ch'" and "ch_sealer ch = Some s"
  shows "\<exists>recs s'. seal_all C (map encodeFrame fs) s = Inr (recs, s') \<and> ch_sealer ch' = Some s' \<and>
    ch_log ch' = ch_log ch @ map (\<lambda>rec. DuplexSend (frame_bytes rec)) recs \<and>
    (\<forall>f \<in> set fs. length (f_payload f) + RECORD_OVERHEAD_BYTES \<le> MAX_RECORD_BYTES)"
  using assms
proof (induction fs arbitrary: ch s)
  case Nil
  then show ?case by simp
next
  case (Cons f fs)
  obtain ch1 where 1: "send C f ch = Inr ch1" and 2: "send_all C fs ch1 = Inr ch'"
    using Cons.prems(1) by (auto split: sum.splits)
  show ?case
    using 1
  proof (rule send_InrD)
    fix s0 rec
    assume s0: "ch_sealer ch = Some s0" "length (f_payload f) + RECORD_OVERHEAD_BYTES \<le> MAX_RECORD_BYTES"
      "seal C (encodeFrame f) s0 = Inr (rec, s0\<lparr>sl_counter := sl_counter s0 + 1\<rparr>)"
      and ch1: "ch1 = emit (DuplexSend (frame_bytes rec))
        (ch\<lparr>ch_sealer := Some (s0\<lparr>sl_counter := sl_counter s0 + 1\<rparr>)\<rparr>)"
    have "ch_sealer ch1 = Some (s0\<lparr>sl_counter := sl_counter s0 + 1\<rparr>)" by (simp add: ch1)
    from Cons.IH [OF 2 this] obtain recs s' where
      "seal_all C (map encodeFrame fs) (s0\<lparr>sl_counter := sl_counter s0 + 1\<rparr>) = Inr (recs, s')"
      "ch_sealer ch' = Some s'" "ch_log ch' = ch_log ch1 @ map (\<lambda>rec. DuplexSend (frame_bytes rec)) recs"
      "\<forall>f \<in> set fs. length (f_payload f) + RECORD_OVERHEAD_BYTES \<le> MAX_RECORD_BYTES"
      by blast
    then show ?thesis using s0 Cons.prems(2) by (simp add: ch1)
  qed
qed

text \<open>Authenticity of the AEAD for an opener, when \<open>bss\<close> are the plaintexts sealed from its counter
  on, no more of them than a sealer's counter allows: at the nonce of each only that one opens, and at the next
  nonce nothing does.\<close>

definition authentic :: "crypto \<Rightarrow> opener \<Rightarrow> bytes list \<Rightarrow> bool" where
  "authentic C r bss \<longleftrightarrow>
     op_counter r + length bss \<le> 2 ^ 53 \<and>
     (\<forall>j rec bs. aead_open C (op_key r) (nonceFor (op_prefix r) j) rec = Some bs \<longrightarrow>
        op_counter r \<le> j \<and> j \<le> op_counter r + length bss \<longrightarrow>
        j - op_counter r < length bss \<and> bs = bss ! (j - op_counter r))"

text \<open>The receiver has delivered the first \<open>n\<close> frames and is closed, or expects the next.\<close>

definition at_frame :: "opener \<Rightarrow> frame list \<Rightarrow> frame list \<Rightarrow> channel \<Rightarrow> bool" where
  "at_frame r base fs ch \<longleftrightarrow>
     (\<exists>n \<le> length fs. delivered ch = base @ take n fs \<and>
        (ch_opener ch = None \<or>
         (\<exists>r'. ch_opener ch = Some r' \<and> op_key r' = op_key r \<and> op_prefix r' = op_prefix r \<and>
            op_counter r' = op_counter r + n)))"

definition settled :: "channel \<Rightarrow> bool" where
  "settled ch \<longleftrightarrow> ch_hs ch = None \<and> (ch_closed ch \<or> ch_open ch)"

lemma at_frame_set_in [simp]: "at_frame r base fs (ch\<lparr>ch_in := q\<rparr>) = at_frame r base fs ch"
  by (simp add: at_frame_def)

lemma settled_set_in [simp]: "settled (ch\<lparr>ch_in := q\<rparr>) = settled ch"
  by (simp add: settled_def)

lemma settled_shutdown [simp]: "settled ch \<Longrightarrow> settled (shutdown e ch)"
  by (simp add: settled_def shutdown_def Let_def)

lemma at_frame_shutdown [simp]: "at_frame r base fs ch \<Longrightarrow> at_frame r base fs (shutdown e ch)"
  by (auto simp: at_frame_def shutdown_def Let_def delivered_def)

lemma run_action_opener: "ch_opener (run_action C a ch) \<in> {ch_opener ch, None}"
  by (cases a) (auto simp: send_fields shutdown_def Let_def split: sum.splits)

lemma run_actions_opener: "ch_opener (run_actions C as ch) \<in> {ch_opener ch, None}"
proof (induction as arbitrary: ch)
  case (Cons a as)
  show ?case using Cons.IH [of "run_action C a ch"] run_action_opener [of C a ch] by auto
qed simp

lemma settled_run_actions: "settled ch \<Longrightarrow> settled (run_actions C as ch)"
proof (induction as arbitrary: ch)
  case (Cons a as)
  have "settled (run_action C a ch)"
    using Cons.prems
    by (cases a) (auto simp: settled_def send_fields run_action_fields shutdown_def Let_def split: sum.splits)
  then show ?case using Cons.IH by simp
qed simp

lemma deliverFrame_opener: "ch_opener (deliverFrame C A f ch) \<in> {ch_opener ch, None}"
  using run_actions_opener [of C "fst (on_frame A (ch_log ch) f)" "emit (OnFrame f) ch"]
  by (auto simp: deliverFrame_def Let_def split: prod.splits)

lemma settled_emit [simp]: "settled (emit e ch) = settled ch"
  by (simp add: settled_def)

lemma settled_deliverFrame: "settled ch \<Longrightarrow> settled (deliverFrame C A f ch)"
  by (auto simp: deliverFrame_def Let_def settled_run_actions split: prod.splits)

lemma at_frame_deliver:
  assumes "delivered ch = base @ take n fs" "n < length fs" "ch_opener ch = Some r'"
    "op_key r' = op_key r" "op_prefix r' = op_prefix r" "op_counter r' = Suc (op_counter r + n)"
  shows "at_frame r base fs (deliverFrame C A (fs ! n) ch)"
proof -
  have "delivered (deliverFrame C A (fs ! n) ch) = base @ take (Suc n) fs"
    using assms(1,2) by (simp add: take_Suc_conv_app_nth)
  moreover have "ch_opener (deliverFrame C A (fs ! n) ch) \<in> {Some r', None}"
    using deliverFrame_opener [of C A "fs ! n" ch] assms(3) by simp
  ultimately show ?thesis
    unfolding at_frame_def using assms(2,4-6) by (intro exI [of _ "Suc n"]) auto
qed

text \<open>One record, whatever it is: nothing is delivered, or the next frame is.\<close>

lemma process_record_at_frame:
  assumes auth: "authentic C r (map encodeFrame fs)" and at: "at_frame r base fs ch" and s: "settled ch"
  shows "at_frame r base fs (outcome_state (process_record C A rec ch))"
    and "settled (outcome_state (process_record C A rec ch))"
proof -
  obtain n where n: "n \<le> length fs" "delivered ch = base @ take n fs"
    and op: "ch_opener ch = None \<or> (\<exists>r'. ch_opener ch = Some r' \<and> op_key r' = op_key r \<and>
      op_prefix r' = op_prefix r \<and> op_counter r' = op_counter r + n)"
    using at unfolding at_frame_def by blast
  have "at_frame r base fs (outcome_state (process_record C A rec ch)) \<and>
    settled (outcome_state (process_record C A rec ch))"
  proof (cases "ch_opener ch")
    case None
    then show ?thesis using at s by (simp add: process_record_def)
  next
    case (Some r0)
    then have r0: "op_key r0 = op_key r" "op_prefix r0 = op_prefix r" "op_counter r0 = op_counter r + n"
      using op by auto
    show ?thesis
    proof (cases "open_record C rec r0")
      case (Inl e)
      then show ?thesis using at s Some by (simp add: process_record_def)
    next
      case (Inr x)
      obtain bs r1 where x: "x = (bs, r1)" by (cases x)
      have o: "aead_open C (op_key r) (nonceFor (op_prefix r) (op_counter r + n)) rec = Some bs"
        and r1: "op_key r1 = op_key r" "op_prefix r1 = op_prefix r" "op_counter r1 = js_increment (op_counter r + n)"
        using Inr r0 by (auto simp: x open_record_def split: if_splits option.splits)
      have b: "n < length fs" "bs = encodeFrame (fs ! n)" and "op_counter r + length fs \<le> 2 ^ 53"
        using auth o n(1) unfolding authentic_def by fastforce+
      then have "js_increment (op_counter r + n) = Suc (op_counter r + n)" by (intro js_increment_below) simp
      note r1 = r1(1,2) r1(3) [unfolded this]
      obtain ch1 where "process_record C A rec ch = Inr (deliverFrame C A (fs ! n) ch1)"
        and "ch_opener ch1 = Some r1" and c1: "ch_closed ch1 = ch_closed ch" "ch_open ch1 = ch_open ch"
        "delivered ch1 = delivered ch" "ch_hs ch1 = ch_hs ch"
        using Inr Some by (auto simp: x b(2) process_record_def Let_def delivered_def)
      moreover from c1 s have "settled ch1" by (simp add: settled_def)
      ultimately show ?thesis
        using at_frame_deliver [OF _ b(1) _ r1] n(2) by (simp add: settled_deliverFrame)
    qed
  qed
  then show "at_frame r base fs (outcome_state (process_record C A rec ch))"
    and "settled (outcome_state (process_record C A rec ch))" by simp_all
qed

lemma drain_records_at_frame:
  assumes "authentic C r (map encodeFrame fs)"
  shows "at_frame r base fs ch \<Longrightarrow> settled ch \<Longrightarrow> drain_records C A fuel ch = Some res \<Longrightarrow>
    at_frame r base fs (outcome_state res) \<and> settled (outcome_state res)"
proof (induction fuel arbitrary: ch)
  case 0
  then show ?case by (simp add: drain_records.simps)
next
  case (Suc fuel)
  show ?case
  proof (cases "ch_opener ch")
    case None
    then show ?thesis using Suc.prems by (auto simp: drain_records.simps)
  next
    case (Some r0)
    show ?thesis
    proof (cases "read_frame bq_length peekUint32BE take_bytes MAX_RECORD_BYTES (ch_in ch)")
      case (Frame rec q)
      let ?p = "process_record C A rec (ch\<lparr>ch_in := q\<rparr>)"
      have p: "at_frame r base fs (outcome_state ?p)" "settled (outcome_state ?p)"
        by (rule process_record_at_frame [OF assms]; use Suc.prems in simp)+
      show ?thesis
      proof (cases ?p)
        case (Inl x)
        then have "res = Inl x" using Suc.prems(3) Some Frame by (simp add: drain_records.simps)
        then show ?thesis using p Inl by simp
      next
        case (Inr ch')
        then have "drain_records C A fuel ch' = Some res"
          using Suc.prems(3) Some Frame by (simp add: drain_records.simps)
        then show ?thesis using Suc.IH [of ch'] p Inr by simp
      qed
    qed (use Suc.prems Some in \<open>auto simp: drain_records.simps\<close>)
  qed
qed

lemma receive_at_frame:
  assumes auth: "authentic C r (map encodeFrame fs)"
    and at: "at_frame r base fs ch" "settled ch" and rx: "receive C A bs ch = Some ch'"
  shows "at_frame r base fs ch' \<and> settled ch'"
proof (cases "ch_closed ch")
  case True
  then show ?thesis using at rx by (simp add: receive_def)
next
  case False
  then have "ch_open ch" using at(2) by (simp add: settled_def)
  define c0 where "c0 = ch\<lparr>ch_in := push bs (ch_in ch)\<rparr>"
  have eq: "drain C A c0 = drain_records C A (Suc (bq_length (ch_in c0))) c0"
    using \<open>ch_open ch\<close> by (simp add: drain_def c0_def)
  have "drain C A c0 \<noteq> None"
    using rx False by (cases "drain C A c0") (simp_all add: receive_def flip: c0_def)
  then obtain res where res: "drain C A c0 = Some res" by blast
  note dr = res [unfolded eq]
  have "at_frame r base fs (outcome_state res) \<and> settled (outcome_state res)"
    by (rule drain_records_at_frame [OF auth _ _ dr]) (use at in \<open>simp_all add: c0_def\<close>)
  then show ?thesis using rx False res
    by (cases res) (auto simp: receive_def simp flip: c0_def)
qed

lemma receive_all_at_frame:
  assumes auth: "authentic C r (map encodeFrame fs)"
  shows "at_frame r base fs ch \<Longrightarrow> settled ch \<Longrightarrow> receive_all C A cs ch = Some ch' \<Longrightarrow>
    at_frame r base fs ch'"
proof (induction cs arbitrary: ch)
  case (Cons c cs)
  then obtain ch1 where "receive C A c ch = Some ch1" "receive_all C A cs ch1 = Some ch'"
    by (auto split: option.splits)
  then show ?case using Cons receive_at_frame [OF auth Cons.prems(1,2)] by blast
qed simp

end
