(* ===== verification/ChannelTheorems.thy ===== *)
theory ChannelTheorems
  imports ChannelIntegrity
begin

text \<open>
  The properties of the secure channel and of its byte queue, with their witnesses. The closed
  examples run on \<open>demo_crypto\<close> with handlers that do nothing.
\<close>

definition idle_app :: app where
  "idle_app = \<lparr>on_frame = (\<lambda>log f. ([], False)), on_open = (\<lambda>log. ([], False))\<rparr>"

lemma idle_app_simps [simp]: "quiet idle_app" "never_closes idle_app"
  by (simp_all add: idle_app_def quiet_def never_closes_def)

lemma demo_shared: "x_shared demo_crypto a b \<noteq> None"
  by (simp add: demo_crypto_def)

lemma demo_initiator:
  "\<exists>hi. initiatorHandshake demo_crypto a (x_public demo_crypto s) c = Inr hi"
  by (simp add: initiatorHandshake_def demo_crypto_def KEY_BYTES_def)

text \<open>An open pair of channels on the demonstration crypto, one sealed frame ahead.\<close>

lemma demo_open_pair:
  "\<exists>i r si or'. reachable demo_crypto idle_app i \<and> reachable demo_crypto idle_app r \<and>
     ch_sealer i = Some si \<and> ch_opener r = Some or' \<and> in_step si or' \<and> sl_counter si = 0 \<and>
     op_lastTag or' = None \<and> ch_open i \<and> \<not> ch_closed i \<and> \<not> ch_closed r \<and> \<not> ch_auth i \<and>
     ch_role i = Initiator \<and> ch_open r \<and> \<not> ch_auth r \<and>
     queue_content (ch_in r) = [] \<and> delivered r = []"
proof -
  obtain hi where hi: "initiatorHandshake demo_crypto [1] (x_public demo_crypto [3]) None = Inr hi"
    using demo_initiator by blast
  show ?thesis
    using handshake_open [OF demo_dh_commutes demo_public_length hi refl [of "responderHandshake demo_crypto [2] [3] None"]
        demo_shared demo_shared idle_app_simps(1) idle_app_simps(1)]
    by (force simp: delivered_def)
qed

lemma demo_send:
  assumes "ch_sealer i = Some si" "sl_counter si = 0" "ch_open i" "\<not> ch_closed i"
  shows "\<exists>i' rec. send_all demo_crypto [controlFrame [7]] i = Inr i' \<and>
    ch_log i' = ch_log i @ map DuplexSend [frame_bytes rec]"
  using assms
  by (simp add: send_def seal_def js_increment_def MAX_SAFE_INTEGER_def controlFrame_def RECORD_OVERHEAD_BYTES_def
      FRAME_TAG_BYTES_def TAG_BYTES_def MAX_RECORD_BYTES_def emit_def) blast

subsection \<open>The byte queue\<close>

text \<open>A history of operations, run on the queue and on the list it stands for.\<close>

datatype queue_op = Push bytes | Take nat

fun run_queue :: "queue_op list \<Rightarrow> byte_queue \<Rightarrow> byte_queue" where
  "run_queue [] q = q"
| "run_queue (Push c # ops) q = run_queue ops (push c q)"
| "run_queue (Take n # ops) q = run_queue ops (snd (take_bytes n q))"

fun run_list :: "queue_op list \<Rightarrow> bytes \<Rightarrow> bytes option" where
  "run_list [] bs = Some bs"
| "run_list (Push c # ops) bs = run_list ops (bs @ c)"
| "run_list (Take n # ops) bs = (if n \<le> length bs then run_list ops (drop n bs) else None)"

lemma run_queue_refines:
  "queue_inv q \<Longrightarrow> run_list ops (queue_content q) = Some bs \<Longrightarrow>
   queue_content (run_queue ops q) = bs \<and> queue_inv (run_queue ops q)"
proof (induction ops arbitrary: q)
  case Nil
  then show ?case by simp
next
  case (Cons op ops)
  show ?case
  proof (cases op)
    case (Push c)
    then show ?thesis using Cons by (simp add: bq.content_push bq.inv_push)
  next
    case (Take n)
    then show ?thesis using Cons by (simp add: bq.content_take bq.inv_take split: if_splits)
  qed
qed

text \<open>C6: for any history of pushes and of takes within the buffered length, the byte queue with
  its coalescing accumulator holds exactly the bytes pushed and not yet taken, in order; its
  recorded length is theirs, the peeked prefix is the big-endian value of the first four, and it
  never keeps more than the threshold of chunks.\<close>

theorem byte_queue_refines_list:
  assumes "run_list ops [] = Some bs"
  shows "queue_content (run_queue ops empty_queue) = bs \<and>
    bq_length (run_queue ops empty_queue) = length bs \<and>
    (4 \<le> length bs \<longrightarrow> peekUint32BE (run_queue ops empty_queue) = be_nat (take 4 bs)) \<and>
    chunkCount (run_queue ops empty_queue) \<le> COALESCE_THRESHOLD"
proof -
  have r: "queue_content (run_queue ops empty_queue) = bs" "queue_inv (run_queue ops empty_queue)"
    using run_queue_refines [of empty_queue ops bs] assms by simp_all
  show ?thesis
    using bq.qlen_content [OF r(2)] bq.peek_content [OF r(2)] chunkCount_bound [OF r(2)] r(1)
    by simp
qed

theorem byte_queue_refines_list_witness:
  "queue_content (run_queue [Push [0, 0], Push [1], Take 1, Push [2, 9]] empty_queue) = [0, 1, 2, 9]"
  by (rule byte_queue_refines_list [THEN conjunct1]) simp

subsection \<open>The channel\<close>

text \<open>Two channels that run the handshake against each other, the initiator pinning the
  responder's static key and both with the same context, both open, and each one's sealer is in
  step with the other's opener: same key, same nonce prefix, same counter, in both directions.\<close>

lemma handshake_puts_peers_in_step:
  assumes "dh_commutes C" and "public_length C"
    and "initiatorHandshake C a (x_public C s) context = Inr hi"
    and "hr = responderHandshake C b s context"
    and "x_shared C a (x_public C b) \<noteq> None" and "x_shared C a (x_public C s) \<noteq> None"
    and "quiet A" and "quiet B"
  shows "\<exists>i r si oi sr or'.
    receive C A (hs_message hr) (start (new_channel Initiator hi)) = Some i \<and>
    receive C B (hs_message hi) (new_channel Responder hr) = Some r \<and>
    ch_open i \<and> ch_open r \<and>
    ch_sealer i = Some si \<and> ch_opener r = Some or' \<and> in_step si or' \<and>
    ch_sealer r = Some sr \<and> ch_opener i = Some oi \<and> in_step sr oi"
  using handshake_open [OF assms] by blast

lemma handshake_puts_peers_in_step_witness:
  "\<exists>hi i r si oi sr or'.
    initiatorHandshake demo_crypto [1] (x_public demo_crypto [3]) (Some [9]) = Inr hi \<and>
    receive demo_crypto idle_app (hs_message (responderHandshake demo_crypto [2] [3] (Some [9])))
      (start (new_channel Initiator hi)) = Some i \<and>
    receive demo_crypto idle_app (hs_message hi)
      (new_channel Responder (responderHandshake demo_crypto [2] [3] (Some [9]))) = Some r \<and>
    ch_open i \<and> ch_open r \<and> ch_sealer i = Some si \<and> ch_opener r = Some or' \<and> in_step si or' \<and>
    ch_sealer r = Some sr \<and> ch_opener i = Some oi \<and> in_step sr oi"
proof -
  obtain hi where hi: "initiatorHandshake demo_crypto [1] (x_public demo_crypto [3]) (Some [9]) = Inr hi"
    using demo_initiator by blast
  show ?thesis
    using handshake_puts_peers_in_step [OF demo_dh_commutes demo_public_length hi refl demo_shared
        demo_shared idle_app_simps(1) idle_app_simps(1), of "[2]"] hi
    by blast
qed

text \<open>C1: frames sent on one channel come out of its peer, the same frames in the same order,
  however the transport splits or joins the bytes: nothing is lost, repeated or reordered, the
  receiver stays open and ends with an empty buffer. The only condition on the crypto besides
  correctness is that consecutive records differ in their authentication tag, which is what the
  code's replay check compares.\<close>

theorem channel_roundtrip:
  assumes C: "aead_correct C" and A: "never_closes A"
    and rcv: "reachable C A rcv" "\<not> ch_closed rcv" "ch_opener rcv = Some r"
      "queue_content (ch_in rcv) = []"
    and sdr: "ch_sealer sdr = Some s" "in_step s r"
    and sent: "send_all C fs sdr = Inr sdr'" "ch_log sdr' = ch_log sdr @ map DuplexSend ms"
    and fresh: "tags_fresh (op_lastTag r) (map (drop 4) ms)"
    and chunks: "concat chunks = concat ms" "chunks \<noteq> []"
  shows "\<exists>rcv'. receive_all C A chunks rcv = Some rcv' \<and> delivered rcv' = delivered rcv @ fs \<and>
    \<not> ch_closed rcv' \<and> queue_content (ch_in rcv') = [] \<and>
    (\<exists>s' r'. ch_sealer sdr' = Some s' \<and> ch_opener rcv' = Some r' \<and> in_step s' r')"
proof -
  obtain recs s' where sealed: "seal_all C (map encodeFrame fs) s = Inr (recs, s')"
    and s': "ch_sealer sdr' = Some s'"
    and log: "ch_log sdr' = ch_log sdr @ map (\<lambda>rec. DuplexSend (frame_bytes rec)) recs"
    and small: "\<forall>f \<in> set fs. length (f_payload f) + RECORD_OVERHEAD_BYTES \<le> MAX_RECORD_BYTES"
    using send_all_seal_all [OF sent(1) sdr(1)] by blast
  have "map DuplexSend ms = map DuplexSend (map frame_bytes recs)"
    using log sent(2) by (simp add: comp_def)
  then have ms: "ms = map frame_bytes recs"
    by (subst (asm) inj_map_eq_map) (auto intro: injI)
  have "drop 4 (frame_bytes rec) = rec" for rec by (simp add: frame_bytes_def)
  then have fr: "tags_fresh (op_lastTag r) recs" using fresh by (simp add: ms comp_def)
  have inv: "chan_inv rcv" "queue_inv (ch_in rcv)"
    using rcv(1) by (simp_all add: reachable_inv reachable_queue_inv)
  have open': "ch_open rcv" using inv(1) rcv(2,3) by (cases "ch_open rcv") (simp_all add: chan_inv_def phase_ok_def)
  let ?v = "snd (view rcv)"
  have v: "view rcv = ([], ?v)" "ch_opener ?v = Some r" "ch_open ?v" "\<not> ch_closed ?v"
    "delivered ?v = delivered rcv"
    using rcv open' by (simp_all add: view_def)
  obtain c r' where c: "spec_records C A (wire recs) ?v = Inr ([], c)" "ch_opener c = Some r'"
    "in_step s' r'" "delivered c = delivered rcv @ fs" "\<not> ch_closed c"
    using spec_records_wire [OF C A v(2) sdr(2) sealed small fr] v by auto
  have all: "spec_receive C A (concat chunks) ([], ?v) = ([], c)"
    using c(1) v(3,4) chunks(1) by (simp add: spec_receive_def spec_drain_def ms wire_def)
  obtain rcv' where rcv': "receive_all C A chunks rcv = Some rcv'"
    and fold: "view rcv' = fold (spec_receive C A) chunks ([], ?v)"
    using receive_all_refines [OF inv(2), of C A chunks] v(1) by auto
  have "agree (view rcv') ([], c)"
    using fold_spec_receive [OF view_inv [OF inv(1)], of C A "hd chunks" "tl chunks" "[]"]
      chunks(2) fold all by simp
  then have "view rcv' = ([], c)" using c(5) by (cases "view rcv'") (simp add: agree_def)
  note f = view_fields [OF this]
  show ?thesis using rcv' f c s' by (auto simp: delivered_def)
qed

theorem channel_roundtrip_witness:
  "\<exists>rcv' rcv chunks. receive_all demo_crypto idle_app chunks rcv = Some rcv' \<and>
     delivered rcv' = delivered rcv @ [controlFrame [7]] \<and> \<not> ch_closed rcv'"
proof -
  obtain i :: channel and r si or' where p: "reachable demo_crypto idle_app r" "ch_sealer i = Some si"
    "ch_opener r = Some or'" "in_step si or'" "sl_counter si = 0" "op_lastTag or' = None"
    "ch_open i" "\<not> ch_closed i" "\<not> ch_closed r" "queue_content (ch_in r) = []"
    using demo_open_pair by (elim exE conjE) (rule that; assumption)
  obtain i' rec where s: "send_all demo_crypto [controlFrame [7]] i = Inr i'"
    "ch_log i' = ch_log i @ map DuplexSend [frame_bytes rec]"
    using demo_send [OF p(2,5,7,8)] by blast
  have "tags_fresh (op_lastTag or') (map (drop 4) [frame_bytes rec])" by (simp add: p(6))
  then show ?thesis
    using channel_roundtrip [OF demo_aead_correct idle_app_simps(2) p(1,9,3,10,2,4) s,
        of "[take 3 (frame_bytes rec), drop 3 (frame_bytes rec)]"]
    by fastforce
qed

text \<open>C2: strict order against an attacker who owns the transport. If the AEAD is authentic for
  the receiver's key (at each nonce only the record sealed there opens), then whatever bytes
  arrive, in whatever pieces, genuine records dropped, repeated, swapped or altered included, and
  whatever the handlers do, the frames delivered are the first few frames sent, in order.\<close>

theorem delivery_is_a_prefix:
  assumes ch: "reachable C A rcv" "\<not> ch_closed rcv" "ch_opener rcv = Some r"
    and auth: "authentic C r (map encodeFrame fs)"
  shows "\<exists>rcv' n. receive_all C A chunks rcv = Some rcv' \<and> n \<le> length fs \<and>
    delivered rcv' = delivered rcv @ take n fs"
proof -
  have inv: "chan_inv rcv" "queue_inv (ch_in rcv)"
    using ch(1) by (simp_all add: reachable_inv reachable_queue_inv)
  obtain rcv' where rx: "receive_all C A chunks rcv = Some rcv'"
    using receive_all_refines [OF inv(2)] by metis
  have "settled rcv"
    using inv(1) ch(2,3) by (cases "ch_open rcv") (simp_all add: settled_def chan_inv_def phase_ok_def)
  moreover have "at_frame r (delivered rcv) fs rcv" using ch(3) by (auto simp: at_frame_def)
  ultimately have "at_frame r (delivered rcv) fs rcv'"
    using receive_all_at_frame [OF auth _ _ rx] by blast
  then show ?thesis using rx by (auto simp: at_frame_def)
qed

text \<open>A crypto under which one frame was sealed, at counter 0, and nothing else opens.\<close>

definition one_shot :: "bytes \<Rightarrow> crypto" where
  "one_shot p = demo_crypto\<lparr>aead_open := \<lambda>k n c.
     if take 8 (rev n) = replicate 8 0 \<and> c = aead_seal demo_crypto k n p then Some p else None\<rparr>"

lemma one_shot_authentic:
  assumes "op_counter r = 0"
  shows "authentic (one_shot p) r [p]"
proof -
  have "take 8 (rev (nonceFor q j)) = replicate 8 0 \<longleftrightarrow> j mod 2 ^ 64 = 0" for q j
  proof -
    have t: "take 8 (rev (nonceFor q j)) = rev (be_bytes 8 j)" by (simp add: nonceFor_be)
    have "be_bytes k 0 = replicate k 0" for k by (induction k) (simp_all add: replicate_append_same)
    then have z: "replicate 8 0 = rev (be_bytes 8 0)" by simp
    show ?thesis unfolding t z rev_is_rev_conv be_bytes_inject by simp
  qed
  note zero = this
  have j0: "j = 0" if "j mod 2 ^ 64 = 0" "j \<le> Suc 0" for j :: nat
    using that by (cases "j = 1") simp_all
  show ?thesis
    unfolding authentic_def
  proof (rule conjI; (intro allI impI)?)
    show "op_counter r + length [p] \<le> 2 ^ 53" using assms by simp
  next
    fix j rec bs
    assume o: "aead_open (one_shot p) (op_key r) (nonceFor (op_prefix r) j) rec = Some bs"
      and b: "op_counter r \<le> j \<and> j \<le> op_counter r + length [p]"
    have "j = 0 \<and> bs = p"
      using o b assms j0 [of j] by (simp add: one_shot_def zero split: if_splits)
    then show "j - op_counter r < length [p] \<and> bs = [p] ! (j - op_counter r)" by simp
  qed
qed

theorem delivery_is_a_prefix_witness:
  "\<exists>(rcv :: channel) rcv' r c n.
     receive_all (one_shot [1, 7]) idle_app [frame_bytes c, frame_bytes c, [9]] rcv = Some rcv' \<and>
     c = aead_seal (one_shot [1, 7]) (op_key r) (nonceFor (op_prefix r) 0) [1, 7] \<and>
     delivered rcv' = take n [controlFrame [7]]"
proof -
  let ?C = "one_shot [1, 7]"
  have C: "dh_commutes ?C" "public_length ?C" "x_shared ?C a b \<noteq> None" for a b
    using demo_dh_commutes demo_public_length
    by (simp_all add: dh_commutes_def public_length_def one_shot_def demo_crypto_def)
  obtain hi where hi: "initiatorHandshake ?C [1] (x_public ?C [3]) None = Inr hi"
    using C(2) by (simp add: initiatorHandshake_def public_length_def)
  obtain rcv r where r: "reachable ?C idle_app rcv" "\<not> ch_closed rcv" "ch_opener rcv = Some r"
    "op_counter r = 0" "delivered rcv = []"
    using handshake_open [OF C(1,2) hi refl [of "responderHandshake ?C [2] [3] None"] C(3) C(3)
        idle_app_simps(1) idle_app_simps(1)]
    by (force simp: delivered_def in_step_def)
  have "authentic ?C r (map encodeFrame [controlFrame [7]])"
    using one_shot_authentic [OF r(4)] by (simp add: encodeFrame_def controlFrame_def)
  from delivery_is_a_prefix [OF r(1-3) this] r(5) show ?thesis by (metis append_Nil)
qed

text \<open>C3: the receiving channel cannot tell how the transport cut the stream: two ways of cutting
  the same bytes lead to the same channel state and the same sequence of effects, and while the
  channel stays open to the same unread bytes.\<close>

theorem chunking_is_invisible:
  assumes ch: "reachable C A ch" and cs: "concat cs = concat cs'" "cs \<noteq> []" "cs' \<noteq> []"
  shows "\<exists>c1 c2. receive_all C A cs ch = Some c1 \<and> receive_all C A cs' ch = Some c2 \<and>
    c1\<lparr>ch_in := empty_queue\<rparr> = c2\<lparr>ch_in := empty_queue\<rparr> \<and>
    (\<not> ch_closed c1 \<longrightarrow> queue_content (ch_in c1) = queue_content (ch_in c2))"
proof -
  have inv: "chan_inv ch" "queue_inv (ch_in ch)"
    using ch by (simp_all add: reachable_inv reachable_queue_inv)
  obtain c1 c2 where c1: "receive_all C A cs ch = Some c1" "view c1 = fold (spec_receive C A) cs (view ch)"
    and c2: "receive_all C A cs' ch = Some c2" "view c2 = fold (spec_receive C A) cs' (view ch)"
    using receive_all_refines [OF inv(2)] by metis
  let ?one = "spec_receive C A (concat cs) (view ch)"
  have "agree (view c1) ?one"
    using fold_spec_receive [OF view_inv [OF inv(1)], of C A "hd cs" "tl cs" "fst (view ch)"] cs(2) c1(2)
    by simp
  moreover have "agree (view c2) ?one"
    using fold_spec_receive [OF view_inv [OF inv(1)], of C A "hd cs'" "tl cs'" "fst (view ch)"] cs(1,3) c2(2)
    by simp
  ultimately have "agree (view c1) (view c2)" by (auto simp: agree_def)
  then show ?thesis using c1(1) c2(1) by (auto simp: agree_def view_def)
qed

theorem chunking_is_invisible_witness:
  "\<exists>ch c1 c2. receive_all demo_crypto idle_app [[0, 0], [0, 1, 5]] ch = Some c1 \<and>
     receive_all demo_crypto idle_app [[0, 0, 0], [1], [5]] ch = Some c2 \<and>
     c1\<lparr>ch_in := empty_queue\<rparr> = c2\<lparr>ch_in := empty_queue\<rparr>"
proof -
  obtain r where "reachable demo_crypto idle_app r" using demo_open_pair by (elim exE conjE) (rule that; assumption)
  from chunking_is_invisible [OF this, of "[[0, 0], [0, 1, 5]]" "[[0, 0, 0], [1], [5]]"]
  show ?thesis by auto
qed

text \<open>C4: over its whole life a sealer gives every record its own nonce: sealing any batch uses the sealer's key
  with the nonces of the next counters, which are pairwise distinct, and leaves the counter that many higher, never above
  \<open>2 ^ 53\<close>. There, where adding one to a JavaScript number would stop moving it, every further seal is refused as
  exhausted, and below it none is.\<close>

theorem nonces_never_repeat:
  assumes "seal_all C bs s = Inr (recs, s')"
  shows "(\<exists>ns. distinct ns \<and> ns = map (\<lambda>i. nonceFor (sl_prefix s) (sl_counter s + i)) [0..<length bs] \<and>
      recs = map2 (aead_seal C (sl_key s)) ns bs) \<and>
    s' = s\<lparr>sl_counter := sl_counter s + length bs\<rparr> \<and>
    (bs \<noteq> [] \<longrightarrow> sl_counter s' \<le> 2 ^ 53) \<and>
    (\<forall>b. seal C b s' = Inl CounterExhausted \<longleftrightarrow> 2 ^ 53 \<le> sl_counter s')"
proof -
  have r: "recs = map2 (aead_seal C (sl_key s)) (nonces s (length bs)) bs"
    "s' = s\<lparr>sl_counter := sl_counter s + length bs\<rparr>" "bs \<noteq> [] \<longrightarrow> sl_counter s + length bs \<le> Suc MAX_SAFE_INTEGER"
    using seal_all_records [OF assms] by simp_all
  moreover have "distinct (nonces s (length bs))"
    using r(3) by (cases "bs = []") (simp add: nonces_def, intro nonces_distinct, simp)
  ultimately show ?thesis using seal_exhausted by (simp add: nonces_def MAX_SAFE_INTEGER_def)
qed

theorem nonces_never_repeat_witness:
  "\<exists>recs s' ns. seal_all demo_crypto [[1], [1]] \<lparr>sl_key = [], sl_prefix = [], sl_counter = 2 ^ 53 - 2\<rparr> = Inr (recs, s') \<and>
    distinct ns \<and> length ns = 2 \<and> recs = map2 (aead_seal demo_crypto []) ns [[1], [1]] \<and>
    seal demo_crypto [1] s' = Inl CounterExhausted"
proof -
  let ?s = "\<lparr>sl_key = [], sl_prefix = [], sl_counter = 2 ^ 53 - 2\<rparr> :: sealer"
  obtain recs s' where r: "seal_all demo_crypto [[1], [1]] ?s = Inr (recs, s')"
    by (simp add: seal_Inr MAX_SAFE_INTEGER_def)
  note T = nonces_never_repeat [OF r]
  have "s' = ?s\<lparr>sl_counter := 2 ^ 53\<rparr>" using T by (elim conjE exE) simp
  then have "2 ^ 53 \<le> sl_counter s'" by simp
  then have e: "seal demo_crypto [1] s' = Inl CounterExhausted" using T by blast
  obtain ns where "distinct ns" "ns = map (\<lambda>i. nonceFor (sl_prefix ?s) (sl_counter ?s + i)) [0..<length [[1], [1] :: bytes]]"
    "recs = map2 (aead_seal demo_crypto (sl_key ?s)) ns [[1], [1]]"
    using T by blast
  moreover from this(2) have "length ns = 2" by simp
  ultimately show ?thesis using r e by (simp only: sealer.simps) blast
qed

text \<open>An initiator says at most two things before the peer has proved it holds the pinned
  key: its handshake message and one record. In every reachable unauthenticated state no more
  has gone to the duplex, and once the record is out a further send is refused without effect.\<close>

lemma initiator_budget:
  assumes ch: "reachable C A ch" and i: "ch_role ch = Initiator" "AuthResolved \<notin> set (ch_log ch)"
  shows "length (filter is_send (ch_log ch)) \<le> 2 \<and>
    (ch_open ch \<longrightarrow> length (filter is_send (ch_log ch)) = 2 \<longrightarrow> send C f ch = Inl PreAuthBudget)"
proof
  have inv: "chan_inv ch" using ch by (rule reachable_inv)
  then have na: "\<not> ch_auth ch" using i(2) by (simp add: chan_inv_def)
  show "length (filter is_send (ch_log ch)) \<le> 2"
    using inv i na unfolding chan_inv_def budget_ok_def sends_def
    by (cases "ch_sealer ch") (auto split: if_splits)
  show "ch_open ch \<longrightarrow> length (filter is_send (ch_log ch)) = 2 \<longrightarrow> send C f ch = Inl PreAuthBudget"
    using inv i na unfolding chan_inv_def budget_ok_def phase_ok_def sends_def
    by (auto simp: send_def)
qed

lemma initiator_budget_witness:
  "\<exists>ch :: channel. ch_role ch = Initiator \<and> ch_open ch \<and> length (filter is_send (ch_log ch)) \<le> 2"
proof -
  obtain i r si or' where p: "reachable demo_crypto idle_app i" "ch_role i = Initiator" "\<not> ch_auth i"
    "ch_open i"
    using demo_open_pair by (elim exE conjE) (rule that; assumption)
  have "AuthResolved \<notin> set (ch_log i)" using reachable_inv [OF p(1)] p(3) by (simp add: chan_inv_def)
  from initiator_budget [OF p(1,2) this] p show ?thesis by (intro exI [of _ i]) simp
qed

text \<open>C5: the channel fails closed. When anything on the receive path throws (a malformed
  handshake, an over-long prefix, a record that does not open, an unknown frame tag), the channel
  is closed, holds no key, sealer or opener, has called the close handler exactly once, and from
  then on ignores all input and refuses every send.\<close>

theorem receive_fails_closed:
  assumes ch: "reachable C A ch" "\<not> ch_closed ch"
    and throws: "drain C A (ch\<lparr>ch_in := push bs (ch_in ch)\<rparr>) = Some (Inl (e, ch1))"
  shows "\<exists>ch'. receive C A bs ch = Some ch' \<and> ch_closed ch' \<and> ch_keys ch' = None \<and>
    ch_sealer ch' = None \<and> ch_opener ch' = None \<and> length (filter is_on_close (ch_log ch')) = 1 \<and>
    (\<forall>more f. receive_all C A more ch' = Some ch' \<and> send C f ch' = Inl ChannelClosed)"
proof -
  let ?ch' = "shutdown (Some e) ch1"
  have r: "receive C A bs ch = Some ?ch'" using ch(2) throws by (simp add: receive_def)
  then have "chan_inv ?ch'" using reachable_inv [OF ch(1)] by (rule receive_inv [rotated])
  moreover have all: "receive_all C A more ?ch' = Some ?ch'" for more
    by (induction more) (simp_all add: receive_def)
  ultimately show ?thesis
    using r by (auto simp: chan_inv_def phase_ok_def closes_def send_def)
qed

theorem receive_fails_closed_witness:
  "\<exists>ch ch' :: channel. \<not> ch_closed ch \<and> receive demo_crypto idle_app [255, 255, 255, 255] ch = Some ch' \<and>
    ch_closed ch' \<and> ch_keys ch' = None"
proof -
  obtain r or' where p: "reachable demo_crypto idle_app r" "\<not> ch_closed r" "ch_open r"
    "ch_opener r = Some or'" "queue_content (ch_in r) = []"
    using demo_open_pair by (elim exE conjE) (rule that; assumption)
  have q: "queue_inv (push [255, 255, 255, 255] (ch_in r))"
    "queue_content (push [255, 255, 255, 255] (ch_in r)) = [255, 255, 255, 255]"
    using reachable_queue_inv [OF p(1)] p(5) by (simp_all add: bq.inv_push bq.content_push)
  have "split_frame MAX_RECORD_BYTES [255, 255, 255, 255] = TooLong 4294967295"
    by (simp add: split_frame_def be_nat_def MAX_RECORD_BYTES_def)
  then have "read_frame bq_length peekUint32BE take_bytes MAX_RECORD_BYTES (push [255, 255, 255, 255] (ch_in r))
      = TooLong 4294967295"
    using bq.read_frame_TooLong [OF q(1)] q(2) by simp
  then have "\<exists>e c. drain demo_crypto idle_app (r\<lparr>ch_in := push [255, 255, 255, 255] (ch_in r)\<rparr>) = Some (Inl (e, c))"
    using p by (simp add: drain_def drain_records.simps)
  then show ?thesis using receive_fails_closed [OF p(1,2)] p(2) by blast
qed

end
