(* ===== verification/PtyFrame.thy ===== *)
theory PtyFrame
  imports Prelude
begin

text \<open>
  \<open>protocol/src/pty-frame.ts\<close> and \<open>pty-payloads.ts\<close>: the binary terminal frames. Fields are
  JavaScript numbers, modelled as naturals (the exit code as an integer); the \<open>DataView\<close>
  setters keep the low bits, so the wrap-around is in the codec and the round trip states the
  ranges it needs. A payload decoder that reads past the end throws: \<open>None\<close>.
\<close>

subsection \<open>Frames\<close>

definition PTY_FRAME_KIND :: nat where
  "PTY_FRAME_KIND = 0x74"

definition PTY_FRAME_VERSION :: nat where
  "PTY_FRAME_VERSION = 1"

definition HEADER_BYTES :: nat where
  "HEADER_BYTES = 16"

datatype pty_opcode = Output | SnapshotStart | SnapshotChunk | SnapshotEnd | Resized | Ended | Gap

fun opcode_value :: "pty_opcode \<Rightarrow> nat" where
  "opcode_value Output = 1"
| "opcode_value SnapshotStart = 2"
| "opcode_value SnapshotChunk = 3"
| "opcode_value SnapshotEnd = 4"
| "opcode_value Resized = 5"
| "opcode_value Ended = 6"
| "opcode_value Gap = 7"

text \<open>Back from the number; \<open>None\<close> is an unknown opcode.\<close>

definition opcode_of :: "nat \<Rightarrow> pty_opcode option" where
  "opcode_of n =
     (if n = 1 then Some Output else if n = 2 then Some SnapshotStart else if n = 3 then Some SnapshotChunk
      else if n = 4 then Some SnapshotEnd else if n = 5 then Some Resized else if n = 6 then Some Ended
      else if n = 7 then Some Gap else None)"

lemma opcode_of_value [simp]: "opcode_of (opcode_value op mod 256) = Some op" "opcode_of (opcode_value op) = Some op"
  by (cases op; simp add: opcode_of_def)+

lemma opcode_value_inject [simp]: "opcode_value a = opcode_value b \<longleftrightarrow> a = b"
  by (metis opcode_of_value(2) option.inject)

declare opcode_value.simps [simp del]

text \<open>The opcode field is a number: unknown ones decode as they are.\<close>

record pty_frame =
  pf_opcode :: nat
  pf_streamId :: nat
  pf_seq :: nat
  pf_payload :: bytes

definition encodePtyFrame :: "pty_frame \<Rightarrow> bytes" where
  "encodePtyFrame f =
     le_bytes 1 PTY_FRAME_KIND @ le_bytes 1 PTY_FRAME_VERSION @ le_bytes 1 (pf_opcode f) @ le_bytes 1 0 @
     le_bytes 4 (to_u32 (pf_streamId f)) @
     le_bytes 4 (to_u32 (pf_seq f)) @ le_bytes 4 (pf_seq f div 2 ^ 32) @
     pf_payload f"

text \<open>The \<open>DataView\<close> getters: \<open>k\<close> bytes at an offset.\<close>

definition get_le :: "nat \<Rightarrow> nat \<Rightarrow> bytes \<Rightarrow> nat" where
  "get_le k off bs = le_nat (take k (drop off bs))"

definition decodePtyFrame :: "bytes \<Rightarrow> pty_frame option" where
  "decodePtyFrame bs =
     (if length bs < HEADER_BYTES then None
      else if get_le 1 0 bs \<noteq> PTY_FRAME_KIND then None
      else if get_le 1 1 bs \<noteq> PTY_FRAME_VERSION then None
      else Some \<lparr>pf_opcode = get_le 1 2 bs, pf_streamId = get_le 4 4 bs,
                 pf_seq = get_le 4 12 bs * 2 ^ 32 + get_le 4 8 bs,
                 pf_payload = drop HEADER_BYTES bs\<rparr>)"

lemma get_le_prefix:
  "length xs = off \<Longrightarrow> length ys = k \<Longrightarrow> get_le k off (xs @ ys @ zs) = le_nat ys"
  by (simp add: get_le_def)

lemma le_bytes_mod: "le_bytes k n = le_bytes k (n mod 256 ^ k)"
  by (simp add: le_bytes_def be_bytes_inject)

text \<open>The layout of an encoded frame, field by field.\<close>

lemma encode_fields:
  shows "get_le 1 0 (encodePtyFrame f) = PTY_FRAME_KIND"
    and "get_le 1 1 (encodePtyFrame f) = PTY_FRAME_VERSION"
    and "get_le 1 2 (encodePtyFrame f) = pf_opcode f mod 256"
    and "get_le 4 4 (encodePtyFrame f) = pf_streamId f mod 2 ^ 32"
    and "get_le 4 8 (encodePtyFrame f) = pf_seq f mod 2 ^ 32"
    and "get_le 4 12 (encodePtyFrame f) = pf_seq f div 2 ^ 32 mod 2 ^ 32"
    and "drop HEADER_BYTES (encodePtyFrame f) = pf_payload f"
    and "length (encodePtyFrame f) = HEADER_BYTES + length (pf_payload f)"
  by (simp_all add: encodePtyFrame_def get_le_def HEADER_BYTES_def PTY_FRAME_KIND_def
      PTY_FRAME_VERSION_def to_u32_def bytes_simps)

lemma seq_halves: "(n div 2 ^ 32) mod 2 ^ 32 * 2 ^ 32 + n mod 2 ^ 32 = n mod 2 ^ (64 :: nat)" for n :: nat
proof -
  have "n mod (2 ^ 32 * 2 ^ 32) = 2 ^ 32 * (n div 2 ^ 32 mod 2 ^ 32) + n mod 2 ^ 32"
    by (rule mod_mult2_eq)
  then show ?thesis by (simp add: mult.commute)
qed

lemma decode_encode_mod:
  "decodePtyFrame (encodePtyFrame f) =
     Some \<lparr>pf_opcode = pf_opcode f mod 256, pf_streamId = pf_streamId f mod 2 ^ 32,
           pf_seq = pf_seq f mod 2 ^ 64, pf_payload = pf_payload f\<rparr>"
  unfolding decodePtyFrame_def encode_fields seq_halves by simp

subsection \<open>Payloads\<close>

record size =
  sz_cols :: nat
  sz_rows :: nat

definition encodeSizePayload :: "size \<Rightarrow> bytes" where
  "encodeSizePayload z = le_bytes 2 (sz_cols z) @ le_bytes 2 (sz_rows z)"

definition decodeSizePayload :: "bytes \<Rightarrow> size option" where
  "decodeSizePayload bs =
     (if length bs < 4 then None
      else Some \<lparr>sz_cols = get_le 2 0 bs, sz_rows = get_le 2 2 bs\<rparr>)"

definition encodeExitPayload :: "int option \<Rightarrow> bytes" where
  "encodeExitPayload code =
     (case code of None \<Rightarrow> [] | Some c \<Rightarrow> le_bytes 4 (nat (c mod 2 ^ 32)))"

definition to_int32 :: "nat \<Rightarrow> int" where
  "to_int32 n = (if n < 2 ^ 31 then int n else int n - 2 ^ 32)"

text \<open>The outer option is the throw of a short buffer, the inner one the exit code.\<close>

definition decodeExitPayload :: "bytes \<Rightarrow> int option option" where
  "decodeExitPayload bs =
     (if bs = [] then Some None
      else if length bs < 4 then None
      else Some (Some (to_int32 (get_le 4 0 bs))))"

lemma decode_encode_size:
  "decodeSizePayload (encodeSizePayload z) =
     Some \<lparr>sz_cols = sz_cols z mod 2 ^ 16, sz_rows = sz_rows z mod 2 ^ 16\<rparr>"
  by (simp add: decodeSizePayload_def encodeSizePayload_def get_le_def bytes_simps)

lemma to_int32_mod:
  assumes "- (2 ^ 31) \<le> c" and "c < 2 ^ 31"
  shows "to_int32 (nat (c mod 2 ^ 32)) = c"
proof (cases "0 \<le> c")
  case True
  then show ?thesis using assms by (simp add: to_int32_def)
next
  case False
  have "c mod 2 ^ 32 = (c + 2 ^ 32) mod 2 ^ 32" by (rule mod_add_self2 [symmetric])
  also have "\<dots> = c + 2 ^ 32" using False assms by (intro mod_pos_pos_trivial) simp_all
  finally have "c mod 2 ^ 32 = c + 2 ^ 32" .
  then show ?thesis using False assms by (simp add: to_int32_def)
qed

lemma decode_encode_exit:
  assumes "case code of None \<Rightarrow> True | Some c \<Rightarrow> - (2 ^ 31) \<le> c \<and> c < 2 ^ 31"
  shows "decodeExitPayload (encodeExitPayload code) = Some code"
proof (cases code)
  case None
  then show ?thesis by (simp add: decodeExitPayload_def encodeExitPayload_def)
next
  case (Some c)
  let ?n = "nat (c mod 2 ^ 32)"
  have n: "?n mod 2 ^ 32 = ?n" by simp
  have "get_le 4 0 (le_bytes 4 ?n) = ?n" using n by (simp add: get_le_def bytes_simps)
  moreover have "le_bytes 4 ?n \<noteq> []" using length_le_bytes [of 4 ?n] by (metis list.size(3) zero_neq_numeral)
  ultimately show ?thesis
    using Some assms to_int32_mod [of c] by (simp add: decodeExitPayload_def encodeExitPayload_def)
qed

end
