(* ===== verification/Wire.thy ===== *)
theory Wire
  imports PtyFrame Crypto
begin

text \<open>
  The rest of \<open>protocol/src\<close>: versions, capabilities, the method registry with its capability
  gates, the response envelope, the device statement, and the shape checks of the schemas that
  later theories rely on. JSON text and \<open>zod\<close>'s parsing of it stay outside: a message is
  modelled by the value it parses to, a schema by the check it makes of that value.
\<close>

subsection \<open>Versions (\<open>version.ts\<close>)\<close>

definition PROTOCOL_VERSION :: int where
  "PROTOCOL_VERSION = 2"

definition MIN_COMPATIBLE_VERSION :: int where
  "MIN_COMPATIBLE_VERSION = 2"

datatype compat_result = CompatOk | PeerTooOld | SelfTooOld

definition evaluateCompat :: "int \<Rightarrow> compat_result" where
  "evaluateCompat peerVersion =
     (if peerVersion < MIN_COMPATIBLE_VERSION then PeerTooOld
      else if PROTOCOL_VERSION < peerVersion then SelfTooOld
      else CompatOk)"

subsection \<open>Capabilities (\<open>capabilities.ts\<close>)\<close>

definition PTY_STREAM :: string where "PTY_STREAM = ''pty.stream.v1''"

definition MIRROR_SNAPSHOT :: string where "MIRROR_SNAPSHOT = ''mirror.snapshot.v1''"

definition SEMANTIC_MIRROR :: string where "SEMANTIC_MIRROR = ''mirror.semantic.v1''"

definition SESSION_INPUT :: string where "SESSION_INPUT = ''session.input.v1''"

definition SESSION_APPROVE :: string where "SESSION_APPROVE = ''session.approve.v1''"

definition SANDBOX :: string where "SANDBOX = ''sandbox.v1''"

definition ATTENTION :: string where "ATTENTION = ''attention.v1''"

definition FOLLOW_CUSTODY :: string where "FOLLOW_CUSTODY = ''custody.follow.v1''"

definition LAUNCH :: string where "LAUNCH = ''launch.v1''"

definition KNOWN_CAPABILITIES :: "string list" where
  "KNOWN_CAPABILITIES =
     [PTY_STREAM, MIRROR_SNAPSHOT, SEMANTIC_MIRROR, SESSION_INPUT, SESSION_APPROVE, SANDBOX, ATTENTION,
      FOLLOW_CUSTODY, LAUNCH]"

text \<open>A JavaScript \<open>Set\<close>: the list of its members in insertion order.\<close>

fun negotiate_loop :: "string list \<Rightarrow> string list \<Rightarrow> string list \<Rightarrow> string list" where
  "negotiate_loop [] offered active = active"
| "negotiate_loop (cap # a) offered active =
     negotiate_loop a offered
       (if cap \<in> set offered \<and> cap \<notin> set active then active @ [cap] else active)"

definition negotiate :: "string list \<Rightarrow> string list \<Rightarrow> string list" where
  "negotiate a b = negotiate_loop a b []"

lemma negotiate_loop_set:
  "set (negotiate_loop a b act) = set act \<union> (set a \<inter> set b)"
  by (induction a b act rule: negotiate_loop.induct) auto

lemma negotiate_loop_distinct: "distinct act \<Longrightarrow> distinct (negotiate_loop a b act)"
  by (induction a b act rule: negotiate_loop.induct) auto

lemma set_negotiate [simp]: "set (negotiate a b) = set a \<inter> set b"
  by (simp add: negotiate_def negotiate_loop_set)

lemma distinct_negotiate [simp]: "distinct (negotiate a b)"
  by (simp add: negotiate_def negotiate_loop_distinct)

text \<open>\<open>negotiateHello\<close> of \<open>handshake.ts\<close>.\<close>

definition negotiateHello :: "string list \<Rightarrow> int \<times> string list \<Rightarrow> string list \<times> compat_result" where
  "negotiateHello local_caps ack =
     (negotiate local_caps (snd ack), evaluateCompat (fst ack))"

subsection \<open>Methods (\<open>methods.ts\<close>)\<close>

datatype method_name =
    SessionSubscribe | SessionUnsubscribe | SessionInput | SessionResize | SessionApprove
  | SandboxSpawn | AttentionRaise | CustodyReserve | CustodyClaim | SessionsList
  | LaunchOptions | LaunchStart

definition METHODS :: "(string \<times> method_name) list" where
  "METHODS =
     [(''session.subscribe'', SessionSubscribe), (''session.unsubscribe'', SessionUnsubscribe),
      (''session.input'', SessionInput), (''session.resize'', SessionResize),
      (''session.approve'', SessionApprove), (''sandbox.spawn'', SandboxSpawn),
      (''attention.raise'', AttentionRaise), (''custody.reserve'', CustodyReserve),
      (''custody.claim'', CustodyClaim), (''sessions.list'', SessionsList),
      (''launch.options'', LaunchOptions), (''launch.start'', LaunchStart)]"

fun requiredCapability :: "method_name \<Rightarrow> string option" where
  "requiredCapability SessionSubscribe = Some PTY_STREAM"
| "requiredCapability SessionInput = Some SESSION_INPUT"
| "requiredCapability SessionResize = Some SESSION_INPUT"
| "requiredCapability SessionApprove = Some SESSION_APPROVE"
| "requiredCapability SandboxSpawn = Some SANDBOX"
| "requiredCapability AttentionRaise = Some ATTENTION"
| "requiredCapability LaunchOptions = Some LAUNCH"
| "requiredCapability LaunchStart = Some LAUNCH"
| "requiredCapability _ = None"

subsection \<open>Responses (\<open>envelope.ts\<close>)\<close>

datatype error_code =
    InvalidRequest | Unauthorized | Forbidden | NotFound | MethodNotFound | InvalidArgument
  | Unavailable | VersionIncompatible | Internal

text \<open>A response to request \<open>id\<close>: a result, which may announce binary frames, or a coded error with
  optional data.\<close>

datatype ('r, 'd) response =
    RpcSuccess string 'r bool
  | RpcError string error_code string "'d option"

definition success :: "string \<Rightarrow> 'r \<Rightarrow> bool \<Rightarrow> ('r, 'd) response" where
  "success rid result stream = RpcSuccess rid result stream"

definition failure :: "string \<Rightarrow> error_code \<Rightarrow> string \<Rightarrow> 'd option \<Rightarrow> ('r, 'd) response" where
  "failure rid code msg data = RpcError rid code msg data"

fun response_id :: "('r, 'd) response \<Rightarrow> string" where
  "response_id (RpcSuccess rid r s) = rid"
| "response_id (RpcError rid c m d) = rid"

subsection \<open>Shape checks of the schemas\<close>

definition is_hex :: "char \<Rightarrow> bool" where
  "is_hex c \<longleftrightarrow> c \<in> set ''0123456789abcdef''"

text \<open>\<open>makeIdSchema\<close>: the prefix, an underscore, 32 lowercase hex digits.\<close>

definition valid_id :: "string \<Rightarrow> string \<Rightarrow> bool" where
  "valid_id prefix s \<longleftrightarrow>
     (let n = length prefix
      in take n s = prefix \<and> take 1 (drop n s) = ''_'' \<and> length s = n + 33 \<and>
         list_all is_hex (drop (n + 1) s))"

definition valid_session_ref :: "string \<Rightarrow> bool" where
  "valid_session_ref = valid_id ''sref''"

definition valid_host_id :: "string \<Rightarrow> bool" where
  "valid_host_id = valid_id ''host''"

definition valid_size :: "size \<Rightarrow> bool" where
  "valid_size z \<longleftrightarrow> 1 \<le> sz_cols z \<and> sz_cols z \<le> 1000 \<and> 1 \<le> sz_rows z \<and> sz_rows z \<le> 1000"

definition valid_stream_id :: "nat \<Rightarrow> bool" where
  "valid_stream_id n \<longleftrightarrow> n \<le> 0xffffffff"

subsection \<open>The device statement (\<open>device-auth.ts\<close>)\<close>

definition DEVICE_AUTH_LABEL :: string where
  "DEVICE_AUTH_LABEL = ''pherry/device-auth/v1''"

definition DEVICE_AUTH_SESSION_ID_BYTES :: nat where
  "DEVICE_AUTH_SESSION_ID_BYTES = 32"

definition DEVICE_PUBLIC_KEY_BYTES :: nat where
  "DEVICE_PUBLIC_KEY_BYTES = 65"

definition DEVICE_KEY_ID_LENGTH :: nat where
  "DEVICE_KEY_ID_LENGTH = 16"

definition device_key_id_pattern :: "string \<Rightarrow> bool" where
  "device_key_id_pattern s \<longleftrightarrow> length s = 16 \<and> list_all is_hex s"

definition NULL_DEVICE_KEY_ID :: string where
  "NULL_DEVICE_KEY_ID = ''0000000000000000''"

text \<open>The writes at increasing offsets lay the fields out one after the other; the throw on a
  wrong-length session id is \<open>None\<close>.\<close>

definition deviceAuthMessage :: "bytes \<Rightarrow> string \<Rightarrow> string \<Rightarrow> bytes option" where
  "deviceAuthMessage sessionId hostId deviceKeyId =
     (if length sessionId \<noteq> DEVICE_AUTH_SESSION_ID_BYTES then None
      else Some (utf8 DEVICE_AUTH_LABEL @ [0] @ sessionId @ [0] @ utf8 hostId @ [0] @ utf8 deviceKeyId))"

definition hex_digit :: "nat \<Rightarrow> char" where
  "hex_digit n = ''0123456789abcdef'' ! n"

fun bytesToHex :: "bytes \<Rightarrow> string" where
  "bytesToHex [] = []"
| "bytesToHex (b # bs) = hex_digit (unat b div 16) # hex_digit (unat b mod 16) # bytesToHex bs"

definition deviceKeyIdOf :: "crypto \<Rightarrow> bytes \<Rightarrow> string option" where
  "deviceKeyIdOf C publicKey =
     (if length publicKey \<noteq> DEVICE_PUBLIC_KEY_BYTES then None
      else Some (take DEVICE_KEY_ID_LENGTH (bytesToHex (sha_256 C publicKey))))"

text \<open>\<open>toUpperCase\<close> on the characters of a key id.\<close>

definition upper :: "char \<Rightarrow> char" where
  "upper c =
     (let n = of_char c :: nat in if 97 \<le> n \<and> n \<le> 122 then char_of (n - 32) else c)"

definition deviceFingerprint :: "string \<Rightarrow> string option" where
  "deviceFingerprint k =
     (if \<not> device_key_id_pattern k then None
      else let u = map upper k
        in Some (take 4 u @ ''-'' @ take 4 (drop 4 u) @ ''-'' @ take 4 (drop 8 u) @ ''-'' @ take 4 (drop 12 u)))"

lemma is_hex_code: "is_hex c \<Longrightarrow> (48 \<le> (of_char c :: nat) \<and> of_char c \<le> (57 :: nat)) \<or>
    (97 \<le> (of_char c :: nat) \<and> of_char c \<le> (102 :: nat))"
  unfolding is_hex_def by (elim list.set_cases [of c "''0123456789abcdef''"]) auto

lemma not_hex_nul: "\<not> is_hex (CHR 0x00)"
  by (simp add: is_hex_def)

lemma hex_no_nul: "list_all is_hex s \<Longrightarrow> 0 \<notin> set (utf8 s)"
  using not_hex_nul unfolding zero_in_utf8 list_all_iff by blast

lemma hex_digit_is_hex: "n < 16 \<Longrightarrow> is_hex (hex_digit n)"
  unfolding is_hex_def hex_digit_def by (rule nth_mem) simp

lemma bytesToHex_hex: "list_all is_hex (bytesToHex bs)"
proof (induction bs)
  case (Cons b bs)
  have "unat b div 16 < 16" using unat_byte_bound [of b] by (simp add: div_less_iff_less_mult)
  then show ?case using Cons by (simp add: hex_digit_is_hex)
qed simp

lemma length_bytesToHex [simp]: "length (bytesToHex bs) = 2 * length bs"
  by (induction bs) auto

lemma upper_inject:
  assumes "is_hex c" and "is_hex d"
  shows "upper c = upper d \<longleftrightarrow> c = d"
proof
  assume eq: "upper c = upper d"
  have code: "(of_char (upper c) :: nat) = (if 97 \<le> (of_char c :: nat) then of_char c - 32 else of_char c)"
    if "is_hex c" for c
    using is_hex_code [OF that] by (auto simp: upper_def Let_def)
  have range: "m = n" if "(if 97 \<le> m then m - 32 else m) = (if 97 \<le> n then n - 32 else n)"
    "48 \<le> m \<and> m \<le> 57 \<or> 97 \<le> m \<and> m \<le> 102" "48 \<le> n \<and> n \<le> 57 \<or> 97 \<le> n \<and> n \<le> 102"
    for m n :: nat
    using that by (auto split: if_splits)
  have "(of_char c :: nat) = of_char d"
    by (rule range) (use code [OF assms(1)] code [OF assms(2)] eq is_hex_code [OF assms(1)]
        is_hex_code [OF assms(2)] in simp_all)
  then show "c = d" by simp
qed simp

end
