(* ===== verification/OuterFrame.thy ===== *)
theory OuterFrame
  imports ByteStream Wire
begin

text \<open>
  \<open>packages/relay-core/src/messages.ts\<close> and \<open>outer-frame.ts\<close>: the coordination messages, their
  framing, the incremental reader (a second provider of the byte-stream interface) and the
  connection with its switch from framed messages to raw bytes. The JSON and base64 text of a
  message is the codec parameter; a message here carries the bytes its fields decode to.
\<close>

subsection \<open>Messages\<close>

datatype relay_close_code =
    UnknownHost | ProofFailed | BadTicket | TicketExpired | TicketReused | BridgeTimeout
  | DataAuthFailed | Drained | ProtocolError

datatype data_role = HostRole | ControllerRole

datatype outer_message =
    HostHello string
  | HostChallenge string bytes bytes
  | HostProofMsg bytes
  | HostRegistered string
  | ConnOpen string bytes
  | DataAuth data_role string "bytes option"
  | DataReady
  | DrainMsg
  | CloseMsg relay_close_code "string option"

text \<open>The ticket pattern: \<open>tkt_\<close> and 32 lowercase hex digits.\<close>

definition valid_ticket :: "string \<Rightarrow> bool" where
  "valid_ticket = valid_id ''tkt''"

text \<open>The schema of each message.\<close>

fun outer_ok :: "outer_message \<Rightarrow> bool" where
  "outer_ok (HostHello h) = (h \<noteq> '''')"
| "outer_ok (HostChallenge c n p) = (c \<noteq> '''' \<and> length n = 32 \<and> length p = 32)"
| "outer_ok (HostProofMsg mac) = (length mac = 32)"
| "outer_ok (HostRegistered h) = (h \<noteq> '''')"
| "outer_ok (ConnOpen t n) = (valid_ticket t \<and> length n = 32)"
| "outer_ok (DataAuth r t mac) = (valid_ticket t \<and> (case mac of None \<Rightarrow> True | Some m \<Rightarrow> length m = 32))"
| "outer_ok DataReady = True"
| "outer_ok DrainMsg = True"
| "outer_ok (CloseMsg c r) = True"

text \<open>\<open>JSON.stringify\<close> and \<open>JSON.parse\<close> with the field encodings, as UTF-8 payloads; decoding
  validates, \<open>None\<close> is a throw. The hypothesis is that text round-trips.\<close>

record codec =
  json_encode :: "outer_message \<Rightarrow> bytes"
  json_decode :: "bytes \<Rightarrow> outer_message option"

definition codec_ok :: "codec \<Rightarrow> bool" where
  "codec_ok J \<longleftrightarrow> (\<forall>m. outer_ok m \<longrightarrow> json_decode J (json_encode J m) = Some m)"

lemma valid_id_no_nul:
  assumes "valid_id p s" and "CHR 0x00 \<notin> set p"
  shows "CHR 0x00 \<notin> set s"
proof -
  let ?n = "length p"
  have p: "take ?n s = p" and u: "take 1 (drop ?n s) = ''_''" and h: "list_all is_hex (drop (?n + 1) s)"
    using assms(1) by (simp_all add: valid_id_def Let_def)
  have "drop ?n s = take 1 (drop ?n s) @ drop 1 (drop ?n s)" by (simp only: append_take_drop_id)
  also have "\<dots> = ''_'' @ drop (?n + 1) s" using u by (simp add: add.commute)
  finally have "s = p @ ''_'' @ drop (?n + 1) s" using p by (metis append_take_drop_id)
  moreover have "CHR 0x00 \<notin> set (drop (?n + 1) s)"
    using h not_hex_nul unfolding list_all_iff by blast
  moreover have "CHR 0x00 \<noteq> CHR ''_''" by simp
  ultimately show ?thesis using assms(2) by (metis Un_iff list.set(1,2) set_append insertE empty_iff)
qed

subsection \<open>Framing\<close>

definition MAX_OUTER_MESSAGE_BYTES :: nat where
  "MAX_OUTER_MESSAGE_BYTES = 16 * 1024"

definition MAX_PREHANDLER_RAW_BYTES :: nat where
  "MAX_PREHANDLER_RAW_BYTES = 16 * 1024"

text \<open>\<open>None\<close> is the throw: a message that fails its schema, or is over the cap.\<close>

definition encodeOuterMessage :: "codec \<Rightarrow> outer_message \<Rightarrow> bytes option" where
  "encodeOuterMessage J m =
     (if \<not> outer_ok m then None
      else let payload = json_encode J m
        in if MAX_OUTER_MESSAGE_BYTES < length payload then None else Some (frame_bytes payload))"

subsection \<open>The reader\<close>

record reader =
  rd_chunks :: "bytes list"
  rd_length :: nat

definition empty_reader :: reader where
  "empty_reader = \<lparr>rd_chunks = [], rd_length = 0\<rparr>"

definition rd_push :: "bytes \<Rightarrow> reader \<Rightarrow> reader" where
  "rd_push c q =
     (if c = [] then q else q\<lparr>rd_chunks := rd_chunks q @ [c], rd_length := rd_length q + length c\<rparr>)"

definition rd_peekUint32BE :: "reader \<Rightarrow> nat" where
  "rd_peekUint32BE q = peek_chunks (rd_chunks q) 0 0"

fun rd_take_loop :: "bytes list \<Rightarrow> nat \<Rightarrow> bytes \<times> bytes list" where
  "rd_take_loop [] want = ([], [])"
| "rd_take_loop (c # cs) want =
     (if want = 0 then ([], c # cs)
      else if length c \<le> want then
        (let (out, rest) = rd_take_loop cs (want - length c) in (c @ out, rest))
      else (take want c, drop want c # cs))"

definition rd_take :: "nat \<Rightarrow> reader \<Rightarrow> bytes \<times> reader" where
  "rd_take n q =
     (let (out, rest) = rd_take_loop (rd_chunks q) n
      in (out @ replicate (n - length out) 0,
          \<lparr>rd_chunks = rest, rd_length = rd_length q - length out\<rparr>))"

definition rd_next :: "reader \<Rightarrow> reader frame_read" where
  "rd_next q = read_frame rd_length rd_peekUint32BE rd_take MAX_OUTER_MESSAGE_BYTES q"

definition drainRemaining :: "reader \<Rightarrow> bytes \<times> reader" where
  "drainRemaining q = rd_take (rd_length q) q"

definition rd_content :: "reader \<Rightarrow> bytes" where
  "rd_content q = concat (rd_chunks q)"

definition rd_inv :: "reader \<Rightarrow> bool" where
  "rd_inv q \<longleftrightarrow> rd_length q = length (rd_content q)"

lemma rd_take_loop_spec:
  "n \<le> length (concat cs) \<Longrightarrow> rd_take_loop cs n = (out, rest) \<Longrightarrow>
     out = take n (concat cs) \<and> concat rest = drop n (concat cs)"
proof (induction cs n arbitrary: out rest rule: rd_take_loop.induct)
  case (1 want)
  then show ?case by simp
next
  case (2 c cs want)
  show ?case
  proof (cases "want \<noteq> 0 \<and> length c \<le> want")
    case True
    obtain o1 r1 where r: "rd_take_loop cs (want - length c) = (o1, r1)"
      by (cases "rd_take_loop cs (want - length c)")
    then have "o1 = take (want - length c) (concat cs) \<and> concat r1 = drop (want - length c) (concat cs)"
      using 2 True by auto
    then show ?thesis using 2(3) True r by auto
  next
    case False
    then show ?thesis using 2(3) by (auto split: if_splits)
  qed
qed

lemma rd_take_spec:
  assumes "rd_inv q" and n: "n \<le> length (rd_content q)"
  shows "fst (rd_take n q) = take n (rd_content q)"
    and "rd_content (snd (rd_take n q)) = drop n (rd_content q)"
    and "rd_inv (snd (rd_take n q))"
proof -
  obtain out rest where t: "rd_take_loop (rd_chunks q) n = (out, rest)"
    by (cases "rd_take_loop (rd_chunks q) n")
  then have "out = take n (rd_content q) \<and> concat rest = drop n (rd_content q)"
    using rd_take_loop_spec n unfolding rd_content_def by blast
  then show "fst (rd_take n q) = take n (rd_content q)"
    and "rd_content (snd (rd_take n q)) = drop n (rd_content q)"
    and "rd_inv (snd (rd_take n q))"
    using assms t by (simp_all add: rd_take_def rd_inv_def rd_content_def)
qed

interpretation rd: byte_stream rd_content rd_inv rd_push rd_length rd_peekUint32BE rd_take
proof unfold_locales
  fix q c
  assume q: "rd_inv q"
  then show "rd_inv (rd_push c q)" "rd_content (rd_push c q) = rd_content q @ c"
    by (simp_all add: rd_inv_def rd_content_def rd_push_def)
  show "rd_length q = length (rd_content q)" using q by (simp add: rd_inv_def)
  show "4 \<le> length (rd_content q) \<Longrightarrow> rd_peekUint32BE q = be_nat (take 4 (rd_content q))"
    by (simp add: rd_peekUint32BE_def rd_content_def peek_chunks_eq)
qed (simp_all add: rd_take_spec)

lemma rd_inv_empty [simp]: "rd_inv empty_reader" "rd_content empty_reader = []"
  by (simp_all add: rd_inv_def rd_content_def empty_reader_def)

subsection \<open>The connection\<close>

text \<open>\<open>'h\<close> is what a registered raw consumer is (a bridge peer in a cell, the channel above an
  adapter).\<close>

record 'h outer =
  oc_reader :: reader
  oc_raw :: bool
  oc_closed :: bool
  oc_handler :: "'h option"
  oc_buffer :: "bytes list"
  oc_buffered :: nat

definition new_outer :: "'h outer" where
  "new_outer = \<lparr>oc_reader = empty_reader, oc_raw = False, oc_closed = False, oc_handler = None,
                oc_buffer = [], oc_buffered = 0\<rparr>"

text \<open>What the connection asks of its owner: hand bytes to the consumer, or report the overflow
  of the pre-handler buffer and close.\<close>

datatype 'h raw_effect = DeliverRaw 'h bytes | RawOverflow

definition deliverRaw :: "bytes \<Rightarrow> 'h outer \<Rightarrow> 'h outer \<times> 'h raw_effect list" where
  "deliverRaw bs c =
     (case oc_handler c of
        Some h \<Rightarrow> (c, [DeliverRaw h bs])
      | None \<Rightarrow>
          if MAX_PREHANDLER_RAW_BYTES < oc_buffered c + length bs
          then (c\<lparr>oc_buffer := [], oc_buffered := 0\<rparr>, [RawOverflow])
          else (c\<lparr>oc_buffer := oc_buffer c @ [bs], oc_buffered := oc_buffered c + length bs\<rparr>, []))"

definition toRaw :: "'h outer \<Rightarrow> 'h outer \<times> 'h raw_effect list" where
  "toRaw c =
     (if oc_raw c then (c, [])
      else let (leftover, rd) = drainRemaining (oc_reader c);
               c' = c\<lparr>oc_raw := True, oc_reader := rd\<rparr>
        in if leftover \<noteq> [] then deliverRaw leftover c' else (c', []))"

definition onRaw :: "'h \<Rightarrow> 'h outer \<Rightarrow> 'h outer \<times> 'h raw_effect list" where
  "onRaw h c =
     (c\<lparr>oc_handler := Some h, oc_buffer := [], oc_buffered := 0\<rparr>, map (DeliverRaw h) (oc_buffer c))"

definition buffer_ok :: "'h outer \<Rightarrow> bool" where
  "buffer_ok c \<longleftrightarrow> rd_inv (oc_reader c) \<and> oc_buffered c = length (concat (oc_buffer c)) \<and>
     oc_buffered c \<le> MAX_PREHANDLER_RAW_BYTES \<and> (oc_handler c \<noteq> None \<longrightarrow> oc_buffer c = []) \<and>
     (oc_raw c \<longrightarrow> rd_content (oc_reader c) = [])"

lemma drain_all:
  assumes "rd_inv q"
  shows "fst (drainRemaining q) = rd_content q" "rd_content (snd (drainRemaining q)) = []"
    "rd_inv (snd (drainRemaining q))"
  using rd.take_all [OF assms] rd_take_spec(3) [OF assms] assms
  by (simp_all add: drainRemaining_def rd_inv_def)

lemma buffer_ok_deliverRaw: "buffer_ok c \<Longrightarrow> buffer_ok (fst (deliverRaw bs c))"
  by (auto simp: deliverRaw_def buffer_ok_def split: option.splits)

lemma buffer_ok_toRaw:
  assumes "buffer_ok c"
  shows "buffer_ok (fst (toRaw c))"
proof -
  have "rd_inv (oc_reader c)" using assms by (simp add: buffer_ok_def)
  note d = drain_all [OF this]
  have "buffer_ok (c\<lparr>oc_raw := True, oc_reader := snd (drainRemaining (oc_reader c))\<rparr>)"
    using assms d by (simp add: buffer_ok_def)
  then show ?thesis using assms
    by (simp add: toRaw_def case_prod_beta Let_def buffer_ok_deliverRaw)
qed

lemma buffer_ok_onRaw: "buffer_ok c \<Longrightarrow> buffer_ok (fst (onRaw h c))"
  by (simp add: onRaw_def buffer_ok_def)

lemma buffer_ok_new [simp]: "buffer_ok new_outer"
  by (simp add: buffer_ok_def new_outer_def)

end
