(* ===== verification/DataConnection.thy ===== *)
theory DataConnection
  imports OuterFrame
begin

text \<open>
  \<open>packages/relay-core/src/data-connection.ts\<close> over an \<open>OuterConnection\<close>: the wait for
  \<open>data-ready\<close> and the hand-over to the raw stream. The state is the connection, the promise and
  the effects on the transport and on the consumer above. The raw bytes the consumer gets are
  exactly those after the \<open>data-ready\<close> frame, however the transport cut the stream and whenever
  the consumer registers.
\<close>

datatype await_error = CellClosed relay_close_code "string option" | Unexpected | BadFrame

datatype await_result = Ready | Rejected await_error

datatype data_event = SendBytes bytes | CloseDuplex | ToConsumer bytes

record data_conn =
  dc_outer :: "unit outer"
  dc_settled :: bool
  dc_result :: "await_result option"
  dc_out :: "data_event list"

definition dc_emit :: "data_event \<Rightarrow> data_conn \<Rightarrow> data_conn" where
  "dc_emit e d = d\<lparr>dc_out := dc_out d @ [e]\<rparr>"

definition dc_close :: "data_conn \<Rightarrow> data_conn" where
  "dc_close d =
     (if oc_closed (dc_outer d) then d
      else dc_emit CloseDuplex (d\<lparr>dc_outer := (dc_outer d)\<lparr>oc_closed := True\<rparr>\<rparr>))"

definition dc_fail :: "await_error \<Rightarrow> data_conn \<Rightarrow> data_conn" where
  "dc_fail e d =
     (if dc_settled d then d
      else (dc_close (d\<lparr>dc_settled := True\<rparr>))\<lparr>dc_result := Some (Rejected e)\<rparr>)"

text \<open>The owner's answer to the raw effects: bytes go to the consumer; an overflow is reported to
  the error handler, then the connection closes.\<close>

fun dc_effects :: "unit raw_effect list \<Rightarrow> data_conn \<Rightarrow> data_conn" where
  "dc_effects [] d = d"
| "dc_effects (DeliverRaw h bs # es) d = dc_effects es (dc_emit (ToConsumer bs) d)"
| "dc_effects (RawOverflow # es) d = dc_effects es (dc_close (dc_fail BadFrame d))"

definition dc_raw :: "(unit outer \<Rightarrow> unit outer \<times> unit raw_effect list) \<Rightarrow> data_conn \<Rightarrow> data_conn" where
  "dc_raw op d = (let (c, es) = op (dc_outer d) in dc_effects es (d\<lparr>dc_outer := c\<rparr>))"

text \<open>\<open>awaitDataReady\<close>: its message handler, and its call, which sends the \<open>data-auth\<close>.\<close>

definition dc_message :: "outer_message \<Rightarrow> data_conn \<Rightarrow> data_conn" where
  "dc_message m d =
     (if dc_settled d then d
      else case m of
        DataReady \<Rightarrow> (dc_raw toRaw (d\<lparr>dc_settled := True\<rparr>))\<lparr>dc_result := Some Ready\<rparr>
      | CloseMsg code reason \<Rightarrow> dc_fail (CellClosed code reason) d
      | _ \<Rightarrow> dc_fail Unexpected d)"

definition awaitDataReady :: "codec \<Rightarrow> outer_message \<Rightarrow> data_conn option" where
  "awaitDataReady J auth =
     (case encodeOuterMessage J auth of
        None \<Rightarrow> None
      | Some bs \<Rightarrow> Some \<lparr>dc_outer = new_outer, dc_settled = False, dc_result = None, dc_out = [SendBytes bs]\<rparr>)"

text \<open>The loop of \<open>OuterConnection.#receive\<close>; a throw inside it goes to the error handler.\<close>

fun dc_loop :: "codec \<Rightarrow> nat \<Rightarrow> data_conn \<Rightarrow> data_conn option" where
  "dc_loop J 0 d = None"
| "dc_loop J (Suc fuel) d =
     (if oc_raw (dc_outer d) then Some d
      else case rd_next (oc_reader (dc_outer d)) of
        NeedMore \<Rightarrow> Some d
      | TooLong n \<Rightarrow> Some (dc_fail BadFrame d)
      | Frame payload rd \<Rightarrow>
          (let d' = d\<lparr>dc_outer := (dc_outer d)\<lparr>oc_reader := rd\<rparr>\<rparr>
           in case json_decode J payload of
             None \<Rightarrow> Some (dc_fail BadFrame d')
           | Some m \<Rightarrow> dc_loop J fuel (dc_message m d')))"

definition dc_receive :: "codec \<Rightarrow> bytes \<Rightarrow> data_conn \<Rightarrow> data_conn option" where
  "dc_receive J bs d =
     (if oc_closed (dc_outer d) then Some d
      else if oc_raw (dc_outer d) then Some (dc_raw (deliverRaw bs) d)
      else
        let rd = rd_push bs (oc_reader (dc_outer d))
        in dc_loop J (Suc (rd_length rd)) (d\<lparr>dc_outer := (dc_outer d)\<lparr>oc_reader := rd\<rparr>\<rparr>))"

text \<open>\<open>rawDuplexOf\<close>: the consumer registers, sends and closes.\<close>

definition dc_register :: "data_conn \<Rightarrow> data_conn" where
  "dc_register d = dc_raw (onRaw ()) d"

definition dc_sendRaw :: "bytes \<Rightarrow> data_conn \<Rightarrow> data_conn" where
  "dc_sendRaw bs d = (if oc_closed (dc_outer d) then d else dc_emit (SendBytes bs) d)"

datatype dc_step = Arrive bytes | Register

fun dc_run :: "codec \<Rightarrow> dc_step list \<Rightarrow> data_conn \<Rightarrow> data_conn option" where
  "dc_run J [] d = Some d"
| "dc_run J (Arrive bs # ss) d = (case dc_receive J bs d of None \<Rightarrow> None | Some d' \<Rightarrow> dc_run J ss d')"
| "dc_run J (Register # ss) d = dc_run J ss (dc_register d)"

fun arrived :: "dc_step list \<Rightarrow> bytes" where
  "arrived [] = []"
| "arrived (Arrive bs # ss) = bs @ arrived ss"
| "arrived (Register # ss) = arrived ss"

fun consumed_of :: "data_event list \<Rightarrow> bytes" where
  "consumed_of [] = []"
| "consumed_of (ToConsumer bs # es) = bs @ consumed_of es"
| "consumed_of (_ # es) = consumed_of es"

lemma consumed_of_append [simp]: "consumed_of (xs @ ys) = consumed_of xs @ consumed_of ys"
  by (induction xs rule: consumed_of.induct) auto

declare dc_loop.simps [simp del]

subsection \<open>The hand-over\<close>

text \<open>Where the connection stands after the prefix \<open>bs\<close> of the stream, \<open>F\<close> being the
  \<open>data-ready\<close> frame.\<close>

definition tracks :: "bytes \<Rightarrow> bytes \<Rightarrow> data_conn \<Rightarrow> bool" where
  "tracks F bs d \<longleftrightarrow>
     buffer_ok (dc_outer d) \<and> \<not> oc_closed (dc_outer d) \<and>
     (oc_handler (dc_outer d) = None \<longrightarrow> consumed_of (dc_out d) = []) \<and>
     (if length bs < length F
      then \<not> oc_raw (dc_outer d) \<and> \<not> dc_settled d \<and> dc_result d = None \<and>
        rd_content (oc_reader (dc_outer d)) = bs \<and> oc_buffer (dc_outer d) = [] \<and>
        consumed_of (dc_out d) = []
      else oc_raw (dc_outer d) \<and> dc_settled d \<and> dc_result d = Some Ready \<and>
        consumed_of (dc_out d) @ concat (oc_buffer (dc_outer d)) = drop (length F) bs)"

text \<open>A proper prefix of a frame is not one yet.\<close>

lemma split_frame_short:
  assumes body: "length body < 2 ^ 32" "length body \<le> cap"
    and pre: "frame_bytes body @ rest = bs @ sfx" and short: "length bs < length (frame_bytes body)"
  shows "split_frame cap bs = NeedMore"
proof (cases "length bs < 4")
  case True
  then show ?thesis by (simp add: split_frame_def)
next
  case False
  have "take 4 bs = take 4 (bs @ sfx)" using False by simp
  also have "\<dots> = be_bytes 4 (length body)" unfolding pre [symmetric] by (simp add: frame_bytes_def)
  finally have "be_nat (take 4 bs) = length body" using body(1) by (simp add: be_nat_be_bytes)
  then show ?thesis using short body(2) by (simp add: split_frame_def frame_bytes_def)
qed

lemma dc_effects_deliver:
  "dc_effects (map (DeliverRaw h) bss) d = d\<lparr>dc_out := dc_out d @ map ToConsumer bss\<rparr>"
  by (induction bss arbitrary: d) (simp_all add: dc_emit_def)

lemma consumed_map [simp]: "consumed_of (map ToConsumer bss) = concat bss"
  by (induction bss) auto

lemma tracks_register:
  assumes "tracks F bs d"
  shows "tracks F bs (dc_register d)"
  using assms buffer_ok_onRaw [of "dc_outer d" "()"]
  by (auto simp: dc_register_def dc_raw_def onRaw_def tracks_def dc_effects_deliver split: if_splits)

text \<open>Raw bytes for a connection that is already raw.\<close>

lemma tracks_deliver:
  assumes t: "tracks F bs d" and raw: "length F \<le> length bs"
    and cap: "oc_handler (dc_outer d) = None \<Longrightarrow> length (bs @ c) - length F \<le> MAX_PREHANDLER_RAW_BYTES"
  shows "tracks F (bs @ c) (dc_raw (deliverRaw c) d)"
proof (cases "oc_handler (dc_outer d)")
  case None
  have b: "oc_buffered (dc_outer d) = length (concat (oc_buffer (dc_outer d)))"
    and k: "concat (oc_buffer (dc_outer d)) = drop (length F) bs" "consumed_of (dc_out d) = []"
    using t raw None by (auto simp: tracks_def buffer_ok_def)
  have "oc_buffered (dc_outer d) + length c \<le> MAX_PREHANDLER_RAW_BYTES"
    using b k cap [OF None] raw by simp
  then show ?thesis
    using t raw None k b by (simp add: dc_raw_def deliverRaw_def tracks_def buffer_ok_def)
next
  case (Some h)
  then have "oc_buffer (dc_outer d) = []" using t by (simp add: tracks_def buffer_ok_def)
  then show ?thesis
    using t raw Some by (simp add: dc_raw_def deliverRaw_def tracks_def buffer_ok_def dc_emit_def)
qed

text \<open>The chunk that completes the \<open>data-ready\<close> frame: what follows the frame in it is the start
  of the raw stream.\<close>

lemma tracks_switch:
  assumes t: "buffer_ok (dc_outer d)" "\<not> oc_closed (dc_outer d)" "\<not> oc_raw (dc_outer d)"
    "\<not> dc_settled d" "oc_buffer (dc_outer d) = []" "consumed_of (dc_out d) = []"
    and content: "rd_content (oc_reader (dc_outer d)) = raw"
    and cap: "oc_handler (dc_outer d) = None \<Longrightarrow> length raw \<le> MAX_PREHANDLER_RAW_BYTES"
  shows "tracks F (F @ raw) (dc_message DataReady d)"
proof -
  have inv: "rd_inv (oc_reader (dc_outer d))" and zero: "oc_buffered (dc_outer d) = 0"
    using t by (simp_all add: buffer_ok_def)
  define d1 where "d1 = d\<lparr>dc_settled := True, dc_result := Some Ready, dc_outer := (dc_outer d)
      \<lparr>oc_raw := True, oc_reader := snd (drainRemaining (oc_reader (dc_outer d)))\<rparr>\<rparr>"
  have d1: "tracks F F d1"
    using t drain_all [OF inv] by (simp add: d1_def tracks_def buffer_ok_def)
  show ?thesis
  proof (cases "raw = []")
    case True
    then have "dc_message DataReady d = d1"
      using t drain_all [OF inv] content
      by (simp add: dc_message_def dc_raw_def toRaw_def case_prod_beta Let_def d1_def)
    then show ?thesis using d1 True by simp
  next
    case False
    have "tracks F (F @ raw) (dc_raw (deliverRaw raw) d1)"
      by (rule tracks_deliver [OF d1]) (use cap in \<open>simp_all add: d1_def\<close>)
    moreover have "dc_message DataReady d = dc_raw (deliverRaw raw) d1"
    proof (cases "oc_handler (dc_outer d)")
      case None
      then show ?thesis using t drain_all [OF inv] content False cap zero
        by (simp add: dc_message_def dc_raw_def toRaw_def case_prod_beta Let_def d1_def deliverRaw_def)
    next
      case (Some h)
      then show ?thesis using t drain_all [OF inv] content False
        by (simp add: dc_message_def dc_raw_def toRaw_def case_prod_beta Let_def d1_def deliverRaw_def
            dc_emit_def)
    qed
    ultimately show ?thesis by simp
  qed
qed

lemma prefix_split:
  assumes "F @ raw = xs @ sfx" and "length F \<le> length xs"
  shows "xs = F @ drop (length F) xs"
proof -
  have "F = take (length F) (xs @ sfx)" unfolding assms(1) [symmetric] by simp
  also have "\<dots> = take (length F) xs" using assms(2) by simp
  finally show ?thesis by (metis append_take_drop_id)
qed

lemma tracks_receive:
  assumes J: "json_decode J (json_encode J DataReady) = Some DataReady"
      "length (json_encode J DataReady) \<le> MAX_OUTER_MESSAGE_BYTES"
    and F: "F = frame_bytes (json_encode J DataReady)"
    and t: "tracks F bs d" and pre: "F @ raw = (bs @ c) @ sfx"
    and cap: "oc_handler (dc_outer d) = None \<Longrightarrow> length (bs @ c) - length F \<le> MAX_PREHANDLER_RAW_BYTES"
  shows "\<exists>d'. dc_receive J c d = Some d' \<and> tracks F (bs @ c) d' \<and>
    oc_handler (dc_outer d') = oc_handler (dc_outer d)"
proof (cases "length F \<le> length bs")
  case True
  have "oc_handler (dc_outer (dc_raw (deliverRaw c) d)) = oc_handler (dc_outer d)"
    using tracks_deliver [OF t True cap] t
    by (auto simp: dc_raw_def deliverRaw_def dc_emit_def tracks_def dc_fail_def dc_close_def split: option.splits)
  then show ?thesis
    using t True tracks_deliver [OF t True cap] by (auto simp: dc_receive_def tracks_def)
next
  case False
  let ?rd = "rd_push c (oc_reader (dc_outer d))"
  define d1 where "d1 = d\<lparr>dc_outer := (dc_outer d)\<lparr>oc_reader := ?rd\<rparr>\<rparr>"
  have s: "buffer_ok (dc_outer d)" "\<not> oc_closed (dc_outer d)" "\<not> oc_raw (dc_outer d)" "\<not> dc_settled d"
    "dc_result d = None" "rd_content (oc_reader (dc_outer d)) = bs" "oc_buffer (dc_outer d) = []"
    "consumed_of (dc_out d) = []"
    using t False by (simp_all add: tracks_def)
  have rd: "rd_inv ?rd" "rd_content ?rd = bs @ c"
    using s by (simp_all add: buffer_ok_def rd.inv_push rd.content_push)
  have rx: "dc_receive J c d = dc_loop J (Suc (rd_length ?rd)) d1"
    using s by (simp add: dc_receive_def Let_def d1_def)
  have small: "length (json_encode J DataReady) < 2 ^ 32"
    using J(2) by (simp add: MAX_OUTER_MESSAGE_BYTES_def)
  show ?thesis
  proof (cases "length (bs @ c) < length F")
    case True
    have "split_frame MAX_OUTER_MESSAGE_BYTES (bs @ c) = NeedMore"
      using split_frame_short [OF small J(2), of raw "bs @ c" sfx] pre True by (simp add: F)
    then have "rd_next ?rd = NeedMore"
      using rd.read_frame_NeedMore [OF rd(1)] rd(2) by (simp add: rd_next_def)
    then have "dc_receive J c d = Some d1"
      using s by (simp add: rx dc_loop.simps d1_def)
    moreover have "tracks F (bs @ c) d1"
      using s True rd by (simp add: tracks_def d1_def buffer_ok_def)
    ultimately show ?thesis by (simp add: d1_def)
  next
    case enough: False
    define rest where "rest = drop (length F) (bs @ c)"
    have bc: "bs @ c = F @ rest"
      unfolding rest_def by (rule prefix_split [OF pre]) (use enough in simp)
    have sf: "split_frame MAX_OUTER_MESSAGE_BYTES (bs @ c) = Frame (json_encode J DataReady) rest"
      unfolding bc F by (rule split_frame_frame_bytes [OF J(2) small])
    obtain rd' where rd': "rd_next ?rd = Frame (json_encode J DataReady) rd'"
      "rd_content rd' = rest" "rd_inv rd'"
      using rd.read_frame_cases [OF rd(1), of MAX_OUTER_MESSAGE_BYTES] sf rd(2)
      unfolding rd_next_def by (metis frame_read.distinct(3,5) frame_read.inject(2))
    define d2 where "d2 = d\<lparr>dc_outer := (dc_outer d)\<lparr>oc_reader := rd'\<rparr>\<rparr>"
    have "length (bs @ c) - length F = length rest" using enough by (simp add: rest_def)
    then have cap2: "oc_handler (dc_outer d2) = None \<Longrightarrow> length rest \<le> MAX_PREHANDLER_RAW_BYTES"
      using cap by (simp add: d2_def)
    have sw: "tracks F (F @ rest) (dc_message DataReady d2)"
      by (rule tracks_switch) (use s rd' cap2 in \<open>simp_all add: d2_def buffer_ok_def\<close>)
    have h: "oc_handler (dc_outer (dc_message DataReady d2)) = oc_handler (dc_outer d)"
      using sw s
      by (auto simp: dc_message_def dc_raw_def toRaw_def deliverRaw_def case_prod_beta Let_def d2_def
          dc_emit_def tracks_def dc_fail_def dc_close_def split: option.splits if_splits)
    have raw: "oc_raw (dc_outer (dc_message DataReady d2))"
      using sw by (simp add: tracks_def)
    obtain n where n: "rd_length ?rd = Suc n"
      using enough rd F by (cases "rd_length ?rd") (auto simp: rd_inv_def frame_bytes_def)
    have "dc_receive J c d = Some (dc_message DataReady d2)"
      using s rd'(1) J(1) raw
      by (simp add: rx n dc_loop.simps(2) d1_def d2_def Let_def)
    then show ?thesis using sw h bc by simp
  qed
qed

text \<open>Any schedule of arrivals and registrations in which the consumer registers before the
  pre-handler buffer is full.\<close>

definition in_time :: "nat \<Rightarrow> dc_step list \<Rightarrow> bool" where
  "in_time n ss \<longleftrightarrow>
     (\<forall>xs ys. ss = xs @ ys \<longrightarrow> Register \<notin> set xs \<longrightarrow> length (arrived xs) \<le> n)"

lemma in_time_Arrive:
  assumes "in_time n (Arrive c # ss)"
  shows "length c \<le> n" and "in_time (n - length c) ss"
proof -
  have h: "length (arrived (Arrive c # xs)) \<le> n" if "ss = xs @ ys" "Register \<notin> set xs" for xs ys
    using assms that unfolding in_time_def by (metis append_Cons dc_step.distinct(1) set_ConsD)
  show "length c \<le> n" using h [of "[]" ss] by simp
  show "in_time (n - length c) ss"
    unfolding in_time_def using h by fastforce
qed

lemma arrived_append [simp]: "arrived (xs @ ys) = arrived xs @ arrived ys"
  by (induction xs rule: arrived.induct) auto

lemma in_time_short: "length (arrived ss) \<le> n \<Longrightarrow> in_time n ss"
  by (auto simp: in_time_def)

lemma tracks_run:
  assumes J: "json_decode J (json_encode J DataReady) = Some DataReady"
      "length (json_encode J DataReady) \<le> MAX_OUTER_MESSAGE_BYTES"
    and F: "F = frame_bytes (json_encode J DataReady)"
  shows "tracks F bs d \<Longrightarrow> bs @ arrived ss = F @ raw \<Longrightarrow>
    (oc_handler (dc_outer d) = None \<Longrightarrow> in_time (length F + MAX_PREHANDLER_RAW_BYTES - length bs) ss) \<Longrightarrow>
    (oc_handler (dc_outer d) = None \<Longrightarrow> length bs \<le> length F + MAX_PREHANDLER_RAW_BYTES) \<Longrightarrow>
    \<exists>d'. dc_run J ss d = Some d' \<and> tracks F (F @ raw) d' \<and>
      (Register \<in> set ss \<or> oc_handler (dc_outer d) \<noteq> None \<longrightarrow> oc_handler (dc_outer d') \<noteq> None)"
proof (induction ss arbitrary: bs d)
  case Nil
  then show ?case by simp
next
  case (Cons x ss)
  show ?case
  proof (cases x)
    case (Arrive c)
    note prems = Cons.prems [unfolded Arrive]
    have pre: "F @ raw = (bs @ c) @ arrived ss" using prems(2) by simp
    have cap: "length (bs @ c) - length F \<le> MAX_PREHANDLER_RAW_BYTES"
      if "oc_handler (dc_outer d) = None"
      using in_time_Arrive(1) [OF prems(3) [OF that]] prems(4) [OF that] by simp
    obtain d1 where d1: "dc_receive J c d = Some d1" "tracks F (bs @ c) d1"
      "oc_handler (dc_outer d1) = oc_handler (dc_outer d)"
      using tracks_receive [OF J F prems(1) pre cap] by blast
    have "\<exists>d'. dc_run J ss d1 = Some d' \<and> tracks F (F @ raw) d' \<and>
      (Register \<in> set ss \<or> oc_handler (dc_outer d1) \<noteq> None \<longrightarrow> oc_handler (dc_outer d') \<noteq> None)"
    proof (rule Cons.IH [OF d1(2)])
      show "(bs @ c) @ arrived ss = F @ raw" using pre by simp
      assume "oc_handler (dc_outer d1) = None"
      then have n: "oc_handler (dc_outer d) = None" using d1(3) by simp
      show "in_time (length F + MAX_PREHANDLER_RAW_BYTES - length (bs @ c)) ss"
        using in_time_Arrive(2) [OF prems(3) [OF n]] by (simp add: diff_diff_eq)
      show "length (bs @ c) \<le> length F + MAX_PREHANDLER_RAW_BYTES"
        using in_time_Arrive(1) [OF prems(3) [OF n]] prems(4) [OF n] by simp
    qed
    then show ?thesis using d1 Arrive by simp
  next
    case Register
    have h: "oc_handler (dc_outer (dc_register d)) \<noteq> None"
      by (simp add: dc_register_def dc_raw_def onRaw_def dc_effects_deliver)
    have "\<exists>d'. dc_run J ss (dc_register d) = Some d' \<and> tracks F (F @ raw) d' \<and>
      (Register \<in> set ss \<or> oc_handler (dc_outer (dc_register d)) \<noteq> None \<longrightarrow>
        oc_handler (dc_outer d') \<noteq> None)"
      by (rule Cons.IH [OF tracks_register [OF Cons.prems(1)]]) (use Cons.prems(2) Register h in simp_all)
    then show ?thesis using Register h by auto
  qed
qed

text \<open>A connection that fails is closed, for good, and its promise is rejected.\<close>

lemma dc_fail_closed:
  "\<not> dc_settled d \<Longrightarrow> dc_result (dc_fail e d) = Some (Rejected e) \<and> oc_closed (dc_outer (dc_fail e d))"
  by (simp add: dc_fail_def dc_close_def dc_emit_def)

end
