(* ===== verification/HostProof.thy ===== *)
theory HostProof
  imports Crypto
begin

text \<open>
  \<open>packages/relay-core/src/host-proof.ts\<close> and \<open>context.ts\<close>: the proof a host gives of its
  static key, the data-leg key both sides draw from the same Diffie-Hellman secret, the MAC on a
  data dial, and the context that binds a channel to its routing. The preimages hashed are
  separate definitions, so that what they bind can be stated: each determines its fields when
  the identifiers hold no zero byte, which is what the zero-byte separators need.
\<close>

definition RELAY_FIELD_BYTES :: nat where
  "RELAY_FIELD_BYTES = 32"

definition PROOF_INFO :: bytes where
  "PROOF_INFO = utf8 ''pherry/relay-core/v1/host-proof''"

definition TRANSCRIPT_LABEL :: bytes where
  "TRANSCRIPT_LABEL = utf8 ''pherry/relay-core/v1''"

definition DATA_AUTH_LABEL :: bytes where
  "DATA_AUTH_LABEL = utf8 ''pherry/relay-core/v1/host-data-auth''"

definition CONTEXT_LABEL :: bytes where
  "CONTEXT_LABEL = utf8 ''pherry/relay-core/v1/context''"

record challenge =
  hc_cellId :: string
  hc_nonce :: bytes
  hc_pub :: bytes

text \<open>\<open>HostChallengeSecret\<close>: the challenge with the cell's ephemeral secret.\<close>

record challenge_secret = challenge +
  hc_secret :: bytes

definition public_part :: "challenge_secret \<Rightarrow> challenge" where
  "public_part ch = \<lparr>hc_cellId = hc_cellId ch, hc_nonce = hc_nonce ch, hc_pub = hc_pub ch\<rparr>"

text \<open>\<open>makeChallenge\<close>, given the randomness it draws.\<close>

definition makeChallenge :: "crypto \<Rightarrow> string \<Rightarrow> bytes \<Rightarrow> bytes \<Rightarrow> challenge_secret" where
  "makeChallenge C cellId ephemeralSecret nonce =
     \<lparr>hc_cellId = cellId, hc_nonce = nonce, hc_pub = x_public C ephemeralSecret,
      hc_secret = ephemeralSecret\<rparr>"

definition wipeChallenge :: "challenge_secret \<Rightarrow> challenge_secret" where
  "wipeChallenge ch = ch\<lparr>hc_secret := replicate (length (hc_secret ch)) 0\<rparr>"

subsection \<open>The registration proof\<close>

definition transcript :: "string \<Rightarrow> 'a challenge_scheme \<Rightarrow> bytes" where
  "transcript hostId ch =
     TRANSCRIPT_LABEL @ utf8 hostId @ [0] @ utf8 (hc_cellId ch) @ [0] @ hc_nonce ch @ hc_pub ch"

definition computeMac :: "crypto \<Rightarrow> bytes \<Rightarrow> string \<Rightarrow> 'a challenge_scheme \<Rightarrow> bytes" where
  "computeMac C dh hostId ch =
     hmac_256 C (hkdf_256 C dh (hc_nonce ch) PROOF_INFO RELAY_FIELD_BYTES) (transcript hostId ch)"

text \<open>Host side; \<open>None\<close> is the throw on an unusable ephemeral key.\<close>

definition proveHost :: "crypto \<Rightarrow> challenge \<Rightarrow> string \<Rightarrow> bytes \<Rightarrow> bytes option" where
  "proveHost C ch hostId secretKey =
     (case x_shared C secretKey (hc_pub ch) of
        None \<Rightarrow> None
      | Some dh \<Rightarrow> Some (computeMac C dh hostId ch))"

definition verifyProof :: "crypto \<Rightarrow> challenge_secret \<Rightarrow> string \<Rightarrow> bytes \<Rightarrow> bytes \<Rightarrow> bool" where
  "verifyProof C ch hostId staticPub mac =
     (case x_shared C (hc_secret ch) staticPub of
        None \<Rightarrow> False
      | Some dh \<Rightarrow> constantTimeEqual (computeMac C dh hostId ch) mac)"

subsection \<open>The data-leg key and MAC\<close>

definition deriveDataAuthKey :: "crypto \<Rightarrow> bytes \<Rightarrow> bytes \<Rightarrow> bytes" where
  "deriveDataAuthKey C dh nonce = hkdf_256 C dh nonce DATA_AUTH_LABEL RELAY_FIELD_BYTES"

definition hostDataAuthKey :: "crypto \<Rightarrow> challenge \<Rightarrow> bytes \<Rightarrow> bytes option" where
  "hostDataAuthKey C ch secretKey =
     (case x_shared C secretKey (hc_pub ch) of
        None \<Rightarrow> None
      | Some dh \<Rightarrow> Some (deriveDataAuthKey C dh (hc_nonce ch)))"

definition cellDataAuthKey :: "crypto \<Rightarrow> challenge_secret \<Rightarrow> bytes \<Rightarrow> bytes option" where
  "cellDataAuthKey C ch staticPub =
     (case x_shared C (hc_secret ch) staticPub of
        None \<Rightarrow> None
      | Some dh \<Rightarrow> Some (deriveDataAuthKey C dh (hc_nonce ch)))"

definition data_preimage :: "string \<Rightarrow> string \<Rightarrow> bytes \<Rightarrow> bytes" where
  "data_preimage cellId ticket bridgeNonce =
     DATA_AUTH_LABEL @ utf8 cellId @ [0] @ utf8 ticket @ [0] @ bridgeNonce"

definition dataAuthMac :: "crypto \<Rightarrow> bytes \<Rightarrow> string \<Rightarrow> string \<Rightarrow> bytes \<Rightarrow> bytes" where
  "dataAuthMac C kData cellId ticket bridgeNonce =
     hmac_256 C kData (data_preimage cellId ticket bridgeNonce)"

definition verifyDataAuthMac :: "crypto \<Rightarrow> bytes \<Rightarrow> string \<Rightarrow> string \<Rightarrow> bytes \<Rightarrow> bytes \<Rightarrow> bool" where
  "verifyDataAuthMac C kData cellId ticket bridgeNonce mac =
     constantTimeEqual (dataAuthMac C kData cellId ticket bridgeNonce) mac"

lemma verifyDataAuthMac_iff:
  "verifyDataAuthMac C k cellId t n mac \<longleftrightarrow> mac = dataAuthMac C k cellId t n"
  by (auto simp: verifyDataAuthMac_def constantTimeEqual_iff)

subsection \<open>The channel context\<close>

definition context_preimage :: "string \<Rightarrow> string \<Rightarrow> bytes" where
  "context_preimage hostId ticket = CONTEXT_LABEL @ utf8 hostId @ [0] @ utf8 ticket"

definition relayChannelContext :: "crypto \<Rightarrow> string \<Rightarrow> string \<Rightarrow> bytes" where
  "relayChannelContext C hostId ticket = sha_256 C (context_preimage hostId ticket)"

subsection \<open>What the preimages bind\<close>

definition no_nul :: "string \<Rightarrow> bool" where
  "no_nul s \<longleftrightarrow> CHR 0x00 \<notin> set s"

lemma no_nul_utf8: "no_nul s \<longleftrightarrow> 0 \<notin> set (utf8 s)"
  by (simp add: no_nul_def zero_in_utf8)

text \<open>A ticket holds no zero byte, so a context determines the pair it was made from, whatever
  the host id is.\<close>

lemma context_preimage_inject:
  assumes "context_preimage h t = context_preimage h' t'" and "no_nul t" and "no_nul t'"
  shows "h = h' \<and> t = t'"
proof -
  have "utf8 h @ 0 # utf8 t = utf8 h' @ 0 # utf8 t'"
    using assms(1) by (simp add: context_preimage_def)
  then have "utf8 h = utf8 h' \<and> utf8 t = utf8 t'"
    using assms(2,3) by (intro append_sep_inject_right) (simp_all add: no_nul_utf8)
  then show ?thesis by simp
qed

lemma data_preimage_inject:
  assumes "data_preimage c t n = data_preimage c' t' n'" and "no_nul t" "no_nul t'"
    and "length n = length n'"
  shows "c = c' \<and> t = t' \<and> n = n'"
proof -
  have "(utf8 c @ 0 # utf8 t) @ 0 # n = (utf8 c' @ 0 # utf8 t') @ 0 # n'"
    using assms(1) by (simp add: data_preimage_def)
  moreover have "length (0 # n) = length (0 # n')" using assms(4) by simp
  ultimately have "utf8 c @ 0 # utf8 t = utf8 c' @ 0 # utf8 t' \<and> 0 # n = 0 # n'"
    by (meson append_eq_append_conv)
  then have "utf8 c @ 0 # utf8 t = utf8 c' @ 0 # utf8 t'" and n: "n = n'" by simp_all
  then have "utf8 c = utf8 c' \<and> utf8 t = utf8 t'"
    using assms(2,3) by (intro append_sep_inject_right) (simp_all add: no_nul_utf8)
  with n show ?thesis by simp
qed

lemma transcript_inject:
  fixes ch :: "'a challenge_scheme" and ch' :: "'b challenge_scheme"
  assumes "transcript h ch = transcript h' ch'" and "no_nul h" "no_nul h'"
    and "length (hc_nonce ch) = length (hc_nonce ch')" and "length (hc_pub ch) = length (hc_pub ch')"
  shows "h = h' \<and> hc_cellId ch = hc_cellId ch' \<and> hc_nonce ch = hc_nonce ch' \<and> hc_pub ch = hc_pub ch'"
proof -
  have "utf8 h @ 0 # (utf8 (hc_cellId ch) @ [0] @ hc_nonce ch @ hc_pub ch) =
      utf8 h' @ 0 # (utf8 (hc_cellId ch') @ [0] @ hc_nonce ch' @ hc_pub ch')"
    using assms(1) by (simp add: transcript_def)
  then have h: "utf8 h = utf8 h' \<and> utf8 (hc_cellId ch) @ [0] @ hc_nonce ch @ hc_pub ch =
      utf8 (hc_cellId ch') @ [0] @ hc_nonce ch' @ hc_pub ch'"
    using assms(2,3) by (intro append_sep_inject_left) (simp_all add: no_nul_utf8)
  then show ?thesis using assms(4,5) by (simp add: append_eq_append_conv)
qed

text \<open>The separators are not enough when a host id may hold a zero byte: then two different
  (host id, cell id) pairs share a transcript.\<close>

lemma transcript_collision:
  "transcript (''a'' @ [CHR 0x00] @ ''b'') \<lparr>hc_cellId = ''c'', hc_nonce = n, hc_pub = p\<rparr> =
   transcript ''a'' \<lparr>hc_cellId = ''b'' @ [CHR 0x00] @ ''c'', hc_nonce = n, hc_pub = p\<rparr>"
  by (simp add: transcript_def utf8_def)

subsection \<open>Both sides agree\<close>

lemma public_part_fields [simp]:
  "hc_cellId (public_part ch) = hc_cellId ch" "hc_nonce (public_part ch) = hc_nonce ch"
  "hc_pub (public_part ch) = hc_pub ch"
  by (simp_all add: public_part_def)

lemma proof_accepted:
  assumes C: "dh_commutes C" and p: "hc_pub ch = x_public C (hc_secret ch)"
    and mac: "proveHost C (public_part ch) hostId s = Some mac"
  shows "verifyProof C ch hostId (x_public C s) mac"
    and "hostDataAuthKey C (public_part ch) s = cellDataAuthKey C ch (x_public C s)"
    and "cellDataAuthKey C ch (x_public C s) \<noteq> None"
proof -
  have dh: "x_shared C (hc_secret ch) (x_public C s) = x_shared C s (hc_pub ch)"
    using C p by (simp add: dh_commutes_def)
  show "verifyProof C ch hostId (x_public C s) mac"
    using mac dh
    by (auto simp: proveHost_def verifyProof_def computeMac_def transcript_def
        constantTimeEqual_iff split: option.splits)
  show "hostDataAuthKey C (public_part ch) s = cellDataAuthKey C ch (x_public C s)"
    using dh by (simp add: hostDataAuthKey_def cellDataAuthKey_def split: option.splits)
  show "cellDataAuthKey C ch (x_public C s) \<noteq> None"
    using mac dh by (auto simp: proveHost_def cellDataAuthKey_def split: option.splits)
qed

end
