(* ===== verification/HostAdapter.thy ===== *)
theory HostAdapter
  imports OuterFrame HostProof
begin

text \<open>
  \<open>packages/relay-core/src/host-adapter.ts\<close>: \<open>registerHostWithCell\<close>. The state is the control
  connection's closed flag, the registration promise, the registration's own \<open>closed\<close> flag and the
  data dials; effects are logged. The handlers run per message of an inbound chunk; the code after
  \<open>await\<close>, which replaces them, is an event of its own, because it runs as a later microtask.
  A dial settles by events too: the caller's \<open>connect\<close> and \<open>awaitDataReady\<close>.
\<close>

datatype adapter_error = Refused relay_close_code "string option" | OutOfOrder | BadFraming

datatype dial_state = Connecting | Awaiting | HandedOver | Ended

record dial =
  di_ticket :: string
  di_nonce :: bytes
  di_state :: dial_state

datatype adapter_out =
    CtlSend outer_message
  | CtlClose
  | Connect nat                        \<comment> \<open>\<open>options.connect()\<close> for a data dial\<close>
  | DataSend nat outer_message
  | DataClose nat
  | OnConnection nat string
  | OnDrain
  | OnCloseCb "adapter_error option"

datatype registration = Registered bytes string | RegFailed adapter_error

record adapter =
  ha_hostId :: string
  ha_secret :: bytes
  ha_ctlClosed :: bool
  ha_settled :: bool
  ha_registered :: "(bytes \<times> string) option"
  ha_result :: "registration option"
  ha_serving :: bool
  ha_closed :: bool
  ha_dials :: "dial list"
  ha_out :: "adapter_out list"

definition ha_emit :: "adapter_out \<Rightarrow> adapter \<Rightarrow> adapter" where
  "ha_emit e a = a\<lparr>ha_out := ha_out a @ [e]\<rparr>"

definition ctl_send :: "outer_message \<Rightarrow> adapter \<Rightarrow> adapter" where
  "ctl_send m a = (if ha_ctlClosed a then a else ha_emit (CtlSend m) a)"

definition ctl_close :: "adapter \<Rightarrow> adapter" where
  "ctl_close a = (if ha_ctlClosed a then a else ha_emit CtlClose (a\<lparr>ha_ctlClosed := True\<rparr>))"

definition registerHostWithCell :: "string \<Rightarrow> bytes \<Rightarrow> adapter" where
  "registerHostWithCell hostId secret =
     ctl_send (HostHello hostId)
       \<lparr>ha_hostId = hostId, ha_secret = secret, ha_ctlClosed = False, ha_settled = False,
        ha_registered = None, ha_result = None, ha_serving = False, ha_closed = False,
        ha_dials = [], ha_out = []\<rparr>"

subsection \<open>Registration\<close>

definition reg_fail :: "adapter_error \<Rightarrow> adapter \<Rightarrow> adapter" where
  "reg_fail e a =
     (if ha_settled a then a
      else (ctl_close (a\<lparr>ha_settled := True\<rparr>))\<lparr>ha_result := Some (RegFailed e)\<rparr>)"

text \<open>The message handler while the promise is pending; \<open>None\<close> is a throw (an unusable ephemeral
  key of the cell).\<close>

definition reg_message :: "crypto \<Rightarrow> outer_message \<Rightarrow> adapter \<Rightarrow> adapter option" where
  "reg_message C m a =
     (if ha_settled a then Some a
      else case m of
        HostChallenge cellId nonce pub \<Rightarrow>
          (let ch = \<lparr>hc_cellId = cellId, hc_nonce = nonce, hc_pub = pub\<rparr>
           in case (proveHost C ch (ha_hostId a) (ha_secret a), hostDataAuthKey C ch (ha_secret a)) of
                (Some mac, Some key) \<Rightarrow>
                  Some (ctl_send (HostProofMsg mac) (a\<lparr>ha_registered := Some (key, cellId)\<rparr>))
              | _ \<Rightarrow> None)
      | HostRegistered h \<Rightarrow>
          (case ha_registered a of
             None \<Rightarrow> Some (reg_fail OutOfOrder a)
           | Some (key, cellId) \<Rightarrow>
               Some (a\<lparr>ha_settled := True, ha_result := Some (Registered key cellId)\<rparr>))
      | CloseMsg code reason \<Rightarrow> Some (reg_fail (Refused code reason) a)
      | _ \<Rightarrow> Some (reg_fail OutOfOrder a))"

subsection \<open>Serving\<close>

definition live_dial :: "dial \<Rightarrow> bool" where
  "live_dial d \<longleftrightarrow> di_state d = Awaiting \<or> di_state d = HandedOver"

text \<open>The data connections in \<open>dataConnections\<close>: once handed over, one stays until the teardown.\<close>

definition dataConnections :: "adapter \<Rightarrow> nat list" where
  "dataConnections a = filter (\<lambda>i. live_dial (ha_dials a ! i)) [0..<length (ha_dials a)]"

definition end_dial :: "dial \<Rightarrow> dial" where
  "end_dial d = (if live_dial d then d\<lparr>di_state := Ended\<rparr> else d)"

definition teardown_reg :: "adapter_error option \<Rightarrow> adapter \<Rightarrow> adapter" where
  "teardown_reg e a =
     (if ha_closed a then a
      else
        let a = a\<lparr>ha_closed := True, ha_out := ha_out a @ map DataClose (dataConnections a),
                  ha_dials := map end_dial (ha_dials a)\<rparr>
        in ha_emit (OnCloseCb e) (ctl_close a))"

definition serve_message :: "outer_message \<Rightarrow> adapter \<Rightarrow> adapter" where
  "serve_message m a =
     (case m of
        ConnOpen t nonce \<Rightarrow>
          ha_emit (Connect (length (ha_dials a)))
            (a\<lparr>ha_dials := ha_dials a @ [\<lparr>di_ticket = t, di_nonce = nonce, di_state = Connecting\<rparr>]\<rparr>)
      | DrainMsg \<Rightarrow> ha_emit OnDrain a
      | CloseMsg code reason \<Rightarrow> teardown_reg (Some (Refused code reason)) a
      | _ \<Rightarrow> a)"

definition set_dial :: "nat \<Rightarrow> dial_state \<Rightarrow> adapter \<Rightarrow> adapter" where
  "set_dial i s a = a\<lparr>ha_dials := (ha_dials a)[i := (ha_dials a ! i)\<lparr>di_state := s\<rparr>]\<rparr>"

text \<open>The steps of \<open>openData\<close>.\<close>

definition dial_connected :: "crypto \<Rightarrow> nat \<Rightarrow> bool \<Rightarrow> adapter \<Rightarrow> adapter" where
  "dial_connected C i ok a =
     (if \<not> ok then set_dial i Ended a
      else if ha_closed a then ha_emit (DataClose i) (set_dial i Ended a)
      else case ha_result a of
        Some (Registered key cellId) \<Rightarrow>
          (let d = ha_dials a ! i;
               mac = dataAuthMac C key cellId (di_ticket d) (di_nonce d)
           in ha_emit (DataSend i (DataAuth HostRole (di_ticket d) (Some mac))) (set_dial i Awaiting a))
      | _ \<Rightarrow> a)"

definition dial_awaited :: "nat \<Rightarrow> bool \<Rightarrow> adapter \<Rightarrow> adapter" where
  "dial_awaited i ready a =
     (if ready then
        if ha_closed a then a
        else ha_emit (OnConnection i (di_ticket (ha_dials a ! i))) (set_dial i HandedOver a)
      else ha_emit (DataClose i) (set_dial i Ended a))"

subsection \<open>Events\<close>

text \<open>A chunk on the control connection is the messages it completes, ending early if a frame is
  bad. The handler in force is the one registered when the message is dispatched.\<close>

datatype frame_in = Msg outer_message | Bad

definition ctl_error :: "adapter \<Rightarrow> adapter" where
  "ctl_error a = (if ha_serving a then teardown_reg (Some BadFraming) a else reg_fail BadFraming a)"

fun ctl_frames :: "crypto \<Rightarrow> frame_in list \<Rightarrow> adapter \<Rightarrow> adapter" where
  "ctl_frames C [] a = a"
| "ctl_frames C (Bad # fs) a = ctl_error a"
| "ctl_frames C (Msg m # fs) a =
     (if ha_serving a then ctl_frames C fs (serve_message m a)
      else case reg_message C m a of
        None \<Rightarrow> ctl_error a
      | Some a' \<Rightarrow> ctl_frames C fs a')"

definition ctl_chunk :: "crypto \<Rightarrow> frame_in list \<Rightarrow> adapter \<Rightarrow> adapter" where
  "ctl_chunk C fs a = (if ha_ctlClosed a then a else ctl_frames C fs a)"

datatype adapter_event =
    Chunk "frame_in list"
  | Continue                            \<comment> \<open>the code after the awaited registration\<close>
  | Connected nat bool
  | Awaited nat bool
  | CloseRegistration

fun adapter_step :: "crypto \<Rightarrow> adapter_event \<Rightarrow> adapter \<Rightarrow> adapter option" where
  "adapter_step C (Chunk fs) a = Some (ctl_chunk C fs a)"
| "adapter_step C Continue a =
     (case ha_result a of
        Some (Registered key cellId) \<Rightarrow> if ha_serving a then None else Some (a\<lparr>ha_serving := True\<rparr>)
      | _ \<Rightarrow> None)"
| "adapter_step C (Connected i ok) a =
     (if i < length (ha_dials a) \<and> di_state (ha_dials a ! i) = Connecting
      then Some (dial_connected C i ok a) else None)"
| "adapter_step C (Awaited i ready) a =
     (if i < length (ha_dials a) \<and> di_state (ha_dials a ! i) = Awaiting
      then Some (dial_awaited i ready a) else None)"
| "adapter_step C CloseRegistration a =
     (if ha_serving a then Some (teardown_reg None a) else None)"

fun adapter_run :: "crypto \<Rightarrow> adapter_event list \<Rightarrow> adapter \<Rightarrow> adapter option" where
  "adapter_run C [] a = Some a"
| "adapter_run C (e # es) a = (case adapter_step C e a of None \<Rightarrow> None | Some a' \<Rightarrow> adapter_run C es a')"

inductive adapter_reach :: "crypto \<Rightarrow> string \<Rightarrow> bytes \<Rightarrow> adapter \<Rightarrow> bool"
  for C :: crypto and hostId :: string and secret :: bytes where
  init: "adapter_reach C hostId secret (registerHostWithCell hostId secret)"
| step: "adapter_reach C hostId secret a \<Longrightarrow> adapter_step C e a = Some a' \<Longrightarrow>
    adapter_reach C hostId secret a'"

end
