(* ===== verification/DemoCodec.thy ===== *)
theory DemoCodec
  imports OuterFrame
begin

text \<open>
  An instance of the codec parameter of \<open>OuterFrame\<close>, on which closed examples evaluate. It is not
  JSON: a tag byte, then the fields, variable-length ones escaped and terminated. It satisfies
  \<open>codec_ok\<close>, the only hypothesis made of the parameter.
\<close>

definition esc :: "bytes \<Rightarrow> bytes" where
  "esc bs = concat (map (\<lambda>b. [1, b]) bs) @ [0]"

fun unesc :: "bytes \<Rightarrow> (bytes \<times> bytes) option" where
  "unesc [] = None"
| "unesc (b # r) =
     (if b = 0 then Some ([], r)
      else case r of [] \<Rightarrow> None
        | c # r' \<Rightarrow> (case unesc r' of None \<Rightarrow> None | Some (xs, r'') \<Rightarrow> Some (c # xs, r'')))"

lemma unesc_esc [simp]: "unesc (esc bs @ r) = Some (bs, r)"
  by (induction bs) (simp_all add: esc_def)

definition of_utf8 :: "bytes \<Rightarrow> string" where
  "of_utf8 bs = map (\<lambda>b. char_of (unat b)) bs"

lemma of_utf8_utf8 [simp]: "of_utf8 (utf8 s) = s"
proof -
  have "char_of (unat (of_nat (of_char c) :: byte)) = c" for c :: char
  proof -
    have "(of_char c :: nat) < 256" using nat_of_char_less_256 by auto
    then show ?thesis by (simp add: unat_of_nat_byte)
  qed
  then show ?thesis by (simp add: of_utf8_def utf8_def o_def)
qed

fun code_byte :: "relay_close_code \<Rightarrow> byte" where
  "code_byte UnknownHost = 0"
| "code_byte ProofFailed = 1"
| "code_byte BadTicket = 2"
| "code_byte TicketExpired = 3"
| "code_byte TicketReused = 4"
| "code_byte BridgeTimeout = 5"
| "code_byte DataAuthFailed = 6"
| "code_byte Drained = 7"
| "code_byte ProtocolError = 8"

definition byte_code :: "byte \<Rightarrow> relay_close_code" where
  "byte_code b =
     (if b = 0 then UnknownHost else if b = 1 then ProofFailed else if b = 2 then BadTicket
      else if b = 3 then TicketExpired else if b = 4 then TicketReused else if b = 5 then BridgeTimeout
      else if b = 6 then DataAuthFailed else if b = 7 then Drained else ProtocolError)"

lemma byte_code_code_byte [simp]: "byte_code (code_byte c) = c"
  by (cases c) (simp_all add: byte_code_def)

fun demo_encode :: "outer_message \<Rightarrow> bytes" where
  "demo_encode (HostHello h) = 0 # esc (utf8 h)"
| "demo_encode (HostChallenge c n p) = 1 # esc (utf8 c) @ esc n @ esc p"
| "demo_encode (HostProofMsg mac) = 2 # esc mac"
| "demo_encode (HostRegistered h) = 3 # esc (utf8 h)"
| "demo_encode (ConnOpen t n) = 4 # esc (utf8 t) @ esc n"
| "demo_encode (DataAuth r t mac) =
     (if r = HostRole then 5 else 6) # esc (utf8 t) @ (case mac of None \<Rightarrow> [0] | Some m \<Rightarrow> 1 # esc m)"
| "demo_encode DataReady = [7]"
| "demo_encode DrainMsg = [8]"
| "demo_encode (CloseMsg c r) = 9 # code_byte c # (case r of None \<Rightarrow> [0] | Some s \<Rightarrow> 1 # esc (utf8 s))"

definition field_opt :: "bytes \<Rightarrow> bytes option option" where
  "field_opt bs =
     (case bs of [] \<Rightarrow> None
      | b # r \<Rightarrow> if b = 0 then Some None else (case unesc r of None \<Rightarrow> None | Some (m, _) \<Rightarrow> Some (Some m)))"

definition demo_parse :: "bytes \<Rightarrow> outer_message option" where
  "demo_parse bs =
     (case bs of [] \<Rightarrow> None
      | b # r \<Rightarrow>
          if b = 7 then Some DataReady
          else if b = 8 then Some DrainMsg
          else if b = 9 then (case r of [] \<Rightarrow> None | c # r' \<Rightarrow>
            map_option (\<lambda>m. CloseMsg (byte_code c) (map_option of_utf8 m)) (field_opt r'))
          else case unesc r of None \<Rightarrow> None
            | Some (x, r1) \<Rightarrow>
                if b = 0 then Some (HostHello (of_utf8 x))
                else if b = 2 then Some (HostProofMsg x)
                else if b = 3 then Some (HostRegistered (of_utf8 x))
                else if b = 5 then map_option (DataAuth HostRole (of_utf8 x)) (field_opt r1)
                else if b = 6 then map_option (DataAuth ControllerRole (of_utf8 x)) (field_opt r1)
                else case unesc r1 of None \<Rightarrow> None
                  | Some (y, r2) \<Rightarrow>
                      if b = 4 then Some (ConnOpen (of_utf8 x) y)
                      else case unesc r2 of None \<Rightarrow> None
                        | Some (z, r3) \<Rightarrow> if b = 1 then Some (HostChallenge (of_utf8 x) y z) else None)"

definition demo_codec :: codec where
  "demo_codec = \<lparr>json_encode = demo_encode,
     json_decode = (\<lambda>bs. case demo_parse bs of None \<Rightarrow> None | Some m \<Rightarrow> if outer_ok m then Some m else None)\<rparr>"

lemma unesc_esc_all [simp]: "unesc (esc bs) = Some (bs, [])"
  using unesc_esc [of bs "[]"] by simp

lemma demo_parse_encode [simp]: "demo_parse (demo_encode m) = Some m"
proof (cases m)
  case (DataAuth r t mac)
  then show ?thesis by (cases r; cases mac) (simp_all add: demo_parse_def field_opt_def)
next
  case (CloseMsg c r)
  then show ?thesis by (cases r) (simp_all add: demo_parse_def field_opt_def)
qed (simp_all add: demo_parse_def)

lemma demo_codec_ok: "codec_ok demo_codec"
  by (simp add: codec_ok_def demo_codec_def)

lemma demo_codec_encode [simp]: "json_encode demo_codec = demo_encode"
  by (simp add: demo_codec_def)

lemma demo_codec_decode [simp]: "outer_ok m \<Longrightarrow> json_decode demo_codec (demo_encode m) = Some m"
  by (simp add: demo_codec_def)

lemma length_esc [simp]: "length (esc bs) = 2 * length bs + 1"
  by (induction bs) (simp_all add: esc_def)

text \<open>A ticket, and the \<open>data-ready\<close> frame.\<close>

definition demo_ticket :: string where
  "demo_ticket = ''tkt_'' @ replicate 32 (CHR ''0'')"

lemma demo_ticket_valid [simp]: "valid_ticket demo_ticket"
proof -
  have "list_all is_hex (replicate 32 (CHR ''0''))" by (simp add: list_all_iff is_hex_def)
  moreover have "length demo_ticket = 36" by (simp add: demo_ticket_def)
  moreover have "drop 4 demo_ticket = replicate 32 (CHR ''0'')" by (simp add: demo_ticket_def)
  ultimately show ?thesis by (simp add: valid_ticket_def valid_id_def Let_def demo_ticket_def)
qed

lemma length_demo_ticket [simp]: "length demo_ticket = 36"
  by (simp add: demo_ticket_def)

lemma demo_ready_frame: "encodeOuterMessage demo_codec DataReady = Some [0, 0, 0, 1, 7]"
proof -
  have four: "(4 :: nat) = Suc (Suc (Suc (Suc 0)))" by simp
  have "be_bytes 4 1 = [0, 0, 0, 1]" unfolding four be_bytes.simps by simp
  then show ?thesis
    by (simp add: encodeOuterMessage_def MAX_OUTER_MESSAGE_BYTES_def frame_bytes_def)
qed

end
