(* ===== verification/RelayTheorems.thy ===== *)
theory RelayTheorems
  imports DataConnection HostAdapter DemoCodec
begin

text \<open>
  The properties of \<open>protocol/src\<close>: the binary codecs round-trip in range, both peers negotiate the
  same features, and the device statement and the fingerprint a human compares each determine what
  they were made from.

  The properties of the relay's clients: the hand-over of a data connection, the host adapter, and
  what the hashed preimages bind; each with a closed example. The cell's are in \<open>CellTheorems\<close>.
\<close>

text \<open>A terminal frame survives the wire: decoding an encoded frame gives it back, every field,
  for an opcode of one byte, a stream id of 32 bits and a sequence number in JavaScript's exact
  range, whose upper half is what the 53-bit split is for. An encoded frame is never shorter than
  its header, and no other kind or version byte decodes.\<close>

lemma pty_frame_roundtrip:
  assumes "pf_opcode f < 256" and "pf_streamId f < 2 ^ 32" and "pf_seq f < 2 ^ 53"
  shows "decodePtyFrame (encodePtyFrame f) = Some f \<and>
    length (encodePtyFrame f) = HEADER_BYTES + length (pf_payload f)"
  using assms encode_fields(8) [of f] by (simp add: decode_encode_mod)

lemma pty_frame_roundtrip_witness:
  "decodePtyFrame (encodePtyFrame \<lparr>pf_opcode = 1, pf_streamId = 4294967295, pf_seq = 2 ^ 40 + 7, pf_payload = [65]\<rparr>) =
     Some \<lparr>pf_opcode = 1, pf_streamId = 4294967295, pf_seq = 2 ^ 40 + 7, pf_payload = [65]\<rparr>"
  using pty_frame_roundtrip [of "\<lparr>pf_opcode = 1, pf_streamId = 4294967295, pf_seq = 2 ^ 40 + 7, pf_payload = [65]\<rparr>"]
  by simp

text \<open>The fixed payloads survive too: a size the schema allows, and an exit code that is absent (a
  signal, told apart from code zero) or any 32-bit signed integer.\<close>

lemma payload_roundtrips:
  assumes "valid_size z" and "\<forall>c \<in> set_option code. - (2 ^ 31) \<le> c \<and> c < 2 ^ 31"
  shows "decodeSizePayload (encodeSizePayload z) = Some z \<and>
    decodeExitPayload (encodeExitPayload code) = Some code"
proof
  show "decodeSizePayload (encodeSizePayload z) = Some z"
    using assms(1) by (simp add: decode_encode_size valid_size_def)
  show "decodeExitPayload (encodeExitPayload code) = Some code"
    using assms(2) by (intro decode_encode_exit) (simp split: option.splits)
qed

lemma payload_roundtrips_witness:
  "decodeSizePayload (encodeSizePayload \<lparr>sz_cols = 1000, sz_rows = 1\<rparr>) = Some \<lparr>sz_cols = 1000, sz_rows = 1\<rparr> \<and>
   decodeExitPayload (encodeExitPayload (Some (- 1))) = Some (Some (- 1))"
  using payload_roundtrips [of "\<lparr>sz_cols = 1000, sz_rows = 1\<rparr>" "Some (- 1)"] by (simp add: valid_size_def)

text \<open>The two peers of a handshake negotiate the same features whichever one computes it: the
  active set is exactly the capabilities both advertise, without duplicates, unknown ones
  included; and a peer is compatible exactly when it speaks a version in the supported range.\<close>

lemma negotiation_is_symmetric:
  "set (fst (negotiateHello a (v, b))) = set (fst (negotiateHello b (w, a))) \<and>
   set (fst (negotiateHello a (v, b))) = set a \<inter> set b \<and> distinct (fst (negotiateHello a (v, b))) \<and>
   (snd (negotiateHello a (v, b)) = CompatOk \<longleftrightarrow> MIN_COMPATIBLE_VERSION \<le> v \<and> v \<le> PROTOCOL_VERSION)"
  by (auto simp: negotiateHello_def evaluateCompat_def)

lemma negotiation_is_symmetric_witness:
  "set (fst (negotiateHello [PTY_STREAM, LAUNCH] (2, [LAUNCH]))) = {LAUNCH}"
  using negotiation_is_symmetric [of "[PTY_STREAM, LAUNCH]" 2 "[LAUNCH]"]
  by (simp add: PTY_STREAM_def LAUNCH_def) 

text \<open>The statement a device signs determines the channel, the host and the device: two statements
  with the same bytes are of the same session id, host id and key id, whatever characters the host
  id holds; so a signature made for one channel, host or device verifies for no other.\<close>

lemma device_statement_binds:
  assumes "deviceAuthMessage s h k = Some m" and "deviceAuthMessage s' h' k' = Some m"
    and "device_key_id_pattern k" and "device_key_id_pattern k'"
  shows "s = s' \<and> h = h' \<and> k = k'"
proof -
  have len: "length s = length s'" using assms(1,2) by (simp add: deviceAuthMessage_def split: if_splits)
  have "utf8 DEVICE_AUTH_LABEL @ [0] @ s @ [0] @ utf8 h @ [0] @ utf8 k =
      utf8 DEVICE_AUTH_LABEL @ [0] @ s' @ [0] @ utf8 h' @ [0] @ utf8 k'"
    using assms(1,2) by (auto simp: deviceAuthMessage_def split: if_splits)
  then have "s @ 0 # (utf8 h @ 0 # utf8 k) = s' @ 0 # (utf8 h' @ 0 # utf8 k')" by simp
  then have "s = s'" and "utf8 h @ 0 # utf8 k = utf8 h' @ 0 # utf8 k'"
    using len by (simp_all add: append_eq_append_conv)
  moreover have "utf8 h = utf8 h' \<and> utf8 k = utf8 k'"
    by (rule append_sep_inject_right [OF calculation(2)])
      (use assms(3,4) hex_no_nul in \<open>auto simp: device_key_id_pattern_def\<close>)
  ultimately show ?thesis by simp
qed

lemma device_statement_binds_witness:
  "deviceAuthMessage (replicate 32 1) ''h'' NULL_DEVICE_KEY_ID \<noteq> deviceAuthMessage (replicate 32 1) ''g'' NULL_DEVICE_KEY_ID"
proof
  assume e: "deviceAuthMessage (replicate 32 1) ''h'' NULL_DEVICE_KEY_ID = deviceAuthMessage (replicate 32 1) ''g'' NULL_DEVICE_KEY_ID"
  obtain m where m: "deviceAuthMessage (replicate 32 1) ''h'' NULL_DEVICE_KEY_ID = Some m"
    by (simp add: deviceAuthMessage_def DEVICE_AUTH_SESSION_ID_BYTES_def)
  have k: "device_key_id_pattern NULL_DEVICE_KEY_ID"
    by (simp add: device_key_id_pattern_def NULL_DEVICE_KEY_ID_def is_hex_def)
  from device_statement_binds [OF m _ k k, of "replicate 32 1" "''g''"] e m show False by simp
qed

text \<open>A fingerprint a human compares identifies the device key id: it is 19 characters, four groups
  of four, and two key ids with the same fingerprint are the same.\<close>

lemma fingerprint_identifies_the_device:
  assumes "deviceFingerprint k = Some f" and "deviceFingerprint k' = Some f"
  shows "k = k' \<and> length f = 19"
proof
  have p: "length k = 16" "list_all is_hex k" "length k' = 16" "list_all is_hex k'"
    using assms by (auto simp: deviceFingerprint_def device_key_id_pattern_def split: if_splits)
  have f: "f = take 4 (map upper x) @ ''-'' @ take 4 (drop 4 (map upper x)) @ ''-'' @
      take 4 (drop 8 (map upper x)) @ ''-'' @ take 4 (drop 12 (map upper x))"
    if "deviceFingerprint x = Some f" for x
    using that by (simp add: deviceFingerprint_def Let_def split: if_splits)
  show "length f = 19" using f [OF assms(1)] p(1) by simp
  have groups: "take 4 f @ take 4 (drop 5 f) @ take 4 (drop 10 f) @ take 4 (drop 15 f) = map upper x"
    if "deviceFingerprint x = Some f" "length x = 16" for x
  proof -
    have "take 4 f = take 4 (map upper x)" "take 4 (drop 5 f) = take 4 (drop 4 (map upper x))"
      "take 4 (drop 10 f) = take 4 (drop 8 (map upper x))" "take 4 (drop 15 f) = take 4 (drop 12 (map upper x))"
      unfolding f [OF that(1)] using that(2) by simp_all
    moreover have "take 4 u @ take 4 (drop 4 u) @ take 4 (drop 8 u) @ take 4 (drop 12 u) = u"
      if "length u = 16" for u :: string
    proof -
      have split4: "drop n u = take 4 (drop n u) @ drop (n + 4) u" for n
        by (metis append_take_drop_id drop_drop add.commute)
      have "drop 12 u = take 4 (drop 12 u)" using that by simp
      then show ?thesis using split4 [of 8] split4 [of 4] split4 [of 0] by simp
    qed
    ultimately show ?thesis using that(2) by simp
  qed
  have "map upper k = map upper k'" using groups [OF assms(1) p(1)] groups [OF assms(2) p(3)] by metis
  moreover have "inj_on upper {c. is_hex c}" by (rule inj_onI) (simp add: upper_inject)
  ultimately show "k = k'"
    using p(2,4) by (intro map_inj_on [of upper k k']) (auto simp: list_all_iff intro: inj_on_subset)
qed

lemma fingerprint_identifies_the_device_witness:
  "\<exists>f. deviceFingerprint ''8f2a91c34d7e0b55'' = Some f \<and> length f = 19"
proof -
  obtain f where f: "deviceFingerprint ''8f2a91c34d7e0b55'' = Some f"
    by (simp add: deviceFingerprint_def device_key_id_pattern_def is_hex_def Let_def)
  from fingerprint_identifies_the_device [OF f f] f show ?thesis by blast
qed

lemma new_outer_simps [simp]:
  "oc_reader new_outer = empty_reader" "\<not> oc_raw new_outer" "\<not> oc_closed new_outer"
  "oc_handler new_outer = None" "oc_buffer new_outer = []" "oc_buffered new_outer = 0"
  by (simp_all add: new_outer_def)

subsection \<open>The hand-over of a data connection\<close>

text \<open>A data connection that has sent its \<open>data-auth\<close> and receives a \<open>data-ready\<close> followed by
  raw bytes becomes ready, stays open, and its consumer gets exactly the raw bytes, in order:
  none of the \<open>data-ready\<close> frame and none lost, however the transport cuts the stream and
  whenever the consumer registers, as long as the bytes held before it does fit the buffer.\<close>

lemma handover_is_exact:
  assumes J: "codec_ok J" and F: "encodeOuterMessage J DataReady = Some F"
    and d0: "awaitDataReady J auth = Some d0" and ss: "arrived ss = F @ raw" "Register \<in> set ss"
    and t: "in_time (length F + MAX_PREHANDLER_RAW_BYTES) ss"
  shows "\<exists>d. dc_run J ss d0 = Some d \<and> dc_result d = Some Ready \<and> \<not> oc_closed (dc_outer d) \<and>
    consumed_of (dc_out d) = raw"
proof -
  have D: "json_decode J (json_encode J DataReady) = Some DataReady"
    using J by (simp add: codec_ok_def)
  have F': "F = frame_bytes (json_encode J DataReady)"
      "length (json_encode J DataReady) \<le> MAX_OUTER_MESSAGE_BYTES"
    using F by (simp_all add: encodeOuterMessage_def Let_def split: if_splits)
  have h: "oc_handler (dc_outer d0) = None" and tr: "tracks F [] d0"
    using d0 F' by (auto simp: awaitDataReady_def tracks_def frame_bytes_def split: option.splits)
  obtain d where d: "dc_run J ss d0 = Some d" "tracks F (F @ raw) d" "oc_handler (dc_outer d) \<noteq> None"
    using tracks_run [OF D F'(2,1) tr, of ss raw] ss t h by auto
  then show ?thesis by (auto simp: tracks_def buffer_ok_def)
qed

lemma handover_is_exact_witness:
  "\<exists>d0 d. awaitDataReady demo_codec (DataAuth ControllerRole demo_ticket None) = Some d0 \<and>
     dc_run demo_codec [Arrive [0, 0, 0], Arrive [1, 7, 42], Register, Arrive [43]] d0 = Some d \<and>
     consumed_of (dc_out d) = [42, 43]"
proof -
  let ?auth = "DataAuth ControllerRole demo_ticket None"
  let ?ss = "[Arrive [0, 0, 0], Arrive [1, 7, 42], Register, Arrive [43]]"
  obtain d0 where d0: "awaitDataReady demo_codec ?auth = Some d0"
    by (simp add: awaitDataReady_def encodeOuterMessage_def Let_def MAX_OUTER_MESSAGE_BYTES_def)
  have "in_time (length [0, 0, 0, 1, 7 :: byte] + MAX_PREHANDLER_RAW_BYTES) ?ss"
    by (rule in_time_short) (simp add: MAX_PREHANDLER_RAW_BYTES_def)
  from handover_is_exact [OF demo_codec_ok demo_ready_frame d0 _ _ this, of "[42, 43]"] d0
  show ?thesis by auto
qed

subsection \<open>The host adapter\<close>

text \<open>Once the registration is closed, its control connection is too and no data connection is left.\<close>

definition adapter_inv :: "adapter \<Rightarrow> bool" where
  "adapter_inv a \<longleftrightarrow>
     (ha_closed a \<longrightarrow> ha_ctlClosed a \<and> (\<forall>d \<in> set (ha_dials a). \<not> live_dial d)) \<and>
     (ha_serving a \<longrightarrow> (\<exists>key cellId. ha_result a = Some (Registered key cellId))) \<and>
     (ha_result a = None \<longleftrightarrow> \<not> ha_settled a)"

lemma ctl_send_fields [simp]:
  "ha_closed (ctl_send m a) = ha_closed a" "ha_ctlClosed (ctl_send m a) = ha_ctlClosed a"
  "ha_dials (ctl_send m a) = ha_dials a" "ha_serving (ctl_send m a) = ha_serving a"
  "ha_result (ctl_send m a) = ha_result a" "ha_settled (ctl_send m a) = ha_settled a"
  by (simp_all add: ctl_send_def ha_emit_def)

lemma ctl_close_fields [simp]:
  "ha_closed (ctl_close a) = ha_closed a" "ha_ctlClosed (ctl_close a)"
  "ha_dials (ctl_close a) = ha_dials a" "ha_serving (ctl_close a) = ha_serving a"
  "ha_result (ctl_close a) = ha_result a" "ha_settled (ctl_close a) = ha_settled a"
  by (simp_all add: ctl_close_def ha_emit_def)

lemma end_dial_dead [simp]: "\<not> live_dial (end_dial d)"
  by (simp add: end_dial_def live_dial_def)

lemma inv_teardown: "adapter_inv a \<Longrightarrow> adapter_inv (teardown_reg e a)"
  by (auto simp: teardown_reg_def adapter_inv_def Let_def ha_emit_def)

lemma inv_reg_fail: "adapter_inv a \<Longrightarrow> adapter_inv (reg_fail e a)"
  by (auto simp: reg_fail_def adapter_inv_def)

lemma inv_serve: "adapter_inv a \<Longrightarrow> adapter_inv (serve_message m a)"
  using inv_teardown [of a]
  by (auto simp: serve_message_def adapter_inv_def live_dial_def ha_emit_def split: outer_message.splits)

lemma inv_reg_message: "adapter_inv a \<Longrightarrow> reg_message C m a = Some a' \<Longrightarrow> adapter_inv a'"
  using inv_reg_fail [of a]
  by (auto simp: reg_message_def adapter_inv_def Let_def split: outer_message.splits option.splits if_splits)

lemma inv_ctl_frames: "adapter_inv a \<Longrightarrow> adapter_inv (ctl_frames C fs a)"
proof (induction C fs a rule: ctl_frames.induct)
  case (2 C fs a)
  then show ?case by (simp add: ctl_error_def inv_teardown inv_reg_fail)
next
  case (3 C m fs a)
  then show ?case
    by (auto simp: ctl_error_def inv_teardown inv_reg_fail inv_serve dest: inv_reg_message split: option.splits)
qed simp

lemma live_dial_update:
  "\<forall>d \<in> set ds. \<not> live_dial d \<Longrightarrow> \<not> live_dial d' \<Longrightarrow> \<forall>d \<in> set (ds[i := d']). \<not> live_dial d"
  using set_update_subset_insert [of ds i d'] by blast

lemma inv_emit [simp]: "adapter_inv (ha_emit e a) = adapter_inv a"
  by (simp add: adapter_inv_def ha_emit_def)

lemma inv_set_dial:
  assumes "adapter_inv a" and "ha_closed a \<longrightarrow> s = Ended"
  shows "adapter_inv (set_dial i s a)"
proof -
  have f: "ha_closed (set_dial i s a) = ha_closed a" "ha_ctlClosed (set_dial i s a) = ha_ctlClosed a"
    "ha_serving (set_dial i s a) = ha_serving a" "ha_result (set_dial i s a) = ha_result a"
    "ha_settled (set_dial i s a) = ha_settled a"
    "ha_dials (set_dial i s a) = (ha_dials a)[i := (ha_dials a ! i)\<lparr>di_state := s\<rparr>]"
    by (simp_all add: set_dial_def)
  have "\<forall>d \<in> set (ha_dials (set_dial i s a)). \<not> live_dial d" if c: "ha_closed a"
    unfolding f
    by (rule live_dial_update) (use assms c in \<open>simp_all add: adapter_inv_def live_dial_def\<close>)
  then show ?thesis using assms(1) unfolding adapter_inv_def f(1-5) by blast
qed

lemma inv_adapter_step:
  assumes "adapter_inv a" and "adapter_step C e a = Some a'"
  shows "adapter_inv a'"
proof (cases e)
  case (Chunk fs)
  then show ?thesis using assms inv_ctl_frames by (auto simp: ctl_chunk_def)
next
  case (Connected i ok)
  then have "a' = dial_connected C i ok a" using assms(2) by (simp split: if_splits)
  then show ?thesis using assms(1)
    by (simp add: dial_connected_def Let_def inv_set_dial split: option.split registration.split)
next
  case (Awaited i ready)
  then have "a' = dial_awaited i ready a" using assms(2) by (simp split: if_splits)
  then show ?thesis using assms(1) by (simp add: dial_awaited_def inv_set_dial)
next
  case CloseRegistration
  then show ?thesis using assms inv_teardown by (auto split: if_splits)
next
  case Continue
  then show ?thesis using assms
    by (auto simp: adapter_inv_def split: option.splits registration.splits if_splits)
qed

lemma adapter_reach_inv: "adapter_reach C hostId secret a \<Longrightarrow> adapter_inv a"
proof (induction rule: adapter_reach.induct)
  case init
  then show ?case by (simp add: adapter_inv_def registerHostWithCell_def)
next
  case (step a e a')
  then show ?case using inv_adapter_step by blast
qed

text \<open>A step of a closed registration.\<close>

lemma closed_step:
  assumes "adapter_inv a" and "ha_closed a" and "adapter_step C e a = Some a'"
  shows "ha_closed a' \<and> (\<exists>out. ha_out a' = ha_out a @ out \<and> (\<forall>x \<in> set out. \<exists>i. x = DataClose i))"
proof (cases e)
  case (Chunk fs)
  then show ?thesis using assms by (simp add: ctl_chunk_def adapter_inv_def)
next
  case (Connected i ok)
  then show ?thesis using assms by (auto simp: dial_connected_def set_dial_def ha_emit_def split: if_splits)
next
  case (Awaited i ready)
  then have "live_dial (ha_dials a ! i)" "i < length (ha_dials a)"
    using assms(3) by (auto simp: live_dial_def split: if_splits)
  then show ?thesis using assms(1,2) by (auto simp: adapter_inv_def)
next
  case CloseRegistration
  then show ?thesis using assms by (auto simp: teardown_reg_def split: if_splits)
qed (use assms in \<open>auto split: option.splits registration.splits if_splits\<close>)

text \<open>Closing a registration is final: its control connection is closed and no data connection is
  left open, and whatever settles afterwards (a dial that was under way, a late \<open>data-ready\<close>, more
  control bytes) hands the caller no connection, sends nothing, and only closes.\<close>

lemma closed_registration_is_final:
  assumes "adapter_reach C hostId secret a" and "ha_closed a" and "adapter_run C es a = Some a'"
  shows "ha_ctlClosed a' \<and> dataConnections a' = [] \<and>
    (\<exists>out. ha_out a' = ha_out a @ out \<and> (\<forall>x \<in> set out. \<exists>i. x = DataClose i))"
proof -
  have "adapter_inv a' \<and> ha_closed a' \<and>
      (\<exists>out. ha_out a' = ha_out a @ out \<and> (\<forall>x \<in> set out. \<exists>i. x = DataClose i))"
    using adapter_reach_inv [OF assms(1)] assms(2,3)
  proof (induction es arbitrary: a)
    case (Cons e es)
    then obtain a1 where a1: "adapter_step C e a = Some a1" "adapter_run C es a1 = Some a'"
      by (auto split: option.splits)
    then obtain out where out: "ha_closed a1" "ha_out a1 = ha_out a @ out" "\<forall>x \<in> set out. \<exists>i. x = DataClose i"
      using closed_step [OF Cons.prems(1,2)] by blast
    then show ?case using Cons.IH [OF inv_adapter_step [OF Cons.prems(1) a1(1)] out(1) a1(2)] by fastforce
  qed simp
  then show ?thesis by (auto simp: adapter_inv_def dataConnections_def)
qed

text \<open>A registration that has answered a challenge and been acknowledged.\<close>

definition demo_serving :: adapter where
  "demo_serving = (ctl_chunk demo_crypto [Msg (HostChallenge ''c'' (replicate 32 7) [6]), Msg (HostRegistered ''h'')]
     (registerHostWithCell ''h'' [5]))\<lparr>ha_serving := True\<rparr>"

lemma demo_serving_facts:
  "adapter_reach demo_crypto ''h'' [5] demo_serving" "ha_serving demo_serving" "\<not> ha_closed demo_serving"
  "\<not> ha_ctlClosed demo_serving" "ha_dials demo_serving = []"
proof -
  let ?a = "ctl_chunk demo_crypto [Msg (HostChallenge ''c'' (replicate 32 7) [6]), Msg (HostRegistered ''h'')]
     (registerHostWithCell ''h'' [5])"
  have s: "adapter_step demo_crypto (Chunk [Msg (HostChallenge ''c'' (replicate 32 7) [6]), Msg (HostRegistered ''h'')])
      (registerHostWithCell ''h'' [5]) = Some ?a" by simp
  obtain dh where dh: "x_shared demo_crypto [5] [6] = Some dh" by (simp add: demo_crypto_def)
  have f: "\<exists>key. ha_result ?a = Some (Registered key ''c'')" "\<not> ha_serving ?a" "\<not> ha_closed ?a"
      "\<not> ha_ctlClosed ?a" "ha_dials ?a = []"
    using dh by (simp_all add: ctl_chunk_def reg_message_def registerHostWithCell_def ctl_send_def ha_emit_def Let_def
        proveHost_def hostDataAuthKey_def)
  then have "adapter_step demo_crypto Continue ?a = Some demo_serving" by (auto simp: demo_serving_def)
  then show "adapter_reach demo_crypto ''h'' [5] demo_serving"
    by (rule adapter_reach.step [OF adapter_reach.step [OF adapter_reach.init s]])
  show "ha_serving demo_serving" "\<not> ha_closed demo_serving"
    "\<not> ha_ctlClosed demo_serving" "ha_dials demo_serving = []" using f by (simp_all add: demo_serving_def)
qed

lemma closed_registration_is_final_witness:
  "\<exists>a a'. adapter_run demo_crypto [Chunk [Msg (ConnOpen demo_ticket [])], CloseRegistration] demo_serving = Some a \<and>
     adapter_run demo_crypto [Connected 0 True] a = Some a' \<and> dataConnections a' = []"
proof -
  note f = demo_serving_facts
  let ?a = "teardown_reg None (serve_message (ConnOpen demo_ticket []) demo_serving)"
  have r1: "adapter_step demo_crypto (Chunk [Msg (ConnOpen demo_ticket [])]) demo_serving =
      Some (serve_message (ConnOpen demo_ticket []) demo_serving)"
    by (simp add: ctl_chunk_def f)
  have r2: "adapter_step demo_crypto CloseRegistration (serve_message (ConnOpen demo_ticket []) demo_serving) = Some ?a"
    by (simp add: serve_message_def ha_emit_def f)
  have a: "adapter_reach demo_crypto ''h'' [5] ?a"
    by (rule adapter_reach.step [OF adapter_reach.step [OF f(1) r1] r2])
  have cl: "ha_closed ?a" and d: "\<exists>a'. adapter_run demo_crypto [Connected 0 True] ?a = Some a'"
    by (simp_all add: teardown_reg_def serve_message_def ha_emit_def Let_def f end_dial_def live_dial_def)
  then obtain a' where "adapter_run demo_crypto [Connected 0 True] ?a = Some a'" by blast
  moreover from closed_registration_is_final [OF a cl this] have "dataConnections a' = []" by simp
  moreover have "adapter_run demo_crypto [Chunk [Msg (ConnOpen demo_ticket [])], CloseRegistration] demo_serving = Some ?a"
    using r1 r2 by (simp del: adapter_step.simps)
  ultimately show ?thesis by blast
qed

text \<open>A \<open>conn-open\<close> that the transport delivers in the same chunk as \<open>host-registered\<close> is lost: the
  registration's handler, already settled, drops it, and the handler that would dial is only
  installed after the awaited promise resumes; in a later chunk the same message dials.\<close>

lemma conn_open_behind_registered_is_lost:
  assumes a: "ha_registered a = Some (key, cellId)" "\<not> ha_settled a" "\<not> ha_serving a" "\<not> ha_ctlClosed a"
  shows "ctl_chunk C [Msg (HostRegistered h), Msg (ConnOpen t n)] a = ctl_chunk C [Msg (HostRegistered h)] a \<and>
    (\<exists>a' a''. adapter_run C [Chunk [Msg (HostRegistered h)], Continue] a = Some a' \<and>
      adapter_run C [Chunk [Msg (ConnOpen t n)]] a' = Some a'' \<and>
      ha_out a'' = ha_out a' @ [Connect (length (ha_dials a))])"
  using a by (simp add: ctl_chunk_def reg_message_def serve_message_def ha_emit_def)

lemma conn_open_behind_registered_is_lost_witness:
  "\<exists>a. ha_out (ctl_chunk demo_crypto [Msg (HostRegistered ''h''), Msg (ConnOpen demo_ticket [])] a) =
     ha_out (ctl_chunk demo_crypto [Msg (HostRegistered ''h'')] a)"
proof -
  let ?a = "(registerHostWithCell ''h'' [5])\<lparr>ha_registered := Some ([1], ''c'')\<rparr>"
  have "ha_registered ?a = Some ([1], ''c'')" "\<not> ha_settled ?a" "\<not> ha_serving ?a" "\<not> ha_ctlClosed ?a"
    by (simp_all add: registerHostWithCell_def ctl_send_def ha_emit_def)
  from conn_open_behind_registered_is_lost [OF this, of demo_crypto "''h''" demo_ticket "[]"]
  show ?thesis by metis
qed

subsection \<open>What the preimages bind\<close>

lemma valid_ticket_no_nul: "valid_ticket t \<Longrightarrow> no_nul t"
  using valid_id_no_nul [of "''tkt''" t] by (simp add: valid_ticket_def no_nul_def)

text \<open>The bytes hashed into a channel's relay context, and those under a data dial's MAC, determine
  what they were made from, tickets being of the schema's form: a context fixes the host and the
  ticket, a MAC'd dial fixes the cell, the ticket and the bridge nonce.\<close>

lemma preimages_bind_their_fields:
  assumes "valid_ticket t" and "valid_ticket t'" and "length n = length n'"
  shows "(context_preimage h t = context_preimage h' t' \<longleftrightarrow> h = h' \<and> t = t') \<and>
    (data_preimage c t n = data_preimage c' t' n' \<longleftrightarrow> c = c' \<and> t = t' \<and> n = n')"
  using context_preimage_inject [of h t h' t'] data_preimage_inject [of c t n c' t' n'] assms
  by (auto simp: valid_ticket_no_nul)

lemma preimages_bind_their_fields_witness:
  "context_preimage ''h'' demo_ticket \<noteq> context_preimage ''g'' demo_ticket \<and>
   data_preimage ''c'' demo_ticket [1] \<noteq> data_preimage ''c'' demo_ticket [2]"
  using preimages_bind_their_fields [OF demo_ticket_valid demo_ticket_valid, of "[1]" "[2]" "''h''" "''g''" "''c''" "''c''"]
  by simp

text \<open>The registration transcript does not determine its fields, against what the separators are
  for: a host id may hold a zero byte, and then two different (host id, cell id) pairs give one
  transcript, so one proof verifies for both.\<close>

lemma transcript_is_ambiguous:
  "\<exists>h h' ch ch'. h \<noteq> h' \<and> outer_ok (HostHello h) \<and> outer_ok (HostHello h') \<and>
     hc_cellId ch \<noteq> hc_cellId ch' \<and> hc_nonce ch = hc_nonce ch' \<and> hc_pub ch = hc_pub ch' \<and>
     (\<forall>C s. proveHost C ch h s = proveHost C ch' h' s)"
proof -
  let ?h = "''a'' @ [CHR 0x00] @ ''b''"
  let ?ch = "\<lparr>hc_cellId = ''c'', hc_nonce = [], hc_pub = []\<rparr>"
  let ?ch' = "\<lparr>hc_cellId = ''b'' @ [CHR 0x00] @ ''c'', hc_nonce = [], hc_pub = []\<rparr>"
  have "proveHost C ?ch ?h s = proveHost C ?ch' ''a'' s" for C s
    using transcript_collision [of "[]" "[]"] by (simp add: proveHost_def computeMac_def split: option.split)
  then show ?thesis by (intro exI [of _ ?h] exI [of _ "''a''"] exI [of _ ?ch] exI [of _ ?ch']) simp
qed

end
