(* ===== verification/Cell.thy ===== *)
theory Cell
  imports OuterFrame HostProof
begin

text \<open>
  \<open>packages/relay-core/src/cell.ts\<close>: the blind relay. The state holds every connection the cell
  has accepted (by number), the maps of registered hosts, pending bridges and used tickets, the
  live bridges, the running timers and the lookups whose promise has not settled; the effects on
  the transports are logged. A step is one event of the runtime: an accepted connection, inbound
  bytes, a peer's close, a settled lookup, a fired timer, \<open>drain\<close>, \<open>close\<close>. Randomness and the
  clock come with the event.
\<close>

datatype bridge_direction = ControllerToHost | HostToController

text \<open>The raw handler the splice registers on a data connection: report the bytes to the tap under
  the ticket and direction, and send them to the peer.\<close>

record pipe =
  pp_ticket :: string
  pp_dir :: bridge_direction
  pp_peer :: nat

datatype conn_role = Unclassified | ControlPending | Control | ControllerData | HostData

record bridge =
  br_ticket :: string
  br_controller :: nat
  br_host :: nat

record conn =
  cn_outer :: "pipe outer"
  cn_role :: conn_role
  cn_hostId :: "string option"
  cn_static :: "bytes option"
  cn_challenge :: "challenge_secret option"
  cn_dataKey :: "bytes option"
  cn_ticket :: "string option"
  cn_bridge :: "bridge option"

record pending =
  pb_hostId :: string
  pb_controller :: nat
  pb_timer :: nat
  pb_nonce :: bytes

record ticket_record =
  tr_hostId :: string
  tr_expiresAt :: nat

text \<open>An outstanding call of the authorizer.\<close>

datatype waiting = StaticKeyOf nat string | TicketOf nat string

datatype out =
    SendMsg nat outer_message
  | SendRaw nat bytes
  | CloseConn nat
  | Tap string bridge_direction bytes

record cell =
  cl_cellId :: string
  cl_conns :: "nat \<Rightarrow> conn"
  cl_next :: nat
  cl_hosts :: "(string, nat) amap"
  cl_pending :: "(string, pending) amap"
  cl_bridges :: "bridge list"
  cl_used :: "string list"
  cl_draining :: bool
  cl_closed :: bool
  cl_timers :: "(nat, string) amap"
  cl_nextTimer :: nat
  cl_waiting :: "waiting list"
  cl_out :: "out list"

definition MAX_USED_TICKETS :: nat where
  "MAX_USED_TICKETS = 1024"

definition new_conn :: conn where
  "new_conn = \<lparr>cn_outer = new_outer, cn_role = Unclassified, cn_hostId = None, cn_static = None,
               cn_challenge = None, cn_dataKey = None, cn_ticket = None, cn_bridge = None\<rparr>"

definition createCell :: "string \<Rightarrow> cell" where
  "createCell cellId =
     \<lparr>cl_cellId = cellId, cl_conns = (\<lambda>_. new_conn), cl_next = 0, cl_hosts = [], cl_pending = [],
      cl_bridges = [], cl_used = [], cl_draining = False, cl_closed = False, cl_timers = [],
      cl_nextTimer = 0, cl_waiting = [], cl_out = []\<rparr>"

subsection \<open>Primitive updates\<close>

definition logged :: "out \<Rightarrow> cell \<Rightarrow> cell" where
  "logged e st = st\<lparr>cl_out := cl_out st @ [e]\<rparr>"

definition set_conn :: "nat \<Rightarrow> (conn \<Rightarrow> conn) \<Rightarrow> cell \<Rightarrow> cell" where
  "set_conn c f st = st\<lparr>cl_conns := (cl_conns st)(c := f (cl_conns st c))\<rparr>"

definition conn_closed :: "cell \<Rightarrow> nat \<Rightarrow> bool" where
  "conn_closed st c \<longleftrightarrow> oc_closed (cn_outer (cl_conns st c))"

text \<open>\<open>OuterConnection\<close>'s \<open>send\<close>, \<open>sendRaw\<close> and \<open>close\<close>.\<close>

definition send_msg :: "nat \<Rightarrow> outer_message \<Rightarrow> cell \<Rightarrow> cell" where
  "send_msg c m st = (if conn_closed st c then st else logged (SendMsg c m) st)"

definition send_raw :: "nat \<Rightarrow> bytes \<Rightarrow> cell \<Rightarrow> cell" where
  "send_raw c bs st = (if conn_closed st c then st else logged (SendRaw c bs) st)"

definition close_conn :: "nat \<Rightarrow> cell \<Rightarrow> cell" where
  "close_conn c st =
     (if conn_closed st c then st
      else logged (CloseConn c) (set_conn c (\<lambda>k. k\<lparr>cn_outer := (cn_outer k)\<lparr>oc_closed := True\<rparr>\<rparr>) st))"

definition clear_timer :: "nat \<Rightarrow> cell \<Rightarrow> cell" where
  "clear_timer h st = st\<lparr>cl_timers := adel h (cl_timers st)\<rparr>"

subsection \<open>Teardown\<close>

definition cleanup_host :: "nat \<Rightarrow> cell \<Rightarrow> cell" where
  "cleanup_host c st =
     (case cn_hostId (cl_conns st c) of
        None \<Rightarrow> st
      | Some h \<Rightarrow> if aget (cl_hosts st) h = Some c then st\<lparr>cl_hosts := adel h (cl_hosts st)\<rparr> else st)"

definition cleanup_pending :: "nat \<Rightarrow> cell \<Rightarrow> cell" where
  "cleanup_pending c st =
     (case cn_ticket (cl_conns st c) of
        None \<Rightarrow> st
      | Some t \<Rightarrow>
          (case aget (cl_pending st) t of
             None \<Rightarrow> st
           | Some p \<Rightarrow>
               if pb_controller p = c
               then (clear_timer (pb_timer p) st)\<lparr>cl_pending := adel t (cl_pending st)\<rparr>
               else st))"

definition cleanup_bridge :: "nat \<Rightarrow> cell \<Rightarrow> cell" where
  "cleanup_bridge c st =
     (case cn_bridge (cl_conns st c) of
        None \<Rightarrow> st
      | Some b \<Rightarrow>
          if b \<in> set (cl_bridges st) then
            let st = st\<lparr>cl_bridges := filter (\<lambda>b'. b' \<noteq> b) (cl_bridges st)\<rparr>;
                peer = (if br_controller b = c then br_host b else br_controller b)
            in close_conn peer (set_conn peer (\<lambda>k. k\<lparr>cn_bridge := None\<rparr>) st)
          else st)"

definition cleanup :: "nat \<Rightarrow> cell \<Rightarrow> cell" where
  "cleanup c st =
     set_conn c (\<lambda>k. k\<lparr>cn_bridge := None, cn_dataKey := None\<rparr>)
       (cleanup_bridge c (cleanup_pending c (cleanup_host c st)))"

definition refuse :: "nat \<Rightarrow> relay_close_code \<Rightarrow> cell \<Rightarrow> cell" where
  "refuse c code st = close_conn c (cleanup c (send_msg c (CloseMsg code None) st))"

definition fail_conn :: "nat \<Rightarrow> cell \<Rightarrow> cell" where
  "fail_conn c st = refuse c ProtocolError st"

definition detach :: "nat \<Rightarrow> cell \<Rightarrow> cell" where
  "detach c st = close_conn c (cleanup c st)"

subsection \<open>Raw bytes\<close>

text \<open>The owner's answer to a connection's raw effects.\<close>

fun raw_effects :: "nat \<Rightarrow> pipe raw_effect list \<Rightarrow> cell \<Rightarrow> cell" where
  "raw_effects c [] st = st"
| "raw_effects c (DeliverRaw p bs # es) st =
     raw_effects c es (send_raw (pp_peer p) bs (logged (Tap (pp_ticket p) (pp_dir p) bs) st))"
| "raw_effects c (RawOverflow # es) st = raw_effects c es (close_conn c (fail_conn c st))"

definition on_outer :: "nat \<Rightarrow> (pipe outer \<Rightarrow> pipe outer \<times> pipe raw_effect list) \<Rightarrow> cell \<Rightarrow> cell" where
  "on_outer c op st =
     (let (o', es) = op (cn_outer (cl_conns st c))
      in raw_effects c es (set_conn c (\<lambda>k. k\<lparr>cn_outer := o'\<rparr>) st))"

definition splice :: "nat \<Rightarrow> nat \<Rightarrow> string \<Rightarrow> cell \<Rightarrow> cell" where
  "splice controller host t st =
     (let b = \<lparr>br_ticket = t, br_controller = controller, br_host = host\<rparr>;
          st = st\<lparr>cl_bridges := cl_bridges st @ [b]\<rparr>;
          st = set_conn controller (\<lambda>k. k\<lparr>cn_bridge := Some b\<rparr>) st;
          st = set_conn host (\<lambda>k. k\<lparr>cn_bridge := Some b\<rparr>) st;
          st = on_outer controller (onRaw \<lparr>pp_ticket = t, pp_dir = ControllerToHost, pp_peer = host\<rparr>) st;
          st = on_outer host (onRaw \<lparr>pp_ticket = t, pp_dir = HostToController, pp_peer = controller\<rparr>) st;
          st = send_msg controller DataReady st;
          st = send_msg host DataReady st;
          st = on_outer controller toRaw st
      in on_outer host toRaw st)"

subsection \<open>Registration\<close>

definition dropChallenge :: "nat \<Rightarrow> cell \<Rightarrow> cell" where
  "dropChallenge c st = set_conn c (\<lambda>k. k\<lparr>cn_challenge := None\<rparr>) st"

text \<open>The continuation of \<open>#beginRegistration\<close> once the key lookup has settled.\<close>

definition registrationKey :: "crypto \<Rightarrow> nat \<Rightarrow> string \<Rightarrow> bytes option \<Rightarrow> bytes \<Rightarrow> bytes \<Rightarrow> cell \<Rightarrow> cell" where
  "registrationKey C c hostId staticPub secret nonce st =
     (if cl_closed st \<or> conn_closed st c then st
      else case staticPub of
        None \<Rightarrow> refuse c UnknownHost st
      | Some pub \<Rightarrow>
          let ch = makeChallenge C (cl_cellId st) secret nonce
          in send_msg c (HostChallenge (hc_cellId ch) (hc_nonce ch) (hc_pub ch))
               (set_conn c (\<lambda>k. k\<lparr>cn_hostId := Some hostId, cn_static := Some pub, cn_challenge := Some ch\<rparr>) st))"

definition register_host :: "nat \<Rightarrow> string \<Rightarrow> bytes \<Rightarrow> cell \<Rightarrow> cell" where
  "register_host c hostId dataKey st =
     (let st = (case aget (cl_hosts st) hostId of
                  Some prev \<Rightarrow> if prev \<noteq> c then close_conn prev st else st
                | None \<Rightarrow> st);
          st = set_conn c (\<lambda>k. k\<lparr>cn_dataKey := Some dataKey\<rparr>) st;
          st = st\<lparr>cl_hosts := aset hostId c (cl_hosts st)\<rparr>;
          st = set_conn c (\<lambda>k. k\<lparr>cn_role := Control\<rparr>) st
      in send_msg c (HostRegistered hostId) st)"

definition onProof :: "crypto \<Rightarrow> nat \<Rightarrow> outer_message \<Rightarrow> cell \<Rightarrow> cell" where
  "onProof C c m st =
     (case m of
        HostProofMsg mac \<Rightarrow>
          (let k = cl_conns st c
           in case (cn_challenge k, cn_hostId k, cn_static k) of
                (Some ch, Some hostId, Some pub) \<Rightarrow>
                  (let verified = verifyProof C ch hostId pub mac;
                       dataKey = (if verified then cellDataAuthKey C ch pub else None);
                       st = dropChallenge c st
                   in case dataKey of
                        Some key \<Rightarrow> if verified then register_host c hostId key st else refuse c ProofFailed st
                      | None \<Rightarrow> refuse c ProofFailed st)
              | _ \<Rightarrow> refuse c ProtocolError st)
      | _ \<Rightarrow> refuse c ProtocolError (dropChallenge c st))"

subsection \<open>Bridging\<close>

fun evict :: "string list \<Rightarrow> string list" where
  "evict [] = []"
| "evict (t # ts) = (if MAX_USED_TICKETS < length (t # ts) then evict ts else t # ts)"

definition markTicketUsed :: "string \<Rightarrow> cell \<Rightarrow> cell" where
  "markTicketUsed t st =
     st\<lparr>cl_used := evict (if t \<in> set (cl_used st) then cl_used st else cl_used st @ [t])\<rparr>"

text \<open>The continuation of \<open>#beginControllerBridge\<close> once the ticket lookup has settled.\<close>

definition controllerTicket :: "nat \<Rightarrow> string \<Rightarrow> ticket_record option \<Rightarrow> nat \<Rightarrow> bytes \<Rightarrow> cell \<Rightarrow> cell" where
  "controllerTicket c t rec now nonce st =
     (if cl_closed st \<or> conn_closed st c then st
      else case rec of
        None \<Rightarrow> refuse c BadTicket st
      | Some r \<Rightarrow>
          if tr_expiresAt r \<le> now then refuse c TicketExpired st
          else if t \<in> set (cl_used st) then refuse c TicketReused st
          else (case aget (cl_hosts st) (tr_hostId r) of
              None \<Rightarrow> refuse c UnknownHost st
            | Some control \<Rightarrow>
                let st = markTicketUsed t st;
                    st = set_conn c (\<lambda>k. k\<lparr>cn_ticket := Some t, cn_hostId := Some (tr_hostId r)\<rparr>) st;
                    h = cl_nextTimer st;
                    st = st\<lparr>cl_nextTimer := Suc h, cl_timers := aset h t (cl_timers st)\<rparr>;
                    st = st\<lparr>cl_pending := aset t
                        \<lparr>pb_hostId = tr_hostId r, pb_controller = c, pb_timer = h, pb_nonce = nonce\<rparr>
                        (cl_pending st)\<rparr>
                in send_msg control (ConnOpen t nonce) st))"

definition completeHostDial :: "crypto \<Rightarrow> nat \<Rightarrow> string \<Rightarrow> bytes option \<Rightarrow> cell \<Rightarrow> cell" where
  "completeHostDial C c t mac st =
     (case aget (cl_pending st) t of
        None \<Rightarrow> refuse c BadTicket st
      | Some p \<Rightarrow>
          let key = (case aget (cl_hosts st) (pb_hostId p) of
                       None \<Rightarrow> None | Some control \<Rightarrow> cn_dataKey (cl_conns st control))
          in (case (key, mac) of
                (Some k, Some m) \<Rightarrow>
                  if verifyDataAuthMac C k (cl_cellId st) t (pb_nonce p) m then
                    let st = clear_timer (pb_timer p) st;
                        st = st\<lparr>cl_pending := adel t (cl_pending st)\<rparr>;
                        st = set_conn c (\<lambda>k. k\<lparr>cn_ticket := Some t, cn_hostId := Some (pb_hostId p)\<rparr>) st
                    in splice (pb_controller p) c t st
                  else refuse c DataAuthFailed st
              | _ \<Rightarrow> refuse c DataAuthFailed st))"

definition onBridgeTimeout :: "string \<Rightarrow> cell \<Rightarrow> cell" where
  "onBridgeTimeout t st =
     (case aget (cl_pending st) t of
        None \<Rightarrow> st
      | Some p \<Rightarrow> refuse (pb_controller p) BridgeTimeout (st\<lparr>cl_pending := adel t (cl_pending st)\<rparr>))"

subsection \<open>Dispatch\<close>

text \<open>\<open>#classify\<close>; an authorizer call is left waiting. A draining cell refuses the controller
  before it asks.\<close>

definition classify :: "crypto \<Rightarrow> nat \<Rightarrow> outer_message \<Rightarrow> cell \<Rightarrow> cell" where
  "classify C c m st =
     (case m of
        HostHello hostId \<Rightarrow>
          let st = set_conn c (\<lambda>k. k\<lparr>cn_role := ControlPending\<rparr>) st
          in st\<lparr>cl_waiting := cl_waiting st @ [StaticKeyOf c hostId]\<rparr>
      | DataAuth ControllerRole t mac \<Rightarrow>
          let st = set_conn c (\<lambda>k. k\<lparr>cn_role := ControllerData\<rparr>) st
          in if cl_draining st then refuse c Drained st
             else st\<lparr>cl_waiting := cl_waiting st @ [TicketOf c t]\<rparr>
      | DataAuth HostRole t mac \<Rightarrow>
          completeHostDial C c t mac (set_conn c (\<lambda>k. k\<lparr>cn_role := HostData\<rparr>) st)
      | _ \<Rightarrow> refuse c ProtocolError st)"

definition dispatch :: "crypto \<Rightarrow> nat \<Rightarrow> outer_message \<Rightarrow> cell \<Rightarrow> cell" where
  "dispatch C c m st =
     (case cn_role (cl_conns st c) of
        Unclassified \<Rightarrow> classify C c m st
      | ControlPending \<Rightarrow> onProof C c m st
      | Control \<Rightarrow> (case m of CloseMsg code r \<Rightarrow> detach c st | _ \<Rightarrow> refuse c ProtocolError st)
      | ControllerData \<Rightarrow> refuse c ProtocolError st
      | HostData \<Rightarrow> refuse c ProtocolError st)"

text \<open>The framed loop of \<open>OuterConnection.#receive\<close>, and the whole of it. A frame is at least its
  prefix long and no handler feeds a reader, so the reader's length is fuel enough.\<close>

definition set_reader :: "nat \<Rightarrow> reader \<Rightarrow> cell \<Rightarrow> cell" where
  "set_reader c rd st = set_conn c (\<lambda>k. k\<lparr>cn_outer := (cn_outer k)\<lparr>oc_reader := rd\<rparr>\<rparr>) st"

fun frames_loop :: "crypto \<Rightarrow> codec \<Rightarrow> nat \<Rightarrow> nat \<Rightarrow> cell \<Rightarrow> cell option" where
  "frames_loop C J c 0 st = None"
| "frames_loop C J c (Suc fuel) st =
     (let oc = cn_outer (cl_conns st c)
      in if oc_raw oc then Some st
         else case rd_next (oc_reader oc) of
           NeedMore \<Rightarrow> Some st
         | TooLong n \<Rightarrow> Some (fail_conn c st)
         | Frame payload rd \<Rightarrow>
             (case json_decode J payload of
                None \<Rightarrow> Some (fail_conn c (set_reader c rd st))
              | Some m \<Rightarrow> frames_loop C J c fuel (dispatch C c m (set_reader c rd st))))"

definition conn_receive :: "crypto \<Rightarrow> codec \<Rightarrow> nat \<Rightarrow> bytes \<Rightarrow> cell \<Rightarrow> cell option" where
  "conn_receive C J c bs st =
     (let oc = cn_outer (cl_conns st c)
      in if oc_closed oc then Some st
         else if oc_raw oc then Some (on_outer c (deliverRaw bs) st)
         else let rd = rd_push bs (oc_reader oc)
           in frames_loop C J c (Suc (rd_length rd)) (set_reader c rd st))"

subsection \<open>The cell's own operations\<close>

definition accept :: "cell \<Rightarrow> cell" where
  "accept st =
     (let c = cl_next st; st = st\<lparr>cl_next := Suc c\<rparr>
      in if cl_closed st then close_conn c st else st)"

fun send_all_hosts :: "nat list \<Rightarrow> outer_message \<Rightarrow> cell \<Rightarrow> cell" where
  "send_all_hosts [] m st = st"
| "send_all_hosts (c # cs) m st = send_all_hosts cs m (send_msg c m st)"

definition cell_drain :: "cell \<Rightarrow> cell" where
  "cell_drain st =
     (if cl_closed st \<or> cl_draining st then st
      else send_all_hosts (map snd (cl_hosts st)) DrainMsg (st\<lparr>cl_draining := True\<rparr>))"

fun close_all :: "nat list \<Rightarrow> cell \<Rightarrow> cell" where
  "close_all [] st = st"
| "close_all (c # cs) st = close_all cs (close_conn c st)"

fun clear_timers :: "nat list \<Rightarrow> cell \<Rightarrow> cell" where
  "clear_timers [] st = st"
| "clear_timers (h # hs) st = clear_timers hs (clear_timer h st)"

definition cell_close :: "cell \<Rightarrow> cell" where
  "cell_close st =
     (if cl_closed st then st
      else
        let ps = map snd (cl_pending st);
            st = st\<lparr>cl_closed := True\<rparr>;
            st = close_all (map pb_controller ps) (clear_timers (map pb_timer ps) st);
            st = st\<lparr>cl_pending := []\<rparr>;
            st = close_all (concat (map (\<lambda>b. [br_controller b, br_host b]) (cl_bridges st))) st;
            st = st\<lparr>cl_bridges := []\<rparr>;
            st = close_all (map snd (cl_hosts st)) st
        in st\<lparr>cl_hosts := []\<rparr>)"

definition registeredHosts :: "cell \<Rightarrow> string list" where
  "registeredHosts st = akeys (cl_hosts st)"

definition pendingBridges :: "cell \<Rightarrow> nat" where
  "pendingBridges st = length (cl_pending st)"

definition activeBridges :: "cell \<Rightarrow> nat" where
  "activeBridges st = length (cl_bridges st)"

subsection \<open>Events\<close>

text \<open>What the runtime may do next. A lookup settles once; a timer fires once, and only if it
  has not been cleared. A rejected lookup fails the connection.\<close>

datatype event =
    Accept
  | Inbound nat bytes
  | PeerClose nat
  | KeySettles nat string "bytes option" bytes bytes
  | TicketSettles nat string "ticket_record option" nat bytes
  | LookupRejects waiting
  | TimerFires nat
  | Drain
  | CloseCell

fun cell_step :: "crypto \<Rightarrow> codec \<Rightarrow> event \<Rightarrow> cell \<Rightarrow> cell option" where
  "cell_step C J Accept st = Some (accept st)"
| "cell_step C J (Inbound c bs) st =
     (if c < cl_next st then conn_receive C J c bs st else None)"
| "cell_step C J (PeerClose c) st = (if c < cl_next st then Some (detach c st) else None)"
| "cell_step C J (KeySettles c h pub secret nonce) st =
     (if StaticKeyOf c h \<in> set (cl_waiting st)
      then Some (registrationKey C c h pub secret nonce
        (st\<lparr>cl_waiting := remove1 (StaticKeyOf c h) (cl_waiting st)\<rparr>))
      else None)"
| "cell_step C J (TicketSettles c t rec now nonce) st =
     (if TicketOf c t \<in> set (cl_waiting st)
      then Some (controllerTicket c t rec now nonce
        (st\<lparr>cl_waiting := remove1 (TicketOf c t) (cl_waiting st)\<rparr>))
      else None)"
| "cell_step C J (LookupRejects w) st =
     (if w \<in> set (cl_waiting st)
      then Some (fail_conn (case w of StaticKeyOf c h \<Rightarrow> c | TicketOf c t \<Rightarrow> c)
        (st\<lparr>cl_waiting := remove1 w (cl_waiting st)\<rparr>))
      else None)"
| "cell_step C J (TimerFires h) st =
     (case aget (cl_timers st) h of
        None \<Rightarrow> None
      | Some t \<Rightarrow> Some (onBridgeTimeout t (clear_timer h st)))"
| "cell_step C J Drain st = Some (cell_drain st)"
| "cell_step C J CloseCell st = Some (cell_close st)"

end
