(* ===== verification/CellInv.thy ===== *)
theory CellInv
  imports Cell
begin

text \<open>
  The cell's invariant: every registered host is a control connection under its own id and holds
  its data-leg key; every pending bridge waits on an open controller connection; raw handlers
  come in pairs, so the bytes of one end can only reach the other end of the same ticket; the
  used-ticket memory is bounded. Everything that only takes things down is summarised once by
  \<open>taken_down\<close>, and the invariant is kept by it.
\<close>

named_theorems cell_simps "field reads over the cell's primitive updates"

declare frames_loop.simps [simp del]

subsection \<open>Primitive updates\<close>

lemma logged_simps [simp]:
  "cl_conns (logged e st) = cl_conns st" "cl_next (logged e st) = cl_next st"
  "cl_hosts (logged e st) = cl_hosts st" "cl_pending (logged e st) = cl_pending st"
  "cl_bridges (logged e st) = cl_bridges st" "cl_used (logged e st) = cl_used st"
  "cl_waiting (logged e st) = cl_waiting st" "cl_timers (logged e st) = cl_timers st"
  "cl_closed (logged e st) = cl_closed st" "cl_cellId (logged e st) = cl_cellId st"
  "cl_draining (logged e st) = cl_draining st" "cl_nextTimer (logged e st) = cl_nextTimer st"
  "cl_out (logged e st) = cl_out st @ [e]"
  by (simp_all add: logged_def)

lemma set_conn_simps [simp]:
  "cl_conns (set_conn c f st) = (cl_conns st)(c := f (cl_conns st c))"
  "cl_next (set_conn c f st) = cl_next st"
  "cl_hosts (set_conn c f st) = cl_hosts st" "cl_pending (set_conn c f st) = cl_pending st"
  "cl_bridges (set_conn c f st) = cl_bridges st" "cl_used (set_conn c f st) = cl_used st"
  "cl_waiting (set_conn c f st) = cl_waiting st" "cl_timers (set_conn c f st) = cl_timers st"
  "cl_closed (set_conn c f st) = cl_closed st" "cl_cellId (set_conn c f st) = cl_cellId st"
  "cl_draining (set_conn c f st) = cl_draining st" "cl_nextTimer (set_conn c f st) = cl_nextTimer st"
  "cl_out (set_conn c f st) = cl_out st"
  by (simp_all add: set_conn_def)

lemma send_msg_simps [simp]:
  "cl_conns (send_msg c m st) = cl_conns st" "cl_next (send_msg c m st) = cl_next st"
  "cl_hosts (send_msg c m st) = cl_hosts st" "cl_pending (send_msg c m st) = cl_pending st"
  "cl_bridges (send_msg c m st) = cl_bridges st" "cl_used (send_msg c m st) = cl_used st"
  "cl_waiting (send_msg c m st) = cl_waiting st" "cl_timers (send_msg c m st) = cl_timers st"
  "cl_closed (send_msg c m st) = cl_closed st" "cl_cellId (send_msg c m st) = cl_cellId st"
  "cl_draining (send_msg c m st) = cl_draining st" "cl_nextTimer (send_msg c m st) = cl_nextTimer st"
  by (simp_all add: send_msg_def)

lemma send_raw_simps [simp]:
  "cl_conns (send_raw c m st) = cl_conns st" "cl_next (send_raw c m st) = cl_next st"
  "cl_hosts (send_raw c m st) = cl_hosts st" "cl_pending (send_raw c m st) = cl_pending st"
  "cl_bridges (send_raw c m st) = cl_bridges st" "cl_used (send_raw c m st) = cl_used st"
  "cl_waiting (send_raw c m st) = cl_waiting st" "cl_timers (send_raw c m st) = cl_timers st"
  "cl_closed (send_raw c m st) = cl_closed st" "cl_cellId (send_raw c m st) = cl_cellId st"
  "cl_draining (send_raw c m st) = cl_draining st" "cl_nextTimer (send_raw c m st) = cl_nextTimer st"
  by (simp_all add: send_raw_def)

lemma close_conn_simps [simp]:
  "cl_conns (close_conn c st) =
     (cl_conns st)(c := (cl_conns st c)\<lparr>cn_outer := (cn_outer (cl_conns st c))\<lparr>oc_closed := True\<rparr>\<rparr>)"
  "cl_next (close_conn c st) = cl_next st"
  "cl_hosts (close_conn c st) = cl_hosts st" "cl_pending (close_conn c st) = cl_pending st"
  "cl_bridges (close_conn c st) = cl_bridges st" "cl_used (close_conn c st) = cl_used st"
  "cl_waiting (close_conn c st) = cl_waiting st" "cl_timers (close_conn c st) = cl_timers st"
  "cl_closed (close_conn c st) = cl_closed st" "cl_cellId (close_conn c st) = cl_cellId st"
  "cl_draining (close_conn c st) = cl_draining st" "cl_nextTimer (close_conn c st) = cl_nextTimer st"
  by (auto simp: close_conn_def conn_closed_def fun_eq_iff)

lemma clear_timer_simps [simp]:
  "cl_conns (clear_timer h st) = cl_conns st" "cl_next (clear_timer h st) = cl_next st"
  "cl_hosts (clear_timer h st) = cl_hosts st" "cl_pending (clear_timer h st) = cl_pending st"
  "cl_bridges (clear_timer h st) = cl_bridges st" "cl_used (clear_timer h st) = cl_used st"
  "cl_waiting (clear_timer h st) = cl_waiting st" "cl_timers (clear_timer h st) = adel h (cl_timers st)"
  "cl_closed (clear_timer h st) = cl_closed st" "cl_cellId (clear_timer h st) = cl_cellId st"
  "cl_draining (clear_timer h st) = cl_draining st" "cl_nextTimer (clear_timer h st) = cl_nextTimer st"
  "cl_out (clear_timer h st) = cl_out st"
  by (simp_all add: clear_timer_def)

text \<open>Bytes handed to a raw handler change nothing but the log.\<close>

lemma raw_effects_deliver_simps [cell_simps]:
  "cl_conns (raw_effects c (map (DeliverRaw p) bss) st) = cl_conns st"
  "cl_next (raw_effects c (map (DeliverRaw p) bss) st) = cl_next st"
  "cl_hosts (raw_effects c (map (DeliverRaw p) bss) st) = cl_hosts st"
  "cl_pending (raw_effects c (map (DeliverRaw p) bss) st) = cl_pending st"
  "cl_bridges (raw_effects c (map (DeliverRaw p) bss) st) = cl_bridges st"
  "cl_used (raw_effects c (map (DeliverRaw p) bss) st) = cl_used st"
  "cl_waiting (raw_effects c (map (DeliverRaw p) bss) st) = cl_waiting st"
  "cl_timers (raw_effects c (map (DeliverRaw p) bss) st) = cl_timers st"
  "cl_closed (raw_effects c (map (DeliverRaw p) bss) st) = cl_closed st"
  "cl_cellId (raw_effects c (map (DeliverRaw p) bss) st) = cl_cellId st"
  "cl_draining (raw_effects c (map (DeliverRaw p) bss) st) = cl_draining st"
  "cl_nextTimer (raw_effects c (map (DeliverRaw p) bss) st) = cl_nextTimer st"
  by (induction bss arbitrary: st) simp_all

subsection \<open>The invariant\<close>

fun flip :: "bridge_direction \<Rightarrow> bridge_direction" where
  "flip ControllerToHost = HostToController"
| "flip HostToController = ControllerToHost"

fun dir_role :: "bridge_direction \<Rightarrow> conn_role" where
  "dir_role ControllerToHost = ControllerData"
| "dir_role HostToController = HostData"

definition outer_ok_conn :: "pipe outer \<Rightarrow> bool" where
  "outer_ok_conn o1 \<longleftrightarrow>
     buffer_ok o1 \<and> (oc_raw o1 \<longleftrightarrow> oc_handler o1 \<noteq> None) \<and> oc_buffer o1 = []"

definition conn_ok :: "conn \<Rightarrow> bool" where
  "conn_ok k \<longleftrightarrow>
     outer_ok_conn (cn_outer k) \<and>
     (cn_role k = Unclassified \<longrightarrow> cn_hostId k = None \<and> cn_challenge k = None) \<and>
     (cn_role k \<in> {Unclassified, ControlPending, Control} \<longrightarrow>
        cn_ticket k = None \<and> oc_handler (cn_outer k) = None) \<and>
     (cn_role k = ControllerData \<and> oc_handler (cn_outer k) \<noteq> None \<longrightarrow> cn_ticket k \<noteq> None) \<and>
     (cn_role k = Control \<longrightarrow> cn_challenge k = None) \<and>
     (cn_challenge k \<noteq> None \<longrightarrow> cn_role k = ControlPending \<and> cn_hostId k \<noteq> None \<and> cn_static k \<noteq> None)"

definition hosts_ok :: "cell \<Rightarrow> bool" where
  "hosts_ok st \<longleftrightarrow>
     (\<forall>h c. aget (cl_hosts st) h = Some c \<longrightarrow>
        c < cl_next st \<and> cn_role (cl_conns st c) = Control \<and> cn_hostId (cl_conns st c) = Some h \<and>
        cn_dataKey (cl_conns st c) \<noteq> None)"

definition pending_ok :: "cell \<Rightarrow> bool" where
  "pending_ok st \<longleftrightarrow>
     (\<forall>t p. aget (cl_pending st) t = Some p \<longrightarrow>
        pb_controller p < cl_next st \<and> \<not> conn_closed st (pb_controller p) \<and>
        cn_role (cl_conns st (pb_controller p)) = ControllerData \<and>
        cn_ticket (cl_conns st (pb_controller p)) = Some t \<and>
        cn_hostId (cl_conns st (pb_controller p)) = Some (pb_hostId p) \<and>
        oc_handler (cn_outer (cl_conns st (pb_controller p))) = None)"

definition bridges_ok :: "cell \<Rightarrow> bool" where
  "bridges_ok st \<longleftrightarrow>
     (\<forall>b \<in> set (cl_bridges st).
        cn_bridge (cl_conns st (br_controller b)) = Some b \<and> cn_bridge (cl_conns st (br_host b)) = Some b \<and>
        oc_handler (cn_outer (cl_conns st (br_controller b))) =
          Some \<lparr>pp_ticket = br_ticket b, pp_dir = ControllerToHost, pp_peer = br_host b\<rparr> \<and>
        oc_handler (cn_outer (cl_conns st (br_host b))) =
          Some \<lparr>pp_ticket = br_ticket b, pp_dir = HostToController, pp_peer = br_controller b\<rparr>)"

text \<open>Raw handlers pair up: each names the peer whose handler names it back, under one ticket
  and one host, a controller's data connection against a host's.\<close>

definition pairs_ok :: "cell \<Rightarrow> bool" where
  "pairs_ok st \<longleftrightarrow>
     (\<forall>c p. oc_handler (cn_outer (cl_conns st c)) = Some p \<longrightarrow>
        pp_peer p \<noteq> c \<and>
        oc_handler (cn_outer (cl_conns st (pp_peer p))) =
          Some \<lparr>pp_ticket = pp_ticket p, pp_dir = flip (pp_dir p), pp_peer = c\<rparr> \<and>
        cn_role (cl_conns st c) = dir_role (pp_dir p) \<and>
        cn_ticket (cl_conns st c) = Some (pp_ticket p) \<and>
        cn_hostId (cl_conns st c) = cn_hostId (cl_conns st (pp_peer p)))"

fun waits :: "waiting \<Rightarrow> nat" where
  "waits (StaticKeyOf c h) = c"
| "waits (TicketOf c t) = c"

fun wait_ok :: "(nat \<Rightarrow> conn) \<Rightarrow> waiting \<Rightarrow> bool" where
  "wait_ok cs (StaticKeyOf c h) =
     (cn_role (cs c) = ControlPending \<and> cn_hostId (cs c) = None \<and> cn_challenge (cs c) = None)"
| "wait_ok cs (TicketOf c t) = (cn_role (cs c) = ControllerData \<and> cn_ticket (cs c) = None)"

definition waiting_ok :: "cell \<Rightarrow> bool" where
  "waiting_ok st \<longleftrightarrow>
     distinct (map waits (cl_waiting st)) \<and>
     (\<forall>w \<in> set (cl_waiting st). waits w < cl_next st \<and> wait_ok (cl_conns st) w)"

definition used_ok :: "cell \<Rightarrow> bool" where
  "used_ok st \<longleftrightarrow> distinct (cl_used st) \<and> length (cl_used st) \<le> MAX_USED_TICKETS"

definition cell_inv :: "cell \<Rightarrow> bool" where
  "cell_inv st \<longleftrightarrow>
     (\<forall>c. conn_ok (cl_conns st c)) \<and> (\<forall>c \<ge> cl_next st. cl_conns st c = new_conn) \<and>
     hosts_ok st \<and> pending_ok st \<and> bridges_ok st \<and> pairs_ok st \<and> waiting_ok st \<and> used_ok st"

lemma conn_ok_new [simp]: "conn_ok new_conn"
  by (simp add: conn_ok_def outer_ok_conn_def new_conn_def) (simp add: new_outer_def)

lemma cell_inv_init [simp]: "cell_inv (createCell cellId)"
  by (simp add: cell_inv_def createCell_def hosts_ok_def pending_ok_def bridges_ok_def pairs_ok_def
      waiting_ok_def used_ok_def) (simp add: new_conn_def new_outer_def)

subsection \<open>Teardown\<close>

text \<open>The part of a connection a teardown leaves alone: everything but the closed flag, the bridge
  and the data key.\<close>

definition core :: "conn \<Rightarrow> conn" where
  "core k = k\<lparr>cn_outer := (cn_outer k)\<lparr>oc_closed := False\<rparr>, cn_bridge := None, cn_dataKey := None\<rparr>"

definition taken_down :: "cell \<Rightarrow> cell \<Rightarrow> bool" where
  "taken_down st st' \<longleftrightarrow>
     (\<forall>k. core (cl_conns st' k) = core (cl_conns st k)) \<and>
     (\<forall>k \<ge> cl_next st. cl_conns st' k = cl_conns st k) \<and>
     (\<forall>h c. aget (cl_hosts st') h = Some c \<longrightarrow>
        aget (cl_hosts st) h = Some c \<and> cn_dataKey (cl_conns st' c) = cn_dataKey (cl_conns st c)) \<and>
     (\<forall>t p. aget (cl_pending st') t = Some p \<longrightarrow>
        aget (cl_pending st) t = Some p \<and> \<not> conn_closed st' (pb_controller p)) \<and>
     (\<forall>b \<in> set (cl_bridges st'). b \<in> set (cl_bridges st) \<and>
        cn_bridge (cl_conns st' (br_controller b)) = Some b \<and> cn_bridge (cl_conns st' (br_host b)) = Some b) \<and>
     cl_next st' = cl_next st \<and> cl_used st' = cl_used st \<and> cl_waiting st' = cl_waiting st \<and>
     cl_cellId st' = cl_cellId st"

lemma core_fields:
  "cn_role (core k) = cn_role k" "cn_hostId (core k) = cn_hostId k" "cn_static (core k) = cn_static k"
  "cn_challenge (core k) = cn_challenge k" "cn_ticket (core k) = cn_ticket k"
  "oc_reader (cn_outer (core k)) = oc_reader (cn_outer k)" "oc_raw (cn_outer (core k)) = oc_raw (cn_outer k)"
  "oc_handler (cn_outer (core k)) = oc_handler (cn_outer k)"
  "oc_buffer (cn_outer (core k)) = oc_buffer (cn_outer k)"
  "oc_buffered (cn_outer (core k)) = oc_buffered (cn_outer k)"
  by (simp_all add: core_def)

lemma coreD:
  assumes "core k' = core k"
  shows "cn_role k' = cn_role k" "cn_hostId k' = cn_hostId k" "cn_static k' = cn_static k"
    "cn_challenge k' = cn_challenge k" "cn_ticket k' = cn_ticket k"
    "oc_reader (cn_outer k') = oc_reader (cn_outer k)" "oc_raw (cn_outer k') = oc_raw (cn_outer k)"
    "oc_handler (cn_outer k') = oc_handler (cn_outer k)" "oc_buffer (cn_outer k') = oc_buffer (cn_outer k)"
    "oc_buffered (cn_outer k') = oc_buffered (cn_outer k)"
  using arg_cong [OF assms, of cn_role] arg_cong [OF assms, of cn_hostId] arg_cong [OF assms, of cn_static]
    arg_cong [OF assms, of cn_challenge] arg_cong [OF assms, of cn_ticket]
    arg_cong [OF assms, of "\<lambda>k. oc_reader (cn_outer k)"] arg_cong [OF assms, of "\<lambda>k. oc_raw (cn_outer k)"]
    arg_cong [OF assms, of "\<lambda>k. oc_handler (cn_outer k)"]
    arg_cong [OF assms, of "\<lambda>k. oc_buffer (cn_outer k)"]
    arg_cong [OF assms, of "\<lambda>k. oc_buffered (cn_outer k)"]
  unfolding core_fields by simp_all

lemma conn_ok_core:
  assumes "core k' = core k"
  shows "conn_ok k' = conn_ok k"
  by (simp add: conn_ok_def outer_ok_conn_def buffer_ok_def coreD [OF assms])

lemma wait_ok_core:
  assumes "\<And>c. core (cs' c) = core (cs c)"
  shows "wait_ok cs' w = wait_ok cs w"
  by (cases w) (simp_all add: coreD [OF assms])

lemma taken_down_inv:
  assumes inv: "cell_inv st" and t: "taken_down st st'"
  shows "cell_inv st'"
proof -
  have core: "core (cl_conns st' k) = core (cl_conns st k)" for k using t by (simp add: taken_down_def)
  note c = coreD [OF core]
  have "\<forall>c. conn_ok (cl_conns st' c)" using inv by (simp add: cell_inv_def conn_ok_core [OF core])
  moreover have "\<forall>c \<ge> cl_next st'. cl_conns st' c = new_conn"
    using inv t by (simp add: cell_inv_def taken_down_def)
  moreover have "hosts_ok st'"
    unfolding hosts_ok_def
  proof (intro allI impI)
    fix h k assume "aget (cl_hosts st') h = Some k"
    then have h: "aget (cl_hosts st) h = Some k" "cn_dataKey (cl_conns st' k) = cn_dataKey (cl_conns st k)"
      and n: "cl_next st' = cl_next st" using t by (simp_all add: taken_down_def)
    from h(1) inv show "k < cl_next st' \<and> cn_role (cl_conns st' k) = Control \<and>
        cn_hostId (cl_conns st' k) = Some h \<and> cn_dataKey (cl_conns st' k) \<noteq> None"
      by (simp add: cell_inv_def hosts_ok_def h(2) c n)
  qed
  moreover have "pending_ok st'"
    unfolding pending_ok_def
  proof (intro allI impI)
    fix u p assume "aget (cl_pending st') u = Some p"
    then have p: "aget (cl_pending st) u = Some p" "\<not> conn_closed st' (pb_controller p)"
      and n: "cl_next st' = cl_next st" using t by (simp_all add: taken_down_def)
    from p inv show "pb_controller p < cl_next st' \<and> \<not> conn_closed st' (pb_controller p) \<and>
        cn_role (cl_conns st' (pb_controller p)) = ControllerData \<and>
        cn_ticket (cl_conns st' (pb_controller p)) = Some u \<and>
        cn_hostId (cl_conns st' (pb_controller p)) = Some (pb_hostId p) \<and>
        oc_handler (cn_outer (cl_conns st' (pb_controller p))) = None"
      by (simp add: cell_inv_def pending_ok_def c n)
  qed
  moreover have "bridges_ok st'"
    unfolding bridges_ok_def
  proof (intro ballI)
    fix b assume "b \<in> set (cl_bridges st')"
    then have b: "b \<in> set (cl_bridges st)" "cn_bridge (cl_conns st' (br_controller b)) = Some b"
      "cn_bridge (cl_conns st' (br_host b)) = Some b" using t by (simp_all add: taken_down_def)
    from b inv show "cn_bridge (cl_conns st' (br_controller b)) = Some b \<and>
        cn_bridge (cl_conns st' (br_host b)) = Some b \<and>
        oc_handler (cn_outer (cl_conns st' (br_controller b))) =
          Some \<lparr>pp_ticket = br_ticket b, pp_dir = ControllerToHost, pp_peer = br_host b\<rparr> \<and>
        oc_handler (cn_outer (cl_conns st' (br_host b))) =
          Some \<lparr>pp_ticket = br_ticket b, pp_dir = HostToController, pp_peer = br_controller b\<rparr>"
      by (simp add: cell_inv_def bridges_ok_def c)
  qed
  moreover have "pairs_ok st' = pairs_ok st" by (simp only: pairs_ok_def c)
  then have "pairs_ok st'" using inv by (simp only: cell_inv_def)
  moreover have "waiting_ok st'"
    using inv t by (simp add: cell_inv_def taken_down_def waiting_ok_def wait_ok_core [OF core])
  moreover have "used_ok st'"
    using inv t by (simp add: cell_inv_def taken_down_def used_ok_def)
  ultimately show ?thesis unfolding cell_inv_def by blast
qed

lemma cell_invD:
  assumes "cell_inv st"
  shows "conn_ok (cl_conns st c)" "cl_next st \<le> c \<Longrightarrow> cl_conns st c = new_conn" "hosts_ok st" "pending_ok st"
    "bridges_ok st" "pairs_ok st" "waiting_ok st" "used_ok st"
  using assms unfolding cell_inv_def by blast+

text \<open>The invariant reads only these fields.\<close>

lemma cell_inv_fields:
  assumes "cl_conns st' = cl_conns st" "cl_next st' = cl_next st" "cl_hosts st' = cl_hosts st"
    "cl_pending st' = cl_pending st" "cl_bridges st' = cl_bridges st" "cl_waiting st' = cl_waiting st"
    "cl_used st' = cl_used st"
  shows "cell_inv st' = cell_inv st"
  unfolding cell_inv_def hosts_ok_def pending_ok_def bridges_ok_def pairs_ok_def waiting_ok_def used_ok_def
    conn_closed_def assms ..

lemma handler_old:
  assumes "cell_inv st" and "oc_handler (cn_outer (cl_conns st c)) \<noteq> None"
  shows "c < cl_next st"
proof (rule ccontr)
  assume "\<not> c < cl_next st"
  then have "cl_conns st c = new_conn" using cell_invD(2) [OF assms(1)] by simp
  then show False using assms(2) by (simp add: new_conn_def new_outer_def)
qed

subsection \<open>Closing and cleaning up\<close>

lemma taken_down_refl: "cell_inv st \<Longrightarrow> taken_down st st"
  using cell_invD(4,5) [of st] by (simp add: taken_down_def pending_ok_def bridges_ok_def)

text \<open>The live bridge a connection is in, and its other end.\<close>

definition live :: "cell \<Rightarrow> nat \<Rightarrow> bridge option" where
  "live st c = (case cn_bridge (cl_conns st c) of
     None \<Rightarrow> None | Some b \<Rightarrow> if b \<in> set (cl_bridges st) then Some b else None)"

definition other_end :: "nat \<Rightarrow> bridge \<Rightarrow> nat" where
  "other_end c b = (if br_controller b = c then br_host b else br_controller b)"

definition closed_end :: "conn \<Rightarrow> conn" where
  "closed_end k = k\<lparr>cn_bridge := None, cn_outer := (cn_outer k)\<lparr>oc_closed := True\<rparr>\<rparr>"

lemma cleanup_host_simps [cell_simps]:
  "cl_conns (cleanup_host c st) = cl_conns st" "cl_next (cleanup_host c st) = cl_next st"
  "cl_pending (cleanup_host c st) = cl_pending st" "cl_bridges (cleanup_host c st) = cl_bridges st"
  "cl_used (cleanup_host c st) = cl_used st" "cl_waiting (cleanup_host c st) = cl_waiting st"
  "cl_cellId (cleanup_host c st) = cl_cellId st" "cl_closed (cleanup_host c st) = cl_closed st"
  "aget (cl_hosts (cleanup_host c st)) h =
     (if cn_hostId (cl_conns st c) = Some h \<and> aget (cl_hosts st) h = Some c then None else aget (cl_hosts st) h)"
  by (auto simp: cleanup_host_def split: option.splits)

lemma cleanup_pending_simps [cell_simps]:
  "cl_conns (cleanup_pending c st) = cl_conns st" "cl_next (cleanup_pending c st) = cl_next st"
  "cl_hosts (cleanup_pending c st) = cl_hosts st" "cl_bridges (cleanup_pending c st) = cl_bridges st"
  "cl_used (cleanup_pending c st) = cl_used st" "cl_waiting (cleanup_pending c st) = cl_waiting st"
  "cl_cellId (cleanup_pending c st) = cl_cellId st" "cl_closed (cleanup_pending c st) = cl_closed st"
  "aget (cl_pending (cleanup_pending c st)) t =
     (case aget (cl_pending st) t of None \<Rightarrow> None
      | Some p \<Rightarrow> if cn_ticket (cl_conns st c) = Some t \<and> pb_controller p = c then None else Some p)"
  by (auto simp: cleanup_pending_def split: option.splits)

lemma cleanup_bridge_live:
  "cleanup_bridge c st =
     (case live st c of
        None \<Rightarrow> st
      | Some b \<Rightarrow> close_conn (other_end c b) (set_conn (other_end c b) (\<lambda>k. k\<lparr>cn_bridge := None\<rparr>)
          (st\<lparr>cl_bridges := filter (\<lambda>b'. b' \<noteq> b) (cl_bridges st)\<rparr>)))"
  by (cases "cn_bridge (cl_conns st c)") (simp_all add: cleanup_bridge_def live_def other_end_def Let_def)

lemma live_Some: "live st c = Some b \<longleftrightarrow> cn_bridge (cl_conns st c) = Some b \<and> b \<in> set (cl_bridges st)"
  by (auto simp: live_def split: option.splits)

lemma live_None: "live st c = None \<longleftrightarrow> set_option (cn_bridge (cl_conns st c)) \<inter> set (cl_bridges st) = {}"
  by (auto simp: live_def split: option.splits)

lemma cleanup_bridge_simps [cell_simps]:
  "cl_next (cleanup_bridge c st) = cl_next st" "cl_hosts (cleanup_bridge c st) = cl_hosts st"
  "cl_pending (cleanup_bridge c st) = cl_pending st" "cl_used (cleanup_bridge c st) = cl_used st"
  "cl_waiting (cleanup_bridge c st) = cl_waiting st" "cl_cellId (cleanup_bridge c st) = cl_cellId st"
  "cl_closed (cleanup_bridge c st) = cl_closed st"
  "cl_conns (cleanup_bridge c st) k =
     (case live st c of
        Some b \<Rightarrow> if k = other_end c b then closed_end (cl_conns st k) else cl_conns st k
      | None \<Rightarrow> cl_conns st k)"
  by (cases "live st c"; simp add: cleanup_bridge_live closed_end_def)+

lemma cleanup_bridge_set [cell_simps]:
  "set (cl_bridges (cleanup_bridge c st)) = set (cl_bridges st) - set_option (cn_bridge (cl_conns st c))"
proof (cases "live st c")
  case None
  then show ?thesis using live_None [of st c] by (auto simp: cleanup_bridge_live)
next
  case (Some b)
  then show ?thesis using live_Some [of st c b] by (auto simp: cleanup_bridge_live)
qed

lemma cleanup_simps [cell_simps]:
  "cl_next (cleanup c st) = cl_next st" "cl_used (cleanup c st) = cl_used st"
  "cl_waiting (cleanup c st) = cl_waiting st" "cl_cellId (cleanup c st) = cl_cellId st"
  "cl_closed (cleanup c st) = cl_closed st"
  "aget (cl_hosts (cleanup c st)) h =
     (if cn_hostId (cl_conns st c) = Some h \<and> aget (cl_hosts st) h = Some c then None else aget (cl_hosts st) h)"
  "aget (cl_pending (cleanup c st)) t =
     (case aget (cl_pending st) t of None \<Rightarrow> None
      | Some p \<Rightarrow> if cn_ticket (cl_conns st c) = Some t \<and> pb_controller p = c then None else Some p)"
  "set (cl_bridges (cleanup c st)) = set (cl_bridges st) - set_option (cn_bridge (cl_conns st c))"
  by (simp_all add: cleanup_def cell_simps split: option.splits)

lemma cleanup_conns:
  "cl_conns (cleanup c st) k =
     (let x = (case live st c of
        Some b \<Rightarrow> if k = other_end c b then closed_end (cl_conns st k) else cl_conns st k
      | None \<Rightarrow> cl_conns st k)
      in if k = c then x\<lparr>cn_bridge := None, cn_dataKey := None\<rparr> else x)"
proof -
  have "live (cleanup_pending c (cleanup_host c st)) c = live st c" by (simp add: live_def cell_simps split: option.splits)
  then show ?thesis by (cases "live st c") (simp_all add: cleanup_def cell_simps)
qed

lemma core_closed_end [simp]: "core (closed_end k) = core k"
  by (simp add: core_def closed_end_def)

lemma core_updates [simp]:
  "core (k\<lparr>cn_bridge := b\<rparr>) = core k" "core (k\<lparr>cn_dataKey := d\<rparr>) = core k"
  "core (k\<lparr>cn_outer := (cn_outer k)\<lparr>oc_closed := x\<rparr>\<rparr>) = core k"
  by (simp_all add: core_def)

lemma cleanup_core: "core (cl_conns (cleanup c st) k) = core (cl_conns st k)"
  by (simp add: cleanup_conns Let_def split: option.splits)

text \<open>Dropping a connection: clean up, then close.\<close>

lemma live_member:
  assumes "cell_inv st" and "live st c = Some b"
  shows "b \<in> set (cl_bridges st)" "cn_bridge (cl_conns st c) = Some b"
    "other_end c b \<in> {br_controller b, br_host b}"
    "oc_handler (cn_outer (cl_conns st (other_end c b))) \<noteq> None"
    "cn_bridge (cl_conns st (other_end c b)) = Some b"
proof -
  show b: "b \<in> set (cl_bridges st)" "cn_bridge (cl_conns st c) = Some b"
    using assms(2) by (simp_all add: live_Some)
  show o: "other_end c b \<in> {br_controller b, br_host b}" by (simp add: other_end_def)
  show "oc_handler (cn_outer (cl_conns st (other_end c b))) \<noteq> None"
    "cn_bridge (cl_conns st (other_end c b)) = Some b"
    using cell_invD(5) [OF assms(1)] b(1) o by (auto simp: bridges_ok_def)
qed

lemma pending_facts:
  assumes "cell_inv st" and "aget (cl_pending st) t = Some p"
  shows "pb_controller p < cl_next st" "\<not> conn_closed st (pb_controller p)"
    "cn_role (cl_conns st (pb_controller p)) = ControllerData"
    "cn_ticket (cl_conns st (pb_controller p)) = Some t"
    "cn_hostId (cl_conns st (pb_controller p)) = Some (pb_hostId p)"
    "oc_handler (cn_outer (cl_conns st (pb_controller p))) = None"
  using cell_invD(4) [OF assms(1), unfolded pending_ok_def, rule_format, OF assms(2)] by simp_all

lemma host_facts:
  assumes "cell_inv st" and "aget (cl_hosts st) h = Some c"
  shows "c < cl_next st" "cn_role (cl_conns st c) = Control" "cn_hostId (cl_conns st c) = Some h"
    "cn_dataKey (cl_conns st c) \<noteq> None"
  using cell_invD(3) [OF assms(1), unfolded hosts_ok_def, rule_format, OF assms(2)] by simp_all

lemma pending_not_live:
  assumes "cell_inv st" and "live st c = Some b" and "aget (cl_pending st) t = Some p"
  shows "pb_controller p \<noteq> other_end c b"
  using live_member(4) [OF assms(1,2)] pending_facts(6) [OF assms(1,3)] by metis

lemma dropped_conns:
  assumes "k \<noteq> c" and "\<And>b. live st c = Some b \<Longrightarrow> k \<noteq> other_end c b"
  shows "cl_conns (close_conn c (cleanup c st)) k = cl_conns st k"
  using assms by (cases "live st c") (simp_all add: cleanup_conns)

lemma dropped_bridge:
  assumes inv: "cell_inv st" and b: "b \<in> set (cl_bridges st)" "cn_bridge (cl_conns st c) \<noteq> Some b"
    and k: "cn_bridge (cl_conns st k) = Some b"
  shows "cl_conns (close_conn c (cleanup c st)) k = cl_conns st k"
proof (rule dropped_conns)
  show "k \<noteq> c" using b(2) k by auto
  fix b' assume l: "live st c = Some b'"
  then have "cn_bridge (cl_conns st (other_end c b')) = Some b'" by (rule live_member(5) [OF inv])
  moreover have "b' \<noteq> b" using l b(2) by (auto simp: live_Some)
  ultimately show "k \<noteq> other_end c b'" using k by auto
qed

lemma dropped_dataKey:
  assumes "k \<noteq> c"
  shows "cn_dataKey (cl_conns (close_conn c (cleanup c st)) k) = cn_dataKey (cl_conns st k)"
  using assms by (cases "live st c") (simp_all add: cleanup_conns closed_end_def)

lemma dropped_core: "core (cl_conns (close_conn c (cleanup c st)) k) = core (cl_conns st k)"
proof (cases "k = c")
  case True
  then show ?thesis by (simp add: cleanup_core)
next
  case False
  then show ?thesis by (simp add: cleanup_core)
qed

lemma taken_down_drop:
  assumes inv: "cell_inv st" and c: "c < cl_next st"
  shows "taken_down st (close_conn c (cleanup c st))"
  unfolding taken_down_def
proof (intro conjI allI impI ballI)
  let ?st' = "close_conn c (cleanup c st)"
  fix k show "core (cl_conns ?st' k) = core (cl_conns st k)" by (rule dropped_core)
next
  let ?st' = "close_conn c (cleanup c st)"
  fix k assume k: "cl_next st \<le> k"
  show "cl_conns ?st' k = cl_conns st k"
  proof (rule dropped_conns)
    show "k \<noteq> c" using k c by simp
    fix b assume "live st c = Some b"
    then show "k \<noteq> other_end c b" using live_member(4) [OF inv] handler_old [OF inv] k by fastforce
  qed
next
  let ?st' = "close_conn c (cleanup c st)"
  fix h k assume k: "aget (cl_hosts ?st') h = Some k"
  then have h: "aget (cl_hosts st) h = Some k" and n: "cn_hostId (cl_conns st c) \<noteq> Some h \<or> k \<noteq> c"
    by (auto simp: cell_simps split: if_splits)
  show "aget (cl_hosts st) h = Some k" by (rule h)
  have "cn_hostId (cl_conns st k) = Some h" by (rule host_facts(3) [OF inv h])
  then have "k \<noteq> c" using n by auto
  then show "cn_dataKey (cl_conns ?st' k) = cn_dataKey (cl_conns st k)" by (rule dropped_dataKey)
next
  let ?st' = "close_conn c (cleanup c st)"
  fix t p assume "aget (cl_pending ?st') t = Some p"
  then have p: "aget (cl_pending st) t = Some p" and n: "cn_ticket (cl_conns st c) \<noteq> Some t \<or> pb_controller p \<noteq> c"
    by (auto simp: cell_simps split: option.splits if_splits)
  show "aget (cl_pending st) t = Some p" by (rule p)
  have "cl_conns ?st' (pb_controller p) = cl_conns st (pb_controller p)"
    using n pending_facts(4) [OF inv p] pending_not_live [OF inv _ p] by (intro dropped_conns) auto
  then show "\<not> conn_closed ?st' (pb_controller p)"
    using pending_facts(2) [OF inv p] by (simp add: conn_closed_def)
next
  let ?st' = "close_conn c (cleanup c st)"
  fix b assume "b \<in> set (cl_bridges ?st')"
  then have b: "b \<in> set (cl_bridges st)" "cn_bridge (cl_conns st c) \<noteq> Some b"
    by (auto simp: cell_simps)
  then show "b \<in> set (cl_bridges st)" by simp
  have m: "cn_bridge (cl_conns st (br_controller b)) = Some b" "cn_bridge (cl_conns st (br_host b)) = Some b"
    using cell_invD(5) [OF inv] b(1) by (simp_all add: bridges_ok_def)
  show "cn_bridge (cl_conns ?st' (br_controller b)) = Some b" "cn_bridge (cl_conns ?st' (br_host b)) = Some b"
    using m by (simp_all only: dropped_bridge [OF inv b m(1)] dropped_bridge [OF inv b m(2)])
qed (simp_all add: cell_simps)

lemma inv_detach: "cell_inv st \<Longrightarrow> c < cl_next st \<Longrightarrow> cell_inv (detach c st)"
  unfolding detach_def by (rule taken_down_inv [OF _ taken_down_drop])

lemma inv_send_msg [simp]: "cell_inv (send_msg c m st) = cell_inv st"
  by (rule cell_inv_fields) simp_all

lemma inv_refuse: "cell_inv st \<Longrightarrow> c < cl_next st \<Longrightarrow> cell_inv (refuse c code st)"
  unfolding refuse_def by (rule taken_down_inv [OF _ taken_down_drop]) simp_all

lemma inv_fail: "cell_inv st \<Longrightarrow> c < cl_next st \<Longrightarrow> cell_inv (fail_conn c st)"
  unfolding fail_conn_def by (rule inv_refuse)

end
