(* ===== verification/CellReach.thy ===== *)
theory CellReach
  imports CellSteps
begin

text \<open>
  The splice, the inbound loop, the cell's own operations, and the reachable states: the
  invariant holds in all of them and an event never gets stuck inside the loop.
\<close>

subsection \<open>The splice\<close>

lemma onRaw_fresh:
  assumes "oc_buffer o1 = []"
  shows "onRaw h o1 = (o1\<lparr>oc_handler := Some h, oc_buffer := [], oc_buffered := 0\<rparr>, [])"
  using assms by (simp add: onRaw_def)

text \<open>With a handler registered, going raw hands the reader's leftover to it.\<close>

definition drained :: "'h outer \<Rightarrow> 'h outer" where
  "drained o1 = o1\<lparr>oc_raw := True, oc_reader := snd (drainRemaining (oc_reader o1))\<rparr>"

lemma toRaw_handled:
  assumes "oc_handler o1 = Some h" and "\<not> oc_raw o1"
  shows "toRaw o1 = (drained o1, map (DeliverRaw h)
    (if fst (drainRemaining (oc_reader o1)) = [] then [] else [fst (drainRemaining (oc_reader o1))]))"
  using assms by (simp add: toRaw_def deliverRaw_def drained_def case_prod_beta Let_def)

text \<open>The two ends after the splice.\<close>

definition spliced :: "bridge \<Rightarrow> pipe \<Rightarrow> conn \<Rightarrow> conn" where
  "spliced b p k =
     k\<lparr>cn_bridge := Some b,
       cn_outer := drained ((cn_outer k)\<lparr>oc_handler := Some p, oc_buffer := [], oc_buffered := 0\<rparr>)\<rparr>"

definition to_host :: "bridge \<Rightarrow> pipe" where
  "to_host b = \<lparr>pp_ticket = br_ticket b, pp_dir = ControllerToHost, pp_peer = br_host b\<rparr>"

definition to_controller :: "bridge \<Rightarrow> pipe" where
  "to_controller b = \<lparr>pp_ticket = br_ticket b, pp_dir = HostToController, pp_peer = br_controller b\<rparr>"

lemma on_outer_conns:
  assumes "op (cn_outer (cl_conns st c)) = (o', map (DeliverRaw p) bss)"
  shows "cl_conns (on_outer c op st) = (cl_conns st)(c := (cl_conns st c)\<lparr>cn_outer := o'\<rparr>)"
    "cl_next (on_outer c op st) = cl_next st" "cl_hosts (on_outer c op st) = cl_hosts st"
    "cl_pending (on_outer c op st) = cl_pending st" "cl_bridges (on_outer c op st) = cl_bridges st"
    "cl_used (on_outer c op st) = cl_used st" "cl_waiting (on_outer c op st) = cl_waiting st"
    "cl_cellId (on_outer c op st) = cl_cellId st"
  by (simp_all add: on_outer_def assms cell_simps)

lemma splice_fields:
  assumes ac: "a \<noteq> c"
    and a: "oc_buffer (cn_outer (cl_conns st a)) = []" "\<not> oc_raw (cn_outer (cl_conns st a))"
    and c: "oc_buffer (cn_outer (cl_conns st c)) = []" "\<not> oc_raw (cn_outer (cl_conns st c))"
    and b: "b = \<lparr>br_ticket = t, br_controller = a, br_host = c\<rparr>"
  shows "cl_conns (splice a c t st) =
      (cl_conns st)(a := spliced b (to_host b) (cl_conns st a), c := spliced b (to_controller b) (cl_conns st c))"
    and "cl_next (splice a c t st) = cl_next st" "cl_hosts (splice a c t st) = cl_hosts st"
    "cl_pending (splice a c t st) = cl_pending st" "cl_bridges (splice a c t st) = cl_bridges st @ [b]"
    "cl_used (splice a c t st) = cl_used st" "cl_waiting (splice a c t st) = cl_waiting st"
    "cl_cellId (splice a c t st) = cl_cellId st"
proof -
  define s1 where "s1 = set_conn c (\<lambda>k. k\<lparr>cn_bridge := Some b\<rparr>) (set_conn a (\<lambda>k. k\<lparr>cn_bridge := Some b\<rparr>)
    (st\<lparr>cl_bridges := cl_bridges st @ [b]\<rparr>))"
  define s2 where "s2 = on_outer a (onRaw (to_host b)) s1"
  define s3 where "s3 = on_outer c (onRaw (to_controller b)) s2"
  define s4 where "s4 = send_msg c DataReady (send_msg a DataReady s3)"
  define s5 where "s5 = on_outer a toRaw s4"
  have "splice a c t st = on_outer c toRaw s5"
    by (simp add: splice_def s1_def s2_def s3_def s4_def s5_def b to_host_def to_controller_def Let_def)
  note sp = this
  note s2 = on_outer_conns [of "onRaw (to_host b)" s1 a _ undefined "[]", unfolded list.map(1),
      OF onRaw_fresh, folded s2_def]
  have f1: "cl_conns s1 = (cl_conns st)(a := (cl_conns st a)\<lparr>cn_bridge := Some b\<rparr>,
      c := (cl_conns st c)\<lparr>cn_bridge := Some b\<rparr>)"
    using ac by (auto simp: s1_def fun_eq_iff)
  have f2: "cl_conns s2 = (cl_conns st)(a := (cl_conns st a)\<lparr>cn_bridge := Some b, cn_outer := (cn_outer (cl_conns st a))
        \<lparr>oc_handler := Some (to_host b), oc_buffer := [], oc_buffered := 0\<rparr>\<rparr>,
      c := (cl_conns st c)\<lparr>cn_bridge := Some b\<rparr>)"
    using ac a s2(1) by (auto simp: f1 fun_eq_iff)
  note s3 = on_outer_conns [of "onRaw (to_controller b)" s2 c _ undefined "[]", unfolded list.map(1),
      OF onRaw_fresh, folded s3_def]
  have f3: "cl_conns s3 = (cl_conns st)(a := (cl_conns st a)\<lparr>cn_bridge := Some b, cn_outer := (cn_outer (cl_conns st a))
        \<lparr>oc_handler := Some (to_host b), oc_buffer := [], oc_buffered := 0\<rparr>\<rparr>,
      c := (cl_conns st c)\<lparr>cn_bridge := Some b, cn_outer := (cn_outer (cl_conns st c))
        \<lparr>oc_handler := Some (to_controller b), oc_buffer := [], oc_buffered := 0\<rparr>\<rparr>)"
    using ac c s3(1) by (auto simp: f2 fun_eq_iff)
  have f4: "cl_conns s4 = cl_conns s3" by (simp add: s4_def)
  note s5 = on_outer_conns [of toRaw s4 a, OF toRaw_handled, folded s5_def]
  have f5: "cl_conns s5 = (cl_conns st)(a := spliced b (to_host b) (cl_conns st a),
      c := (cl_conns st c)\<lparr>cn_bridge := Some b, cn_outer := (cn_outer (cl_conns st c))
        \<lparr>oc_handler := Some (to_controller b), oc_buffer := [], oc_buffered := 0\<rparr>\<rparr>)"
    using ac a s5(1) by (auto simp: f4 f3 fun_eq_iff spliced_def)
  note s6 = on_outer_conns [of toRaw s5 c, OF toRaw_handled, folded sp]
  show "cl_conns (splice a c t st) =
      (cl_conns st)(a := spliced b (to_host b) (cl_conns st a), c := spliced b (to_controller b) (cl_conns st c))"
    using ac c s6(1) by (auto simp: f5 fun_eq_iff spliced_def)
  show "cl_next (splice a c t st) = cl_next st" "cl_hosts (splice a c t st) = cl_hosts st"
    "cl_pending (splice a c t st) = cl_pending st" "cl_bridges (splice a c t st) = cl_bridges st @ [b]"
    "cl_used (splice a c t st) = cl_used st" "cl_waiting (splice a c t st) = cl_waiting st"
    "cl_cellId (splice a c t st) = cl_cellId st"
    using ac a c s6(2-) s5(2-) s3(2-) s2(2-) by (simp_all add: f5 f4 f3 f2 f1 s4_def s1_def)
qed

lemma outer_ok_spliced:
  assumes "outer_ok_conn o1"
  shows "outer_ok_conn (drained (o1\<lparr>oc_handler := Some p, oc_buffer := [], oc_buffered := 0\<rparr>))"
  using assms drain_all [of "oc_reader o1"] by (simp add: outer_ok_conn_def buffer_ok_def drained_def)

lemma spliced_simps [simp]:
  "cn_role (spliced b p k) = cn_role k" "cn_hostId (spliced b p k) = cn_hostId k"
  "cn_ticket (spliced b p k) = cn_ticket k" "cn_challenge (spliced b p k) = cn_challenge k"
  "cn_static (spliced b p k) = cn_static k" "cn_dataKey (spliced b p k) = cn_dataKey k"
  "cn_bridge (spliced b p k) = Some b" "oc_handler (cn_outer (spliced b p k)) = Some p"
  "oc_raw (cn_outer (spliced b p k))" "oc_closed (cn_outer (spliced b p k)) = oc_closed (cn_outer k)"
  by (simp_all add: spliced_def drained_def)

lemma conn_ok_spliced:
  assumes "conn_ok k" and "cn_role k = ControllerData \<or> cn_role k = HostData" and "cn_ticket k = Some t"
  shows "conn_ok (spliced b p k)"
proof -
  have "outer_ok_conn (cn_outer (spliced b p k))"
    using assms(1) unfolding spliced_def by (simp add: conn_ok_def outer_ok_spliced)
  then show ?thesis using assms(2)
    by (elim disjE) (use assms(1,3) in \<open>simp_all add: conn_ok_def\<close>)
qed

lemma inv_splice:
  assumes inv: "cell_inv st" and a: "a < cl_next st" "cn_role (cl_conns st a) = ControllerData"
      "cn_ticket (cl_conns st a) = Some t" "oc_handler (cn_outer (cl_conns st a)) = None"
    and c: "c < cl_next st" "cn_role (cl_conns st c) = HostData"
      "cn_ticket (cl_conns st c) = Some t" "oc_handler (cn_outer (cl_conns st c)) = None"
    and h: "cn_hostId (cl_conns st a) = cn_hostId (cl_conns st c)"
    and free: "aget (cl_pending st) t = None" "\<And>w. w \<in> set (cl_waiting st) \<Longrightarrow> waits w \<noteq> c"
  shows "cell_inv (splice a c t st)"
proof -
  define b where "b = \<lparr>br_ticket = t, br_controller = a, br_host = c\<rparr>"
  have ac: "a \<noteq> c" using a(2) c(2) by auto
  have oka: "conn_ok (cl_conns st a)" and okc: "conn_ok (cl_conns st c)"
    using cell_invD(1) [OF inv] by simp_all
  have "oc_buffer (cn_outer (cl_conns st a)) = []" "\<not> oc_raw (cn_outer (cl_conns st a))"
    "oc_buffer (cn_outer (cl_conns st c)) = []" "\<not> oc_raw (cn_outer (cl_conns st c))"
    using oka okc a(4) c(4) by (simp_all add: conn_ok_def outer_ok_conn_def)
  note f = splice_fields [OF ac this b_def]
  let ?st = "splice a c t st"
  have ka: "cl_conns ?st a = spliced b (to_host b) (cl_conns st a)"
    and kc: "cl_conns ?st c = spliced b (to_controller b) (cl_conns st c)"
    and ko: "\<And>j. j \<noteq> a \<Longrightarrow> j \<noteq> c \<Longrightarrow> cl_conns ?st j = cl_conns st j"
    using ac by (simp_all add: f(1))
  have core: "cn_role (cl_conns ?st j) = cn_role (cl_conns st j)" "cn_hostId (cl_conns ?st j) = cn_hostId (cl_conns st j)"
    "cn_ticket (cl_conns ?st j) = cn_ticket (cl_conns st j)" "cn_dataKey (cl_conns ?st j) = cn_dataKey (cl_conns st j)"
    "cn_challenge (cl_conns ?st j) = cn_challenge (cl_conns st j)"
    "oc_closed (cn_outer (cl_conns ?st j)) = oc_closed (cn_outer (cl_conns st j))" for j
    by (simp_all add: f(1))
  have "conn_ok (cl_conns ?st j)" for j
  proof -
    consider "j = a" | "j = c" | "j \<noteq> a" "j \<noteq> c" by blast
    then show ?thesis
      using conn_ok_spliced [OF oka _ a(3)] conn_ok_spliced [OF okc _ c(3)] cell_invD(1) [OF inv, of j] a(2) c(2)
      by cases (simp_all add: ka kc ko)
  qed
  moreover have "\<forall>j \<ge> cl_next ?st. cl_conns ?st j = new_conn"
    using a(1) c(1) cell_invD(2) [OF inv] by (simp add: f(1,2))
  moreover have "hosts_ok ?st"
    using cell_invD(3) [OF inv] by (simp add: hosts_ok_def core f(2,3))
  moreover have "pending_ok ?st"
    unfolding pending_ok_def conn_closed_def
  proof (intro allI impI)
    fix u p assume "aget (cl_pending ?st) u = Some p"
    then have p: "aget (cl_pending st) u = Some p" by (simp add: f)
    note q = pending_facts [OF inv p]
    have "pb_controller p \<noteq> a" using q(4) a(3) p free(1) by auto
    moreover have "pb_controller p \<noteq> c" using q(3) c(2) by auto
    ultimately show "pb_controller p < cl_next ?st \<and> \<not> oc_closed (cn_outer (cl_conns ?st (pb_controller p))) \<and>
      cn_role (cl_conns ?st (pb_controller p)) = ControllerData \<and>
      cn_ticket (cl_conns ?st (pb_controller p)) = Some u \<and>
      cn_hostId (cl_conns ?st (pb_controller p)) = Some (pb_hostId p) \<and>
      oc_handler (cn_outer (cl_conns ?st (pb_controller p))) = None"
      using q by (simp add: core ko f(2) conn_closed_def)
  qed
  moreover have "bridges_ok ?st"
    unfolding bridges_ok_def
  proof (intro ballI)
    fix b' assume "b' \<in> set (cl_bridges ?st)"
    then consider "b' = b" | "b' \<in> set (cl_bridges st)" by (auto simp: f)
    then show "cn_bridge (cl_conns ?st (br_controller b')) = Some b' \<and> cn_bridge (cl_conns ?st (br_host b')) = Some b' \<and>
        oc_handler (cn_outer (cl_conns ?st (br_controller b'))) =
          Some \<lparr>pp_ticket = br_ticket b', pp_dir = ControllerToHost, pp_peer = br_host b'\<rparr> \<and>
        oc_handler (cn_outer (cl_conns ?st (br_host b'))) =
          Some \<lparr>pp_ticket = br_ticket b', pp_dir = HostToController, pp_peer = br_controller b'\<rparr>"
    proof cases
      case 1
      then show ?thesis by (simp add: b_def) (use ka kc in \<open>simp add: b_def to_host_def to_controller_def\<close>)
    next
      case 2
      note q = cell_invD(5) [OF inv, unfolded bridges_ok_def, rule_format, OF 2]
      have "br_controller b' \<notin> {a, c}" "br_host b' \<notin> {a, c}" using q a(4) c(4) by auto
      then show ?thesis using q by (simp add: ko)
    qed
  qed
  moreover have "pairs_ok ?st"
    unfolding pairs_ok_def
  proof (intro allI impI)
    fix j p assume j: "oc_handler (cn_outer (cl_conns ?st j)) = Some p"
    consider "j = a" | "j = c" | "j \<noteq> a" "j \<noteq> c" by blast
    then show "pp_peer p \<noteq> j \<and> oc_handler (cn_outer (cl_conns ?st (pp_peer p))) =
          Some \<lparr>pp_ticket = pp_ticket p, pp_dir = flip (pp_dir p), pp_peer = j\<rparr> \<and>
        cn_role (cl_conns ?st j) = dir_role (pp_dir p) \<and>
        cn_ticket (cl_conns ?st j) = Some (pp_ticket p) \<and>
        cn_hostId (cl_conns ?st j) = cn_hostId (cl_conns ?st (pp_peer p))"
    proof cases
      case 1
      then have "p = to_host b" using j ka by simp
      then show ?thesis using 1 ac a c h kc by (simp add: core to_host_def to_controller_def b_def)
    next
      case 2
      then have "p = to_controller b" using j kc by simp
      then show ?thesis using 2 ac a c h ka by (simp add: core to_host_def to_controller_def b_def)
    next
      case 3
      then have j': "oc_handler (cn_outer (cl_conns st j)) = Some p" using j by (simp add: ko)
      note q = cell_invD(6) [OF inv, unfolded pairs_ok_def, rule_format, OF j']
      have "pp_peer p \<noteq> a" "pp_peer p \<noteq> c" using q a(4) c(4) by auto
      then have e: "cl_conns ?st (pp_peer p) = cl_conns st (pp_peer p)" "cl_conns ?st j = cl_conns st j"
        using 3 by (simp_all add: ko)
      show ?thesis unfolding e by (rule q)
    qed
  qed
  moreover have "waiting_ok ?st"
  proof -
    have "wait_ok (cl_conns ?st) w = wait_ok (cl_conns st) w" for w by (cases w) (simp_all add: core)
    then show ?thesis using cell_invD(7) [OF inv] by (simp add: waiting_ok_def f(2,7))
  qed
  moreover have "used_ok ?st" using cell_invD(8) [OF inv] by (simp add: used_ok_def f)
  ultimately show ?thesis unfolding cell_inv_def by blast
qed

subsection \<open>Dispatch\<close>

lemma drop_next [simp]:
  "cl_next (refuse c code st) = cl_next st" "cl_next (detach c st) = cl_next st"
  "cl_next (fail_conn c st) = cl_next st"
  by (simp_all add: refuse_def detach_def fail_conn_def cell_simps)

text \<open>A message handler never feeds a reader: it leaves it alone or sends the connection raw.\<close>

definition reads_on :: "cell \<Rightarrow> cell \<Rightarrow> bool" where
  "reads_on st st' \<longleftrightarrow> cl_next st' = cl_next st \<and>
     (\<forall>k. oc_reader (cn_outer (cl_conns st' k)) = oc_reader (cn_outer (cl_conns st k)) \<or>
        oc_raw (cn_outer (cl_conns st' k)))"

lemma reads_on_core:
  assumes "cl_next st' = cl_next st"
    and "\<And>k. oc_reader (cn_outer (cl_conns st' k)) = oc_reader (cn_outer (cl_conns st k))"
  shows "reads_on st st'"
  using assms by (simp add: reads_on_def)

lemma reads_on_from:
  assumes "reads_on st1 st'" and "cl_next st1 = cl_next st"
    and "\<And>k. oc_reader (cn_outer (cl_conns st1 k)) = oc_reader (cn_outer (cl_conns st k))"
  shows "reads_on st st'"
  using assms by (simp add: reads_on_def)

lemma drop_reader [simp]:
  "oc_reader (cn_outer (cl_conns (refuse c code st) k)) = oc_reader (cn_outer (cl_conns st k))"
  "oc_reader (cn_outer (cl_conns (detach c st) k)) = oc_reader (cn_outer (cl_conns st k))"
  "oc_reader (cn_outer (cl_conns (fail_conn c st) k)) = oc_reader (cn_outer (cl_conns st k))"
proof -
  have r: "oc_reader (cn_outer (cl_conns (refuse c code st) k)) = oc_reader (cn_outer (cl_conns st k))" for code
    using coreD(6) [OF dropped_core [of c "send_msg c (CloseMsg code None) st" k]]
    by (simp add: refuse_def)
  show "oc_reader (cn_outer (cl_conns (refuse c code st) k)) = oc_reader (cn_outer (cl_conns st k))"
    "oc_reader (cn_outer (cl_conns (fail_conn c st) k)) = oc_reader (cn_outer (cl_conns st k))"
    by (simp_all add: r fail_conn_def)
  show "oc_reader (cn_outer (cl_conns (detach c st) k)) = oc_reader (cn_outer (cl_conns st k))"
    using coreD(6) [OF dropped_core] by (simp add: detach_def)
qed

lemma reads_on_onProof: "reads_on st (onProof C c m st)"
proof (rule reads_on_core)
  have n: "cl_next (register_host c h key st) = cl_next st" for h key st
    by (simp add: register_host_def Let_def split: option.splits)
  show "cl_next (onProof C c m st) = cl_next st"
    by (simp add: onProof_def Let_def dropChallenge_def n split: outer_message.splits option.splits)
  fix k
  have r: "oc_reader (cn_outer (cl_conns (register_host c h key st) k)) = oc_reader (cn_outer (cl_conns st k))"
    for h key st
    by (simp add: register_host_def Let_def split: option.splits)
  have d: "oc_reader (cn_outer (cl_conns (dropChallenge c st) k)) = oc_reader (cn_outer (cl_conns st k))"
    by (simp add: dropChallenge_def)
  show "oc_reader (cn_outer (cl_conns (onProof C c m st) k)) = oc_reader (cn_outer (cl_conns st k))"
    by (simp add: onProof_def Let_def r d split: outer_message.splits option.splits)
qed

text \<open>A host's dial, from a connection no map knows.\<close>

lemma host_dial:
  assumes inv: "cell_inv st" and c: "c < cl_next st" "cn_role (cl_conns st c) = HostData"
      "oc_handler (cn_outer (cl_conns st c)) = None" "\<And>w. w \<in> set (cl_waiting st) \<Longrightarrow> waits w \<noteq> c"
  shows "cell_inv (completeHostDial C c t mac st)" and "reads_on st (completeHostDial C c t mac st)"
proof -
  have bad: "cell_inv (refuse c code st)" "reads_on st (refuse c code st)" for code
    using inv c by (simp_all add: inv_refuse reads_on_core)
  have "cell_inv (completeHostDial C c t mac st) \<and> reads_on st (completeHostDial C c t mac st)"
  proof (cases "\<exists>p k m. aget (cl_pending st) t = Some p \<and> mac = Some m \<and>
      (case aget (cl_hosts st) (pb_hostId p) of None \<Rightarrow> None | Some control \<Rightarrow> cn_dataKey (cl_conns st control)) = Some k \<and>
      verifyDataAuthMac C k (cl_cellId st) t (pb_nonce p) m")
    case False
    then have "\<exists>code. completeHostDial C c t mac st = refuse c code st"
      by (fastforce simp: completeHostDial_def Let_def split: option.splits)
    then show ?thesis using bad by auto
  next
    case True
    then obtain p k m where p: "aget (cl_pending st) t = Some p" and m: "mac = Some m"
      and k: "(case aget (cl_hosts st) (pb_hostId p) of None \<Rightarrow> None
        | Some control \<Rightarrow> cn_dataKey (cl_conns st control)) = Some k"
        "verifyDataAuthMac C k (cl_cellId st) t (pb_nonce p) m"
      by blast
    define st1 where "st1 = (clear_timer (pb_timer p) st)\<lparr>cl_pending := adel t (cl_pending st)\<rparr>"
    define st2 where "st2 = set_conn c (\<lambda>k. k\<lparr>cn_ticket := Some t, cn_hostId := Some (pb_hostId p)\<rparr>) st1"
    have eq: "completeHostDial C c t mac st = splice (pb_controller p) c t st2"
      using p m k by (simp add: completeHostDial_def st1_def st2_def)
    have i1: "cell_inv st1"
      unfolding st1_def by (rule inv_pending_subset) (use inv in \<open>simp_all split: if_splits\<close>)
    have s1: "cl_conns st1 = cl_conns st" "cl_next st1 = cl_next st" "cl_hosts st1 = cl_hosts st"
      "cl_waiting st1 = cl_waiting st" by (simp_all add: st1_def)
    have ok: "conn_ok (cl_conns st c)" by (rule cell_invD(1) [OF inv])
    have i2: "cell_inv st2"
      unfolding st2_def
    proof (rule inv_set_conn [OF i1])
      show "conn_ok ((cl_conns st1 c)\<lparr>cn_ticket := Some t, cn_hostId := Some (pb_hostId p)\<rparr>)"
        using ok c by (simp add: conn_ok_def s1)
    qed (use c host_facts(2) [OF i1] pending_facts(3) [OF i1] s1 in fastforce)+
    note q = pending_facts [OF inv p]
    have ac: "pb_controller p \<noteq> c" using q(3) c(2) by auto
    have "cell_inv (splice (pb_controller p) c t st2)"
    proof (rule inv_splice [OF i2])
      show "aget (cl_pending st2) t = None" by (simp add: st2_def st1_def)
    qed (use q ac c s1 in \<open>simp_all add: st2_def\<close>)
    moreover have "reads_on st (splice (pb_controller p) c t st2)"
    proof -
      have oka: "conn_ok (cl_conns st (pb_controller p))" by (rule cell_invD(1) [OF inv])
      have n: "oc_buffer (cn_outer (cl_conns st2 (pb_controller p))) = []"
          "\<not> oc_raw (cn_outer (cl_conns st2 (pb_controller p)))"
          "oc_buffer (cn_outer (cl_conns st2 c)) = []" "\<not> oc_raw (cn_outer (cl_conns st2 c))"
        using ok oka q(6) c(3) ac by (simp_all add: st2_def s1 conn_ok_def outer_ok_conn_def)
      note f = splice_fields [OF ac n refl]
      show ?thesis
        unfolding reads_on_def f(1,2) using s1 by (simp add: st2_def)
    qed
    ultimately show ?thesis by (simp add: eq)
  qed
  then show "cell_inv (completeHostDial C c t mac st)" and "reads_on st (completeHostDial C c t mac st)"
    by simp_all
qed

lemma inv_classify:
  assumes inv: "cell_inv st" and c: "c < cl_next st" and r: "cn_role (cl_conns st c) = Unclassified"
  shows "cell_inv (classify C c m st)" and "reads_on st (classify C c m st)"
proof -
  note free = unclassified_free [OF inv r]
  define r1 where "r1 role = set_conn c (\<lambda>k. k\<lparr>cn_role := role\<rparr>) st" for role
  have i: "cell_inv (r1 role)" if "role \<noteq> Control" "role \<noteq> Unclassified" for role
    unfolding r1_def by (rule inv_set_role [OF inv c r that])
  have f: "cl_next (r1 role) = cl_next st" "cl_waiting (r1 role) = cl_waiting st"
    "cn_role (cl_conns (r1 role) c) = role" "cn_hostId (cl_conns (r1 role) c) = None"
    "cn_challenge (cl_conns (r1 role) c) = None" "cn_ticket (cl_conns (r1 role) c) = None"
    "oc_handler (cn_outer (cl_conns (r1 role) c)) = None" for role
    using free by (simp_all add: r1_def)
  have ro: "reads_on st (r1 role)" for role by (rule reads_on_core) (simp_all add: r1_def)
  have "cell_inv (classify C c m st) \<and> reads_on st (classify C c m st)"
  proof (cases m)
    case (HostHello h)
    have "cell_inv ((r1 ControlPending)\<lparr>cl_waiting := cl_waiting (r1 ControlPending) @ [StaticKeyOf c h]\<rparr>)"
      by (rule inv_wait) (use i c free(4) in \<open>simp_all add: f\<close>)
    then show ?thesis using HostHello ro by (simp add: classify_def r1_def Let_def reads_on_def)
  next
    case (DataAuth role t mac)
    show ?thesis
    proof (cases role)
      case HostRole
      have d: "cell_inv (completeHostDial C c t mac (r1 HostData))"
          "reads_on (r1 HostData) (completeHostDial C c t mac (r1 HostData))"
        using host_dial [OF i, of HostData c C t mac] c free(4) by (simp_all add: f)
      have "reads_on st (completeHostDial C c t mac (r1 HostData))"
        by (rule reads_on_from [OF d(2)]) (simp_all add: r1_def)
      then show ?thesis using DataAuth HostRole d(1) by (simp add: classify_def r1_def)
    next
      case ControllerRole
      have "cell_inv ((r1 ControllerData)\<lparr>cl_waiting := cl_waiting (r1 ControllerData) @ [TicketOf c t]\<rparr>)"
        by (rule inv_wait) (use i c free(4) in \<open>simp_all add: f\<close>)
      moreover have "cell_inv (refuse c Drained (r1 ControllerData))"
        by (rule inv_refuse) (use i c in \<open>simp_all add: f\<close>)
      moreover have "reads_on st (refuse c Drained (r1 ControllerData))"
        by (rule reads_on_core) (simp_all add: r1_def)
      ultimately show ?thesis
        using DataAuth ControllerRole ro [of ControllerData]
        by (simp add: classify_def r1_def [symmetric] Let_def reads_on_def [of _ "_\<lparr>cl_waiting := _\<rparr>"] f)
          (simp add: reads_on_def f)
    qed
  qed (simp_all add: classify_def inv_refuse [OF inv c] reads_on_core)
  then show "cell_inv (classify C c m st)" and "reads_on st (classify C c m st)" by simp_all
qed

lemma inv_dispatch:
  assumes inv: "cell_inv st" and c: "c < cl_next st"
  shows "cell_inv (dispatch C c m st)" and "reads_on st (dispatch C c m st)"
proof -
  have "cell_inv (dispatch C c m st) \<and> reads_on st (dispatch C c m st)"
  proof (cases "cn_role (cl_conns st c)")
    case Unclassified
    then show ?thesis using inv_classify [OF inv c] by (simp add: dispatch_def)
  next
    case ControlPending
    then show ?thesis using inv_onProof [OF inv c] reads_on_onProof by (simp add: dispatch_def)
  qed (auto simp: dispatch_def inv_refuse [OF inv c] inv_detach [OF inv c] reads_on_core split: outer_message.split)
  then show "cell_inv (dispatch C c m st)" and "reads_on st (dispatch C c m st)" by simp_all
qed

subsection \<open>Inbound bytes\<close>

lemma inv_set_reader:
  assumes inv: "cell_inv st" and c: "c < cl_next st" "\<not> oc_raw (cn_outer (cl_conns st c))" and rd: "rd_inv rd"
  shows "cell_inv (set_reader c rd st)"
  unfolding set_reader_def
proof (rule inv_set_conn [OF inv c(1)])
  let ?k = "(cl_conns st c)\<lparr>cn_outer := (cn_outer (cl_conns st c))\<lparr>oc_reader := rd\<rparr>\<rparr>"
  have ok: "conn_ok (cl_conns st c)" by (rule cell_invD(1) [OF inv])
  then have "outer_ok_conn (cn_outer ?k)"
    using c(2) rd by (simp add: conn_ok_def outer_ok_conn_def buffer_ok_def)
  moreover have "oc_handler (cn_outer ?k) = oc_handler (cn_outer (cl_conns st c))" by simp
  ultimately show "conn_ok ?k"
    using ok unfolding conn_ok_def by (metis (no_types, lifting) conn.select_convs(2-8) conn.update_convs(1) conn.surjective)
  show "wait_ok ((cl_conns st)(c := ?k)) w" if "w \<in> set (cl_waiting st)" "waits w = c" for w
  proof -
    have "wait_ok (cl_conns st) w" using that cell_invD(7) [OF inv] unfolding waiting_ok_def by blast
    then show ?thesis using that(2) by (cases w) simp_all
  qed
  show "\<not> oc_closed (cn_outer ?k) \<and> cn_role ?k = ControllerData \<and> cn_ticket ?k = Some t \<and>
      cn_hostId ?k = Some (pb_hostId p)"
    if "aget (cl_pending st) t = Some p" "pb_controller p = c" for t p
    using pending_facts [OF inv that(1)] that(2) by (simp add: conn_closed_def)
qed (use host_facts [OF inv] in auto)

lemma frames_loop_ok:
  "cell_inv st \<Longrightarrow> c < cl_next st \<Longrightarrow> rd_length (oc_reader (cn_outer (cl_conns st c))) < fuel \<Longrightarrow>
   \<exists>st'. frames_loop C J c fuel st = Some st' \<and> cell_inv st' \<and> cl_next st' = cl_next st"
proof (induction fuel arbitrary: st)
  case 0
  then show ?case by simp
next
  case (Suc fuel)
  let ?oc = "cn_outer (cl_conns st c)"
  show ?case
  proof (cases "oc_raw ?oc")
    case True
    then show ?thesis using Suc.prems by (simp add: frames_loop.simps Let_def)
  next
    case False
    have inv: "rd_inv (oc_reader ?oc)"
      using cell_invD(1) [OF Suc.prems(1), of c] by (simp add: conn_ok_def outer_ok_conn_def buffer_ok_def)
    show ?thesis
    proof (cases "rd_next (oc_reader ?oc)")
      case NeedMore
      then show ?thesis using Suc.prems False by (simp add: frames_loop.simps Let_def)
    next
      case (TooLong n)
      then show ?thesis using Suc.prems False by (simp add: frames_loop.simps Let_def inv_fail)
    next
      case (Frame payload rd)
      have rd: "rd_inv rd" "rd_length rd < rd_length (oc_reader ?oc)"
        using rd.read_frame_Frame(2) [OF inv] rd.read_frame_shrinks [OF inv] Frame
        by (simp_all add: rd_next_def)
      have i: "cell_inv (set_reader c rd st)" by (rule inv_set_reader [OF Suc.prems(1,2) False rd(1)])
      have n: "cl_next (set_reader c rd st) = cl_next st" by (simp add: set_reader_def)
      show ?thesis
      proof (cases "json_decode J payload")
        case None
        then show ?thesis using Suc.prems False Frame i n by (simp add: frames_loop.simps Let_def inv_fail)
      next
        case (Some m)
        let ?d = "dispatch C c m (set_reader c rd st)"
        have d: "cell_inv ?d" "reads_on (set_reader c rd st) ?d"
          using inv_dispatch [OF i] Suc.prems(2) n by simp_all
        have nd: "cl_next ?d = cl_next st" using d(2) n by (simp add: reads_on_def)
        have step: "frames_loop C J c (Suc fuel) st = frames_loop C J c fuel ?d"
          using False Frame Some by (simp add: frames_loop.simps Let_def)
        show ?thesis
        proof (cases "oc_raw (cn_outer (cl_conns ?d c))")
          case True
          obtain f where "fuel = Suc f" using Suc.prems(3) rd(2) by (cases fuel) auto
          then show ?thesis using d nd True unfolding step by (simp add: frames_loop.simps Let_def)
        next
          case False
          then have "oc_reader (cn_outer (cl_conns ?d c)) = rd"
            using d(2) [unfolded reads_on_def, THEN conjunct2, rule_format, of c] by (simp add: set_reader_def)
          then have "rd_length (oc_reader (cn_outer (cl_conns ?d c))) < fuel" using rd(2) Suc.prems(3) by simp
          then show ?thesis using Suc.IH [OF d(1)] Suc.prems(2) nd unfolding step by simp
        qed
      qed
    qed
  qed
qed

lemma raw_receive:
  assumes "oc_handler (cn_outer (cl_conns st c)) = Some p"
  shows "on_outer c (deliverRaw bs) st =
    send_raw (pp_peer p) bs (logged (Tap (pp_ticket p) (pp_dir p) bs) st)"
proof -
  have "(cl_conns st)(c := (cl_conns st c)\<lparr>cn_outer := cn_outer (cl_conns st c)\<rparr>) = cl_conns st"
    by (simp add: fun_eq_iff)
  then have e: "set_conn c (\<lambda>k. k\<lparr>cn_outer := cn_outer (cl_conns st c)\<rparr>) st = st"
    by (simp add: set_conn_def)
  show ?thesis using assms by (simp add: on_outer_def deliverRaw_def) (simp only: e)
qed

lemma conn_receive_ok:
  assumes inv: "cell_inv st" and c: "c < cl_next st"
  shows "\<exists>st'. conn_receive C J c bs st = Some st' \<and> cell_inv st' \<and> cl_next st' = cl_next st"
proof -
  let ?oc = "cn_outer (cl_conns st c)"
  have ok: "outer_ok_conn ?oc" using cell_invD(1) [OF inv, of c] by (simp add: conn_ok_def)
  consider "oc_closed ?oc" | "\<not> oc_closed ?oc" "oc_raw ?oc" | "\<not> oc_closed ?oc" "\<not> oc_raw ?oc" by blast
  then show ?thesis
  proof cases
    case 1
    then show ?thesis using inv by (simp add: conn_receive_def Let_def)
  next
    case 2
    then obtain p where "oc_handler ?oc = Some p" using ok by (auto simp: outer_ok_conn_def)
    note r = raw_receive [OF this, of bs]
    have "cell_inv (send_raw (pp_peer p) bs (logged (Tap (pp_ticket p) (pp_dir p) bs) st)) = cell_inv st"
      by (rule cell_inv_fields) simp_all
    then show ?thesis using 2 r inv by (simp add: conn_receive_def Let_def)
  next
    case 3
    let ?rd = "rd_push bs (oc_reader ?oc)"
    have rd: "rd_inv ?rd" using ok by (simp add: outer_ok_conn_def buffer_ok_def rd.inv_push)
    have i: "cell_inv (set_reader c ?rd st)" by (rule inv_set_reader [OF inv c 3(2) rd])
    have "\<exists>st'. frames_loop C J c (Suc (rd_length ?rd)) (set_reader c ?rd st) = Some st' \<and> cell_inv st' \<and>
        cl_next st' = cl_next (set_reader c ?rd st)"
      by (rule frames_loop_ok [OF i]) (use c in \<open>simp_all add: set_reader_def\<close>)
    then show ?thesis using 3 by (simp add: conn_receive_def Let_def set_reader_def)
  qed
qed

subsection \<open>The cell's own operations\<close>

lemma inv_accept: "cell_inv st \<Longrightarrow> cell_inv (accept st)"
proof -
  assume inv: "cell_inv st"
  have new: "cl_conns st (cl_next st) = new_conn" by (rule cell_invD(2) [OF inv]) simp
  let ?st = "st\<lparr>cl_next := Suc (cl_next st)\<rparr>"
  have h: "hosts_ok ?st" using cell_invD(3) [OF inv] by (fastforce simp: hosts_ok_def)
  have p: "pending_ok ?st" using cell_invD(4) [OF inv] unfolding pending_ok_def conn_closed_def by fastforce
  have b: "bridges_ok ?st = bridges_ok st" by (simp add: bridges_ok_def)
  have e: "cl_conns ?st = cl_conns st" by simp
  have r: "pairs_ok ?st = pairs_ok st" by (simp only: pairs_ok_def e)
  have w: "waiting_ok ?st" using cell_invD(7) [OF inv] by (auto simp: waiting_ok_def)
  have u: "used_ok ?st = used_ok st" by (simp add: used_ok_def)
  have i: "cell_inv ?st"
    using h p b r w u cell_invD [OF inv] unfolding cell_inv_def by simp
  have "cn_role (cl_conns ?st (cl_next st)) \<noteq> ControllerData" using new by (simp add: new_conn_def)
  then have "cell_inv (close_conn (cl_next st) ?st)"
    by (intro inv_close_control [OF i]) simp_all
  then show "cell_inv (accept st)" using i by (simp add: accept_def Let_def)
qed

lemma send_all_hosts_fields [simp]:
  "cl_conns (send_all_hosts cs m st) = cl_conns st" "cl_next (send_all_hosts cs m st) = cl_next st"
  "cl_hosts (send_all_hosts cs m st) = cl_hosts st" "cl_pending (send_all_hosts cs m st) = cl_pending st"
  "cl_bridges (send_all_hosts cs m st) = cl_bridges st" "cl_used (send_all_hosts cs m st) = cl_used st"
  "cl_waiting (send_all_hosts cs m st) = cl_waiting st"
  by (induction cs arbitrary: st) simp_all

lemma inv_drain: "cell_inv st \<Longrightarrow> cell_inv (cell_drain st)"
  by (subst cell_inv_fields [of _ st]) (simp_all add: cell_drain_def)

lemma close_all_core: "core (cl_conns (close_all cs st) k) = core (cl_conns st k)"
  by (induction cs arbitrary: st) simp_all

lemma close_all_other: "k \<notin> set cs \<Longrightarrow> cl_conns (close_all cs st) k = cl_conns st k"
  by (induction cs arbitrary: st) simp_all

lemma close_all_fields [simp]:
  "cl_next (close_all cs st) = cl_next st" "cl_hosts (close_all cs st) = cl_hosts st"
  "cl_pending (close_all cs st) = cl_pending st"
  "cl_bridges (close_all cs st) = cl_bridges st" "cl_used (close_all cs st) = cl_used st"
  "cl_waiting (close_all cs st) = cl_waiting st" "cl_cellId (close_all cs st) = cl_cellId st"
  by (induction cs arbitrary: st) simp_all

lemma clear_timers_fields [simp]:
  "cl_conns (clear_timers hs st) = cl_conns st" "cl_next (clear_timers hs st) = cl_next st"
  "cl_hosts (clear_timers hs st) = cl_hosts st" "cl_bridges (clear_timers hs st) = cl_bridges st"
  "cl_used (clear_timers hs st) = cl_used st" "cl_waiting (clear_timers hs st) = cl_waiting st"
  "cl_cellId (clear_timers hs st) = cl_cellId st"
  by (induction hs arbitrary: st) simp_all

text \<open>The connections \<open>close\<close> closes.\<close>

definition close_set :: "cell \<Rightarrow> nat list" where
  "close_set st = map pb_controller (map snd (cl_pending st)) @
     concat (map (\<lambda>b. [br_controller b, br_host b]) (cl_bridges st)) @ map snd (cl_hosts st)"

lemma cell_close_fields:
  assumes "\<not> cl_closed st"
  shows "core (cl_conns (cell_close st) k) = core (cl_conns st k)"
    and "k \<notin> set (close_set st) \<Longrightarrow> cl_conns (cell_close st) k = cl_conns st k"
    and "cl_hosts (cell_close st) = []" "cl_pending (cell_close st) = []" "cl_bridges (cell_close st) = []"
    "cl_next (cell_close st) = cl_next st" "cl_used (cell_close st) = cl_used st"
    "cl_waiting (cell_close st) = cl_waiting st" "cl_cellId (cell_close st) = cl_cellId st"
  using assms by (simp_all add: cell_close_def Let_def close_set_def close_all_core close_all_other)

text \<open>The lists behind the maps agree with lookup, the keys being distinct.\<close>

definition keys_ok :: "cell \<Rightarrow> bool" where
  "keys_ok st \<longleftrightarrow> distinct (akeys (cl_hosts st)) \<and> distinct (akeys (cl_pending st))"

lemma keys_ok_fields:
  "cl_hosts st' = cl_hosts st \<Longrightarrow> cl_pending st' = cl_pending st \<Longrightarrow> keys_ok st' = keys_ok st"
  by (simp add: keys_ok_def)

lemma keys_ok_simple [simp]:
  "keys_ok (send_msg c m st) = keys_ok st" "keys_ok (send_raw c bs st) = keys_ok st"
  "keys_ok (logged e st) = keys_ok st" "keys_ok (set_conn c f st) = keys_ok st"
  "keys_ok (close_conn c st) = keys_ok st" "keys_ok (clear_timer h st) = keys_ok st"
  "keys_ok (st\<lparr>cl_waiting := ws\<rparr>) = keys_ok st" "keys_ok (st\<lparr>cl_next := n\<rparr>) = keys_ok st"
  "keys_ok (st\<lparr>cl_bridges := brs\<rparr>) = keys_ok st"
  by (rule keys_ok_fields; simp)+

lemma keys_ok_cleanup: "keys_ok st \<Longrightarrow> keys_ok (cleanup c st)"
proof -
  assume k: "keys_ok st"
  have "keys_ok (cleanup_host c st)"
    using k by (auto simp: cleanup_host_def keys_ok_def distinct_akeys_adel split: option.splits)
  then have "keys_ok (cleanup_pending c (cleanup_host c st))"
    by (auto simp: cleanup_pending_def keys_ok_def distinct_akeys_adel split: option.splits)
  then show ?thesis by (simp add: cleanup_def keys_ok_def cell_simps)
qed

lemma keys_ok_drop [simp]:
  "keys_ok st \<Longrightarrow> keys_ok (refuse c code st)" "keys_ok st \<Longrightarrow> keys_ok (detach c st)"
  "keys_ok st \<Longrightarrow> keys_ok (fail_conn c st)"
  by (simp_all add: refuse_def detach_def fail_conn_def keys_ok_cleanup)

lemma keys_ok_effects: "keys_ok st \<Longrightarrow> keys_ok (raw_effects c es st)"
  by (induction c es st rule: raw_effects.induct) simp_all

lemma keys_ok_on_outer [simp]: "keys_ok st \<Longrightarrow> keys_ok (on_outer c op st)"
  by (simp add: on_outer_def keys_ok_effects split: prod.splits)

lemma keys_ok_splice: "keys_ok st \<Longrightarrow> keys_ok (splice a c t st)"
  by (simp add: splice_def Let_def)

lemma keys_ok_register: "keys_ok st \<Longrightarrow> keys_ok (register_host c h key st)"
  by (auto simp: register_host_def Let_def keys_ok_def distinct_akeys_aset split: option.splits)

lemma keys_ok_onProof: "keys_ok st \<Longrightarrow> keys_ok (onProof C c m st)"
  by (simp add: onProof_def dropChallenge_def Let_def keys_ok_register split: outer_message.splits option.splits)

lemma keys_ok_dial: "keys_ok st \<Longrightarrow> keys_ok (completeHostDial C c t mac st)"
proof -
  assume k: "keys_ok st"
  have "keys_ok (st\<lparr>cl_timers := ts, cl_pending := adel t (cl_pending st)\<rparr>)" for ts
    using k by (simp add: keys_ok_def distinct_akeys_adel)
  then have "keys_ok ((clear_timer h st)\<lparr>cl_pending := adel t (cl_pending st)\<rparr>)" for h
    by (simp add: clear_timer_def)
  then show ?thesis using k
    by (auto simp: completeHostDial_def Let_def intro!: keys_ok_splice split: option.splits)
qed

lemma keys_ok_dispatch: "keys_ok st \<Longrightarrow> keys_ok (dispatch C c m st)"
  by (auto simp: dispatch_def classify_def Let_def keys_ok_onProof keys_ok_dial
      split: conn_role.splits outer_message.splits data_role.splits)

lemma keys_ok_frames: "keys_ok st \<Longrightarrow> frames_loop C J c fuel st = Some st' \<Longrightarrow> keys_ok st'"
proof (induction fuel arbitrary: st)
  case (Suc fuel)
  have ih: "frames_loop C J c fuel st1 = Some st' \<Longrightarrow> keys_ok st1 \<Longrightarrow> keys_ok st'" for st1
    by (rule Suc.IH)
  show ?case using Suc.prems
    by (auto simp: frames_loop.simps Let_def set_reader_def keys_ok_dispatch dest!: ih
        split: if_splits frame_read.splits option.splits)
qed (simp add: frames_loop.simps)

lemma keys_ok_receive: "keys_ok st \<Longrightarrow> conn_receive C J c bs st = Some st' \<Longrightarrow> keys_ok st'"
  using keys_ok_frames [of "set_reader c (rd_push bs (oc_reader (cn_outer (cl_conns st c)))) st"]
  by (auto simp: conn_receive_def Let_def set_reader_def split: if_splits)

lemma keys_ok_ticket: "keys_ok st \<Longrightarrow> keys_ok (controllerTicket c t rec now nonce st)"
  by (auto simp: controllerTicket_def Let_def split: option.splits)
    (simp add: keys_ok_def markTicketUsed_def distinct_akeys_aset)

lemma inv_close:
  assumes inv: "cell_inv st" and keys: "keys_ok st"
  shows "cell_inv (cell_close st)"
proof (cases "cl_closed st")
  case True
  then show ?thesis using inv by (simp add: cell_close_def)
next
  case False
  note f = cell_close_fields [OF False]
  have "j < cl_next st" if j: "j \<in> set (close_set st)" for j
  proof -
    consider t p where "(t, p) \<in> set (cl_pending st)" "j = pb_controller p"
      | b where "b \<in> set (cl_bridges st)" "j \<in> {br_controller b, br_host b}"
      | h where "(h, j) \<in> set (cl_hosts st)"
      using j by (auto simp: close_set_def)
    then show ?thesis
    proof cases
      case 1
      then have "aget (cl_pending st) t = Some p" using keys by (simp add: keys_ok_def)
      then show ?thesis using pending_facts(1) [OF inv] 1 by simp
    next
      case 2
      then have "oc_handler (cn_outer (cl_conns st j)) \<noteq> None"
        using cell_invD(5) [OF inv] by (auto simp: bridges_ok_def)
      then show ?thesis by (rule handler_old [OF inv])
    next
      case 3
      then have "aget (cl_hosts st) h = Some j" using keys by (simp add: keys_ok_def)
      then show ?thesis by (rule host_facts(1) [OF inv])
    qed
  qed
  then have "\<forall>k \<ge> cl_next st. cl_conns (cell_close st) k = cl_conns st k"
    using f(2) by (meson not_le)
  then show ?thesis
    using f by (intro taken_down_inv [OF inv]) (simp add: taken_down_def)
qed

subsection \<open>Reachable states\<close>

inductive cell_reach :: "crypto \<Rightarrow> codec \<Rightarrow> string \<Rightarrow> cell \<Rightarrow> bool"
  for C :: crypto and J :: codec and cellId :: string where
  init: "cell_reach C J cellId (createCell cellId)"
| step: "cell_reach C J cellId st \<Longrightarrow> cell_step C J e st = Some st' \<Longrightarrow> cell_reach C J cellId st'"

lemma settle_facts:
  assumes inv: "cell_inv st" and w: "w \<in> set (cl_waiting st)"
  defines "st1 \<equiv> st\<lparr>cl_waiting := remove1 w (cl_waiting st)\<rparr>"
  shows "cell_inv st1" "waits w < cl_next st1" "wait_ok (cl_conns st1) w"
    "w' \<in> set (cl_waiting st1) \<Longrightarrow> waits w' \<noteq> waits w"
proof -
  show "cell_inv st1" unfolding st1_def by (rule inv_settle [OF inv])
  show "waits w < cl_next st1" "wait_ok (cl_conns st1) w"
    using cell_invD(7) [OF inv] w by (simp_all add: waiting_ok_def st1_def)
  show "w' \<in> set (cl_waiting st1) \<Longrightarrow> waits w' \<noteq> waits w"
    using settled_free [OF inv w] by (simp add: st1_def)
qed

lemma inv_timeout: "cell_inv st \<Longrightarrow> cell_inv (onBridgeTimeout t st)"
proof -
  assume inv: "cell_inv st"
  show ?thesis
  proof (cases "aget (cl_pending st) t")
    case None
    then show ?thesis using inv by (simp add: onBridgeTimeout_def)
  next
    case (Some p)
    have "cell_inv (st\<lparr>cl_pending := adel t (cl_pending st)\<rparr>)"
      by (rule inv_pending_subset [OF inv]) (simp split: if_splits)
    then show ?thesis using pending_facts(1) [OF inv Some] Some by (simp add: onBridgeTimeout_def inv_refuse)
  qed
qed

lemma keys_ok_timeout: "keys_ok st \<Longrightarrow> keys_ok (onBridgeTimeout t st)"
proof -
  assume "keys_ok st"
  then have "keys_ok (st\<lparr>cl_pending := adel t (cl_pending st)\<rparr>)"
    by (simp add: keys_ok_def distinct_akeys_adel)
  then show ?thesis using \<open>keys_ok st\<close> by (simp add: onBridgeTimeout_def split: option.splits)
qed

lemma keys_ok_close: "keys_ok st \<Longrightarrow> keys_ok (cell_close st)"
  using cell_close_fields(3,4) [of st] by (cases "cl_closed st") (simp_all add: keys_ok_def cell_close_def)

lemma step_inv:
  assumes inv: "cell_inv st" and k: "keys_ok st" and s: "cell_step C J e st = Some st'"
  shows "cell_inv st' \<and> keys_ok st'"
proof (cases e)
  case Accept
  then show ?thesis using s inv_accept [OF inv] k by (auto simp: accept_def Let_def)
next
  case (Inbound c bs)
  then have c: "c < cl_next st" and r: "conn_receive C J c bs st = Some st'"
    using s by (auto split: if_splits)
  then show ?thesis using conn_receive_ok [OF inv c, of C J bs] keys_ok_receive [OF k r] by simp
next
  case (PeerClose c)
  then show ?thesis using s inv k by (auto simp: inv_detach split: if_splits)
next
  case (KeySettles c h pub secret nonce)
  then have w: "StaticKeyOf c h \<in> set (cl_waiting st)"
    and st': "st' = registrationKey C c h pub secret nonce
      (st\<lparr>cl_waiting := remove1 (StaticKeyOf c h) (cl_waiting st)\<rparr>)"
    using s by (auto split: if_splits)
  note f = settle_facts [OF inv w]
  have "cell_inv st'" unfolding st' by (rule inv_registrationKey) (use f in auto)
  moreover have "keys_ok st'" using k by (simp add: st' registrationKey_def Let_def split: option.splits)
  ultimately show ?thesis by simp
next
  case (TicketSettles c t rec now nonce)
  then have w: "TicketOf c t \<in> set (cl_waiting st)"
    and st': "st' = controllerTicket c t rec now nonce
      (st\<lparr>cl_waiting := remove1 (TicketOf c t) (cl_waiting st)\<rparr>)"
    using s by (auto split: if_splits)
  note f = settle_facts [OF inv w]
  have "cell_inv st'" unfolding st' by (rule inv_controllerTicket) (use f in auto)
  moreover have "keys_ok st'" unfolding st' by (rule keys_ok_ticket) (simp add: k)
  ultimately show ?thesis by simp
next
  case (LookupRejects w)
  then have w: "w \<in> set (cl_waiting st)"
    and st': "st' = fail_conn (waits w) (st\<lparr>cl_waiting := remove1 w (cl_waiting st)\<rparr>)"
    using s by (auto split: if_splits waiting.splits)
  show ?thesis unfolding st' using settle_facts(1,2) [OF inv w] k by (simp add: inv_fail)
next
  case (TimerFires h)
  then obtain t where "st' = onBridgeTimeout t (clear_timer h st)" using s by (auto split: option.splits)
  then show ?thesis using inv k by (simp add: inv_timeout keys_ok_timeout)
next
  case Drain
  have "keys_ok (cell_drain st)" using k by (simp add: cell_drain_def keys_ok_def)
  then show ?thesis using Drain s inv_drain [OF inv] by simp
next
  case CloseCell
  then show ?thesis using s inv_close [OF inv k] keys_ok_close [OF k] by simp
qed

lemma cell_reach_inv: "cell_reach C J cellId st \<Longrightarrow> cell_inv st \<and> keys_ok st"
proof (induction rule: cell_reach.induct)
  case init
  then show ?case using cell_inv_init [of cellId] by (simp add: keys_ok_def createCell_def)
next
  case (step st e st')
  then show ?case using step_inv by blast
qed

text \<open>An event that can happen at all is carried through.\<close>

lemma inbound_total:
  assumes "cell_reach C J cellId st" and "c < cl_next st"
  shows "cell_step C J (Inbound c bs) st \<noteq> None"
  using conn_receive_ok [of st c C J bs] cell_reach_inv [OF assms(1)] assms(2) by auto

end
