(* ===== verification/CellEnds.thy ===== *)
theory CellEnds
  imports CellReach
begin

text \<open>
  Where the cell's registrations and bridges come from. Only one handler adds a host and only one
  adds a bridge; everything else at most removes them. An event that adds one is an inbound chunk
  on the connection concerned, and the message that did it is among the frames the chunk completes.

  Every pending bridge has its own running timer, in every reachable state: so a controller whose
  host never dials is refused when that timer fires, and no bridge waits for ever. Firing or
  clearing one bridge's timer leaves the others running.

  A connection that holds a bridge is one of its two ends, in every reachable state; so dropping a
  connection that is in no bridge touches no other connection.
\<close>

definition shrinks :: "cell \<Rightarrow> cell \<Rightarrow> bool" where
  "shrinks st st' \<longleftrightarrow>
     (\<forall>h k. aget (cl_hosts st') h = Some k \<longrightarrow> aget (cl_hosts st) h = Some k) \<and>
     set (cl_bridges st') \<subseteq> set (cl_bridges st)"

lemma shrinks_same:
  "cl_hosts st' = cl_hosts st \<Longrightarrow> cl_bridges st' = cl_bridges st \<Longrightarrow> shrinks st st'"
  by (simp add: shrinks_def)

lemma shrinks_from [simp]:
  "shrinks (set_conn c f st) st' = shrinks st st'" "shrinks (send_msg c m st) st' = shrinks st st'"
  "shrinks (send_raw c bs st) st' = shrinks st st'" "shrinks (logged e st) st' = shrinks st st'"
  "shrinks (clear_timer h st) st' = shrinks st st'" "shrinks (st\<lparr>cl_pending := ps\<rparr>) st' = shrinks st st'"
  "shrinks (st\<lparr>cl_waiting := ws\<rparr>) st' = shrinks st st'" "shrinks (close_conn c st) st' = shrinks st st'"
  by (simp_all add: shrinks_def)

lemma shrinks_to [simp]:
  "shrinks st (set_conn c f st') = shrinks st st'" "shrinks st (send_msg c m st') = shrinks st st'"
  "shrinks st (send_raw c bs st') = shrinks st st'" "shrinks st (logged e st') = shrinks st st'"
  "shrinks st (clear_timer h st') = shrinks st st'" "shrinks st (st'\<lparr>cl_pending := ps\<rparr>) = shrinks st st'"
  "shrinks st (st'\<lparr>cl_waiting := ws\<rparr>) = shrinks st st'" "shrinks st (close_conn c st') = shrinks st st'"
  by (simp_all add: shrinks_def)

lemma shrinks_refl [simp]: "shrinks st st"
  by (simp add: shrinks_def)

lemma shrinks_trans: "shrinks st st1 \<Longrightarrow> shrinks st1 st2 \<Longrightarrow> shrinks st st2"
  by (auto simp: shrinks_def)

lemma shrinks_cleanup: "shrinks st (cleanup c st)"
proof -
  have "set (cl_bridges (cleanup c st)) \<subseteq> set (cl_bridges st)"
    by (simp add: cleanup_def cell_simps Diff_subset)
  then show ?thesis by (simp add: shrinks_def cell_simps)
qed

lemma shrinks_drop [simp]:
  "shrinks st (refuse c code st)" "shrinks st (detach c st)" "shrinks st (fail_conn c st)"
  using shrinks_cleanup [of "send_msg c m st" c for m] shrinks_cleanup [of st c]
  by (simp_all add: refuse_def detach_def fail_conn_def)

lemma shrinks_drop_set [simp]: "shrinks st (refuse c code (set_conn k f st))"
  by (rule shrinks_drop(1) [of "set_conn k f st", unfolded shrinks_from])

lemma shrinks_drop_pending [simp]: "shrinks st (refuse c code (st\<lparr>cl_pending := ps\<rparr>))"
  by (rule shrinks_drop(1) [of "st\<lparr>cl_pending := ps\<rparr>", unfolded shrinks_from])

lemma shrinks_effects: "shrinks st (raw_effects c es st)"
proof (induction c es st rule: raw_effects.induct)
  case (3 c es st)
  show ?case using 3 by (auto intro: shrinks_trans [OF shrinks_drop(3)])
qed simp_all

lemma shrinks_on_outer: "shrinks st (on_outer c op st)"
  using shrinks_effects [of "set_conn c f st" c es for f es]
  by (simp add: on_outer_def split: prod.splits)

text \<open>A splice adds its bridge and no other.\<close>

lemma splice_adds:
  "shrinks (st\<lparr>cl_bridges := cl_bridges st @ [\<lparr>br_ticket = t, br_controller = a, br_host = c\<rparr>]\<rparr>)
     (splice a c t st)"
  unfolding splice_def Let_def
  by (rule shrinks_trans [OF _ shrinks_on_outer], rule shrinks_trans [OF _ shrinks_on_outer], simp,
      rule shrinks_trans [OF _ shrinks_on_outer], rule shrinks_trans [OF _ shrinks_on_outer]) simp

subsection \<open>One message\<close>

definition registers :: "crypto \<Rightarrow> cell \<Rightarrow> nat \<Rightarrow> outer_message \<Rightarrow> string \<Rightarrow> bool" where
  "registers C st c m h \<longleftrightarrow>
     (\<exists>ch pub mac. m = HostProofMsg mac \<and> cn_challenge (cl_conns st c) = Some ch \<and>
        cn_hostId (cl_conns st c) = Some h \<and> cn_static (cl_conns st c) = Some pub \<and>
        verifyProof C ch h pub mac)"

definition dials :: "crypto \<Rightarrow> cell \<Rightarrow> nat \<Rightarrow> outer_message \<Rightarrow> bridge \<Rightarrow> bool" where
  "dials C st c m b \<longleftrightarrow>
     (\<exists>p control key. br_host b = c \<and> aget (cl_pending st) (br_ticket b) = Some p \<and>
        br_controller b = pb_controller p \<and> aget (cl_hosts st) (pb_hostId p) = Some control \<and>
        cn_dataKey (cl_conns st control) = Some key \<and>
        m = DataAuth HostRole (br_ticket b)
          (Some (dataAuthMac C key (cl_cellId st) (br_ticket b) (pb_nonce p))))"

lemma onProof_adds:
  "shrinks st (onProof C c m st) \<or>
   (\<exists>h. registers C st c m h \<and> cl_hosts (onProof C c m st) = aset h c (cl_hosts st) \<and>
      cl_bridges (onProof C c m st) = cl_bridges st)"
proof (cases m)
  case (HostProofMsg mac)
  show ?thesis
  proof (cases "\<exists>ch h pub. cn_challenge (cl_conns st c) = Some ch \<and> cn_hostId (cl_conns st c) = Some h \<and>
      cn_static (cl_conns st c) = Some pub")
    case False
    then have "onProof C c m st = refuse c ProtocolError st"
      using HostProofMsg by (auto simp: onProof_def Let_def split: option.splits)
    then show ?thesis by simp
  next
    case True
    then obtain ch h pub where k: "cn_challenge (cl_conns st c) = Some ch" "cn_hostId (cl_conns st c) = Some h"
      "cn_static (cl_conns st c) = Some pub" by blast
    have d: "shrinks st (refuse c code (dropChallenge c st))" for code
      by (simp add: dropChallenge_def)
    show ?thesis
    proof (cases "verifyProof C ch h pub mac \<and> cellDataAuthKey C ch pub \<noteq> None")
      case False
      then show ?thesis using HostProofMsg k d by (auto simp: onProof_def Let_def split: option.splits)
    next
      case True
      then obtain key where "onProof C c m st = register_host c h key (dropChallenge c st)"
        using HostProofMsg k by (auto simp: onProof_def Let_def)
      moreover have "registers C st c m h" using HostProofMsg k True by (simp add: registers_def)
      ultimately show ?thesis
        by (auto simp: register_host_def dropChallenge_def Let_def split: option.splits)
    qed
  qed
next
qed (simp_all add: onProof_def dropChallenge_def)

text \<open>The state a host's accepted dial is spliced in.\<close>

definition dialled :: "nat \<Rightarrow> string \<Rightarrow> pending \<Rightarrow> cell \<Rightarrow> cell" where
  "dialled c t p st = set_conn c (\<lambda>k. k\<lparr>cn_ticket := Some t, cn_hostId := Some (pb_hostId p)\<rparr>)
    ((clear_timer (pb_timer p) st)\<lparr>cl_pending := adel t (cl_pending st)\<rparr>)"

lemma completeHostDial_cases:
  obtains (refused) code where "completeHostDial C c t mac st = refuse c code st"
  | (spliced) p control key m where "aget (cl_pending st) t = Some p"
      "aget (cl_hosts st) (pb_hostId p) = Some control" "cn_dataKey (cl_conns st control) = Some key"
      "mac = Some m" "m = dataAuthMac C key (cl_cellId st) t (pb_nonce p)"
      "completeHostDial C c t mac st = splice (pb_controller p) c t (dialled c t p st)"
proof (cases "\<exists>p control key m. aget (cl_pending st) t = Some p \<and> aget (cl_hosts st) (pb_hostId p) = Some control \<and>
    cn_dataKey (cl_conns st control) = Some key \<and> mac = Some m \<and>
    verifyDataAuthMac C key (cl_cellId st) t (pb_nonce p) m")
  case False
  then have "\<exists>code. completeHostDial C c t mac st = refuse c code st"
    by (auto simp: completeHostDial_def Let_def split: option.splits)
  then show ?thesis using refused by blast
next
  case True
  then obtain p control key m where p: "aget (cl_pending st) t = Some p"
    "aget (cl_hosts st) (pb_hostId p) = Some control" "cn_dataKey (cl_conns st control) = Some key"
    "mac = Some m" "verifyDataAuthMac C key (cl_cellId st) t (pb_nonce p) m" by blast
  then have "completeHostDial C c t mac st = splice (pb_controller p) c t (dialled c t p st)"
    by (simp add: completeHostDial_def dialled_def Let_def)
  then show ?thesis using p spliced by (simp add: verifyDataAuthMac_iff)
qed

lemma completeHostDial_adds:
  "shrinks st (completeHostDial C c t mac st) \<or>
   (\<exists>b. dials C st c (DataAuth HostRole t mac) b \<and>
      shrinks (st\<lparr>cl_bridges := cl_bridges st @ [b]\<rparr>) (completeHostDial C c t mac st))"
proof (cases rule: completeHostDial_cases [of C c t mac st])
  case (refused code)
  then show ?thesis by simp
next
  case (spliced p control key m)
  let ?b = "\<lparr>br_ticket = t, br_controller = pb_controller p, br_host = c\<rparr>"
  let ?st = "dialled c t p st"
  have "shrinks (st\<lparr>cl_bridges := cl_bridges st @ [?b]\<rparr>) (?st\<lparr>cl_bridges := cl_bridges ?st @ [?b]\<rparr>)"
    by (rule shrinks_same) (simp_all add: dialled_def)
  then have "shrinks (st\<lparr>cl_bridges := cl_bridges st @ [?b]\<rparr>) (completeHostDial C c t mac st)"
    unfolding spliced(6) by (rule shrinks_trans [OF _ splice_adds])
  moreover have "dials C st c (DataAuth HostRole t mac) ?b" using spliced by (simp add: dials_def)
  ultimately show ?thesis by blast
qed

text \<open>A message on any connection.\<close>

lemma dials_set_conn [simp]:
  "(\<And>k. cn_dataKey (f k) = cn_dataKey k) \<Longrightarrow> dials C (set_conn c f st) d m b = dials C st d m b"
proof -
  assume f: "\<And>k. cn_dataKey (f k) = cn_dataKey k"
  have "cn_dataKey (cl_conns (set_conn c f st) k) = cn_dataKey (cl_conns st k)" for k by (simp add: f)
  then show ?thesis unfolding dials_def by simp
qed

lemma dispatch_adds:
  "shrinks st (dispatch C c m st) \<or>
   (\<exists>h. cn_role (cl_conns st c) = ControlPending \<and> registers C st c m h \<and>
      cl_hosts (dispatch C c m st) = aset h c (cl_hosts st) \<and>
      cl_bridges (dispatch C c m st) = cl_bridges st) \<or>
   (\<exists>b. cn_role (cl_conns st c) = Unclassified \<and> dials C st c m b \<and>
      shrinks (st\<lparr>cl_bridges := cl_bridges st @ [b]\<rparr>) (dispatch C c m st))"
proof (cases "cn_role (cl_conns st c)")
  case Unclassified
  show ?thesis
  proof (cases "\<exists>t mac. m = DataAuth HostRole t mac")
    case True
    then obtain t mac where m: "m = DataAuth HostRole t mac" by blast
    let ?st = "set_conn c (\<lambda>k. k\<lparr>cn_role := HostData\<rparr>) st"
    have e: "dispatch C c m st = completeHostDial C c t mac ?st"
      using Unclassified m by (simp add: dispatch_def classify_def)
    have s: "shrinks (?st\<lparr>cl_bridges := cl_bridges ?st @ [b]\<rparr>) st' =
        shrinks (st\<lparr>cl_bridges := cl_bridges st @ [b]\<rparr>) st'" for b st'
      by (simp add: shrinks_def)
    show ?thesis
      using completeHostDial_adds [of ?st C c t mac] Unclassified unfolding e [folded m] s m [symmetric] e
      by auto
  next
    case False
    then have "shrinks st (dispatch C c m st)"
      using Unclassified
      by (auto simp: dispatch_def classify_def Let_def split: outer_message.splits data_role.splits)
    then show ?thesis by simp
  qed
next
  case ControlPending
  then show ?thesis using onProof_adds [of st C c m] by (auto simp: dispatch_def)
next
  case Control
  then show ?thesis by (simp add: dispatch_def split: outer_message.splits)
qed (simp_all add: dispatch_def)

subsection \<open>A chunk\<close>

text \<open>The messages the framed loop finds at the front of a reader.\<close>

fun messages :: "codec \<Rightarrow> nat \<Rightarrow> reader \<Rightarrow> outer_message list" where
  "messages J 0 q = []"
| "messages J (Suc n) q =
     (case rd_next q of
        Frame payload q' \<Rightarrow>
          (case json_decode J payload of None \<Rightarrow> [] | Some m \<Rightarrow> m # messages J n q')
      | _ \<Rightarrow> [])"

declare messages.simps [simp del]

text \<open>A property of states that the loop keeps, message by message.\<close>

lemma frames_loop_keeps:
  assumes step: "\<And>s rd m. cell_inv s \<Longrightarrow> c < cl_next s \<Longrightarrow> Q s \<Longrightarrow> m \<in> set ms \<Longrightarrow>
      \<not> oc_raw (cn_outer (cl_conns s c)) \<Longrightarrow> rd_inv rd \<Longrightarrow> Q (dispatch C c m (set_reader c rd s))"
    and fail: "\<And>s. cell_inv s \<Longrightarrow> Q s \<Longrightarrow> Q (fail_conn c s)"
    and reader: "\<And>s rd. Q s \<Longrightarrow> Q (set_reader c rd s)"
  shows "cell_inv st \<Longrightarrow> c < cl_next st \<Longrightarrow> Q st \<Longrightarrow>
    set (messages J fuel (oc_reader (cn_outer (cl_conns st c)))) \<subseteq> set ms \<Longrightarrow>
    frames_loop C J c fuel st = Some st' \<Longrightarrow> Q st'"
proof (induction fuel arbitrary: st)
  case 0
  then show ?case by (simp add: frames_loop.simps)
next
  case (Suc fuel)
  let ?oc = "cn_outer (cl_conns st c)"
  have rinv: "rd_inv (oc_reader ?oc)"
    using cell_invD(1) [OF Suc.prems(1), of c] by (simp add: conn_ok_def outer_ok_conn_def buffer_ok_def)
  show ?case
  proof (cases "oc_raw ?oc")
    case True
    then show ?thesis using Suc.prems by (simp add: frames_loop.simps)
  next
    case framed: False
    show ?thesis
    proof (cases "rd_next (oc_reader ?oc)")
      case NeedMore
      then show ?thesis using Suc.prems framed by (simp add: frames_loop.simps)
    next
      case (TooLong n)
      then show ?thesis using Suc.prems framed fail by (auto simp: frames_loop.simps)
    next
      case (Frame payload rd)
      have rd: "rd_inv rd"
        using rd.read_frame_cases [OF rinv, of MAX_OUTER_MESSAGE_BYTES] Frame
        unfolding rd_next_def by auto
      let ?s = "set_reader c rd st"
      have s: "cell_inv ?s" using inv_set_reader [OF Suc.prems(1,2) framed rd] .
      show ?thesis
      proof (cases "json_decode J payload")
        case None
        then show ?thesis using Suc.prems framed Frame fail [OF s reader [OF Suc.prems(3)]]
          by (simp add: frames_loop.simps)
      next
        case (Some m)
        let ?d = "dispatch C c m ?s"
        have ms: "m \<in> set ms" "set (messages J fuel rd) \<subseteq> set ms"
          using Suc.prems(4) Frame Some by (simp_all add: messages.simps)
        have q: "Q ?d" by (rule step [OF Suc.prems(1-3) ms(1) framed rd])
        have c: "c < cl_next ?s" and r: "oc_reader (cn_outer (cl_conns ?s c)) = rd"
          using Suc.prems(2) by (simp_all add: set_reader_def)
        note d = inv_dispatch [OF s c, of C m]
        have next': "c < cl_next ?d" using d(2) c unfolding reads_on_def by simp
        have l: "frames_loop C J c fuel ?d = Some st'"
          using Suc.prems(5) framed Frame Some by (simp add: frames_loop.simps)
        have "oc_reader (cn_outer (cl_conns ?d c)) = rd \<or> oc_raw (cn_outer (cl_conns ?d c))"
          using d(2) r unfolding reads_on_def by metis
        then show ?thesis
        proof
          assume "oc_reader (cn_outer (cl_conns ?d c)) = rd"
          then show ?thesis using Suc.IH [OF d(1) next' q _ l] ms(2) by simp
        next
          assume "oc_raw (cn_outer (cl_conns ?d c))"
          then have "st' = ?d" using l by (cases fuel) (simp_all add: frames_loop.simps)
          then show ?thesis using q by simp
        qed
      qed
    qed
  qed
qed

subsection \<open>What a message leaves of its connection\<close>

definition ident :: "conn \<Rightarrow> conn_role \<times> challenge_secret option \<times> bytes option" where
  "ident k = (cn_role k, cn_challenge k, cn_static k)"

lemma ident_core: "core k' = core k \<Longrightarrow> ident k' = ident k"
  unfolding ident_def using coreD(1,3,4) [of k' k] by metis

lemma ident_updates [simp]:
  "ident (k\<lparr>cn_outer := x\<rparr>) = ident k" "ident (k\<lparr>cn_bridge := b\<rparr>) = ident k"
  "ident (k\<lparr>cn_dataKey := d\<rparr>) = ident k" "ident (k\<lparr>cn_ticket := t, cn_hostId := h\<rparr>) = ident k"
  by (simp_all add: ident_def)

lemma ident_drop [simp]:
  "ident (cl_conns (refuse c code st) k) = ident (cl_conns st k)"
  "ident (cl_conns (detach c st) k) = ident (cl_conns st k)"
  "ident (cl_conns (fail_conn c st) k) = ident (cl_conns st k)"
proof -
  have r: "ident (cl_conns (refuse c code st) k) = ident (cl_conns st k)" for code
    unfolding refuse_def by (subst ident_core [OF dropped_core]) simp
  then show "ident (cl_conns (refuse c code st) k) = ident (cl_conns st k)"
    "ident (cl_conns (fail_conn c st) k) = ident (cl_conns st k)" by (simp_all add: fail_conn_def)
  show "ident (cl_conns (detach c st) k) = ident (cl_conns st k)"
    unfolding detach_def by (rule ident_core [OF dropped_core])
qed

lemma ident_effects [simp]: "ident (cl_conns (raw_effects c es st) k) = ident (cl_conns st k)"
  by (induction c es st rule: raw_effects.induct) auto

lemma ident_on_outer [simp]: "ident (cl_conns (on_outer c op st) k) = ident (cl_conns st k)"
  by (auto simp: on_outer_def split: prod.splits)

lemma ident_splice [simp]: "ident (cl_conns (splice a c t st) k) = ident (cl_conns st k)"
  by (auto simp: splice_def Let_def)

text \<open>A message never gives its connection a challenge, nor a pending one another host id or key.\<close>

lemma identD:
  "ident k' = ident k \<Longrightarrow> cn_role k' = cn_role k \<and> cn_challenge k' = cn_challenge k \<and> cn_static k' = cn_static k"
  by (simp add: ident_def)

lemma hostId_drop [simp]: "cn_hostId (cl_conns (refuse c code st) k) = cn_hostId (cl_conns st k)"
  using coreD(2) [OF dropped_core [of c "send_msg c (CloseMsg code None) st" k]] by (simp add: refuse_def)

lemma dial_ident [simp]: "ident (cl_conns (completeHostDial C c t mac st) k) = ident (cl_conns st k)"
  by (cases rule: completeHostDial_cases [of C c t mac st]) (simp_all add: dialled_def)

lemma dial_fields [simp]:
  "cn_challenge (cl_conns (completeHostDial C c t mac st) k) = cn_challenge (cl_conns st k)"
  "cn_role (cl_conns (completeHostDial C c t mac st) k) = cn_role (cl_conns st k)"
  using dial_ident [of C c t mac st k] by (simp_all only: ident_def prod.inject)

lemma refuse_challenge [simp]:
  "cn_challenge (cl_conns (refuse c code st) k) = cn_challenge (cl_conns st k)"
  "cn_static (cl_conns (refuse c code st) k) = cn_static (cl_conns st k)"
  "cn_role (cl_conns (refuse c code st) k) = cn_role (cl_conns st k)"
  "cn_role (cl_conns (detach c st) k) = cn_role (cl_conns st k)"
  "cn_challenge (cl_conns (detach c st) k) = cn_challenge (cl_conns st k)"
  using ident_drop(1) [of c code st k] ident_drop(2) [of c st k] by (simp_all only: ident_def prod.inject)

lemma dispatch_challenge:
  fixes C c m
  assumes inv: "cell_inv st"
  defines "k \<equiv> cl_conns st c" and "k' \<equiv> cl_conns (dispatch C c m st) c"
  shows "cn_challenge k' = None \<or>
    cn_challenge k' = cn_challenge k \<and> cn_hostId k' = cn_hostId k \<and> cn_static k' = cn_static k"
proof (cases "cn_challenge k")
  case None
  have "cn_challenge (cl_conns (register_host c h key st) j) = cn_challenge (cl_conns st j)" for h key st j
    by (simp add: register_host_def Let_def split: option.splits)
  then have "cn_challenge k' = None"
    using None unfolding k_def k'_def
    by (simp add: dispatch_def classify_def onProof_def dropChallenge_def Let_def
        split: conn_role.splits outer_message.splits data_role.splits option.splits)
  then show ?thesis ..
next
  case (Some ch)
  then have "cn_role (cl_conns st c) = ControlPending"
    using cell_invD(1) [OF inv, of c] by (simp add: conn_ok_def k_def)
  then show ?thesis
    unfolding k_def k'_def
    by (auto simp: dispatch_def onProof_def dropChallenge_def register_host_def Let_def
        split: outer_message.splits option.splits)
qed

text \<open>A message on an unclassified connection that leaves it so changes nothing a dial depends on.\<close>

lemma unclassified_refuse:
  assumes inv: "cell_inv st" and r: "cn_role (cl_conns st c) = Unclassified"
  shows "dials C (refuse c code st) d m b = dials C st d m b"
proof -
  let ?s = "send_msg c (CloseMsg code None) st"
  have k: "cn_hostId (cl_conns st c) = None" "cn_ticket (cl_conns st c) = None"
    using cell_invD(1) [OF inv, of c] r by (simp_all add: conn_ok_def)
  have h: "aget (cl_hosts (refuse c code st)) h = aget (cl_hosts st) h" for h
    using k by (simp add: refuse_def cell_simps)
  have p: "aget (cl_pending (refuse c code st)) t = aget (cl_pending st) t" for t
    using k by (simp add: refuse_def cell_simps split: option.splits)
  have d: "cn_dataKey (cl_conns (refuse c code st) j) = cn_dataKey (cl_conns st j)"
    if "aget (cl_hosts st) h = Some j" for h j
  proof -
    have "j \<noteq> c" using host_facts(2) [OF inv that] r by auto
    then show ?thesis using dropped_dataKey [of j c ?s] by (simp add: refuse_def)
  qed
  have c: "cl_cellId (refuse c code st) = cl_cellId st" by (simp add: refuse_def cell_simps)
  show ?thesis unfolding dials_def h p c using d by metis
qed

lemma dispatch_unclassified:
  assumes "cn_role (cl_conns (dispatch C c m st) c) = Unclassified"
  shows "cn_role (cl_conns st c) = Unclassified \<and> (\<exists>code. dispatch C c m st = refuse c code st)"
proof -
  have reg: "cn_role (cl_conns (register_host c h key s) c) = Control" for h key s
    by (simp add: register_host_def Let_def)
  have "cn_role (cl_conns st c) = Unclassified"
    using assms
    by (auto simp: dispatch_def classify_def onProof_def dropChallenge_def Let_def reg
        split: conn_role.splits outer_message.splits data_role.splits option.splits if_splits)
  moreover from this have "\<exists>code. dispatch C c m st = refuse c code st"
    using assms
    by (auto simp: dispatch_def classify_def Let_def
        split: outer_message.splits data_role.splits if_splits)
  ultimately show ?thesis by blast
qed

subsection \<open>One event\<close>

definition inbound_messages :: "codec \<Rightarrow> cell \<Rightarrow> nat \<Rightarrow> bytes \<Rightarrow> outer_message list" where
  "inbound_messages J st c bs =
     (let rd = rd_push bs (oc_reader (cn_outer (cl_conns st c))) in messages J (Suc (rd_length rd)) rd)"

lemma registers_reader [simp]: "registers C (set_reader c rd st) c m h = registers C st c m h"
  by (simp add: registers_def set_reader_def)

lemma dials_reader [simp]: "dials C (set_reader c rd st) d m b = dials C st d m b"
  by (simp add: set_reader_def)

lemma loop_origin:
  assumes inv: "cell_inv st" and c: "c < cl_next st"
    and l: "frames_loop C J c fuel st = Some st'"
  defines "ms \<equiv> messages J fuel (oc_reader (cn_outer (cl_conns st c)))"
  shows "aget (cl_hosts st') h = Some k \<Longrightarrow> aget (cl_hosts st) h \<noteq> Some k \<Longrightarrow>
      k = c \<and> (\<exists>m \<in> set ms. registers C st c m h)"
    and "b \<in> set (cl_bridges st') \<Longrightarrow> b \<notin> set (cl_bridges st) \<Longrightarrow> \<exists>m \<in> set ms. dials C st c m b"
proof -
  let ?same = "\<lambda>s :: cell. cn_challenge (cl_conns s c) = None \<or>
    cn_challenge (cl_conns s c) = cn_challenge (cl_conns st c) \<and>
    cn_hostId (cl_conns s c) = cn_hostId (cl_conns st c) \<and> cn_static (cl_conns s c) = cn_static (cl_conns st c)"
  let ?Q = "\<lambda>s :: cell. (\<forall>h k. aget (cl_hosts s) h = Some k \<longrightarrow>
      aget (cl_hosts st) h = Some k \<or> k = c \<and> (\<exists>m \<in> set ms. registers C st c m h)) \<and> ?same s"
  have "?Q st'"
  proof (rule frames_loop_keeps [OF _ _ _ inv c _ _ l])
    fix s rd m
    assume s: "cell_inv s" "c < cl_next s" "?Q s" "m \<in> set ms" "\<not> oc_raw (cn_outer (cl_conns s c))" "rd_inv rd"
    let ?s = "set_reader c rd s"
    have i: "cell_inv ?s" by (rule inv_set_reader [OF s(1,2,5,6)])
    have q: "?Q ?s" using s(3) by (simp add: set_reader_def)
    have same: "?same (dispatch C c m ?s)"
      using dispatch_challenge [OF i, where C = C and c = c and m = m] conjunct2 [OF q] by presburger
    have "registers C st c m h" if "registers C ?s c m h" for h
      using that conjunct2 [OF q] unfolding registers_def by fastforce
    then have "aget (cl_hosts (dispatch C c m ?s)) h = Some k \<Longrightarrow>
      aget (cl_hosts ?s) h = Some k \<or> k = c \<and> (\<exists>m \<in> set ms. registers C st c m h)" for h k
      using dispatch_adds [of ?s C c m] s(4) by (fastforce simp: shrinks_def split: if_splits)
    then show "?Q (dispatch C c m ?s)" using conjunct1 [OF q] same by blast
  next
    fix s :: cell assume s: "cell_inv s" "?Q s"
    show "?Q (fail_conn c s)"
      using shrinks_drop(3) [of s c] s(2) by (auto simp: shrinks_def fail_conn_def)
  next
    fix s :: cell and rd assume "?Q s"
    then show "?Q (set_reader c rd s)" by (simp add: set_reader_def)
  qed (simp_all add: ms_def)
  then show "aget (cl_hosts st') h = Some k \<Longrightarrow> aget (cl_hosts st) h \<noteq> Some k \<Longrightarrow>
      k = c \<and> (\<exists>m \<in> set ms. registers C st c m h)" by blast
next
  let ?same = "\<lambda>s :: cell. cn_role (cl_conns s c) = Unclassified \<longrightarrow> (\<forall>m b. dials C s c m b = dials C st c m b)"
  let ?Q = "\<lambda>s :: cell. (\<forall>b \<in> set (cl_bridges s). b \<in> set (cl_bridges st) \<or> (\<exists>m \<in> set ms. dials C st c m b)) \<and> ?same s"
  have "?Q st'"
  proof (rule frames_loop_keeps [OF _ _ _ inv c _ _ l])
    fix s rd m
    assume s: "cell_inv s" "c < cl_next s" "?Q s" "m \<in> set ms" "\<not> oc_raw (cn_outer (cl_conns s c))" "rd_inv rd"
    let ?s = "set_reader c rd s"
    have i: "cell_inv ?s" by (rule inv_set_reader [OF s(1,2,5,6)])
    have q: "?Q ?s" using s(3) by (simp add: set_reader_def)
    have "?same (dispatch C c m ?s)"
    proof (intro impI allI)
      fix m' b
      assume "cn_role (cl_conns (dispatch C c m ?s) c) = Unclassified"
      then obtain code where u: "cn_role (cl_conns ?s c) = Unclassified" "dispatch C c m ?s = refuse c code ?s"
        using dispatch_unclassified by blast
      show "dials C (dispatch C c m ?s) c m' b = dials C st c m' b"
        unfolding u(2) unclassified_refuse [OF i u(1)] using conjunct2 [OF q] u(1) by blast
    qed
    moreover have "\<forall>b \<in> set (cl_bridges (dispatch C c m ?s)).
        b \<in> set (cl_bridges st) \<or> (\<exists>m \<in> set ms. dials C st c m b)"
    proof
      fix b assume b: "b \<in> set (cl_bridges (dispatch C c m ?s))"
      have "b \<in> set (cl_bridges ?s) \<or> cn_role (cl_conns ?s c) = Unclassified \<and> dials C ?s c m b"
        using dispatch_adds [of ?s C c m] b unfolding shrinks_def by (elim disjE exE conjE) auto
      then show "b \<in> set (cl_bridges st) \<or> (\<exists>m \<in> set ms. dials C st c m b)"
        using q s(4) by blast
    qed
    ultimately show "?Q (dispatch C c m ?s)" by blast
  next
    fix s :: cell assume s: "cell_inv s" "?Q s"
    show "?Q (fail_conn c s)"
      using shrinks_drop(3) [of s c] s(2) unclassified_refuse [OF s(1), of c]
      by (auto simp: shrinks_def fail_conn_def)
  next
    fix s :: cell and rd assume "?Q s"
    then show "?Q (set_reader c rd s)" by (simp add: set_reader_def) 
  qed (simp_all add: ms_def)
  then show "b \<in> set (cl_bridges st') \<Longrightarrow> b \<notin> set (cl_bridges st) \<Longrightarrow> \<exists>m \<in> set ms. dials C st c m b" by blast
qed

lemma receive_origin:
  assumes inv: "cell_inv st" and c: "c < cl_next st" and r: "conn_receive C J c bs st = Some st'"
  shows "aget (cl_hosts st') h = Some k \<Longrightarrow> aget (cl_hosts st) h \<noteq> Some k \<Longrightarrow>
      k = c \<and> (\<exists>m \<in> set (inbound_messages J st c bs). registers C st c m h)"
    and "b \<in> set (cl_bridges st') \<Longrightarrow> b \<notin> set (cl_bridges st) \<Longrightarrow>
      \<exists>m \<in> set (inbound_messages J st c bs). dials C st c m b"
proof -
  let ?oc = "cn_outer (cl_conns st c)"
  let ?rd = "rd_push bs (oc_reader ?oc)"
  let ?s = "set_reader c ?rd st"
  have rinv: "rd_inv (oc_reader ?oc)"
    using cell_invD(1) [OF inv, of c] by (simp add: conn_ok_def outer_ok_conn_def buffer_ok_def)
  have cases': "shrinks st st' \<or> (\<not> oc_raw ?oc \<and> frames_loop C J c (Suc (rd_length ?rd)) ?s = Some st')"
    using r shrinks_on_outer [of st c "deliverRaw bs"] by (auto simp: conn_receive_def Let_def split: if_splits)
  have s: "c < cl_next ?s" "cl_hosts ?s = cl_hosts st" "cl_bridges ?s = cl_bridges st"
    "messages J (Suc (rd_length ?rd)) (oc_reader (cn_outer (cl_conns ?s c))) = inbound_messages J st c bs"
    using c by (simp_all add: set_reader_def inbound_messages_def Let_def)
  have i: "cell_inv ?s" if "\<not> oc_raw ?oc"
    by (rule inv_set_reader [OF inv c that rd.inv_push [OF rinv]])
  show "aget (cl_hosts st') h = Some k \<Longrightarrow> aget (cl_hosts st) h \<noteq> Some k \<Longrightarrow>
      k = c \<and> (\<exists>m \<in> set (inbound_messages J st c bs). registers C st c m h)"
    using cases' loop_origin(1) [OF i s(1), of C J "Suc (rd_length ?rd)" st' h k] unfolding s
    by (auto simp: shrinks_def)
  show "b \<in> set (cl_bridges st') \<Longrightarrow> b \<notin> set (cl_bridges st) \<Longrightarrow>
      \<exists>m \<in> set (inbound_messages J st c bs). dials C st c m b"
    using cases' loop_origin(2) [OF i s(1), of C J "Suc (rd_length ?rd)" st' b] unfolding s
    by (auto simp: shrinks_def)
qed

lemma shrinks_close_all [simp]: "shrinks st (close_all cs st') = shrinks st st'"
  by (induction cs arbitrary: st') simp_all

lemma step_shrinks:
  assumes "cell_step C J e st = Some st'" and "\<And>c bs. e \<noteq> Inbound c bs"
  shows "shrinks st st'"
proof (cases e)
  case (KeySettles c h pub secret nonce)
  have "shrinks s (registrationKey C c h pub secret nonce s)" for s
    by (simp add: registrationKey_def Let_def split: option.splits)
  then show ?thesis using KeySettles assms(1) by (auto split: if_splits) (metis shrinks_from(7))
next
  case (TicketSettles c t rec now nonce)
  have "shrinks s (controllerTicket c t rec now nonce s)" for s
    by (auto simp: controllerTicket_def markTicketUsed_def Let_def shrinks_same split: option.splits)
  then show ?thesis using TicketSettles assms(1) by (auto split: if_splits) (metis shrinks_from(7))
next
  case (LookupRejects w)
  then obtain c ws where "st' = fail_conn c (st\<lparr>cl_waiting := ws\<rparr>)"
    using assms(1) by (auto split: if_splits)
  then show ?thesis by (metis shrinks_from(7) shrinks_drop(3))
next
  case (TimerFires h)
  then obtain t where st': "st' = onBridgeTimeout t (clear_timer h st)"
    using assms(1) by (auto split: option.splits)
  have "shrinks s (onBridgeTimeout t s)" for s
    by (auto simp: onBridgeTimeout_def split: option.splits)
  then show ?thesis unfolding st' by (metis shrinks_from(5))
next
  case CloseCell
  show ?thesis
  proof (cases "cl_closed st")
    case True
    then show ?thesis using CloseCell assms(1) by (simp add: cell_close_def)
  next
    case False
    then show ?thesis using CloseCell assms(1) cell_close_fields(3,5) [OF False] by (auto simp: shrinks_def)
  qed
qed (use assms in \<open>auto simp: accept_def cell_drain_def Let_def shrinks_same split: if_splits\<close>)

definition timers_ok :: "cell \<Rightarrow> bool" where
  "timers_ok st \<longleftrightarrow>
     (\<forall>t p. aget (cl_pending st) t = Some p \<longrightarrow> aget (cl_timers st) (pb_timer p) = Some t) \<and>
     (\<forall>h t. aget (cl_timers st) h = Some t \<longrightarrow> h < cl_nextTimer st)"

lemma timers_ok_fields:
  "cl_pending st' = cl_pending st \<Longrightarrow> cl_timers st' = cl_timers st \<Longrightarrow> cl_nextTimer st' = cl_nextTimer st \<Longrightarrow>
   timers_ok st' = timers_ok st"
  by (simp add: timers_ok_def)

lemma timers_ok_simple [simp]:
  "timers_ok (send_msg c m st) = timers_ok st" "timers_ok (send_raw c bs st) = timers_ok st"
  "timers_ok (logged e st) = timers_ok st" "timers_ok (set_conn c f st) = timers_ok st"
  "timers_ok (close_conn c st) = timers_ok st" "timers_ok (st\<lparr>cl_waiting := ws\<rparr>) = timers_ok st"
  "timers_ok (st\<lparr>cl_next := n\<rparr>) = timers_ok st" "timers_ok (st\<lparr>cl_bridges := brs\<rparr>) = timers_ok st"
  "timers_ok (st\<lparr>cl_hosts := hs\<rparr>) = timers_ok st" "timers_ok (st\<lparr>cl_used := us\<rparr>) = timers_ok st"
  "timers_ok (st\<lparr>cl_draining := d\<rparr>) = timers_ok st"
  by (rule timers_ok_fields; simp)+

lemma timers_ok_settled:
  assumes "timers_ok st" and "aget (cl_pending st) t = Some p"
  shows "timers_ok ((clear_timer (pb_timer p) st)\<lparr>cl_pending := adel t (cl_pending st)\<rparr>)"
  using assms unfolding timers_ok_def by (auto split: if_splits) (metis option.inject)

lemma timers_ok_fired:
  assumes "timers_ok st" and "aget (cl_timers st) h = Some t"
  shows "timers_ok (st\<lparr>cl_timers := adel h (cl_timers st), cl_pending := adel t (cl_pending st)\<rparr>)"
  using assms unfolding timers_ok_def by (auto split: if_splits)

lemma timers_ok_cleanup: "timers_ok st \<Longrightarrow> timers_ok (cleanup c st)"
proof -
  assume k: "timers_ok st"
  have "timers_ok (cleanup_host c st)" using k by (simp add: cleanup_host_def split: option.splits)
  then have "timers_ok (cleanup_pending c (cleanup_host c st))"
    using timers_ok_settled [of "cleanup_host c st"] by (simp add: cleanup_pending_def split: option.splits)
  then show ?thesis by (simp add: cleanup_def cleanup_bridge_def Let_def split: option.splits)
qed

lemma timers_ok_drop [simp]:
  "timers_ok st \<Longrightarrow> timers_ok (refuse c code st)" "timers_ok st \<Longrightarrow> timers_ok (detach c st)"
  "timers_ok st \<Longrightarrow> timers_ok (fail_conn c st)"
  by (simp_all add: refuse_def detach_def fail_conn_def timers_ok_cleanup)

lemma timers_ok_effects: "timers_ok st \<Longrightarrow> timers_ok (raw_effects c es st)"
  by (induction c es st rule: raw_effects.induct) simp_all

lemma timers_ok_on_outer [simp]: "timers_ok st \<Longrightarrow> timers_ok (on_outer c op st)"
  by (simp add: on_outer_def timers_ok_effects split: prod.splits)

lemma timers_ok_splice: "timers_ok st \<Longrightarrow> timers_ok (splice a c t st)"
  by (simp add: splice_def Let_def)

lemma timers_ok_dial: "timers_ok st \<Longrightarrow> timers_ok (completeHostDial C c t mac st)"
  by (cases rule: completeHostDial_cases [of C c t mac st])
    (simp_all add: timers_ok_splice dialled_def timers_ok_settled)

lemma timers_ok_onProof: "timers_ok st \<Longrightarrow> timers_ok (onProof C c m st)"
  by (simp add: onProof_def dropChallenge_def register_host_def Let_def
      split: outer_message.splits option.splits)

lemma timers_ok_dispatch: "timers_ok st \<Longrightarrow> timers_ok (dispatch C c m st)"
  by (simp add: dispatch_def classify_def Let_def timers_ok_onProof timers_ok_dial
      split: conn_role.splits outer_message.splits data_role.splits)

lemma timers_ok_receive:
  assumes "cell_inv st" and "c < cl_next st" and "timers_ok st" and "conn_receive C J c bs st = Some st'"
  shows "timers_ok st'"
proof -
  let ?oc = "cn_outer (cl_conns st c)"
  let ?rd = "rd_push bs (oc_reader ?oc)"
  let ?s = "set_reader c ?rd st"
  consider "st' = st" | "st' = on_outer c (deliverRaw bs) st"
    | "\<not> oc_raw ?oc" "frames_loop C J c (Suc (rd_length ?rd)) ?s = Some st'"
    using assms(4) by (auto simp: conn_receive_def Let_def split: if_splits)
  then show ?thesis
  proof cases
    case 3
    have "rd_inv (oc_reader ?oc)"
      using cell_invD(1) [OF assms(1), of c] by (simp add: conn_ok_def outer_ok_conn_def buffer_ok_def)
    then have i: "cell_inv ?s" by (intro inv_set_reader [OF assms(1,2) 3(1)] rd.inv_push)
    have "timers_ok ?s" "c < cl_next ?s" using assms by (simp_all add: set_reader_def)
    then show ?thesis
      by (intro frames_loop_keeps [where Q = timers_ok and ms = "messages J (Suc (rd_length ?rd)) ?rd",
          OF _ _ _ i _ _ _ 3(2)])
        (simp_all add: set_reader_def timers_ok_dispatch)
  qed (use assms(3) in simp_all)
qed

lemma timers_ok_ticket:
  assumes "timers_ok st"
  shows "timers_ok (controllerTicket c t rec now nonce st)"
proof -
  let ?h = "cl_nextTimer st"
  have new: "timers_ok (st\<lparr>cl_nextTimer := Suc ?h, cl_timers := aset ?h t (cl_timers st),
      cl_pending := aset t \<lparr>pb_hostId = i, pb_controller = c, pb_timer = ?h, pb_nonce = nonce\<rparr> (cl_pending st)\<rparr>)" for i
    using assms unfolding timers_ok_def by (auto split: if_splits simp: less_Suc_eq) fastforce+
  have "timers_ok (st1\<lparr>cl_nextTimer := Suc ?h, cl_timers := aset ?h t (cl_timers st),
      cl_pending := aset t \<lparr>pb_hostId = i, pb_controller = c, pb_timer = ?h, pb_nonce = nonce\<rparr> (cl_pending st)\<rparr>)"
    for st1 i using new [of i] by (simp add: timers_ok_def)
  then show ?thesis using assms
    by (auto simp: controllerTicket_def markTicketUsed_def Let_def split: option.splits)
qed

lemma timers_ok_step:
  assumes inv: "cell_inv st" and t: "timers_ok st" and s: "cell_step C J e st = Some st'"
  shows "timers_ok st'"
proof (cases e)
  case (Inbound c bs)
  then show ?thesis using timers_ok_receive [OF inv _ t] s by (auto split: if_splits)
next
  case (KeySettles c h pub secret nonce)
  then show ?thesis using s t
    by (auto simp: registrationKey_def Let_def split: if_splits option.splits)
next
  case (TicketSettles c t rec now nonce)
  then show ?thesis using s t timers_ok_ticket by (auto split: if_splits)
next
  case (TimerFires h)
  then obtain tk where k: "aget (cl_timers st) h = Some tk" "st' = onBridgeTimeout tk (clear_timer h st)"
    using s by (auto split: option.splits)
  note f = timers_ok_fired [OF t k(1)]
  show ?thesis
  proof (cases "aget (cl_pending st) tk")
    case None
    then have "adel tk (cl_pending st) = cl_pending st"
      unfolding adel_def by (force simp: filter_id_conv map_of_eq_None_iff)
    then have "timers_ok (clear_timer h st)" using f unfolding clear_timer_def by (simp add: timers_ok_def)
    then show ?thesis using None k(2) by (simp add: onBridgeTimeout_def)
  next
    case (Some p)
    have "timers_ok ((clear_timer h st)\<lparr>cl_pending := adel tk (cl_pending st)\<rparr>)"
      using f by (simp add: timers_ok_def)
    then show ?thesis using Some k(2) by (simp add: onBridgeTimeout_def)
  qed
next
  case CloseCell
  have all: "timers_ok (close_all cs s) = timers_ok s" for cs s by (induction cs arbitrary: s) simp_all
  have ct: "\<forall>h t. aget (cl_timers (clear_timers hs s)) h = Some t \<longrightarrow> h < cl_nextTimer (clear_timers hs s)"
    if "\<forall>h t. aget (cl_timers s) h = Some t \<longrightarrow> h < cl_nextTimer s" for hs s
    using that by (induction hs arbitrary: s) simp_all
  have nt: "timers_ok ((close_all cs s)\<lparr>cl_pending := []\<rparr>) = timers_ok (s\<lparr>cl_pending := []\<rparr>)" for cs s
  proof (induction cs arbitrary: s)
    case (Cons c cs)
    have "timers_ok ((close_conn c s)\<lparr>cl_pending := []\<rparr>) = timers_ok (s\<lparr>cl_pending := []\<rparr>)"
      by (simp add: timers_ok_def)
    then show ?case using Cons by simp
  qed simp
  have "timers_ok ((clear_timers hs (st\<lparr>cl_closed := True\<rparr>))\<lparr>cl_pending := []\<rparr>)" for hs
    using ct [of "st\<lparr>cl_closed := True\<rparr>" hs] t by (simp add: timers_ok_def)
  then show ?thesis using CloseCell s t by (auto simp: cell_close_def Let_def all nt)
next
  case Drain
  have "timers_ok (send_all_hosts cs m s) = timers_ok s" for cs m s by (induction cs arbitrary: s) simp_all
  then show ?thesis using Drain s t by (auto simp: cell_drain_def)
qed (use s t in \<open>auto simp: accept_def Let_def split: if_splits\<close>)

lemma cell_reach_timers: "cell_reach C J cellId st \<Longrightarrow> timers_ok st"
proof (induction rule: cell_reach.induct)
  case init
  then show ?case by (simp add: timers_ok_def createCell_def)
next
  case (step st e st')
  then show ?case using timers_ok_step cell_reach_inv by blast
qed

definition ends_ok :: "cell \<Rightarrow> bool" where
  "ends_ok st \<longleftrightarrow>
     (\<forall>c b. cn_bridge (cl_conns st c) = Some b \<longrightarrow> c = br_controller b \<or> c = br_host b)"

lemma ends_ok_less:
  assumes "ends_ok st" and "\<And>k. cn_bridge (cl_conns st' k) = None \<or> cn_bridge (cl_conns st' k) = cn_bridge (cl_conns st k)"
  shows "ends_ok st'"
  using assms unfolding ends_ok_def by (metis option.distinct(1))

lemma ends_ok_same: "cl_conns st' = cl_conns st \<Longrightarrow> ends_ok st' = ends_ok st"
  by (simp add: ends_ok_def)

lemma ends_ok_simple [simp]:
  "ends_ok (send_msg c m st) = ends_ok st" "ends_ok (send_raw c bs st) = ends_ok st"
  "ends_ok (logged e st) = ends_ok st" "ends_ok (clear_timer h st) = ends_ok st"
  "ends_ok (st\<lparr>cl_waiting := ws\<rparr>) = ends_ok st" "ends_ok (st\<lparr>cl_pending := ps\<rparr>) = ends_ok st"
  "ends_ok (st\<lparr>cl_next := n\<rparr>) = ends_ok st" "ends_ok (st\<lparr>cl_bridges := brs\<rparr>) = ends_ok st"
  "ends_ok (st\<lparr>cl_hosts := hs\<rparr>) = ends_ok st" "ends_ok (st\<lparr>cl_used := us\<rparr>) = ends_ok st"
  "ends_ok (st\<lparr>cl_draining := d\<rparr>) = ends_ok st" "ends_ok (st\<lparr>cl_closed := d\<rparr>) = ends_ok st"
  "ends_ok (st\<lparr>cl_nextTimer := n\<rparr>) = ends_ok st" "ends_ok (st\<lparr>cl_timers := ts\<rparr>) = ends_ok st"
  by (rule ends_ok_same; simp)+

lemma ends_ok_set_conn [simp]:
  "(\<And>k. cn_bridge (f k) = cn_bridge k) \<Longrightarrow> ends_ok st \<Longrightarrow> ends_ok (set_conn c f st)"
  by (erule ends_ok_less) simp

lemma ends_ok_close_conn [simp]: "ends_ok st \<Longrightarrow> ends_ok (close_conn c st)"
  by (erule ends_ok_less) simp

lemma ends_ok_cleanup: "ends_ok st \<Longrightarrow> ends_ok (cleanup c st)"
  by (erule ends_ok_less) (simp add: cleanup_conns closed_end_def Let_def split: option.splits)

lemma ends_ok_drop [simp]:
  "ends_ok st \<Longrightarrow> ends_ok (refuse c code st)" "ends_ok st \<Longrightarrow> ends_ok (detach c st)"
  "ends_ok st \<Longrightarrow> ends_ok (fail_conn c st)"
  by (simp_all add: refuse_def detach_def fail_conn_def ends_ok_cleanup)

lemma ends_ok_effects: "ends_ok st \<Longrightarrow> ends_ok (raw_effects c es st)"
  by (induction c es st rule: raw_effects.induct) simp_all

lemma ends_ok_on_outer [simp]: "ends_ok st \<Longrightarrow> ends_ok (on_outer c op st)"
  by (simp add: on_outer_def ends_ok_effects split: prod.splits)

lemma ends_ok_splice: "ends_ok st \<Longrightarrow> ends_ok (splice a c t st)"
proof -
  assume e: "ends_ok st"
  let ?b = "\<lparr>br_ticket = t, br_controller = a, br_host = c\<rparr>"
  have "ends_ok (set_conn c (\<lambda>k. k\<lparr>cn_bridge := Some ?b\<rparr>) (set_conn a (\<lambda>k. k\<lparr>cn_bridge := Some ?b\<rparr>)
      (st\<lparr>cl_bridges := brs\<rparr>)))" for brs
    using e by (auto simp: ends_ok_def)
  then show ?thesis by (simp add: splice_def Let_def)
qed

lemma ends_ok_dial: "ends_ok st \<Longrightarrow> ends_ok (completeHostDial C c t mac st)"
  by (cases rule: completeHostDial_cases [of C c t mac st]) (simp_all add: ends_ok_splice dialled_def)

lemma ends_ok_onProof: "ends_ok st \<Longrightarrow> ends_ok (onProof C c m st)"
  by (simp add: onProof_def dropChallenge_def register_host_def Let_def
      split: outer_message.splits option.splits)

lemma ends_ok_dispatch: "ends_ok st \<Longrightarrow> ends_ok (dispatch C c m st)"
  by (simp add: dispatch_def classify_def Let_def ends_ok_onProof ends_ok_dial
      split: conn_role.splits outer_message.splits data_role.splits)

lemma ends_ok_frames: "frames_loop C J c fuel st = Some st' \<Longrightarrow> ends_ok st \<Longrightarrow> ends_ok st'"
proof (induction fuel arbitrary: st)
  case (Suc fuel)
  then show ?case
    by (auto simp: frames_loop.simps Let_def set_reader_def ends_ok_dispatch dest!: Suc.IH
        split: if_splits frame_read.splits option.splits)
qed (simp add: frames_loop.simps)

lemma ends_ok_receive: "conn_receive C J c bs st = Some st' \<Longrightarrow> ends_ok st \<Longrightarrow> ends_ok st'"
  using ends_ok_frames [of C J c _ "set_reader c (rd_push bs (oc_reader (cn_outer (cl_conns st c)))) st" st']
  by (auto simp: conn_receive_def Let_def set_reader_def split: if_splits)

lemma ends_ok_step:
  assumes t: "ends_ok st" and s: "cell_step C J e st = Some st'"
  shows "ends_ok st'"
proof (cases e)
  case (Inbound c bs)
  then show ?thesis using ends_ok_receive [of C J c bs st st'] s t by (auto split: if_splits)
next
  case (KeySettles c h pub secret nonce)
  then show ?thesis using s t
    by (auto simp: registrationKey_def Let_def split: if_splits option.splits)
next
  case (TicketSettles c t rec now nonce)
  then show ?thesis using s \<open>ends_ok st\<close>
    by (auto simp: controllerTicket_def markTicketUsed_def Let_def split: if_splits option.splits)
next
  case (TimerFires h)
  then show ?thesis using s t by (auto simp: onBridgeTimeout_def split: option.splits)
next
  case CloseCell
  have all: "ends_ok s \<Longrightarrow> ends_ok (close_all cs s)" for cs s by (induction cs arbitrary: s) simp_all
  have ct: "ends_ok s \<Longrightarrow> ends_ok (clear_timers hs s)" for hs s by (induction hs arbitrary: s) simp_all
  show ?thesis using CloseCell s t by (auto simp: cell_close_def Let_def all ct)
next
  case Drain
  have "ends_ok (send_all_hosts cs m s) = ends_ok s" for cs m s by (induction cs arbitrary: s) simp_all
  then show ?thesis using Drain s t by (auto simp: cell_drain_def)
qed (use s t in \<open>auto simp: accept_def Let_def split: if_splits\<close>)

lemma cell_reach_ends: "cell_reach C J cellId st \<Longrightarrow> ends_ok st"
proof (induction rule: cell_reach.induct)
  case init
  then show ?case by (simp add: ends_ok_def createCell_def new_conn_def)
next
  case (step st e st')
  then show ?case using ends_ok_step by blast
qed

text \<open>Dropping a connection that no raw handler was registered on.\<close>

lemma drop_alone:
  assumes inv: "cell_inv st" and e: "ends_ok st" and h: "oc_handler (cn_outer (cl_conns st c)) = None"
    and k: "k \<noteq> c"
  shows "cl_conns (refuse c code st) k = cl_conns st k"
proof -
  let ?s = "send_msg c (CloseMsg code None) st"
  have "live ?s c = None"
  proof (cases "live st c")
    case None
    then show ?thesis by (simp add: live_None)
  next
    case (Some b)
    then have b: "cn_bridge (cl_conns st c) = Some b" "b \<in> set (cl_bridges st)" by (simp_all add: live_Some)
    then have "c = br_controller b \<or> c = br_host b" using e by (simp add: ends_ok_def)
    then show ?thesis using h b(2) cell_invD(5) [OF inv] unfolding bridges_ok_def by auto
  qed
  then show ?thesis using dropped_conns [OF k, of ?s] by (simp add: refuse_def)
qed

end
