(* ===== verification/CellRun.thy ===== *)
theory CellRun
  imports CellEnds DemoCodec HostAdapter
begin

text \<open>
  Runs of the cell, message by message: a chunk that is exactly one frame is that message
  dispatched. With it, a concrete run from an empty cell to a spliced bridge.
\<close>

lemma be_bytes_nonempty [simp]: "be_bytes 4 n \<noteq> []"
  by (metis length_be_bytes list.size(3) zero_neq_numeral)

lemma rd_next_one:
  assumes "length body \<le> MAX_OUTER_MESSAGE_BYTES"
  shows "rd_next (rd_push (frame_bytes body) empty_reader) = Frame body empty_reader"
proof -
  have small: "length body < 2 ^ 32" using assms by (simp add: MAX_OUTER_MESSAGE_BYTES_def)
  let ?q = "rd_push (frame_bytes body) empty_reader"
  have q: "?q = \<lparr>rd_chunks = [frame_bytes body], rd_length = 4 + length body\<rparr>"
    by (simp add: rd_push_def empty_reader_def frame_bytes_def)
  have inv: "rd_inv ?q" and content: "rd_content ?q = frame_bytes body"
    unfolding q by (simp_all add: rd_inv_def rd_content_def frame_bytes_def)
  have peek: "rd_peekUint32BE ?q = length body"
    using rd.peek_content [OF inv] small unfolding content by (simp add: frame_bytes_def be_nat_be_bytes)
  have hd: "rd_take 4 ?q = (be_bytes 4 (length body),
      \<lparr>rd_chunks = (if body = [] then [] else [body]), rd_length = length body\<rparr>)"
    unfolding q by (simp add: rd_take_def frame_bytes_def)
  have tl: "rd_take (length body) \<lparr>rd_chunks = (if body = [] then [] else [body]), rd_length = length body\<rparr> =
      (body, empty_reader)"
    by (simp add: rd_take_def empty_reader_def)
  show ?thesis using assms peek hd tl
    by (simp add: rd_next_def read_frame_def q [symmetric]) (simp add: q)
qed

lemma rd_next_empty: "rd_next empty_reader = NeedMore"
  by (simp add: rd_next_def read_frame_def empty_reader_def)

text \<open>Framed, open, and holding no partial frame.\<close>

definition fresh :: "cell \<Rightarrow> nat \<Rightarrow> bool" where
  "fresh st c \<longleftrightarrow> c < cl_next st \<and> \<not> conn_closed st c \<and> \<not> oc_raw (cn_outer (cl_conns st c)) \<and>
     oc_reader (cn_outer (cl_conns st c)) = empty_reader"

lemma set_reader_same: "oc_reader (cn_outer (cl_conns st c)) = rd \<Longrightarrow> set_reader c rd st = st"
proof -
  assume "oc_reader (cn_outer (cl_conns st c)) = rd"
  then have "(cl_conns st c)\<lparr>cn_outer := (cn_outer (cl_conns st c))\<lparr>oc_reader := rd\<rparr>\<rparr> = cl_conns st c" by simp
  then show ?thesis by (simp add: set_reader_def set_conn_def)
qed

lemma set_reader_twice: "set_reader c rd' (set_reader c rd st) = set_reader c rd' st"
  by (simp add: set_reader_def set_conn_def)

lemma receive_one:
  assumes inv: "cell_inv st" and f: "fresh st c"
    and J: "codec_ok J" and F: "encodeOuterMessage J m = Some F"
  shows "cell_step C J (Inbound c F) st = Some (dispatch C c m st)"
proof -
  let ?body = "json_encode J m"
  let ?oc = "cn_outer (cl_conns st c)"
  have m: "json_decode J ?body = Some m" "length ?body \<le> MAX_OUTER_MESSAGE_BYTES" "F = frame_bytes ?body"
    using J F by (simp_all add: codec_ok_def encodeOuterMessage_def Let_def split: if_splits)
  have c: "c < cl_next st" "\<not> oc_closed ?oc" "\<not> oc_raw ?oc" "oc_reader ?oc = empty_reader"
    using f by (simp_all add: fresh_def conn_closed_def)
  let ?rd = "rd_push F empty_reader"
  have len: "rd_length ?rd = Suc (3 + length ?body)"
    by (simp add: m(3) rd_push_def empty_reader_def frame_bytes_def)
  have r: "oc_reader (cn_outer (cl_conns (set_reader c ?rd st) c)) = ?rd"
      "oc_raw (cn_outer (cl_conns (set_reader c ?rd st) c)) = oc_raw ?oc"
    by (simp_all add: set_reader_def)
  have s: "set_reader c empty_reader (set_reader c ?rd st) = st"
    using set_reader_same [OF c(4)] by (simp add: set_reader_twice)
  let ?d = "dispatch C c m st"
  have d: "oc_reader (cn_outer (cl_conns ?d c)) = empty_reader \<or> oc_raw (cn_outer (cl_conns ?d c))"
    using inv_dispatch(2) [OF inv c(1), of C m] c(4) unfolding reads_on_def by metis
  have "frames_loop C J c (Suc (3 + length ?body)) ?d = Some ?d"
    by (subst frames_loop.simps(2)) (use d in \<open>auto simp: rd_next_empty Let_def\<close>)
  moreover have "frames_loop C J c (Suc (Suc (3 + length ?body))) (set_reader c ?rd st) =
      frames_loop C J c (Suc (3 + length ?body)) ?d"
    using c m(1) rd_next_one [OF m(2)] s r
    by (subst frames_loop.simps(2)) (simp add: Let_def m(3))
  ultimately show ?thesis using c by (simp add: conn_receive_def Let_def len)
qed

subsection \<open>A registration and a dial, on any cell\<close>

lemma onProof_accepted:
  assumes k: "cn_role (cl_conns st c) = ControlPending" "cn_challenge (cl_conns st c) = Some ch"
      "cn_hostId (cl_conns st c) = Some h" "cn_static (cl_conns st c) = Some pub"
    and v: "verifyProof C ch h pub mac" "cellDataAuthKey C ch pub = Some key"
  shows "dispatch C c (HostProofMsg mac) st = register_host c h key (dropChallenge c st)"
  using k v by (simp add: dispatch_def onProof_def Let_def)

lemma register_host_fields:
  "aget (cl_hosts (register_host c h key st)) h' = (if h' = h then Some c else aget (cl_hosts st) h')"
  "cn_role (cl_conns (register_host c h key st) c) = Control"
  "cn_dataKey (cl_conns (register_host c h key st) c) = Some key"
  "cn_challenge (cl_conns (register_host c h key st) c) = cn_challenge (cl_conns st c)"
  by (simp_all add: register_host_def Let_def split: option.splits)

lemma dial_accepted:
  assumes "cn_role (cl_conns st c) = Unclassified" and p: "aget (cl_pending st) t = Some p"
    and h: "aget (cl_hosts st) (pb_hostId p) = Some control" "cn_dataKey (cl_conns st control) = Some key"
    and n: "control \<noteq> c"
  shows "dispatch C c (DataAuth HostRole t (Some (dataAuthMac C key (cl_cellId st) t (pb_nonce p)))) st =
    splice (pb_controller p) c t (dialled c t p (set_conn c (\<lambda>k. k\<lparr>cn_role := HostData\<rparr>) st))"
  using assms by (simp add: dispatch_def classify_def completeHostDial_def dialled_def verifyDataAuthMac_iff Let_def)

lemma dial_refused:
  assumes "cn_role (cl_conns st c) = Unclassified" and p: "aget (cl_pending st) t = Some p"
    and h: "\<And>control key m. aget (cl_hosts st) (pb_hostId p) = Some control \<Longrightarrow> control \<noteq> c \<Longrightarrow>
      cn_dataKey (cl_conns st control) = Some key \<Longrightarrow> mac = Some m \<Longrightarrow>
      m \<noteq> dataAuthMac C key (cl_cellId st) t (pb_nonce p)"
    and n: "aget (cl_hosts st) (pb_hostId p) \<noteq> Some c"
  shows "dispatch C c (DataAuth HostRole t mac) st =
    refuse c DataAuthFailed (set_conn c (\<lambda>k. k\<lparr>cn_role := HostData\<rparr>) st)"
  using assms
  by (auto simp: dispatch_def classify_def completeHostDial_def verifyDataAuthMac_iff Let_def
      split: option.splits)

subsection \<open>A concrete run\<close>

text \<open>Connection 0 is host \<open>h\<close>'s control connection, 1 a controller's, 2 the host's dial.\<close>

definition demo_waiting :: cell where
  "demo_waiting = dispatch demo_crypto 0 (HostHello ''h'') (accept (createCell ''c''))"

definition demo_challenged :: cell where
  "demo_challenged = registrationKey demo_crypto 0 ''h'' (Some (x_public demo_crypto [5])) [6] (replicate 32 7)
     (demo_waiting\<lparr>cl_waiting := []\<rparr>)"

definition demo_mac :: bytes where
  "demo_mac = the (proveHost demo_crypto (public_part (makeChallenge demo_crypto ''c'' [6] (replicate 32 7))) ''h'' [5])"

definition demo_registered :: cell where
  "demo_registered = dispatch demo_crypto 0 (HostProofMsg demo_mac) demo_challenged"

definition demo_asked :: cell where
  "demo_asked = dispatch demo_crypto 1 (DataAuth ControllerRole demo_ticket None) (accept demo_registered)"

definition demo_pending :: cell where
  "demo_pending = accept (controllerTicket 1 demo_ticket (Some \<lparr>tr_hostId = ''h'', tr_expiresAt = 10\<rparr>) 5
     (replicate 32 9) (demo_asked\<lparr>cl_waiting := []\<rparr>))"

lemma demo_frame: "outer_ok m \<Longrightarrow> length (demo_encode m) \<le> 16384 \<Longrightarrow> \<exists>F. encodeOuterMessage demo_codec m = Some F"
  by (simp add: encodeOuterMessage_def Let_def MAX_OUTER_MESSAGE_BYTES_def)

lemma demo_message:
  assumes "cell_reach demo_crypto demo_codec ''c'' st" and "fresh st c"
    and "outer_ok m" and "length (demo_encode m) \<le> 16384"
  shows "cell_reach demo_crypto demo_codec ''c'' (dispatch demo_crypto c m st)"
proof -
  obtain F where F: "encodeOuterMessage demo_codec m = Some F" using demo_frame [OF assms(3,4)] by blast
  have "cell_inv st" using cell_reach_inv [OF assms(1)] by blast
  from cell_reach.step [OF assms(1) receive_one [OF this assms(2) demo_codec_ok F]] show ?thesis .
qed

lemma demo_accept: "cell_reach C J cellId st \<Longrightarrow> cell_reach C J cellId (accept st)"
  by (rule cell_reach.step [where e = Accept]) simp_all

lemma demo_waiting_facts:
  "cell_reach demo_crypto demo_codec ''c'' demo_waiting" "cl_waiting demo_waiting = [StaticKeyOf 0 ''h'']"
  "cl_next demo_waiting = 1" "\<not> cl_closed demo_waiting" "\<not> conn_closed demo_waiting 0"
  "cl_cellId demo_waiting = ''c''"
  unfolding demo_waiting_def
  by (rule demo_message [OF demo_accept [OF cell_reach.init]])
    (simp_all add: fresh_def accept_def createCell_def dispatch_def classify_def Let_def conn_closed_def
      new_conn_def new_outer_def)

abbreviation "demo_ch \<equiv> makeChallenge demo_crypto ''c'' [6] (replicate 32 7)"

lemma demo_challenged_facts:
  "cell_reach demo_crypto demo_codec ''c'' demo_challenged" "fresh demo_challenged 0"
  "cl_waiting demo_challenged = []" "cl_next demo_challenged = 1" "\<not> cl_closed demo_challenged"
  "cn_role (cl_conns demo_challenged 0) = ControlPending"
  "cn_challenge (cl_conns demo_challenged 0) = Some demo_ch"
  "cn_hostId (cl_conns demo_challenged 0) = Some ''h''"
  "cn_static (cl_conns demo_challenged 0) = Some (x_public demo_crypto [5])"
  "cl_hosts demo_challenged = []" "cl_pending demo_challenged = []" "cl_bridges demo_challenged = []"
  "cl_used demo_challenged = []" "cl_cellId demo_challenged = ''c''" "cl_draining demo_challenged = False"
proof -
  have s: "cell_step demo_crypto demo_codec (KeySettles 0 ''h'' (Some (x_public demo_crypto [5])) [6] (replicate 32 7))
      demo_waiting = Some demo_challenged"
    by (simp add: demo_waiting_facts demo_challenged_def)
  show "cell_reach demo_crypto demo_codec ''c'' demo_challenged"
    by (rule cell_reach.step [OF demo_waiting_facts(1) s])
  note d = demo_challenged_def demo_waiting_def registrationKey_def dispatch_def classify_def accept_def
    createCell_def Let_def new_conn_def new_outer_def conn_closed_def fresh_def
  show "fresh demo_challenged 0" "cl_waiting demo_challenged = []" "cl_next demo_challenged = 1"
    "\<not> cl_closed demo_challenged" "cn_role (cl_conns demo_challenged 0) = ControlPending"
    "cn_challenge (cl_conns demo_challenged 0) = Some demo_ch"
    "cn_hostId (cl_conns demo_challenged 0) = Some ''h''"
    "cn_static (cl_conns demo_challenged 0) = Some (x_public demo_crypto [5])"
    "cl_hosts demo_challenged = []" "cl_pending demo_challenged = []" "cl_bridges demo_challenged = []"
    "cl_used demo_challenged = []" "cl_cellId demo_challenged = ''c''" "cl_draining demo_challenged = False"
    by (simp_all add: d)
qed

lemma demo_proof: "proveHost demo_crypto (public_part demo_ch) ''h'' [5] = Some demo_mac"
  "length demo_mac = 32" "hc_pub demo_ch = x_public demo_crypto (hc_secret demo_ch)"
proof -
  show p: "proveHost demo_crypto (public_part demo_ch) ''h'' [5] = Some demo_mac"
    unfolding demo_mac_def by (simp add: proveHost_def demo_crypto_def)
  show "length demo_mac = 32"
    unfolding demo_mac_def by (simp add: proveHost_def demo_crypto_def computeMac_def)
  show "hc_pub demo_ch = x_public demo_crypto (hc_secret demo_ch)" by (simp add: makeChallenge_def)
qed

lemmas demo_accepted = proof_accepted [OF demo_dh_commutes demo_proof(3,1)]

lemma demo_registered_facts:
  "cell_reach demo_crypto demo_codec ''c'' demo_registered" "fresh demo_registered 0"
  "cl_waiting demo_registered = []" "cl_next demo_registered = 1" "\<not> cl_closed demo_registered"
  "cl_hosts demo_registered = [(''h'', 0)]" "cl_pending demo_registered = []" "cl_bridges demo_registered = []"
  "cl_used demo_registered = []" "cl_cellId demo_registered = ''c''" "cl_draining demo_registered = False"
  "cn_role (cl_conns demo_registered 0) = Control"
  "cn_dataKey (cl_conns demo_registered 0) = hostDataAuthKey demo_crypto (public_part demo_ch) [5]"
proof -
  note f = demo_challenged_facts
  show "cell_reach demo_crypto demo_codec ''c'' demo_registered"
    unfolding demo_registered_def
    by (rule demo_message [OF f(1,2)]) (simp_all add: demo_proof)
  obtain key where key: "cellDataAuthKey demo_crypto demo_ch (x_public demo_crypto [5]) = Some key"
    using demo_accepted(3) by blast
  have e: "demo_registered = register_host 0 ''h'' key (dropChallenge 0 demo_challenged)"
    unfolding demo_registered_def by (rule onProof_accepted [OF f(6-9) demo_accepted(1) key])
  note d = register_host_def dropChallenge_def Let_def f fresh_def conn_closed_def
  have "\<not> oc_closed (cn_outer (cl_conns demo_challenged 0))" "\<not> oc_raw (cn_outer (cl_conns demo_challenged 0))"
    "oc_reader (cn_outer (cl_conns demo_challenged 0)) = empty_reader"
    using f(2) by (simp_all add: fresh_def conn_closed_def)
  then show "fresh demo_registered 0" "cl_waiting demo_registered = []" "cl_next demo_registered = 1"
    "\<not> cl_closed demo_registered" "cl_hosts demo_registered = [(''h'', 0)]"
    "cl_pending demo_registered = []" "cl_bridges demo_registered = []"
    "cl_used demo_registered = []" "cl_cellId demo_registered = ''c''" "cl_draining demo_registered = False"
    "cn_role (cl_conns demo_registered 0) = Control"
    by (simp_all add: e register_host_def dropChallenge_def Let_def f(3-15) fresh_def conn_closed_def)
  show "cn_dataKey (cl_conns demo_registered 0) = hostDataAuthKey demo_crypto (public_part demo_ch) [5]"
    unfolding e register_host_fields demo_accepted(2) key ..
qed

lemma demo_asked_facts:
  "cell_reach demo_crypto demo_codec ''c'' demo_asked" "cl_waiting demo_asked = [TicketOf 1 demo_ticket]"
  "cl_next demo_asked = 2" "\<not> cl_closed demo_asked" "cl_hosts demo_asked = [(''h'', 0)]"
  "cl_pending demo_asked = []" "cl_bridges demo_asked = []" "cl_used demo_asked = []"
  "cl_cellId demo_asked = ''c''" "\<not> conn_closed demo_asked 1"
  "cl_conns demo_asked 0 = cl_conns demo_registered 0" "cl_conns demo_asked 1 = new_conn\<lparr>cn_role := ControllerData\<rparr>"
  "cl_conns demo_asked 2 = new_conn"
proof -
  note f = demo_registered_facts
  have inv: "cell_inv demo_registered" using cell_reach_inv [OF f(1)] by blast
  have n: "cl_conns demo_registered 1 = new_conn" "cl_conns demo_registered 2 = new_conn"
    using cell_invD(2) [OF inv] f(4) by simp_all
  have a: "cell_reach demo_crypto demo_codec ''c'' (accept demo_registered)" by (rule demo_accept [OF f(1)])
  have fr: "fresh (accept demo_registered) 1"
    using f n by (simp add: fresh_def accept_def conn_closed_def new_conn_def new_outer_def)
  show "cell_reach demo_crypto demo_codec ''c'' demo_asked"
    unfolding demo_asked_def by (rule demo_message [OF a fr]) simp_all
  show "cl_waiting demo_asked = [TicketOf 1 demo_ticket]"
    "cl_next demo_asked = 2" "\<not> cl_closed demo_asked" "cl_hosts demo_asked = [(''h'', 0)]"
    "cl_pending demo_asked = []" "cl_bridges demo_asked = []" "cl_used demo_asked = []"
    "cl_cellId demo_asked = ''c''" "\<not> conn_closed demo_asked 1"
    "cl_conns demo_asked 0 = cl_conns demo_registered 0" "cl_conns demo_asked 1 = new_conn\<lparr>cn_role := ControllerData\<rparr>"
    "cl_conns demo_asked 2 = new_conn"
    by (simp_all add: demo_asked_def dispatch_def classify_def accept_def Let_def f n conn_closed_def
        new_conn_def new_outer_def del: One_nat_def)
qed

lemma demo_pending_facts:
  "cell_reach demo_crypto demo_codec ''c'' demo_pending" "cl_waiting demo_pending = []"
  "cl_next demo_pending = 3" "\<not> cl_closed demo_pending" "cl_hosts demo_pending = [(''h'', 0)]"
  "cl_pending demo_pending = [(demo_ticket,
     \<lparr>pb_hostId = ''h'', pb_controller = 1, pb_timer = cl_nextTimer demo_asked, pb_nonce = replicate 32 9\<rparr>)]"
  "cl_bridges demo_pending = []" "cl_used demo_pending = [demo_ticket]" "cl_cellId demo_pending = ''c''"
  "fresh demo_pending 2" "cn_role (cl_conns demo_pending 2) = Unclassified"
  "cn_dataKey (cl_conns demo_pending 0) = hostDataAuthKey demo_crypto (public_part demo_ch) [5]"
proof -
  note f = demo_asked_facts
  have s: "cell_step demo_crypto demo_codec
      (TicketSettles 1 demo_ticket (Some \<lparr>tr_hostId = ''h'', tr_expiresAt = 10\<rparr>) 5 (replicate 32 9)) demo_asked =
      Some (controllerTicket 1 demo_ticket (Some \<lparr>tr_hostId = ''h'', tr_expiresAt = 10\<rparr>) 5
        (replicate 32 9) (demo_asked\<lparr>cl_waiting := []\<rparr>))"
    by (simp add: f)
  show "cell_reach demo_crypto demo_codec ''c'' demo_pending"
    unfolding demo_pending_def by (rule demo_accept [OF cell_reach.step [OF f(1) s]])
  have "conn_closed (demo_asked\<lparr>cl_waiting := []\<rparr>) 1 = conn_closed demo_asked 1" by (simp add: conn_closed_def)
  then show "cl_waiting demo_pending = []"
    "cl_next demo_pending = 3" "\<not> cl_closed demo_pending" "cl_hosts demo_pending = [(''h'', 0)]"
    "cl_pending demo_pending = [(demo_ticket,
       \<lparr>pb_hostId = ''h'', pb_controller = 1, pb_timer = cl_nextTimer demo_asked, pb_nonce = replicate 32 9\<rparr>)]"
    "cl_bridges demo_pending = []" "cl_used demo_pending = [demo_ticket]" "cl_cellId demo_pending = ''c''"
    "fresh demo_pending 2" "cn_role (cl_conns demo_pending 2) = Unclassified"
    "cn_dataKey (cl_conns demo_pending 0) = hostDataAuthKey demo_crypto (public_part demo_ch) [5]"
    using f
    by (simp_all add: demo_pending_def controllerTicket_def accept_def markTicketUsed_def Let_def
        MAX_USED_TICKETS_def fresh_def conn_closed_def demo_registered_facts)
      (simp_all add: new_conn_def new_outer_def)
qed

text \<open>The host dials with the right MAC, and the two are spliced.\<close>

definition demo_dataMac :: bytes where
  "demo_dataMac = dataAuthMac demo_crypto (the (hostDataAuthKey demo_crypto (public_part demo_ch) [5])) ''c''
     demo_ticket (replicate 32 9)"

definition demo_bridged :: cell where
  "demo_bridged = dispatch demo_crypto 2 (DataAuth HostRole demo_ticket (Some demo_dataMac)) demo_pending"

abbreviation "demo_bridge \<equiv> \<lparr>br_ticket = demo_ticket, br_controller = 1, br_host = 2\<rparr>"

lemma demo_bridged_facts:
  "cell_reach demo_crypto demo_codec ''c'' demo_bridged" "cl_bridges demo_bridged = [demo_bridge]"
  "cl_next demo_bridged = 3" "oc_handler (cn_outer (cl_conns demo_bridged 1)) = Some (to_host demo_bridge)"
  "oc_handler (cn_outer (cl_conns demo_bridged 2)) = Some (to_controller demo_bridge)"
  "\<not> conn_closed demo_bridged 1" "\<not> conn_closed demo_bridged 2"
proof -
  note f = demo_pending_facts
  have inv: "cell_inv demo_pending" using cell_reach_inv [OF f(1)] by blast
  obtain key where key: "hostDataAuthKey demo_crypto (public_part demo_ch) [5] = Some key"
    using demo_accepted(2,3) by fastforce
  have l: "length demo_dataMac = 32" by (simp add: demo_dataMac_def dataAuthMac_def demo_crypto_def)
  show "cell_reach demo_crypto demo_codec ''c'' demo_bridged"
    unfolding demo_bridged_def by (rule demo_message [OF f(1,10)]) (simp_all add: l)
  define p where "p = \<lparr>pb_hostId = ''h'', pb_controller = 1, pb_timer = cl_nextTimer demo_asked,
    pb_nonce = replicate 32 9 :: bytes\<rparr>"
  have p: "aget (cl_pending demo_pending) demo_ticket = Some p" by (simp add: f p_def)
  let ?st = "dialled 2 demo_ticket p (set_conn 2 (\<lambda>k. k\<lparr>cn_role := HostData\<rparr>) demo_pending)"
  have e: "demo_bridged = splice 1 2 demo_ticket ?st"
    using dial_accepted [OF f(11) p, of 0 key demo_crypto] f key
    by (simp add: demo_bridged_def demo_dataMac_def p_def)
  have ctl: "oc_buffer (cn_outer (cl_conns ?st 1)) = []" "\<not> oc_raw (cn_outer (cl_conns ?st 1))"
      "\<not> oc_closed (cn_outer (cl_conns ?st 1))"
    using pending_facts [OF inv p] cell_invD(1) [OF inv, of 1]
    by (simp_all add: dialled_def p_def conn_ok_def outer_ok_conn_def conn_closed_def)
  have new: "oc_buffer (cn_outer (cl_conns ?st 2)) = []" "\<not> oc_raw (cn_outer (cl_conns ?st 2))"
      "\<not> oc_closed (cn_outer (cl_conns ?st 2))"
    using f(10) cell_invD(1) [OF inv, of 2]
    by (simp_all add: dialled_def fresh_def conn_ok_def outer_ok_conn_def conn_closed_def)
  have d: "cl_bridges ?st = []" "cl_next ?st = 3" by (simp_all add: dialled_def f)
  have ne: "(1 :: nat) \<noteq> 2" by simp
  note s = splice_fields [OF ne ctl(1,2) new(1,2) refl, of demo_ticket]
  show "cl_bridges demo_bridged = [demo_bridge]" "cl_next demo_bridged = 3"
    "oc_handler (cn_outer (cl_conns demo_bridged 1)) = Some (to_host demo_bridge)"
    "oc_handler (cn_outer (cl_conns demo_bridged 2)) = Some (to_controller demo_bridge)"
    "\<not> conn_closed demo_bridged 1" "\<not> conn_closed demo_bridged 2"
    using ctl(3) new(3) unfolding e by (simp_all add: s conn_closed_def d del: One_nat_def)
qed

end
