(* ===== verification/CellTheorems.thy ===== *)
theory CellTheorems
  imports CellRun
begin

text \<open>
  The properties of the cell: registration and dialling succeed for the genuine host, whose side is
  the adapter's code, and for nobody else; what a bridge carries; how it is torn down; timeouts;
  single use; the bounds. Each has a closed example on the concrete run of \<open>CellRun\<close>.
\<close>

subsection \<open>What a refusal says\<close>

lemma out_grows:
  "set (cl_out st) \<subseteq> set (cl_out (close_conn c st))" "set (cl_out st) \<subseteq> set (cl_out (send_msg c m st))"
  "set (cl_out st) \<subseteq> set (cl_out (cleanup c st))"
proof -
  show close: "set (cl_out st) \<subseteq> set (cl_out (close_conn c st))" for c and st :: cell
    by (auto simp: close_conn_def logged_def)
  show "set (cl_out st) \<subseteq> set (cl_out (send_msg c m st))"
    by (auto simp: send_msg_def logged_def)
  have "cl_out (cleanup_pending c (cleanup_host c st)) = cl_out st"
    by (simp add: cleanup_pending_def cleanup_host_def split: option.splits)
  moreover have "set (cl_out s) \<subseteq> set (cl_out (cleanup_bridge c s))" for s :: cell
  proof (cases "live s c")
    case None
    then show ?thesis by (simp add: cleanup_bridge_live)
  next
    case (Some b)
    let ?s = "set_conn (other_end c b) (\<lambda>k. k\<lparr>cn_bridge := None\<rparr>)
      (s\<lparr>cl_bridges := filter (\<lambda>b'. b' \<noteq> b) (cl_bridges s)\<rparr>)"
    have "cl_out ?s = cl_out s" by simp
    then show ?thesis using close [of ?s "other_end c b"] Some by (simp add: cleanup_bridge_live)
  qed
  moreover have "cl_out (cleanup c st) = cl_out (cleanup_bridge c (cleanup_pending c (cleanup_host c st)))"
    by (simp add: cleanup_def)
  ultimately show "set (cl_out st) \<subseteq> set (cl_out (cleanup c st))" by metis
qed

lemma refuse_says:
  "\<not> conn_closed st c \<Longrightarrow> SendMsg c (CloseMsg code None) \<in> set (cl_out (refuse c code st))"
  using out_grows(1) [of "cleanup c (send_msg c (CloseMsg code None) st)" c]
    out_grows(3) [of "send_msg c (CloseMsg code None) st" c]
  by (auto simp: refuse_def send_msg_def logged_def)

lemma refuse_timers: "cn_ticket (cl_conns st c) = None \<Longrightarrow> cl_timers (refuse c code st) = cl_timers st"
  by (simp add: refuse_def cleanup_def cleanup_bridge_def cleanup_pending_def cleanup_host_def Let_def
      split: option.splits)

subsection \<open>Registration\<close>

lemma registrationKey_known:
  assumes "\<not> cl_closed st" "\<not> conn_closed st c"
  shows "registrationKey C c h (Some pub) secret nonce st =
    send_msg c (HostChallenge (cl_cellId st) nonce (x_public C secret))
      (set_conn c (\<lambda>k. k\<lparr>cn_hostId := Some h, cn_static := Some pub,
         cn_challenge := Some (makeChallenge C (cl_cellId st) secret nonce)\<rparr>) st)"
  using assms by (simp add: registrationKey_def makeChallenge_def Let_def)

lemma register_host_ack:
  assumes "\<not> conn_closed st c"
  shows "SendMsg c (HostRegistered h) \<in> set (cl_out (register_host c h key st))"
proof -
  have "SendMsg c m \<in> set (cl_out (send_msg c m s))" if "\<not> conn_closed s c" for m s
    using that by (simp add: send_msg_def logged_def)
  then show ?thesis using assms
    by (auto simp: register_host_def Let_def conn_closed_def split: option.splits)
qed

text \<open>C10: A host whose adapter holds the static key the authorizer names registers: the challenge
  the cell sends, answered by the adapter, is accepted; the cell registers the connection and
  acknowledges it, the adapter's promise resolves, and both sides hold the same data-leg key.\<close>

theorem registration_end_to_end:
  assumes C: "dh_commutes C" and st: "cell_reach C J cellId st" "StaticKeyOf c h \<in> set (cl_waiting st)"
      "\<not> cl_closed st" "\<not> conn_closed st c"
    and a: "\<not> ha_settled a" "\<not> ha_ctlClosed a" "\<not> ha_serving a" "ha_hostId a = h"
      "x_shared C (ha_secret a) (x_public C secret) \<noteq> None"
  shows "\<exists>st1 m1 a1 m2 key. let st2 = dispatch C c m2 st1; a2 = ctl_chunk C [Msg (HostRegistered h)] a1 in
    cell_step C J (KeySettles c h (Some (x_public C (ha_secret a))) secret nonce) st = Some st1 \<and>
    cl_out st1 = cl_out st @ [SendMsg c m1] \<and>
    ctl_chunk C [Msg m1] a = a1 \<and> ha_out a1 = ha_out a @ [CtlSend m2] \<and>
    aget (cl_hosts st2) h = Some c \<and> SendMsg c (HostRegistered h) \<in> set (cl_out st2) \<and>
    cn_dataKey (cl_conns st2 c) = Some key \<and> ha_result a2 = Some (Registered key (cl_cellId st))"
proof -
  let ?pub = "x_public C (ha_secret a)"
  let ?ch = "makeChallenge C (cl_cellId st) secret nonce"
  let ?m1 = "HostChallenge (cl_cellId st) nonce (x_public C secret)"
  let ?st0 = "st\<lparr>cl_waiting := remove1 (StaticKeyOf c h) (cl_waiting st)\<rparr>"
  define st1 where "st1 = registrationKey C c h (Some ?pub) secret nonce ?st0"
  have inv: "cell_inv st" using cell_reach_inv [OF st(1)] by blast
  have role: "cn_role (cl_conns st c) = ControlPending"
    using cell_invD(7) [OF inv] st(2) by (fastforce simp: waiting_ok_def)
  have pp: "public_part ?ch = \<lparr>hc_cellId = cl_cellId st, hc_nonce = nonce, hc_pub = x_public C secret\<rparr>"
    by (simp add: public_part_def makeChallenge_def)
  obtain mac where mac: "proveHost C (public_part ?ch) h (ha_secret a) = Some mac"
    using a(5) by (auto simp: pp proveHost_def)
  have hp: "hc_pub ?ch = x_public C (hc_secret ?ch)" by (simp add: makeChallenge_def)
  note ok = proof_accepted [OF C hp mac]
  obtain key where key: "cellDataAuthKey C ?ch ?pub = Some key" "hostDataAuthKey C (public_part ?ch) (ha_secret a) = Some key"
    using ok(2,3) by auto
  have st1: "st1 = send_msg c ?m1 (set_conn c (\<lambda>k. k\<lparr>cn_hostId := Some h, cn_static := Some ?pub,
      cn_challenge := Some ?ch\<rparr>) ?st0)"
    unfolding st1_def using st(3,4) by (subst registrationKey_known) (simp_all add: conn_closed_def)
  define a1 where "a1 = ctl_send (HostProofMsg mac) (a\<lparr>ha_registered := Some (key, cl_cellId st)\<rparr>)"
  have step: "cell_step C J (KeySettles c h (Some ?pub) secret nonce) st = Some st1"
    using st(2) by (simp add: st1_def)
  have out: "cl_out st1 = cl_out st @ [SendMsg c ?m1]"
    using st(4) by (simp add: st1 send_msg_def conn_closed_def logged_def set_conn_def)
  have chunk: "ctl_chunk C [Msg ?m1] a = a1"
    using a mac key(2) unfolding pp by (simp add: ctl_chunk_def reg_message_def a1_def Let_def)
  have d: "dispatch C c (HostProofMsg mac) st1 = register_host c h key (dropChallenge c st1)"
    by (rule onProof_accepted [OF _ _ _ _ ok(1) key(1)]) (simp_all add: st1 role)
  have fin: "ha_result (ctl_chunk C [Msg (HostRegistered h)] a1) = Some (Registered key (cl_cellId st))"
    using a by (simp add: a1_def ctl_send_def ha_emit_def ctl_chunk_def reg_message_def)
  have "ha_out a1 = ha_out a @ [CtlSend (HostProofMsg mac)]"
    using a by (simp add: a1_def ctl_send_def ha_emit_def)
  moreover have "SendMsg c (HostRegistered h) \<in> set (cl_out (register_host c h key (dropChallenge c st1)))"
    by (rule register_host_ack) (use st(4) in \<open>simp add: st1 dropChallenge_def conn_closed_def\<close>)
  ultimately show ?thesis
    using step out chunk fin register_host_fields [of c h key "dropChallenge c st1"] d
    by (intro exI [of _ st1] exI [of _ ?m1] exI [of _ a1] exI [of _ "HostProofMsg mac"] exI [of _ key]) (simp add: Let_def)
qed

lemma registration_end_to_end_witness:
  "\<exists>st1 m1 a1 m2 key.
    cell_step demo_crypto demo_codec (KeySettles 0 ''h'' (Some (x_public demo_crypto [5])) [6] [7]) demo_waiting = Some st1 \<and>
    ctl_chunk demo_crypto [Msg m1] (registerHostWithCell ''h'' [5]) = a1 \<and>
    aget (cl_hosts (dispatch demo_crypto 0 m2 st1)) ''h'' = Some 0 \<and>
    ha_result (ctl_chunk demo_crypto [Msg (HostRegistered ''h'')] a1) = Some (Registered key ''c'')"
proof -
  let ?a = "registerHostWithCell ''h'' [5]"
  have a: "\<not> ha_settled ?a" "\<not> ha_ctlClosed ?a" "\<not> ha_serving ?a" "ha_hostId ?a = ''h''" "ha_secret ?a = [5]"
    by (simp_all add: registerHostWithCell_def ctl_send_def ha_emit_def)
  have "x_shared demo_crypto (ha_secret ?a) (x_public demo_crypto [6]) \<noteq> None" by (simp add: demo_crypto_def)
  from registration_end_to_end [OF demo_dh_commutes demo_waiting_facts(1) _ demo_waiting_facts(4,5) a(1-4) this, of "[7]"]
  show ?thesis unfolding demo_waiting_facts(2,6) a(5) Let_def list.set by blast
qed

subsection \<open>Dialling\<close>

text \<open>The dial of the registered host is spliced: the \<open>data-auth\<close> its adapter sends for a pending
  bridge's \<open>conn-open\<close> is accepted, the bridge is live, the ticket is no longer pending, and both
  ends are raw and feed each other.\<close>

lemma genuine_dial_is_spliced:
  assumes st: "cell_reach C J cellId st" and p: "aget (cl_pending st) t = Some p"
    and host: "aget (cl_hosts st) (pb_hostId p) = Some control" "cn_dataKey (cl_conns st control) = Some key"
    and a: "ha_result a = Some (Registered key (cl_cellId st))" "\<not> ha_closed a" "i < length (ha_dials a)"
      "ha_dials a ! i = \<lparr>di_ticket = t, di_nonce = pb_nonce p, di_state = Connecting\<rparr>"
    and c: "cn_role (cl_conns st c) = Unclassified" "c < cl_next st"
  shows "\<exists>m. ha_out (dial_connected C i True a) = ha_out a @ [DataSend i m] \<and>
    (let st' = dispatch C c m st; b = \<lparr>br_ticket = t, br_controller = pb_controller p, br_host = c\<rparr> in
      cl_bridges st' = cl_bridges st @ [b] \<and> aget (cl_pending st') t = None \<and>
      oc_raw (cn_outer (cl_conns st' c)) \<and> oc_raw (cn_outer (cl_conns st' (pb_controller p))) \<and>
      oc_handler (cn_outer (cl_conns st' c)) = Some (to_controller b) \<and>
      oc_handler (cn_outer (cl_conns st' (pb_controller p))) = Some (to_host b))"
proof -
  let ?m = "DataAuth HostRole t (Some (dataAuthMac C key (cl_cellId st) t (pb_nonce p)))"
  let ?b = "\<lparr>br_ticket = t, br_controller = pb_controller p, br_host = c\<rparr>"
  have inv: "cell_inv st" using cell_reach_inv [OF st] by blast
  note pf = pending_facts [OF inv p]
  have ne: "pb_controller p \<noteq> c" "control \<noteq> c"
    using pf(3) host_facts(2) [OF inv host(1)] c(1) by auto
  let ?st = "dialled c t p (set_conn c (\<lambda>k. k\<lparr>cn_role := HostData\<rparr>) st)"
  have e: "dispatch C c ?m st = splice (pb_controller p) c t ?st"
    by (rule dial_accepted [OF c(1) p host ne(2)])
  have "conn_ok (cl_conns st (pb_controller p))" "conn_ok (cl_conns st c)"
    by (rule cell_invD(1) [OF inv])+
  then have o: "oc_buffer (cn_outer (cl_conns ?st (pb_controller p))) = []"
      "\<not> oc_raw (cn_outer (cl_conns ?st (pb_controller p)))"
      "oc_buffer (cn_outer (cl_conns ?st c)) = []" "\<not> oc_raw (cn_outer (cl_conns ?st c))"
    using pf(6) c(1) ne by (simp_all add: dialled_def conn_ok_def outer_ok_conn_def)
  note s = splice_fields [OF ne(1) o refl, of t]
  have d: "cl_bridges ?st = cl_bridges st" "aget (cl_pending ?st) t = None" by (simp_all add: dialled_def)
  have "ha_out (dial_connected C i True a) = ha_out a @ [DataSend i ?m]"
    using a by (simp add: dial_connected_def set_dial_def ha_emit_def Let_def)
  then show ?thesis using s d ne e by (intro exI [of _ ?m]) (simp add: Let_def)
qed

lemma genuine_dial_is_spliced_witness:
  "\<exists>m. cl_bridges (dispatch demo_crypto 2 m demo_pending) = [demo_bridge] \<and>
     aget (cl_pending (dispatch demo_crypto 2 m demo_pending)) demo_ticket = None"
proof -
  note f = demo_pending_facts
  obtain key where key: "hostDataAuthKey demo_crypto (public_part demo_ch) [5] = Some key"
    using demo_accepted(2,3) by fastforce
  let ?p = "\<lparr>pb_hostId = ''h'', pb_controller = 1, pb_timer = cl_nextTimer demo_asked, pb_nonce = replicate 32 9\<rparr>"
  let ?a = "(registerHostWithCell ''h'' [5])\<lparr>ha_result := Some (Registered key ''c''),
    ha_dials := [\<lparr>di_ticket = demo_ticket, di_nonce = replicate 32 9, di_state = Connecting\<rparr>]\<rparr>"
  have a: "ha_result ?a = Some (Registered key (cl_cellId demo_pending))" "\<not> ha_closed ?a"
    "0 < length (ha_dials ?a)"
    "ha_dials ?a ! 0 = \<lparr>di_ticket = demo_ticket, di_nonce = pb_nonce ?p, di_state = Connecting\<rparr>"
    by (simp_all add: f registerHostWithCell_def ctl_send_def ha_emit_def)
  have p: "aget (cl_pending demo_pending) demo_ticket = Some ?p"
    "aget (cl_hosts demo_pending) (pb_hostId ?p) = Some 0"
    "cn_dataKey (cl_conns demo_pending 0) = Some key" "2 < cl_next demo_pending"
    by (simp_all add: f key)
  from genuine_dial_is_spliced [OF f(1) p(1-3) a f(11) p(4)]
  show ?thesis unfolding Let_def f(7) by auto
qed

text \<open>A dial that does not carry the host's MAC for this very bridge is refused and burns
  nothing: the pending bridge and its timer stay, every other connection is as it was, and so are
  the registered hosts and the live bridges; the genuine host can still dial.\<close>

lemma forged_dial_changes_nothing:
  assumes st: "cell_reach C J cellId st" and p: "aget (cl_pending st) t = Some p"
    and c: "cn_role (cl_conns st c) = Unclassified" "\<not> conn_closed st c"
    and bad: "\<forall>control key. aget (cl_hosts st) (pb_hostId p) = Some control \<longrightarrow>
      cn_dataKey (cl_conns st control) = Some key \<longrightarrow>
      mac \<noteq> Some (dataAuthMac C key (cl_cellId st) t (pb_nonce p))"
  shows "let st' = dispatch C c (DataAuth HostRole t mac) st in
    conn_closed st' c \<and> SendMsg c (CloseMsg DataAuthFailed None) \<in> set (cl_out st') \<and>
    (\<forall>t'. aget (cl_pending st') t' = aget (cl_pending st) t') \<and> cl_timers st' = cl_timers st \<and>
    (\<forall>h. aget (cl_hosts st') h = aget (cl_hosts st) h) \<and> set (cl_bridges st') = set (cl_bridges st) \<and>
    (\<forall>k. k \<noteq> c \<longrightarrow> cl_conns st' k = cl_conns st k)"
proof -
  have inv: "cell_inv st" using cell_reach_inv [OF st] by blast
  have ends: "ends_ok st" by (rule cell_reach_ends [OF st])
  have k: "cn_hostId (cl_conns st c) = None" "cn_ticket (cl_conns st c) = None"
      "oc_handler (cn_outer (cl_conns st c)) = None"
    using cell_invD(1) [OF inv, of c] c(1) by (simp_all add: conn_ok_def)
  have nh: "aget (cl_hosts st) (pb_hostId p) \<noteq> Some c" using host_facts(2) [OF inv] c(1) by fastforce
  let ?s = "set_conn c (\<lambda>k. k\<lparr>cn_role := HostData\<rparr>) st"
  have e: "dispatch C c (DataAuth HostRole t mac) st = refuse c DataAuthFailed ?s"
    by (rule dial_refused [OF c(1) p _ nh]) (use bad in blast)
  have nb: "cn_bridge (cl_conns st c) \<noteq> Some b" if "b \<in> set (cl_bridges st)" for b
    using that ends k(3) cell_invD(5) [OF inv] unfolding ends_ok_def bridges_ok_def by force
  have live: "live (send_msg c (CloseMsg DataAuthFailed None) ?s) c = None"
    using nb by (auto simp: live_None split: option.splits)
  have other: "cl_conns (refuse c DataAuthFailed ?s) j = cl_conns st j" if "j \<noteq> c" for j
    using dropped_conns [of j c "send_msg c (CloseMsg DataAuthFailed None) ?s"] live that
    by (simp add: refuse_def)
  have "SendMsg c (CloseMsg DataAuthFailed None) \<in> set (cl_out (refuse c DataAuthFailed ?s))"
    by (rule refuse_says) (use c(2) in \<open>simp add: conn_closed_def\<close>)
  moreover have "cl_timers (refuse c DataAuthFailed ?s) = cl_timers st"
    using refuse_timers [of ?s c] k(2) by simp
  moreover have "conn_closed (refuse c DataAuthFailed ?s) c" by (simp add: refuse_def conn_closed_def)
  moreover have "set (cl_bridges (refuse c DataAuthFailed ?s)) = set (cl_bridges st)"
    using nb by (auto simp: refuse_def cell_simps)
  moreover have "aget (cl_hosts (refuse c DataAuthFailed ?s)) h = aget (cl_hosts st) h" for h
    using k by (simp add: refuse_def cell_simps)
  moreover have "aget (cl_pending (refuse c DataAuthFailed ?s)) t' = aget (cl_pending st) t'" for t'
    using k by (simp add: refuse_def cell_simps split: option.splits)
  ultimately show ?thesis unfolding e Let_def using other by blast
qed

lemma forged_dial_changes_nothing_witness:
  "let st' = dispatch demo_crypto 2 (DataAuth HostRole demo_ticket None) demo_pending in
     conn_closed st' 2 \<and> aget (cl_pending st') demo_ticket \<noteq> None \<and> cl_timers st' = cl_timers demo_pending"
proof -
  note f = demo_pending_facts
  have p: "aget (cl_pending demo_pending) demo_ticket = Some \<lparr>pb_hostId = ''h'', pb_controller = 1,
      pb_timer = cl_nextTimer demo_asked, pb_nonce = replicate 32 9\<rparr>" by (simp add: f)
  have open2: "\<not> conn_closed demo_pending 2" using f(10) by (simp add: fresh_def)
  from forged_dial_changes_nothing [OF f(1) p f(11) open2, of None] p show ?thesis by (simp add: Let_def)
qed

subsection \<open>Only the host registers, only the host is spliced\<close>

text \<open>C7: whatever happens, a host id comes to be registered on a connection only by that
  connection's own inbound bytes, completing a proof that verifies against the challenge, the host
  id and the authorizer's key the cell holds for it.\<close>

theorem who_registers:
  assumes st: "cell_reach C J cellId st" and s: "cell_step C J e st = Some st'"
    and new: "aget (cl_hosts st') h = Some c" "aget (cl_hosts st) h \<noteq> Some c"
  shows "\<exists>bs mac ch pub. e = Inbound c bs \<and> HostProofMsg mac \<in> set (inbound_messages J st c bs) \<and>
    cn_challenge (cl_conns st c) = Some ch \<and> cn_hostId (cl_conns st c) = Some h \<and>
    cn_static (cl_conns st c) = Some pub \<and> verifyProof C ch h pub mac"
proof -
  have inv: "cell_inv st" using cell_reach_inv [OF st] by blast
  have "\<not> shrinks st st'" using new by (auto simp: shrinks_def)
  then obtain d bs where e: "e = Inbound d bs" using step_shrinks [OF s] by blast
  then have d: "d < cl_next st" "conn_receive C J d bs st = Some st'" using s by (auto split: if_splits)
  have "c = d \<and> (\<exists>m \<in> set (inbound_messages J st d bs). registers C st d m h)"
    by (rule receive_origin(1) [OF inv d new])
  then show ?thesis using e unfolding registers_def by blast
qed

theorem who_registers_witness:
  "\<exists>bs mac ch. HostProofMsg mac \<in> set (inbound_messages demo_codec demo_challenged 0 bs) \<and>
     cn_challenge (cl_conns demo_challenged 0) = Some ch \<and>
     verifyProof demo_crypto ch ''h'' (x_public demo_crypto [5]) mac"
proof -
  note f = demo_challenged_facts
  have inv: "cell_inv demo_challenged" using cell_reach_inv [OF f(1)] by blast
  obtain F where F: "encodeOuterMessage demo_codec (HostProofMsg demo_mac) = Some F"
    using demo_frame [of "HostProofMsg demo_mac"] demo_proof(2) by auto
  have s: "cell_step demo_crypto demo_codec (Inbound 0 F) demo_challenged = Some demo_registered"
    unfolding demo_registered_def by (rule receive_one [OF inv f(2) demo_codec_ok F])
  have "aget (cl_hosts demo_registered) ''h'' = Some 0" "aget (cl_hosts demo_challenged) ''h'' \<noteq> Some 0"
    by (simp_all add: f demo_registered_facts)
  from who_registers [OF f(1) s this] show ?thesis unfolding f(9) by auto
qed

text \<open>C8: a bridge comes to be only by the inbound bytes of its host end, completing a \<open>data-auth\<close> with
  the MAC, under the data-leg key of the control connection registered for the pending bridge's
  host, of the cell id, the ticket and that bridge's nonce; its controller end is the connection
  the bridge was pending for.\<close>

theorem who_is_spliced:
  assumes st: "cell_reach C J cellId st" and s: "cell_step C J e st = Some st'"
    and new: "b \<in> set (cl_bridges st')" "b \<notin> set (cl_bridges st)"
  shows "\<exists>bs p control key. e = Inbound (br_host b) bs \<and> aget (cl_pending st) (br_ticket b) = Some p \<and>
    br_controller b = pb_controller p \<and> aget (cl_hosts st) (pb_hostId p) = Some control \<and>
    cn_dataKey (cl_conns st control) = Some key \<and>
    DataAuth HostRole (br_ticket b) (Some (dataAuthMac C key (cl_cellId st) (br_ticket b) (pb_nonce p)))
      \<in> set (inbound_messages J st (br_host b) bs)"
proof -
  have inv: "cell_inv st" using cell_reach_inv [OF st] by blast
  have "\<not> shrinks st st'" using new by (auto simp: shrinks_def)
  then obtain d bs where e: "e = Inbound d bs" using step_shrinks [OF s] by blast
  then have d: "d < cl_next st" "conn_receive C J d bs st = Some st'" using s by (auto split: if_splits)
  obtain m where "m \<in> set (inbound_messages J st d bs)" "dials C st d m b"
    using receive_origin(2) [OF inv d new] by blast
  then show ?thesis using e unfolding dials_def by blast
qed

lemma demo_splice_step:
  obtains F where "cell_step demo_crypto demo_codec (Inbound 2 F) demo_pending = Some demo_bridged"
proof -
  note f = demo_pending_facts
  have inv: "cell_inv demo_pending" using cell_reach_inv [OF f(1)] by blast
  have "length demo_dataMac = 32" by (simp add: demo_dataMac_def dataAuthMac_def demo_crypto_def)
  then obtain F where F: "encodeOuterMessage demo_codec (DataAuth HostRole demo_ticket (Some demo_dataMac)) = Some F"
    using demo_frame [of "DataAuth HostRole demo_ticket (Some demo_dataMac)"] by auto
  have "cell_step demo_crypto demo_codec (Inbound 2 F) demo_pending = Some demo_bridged"
    unfolding demo_bridged_def by (rule receive_one [OF inv f(10) demo_codec_ok F])
  then show ?thesis by (rule that)
qed

theorem who_is_spliced_witness:
  "\<exists>bs p. aget (cl_pending demo_pending) demo_ticket = Some p \<and> pb_controller p = 1 \<and>
     (\<exists>mac. DataAuth HostRole demo_ticket (Some mac) \<in> set (inbound_messages demo_codec demo_pending 2 bs))"
proof -
  obtain F where s: "cell_step demo_crypto demo_codec (Inbound 2 F) demo_pending = Some demo_bridged"
    by (rule demo_splice_step)
  have "demo_bridge \<in> set (cl_bridges demo_bridged)" "demo_bridge \<notin> set (cl_bridges demo_pending)"
    by (simp_all add: demo_pending_facts demo_bridged_facts)
  from who_is_spliced [OF demo_pending_facts(1) s this]
  obtain bs p key where "aget (cl_pending demo_pending) demo_ticket = Some p" "pb_controller p = 1"
    "DataAuth HostRole demo_ticket (Some (dataAuthMac demo_crypto key (cl_cellId demo_pending) demo_ticket
      (pb_nonce p))) \<in> set (inbound_messages demo_codec demo_pending 2 bs)"
    by auto
  then show ?thesis by blast
qed

subsection \<open>What a bridge carries\<close>

text \<open>C9: the cell is a blind pipe with two ends: the bytes that arrive on a spliced connection are
  reported to the tap and sent, as they are, to its peer and nowhere else, and nothing else in
  the cell changes; the peer is the other data connection of the same ticket and host, and its
  bytes come back here.\<close>

theorem bridged_bytes_reach_only_the_peer:
  assumes st: "cell_reach C J cellId st" and c: "oc_handler (cn_outer (cl_conns st c)) = Some p"
      "\<not> conn_closed st c"
  shows "cell_step C J (Inbound c bs) st =
      Some (st\<lparr>cl_out := cl_out st @ [Tap (pp_ticket p) (pp_dir p) bs] @
        (if conn_closed st (pp_peer p) then [] else [SendRaw (pp_peer p) bs])\<rparr>) \<and>
    pp_peer p \<noteq> c \<and>
    oc_handler (cn_outer (cl_conns st (pp_peer p))) =
      Some \<lparr>pp_ticket = pp_ticket p, pp_dir = flip (pp_dir p), pp_peer = c\<rparr> \<and>
    cn_role (cl_conns st c) = dir_role (pp_dir p) \<and>
    cn_hostId (cl_conns st (pp_peer p)) = cn_hostId (cl_conns st c)"
proof -
  have inv: "cell_inv st" using cell_reach_inv [OF st] by blast
  have "c < cl_next st" by (rule handler_old [OF inv]) (simp add: c)
  moreover have "oc_raw (cn_outer (cl_conns st c))"
    using cell_invD(1) [OF inv, of c] c(1) by (simp add: conn_ok_def outer_ok_conn_def)
  ultimately have "cell_step C J (Inbound c bs) st =
      Some (send_raw (pp_peer p) bs (logged (Tap (pp_ticket p) (pp_dir p) bs) st))"
    using c raw_receive [OF c(1)] by (simp add: conn_receive_def conn_closed_def Let_def)
  moreover note cell_invD(6) [OF inv, unfolded pairs_ok_def, rule_format, OF c(1)]
  ultimately show ?thesis by (simp add: send_raw_def logged_def conn_closed_def)
qed

theorem bridged_bytes_reach_only_the_peer_witness:
  "cell_step demo_crypto demo_codec (Inbound 1 [1, 2]) demo_bridged =
     Some (demo_bridged\<lparr>cl_out := cl_out demo_bridged @ [Tap demo_ticket ControllerToHost [1, 2], SendRaw 2 [1, 2]]\<rparr>)"
  using bridged_bytes_reach_only_the_peer [OF demo_bridged_facts(1,4,6), of "[1, 2]"] demo_bridged_facts(7)
  by (simp add: to_host_def)

text \<open>Dropping either end of a live bridge (its peer closed, or its error) closes both ends and
  removes that bridge alone: every other connection, bridge and pending bridge stays.\<close>

lemma one_end_takes_the_other_down:
  assumes st: "cell_reach C J cellId st" and b: "b \<in> set (cl_bridges st)"
    and c: "c = br_controller b \<or> c = br_host b"
  shows "\<exists>st'. cell_step C J (PeerClose c) st = Some st' \<and>
    conn_closed st' (br_controller b) \<and> conn_closed st' (br_host b) \<and>
    set (cl_bridges st') = set (cl_bridges st) - {b} \<and>
    (\<forall>k. k \<noteq> br_controller b \<longrightarrow> k \<noteq> br_host b \<longrightarrow> cl_conns st' k = cl_conns st k) \<and>
    (\<forall>t p. aget (cl_pending st) t = Some p \<longrightarrow> pb_controller p \<noteq> c \<longrightarrow> aget (cl_pending st') t = Some p)"
proof -
  have inv: "cell_inv st" using cell_reach_inv [OF st] by blast
  have br: "cn_bridge (cl_conns st c) = Some b" "oc_handler (cn_outer (cl_conns st c)) \<noteq> None"
    using cell_invD(5) [OF inv] b c unfolding bridges_ok_def by auto
  have l: "live st c = Some b" using br(1) b by (simp add: live_Some)
  have cn: "c < cl_next st" by (rule handler_old [OF inv br(2)])
  have cl: "cl_conns (detach c st) k = (let x = (if k = other_end c b then closed_end (cl_conns st k) else cl_conns st k);
      y = (if k = c then x\<lparr>cn_bridge := None, cn_dataKey := None\<rparr> else x)
      in if k = c then y\<lparr>cn_outer := (cn_outer y)\<lparr>oc_closed := True\<rparr>\<rparr> else y)" for k
    using l by (simp add: detach_def cleanup_conns Let_def)
  have ends: "{c, other_end c b} = {br_controller b, br_host b}" using c by (auto simp: other_end_def)
  have "conn_closed (detach c st) c" "conn_closed (detach c st) (other_end c b)"
    by (simp_all add: conn_closed_def cl closed_end_def Let_def)
  then have "conn_closed (detach c st) (br_controller b) \<and> conn_closed (detach c st) (br_host b)"
    using ends by (metis doubleton_eq_iff)
  moreover have "cl_conns (detach c st) k = cl_conns st k" if "k \<noteq> br_controller b" "k \<noteq> br_host b" for k
  proof -
    have "k \<noteq> c" "k \<noteq> other_end c b" using that ends by blast+
    then show ?thesis by (simp add: cl Let_def)
  qed
  moreover have "set (cl_bridges (detach c st)) = set (cl_bridges st) - {b}"
    using br(1) by (simp add: detach_def cell_simps)
  moreover have "aget (cl_pending (detach c st)) t = Some p"
    if "aget (cl_pending st) t = Some p" "pb_controller p \<noteq> c" for t p
    using that by (simp add: detach_def cell_simps)
  ultimately show ?thesis using cn by simp
qed

lemma one_end_takes_the_other_down_witness:
  "\<exists>st'. cell_step demo_crypto demo_codec (PeerClose 1) demo_bridged = Some st' \<and>
     conn_closed st' 1 \<and> conn_closed st' 2 \<and> cl_bridges st' = []"
  using one_end_takes_the_other_down [OF demo_bridged_facts(1), of demo_bridge 1] by (auto simp: demo_bridged_facts)

subsection \<open>Bounds and liveness\<close>

text \<open>No controller waits for ever: every pending bridge has its own running timer, and when it
  fires the waiting controller is told \<open>bridge-timeout\<close>, its connection is closed, and that bridge
  alone leaves the map.\<close>

lemma waiting_controller_times_out:
  assumes st: "cell_reach C J cellId st" and p: "aget (cl_pending st) t = Some p"
  shows "\<exists>st'. cell_step C J (TimerFires (pb_timer p)) st = Some st' \<and>
    SendMsg (pb_controller p) (CloseMsg BridgeTimeout None) \<in> set (cl_out st') \<and>
    conn_closed st' (pb_controller p) \<and> aget (cl_pending st') t = None \<and>
    (\<forall>t'. t' \<noteq> t \<longrightarrow> aget (cl_pending st') t' = aget (cl_pending st) t')"
proof -
  have inv: "cell_inv st" and keys: "keys_ok st" using cell_reach_inv [OF st] by blast+
  have tm: "aget (cl_timers st) (pb_timer p) = Some t"
    using cell_reach_timers [OF st] p by (simp add: timers_ok_def)
  note pf = pending_facts [OF inv p]
  let ?s = "(clear_timer (pb_timer p) st)\<lparr>cl_pending := adel t (cl_pending st)\<rparr>"
  let ?st' = "refuse (pb_controller p) BridgeTimeout ?s"
  have "cell_step C J (TimerFires (pb_timer p)) st = Some ?st'"
    using tm p by (simp add: onBridgeTimeout_def)
  moreover have "SendMsg (pb_controller p) (CloseMsg BridgeTimeout None) \<in> set (cl_out ?st')"
    by (rule refuse_says) (use pf(2) in \<open>simp add: conn_closed_def\<close>)
  moreover have "conn_closed ?st' (pb_controller p)" by (simp add: refuse_def conn_closed_def)
  moreover have "aget (cl_pending ?st') t = None" by (simp add: refuse_def cell_simps)
  moreover have "aget (cl_pending ?st') t' = aget (cl_pending st) t'" if "t' \<noteq> t" for t'
    using that pf(4) by (simp add: refuse_def cell_simps split: option.splits)
  ultimately show ?thesis by blast
qed

lemma waiting_controller_times_out_witness:
  "\<exists>p st'. aget (cl_pending demo_pending) demo_ticket = Some p \<and>
     cell_step demo_crypto demo_codec (TimerFires (pb_timer p)) demo_pending = Some st' \<and>
     conn_closed st' 1 \<and> aget (cl_pending st') demo_ticket = None"
proof -
  obtain p where p: "aget (cl_pending demo_pending) demo_ticket = Some p" "pb_controller p = 1"
    by (simp add: demo_pending_facts)
  from waiting_controller_times_out [OF demo_pending_facts(1) p(1)] p show ?thesis by auto
qed

text \<open>C12: every inbound chunk on a connection is processed to the end, whatever the bytes: the framed
  loop never runs on.\<close>

theorem every_chunk_is_processed:
  assumes "cell_reach C J cellId st" and "c < cl_next st"
  shows "\<exists>st'. cell_step C J (Inbound c bs) st = Some st' \<and> cl_next st' = cl_next st"
  using conn_receive_ok [of st c C J bs] cell_reach_inv [OF assms(1)] assms(2) by auto

theorem every_chunk_is_processed_witness:
  "\<exists>st'. cell_step demo_crypto demo_codec (Inbound 0 [255, 255, 255, 255, 0]) demo_pending = Some st'"
  using every_chunk_is_processed [OF demo_pending_facts(1), of 0 "[255, 255, 255, 255, 0]"]
  by (auto simp: demo_pending_facts)

lemma MAX_USED_TICKETS_pos [simp]: "0 < MAX_USED_TICKETS" "Suc 0 \<le> MAX_USED_TICKETS"
  by (simp_all add: MAX_USED_TICKETS_def)

lemma evict_short: "length ts \<le> MAX_USED_TICKETS \<Longrightarrow> evict ts = ts"
  by (cases ts) simp_all

lemma evict_one:
  assumes "length ts = Suc MAX_USED_TICKETS"
  shows "evict ts = tl ts"
proof -
  obtain t ts' where t: "ts = t # ts'" using assms by (cases ts) auto
  then show ?thesis using assms evict_short [of ts'] by simp
qed

lemma mark_new:
  assumes "used_ok st" and "t \<notin> set (cl_used st)"
  shows "cl_used (markTicketUsed t st) =
    (if length (cl_used st) < MAX_USED_TICKETS then cl_used st else tl (cl_used st)) @ [t]"
proof -
  have "length (cl_used st) = MAX_USED_TICKETS \<Longrightarrow> tl (cl_used st @ [t]) = tl (cl_used st) @ [t]"
    using MAX_USED_TICKETS_pos by (cases "cl_used st") auto
  then show ?thesis
    using assms evict_short [of "cl_used st @ [t]"] evict_one [of "cl_used st @ [t]"]
    by (auto simp: markTicketUsed_def used_ok_def)
qed

text \<open>Where a ticket stands in the queue: its distance from the end grows by one per new ticket.\<close>

lemma mark_keeps:
  assumes u: "used_ok st" and t: "\<exists>xs ys. cl_used st = xs @ t # ys \<and> length ys \<le> n" and n: "Suc n < MAX_USED_TICKETS"
  shows "used_ok (markTicketUsed t' st) \<and>
    (\<exists>xs ys. cl_used (markTicketUsed t' st) = xs @ t # ys \<and> length ys \<le> Suc n)"
proof -
  obtain xs ys where x: "cl_used st = xs @ t # ys" "length ys \<le> n" using t by blast
  show ?thesis
  proof (cases "t' \<in> set (cl_used st)")
    case True
    then have "markTicketUsed t' st = st"
      using u evict_short [of "cl_used st"] by (simp add: markTicketUsed_def used_ok_def)
    then show ?thesis using u x by (auto intro: le_SucI)
  next
    case False
    note m = mark_new [OF u False]
    have ne: "xs \<noteq> []" if "\<not> length (cl_used st) < MAX_USED_TICKETS" using that x n by auto
    have w: "cl_used (markTicketUsed t' st) =
        (if length (cl_used st) < MAX_USED_TICKETS then xs else tl xs) @ t # (ys @ [t'])"
      using m x ne by (cases xs) auto
    have "length (ys @ [t']) \<le> Suc n" using x(2) by simp
    with w have "\<exists>xs ys. cl_used (markTicketUsed t' st) = xs @ t # ys \<and> length ys \<le> Suc n" by blast
    moreover have "used_ok (markTicketUsed t' st)"
      using u False unfolding used_ok_def m by (cases "cl_used st") auto
    ultimately show ?thesis by blast
  qed
qed

lemma fold_mark_keeps:
  "used_ok st \<Longrightarrow> \<exists>xs ys. cl_used st = xs @ t # ys \<and> length ys \<le> n \<Longrightarrow> n + length ts < MAX_USED_TICKETS \<Longrightarrow>
   used_ok (fold markTicketUsed ts st) \<and> t \<in> set (cl_used (fold markTicketUsed ts st))"
proof (induction ts arbitrary: st n)
  case Nil
  then show ?case by auto
next
  case (Cons t' ts)
  have "Suc n < MAX_USED_TICKETS" "Suc n + length ts < MAX_USED_TICKETS" using Cons.prems(3) by simp_all
  then show ?case using mark_keeps [OF Cons.prems(1,2), of t'] Cons.IH [of "markTicketUsed t' st" "Suc n"] by simp
qed

text \<open>The used-ticket memory is bounded and a ticket in it is refused; a ticket is remembered
  through the next 1023 tickets, whatever they are: a controller presenting it again is refused as a
  reuse even if the authorizer would still route it.\<close>

lemma used_tickets_are_remembered:
  assumes st: "cell_reach C J cellId st" and t: "t \<notin> set (cl_used st)"
    and ts: "length ts < MAX_USED_TICKETS"
    and s': "s' = fold markTicketUsed ts (markTicketUsed t st)"
    and again: "\<not> cl_closed s'" "\<not> conn_closed s' c" "now < tr_expiresAt r"
  shows "length (cl_used s') \<le> MAX_USED_TICKETS \<and>
    controllerTicket c t (Some r) now nonce s' = refuse c TicketReused s'"
proof -
  have u: "used_ok st" using cell_reach_inv [OF st] by (simp add: cell_inv_def)
  have "cl_used (markTicketUsed t st) =
      (if length (cl_used st) < MAX_USED_TICKETS then cl_used st else tl (cl_used st)) @ [t]"
    by (rule mark_new [OF u t])
  moreover from this have "used_ok (markTicketUsed t st)"
    using u t unfolding used_ok_def by (cases "cl_used st") auto
  ultimately have "used_ok s' \<and> t \<in> set (cl_used s')"
    unfolding s' using ts by (intro fold_mark_keeps [of _ t 0]) auto
  then show ?thesis using again by (simp add: used_ok_def controllerTicket_def)
qed

lemma used_tickets_are_remembered_witness:
  "controllerTicket 0 ''a'' (Some \<lparr>tr_hostId = ''h'', tr_expiresAt = 10\<rparr>) 5 []
     (fold markTicketUsed [''b'', ''d''] (markTicketUsed ''a'' demo_registered)) =
   refuse 0 TicketReused (fold markTicketUsed [''b'', ''d''] (markTicketUsed ''a'' demo_registered))"
proof -
  note f = demo_registered_facts
  have "\<not> cl_closed (fold markTicketUsed [''b'', ''d''] (markTicketUsed ''a'' demo_registered))"
    "\<not> conn_closed (fold markTicketUsed [''b'', ''d''] (markTicketUsed ''a'' demo_registered)) 0"
    using f(2,5) by (simp_all add: markTicketUsed_def conn_closed_def fresh_def)
  from used_tickets_are_remembered [OF f(1) _ _ refl this, of 5 "\<lparr>tr_hostId = ''h'', tr_expiresAt = 10\<rparr>" "[]"]
  show ?thesis by (simp add: f MAX_USED_TICKETS_def)
qed

subsection \<open>The maps agree with the connections\<close>

text \<open>C11: in every reachable state the cell's maps and its connections agree: a registered host is a
  control connection under that id with a data-leg key and no challenge left; a pending bridge
  waits on an open, still framed controller connection routed to its host; both ends of a live
  bridge are raw, feed each other, and hold that bridge; no id and no ticket appears twice.\<close>

theorem maps_agree_with_connections:
  assumes st: "cell_reach C J cellId st"
  shows "distinct (registeredHosts st) \<and> distinct (akeys (cl_pending st)) \<and>
    (\<forall>h c. aget (cl_hosts st) h = Some c \<longrightarrow> cn_role (cl_conns st c) = Control \<and>
      cn_hostId (cl_conns st c) = Some h \<and> cn_dataKey (cl_conns st c) \<noteq> None \<and>
      cn_challenge (cl_conns st c) = None) \<and>
    (\<forall>t p. aget (cl_pending st) t = Some p \<longrightarrow> \<not> conn_closed st (pb_controller p) \<and>
      \<not> oc_raw (cn_outer (cl_conns st (pb_controller p))) \<and>
      cn_ticket (cl_conns st (pb_controller p)) = Some t \<and>
      cn_hostId (cl_conns st (pb_controller p)) = Some (pb_hostId p)) \<and>
    (\<forall>b \<in> set (cl_bridges st). oc_raw (cn_outer (cl_conns st (br_controller b))) \<and>
      oc_raw (cn_outer (cl_conns st (br_host b))) \<and>
      oc_handler (cn_outer (cl_conns st (br_controller b))) = Some (to_host b) \<and>
      oc_handler (cn_outer (cl_conns st (br_host b))) = Some (to_controller b))"
proof -
  have inv: "cell_inv st" and keys: "keys_ok st" using cell_reach_inv [OF st] by blast+
  have ok: "conn_ok (cl_conns st c)" for c by (rule cell_invD(1) [OF inv])
  have raw: "oc_raw (cn_outer (cl_conns st c)) \<longleftrightarrow> oc_handler (cn_outer (cl_conns st c)) \<noteq> None" for c
    using ok [of c] unfolding conn_ok_def outer_ok_conn_def by blast
  have ch: "cn_challenge (cl_conns st c) = None" if "cn_role (cl_conns st c) = Control" for c
    using ok [of c] that unfolding conn_ok_def by blast
  have b: "oc_handler (cn_outer (cl_conns st (br_controller b))) = Some (to_host b) \<and>
      oc_handler (cn_outer (cl_conns st (br_host b))) = Some (to_controller b)" if "b \<in> set (cl_bridges st)" for b
    using cell_invD(5) [OF inv] that by (simp add: bridges_ok_def to_host_def to_controller_def)
  have "distinct (registeredHosts st) \<and> distinct (akeys (cl_pending st))"
    using keys by (simp add: keys_ok_def registeredHosts_def)
  moreover have "cn_role (cl_conns st c) = Control \<and> cn_hostId (cl_conns st c) = Some h \<and>
      cn_dataKey (cl_conns st c) \<noteq> None \<and> cn_challenge (cl_conns st c) = None"
    if "aget (cl_hosts st) h = Some c" for h c
    using host_facts(2-4) [OF inv that] ch [OF host_facts(2) [OF inv that]] by blast
  moreover have "\<not> conn_closed st (pb_controller p) \<and> \<not> oc_raw (cn_outer (cl_conns st (pb_controller p))) \<and>
      cn_ticket (cl_conns st (pb_controller p)) = Some t \<and>
      cn_hostId (cl_conns st (pb_controller p)) = Some (pb_hostId p)"
    if "aget (cl_pending st) t = Some p" for t p
    using pending_facts(2,4-6) [OF inv that] unfolding raw by blast
  moreover have "oc_raw (cn_outer (cl_conns st (br_controller b))) \<and> oc_raw (cn_outer (cl_conns st (br_host b)))"
    if "b \<in> set (cl_bridges st)" for b
    using b [OF that] unfolding raw by simp
  ultimately show ?thesis using b by blast
qed

theorem maps_agree_with_connections_witness:
  "oc_raw (cn_outer (cl_conns demo_bridged 1)) \<and>
   oc_handler (cn_outer (cl_conns demo_bridged 2)) = Some (to_controller demo_bridge)"
  using maps_agree_with_connections [OF demo_bridged_facts(1)] by (simp add: demo_bridged_facts)

subsection \<open>A closed cell still registers\<close>

lemma cell_close_closed: "cl_closed (cell_close st)"
proof -
  have all: "cl_closed (close_all cs s) = cl_closed s" for cs s by (induction cs arbitrary: s) simp_all
  have ct: "cl_closed (clear_timers hs s) = cl_closed s" for hs s by (induction hs arbitrary: s) simp_all
  show ?thesis by (simp add: cell_close_def Let_def all ct)
qed

text \<open>\<open>close\<close> neither closes a connection whose registration is under way nor makes \<open>#onProof\<close>
  look at the closed flag: a host that answers its challenge after the cell has closed is
  registered and told so, where a closed cell is meant to take no one.\<close>

lemma closed_cell_registers:
  assumes k: "cn_role (cl_conns st c) = ControlPending" "cn_challenge (cl_conns st c) = Some ch"
      "cn_hostId (cl_conns st c) = Some h" "cn_static (cl_conns st c) = Some pub"
      "c \<notin> set (close_set st)" "\<not> cl_closed st"
    and v: "verifyProof C ch h pub mac" "cellDataAuthKey C ch pub = Some key"
  shows "cl_closed (cell_close st) \<and>
    registeredHosts (dispatch C c (HostProofMsg mac) (cell_close st)) = [h] \<and>
    conn_closed (dispatch C c (HostProofMsg mac) (cell_close st)) c = conn_closed st c"
proof -
  let ?s = "cell_close st"
  note f = cell_close_fields [OF k(6)]
  have c: "cl_conns ?s c = cl_conns st c" by (rule f(2) [OF k(5)])
  have d: "dispatch C c (HostProofMsg mac) ?s = register_host c h key (dropChallenge c ?s)"
    by (rule onProof_accepted [OF _ _ _ _ v]) (simp_all add: c k)
  show ?thesis
    unfolding d using f(3) c
    by (simp add: cell_close_closed registeredHosts_def register_host_def dropChallenge_def Let_def conn_closed_def)
qed

lemma closed_cell_registers_witness:
  "cell_reach demo_crypto demo_codec ''c'' (cell_close demo_challenged) \<and> cl_closed (cell_close demo_challenged) \<and>
   registeredHosts (dispatch demo_crypto 0 (HostProofMsg demo_mac) (cell_close demo_challenged)) = [''h'']"
proof -
  note f = demo_challenged_facts
  obtain key where key: "cellDataAuthKey demo_crypto demo_ch (x_public demo_crypto [5]) = Some key"
    using demo_accepted(3) by blast
  have "0 \<notin> set (close_set demo_challenged)" by (simp add: close_set_def f)
  from closed_cell_registers [OF f(6-9) this f(5) demo_accepted(1) key]
  show ?thesis using cell_reach.step [OF f(1), of CloseCell] by simp
qed

end
