(* ===== verification/Ring.thy ===== *)
theory Ring
  imports Prelude "HOL-Library.Sublist"
begin

text \<open>
  \<open>packages/host/src/session/ring.ts\<close>: the byte-bounded ring of a session's recent output. A
  chunk is dropped whole while others remain; a chunk longer than the cap is cut to its tail. The
  lemmas say what is kept: a suffix of what was appended, never above the cap, and everything
  unless dropping was unavoidable chunk by chunk.
\<close>

record ring =
  rg_max :: nat
  rg_chunks :: "bytes list"
  rg_bytes :: nat

text \<open>The constructor throws on a cap that is not positive.\<close>

definition new_ring :: "nat \<Rightarrow> ring option" where
  "new_ring maxBytes =
     (if maxBytes = 0 then None else Some \<lparr>rg_max = maxBytes, rg_chunks = [], rg_bytes = 0\<rparr>)"

fun ring_evict :: "nat \<Rightarrow> bytes list \<Rightarrow> nat \<Rightarrow> bytes list \<times> nat" where
  "ring_evict cap (removed # c # cs) n =
     (if cap < n then ring_evict cap (c # cs) (n - length removed) else (removed # c # cs, n))"
| "ring_evict cap cs n = (cs, n)"

definition ring_append :: "bytes \<Rightarrow> ring \<Rightarrow> ring" where
  "ring_append bs r =
     (if bs = [] then r
      else
        let (chunks, n) = ring_evict (rg_max r) (rg_chunks r @ [bs]) (rg_bytes r + length bs)
        in if rg_max r < n \<and> length chunks = 1
           then let tail = drop (length (hd chunks) - rg_max r) (hd chunks)
             in r\<lparr>rg_chunks := [tail], rg_bytes := length tail\<rparr>
           else r\<lparr>rg_chunks := chunks, rg_bytes := n\<rparr>)"

text \<open>\<open>concat\<close> fills a buffer of \<open>#bytes\<close> bytes chunk after chunk; the invariant makes it exactly
  full.\<close>

definition ring_concat :: "ring \<Rightarrow> bytes" where
  "ring_concat r = concat (rg_chunks r)"

definition ring_clear :: "ring \<Rightarrow> ring" where
  "ring_clear r = r\<lparr>rg_chunks := [], rg_bytes := 0\<rparr>"

definition ring_ok :: "ring \<Rightarrow> bool" where
  "ring_ok r \<longleftrightarrow> 0 < rg_max r \<and> rg_bytes r = length (ring_concat r) \<and> rg_bytes r \<le> rg_max r"

lemma ring_evict_bytes:
  "n = length (concat cs) \<Longrightarrow> ring_evict cap cs n = (ds, m) \<Longrightarrow> m = length (concat ds)"
  by (induction cap cs n arbitrary: ds m rule: ring_evict.induct) (auto split: if_splits)

lemma ring_evict_suffix: "suffix (fst (ring_evict cap cs n)) cs"
  by (induction cap cs n rule: ring_evict.induct) (auto intro: suffix_ConsI)

lemma ring_evict_stops:
  "ring_evict cap cs n = (ds, m) \<Longrightarrow> m \<le> cap \<or> length ds \<le> 1"
  by (induction cap cs n arbitrary: ds m rule: ring_evict.induct) (auto split: if_splits)

lemma ring_evict_nonempty: "cs \<noteq> [] \<Longrightarrow> fst (ring_evict cap cs n) \<noteq> []"
  by (induction cap cs n rule: ring_evict.induct) auto

lemma ring_evict_last: "cs \<noteq> [] \<Longrightarrow> List.last (fst (ring_evict cap cs n)) = List.last cs"
  by (induction cap cs n rule: ring_evict.induct) auto

text \<open>A chunk is dropped only when it and the kept ones together exceed the cap.\<close>

lemma ring_evict_needed:
  "n = length (concat cs) \<Longrightarrow> ring_evict cap cs n = (ds, m) \<Longrightarrow> ds \<noteq> cs \<Longrightarrow>
   \<exists>es c. cs = es @ c # ds \<and> cap < length (concat (c # ds))"
proof (induction cap cs n arbitrary: ds m rule: ring_evict.induct)
  case (1 cap removed c cs n)
  have over: "cap < n" using "1.prems" by (auto split: if_splits)
  have ev: "ring_evict cap (c # cs) (n - length removed) = (ds, m)" using "1.prems" over by simp
  show ?case
  proof (cases "ds = c # cs")
    case True
    then show ?thesis using over "1.prems"(1) by (intro exI [of _ "[]"] exI [of _ removed]) simp
  next
    case False
    obtain es d where "c # cs = es @ d # ds" "cap < length (concat (d # ds))"
      using "1.IH" [OF over _ ev False] "1.prems"(1) by auto
    then show ?thesis by (intro exI [of _ "removed # es"] exI [of _ d]) simp
  qed
qed auto

lemma suffix_concat: "suffix ds cs \<Longrightarrow> suffix (concat ds) (concat cs)"
  by (auto simp: suffix_def)

text \<open>What one append does, in one place: the eviction, then perhaps the cut of a single chunk.\<close>

lemma ring_append_cases:
  assumes "ring_ok r" and "bs \<noteq> []"
  obtains (kept) ds m where "ring_evict (rg_max r) (rg_chunks r @ [bs]) (rg_bytes r + length bs) = (ds, m)"
      "m = length (concat ds)" "m \<le> rg_max r" "ring_append bs r = r\<lparr>rg_chunks := ds, rg_bytes := m\<rparr>"
    | (cut) "rg_max r < length bs"
      "ring_append bs r = r\<lparr>rg_chunks := [drop (length bs - rg_max r) bs], rg_bytes := rg_max r\<rparr>"
proof -
  obtain ds m where ev: "ring_evict (rg_max r) (rg_chunks r @ [bs]) (rg_bytes r + length bs) = (ds, m)"
    by (cases "ring_evict (rg_max r) (rg_chunks r @ [bs]) (rg_bytes r + length bs)")
  have m: "m = length (concat ds)"
    using ring_evict_bytes [OF _ ev] assms(1) by (simp add: ring_ok_def ring_concat_def)
  have ne: "ds \<noteq> []" using ring_evict_nonempty [of "rg_chunks r @ [bs]" "rg_max r" "rg_bytes r + length bs"] ev by simp
  show thesis
  proof (cases "m \<le> rg_max r")
    case True
    then show thesis using kept ev m assms(2) by (simp add: ring_append_def)
  next
    case False
    then have "length ds = 1" using ring_evict_stops [OF ev] ne by (cases ds) auto
    then obtain c where c: "ds = [c]" by (cases ds) auto
    then have "c = bs"
      using ring_evict_last [of "rg_chunks r @ [bs]" "rg_max r" "rg_bytes r + length bs"] ev by simp
    then show thesis using cut False c m ev assms(2) by (simp add: ring_append_def)
  qed
qed

lemma ring_append_max [simp]: "rg_max (ring_append bs r) = rg_max r"
  by (simp add: ring_append_def Let_def split: prod.splits)

lemma ring_append_ok: "ring_ok r \<Longrightarrow> ring_ok (ring_append bs r)"
proof (cases "bs = []")
  case False
  assume ok: "ring_ok r"
  show ?thesis
    by (rule ring_append_cases [OF ok False]) (use ok in \<open>auto simp: ring_ok_def ring_concat_def\<close>)
qed (simp add: ring_append_def)

lemma ring_append_suffix:
  assumes "ring_ok r"
  shows "suffix (ring_concat (ring_append bs r)) (ring_concat r @ bs)"
proof (cases "bs = []")
  case False
  from assms False show ?thesis
  proof (cases rule: ring_append_cases)
    case (kept ds m)
    then have "suffix (concat ds) (concat (rg_chunks r @ [bs]))"
      using ring_evict_suffix [of "rg_max r" "rg_chunks r @ [bs]" "rg_bytes r + length bs"]
      by (metis fst_conv suffix_concat)
    then show ?thesis using kept by (simp add: ring_concat_def)
  next
    case cut
    then show ?thesis by (simp add: ring_concat_def suffix_drop suffix_appendI)
  qed
qed (simp add: ring_append_def)

lemma ring_append_keeps_all:
  assumes ok: "ring_ok r" and fits: "rg_bytes r + length bs \<le> rg_max r"
  shows "ring_concat (ring_append bs r) = ring_concat r @ bs"
proof -
  have "ring_evict (rg_max r) (rg_chunks r @ [bs]) (rg_bytes r + length bs) = (rg_chunks r @ [bs], rg_bytes r + length bs)"
    using fits by (cases "(rg_max r, rg_chunks r @ [bs], rg_bytes r + length bs)" rule: ring_evict.cases) auto
  then show ?thesis using fits by (simp add: ring_append_def ring_concat_def)
qed

text \<open>The newest bytes survive: at least the last \<open>min cap |bs|\<close> of them.\<close>

lemma ring_append_newest:
  assumes "ring_ok r"
  shows "suffix (drop (length bs - rg_max r) bs) (ring_concat (ring_append bs r))"
proof (cases "bs = []")
  case False
  from assms False show ?thesis
  proof (cases rule: ring_append_cases)
    case (kept ds m)
    have ne: "ds \<noteq> []" "List.last ds = bs"
      using kept(1) ring_evict_nonempty [of "rg_chunks r @ [bs]" "rg_max r" "rg_bytes r + length bs"]
        ring_evict_last [of "rg_chunks r @ [bs]" "rg_max r" "rg_bytes r + length bs"] by auto
    then obtain es where "ds = es @ [bs]" by (metis append_butlast_last_id)
    then show ?thesis using kept by (simp add: ring_concat_def suffix_appendI suffix_drop)
  next
    case cut
    then show ?thesis by (simp add: ring_concat_def)
  qed
qed simp

lemma ring_clear_ok: "ring_ok r \<Longrightarrow> ring_ok (ring_clear r)"
  by (simp add: ring_ok_def ring_clear_def ring_concat_def)

lemma new_ring_ok: "new_ring m = Some r \<Longrightarrow> ring_ok r \<and> rg_max r = m \<and> ring_concat r = []"
  by (auto simp: new_ring_def ring_ok_def ring_concat_def split: if_splits)

text \<open>A run of appends.\<close>

abbreviation ring_appends :: "bytes list \<Rightarrow> ring \<Rightarrow> ring" where
  "ring_appends cs r \<equiv> fold ring_append cs r"

lemma ring_appends_ok: "ring_ok r \<Longrightarrow> ring_ok (ring_appends cs r) \<and> rg_max (ring_appends cs r) = rg_max r"
  by (induction cs arbitrary: r) (auto simp: ring_append_ok)

lemma suffix_append_mono: "suffix xs ys \<Longrightarrow> suffix (xs @ zs) (ys @ zs)"
  by (auto simp: suffix_def)

lemma ring_appends_suffix:
  "ring_ok r \<Longrightarrow> suffix (ring_concat (ring_appends cs r)) (ring_concat r @ concat cs)"
proof (induction cs arbitrary: r)
  case (Cons c cs)
  have "suffix (ring_concat (ring_appends cs (ring_append c r))) (ring_concat (ring_append c r) @ concat cs)"
    using Cons by (simp add: ring_append_ok)
  moreover have "suffix (ring_concat (ring_append c r) @ concat cs) ((ring_concat r @ c) @ concat cs)"
    by (rule suffix_append_mono [OF ring_append_suffix [OF Cons.prems]])
  ultimately show ?case by (simp add: suffix_order.trans)
qed simp

lemma ring_appends_keep_all:
  "ring_ok r \<Longrightarrow> length (ring_concat r) + length (concat cs) \<le> rg_max r \<Longrightarrow>
   ring_concat (ring_appends cs r) = ring_concat r @ concat cs"
proof (induction cs arbitrary: r)
  case (Cons c cs)
  have "ring_concat (ring_append c r) = ring_concat r @ c"
    by (rule ring_append_keeps_all) (use Cons.prems in \<open>auto simp: ring_ok_def\<close>)
  then show ?case using Cons by (simp add: ring_append_ok)
qed simp

end
