(* ===== verification/Session.thy ===== *)
theory Session
  imports Ring Wire
begin

text \<open>
  \<open>packages/host/src/session/session.ts\<close>, \<open>mirror.ts\<close> and \<open>registry.ts\<close>: a host-owned session
  and the table of them. The terminal emulator (xterm) is a parameter: what the mirror does with
  it is \<open>new\<close>, \<open>write\<close>, \<open>resize\<close> and \<open>serialize\<close>. A subscriber's sink is named by the number
  its subscription drew; what reaches it, and what the session asks of its backend, is logged in
  \<open>se_out\<close> in order. Whether a sink's transport is writable is asked once per sink in each
  operation: the answers are an argument. Sinks and the backend do not call back into the session
  and do not throw.
\<close>

subsection \<open>State\<close>

definition DEFAULT_RING_BYTES :: nat where
  "DEFAULT_RING_BYTES = 256 * 1024"

definition SNAPSHOT_CHUNK_BYTES :: nat where
  "SNAPSHOT_CHUNK_BYTES = 16 * 1024"

definition DEFAULT_STREAM_ID :: nat where
  "DEFAULT_STREAM_ID = 1"

definition DEFAULT_SCROLLBACK :: nat where
  "DEFAULT_SCROLLBACK = 1000"

text \<open>The emulator: created with columns, rows and lines of scrollback.\<close>

record 'm emulator =
  em_new :: "nat \<Rightarrow> nat \<Rightarrow> nat \<Rightarrow> 'm"
  em_write :: "bytes \<Rightarrow> 'm \<Rightarrow> 'm"
  em_resize :: "nat \<Rightarrow> nat \<Rightarrow> 'm \<Rightarrow> 'm"
  em_serialize :: "'m \<Rightarrow> string"

record subscriber =
  sub_id :: nat
  sub_flow :: bool
  sub_paused :: bool
  sub_missed :: bool

record viewport =
  vp_cols :: nat
  vp_rows :: nat
  vp_at :: nat

datatype session_out =
    Deliver nat bytes
  | BackendWrite bytes
  | BackendResize nat nat
  | BackendDispose
  | BackendDetach

record 'm session =
  se_ref :: string
  se_streamId :: nat
  se_ring :: ring
  se_mirror :: 'm
  se_subs :: "subscriber list"
  se_next :: nat
  se_cols :: nat
  se_rows :: nat
  se_seq :: nat
  se_ended :: bool
  se_endedSeq :: nat
  se_disposed :: bool
  se_lastWriter :: "string option"
  se_viewports :: "(nat, viewport) amap"
  se_tick :: nat
  se_authority :: "nat option"
  se_out :: "session_out list"

definition new_mirror :: "'m emulator \<Rightarrow> nat \<Rightarrow> nat \<Rightarrow> nat option \<Rightarrow> 'm" where
  "new_mirror em cols rows scrollback =
     em_new em cols rows (case scrollback of None \<Rightarrow> DEFAULT_SCROLLBACK | Some l \<Rightarrow> l)"

record session_options =
  op_ringBytes :: "nat option"
  op_scrollback :: "nat option"
  op_streamId :: "nat option"

text \<open>The constructor throws when the ring does.\<close>

definition new_session ::
  "'m emulator \<Rightarrow> string \<Rightarrow> nat \<Rightarrow> nat \<Rightarrow> session_options \<Rightarrow> 'm session option" where
  "new_session em ref cols rows opts =
     (case new_ring (case op_ringBytes opts of None \<Rightarrow> DEFAULT_RING_BYTES | Some n \<Rightarrow> n) of
        None \<Rightarrow> None
      | Some r \<Rightarrow> Some
          \<lparr>se_ref = ref, se_streamId = (case op_streamId opts of None \<Rightarrow> DEFAULT_STREAM_ID | Some n \<Rightarrow> n),
           se_ring = r, se_mirror = new_mirror em cols rows (op_scrollback opts), se_subs = [], se_next = 0,
           se_cols = cols, se_rows = rows, se_seq = 0, se_ended = False, se_endedSeq = 0,
           se_disposed = False, se_lastWriter = None, se_viewports = [], se_tick = 0,
           se_authority = None, se_out = []\<rparr>)"

definition session_emit :: "session_out \<Rightarrow> 'm session \<Rightarrow> 'm session" where
  "session_emit e s = s\<lparr>se_out := se_out s @ [e]\<rparr>"

subsection \<open>Frames\<close>

abbreviation session_frame :: "nat \<Rightarrow> pty_opcode \<Rightarrow> bytes \<Rightarrow> nat \<Rightarrow> pty_frame" where
  "session_frame stream op payload n \<equiv>
     \<lparr>pf_opcode = opcode_value op, pf_streamId = stream, pf_seq = n, pf_payload = payload\<rparr>"

definition emitTo :: "nat \<Rightarrow> pty_opcode \<Rightarrow> bytes \<Rightarrow> nat \<Rightarrow> 'm session \<Rightarrow> 'm session" where
  "emitTo sink op payload n s =
     session_emit (Deliver sink (encodePtyFrame (session_frame (se_streamId s) op payload n))) s"

function emit_chunks :: "nat \<Rightarrow> bytes \<Rightarrow> nat \<Rightarrow> nat \<Rightarrow> 'm session \<Rightarrow> 'm session" where
  "emit_chunks sink body offset n s =
     (if offset < length body
      then emit_chunks sink body (offset + SNAPSHOT_CHUNK_BYTES) n
             (emitTo sink SnapshotChunk (take SNAPSHOT_CHUNK_BYTES (drop offset body)) n s)
      else s)"
  by auto
termination
  by (relation "measure (\<lambda>(_, body, offset, _, _). length body - offset)")
    (auto simp: SNAPSHOT_CHUNK_BYTES_def)

declare emit_chunks.simps [simp del]

definition emitSnapshot :: "'m emulator \<Rightarrow> nat \<Rightarrow> 'm session \<Rightarrow> 'm session" where
  "emitSnapshot em sink s =
     (let n = se_seq s;
          s1 = emitTo sink SnapshotStart (encodeSizePayload \<lparr>sz_cols = se_cols s, sz_rows = se_rows s\<rparr>) n s;
          s2 = emit_chunks sink (utf8 (em_serialize em (se_mirror s))) 0 n s1
      in emitTo sink SnapshotEnd [] n s2)"

text \<open>The loop of \<open>#broadcast\<close> over the subscribers: their new state and what is delivered.\<close>

fun fan_out :: "(nat \<Rightarrow> bool) \<Rightarrow> bool \<Rightarrow> bytes \<Rightarrow> subscriber list \<Rightarrow> subscriber list \<times> session_out list" where
  "fan_out writable terminal frame [] = ([], [])"
| "fan_out writable terminal frame (b # bs) =
     (let (bs', outs) = fan_out writable terminal frame bs
      in if sub_paused b \<and> \<not> terminal then (b\<lparr>sub_missed := True\<rparr> # bs', outs)
         else ((if \<not> terminal \<and> sub_flow b \<and> \<not> writable (sub_id b) then b\<lparr>sub_paused := True\<rparr> else b) # bs',
               Deliver (sub_id b) frame # outs))"

definition broadcast :: "(nat \<Rightarrow> bool) \<Rightarrow> pty_opcode \<Rightarrow> bytes \<Rightarrow> 'm session \<Rightarrow> 'm session" where
  "broadcast writable op payload s =
     (let n = Suc (se_seq s);
          frame = encodePtyFrame (session_frame (se_streamId s) op payload n);
          (subs, outs) = fan_out writable (op = Ended) frame (se_subs s)
      in s\<lparr>se_seq := n, se_subs := subs, se_out := se_out s @ outs\<rparr>)"

subsection \<open>Subscription\<close>

text \<open>\<open>None\<close> is the throw on a disposed session. The returned number names the subscription, for
  \<open>unsubscribe\<close> and for its drain handler.\<close>

definition subscribe ::
  "'m emulator \<Rightarrow> bool \<Rightarrow> (nat \<Rightarrow> bool) \<Rightarrow> 'm session \<Rightarrow> ('m session \<times> nat) option" where
  "subscribe em flow writable s =
     (if se_disposed s then None
      else
        let sink = se_next s;
            s1 = emitSnapshot em sink (s\<lparr>se_next := Suc sink\<rparr>);
            s2 = (if se_ended s1 then emitTo sink Ended (encodeExitPayload None) (se_endedSeq s1) s1 else s1);
            sub = \<lparr>sub_id = sink, sub_flow = flow,
                   sub_paused = (flow \<and> \<not> se_ended s2 \<and> \<not> writable sink), sub_missed = False\<rparr>
        in Some (s2\<lparr>se_subs := se_subs s2 @ [sub]\<rparr>, sink))"

definition unsubscribe :: "nat \<Rightarrow> 'm session \<Rightarrow> 'm session" where
  "unsubscribe sink s = s\<lparr>se_subs := filter (\<lambda>b. sub_id b \<noteq> sink) (se_subs s)\<rparr>"

definition set_sub :: "nat \<Rightarrow> (subscriber \<Rightarrow> subscriber) \<Rightarrow> 'm session \<Rightarrow> 'm session" where
  "set_sub sink f s = s\<lparr>se_subs := map (\<lambda>b. if sub_id b = sink then f b else b) (se_subs s)\<rparr>"

definition resumeSubscriber :: "'m emulator \<Rightarrow> (nat \<Rightarrow> bool) \<Rightarrow> nat \<Rightarrow> 'm session \<Rightarrow> 'm session" where
  "resumeSubscriber em writable sink s =
     (case filter (\<lambda>b. sub_id b = sink) (se_subs s) of
        [] \<Rightarrow> s
      | b # _ \<Rightarrow>
          if \<not> sub_paused b then s
          else
            let s1 = set_sub sink (\<lambda>b. b\<lparr>sub_paused := False\<rparr>) s
            in if \<not> sub_missed b then s1
               else
                 let s2 = set_sub sink (\<lambda>b. b\<lparr>sub_missed := False\<rparr>) s1;
                     s3 = emitSnapshot em sink (emitTo sink Gap [] (se_seq s2) s2)
                 in if sub_flow b \<and> \<not> writable sink
                    then set_sub sink (\<lambda>b. b\<lparr>sub_paused := True\<rparr>) s3 else s3)"

subsection \<open>Input and control\<close>

definition writeInput :: "bytes \<Rightarrow> string option \<Rightarrow> 'm session \<Rightarrow> 'm session" where
  "writeInput bs who s =
     (if se_ended s \<or> se_disposed s then s
      else session_emit (BackendWrite bs)
             (case who of None \<Rightarrow> s | Some w \<Rightarrow> s\<lparr>se_lastWriter := Some w\<rparr>))"

definition resize :: "'m emulator \<Rightarrow> (nat \<Rightarrow> bool) \<Rightarrow> nat \<Rightarrow> nat \<Rightarrow> 'm session \<Rightarrow> 'm session" where
  "resize em writable cols rows s =
     (if se_ended s \<or> se_disposed s then s
      else
        broadcast writable Resized (encodeSizePayload \<lparr>sz_cols = cols, sz_rows = rows\<rparr>)
          ((session_emit (BackendResize cols rows) (s\<lparr>se_cols := cols, se_rows := rows\<rparr>))
             \<lparr>se_mirror := em_resize em cols rows (se_mirror s)\<rparr>))"

definition observeViewer :: "nat \<Rightarrow> nat \<Rightarrow> nat \<Rightarrow> 'm session \<Rightarrow> 'm session" where
  "observeViewer viewer cols rows s =
     s\<lparr>se_tick := Suc (se_tick s),
       se_viewports := aset viewer \<lparr>vp_cols = cols, vp_rows = rows, vp_at = Suc (se_tick s)\<rparr> (se_viewports s)\<rparr>"

definition resizeViewer ::
  "'m emulator \<Rightarrow> (nat \<Rightarrow> bool) \<Rightarrow> nat \<Rightarrow> nat \<Rightarrow> nat \<Rightarrow> 'm session \<Rightarrow> 'm session" where
  "resizeViewer em writable viewer cols rows s =
     resize em writable cols rows ((observeViewer viewer cols rows s)\<lparr>se_authority := Some viewer\<rparr>)"

text \<open>The loop that looks for the latest record; \<open>best\<close> starts at -1.\<close>

fun find_heir :: "(nat, viewport) amap \<Rightarrow> int \<Rightarrow> nat option \<Rightarrow> nat option" where
  "find_heir [] best heir = heir"
| "find_heir ((candidate, r) # m) best heir =
     (if best < int (vp_at r) then find_heir m (int (vp_at r)) (Some candidate)
      else find_heir m best heir)"

definition releaseViewer :: "'m emulator \<Rightarrow> (nat \<Rightarrow> bool) \<Rightarrow> nat \<Rightarrow> 'm session \<Rightarrow> 'm session" where
  "releaseViewer em writable viewer s =
     (let hadRecord = (aget (se_viewports s) viewer \<noteq> None);
          s1 = s\<lparr>se_viewports := adel viewer (se_viewports s)\<rparr>
      in if se_authority s1 \<noteq> Some viewer then s1
         else
           let s2 = s1\<lparr>se_authority := None\<rparr>
           in if \<not> hadRecord then s2
              else case find_heir (se_viewports s2) (-1) None of
                  None \<Rightarrow> s2
                | Some heir \<Rightarrow>
                    (case aget (se_viewports s2) heir of
                       None \<Rightarrow> s2
                     | Some r \<Rightarrow>
                         let s3 = s2\<lparr>se_authority := Some heir\<rparr>
                         in if vp_cols r \<noteq> se_cols s3 \<or> vp_rows r \<noteq> se_rows s3
                            then resize em writable (vp_cols r) (vp_rows r) s3 else s3))"

text \<open>Detaching from the backend is one call per listener.\<close>

definition detach_backend :: "'m session \<Rightarrow> 'm session" where
  "detach_backend s = session_emit BackendDetach (session_emit BackendDetach s)"

definition dispose :: "'m session \<Rightarrow> 'm session" where
  "dispose s =
     (if se_disposed s then s
      else
        let s1 = detach_backend (s\<lparr>se_disposed := True\<rparr>);
            s2 = s1\<lparr>se_subs := [], se_ring := ring_clear (se_ring s1)\<rparr>
        in if se_ended s2 then s2 else session_emit BackendDispose s2)"

subsection \<open>Backend events\<close>

definition onOutput :: "'m emulator \<Rightarrow> (nat \<Rightarrow> bool) \<Rightarrow> bytes \<Rightarrow> 'm session \<Rightarrow> 'm session" where
  "onOutput em writable bs s =
     (if se_ended s \<or> se_disposed s then s
      else broadcast writable Output bs
             (s\<lparr>se_ring := ring_append bs (se_ring s), se_mirror := em_write em bs (se_mirror s)\<rparr>))"

definition onExit :: "int option \<Rightarrow> 'm session \<Rightarrow> 'm session" where
  "onExit code s =
     (if se_ended s \<or> se_disposed s then s
      else
        let s1 = broadcast (\<lambda>_. True) Ended (encodeExitPayload code) s
        in detach_backend (s1\<lparr>se_endedSeq := se_seq s1, se_ended := True, se_subs := []\<rparr>))"

subsection \<open>Introspection\<close>

definition subscriberCount :: "'m session \<Rightarrow> nat" where
  "subscriberCount s = length (se_subs s)"

definition rawByteLength :: "'m session \<Rightarrow> nat" where
  "rawByteLength s = rg_bytes (se_ring s)"

definition raw_output :: "'m session \<Rightarrow> bytes" where
  "raw_output s = ring_concat (se_ring s)"

subsection \<open>The session as a machine\<close>

datatype session_event =
    SubscribeEv bool "nat \<Rightarrow> bool"
  | UnsubscribeEv nat
  | WriteEv bytes "string option"
  | ResizeEv nat nat "nat \<Rightarrow> bool"
  | ObserveEv nat nat nat
  | ResizeViewerEv nat nat nat "nat \<Rightarrow> bool"
  | ReleaseViewerEv nat "nat \<Rightarrow> bool"
  | DisposeEv
  | OutputEv bytes "nat \<Rightarrow> bool"
  | ExitEv "int option"
  | DrainEv nat "nat \<Rightarrow> bool"

fun session_step :: "'m emulator \<Rightarrow> session_event \<Rightarrow> 'm session \<Rightarrow> 'm session" where
  "session_step em (SubscribeEv flow w) s = (case subscribe em flow w s of None \<Rightarrow> s | Some (s', _) \<Rightarrow> s')"
| "session_step em (UnsubscribeEv sink) s = unsubscribe sink s"
| "session_step em (WriteEv bs who) s = writeInput bs who s"
| "session_step em (ResizeEv c r w) s = resize em w c r s"
| "session_step em (ObserveEv v c r) s = observeViewer v c r s"
| "session_step em (ResizeViewerEv v c r w) s = resizeViewer em w v c r s"
| "session_step em (ReleaseViewerEv v w) s = releaseViewer em w v s"
| "session_step em DisposeEv s = dispose s"
| "session_step em (OutputEv bs w) s = onOutput em w bs s"
| "session_step em (ExitEv code) s = onExit code s"
| "session_step em (DrainEv sink w) s = resumeSubscriber em w sink s"

text \<open>The sizes of events that carry one are within the schema's bounds.\<close>

fun event_sized :: "session_event \<Rightarrow> bool" where
  "event_sized (ResizeEv c r w) = valid_size \<lparr>sz_cols = c, sz_rows = r\<rparr>"
| "event_sized (ObserveEv v c r) = valid_size \<lparr>sz_cols = c, sz_rows = r\<rparr>"
| "event_sized (ResizeViewerEv v c r w) = valid_size \<lparr>sz_cols = c, sz_rows = r\<rparr>"
| "event_sized _ = True"

abbreviation session_run :: "'m emulator \<Rightarrow> session_event list \<Rightarrow> 'm session \<Rightarrow> 'm session" where
  "session_run em evs s \<equiv> fold (session_step em) evs s"

subsection \<open>The registry\<close>

text \<open>\<open>registry.ts\<close>: references to sessions, in insertion order; registering a known reference
  throws.\<close>

type_synonym 'a registry = "(string, 'a) amap"

definition reg_register :: "string \<Rightarrow> 'a \<Rightarrow> 'a registry \<Rightarrow> 'a registry option" where
  "reg_register ref x g = (if aget g ref \<noteq> None then None else Some (aset ref x g))"

definition reg_get :: "string \<Rightarrow> 'a registry \<Rightarrow> 'a option" where
  "reg_get ref g = aget g ref"

definition reg_has :: "string \<Rightarrow> 'a registry \<Rightarrow> bool" where
  "reg_has ref g \<longleftrightarrow> aget g ref \<noteq> None"

definition reg_list :: "'a registry \<Rightarrow> 'a list" where
  "reg_list g = map snd g"

definition reg_remove :: "string \<Rightarrow> 'a registry \<Rightarrow> 'a registry \<times> 'a option" where
  "reg_remove ref g =
     (case aget g ref of None \<Rightarrow> (g, None) | Some x \<Rightarrow> (adel ref g, Some x))"

definition reg_size :: "'a registry \<Rightarrow> nat" where
  "reg_size g = length g"

end
