(* ===== verification/SessionReach.thy ===== *)
theory SessionReach
  imports Session
begin

text \<open>
  What a viewer can make of the frames it is sent, and the invariant that ties it to the session:
  the frames a sink has received form a numbered stream of the grammar below, and unless a gap is
  recorded against it, a subscriber can rebuild the session's emulator from its last snapshot and
  the live frames behind it. The lemmas go by the session's primitives (a snapshot, a broadcast, a
  subscription), which every operation is made of.

  The invariant of a session and its preservation by every operation. \<open>sub_ok\<close> is what holds of a
  subscriber and the frames it was sent; \<open>log_ok\<close> what holds of any sink, gone or not.
\<close>

subsection \<open>The frames of one sink\<close>

fun frames_to :: "nat \<Rightarrow> session_out list \<Rightarrow> bytes list" where
  "frames_to sink [] = []"
| "frames_to sink (Deliver i b # es) = (if i = sink then b # frames_to sink es else frames_to sink es)"
| "frames_to sink (e # es) = frames_to sink es"

lemma frames_to_append [simp]: "frames_to sink (xs @ ys) = frames_to sink xs @ frames_to sink ys"
  by (induction sink xs rule: frames_to.induct) auto

lemma frames_to_map: "frames_to sink (map (\<lambda>f. Deliver i (g f)) fs) = (if i = sink then map g fs else [])"
  by (induction fs) auto

subsection \<open>A viewer\<close>

text \<open>A viewer keeps the last snapshot, what has been drawn over it since, the terminal's size and
  the exit.\<close>

datatype mirror_op = OpWrite bytes | OpResize nat nat

fun apply_op :: "'m emulator \<Rightarrow> mirror_op \<Rightarrow> 'm \<Rightarrow> 'm" where
  "apply_op em (OpWrite bs) m = em_write em bs m"
| "apply_op em (OpResize c r) m = em_resize em c r m"

record view =
  vw_base :: bytes
  vw_complete :: bool
  vw_ops :: "mirror_op list"
  vw_size :: size
  vw_exit :: "int option option"

definition blank_view :: view where
  "blank_view = \<lparr>vw_base = [], vw_complete = False, vw_ops = [], vw_size = \<lparr>sz_cols = 0, sz_rows = 0\<rparr>,
                 vw_exit = None\<rparr>"

definition with_size :: "bytes \<Rightarrow> (size \<Rightarrow> view) \<Rightarrow> view \<Rightarrow> view" where
  "with_size p f v = (case decodeSizePayload p of None \<Rightarrow> v | Some z \<Rightarrow> f z)"

fun view_op :: "pty_opcode \<Rightarrow> bytes \<Rightarrow> view \<Rightarrow> view" where
  "view_op SnapshotStart p v =
     with_size p (\<lambda>z. v\<lparr>vw_base := [], vw_complete := False, vw_ops := [], vw_size := z\<rparr>) v"
| "view_op SnapshotChunk p v = v\<lparr>vw_base := vw_base v @ p\<rparr>"
| "view_op SnapshotEnd p v = v\<lparr>vw_complete := True\<rparr>"
| "view_op Output p v = v\<lparr>vw_ops := vw_ops v @ [OpWrite p]\<rparr>"
| "view_op Resized p v =
     with_size p (\<lambda>z. v\<lparr>vw_ops := vw_ops v @ [OpResize (sz_cols z) (sz_rows z)], vw_size := z\<rparr>) v"
| "view_op Ended p v = v\<lparr>vw_exit := decodeExitPayload p\<rparr>"
| "view_op Gap p v = v"

text \<open>A viewer decodes each frame; what does not decode or has an unknown opcode it skips.\<close>

definition view_frame :: "bytes \<Rightarrow> view \<Rightarrow> view" where
  "view_frame b v =
     (case decodePtyFrame b of
        None \<Rightarrow> v
      | Some f \<Rightarrow> (case opcode_of (pf_opcode f) of None \<Rightarrow> v | Some op \<Rightarrow> view_op op (pf_payload f) v))"

definition view_of :: "bytes list \<Rightarrow> view" where
  "view_of frames = fold view_frame frames blank_view"

lemma view_frame_encode [simp]:
  "view_frame (encodePtyFrame (session_frame st op p n)) v = view_op op p v"
  by (simp add: view_frame_def decode_encode_mod)

lemma with_size_encode [simp]:
  "c < 65536 \<Longrightarrow> r < 65536 \<Longrightarrow>
   with_size (encodeSizePayload \<lparr>sz_cols = c, sz_rows = r\<rparr>) f v = f \<lparr>sz_cols = c, sz_rows = r\<rparr>"
  by (simp add: with_size_def decode_encode_size)

lemma view_of_append: "view_of (xs @ ys) = fold view_frame ys (view_of xs)"
  by (simp add: view_of_def)

subsection \<open>Snapshots\<close>

fun chunk_frames :: "nat \<Rightarrow> nat \<Rightarrow> bytes list \<Rightarrow> pty_frame list" where
  "chunk_frames st n [] = []"
| "chunk_frames st n (c # cs) = session_frame st SnapshotChunk c n # chunk_frames st n cs"

function slices :: "nat \<Rightarrow> bytes \<Rightarrow> bytes list" where
  "slices k body = (if body = [] \<or> k = 0 then [] else take k body # slices k (drop k body))"
  by auto
termination by (relation "measure (length \<circ> snd)") auto

declare slices.simps [simp del]

lemma concat_slices: "0 < k \<Longrightarrow> concat (slices k body) = body"
proof (induction k body rule: slices.induct)
  case (1 k body)
  then show ?case by (subst slices.simps) auto
qed

definition snapshot_frames :: "'m emulator \<Rightarrow> 'm session \<Rightarrow> pty_frame list" where
  "snapshot_frames em s =
     session_frame (se_streamId s) SnapshotStart
       (encodeSizePayload \<lparr>sz_cols = se_cols s, sz_rows = se_rows s\<rparr>) (se_seq s) #
     chunk_frames (se_streamId s) (se_seq s) (slices SNAPSHOT_CHUNK_BYTES (utf8 (em_serialize em (se_mirror s)))) @
     [session_frame (se_streamId s) SnapshotEnd [] (se_seq s)]"

abbreviation deliveries :: "nat \<Rightarrow> pty_frame list \<Rightarrow> session_out list" where
  "deliveries sink fs \<equiv> map (\<lambda>f. Deliver sink (encodePtyFrame f)) fs"

lemma emitTo_eq:
  "emitTo sink op p n s = s\<lparr>se_out := se_out s @ deliveries sink [session_frame (se_streamId s) op p n]\<rparr>"
  by (simp add: emitTo_def session_emit_def)

lemma emit_chunks_eq:
  "emit_chunks sink body off n s =
     s\<lparr>se_out := se_out s @ deliveries sink (chunk_frames (se_streamId s) n (slices SNAPSHOT_CHUNK_BYTES (drop off body)))\<rparr>"
proof (induction sink body off n s rule: emit_chunks.induct)
  case (1 sink body off n s)
  show ?case
  proof (cases "off < length body")
    case True
    have "slices SNAPSHOT_CHUNK_BYTES (drop off body) =
        take SNAPSHOT_CHUNK_BYTES (drop off body) # slices SNAPSHOT_CHUNK_BYTES (drop (off + SNAPSHOT_CHUNK_BYTES) body)"
      using True by (subst slices.simps) (simp add: SNAPSHOT_CHUNK_BYTES_def add.commute)
    then show ?thesis using True 1 by (subst emit_chunks.simps) (simp add: emitTo_eq)
  next
    case False
    then show ?thesis by (subst emit_chunks.simps, subst slices.simps) simp
  qed
qed

lemma emitSnapshot_eq: "emitSnapshot em sink s = s\<lparr>se_out := se_out s @ deliveries sink (snapshot_frames em s)\<rparr>"
  by (simp add: emitSnapshot_def emit_chunks_eq emitTo_eq snapshot_frames_def Let_def)

lemma fold_chunks:
  "fold view_frame (map encodePtyFrame (chunk_frames st n cs)) v = v\<lparr>vw_base := vw_base v @ concat cs\<rparr>"
  by (induction cs arbitrary: v) auto

text \<open>A snapshot resets the viewer: whatever it had, it now holds the serialized screen and nothing
  on top.\<close>

lemma view_snapshot:
  assumes "se_cols s < 65536" and "se_rows s < 65536"
  shows "fold view_frame (map encodePtyFrame (snapshot_frames em s)) v =
    v\<lparr>vw_base := utf8 (em_serialize em (se_mirror s)), vw_complete := True, vw_ops := [],
      vw_size := \<lparr>sz_cols = se_cols s, sz_rows = se_rows s\<rparr>\<rparr>"
  using assms concat_slices [of SNAPSHOT_CHUNK_BYTES]
  by (simp add: snapshot_frames_def fold_chunks SNAPSHOT_CHUNK_BYTES_def)

subsection \<open>The grammar and numbering of a stream\<close>

text \<open>Which frame may stand behind which: a snapshot is never interrupted, a gap is healed at once,
  nothing follows the end.\<close>

fun may_follow :: "pty_opcode \<Rightarrow> pty_opcode \<Rightarrow> bool" where
  "may_follow SnapshotStart g \<longleftrightarrow> g = SnapshotChunk \<or> g = SnapshotEnd"
| "may_follow SnapshotChunk g \<longleftrightarrow> g = SnapshotChunk \<or> g = SnapshotEnd"
| "may_follow Gap g \<longleftrightarrow> g = SnapshotStart"
| "may_follow Ended g \<longleftrightarrow> False"
| "may_follow _ g \<longleftrightarrow> g = Output \<or> g = Resized \<or> g = Ended \<or> g = Gap"

text \<open>Live frames count one by one; a snapshot repeats the number it is current as of; only a gap and
  the end may jump.\<close>

fun seq_step :: "pty_opcode \<Rightarrow> nat \<Rightarrow> nat \<Rightarrow> bool" where
  "seq_step Output m n \<longleftrightarrow> n = Suc m"
| "seq_step Resized m n \<longleftrightarrow> n = Suc m"
| "seq_step Ended m n \<longleftrightarrow> m \<le> n"
| "seq_step Gap m n \<longleftrightarrow> m \<le> n"
| "seq_step _ m n \<longleftrightarrow> n = m"

definition follows :: "pty_frame \<Rightarrow> pty_frame \<Rightarrow> bool" where
  "follows f g \<longleftrightarrow>
     (case (opcode_of (pf_opcode f), opcode_of (pf_opcode g)) of
        (Some a, Some b) \<Rightarrow> may_follow a b \<and> seq_step b (pf_seq f) (pf_seq g)
      | _ \<Rightarrow> False)"

definition well_numbered :: "pty_frame list \<Rightarrow> bool" where
  "well_numbered fs \<longleftrightarrow>
     (fs \<noteq> [] \<longrightarrow> pf_opcode (hd fs) = opcode_value SnapshotStart) \<and> successively follows fs"

lemma follows_session_frame [simp]:
  "follows (session_frame st a p m) (session_frame st' b q n) \<longleftrightarrow> may_follow a b \<and> seq_step b m n"
  by (simp add: follows_def)

lemma successively_chunks:
  "successively follows (session_frame st SnapshotStart p n # chunk_frames st n cs @ [session_frame st SnapshotEnd [] n])"
proof -
  have "successively follows (session_frame st op p n # chunk_frames st n cs @ [session_frame st SnapshotEnd [] n])"
    if "op = SnapshotStart \<or> op = SnapshotChunk" for op p
    using that
  proof (induction cs arbitrary: op p)
    case (Cons c cs)
    then have "successively follows
        (session_frame st SnapshotChunk c n # chunk_frames st n cs @ [session_frame st SnapshotEnd [] n])"
      by blast
    then show ?case using Cons.prems by auto
  qed auto
  then show ?thesis by blast
qed

lemma successively_snapshot: "successively follows (snapshot_frames em s)"
  unfolding snapshot_frames_def by (rule successively_chunks)

lemma snapshot_ends [simp]:
  "snapshot_frames em s \<noteq> []"
  "hd (snapshot_frames em s) =
     session_frame (se_streamId s) SnapshotStart (encodeSizePayload \<lparr>sz_cols = se_cols s, sz_rows = se_rows s\<rparr>) (se_seq s)"
  "List.last (snapshot_frames em s) = session_frame (se_streamId s) SnapshotEnd [] (se_seq s)"
  by (simp_all add: snapshot_frames_def)

lemma chunk_frames_seq: "f \<in> set (chunk_frames st n cs) \<Longrightarrow> pf_seq f = n \<and> pf_streamId f = st"
  by (induction cs) auto

lemma snapshot_seq: "f \<in> set (snapshot_frames em s) \<Longrightarrow> pf_seq f = se_seq s \<and> pf_streamId f = se_streamId s"
  by (auto simp: snapshot_frames_def dest: chunk_frames_seq)

subsection \<open>The invariant\<close>

definition log_ok :: "nat \<Rightarrow> bytes list \<Rightarrow> bool" where
  "log_ok n bs \<longleftrightarrow> (\<exists>fs. bs = map encodePtyFrame fs \<and> well_numbered fs \<and> (\<forall>f \<in> set fs. pf_seq f \<le> n))"

definition synced :: "'m emulator \<Rightarrow> 'm session \<Rightarrow> bool \<Rightarrow> view \<Rightarrow> bool" where
  "synced em s missed v \<longleftrightarrow>
     vw_complete v \<and>
     (\<exists>m0 rest. vw_base v = utf8 (em_serialize em m0) \<and>
        se_mirror s = fold (apply_op em) (vw_ops v @ rest) m0 \<and>
        (\<not> missed \<longrightarrow> rest = [] \<and> vw_size v = \<lparr>sz_cols = se_cols s, sz_rows = se_rows s\<rparr>))"

definition stream_ok :: "'m session \<Rightarrow> bool \<Rightarrow> bytes list \<Rightarrow> bool" where
  "stream_ok s missed bs \<longleftrightarrow>
     (\<exists>fs. bs = map encodePtyFrame fs \<and> well_numbered fs \<and> fs \<noteq> [] \<and> (\<forall>f \<in> set fs. pf_seq f \<le> se_seq s) \<and>
        (\<not> missed \<longrightarrow> pf_seq (List.last fs) = se_seq s) \<and>
        (\<not> se_ended s \<longrightarrow> (\<exists>op n p. List.last fs = session_frame (se_streamId s) op p n \<and>
            (op = SnapshotEnd \<or> op = Output \<or> op = Resized))))"

definition sub_ok :: "'m emulator \<Rightarrow> 'm session \<Rightarrow> bool \<Rightarrow> bytes list \<Rightarrow> bool" where
  "sub_ok em s missed bs \<longleftrightarrow> stream_ok s missed bs \<and> synced em s missed (view_of bs)"

definition subs_wf :: "'m session \<Rightarrow> bool" where
  "subs_wf s \<longleftrightarrow>
     distinct (map sub_id (se_subs s)) \<and>
     (\<forall>b \<in> set (se_subs s). sub_id b < se_next s \<and> (sub_missed b \<longrightarrow> sub_paused b) \<and>
        (sub_paused b \<longrightarrow> sub_flow b \<and> \<not> se_ended s))"

definition small :: "nat \<Rightarrow> nat \<Rightarrow> bool" where
  "small c r \<longleftrightarrow> c < 65536 \<and> r < 65536"

definition sizes_ok :: "'m session \<Rightarrow> bool" where
  "sizes_ok s \<longleftrightarrow> small (se_cols s) (se_rows s) \<and>
     (\<forall>(v, r) \<in> set (se_viewports s). small (vp_cols r) (vp_rows r))"

definition session_inv :: "'m emulator \<Rightarrow> 'm session \<Rightarrow> bool" where
  "session_inv em s \<longleftrightarrow>
     subs_wf s \<and> sizes_ok s \<and> ring_ok (se_ring s) \<and> (se_ended s \<longrightarrow> se_endedSeq s = se_seq s) \<and>
     (\<forall>sink \<ge> se_next s. frames_to sink (se_out s) = []) \<and>
     (\<forall>sink. log_ok (se_seq s) (frames_to sink (se_out s))) \<and>
     (\<forall>b \<in> set (se_subs s). sub_ok em s (sub_missed b) (frames_to (sub_id b) (se_out s)))"

lemmas session_inv_defs = session_inv_def subs_wf_def sizes_ok_def sub_ok_def stream_ok_def synced_def

lemma log_ok_mono: "log_ok m bs \<Longrightarrow> m \<le> n \<Longrightarrow> log_ok n bs"
  unfolding log_ok_def by (elim exE, rule exI) force

lemma log_ok_Nil [simp]: "log_ok n []"
  by (simp add: log_ok_def well_numbered_def)

lemma stream_log_ok: "stream_ok s mi bs \<Longrightarrow> log_ok (se_seq s) bs"
  unfolding stream_ok_def log_ok_def by blast

lemma well_numbered_append:
  assumes "well_numbered fs" and "fs \<noteq> []" and "gs \<noteq> []" and "successively follows gs"
    and "follows (List.last fs) (hd gs)"
  shows "well_numbered (fs @ gs)"
  using assms by (simp add: well_numbered_def successively_append_iff)

subsection \<open>One subscriber hears, or misses, a live frame\<close>

text \<open>The two kinds of live frame and what they do to the emulator.\<close>

definition live_frame :: "pty_opcode \<Rightarrow> bytes \<Rightarrow> mirror_op \<Rightarrow> bool" where
  "live_frame op p x \<longleftrightarrow>
     (op = Output \<and> x = OpWrite p) \<or>
     (\<exists>c r. op = Resized \<and> p = encodeSizePayload \<lparr>sz_cols = c, sz_rows = r\<rparr> \<and> x = OpResize c r \<and> small c r)"

fun op_size :: "mirror_op \<Rightarrow> size \<Rightarrow> size" where
  "op_size (OpWrite p) z = z"
| "op_size (OpResize c r) z = \<lparr>sz_cols = c, sz_rows = r\<rparr>"

text \<open>\<open>s'\<close> is \<open>s\<close> after the live operation \<open>x\<close>, as far as its viewers can tell.\<close>

definition advanced :: "'m emulator \<Rightarrow> mirror_op \<Rightarrow> 'm session \<Rightarrow> 'm session \<Rightarrow> bool" where
  "advanced em x s s' \<longleftrightarrow>
     se_seq s' = Suc (se_seq s) \<and> se_mirror s' = apply_op em x (se_mirror s) \<and> se_ended s' = se_ended s \<and>
     se_streamId s' = se_streamId s \<and>
     \<lparr>sz_cols = se_cols s', sz_rows = se_rows s'\<rparr> = op_size x \<lparr>sz_cols = se_cols s, sz_rows = se_rows s\<rparr>"

lemma view_live:
  assumes "live_frame op p x"
  shows "view_op op p v = v\<lparr>vw_ops := vw_ops v @ [x], vw_size := op_size x (vw_size v)\<rparr>"
  using assms by (auto simp: live_frame_def small_def)

lemma stream_hears:
  assumes ok: "stream_ok s False bs" and live: "live_frame op p x" and adv: "advanced em x s s'"
    and on: "\<not> se_ended s"
  shows "stream_ok s' False (bs @ [encodePtyFrame (session_frame (se_streamId s) op p (Suc (se_seq s)))])"
proof -
  obtain fs where fs: "bs = map encodePtyFrame fs" "well_numbered fs" "fs \<noteq> []"
      "\<forall>f \<in> set fs. pf_seq f \<le> se_seq s" "pf_seq (List.last fs) = se_seq s"
      "\<exists>op n p. List.last fs = session_frame (se_streamId s) op p n \<and> (op = SnapshotEnd \<or> op = Output \<or> op = Resized)"
    using ok on unfolding stream_ok_def by auto
  let ?g = "session_frame (se_streamId s) op p (Suc (se_seq s))"
  have op: "op = Output \<or> op = Resized" using live by (auto simp: live_frame_def)
  have "follows (List.last fs) ?g" using fs(5,6) op by auto
  then have "well_numbered (fs @ [?g])" using fs by (intro well_numbered_append) auto
  moreover have "\<forall>f \<in> set (fs @ [?g]). pf_seq f \<le> se_seq s'" using fs(4) adv by (auto simp: advanced_def)
  moreover have "pf_seq (List.last (fs @ [?g])) = se_seq s'" using adv by (simp add: advanced_def)
  moreover have "\<exists>op n p. List.last (fs @ [?g]) = session_frame (se_streamId s') op p n \<and>
      (op = SnapshotEnd \<or> op = Output \<or> op = Resized)"
    using op adv by (auto simp: advanced_def)
  ultimately show ?thesis unfolding stream_ok_def using fs(1)
    by (intro exI [of _ "fs @ [?g]"]) auto
qed

lemma synced_hears:
  assumes "synced em s False v" and "advanced em x s s'"
  shows "synced em s' False (v\<lparr>vw_ops := vw_ops v @ [x], vw_size := op_size x (vw_size v)\<rparr>)"
  using assms unfolding synced_def advanced_def by auto

lemma sub_hears:
  assumes "sub_ok em s False bs" and "live_frame op p x" and "advanced em x s s'" and "\<not> se_ended s"
  shows "sub_ok em s' False (bs @ [encodePtyFrame (session_frame (se_streamId s) op p (Suc (se_seq s)))])"
  using assms stream_hears [of s bs op p x em s'] synced_hears [of em s "view_of bs" x s']
  by (simp add: sub_ok_def view_of_append view_live)

lemma sub_misses:
  assumes ok: "sub_ok em s mi bs" and adv: "advanced em x s s'"
  shows "sub_ok em s' True bs"
proof -
  have "stream_ok s' True bs"
    using ok adv unfolding sub_ok_def stream_ok_def advanced_def by (metis le_SucI)
  moreover obtain m0 rest where "vw_complete (view_of bs)" "vw_base (view_of bs) = utf8 (em_serialize em m0)"
      "se_mirror s = fold (apply_op em) (vw_ops (view_of bs) @ rest) m0"
    using ok unfolding sub_ok_def synced_def by blast
  then have "synced em s' True (view_of bs)"
    using adv unfolding synced_def advanced_def by (auto intro!: exI [of _ m0] exI [of _ "rest @ [x]"])
  ultimately show ?thesis by (simp add: sub_ok_def)
qed

text \<open>A snapshot catches a viewer up, from wherever it was.\<close>

lemma sub_snapshot:
  assumes small: "small (se_cols s) (se_rows s)"
    and fs: "bs = map encodePtyFrame fs" "\<forall>f \<in> set fs. pf_seq f \<le> se_seq s" "well_numbered fs"
    and join: "fs = [] \<or> follows (List.last fs) (hd (snapshot_frames em s))"
  shows "sub_ok em s False (bs @ map encodePtyFrame (snapshot_frames em s))"
proof -
  let ?gs = "snapshot_frames em s"
  have wn: "well_numbered (fs @ ?gs)"
  proof (cases "fs = []")
    case True
    then show ?thesis using successively_snapshot [of em s] by (simp add: well_numbered_def)
  next
    case False
    then show ?thesis using fs join successively_snapshot by (intro well_numbered_append) auto
  qed
  have "stream_ok s False (bs @ map encodePtyFrame ?gs)"
    unfolding stream_ok_def using wn fs(1,2) snapshot_seq [of _ em s]
    by (intro exI [of _ "fs @ ?gs"]) (auto simp: less_imp_le)
  moreover have "synced em s False (view_of (bs @ map encodePtyFrame ?gs))"
    using small unfolding view_of_append small_def
    by (auto simp: view_snapshot synced_def)
  ultimately show ?thesis by (simp add: sub_ok_def)
qed

subsection \<open>The fan-out\<close>

abbreviation takes :: "bool \<Rightarrow> subscriber \<Rightarrow> bool" where
  "takes terminal b \<equiv> terminal \<or> \<not> sub_paused b"

definition hear :: "(nat \<Rightarrow> bool) \<Rightarrow> bool \<Rightarrow> subscriber \<Rightarrow> subscriber" where
  "hear w terminal b =
     (if sub_paused b \<and> \<not> terminal then b\<lparr>sub_missed := True\<rparr>
      else if \<not> terminal \<and> sub_flow b \<and> \<not> w (sub_id b) then b\<lparr>sub_paused := True\<rparr> else b)"

lemma fan_out_subs: "fst (fan_out w t fr bs) = map (hear w t) bs"
  by (induction bs) (auto simp: hear_def split: prod.splits)

lemma fan_out_absent: "sink \<notin> sub_id ` set bs \<Longrightarrow> frames_to sink (snd (fan_out w t fr bs)) = []"
  by (induction bs) (auto split: prod.splits)

lemma fan_out_frames:
  "distinct (map sub_id bs) \<Longrightarrow> b \<in> set bs \<Longrightarrow>
   frames_to (sub_id b) (snd (fan_out w t fr bs)) = (if takes t b then [fr] else [])"
proof (induction bs)
  case (Cons a bs)
  have "sub_id a \<notin> sub_id ` set bs" using Cons.prems by simp
  then have none: "frames_to (sub_id a) (snd (fan_out w t fr bs)) = []" by (rule fan_out_absent)
  show ?case
  proof (cases "b = a")
    case True
    then show ?thesis using none by (auto split: prod.splits)
  next
    case False
    then have "b \<in> set bs" and "sub_id b \<noteq> sub_id a"
      using Cons.prems \<open>sub_id a \<notin> sub_id ` set bs\<close> by (auto simp: image_iff)
    then show ?thesis using Cons by (auto split: prod.splits)
  qed
qed simp

lemma hear_fields [simp]:
  "sub_id (hear w t b) = sub_id b" "sub_flow (hear w t b) = sub_flow b"
  by (simp_all add: hear_def)

lemma map_hear [simp]: "map (sub_id \<circ> hear w t) bs = map sub_id bs"
  by simp

lemma broadcast_eq:
  "broadcast w op p s = s\<lparr>se_seq := Suc (se_seq s), se_subs := map (hear w (op = Ended)) (se_subs s),
     se_out := se_out s @ snd (fan_out w (op = Ended)
       (encodePtyFrame (session_frame (se_streamId s) op p (Suc (se_seq s)))) (se_subs s))\<rparr>"
  using fan_out_subs [of w "op = Ended" "encodePtyFrame (session_frame (se_streamId s) op p (Suc (se_seq s)))" "se_subs s"]
  by (auto simp: broadcast_def Let_def split: prod.splits)

subsection \<open>The operations keep it\<close>

text \<open>A live operation: the emulator advances and every subscriber is told.\<close>

lemma live_broadcast:
  assumes inv: "session_inv em s" and on: "\<not> se_ended s" and live: "live_frame op p x"
    and adv: "advanced em x (s\<lparr>se_seq := se_seq t\<rparr>) (t\<lparr>se_seq := Suc (se_seq t)\<rparr>)"
    and same: "se_seq t = se_seq s" "se_subs t = se_subs s" "se_next t = se_next s"
      "\<And>sink. frames_to sink (se_out t) = frames_to sink (se_out s)"
    and ring: "ring_ok (se_ring t)" and sizes: "sizes_ok t"
  shows "session_inv em (broadcast w op p t)"
proof -
  let ?s' = "broadcast w op p t"
  let ?fr = "encodePtyFrame (session_frame (se_streamId s) op p (Suc (se_seq s)))"
  have nt: "op \<noteq> Ended" using live by (auto simp: live_frame_def)
  have st: "se_streamId t = se_streamId s" "se_ended t = se_ended s" using adv by (auto simp: advanced_def)
  have adv': "advanced em x s ?s'" using adv same(1) by (simp add: advanced_def broadcast_eq)
  have wf: "subs_wf s" using inv by (simp add: session_inv_def)
  have frames: "frames_to (sub_id b) (se_out ?s') =
      frames_to (sub_id b) (se_out s) @ (if takes False b then [?fr] else [])" if "b \<in> set (se_subs s)" for b
    using that wf nt same st fan_out_frames [of "se_subs s" b w False ?fr]
    by (simp add: broadcast_eq subs_wf_def)
  have absent: "frames_to sink (se_out ?s') = frames_to sink (se_out s)" if "sink \<notin> sub_id ` set (se_subs s)" for sink
    using that same st by (simp add: broadcast_eq fan_out_absent)
  have subs: "sub_ok em ?s' (sub_missed (hear w False b)) (frames_to (sub_id b) (se_out ?s'))"
    if b: "b \<in> set (se_subs s)" for b
  proof -
    have old: "sub_ok em s (sub_missed b) (frames_to (sub_id b) (se_out s))"
      using inv b by (simp add: session_inv_def)
    show ?thesis
    proof (cases "sub_paused b")
      case True
      then show ?thesis using sub_misses [OF old adv'] frames [OF b] by (simp add: hear_def)
    next
      case False
      then have nm: "\<not> sub_missed b" using wf b by (auto simp: subs_wf_def)
      then have "sub_ok em ?s' False (frames_to (sub_id b) (se_out s) @ [?fr])"
        using sub_hears [OF _ live adv' on, of "frames_to (sub_id b) (se_out s)"] old by simp
      then show ?thesis using False nm frames [OF b] by (simp add: hear_def)
    qed
  qed
  have logs: "log_ok (se_seq ?s') (frames_to sink (se_out ?s'))" for sink
  proof (cases "sink \<in> sub_id ` set (se_subs s)")
    case True
    then obtain b where b: "b \<in> set (se_subs s)" "sink = sub_id b" by blast
    then show ?thesis using subs [OF b(1)] stream_log_ok unfolding sub_ok_def by blast
  next
    case False
    then show ?thesis using absent inv same log_ok_mono [of "se_seq s" _ "Suc (se_seq s)"]
      by (simp add: session_inv_def broadcast_eq)
  qed
  have wf': "subs_wf ?s'"
  proof -
    have "(sub_missed (hear w False b) \<longrightarrow> sub_paused (hear w False b)) \<and>
        (sub_paused (hear w False b) \<longrightarrow> sub_flow b)"
      if "b \<in> set (se_subs s)" for b
      using wf that by (auto simp: subs_wf_def hear_def)
    then show ?thesis using wf nt same st on by (simp add: subs_wf_def broadcast_eq)
  qed
  have fresh: "frames_to sink (se_out ?s') = []" if "se_next s \<le> sink" for sink
  proof -
    have "sink \<notin> sub_id ` set (se_subs s)" using wf that by (force simp: subs_wf_def)
    then show ?thesis using absent inv that by (simp add: session_inv_def)
  qed
  show ?thesis
    unfolding session_inv_def
    using wf' sizes ring fresh logs subs same on st nt
    by (auto simp: broadcast_eq sizes_ok_def)
qed

text \<open>Fields no viewer sees.\<close>

lemma session_inv_silent:
  assumes "session_inv em s"
    and "se_subs t = se_subs s" "se_next t = se_next s" "se_mirror t = se_mirror s" "se_cols t = se_cols s"
      "se_rows t = se_rows s" "se_seq t = se_seq s" "se_streamId t = se_streamId s" "se_ended t = se_ended s"
      "se_endedSeq t = se_endedSeq s" "\<And>sink. frames_to sink (se_out t) = frames_to sink (se_out s)"
    and "ring_ok (se_ring t)" "sizes_ok t"
  shows "session_inv em t"
  using assms by (simp add: session_inv_defs)

lemma session_inv_drop_subs:
  assumes "session_inv em s" and "t = s\<lparr>se_subs := filter P (se_subs s)\<rparr>"
  shows "session_inv em t"
  using assms by (auto simp: session_inv_defs distinct_map_filter)

lemma ring_of [dest]: "session_inv em s \<Longrightarrow> ring_ok (se_ring s)"
  and sizes_of: "session_inv em s \<Longrightarrow> sizes_ok s"
  by (simp_all add: session_inv_def)

lemma viewport_small [dest]:
  "(a, b) \<in> set (se_viewports s) \<Longrightarrow> session_inv em s \<Longrightarrow> small (vp_cols b) (vp_rows b)"
  unfolding session_inv_def sizes_ok_def by blast

lemma screen_small [dest]: "session_inv em s \<Longrightarrow> small (se_cols s) (se_rows s)"
  unfolding session_inv_def sizes_ok_def by blast

lemma resize_inv:
  assumes inv: "session_inv em s" and "small c r"
  shows "session_inv em (resize em w c r s)"
proof (cases "se_ended s \<or> se_disposed s")
  case True
  then show ?thesis using inv by (simp add: resize_def)
next
  case False
  then have res: "resize em w c r s = broadcast w Resized (encodeSizePayload \<lparr>sz_cols = c, sz_rows = r\<rparr>)
      ((session_emit (BackendResize c r) (s\<lparr>se_cols := c, se_rows := r\<rparr>))\<lparr>se_mirror := em_resize em c r (se_mirror s)\<rparr>)"
    by (simp add: resize_def)
  show ?thesis unfolding res
    by (rule live_broadcast [where s = s and x = "OpResize c r"])
      (use False assms sizes_of [OF inv] in \<open>auto simp: live_frame_def advanced_def session_emit_def sizes_ok_def\<close>)
qed

lemma onOutput_inv:
  assumes inv: "session_inv em s"
  shows "session_inv em (onOutput em w bs s)"
proof (cases "se_ended s \<or> se_disposed s")
  case True
  then show ?thesis using inv by (simp add: onOutput_def)
next
  case False
  then have res: "onOutput em w bs s = broadcast w Output bs
      (s\<lparr>se_ring := ring_append bs (se_ring s), se_mirror := em_write em bs (se_mirror s)\<rparr>)"
    by (simp add: onOutput_def)
  show ?thesis unfolding res
    by (rule live_broadcast [where s = s and x = "OpWrite bs"])
      (use False inv sizes_of [OF inv] in \<open>auto simp: live_frame_def advanced_def sizes_ok_def ring_append_ok\<close>)
qed

lemma writeInput_inv: "session_inv em s \<Longrightarrow> session_inv em (writeInput bs who s)"
  by (cases who; rule session_inv_silent [where s = s])
    (auto simp: writeInput_def session_emit_def sizes_ok_def)

lemma observeViewer_inv: "session_inv em s \<Longrightarrow> small c r \<Longrightarrow> session_inv em (observeViewer v c r s)"
  by (rule session_inv_silent [where s = s])
    (auto simp: observeViewer_def sizes_ok_def dest!: in_set_aset)

lemma session_inv_authority: "session_inv em s \<Longrightarrow> session_inv em (s\<lparr>se_authority := a\<rparr>)"
  by (rule session_inv_silent [where s = s]) (auto simp: sizes_ok_def)

lemma resizeViewer_inv: "session_inv em s \<Longrightarrow> small c r \<Longrightarrow> session_inv em (resizeViewer em w v c r s)"
  unfolding resizeViewer_def by (intro resize_inv session_inv_authority observeViewer_inv)

lemma unsubscribe_inv: "session_inv em s \<Longrightarrow> session_inv em (unsubscribe sink s)"
  by (rule session_inv_drop_subs) (auto simp: unsubscribe_def)

lemma dispose_inv: "session_inv em s \<Longrightarrow> session_inv em (dispose s)"
proof (rule session_inv_silent [where s = "s\<lparr>se_subs := if se_disposed s then se_subs s else []\<rparr>"])
  assume inv: "session_inv em s"
  show "session_inv em (s\<lparr>se_subs := if se_disposed s then se_subs s else []\<rparr>)"
    by (rule session_inv_drop_subs [OF inv, where P = "\<lambda>_. se_disposed s"]) simp
qed (auto simp: dispose_def detach_backend_def session_emit_def sizes_ok_def ring_clear_ok Let_def)

lemma release_records:
  "session_inv em s \<Longrightarrow> session_inv em (s\<lparr>se_viewports := adel v (se_viewports s)\<rparr>)"
  by (rule session_inv_silent [where s = s]) (auto simp: sizes_ok_def adel_def)

lemma releaseViewer_inv:
  assumes inv: "session_inv em s"
  shows "session_inv em (releaseViewer em w v s)"
proof -
  let ?s1 = "s\<lparr>se_viewports := adel v (se_viewports s)\<rparr>"
  have 1: "session_inv em ?s1" by (rule release_records [OF inv])
  have 2: "session_inv em (?s1\<lparr>se_authority := a\<rparr>)" for a by (rule session_inv_authority [OF 1])
  have 3: "session_inv em (resize em w (vp_cols r) (vp_rows r) (?s1\<lparr>se_authority := a\<rparr>))"
    if "aget (adel v (se_viewports s)) h = Some r" for a h r
  proof (rule resize_inv [OF 2])
    have "(h, r) \<in> set (se_viewports ?s1)" using map_of_SomeD [OF that] by simp
    then show "small (vp_cols r) (vp_rows r)" using sizes_of [OF 1] unfolding sizes_ok_def by blast
  qed
  show ?thesis
    unfolding releaseViewer_def Let_def using 1 2 2 [of None] 3
    by (simp del: aget_adel split: option.splits)
qed

end
