(* ===== verification/SessionSizing.thy ===== *)
theory SessionSizing
  imports SessionReach
begin

text \<open>
  The session's remaining operations (exit, subscribe, resume) keep the invariant, and so does every
  run. Then the sizing policy: who the terminal's size belongs to.

  The sizing policy of a session: its viewports are stamped with distinct ticks, the size authority
  always has a record, and a departing authority hands the size to the latest viewport left. Then
  the sinks that are no longer subscribed: nothing reaches them again.
\<close>

subsection \<open>Exit\<close>

lemma ended_frame_log:
  assumes "stream_ok s mi bs" and "\<not> se_ended s" and "se_seq s \<le> n"
  shows "log_ok n (bs @ [encodePtyFrame (session_frame (se_streamId s) Ended p n)])"
proof -
  obtain fs where fs: "bs = map encodePtyFrame fs" "well_numbered fs" "fs \<noteq> []" "\<forall>f \<in> set fs. pf_seq f \<le> se_seq s"
      "\<exists>op n p. List.last fs = session_frame (se_streamId s) op p n \<and> (op = SnapshotEnd \<or> op = Output \<or> op = Resized)"
    using assms unfolding stream_ok_def by blast
  let ?g = "session_frame (se_streamId s) Ended p n"
  have "pf_seq (List.last fs) \<le> n" using fs(3,4) assms(3) by (meson last_in_set order_trans)
  then have "follows (List.last fs) ?g" using fs(5) by auto
  then have "well_numbered (fs @ [?g])" using fs by (intro well_numbered_append) auto
  then show ?thesis unfolding log_ok_def using fs(1,4) assms(3)
    by (intro exI [of _ "fs @ [?g]"]) (auto intro: order_trans)
qed

lemma onExit_inv:
  assumes inv: "session_inv em s"
  shows "session_inv em (onExit code s)"
proof (cases "se_ended s \<or> se_disposed s")
  case True
  then show ?thesis using inv by (simp add: onExit_def)
next
  case False
  let ?fr = "encodePtyFrame (session_frame (se_streamId s) Ended (encodeExitPayload code) (Suc (se_seq s)))"
  let ?outs = "snd (fan_out (\<lambda>_. True) True ?fr (se_subs s))"
  have wf: "subs_wf s" using inv by (simp add: session_inv_def)
  have res: "onExit code s = detach_backend (s\<lparr>se_seq := Suc (se_seq s), se_out := se_out s @ ?outs,
      se_endedSeq := Suc (se_seq s), se_ended := True, se_subs := []\<rparr>)"
    using False by (simp add: onExit_def broadcast_eq Let_def)
  have logs: "log_ok (Suc (se_seq s)) (frames_to sink (se_out s) @ frames_to sink ?outs)" for sink
  proof (cases "sink \<in> sub_id ` set (se_subs s)")
    case True
    then obtain b where b: "b \<in> set (se_subs s)" "sink = sub_id b" by blast
    then have "stream_ok s (sub_missed b) (frames_to sink (se_out s))"
      using inv by (simp add: session_inv_def sub_ok_def)
    then show ?thesis
      using ended_frame_log [of s "sub_missed b" _ "Suc (se_seq s)"] False fan_out_frames [of "se_subs s" b "\<lambda>_. True" True ?fr] b wf
      by (simp add: subs_wf_def)
  next
    case False
    then show ?thesis using fan_out_absent [OF False] inv log_ok_mono [of "se_seq s" _ "Suc (se_seq s)"]
      by (simp add: session_inv_def)
  qed
  have fresh: "frames_to sink ?outs = []" if "se_next s \<le> sink" for sink
    using wf that by (intro fan_out_absent) (force simp: subs_wf_def)
  show ?thesis
    unfolding res session_inv_def
    using inv logs fresh
    by (auto simp: detach_backend_def session_emit_def subs_wf_def session_inv_def sizes_ok_def)
qed

subsection \<open>Subscribe\<close>

lemma sub_ok_fields:
  assumes "se_seq t = se_seq s" "se_mirror t = se_mirror s" "se_cols t = se_cols s" "se_rows t = se_rows s"
    "se_ended t = se_ended s" "se_streamId t = se_streamId s"
  shows "sub_ok em t mi bs = sub_ok em s mi bs"
  using assms by (simp add: sub_ok_def stream_ok_def synced_def)

text \<open>A late subscriber's snapshot is followed by the end.\<close>

lemma sub_ended:
  assumes ok: "sub_ok em s False (map encodePtyFrame fs)" and fs: "well_numbered fs" "fs \<noteq> []" "\<forall>f \<in> set fs. pf_seq f \<le> se_seq s"
    and l: "List.last fs = session_frame (se_streamId s) SnapshotEnd [] (se_seq s)" and ended: "se_ended s"
  shows "sub_ok em s False (map encodePtyFrame fs @
      [encodePtyFrame (session_frame (se_streamId s) Ended p (se_seq s))])"
proof -
  let ?g = "session_frame (se_streamId s) Ended p (se_seq s)"
  have "well_numbered (fs @ [?g])" using fs l by (intro well_numbered_append) auto
  then have "stream_ok s False (map encodePtyFrame (fs @ [?g]))"
    unfolding stream_ok_def using fs(3) ended by (intro exI [of _ "fs @ [?g]"]) auto
  moreover have "synced em s False (view_of (map encodePtyFrame fs @ [encodePtyFrame ?g]))"
    using ok by (simp add: view_of_append sub_ok_def synced_def)
  ultimately show ?thesis by (simp add: sub_ok_def)
qed

definition welcome_frames :: "'m emulator \<Rightarrow> 'm session \<Rightarrow> pty_frame list" where
  "welcome_frames em s = snapshot_frames em s @
     (if se_ended s then [session_frame (se_streamId s) Ended (encodeExitPayload None) (se_endedSeq s)] else [])"

lemma snapshot_frames_cong:
  assumes "se_seq t = se_seq s" "se_mirror t = se_mirror s" "se_cols t = se_cols s" "se_rows t = se_rows s"
    "se_streamId t = se_streamId s"
  shows "snapshot_frames em t = snapshot_frames em s"
  using assms by (simp add: snapshot_frames_def)

lemma subscribe_eq:
  "subscribe em flow w s =
     (if se_disposed s then None
      else Some (s\<lparr>se_next := Suc (se_next s), se_out := se_out s @ deliveries (se_next s) (welcome_frames em s),
          se_subs := se_subs s @ [\<lparr>sub_id = se_next s, sub_flow = flow,
            sub_paused = (flow \<and> \<not> se_ended s \<and> \<not> w (se_next s)), sub_missed = False\<rparr>]\<rparr>, se_next s))"
  using snapshot_frames_cong [of "s\<lparr>se_next := Suc (se_next s)\<rparr>" s em]
  by (simp add: subscribe_def emitSnapshot_eq emitTo_eq welcome_frames_def Let_def)

lemma welcome_sub_ok:
  assumes inv: "session_inv em s"
  shows "sub_ok em s False (map encodePtyFrame (welcome_frames em s))"
proof -
  have snap: "sub_ok em s False (map encodePtyFrame (snapshot_frames em s))"
    using sub_snapshot [of s "[]" "[]" em] inv by (auto simp: well_numbered_def)
  have wn: "well_numbered (snapshot_frames em s)"
    using successively_snapshot [of em s] by (simp add: well_numbered_def)
  have "\<forall>f \<in> set (snapshot_frames em s). pf_seq f \<le> se_seq s" by (auto dest: snapshot_seq)
  then show ?thesis
    using snap sub_ended [OF snap wn] inv by (auto simp: welcome_frames_def session_inv_def)
qed

lemma subscribe_inv:
  assumes inv: "session_inv em s" and sub: "subscribe em flow w s = Some (t, sink)"
  shows "session_inv em t"
proof -
  let ?b = "\<lparr>sub_id = se_next s, sub_flow = flow, sub_paused = (flow \<and> \<not> se_ended s \<and> \<not> w (se_next s)),
      sub_missed = False\<rparr>"
  have t: "t = s\<lparr>se_next := Suc (se_next s), se_out := se_out s @ deliveries (se_next s) (welcome_frames em s),
      se_subs := se_subs s @ [?b]\<rparr>"
    using sub by (auto simp: subscribe_eq split: if_splits)
  have new: "sub_ok em s False (map encodePtyFrame (welcome_frames em s))" by (rule welcome_sub_ok [OF inv])
  have frames: "frames_to i (se_out t) = (if i = se_next s then map encodePtyFrame (welcome_frames em s)
      else frames_to i (se_out s))" for i
    using inv by (simp add: t frames_to_map session_inv_def)
  have cong: "sub_ok em t mi bs = sub_ok em s mi bs" for mi bs by (rule sub_ok_fields) (simp_all add: t)
  have seq: "se_seq t = se_seq s" by (simp add: t)
  have "log_ok (se_seq t) (frames_to i (se_out t))" for i
    unfolding frames seq using inv new stream_log_ok [of s False] by (simp add: session_inv_def sub_ok_def)
  moreover have "sub_ok em t (sub_missed b) (frames_to (sub_id b) (se_out t))" if "b \<in> set (se_subs t)" for b
    unfolding cong frames using inv new that by (auto simp: session_inv_def subs_wf_def t)
  moreover have "subs_wf t" using inv by (auto simp: session_inv_def subs_wf_def t)
  moreover have "frames_to i (se_out t) = []" if "se_next t \<le> i" for i
    unfolding frames using inv that by (simp add: session_inv_def t)
  moreover have "sizes_ok t" "ring_ok (se_ring t)" "se_ended t \<longrightarrow> se_endedSeq t = se_seq t"
    using inv by (simp_all add: session_inv_def sizes_ok_def t)
  ultimately show ?thesis unfolding session_inv_def by blast
qed

subsection \<open>Resume\<close>

lemma filter_sub:
  assumes "subs_wf s" and "filter (\<lambda>b. sub_id b = sink) (se_subs s) = b # bs"
  shows "b \<in> set (se_subs s) \<and> sub_id b = sink"
proof -
  have "b \<in> set (filter (\<lambda>b. sub_id b = sink) (se_subs s))" using assms(2) by simp
  then show ?thesis by simp
qed

lemma same_sub:
  "subs_wf s \<Longrightarrow> a \<in> set (se_subs s) \<Longrightarrow> b \<in> set (se_subs s) \<Longrightarrow> sub_id a = sub_id b \<Longrightarrow> a = b"
  unfolding subs_wf_def by (simp add: distinct_map inj_on_def)

lemma set_sub_fields [simp]:
  "se_next (set_sub k f s) = se_next s" "se_out (set_sub k f s) = se_out s" "se_seq (set_sub k f s) = se_seq s"
  "se_mirror (set_sub k f s) = se_mirror s" "se_cols (set_sub k f s) = se_cols s"
  "se_rows (set_sub k f s) = se_rows s" "se_ended (set_sub k f s) = se_ended s"
  "se_streamId (set_sub k f s) = se_streamId s" "se_ring (set_sub k f s) = se_ring s"
  "se_viewports (set_sub k f s) = se_viewports s" "se_endedSeq (set_sub k f s) = se_endedSeq s"
  "se_disposed (set_sub k f s) = se_disposed s"
  by (simp_all add: set_sub_def)

text \<open>What a resume comes to: nothing, an unpause, or a gap and a snapshot.\<close>

lemma resume_cases:
  assumes wf: "subs_wf s"
  obtains (idle) "resumeSubscriber em w sink s = s"
    | (unpause) b where "b \<in> set (se_subs s)" "sub_id b = sink" "\<not> sub_missed b" "sub_paused b"
        "resumeSubscriber em w sink s = set_sub sink (\<lambda>b. b\<lparr>sub_paused := False\<rparr>) s"
    | (resync) b p where "b \<in> set (se_subs s)" "sub_id b = sink" "sub_missed b" "sub_paused b" "p \<longrightarrow> sub_flow b"
        "resumeSubscriber em w sink s =
           (set_sub sink (\<lambda>b. b\<lparr>sub_paused := p, sub_missed := False\<rparr>) s)
             \<lparr>se_out := se_out s @ deliveries sink
                (session_frame (se_streamId s) Gap [] (se_seq s) # snapshot_frames em s)\<rparr>"
proof (cases "filter (\<lambda>b. sub_id b = sink) (se_subs s)")
  case Nil
  then show thesis using idle by (simp add: resumeSubscriber_def)
next
  case (Cons b bs)
  have b: "b \<in> set (se_subs s)" "sub_id b = sink" using filter_sub [OF wf Cons] by auto
  consider "\<not> sub_paused b" | "sub_paused b" "\<not> sub_missed b" | "sub_paused b" "sub_missed b" by blast
  then show thesis
  proof cases
    case 1
    then show thesis using idle Cons by (simp add: resumeSubscriber_def)
  next
    case 2
    then show thesis using unpause b Cons by (simp add: resumeSubscriber_def Let_def)
  next
    case 3
    let ?p = "sub_flow b \<and> \<not> w sink"
    have sn: "snapshot_frames em (set_sub sink f (set_sub sink g s)\<lparr>se_out := os\<rparr>) = snapshot_frames em s" for f g os
      by (rule snapshot_frames_cong) simp_all
    have "resumeSubscriber em w sink s =
        (set_sub sink (\<lambda>b. b\<lparr>sub_paused := ?p, sub_missed := False\<rparr>) s)
          \<lparr>se_out := se_out s @ deliveries sink
             (session_frame (se_streamId s) Gap [] (se_seq s) # snapshot_frames em s)\<rparr>"
      using 3 Cons sn unfolding resumeSubscriber_def
      by (auto simp: Let_def emitSnapshot_eq emitTo_eq set_sub_def)
    then show thesis using resync [of b ?p] b 3 by blast
  qed
qed

lemma set_sub_mem:
  assumes "subs_wf s" and "b \<in> set (se_subs s)" and "sub_id b = sink" and "c \<in> set (se_subs (set_sub sink f s))"
    and "\<And>b. sub_id (f b) = sub_id b"
  shows "c = f b \<or> (c \<in> set (se_subs s) \<and> sub_id c \<noteq> sink)"
proof -
  obtain a where a: "a \<in> set (se_subs s)" "c = (if sub_id a = sink then f a else a)"
    using assms(4) by (auto simp: set_sub_def)
  then show ?thesis using same_sub [OF assms(1) a(1) assms(2)] assms(3) by (cases "sub_id a = sink") auto
qed

lemma set_sub_ids: "(\<And>b. sub_id (f b) = sub_id b) \<Longrightarrow> map sub_id (se_subs (set_sub k f s)) = map sub_id (se_subs s)"
  by (simp add: set_sub_def)

lemma set_sub_wf:
  assumes wf: "subs_wf s" and b: "b \<in> set (se_subs s)" "sub_id b = sink" "sub_paused b"
    and f: "\<And>b. sub_id (f b) = sub_id b" "\<not> sub_missed (f b)" "sub_paused (f b) \<longrightarrow> sub_flow (f b)"
  shows "subs_wf (set_sub sink f s)"
proof -
  have "sub_id c < se_next s \<and> (sub_missed c \<longrightarrow> sub_paused c) \<and> (sub_paused c \<longrightarrow> sub_flow c \<and> \<not> se_ended s)"
    if "c \<in> set (se_subs (set_sub sink f s))" for c
    using set_sub_mem [OF wf b(1,2) that f(1)] wf b f by (auto simp: subs_wf_def)
  moreover have "distinct (map sub_id (se_subs (set_sub sink f s)))"
    using wf set_sub_ids [of f sink s, OF f(1)] by (simp add: subs_wf_def)
  ultimately show ?thesis by (simp add: subs_wf_def)
qed

text \<open>The join: a gap may stand behind the last frame of a live stream, and a snapshot behind a gap.\<close>

lemma sub_resync:
  assumes ok: "sub_ok em s mi bs" and small: "small (se_cols s) (se_rows s)" and on: "\<not> se_ended s"
  shows "sub_ok em s False (bs @ map encodePtyFrame
      (session_frame (se_streamId s) Gap [] (se_seq s) # snapshot_frames em s))"
proof -
  let ?g = "session_frame (se_streamId s) Gap [] (se_seq s)"
  obtain fs where fs: "bs = map encodePtyFrame fs" "well_numbered fs" "fs \<noteq> []" "\<forall>f \<in> set fs. pf_seq f \<le> se_seq s"
      "\<exists>op n p. List.last fs = session_frame (se_streamId s) op p n \<and> (op = SnapshotEnd \<or> op = Output \<or> op = Resized)"
    using ok on unfolding sub_ok_def stream_ok_def by blast
  have "pf_seq (List.last fs) \<le> se_seq s" using fs(3,4) last_in_set by blast
  then have "follows (List.last fs) ?g" using fs(5) by auto
  then have "well_numbered (fs @ [?g])" using fs by (intro well_numbered_append) auto
  then have "sub_ok em s False ((bs @ [encodePtyFrame ?g]) @ map encodePtyFrame (snapshot_frames em s))"
    using small fs by (intro sub_snapshot [where fs = "fs @ [?g]"]) auto
  then show ?thesis by simp
qed

lemma resumeSubscriber_inv:
  assumes inv: "session_inv em s"
  shows "session_inv em (resumeSubscriber em w sink s)"
proof -
  have wf: "subs_wf s" using inv by (simp add: session_inv_def)
  show ?thesis
  proof (cases rule: resume_cases [OF wf, of em w sink, case_names idle unpause resync])
    case idle
    then show ?thesis using inv by simp
  next
    case (unpause b)
    let ?f = "\<lambda>b. b\<lparr>sub_paused := False\<rparr>"
    let ?t = "set_sub sink ?f s"
    have "subs_wf ?t" by (rule set_sub_wf [OF wf unpause(1,2,4)]) (use unpause in auto)
    moreover have "sub_ok em ?t (sub_missed c) (frames_to (sub_id c) (se_out ?t))"
      if "c \<in> set (se_subs ?t)" for c
      using set_sub_mem [OF wf unpause(1,2) that] inv unpause sub_ok_fields [of ?t s em]
      by (auto simp: session_inv_def)
    ultimately show ?thesis using inv unfolding unpause(5) session_inv_def
      by (auto simp: sizes_ok_def)
  next
    case (resync b p)
    let ?f = "\<lambda>b. b\<lparr>sub_paused := p, sub_missed := False\<rparr>"
    let ?fs = "session_frame (se_streamId s) Gap [] (se_seq s) # snapshot_frames em s"
    let ?t = "(set_sub sink ?f s)\<lparr>se_out := se_out s @ deliveries sink ?fs\<rparr>"
    have cong: "sub_ok em ?t mi bs = sub_ok em s mi bs" for mi bs by (rule sub_ok_fields) simp_all
    have on: "\<not> se_ended s" using wf resync by (auto simp: subs_wf_def)
    have wf': "subs_wf (set_sub sink ?f s)"
      by (rule set_sub_wf [OF wf resync(1,2,4)]) (use resync in auto)
    have old: "sub_ok em s (sub_missed c) (frames_to (sub_id c) (se_out s))" if "c \<in> set (se_subs s)" for c
      using inv that by (simp add: session_inv_def)
    have new: "sub_ok em s False (frames_to sink (se_out s) @ map encodePtyFrame ?fs)"
      using sub_resync [OF old [OF resync(1)] _ on] inv resync(2) by auto
    have frames: "frames_to i (se_out ?t) =
        frames_to i (se_out s) @ (if i = sink then map encodePtyFrame ?fs else [])" for i
      by (simp add: frames_to_map)
    have subs: "sub_ok em ?t (sub_missed c) (frames_to (sub_id c) (se_out ?t))" if "c \<in> set (se_subs ?t)" for c
    proof -
      have "c = ?f b \<or> (c \<in> set (se_subs s) \<and> sub_id c \<noteq> sink)"
        using set_sub_mem [OF wf resync(1,2), of c ?f] that by simp
      then show ?thesis
      proof (elim disjE conjE)
        assume c: "c = ?f b"
        then have "sub_id c = sink" "\<not> sub_missed c" using resync(2) by simp_all
        then show ?thesis unfolding cong frames using new by simp
      next
        assume "c \<in> set (se_subs s)" and "sub_id c \<noteq> sink"
        then show ?thesis unfolding cong frames using old by simp
      qed
    qed
    have logs: "log_ok (se_seq s) (frames_to i (se_out ?t))" for i
      unfolding frames using inv stream_log_ok [of s False] new
      by (simp add: session_inv_def sub_ok_def del: list.map)
    have next_fresh: "sink < se_next s" using wf resync(1,2) by (auto simp: subs_wf_def)
    show ?thesis
      unfolding resync(6) session_inv_def
    proof (intro conjI allI ballI impI)
      show "subs_wf ?t" using wf' by (simp add: subs_wf_def)
      show "sizes_ok ?t" using inv by (simp add: session_inv_def sizes_ok_def)
      show "frames_to i (se_out ?t) = []" if "se_next ?t \<le> i" for i
        unfolding frames using that next_fresh inv by (simp add: session_inv_def)
      show "log_ok (se_seq ?t) (frames_to i (se_out ?t))" for i using logs [of i] by simp
    qed (use inv on subs in \<open>auto simp: session_inv_def\<close>)
  qed
qed

subsection \<open>Every step, every run\<close>

lemma valid_size_small: "valid_size \<lparr>sz_cols = c, sz_rows = r\<rparr> \<Longrightarrow> small c r"
  by (simp add: valid_size_def small_def)

lemmas operation_invs = resize_inv onOutput_inv writeInput_inv observeViewer_inv resizeViewer_inv unsubscribe_inv
  dispose_inv releaseViewer_inv onExit_inv resumeSubscriber_inv

lemma session_step_inv:
  "session_inv em s \<Longrightarrow> event_sized ev \<Longrightarrow> session_inv em (session_step em ev s)"
  by (cases ev) (auto simp: operation_invs subscribe_inv valid_size_small split: option.split)

lemma session_run_inv:
  "session_inv em s \<Longrightarrow> list_all event_sized evs \<Longrightarrow> session_inv em (session_run em evs s)"
  by (induction evs arbitrary: s) (auto simp: session_step_inv)

lemma new_session_inv:
  "new_session em ref c r opts = Some s \<Longrightarrow> valid_size \<lparr>sz_cols = c, sz_rows = r\<rparr> \<Longrightarrow> session_inv em s"
  by (auto simp: new_session_def session_inv_def subs_wf_def sizes_ok_def valid_size_small
      dest: new_ring_ok split: option.splits)

subsection \<open>The heir\<close>

lemma find_heir_cases:
  "find_heir m best heir = heir \<and> (\<forall>(v, r) \<in> set m. int (vp_at r) \<le> best) \<or>
   (\<exists>v r. (v, r) \<in> set m \<and> find_heir m best heir = Some v \<and> best < int (vp_at r) \<and>
      (\<forall>(v', r') \<in> set m. vp_at r' \<le> vp_at r))"
proof (induction m best heir rule: find_heir.induct)
  case (1 best heir)
  then show ?case by simp
next
  case (2 cand r m best heir)
  show ?case
  proof (cases "best < int (vp_at r)")
    case True
    from 2(1) [OF True] show ?thesis
    proof (elim disjE exE conjE)
      assume "find_heir m (int (vp_at r)) (Some cand) = Some cand" "\<forall>(v, r') \<in> set m. int (vp_at r') \<le> int (vp_at r)"
      then show ?thesis using True by (intro disjI2 exI [of _ cand] exI [of _ r]) auto
    next
      fix v q
      assume "(v, q) \<in> set m" "find_heir m (int (vp_at r)) (Some cand) = Some v" "int (vp_at r) < int (vp_at q)"
        "\<forall>(v', r') \<in> set m. vp_at r' \<le> vp_at q"
      then show ?thesis using True by (intro disjI2 exI [of _ v] exI [of _ q]) auto
    qed
  next
    case False
    from 2(2) [OF False] show ?thesis
    proof (elim disjE exE conjE)
      assume "find_heir m best heir = heir" "\<forall>(v, r') \<in> set m. int (vp_at r') \<le> best"
      then show ?thesis using False by (intro disjI1) auto
    next
      fix v q
      assume "(v, q) \<in> set m" "find_heir m best heir = Some v" "best < int (vp_at q)"
        "\<forall>(v', r') \<in> set m. vp_at r' \<le> vp_at q"
      then show ?thesis using False by (intro disjI2 exI [of _ v] exI [of _ q]) auto
    qed
  qed
qed

lemma find_heir_latest:
  "find_heir m (- 1) None = None \<and> m = [] \<or>
   (\<exists>v r. (v, r) \<in> set m \<and> find_heir m (- 1) None = Some v \<and> (\<forall>(v', r') \<in> set m. vp_at r' \<le> vp_at r))"
proof -
  have none: "m = []" if "\<forall>(v, r) \<in> set m. int (vp_at r) \<le> - 1"
  proof (rule ccontr)
    assume "m \<noteq> []"
    then obtain v r where "(v, r) \<in> set m" by (cases m) auto
    then have "int (vp_at r) \<le> - 1" using that by blast
    then show False by simp
  qed
  from find_heir_cases [of m "- 1" None] show ?thesis
  proof (elim disjE exE conjE)
    fix v r
    assume "(v, r) \<in> set m" "find_heir m (- 1) None = Some v" "\<forall>(v', r') \<in> set m. vp_at r' \<le> vp_at r"
    then show ?thesis by blast
  qed (use none in blast)
qed

subsection \<open>The invariant of the sizing state\<close>

definition sizing_ok :: "'m session \<Rightarrow> bool" where
  "sizing_ok s \<longleftrightarrow>
     distinct (akeys (se_viewports s)) \<and>
     (\<forall>(v, r) \<in> set (se_viewports s). vp_at r \<le> se_tick s) \<and>
     (\<forall>v. se_authority s = Some v \<longrightarrow> v \<in> fst ` set (se_viewports s))"

lemma sizing_cong:
  assumes "se_viewports t = se_viewports s" "se_tick t = se_tick s" "se_authority t = se_authority s"
  shows "sizing_ok t = sizing_ok s"
  using assms by (simp add: sizing_ok_def)

lemma broadcast_sizing [simp]:
  "se_viewports (broadcast w op p s) = se_viewports s" "se_tick (broadcast w op p s) = se_tick s"
  "se_authority (broadcast w op p s) = se_authority s" "se_cols (broadcast w op p s) = se_cols s"
  "se_rows (broadcast w op p s) = se_rows s" "se_next (broadcast w op p s) = se_next s"
  "se_ended (broadcast w op p s) = se_ended s" "se_disposed (broadcast w op p s) = se_disposed s"
  by (simp_all add: broadcast_eq)

lemma session_emit_fields [simp]:
  "se_viewports (session_emit e s) = se_viewports s" "se_tick (session_emit e s) = se_tick s"
  "se_authority (session_emit e s) = se_authority s" "se_next (session_emit e s) = se_next s"
  "se_subs (session_emit e s) = se_subs s" "se_cols (session_emit e s) = se_cols s"
  "se_rows (session_emit e s) = se_rows s" "se_ended (session_emit e s) = se_ended s"
  "se_disposed (session_emit e s) = se_disposed s"
  by (simp_all add: session_emit_def)

lemma resize_sizing [simp]:
  "se_viewports (resize em w c r s) = se_viewports s" "se_tick (resize em w c r s) = se_tick s"
  "se_authority (resize em w c r s) = se_authority s" "se_next (resize em w c r s) = se_next s"
  "se_ended (resize em w c r s) = se_ended s" "se_disposed (resize em w c r s) = se_disposed s"
  by (simp_all add: resize_def)

lemma resume_sizing:
  "se_viewports (resumeSubscriber em w k s) = se_viewports s \<and> se_tick (resumeSubscriber em w k s) = se_tick s \<and>
   se_authority (resumeSubscriber em w k s) = se_authority s"
  by (auto simp: resumeSubscriber_def set_sub_def emitSnapshot_eq emitTo_eq Let_def split: list.splits)

lemma observe_sizing: "sizing_ok s \<Longrightarrow> sizing_ok (observeViewer v c r s)"
  by (auto simp: sizing_ok_def observeViewer_def distinct_akeys_aset set_akeys_aset dest!: in_set_aset
      intro: le_SucI)

lemma viewport_of_key: "distinct (akeys m) \<Longrightarrow> (v, r) \<in> set m \<Longrightarrow> aget m v = Some r"
  by (rule map_of_is_SomeI)

text \<open>Release, spelled out on states where the authority has a record.\<close>

lemma release_other:
  "se_authority s \<noteq> Some v \<Longrightarrow> releaseViewer em w v s = s\<lparr>se_viewports := adel v (se_viewports s)\<rparr>"
  by (simp add: releaseViewer_def Let_def)

lemma release_authority:
  assumes ok: "sizing_ok s" and auth: "se_authority s = Some v"
  obtains (nobody) "adel v (se_viewports s) = []"
      "releaseViewer em w v s = s\<lparr>se_viewports := [], se_authority := None\<rparr>"
    | (heir) h r where "aget (se_viewports s) h = Some r" "h \<noteq> v"
      "\<And>v' r'. aget (se_viewports s) v' = Some r' \<Longrightarrow> v' \<noteq> v \<Longrightarrow> vp_at r' \<le> vp_at r"
      "releaseViewer em w v s =
         (let t = s\<lparr>se_viewports := adel v (se_viewports s), se_authority := Some h\<rparr>
          in if vp_cols r \<noteq> se_cols s \<or> vp_rows r \<noteq> se_rows s then resize em w (vp_cols r) (vp_rows r) t else t)"
proof -
  let ?m = "adel v (se_viewports s)"
  have had: "aget (se_viewports s) v \<noteq> None"
    using ok auth by (auto simp: sizing_ok_def map_of_eq_None_iff)
  from find_heir_latest [of ?m] show thesis
  proof (elim disjE exE conjE)
    assume "find_heir ?m (- 1) None = None" "?m = []"
    then show thesis using nobody auth had by (simp add: releaseViewer_def Let_def)
  next
    fix h r
    assume h: "(h, r) \<in> set ?m" "find_heir ?m (- 1) None = Some h" "\<forall>(v', r') \<in> set ?m. vp_at r' \<le> vp_at r"
    have "distinct (akeys ?m)" using ok by (simp add: sizing_ok_def distinct_akeys_adel)
    then have get: "aget ?m h = Some r" using h(1) by (rule viewport_of_key)
    then have "h \<noteq> v" "aget (se_viewports s) h = Some r" by (auto split: if_splits)
    moreover have "vp_at r' \<le> vp_at r" if "aget (se_viewports s) v' = Some r'" "v' \<noteq> v" for v' r'
    proof -
      have "aget ?m v' = Some r'" using that by simp
      then show ?thesis using h(3) by (blast dest: map_of_SomeD)
    qed
    moreover have "releaseViewer em w v s =
         (let t = s\<lparr>se_viewports := adel v (se_viewports s), se_authority := Some h\<rparr>
          in if vp_cols r \<noteq> se_cols s \<or> vp_rows r \<noteq> se_rows s then resize em w (vp_cols r) (vp_rows r) t else t)"
      using auth had h(2) get by (simp add: releaseViewer_def Let_def)
    ultimately show thesis using heir by blast
  qed
qed

lemma release_sizing: "sizing_ok s \<Longrightarrow> sizing_ok (releaseViewer em w v s)"
proof (cases "se_authority s = Some v")
  case False
  assume "sizing_ok s"
  then show ?thesis using False
    by (auto simp: release_other sizing_ok_def distinct_akeys_adel set_adel) (force simp: set_adel)
next
  case True
  assume ok: "sizing_ok s"
  show ?thesis
  proof (cases rule: release_authority [OF ok True, of em w, case_names nobody heir])
    case nobody
    then show ?thesis by (simp add: sizing_ok_def)
  next
    case (heir h r)
    have "(h, r) \<in> set (adel v (se_viewports s))" using heir(1,2) by (auto simp: adel_def dest: map_of_SomeD)
    then have key: "h \<in> fst ` set (adel v (se_viewports s))" by force
    let ?t = "s\<lparr>se_viewports := adel v (se_viewports s), se_authority := Some h\<rparr>"
    have "sizing_ok ?t" using ok key by (auto simp: sizing_ok_def distinct_akeys_adel set_adel)
    then show ?thesis unfolding heir(4) Let_def by (simp add: sizing_ok_def)
  qed
qed

lemma session_step_sizing: "sizing_ok s \<Longrightarrow> sizing_ok (session_step em ev s)"
proof (cases ev)
  case (ResizeViewerEv v c r w)
  assume "sizing_ok s"
  then have "sizing_ok ((observeViewer v c r s)\<lparr>se_authority := Some v\<rparr>)"
    using observe_sizing [of s v c r] by (auto simp: sizing_ok_def observeViewer_def set_akeys_aset)
  then show ?thesis using ResizeViewerEv by (simp add: resizeViewer_def sizing_ok_def)
next
  case (DrainEv k w)
  assume "sizing_ok s"
  then show ?thesis using DrainEv resume_sizing [of em w k s] by (simp add: sizing_ok_def)
next
  case (ObserveEv v c r)
  assume "sizing_ok s"
  then show ?thesis using ObserveEv by (simp add: observe_sizing)
next
  case (ReleaseViewerEv v w)
  assume "sizing_ok s"
  then show ?thesis using ReleaseViewerEv by (simp add: release_sizing)
qed (auto simp: sizing_ok_def subscribe_eq unsubscribe_def writeInput_def
    dispose_def detach_backend_def onOutput_def onExit_def Let_def split: option.splits)

lemma session_run_sizing: "sizing_ok s \<Longrightarrow> sizing_ok (session_run em evs s)"
  by (induction evs arbitrary: s) (auto simp: session_step_sizing)

lemma new_session_sizing: "new_session em ref c r opts = Some s \<Longrightarrow> sizing_ok s"
  by (auto simp: new_session_def sizing_ok_def split: option.splits)

subsection \<open>Sinks that are gone\<close>

definition silent_step :: "nat \<Rightarrow> 'm session \<Rightarrow> 'm session \<Rightarrow> bool" where
  "silent_step k s t \<longleftrightarrow>
     frames_to k (se_out t) = frames_to k (se_out s) \<and> se_next s \<le> se_next t \<and>
     (k \<notin> sub_id ` set (se_subs t))"

lemma broadcast_silent:
  "k \<notin> sub_id ` set (se_subs s) \<Longrightarrow> silent_step k s (broadcast w op p s)"
  by (auto simp: silent_step_def broadcast_eq fan_out_absent)

lemma resize_silent:
  assumes "k \<notin> sub_id ` set (se_subs s)"
  shows "silent_step k s (resize em w c r s)"
proof (cases "se_ended s \<or> se_disposed s")
  case True
  then show ?thesis using assms by (simp add: resize_def silent_step_def)
next
  case False
  let ?t = "(session_emit (BackendResize c r) (s\<lparr>se_cols := c, se_rows := r\<rparr>))\<lparr>se_mirror := em_resize em c r (se_mirror s)\<rparr>"
  have "silent_step k ?t (broadcast w Resized (encodeSizePayload \<lparr>sz_cols = c, sz_rows = r\<rparr>) ?t)"
    by (rule broadcast_silent) (use assms in simp)
  then show ?thesis using False by (simp add: resize_def silent_step_def session_emit_def)
qed

lemma release_silent:
  assumes "k \<notin> sub_id ` set (se_subs s)"
  shows "silent_step k s (releaseViewer em w v s)"
proof -
  have "silent_step k s (resize em w c r (s\<lparr>se_viewports := x, se_authority := y\<rparr>))" for c r x y
    using resize_silent [of k "s\<lparr>se_viewports := x, se_authority := y\<rparr>" em w c r] assms
    by (simp add: silent_step_def)
  moreover have "silent_step k s (s\<lparr>se_viewports := x, se_authority := y\<rparr>)"
    "silent_step k s (s\<lparr>se_viewports := x\<rparr>)" for x y
    using assms by (simp_all add: silent_step_def)
  ultimately show ?thesis by (simp add: releaseViewer_def Let_def split: option.splits)
qed

lemma session_step_silent:
  assumes gone: "k \<notin> sub_id ` set (se_subs s)" and old: "k < se_next s"
  shows "silent_step k s (session_step em ev s)"
proof (cases ev)
  case (ResizeViewerEv v c r w)
  have "silent_step k ((observeViewer v c r s)\<lparr>se_authority := Some v\<rparr>) (session_step em ev s)"
    unfolding ResizeViewerEv using gone by (simp add: resizeViewer_def resize_silent observeViewer_def)
  then show ?thesis by (simp add: silent_step_def observeViewer_def)
next
  case (SubscribeEv flow w)
  then show ?thesis using gone old
    by (auto simp: subscribe_eq silent_step_def frames_to_map)
next
  case (DrainEv i w)
  show ?thesis
  proof (cases "k = i")
    case True
    then have none: "filter (\<lambda>b. sub_id b = i) (se_subs s) = []" using gone by (auto simp: filter_empty_conv)
    have "session_step em ev s = s" unfolding DrainEv session_step.simps resumeSubscriber_def none by simp
    then show ?thesis using gone by (simp add: silent_step_def)
  next
    case False
    then show ?thesis using gone unfolding DrainEv
      by (auto simp: resumeSubscriber_def silent_step_def set_sub_def emitSnapshot_eq emitTo_eq frames_to_map Let_def
          split: list.splits if_splits)
  qed
next
  case (OutputEv bs w)
  let ?t = "s\<lparr>se_ring := ring_append bs (se_ring s), se_mirror := em_write em bs (se_mirror s)\<rparr>"
  have "silent_step k ?t (broadcast w Output bs ?t)" by (rule broadcast_silent) (use gone in simp)
  then show ?thesis using gone unfolding OutputEv by (simp add: onOutput_def silent_step_def)
next
  case (ExitEv code)
  have "silent_step k s (broadcast (\<lambda>_. True) Ended (encodeExitPayload code) s)" by (rule broadcast_silent [OF gone])
  then show ?thesis using gone unfolding ExitEv
    by (simp add: onExit_def silent_step_def detach_backend_def session_emit_def Let_def)
next
  case (ResizeEv c r w)
  then show ?thesis using gone by (simp add: resize_silent)
next
  case (ReleaseViewerEv v w)
  then show ?thesis using gone by (simp add: release_silent)
qed (use gone in \<open>auto simp: silent_step_def unsubscribe_def writeInput_def observeViewer_def
    dispose_def detach_backend_def session_emit_def Let_def split: option.splits\<close>)

lemma session_run_silent:
  "k \<notin> sub_id ` set (se_subs s) \<Longrightarrow> k < se_next s \<Longrightarrow> frames_to k (se_out (session_run em evs s)) = frames_to k (se_out s)"
proof (induction evs arbitrary: s)
  case (Cons ev evs)
  have "silent_step k s (session_step em ev s)" by (rule session_step_silent [OF Cons.prems])
  then show ?case using Cons.IH [of "session_step em ev s"] Cons.prems by (simp add: silent_step_def)
qed simp

text \<open>On exit every subscriber gets the exit code, paused or not.\<close>

lemma exit_frames:
  assumes "subs_wf s" and "\<not> se_ended s" and "\<not> se_disposed s" and "b \<in> set (se_subs s)"
  shows "frames_to (sub_id b) (se_out (onExit code s)) = frames_to (sub_id b) (se_out s) @
    [encodePtyFrame (session_frame (se_streamId s) Ended (encodeExitPayload code) (Suc (se_seq s)))]"
  using assms fan_out_frames [of "se_subs s" b "\<lambda>_. True" True]
  by (simp add: onExit_def broadcast_eq detach_backend_def session_emit_def subs_wf_def Let_def)

end
