(* ===== verification/Custody.thy ===== *)
theory Custody
  imports Session
begin

text \<open>
  \<open>packages/host/src/custody/open.ts\<close> and \<open>session/spawn.ts\<close>: how a session is born. A claim
  suspends while the backend spawns, so it is two operations, \<open>claimOpenSession\<close> up to the
  \<open>await\<close> and \<open>claim_settled\<close> behind it; whether the spawn succeeded is an argument. Reservation
  records are shared by reference, so each carries the number it was created under. The clock and
  the random reference of \<open>newSessionRef\<close> are arguments too.
\<close>

subsection \<open>Specs and spawning\<close>

record session_spec =
  ss_argv :: "string list"
  ss_cwd :: string
  ss_env :: "(string, string) amap"
  ss_cols :: nat
  ss_rows :: nat

text \<open>\<open>openSession\<close> once \<open>backend.spawn\<close> settled: it rejects when the spawn did, when the session's
  constructor throws, and when the reference is taken.\<close>

definition openSession ::
  "'m emulator \<Rightarrow> string \<Rightarrow> session_spec \<Rightarrow> bool \<Rightarrow> 'm session registry \<Rightarrow> session_options \<Rightarrow>
   ('m session registry \<times> 'm session) option" where
  "openSession em ref spec spawned g opts =
     (if \<not> spawned then None
      else case new_session em ref (ss_cols spec) (ss_rows spec) opts of
          None \<Rightarrow> None
        | Some s \<Rightarrow> (case reg_register ref s g of None \<Rightarrow> None | Some g' \<Rightarrow> Some (g', s)))"

definition spawnSession ::
  "'m emulator \<Rightarrow> string \<Rightarrow> session_spec \<Rightarrow> bool \<Rightarrow> 'm session registry \<Rightarrow> session_options \<Rightarrow>
   ('m session registry \<times> 'm session) option" where
  "spawnSession em newRef spec spawned g opts = openSession em newRef spec spawned g opts"

subsection \<open>The desk\<close>

datatype custody_error = ResNotFound | ResExpired | ResAlreadyClaimed

record reservation =
  rr_obj :: nat
  rr_ref :: string
  rr_spec :: session_spec
  rr_expiresAt :: int
  rr_claimed :: bool

record desk =
  dk_reservations :: "(string, reservation) amap"
  dk_options :: session_options
  dk_next :: nat

definition new_desk :: "session_options \<Rightarrow> desk" where
  "new_desk opts = \<lparr>dk_reservations = [], dk_options = opts, dk_next = 0\<rparr>"

text \<open>A time to live that is not a finite number is \<open>None\<close>; the throw is \<open>None\<close> too.\<close>

definition reserveOpenSession ::
  "string \<Rightarrow> int \<Rightarrow> session_spec \<Rightarrow> int option \<Rightarrow> desk \<Rightarrow> (desk \<times> string \<times> int) option" where
  "reserveOpenSession newRef now spec ttlMs dk =
     (case ttlMs of
        None \<Rightarrow> None
      | Some ttl \<Rightarrow>
          if ttl \<le> 0 then None
          else
            let r = \<lparr>rr_obj = dk_next dk, rr_ref = newRef, rr_spec = spec, rr_expiresAt = now + ttl,
                     rr_claimed = False\<rparr>
            in Some (dk\<lparr>dk_reservations := aset newRef r (dk_reservations dk), dk_next := Suc (dk_next dk)\<rparr>,
                     newRef, now + ttl))"

definition set_claimed :: "nat \<Rightarrow> bool \<Rightarrow> desk \<Rightarrow> desk" where
  "set_claimed obj c dk =
     dk\<lparr>dk_reservations :=
       map (\<lambda>(k, r). (k, if rr_obj r = obj then r\<lparr>rr_claimed := c\<rparr> else r)) (dk_reservations dk)\<rparr>"

definition claimOpenSession :: "string \<Rightarrow> int \<Rightarrow> desk \<Rightarrow> desk \<times> (custody_error + reservation)" where
  "claimOpenSession ref now dk =
     (case aget (dk_reservations dk) ref of
        None \<Rightarrow> (dk, Inl ResNotFound)
      | Some r \<Rightarrow>
          if rr_claimed r then (dk, Inl ResAlreadyClaimed)
          else if rr_expiresAt r < now
          then (dk\<lparr>dk_reservations := adel ref (dk_reservations dk)\<rparr>, Inl ResExpired)
          else (set_claimed (rr_obj r) True dk, Inr r))"

text \<open>Per-claim options override the desk's, field by field.\<close>

definition over :: "'a option \<Rightarrow> 'a option \<Rightarrow> 'a option" where
  "over base x = (case x of None \<Rightarrow> base | Some _ \<Rightarrow> x)"

definition merge_options :: "session_options \<Rightarrow> session_options \<Rightarrow> session_options" where
  "merge_options base x =
     \<lparr>op_ringBytes = over (op_ringBytes base) (op_ringBytes x),
      op_scrollback = over (op_scrollback base) (op_scrollback x),
      op_streamId = over (op_streamId base) (op_streamId x)\<rparr>"

text \<open>Behind the \<open>await\<close>: a failure gives the reservation back.\<close>

definition claim_settled ::
  "'m emulator \<Rightarrow> string \<Rightarrow> reservation \<Rightarrow> bool \<Rightarrow> session_options \<Rightarrow> desk \<Rightarrow> 'm session registry \<Rightarrow>
   desk \<times> 'm session registry \<times> 'm session option" where
  "claim_settled em ref r spawned opts dk g =
     (case openSession em ref (rr_spec r) spawned g (merge_options (dk_options dk) opts) of
        None \<Rightarrow> (set_claimed (rr_obj r) False dk, g, None)
      | Some (g', s) \<Rightarrow> (dk, g', Some s))"

definition live_reservation :: "int \<Rightarrow> reservation \<Rightarrow> bool" where
  "live_reservation now r \<longleftrightarrow> \<not> rr_claimed r \<and> now \<le> rr_expiresAt r"

definition isReserved :: "string \<Rightarrow> int \<Rightarrow> desk \<Rightarrow> bool" where
  "isReserved ref now dk =
     (case aget (dk_reservations dk) ref of None \<Rightarrow> False | Some r \<Rightarrow> live_reservation now r)"

definition pending_refs :: "int \<Rightarrow> desk \<Rightarrow> string list" where
  "pending_refs now dk = map rr_ref (filter (live_reservation now) (map snd (dk_reservations dk)))"

definition sweepExpired :: "int \<Rightarrow> desk \<Rightarrow> desk \<times> nat" where
  "sweepExpired now dk =
     (let gone = filter (\<lambda>(k, r). \<not> rr_claimed r \<and> rr_expiresAt r < now) (dk_reservations dk)
      in (dk\<lparr>dk_reservations := fold (\<lambda>(k, r) m. adel k m) gone (dk_reservations dk)\<rparr>, length gone))"

subsection \<open>The desk at work\<close>

text \<open>The desk with its registry, the claims that are waiting for their spawn, and the sessions that
  claims have opened.\<close>

record 'm custody =
  cu_desk :: desk
  cu_registry :: "'m session registry"
  cu_waiting :: "(string \<times> reservation \<times> session_options) list"
  cu_opened :: "(nat \<times> 'm session) list"

datatype custody_event =
    ReserveEv string int session_spec "int option"
  | ClaimEv string int session_options
  | SettleEv nat bool
  | SweepEv int

fun custody_step :: "'m emulator \<Rightarrow> custody_event \<Rightarrow> 'm custody \<Rightarrow> 'm custody" where
  "custody_step em (ReserveEv ref now spec ttl) c =
     (case reserveOpenSession ref now spec ttl (cu_desk c) of
        None \<Rightarrow> c
      | Some (dk, _) \<Rightarrow> c\<lparr>cu_desk := dk\<rparr>)"
| "custody_step em (ClaimEv ref now opts) c =
     (case claimOpenSession ref now (cu_desk c) of
        (dk, Inl _) \<Rightarrow> c\<lparr>cu_desk := dk\<rparr>
      | (dk, Inr r) \<Rightarrow> c\<lparr>cu_desk := dk, cu_waiting := cu_waiting c @ [(ref, r, opts)]\<rparr>)"
| "custody_step em (SettleEv i spawned) c =
     (if i < length (cu_waiting c)
      then
        let (ref, r, opts) = cu_waiting c ! i;
            (dk, g, res) = claim_settled em ref r spawned opts (cu_desk c) (cu_registry c);
            c1 = c\<lparr>cu_desk := dk, cu_registry := g, cu_waiting := take i (cu_waiting c) @ drop (Suc i) (cu_waiting c)\<rparr>
        in (case res of None \<Rightarrow> c1 | Some s \<Rightarrow> c1\<lparr>cu_opened := cu_opened c1 @ [(rr_obj r, s)]\<rparr>)
      else c)"
| "custody_step em (SweepEv now) c = c\<lparr>cu_desk := fst (sweepExpired now (cu_desk c))\<rparr>"

abbreviation custody_run :: "'m emulator \<Rightarrow> custody_event list \<Rightarrow> 'm custody \<Rightarrow> 'm custody" where
  "custody_run em evs c \<equiv> fold (custody_step em) evs c"

definition new_custody :: "session_options \<Rightarrow> 'm session registry \<Rightarrow> 'm custody" where
  "new_custody opts g = \<lparr>cu_desk = new_desk opts, cu_registry = g, cu_waiting = [], cu_opened = []\<rparr>"

subsection \<open>One claim at a time\<close>

text \<open>The records a claim holds: waiting for a spawn, or already a session.\<close>

definition held :: "'m custody \<Rightarrow> nat list" where
  "held c = map (\<lambda>(_, r, _). rr_obj r) (cu_waiting c) @ map fst (cu_opened c)"

definition records_ok :: "nat set \<Rightarrow> desk \<Rightarrow> bool" where
  "records_ok H dk \<longleftrightarrow>
     (\<forall>i \<in> H. i < dk_next dk) \<and>
     (\<forall>k r. (k, r) \<in> set (dk_reservations dk) \<longrightarrow>
        rr_obj r < dk_next dk \<and> (rr_obj r \<in> H \<longrightarrow> rr_claimed r))"

definition custody_ok :: "'m custody \<Rightarrow> bool" where
  "custody_ok c \<longleftrightarrow> distinct (held c) \<and> records_ok (set (held c)) (cu_desk c)"

lemma set_claimed_fields [simp]:
  "dk_next (set_claimed i b dk) = dk_next dk" "dk_options (set_claimed i b dk) = dk_options dk"
  by (simp_all add: set_claimed_def)

lemma set_claimed_mem:
  assumes "(k, r) \<in> set (dk_reservations (set_claimed i b dk))"
  obtains r0 where "(k, r0) \<in> set (dk_reservations dk)" "r = (if rr_obj r0 = i then r0\<lparr>rr_claimed := b\<rparr> else r0)"
  using assms by (auto simp: set_claimed_def)

lemma records_claim:
  assumes "records_ok H dk" and "i < dk_next dk"
  shows "records_ok (insert i H) (set_claimed i True dk)"
  unfolding records_ok_def
proof (intro conjI allI impI ballI)
  fix k r
  assume "(k, r) \<in> set (dk_reservations (set_claimed i True dk))"
  then obtain r0 where r0: "(k, r0) \<in> set (dk_reservations dk)"
      "r = (if rr_obj r0 = i then r0\<lparr>rr_claimed := True\<rparr> else r0)"
    by (rule set_claimed_mem)
  then show "rr_obj r < dk_next (set_claimed i True dk)" and "rr_obj r \<in> insert i H \<Longrightarrow> rr_claimed r"
    using assms(1) unfolding records_ok_def by (auto split: if_splits)
qed (use assms in \<open>auto simp: records_ok_def\<close>)

lemma records_unclaim:
  assumes "records_ok H dk" and "G \<subseteq> H" and "i \<notin> G"
  shows "records_ok G (set_claimed i False dk)"
  unfolding records_ok_def
proof (intro conjI allI impI ballI)
  fix k r
  assume "(k, r) \<in> set (dk_reservations (set_claimed i False dk))"
  then obtain r0 where r0: "(k, r0) \<in> set (dk_reservations dk)"
      "r = (if rr_obj r0 = i then r0\<lparr>rr_claimed := False\<rparr> else r0)"
    by (rule set_claimed_mem)
  then show "rr_obj r < dk_next (set_claimed i False dk)" and "rr_obj r \<in> G \<Longrightarrow> rr_claimed r"
    using assms unfolding records_ok_def by (auto split: if_splits)
qed (use assms in \<open>auto simp: records_ok_def\<close>)

lemma records_subset:
  assumes "records_ok H dk" and "dk_next dk \<le> dk_next dk'"
    and "\<And>k r. (k, r) \<in> set (dk_reservations dk') \<Longrightarrow> (k, r) \<in> set (dk_reservations dk) \<or>
      (rr_obj r = dk_next dk \<and> dk_next dk < dk_next dk')"
  shows "records_ok H dk'"
  using assms unfolding records_ok_def by (fastforce dest: order_less_le_trans)

lemma aget_set_claimed:
  "aget (dk_reservations (set_claimed i b dk)) k =
     map_option (\<lambda>r. if rr_obj r = i then r\<lparr>rr_claimed := b\<rparr> else r) (aget (dk_reservations dk) k)"
proof -
  have "aget (map (\<lambda>(k, r). (k, f r)) m) k = map_option f (aget m k)" for f :: "reservation \<Rightarrow> reservation" and m
    by (induction m) auto
  then show ?thesis by (simp add: set_claimed_def)
qed

lemma sweep_mem: "(k, r) \<in> set (dk_reservations (fst (sweepExpired now dk))) \<Longrightarrow> (k, r) \<in> set (dk_reservations dk)"
proof -
  have "set (fold (\<lambda>(k, r) m. adel k m) gone m) \<subseteq> set m" for gone :: "(string \<times> reservation) list" and m
  proof (induction gone arbitrary: m)
    case (Cons p gone)
    have "set (adel k m) \<subseteq> set m" for k by (auto simp: adel_def)
    then show ?case using Cons by (cases p) force
  qed simp
  then show "(k, r) \<in> set (dk_reservations (fst (sweepExpired now dk))) \<Longrightarrow> (k, r) \<in> set (dk_reservations dk)"
    by (auto simp: sweepExpired_def Let_def)
qed

lemma sweep_next [simp]: "dk_next (fst (sweepExpired now dk)) = dk_next dk"
  by (simp add: sweepExpired_def Let_def)

lemma claim_ok_step:
  assumes ok: "custody_ok c" and res: "claimOpenSession ref now (cu_desk c) = (dk, Inr r)"
  shows "custody_ok (c\<lparr>cu_desk := dk, cu_waiting := cu_waiting c @ [(ref, r, opts)]\<rparr>)"
proof -
  have r: "(ref, r) \<in> set (dk_reservations (cu_desk c))" "\<not> rr_claimed r" "dk = set_claimed (rr_obj r) True (cu_desk c)"
    using res by (auto simp: claimOpenSession_def split: option.splits if_splits dest: map_of_SomeD)
  have new: "rr_obj r \<notin> set (held c)" "rr_obj r < dk_next (cu_desk c)"
    using ok r(1,2) unfolding custody_ok_def records_ok_def by blast+
  have "records_ok (insert (rr_obj r) (set (held c))) dk"
    unfolding r(3) using ok new by (intro records_claim) (simp_all add: custody_ok_def)
  then show ?thesis using ok new by (auto simp: custody_ok_def held_def)
qed

lemma settle_ok_step:
  assumes ok: "custody_ok c" and w: "cu_waiting c = xs @ (ref, r, opts) # ys"
    and res: "claim_settled em ref r spawned opts (cu_desk c) (cu_registry c) = (dk, g, so)"
  shows "custody_ok (c\<lparr>cu_desk := dk, cu_registry := g, cu_waiting := xs @ ys,
      cu_opened := cu_opened c @ (case so of None \<Rightarrow> [] | Some s \<Rightarrow> [(rr_obj r, s)])\<rparr>)"
    (is "custody_ok ?c'")
proof -
  define X where "X = map (\<lambda>(_, r, _). rr_obj r) xs"
  define Y where "Y = map (\<lambda>(_, r, _). rr_obj r) ys @ map fst (cu_opened c)"
  have h: "held c = X @ rr_obj r # Y" unfolding held_def w X_def Y_def by simp
  have h': "held ?c' = X @ Y @ (case so of None \<Rightarrow> [] | Some s \<Rightarrow> [rr_obj r])"
    unfolding held_def X_def Y_def by (simp split: option.split)
  have dist: "distinct (X @ rr_obj r # Y)" and rec: "records_ok (set (X @ rr_obj r # Y)) (cu_desk c)"
    using ok h by (simp_all add: custody_ok_def)
  have "distinct (held ?c')" unfolding h' using dist by (cases so) auto
  moreover have "records_ok (set (held ?c')) dk"
  proof (cases so)
    case None
    then have dk: "dk = set_claimed (rr_obj r) False (cu_desk c)"
      using res by (auto simp: claim_settled_def split: option.splits)
    have "set (held ?c') = set X \<union> set Y" unfolding h' by (simp add: None)
    moreover have "records_ok (set X \<union> set Y) dk"
      unfolding dk by (rule records_unclaim [OF rec]) (use dist in auto)
    ultimately show ?thesis by simp
  next
    case (Some s)
    then have dk: "dk = cu_desk c" using res by (auto simp: claim_settled_def split: option.splits)
    have "set (held ?c') = set (X @ rr_obj r # Y)" unfolding h' by (auto simp: Some)
    then show ?thesis using rec by (simp add: dk)
  qed
  ultimately show ?thesis by (simp add: custody_ok_def)
qed

lemma custody_step_ok: "custody_ok c \<Longrightarrow> custody_ok (custody_step em ev c)"
proof (cases ev)
  case (ReserveEv ref now spec ttl)
  assume ok: "custody_ok c"
  show ?thesis
  proof (cases "reserveOpenSession ref now spec ttl (cu_desk c)")
    case None
    then show ?thesis using ok ReserveEv by simp
  next
    case (Some x)
    then obtain dk y where x: "x = (dk, y)" and res: "reserveOpenSession ref now spec ttl (cu_desk c) = Some (dk, y)"
      by (cases x) auto
    have "records_ok (set (held c)) dk"
      by (rule records_subset [of _ "cu_desk c"])
        (use ok res in \<open>auto simp: custody_ok_def reserveOpenSession_def Let_def dest!: in_set_aset
          split: option.splits if_splits\<close>)
    then have "custody_ok (c\<lparr>cu_desk := dk\<rparr>)" using ok by (simp add: custody_ok_def held_def)
    then show ?thesis using ReserveEv res by simp
  qed
next
  case (ClaimEv ref now opts)
  assume ok: "custody_ok c"
  obtain dk res where cl: "claimOpenSession ref now (cu_desk c) = (dk, res)"
    by (cases "claimOpenSession ref now (cu_desk c)")
  show ?thesis
  proof (cases res)
    case (Inl e)
    then have dk: "dk_next dk = dk_next (cu_desk c)" "set (dk_reservations dk) \<subseteq> set (dk_reservations (cu_desk c))"
      using cl by (auto simp: claimOpenSession_def adel_def split: option.splits if_splits)
    have "records_ok (set (held c)) (cu_desk c)" using ok by (simp add: custody_ok_def)
    then have "records_ok (set (held c)) dk"
      by (rule records_subset) (use dk(1) in simp, use dk(2) in blast)
    then have "custody_ok (c\<lparr>cu_desk := dk\<rparr>)" using ok by (simp add: custody_ok_def held_def)
    then show ?thesis using ClaimEv cl Inl by simp
  next
    case (Inr r)
    then show ?thesis using claim_ok_step [OF ok] ClaimEv cl by simp
  qed
next
  case (SettleEv i spawned)
  assume ok: "custody_ok c"
  show ?thesis
  proof (cases "i < length (cu_waiting c)")
    case True
    obtain ref r opts where at: "cu_waiting c ! i = (ref, r, opts)" by (cases "cu_waiting c ! i")
    have w: "cu_waiting c = take i (cu_waiting c) @ (ref, r, opts) # drop (Suc i) (cu_waiting c)"
      using id_take_nth_drop [OF True] at by simp
    obtain dk g so where st: "claim_settled em ref r spawned opts (cu_desk c) (cu_registry c) = (dk, g, so)"
      by (cases "claim_settled em ref r spawned opts (cu_desk c) (cu_registry c)")
    show ?thesis
      using settle_ok_step [OF ok w st] True at st unfolding SettleEv by (cases so) simp_all
  next
    case False
    then show ?thesis using ok SettleEv by simp
  qed
next
  case (SweepEv now)
  assume ok: "custody_ok c"
  then have "records_ok (set (held c)) (cu_desk c)" by (simp add: custody_ok_def)
  then have "records_ok (set (held c)) (fst (sweepExpired now (cu_desk c)))"
    by (rule records_subset) (simp, blast dest: sweep_mem)
  then show ?thesis using ok unfolding SweepEv by (simp add: custody_ok_def held_def)
qed

lemma custody_run_ok: "custody_ok c \<Longrightarrow> custody_ok (custody_run em evs c)"
  by (induction evs arbitrary: c) (auto simp: custody_step_ok)

lemma new_custody_ok: "custody_ok (new_custody opts g)"
  by (simp add: new_custody_def custody_ok_def held_def new_desk_def records_ok_def)

text \<open>A claimed record is never removed: not by a sweep, not by a refused claim.\<close>

lemma fold_adel_keeps:
  "aget m ref = Some r \<Longrightarrow> ref \<notin> fst ` set gone \<Longrightarrow>
   aget (fold (\<lambda>(k, r) m. adel k m) gone m) ref = Some r"
  by (induction gone arbitrary: m) auto

lemma claimed_is_kept:
  assumes "aget (dk_reservations (cu_desk c)) ref = Some r" and "rr_claimed r"
    and "distinct (akeys (dk_reservations (cu_desk c)))"
  shows "aget (dk_reservations (fst (sweepExpired now (cu_desk c)))) ref = Some r"
    and "claimOpenSession ref now (cu_desk c) = (cu_desk c, Inl ResAlreadyClaimed)"
proof -
  let ?gone = "filter (\<lambda>(k, r). \<not> rr_claimed r \<and> rr_expiresAt r < now) (dk_reservations (cu_desk c))"
  have "ref \<notin> fst ` set ?gone"
  proof
    assume "ref \<in> fst ` set ?gone"
    then obtain q where "(ref, q) \<in> set (dk_reservations (cu_desk c))" "\<not> rr_claimed q" by auto
    then show False using assms map_of_is_SomeI [OF assms(3)] by fastforce
  qed
  then show "aget (dk_reservations (fst (sweepExpired now (cu_desk c)))) ref = Some r"
    using assms(1) by (simp add: sweepExpired_def Let_def fold_adel_keeps)
  show "claimOpenSession ref now (cu_desk c) = (cu_desk c, Inl ResAlreadyClaimed)"
    using assms by (simp add: claimOpenSession_def)
qed

end
