(* ===== verification/Agents.thy ===== *)
theory Agents
  imports Prelude
begin

text \<open>
  \<open>packages/host/src/agents/adapters.ts\<close> and the environment filter of \<open>backend/local-pty.ts\<close>:
  the table of known agents and the argument vectors a launch is built from. A thrown error is
  \<open>None\<close>; whether a path is executable is a parameter, as is joining a directory and a name.
\<close>

subsection \<open>The table\<close>

datatype prompt_arg = Positional | PromptFlag string | NoPrompt

record agent_adapter =
  aa_id :: string
  aa_bin :: string
  aa_detectCmd :: "string list"
  aa_launchArgv :: "string list"
  aa_expectedProcess :: string
  aa_name :: string
  aa_models :: "(string \<times> string) list"
  aa_modelFlag :: "string option"
  aa_promptArg :: prompt_arg

definition claude :: agent_adapter where
  "claude =
     \<lparr>aa_id = ''claude'', aa_bin = ''claude'', aa_detectCmd = [''claude'', ''--version''],
      aa_launchArgv = [''claude''], aa_expectedProcess = ''claude'', aa_name = ''Claude Code'',
      aa_models = [(''default'', ''Default''), (''opus'', ''Opus''), (''sonnet'', ''Sonnet''), (''haiku'', ''Haiku'')],
      aa_modelFlag = Some ''--model'', aa_promptArg = Positional\<rparr>"

definition codex :: agent_adapter where
  "codex =
     \<lparr>aa_id = ''codex'', aa_bin = ''codex'', aa_detectCmd = [''codex'', ''--version''],
      aa_launchArgv = [''codex''], aa_expectedProcess = ''codex'', aa_name = ''Codex'',
      aa_models = [(''default'', ''Default''), (''gpt-5-codex'', ''GPT-5 Codex''), (''gpt-5'', ''GPT-5'')],
      aa_modelFlag = Some ''--model'', aa_promptArg = Positional\<rparr>"

definition gemini :: agent_adapter where
  "gemini =
     \<lparr>aa_id = ''gemini'', aa_bin = ''gemini'', aa_detectCmd = [''gemini'', ''--version''],
      aa_launchArgv = [''gemini''], aa_expectedProcess = ''gemini'', aa_name = ''Gemini CLI'',
      aa_models = [(''default'', ''Default''), (''gemini-2.5-pro'', ''Gemini 2.5 Pro''),
        (''gemini-2.5-flash'', ''Gemini 2.5 Flash'')],
      aa_modelFlag = Some ''--model'', aa_promptArg = PromptFlag ''--prompt-interactive''\<rparr>"

definition opencode :: agent_adapter where
  "opencode =
     \<lparr>aa_id = ''opencode'', aa_bin = ''opencode'', aa_detectCmd = [''opencode'', ''--version''],
      aa_launchArgv = [''opencode''], aa_expectedProcess = ''opencode'', aa_name = ''OpenCode'',
      aa_models = [(''default'', ''Default'')], aa_modelFlag = None, aa_promptArg = PromptFlag ''--prompt''\<rparr>"

definition kimi :: agent_adapter where
  "kimi =
     \<lparr>aa_id = ''kimi'', aa_bin = ''kimi'', aa_detectCmd = [''kimi'', ''--version''],
      aa_launchArgv = [''kimi''], aa_expectedProcess = ''kimi'', aa_name = ''Kimi CLI'',
      aa_models = [(''default'', ''Default''), (''kimi-k2'', ''Kimi K2''), (''kimi-k2-thinking'', ''Kimi K2 Thinking'')],
      aa_modelFlag = Some ''--model'', aa_promptArg = NoPrompt\<rparr>"

definition AGENT_ADAPTERS :: "(string, agent_adapter) amap" where
  "AGENT_ADAPTERS =
     [(''claude'', claude), (''codex'', codex), (''gemini'', gemini), (''opencode'', opencode), (''kimi'', kimi)]"

lemmas adapter_defs = AGENT_ADAPTERS_def claude_def codex_def gemini_def opencode_def kimi_def

definition AGENT_IDS :: "string list" where
  "AGENT_IDS = akeys AGENT_ADAPTERS"

subsection \<open>Resolvers\<close>

definition getAdapter :: "string \<Rightarrow> agent_adapter option" where
  "getAdapter i = aget AGENT_ADAPTERS i"

definition listAgents :: "agent_adapter list" where
  "listAgents = map snd AGENT_ADAPTERS"

text \<open>\<open>requireAdapter\<close> throws where \<open>getAdapter\<close> finds nothing; so do its callers.\<close>

definition resolveLaunch :: "string \<Rightarrow> string list \<Rightarrow> string list option" where
  "resolveLaunch i extraArgs = map_option (\<lambda>a. aa_launchArgv a @ extraArgs) (getAdapter i)"

definition detectArgv :: "string \<Rightarrow> string list option" where
  "detectArgv i = map_option aa_detectCmd (getAdapter i)"

record launch_argv_options =
  la_bin :: "string option"
  la_modelId :: "string option"
  la_prompt :: "string option"

text \<open>An absent or empty string is falsy; \<open>??\<close> only replaces an absent one.\<close>

definition truthy :: "string option \<Rightarrow> bool" where
  "truthy x \<longleftrightarrow> x \<noteq> None \<and> x \<noteq> Some []"

definition model_args :: "agent_adapter \<Rightarrow> string option \<Rightarrow> string list" where
  "model_args adapter modelId =
     (case (modelId, aa_modelFlag adapter) of
        (Some m, Some flag) \<Rightarrow> if truthy modelId \<and> m \<noteq> ''default'' then [flag, m] else []
      | _ \<Rightarrow> [])"

definition prompt_args :: "agent_adapter \<Rightarrow> string option \<Rightarrow> string list" where
  "prompt_args adapter prompt =
     (if truthy prompt
      then case aa_promptArg adapter of
          Positional \<Rightarrow> [the prompt]
        | PromptFlag flag \<Rightarrow> [flag, the prompt]
        | NoPrompt \<Rightarrow> []
      else [])"

definition buildLaunchArgv :: "agent_adapter \<Rightarrow> launch_argv_options \<Rightarrow> string list" where
  "buildLaunchArgv adapter opts =
     (let base = (case aa_launchArgv adapter of [] \<Rightarrow> aa_bin adapter | b # _ \<Rightarrow> b);
          rest = tl (aa_launchArgv adapter)
      in (case la_bin opts of None \<Rightarrow> base | Some b \<Rightarrow> b) # rest @ model_args adapter (la_modelId opts) @
         prompt_args adapter (la_prompt opts))"

subsection \<open>Detection\<close>

text \<open>The loop over the directories of the search path; empty ones are skipped.\<close>

fun detect_in :: "(string \<Rightarrow> bool) \<Rightarrow> (string \<Rightarrow> string \<Rightarrow> string) \<Rightarrow> string \<Rightarrow> string list \<Rightarrow> string option" where
  "detect_in isExecutable join bin [] = None"
| "detect_in isExecutable join bin (dir # dirs) =
     (if dir = [] then detect_in isExecutable join bin dirs
      else if isExecutable (join dir bin) then Some (join dir bin)
      else detect_in isExecutable join bin dirs)"

definition detect_agent ::
  "(string \<Rightarrow> bool) \<Rightarrow> (string \<Rightarrow> string \<Rightarrow> string) \<Rightarrow> string \<Rightarrow> string list \<Rightarrow> string option option" where
  "detect_agent isExecutable join i dirs =
     map_option (\<lambda>a. detect_in isExecutable join (aa_bin a) dirs) (getAdapter i)"

subsection \<open>The environment of a spawn\<close>

definition CLAUDE_SESSION_MARKER :: string where
  "CLAUDE_SESSION_MARKER = ''CLAUDECODE''"

definition CLAUDE_SESSION_PREFIX :: string where
  "CLAUDE_SESSION_PREFIX = ''CLAUDE_CODE_''"

definition starts_with :: "string \<Rightarrow> string \<Rightarrow> bool" where
  "starts_with p s \<longleftrightarrow> take (length p) s = p"

fun envForSpawn :: "(string, string) amap \<Rightarrow> (string, string) amap" where
  "envForSpawn [] = []"
| "envForSpawn ((key, v) # base) =
     (if key = CLAUDE_SESSION_MARKER then envForSpawn base
      else if starts_with CLAUDE_SESSION_PREFIX key then envForSpawn base
      else (key, v) # envForSpawn base)"

subsection \<open>What the vectors are made of\<close>

lemma table_cases:
  assumes "getAdapter i = Some a"
  shows "a = claude \<or> a = codex \<or> a = gemini \<or> a = opencode \<or> a = kimi"
  using assms by (auto simp: getAdapter_def AGENT_ADAPTERS_def split: if_splits)

lemma table_shape:
  assumes "getAdapter i = Some a"
  shows "aa_id a = i \<and> aa_launchArgv a = [aa_bin a] \<and> aa_models a \<noteq> [] \<and> hd (aa_models a) = (''default'', ''Default'')"
  using assms by (auto simp: getAdapter_def adapter_defs split: if_splits)

lemma envForSpawn_get:
  "aget (envForSpawn env) k =
     (if k = CLAUDE_SESSION_MARKER \<or> starts_with CLAUDE_SESSION_PREFIX k then None else aget env k)"
  by (induction env rule: envForSpawn.induct) auto

end
