(* ===== verification/SessionTheorems.thy ===== *)
theory SessionTheorems
  imports SessionSizing Custody Agents
begin

text \<open>
  The properties of the host's sessions: what a viewer can rely on, who owns the terminal's size, what
  an exit does, what the ring retains, that a reservation becomes one session, and what a launch's
  arguments are made of. The witnesses run a session over a toy emulator that echoes its input.
\<close>

subsection \<open>A session to try\<close>

definition echo_emulator :: "string emulator" where
  "echo_emulator =
     \<lparr>em_new = (\<lambda>c r l. []), em_write = (\<lambda>bs m. m @ map (\<lambda>b. char_of (unat b)) bs),
      em_resize = (\<lambda>c r m. m), em_serialize = (\<lambda>m. m)\<rparr>"

definition demo_options :: session_options where
  "demo_options = \<lparr>op_ringBytes = Some 4, op_scrollback = None, op_streamId = Some 7\<rparr>"

definition demo_session :: "string session" where
  "demo_session =
     \<lparr>se_ref = ''sref'', se_streamId = 7, se_ring = \<lparr>rg_max = 4, rg_chunks = [], rg_bytes = 0\<rparr>,
      se_mirror = [], se_subs = [], se_next = 0, se_cols = 80, se_rows = 24, se_seq = 0, se_ended = False,
      se_endedSeq = 0, se_disposed = False, se_lastWriter = None, se_viewports = [], se_tick = 0,
      se_authority = None, se_out = []\<rparr>"

lemma demo_session_new: "new_session echo_emulator ''sref'' 80 24 demo_options = Some demo_session"
  by (simp add: new_session_def demo_options_def demo_session_def new_ring_def new_mirror_def echo_emulator_def)

text \<open>A stalled viewer: its transport fills with the first output, and misses the second.\<close>

definition demo_events :: "session_event list" where
  "demo_events = [SubscribeEv True (\<lambda>_. True), OutputEv [65] (\<lambda>_. False), OutputEv [66] (\<lambda>_. False)]"

lemma demo_sized: "list_all event_sized demo_events"
  by (simp add: demo_events_def)

lemma demo_subs:
  "se_subs (session_run echo_emulator demo_events demo_session) =
     [\<lparr>sub_id = 0, sub_flow = True, sub_paused = True, sub_missed = True\<rparr>]"
  by (simp add: demo_events_def demo_session_def subscribe_eq onOutput_def broadcast_eq hear_def)

lemma demo_subs_resumed:
  "se_subs (session_run echo_emulator (demo_events @ [DrainEv 0 (\<lambda>_. True)]) demo_session) =
     [\<lparr>sub_id = 0, sub_flow = True, sub_paused = False, sub_missed = False\<rparr>]"
  by (simp add: demo_subs resumeSubscriber_def set_sub_def emitSnapshot_eq emitTo_eq Let_def)

lemma demo_size: "valid_size \<lparr>sz_cols = 80, sz_rows = 24\<rparr>"
  by (simp add: valid_size_def)

subsection \<open>What a viewer sees\<close>

text \<open>C13: a viewer is never silently out of step. Run a session from its creation through any
  operations: the frames a subscriber has received always give it a complete snapshot of some
  emulator state \<open>m0\<close>, followed by operations; if no gap is recorded against it, these are exactly
  the operations that take \<open>m0\<close> to the session's emulator now, and its size is the session's;
  if one is, they are the first of them, and delivery to it is paused, so that its next drain
  sends a gap and a fresh snapshot before anything else.\<close>

theorem viewer_is_in_step:
  assumes "new_session em ref c r opts = Some s0" and "valid_size \<lparr>sz_cols = c, sz_rows = r\<rparr>"
    and "list_all event_sized evs" and "b \<in> set (se_subs (session_run em evs s0))"
  shows "let s = session_run em evs s0; v = view_of (frames_to (sub_id b) (se_out s))
    in vw_complete v \<and> (sub_missed b \<longrightarrow> sub_paused b) \<and>
       (\<exists>m0 rest. vw_base v = utf8 (em_serialize em m0) \<and>
          se_mirror s = fold (apply_op em) (vw_ops v @ rest) m0 \<and>
          (\<not> sub_missed b \<longrightarrow> rest = [] \<and> vw_size v = \<lparr>sz_cols = se_cols s, sz_rows = se_rows s\<rparr>))"
proof -
  have inv: "session_inv em (session_run em evs s0)"
    using assms(1-3) by (intro session_run_inv new_session_inv)
  then have "sub_ok em (session_run em evs s0) (sub_missed b)
      (frames_to (sub_id b) (se_out (session_run em evs s0)))"
    using assms(4) by (simp add: session_inv_def)
  moreover have "sub_missed b \<longrightarrow> sub_paused b" using inv assms(4) by (simp add: session_inv_def subs_wf_def)
  ultimately show ?thesis by (simp add: sub_ok_def synced_def Let_def)
qed

theorem viewer_is_in_step_witness:
  "\<exists>m0. vw_base (view_of (frames_to 0 (se_out (session_run echo_emulator
        (demo_events @ [DrainEv 0 (\<lambda>_. True)]) demo_session)))) = utf8 (em_serialize echo_emulator m0) \<and>
     se_mirror (session_run echo_emulator (demo_events @ [DrainEv 0 (\<lambda>_. True)]) demo_session) =
       fold (apply_op echo_emulator) (vw_ops (view_of (frames_to 0 (se_out (session_run echo_emulator
        (demo_events @ [DrainEv 0 (\<lambda>_. True)]) demo_session))))) m0"
proof -
  have sized: "list_all event_sized (demo_events @ [DrainEv 0 (\<lambda>_. True)])" by (simp add: demo_events_def)
  have "\<lparr>sub_id = 0, sub_flow = True, sub_paused = False, sub_missed = False\<rparr> \<in>
      set (se_subs (session_run echo_emulator (demo_events @ [DrainEv 0 (\<lambda>_. True)]) demo_session))"
    unfolding demo_subs_resumed by simp
  from viewer_is_in_step [OF demo_session_new demo_size sized this, unfolded Let_def]
  show ?thesis by (simp del: fold_append fold_simps) metis
qed

text \<open>What reaches a sink, over its whole life, is a well-formed and numbered stream: it opens with
  a snapshot; a snapshot is never interrupted and repeats the number it is current as of; every
  live frame is numbered one past the frame before it; a gap is followed by a snapshot at once;
  only a gap or the end may skip numbers, and nothing follows the end. So a viewer that sees a
  jump in the numbers anywhere else has lost a frame in transport.\<close>

lemma streams_are_numbered:
  assumes "new_session em ref c r opts = Some s0" and "valid_size \<lparr>sz_cols = c, sz_rows = r\<rparr>"
    and "list_all event_sized evs"
  shows "\<exists>fs. frames_to sink (se_out (session_run em evs s0)) = map encodePtyFrame fs \<and> well_numbered fs \<and>
    (\<forall>f \<in> set fs. pf_seq f \<le> se_seq (session_run em evs s0))"
proof -
  have "session_inv em (session_run em evs s0)"
    using assms by (intro session_run_inv new_session_inv)
  then show ?thesis unfolding session_inv_def log_ok_def by blast
qed

lemma streams_are_numbered_witness:
  "\<exists>fs. frames_to 0 (se_out (session_run echo_emulator demo_events demo_session)) = map encodePtyFrame fs \<and>
    well_numbered fs"
  using streams_are_numbered [OF demo_session_new demo_size demo_sized, of 0] by blast

text \<open>An exit reaches every subscriber, also one whose delivery is paused, and with the exit code;
  and it is the end: of a sink that is no longer subscribed (by the exit, an unsubscribe or a
  dispose) no operation whatever sends another frame.\<close>

lemma exit_is_the_last_word:
  assumes new: "new_session em ref c r opts = Some s0" "valid_size \<lparr>sz_cols = c, sz_rows = r\<rparr>"
    and run: "s = session_run em before s0" "list_all event_sized before"
    and on: "\<not> se_ended s" "\<not> se_disposed s" and sub: "b \<in> set (se_subs s)"
  shows "frames_to (sub_id b) (se_out (session_run em evs (onExit code s))) = frames_to (sub_id b) (se_out s) @
    [encodePtyFrame (session_frame (se_streamId s) Ended (encodeExitPayload code) (Suc (se_seq s)))]"
proof -
  have "session_inv em s" unfolding run(1) by (intro session_run_inv new_session_inv [OF new] run(2))
  then have wf: "subs_wf s" by (simp add: session_inv_def)
  have "se_subs (onExit code s) = []" "se_next (onExit code s) = se_next s"
    using on by (simp_all add: onExit_def detach_backend_def Let_def)
  then have "frames_to (sub_id b) (se_out (session_run em evs (onExit code s))) =
      frames_to (sub_id b) (se_out (onExit code s))"
    using wf sub by (intro session_run_silent) (auto simp: subs_wf_def)
  then show ?thesis using exit_frames [OF wf on sub] by simp
qed

lemma exit_is_the_last_word_witness:
  "frames_to 0 (se_out (session_run echo_emulator [OutputEv [67] (\<lambda>_. True)]
      (onExit (Some 3) (session_run echo_emulator demo_events demo_session)))) =
   frames_to 0 (se_out (session_run echo_emulator demo_events demo_session)) @
     [encodePtyFrame (session_frame 7 Ended (encodeExitPayload (Some 3)) 3)]"
proof -
  let ?s = "session_run echo_emulator demo_events demo_session"
  have on: "\<not> se_ended ?s" "\<not> se_disposed ?s" "se_streamId ?s = 7" "Suc (se_seq ?s) = 3"
    by (simp_all add: demo_events_def demo_session_def subscribe_eq onOutput_def broadcast_eq)
  have "\<lparr>sub_id = 0, sub_flow = True, sub_paused = True, sub_missed = True\<rparr> \<in> set (se_subs ?s)"
    unfolding demo_subs by simp
  from exit_is_the_last_word [OF demo_session_new demo_size refl demo_sized on(1,2) this, of "[OutputEv [67] (\<lambda>_. True)]" "Some 3"]
  show ?thesis unfolding on(3,4) by simp
qed

subsection \<open>Whose size it is\<close>

text \<open>When the viewer whose size the terminal has departs, in any reachable state of a live
  session, the size goes to the viewer that recorded its viewport last, who becomes the authority;
  with nobody left the size stays and belongs to nobody. The departure of any other viewer leaves
  size and authority alone.\<close>

lemma departure_restores_the_latest:
  fixes em :: "'m emulator" and evs :: "session_event list" and s0 :: "'m session" and v :: nat and w :: "nat \<Rightarrow> bool"
  defines "s \<equiv> session_run em evs s0" and "s' \<equiv> releaseViewer em w v (session_run em evs s0)"
  assumes new: "new_session em ref c r opts = Some s0" and live: "\<not> se_ended s" "\<not> se_disposed s"
  shows "aget (se_viewports s') v = None \<and>
    (if se_authority s = Some v
     then if \<forall>v'. v' \<noteq> v \<longrightarrow> aget (se_viewports s) v' = None
          then se_authority s' = None \<and> se_cols s' = se_cols s \<and> se_rows s' = se_rows s
          else \<exists>h p. h \<noteq> v \<and> aget (se_viewports s) h = Some p \<and>
             (\<forall>v' p'. v' \<noteq> v \<longrightarrow> aget (se_viewports s) v' = Some p' \<longrightarrow> vp_at p' \<le> vp_at p) \<and>
             se_authority s' = Some h \<and> se_cols s' = vp_cols p \<and> se_rows s' = vp_rows p
     else se_authority s' = se_authority s \<and> se_cols s' = se_cols s \<and> se_rows s' = se_rows s)"
proof (cases "se_authority s = Some v")
  case False
  then show ?thesis by (simp add: s_def s'_def release_other)
next
  case True
  have ok: "sizing_ok s" unfolding s_def by (intro session_run_sizing new_session_sizing [OF new])
  have s': "s' = releaseViewer em w v s" by (simp add: s_def s'_def)
  show ?thesis
  proof (cases rule: release_authority [OF ok True, of em w, case_names nobody heir])
    case nobody
    then have "\<forall>v'. v' \<noteq> v \<longrightarrow> aget (se_viewports s) v' = None"
      by (metis aget_adel map_of.simps(1))
    then show ?thesis using True nobody s' by simp
  next
    case (heir h p)
    have "se_authority s' = Some h \<and> se_cols s' = vp_cols p \<and> se_rows s' = vp_rows p \<and> aget (se_viewports s') v = None"
      using live unfolding s' heir(4) Let_def by (simp add: resize_def)
    moreover have "\<not> (\<forall>v'. v' \<noteq> v \<longrightarrow> aget (se_viewports s) v' = None)" using heir(1,2) by auto
    ultimately show ?thesis using True heir(1-3) by auto
  qed
qed

lemma departure_restores_the_latest_witness:
  "let s = session_run echo_emulator [ObserveEv 0 120 40 , ResizeViewerEv 1 50 20 (\<lambda>_. True)] demo_session;
       s' = releaseViewer echo_emulator (\<lambda>_. True) 1 s
   in se_authority s = Some 1 \<and> se_cols s = 50 \<and> se_authority s' = Some 0 \<and> se_cols s' = 120 \<and> se_rows s' = 40"
proof -
  let ?s = "session_run echo_emulator [ObserveEv 0 120 40 , ResizeViewerEv 1 50 20 (\<lambda>_. True)] demo_session"
  have s: "se_authority ?s = Some 1" "se_cols ?s = 50" "\<not> se_ended ?s" "\<not> se_disposed ?s"
    "se_viewports ?s = [(0, \<lparr>vp_cols = 120, vp_rows = 40, vp_at = 1\<rparr>), (1, \<lparr>vp_cols = 50, vp_rows = 20, vp_at = 2\<rparr>)]"
    by (simp_all add: demo_session_def resizeViewer_def observeViewer_def resize_def)
  have one: "(\<forall>v'. v' \<noteq> 1 \<longrightarrow> aget (se_viewports ?s) v' = None) \<longleftrightarrow> False" unfolding s(5) by auto
  show ?thesis
    using departure_restores_the_latest [where evs = "[ObserveEv 0 120 40 , ResizeViewerEv 1 50 20 (\<lambda>_. True)]"
        and v = 1 and w = "\<lambda>_. True", OF demo_session_new s(3,4)] s(1,2)
    unfolding one Let_def s(5) by (auto split: if_splits)
qed

subsection \<open>The ring\<close>

text \<open>The ring never holds more than its cap, and what it holds is the newest of what was appended,
  in order: a suffix of the whole output; all of it as long as that fits the cap, and after every
  append at least the last bytes of the new chunk up to the cap.\<close>

lemma ring_keeps_the_newest:
  assumes "new_ring cap = Some r"
  shows "length (ring_concat (ring_appends cs r)) \<le> cap \<and>
    rg_bytes (ring_appends cs r) = length (ring_concat (ring_appends cs r)) \<and>
    suffix (ring_concat (ring_appends cs r)) (concat cs) \<and>
    (length (concat cs) \<le> cap \<longrightarrow> ring_concat (ring_appends cs r) = concat cs) \<and>
    suffix (drop (length c - cap) c) (ring_concat (ring_append c (ring_appends cs r)))"
proof -
  have r: "ring_ok r" "rg_max r = cap" "ring_concat r = []" using new_ring_ok [OF assms] by auto
  have ok: "ring_ok (ring_appends cs r)" "rg_max (ring_appends cs r) = cap" using ring_appends_ok [OF r(1)] r(2) by auto
  show ?thesis
    using ok ring_appends_suffix [OF r(1), of cs] ring_appends_keep_all [OF r(1), of cs]
      ring_append_newest [OF ok(1), of c] r(2,3)
    by (auto simp: ring_ok_def)
qed

lemma ring_keeps_the_newest_witness:
  "new_ring 4 = Some \<lparr>rg_max = 4, rg_chunks = [], rg_bytes = 0\<rparr> \<and>
   length (ring_concat (ring_appends [[1, 2, 3], [4, 5]] \<lparr>rg_max = 4, rg_chunks = [], rg_bytes = 0\<rparr>)) \<le> 4"
proof -
  have "new_ring 4 = Some \<lparr>rg_max = 4, rg_chunks = [], rg_bytes = 0\<rparr>" by (simp add: new_ring_def)
  then show ?thesis using ring_keeps_the_newest [of 4 _ "[[1, 2, 3], [4, 5]]"] by blast
qed

subsection \<open>Custody\<close>

definition demo_spec :: session_spec where
  "demo_spec = \<lparr>ss_argv = [''claude''], ss_cwd = ''/'', ss_env = [], ss_cols = 80, ss_rows = 24\<rparr>"

text \<open>C14: A reservation never becomes two sessions. Whatever reserves, claims, settling spawns and
  sweeps come in whatever order, no record is both waiting for a spawn and a session, or either
  twice; while it is, every further claim of its reference is refused as already claimed and
  changes nothing. When its spawn fails it can be claimed again until it expires.\<close>

theorem one_session_per_reservation:
  fixes em :: "'m emulator" and evs :: "custody_event list" and opts :: session_options and g :: "'m session registry"
  defines "c \<equiv> custody_run em evs (new_custody opts g)"
  shows "distinct (map (\<lambda>(_, r, _). rr_obj r) (cu_waiting c) @ map fst (cu_opened c)) \<and>
    (\<forall>ref r now. aget (dk_reservations (cu_desk c)) ref = Some r \<longrightarrow>
       rr_obj r \<in> set (map (\<lambda>(_, r, _). rr_obj r) (cu_waiting c) @ map fst (cu_opened c)) \<longrightarrow>
       claimOpenSession ref now (cu_desk c) = (cu_desk c, Inl ResAlreadyClaimed)) \<and>
    (\<forall>ref r now dk dk' g' spec opts'. claimOpenSession ref now (cu_desk c) = (dk, Inr r) \<longrightarrow>
       claim_settled em ref r False opts' dk (cu_registry c) = (dk', g', None) \<longrightarrow>
       isReserved ref now dk')"
proof (intro conjI allI impI)
  have ok: "custody_ok c" unfolding c_def by (rule custody_run_ok [OF new_custody_ok])
  then show "distinct (map (\<lambda>(_, r, _). rr_obj r) (cu_waiting c) @ map fst (cu_opened c))"
    by (simp add: custody_ok_def held_def)
  fix ref r now
  assume "aget (dk_reservations (cu_desk c)) ref = Some r"
    and "rr_obj r \<in> set (map (\<lambda>(_, r, _). rr_obj r) (cu_waiting c) @ map fst (cu_opened c))"
  then have "rr_claimed r"
    using ok map_of_SomeD unfolding custody_ok_def records_ok_def held_def by metis
  then show "claimOpenSession ref now (cu_desk c) = (cu_desk c, Inl ResAlreadyClaimed)"
    using \<open>aget (dk_reservations (cu_desk c)) ref = Some r\<close> by (simp add: claimOpenSession_def)
next
  fix ref r now dk dk' g' opts'
  assume cl: "claimOpenSession ref now (cu_desk c) = (dk, Inr r)"
    and st: "claim_settled em ref r False opts' dk (cu_registry c) = (dk', g', None)"
  from cl have r: "aget (dk_reservations (cu_desk c)) ref = Some r" "now \<le> rr_expiresAt r"
      "dk = set_claimed (rr_obj r) True (cu_desk c)"
    by (auto simp: claimOpenSession_def split: option.splits if_splits)
  have "dk' = set_claimed (rr_obj r) False dk" using st by (simp add: claim_settled_def openSession_def)
  then show "isReserved ref now dk'"
    using r by (simp add: isReserved_def aget_set_claimed live_reservation_def)
qed

definition demo_custody :: "string custody" where
  "demo_custody = custody_run echo_emulator
     [ReserveEv ''r'' 0 demo_spec (Some 10), ClaimEv ''r'' 1 demo_options] (new_custody demo_options [])"

lemma demo_custody_state:
  "dk_reservations (cu_desk demo_custody) =
     [(''r'', \<lparr>rr_obj = 0, rr_ref = ''r'', rr_spec = demo_spec, rr_expiresAt = 10, rr_claimed = True\<rparr>)]"
  "cu_opened demo_custody = []"
  "map (\<lambda>(_, r, _). rr_obj r) (cu_waiting demo_custody) = [0]"
  by (simp_all add: demo_custody_def new_custody_def new_desk_def reserveOpenSession_def claimOpenSession_def
      set_claimed_def)

lemma one_session_per_reservation_witness:
  "claimOpenSession ''r'' 5 (cu_desk demo_custody) = (cu_desk demo_custody, Inl ResAlreadyClaimed)"
  using one_session_per_reservation [of echo_emulator
      "[ReserveEv ''r'' 0 demo_spec (Some 10), ClaimEv ''r'' 1 demo_options]" demo_options "[]",
      folded demo_custody_def] demo_custody_state
  by simp

text \<open>A claimed reservation stays on the desk for good: no sweep removes it, however old, and no
  claim. The desk of a long-lived daemon only grows.\<close>

lemma claimed_reservations_stay:
  assumes "aget (dk_reservations dk) ref = Some r" and "rr_claimed r" and "distinct (akeys (dk_reservations dk))"
  shows "aget (dk_reservations (fst (sweepExpired now dk))) ref = Some r \<and>
    claimOpenSession ref now dk = (dk, Inl ResAlreadyClaimed)"
  using claimed_is_kept [of "\<lparr>cu_desk = dk, cu_registry = [], cu_waiting = [], cu_opened = []\<rparr>" ref r now] assms
  by simp

lemma claimed_reservations_stay_witness:
  "aget (dk_reservations (fst (sweepExpired 1000000
     \<lparr>dk_reservations = [(''r'', \<lparr>rr_obj = 0, rr_ref = ''r'', rr_spec = demo_spec, rr_expiresAt = 5, rr_claimed = True\<rparr>)],
      dk_options = demo_options, dk_next = 1\<rparr>))) ''r'' =
   Some \<lparr>rr_obj = 0, rr_ref = ''r'', rr_spec = demo_spec, rr_expiresAt = 5, rr_claimed = True\<rparr>"
  using claimed_reservations_stay [of "\<lparr>dk_reservations = [(''r'', \<lparr>rr_obj = 0, rr_ref = ''r'', rr_spec = demo_spec,
        rr_expiresAt = 5, rr_claimed = True\<rparr>)], dk_options = demo_options, dk_next = 1\<rparr>" "''r''"
      "\<lparr>rr_obj = 0, rr_ref = ''r'', rr_spec = demo_spec, rr_expiresAt = 5, rr_claimed = True\<rparr>" 1000000]
  by simp

subsection \<open>Launches\<close>

text \<open>A prompt is data: for every known agent, the vector a constrained launch composes starts with
  the resolved binary; what follows is at most the model pair and the prompt, which is its last
  element, verbatim and once, whatever characters it holds; an agent that takes no prompt gets
  none, and the default model no flag.\<close>

lemma prompt_is_one_argument:
  assumes "getAdapter i = Some a"
  shows "buildLaunchArgv a \<lparr>la_bin = Some b, la_modelId = m, la_prompt = Some p\<rparr> =
     b # model_args a m @ (if p = [] \<or> aa_promptArg a = NoPrompt then []
       else case aa_promptArg a of PromptFlag f \<Rightarrow> [f, p] | _ \<Rightarrow> [p]) \<and>
   length (buildLaunchArgv a \<lparr>la_bin = Some b, la_modelId = m, la_prompt = Some p\<rparr>) \<le> 5 \<and>
   (p \<noteq> [] \<longrightarrow> aa_promptArg a \<noteq> NoPrompt \<longrightarrow>
     List.last (buildLaunchArgv a \<lparr>la_bin = Some b, la_modelId = m, la_prompt = Some p\<rparr>) = p) \<and>
   model_args a None = [] \<and> model_args a (Some ''default'') = []"
proof -
  have shape: "aa_launchArgv a = [aa_bin a]" using table_shape [OF assms] by simp
  have "length (model_args a m) \<le> 2" by (auto simp: model_args_def split: option.splits)
  then show ?thesis
    using shape
    by (auto simp: buildLaunchArgv_def prompt_args_def truthy_def model_args_def split: prompt_arg.splits option.splits)
qed

lemma prompt_is_one_argument_witness:
  "buildLaunchArgv gemini \<lparr>la_bin = Some ''/bin/gemini'', la_modelId = Some ''default'', la_prompt = Some ''rm -rf; ls''\<rparr> =
     [''/bin/gemini'', ''--prompt-interactive'', ''rm -rf; ls'']"
  using prompt_is_one_argument [of "''gemini''" gemini "''/bin/gemini''" "Some ''default''" "''rm -rf; ls''"]
  by (simp add: getAdapter_def AGENT_ADAPTERS_def gemini_def)

end
