(* ===== verification/Serve.thy ===== *)
theory Serve
  imports SessionSizing Custody
begin

text \<open>
  \<open>packages/host/src/serve/serve-connection.ts\<close>: the host's end of one controller connection, over
  an open channel and the host's sessions. The channel is its events (a frame, a drain, its close)
  and what is asked of it, logged in \<open>sv_out\<close> with everything else the connection does to the
  outside. JSON and the shape of the schemas are the codec parameter; hooks are answers: those
  asked synchronously are functions of the number of the request, so that each request has its
  own, those awaited come back as events. The sessions are objects, named by numbers, that other
  parties use too; a sink belongs to this connection when its closure made it.
\<close>

subsection \<open>Messages\<close>

definition MAX_INPUT_B64 :: nat where
  "MAX_INPUT_B64 = 64 * 1024"

record hello =
  he_protocol :: int
  he_capabilities :: "string list"
  he_deviceKeyId :: string
  he_deviceAuth :: string

record launch_params =
  lp_projectId :: string
  lp_agentId :: string
  lp_modelId :: "string option"
  lp_prompt :: "string option"
  lp_size :: "nat option \<times> nat option"

datatype rpc_params =
    SubscribeParams string "size option" "string list option"
  | UnsubscribeParams string nat
  | InputParams string string
  | ResizeParams string size
  | ReserveParams session_spec
  | ClaimParams string
  | LaunchStartParams launch_params
  | OtherParams

record session_info =
  si_ref :: string
  si_argv :: "string list"
  si_cwd :: string
  si_size :: size
  si_subscribers :: nat

datatype 'o rpc_result =
    AckResult
  | StreamAck nat nat
  | ReservationResult string int
  | SessionsResult "session_info list"
  | LaunchOptionsResult 'o
  | LaunchStartResult string

datatype 'j error_data = CapabilityData string | IssuesData 'j

text \<open>The bounds the schemas put on what the codec parsed.\<close>

definition valid_spec :: "session_spec \<Rightarrow> bool" where
  "valid_spec p \<longleftrightarrow>
     valid_size \<lparr>sz_cols = ss_cols p, sz_rows = ss_rows p\<rparr> \<and>
     ss_argv p \<noteq> [] \<and> list_all (\<lambda>a. a \<noteq> []) (ss_argv p) \<and> ss_cwd p \<noteq> []"

fun dimension_ok :: "nat option \<Rightarrow> bool" where
  "dimension_ok None = True"
| "dimension_ok (Some n) = (2 \<le> n \<and> n \<le> 500)"

definition bounded_id :: "nat \<Rightarrow> string \<Rightarrow> bool" where
  "bounded_id k s \<longleftrightarrow> 1 \<le> length s \<and> length s \<le> k"

definition valid_launch :: "launch_params \<Rightarrow> bool" where
  "valid_launch p \<longleftrightarrow>
     bounded_id 64 (lp_projectId p) \<and> bounded_id 32 (lp_agentId p) \<and>
     (case lp_modelId p of None \<Rightarrow> True | Some m \<Rightarrow> bounded_id 64 m) \<and>
     (case lp_prompt p of None \<Rightarrow> True | Some t \<Rightarrow> length t \<le> 4096) \<and>
     dimension_ok (fst (lp_size p)) \<and> dimension_ok (snd (lp_size p))"

definition valid_params :: "method_name \<Rightarrow> rpc_params \<Rightarrow> bool" where
  "valid_params m p \<longleftrightarrow>
     (case p of
        SubscribeParams ref vp caps \<Rightarrow>
          m = SessionSubscribe \<and> valid_session_ref ref \<and> (case vp of None \<Rightarrow> True | Some z \<Rightarrow> valid_size z)
      | UnsubscribeParams ref sid \<Rightarrow> m = SessionUnsubscribe \<and> valid_session_ref ref \<and> valid_stream_id sid
      | InputParams ref b64 \<Rightarrow> m = SessionInput \<and> valid_session_ref ref \<and> length b64 \<le> MAX_INPUT_B64
      | ResizeParams ref z \<Rightarrow> m = SessionResize \<and> valid_session_ref ref \<and> valid_size z
      | ReserveParams spec \<Rightarrow> m = CustodyReserve \<and> valid_spec spec
      | ClaimParams ref \<Rightarrow> m = CustodyClaim \<and> valid_session_ref ref
      | LaunchStartParams lp \<Rightarrow> m = LaunchStart \<and> valid_launch lp
      | OtherParams \<Rightarrow> m \<in> {SessionApprove, SandboxSpawn, AttentionRaise, SessionsList, LaunchOptions})"

text \<open>JSON, the shape checks and base64: \<open>None\<close> where parsing throws or fails.\<close>

record 'j codec =
  wc_hello :: "bytes \<Rightarrow> hello option"
  wc_request :: "bytes \<Rightarrow> (string \<times> string \<times> 'j) option"
  wc_params :: "method_name \<Rightarrow> 'j \<Rightarrow> rpc_params option"
  wc_issues :: "method_name \<Rightarrow> 'j \<Rightarrow> 'j"
  wc_b64 :: "string \<Rightarrow> bytes"

definition parse_hello :: "'j codec \<Rightarrow> bytes \<Rightarrow> hello option" where
  "parse_hello cd p =
     (case wc_hello cd p of
        None \<Rightarrow> None
      | Some h \<Rightarrow> if device_key_id_pattern (he_deviceKeyId h) then Some h else None)"

definition safeParse :: "'j codec \<Rightarrow> method_name \<Rightarrow> 'j \<Rightarrow> rpc_params option" where
  "safeParse cd m j =
     (case wc_params cd m j of
        None \<Rightarrow> None
      | Some p \<Rightarrow> if valid_params m p then Some p else None)"

subsection \<open>Options and hooks\<close>

definition DEFAULT_SERVED_CAPABILITIES :: "string list" where
  "DEFAULT_SERVED_CAPABILITIES = [PTY_STREAM, MIRROR_SNAPSHOT, SESSION_INPUT]"

definition MAX_FRAMES_WHILE_VERIFYING :: nat where
  "MAX_FRAMES_WHILE_VERIFYING = 64"

definition LAUNCH_REFUSED_MESSAGE :: string where
  "LAUNCH_REFUSED_MESSAGE = ''launch: unknown selection''"

text \<open>The options a caller passes: which hooks are present, the capabilities, and the channel's session
  id.\<close>

record serve_options =
  so_custody :: bool
  so_listSessions :: bool
  so_launch :: bool
  so_verifyDevice :: bool
  so_capabilities :: "string list option"
  so_sessionId :: "bytes option"

definition servedCapabilities :: "serve_options \<Rightarrow> string list" where
  "servedCapabilities opts = (case so_capabilities opts of None \<Rightarrow> DEFAULT_SERVED_CAPABILITIES | Some cs \<Rightarrow> cs)"

datatype thrown = CustodyThrow custody_error string | LaunchRefused | OtherThrow string

datatype verdict = Admit | Refuse | ThrowVerdict | Pending

text \<open>What the environment answers during one event: the reserve and list hooks by request, whether a
  sink's transport is writable by request and sink, and the device verdict.\<close>

record env =
  en_reserve :: "nat \<Rightarrow> session_spec \<Rightarrow> thrown + (string \<times> int)"
  en_list :: "nat \<Rightarrow> thrown + session_info list"
  en_writable :: "nat \<Rightarrow> nat \<Rightarrow> nat \<Rightarrow> bool"
  en_verdict :: "hello \<Rightarrow> verdict"

subsection \<open>State\<close>

datatype conn_phase = AwaitingHello | VerifyingDevice | Serving | DeadPhase

record subscription =
  sp_streamId :: nat
  sp_session :: nat
  sp_sink :: nat

datatype pending_call = ClaimCall | LaunchCall

datatype ('j, 'o) serve_out =
    SendHelloAck int "string list" bytes
  | SendResponse "('o rpc_result, 'j error_data) response"
  | SendBinary bytes
  | CallReserve session_spec
  | CallClaim string
  | CallLaunchOptions
  | CallLaunchStart launch_params
  | ReportError string
  | ClearTimer
  | CloseChannel

record ('j, 'o, 'm) served =
  sv_registry :: "nat registry"
  sv_sessions :: "nat \<Rightarrow> 'm session"
  sv_objects :: nat
  sv_viewer :: nat
  sv_subscriptions :: "(string, subscription) amap"
  sv_resumers :: "(string, nat \<times> nat) amap"
  sv_touched :: "nat list"
  sv_sinks :: "(nat \<times> nat) list"
  sv_closed :: bool
  sv_channelOpen :: bool
  sv_phase :: conn_phase
  sv_negotiated :: "string list"
  sv_buffered :: "bytes list"
  sv_hello :: "hello option"
  sv_pending :: "(string \<times> pending_call) list"
  sv_count :: nat
  sv_out :: "('j, 'o) serve_out list"

definition emit_out :: "('j, 'o) serve_out \<Rightarrow> ('j, 'o, 'm) served \<Rightarrow> ('j, 'o, 'm) served" where
  "emit_out e c = c\<lparr>sv_out := sv_out c @ [e]\<rparr>"

text \<open>\<open>sendControl\<close> and the sink's send both look at \<open>closed\<close> first.\<close>

definition send_guarded :: "('j, 'o) serve_out \<Rightarrow> ('j, 'o, 'm) served \<Rightarrow> ('j, 'o, 'm) served" where
  "send_guarded e c = (if sv_closed c then c else emit_out e c)"

definition send_response ::
  "('o rpc_result, 'j error_data) response \<Rightarrow> ('j, 'o, 'm) served \<Rightarrow> ('j, 'o, 'm) served" where
  "send_response r c = send_guarded (SendResponse r) c"

definition report_error :: "string \<Rightarrow> ('j, 'o, 'm) served \<Rightarrow> ('j, 'o, 'm) served" where
  "report_error msg c = emit_out (ReportError msg) c"

text \<open>An operation on a shared session: what it delivers to this connection's sinks goes out on the
  channel.\<close>

fun route :: "nat \<Rightarrow> session_out list \<Rightarrow> ('j, 'o, 'm) served \<Rightarrow> ('j, 'o, 'm) served" where
  "route ob [] c = c"
| "route ob (Deliver sink b # es) c =
     route ob es (if (ob, sink) \<in> set (sv_sinks c) then send_guarded (SendBinary b) c else c)"
| "route ob (e # es) c = route ob es c"

definition on_session ::
  "nat \<Rightarrow> ('m session \<Rightarrow> 'm session) \<Rightarrow> ('j, 'o, 'm) served \<Rightarrow> ('j, 'o, 'm) served" where
  "on_session ob f c =
     (let s = sv_sessions c ob; s' = f s
      in route ob (drop (length (se_out s)) (se_out s')) (c\<lparr>sv_sessions := (sv_sessions c)(ob := s')\<rparr>))"

subsection \<open>Teardown\<close>

definition set_add :: "'a \<Rightarrow> 'a list \<Rightarrow> 'a list" where
  "set_add x xs = (if x \<in> set xs then xs else xs @ [x])"

definition release ::
  "'m emulator \<Rightarrow> env \<Rightarrow> nat \<Rightarrow> ('j, 'o, 'm) served \<Rightarrow> ('j, 'o, 'm) served" where
  "release em en ob c =
     on_session ob (releaseViewer em (en_writable en (sv_count c) ob) (sv_viewer c)) c"

definition drop_sink :: "subscription \<Rightarrow> ('j, 'o, 'm) served \<Rightarrow> ('j, 'o, 'm) served" where
  "drop_sink sp c = on_session (sp_session sp) (unsubscribe (sp_sink sp)) c"

definition teardown ::
  "'m emulator \<Rightarrow> env \<Rightarrow> string \<Rightarrow> bool \<Rightarrow> ('j, 'o, 'm) served \<Rightarrow> ('j, 'o, 'm) served" where
  "teardown em en ref departed c =
     (case aget (sv_subscriptions c) ref of
        None \<Rightarrow> c
      | Some sp \<Rightarrow>
          let c1 = drop_sink sp (c\<lparr>sv_subscriptions := adel ref (sv_subscriptions c),
                                   sv_resumers := adel ref (sv_resumers c)\<rparr>)
          in if departed then release em en (sp_session sp) c1 else c1)"

definition teardownAll :: "'m emulator \<Rightarrow> env \<Rightarrow> ('j, 'o, 'm) served \<Rightarrow> ('j, 'o, 'm) served" where
  "teardownAll em en c =
     (let c1 = emit_out ClearTimer (c\<lparr>sv_phase := DeadPhase\<rparr>);
          c2 = fold drop_sink (map snd (sv_subscriptions c1)) c1;
          c3 = c2\<lparr>sv_subscriptions := [], sv_resumers := []\<rparr>;
          c4 = fold (release em en) (sv_touched c3) c3
      in c4\<lparr>sv_touched := []\<rparr>)"

text \<open>\<open>channel.close()\<close> runs the close handler before it returns, once.\<close>

definition close_served :: "'m emulator \<Rightarrow> env \<Rightarrow> ('j, 'o, 'm) served \<Rightarrow> ('j, 'o, 'm) served" where
  "close_served em en c =
     (let c1 = emit_out CloseChannel c
      in if sv_channelOpen c1
         then teardownAll em en (c1\<lparr>sv_channelOpen := False, sv_closed := True\<rparr>) else c1)"

definition failClosed :: "'m emulator \<Rightarrow> env \<Rightarrow> string \<Rightarrow> ('j, 'o, 'm) served \<Rightarrow> ('j, 'o, 'm) served" where
  "failClosed em en reason c =
     close_served em en (report_error reason (emit_out ClearTimer (c\<lparr>sv_phase := DeadPhase\<rparr>)))"

subsection \<open>Requests\<close>

definition no_session :: "string \<Rightarrow> string \<Rightarrow> ('o rpc_result, 'j error_data) response" where
  "no_session rid ref = failure rid NotFound (''no such session: '' @ ref) None"

definition unsupported :: "string \<Rightarrow> string \<Rightarrow> ('o rpc_result, 'j error_data) response" where
  "unsupported rid m = failure rid MethodNotFound (''unsupported method: '' @ m) None"

definition not_negotiated :: "string \<Rightarrow> string \<Rightarrow> ('o rpc_result, 'j error_data) response" where
  "not_negotiated rid cap =
     failure rid Forbidden (''capability not negotiated: '' @ cap) (Some (CapabilityData cap))"

definition internal_error :: "string \<Rightarrow> ('o rpc_result, 'j error_data) response" where
  "internal_error rid = failure rid Internal ''internal error handling request'' None"

text \<open>Whether the method's capability was negotiated; the refusal is sent if not.\<close>

definition capabilityAllows ::
  "string \<Rightarrow> method_name \<Rightarrow> ('j, 'o, 'm) served \<Rightarrow> ('j, 'o, 'm) served \<times> bool" where
  "capabilityAllows rid m c =
     (case requiredCapability m of
        None \<Rightarrow> (c, True)
      | Some cap \<Rightarrow>
          if cap \<in> set (sv_negotiated c) then (c, True)
          else (send_response (not_negotiated rid cap) c, False))"

text \<open>A handler gives back whether it threw (\<open>Some\<close> message). Subscribing to a disposed session throws
  behind the acknowledgement.\<close>

definition attach ::
  "'m emulator \<Rightarrow> env \<Rightarrow> string \<Rightarrow> nat \<Rightarrow> ('j, 'o, 'm) served \<Rightarrow> ('j, 'o, 'm) served \<times> string option" where
  "attach em en ref ob c =
     (let s = sv_sessions c ob; w = en_writable en (sv_count c) ob; sink = se_next s
      in case subscribe em True w s of
           None \<Rightarrow> (c, Some ''Session: cannot subscribe to a disposed session'')
         | Some _ \<Rightarrow>
             let c1 = c\<lparr>sv_sinks := sv_sinks c @ [(ob, sink)],
                        sv_resumers := (if se_ended s then sv_resumers c else aset ref (ob, sink) (sv_resumers c))\<rparr>;
                 c2 = on_session ob (\<lambda>s. case subscribe em True w s of None \<Rightarrow> s | Some (s', _) \<Rightarrow> s') c1
             in (c2\<lparr>sv_subscriptions :=
                   aset ref \<lparr>sp_streamId = se_streamId s, sp_session = ob, sp_sink = sink\<rparr> (sv_subscriptions c2)\<rparr>,
                 None))"

definition handleSubscribe ::
  "'m emulator \<Rightarrow> env \<Rightarrow> string \<Rightarrow> string \<Rightarrow> size option \<Rightarrow> string list option \<Rightarrow> ('j, 'o, 'm) served \<Rightarrow>
   ('j, 'o, 'm) served \<times> string option" where
  "handleSubscribe em en rid ref vp caps c =
     (case (case caps of None \<Rightarrow> None | Some cs \<Rightarrow> List.find (\<lambda>cap. cap \<notin> set (sv_negotiated c)) cs) of
        Some escalated \<Rightarrow> (send_response (not_negotiated rid escalated) c, None)
      | None \<Rightarrow>
          case reg_get ref (sv_registry c) of
            None \<Rightarrow> (send_response (no_session rid ref) c, None)
          | Some ob \<Rightarrow>
              let c1 = teardown em en ref False c;
                  c2 = (case vp of None \<Rightarrow> c1
                        | Some z \<Rightarrow> on_session ob (observeViewer (sv_viewer c1) (sz_cols z) (sz_rows z)) c1);
                  c3 = c2\<lparr>sv_touched := set_add ob (sv_touched c2)\<rparr>;
                  c4 = send_response (success rid
                         (StreamAck (se_streamId (sv_sessions c3 ob)) (se_seq (sv_sessions c3 ob))) True) c3
              in attach em en ref ob c4)"

definition handleInput ::
  "'j codec \<Rightarrow> string \<Rightarrow> string \<Rightarrow> string \<Rightarrow> ('j, 'o, 'm) served \<Rightarrow> ('j, 'o, 'm) served" where
  "handleInput cd rid ref b64 c =
     (case reg_get ref (sv_registry c) of
        None \<Rightarrow> send_response (no_session rid ref) c
      | Some ob \<Rightarrow>
          send_response (success rid AckResult False) (on_session ob (writeInput (wc_b64 cd b64) None) c))"

definition handleResize ::
  "'m emulator \<Rightarrow> env \<Rightarrow> string \<Rightarrow> string \<Rightarrow> size \<Rightarrow> ('j, 'o, 'm) served \<Rightarrow> ('j, 'o, 'm) served" where
  "handleResize em en rid ref z c =
     (case reg_get ref (sv_registry c) of
        None \<Rightarrow> send_response (no_session rid ref) c
      | Some ob \<Rightarrow>
          let c1 = on_session ob (resizeViewer em (en_writable en (sv_count c) ob) (sv_viewer c) (sz_cols z) (sz_rows z)) c
          in send_response (success rid AckResult False) (c1\<lparr>sv_touched := set_add ob (sv_touched c1)\<rparr>))"

definition handleUnsubscribe ::
  "'m emulator \<Rightarrow> env \<Rightarrow> string \<Rightarrow> string \<Rightarrow> ('j, 'o, 'm) served \<Rightarrow> ('j, 'o, 'm) served" where
  "handleUnsubscribe em en rid ref c =
     send_response (success rid AckResult False) (teardown em en ref True c)"

fun custodyFailure :: "string \<Rightarrow> thrown \<Rightarrow> ('o rpc_result, 'j error_data) response option" where
  "custodyFailure rid (CustodyThrow ResAlreadyClaimed msg) = Some (failure rid Forbidden msg None)"
| "custodyFailure rid (CustodyThrow _ msg) = Some (failure rid NotFound msg None)"
| "custodyFailure rid _ = None"

fun thrown_message :: "thrown \<Rightarrow> string" where
  "thrown_message (CustodyThrow e msg) = msg"
| "thrown_message LaunchRefused = LAUNCH_REFUSED_MESSAGE"
| "thrown_message (OtherThrow msg) = msg"

definition handleReserve ::
  "env \<Rightarrow> string \<Rightarrow> session_spec \<Rightarrow> ('j, 'o, 'm) served \<Rightarrow> ('j, 'o, 'm) served \<times> string option" where
  "handleReserve en rid spec c =
     (let c1 = emit_out (CallReserve spec) c
      in case en_reserve en (sv_count c) spec of
           Inr (ref, expiresAt) \<Rightarrow> (send_response (success rid (ReservationResult ref expiresAt) False) c1, None)
         | Inl e \<Rightarrow>
             (case custodyFailure rid e of
                None \<Rightarrow> (c1, Some (thrown_message e))
              | Some mapped \<Rightarrow> (send_response mapped c1, None)))"

definition await_hook ::
  "('j, 'o) serve_out \<Rightarrow> string \<Rightarrow> pending_call \<Rightarrow> ('j, 'o, 'm) served \<Rightarrow> ('j, 'o, 'm) served" where
  "await_hook call rid k c = (emit_out call c)\<lparr>sv_pending := sv_pending c @ [(rid, k)]\<rparr>"

text \<open>How an awaited hook ends: \<open>handleClaim\<close>, and \<open>sendLaunchFailure\<close> for the two launch calls.\<close>

definition claim_failed :: "string \<Rightarrow> thrown \<Rightarrow> ('j, 'o, 'm) served \<Rightarrow> ('j, 'o, 'm) served" where
  "claim_failed rid e c =
     (case custodyFailure rid e of
        Some mapped \<Rightarrow> send_response mapped c
      | None \<Rightarrow> send_response (internal_error rid) (report_error (thrown_message e) c))"

definition sendLaunchFailure :: "string \<Rightarrow> thrown \<Rightarrow> ('j, 'o, 'm) served \<Rightarrow> ('j, 'o, 'm) served" where
  "sendLaunchFailure rid e c =
     (if e = LaunchRefused then send_response (failure rid InvalidArgument LAUNCH_REFUSED_MESSAGE None) c
      else send_response (internal_error rid) (report_error (thrown_message e) c))"

definition hook_settled ::
  "nat \<Rightarrow> thrown + 'o rpc_result \<Rightarrow> ('j, 'o, 'm) served \<Rightarrow> ('j, 'o, 'm) served" where
  "hook_settled i res c =
     (if i < length (sv_pending c)
      then
        let (rid, k) = sv_pending c ! i;
            c1 = c\<lparr>sv_pending := take i (sv_pending c) @ drop (Suc i) (sv_pending c)\<rparr>
        in case (k, res) of
             (ClaimCall, Inr _) \<Rightarrow> send_response (success rid AckResult False) c1
           | (ClaimCall, Inl e) \<Rightarrow> claim_failed rid e c1
           | (LaunchCall, Inr r) \<Rightarrow> send_response (success rid r False) c1
           | (LaunchCall, Inl e) \<Rightarrow> sendLaunchFailure rid e c1
      else c)"

text \<open>\<open>isMethod\<close> and the methods that are served.\<close>

definition gated ::
  "string \<Rightarrow> method_name \<Rightarrow> (('j, 'o, 'm) served \<Rightarrow> ('j, 'o, 'm) served \<times> string option) \<Rightarrow>
   ('j, 'o, 'm) served \<Rightarrow> ('j, 'o, 'm) served \<times> string option" where
  "gated rid m f c =
     (case capabilityAllows rid m c of (c1, allowed) \<Rightarrow> if allowed then f c1 else (c1, None))"

text \<open>The switch on the method: which one it is shows in the constructor of its parameters, except for
  the methods that take none. Those of the last branch are not served.\<close>

definition serve_method ::
  "'m emulator \<Rightarrow> 'j codec \<Rightarrow> serve_options \<Rightarrow> env \<Rightarrow> string \<Rightarrow> string \<Rightarrow> method_name \<Rightarrow> rpc_params \<Rightarrow>
   ('j, 'o, 'm) served \<Rightarrow> ('j, 'o, 'm) served \<times> string option" where
  "serve_method em cd opts en rid name m p c =
     (let refuse = (\<lambda>c. (send_response (unsupported rid name) c, None))
      in case p of
           SubscribeParams ref vp caps \<Rightarrow> gated rid SessionSubscribe (handleSubscribe em en rid ref vp caps) c
         | InputParams ref b64 \<Rightarrow> gated rid SessionInput (\<lambda>c. (handleInput cd rid ref b64 c, None)) c
         | ResizeParams ref z \<Rightarrow> gated rid SessionResize (\<lambda>c. (handleResize em en rid ref z c, None)) c
         | UnsubscribeParams ref sid \<Rightarrow> (handleUnsubscribe em en rid ref c, None)
         | ReserveParams spec \<Rightarrow> if so_custody opts then handleReserve en rid spec c else refuse c
         | ClaimParams ref \<Rightarrow>
             if so_custody opts then (await_hook (CallClaim ref) rid ClaimCall c, None) else refuse c
         | LaunchStartParams lp \<Rightarrow>
             gated rid LaunchStart (\<lambda>c. if so_launch opts
               then (await_hook (CallLaunchStart lp) rid LaunchCall c, None) else refuse c) c
         | OtherParams \<Rightarrow>
             if m = SessionsList
             then if so_listSessions opts
                  then (case en_list en (sv_count c) of
                          Inr infos \<Rightarrow> (send_response (success rid (SessionsResult infos) False) c, None)
                        | Inl e \<Rightarrow> (c, Some (thrown_message e)))
                  else refuse c
             else if m = LaunchOptions
             then gated rid LaunchOptions (\<lambda>c. if so_launch opts
               then (await_hook CallLaunchOptions rid LaunchCall c, None) else refuse c) c
             else refuse c)"

definition dispatch_request ::
  "'m emulator \<Rightarrow> 'j codec \<Rightarrow> serve_options \<Rightarrow> env \<Rightarrow> string \<times> string \<times> 'j \<Rightarrow> ('j, 'o, 'm) served \<Rightarrow>
   ('j, 'o, 'm) served \<times> string option" where
  "dispatch_request em cd opts en req c =
     (let (rid, name, j) = req
      in case aget METHODS name of
           None \<Rightarrow> (send_response (failure rid MethodNotFound (''unknown method: '' @ name) None) c, None)
         | Some m \<Rightarrow>
             (case safeParse cd m j of
                None \<Rightarrow>
                  (send_response (failure rid InvalidArgument ''invalid params'' (Some (IssuesData (wc_issues cd m j)))) c, None)
              | Some p \<Rightarrow> serve_method em cd opts en rid name m p c))"

text \<open>The number of the request moves on behind it.\<close>

definition handleRpcPayload ::
  "'m emulator \<Rightarrow> 'j codec \<Rightarrow> serve_options \<Rightarrow> env \<Rightarrow> bytes \<Rightarrow> ('j, 'o, 'm) served \<Rightarrow> ('j, 'o, 'm) served" where
  "handleRpcPayload em cd opts en payload c =
     (case wc_request cd payload of
        None \<Rightarrow> report_error ''malformed control frame'' c
      | Some req \<Rightarrow>
          (case dispatch_request em cd opts en req c of
             (c1, None) \<Rightarrow> c1\<lparr>sv_count := Suc (sv_count c1)\<rparr>
           | (c1, Some msg) \<Rightarrow>
               let c2 = send_response (internal_error (fst req)) (report_error msg c1)
               in c2\<lparr>sv_count := Suc (sv_count c2)\<rparr>))"

subsection \<open>The handshake\<close>

text \<open>The frames held back are replayed in order; \<open>sv_hello\<close>, what the verdict's continuation remembers,
  is gone with it.\<close>

definition admit ::
  "'m emulator \<Rightarrow> 'j codec \<Rightarrow> serve_options \<Rightarrow> env \<Rightarrow> hello \<Rightarrow> ('j, 'o, 'm) served \<Rightarrow> ('j, 'o, 'm) served" where
  "admit em cd opts en h c =
     fold (handleRpcPayload em cd opts en) (sv_buffered c)
       (c\<lparr>sv_negotiated := negotiate (servedCapabilities opts) (he_capabilities h), sv_phase := Serving,
          sv_buffered := [], sv_hello := None\<rparr>)"

definition NOT_AUTHORIZED :: string where
  "NOT_AUTHORIZED = ''device not authorized''"

definition runDeviceGate ::
  "'m emulator \<Rightarrow> 'j codec \<Rightarrow> serve_options \<Rightarrow> env \<Rightarrow> hello \<Rightarrow> ('j, 'o, 'm) served \<Rightarrow> ('j, 'o, 'm) served" where
  "runDeviceGate em cd opts en h c =
     (if so_sessionId opts = None then failClosed em en NOT_AUTHORIZED c
      else case en_verdict en h of
          ThrowVerdict \<Rightarrow> failClosed em en NOT_AUTHORIZED c
        | Admit \<Rightarrow> admit em cd opts en h c
        | Refuse \<Rightarrow> failClosed em en NOT_AUTHORIZED c
        | Pending \<Rightarrow> c\<lparr>sv_phase := VerifyingDevice, sv_hello := Some h\<rparr>)"

text \<open>The continuation of an asynchronous verdict; \<open>None\<close> is a rejection.\<close>

definition verdict_settled ::
  "'m emulator \<Rightarrow> 'j codec \<Rightarrow> serve_options \<Rightarrow> env \<Rightarrow> bool option \<Rightarrow> ('j, 'o, 'm) served \<Rightarrow> ('j, 'o, 'm) served" where
  "verdict_settled em cd opts en v c =
     (if sv_phase c \<noteq> VerifyingDevice then c
      else case (v, sv_hello c) of
          (Some True, Some h) \<Rightarrow> admit em cd opts en h c
        | _ \<Rightarrow> failClosed em en NOT_AUTHORIZED c)"

definition channelBinding :: "serve_options \<Rightarrow> bytes" where
  "channelBinding opts = (case so_sessionId opts of None \<Rightarrow> [] | Some sid \<Rightarrow> sid)"

definition handleHello ::
  "'m emulator \<Rightarrow> 'j codec \<Rightarrow> serve_options \<Rightarrow> env \<Rightarrow> bytes \<Rightarrow> ('j, 'o, 'm) served \<Rightarrow> ('j, 'o, 'm) served" where
  "handleHello em cd opts en payload c0 =
     (let c = emit_out ClearTimer c0
      in case parse_hello cd payload of
           None \<Rightarrow> failClosed em en ''handshake violation: first control frame was not a Hello'' c
         | Some h \<Rightarrow>
             let c1 = send_guarded (SendHelloAck PROTOCOL_VERSION (servedCapabilities opts) (channelBinding opts)) c
             in if evaluateCompat (he_protocol h) \<noteq> CompatOk then failClosed em en ''version incompatible'' c1
                else if so_verifyDevice opts then runDeviceGate em cd opts en h c1
                else c1\<lparr>sv_negotiated := negotiate (servedCapabilities opts) (he_capabilities h),
                        sv_phase := Serving\<rparr>)"

definition onControl ::
  "'m emulator \<Rightarrow> 'j codec \<Rightarrow> serve_options \<Rightarrow> env \<Rightarrow> bytes \<Rightarrow> ('j, 'o, 'm) served \<Rightarrow> ('j, 'o, 'm) served" where
  "onControl em cd opts en payload c =
     (case sv_phase c of
        DeadPhase \<Rightarrow> c
      | AwaitingHello \<Rightarrow> handleHello em cd opts en payload c
      | VerifyingDevice \<Rightarrow>
          if MAX_FRAMES_WHILE_VERIFYING \<le> length (sv_buffered c) then failClosed em en NOT_AUTHORIZED c
          else c\<lparr>sv_buffered := sv_buffered c @ [payload]\<rparr>
      | Serving \<Rightarrow> handleRpcPayload em cd opts en payload c)"

definition negotiation_timeout :: "'m emulator \<Rightarrow> env \<Rightarrow> ('j, 'o, 'm) served \<Rightarrow> ('j, 'o, 'm) served" where
  "negotiation_timeout em en c =
     (if sv_phase c \<noteq> AwaitingHello then c
      else close_served em en
             (report_error ''handshake timeout: controller sent no Hello'' (c\<lparr>sv_phase := DeadPhase\<rparr>)))"

text \<open>The channel's drain resumes every live subscription of this connection.\<close>

definition channel_drained :: "'m emulator \<Rightarrow> env \<Rightarrow> ('j, 'o, 'm) served \<Rightarrow> ('j, 'o, 'm) served" where
  "channel_drained em en c =
     fold (\<lambda>(ob, sink). on_session ob (resumeSubscriber em (en_writable en (sv_count c) ob) sink))
       (map snd (sv_resumers c)) c"

definition serve_close :: "'m emulator \<Rightarrow> env \<Rightarrow> ('j, 'o, 'm) served \<Rightarrow> ('j, 'o, 'm) served" where
  "serve_close em en c = teardownAll em en (c\<lparr>sv_closed := True\<rparr>)"

definition channel_closed :: "'m emulator \<Rightarrow> env \<Rightarrow> ('j, 'o, 'm) served \<Rightarrow> ('j, 'o, 'm) served" where
  "channel_closed em en c =
     (if sv_channelOpen c then teardownAll em en (c\<lparr>sv_channelOpen := False, sv_closed := True\<rparr>) else c)"

definition subscriptionCount :: "('j, 'o, 'm) served \<Rightarrow> nat" where
  "subscriptionCount c = length (sv_subscriptions c)"

subsection \<open>The connection as a machine\<close>

text \<open>Other parties use the sessions too, but hold neither this connection's symbol nor the closures it
  made.\<close>

fun foreign :: "nat \<Rightarrow> nat list \<Rightarrow> session_event \<Rightarrow> bool" where
  "foreign viewer sinks (UnsubscribeEv i) = (i \<notin> set sinks)"
| "foreign viewer sinks (DrainEv i w) = (i \<notin> set sinks)"
| "foreign viewer sinks (ObserveEv v c r) = (v \<noteq> viewer)"
| "foreign viewer sinks (ResizeViewerEv v c r w) = (v \<noteq> viewer)"
| "foreign viewer sinks (ReleaseViewerEv v w) = (v \<noteq> viewer)"
| "foreign viewer sinks _ = True"

datatype ('o, 'm) serve_event =
    ControlFrameEv bytes env
  | BinaryFrameEv bytes
  | ChannelClosedEv env
  | ChannelDrainEv env
  | NegotiationTimerEv env
  | VerdictEv "bool option" env
  | HookSettledEv nat "thrown + 'o rpc_result"
  | CloseConnectionEv env
  | ElsewhereEv nat session_event
  | NewSessionEv string "'m session"
  | RemoveSessionEv string

fun serve_step ::
  "'m emulator \<Rightarrow> 'j codec \<Rightarrow> serve_options \<Rightarrow> ('o, 'm) serve_event \<Rightarrow> ('j, 'o, 'm) served \<Rightarrow> ('j, 'o, 'm) served" where
  "serve_step em cd opts (ControlFrameEv p en) c = onControl em cd opts en p c"
| "serve_step em cd opts (BinaryFrameEv p) c = c"
| "serve_step em cd opts (ChannelClosedEv en) c = channel_closed em en c"
| "serve_step em cd opts (ChannelDrainEv en) c = channel_drained em en c"
| "serve_step em cd opts (NegotiationTimerEv en) c = negotiation_timeout em en c"
| "serve_step em cd opts (VerdictEv v en) c = verdict_settled em cd opts en v c"
| "serve_step em cd opts (HookSettledEv i res) c = hook_settled i res c"
| "serve_step em cd opts (CloseConnectionEv en) c = serve_close em en c"
| "serve_step em cd opts (ElsewhereEv ob ev) c =
     (if ob < sv_objects c \<and> foreign (sv_viewer c) [i. (o', i) \<leftarrow> sv_sinks c, o' = ob] ev
      then on_session ob (session_step em ev) c else c)"
| "serve_step em cd opts (NewSessionEv ref s) c =
     (if se_subs s = [] \<and> se_viewports s = [] \<and> se_authority s = None
      then case reg_register ref (sv_objects c) (sv_registry c) of
          None \<Rightarrow> c
        | Some g \<Rightarrow> c\<lparr>sv_registry := g, sv_sessions := (sv_sessions c)(sv_objects c := s),
                      sv_objects := Suc (sv_objects c)\<rparr>
      else c)"
| "serve_step em cd opts (RemoveSessionEv ref) c = c\<lparr>sv_registry := fst (reg_remove ref (sv_registry c))\<rparr>"

abbreviation serve_run ::
  "'m emulator \<Rightarrow> 'j codec \<Rightarrow> serve_options \<Rightarrow> ('o, 'm) serve_event list \<Rightarrow> ('j, 'o, 'm) served \<Rightarrow> ('j, 'o, 'm) served" where
  "serve_run em cd opts evs c \<equiv> fold (serve_step em cd opts) evs c"

text \<open>\<open>serveConnection\<close>: the state right after the call, on a host without sessions of its own yet; the
  sessions it has come as events.\<close>

definition serveConnection :: "nat \<Rightarrow> (nat \<Rightarrow> 'm session) \<Rightarrow> ('j, 'o, 'm) served" where
  "serveConnection viewer heap =
     \<lparr>sv_registry = [], sv_sessions = heap, sv_objects = 0, sv_viewer = viewer, sv_subscriptions = [],
      sv_resumers = [], sv_touched = [], sv_sinks = [], sv_closed = False, sv_channelOpen = True,
      sv_phase = AwaitingHello, sv_negotiated = [], sv_buffered = [], sv_hello = None, sv_pending = [],
      sv_count = 0, sv_out = []\<rparr>"

end
