(* ===== verification/ServeReach.thy ===== *)
theory ServeReach
  imports Serve Prelude
begin

text \<open>
  The invariant of a served connection: every sink of its making that a session still feeds belongs to
  a subscription, every session that knows its viewer is on its list, and a dead connection has
  neither. Session operations are classed by what they can do to these: \<open>quiet\<close> ones add no
  sink of this connection and no trace of its viewer.

  The connection's operations keep its invariant: teardown first, then each request, the handshake and
  every event.
\<close>

subsection \<open>What a session knows of a connection\<close>

definition sink_ids :: "'m session \<Rightarrow> nat set" where
  "sink_ids s = sub_id ` set (se_subs s)"

definition marked :: "nat \<Rightarrow> 'm session \<Rightarrow> bool" where
  "marked v s \<longleftrightarrow> v \<in> fst ` set (se_viewports s) \<or> se_authority s = Some v"

definition quiet :: "nat \<Rightarrow> 'm session \<Rightarrow> 'm session \<Rightarrow> bool" where
  "quiet v s t \<longleftrightarrow>
     sink_ids t \<subseteq> sink_ids s \<union> {i. se_next s \<le> i} \<and> se_next s \<le> se_next t \<and> (marked v t \<longrightarrow> marked v s)"

lemma quiet_refl [simp]: "quiet v s s"
  by (simp add: quiet_def)

lemma quiet_same:
  assumes "sink_ids t \<subseteq> sink_ids s" "se_next t = se_next s" "se_viewports t = se_viewports s"
    "se_authority t = se_authority s"
  shows "quiet v s t"
  using assms by (auto simp: quiet_def marked_def)

lemma sink_ids_list: "sink_ids s = set (map sub_id (se_subs s))"
  by (simp add: sink_ids_def)

lemma sink_ids_broadcast [simp]: "sink_ids (broadcast w op p s) = sink_ids s"
  unfolding sink_ids_list broadcast_eq by (simp del: set_map)

lemma sink_ids_resize [simp]: "sink_ids (resize em w c r s) = sink_ids s"
  by (simp add: resize_def) (simp add: sink_ids_def)

lemma release_effect:
  "sink_ids (releaseViewer em w v s) = sink_ids s \<and> se_next (releaseViewer em w v s) = se_next s \<and>
   fst ` set (se_viewports (releaseViewer em w v s)) = fst ` set (se_viewports s) - {v}"
proof -
  have keys: "fst ` set (adel v m) = fst ` set m - {v}" for m :: "(nat, viewport) amap"
    by (force simp: adel_def)
  have ids: "sink_ids (s\<lparr>se_viewports := x\<rparr>) = sink_ids s" "sink_ids (s\<lparr>se_viewports := x, se_authority := y\<rparr>) = sink_ids s"
    for x y by (simp_all add: sink_ids_def)
  show ?thesis by (simp add: releaseViewer_def Let_def keys ids split: option.splits)
qed

lemma find_heir_key: "find_heir m best h = Some v \<Longrightarrow> v \<in> fst ` set m \<or> h = Some v"
  by (induction m best h rule: find_heir.induct) (auto split: if_splits)

lemma release_authority_effect:
  "se_authority (releaseViewer em w v s) \<noteq> Some v \<and>
   (se_authority (releaseViewer em w v s) = Some u \<longrightarrow> marked u s)"
proof -
  have "h \<noteq> v \<and> h \<in> fst ` set (se_viewports s)" if "find_heir (adel v (se_viewports s)) (- 1) None = Some h" for h
    using find_heir_key [OF that] by (auto simp: adel_def)
  then show ?thesis by (auto simp: releaseViewer_def Let_def marked_def split: option.splits)
qed

lemma release_quiet: "quiet u s (releaseViewer em w v s)"
  using release_effect [of em w v s] release_authority_effect [of em w v s u]
  by (auto simp: quiet_def marked_def)

lemma release_unmarks: "\<not> marked v (releaseViewer em w v s)"
  using release_effect [of em w v s] release_authority_effect [of em w v s v] by (auto simp: marked_def)

lemma observe_effect:
  "sink_ids (observeViewer v c r s) = sink_ids s" "se_next (observeViewer v c r s) = se_next s"
  "u \<noteq> v \<Longrightarrow> marked u (observeViewer v c r s) \<longrightarrow> marked u s"
  by (auto simp: observeViewer_def sink_ids_def marked_def set_akeys_aset)

lemma resizeViewer_effect:
  "sink_ids (resizeViewer em w v c r s) = sink_ids s" "se_next (resizeViewer em w v c r s) = se_next s"
  "u \<noteq> v \<Longrightarrow> marked u (resizeViewer em w v c r s) \<longrightarrow> marked u s"
proof -
  have "sink_ids (observeViewer v c r s\<lparr>se_authority := x\<rparr>) = sink_ids s" for x
    by (simp add: observeViewer_def sink_ids_def)
  then show "sink_ids (resizeViewer em w v c r s) = sink_ids s" by (simp add: resizeViewer_def)
  show "se_next (resizeViewer em w v c r s) = se_next s" by (simp add: resizeViewer_def observeViewer_def)
  show "u \<noteq> v \<Longrightarrow> marked u (resizeViewer em w v c r s) \<longrightarrow> marked u s"
    by (auto simp: resizeViewer_def marked_def observeViewer_def set_akeys_aset)
qed

lemma unsubscribe_effect:
  "sink_ids (unsubscribe k s) = sink_ids s - {k}" "se_next (unsubscribe k s) = se_next s"
  "marked v (unsubscribe k s) = marked v s"
  by (auto simp: unsubscribe_def sink_ids_def marked_def)

lemma writeInput_effect:
  "sink_ids (writeInput bs who s) = sink_ids s" "se_next (writeInput bs who s) = se_next s"
  "marked v (writeInput bs who s) = marked v s"
  by (auto simp: writeInput_def sink_ids_def marked_def split: option.splits)

lemma subscribe_effect:
  assumes "subscribe em flow w s = Some (t, k)"
  shows "sink_ids t = insert (se_next s) (sink_ids s)" "se_next t = Suc (se_next s)" "k = se_next s"
    "marked v t = marked v s"
  using assms by (auto simp: subscribe_eq sink_ids_def marked_def split: if_splits)

lemma resume_effect:
  "sink_ids (resumeSubscriber em w k s) = sink_ids s" "se_next (resumeSubscriber em w k s) = se_next s"
  "marked v (resumeSubscriber em w k s) = marked v s"
proof -
  have ids: "sink_ids (set_sub k f t) = sink_ids t" if "\<And>b. sub_id (f b) = sub_id b" for f and t :: "'a session"
    unfolding sink_ids_list set_sub_ids [of f k t, OF that] by (rule refl)
  have out: "sink_ids (t\<lparr>se_out := x\<rparr>) = sink_ids t" for t :: "'a session" and x by (simp add: sink_ids_def)
  show "sink_ids (resumeSubscriber em w k s) = sink_ids s"
    by (simp add: resumeSubscriber_def Let_def emitSnapshot_eq emitTo_eq ids out split: list.split)
  show "se_next (resumeSubscriber em w k s) = se_next s"
    by (simp add: resumeSubscriber_def Let_def emitSnapshot_eq emitTo_eq split: list.split)
  show "marked v (resumeSubscriber em w k s) = marked v s"
    using resume_sizing [of em w k s] by (simp add: marked_def)
qed

text \<open>Whatever other parties do to a session is quiet for a viewer that is not theirs.\<close>

lemma resize_quiet: "quiet v s (resize em w c r s)"
  by (rule quiet_same) simp_all

lemma session_step_quiet:
  assumes "foreign v ks ev"
  shows "quiet v s (session_step em ev s)"
proof (cases ev)
  case (SubscribeEv flow w)
  show ?thesis
  proof (cases "subscribe em flow w s")
    case (Some x)
    then obtain t k where "subscribe em flow w s = Some (t, k)" by (cases x) auto
    then show ?thesis using SubscribeEv subscribe_effect [of em flow w s t k] by (auto simp: quiet_def)
  qed (simp add: SubscribeEv)
next
  case (UnsubscribeEv k)
  then show ?thesis by (auto simp: quiet_def unsubscribe_effect)
next
  case (WriteEv bs who)
  then show ?thesis by (simp add: quiet_def writeInput_effect)
next
  case (ResizeEv c r w)
  then show ?thesis by (simp add: resize_quiet)
next
  case (ObserveEv u c r)
  then show ?thesis using assms observe_effect(3) [of v u c r s] by (simp add: quiet_def observe_effect(1,2))
next
  case (ResizeViewerEv u c r w)
  then show ?thesis using assms resizeViewer_effect(3) [of v u em w c r s] by (simp add: quiet_def resizeViewer_effect(1,2))
next
  case (ReleaseViewerEv u w)
  then show ?thesis by (simp add: release_quiet)
next
  case DisposeEv
  then show ?thesis
    by (intro quiet_same) (auto simp: dispose_def detach_backend_def sink_ids_def Let_def)
next
  case (OutputEv bs w)
  have "sink_ids (s\<lparr>se_ring := x, se_mirror := y\<rparr>) = sink_ids s" for x y by (simp add: sink_ids_def)
  then show ?thesis using OutputEv by (intro quiet_same) (auto simp: onOutput_def)
next
  case (ExitEv code)
  then show ?thesis
    by (intro quiet_same) (auto simp: onExit_def detach_backend_def sink_ids_def Let_def)
next
  case (DrainEv k w)
  then show ?thesis by (simp add: quiet_def resume_effect)
qed

subsection \<open>Operations on shared sessions\<close>

text \<open>What a session delivers to one connection, as the channel sees it.\<close>

fun binaries :: "(nat \<Rightarrow> bool) \<Rightarrow> session_out list \<Rightarrow> ('j, 'o) serve_out list" where
  "binaries P [] = []"
| "binaries P (Deliver k b # es) = (if P k then SendBinary b # binaries P es else binaries P es)"
| "binaries P (e # es) = binaries P es"

lemma route_eq:
  "route ob es c = c\<lparr>sv_out := sv_out c @ (if sv_closed c then [] else binaries (\<lambda>k. (ob, k) \<in> set (sv_sinks c)) es)\<rparr>"
  by (induction ob es c rule: route.induct) (auto simp: send_guarded_def emit_out_def)

definition session_binaries :: "nat \<Rightarrow> ('m session \<Rightarrow> 'm session) \<Rightarrow> ('j, 'o, 'm) served \<Rightarrow> ('j, 'o) serve_out list" where
  "session_binaries ob f c =
     (if sv_closed c then []
      else binaries (\<lambda>k. (ob, k) \<in> set (sv_sinks c))
        (drop (length (se_out (sv_sessions c ob))) (se_out (f (sv_sessions c ob)))))"

lemma on_session_eq:
  "on_session ob f c = c\<lparr>sv_sessions := (sv_sessions c)(ob := f (sv_sessions c ob)),
     sv_out := sv_out c @ session_binaries ob f c\<rparr>"
  by (simp add: on_session_def route_eq session_binaries_def Let_def)

lemma binaries_only: "e \<in> set (binaries P es) \<Longrightarrow> \<exists>b. e = SendBinary b"
  by (induction P es rule: binaries.induct) (auto split: if_splits)

lemma session_binaries_only: "e \<in> set (session_binaries ob f c) \<Longrightarrow> \<exists>b. e = SendBinary b"
  by (auto simp: session_binaries_def dest: binaries_only split: if_splits)

lemma send_guarded_eq: "send_guarded e c = c\<lparr>sv_out := sv_out c @ (if sv_closed c then [] else [e])\<rparr>"
  by (simp add: send_guarded_def emit_out_def)

text \<open>The fields the operations leave alone.\<close>

lemmas served_primitives = on_session_eq send_guarded_eq send_response_def emit_out_def report_error_def

subsection \<open>The invariant\<close>

definition sinks_kept :: "('j, 'o, 'm) served \<Rightarrow> bool" where
  "sinks_kept c \<longleftrightarrow> (\<forall>(ob, k) \<in> set (sv_sinks c). ob < sv_objects c \<and> k < se_next (sv_sessions c ob) \<and>
        (k \<in> sink_ids (sv_sessions c ob) \<longrightarrow>
           (\<exists>sp \<in> snd ` set (sv_subscriptions c). sp_session sp = ob \<and> sp_sink sp = k)))"

definition marks_kept :: "('j, 'o, 'm) served \<Rightarrow> bool" where
  "marks_kept c \<longleftrightarrow> (\<forall>ob < sv_objects c. marked (sv_viewer c) (sv_sessions c ob) \<longrightarrow> ob \<in> set (sv_touched c))"

definition tables_ok :: "('j, 'o, 'm) served \<Rightarrow> bool" where
  "tables_ok c \<longleftrightarrow>
     (\<forall>ob \<in> set (sv_touched c). ob < sv_objects c) \<and>
     (\<forall>ob \<in> snd ` set (sv_registry c). ob < sv_objects c) \<and>
     (\<forall>sp \<in> snd ` set (sv_subscriptions c). (sp_session sp, sp_sink sp) \<in> set (sv_sinks c)) \<and>
     distinct (akeys (sv_subscriptions c))"

definition phase_ok :: "('j, 'o, 'm) served \<Rightarrow> bool" where
  "phase_ok c \<longleftrightarrow>
     (sv_phase c \<noteq> Serving \<longrightarrow> sv_subscriptions c = [] \<and> sv_touched c = [] \<and> sv_resumers c = []) \<and>
     (sv_closed c \<longleftrightarrow> sv_phase c = DeadPhase) \<and>
     (\<not> sv_channelOpen c \<longrightarrow> sv_closed c)"

definition conn_inv :: "('j, 'o, 'm) served \<Rightarrow> bool" where
  "conn_inv c \<longleftrightarrow> sinks_kept c \<and> marks_kept c \<and> tables_ok c \<and> phase_ok c"

lemma conn_inv_out [simp]:
  "sinks_kept (c\<lparr>sv_out := x\<rparr>) = sinks_kept c" "marks_kept (c\<lparr>sv_out := x\<rparr>) = marks_kept c"
  "tables_ok (c\<lparr>sv_out := x\<rparr>) = tables_ok c" "phase_ok (c\<lparr>sv_out := x\<rparr>) = phase_ok c"
  "tables_ok (c\<lparr>sv_sessions := h\<rparr>) = tables_ok c" "phase_ok (c\<lparr>sv_sessions := h\<rparr>) = phase_ok c"
  by (simp_all add: sinks_kept_def marks_kept_def tables_ok_def phase_ok_def)

text \<open>A session operation that is quiet for the viewer keeps them.\<close>

lemma quiet_sinks:
  assumes "sinks_kept c" and "quiet v (sv_sessions c ob) s'"
  shows "sinks_kept (c\<lparr>sv_sessions := (sv_sessions c)(ob := s')\<rparr>)"
proof -
  have "o' < sv_objects c \<and> k < se_next (((sv_sessions c)(ob := s')) o') \<and>
      (k \<in> sink_ids (((sv_sessions c)(ob := s')) o') \<longrightarrow>
        (\<exists>sp \<in> snd ` set (sv_subscriptions c). sp_session sp = o' \<and> sp_sink sp = k))"
    if k: "(o', k) \<in> set (sv_sinks c)" for o' k
  proof -
    have old: "o' < sv_objects c" "k < se_next (sv_sessions c o')"
        "k \<in> sink_ids (sv_sessions c o') \<longrightarrow> (\<exists>sp \<in> snd ` set (sv_subscriptions c). sp_session sp = o' \<and> sp_sink sp = k)"
      using assms(1) k unfolding sinks_kept_def by auto
    have q: "sink_ids s' \<subseteq> sink_ids (sv_sessions c ob) \<union> {i. se_next (sv_sessions c ob) \<le> i}"
        "se_next (sv_sessions c ob) \<le> se_next s'"
      using assms(2) by (auto simp: quiet_def)
    show ?thesis
    proof (cases "o' = ob")
      case True
      have "k \<in> sink_ids s' \<Longrightarrow> k \<in> sink_ids (sv_sessions c ob)" using q(1) old(2) True by auto
      then show ?thesis using old q(2) True by (metis fun_upd_same order_less_le_trans)
    next
      case False
      then show ?thesis using old by (metis fun_upd_other)
    qed
  qed
  then show ?thesis unfolding sinks_kept_def by (simp del: fun_upd_apply) blast
qed

lemma quiet_marks:
  "marks_kept c \<Longrightarrow> quiet (sv_viewer c) (sv_sessions c ob) s' \<Longrightarrow>
   marks_kept (c\<lparr>sv_sessions := (sv_sessions c)(ob := s')\<rparr>)"
  by (auto simp: marks_kept_def quiet_def)

lemma touched_marks:
  "marks_kept c \<Longrightarrow> ob \<in> set (sv_touched c) \<Longrightarrow> marks_kept (c\<lparr>sv_sessions := (sv_sessions c)(ob := s')\<rparr>)"
  by (auto simp: marks_kept_def)

lemma on_session_quiet:
  assumes "conn_inv c" and "quiet (sv_viewer c) (sv_sessions c ob) (f (sv_sessions c ob))"
  shows "conn_inv (on_session ob f c)"
  using assms quiet_sinks [of c "sv_viewer c" ob "f (sv_sessions c ob)"] quiet_marks [of c ob "f (sv_sessions c ob)"]
  unfolding conn_inv_def on_session_eq conn_inv_out by simp

lemma send_inv [simp]:
  "conn_inv (send_guarded e c) = conn_inv c" "conn_inv (send_response r c) = conn_inv c"
  "conn_inv (emit_out x c) = conn_inv c" "conn_inv (report_error m c) = conn_inv c"
  by (simp_all add: conn_inv_def send_guarded_eq send_response_def emit_out_def report_error_def)

subsection \<open>Teardown\<close>

lemma fold_drop_sinks:
  obtains H xs where "fold drop_sink sps c = c\<lparr>sv_sessions := H, sv_out := sv_out c @ xs\<rparr>"
    "\<And>ob. sink_ids (H ob) = sink_ids (sv_sessions c ob) - {k. \<exists>sp \<in> set sps. sp_session sp = ob \<and> sp_sink sp = k}"
    "\<And>ob. se_next (H ob) = se_next (sv_sessions c ob)"
    "\<And>ob v. marked v (H ob) = marked v (sv_sessions c ob)"
    "\<And>x. x \<in> set xs \<Longrightarrow> \<exists>b. x = SendBinary b"
proof (induction sps arbitrary: c thesis)
  case Nil
  show ?case by (rule Nil.prems [where H = "sv_sessions c" and xs = "[]"]) simp_all
next
  case (Cons sp sps)
  let ?c1 = "drop_sink sp c"
  obtain H xs where H: "fold drop_sink sps ?c1 = ?c1\<lparr>sv_sessions := H, sv_out := sv_out ?c1 @ xs\<rparr>"
    "\<And>ob. sink_ids (H ob) = sink_ids (sv_sessions ?c1 ob) - {k. \<exists>sp \<in> set sps. sp_session sp = ob \<and> sp_sink sp = k}"
    "\<And>ob. se_next (H ob) = se_next (sv_sessions ?c1 ob)"
    "\<And>ob v. marked v (H ob) = marked v (sv_sessions ?c1 ob)"
    "\<And>x. x \<in> set xs \<Longrightarrow> \<exists>b. x = SendBinary b"
    by (rule Cons.IH [of ?c1]) blast
  let ?bs = "session_binaries (sp_session sp) (unsubscribe (sp_sink sp)) c"
  show ?case
  proof (rule Cons.prems [where H = H and xs = "?bs @ xs"])
    show "fold drop_sink (sp # sps) c = c\<lparr>sv_sessions := H, sv_out := sv_out c @ ?bs @ xs\<rparr>"
      using H(1) by (simp add: drop_sink_def on_session_eq)
    show "sink_ids (H ob) = sink_ids (sv_sessions c ob) - {k. \<exists>sp \<in> set (sp # sps). sp_session sp = ob \<and> sp_sink sp = k}" for ob
      using H(2) [of ob] by (auto simp: drop_sink_def on_session_eq unsubscribe_effect)
    show "se_next (H ob) = se_next (sv_sessions c ob)" for ob
      using H(3) [of ob] by (simp add: drop_sink_def on_session_eq unsubscribe_effect)
    show "marked v (H ob) = marked v (sv_sessions c ob)" for ob v
      using H(4) [of v ob] by (simp add: drop_sink_def on_session_eq unsubscribe_effect)
    show "\<And>x. x \<in> set (?bs @ xs) \<Longrightarrow> \<exists>b. x = SendBinary b"
      using H(5) session_binaries_only by (metis Un_iff set_append)
  qed
qed

lemma fold_release:
  obtains H xs where "fold (release em en) obs c = c\<lparr>sv_sessions := H, sv_out := sv_out c @ xs\<rparr>"
    "\<And>ob. sink_ids (H ob) = sink_ids (sv_sessions c ob)" "\<And>ob. se_next (H ob) = se_next (sv_sessions c ob)"
    "\<And>ob. marked (sv_viewer c) (H ob) \<Longrightarrow> marked (sv_viewer c) (sv_sessions c ob) \<and> ob \<notin> set obs"
    "\<And>x. x \<in> set xs \<Longrightarrow> \<exists>b. x = SendBinary b"
proof (induction obs arbitrary: c thesis)
  case Nil
  show ?case by (rule Nil.prems [where H = "sv_sessions c" and xs = "[]"]) simp_all
next
  case (Cons o' obs)
  let ?c1 = "release em en o' c"
  obtain H xs where H: "fold (release em en) obs ?c1 = ?c1\<lparr>sv_sessions := H, sv_out := sv_out ?c1 @ xs\<rparr>"
    "\<And>ob. sink_ids (H ob) = sink_ids (sv_sessions ?c1 ob)" "\<And>ob. se_next (H ob) = se_next (sv_sessions ?c1 ob)"
    "\<And>ob. marked (sv_viewer ?c1) (H ob) \<Longrightarrow> marked (sv_viewer ?c1) (sv_sessions ?c1 ob) \<and> ob \<notin> set obs"
    "\<And>x. x \<in> set xs \<Longrightarrow> \<exists>b. x = SendBinary b"
    by (rule Cons.IH [of ?c1]) blast
  let ?f = "releaseViewer em (en_writable en (sv_count c) o') (sv_viewer c)"
  let ?bs = "session_binaries o' ?f c"
  have q: "marked (sv_viewer c) (?f s) \<Longrightarrow> False" for s using release_unmarks by blast
  show ?case
  proof (rule Cons.prems [where H = H and xs = "?bs @ xs"])
    show "fold (release em en) (o' # obs) c = c\<lparr>sv_sessions := H, sv_out := sv_out c @ ?bs @ xs\<rparr>"
      using H(1) by (simp add: release_def on_session_eq)
    show "sink_ids (H ob) = sink_ids (sv_sessions c ob)" "se_next (H ob) = se_next (sv_sessions c ob)" for ob
      using H(2,3) [of ob] by (simp_all add: release_def on_session_eq release_effect)
    show "marked (sv_viewer c) (sv_sessions c ob) \<and> ob \<notin> set (o' # obs)" if "marked (sv_viewer c) (H ob)" for ob
      using H(4) [of ob] that q by (cases "ob = o'") (auto simp: release_def on_session_eq)
    show "\<And>x. x \<in> set (?bs @ xs) \<Longrightarrow> \<exists>b. x = SendBinary b"
      using H(5) session_binaries_only by (metis Un_iff set_append)
  qed
qed

lemma teardownAll_cases:
  obtains H xs where "teardownAll em en c = c\<lparr>sv_phase := DeadPhase, sv_subscriptions := [], sv_resumers := [],
      sv_touched := [], sv_sessions := H, sv_out := sv_out c @ xs\<rparr>"
    "\<And>ob. sink_ids (H ob) = sink_ids (sv_sessions c ob) -
       {k. \<exists>sp \<in> snd ` set (sv_subscriptions c). sp_session sp = ob \<and> sp_sink sp = k}"
    "\<And>ob. se_next (H ob) = se_next (sv_sessions c ob)"
    "\<And>ob. marked (sv_viewer c) (H ob) \<Longrightarrow> marked (sv_viewer c) (sv_sessions c ob) \<and> ob \<notin> set (sv_touched c)"
    "\<And>x. x \<in> set xs \<Longrightarrow> x = ClearTimer \<or> (\<exists>b. x = SendBinary b)"
proof -
  let ?c1 = "emit_out ClearTimer (c\<lparr>sv_phase := DeadPhase\<rparr>)"
  obtain G ys where G: "fold drop_sink (map snd (sv_subscriptions ?c1)) ?c1 = ?c1\<lparr>sv_sessions := G, sv_out := sv_out ?c1 @ ys\<rparr>"
    "\<And>ob. sink_ids (G ob) = sink_ids (sv_sessions ?c1 ob) -
       {k. \<exists>sp \<in> set (map snd (sv_subscriptions ?c1)). sp_session sp = ob \<and> sp_sink sp = k}"
    "\<And>ob. se_next (G ob) = se_next (sv_sessions ?c1 ob)"
    "\<And>ob v. marked v (G ob) = marked v (sv_sessions ?c1 ob)"
    "\<And>x. x \<in> set ys \<Longrightarrow> \<exists>b. x = SendBinary b"
    by (rule fold_drop_sinks [of "map snd (sv_subscriptions ?c1)" ?c1]) blast
  let ?c3 = "?c1\<lparr>sv_sessions := G, sv_out := sv_out ?c1 @ ys, sv_subscriptions := [], sv_resumers := []\<rparr>"
  obtain H xs where H: "fold (release em en) (sv_touched ?c3) ?c3 = ?c3\<lparr>sv_sessions := H, sv_out := sv_out ?c3 @ xs\<rparr>"
    "\<And>ob. sink_ids (H ob) = sink_ids (sv_sessions ?c3 ob)" "\<And>ob. se_next (H ob) = se_next (sv_sessions ?c3 ob)"
    "\<And>ob. marked (sv_viewer ?c3) (H ob) \<Longrightarrow> marked (sv_viewer ?c3) (sv_sessions ?c3 ob) \<and> ob \<notin> set (sv_touched ?c3)"
    "\<And>x. x \<in> set xs \<Longrightarrow> \<exists>b. x = SendBinary b"
    by (rule fold_release [of em en "sv_touched ?c3" ?c3]) blast
  show thesis
  proof (rule that [where H = H and xs = "ClearTimer # ys @ xs"])
    show "teardownAll em en c = c\<lparr>sv_phase := DeadPhase, sv_subscriptions := [], sv_resumers := [],
        sv_touched := [], sv_sessions := H, sv_out := sv_out c @ ClearTimer # ys @ xs\<rparr>"
      using G(1) H(1) by (simp add: teardownAll_def Let_def emit_out_def)
    show "sink_ids (H ob) = sink_ids (sv_sessions c ob) -
       {k. \<exists>sp \<in> snd ` set (sv_subscriptions c). sp_session sp = ob \<and> sp_sink sp = k}" for ob
      using H(2) [of ob] G(2) [of ob] by (simp add: emit_out_def)
    show "se_next (H ob) = se_next (sv_sessions c ob)" for ob
      using H(3) [of ob] G(3) [of ob] by (simp add: emit_out_def)
    show "marked (sv_viewer c) (sv_sessions c ob) \<and> ob \<notin> set (sv_touched c)" if "marked (sv_viewer c) (H ob)" for ob
      using H(4) [of ob] G(4) [of "sv_viewer c" ob] that by (simp add: emit_out_def)
    show "\<And>x. x \<in> set (ClearTimer # ys @ xs) \<Longrightarrow> x = ClearTimer \<or> (\<exists>b. x = SendBinary b)"
      using G(5) H(5) by auto
  qed
qed

lemma teardownAll_inv:
  assumes "sinks_kept c" and "marks_kept c" and "tables_ok c" and "sv_closed c"
  shows "conn_inv (teardownAll em en c)"
proof -
  obtain H xs where H: "teardownAll em en c = c\<lparr>sv_phase := DeadPhase, sv_subscriptions := [], sv_resumers := [],
      sv_touched := [], sv_sessions := H, sv_out := sv_out c @ xs\<rparr>"
    "\<And>ob. sink_ids (H ob) = sink_ids (sv_sessions c ob) -
       {k. \<exists>sp \<in> snd ` set (sv_subscriptions c). sp_session sp = ob \<and> sp_sink sp = k}"
    "\<And>ob. se_next (H ob) = se_next (sv_sessions c ob)"
    "\<And>ob. marked (sv_viewer c) (H ob) \<Longrightarrow> marked (sv_viewer c) (sv_sessions c ob) \<and> ob \<notin> set (sv_touched c)"
    by (rule teardownAll_cases [of em en c]) blast
  have "ob < sv_objects c \<and> k < se_next (H ob) \<and> k \<notin> sink_ids (H ob)" if "(ob, k) \<in> set (sv_sinks c)" for ob k
  proof -
    have "ob < sv_objects c" "k < se_next (sv_sessions c ob)"
      "k \<in> sink_ids (sv_sessions c ob) \<longrightarrow> (\<exists>sp \<in> snd ` set (sv_subscriptions c). sp_session sp = ob \<and> sp_sink sp = k)"
      using assms(1) that unfolding sinks_kept_def by auto
    then show ?thesis using H(2,3) [of ob] by auto
  qed
  then have "sinks_kept (teardownAll em en c)" unfolding H(1) sinks_kept_def by fastforce
  moreover have "marks_kept (teardownAll em en c)"
    using assms(2) H(4) unfolding H(1) marks_kept_def by auto
  ultimately show ?thesis using assms(3,4) unfolding conn_inv_def
    by (simp add: H(1) tables_ok_def phase_ok_def)
qed

lemma close_served_inv:
  assumes c: "sinks_kept c" "marks_kept c" "tables_ok c" and dead: "sv_phase c = DeadPhase"
    and open_closed: "\<not> sv_channelOpen c \<longrightarrow> conn_inv c"
  shows "conn_inv (close_served em en c)"
proof (cases "sv_channelOpen c")
  case True
  have "conn_inv (teardownAll em en ((emit_out CloseChannel c)\<lparr>sv_channelOpen := False, sv_closed := True\<rparr>))"
    using c by (intro teardownAll_inv) (simp_all add: sinks_kept_def marks_kept_def tables_ok_def emit_out_def)
  then show ?thesis using True by (simp add: close_served_def Let_def emit_out_def)
next
  case False
  then show ?thesis using open_closed by (simp add: close_served_def Let_def emit_out_def conn_inv_def)
qed

lemma failClosed_inv: "conn_inv c \<Longrightarrow> conn_inv (failClosed em en reason c)"
  unfolding failClosed_def
  by (rule close_served_inv)
    (auto simp: conn_inv_def sinks_kept_def marks_kept_def tables_ok_def phase_ok_def emit_out_def report_error_def)

lemma teardown_inv:
  assumes inv: "conn_inv c"
  shows "conn_inv (teardown em en ref departed c)"
proof (cases "aget (sv_subscriptions c) ref")
  case None
  then show ?thesis using inv by (simp add: teardown_def)
next
  case (Some sp)
  let ?c0 = "c\<lparr>sv_subscriptions := adel ref (sv_subscriptions c), sv_resumers := adel ref (sv_resumers c)\<rparr>"
  let ?c1 = "drop_sink sp ?c0"
  have dist: "distinct (akeys (sv_subscriptions c))" using inv by (simp add: conn_inv_def tables_ok_def)
  have c1: "?c1 = ?c0\<lparr>sv_sessions := (sv_sessions c)(sp_session sp := unsubscribe (sp_sink sp) (sv_sessions c (sp_session sp))),
      sv_out := sv_out c @ session_binaries (sp_session sp) (unsubscribe (sp_sink sp)) ?c0\<rparr>"
    by (simp add: drop_sink_def on_session_eq)
  have "ob < sv_objects c \<and> k < se_next (sv_sessions ?c1 ob) \<and>
      (k \<in> sink_ids (sv_sessions ?c1 ob) \<longrightarrow>
        (\<exists>q \<in> snd ` set (adel ref (sv_subscriptions c)). sp_session q = ob \<and> sp_sink q = k))"
    if "(ob, k) \<in> set (sv_sinks c)" for ob k
  proof -
    have old: "ob < sv_objects c" "k < se_next (sv_sessions c ob)"
      "k \<in> sink_ids (sv_sessions c ob) \<longrightarrow> (\<exists>q \<in> snd ` set (sv_subscriptions c). sp_session q = ob \<and> sp_sink q = k)"
      using inv that unfolding conn_inv_def sinks_kept_def by auto
    have "\<exists>q \<in> snd ` set (adel ref (sv_subscriptions c)). sp_session q = ob \<and> sp_sink q = k"
      if k: "k \<in> sink_ids (sv_sessions c ob)" and other: "\<not> (ob = sp_session sp \<and> k = sp_sink sp)"
    proof -
      obtain r q where q: "(r, q) \<in> set (sv_subscriptions c)" "sp_session q = ob" "sp_sink q = k"
        using old(3) k by auto
      have "r \<noteq> ref" using q other Some map_of_is_SomeI [OF dist q(1)] by auto
      then show ?thesis using q by (force simp: adel_def)
    qed
    then show ?thesis using old unfolding c1 by (auto simp: unsubscribe_effect split: if_splits)
  qed
  then have sk: "sinks_kept ?c1" unfolding sinks_kept_def c1 by (simp del: fun_upd_apply) blast
  have "marks_kept c" using inv by (simp add: conn_inv_def)
  then have mk: "marks_kept ?c1" unfolding marks_kept_def c1 by (simp add: unsubscribe_effect)
  have tb: "tables_ok ?c1" using inv dist unfolding conn_inv_def tables_ok_def c1
    by (auto simp: distinct_akeys_adel set_adel)
  have ph: "phase_ok ?c1" using inv unfolding conn_inv_def phase_ok_def c1 by (auto simp: adel_def)
  have inv1: "conn_inv ?c1" using sk mk tb ph by (simp add: conn_inv_def)
  have "conn_inv (release em en (sp_session sp) ?c1)"
    unfolding release_def by (rule on_session_quiet [OF inv1]) (rule release_quiet)
  then show ?thesis using inv1 Some by (simp add: teardown_def Let_def)
qed

subsection \<open>Requests\<close>

definition serving :: "('j, 'o, 'm) served \<Rightarrow> bool" where
  "serving c \<longleftrightarrow> conn_inv c \<and> sv_phase c = Serving"

lemma on_session_fields [simp]:
  "sv_phase (on_session ob f c) = sv_phase c" "sv_subscriptions (on_session ob f c) = sv_subscriptions c"
  "sv_objects (on_session ob f c) = sv_objects c" "sv_registry (on_session ob f c) = sv_registry c"
  "sv_touched (on_session ob f c) = sv_touched c" "sv_viewer (on_session ob f c) = sv_viewer c"
  "sv_closed (on_session ob f c) = sv_closed c" "sv_pending (on_session ob f c) = sv_pending c"
  "sv_negotiated (on_session ob f c) = sv_negotiated c" "sv_count (on_session ob f c) = sv_count c"
  "sv_sinks (on_session ob f c) = sv_sinks c" "sv_buffered (on_session ob f c) = sv_buffered c"
  "sv_channelOpen (on_session ob f c) = sv_channelOpen c" "sv_hello (on_session ob f c) = sv_hello c"
  by (simp_all add: on_session_eq)

lemma serve_send_fields [simp]:
  "sv_phase (send_guarded e c) = sv_phase c" "sv_closed (send_guarded e c) = sv_closed c"
  "sv_subscriptions (send_guarded e c) = sv_subscriptions c" "sv_registry (send_guarded e c) = sv_registry c"
  "sv_objects (send_guarded e c) = sv_objects c" "sv_touched (send_guarded e c) = sv_touched c"
  "sv_sessions (send_guarded e c) = sv_sessions c" "sv_pending (send_guarded e c) = sv_pending c"
  "sv_negotiated (send_guarded e c) = sv_negotiated c" "sv_count (send_guarded e c) = sv_count c"
  "sv_buffered (send_guarded e c) = sv_buffered c" "sv_viewer (send_guarded e c) = sv_viewer c"
  "sv_sinks (send_guarded e c) = sv_sinks c" "sv_channelOpen (send_guarded e c) = sv_channelOpen c"
  "sv_hello (send_guarded e c) = sv_hello c"
  by (simp_all add: send_guarded_eq)

lemma serve_emit_fields [simp]:
  "sv_phase (emit_out e c) = sv_phase c" "sv_closed (emit_out e c) = sv_closed c"
  "sv_pending (emit_out e c) = sv_pending c" "sv_negotiated (emit_out e c) = sv_negotiated c"
  "sv_count (emit_out e c) = sv_count c" "sv_buffered (emit_out e c) = sv_buffered c"
  "sv_sessions (emit_out e c) = sv_sessions c" "sv_subscriptions (emit_out e c) = sv_subscriptions c"
  "sv_registry (emit_out e c) = sv_registry c" "sv_channelOpen (emit_out e c) = sv_channelOpen c"
  "sv_hello (emit_out e c) = sv_hello c"
  by (simp_all add: emit_out_def)

lemma serving_send [simp]:
  "serving (send_guarded e c) = serving c" "serving (send_response r c) = serving c"
  "serving (emit_out x c) = serving c" "serving (report_error m c) = serving c"
  by (simp_all add: serving_def) (simp_all add: send_response_def emit_out_def report_error_def)

lemma serving_misc [simp]:
  "serving (c\<lparr>sv_count := n\<rparr>) = serving c" "serving (c\<lparr>sv_pending := p\<rparr>) = serving c"
  "serving (c\<lparr>sv_buffered := b\<rparr>) = serving c" "serving (c\<lparr>sv_negotiated := g\<rparr>) = serving c"
  by (simp_all add: serving_def conn_inv_def sinks_kept_def marks_kept_def tables_ok_def phase_ok_def)

lemma set_set_add [simp]: "set (set_add x xs) = insert x (set xs)"
  by (auto simp: set_add_def)

lemma teardown_fields [simp]:
  "sv_phase (teardown em en ref d c) = sv_phase c" "sv_registry (teardown em en ref d c) = sv_registry c"
  "sv_objects (teardown em en ref d c) = sv_objects c" "sv_closed (teardown em en ref d c) = sv_closed c"
  "sv_pending (teardown em en ref d c) = sv_pending c" "sv_negotiated (teardown em en ref d c) = sv_negotiated c"
  "sv_count (teardown em en ref d c) = sv_count c" "sv_buffered (teardown em en ref d c) = sv_buffered c"
  "aget (sv_subscriptions (teardown em en ref d c)) ref = None"
  by (auto simp: teardown_def drop_sink_def release_def Let_def split: option.split)

text \<open>An operation that may mark the session, which is then put on the list.\<close>

lemma touch_session:
  assumes c: "serving c" and ob: "ob < sv_objects c"
    and f: "sink_ids (f (sv_sessions c ob)) = sink_ids (sv_sessions c ob)"
      "se_next (f (sv_sessions c ob)) = se_next (sv_sessions c ob)"
  shows "serving ((on_session ob f c)\<lparr>sv_touched := set_add ob (sv_touched c)\<rparr>)" (is "serving ?c'")
proof -
  let ?s' = "f (sv_sessions c ob)"
  have q: "quiet v (sv_sessions c ob) ?s' \<or> marked v ?s'" for v using f by (auto simp: quiet_def)
  let ?c1 = "c\<lparr>sv_touched := set_add ob (sv_touched c)\<rparr>"
  have c1: "conn_inv ?c1" using c ob
    by (auto simp: serving_def conn_inv_def sinks_kept_def marks_kept_def tables_ok_def phase_ok_def)
  have sk: "sinks_kept (?c1\<lparr>sv_sessions := (sv_sessions ?c1)(ob := ?s')\<rparr>)"
  proof -
    have "\<And>t. t \<in> set (sv_sinks c) \<Longrightarrow> sink_ids (((sv_sessions c)(ob := ?s')) (fst t)) = sink_ids (sv_sessions c (fst t)) \<and>
        se_next (((sv_sessions c)(ob := ?s')) (fst t)) = se_next (sv_sessions c (fst t))"
      using f by simp
    then show ?thesis using c1 unfolding conn_inv_def sinks_kept_def by (auto simp del: fun_upd_apply)
  qed
  have mk: "marks_kept (?c1\<lparr>sv_sessions := (sv_sessions ?c1)(ob := ?s')\<rparr>)"
    by (rule touched_marks) (use c1 in \<open>simp_all add: conn_inv_def\<close>)
  have eq: "?c' = ?c1\<lparr>sv_sessions := (sv_sessions ?c1)(ob := ?s'), sv_out := sv_out c @ session_binaries ob f c\<rparr>"
    by (simp add: on_session_eq)
  show ?thesis using sk mk c1 c unfolding eq serving_def conn_inv_def conn_inv_out by simp
qed

lemma aset_fresh_values: "aget m k = None \<Longrightarrow> snd ` set (aset k v m) = insert v (snd ` set m)"
  by (induction k v m rule: aset.induct) (auto split: if_splits)

lemma attach_serving:
  assumes c: "serving c" and ob: "ob < sv_objects c" and free: "aget (sv_subscriptions c) ref = None"
  shows "serving (fst (attach em en ref ob c))"
proof (cases "subscribe em True (en_writable en (sv_count c) ob) (sv_sessions c ob)")
  case None
  then show ?thesis using c by (simp add: attach_def Let_def)
next
  case (Some x)
  obtain s' k where x: "x = (s', k)" by (cases x)
  let ?s = "sv_sessions c ob" and ?k = "se_next (sv_sessions c ob)"
  note eff = subscribe_effect [OF Some [unfolded x]]
  let ?sp = "\<lparr>sp_streamId = se_streamId ?s, sp_session = ob, sp_sink = ?k\<rparr>"
  obtain R ys where eq: "fst (attach em en ref ob c) = c\<lparr>sv_sinks := sv_sinks c @ [(ob, ?k)], sv_resumers := R,
      sv_sessions := (sv_sessions c)(ob := s'), sv_out := ys, sv_subscriptions := aset ref ?sp (sv_subscriptions c)\<rparr>"
    using Some x by (simp add: attach_def Let_def on_session_eq)
  have subs: "snd ` set (aset ref ?sp (sv_subscriptions c)) = insert ?sp (snd ` set (sv_subscriptions c))"
    by (rule aset_fresh_values [OF free])
  have "o' < sv_objects c \<and> k' < se_next (((sv_sessions c)(ob := s')) o') \<and>
      (k' \<in> sink_ids (((sv_sessions c)(ob := s')) o') \<longrightarrow>
        (\<exists>sp \<in> insert ?sp (snd ` set (sv_subscriptions c)). sp_session sp = o' \<and> sp_sink sp = k'))"
    if "(o', k') \<in> set (sv_sinks c @ [(ob, ?k)])" for o' k'
  proof (cases "(o', k') = (ob, ?k)")
    case True
    then show ?thesis using ob eff(2) by simp
  next
    case False
    then have "(o', k') \<in> set (sv_sinks c)" using that by auto
    then have old: "o' < sv_objects c" "k' < se_next (sv_sessions c o')"
      "k' \<in> sink_ids (sv_sessions c o') \<longrightarrow> (\<exists>sp \<in> snd ` set (sv_subscriptions c). sp_session sp = o' \<and> sp_sink sp = k')"
      using c unfolding serving_def conn_inv_def sinks_kept_def by auto
    then show ?thesis using eff(1,2) False by (cases "o' = ob") auto
  qed
  then have sk: "sinks_kept (fst (attach em en ref ob c))"
    unfolding eq sinks_kept_def by (simp add: subs del: fun_upd_apply set_append) blast
  have mk: "marks_kept (fst (attach em en ref ob c))"
    using c eff(4) unfolding eq serving_def conn_inv_def marks_kept_def by simp
  have tb: "tables_ok (fst (attach em en ref ob c))"
    using c unfolding eq serving_def conn_inv_def tables_ok_def
    by (simp add: subs distinct_akeys_aset del: set_map)
  have "phase_ok (fst (attach em en ref ob c))" and "sv_phase (fst (attach em en ref ob c)) = Serving"
    using c unfolding eq serving_def conn_inv_def phase_ok_def by auto
  then show ?thesis using sk mk tb by (simp add: serving_def conn_inv_def)
qed

lemma teardown_serving: "serving c \<Longrightarrow> serving (teardown em en ref d c)"
  by (simp add: serving_def teardown_inv)

lemma registered_object: "serving c \<Longrightarrow> reg_get ref (sv_registry c) = Some ob \<Longrightarrow> ob < sv_objects c"
  unfolding serving_def conn_inv_def tables_ok_def reg_get_def by (force dest: map_of_SomeD)

lemma on_session_serving:
  "serving c \<Longrightarrow> quiet (sv_viewer c) (sv_sessions c ob) (f (sv_sessions c ob)) \<Longrightarrow> serving (on_session ob f c)"
  by (simp add: serving_def on_session_quiet)

lemma handleSubscribe_serving:
  assumes "serving c"
  shows "serving (fst (handleSubscribe em en rid ref vp caps c))"
proof -
  have "serving (fst (attach em en ref ob (send_response r
      ((case vp of None \<Rightarrow> teardown em en ref False c
        | Some z \<Rightarrow> on_session ob (observeViewer (sv_viewer (teardown em en ref False c)) (sz_cols z) (sz_rows z))
            (teardown em en ref False c))\<lparr>sv_touched := set_add ob (sv_touched t)\<rparr>))))"
    if reg: "reg_get ref (sv_registry c) = Some ob"
      and t: "t = (case vp of None \<Rightarrow> teardown em en ref False c
        | Some z \<Rightarrow> on_session ob (observeViewer (sv_viewer (teardown em en ref False c)) (sz_cols z) (sz_rows z))
            (teardown em en ref False c))" for ob r t
  proof -
    let ?c1 = "teardown em en ref False c"
    have c1: "serving ?c1" by (rule teardown_serving [OF assms])
    have ob: "ob < sv_objects c" by (rule registered_object [OF assms reg])
    have "serving (t\<lparr>sv_touched := set_add ob (sv_touched t)\<rparr>) \<and> sv_objects t = sv_objects c \<and>
        sv_subscriptions t = sv_subscriptions ?c1"
    proof (cases vp)
      case None
      have "on_session ob (\<lambda>s. s) ?c1 = ?c1" by (simp add: on_session_eq session_binaries_def)
      then show ?thesis using touch_session [OF c1, of ob "\<lambda>s. s"] ob None t by simp
    next
      case (Some z)
      then show ?thesis
        using touch_session [OF c1, of ob "observeViewer (sv_viewer ?c1) (sz_cols z) (sz_rows z)"] ob t
        by (simp add: observe_effect(1,2))
    qed
    then show ?thesis unfolding t [symmetric]
      by (intro attach_serving) (use ob in \<open>simp_all add: send_response_def\<close>)
  qed
  then show ?thesis
    using assms unfolding handleSubscribe_def Let_def
    by (simp split: option.split)
qed

end
