(* ===== verification/ServeSteps.thy ===== *)
theory ServeSteps
  imports ServeReach
begin

text \<open>
  Every event keeps the connection's invariant; then the two facts about what has been sent: nothing
  of the service before admission, and one answer for each request.
\<close>

lemma conn_inv_misc [simp]:
  "conn_inv (c\<lparr>sv_buffered := b\<rparr>) = conn_inv c" "conn_inv (c\<lparr>sv_pending := p\<rparr>) = conn_inv c"
  "conn_inv (c\<lparr>sv_out := x\<rparr>) = conn_inv c"
  unfolding conn_inv_def sinks_kept_def marks_kept_def tables_ok_def phase_ok_def by auto

subsection \<open>Requests keep the connection serving\<close>

lemma gated_serving:
  "serving c \<Longrightarrow> (\<And>c. serving c \<Longrightarrow> serving (fst (f c))) \<Longrightarrow> serving (fst (gated rid m f c))"
  by (simp add: gated_def capabilityAllows_def split: option.split)

lemma handleInput_serving: "serving c \<Longrightarrow> serving (handleInput cd rid ref b64 c)"
  by (simp add: handleInput_def on_session_serving quiet_def writeInput_effect split: option.split)

lemma handleResize_serving:
  assumes "serving c"
  shows "serving (handleResize em en rid ref z c)"
proof -
  let ?f = "\<lambda>ob. resizeViewer em (en_writable en (sv_count c) ob) (sv_viewer c) (sz_cols z) (sz_rows z)"
  have "serving ((on_session ob (?f ob) c)\<lparr>sv_touched := set_add ob (sv_touched c)\<rparr>)"
    if "reg_get ref (sv_registry c) = Some ob" for ob
    by (rule touch_session [OF assms registered_object [OF assms that]]) (simp_all add: resizeViewer_effect(1,2))
  then show ?thesis using assms by (simp add: handleResize_def Let_def split: option.split)
qed

lemma handleUnsubscribe_serving: "serving c \<Longrightarrow> serving (handleUnsubscribe em en rid ref c)"
  by (simp add: handleUnsubscribe_def teardown_serving)

lemma handleReserve_serving: "serving c \<Longrightarrow> serving (fst (handleReserve en rid spec c))"
  by (simp add: handleReserve_def Let_def split: sum.split prod.split option.split)

lemma await_hook_serving: "serving c \<Longrightarrow> serving (await_hook x rid k c)"
  by (simp add: await_hook_def)

lemmas handlers_serving = handleSubscribe_serving handleInput_serving handleResize_serving handleUnsubscribe_serving
  handleReserve_serving await_hook_serving

lemma serve_method_serving:
  assumes "serving c"
  shows "serving (fst (serve_method em cd opts en rid name m p c))"
  using assms unfolding serve_method_def Let_def
  by (auto simp: handlers_serving intro!: gated_serving split: rpc_params.split sum.split)

lemma dispatch_serving: "serving c \<Longrightarrow> serving (fst (dispatch_request em cd opts en req c))"
  by (simp add: dispatch_request_def serve_method_serving split: prod.split option.split)

lemma handleRpcPayload_serving:
  assumes "serving c"
  shows "serving (handleRpcPayload em cd opts en p c)"
proof (cases "wc_request cd p")
  case None
  then show ?thesis using assms by (simp add: handleRpcPayload_def)
next
  case (Some req)
  have "serving (fst (dispatch_request em cd opts en req c))" by (rule dispatch_serving [OF assms])
  then show ?thesis using Some
    by (cases "dispatch_request em cd opts en req c") (simp add: handleRpcPayload_def Let_def split: option.split)
qed

lemma fold_payloads_serving: "serving c \<Longrightarrow> serving (fold (handleRpcPayload em cd opts en) ps c)"
  by (induction ps arbitrary: c) (auto simp: handleRpcPayload_serving)

subsection \<open>The handshake\<close>

lemma enter_serving:
  "conn_inv c \<Longrightarrow> sv_phase c \<noteq> DeadPhase \<Longrightarrow>
   serving (c\<lparr>sv_negotiated := n, sv_phase := Serving, sv_buffered := b, sv_hello := h\<rparr>)"
  by (auto simp: serving_def conn_inv_def sinks_kept_def marks_kept_def tables_ok_def phase_ok_def)

lemma enter_serving':
  "conn_inv c \<Longrightarrow> sv_phase c \<noteq> DeadPhase \<Longrightarrow> serving (c\<lparr>sv_negotiated := n, sv_phase := Serving\<rparr>)"
  by (auto simp: serving_def conn_inv_def sinks_kept_def marks_kept_def tables_ok_def phase_ok_def)

lemma admit_serving: "conn_inv c \<Longrightarrow> sv_phase c \<noteq> DeadPhase \<Longrightarrow> serving (admit em cd opts en h c)"
  unfolding admit_def by (intro fold_payloads_serving enter_serving)

lemma serving_inv: "serving c \<Longrightarrow> conn_inv c"
  by (simp add: serving_def)

lemma enter_verifying:
  "conn_inv c \<Longrightarrow> sv_phase c = AwaitingHello \<Longrightarrow> conn_inv (c\<lparr>sv_phase := VerifyingDevice, sv_hello := h\<rparr>)"
  by (auto simp: conn_inv_def sinks_kept_def marks_kept_def tables_ok_def phase_ok_def)

lemma runDeviceGate_inv:
  assumes "conn_inv c" and "sv_phase c = AwaitingHello"
  shows "conn_inv (runDeviceGate em cd opts en h c)"
proof -
  have "conn_inv (admit em cd opts en h c)"
    by (rule serving_inv, rule admit_serving) (use assms in simp_all)
  moreover have "conn_inv (c\<lparr>sv_phase := VerifyingDevice, sv_hello := Some h\<rparr>)"
    by (rule enter_verifying [OF assms])
  ultimately show ?thesis
    using assms by (simp add: runDeviceGate_def failClosed_inv split: verdict.split)
qed

lemma handleHello_inv:
  assumes "conn_inv c" and "sv_phase c = AwaitingHello"
  shows "conn_inv (handleHello em cd opts en p c)"
proof -
  let ?c1 = "\<lambda>h. send_guarded (SendHelloAck PROTOCOL_VERSION (servedCapabilities opts) (channelBinding opts))
      (emit_out ClearTimer c)"
  have e: "conn_inv (?c1 h)" "sv_phase (?c1 h) = AwaitingHello" for h
    using assms by simp_all
  have f: "conn_inv (failClosed em en r (emit_out ClearTimer c))" for r
    using assms by (simp add: failClosed_inv)
  have "conn_inv (?c1 h\<lparr>sv_negotiated := n, sv_phase := Serving\<rparr>)" for h n
    by (rule serving_inv, rule enter_serving') (use e in simp_all)
  then show ?thesis
    using e f by (simp add: handleHello_def Let_def failClosed_inv runDeviceGate_inv split: option.split)
qed

lemma verdict_settled_inv: "conn_inv c \<Longrightarrow> conn_inv (verdict_settled em cd opts en v c)"
  using serving_inv [OF admit_serving [of c em cd opts en]]
  by (simp add: verdict_settled_def failClosed_inv split: option.split bool.split)

subsection \<open>Every event\<close>

lemma onControl_inv: "conn_inv c \<Longrightarrow> conn_inv (onControl em cd opts en p c)"
proof (cases "sv_phase c")
  case Serving
  assume "conn_inv c"
  then have "serving (handleRpcPayload em cd opts en p c)"
    using Serving by (intro handleRpcPayload_serving) (simp add: serving_def)
  then show ?thesis using Serving by (simp add: onControl_def serving_inv)
next
  case VerifyingDevice
  assume inv: "conn_inv c"
  then show ?thesis using VerifyingDevice by (simp add: onControl_def failClosed_inv)
qed (simp_all add: onControl_def handleHello_inv)

lemma dead_parts:
  "conn_inv c \<Longrightarrow> sinks_kept (c\<lparr>sv_phase := DeadPhase\<rparr>) \<and> marks_kept (c\<lparr>sv_phase := DeadPhase\<rparr>) \<and>
   tables_ok (c\<lparr>sv_phase := DeadPhase\<rparr>) \<and> (\<not> sv_channelOpen c \<longrightarrow> conn_inv (c\<lparr>sv_phase := DeadPhase\<rparr>))"
  by (auto simp: conn_inv_def sinks_kept_def marks_kept_def tables_ok_def phase_ok_def)

lemma negotiation_timeout_inv: "conn_inv c \<Longrightarrow> conn_inv (negotiation_timeout em en c)"
  unfolding negotiation_timeout_def
  using dead_parts [of c] close_served_inv [of "report_error r (c\<lparr>sv_phase := DeadPhase\<rparr>)" em en for r]
  by (simp add: report_error_def emit_out_def)

lemma serve_close_inv: "conn_inv c \<Longrightarrow> conn_inv (serve_close em en c)"
  unfolding serve_close_def
  by (rule teardownAll_inv) (simp_all add: conn_inv_def sinks_kept_def marks_kept_def tables_ok_def)

lemma channel_closed_inv: "conn_inv c \<Longrightarrow> conn_inv (channel_closed em en c)"
  using teardownAll_inv [of "c\<lparr>sv_channelOpen := False, sv_closed := True\<rparr>" em en]
  by (simp add: channel_closed_def)
    (simp add: conn_inv_def sinks_kept_def marks_kept_def tables_ok_def)

lemma fold_resume_inv:
  "conn_inv c \<Longrightarrow> conn_inv (fold (\<lambda>(ob, k). on_session ob (resumeSubscriber em (w ob) k)) rs c)"
proof (induction rs arbitrary: c)
  case (Cons r rs)
  have "conn_inv (on_session ob (resumeSubscriber em (w ob) k) c)" for ob k
    by (rule on_session_quiet [OF Cons.prems]) (simp add: quiet_def resume_effect)
  then show ?case using Cons.IH by (cases r) simp
qed simp

lemma hook_settled_inv: "conn_inv c \<Longrightarrow> conn_inv (hook_settled i res c)"
  by (auto simp: hook_settled_def claim_failed_def sendLaunchFailure_def Let_def
      split: prod.split pending_call.split sum.split option.split)

lemma new_session_event_inv:
  assumes inv: "conn_inv c" and s: "se_viewports s = []" "se_authority s = None"
    and reg: "reg_register ref (sv_objects c) (sv_registry c) = Some g"
  shows "conn_inv (c\<lparr>sv_registry := g, sv_sessions := (sv_sessions c)(sv_objects c := s), sv_objects := Suc (sv_objects c)\<rparr>)"
proof -
  have g: "g = aset ref (sv_objects c) (sv_registry c)" using reg by (simp add: reg_register_def split: if_splits)
  have "snd ` set g \<subseteq> insert (sv_objects c) (snd ` set (sv_registry c))"
    unfolding g by (force dest!: in_set_aset)
  moreover have "\<forall>ob \<in> snd ` set (sv_registry c). ob < sv_objects c"
    using inv unfolding conn_inv_def tables_ok_def by blast
  ultimately have "\<forall>ob \<in> snd ` set g. ob < Suc (sv_objects c)" by fastforce
  note objs = this
  let ?c' = "c\<lparr>sv_registry := g, sv_sessions := (sv_sessions c)(sv_objects c := s), sv_objects := Suc (sv_objects c)\<rparr>"
  have "sinks_kept ?c'"
  proof -
    have "sv_sessions ?c' (fst t) = sv_sessions c (fst t) \<and> fst t < sv_objects ?c'" if "t \<in> set (sv_sinks c)" for t
      using inv that unfolding conn_inv_def sinks_kept_def by (cases t) auto
    then show ?thesis using inv unfolding conn_inv_def sinks_kept_def by (auto simp del: fun_upd_apply)
  qed
  moreover have "marks_kept ?c'"
    using inv s unfolding conn_inv_def marks_kept_def by (auto simp: less_Suc_eq marked_def)
  moreover have "tables_ok ?c'"
    using inv objs unfolding conn_inv_def tables_ok_def by (auto simp: less_Suc_eq)
  moreover have "phase_ok ?c'" using inv unfolding conn_inv_def phase_ok_def by auto
  ultimately show ?thesis by (simp add: conn_inv_def)
qed

lemma serve_step_inv:
  assumes inv: "conn_inv c"
  shows "conn_inv (serve_step em cd opts ev c)"
proof (cases ev)
  case (ElsewhereEv ob sev)
  then show ?thesis using inv by (auto intro!: on_session_quiet session_step_quiet)
next
  case (NewSessionEv ref s)
  then show ?thesis using inv new_session_event_inv [OF inv] by (auto split: option.split)
next
  case (RemoveSessionEv ref)
  have "set (fst (reg_remove ref (sv_registry c))) \<subseteq> set (sv_registry c)"
    by (auto simp: reg_remove_def adel_def split: option.split)
  then show ?thesis using inv RemoveSessionEv
    by (auto simp: conn_inv_def sinks_kept_def marks_kept_def tables_ok_def phase_ok_def)
qed (auto simp: inv onControl_inv channel_closed_inv channel_drained_def fold_resume_inv negotiation_timeout_inv
    verdict_settled_inv hook_settled_inv serve_close_inv)

interpretation connection: machine "serve_step em cd opts" "\<lambda>_. True" conn_inv for em cd opts
  by unfold_locales (rule serve_step_inv)

lemma serveConnection_inv: "conn_inv (serveConnection viewer heap)"
  by (simp add: serveConnection_def conn_inv_def sinks_kept_def marks_kept_def tables_ok_def phase_ok_def)

lemma serve_run_inv: "conn_inv (serve_run em cd opts evs (serveConnection viewer heap))"
  by (rule connection.run_inv [OF serveConnection_inv]) (simp add: list_all_iff)

subsection \<open>A dead connection\<close>

text \<open>What a connection does on the outside that a peer or a hook could see.\<close>

fun is_service :: "('j, 'o) serve_out \<Rightarrow> bool" where
  "is_service (SendResponse r) = True"
| "is_service (SendBinary b) = True"
| "is_service (CallReserve spec) = True"
| "is_service (CallClaim ref) = True"
| "is_service CallLaunchOptions = True"
| "is_service (CallLaunchStart lp) = True"
| "is_service _ = False"

definition housekeeping :: "('j, 'o) serve_out \<Rightarrow> bool" where
  "housekeeping x \<longleftrightarrow> x = ClearTimer \<or> x = CloseChannel \<or> (\<exists>m. x = ReportError m)"

lemma housekeeping_simps [simp]:
  "housekeeping ClearTimer" "housekeeping CloseChannel" "housekeeping (ReportError m)"
  "\<not> housekeeping (SendResponse r)" "\<not> housekeeping (SendBinary b)" "\<not> housekeeping (SendHelloAck p cs k)"
  by (simp_all add: housekeeping_def)

lemma housekeeping_no_service: "housekeeping x \<Longrightarrow> \<not> is_service x"
  by (auto simp: housekeeping_def)

definition dead :: "('j, 'o, 'm) served \<Rightarrow> bool" where
  "dead c \<longleftrightarrow> conn_inv c \<and> sv_phase c = DeadPhase"

lemma dead_facts:
  "dead c \<Longrightarrow> sv_closed c \<and> sv_subscriptions c = [] \<and> sv_touched c = [] \<and> sv_resumers c = []"
  by (auto simp: dead_def conn_inv_def phase_ok_def)

text \<open>Tearing down a connection that holds nothing.\<close>

lemma teardownAll_idle:
  "sv_subscriptions c = [] \<Longrightarrow> sv_touched c = [] \<Longrightarrow> sv_resumers c = [] \<Longrightarrow>
   teardownAll em en c = c\<lparr>sv_phase := DeadPhase, sv_out := sv_out c @ [ClearTimer]\<rparr>"
  by (simp add: teardownAll_def emit_out_def Let_def)

lemma close_served_idle:
  assumes "sv_subscriptions c = []" "sv_touched c = []" "sv_resumers c = []" "sv_phase c = DeadPhase"
  shows "close_served em en c =
    (if sv_channelOpen c
     then c\<lparr>sv_channelOpen := False, sv_closed := True, sv_out := sv_out c @ [CloseChannel, ClearTimer]\<rparr>
     else c\<lparr>sv_out := sv_out c @ [CloseChannel]\<rparr>)"
  using assms by (simp add: close_served_def emit_out_def teardownAll_idle Let_def)

lemma failClosed_idle:
  assumes "sv_subscriptions c = []" "sv_touched c = []" "sv_resumers c = []"
  shows "failClosed em en m c =
    (if sv_channelOpen c
     then c\<lparr>sv_phase := DeadPhase, sv_channelOpen := False, sv_closed := True,
            sv_out := sv_out c @ [ClearTimer, ReportError m, CloseChannel, ClearTimer]\<rparr>
     else c\<lparr>sv_phase := DeadPhase, sv_out := sv_out c @ [ClearTimer, ReportError m, CloseChannel]\<rparr>)"
  using assms by (simp add: failClosed_def emit_out_def report_error_def close_served_idle)

text \<open>What a settling hook sends: a report where the failure is not one of the coded ones, then one
  answer.\<close>

fun settled_answer :: "string \<Rightarrow> pending_call \<Rightarrow> thrown + 'o rpc_result \<Rightarrow> ('j, 'o) serve_out list \<times> ('o rpc_result, 'j error_data) response" where
  "settled_answer rid ClaimCall (Inr r) = ([], success rid AckResult False)"
| "settled_answer rid ClaimCall (Inl e) =
     (case custodyFailure rid e of Some f \<Rightarrow> ([], f) | None \<Rightarrow> ([ReportError (thrown_message e)], internal_error rid))"
| "settled_answer rid LaunchCall (Inr r) = ([], success rid r False)"
| "settled_answer rid LaunchCall (Inl e) =
     (if e = LaunchRefused then ([], failure rid InvalidArgument LAUNCH_REFUSED_MESSAGE None)
      else ([ReportError (thrown_message e)], internal_error rid))"

lemma hook_settled_eq:
  assumes "i < length (sv_pending c)" and "sv_pending c ! i = (rid, k)"
  shows "hook_settled i res c = c\<lparr>sv_pending := take i (sv_pending c) @ drop (Suc i) (sv_pending c),
    sv_out := sv_out c @ fst (settled_answer rid k res) @
      (if sv_closed c then [] else [SendResponse (snd (settled_answer rid k res))])\<rparr>"
  using assms
  by (cases k; cases res)
    (simp_all add: hook_settled_def claim_failed_def sendLaunchFailure_def send_response_def send_guarded_eq
      report_error_def emit_out_def split: option.split)

lemma settled_answer_id: "response_id (snd (settled_answer rid k res)) = rid"
  by (cases "(rid, k, res)" rule: settled_answer.cases)
    (auto simp: success_def failure_def internal_error_def split: option.split elim!: custodyFailure.elims)

lemma settled_answer_reports: "list_all housekeeping (fst (settled_answer rid k res))"
  by (cases "(rid, k, res)" rule: settled_answer.cases) (auto split: option.split)

lemma hook_settled_idle: "\<not> i < length (sv_pending c) \<Longrightarrow> hook_settled i res c = c"
  by (simp add: hook_settled_def)

lemma hook_settled_closed:
  assumes "sv_closed c"
  shows "sv_phase (hook_settled i res c) = sv_phase c \<and>
    (\<exists>xs. sv_out (hook_settled i res c) = sv_out c @ xs \<and> list_all housekeeping xs)"
proof (cases "i < length (sv_pending c)")
  case True
  obtain rid k where at: "sv_pending c ! i = (rid, k)" by (cases "sv_pending c ! i")
  show ?thesis unfolding hook_settled_eq [OF True at] using assms by (simp add: settled_answer_reports)
qed (simp add: hook_settled_idle)

lemma dead_step:
  assumes "dead c"
  shows "dead (serve_step em cd opts ev c) \<and>
    (\<exists>xs. sv_out (serve_step em cd opts ev c) = sv_out c @ xs \<and> list_all housekeeping xs)"
proof -
  have inv: "conn_inv (serve_step em cd opts ev c)" using assms by (intro serve_step_inv) (simp add: dead_def)
  have d: "sv_phase c = DeadPhase" "sv_closed c" "sv_subscriptions c = []" "sv_touched c = []" "sv_resumers c = []"
    using assms dead_facts by (auto simp: dead_def)
  have "sv_phase (serve_step em cd opts ev c) = DeadPhase \<and>
    (\<exists>xs. sv_out (serve_step em cd opts ev c) = sv_out c @ xs \<and> list_all housekeeping xs)"
  proof (cases ev)
    case (HookSettledEv i res)
    then show ?thesis using hook_settled_closed [of c i res] d by simp
  next
    case (ElsewhereEv ob sev)
    then show ?thesis using d by (simp add: on_session_eq session_binaries_def)
  next
    case (NewSessionEv ref s)
    then show ?thesis using d by (simp split: option.split)
  qed (use d in \<open>simp_all add: onControl_def channel_closed_def teardownAll_idle channel_drained_def
      negotiation_timeout_def verdict_settled_def serve_close_def\<close>)
  then show ?thesis using inv by (simp add: dead_def)
qed

interpretation dead_connection: logging_machine "serve_step em cd opts" "\<lambda>_. True" dead sv_out housekeeping
  for em cd opts
  by unfold_locales (use dead_step in blast)+

lemma dead_run:
  assumes "dead c"
  shows "dead (serve_run em cd opts evs c) \<and>
    (\<exists>xs. sv_out (serve_run em cd opts evs c) = sv_out c @ xs \<and> list_all housekeeping xs)"
  using dead_connection.run_inv [OF assms] dead_connection.run_log [OF assms] by (simp add: list_all_iff)

end
