(* ===== verification/ServeHistory.thy ===== *)
theory ServeHistory
  imports ServeSteps
begin

text \<open>
  Two facts about a served connection's past and its answers: whatever it did for its peer it did
  behind an admission, which is an event of its history; and each well-formed request moves one id
  into the answers or among the awaited hooks.
\<close>

subsection \<open>Admission\<close>

fun control_frame :: "('o, 'm) serve_event \<Rightarrow> bool" where
  "control_frame (ControlFrameEv p en) = True"
| "control_frame _ = False"

text \<open>The first control frame was a compatible hello, and where there is a device gate it let it pass, at
  once or by a later verdict.\<close>

definition greeted ::
  "'j codec \<Rightarrow> ('o, 'm) serve_event list \<Rightarrow> hello \<Rightarrow> env \<Rightarrow> ('o, 'm) serve_event list \<Rightarrow> bool" where
  "greeted cd evs h en post \<longleftrightarrow>
     (\<exists>pre p. evs = pre @ ControlFrameEv p en # post \<and> \<not> list_ex control_frame pre \<and>
        parse_hello cd p = Some h \<and> evaluateCompat (he_protocol h) = CompatOk)"

definition admitted :: "'j codec \<Rightarrow> serve_options \<Rightarrow> ('o, 'm) serve_event list \<Rightarrow> hello \<Rightarrow> bool" where
  "admitted cd opts evs h \<longleftrightarrow>
     (\<exists>en post. greeted cd evs h en post \<and>
        (so_verifyDevice opts \<longrightarrow> so_sessionId opts \<noteq> None \<and>
           (en_verdict en h = Admit \<or>
            (en_verdict en h = Pending \<and> (\<exists>en'. VerdictEv (Some True) en' \<in> set post)))))"

definition served_history ::
  "'j codec \<Rightarrow> serve_options \<Rightarrow> ('o, 'm) serve_event list \<Rightarrow> ('j, 'o, 'm) served \<Rightarrow> bool" where
  "served_history cd opts evs c \<longleftrightarrow>
     conn_inv c \<and>
     (sv_phase c = AwaitingHello \<or> sv_phase c = VerifyingDevice \<longrightarrow>
        sv_sinks c = [] \<and> sv_pending c = [] \<and> (\<forall>x \<in> set (sv_out c). \<not> is_service x)) \<and>
     (sv_phase c = AwaitingHello \<longrightarrow> \<not> list_ex control_frame evs) \<and>
     (sv_phase c = VerifyingDevice \<longrightarrow>
        (\<exists>h en post. sv_hello c = Some h \<and> so_verifyDevice opts \<and> so_sessionId opts \<noteq> None \<and>
           greeted cd evs h en post \<and> en_verdict en h = Pending)) \<and>
     (sv_phase c = Serving \<longrightarrow>
        (\<exists>h. admitted cd opts evs h \<and> sv_negotiated c = negotiate (servedCapabilities opts) (he_capabilities h))) \<and>
     ((\<exists>x \<in> set (sv_out c). is_service x) \<longrightarrow> (\<exists>h. admitted cd opts evs h))"

lemma greeted_snoc: "greeted cd evs h en post \<Longrightarrow> greeted cd (evs @ [e]) h en (post @ [e])"
  unfolding greeted_def by auto

lemma admitted_snoc: "admitted cd opts evs h \<Longrightarrow> admitted cd opts (evs @ [e]) h"
  unfolding admitted_def using greeted_snoc by (metis UnI1 set_append)

lemma verdict_admits:
  "greeted cd evs h en post \<Longrightarrow> en_verdict en h = Pending \<Longrightarrow> so_sessionId opts \<noteq> None \<Longrightarrow>
   admitted cd opts (evs @ [VerdictEv (Some True) en']) h"
  unfolding admitted_def using greeted_snoc [of cd evs h en post "VerdictEv (Some True) en'"] by fastforce

lemma hello_greets:
  "\<not> list_ex control_frame evs \<Longrightarrow> parse_hello cd p = Some h \<Longrightarrow> evaluateCompat (he_protocol h) = CompatOk \<Longrightarrow>
   greeted cd (evs @ [ControlFrameEv p en]) h en []"
  unfolding greeted_def by auto

lemma hello_admits:
  assumes "\<not> list_ex control_frame evs" and "parse_hello cd p = Some h" and "evaluateCompat (he_protocol h) = CompatOk"
    and "so_verifyDevice opts \<longrightarrow> so_sessionId opts \<noteq> None \<and> en_verdict en h = Admit"
  shows "admitted cd opts (evs @ [ControlFrameEv p en]) h"
  unfolding admitted_def using hello_greets [OF assms(1-3)] assms(4) by blast

text \<open>Requests leave the negotiated set and the frames held back alone.\<close>

definition same_gate :: "('j, 'o, 'm) served \<Rightarrow> ('j, 'o, 'm) served \<Rightarrow> bool" where
  "same_gate c d \<longleftrightarrow> sv_negotiated d = sv_negotiated c \<and> sv_buffered d = sv_buffered c"

lemma gated_keeps: "(\<And>c. same_gate c (fst (f c))) \<Longrightarrow> same_gate c (fst (gated rid m f c))"
  by (simp add: gated_def capabilityAllows_def send_response_def same_gate_def split: option.split)

lemma handleSubscribe_gate: "same_gate c (fst (handleSubscribe em en rid ref vp caps c))"
  by (simp add: same_gate_def handleSubscribe_def attach_def send_response_def Let_def split: option.split)

lemma handler_gate:
  "same_gate c (handleInput cd rid ref b64 c)" "same_gate c (handleResize em en rid ref z c)"
  "same_gate c (handleUnsubscribe em en rid ref c)" "same_gate c (fst (handleReserve en rid spec c))"
  "same_gate c (await_hook call rid k c)" "same_gate c (send_response r c)" "same_gate c c"
  by (simp_all add: same_gate_def handleInput_def handleResize_def handleUnsubscribe_def handleReserve_def
      await_hook_def send_response_def Let_def split: sum.split option.split)

lemma serve_method_gate: "same_gate c (fst (serve_method em cd opts en rid name m p c))"
  unfolding serve_method_def Let_def
  by (auto simp: handleSubscribe_gate handler_gate intro!: gated_keeps split: rpc_params.split sum.split)

lemma handleRpcPayload_gate: "same_gate c (handleRpcPayload em cd opts en p c)"
proof -
  have "same_gate c (fst (dispatch_request em cd opts en req c))" for req
    by (simp add: dispatch_request_def serve_method_gate handler_gate split: prod.split option.split)
  then show ?thesis
    unfolding handleRpcPayload_def Let_def same_gate_def
    by (auto simp: report_error_def send_response_def split: option.split prod.split)
      (metis fst_conv)+
qed

lemma fold_payloads_gate: "same_gate c (fold (handleRpcPayload em cd opts en) ps c)"
proof (induction ps arbitrary: c)
  case (Cons p ps)
  then show ?case using handleRpcPayload_gate [of c em cd opts en p] by (simp add: same_gate_def)
qed (simp add: same_gate_def)

lemma admit_negotiated:
  "sv_negotiated (admit em cd opts en h c) = negotiate (servedCapabilities opts) (he_capabilities h)"
  by (simp add: admit_def fold_payloads_gate [unfolded same_gate_def])

subsection \<open>Each event keeps the history\<close>

lemma serving_history:
  assumes "serving c'" and "admitted cd opts evs h"
    and "sv_negotiated c' = negotiate (servedCapabilities opts) (he_capabilities h)"
  shows "served_history cd opts evs c'"
  using assms by (auto simp: served_history_def serving_def)

lemma dead_history:
  assumes "dead c'" and "(\<exists>x \<in> set (sv_out c'). is_service x) \<longrightarrow> (\<exists>h. admitted cd opts evs h)"
  shows "served_history cd opts evs c'"
  using assms by (auto simp: served_history_def dead_def)

text \<open>What closes the connection before it serves does nothing for the peer.\<close>

lemma early_close:
  assumes hist: "served_history cd opts evs c" and early: "sv_phase c = AwaitingHello \<or> sv_phase c = VerifyingDevice"
    and c': "conn_inv c'" "sv_phase c' = DeadPhase" "sv_out c' = sv_out c @ xs" "\<forall>x \<in> set xs. \<not> is_service x"
  shows "served_history cd opts evs' c'"
proof (rule dead_history)
  show "dead c'" using c' by (simp add: dead_def)
  show "(\<exists>x \<in> set (sv_out c'). is_service x) \<longrightarrow> (\<exists>h. admitted cd opts evs' h)"
    using hist early c'(3,4) by (auto simp: served_history_def)
qed

lemma early_facts:
  "conn_inv c \<Longrightarrow> sv_phase c \<noteq> Serving \<Longrightarrow> sv_subscriptions c = [] \<and> sv_touched c = [] \<and> sv_resumers c = []"
  by (auto simp: conn_inv_def phase_ok_def)

lemma early_open: "conn_inv c \<Longrightarrow> sv_phase c \<noteq> DeadPhase \<Longrightarrow> sv_channelOpen c \<and> \<not> sv_closed c"
  by (auto simp: conn_inv_def phase_ok_def)

lemma failClosed_history:
  assumes "served_history cd opts evs c" and "sv_phase c = AwaitingHello \<or> sv_phase c = VerifyingDevice"
    and c1: "conn_inv c1" "sv_phase c1 = sv_phase c" "sv_out c1 = sv_out c @ ys" "\<forall>x \<in> set ys. \<not> is_service x"
  shows "served_history cd opts evs' (failClosed em en m c1)"
proof -
  have "sv_phase c1 \<noteq> Serving" "sv_phase c1 \<noteq> DeadPhase" using assms(2) c1(2) by auto
  then have idle: "sv_subscriptions c1 = []" "sv_touched c1 = []" "sv_resumers c1 = []" "sv_channelOpen c1"
    using early_facts [OF c1(1)] early_open [OF c1(1)] by simp_all
  show ?thesis
  proof (rule early_close [OF assms(1,2) failClosed_inv [OF c1(1)]])
    show "sv_out (failClosed em en m c1) = sv_out c @ ys @ [ClearTimer, ReportError m, CloseChannel, ClearTimer]"
      using c1(3) by (simp add: failClosed_idle idle)
  qed (use c1(4) in \<open>simp_all add: failClosed_idle idle ball_Un\<close>)
qed

lemma onControl_history:
  assumes hist: "served_history cd opts evs c"
  shows "served_history cd opts (evs @ [ControlFrameEv p en]) (onControl em cd opts en p c)" (is "served_history cd opts ?evs _")
proof (cases "sv_phase c")
  case DeadPhase
  then have "dead c" using hist by (simp add: served_history_def dead_def)
  moreover have "(\<exists>x \<in> set (sv_out c). is_service x) \<longrightarrow> (\<exists>h. admitted cd opts ?evs h)"
    using hist admitted_snoc unfolding served_history_def by blast
  ultimately show ?thesis using DeadPhase by (simp add: onControl_def dead_history)
next
  case Serving
  then obtain h where h: "admitted cd opts evs h" "sv_negotiated c = negotiate (servedCapabilities opts) (he_capabilities h)"
    using hist by (auto simp: served_history_def)
  have "serving (handleRpcPayload em cd opts en p c)"
    using hist Serving by (intro handleRpcPayload_serving) (simp add: serving_def served_history_def)
  then show ?thesis using Serving h
    using handleRpcPayload_gate [of c em cd opts en p]
    by (auto simp: onControl_def same_gate_def intro!: serving_history admitted_snoc)
next
  case VerifyingDevice
  show ?thesis
  proof (cases "MAX_FRAMES_WHILE_VERIFYING \<le> length (sv_buffered c)")
    case True
    have "served_history cd opts ?evs (failClosed em en NOT_AUTHORIZED c)"
      by (rule failClosed_history [OF hist, where ys = "[]"]) (use VerifyingDevice hist in \<open>simp_all add: served_history_def\<close>)
    then show ?thesis using True VerifyingDevice by (simp add: onControl_def)
  next
    case False
    obtain h en0 post where g: "greeted cd evs h en0 post" "sv_hello c = Some h" "so_verifyDevice opts"
        "so_sessionId opts \<noteq> None" "en_verdict en0 h = Pending"
      using hist VerifyingDevice by (auto simp: served_history_def)
    then show ?thesis using False VerifyingDevice hist greeted_snoc [OF g(1)]
      by (auto simp: onControl_def served_history_def)
  qed
next
  case AwaitingHello
  have inv: "conn_inv c" and nf: "\<not> list_ex control_frame evs" using hist AwaitingHello by (simp_all add: served_history_def)
  have open_: "sv_channelOpen c" "\<not> sv_closed c" using early_open [OF inv] AwaitingHello by auto
  let ?c0 = "emit_out ClearTimer c"
  let ?c1 = "send_guarded (SendHelloAck PROTOCOL_VERSION (servedCapabilities opts) (channelBinding opts)) ?c0"
  let ?ys = "[ClearTimer, SendHelloAck PROTOCOL_VERSION (servedCapabilities opts) (channelBinding opts)]"
  have c1: "conn_inv ?c1" "sv_phase ?c1 = AwaitingHello" "sv_out ?c1 = sv_out c @ ?ys"
    using inv AwaitingHello open_ by (simp_all add: send_guarded_eq emit_out_def)
  have fail1: "served_history cd opts ?evs (failClosed em en m ?c1)" for m
    by (rule failClosed_history [OF hist, where ys = ?ys]) (use c1 AwaitingHello in simp_all)
  have fail0: "served_history cd opts ?evs (failClosed em en m ?c0)" for m
    by (rule failClosed_history [OF hist, where ys = "[ClearTimer]"])
      (use inv AwaitingHello in \<open>simp_all add: emit_out_def\<close>)
  have nego: "served_history cd opts ?evs
      (?c1\<lparr>sv_negotiated := negotiate (servedCapabilities opts) (he_capabilities h), sv_phase := Serving\<rparr>)"
    if "parse_hello cd p = Some h" "evaluateCompat (he_protocol h) = CompatOk" "\<not> so_verifyDevice opts" for h
    by (rule serving_history [of _ _ _ _ h])
      (use enter_serving' [OF c1(1)] c1(2) hello_admits [OF nf that(1,2)] that(3) in simp_all)
  have gate: "served_history cd opts ?evs (runDeviceGate em cd opts en h ?c1)"
    if h: "parse_hello cd p = Some h" "evaluateCompat (he_protocol h) = CompatOk" and v: "so_verifyDevice opts" for h
  proof (cases "so_sessionId opts = None")
    case True
    then show ?thesis using fail1 by (simp add: runDeviceGate_def)
  next
    case False
    have adm: "served_history cd opts ?evs (admit em cd opts en h ?c1)" if "en_verdict en h = Admit"
      by (rule serving_history [of _ _ _ _ h])
        (use admit_serving [OF c1(1)] c1(2) hello_admits [OF nf h] False that in \<open>simp_all add: admit_negotiated\<close>)
    have pend: "served_history cd opts ?evs (?c1\<lparr>sv_phase := VerifyingDevice, sv_hello := Some h\<rparr>)" if "en_verdict en h = Pending"
      using hist AwaitingHello enter_verifying [OF c1(1,2)] hello_greets [OF nf h, of en] False v that c1(3)
      unfolding served_history_def by (auto simp: ball_Un emit_out_def send_guarded_eq)
    show ?thesis using False fail1 adm pend by (simp add: runDeviceGate_def split: verdict.split)
  qed
  show ?thesis using AwaitingHello fail0 fail1 nego gate
    by (simp add: onControl_def handleHello_def Let_def split: option.split)
qed

text \<open>An event that is none of the connection's business.\<close>

lemma quiet_history:
  assumes hist: "served_history cd opts evs c" and inv: "conn_inv c'"
    and same: "sv_phase c' = sv_phase c" "sv_hello c' = sv_hello c" "sv_negotiated c' = sv_negotiated c"
      "sv_pending c' = sv_pending c" "sv_sinks c' = sv_sinks c"
    and out: "sv_out c' = sv_out c @ xs" "\<forall>x \<in> set xs. is_service x \<longrightarrow> sv_phase c = Serving"
    and e: "\<not> control_frame e"
  shows "served_history cd opts (evs @ [e]) c'"
proof -
  have adm: "\<exists>h. admitted cd opts evs h" if "\<exists>x \<in> set (sv_out c'). is_service x"
    using that hist out unfolding served_history_def by (auto simp: ball_Un)
  then have adm': "\<exists>h. admitted cd opts (evs @ [e]) h" if "\<exists>x \<in> set (sv_out c'). is_service x"
    using that admitted_snoc by blast
  have ver: "\<exists>h en post. sv_hello c = Some h \<and> so_verifyDevice opts \<and> so_sessionId opts \<noteq> None \<and>
      greeted cd (evs @ [e]) h en post \<and> en_verdict en h = Pending" if "sv_phase c = VerifyingDevice"
    using hist that greeted_snoc unfolding served_history_def by metis
  have srv: "\<exists>h. admitted cd opts (evs @ [e]) h \<and> sv_negotiated c = negotiate (servedCapabilities opts) (he_capabilities h)"
    if "sv_phase c = Serving"
    using hist that admitted_snoc unfolding served_history_def by metis
  have early: "sv_sinks c = [] \<and> sv_pending c = [] \<and> (\<forall>x \<in> set (sv_out c'). \<not> is_service x)"
    if "sv_phase c = AwaitingHello \<or> sv_phase c = VerifyingDevice"
    using hist that out unfolding served_history_def by (auto simp: ball_Un)
  have noc: "\<not> list_ex control_frame (evs @ [e])" if "sv_phase c = AwaitingHello"
    using hist that e unfolding served_history_def by simp
  show ?thesis
    unfolding served_history_def same using inv early noc ver srv adm' by blast
qed

lemma sinkless_binaries:
  assumes "conn_inv c" and "sv_phase c \<noteq> Serving" and "sv_phase c \<noteq> DeadPhase \<longrightarrow> sv_sinks c = []"
  shows "session_binaries ob f c = []"
proof -
  have "binaries (\<lambda>k. False) es = []" for es by (induction "\<lambda>k :: nat. False" es rule: binaries.induct) auto
  then show ?thesis using assms by (auto simp: session_binaries_def conn_inv_def phase_ok_def)
qed

lemma on_session_history:
  assumes hist: "served_history cd opts evs c" and q: "quiet (sv_viewer c) (sv_sessions c ob) (f (sv_sessions c ob))"
    and e: "\<not> control_frame e"
  shows "served_history cd opts (evs @ [e]) (on_session ob f c)"
proof (rule quiet_history [OF hist, where xs = "session_binaries ob f c"])
  show "conn_inv (on_session ob f c)" using hist q by (intro on_session_quiet) (simp_all add: served_history_def)
  show "\<forall>x \<in> set (session_binaries ob f c). is_service x \<longrightarrow> sv_phase c = Serving"
  proof (cases "sv_phase c = Serving")
    case False
    then have "session_binaries ob f c = []"
      using hist by (intro sinkless_binaries) (cases "sv_phase c"; auto simp: served_history_def)+
    then show ?thesis by simp
  qed simp
qed (use e in \<open>simp_all add: on_session_eq\<close>)

lemma drained_history:
  assumes hist: "served_history cd opts evs c"
  shows "served_history cd opts (evs @ [ChannelDrainEv en]) (channel_drained em en c)"
proof -
  let ?w = "en_writable en (sv_count c)"
  have fold: "\<exists>xs. (\<forall>x \<in> set xs. \<exists>b. x = SendBinary b) \<and>
      (\<exists>H. fold (\<lambda>(ob, k). on_session ob (resumeSubscriber em (?w ob) k)) rs d =
        d\<lparr>sv_sessions := H, sv_out := sv_out d @ xs\<rparr>)" for rs and d :: "('a, 'b, 'c) served"
  proof (induction rs arbitrary: d)
    case Nil
    show ?case by (intro exI [of _ "[]"] conjI exI [of _ "sv_sessions d"]) simp_all
  next
    case (Cons r rs)
    obtain ob k where r: "r = (ob, k)" by (cases r)
    let ?f = "resumeSubscriber em (?w ob) k"
    obtain xs H where x: "\<forall>x \<in> set xs. \<exists>b. x = SendBinary b"
      "fold (\<lambda>(ob, k). on_session ob (resumeSubscriber em (?w ob) k)) rs (on_session ob ?f d) =
        (on_session ob ?f d)\<lparr>sv_sessions := H, sv_out := sv_out (on_session ob ?f d) @ xs\<rparr>"
      using Cons.IH by blast
    have "fold (\<lambda>(ob, k). on_session ob (resumeSubscriber em (?w ob) k)) (r # rs) d =
        (on_session ob ?f d)\<lparr>sv_sessions := H, sv_out := sv_out (on_session ob ?f d) @ xs\<rparr>"
      using x(2) by (simp add: r)
    also have "\<dots> = d\<lparr>sv_sessions := H, sv_out := sv_out d @ session_binaries ob ?f d @ xs\<rparr>"
      by (simp add: on_session_eq [of ob ?f d])
    finally show ?case using x(1) session_binaries_only [of _ ob ?f d]
      by (intro exI [of _ "session_binaries ob ?f d @ xs"] conjI exI [of _ H]) auto
  qed
  obtain xs H where x: "\<forall>x \<in> set xs. \<exists>b. x = SendBinary b"
      "channel_drained em en c = c\<lparr>sv_sessions := H, sv_out := sv_out c @ xs\<rparr>"
    using fold unfolding channel_drained_def by blast
  have inv: "conn_inv (channel_drained em en c)"
    unfolding channel_drained_def by (rule fold_resume_inv) (use hist in \<open>simp add: served_history_def\<close>)
  show ?thesis
  proof (cases "sv_phase c = Serving")
    case True
    then show ?thesis using x inv by (intro quiet_history [OF hist, where xs = xs]) simp_all
  next
    case False
    then have "channel_drained em en c = c"
      using hist early_facts [of c] by (simp add: channel_drained_def served_history_def)
    then show ?thesis using hist by (intro quiet_history [OF hist, where xs = "[]"]) (simp_all add: served_history_def)
  qed
qed

text \<open>Closing, whatever the phase.\<close>

lemma closing_history:
  assumes hist: "served_history cd opts evs c" and d: "dead c'" and out: "sv_out c' = sv_out c @ xs"
    and xs: "\<forall>x \<in> set xs. is_service x \<longrightarrow> sv_phase c = Serving"
  shows "served_history cd opts (evs @ [e]) c'"
proof (rule dead_history [OF d], intro impI)
  assume "\<exists>x \<in> set (sv_out c'). is_service x"
  then have "\<exists>h. admitted cd opts evs h"
    using hist out xs unfolding served_history_def by (auto simp: ball_Un)
  then show "\<exists>h. admitted cd opts (evs @ [e]) h" using admitted_snoc by blast
qed

lemma teardown_closing:
  assumes hist: "served_history cd opts evs c"
    and c1: "sv_phase c1 = sv_phase c" "sv_out c1 = sv_out c" "sv_subscriptions c1 = sv_subscriptions c"
      "sv_touched c1 = sv_touched c" "sv_resumers c1 = sv_resumers c" and inv: "conn_inv (teardownAll em en c1)"
  shows "served_history cd opts (evs @ [e]) (teardownAll em en c1)"
proof -
  obtain H xs where t: "teardownAll em en c1 = c1\<lparr>sv_phase := DeadPhase, sv_subscriptions := [], sv_resumers := [],
      sv_touched := [], sv_sessions := H, sv_out := sv_out c1 @ xs\<rparr>"
    by (rule teardownAll_cases [of em en c1]) blast
  have "\<forall>x \<in> set xs. is_service x \<longrightarrow> sv_phase c = Serving"
  proof (cases "sv_phase c = Serving")
    case False
    then have "teardownAll em en c1 = c1\<lparr>sv_phase := DeadPhase, sv_out := sv_out c1 @ [ClearTimer]\<rparr>"
      using hist early_facts [of c] c1 by (intro teardownAll_idle) (simp_all add: served_history_def)
    then have "sv_out (teardownAll em en c1) = sv_out c1 @ [ClearTimer]" by simp
    then have "xs = [ClearTimer]" by (simp add: t)
    then show ?thesis by simp
  qed simp
  then show ?thesis
    using inv c1(2) by (intro closing_history [OF hist, where xs = xs]) (simp_all add: t dead_def)
qed

lemma serve_step_history:
  assumes hist: "served_history cd opts evs c"
  shows "served_history cd opts (evs @ [ev]) (serve_step em cd opts ev c)"
proof -
  have inv: "conn_inv c" using hist by (simp add: served_history_def)
  have idle: "served_history cd opts (evs @ [e]) c" if "\<not> control_frame e" for e
    using that inv by (intro quiet_history [OF hist, where xs = "[]"]) simp_all
  show ?thesis
  proof (cases ev)
    case (ControlFrameEv p en)
    then show ?thesis by (simp add: onControl_history [OF hist])
  next
    case (ChannelClosedEv en)
    have "served_history cd opts (evs @ [ev]) (teardownAll em en (c\<lparr>sv_channelOpen := False, sv_closed := True\<rparr>))"
      if "sv_channelOpen c"
      by (rule teardown_closing [OF hist]) (use that channel_closed_inv [OF inv, of em en] in \<open>simp_all add: channel_closed_def\<close>)
    then show ?thesis using ChannelClosedEv idle by (simp add: channel_closed_def)
  next
    case (ChannelDrainEv en)
    then show ?thesis by (simp add: drained_history [OF hist])
  next
    case (NegotiationTimerEv en)
    show ?thesis
    proof (cases "sv_phase c = AwaitingHello")
      case True
      have "sv_channelOpen c" using early_open [OF inv] True by simp
      then have out: "negotiation_timeout em en c = (c\<lparr>sv_phase := DeadPhase, sv_channelOpen := False, sv_closed := True,
          sv_out := sv_out c @ [ReportError ''handshake timeout: controller sent no Hello'', CloseChannel, ClearTimer]\<rparr>)"
        using True early_facts [OF inv]
        by (simp add: negotiation_timeout_def report_error_def emit_out_def close_served_idle)
      have "dead (negotiation_timeout em en c)" using negotiation_timeout_inv [OF inv, of em en] by (simp add: dead_def out)
      then show ?thesis unfolding NegotiationTimerEv serve_step.simps
        by (rule closing_history [OF hist]) (simp add: out, simp)
    next
      case False
      then show ?thesis using NegotiationTimerEv idle by (simp add: negotiation_timeout_def)
    qed
  next
    case (VerdictEv v en)
    show ?thesis
    proof (cases "sv_phase c = VerifyingDevice")
      case True
      obtain h en0 post where g: "greeted cd evs h en0 post" "sv_hello c = Some h" "so_sessionId opts \<noteq> None"
          "en_verdict en0 h = Pending"
        using hist True by (auto simp: served_history_def)
      have "served_history cd opts (evs @ [VerdictEv (Some True) en]) (admit em cd opts en h c)"
        by (rule serving_history [of _ _ _ _ h])
          (use admit_serving [OF inv, of em cd opts en h] True verdict_admits [OF g(1,4,3)] in \<open>simp_all add: admit_negotiated\<close>)
      moreover have "served_history cd opts (evs @ [ev]) (failClosed em en NOT_AUTHORIZED c)"
        by (rule failClosed_history [OF hist, where ys = "[]"]) (use True inv in simp_all)
      ultimately show ?thesis using VerdictEv True g(2)
        by (cases v) (auto simp: verdict_settled_def split: bool.split)
    next
      case False
      then show ?thesis using VerdictEv idle by (simp add: verdict_settled_def)
    qed
  next
    case (HookSettledEv i res)
    show ?thesis
    proof (cases "i < length (sv_pending c)")
      case True
      obtain rid k where at: "sv_pending c ! i = (rid, k)" by (cases "sv_pending c ! i")
      have "sv_phase c = Serving \<or> sv_phase c = DeadPhase"
        using hist True by (cases "sv_phase c") (auto simp: served_history_def)
      then show ?thesis
      proof
        assume "sv_phase c = Serving"
        moreover have "serving (hook_settled i res c)"
          using hook_settled_inv [OF inv, of i res] calculation unfolding hook_settled_eq [OF True at] by (simp add: serving_def)
        ultimately show ?thesis using hist HookSettledEv unfolding hook_settled_eq [OF True at]
          by (auto simp: served_history_def intro!: serving_history [where evs = "evs @ [ev]"] dest: admitted_snoc [where e = ev])
            (use hook_settled_eq [OF True at] in \<open>auto dest: admitted_snoc [where e = ev]\<close>)
      next
        assume dd: "sv_phase c = DeadPhase"
        then have cl: "sv_closed c" using inv by (simp add: conn_inv_def phase_ok_def)
        obtain xs where xs: "sv_out (hook_settled i res c) = sv_out c @ xs" "list_all housekeeping xs"
          using hook_settled_closed [OF cl] by blast
        have "dead (hook_settled i res c)" using hook_settled_closed [OF cl, of i res] hook_settled_inv [OF inv] dd by (simp add: dead_def)
        then show ?thesis using xs HookSettledEv
          by (auto intro!: closing_history [OF hist] dest: housekeeping_no_service simp: list_all_iff)
      qed
    next
      case False
      then show ?thesis using HookSettledEv idle by (simp add: hook_settled_idle)
    qed
  next
    case (CloseConnectionEv en)
    have "served_history cd opts (evs @ [ev]) (teardownAll em en (c\<lparr>sv_closed := True\<rparr>))"
      by (rule teardown_closing [OF hist]) (use serve_close_inv [OF inv, of em en] in \<open>simp_all add: serve_close_def\<close>)
    then show ?thesis using CloseConnectionEv by (simp add: serve_close_def)
  next
    case (ElsewhereEv ob sev)
    show ?thesis
    proof (cases "ob < sv_objects c \<and> foreign (sv_viewer c) [i. (o', i) \<leftarrow> sv_sinks c, o' = ob] sev")
      case True
      then show ?thesis using ElsewhereEv
        using on_session_history [OF hist, of ob "session_step em sev" ev]
          session_step_quiet [of "sv_viewer c" _ sev "sv_sessions c ob" em] by auto
    next
      case False
      then show ?thesis using ElsewhereEv idle by (auto simp del: foreign.simps)
    qed
  next
    case (NewSessionEv ref s)
    have "served_history cd opts (evs @ [ev]) (c\<lparr>sv_registry := g, sv_sessions := (sv_sessions c)(sv_objects c := s),
        sv_objects := Suc (sv_objects c)\<rparr>)"
      if "se_viewports s = []" "se_authority s = None" "reg_register ref (sv_objects c) (sv_registry c) = Some g" for g
      using new_session_event_inv [OF inv that] NewSessionEv
      by (intro quiet_history [OF hist, where xs = "[]"]) simp_all
    then show ?thesis using NewSessionEv idle by (auto split: option.split)
  next
    case (RemoveSessionEv ref)
    then show ?thesis using serve_step_inv [OF inv, of em cd opts ev]
      by (intro quiet_history [OF hist, where xs = "[]"]) simp_all
  qed (use idle in simp)
qed

interpretation connection_history: history_machine "serve_step em cd opts" "served_history cd opts" for em cd opts
  by unfold_locales (rule serve_step_history)

lemma serve_run_history:
  "served_history cd opts evs (serve_run em cd opts evs (serveConnection viewer heap))"
proof (rule connection_history.run_hist)
  show "served_history cd opts [] (serveConnection viewer heap)"
    using serveConnection_inv [of viewer heap] by (simp add: served_history_def) (simp add: serveConnection_def)
qed

end
