(* ===== verification/ServeAnswers.thy ===== *)
theory ServeAnswers
  imports ServeHistory "HOL-Library.Multiset"
begin

text \<open>
  The answers a served connection owes. The ids it has answered and the ids of the hooks it awaits
  are counted together; a request moves that count up by its own id and nothing else moves it,
  as long as no session in use is disposed. A session that was disposed behind the connection's
  back makes one answer too many: the acknowledgement is out before the subscription throws.
\<close>

subsection \<open>Sessions in use\<close>

lemma disposed_simps [simp]:
  "se_disposed (broadcast w op p s) = se_disposed s"
  "se_disposed (unsubscribe k s) = se_disposed s"
  "se_disposed (set_sub k f s) = se_disposed s"
  "se_disposed (writeInput bs who s) = se_disposed s"
  "se_disposed (observeViewer v c r s) = se_disposed s"
  "se_disposed (detach_backend s) = se_disposed s"
  "se_disposed (emitTo k op p n s) = se_disposed s"
  "se_disposed (emitSnapshot em k s) = se_disposed s"
  by (simp_all add: broadcast_eq unsubscribe_def set_sub_def writeInput_def session_emit_def observeViewer_def
      detach_backend_def emitTo_eq emitSnapshot_eq Let_def split: option.split prod.split)

lemma disposed_resize [simp]: "se_disposed (resize em w c r s) = se_disposed s"
  by (simp add: resize_def session_emit_def)

lemma disposed_viewer [simp]:
  "se_disposed (resizeViewer em w v c r s) = se_disposed s"
  "se_disposed (releaseViewer em w v s) = se_disposed s"
  by (simp_all add: resizeViewer_def releaseViewer_def Let_def split: option.split)

lemma disposed_resume [simp]: "se_disposed (resumeSubscriber em w k s) = se_disposed s"
  by (simp add: resumeSubscriber_def Let_def split: list.split)

lemma disposed_subscribe: "subscribe em flow w s = Some (t, k) \<Longrightarrow> se_disposed t = se_disposed s"
  by (auto simp: subscribe_def Let_def split: if_splits)

lemma disposed_step: "ev \<noteq> DisposeEv \<Longrightarrow> se_disposed (session_step em ev s) = se_disposed s"
  by (cases ev) (auto simp: onOutput_def onExit_def Let_def disposed_subscribe split: option.split)

definition live :: "('j, 'o, 'm) served \<Rightarrow> bool" where
  "live c \<longleftrightarrow> (\<forall>ob < sv_objects c. \<not> se_disposed (sv_sessions c ob))"

lemma live_on_session [simp]:
  "(\<And>s. se_disposed (f s) = se_disposed s) \<Longrightarrow> live (on_session ob f c) = live c"
  by (auto simp: live_def on_session_eq)

lemma live_out [simp]:
  "live (c\<lparr>sv_out := x\<rparr>) = live c" "live (c\<lparr>sv_subscriptions := m\<rparr>) = live c" "live (c\<lparr>sv_touched := t\<rparr>) = live c"
  "live (c\<lparr>sv_subscriptions := m, sv_resumers := r\<rparr>) = live c" "live (c\<lparr>sv_sinks := i, sv_resumers := r\<rparr>) = live c"
  "live (c\<lparr>sv_count := n\<rparr>) = live c" "live (c\<lparr>sv_pending := p\<rparr>) = live c" "live (c\<lparr>sv_pending := p, sv_out := x\<rparr>) = live c"
  by (simp_all add: live_def)

lemma live_send [simp]:
  "live (send_response r c) = live c" "live (send_guarded e c) = live c" "live (emit_out e c) = live c"
  "live (report_error m c) = live c"
  by (simp_all add: served_primitives)

subsection \<open>The ids answered and awaited\<close>

fun answer_of :: "('j, 'o) serve_out \<Rightarrow> string list" where
  "answer_of (SendResponse r) = [response_id r]"
| "answer_of _ = []"

definition answered :: "('j, 'o) serve_out list \<Rightarrow> string list" where
  "answered out = concat (map answer_of out)"

definition accounted :: "('j, 'o, 'm) served \<Rightarrow> string multiset" where
  "accounted c = mset (answered (sv_out c)) + mset (map fst (sv_pending c))"

lemma answered_simps [simp]:
  "answered [] = []" "answered (x # xs) = answer_of x @ answered xs" "answered (xs @ ys) = answered xs @ answered ys"
  by (simp_all add: answered_def)

lemma answered_silent: "(\<And>x. x \<in> set xs \<Longrightarrow> \<exists>b. x = SendBinary b) \<Longrightarrow> answered xs = []"
  by (induction xs) (auto, fastforce)

lemma answered_binaries [simp]: "answered (session_binaries ob f c) = []"
  using session_binaries_only by (rule answered_silent)

lemma answered_housekeeping: "list_all housekeeping xs \<Longrightarrow> answered xs = []"
  by (induction xs) (auto simp: housekeeping_def)

lemma accounted_on_session [simp]: "accounted (on_session ob f c) = accounted c"
  by (simp add: accounted_def on_session_eq)

lemma accounted_fields [simp]:
  "accounted (c\<lparr>sv_subscriptions := m\<rparr>) = accounted c" "accounted (c\<lparr>sv_touched := t\<rparr>) = accounted c"
  "accounted (c\<lparr>sv_subscriptions := m, sv_resumers := r\<rparr>) = accounted c"
  "accounted (c\<lparr>sv_sinks := i, sv_resumers := r\<rparr>) = accounted c" "accounted (c\<lparr>sv_count := n\<rparr>) = accounted c"
  by (simp_all add: accounted_def)

lemma accounted_send:
  "accounted (send_guarded e c) = accounted c + (if sv_closed c then {#} else mset (answer_of e))"
  "accounted (emit_out e c) = accounted c + mset (answer_of e)"
  by (simp_all add: accounted_def served_primitives)

lemma accounted_response [simp]:
  "\<not> sv_closed c \<Longrightarrow> accounted (send_response r c) = add_mset (response_id r) (accounted c)"
  "accounted (report_error m c) = accounted c"
  by (simp_all add: send_response_def report_error_def accounted_send)

lemma teardown_accounted [simp]:
  "accounted (teardown em en ref d c) = accounted c" "live (teardown em en ref d c) = live c"
  by (simp_all add: teardown_def drop_sink_def release_def Let_def split: option.split)

subsection \<open>A request\<close>

text \<open>What a handler leaves behind: exactly one more id, unless it threw.\<close>

definition answers :: "string \<Rightarrow> ('j, 'o, 'm) served \<Rightarrow> ('j, 'o, 'm) served \<times> string option \<Rightarrow> bool" where
  "answers rid c r \<longleftrightarrow>
     live (fst r) \<and> \<not> sv_closed (fst r) \<and> accounted (fst r) = (if snd r = None then add_mset rid (accounted c) else accounted c)"

lemma response_ids [simp]:
  "response_id (success rid r s) = rid" "response_id (failure rid code m d) = rid"
  "response_id (no_session rid ref) = rid" "response_id (unsupported rid name) = rid"
  "response_id (not_negotiated rid cap) = rid" "response_id (internal_error rid) = rid"
  by (simp_all add: success_def failure_def no_session_def unsupported_def not_negotiated_def internal_error_def)

lemma custodyFailure_id: "custodyFailure rid e = Some r \<Longrightarrow> response_id r = rid"
  by (cases "(rid, e)" rule: custodyFailure.cases) auto

lemma response_fields [simp]:
  "sv_closed (send_response r c) = sv_closed c" "sv_objects (send_response r c) = sv_objects c"
  "sv_sessions (send_response r c) = sv_sessions c"
  by (simp_all add: send_response_def)

lemma answers_send [simp]:
  "\<not> sv_closed c \<Longrightarrow> live c \<Longrightarrow> answers rid c (send_response r c, None) \<longleftrightarrow> response_id r = rid"
  by (auto simp: answers_def)

text \<open>The acknowledgement is the answer; the sink that follows adds none.\<close>

lemma attach_live:
  assumes "\<not> se_disposed (sv_sessions c ob)" and "live c"
  shows "snd (attach em en ref ob c) = None \<and> live (fst (attach em en ref ob c)) \<and>
    accounted (fst (attach em en ref ob c)) = accounted c \<and> sv_closed (fst (attach em en ref ob c)) = sv_closed c"
proof -
  let ?f = "\<lambda>s. case subscribe em True (en_writable en (sv_count c) ob) s of None \<Rightarrow> s | Some (s', k) \<Rightarrow> s'"
  have "se_disposed (?f s) = se_disposed s" for s by (auto simp: disposed_subscribe split: option.split)
  moreover obtain t k where "subscribe em True (en_writable en (sv_count c) ob) (sv_sessions c ob) = Some (t, k)"
    using assms by (simp add: subscribe_def Let_def)
  ultimately show ?thesis using assms by (simp add: attach_def Let_def)
qed

lemma handleSubscribe_answers:
  assumes "serving c" and "live c"
  shows "answers rid c (handleSubscribe em en rid ref vp caps c)"
proof -
  have op: "\<not> sv_closed c" using assms(1) by (simp add: serving_def conn_inv_def phase_ok_def)
  have attached: "answers rid c (attach em en ref ob (send_response (success rid r True) d))"
    if "reg_get ref (sv_registry c) = Some ob" "live d" "accounted d = accounted c" "\<not> sv_closed d" "sv_objects d = sv_objects c"
    for ob r and d :: "('a, 'b, 'c) served"
  proof -
    have "ob < sv_objects d" using registered_object [OF assms(1) that(1)] that(5) by simp
    then have "\<not> se_disposed (sv_sessions (send_response (success rid r True) d) ob)"
      using that(2) by (simp add: live_def)
    then show ?thesis using attach_live [of "send_response (success rid r True) d" ob em en ref] that
      by (simp add: answers_def)
  qed
  show ?thesis
    unfolding handleSubscribe_def Let_def
    using assms op by (auto intro!: attached split: option.split)
qed

lemma handler_answers:
  assumes "\<not> sv_closed c" and "live c"
  shows "answers rid c (handleInput cd rid ref b64 c, None)" "answers rid c (handleResize em en rid ref z c, None)"
    "answers rid c (handleUnsubscribe em en rid ref c, None)"
  using assms by (auto simp: answers_def handleInput_def handleResize_def handleUnsubscribe_def Let_def split: option.split)

lemma reserve_answers:
  assumes "\<not> sv_closed c" and "live c"
  shows "answers rid c (handleReserve en rid spec c)"
  using assms
  by (auto simp: answers_def handleReserve_def Let_def accounted_send custodyFailure_id split: option.split sum.split)

lemma await_answers:
  assumes "\<not> sv_closed c" and "live c" and "answer_of call = []"
  shows "answers rid c (await_hook call rid k c, None)"
  using assms by (simp add: answers_def await_hook_def accounted_def emit_out_def)

lemma gated_answers:
  assumes "\<not> sv_closed c" and "live c" and "answers rid c (f c)"
  shows "answers rid c (gated rid m f c)"
  using assms by (auto simp: gated_def capabilityAllows_def split: option.split)

lemma serve_method_answers:
  assumes "serving c" and "live c"
  shows "answers rid c (serve_method em cd opts en rid name m p c)"
proof -
  have op: "\<not> sv_closed c" using assms(1) by (simp add: serving_def conn_inv_def phase_ok_def)
  have thrown: "answers rid c (c, Some msg)" for msg using op assms(2) by (simp add: answers_def)
  show ?thesis
    unfolding serve_method_def Let_def
    using op assms(2)
    by (auto intro!: gated_answers handleSubscribe_answers assms handler_answers reserve_answers await_answers thrown split: rpc_params.split sum.split)
qed

lemma dispatch_answers:
  assumes "serving c" and "live c"
  shows "answers (fst req) c (dispatch_request em cd opts en req c)"
proof -
  have op: "\<not> sv_closed c" using assms(1) by (simp add: serving_def conn_inv_def phase_ok_def)
  obtain rid name j where "req = (rid, name, j)" by (cases req)
  then show ?thesis using op assms
    by (auto simp: dispatch_request_def serve_method_answers split: option.split)
qed

definition request_id :: "'j codec \<Rightarrow> bytes \<Rightarrow> string multiset" where
  "request_id cd p = (case wc_request cd p of None \<Rightarrow> {#} | Some req \<Rightarrow> {#fst req#})"

lemma handleRpcPayload_answers:
  assumes "serving c" and "live c"
  shows "live (handleRpcPayload em cd opts en p c) \<and>
    accounted (handleRpcPayload em cd opts en p c) = accounted c + request_id cd p"
proof (cases "wc_request cd p")
  case None
  then show ?thesis using assms by (simp add: handleRpcPayload_def request_id_def)
next
  case (Some req)
  obtain c1 t where d: "dispatch_request em cd opts en req c = (c1, t)" by fastforce
  have a: "answers (fst req) c (c1, t)" using dispatch_answers [OF assms, of req em cd opts en] by (simp add: d)
  have "sv_closed (report_error m c1) = sv_closed c1" for m by (simp add: report_error_def emit_out_def)
  then show ?thesis using Some a by (cases t) (auto simp: handleRpcPayload_def d Let_def answers_def request_id_def)
qed

text \<open>The acknowledgement of a subscription is sent before the session throws: a disposed session that is
  still registered answers the request twice, with a success and then with an error.\<close>

lemma attach_disposed:
  "se_disposed (sv_sessions c ob) \<Longrightarrow>
   attach em en ref ob c = (c, Some ''Session: cannot subscribe to a disposed session'')"
  by (simp add: attach_def subscribe_def)

lemma disposed_session_is_answered_twice:
  assumes "serving c" and "wc_request cd p = Some (rid, ''session.subscribe'', j)"
    and "safeParse cd SessionSubscribe j = Some (SubscribeParams ref None None)" and "PTY_STREAM \<in> set (sv_negotiated c)"
    and "reg_get ref (sv_registry c) = Some ob" and "se_disposed (sv_sessions c ob)"
  shows "accounted (handleRpcPayload em cd opts en p c) = add_mset rid (add_mset rid (accounted c))"
proof -
  have op: "\<not> sv_closed c" using assms(1) by (simp add: serving_def conn_inv_def phase_ok_def)
  have d: "se_disposed (sv_sessions (teardown em en ref False c) ob)"
    using assms(6) by (auto simp: teardown_def drop_sink_def on_session_eq Let_def split: option.split)
  let ?c3 = "(teardown em en ref False c)\<lparr>sv_touched := set_add ob (sv_touched (teardown em en ref False c))\<rparr>"
  obtain r where "handleSubscribe em en rid ref None None c =
      attach em en ref ob (send_response (success rid r True) ?c3)"
    using assms(5) by (simp add: handleSubscribe_def Let_def)
  then have "handleSubscribe em en rid ref None None c =
      (send_response (success rid r True) ?c3, Some ''Session: cannot subscribe to a disposed session'')"
    using d by (simp add: attach_disposed)
  moreover have "aget METHODS ''session.subscribe'' = Some SessionSubscribe" by (simp add: METHODS_def)
  moreover have "sv_closed (report_error m c') = sv_closed c'" for m and c' :: "('a, 'b, 'c) served"
    by (simp add: report_error_def)
  ultimately show ?thesis using assms(2-4) op
    by (simp add: handleRpcPayload_def dispatch_request_def serve_method_def gated_def capabilityAllows_def Let_def)
qed

lemma fold_payloads_answers:
  assumes "serving c" and "live c"
  shows "live (fold (handleRpcPayload em cd opts en) ps c) \<and>
    accounted (fold (handleRpcPayload em cd opts en) ps c) = accounted c + sum_list (map (request_id cd) ps)"
  using assms
proof (induction ps arbitrary: c)
  case (Cons p ps)
  then show ?case using handleRpcPayload_answers [OF Cons.prems, of em cd opts en p]
      Cons.IH [of "handleRpcPayload em cd opts en p c"] handleRpcPayload_serving [OF Cons.prems(1)]
    by (simp add: add.assoc)
qed simp

subsection \<open>A whole run\<close>

text \<open>The events under which no session in use is disposed.\<close>

fun keeps_sessions :: "('o, 'm) serve_event \<Rightarrow> bool" where
  "keeps_sessions (ElsewhereEv ob ev) = (ev \<noteq> DisposeEv)"
| "keeps_sessions (NewSessionEv ref s) = (\<not> se_disposed s)"
| "keeps_sessions _ = True"

fun control_payload :: "('o, 'm) serve_event \<Rightarrow> bytes list" where
  "control_payload (ControlFrameEv p en) = [p]"
| "control_payload _ = []"

definition control_payloads :: "('o, 'm) serve_event list \<Rightarrow> bytes list" where
  "control_payloads evs = concat (map control_payload evs)"

lemma control_payloads_snoc [simp]:
  "control_payloads [] = []" "control_payloads (evs @ [e]) = control_payloads evs @ control_payload e"
  by (simp_all add: control_payloads_def)

lemma no_control_frame: "control_payloads evs = [] \<longleftrightarrow> \<not> list_ex control_frame evs"
proof -
  have "control_payload e = [] \<longleftrightarrow> \<not> control_frame e" for e :: "('a, 'b) serve_event" by (cases e) simp_all
  then show ?thesis by (induction evs) (auto simp: control_payloads_def)
qed

text \<open>The ids of the well-formed requests among the control frames behind the first.\<close>

definition requested :: "'j codec \<Rightarrow> ('o, 'm) serve_event list \<Rightarrow> string multiset" where
  "requested cd evs = sum_list (map (request_id cd) (tl (control_payloads evs)))"

lemma requested_first: "control_payloads evs = [] \<Longrightarrow> requested cd (evs @ [ControlFrameEv p en]) = {#}"
  by (simp add: requested_def)

lemma requested_more:
  "control_payloads evs \<noteq> [] \<Longrightarrow> requested cd (evs @ [ControlFrameEv p en]) = requested cd evs + request_id cd p"
  by (simp add: requested_def)

lemma requested_other: "control_payload e = [] \<Longrightarrow> requested cd (evs @ [e]) = requested cd evs"
  by (simp add: requested_def)

definition balanced :: "'j codec \<Rightarrow> ('o, 'm) serve_event list \<Rightarrow> ('j, 'o, 'm) served \<Rightarrow> bool" where
  "balanced cd evs c \<longleftrightarrow>
     live c \<and> accounted c + sum_list (map (request_id cd) (sv_buffered c)) = requested cd evs \<and>
     (sv_phase c \<noteq> VerifyingDevice \<longrightarrow> sv_buffered c = [])"

definition answer_history ::
  "'j codec \<Rightarrow> serve_options \<Rightarrow> ('o, 'm) serve_event list \<Rightarrow> ('j, 'o, 'm) served \<Rightarrow> bool" where
  "answer_history cd opts evs c \<longleftrightarrow>
     served_history cd opts evs c \<and> (sv_phase c \<noteq> DeadPhase \<longrightarrow> list_all keeps_sessions evs \<longrightarrow> balanced cd evs c)"

lemma greeted_control: "greeted cd evs h en post \<Longrightarrow> control_payloads evs \<noteq> []"
  by (auto simp: greeted_def control_payloads_def)

lemma served_control:
  "served_history cd opts evs c \<Longrightarrow> sv_phase c \<noteq> DeadPhase \<Longrightarrow>
   control_payloads evs = [] \<longleftrightarrow> sv_phase c = AwaitingHello"
  unfolding served_history_def admitted_def
  by (cases "sv_phase c") (auto simp: no_control_frame dest: greeted_control)

lemma failClosed_dead [simp]:
  "sv_phase (teardownAll em en c) = DeadPhase" "sv_phase (failClosed em en m c) = DeadPhase"
proof -
  show t: "sv_phase (teardownAll em en c) = DeadPhase" for c :: "('a, 'b, 'c) served"
    by (rule teardownAll_cases [of em en c]) simp
  show "sv_phase (failClosed em en m c) = DeadPhase"
    by (simp add: failClosed_def close_served_def Let_def t report_error_def)
qed

lemma admit_balanced:
  assumes "conn_inv c" and "sv_phase c \<noteq> DeadPhase" and "live c"
  shows "balanced cd evs (admit em cd opts en h c) \<longleftrightarrow>
    accounted c + sum_list (map (request_id cd) (sv_buffered c)) = requested cd evs"
proof -
  let ?c1 = "c\<lparr>sv_negotiated := negotiate (servedCapabilities opts) (he_capabilities h), sv_phase := Serving,
      sv_buffered := [], sv_hello := None\<rparr>"
  have s: "serving ?c1" using assms(1,2) by (rule enter_serving)
  have l: "live ?c1" "accounted ?c1 = accounted c" using assms(3) by (simp_all add: live_def accounted_def)
  have b: "sv_buffered (fold (handleRpcPayload em cd opts en) ps d) = sv_buffered d" for ps and d :: "('a, 'b, 'c) served"
    by (simp add: fold_payloads_gate [unfolded same_gate_def])
  show ?thesis
    using fold_payloads_answers [OF s l(1), of em cd opts en "sv_buffered c"] l(2)
    by (simp add: balanced_def admit_def b)
qed

lemma first_frame_balanced:
  assumes inv: "conn_inv c" and ph: "sv_phase c = AwaitingHello" and fresh: "live c" "sv_buffered c = []" "accounted c = {#}"
    and first: "requested cd evs = {#}" and alive: "sv_phase (handleHello em cd opts en p c) \<noteq> DeadPhase"
  shows "balanced cd evs (handleHello em cd opts en p c)"
proof -
  let ?c1 = "send_guarded (SendHelloAck PROTOCOL_VERSION (servedCapabilities opts) (channelBinding opts)) (emit_out ClearTimer c)"
  have c1: "conn_inv ?c1" "sv_phase ?c1 = AwaitingHello" "live ?c1" "sv_buffered ?c1 = []" "accounted ?c1 = {#}"
    using inv ph fresh by (auto simp: accounted_send)
  have serve: "balanced cd evs (?c1\<lparr>sv_negotiated := n, sv_phase := Serving\<rparr>)" for n
    using c1 first by (simp add: balanced_def live_def accounted_def)
  have pend: "balanced cd evs (?c1\<lparr>sv_phase := VerifyingDevice, sv_hello := h\<rparr>)" for h
    using c1 first by (simp add: balanced_def live_def accounted_def)
  have adm: "balanced cd evs (admit em cd opts en h ?c1)" for h
    using c1 first by (subst admit_balanced) simp_all
  show ?thesis
    using alive serve pend adm
    by (auto simp: handleHello_def runDeviceGate_def Let_def split: option.splits if_splits verdict.splits)
qed

lemma onControl_balanced:
  assumes h: "served_history cd opts evs c" and b: "balanced cd evs c" and ph: "sv_phase c \<noteq> DeadPhase"
    and alive: "sv_phase (onControl em cd opts en p c) \<noteq> DeadPhase"
  shows "balanced cd (evs @ [ControlFrameEv p en]) (onControl em cd opts en p c)"
proof (cases "sv_phase c")
  case AwaitingHello
  then have none: "control_payloads evs = []" using served_control [OF h] by simp
  have inv: "conn_inv c" using h by (simp add: served_history_def)
  have fresh: "live c" "sv_buffered c = []" "accounted c = {#}"
    using b AwaitingHello none by (simp_all add: balanced_def requested_def)
  have alive': "sv_phase (handleHello em cd opts en p c) \<noteq> DeadPhase" using alive AwaitingHello by (simp add: onControl_def)
  show ?thesis
    using first_frame_balanced [OF inv AwaitingHello fresh requested_first [OF none] alive'] AwaitingHello
    by (simp add: onControl_def)
next
  case VerifyingDevice
  then show ?thesis using b alive served_control [OF h]
    by (auto simp: onControl_def balanced_def live_def accounted_def requested_more ac_simps split: if_splits)
next
  case Serving
  have s: "serving c" using Serving h by (simp add: serving_def served_history_def)
  show ?thesis using Serving b served_control [OF h] handleRpcPayload_answers [OF s, of em cd opts en p]
      handleRpcPayload_gate [of c em cd opts en p] handleRpcPayload_serving [OF s, of em cd opts en p]
    by (auto simp: onControl_def balanced_def same_gate_def requested_more serving_def)
qed (use ph in simp)

text \<open>A hook that settles moves its id from the awaited to the answered.\<close>

lemma hook_settled_accounted:
  assumes "\<not> sv_closed c"
  shows "accounted (hook_settled i res c) = accounted c"
proof (cases "i < length (sv_pending c)")
  case True
  obtain rid k where at: "sv_pending c ! i = (rid, k)" by (cases "sv_pending c ! i")
  have "mset (map fst (sv_pending c)) = mset (map fst (take i (sv_pending c) @ (rid, k) # drop (Suc i) (sv_pending c)))"
    using True at by (metis id_take_nth_drop)
  then show ?thesis
    unfolding hook_settled_eq [OF True at] accounted_def
    using assms by (simp add: settled_answer_id answered_housekeeping [OF settled_answer_reports])
qed (simp add: hook_settled_idle)

lemma drained_balanced:
  "live (channel_drained em en c) = live c \<and> accounted (channel_drained em en c) = accounted c \<and>
   sv_buffered (channel_drained em en c) = sv_buffered c \<and> sv_phase (channel_drained em en c) = sv_phase c"
proof -
  have "live (fold (\<lambda>(ob, k). on_session ob (resumeSubscriber em (w ob) k)) rs c) = live c \<and>
      accounted (fold (\<lambda>(ob, k). on_session ob (resumeSubscriber em (w ob) k)) rs c) = accounted c \<and>
      sv_buffered (fold (\<lambda>(ob, k). on_session ob (resumeSubscriber em (w ob) k)) rs c) = sv_buffered c \<and>
      sv_phase (fold (\<lambda>(ob, k). on_session ob (resumeSubscriber em (w ob) k)) rs c) = sv_phase c" for w rs
  proof (induction rs arbitrary: c)
    case (Cons r rs)
    then show ?case by (cases r) simp
  qed simp
  then show ?thesis by (simp add: channel_drained_def)
qed

lemma other_balanced:
  assumes "balanced cd evs c" and "control_payload e = []" and "live d" and "accounted d = accounted c"
    and "sv_buffered d = sv_buffered c" and "sv_phase d = sv_phase c"
  shows "balanced cd (evs @ [e]) d"
  using assms by (simp add: balanced_def requested_other)

lemma serve_step_balanced:
  assumes h: "served_history cd opts evs c" and b: "balanced cd evs c" and keeps: "keeps_sessions e"
    and ph: "sv_phase c \<noteq> DeadPhase" and alive: "sv_phase (serve_step em cd opts e c) \<noteq> DeadPhase"
  shows "balanced cd (evs @ [e]) (serve_step em cd opts e c)"
proof (cases e)
  case (ControlFrameEv p en)
  then show ?thesis using onControl_balanced [OF h b ph] alive by simp
next
  case (VerdictEv v en)
  have inv: "conn_inv c" using h by (simp add: served_history_def)
  have "live c" "accounted c + sum_list (map (request_id cd) (sv_buffered c)) = requested cd (evs @ [e])"
    using b VerdictEv by (simp_all add: balanced_def requested_other)
  then have "balanced cd (evs @ [e]) (admit em cd opts en h c)" for h using inv ph by (simp add: admit_balanced)
  moreover have "balanced cd (evs @ [e]) c" using b VerdictEv by (intro other_balanced [OF b]) (simp_all add: balanced_def)
  ultimately show ?thesis using alive VerdictEv
    by (auto simp: verdict_settled_def split: option.splits bool.splits if_splits)
next
  case (HookSettledEv i res)
  have "\<not> sv_closed c" using h ph by (simp add: served_history_def early_open)
  moreover have "sv_phase (hook_settled i res c) = sv_phase c \<and> sv_buffered (hook_settled i res c) = sv_buffered c \<and>
      live (hook_settled i res c) = live c"
    by (cases "i < length (sv_pending c)"; cases "sv_pending c ! i") (simp_all add: hook_settled_eq hook_settled_idle live_def)
  ultimately show ?thesis using b HookSettledEv
    by (intro other_balanced [OF b]) (simp_all add: hook_settled_accounted balanced_def)
next
  case (ElsewhereEv ob ev)
  then show ?thesis using b keeps by (intro other_balanced [OF b]) (auto simp: balanced_def disposed_step)
next
  case (NewSessionEv ref s)
  then show ?thesis using b keeps
    by (intro other_balanced [OF b]) (auto simp: balanced_def live_def accounted_def less_Suc_eq split: option.split)
next
  case (ChannelDrainEv en)
  then show ?thesis using b drained_balanced [of em en c] by (intro other_balanced [OF b]) (simp_all add: balanced_def)
next
  case (ChannelClosedEv en)
  then show ?thesis using b alive by (intro other_balanced [OF b]) (auto simp: balanced_def channel_closed_def)
next
  case (NegotiationTimerEv en)
  have "sv_phase (close_served em en d) = DeadPhase" if "sv_phase d = DeadPhase" for d :: "('a, 'b, 'c) served"
    using that by (simp add: close_served_def Let_def)
  then show ?thesis using b alive NegotiationTimerEv
    by (intro other_balanced [OF b]) (auto simp: balanced_def negotiation_timeout_def report_error_def)
qed (use b alive in \<open>auto intro!: other_balanced [OF b] simp: serve_close_def balanced_def live_def accounted_def requested_other\<close>)

lemma serve_step_answers:
  assumes "answer_history cd opts evs c"
  shows "answer_history cd opts (evs @ [e]) (serve_step em cd opts e c)"
proof -
  have h: "served_history cd opts evs c" using assms by (simp add: answer_history_def)
  have "sv_phase c = DeadPhase \<Longrightarrow> sv_phase (serve_step em cd opts e c) = DeadPhase"
    using dead_step [of c em cd opts e] h by (simp add: dead_def served_history_def)
  then show ?thesis using assms serve_step_history [OF h] serve_step_balanced [OF h]
    by (auto simp: answer_history_def)
qed

interpretation connection_answers: history_machine "serve_step em cd opts" "answer_history cd opts" for em cd opts
  by unfold_locales (rule serve_step_answers)

lemma serve_run_answers: "answer_history cd opts evs (serve_run em cd opts evs (serveConnection viewer heap))"
proof (rule connection_answers.run_hist)
  have "served_history cd opts [] (serveConnection viewer heap)" using serve_run_history [of cd opts "[]"] by simp
  then show "answer_history cd opts [] (serveConnection viewer heap)"
    by (simp add: answer_history_def balanced_def requested_def live_def serveConnection_def accounted_def)
qed

end
