(* ===== verification/ServeTheorems.thy ===== *)
theory ServeTheorems
  imports ServeAnswers SessionTheorems
begin

text \<open>
  The properties of a served connection: nothing happens for a peer that was not admitted, every
  well-formed request is answered once, a capability that was not negotiated opens nothing, closing
  leaves nothing behind in the sessions, and an asynchronous device verdict changes nothing but the
  time. The witnesses serve the echo session over a toy codec.
\<close>

subsection \<open>A connection to try\<close>

definition demo_hello :: hello where
  "demo_hello = \<lparr>he_protocol = PROTOCOL_VERSION, he_capabilities = [PTY_STREAM], he_deviceKeyId = NULL_DEVICE_KEY_ID,
     he_deviceAuth = []\<rparr>"

definition demo_ref :: string where
  "demo_ref = ''sref_0123456789abcdef0123456789abcdef''"

definition demo_codec :: "rpc_params codec" where
  "demo_codec =
     \<lparr>wc_hello = (\<lambda>p. if p = [0] then Some demo_hello else None),
      wc_request = (\<lambda>p. if p = [1] then Some (''1'', ''session.subscribe'', SubscribeParams demo_ref None None)
                         else if p = [2] then Some (''2'', ''launch.options'', OtherParams)
                         else if p = [3] then Some (''3'', ''session.input'', InputParams demo_ref ''aGk='') else None),
      wc_params = (\<lambda>m j. Some j), wc_issues = (\<lambda>m j. j), wc_b64 = (\<lambda>s. [104, 105])\<rparr>"

definition demo_serving :: serve_options where
  "demo_serving = \<lparr>so_custody = False, so_listSessions = False, so_launch = True, so_verifyDevice = True,
     so_capabilities = None, so_sessionId = Some [7]\<rparr>"

definition demo_env :: "verdict \<Rightarrow> env" where
  "demo_env v = \<lparr>en_reserve = (\<lambda>n s. Inl LaunchRefused), en_list = (\<lambda>n. Inr []), en_writable = (\<lambda>n ob k. True),
     en_verdict = (\<lambda>h. v)\<rparr>"

definition demo_conn :: "(rpc_params, unit, string) served" where
  "demo_conn = serveConnection 5 (\<lambda>_. demo_session)"

definition demo_served :: "(rpc_params, unit, string) served" where
  "demo_served = serve_run echo_emulator demo_codec demo_serving
     [NewSessionEv demo_ref demo_session, ControlFrameEv [0] (demo_env Admit), ControlFrameEv [1] (demo_env Admit)] demo_conn"

lemmas demo_serve_defs = demo_conn_def demo_codec_def demo_serving_def demo_env_def demo_hello_def demo_ref_def
  serveConnection_def onControl_def handleHello_def parse_hello_def runDeviceGate_def admit_def evaluateCompat_def
  handleRpcPayload_def dispatch_request_def


lemma demo_ref_valid: "valid_session_ref demo_ref"
  by code_simp

lemma demo_parsed:
  "parse_hello demo_codec [0] = Some demo_hello" "evaluateCompat (he_protocol demo_hello) = CompatOk"
  "negotiate (servedCapabilities demo_serving) (he_capabilities demo_hello) = [PTY_STREAM]"
  "aget METHODS ''session.subscribe'' = Some SessionSubscribe" "aget METHODS ''session.input'' = Some SessionInput"
  by code_simp+

lemma demo_requests:
  "wc_request demo_codec [1] = Some (''1'', ''session.subscribe'', SubscribeParams demo_ref None None)"
  "wc_request demo_codec [3] = Some (''3'', ''session.input'', InputParams demo_ref ''aGk='')"
  "safeParse demo_codec SessionSubscribe (SubscribeParams demo_ref None None) = Some (SubscribeParams demo_ref None None)"
  "safeParse demo_codec SessionInput (InputParams demo_ref ''aGk='') = Some (InputParams demo_ref ''aGk='')"
  by (simp_all add: demo_codec_def safeParse_def valid_params_def demo_ref_valid MAX_INPUT_B64_def)

abbreviation demo_opening :: "(unit, string) serve_event list" where
  "demo_opening \<equiv> [NewSessionEv demo_ref demo_session, ControlFrameEv [0] (demo_env Admit)]"

definition demo_open :: "(rpc_params, unit, string) served" where
  "demo_open = demo_conn\<lparr>sv_registry := [(demo_ref, 0)], sv_sessions := (\<lambda>_. demo_session), sv_objects := 1,
     sv_phase := Serving, sv_negotiated := [PTY_STREAM],
     sv_out := [ClearTimer, SendHelloAck PROTOCOL_VERSION DEFAULT_SERVED_CAPABILITIES [7]]\<rparr>"

lemma demo_fields [simp]:
  "so_verifyDevice demo_serving" "so_sessionId demo_serving = Some [7]" "channelBinding demo_serving = [7]"
  "servedCapabilities demo_serving = DEFAULT_SERVED_CAPABILITIES" "en_verdict (demo_env v) h = v"
  "sv_phase demo_conn = AwaitingHello" "sv_closed demo_conn = False" "sv_out demo_conn = []" "sv_buffered demo_conn = []"
  "sv_hello demo_conn = None" "sv_pending demo_conn = []" "sv_subscriptions demo_conn = []" "sv_sinks demo_conn = []"
  "sv_registry demo_conn = []" "sv_objects demo_conn = 0" "sv_sessions demo_conn = (\<lambda>_. demo_session)"
  by (simp_all add: demo_serving_def channelBinding_def servedCapabilities_def demo_env_def demo_conn_def serveConnection_def)

lemma demo_opened: "serve_run echo_emulator demo_codec demo_serving demo_opening demo_conn = demo_open"
proof -
  have "se_subs demo_session = []" "se_viewports demo_session = []" "se_authority demo_session = None"
    by (simp_all add: demo_session_def)
  moreover have "fun_upd (\<lambda>_ :: nat. demo_session) 0 demo_session = (\<lambda>_. demo_session)" by auto
  ultimately have "serve_run echo_emulator demo_codec demo_serving [NewSessionEv demo_ref demo_session] demo_conn =
      demo_conn\<lparr>sv_registry := [(demo_ref, 0)], sv_sessions := (\<lambda>_. demo_session), sv_objects := 1\<rparr>"
    by (simp add: reg_register_def del: fun_upd_apply)
  moreover have "(demo_conn\<lparr>sv_registry := r, sv_sessions := h, sv_objects := n, sv_buffered := [], sv_hello := None\<rparr>) =
      demo_conn\<lparr>sv_registry := r, sv_sessions := h, sv_objects := n\<rparr>" for r h n
    by (simp add: demo_conn_def serveConnection_def)
  ultimately show ?thesis using demo_parsed(1-3)
    by (simp add: onControl_def handleHello_def runDeviceGate_def admit_def send_guarded_eq emit_out_def demo_open_def
        del: serve_step.simps(10))
      (simp add: demo_conn_def serveConnection_def)?
qed

lemma demo_open_serves:
  "sv_phase demo_open = Serving" "sv_negotiated demo_open = [PTY_STREAM]" "conn_inv demo_open"
  using serve_run_inv [of echo_emulator demo_codec demo_serving demo_opening 5 "\<lambda>_. demo_session"] demo_opened
  by (simp_all add: demo_open_def demo_conn_def)

lemma demo_served_eq: "demo_served = handleRpcPayload echo_emulator demo_codec demo_serving (demo_env Admit) [1] demo_open"
  using demo_opened demo_open_serves(1) by (simp add: demo_served_def onControl_def)

lemma demo_served_phase: "sv_phase demo_served = Serving"
  using handleRpcPayload_serving [of demo_open] demo_open_serves by (simp add: demo_served_eq serving_def)

lemma demo_capability: "requiredCapability SessionSubscribe = Some PTY_STREAM" by simp

lemma demo_session_subscribes: "\<exists>t. subscribe echo_emulator True w demo_session = Some (t, 0)"
  by (simp add: subscribe_def demo_session_def Let_def)

lemma demo_session_open: "\<not> se_ended demo_session" "se_next demo_session = 0"
  by (simp_all add: demo_session_def)

lemma demo_open_fields: "sv_registry demo_open = [(demo_ref, 0)]" "sv_sessions demo_open = (\<lambda>_. demo_session)"
  "sv_subscriptions demo_open = []" "sv_pending demo_open = []" "sv_sinks demo_open = []" "sv_closed demo_open = False"
  by (simp_all add: demo_open_def)

lemma demo_subscribed: "sv_pending demo_served = [] \<and> sv_sinks demo_served = [(0, 0)] \<and>
   (\<exists>r. SendResponse r \<in> set (sv_out demo_served))"
proof -
  let ?en = "demo_env Admit"
  obtain t where t: "subscribe echo_emulator True (en_writable ?en (sv_count demo_open) 0) demo_session = Some (t, 0)"
    using demo_session_subscribes by blast
  obtain r where r: "handleSubscribe echo_emulator ?en ''1'' demo_ref None None demo_open =
      attach echo_emulator ?en demo_ref 0 (send_response r (demo_open\<lparr>sv_touched := set_add 0 (sv_touched demo_open)\<rparr>))"
    by (simp add: handleSubscribe_def reg_get_def demo_open_fields teardown_def)
  let ?c = "send_response r (demo_open\<lparr>sv_touched := set_add 0 (sv_touched demo_open)\<rparr>)"
  have c: "sv_sessions ?c = (\<lambda>_. demo_session)" "sv_count ?c = sv_count demo_open" "sv_sinks ?c = []" "sv_pending ?c = []"
      "sv_out ?c = sv_out demo_open @ [SendResponse r]"
    by (simp_all add: send_response_def send_guarded_eq demo_open_fields)
  have a: "snd (attach echo_emulator ?en demo_ref 0 ?c) = None" "sv_pending (fst (attach echo_emulator ?en demo_ref 0 ?c)) = []"
      "sv_sinks (fst (attach echo_emulator ?en demo_ref 0 ?c)) = [(0, 0)]"
      "SendResponse r \<in> set (sv_out (fst (attach echo_emulator ?en demo_ref 0 ?c)))"
    using t by (simp_all add: attach_def c demo_open_fields demo_session_open Let_def) (simp add: on_session_eq c)
  obtain d where d: "attach echo_emulator ?en demo_ref 0 ?c = (d, None)" using a(1) by (metis prod.collapse)
  have e: "demo_served = d\<lparr>sv_count := Suc (sv_count d)\<rparr>"
    by (simp add: demo_served_eq handleRpcPayload_def dispatch_request_def demo_requests demo_parsed serve_method_def
        gated_def capabilityAllows_def demo_open_serves r d)
  show ?thesis unfolding e using a by (auto simp: d)
qed

subsection \<open>Admission\<close>

text \<open>What a dead connection ignores, and what a connection does with frames while it verifies and
  while it serves.\<close>

lemma dead_frames: "sv_phase c = DeadPhase \<Longrightarrow> fold (onControl em cd opts en) ps c = c"
  by (induction ps) (simp_all add: onControl_def)

lemma verifying_frames:
  "sv_phase c = VerifyingDevice \<Longrightarrow> length (sv_buffered c) + length ps \<le> 64 \<Longrightarrow>
   fold (onControl em cd opts en) ps c = c\<lparr>sv_buffered := sv_buffered c @ ps\<rparr>"
  by (induction ps arbitrary: c) (simp_all add: onControl_def MAX_FRAMES_WHILE_VERIFYING_def)

lemma serving_frames:
  "serving c \<Longrightarrow> fold (onControl em cd opts en) ps c = fold (handleRpcPayload em cd opts en) ps c"
proof (induction ps arbitrary: c)
  case (Cons p ps)
  then show ?case using handleRpcPayload_serving [OF Cons.prems, of em cd opts en p]
    by (simp add: onControl_def serving_def)
qed simp

lemma run_frames: "serve_run em cd opts (map (\<lambda>q. ControlFrameEv q en) ps) c = fold (onControl em cd opts en) ps c"
  by (induction ps arbitrary: c) simp_all

lemma delayed_admission:
  assumes c: "c = serve_run em cd opts pre (serveConnection viewer heap)" and ph: "sv_phase c = AwaitingHello"
    and buf: "sv_buffered c = []" and gate: "so_verifyDevice opts" and len: "length ps \<le> 64"
    and slow: "\<And>h. en_verdict slow h = Pending" and quick: "\<And>h. en_verdict quick h = Admit"
  shows "serve_run em cd opts (ControlFrameEv p slow # map (\<lambda>q. ControlFrameEv q meanwhile) ps @ [VerdictEv (Some True) en]) c =
    serve_run em cd opts (ControlFrameEv p quick # map (\<lambda>q. ControlFrameEv q en) ps) c"
proof -
  let ?c0 = "emit_out ClearTimer c"
  let ?c1 = "send_guarded (SendHelloAck PROTOCOL_VERSION (servedCapabilities opts) (channelBinding opts)) ?c0"
  have inv: "conn_inv c" unfolding c by (rule serve_run_inv)
  have c1: "conn_inv ?c1" "sv_phase ?c1 = AwaitingHello" "sv_buffered ?c1 = []" using inv ph buf by simp_all
  have same: "failClosed em slow m d = failClosed em quick m d" if "conn_inv d" "sv_phase d = AwaitingHello" for m d
    using early_facts [OF that(1)] that(2) by (simp add: failClosed_idle)
  have refused: "?thesis" if "onControl em cd opts slow p c = d" "onControl em cd opts quick p c = d" "sv_phase d = DeadPhase" for d
    using that by (simp add: run_frames dead_frames verdict_settled_def)
  show ?thesis
  proof (cases "parse_hello cd p")
    case None
    show ?thesis by (rule refused [of "failClosed em slow ''handshake violation: first control frame was not a Hello'' ?c0"])
        (use None ph inv in \<open>simp_all add: onControl_def handleHello_def same\<close>)
  next
    case (Some h)
    show ?thesis
    proof (cases "evaluateCompat (he_protocol h) = CompatOk \<and> so_sessionId opts \<noteq> None")
      case False
      show ?thesis by (rule refused [of "failClosed em slow (if evaluateCompat (he_protocol h) = CompatOk then NOT_AUTHORIZED
            else ''version incompatible'') ?c1"])
          (use False Some ph c1 gate in \<open>auto simp: onControl_def handleHello_def runDeviceGate_def same Let_def\<close>)
    next
      case True
      let ?v = "?c1\<lparr>sv_phase := VerifyingDevice, sv_hello := Some h\<rparr>"
      let ?s = "?c1\<lparr>sv_negotiated := negotiate (servedCapabilities opts) (he_capabilities h), sv_phase := Serving,
          sv_buffered := [], sv_hello := None\<rparr>"
      have "serving ?s" using c1 by (intro enter_serving) simp_all
      then have fast: "serve_run em cd opts (ControlFrameEv p quick # map (\<lambda>q. ControlFrameEv q en) ps) c =
          fold (handleRpcPayload em cd opts en) ps ?s"
        using Some True ph gate quick c1
        by (auto simp add: onControl_def handleHello_def runDeviceGate_def admit_def Let_def run_frames serving_frames)
      have held: "fold (onControl em cd opts meanwhile) ps ?v = ?v\<lparr>sv_buffered := ps\<rparr>"
        using verifying_frames [of ?v ps em cd opts meanwhile] len c1 by simp
      have "serve_run em cd opts (ControlFrameEv p slow # map (\<lambda>q. ControlFrameEv q meanwhile) ps @ [VerdictEv (Some True) en]) c =
          verdict_settled em cd opts en (Some True) (?v\<lparr>sv_buffered := ps\<rparr>)"
        using Some True ph gate slow held by (auto simp add: onControl_def handleHello_def runDeviceGate_def Let_def run_frames)
      also have "\<dots> = fold (handleRpcPayload em cd opts en) ps ?s"
        by (simp add: verdict_settled_def admit_def)
      finally show ?thesis using fast by simp
    qed
  qed
qed

text \<open>C15: nothing is served before admission. Whatever a connection did for its peer (an answer, a
  terminal frame, a hook called) it did behind an admission in its history: the first control frame was a
  well-formed hello of a compatible version; and where there is a device gate the channel had a
  session id to bind the claim to, and the gate let the claim pass, at once or by a later
  verdict.\<close>

theorem admission_before_service:
  assumes "x \<in> set (sv_out (serve_run em cd opts evs (serveConnection viewer heap)))"
    and "case x of SendResponse r \<Rightarrow> True | SendBinary b \<Rightarrow> True | CallReserve spec \<Rightarrow> True | CallClaim ref \<Rightarrow> True
      | CallLaunchOptions \<Rightarrow> True | CallLaunchStart lp \<Rightarrow> True | _ \<Rightarrow> False"
  shows "\<exists>pre p en post h. evs = pre @ ControlFrameEv p en # post \<and> \<not> list_ex control_frame pre \<and>
    parse_hello cd p = Some h \<and> evaluateCompat (he_protocol h) = CompatOk \<and>
    (so_verifyDevice opts \<longrightarrow> so_sessionId opts \<noteq> None \<and>
       (en_verdict en h = Admit \<or> (en_verdict en h = Pending \<and> (\<exists>en'. VerdictEv (Some True) en' \<in> set post))))"
proof -
  have "is_service x" using assms(2) by (cases x) simp_all
  then obtain h where "admitted cd opts evs h"
    using serve_run_history [of cd opts evs em viewer heap] assms(1) unfolding served_history_def by blast
  then show ?thesis unfolding admitted_def greeted_def by blast
qed

theorem admission_before_service_witness:
  "\<exists>pre p en post h. demo_opening @ [ControlFrameEv [1] (demo_env Admit)] = pre @ ControlFrameEv p en # post \<and>
     parse_hello demo_codec p = Some h \<and> (en_verdict en h = Admit \<or> en_verdict en h = Pending)"
proof -
  obtain r where "SendResponse r \<in> set (sv_out demo_served)" using demo_subscribed by blast
  then have "SendResponse r \<in> set (sv_out (serve_run echo_emulator demo_codec demo_serving
      (demo_opening @ [ControlFrameEv [1] (demo_env Admit)]) (serveConnection 5 (\<lambda>_. demo_session))))"
    by (simp add: demo_served_def demo_conn_def del: serve_step.simps)
  from admission_before_service [OF this] show ?thesis by simp (metis (no_types, lifting))
qed

text \<open>A verification that takes its time changes nothing else. A controller that sends its hello and at
  once up to 64 requests is served exactly as if the device gate had admitted it on the spot and the
  requests had come behind: the same answers, sessions, hooks and counts, in the same order, whatever
  the hello was.\<close>

lemma verification_delay_is_invisible:
  assumes "c = serve_run em cd opts pre (serveConnection viewer heap)" and "sv_phase c = AwaitingHello"
    and "sv_buffered c = []" and "so_verifyDevice opts" and "length ps \<le> 64"
    and "\<And>h. en_verdict slow h = Pending" and "\<And>h. en_verdict quick h = Admit"
  shows "serve_run em cd opts (ControlFrameEv p slow # map (\<lambda>q. ControlFrameEv q meanwhile) ps @ [VerdictEv (Some True) en]) c =
    serve_run em cd opts (ControlFrameEv p quick # map (\<lambda>q. ControlFrameEv q en) ps) c"
  using assms delayed_admission by blast

lemma verification_delay_is_invisible_witness:
  "serve_run echo_emulator demo_codec demo_serving
     [ControlFrameEv [0] (demo_env Pending), ControlFrameEv [1] (demo_env Pending), ControlFrameEv [3] (demo_env Pending),
      VerdictEv (Some True) (demo_env Admit)] demo_conn =
   serve_run echo_emulator demo_codec demo_serving
     [ControlFrameEv [0] (demo_env Admit), ControlFrameEv [1] (demo_env Admit), ControlFrameEv [3] (demo_env Admit)] demo_conn"
  using verification_delay_is_invisible [of demo_conn echo_emulator demo_codec demo_serving "[]" 5 "\<lambda>_. demo_session"
      "[[1], [3]]" "demo_env Pending" "demo_env Admit" "[0]" "demo_env Pending" "demo_env Admit"]
  by (simp add: demo_conn_def [symmetric] del: serve_step.simps)

subsection \<open>Requests\<close>

text \<open>C16: every request is answered exactly once. Run a connection through any events in which no
  session in use is disposed, and let it still serve: the ids it has answered, with those whose hook
  it still awaits, are exactly the ids of the well-formed requests among the control frames behind
  the hello, each as often as it was requested, whether they came while the device was being
  verified or later, whatever the hooks answered, returned or threw. Nothing is answered
  that was not asked.\<close>

theorem every_request_is_answered_once:
  assumes "c = serve_run em cd opts evs (serveConnection viewer heap)" and "sv_phase c = Serving"
    and "list_all keeps_sessions evs"
  shows "mset (answered (sv_out c)) + mset (map fst (sv_pending c)) =
    mset (concat (map (\<lambda>p. case wc_request cd p of None \<Rightarrow> [] | Some req \<Rightarrow> [fst req]) (tl (control_payloads evs))))"
proof -
  have "balanced cd evs c" "sv_buffered c = []"
    using serve_run_answers [of cd opts evs em viewer heap] assms by (auto simp: answer_history_def balanced_def)
  moreover have "sum_list (map (request_id cd) ps) =
      mset (concat (map (\<lambda>p. case wc_request cd p of None \<Rightarrow> [] | Some req \<Rightarrow> [fst req]) ps))" for ps
    by (induction ps) (auto simp: request_id_def split: option.split)
  ultimately show ?thesis by (simp add: balanced_def accounted_def requested_def)
qed

theorem every_request_is_answered_once_witness:
  "answered (sv_out demo_served) = [''1'']"
proof -
  have run: "demo_served = serve_run echo_emulator demo_codec demo_serving
      (demo_opening @ [ControlFrameEv [1] (demo_env Admit)]) (serveConnection 5 (\<lambda>_. demo_session))"
    by (simp add: demo_served_def demo_conn_def del: serve_step.simps)
  have keeps: "list_all keeps_sessions (demo_opening @ [ControlFrameEv [1] (demo_env Admit)])"
    by (simp add: demo_session_def)
  have "tl (control_payloads (demo_opening @ [ControlFrameEv [1] (demo_env Admit)])) = [[1]]"
    by (simp add: control_payloads_def)
  then have "mset (answered (sv_out demo_served)) = {#''1''#}"
    using every_request_is_answered_once [OF run demo_served_phase keeps] demo_subscribed demo_requests by simp
  then show ?thesis by simp
qed

text \<open>A capability that was not negotiated opens nothing. A well-formed request for a method that needs
  one changes nothing on the host: no session is read or written, no hook is called; the only
  effect is one refusal, which names the capability (or says the method is not served at all).\<close>

lemma unnegotiated_is_forbidden:
  assumes "sv_phase c = Serving" and "wc_request cd p = Some (rid, name, j)" and "aget METHODS name = Some m"
    and "safeParse cd m j = Some q" and "requiredCapability m = Some cap" and "cap \<notin> set (sv_negotiated c)"
  shows "onControl em cd opts en p c =
    (send_response (if m \<in> {SessionApprove, SandboxSpawn, AttentionRaise} then unsupported rid name
       else not_negotiated rid cap) c)\<lparr>sv_count := Suc (sv_count c)\<rparr>"
proof -
  have valid: "valid_params m q" using assms(4) by (auto simp: safeParse_def split: option.splits if_splits)
  have "dispatch_request em cd opts en (rid, name, j) c = (send_response (if m \<in> {SessionApprove, SandboxSpawn, AttentionRaise}
      then unsupported rid name else not_negotiated rid cap) c, None)"
    using assms(3-6) valid
    by (cases m; cases q) (auto simp: dispatch_request_def serve_method_def gated_def capabilityAllows_def valid_params_def)
  then show ?thesis using assms(1,2) by (simp add: onControl_def handleRpcPayload_def send_response_def)
qed

lemma unnegotiated_is_forbidden_witness:
  "onControl echo_emulator demo_codec demo_serving (demo_env Admit) [3] demo_open =
     demo_open\<lparr>sv_count := Suc (sv_count demo_open),
       sv_out := sv_out demo_open @ [SendResponse (RpcError ''3'' Forbidden (''capability not negotiated: '' @ SESSION_INPUT)
         (Some (CapabilityData SESSION_INPUT)))]\<rparr>"
proof -
  have "SESSION_INPUT \<noteq> PTY_STREAM" by (simp add: SESSION_INPUT_def PTY_STREAM_def)
  then have "onControl echo_emulator demo_codec demo_serving (demo_env Admit) [3] demo_open =
      (send_response (not_negotiated ''3'' SESSION_INPUT) demo_open)\<lparr>sv_count := Suc (sv_count demo_open)\<rparr>"
    using unnegotiated_is_forbidden [OF demo_open_serves(1) demo_requests(2) demo_parsed(5) demo_requests(4), of SESSION_INPUT]
      demo_open_serves(2) by simp
  then show ?thesis
    by (simp add: send_response_def send_guarded_eq not_negotiated_def failure_def demo_open_fields)
qed

subsection \<open>Departure\<close>

lemma dead_clean:
  assumes "dead c"
  shows "(\<forall>ob k. (ob, k) \<in> set (sv_sinks c) \<longrightarrow> k \<notin> sub_id ` set (se_subs (sv_sessions c ob))) \<and>
    (\<forall>ob < sv_objects c. aget (se_viewports (sv_sessions c ob)) (sv_viewer c) = None \<and>
       se_authority (sv_sessions c ob) \<noteq> Some (sv_viewer c))"
proof -
  have f: "sv_subscriptions c = []" "sv_touched c = []" using dead_facts [OF assms] by simp_all
  have "conn_inv c" using assms by (simp add: dead_def)
  then have "sinks_kept c" "marks_kept c" by (simp_all add: conn_inv_def)
  then have "k \<notin> sink_ids (sv_sessions c ob)" if "(ob, k) \<in> set (sv_sinks c)" for ob k
    using that f by (auto simp: sinks_kept_def)
  moreover have "\<not> marked (sv_viewer c) (sv_sessions c ob)" if "ob < sv_objects c" for ob
    using \<open>marks_kept c\<close> that f by (auto simp: marks_kept_def)
  ultimately show ?thesis unfolding sink_ids_def marked_def by (auto simp: map_of_eq_None_iff)
qed

text \<open>Closing leaves nothing behind. Whatever a connection did, once its channel closes or its handle
  is closed no session feeds a sink of its making or keeps a viewport or the size authority for its
  viewer, now or after any later events; and all it still does on the outside is clear its
  timer, ask the channel to close, and report errors.\<close>

lemma closing_leaves_nothing:
  assumes "c = serve_run em cd opts evs (serveConnection viewer heap)"
    and "e = ChannelClosedEv en \<or> e = CloseConnectionEv en"
    and "d = serve_run em cd opts later (serve_step em cd opts e c)"
  shows "(\<forall>ob k. (ob, k) \<in> set (sv_sinks d) \<longrightarrow> k \<notin> sub_id ` set (se_subs (sv_sessions d ob))) \<and>
    (\<forall>ob < sv_objects d. aget (se_viewports (sv_sessions d ob)) (sv_viewer d) = None \<and>
       se_authority (sv_sessions d ob) \<noteq> Some (sv_viewer d)) \<and>
    (\<exists>xs. sv_out d = sv_out (serve_step em cd opts e c) @ xs \<and>
       (\<forall>x \<in> set xs. x = ClearTimer \<or> x = CloseChannel \<or> (\<exists>m. x = ReportError m)))"
proof -
  have c: "conn_inv c" unfolding assms(1) by (rule serve_run_inv)
  have "sv_phase (serve_step em cd opts e c) = DeadPhase"
    using assms(2) c by (auto simp: channel_closed_def serve_close_def conn_inv_def phase_ok_def)
  then have "dead (serve_step em cd opts e c)" using serve_step_inv [OF c] by (simp add: dead_def)
  from dead_run [OF this, of em cd opts later]
  have d: "dead d" and out: "\<exists>xs. sv_out d = sv_out (serve_step em cd opts e c) @ xs \<and> list_all housekeeping xs"
    unfolding assms(3) by blast+
  show ?thesis using dead_clean [OF d] out unfolding list_all_iff housekeeping_def by blast
qed

lemma closing_leaves_nothing_witness:
  "(0, 0) \<in> set (sv_sinks demo_served) \<and>
   0 \<notin> sub_id ` set (se_subs (sv_sessions (serve_step echo_emulator demo_codec demo_serving
     (ChannelClosedEv (demo_env Admit)) demo_served) 0))"
proof -
  let ?d = "serve_step echo_emulator demo_codec demo_serving (ChannelClosedEv (demo_env Admit)) demo_served"
  have run: "demo_served = serve_run echo_emulator demo_codec demo_serving
      (demo_opening @ [ControlFrameEv [1] (demo_env Admit)]) (serveConnection 5 (\<lambda>_. demo_session))"
    by (simp add: demo_served_def demo_conn_def del: serve_step.simps)
  obtain H xs where t: "teardownAll echo_emulator (demo_env Admit) (demo_served\<lparr>sv_channelOpen := False, sv_closed := True\<rparr>) =
      (demo_served\<lparr>sv_channelOpen := False, sv_closed := True\<rparr>)\<lparr>sv_phase := DeadPhase, sv_subscriptions := [],
        sv_resumers := [], sv_touched := [], sv_sessions := H, sv_out := sv_out demo_served @ xs\<rparr>"
    by (rule teardownAll_cases [of echo_emulator "demo_env Admit" "demo_served\<lparr>sv_channelOpen := False, sv_closed := True\<rparr>"])
      simp
  have "sv_sinks ?d = [(0, 0)]" using demo_subscribed t by (simp add: channel_closed_def)
  then show ?thesis
    using closing_leaves_nothing [OF run disjI1 [OF refl], where d = ?d and later = "[]" and en = "demo_env Admit"] demo_subscribed by simp
qed

end
