(* ===== verification/Events.thy ===== *)
theory Events
  imports PtyFrame
begin

text \<open>
  \<open>packages/sdk/src/events.ts\<close>: the controller's view of a mirrored session as a stream of decoded
  events. A stream is read in two ways at once, by listeners and by iterators; a listener is a
  number, and so is a call of \<open>next\<close> (in the order they were made). What they are given is logged in
  \<open>es_out\<close>. A listener does not throw and does not call the stream back.
\<close>

subsection \<open>State\<close>

definition MAX_SNAPSHOT_BYTES :: nat where
  "MAX_SNAPSHOT_BYTES = 8 * 1024 * 1024"

definition MAX_SNAPSHOT_CHUNKS :: nat where
  "MAX_SNAPSHOT_CHUNKS = 4096"

datatype pty_event =
    SnapshotEvent nat nat nat bytes
  | OutputEvent nat bytes
  | ResizeEvent nat nat nat
  | EndedEvent nat "int option"
  | GapEvent nat

record pending_snapshot =
  ps_seq :: nat
  ps_cols :: nat
  ps_rows :: nat
  ps_chunks :: "bytes list"
  ps_bytes :: nat

text \<open>A listener is called, a \<open>next\<close> yields a value, says it is done, or rejects.\<close>

datatype stream_out = Heard nat pty_event | Yielded nat pty_event | PullDone nat | PullRejected nat

record event_stream =
  es_queue :: "pty_event list"
  es_pullers :: "nat list"
  es_listeners :: "nat list"
  es_snapshot :: "pending_snapshot option"
  es_ended :: bool
  es_error :: bool
  es_pulls :: nat
  es_out :: "stream_out list"

definition new_stream :: event_stream where
  "new_stream = \<lparr>es_queue = [], es_pullers = [], es_listeners = [], es_snapshot = None, es_ended = False,
     es_error = False, es_pulls = 0, es_out = []\<rparr>"

subsection \<open>Operations\<close>

definition onEvent :: "nat \<Rightarrow> event_stream \<Rightarrow> event_stream" where
  "onEvent l s = (if l \<in> set (es_listeners s) then s else s\<lparr>es_listeners := es_listeners s @ [l]\<rparr>)"

definition push_event :: "pty_event \<Rightarrow> event_stream \<Rightarrow> event_stream" where
  "push_event e s =
     (if es_ended s then s
      else
        let s1 = s\<lparr>es_out := es_out s @ map (\<lambda>l. Heard l e) (es_listeners s)\<rparr>
        in case es_pullers s1 of
             [] \<Rightarrow> s1\<lparr>es_queue := es_queue s1 @ [e]\<rparr>
           | p # ps \<Rightarrow> s1\<lparr>es_pullers := ps, es_out := es_out s1 @ [Yielded p e]\<rparr>)"

definition end_stream :: "event_stream \<Rightarrow> event_stream" where
  "end_stream s =
     (if es_ended s then s
      else s\<lparr>es_ended := True, es_out := es_out s @ map PullDone (es_pullers s), es_pullers := []\<rparr>)"

definition fail_stream :: "event_stream \<Rightarrow> event_stream" where
  "fail_stream s =
     (if es_ended s then s
      else s\<lparr>es_ended := True, es_error := True, es_snapshot := None,
             es_out := es_out s @ map PullRejected (es_pullers s), es_pullers := []\<rparr>)"

text \<open>\<open>next\<close>; \<open>shift\<close> takes the head.\<close>

definition next_event :: "event_stream \<Rightarrow> event_stream" where
  "next_event s0 =
     (let n = es_pulls s0; s = s0\<lparr>es_pulls := Suc n\<rparr>
      in case es_queue s of
           e # q \<Rightarrow> s\<lparr>es_queue := q, es_out := es_out s @ [Yielded n e]\<rparr>
         | [] \<Rightarrow>
             if es_error s then s\<lparr>es_out := es_out s @ [PullRejected n]\<rparr>
             else if es_ended s then s\<lparr>es_out := es_out s @ [PullDone n]\<rparr>
             else s\<lparr>es_pullers := es_pullers s @ [n]\<rparr>)"

definition add_chunk :: "bytes \<Rightarrow> pending_snapshot \<Rightarrow> pending_snapshot" where
  "add_chunk b p = p\<lparr>ps_chunks := ps_chunks p @ [b], ps_bytes := ps_bytes p + length b\<rparr>"

text \<open>\<open>None\<close> is the throw of a payload decoder.\<close>

definition ingest :: "pty_frame \<Rightarrow> event_stream \<Rightarrow> event_stream option" where
  "ingest f s =
     (case opcode_of (pf_opcode f) of
        None \<Rightarrow> Some s
      | Some SnapshotStart \<Rightarrow>
          (case decodeSizePayload (pf_payload f) of
             None \<Rightarrow> None
           | Some z \<Rightarrow> Some (s\<lparr>es_snapshot := Some \<lparr>ps_seq = pf_seq f, ps_cols = sz_cols z, ps_rows = sz_rows z,
                                                   ps_chunks = [], ps_bytes = 0\<rparr>\<rparr>))
      | Some SnapshotChunk \<Rightarrow>
          (case es_snapshot s of
             None \<Rightarrow> Some s
           | Some p \<Rightarrow>
               let p1 = add_chunk (pf_payload f) p; s1 = s\<lparr>es_snapshot := Some p1\<rparr>
               in Some (if MAX_SNAPSHOT_BYTES < ps_bytes p1 \<or> MAX_SNAPSHOT_CHUNKS < length (ps_chunks p1)
                        then fail_stream s1 else s1))
      | Some SnapshotEnd \<Rightarrow>
          (let s1 = s\<lparr>es_snapshot := None\<rparr>
           in case es_snapshot s of
                None \<Rightarrow> Some s1
              | Some p \<Rightarrow> Some (push_event (SnapshotEvent (ps_seq p) (ps_cols p) (ps_rows p) (concat (ps_chunks p))) s1))
      | Some Output \<Rightarrow> Some (push_event (OutputEvent (pf_seq f) (pf_payload f)) s)
      | Some Resized \<Rightarrow>
          (case decodeSizePayload (pf_payload f) of
             None \<Rightarrow> None
           | Some z \<Rightarrow> Some (push_event (ResizeEvent (pf_seq f) (sz_cols z) (sz_rows z)) s))
      | Some Ended \<Rightarrow>
          (case decodeExitPayload (pf_payload f) of
             None \<Rightarrow> None
           | Some code \<Rightarrow> Some (end_stream (push_event (EndedEvent (pf_seq f) code) s)))
      | Some Gap \<Rightarrow> Some (push_event (GapEvent (pf_seq f)) s))"

subsection \<open>The stream as a machine\<close>

datatype stream_event = IngestEv pty_frame | PullEv | ListenEv nat | EndEv

text \<open>A throw leaves the stream as it was and goes to the caller.\<close>

fun stream_step :: "stream_event \<Rightarrow> event_stream \<Rightarrow> event_stream" where
  "stream_step (IngestEv f) s = (case ingest f s of None \<Rightarrow> s | Some s' \<Rightarrow> s')"
| "stream_step PullEv s = next_event s"
| "stream_step (ListenEv l) s = onEvent l s"
| "stream_step EndEv s = end_stream s"

abbreviation stream_run :: "stream_event list \<Rightarrow> event_stream \<Rightarrow> event_stream" where
  "stream_run evs s \<equiv> fold stream_step evs s"

end
