(* ===== verification/EventsReplay.thy ===== *)
theory EventsReplay
  imports Events Prelude SessionSizing
begin

text \<open>
  What holds of an event stream: the iterator and a listener are given the same events, in order and
  once each; a snapshot being put together is bounded while the stream lives; and the events of a
  well-numbered frame stream say exactly what its frames say, so that the consumer can rebuild the
  session's emulator from them.

  From a session's frames to the consumer's events. What a session sends to a sink is a sequence of
  whole snapshots and single live frames, with payloads that decode; over such a stream the events
  replay to exactly the view of the frames, unless a snapshot is larger than the stream puts up with.

  The events of a session's frames replay to the view of the frames: by groups, each of which is one
  event. With the session's own invariant a consumer of the events can rebuild the emulator.
\<close>

subsection \<open>Listeners and iterators\<close>

fun heard_by :: "nat \<Rightarrow> stream_out list \<Rightarrow> pty_event list" where
  "heard_by l [] = []"
| "heard_by l (Heard k e # xs) = (if k = l then e # heard_by l xs else heard_by l xs)"
| "heard_by l (x # xs) = heard_by l xs"

fun yielded :: "stream_out list \<Rightarrow> pty_event list" where
  "yielded [] = []"
| "yielded (Yielded n e # xs) = e # yielded xs"
| "yielded (x # xs) = yielded xs"

fun settled_pulls :: "stream_out list \<Rightarrow> nat list" where
  "settled_pulls [] = []"
| "settled_pulls (Yielded n e # xs) = n # settled_pulls xs"
| "settled_pulls (PullDone n # xs) = n # settled_pulls xs"
| "settled_pulls (PullRejected n # xs) = n # settled_pulls xs"
| "settled_pulls (Heard l e # xs) = settled_pulls xs"

lemma heard_by_append [simp]: "heard_by l (xs @ ys) = heard_by l xs @ heard_by l ys"
  by (induction l xs rule: heard_by.induct) auto

lemma yielded_append [simp]: "yielded (xs @ ys) = yielded xs @ yielded ys"
  by (induction xs rule: yielded.induct) auto

lemma settled_pulls_append [simp]: "settled_pulls (xs @ ys) = settled_pulls xs @ settled_pulls ys"
  by (induction xs rule: settled_pulls.induct) auto

lemma stream_log_pulls [simp]:
  "heard_by l (map PullDone ps) = []" "heard_by l (map PullRejected ps) = []"
  "yielded (map PullDone ps) = []" "yielded (map PullRejected ps) = []"
  "settled_pulls (map PullDone ps) = ps" "settled_pulls (map PullRejected ps) = ps"
  by (induction ps; simp)+

lemma stream_log_heard [simp]:
  "yielded (map (\<lambda>l. Heard l e) ls) = []" "settled_pulls (map (\<lambda>l. Heard l e) ls) = []"
  by (induction ls; simp)+

lemma heard_all: "distinct ls \<Longrightarrow> heard_by l (map (\<lambda>k. Heard k e) ls) = (if l \<in> set ls then [e] else [])"
  by (induction ls) auto

definition stream_inv :: "nat \<Rightarrow> event_stream \<Rightarrow> bool" where
  "stream_inv l s \<longleftrightarrow>
     l \<in> set (es_listeners s) \<and> distinct (es_listeners s) \<and>
     heard_by l (es_out s) = yielded (es_out s) @ es_queue s \<and>
     settled_pulls (es_out s) @ es_pullers s = [0..<es_pulls s] \<and>
     (es_queue s \<noteq> [] \<longrightarrow> es_pullers s = []) \<and> (es_ended s \<longrightarrow> es_pullers s = []) \<and> (es_error s \<longrightarrow> es_ended s)"

lemma stream_inv_snapshot [simp]: "stream_inv l (s\<lparr>es_snapshot := p\<rparr>) = stream_inv l s"
  by (simp add: stream_inv_def)

lemma push_event_inv: "stream_inv l s \<Longrightarrow> stream_inv l (push_event e s)"
  unfolding push_event_def Let_def by (auto simp: stream_inv_def heard_all split: list.split)

lemma end_stream_inv: "stream_inv l s \<Longrightarrow> stream_inv l (end_stream s)"
  by (auto simp: stream_inv_def end_stream_def)

lemma fail_stream_inv: "stream_inv l s \<Longrightarrow> stream_inv l (fail_stream s)"
  by (auto simp: stream_inv_def fail_stream_def)

lemma next_event_inv: "stream_inv l s \<Longrightarrow> stream_inv l (next_event s)"
  unfolding next_event_def Let_def by (cases "es_queue s") (auto simp: stream_inv_def)

lemma onEvent_inv: "stream_inv l s \<Longrightarrow> stream_inv l (onEvent k s)"
  by (auto simp: stream_inv_def onEvent_def)

lemma ingest_inv: "stream_inv l s \<Longrightarrow> ingest f s = Some t \<Longrightarrow> stream_inv l t"
  by (auto simp: ingest_def push_event_inv end_stream_inv fail_stream_inv Let_def
      split: option.splits pty_opcode.splits if_splits)

lemma stream_step_inv: "stream_inv l s \<Longrightarrow> stream_inv l (stream_step ev s)"
  by (cases ev) (auto simp: ingest_inv next_event_inv onEvent_inv end_stream_inv split: option.split)

interpretation event_stream: machine stream_step "\<lambda>_. True" "stream_inv l" for l
  by unfold_locales (rule stream_step_inv)

lemma new_stream_inv: "stream_inv l (onEvent l new_stream)"
  by (simp add: stream_inv_def onEvent_def new_stream_def)

lemma stream_run_inv: "stream_inv l (stream_run evs (onEvent l new_stream))"
  by (rule event_stream.run_inv [OF new_stream_inv]) (simp add: list_all_iff)

subsection \<open>The bound on reassembly\<close>

definition bounded_reassembly :: "event_stream \<Rightarrow> bool" where
  "bounded_reassembly s \<longleftrightarrow>
     \<not> es_ended s \<longrightarrow>
     (\<forall>p. es_snapshot s = Some p \<longrightarrow> ps_bytes p = length (concat (ps_chunks p)) \<and>
        ps_bytes p \<le> MAX_SNAPSHOT_BYTES \<and> length (ps_chunks p) \<le> MAX_SNAPSHOT_CHUNKS)"

lemma push_event_bounded: "bounded_reassembly s \<Longrightarrow> bounded_reassembly (push_event e s)"
  unfolding push_event_def Let_def by (auto simp: bounded_reassembly_def split: list.split)

lemma ended_bounded: "es_ended s \<Longrightarrow> bounded_reassembly s"
  by (simp add: bounded_reassembly_def)

lemma end_fail_ended [simp]: "es_ended (end_stream s)" "es_ended (fail_stream s)"
  by (simp_all add: end_stream_def fail_stream_def)

lemma end_fail_bounded [simp]: "bounded_reassembly (end_stream s)" "bounded_reassembly (fail_stream s)"
  by (simp_all add: ended_bounded)

lemma stream_step_bounded: "bounded_reassembly s \<Longrightarrow> bounded_reassembly (stream_step ev s)"
proof (cases ev)
  case (IngestEv f)
  assume b: "bounded_reassembly s"
  have chunk: "bounded_reassembly (s\<lparr>es_snapshot := Some (add_chunk c p)\<rparr>)"
    if "es_snapshot s = Some p" "ps_bytes (add_chunk c p) \<le> MAX_SNAPSHOT_BYTES"
      "length (ps_chunks (add_chunk c p)) \<le> MAX_SNAPSHOT_CHUNKS" for c p
    using b that by (auto simp: bounded_reassembly_def add_chunk_def)
  have fresh: "bounded_reassembly (s\<lparr>es_snapshot := None\<rparr>)"
    "bounded_reassembly (s\<lparr>es_snapshot := Some \<lparr>ps_seq = n, ps_cols = c, ps_rows = r, ps_chunks = [], ps_bytes = 0\<rparr>\<rparr>)" for n c r
    by (simp_all add: bounded_reassembly_def)
  have "bounded_reassembly t" if "ingest f s = Some t" for t
    using that b fresh
    by (auto simp: ingest_def Let_def not_less intro!: push_event_bounded chunk
        split: option.splits pty_opcode.splits if_splits)
  then show ?thesis using IngestEv b by (simp split: option.split)
qed (auto simp: bounded_reassembly_def next_event_def onEvent_def end_stream_def Let_def split: list.split)

interpretation reassembly: machine stream_step "\<lambda>_. True" bounded_reassembly
  by unfold_locales (rule stream_step_bounded)

text \<open>Once the stream has ended the bound no longer binds: \<open>fail\<close> returns early, and the snapshot
  grows with every chunk.\<close>

lemma ended_chunk:
  assumes "es_ended s" and "es_snapshot s = Some p" and "opcode_of (pf_opcode f) = Some SnapshotChunk"
  shows "ingest f s = Some (s\<lparr>es_snapshot := Some (add_chunk (pf_payload f) p)\<rparr>)"
  using assms by (simp add: ingest_def fail_stream_def Let_def)

lemma ended_stream_grows:
  assumes "es_ended s" and "es_snapshot s = Some p"
  shows "\<exists>q. es_snapshot (stream_run (map IngestEv (replicate n \<lparr>pf_opcode = 3, pf_streamId = i, pf_seq = k, pf_payload = b\<rparr>)) s) = Some q \<and>
    length (ps_chunks q) = length (ps_chunks p) + n \<and> ps_bytes q = ps_bytes p + n * length b"
  using assms
proof (induction n arbitrary: s p)
  case (Suc n)
  let ?f = "\<lparr>pf_opcode = 3, pf_streamId = i, pf_seq = k, pf_payload = b\<rparr>"
  have "ingest ?f s = Some (s\<lparr>es_snapshot := Some (add_chunk b p)\<rparr>)"
    using ended_chunk [OF Suc.prems, of ?f] by (simp add: opcode_of_def)
  then show ?case using Suc.IH [of "s\<lparr>es_snapshot := Some (add_chunk b p)\<rparr>" "add_chunk b p"] Suc.prems
    by (auto simp: add_chunk_def)
qed simp

subsection \<open>What a session sends comes in groups\<close>

fun sound_payload :: "pty_opcode \<Rightarrow> bytes \<Rightarrow> bool" where
  "sound_payload Resized p = (decodeSizePayload p \<noteq> None)"
| "sound_payload Ended p = (decodeExitPayload p \<noteq> None)"
| "sound_payload Output p = True"
| "sound_payload Gap p = True"
| "sound_payload _ p = False"

definition is_group :: "'m emulator \<Rightarrow> bytes list \<Rightarrow> bool" where
  "is_group em g \<longleftrightarrow>
     (\<exists>s. g = map encodePtyFrame (snapshot_frames em s)) \<or>
     (\<exists>st op p n. sound_payload op p \<and> g = [encodePtyFrame (session_frame st op p n)])"

definition in_groups :: "'m emulator \<Rightarrow> bytes list \<Rightarrow> bool" where
  "in_groups em bs \<longleftrightarrow> (\<exists>gs. bs = concat gs \<and> list_all (is_group em) gs)"

lemma in_groups_Nil [simp]: "in_groups em []"
  unfolding in_groups_def by (rule exI [of _ "[]"]) simp

lemma in_groups_append: "in_groups em xs \<Longrightarrow> in_groups em ys \<Longrightarrow> in_groups em (xs @ ys)"
proof -
  assume "in_groups em xs" and "in_groups em ys"
  then obtain gs hs where "xs = concat gs" "list_all (is_group em) gs" "ys = concat hs" "list_all (is_group em) hs"
    by (auto simp: in_groups_def)
  then show ?thesis unfolding in_groups_def by (intro exI [of _ "gs @ hs"]) simp
qed

lemma in_groups_one: "is_group em g \<Longrightarrow> in_groups em g"
  unfolding in_groups_def by (rule exI [of _ "[g]"]) simp

lemma snapshot_group [simp]: "in_groups em (map encodePtyFrame (snapshot_frames em s))"
  by (rule in_groups_one) (auto simp: is_group_def)

lemma live_group: "sound_payload op p \<Longrightarrow> in_groups em [encodePtyFrame (session_frame st op p n)]"
  by (rule in_groups_one, unfold is_group_def) blast

lemma exit_sound [simp]: "sound_payload Ended (encodeExitPayload code)"
proof (cases code)
  case (Some c)
  have "length (le_bytes 4 (nat (c mod 2 ^ 32))) = 4" by (rule length_le_bytes)
  then show ?thesis using Some by (simp add: decodeExitPayload_def encodeExitPayload_def)
qed (simp add: decodeExitPayload_def encodeExitPayload_def)

lemma size_sound: "sound_payload Resized (encodeSizePayload z)"
  by (simp add: decode_encode_size)

definition adds_groups :: "'m emulator \<Rightarrow> 'm session \<Rightarrow> 'm session \<Rightarrow> bool" where
  "adds_groups em s t \<longleftrightarrow>
     (\<forall>k. \<exists>bs. frames_to k (se_out t) = frames_to k (se_out s) @ bs \<and> in_groups em bs)"

lemma adds_same: "(\<And>k. frames_to k (se_out t) = frames_to k (se_out s)) \<Longrightarrow> adds_groups em s t"
  unfolding adds_groups_def by (auto intro: exI [of _ "[]"])

lemma adds_from: "adds_groups em s t \<Longrightarrow> (\<And>k. frames_to k (se_out s) = frames_to k (se_out s')) \<Longrightarrow> adds_groups em s' t"
  by (simp add: adds_groups_def)

lemma adds_to: "adds_groups em s t \<Longrightarrow> (\<And>k. frames_to k (se_out t) = frames_to k (se_out t')) \<Longrightarrow> adds_groups em s t'"
  by (simp add: adds_groups_def)

lemma fan_out_groups: "in_groups em [fr] \<Longrightarrow> in_groups em (frames_to k (snd (fan_out w t fr bs)))"
proof (induction bs)
  case (Cons b bs)
  have "in_groups em (fr # xs)" if "in_groups em xs" for xs
    using in_groups_append [OF Cons.prems that] by simp
  then show ?case using Cons by (auto split: prod.split)
qed simp

lemma broadcast_groups: "sound_payload op p \<Longrightarrow> adds_groups em s (broadcast w op p s)"
  unfolding adds_groups_def broadcast_eq by (auto intro!: fan_out_groups live_group)

lemma delivery_groups:
  "in_groups em (map encodePtyFrame fs) \<Longrightarrow> se_out t = se_out s @ deliveries k fs \<Longrightarrow> adds_groups em s t"
  unfolding adds_groups_def by (auto simp: frames_to_map)

lemma resize_groups: "adds_groups em s (resize em w c r s)"
proof (cases "se_ended s \<or> se_disposed s")
  case False
  let ?t = "(session_emit (BackendResize c r) (s\<lparr>se_cols := c, se_rows := r\<rparr>))\<lparr>se_mirror := em_resize em c r (se_mirror s)\<rparr>"
  have "adds_groups em ?t (broadcast w Resized (encodeSizePayload \<lparr>sz_cols = c, sz_rows = r\<rparr>) ?t)"
    by (rule broadcast_groups [OF size_sound])
  then have "adds_groups em s (broadcast w Resized (encodeSizePayload \<lparr>sz_cols = c, sz_rows = r\<rparr>) ?t)"
    by (rule adds_from) (simp add: session_emit_def)
  then show ?thesis using False by (simp add: resize_def)
qed (simp add: resize_def adds_same)

lemma release_groups: "adds_groups em s (releaseViewer em w v s)"
proof -
  have "adds_groups em s (resize em w c r (s\<lparr>se_viewports := x, se_authority := y\<rparr>))" for c r x y
    by (rule adds_from [OF resize_groups]) simp
  moreover have "adds_groups em s (s\<lparr>se_viewports := x, se_authority := y\<rparr>)" "adds_groups em s (s\<lparr>se_viewports := x\<rparr>)" for x y
    by (simp_all add: adds_same)
  ultimately show ?thesis by (simp add: releaseViewer_def Let_def split: option.splits)
qed

lemma resume_groups: "subs_wf s \<Longrightarrow> adds_groups em s (resumeSubscriber em w k s)"
proof (erule resume_cases [of s em w k])
  fix b p
  assume "resumeSubscriber em w k s = (set_sub k (\<lambda>b. b\<lparr>sub_paused := p, sub_missed := False\<rparr>) s)\<lparr>se_out := se_out s @
      deliveries k (session_frame (se_streamId s) Gap [] (se_seq s) # snapshot_frames em s)\<rparr>"
  then have "se_out (resumeSubscriber em w k s) = se_out s @
      deliveries k (session_frame (se_streamId s) Gap [] (se_seq s) # snapshot_frames em s)" by simp
  moreover have "in_groups em (map encodePtyFrame (session_frame (se_streamId s) Gap [] (se_seq s) # snapshot_frames em s))"
    using in_groups_append [OF live_group [of Gap "[]" em "se_streamId s" "se_seq s"] snapshot_group [of em s]] by simp
  ultimately show "adds_groups em s (resumeSubscriber em w k s)" by (rule delivery_groups [rotated])
qed (simp_all add: adds_same set_sub_def)

lemma welcome_groups: "in_groups em (map encodePtyFrame (welcome_frames em s))"
  using in_groups_append [OF snapshot_group [of em s] live_group [OF exit_sound, of em "se_streamId s" "se_endedSeq s" None]]
  by (simp add: welcome_frames_def)

lemma session_step_groups:
  assumes "subs_wf s"
  shows "adds_groups em s (session_step em ev s)"
proof (cases ev)
  case (SubscribeEv flow w)
  have "adds_groups em s t" if "se_out t = se_out s @ deliveries (se_next s) (welcome_frames em s)" for t
    by (rule delivery_groups [OF welcome_groups that])
  then show ?thesis using SubscribeEv by (simp add: subscribe_eq adds_same)
next
  case (ResizeViewerEv v c r w)
  have "adds_groups em s (resize em w c r ((observeViewer v c r s)\<lparr>se_authority := Some v\<rparr>))"
    by (rule adds_from [OF resize_groups]) (simp add: observeViewer_def)
  then show ?thesis using ResizeViewerEv by (simp add: resizeViewer_def)
next
  case (OutputEv bs w)
  let ?t = "s\<lparr>se_ring := ring_append bs (se_ring s), se_mirror := em_write em bs (se_mirror s)\<rparr>"
  have "adds_groups em s (broadcast w Output bs ?t)"
    by (rule adds_from [OF broadcast_groups]) simp_all
  then show ?thesis using OutputEv by (simp add: onOutput_def adds_same)
next
  case (ExitEv code)
  have "adds_groups em s (broadcast (\<lambda>_. True) Ended (encodeExitPayload code) s)" by (rule broadcast_groups [OF exit_sound])
  then have "adds_groups em s (onExit code s)" if "\<not> se_ended s" "\<not> se_disposed s"
    by (rule adds_to) (use that in \<open>simp add: onExit_def detach_backend_def session_emit_def Let_def\<close>)
  then show ?thesis using ExitEv by (auto simp: onExit_def adds_same)
next
  case (DrainEv k w)
  then show ?thesis using resume_groups [OF assms] by simp
next
  case (WriteEv bs who)
  then show ?thesis by (auto intro!: adds_same simp: writeInput_def session_emit_def split: option.split)
next
  case DisposeEv
  then show ?thesis by (auto intro!: adds_same simp: dispose_def detach_backend_def session_emit_def Let_def)
qed (auto intro!: adds_same resize_groups release_groups simp: unsubscribe_def observeViewer_def)

definition grouped :: "'m emulator \<Rightarrow> 'm session \<Rightarrow> bool" where
  "grouped em s \<longleftrightarrow> session_inv em s \<and> (\<forall>k. in_groups em (frames_to k (se_out s)))"

lemma grouped_step: "grouped em s \<Longrightarrow> event_sized ev \<Longrightarrow> grouped em (session_step em ev s)"
  unfolding grouped_def
proof (intro conjI allI)
  fix k
  assume g: "session_inv em s \<and> (\<forall>k. in_groups em (frames_to k (se_out s)))" and "event_sized ev"
  then show "session_inv em (session_step em ev s)" by (simp add: session_step_inv)
  have "subs_wf s" using g by (simp add: session_inv_def)
  from session_step_groups [OF this, of em ev] obtain bs
    where "frames_to k (se_out (session_step em ev s)) = frames_to k (se_out s) @ bs" "in_groups em bs"
    unfolding adds_groups_def by blast
  then show "in_groups em (frames_to k (se_out (session_step em ev s)))" using g by (simp add: in_groups_append)
qed

interpretation grouped_session: machine "session_step em" event_sized "grouped em" for em
  by unfold_locales (rule grouped_step)

subsection \<open>Replaying the events\<close>

fun event_op :: "pty_event \<Rightarrow> view \<Rightarrow> view" where
  "event_op (SnapshotEvent n c r d) v =
     v\<lparr>vw_base := d, vw_complete := True, vw_ops := [], vw_size := \<lparr>sz_cols = c, sz_rows = r\<rparr>\<rparr>"
| "event_op (OutputEvent n d) v = v\<lparr>vw_ops := vw_ops v @ [OpWrite d]\<rparr>"
| "event_op (ResizeEvent n c r) v = v\<lparr>vw_ops := vw_ops v @ [OpResize c r], vw_size := \<lparr>sz_cols = c, sz_rows = r\<rparr>\<rparr>"
| "event_op (EndedEvent n code) v = v\<lparr>vw_exit := Some code\<rparr>"
| "event_op (GapEvent n) v = v"

definition events_view :: "pty_event list \<Rightarrow> view" where
  "events_view es = fold event_op es blank_view"

lemma events_view_append [simp]: "events_view (xs @ ys) = fold event_op ys (events_view xs)"
  by (simp add: events_view_def)

text \<open>The frames of a stream as the controller feeds them.\<close>

definition feed :: "bytes \<Rightarrow> event_stream \<Rightarrow> event_stream" where
  "feed b s = (case decodePtyFrame b of None \<Rightarrow> s | Some f \<Rightarrow> stream_step (IngestEv f) s)"

definition feeds :: "bytes list \<Rightarrow> stream_event list" where
  "feeds bs = map IngestEv (List.map_filter decodePtyFrame bs)"

lemma fold_feed: "fold feed bs s = stream_run (feeds bs) s"
  by (induction bs arbitrary: s) (auto simp: feeds_def feed_def map_filter_simps split: option.split)

lemma feed_encode:
  "feed (encodePtyFrame (session_frame st op p n)) s =
     (case ingest \<lparr>pf_opcode = opcode_value op mod 256, pf_streamId = st mod 2 ^ 32, pf_seq = n mod 2 ^ 64, pf_payload = p\<rparr> s of
        None \<Rightarrow> s | Some t \<Rightarrow> t)"
  by (simp add: feed_def decode_encode_mod)

lemma feed_chunks:
  assumes "ps_bytes p + length (concat cs) \<le> MAX_SNAPSHOT_BYTES" and "length (ps_chunks p) + length cs \<le> MAX_SNAPSHOT_CHUNKS"
  shows "fold feed (map encodePtyFrame (chunk_frames st n cs)) (s\<lparr>es_snapshot := Some p\<rparr>) =
    s\<lparr>es_snapshot := Some (p\<lparr>ps_chunks := ps_chunks p @ cs, ps_bytes := ps_bytes p + length (concat cs)\<rparr>)\<rparr>"
  using assms
proof (induction cs arbitrary: p)
  case (Cons c cs)
  have "feed (encodePtyFrame (session_frame st SnapshotChunk c n)) (s\<lparr>es_snapshot := Some p\<rparr>) =
      s\<lparr>es_snapshot := Some (add_chunk c p)\<rparr>"
    using Cons.prems by (simp add: feed_encode ingest_def Let_def add_chunk_def)
  then show ?case using Cons.IH [of "add_chunk c p"] Cons.prems by (simp add: add_chunk_def add.assoc)
qed simp

lemma slices_count: "0 < k \<Longrightarrow> length (slices k body) * k < length body + k"
proof (induction k body rule: slices.induct)
  case (1 k body)
  show ?case
  proof (cases "body = []")
    case False
    have "slices k body = take k body # slices k (drop k body)" using 1 False by (subst slices.simps) simp
    then show ?thesis using 1 False by (cases "length body \<le> k") (auto simp: slices.simps [of k "[]"])
  qed (use 1 in \<open>simp add: slices.simps [of k "[]"]\<close>)
qed

lemma snapshot_fits:
  "length body \<le> MAX_SNAPSHOT_BYTES \<Longrightarrow> length (slices SNAPSHOT_CHUNK_BYTES body) \<le> MAX_SNAPSHOT_CHUNKS"
  using slices_count [of SNAPSHOT_CHUNK_BYTES body]
  by (simp add: MAX_SNAPSHOT_BYTES_def MAX_SNAPSHOT_CHUNKS_def SNAPSHOT_CHUNK_BYTES_def)

lemma feed_snapshot:
  assumes "length (utf8 (em_serialize em (se_mirror x))) \<le> MAX_SNAPSHOT_BYTES"
  shows "fold feed (map encodePtyFrame (snapshot_frames em x)) s =
    push_event (SnapshotEvent (se_seq x mod 2 ^ 64) (se_cols x mod 2 ^ 16) (se_rows x mod 2 ^ 16)
      (utf8 (em_serialize em (se_mirror x)))) (s\<lparr>es_snapshot := None\<rparr>)"
proof -
  let ?body = "utf8 (em_serialize em (se_mirror x))"
  let ?p = "\<lparr>ps_seq = se_seq x mod 2 ^ 64, ps_cols = se_cols x mod 2 ^ 16, ps_rows = se_rows x mod 2 ^ 16,
      ps_chunks = [], ps_bytes = 0\<rparr>"
  have whole: "concat (slices SNAPSHOT_CHUNK_BYTES ?body) = ?body"
    by (rule concat_slices) (simp add: SNAPSHOT_CHUNK_BYTES_def)
  have start: "feed (encodePtyFrame (session_frame (se_streamId x) SnapshotStart
      (encodeSizePayload \<lparr>sz_cols = se_cols x, sz_rows = se_rows x\<rparr>) (se_seq x))) s = s\<lparr>es_snapshot := Some ?p\<rparr>"
    by (simp add: feed_encode ingest_def decode_encode_size)
  have chunks: "fold feed (map encodePtyFrame (chunk_frames (se_streamId x) (se_seq x) (slices SNAPSHOT_CHUNK_BYTES ?body)))
      (s\<lparr>es_snapshot := Some p\<rparr>) =
      s\<lparr>es_snapshot := Some (p\<lparr>ps_chunks := slices SNAPSHOT_CHUNK_BYTES ?body, ps_bytes := length ?body\<rparr>)\<rparr>"
    if "ps_chunks p = []" "ps_bytes p = 0" for p :: pending_snapshot
    using feed_chunks [of p "slices SNAPSHOT_CHUNK_BYTES ?body"] assms snapshot_fits [OF assms] that by (simp add: whole)
  show ?thesis
    by (simp add: snapshot_frames_def start chunks) (simp add: feed_encode ingest_def Let_def whole)
qed

lemma view_snapshot_mod:
  "fold view_frame (map encodePtyFrame (snapshot_frames em x)) v =
    v\<lparr>vw_base := utf8 (em_serialize em (se_mirror x)), vw_complete := True, vw_ops := [],
      vw_size := \<lparr>sz_cols = se_cols x mod 2 ^ 16, sz_rows = se_rows x mod 2 ^ 16\<rparr>\<rparr>"
  using concat_slices [of SNAPSHOT_CHUNK_BYTES]
  by (simp add: snapshot_frames_def fold_chunks SNAPSHOT_CHUNK_BYTES_def with_size_def decode_encode_size)

text \<open>Every snapshot that stands whole in a stream of frames is within the limit: whatever part of the frames a viewer
  has, if its snapshot is complete then it is no longer than a consumer takes.\<close>

definition snapshots_fit :: "view \<Rightarrow> bytes list \<Rightarrow> bool" where
  "snapshots_fit v bs \<longleftrightarrow>
     (\<forall>ys zs. bs = ys @ zs \<longrightarrow> vw_complete (fold view_frame ys v) \<longrightarrow> length (vw_base (fold view_frame ys v)) \<le> MAX_SNAPSHOT_BYTES)"

lemma snapshots_fit_tail: "snapshots_fit v (xs @ bs) \<Longrightarrow> snapshots_fit (fold view_frame xs v) bs"
  unfolding snapshots_fit_def
proof (intro allI impI)
  fix ys zs
  assume f: "\<forall>ys zs. xs @ bs = ys @ zs \<longrightarrow> vw_complete (fold view_frame ys v) \<longrightarrow> length (vw_base (fold view_frame ys v)) \<le> MAX_SNAPSHOT_BYTES"
    and e: "bs = ys @ zs" and c: "vw_complete (fold view_frame ys (fold view_frame xs v))"
  from f [rule_format, of "xs @ ys" zs] e c
  show "length (vw_base (fold view_frame ys (fold view_frame xs v))) \<le> MAX_SNAPSHOT_BYTES" by simp
qed

lemma snapshots_fit_group:
  assumes "snapshots_fit v (map encodePtyFrame (snapshot_frames em x) @ bs)"
  shows "length (utf8 (em_serialize em (se_mirror x))) \<le> MAX_SNAPSHOT_BYTES"
proof -
  from assms have "vw_complete (fold view_frame (map encodePtyFrame (snapshot_frames em x)) v) \<longrightarrow>
      length (vw_base (fold view_frame (map encodePtyFrame (snapshot_frames em x)) v)) \<le> MAX_SNAPSHOT_BYTES"
    unfolding snapshots_fit_def by blast
  then show ?thesis by (simp add: view_snapshot_mod)
qed

text \<open>What stands whole in a subscriber's frames is a serialized emulator state.\<close>

lemma chunks_incomplete:
  "set ys \<subseteq> set (map encodePtyFrame (chunk_frames st n cs)) \<Longrightarrow> \<not> vw_complete v \<Longrightarrow> \<not> vw_complete (fold view_frame ys v)"
proof (induction ys arbitrary: v)
  case (Cons y ys)
  have "b \<in> set (map encodePtyFrame (chunk_frames st n cs)) \<Longrightarrow> \<not> vw_complete v \<Longrightarrow> \<not> vw_complete (view_frame b v)" for b v
    by (induction cs) auto
  then show ?case using Cons by simp
qed simp

lemma prefix_serialized:
  assumes "list_all (is_group em) gs" and "concat gs = ys @ zs"
    and "vw_complete v \<longrightarrow> (\<exists>m. vw_base v = utf8 (em_serialize em m))" and "vw_complete (fold view_frame ys v)"
  shows "\<exists>m. vw_base (fold view_frame ys v) = utf8 (em_serialize em m)"
  using assms
proof (induction gs arbitrary: v ys)
  case (Cons g gs)
  show ?case
  proof (cases "\<exists>us. ys = g @ us")
    case True
    then obtain us where us: "ys = g @ us" "concat gs = us @ zs" using Cons.prems(2) by auto
    have "is_group em g" using Cons.prems(1) by simp
    then have "vw_complete (fold view_frame g v) \<longrightarrow> (\<exists>m. vw_base (fold view_frame g v) = utf8 (em_serialize em m))"
      unfolding is_group_def
    proof (elim disjE exE conjE)
      fix x assume "g = map encodePtyFrame (snapshot_frames em x)"
      then show ?thesis by (auto simp: view_snapshot_mod)
    next
      fix st op p n assume "sound_payload op p" "g = [encodePtyFrame (session_frame st op p n)]"
      then show ?thesis using Cons.prems(3) by (cases op) (auto simp: with_size_def split: option.split)
    qed
    with Cons.IH [OF _ us(2)] Cons.prems(1,4) us(1) show ?thesis by simp
  next
    case False
    then obtain us where us: "g = ys @ us" "us \<noteq> []"
      using Cons.prems(2) by (auto simp: append_eq_append_conv2)
    have "is_group em g" using Cons.prems(1) by simp
    then show ?thesis
      unfolding is_group_def
    proof (elim disjE exE conjE)
      fix x assume g: "g = map encodePtyFrame (snapshot_frames em x)"
      show ?thesis
      proof (cases ys)
        case (Cons y ys')
        obtain ls where "us = ls @ [encodePtyFrame (session_frame (se_streamId x) SnapshotEnd [] (se_seq x))]"
          using us g by (cases us rule: rev_cases) (auto simp: snapshot_frames_def)
        then have p: "map encodePtyFrame (chunk_frames (se_streamId x) (se_seq x) (slices SNAPSHOT_CHUNK_BYTES (utf8 (em_serialize em (se_mirror x))))) = ys' @ ls"
          and y: "y = encodePtyFrame (session_frame (se_streamId x) SnapshotStart (encodeSizePayload \<lparr>sz_cols = se_cols x, sz_rows = se_rows x\<rparr>) (se_seq x))"
          using us(1) g Cons by (simp_all add: snapshot_frames_def)
        have "\<not> vw_complete (view_frame y v)" by (simp add: y with_size_def decode_encode_size)
        moreover have "set ys' \<subseteq> set (map encodePtyFrame (chunk_frames (se_streamId x) (se_seq x) (slices SNAPSHOT_CHUNK_BYTES (utf8 (em_serialize em (se_mirror x))))))"
          unfolding p by simp
        ultimately have "\<not> vw_complete (fold view_frame ys' (view_frame y v))" by (rule chunks_incomplete [rotated])
        then show ?thesis using Cons.prems Cons by simp
      next
        case Nil
        then show ?thesis using Cons.prems by simp
      qed
    next
      fix st op p n assume "g = [encodePtyFrame (session_frame st op p n)]"
      then have "ys = []" using us by (cases ys) auto
      then show ?thesis using Cons.prems by simp
    qed
  qed
qed simp

lemma small_serializer_fits:
  assumes "grouped em s" and "\<forall>m. length (utf8 (em_serialize em m)) \<le> MAX_SNAPSHOT_BYTES"
  shows "snapshots_fit blank_view (frames_to k (se_out s))"
proof -
  obtain gs where gs: "frames_to k (se_out s) = concat gs" "list_all (is_group em) gs"
    using assms(1) unfolding grouped_def in_groups_def by blast
  have b: "\<not> vw_complete blank_view" by (simp add: blank_view_def)
  show ?thesis unfolding snapshots_fit_def gs(1)
    using prefix_serialized [OF gs(2), of _ _ blank_view] b assms(2) by metis
qed

text \<open>A listener from the start, a stream that lives and has no snapshot half-way.\<close>

definition at_rest :: "nat \<Rightarrow> view \<Rightarrow> event_stream \<Rightarrow> bool" where
  "at_rest l v s \<longleftrightarrow>
     l \<in> set (es_listeners s) \<and> distinct (es_listeners s) \<and> \<not> es_error s \<and> es_snapshot s = None \<and>
     events_view (heard_by l (es_out s)) = v"

lemma push_at_rest: "at_rest l v s \<Longrightarrow> \<not> es_ended s \<Longrightarrow> at_rest l (event_op e v) (push_event e s) \<and> \<not> es_ended (push_event e s)"
  unfolding push_event_def Let_def by (cases "es_pullers s") (auto simp: at_rest_def heard_all)

lemma end_at_rest: "at_rest l v s \<Longrightarrow> at_rest l v (end_stream s)"
  by (auto simp: at_rest_def end_stream_def)

lemma same_snapshot: "es_snapshot s = None \<Longrightarrow> s\<lparr>es_snapshot := None\<rparr> = s"
  by simp

lemma live_feed:
  assumes rest: "at_rest l v s" and on: "\<not> es_ended s" and p: "sound_payload op p"
  shows "at_rest l (view_op op p v) (feed (encodePtyFrame (session_frame st op p n)) s) \<and>
    (op \<noteq> Ended \<longrightarrow> \<not> es_ended (feed (encodePtyFrame (session_frame st op p n)) s))"
proof (cases op)
  case Output
  then show ?thesis using push_at_rest [OF rest on, of "OutputEvent (n mod 2 ^ 64) p"] by (simp add: feed_encode ingest_def)
next
  case Gap
  then show ?thesis using push_at_rest [OF rest on, of "GapEvent (n mod 2 ^ 64)"] by (simp add: feed_encode ingest_def)
next
  case Resized
  then obtain z where "decodeSizePayload p = Some z" using p by auto
  then show ?thesis using Resized push_at_rest [OF rest on, of "ResizeEvent (n mod 2 ^ 64) (sz_cols z) (sz_rows z)"]
    by (cases z) (simp add: feed_encode ingest_def with_size_def)
next
  case Ended
  then obtain code where "decodeExitPayload p = Some code" using p by auto
  then show ?thesis using Ended push_at_rest [OF rest on, of "EndedEvent (n mod 2 ^ 64) code"]
    by (simp add: feed_encode ingest_def end_at_rest)
qed (use p in simp_all)

lemma snapshot_feed:
  assumes "at_rest l v s" and "\<not> es_ended s" and "length (utf8 (em_serialize em (se_mirror x))) \<le> MAX_SNAPSHOT_BYTES"
  shows "at_rest l (fold view_frame (map encodePtyFrame (snapshot_frames em x)) v)
      (fold feed (map encodePtyFrame (snapshot_frames em x)) s) \<and>
    \<not> es_ended (fold feed (map encodePtyFrame (snapshot_frames em x)) s)"
proof -
  note f = feed_snapshot [OF assms(3), of s]
  have "s\<lparr>es_snapshot := None\<rparr> = s" using assms(1) by (intro same_snapshot) (simp add: at_rest_def)
  then show ?thesis
    unfolding f view_snapshot_mod
    using push_at_rest [OF assms(1,2), of "SnapshotEvent (se_seq x mod 2 ^ 64) (se_cols x mod 2 ^ 16) (se_rows x mod 2 ^ 16)
        (utf8 (em_serialize em (se_mirror x)))"]
    by simp
qed

text \<open>Nothing stands behind an end.\<close>

definition ended_last :: "bytes list \<Rightarrow> bool" where
  "ended_last bs \<longleftrightarrow> (\<forall>xs ys st p n. bs = xs @ encodePtyFrame (session_frame st Ended p n) # ys \<longrightarrow> ys = [])"

lemma ended_last_tail: "ended_last (xs @ ys) \<Longrightarrow> ended_last ys"
  unfolding ended_last_def by (metis append.assoc)

lemma well_numbered_ends:
  assumes "well_numbered fs"
  shows "ended_last (map encodePtyFrame fs)"
  unfolding ended_last_def
proof (intro allI impI)
  fix xs ys st p n
  assume "map encodePtyFrame fs = xs @ encodePtyFrame (session_frame st Ended p n) # ys"
  then obtain gs f hs where fs: "fs = gs @ f # hs" "encodePtyFrame f = encodePtyFrame (session_frame st Ended p n)" "ys = map encodePtyFrame hs"
    by (auto simp: map_eq_append_conv map_eq_Cons_conv Cons_eq_map_conv append_eq_map_conv)
  have op: "pf_opcode f mod 256 = opcode_value Ended mod 256"
    using decode_encode_mod [of f] decode_encode_mod [of "session_frame st Ended p n"] fs(2) by simp
  have "hs = []"
  proof (cases hs)
    case (Cons g hs')
    then have "follows f g" using assms fs(1) by (auto simp: well_numbered_def successively_append_iff)
    then obtain a b where "opcode_of (pf_opcode f) = Some a" "may_follow a b"
      by (auto simp: follows_def split: option.splits)
    moreover from this have "pf_opcode f = opcode_value a"
      by (auto simp: opcode_of_def opcode_value.simps split: if_splits)
    ultimately have "a = Ended" using op by (metis opcode_of_value(1) option.inject)
    then show ?thesis using \<open>may_follow a b\<close> by simp
  qed simp
  then show "ys = []" using fs(3) by simp
qed

lemma replay_groups:
  assumes "at_rest l v s" and "\<not> es_ended s" and "snapshots_fit v (concat gs)" and "list_all (is_group em) gs" and "ended_last (concat gs)"
  shows "at_rest l (fold view_frame (concat gs) v) (fold feed (concat gs) s)"
  using assms
proof (induction gs arbitrary: v s)
  case (Cons g gs)
  have tail: "ended_last (concat gs)" using Cons.prems(5) ended_last_tail [of g "concat gs"] by simp
  have fit: "snapshots_fit (fold view_frame g v) (concat gs)" using Cons.prems(3) by (intro snapshots_fit_tail) simp
  have "is_group em g" using Cons.prems(4) by simp
  then consider (snap) x where "g = map encodePtyFrame (snapshot_frames em x)"
    | (live) st op p n where "sound_payload op p" "g = [encodePtyFrame (session_frame st op p n)]"
    unfolding is_group_def by blast
  then show ?case
  proof cases
    case snap
    then have "length (utf8 (em_serialize em (se_mirror x))) \<le> MAX_SNAPSHOT_BYTES"
      using Cons.prems(3) by (intro snapshots_fit_group) simp
    from snapshot_feed [OF Cons.prems(1,2) this] show ?thesis using Cons.IH [OF _ _ fit _ tail] Cons.prems(4) snap by simp
  next
    case live
    have step: "at_rest l (fold view_frame g v) (fold feed g s)" "op \<noteq> Ended \<Longrightarrow> \<not> es_ended (fold feed g s)"
      using live_feed [OF Cons.prems(1,2) live(1), of st n] by (simp_all add: live(2))
    show ?thesis
    proof (cases "op = Ended")
      case True
      then have "concat gs = []"
        using Cons.prems(5) live(2) unfolding ended_last_def by (metis append_Cons append_Nil concat.simps(2))
      then show ?thesis using step(1) by (simp del: concat_eq_Nil_conv)
    next
      case False
      then show ?thesis using step Cons.IH [OF step(1) _ fit _ tail] Cons.prems(4) by simp
    qed
  qed
qed simp

lemma rest_new: "at_rest l blank_view (onEvent l new_stream)"
  by (simp add: at_rest_def onEvent_def new_stream_def events_view_def)

lemma replay_view:
  assumes "grouped em s" and "snapshots_fit blank_view (frames_to k (se_out s))"
  shows "events_view (heard_by l (es_out (fold feed (frames_to k (se_out s)) (onEvent l new_stream)))) =
      view_of (frames_to k (se_out s)) \<and>
    \<not> es_error (fold feed (frames_to k (se_out s)) (onEvent l new_stream))"
proof -
  obtain gs where gs: "frames_to k (se_out s) = concat gs" "list_all (is_group em) gs"
    using assms(1) unfolding grouped_def in_groups_def by blast
  obtain fs where "frames_to k (se_out s) = map encodePtyFrame fs" "well_numbered fs"
    using assms(1) unfolding grouped_def session_inv_def log_ok_def by blast
  then have "ended_last (concat gs)" using well_numbered_ends gs(1) by metis
  then have "at_rest l (fold view_frame (concat gs) blank_view) (fold feed (concat gs) (onEvent l new_stream))"
    using assms(2) [unfolded gs(1)] gs(2) by (intro replay_groups rest_new) (simp_all add: onEvent_def new_stream_def)
  then show ?thesis by (simp add: at_rest_def gs(1) view_of_def)
qed

end
