(* ===== verification/Controller.thy ===== *)
theory Controller
  imports Serve Events
begin

text \<open>
  \<open>packages/sdk/src/controller.ts\<close>: the controller end, over one channel. Promises are data: what a
  continuation waits for is a field of the state, and running the continuation is an operation of its
  own, so that frames can come in between. A call of the controller is numbered in the order they
  are made, and so is an event stream; requests carry ids that the caller of the model supplies,
  as the code draws them at random. JSON and the results' schemas are the codec parameter. What
  the controller does to the outside, and how its promises settle, is logged in \<open>ct_out\<close>.
\<close>

subsection \<open>State\<close>

definition DEFAULT_CONTROLLER_CAPABILITIES :: "string list" where
  "DEFAULT_CONTROLLER_CAPABILITIES = [PTY_STREAM, MIRROR_SNAPSHOT, SESSION_INPUT]"

text \<open>What a promise is rejected with: \<open>RpcClientError\<close> with the host's code, or one of the errors the
  controller makes itself.\<close>

datatype 'd ctl_error =
    RpcClientError error_code string "'d option"
  | CapabilityNotNegotiated string
  | HandshakeTimeout
  | HandshakeViolation
  | VersionSkew int compat_result
  | NoSessionId
  | BadSessionId
  | SignerThrew
  | ControllerClosed
  | ChannelClosed
  | SendThrew
  | InvalidParams
  | InvalidResult

text \<open>\<open>sc_ack\<close> and \<open>sc_response\<close> parse control frames, \<open>sc_result\<close> is the method's result schema, and
  \<open>sc_stream\<close> the stream id of a subscription's result.\<close>

record ('j, 'r, 'd) sdk_codec =
  sc_ack :: "bytes \<Rightarrow> (int \<times> string list) option"
  sc_response :: "bytes \<Rightarrow> ('j, 'd) response option"
  sc_result :: "method_name \<Rightarrow> 'j \<Rightarrow> 'r option"
  sc_stream :: "'r \<Rightarrow> nat"

datatype call_status = CallGated | CallInFlight string | CallDone

record call =
  cl_method :: method_name
  cl_params :: rpc_params
  cl_subscribes :: "(string \<times> nat) option"
  cl_ends :: "nat option"
  cl_status :: call_status

datatype 'd negotiation =
    AwaitingReady
  | Signing string
  | AwaitingAck
  | Settled "'d ctl_error + string list"

text \<open>The promise of the ack: not made yet, open, or settled and its continuation not run.\<close>

datatype 'd ack_promise = NoAck | AckOpen | AckSettled "'d ctl_error + (int \<times> string list)"

datatype ('r, 'd) ctl_out =
    AskSigner bytes
  | SendHello "string list" string bytes
  | SendRequest string method_name rpc_params
  | Resolved nat 'r
  | Rejected nat "'d ctl_error"
  | CloseChannelCall
  | HandlerThrew

text \<open>\<open>ct_fitsRecord\<close>: whether the text of a request is short enough for a record of the channel (JSON is a parameter).\<close>

record ('r, 'd) ctl =
  ct_capabilities :: "string list"
  ct_fitsRecord :: "string \<Rightarrow> method_name \<Rightarrow> rpc_params \<Rightarrow> bool"
  ct_signer :: "string option"
  ct_hostId :: "string option"
  ct_negotiation :: "'d negotiation"
  ct_ack :: "'d ack_promise"
  ct_awaitingHelloAck :: bool
  ct_timer :: bool
  ct_pending :: "(string, nat) amap"
  ct_streamsById :: "(nat, nat) amap"
  ct_subsByRef :: "(string, nat \<times> nat) amap"
  ct_streams :: "event_stream list"
  ct_calls :: "call list"
  ct_finally :: "nat list"
  ct_closed :: bool
  ct_channelOpen :: bool
  ct_out :: "('r, 'd) ctl_out list"

text \<open>\<open>None\<close> is the constructor's throw: a signer without a host.\<close>

definition new_controller ::
  "(string \<Rightarrow> method_name \<Rightarrow> rpc_params \<Rightarrow> bool) \<Rightarrow> string list option \<Rightarrow> string option \<Rightarrow> string option \<Rightarrow> ('r, 'd) ctl option" where
  "new_controller fits caps signer host =
     (if signer \<noteq> None \<and> host = None then None
      else Some \<lparr>ct_capabilities = (case caps of None \<Rightarrow> DEFAULT_CONTROLLER_CAPABILITIES | Some cs \<Rightarrow> cs),
        ct_fitsRecord = fits, ct_signer = signer, ct_hostId = host, ct_negotiation = AwaitingReady, ct_ack = NoAck,
        ct_awaitingHelloAck = False, ct_timer = False, ct_pending = [], ct_streamsById = [], ct_subsByRef = [],
        ct_streams = [], ct_calls = [], ct_finally = [], ct_closed = False, ct_channelOpen = True, ct_out = []\<rparr>)"

definition log_ctl :: "('r, 'd) ctl_out \<Rightarrow> ('r, 'd) ctl \<Rightarrow> ('r, 'd) ctl" where
  "log_ctl e c = c\<lparr>ct_out := ct_out c @ [e]\<rparr>"

subsection \<open>Promises\<close>

text \<open>A settled promise stays as it is. The \<open>finally\<close> of \<open>unsubscribe\<close> is due once its call is settled.\<close>

definition set_status :: "nat \<Rightarrow> call_status \<Rightarrow> ('r, 'd) ctl \<Rightarrow> ('r, 'd) ctl" where
  "set_status k st c = c\<lparr>ct_calls := (ct_calls c)[k := (ct_calls c ! k)\<lparr>cl_status := st\<rparr>]\<rparr>"

definition settle :: "nat \<Rightarrow> ('r, 'd) ctl_out \<Rightarrow> ('r, 'd) ctl \<Rightarrow> ('r, 'd) ctl" where
  "settle k e c =
     (if cl_status (ct_calls c ! k) = CallDone then c
      else
        let c1 = log_ctl e (set_status k CallDone c)
        in case cl_ends (ct_calls c ! k) of None \<Rightarrow> c1 | Some n \<Rightarrow> c1\<lparr>ct_finally := ct_finally c1 @ [n]\<rparr>)"

definition reject_call :: "nat \<Rightarrow> 'd ctl_error \<Rightarrow> ('r, 'd) ctl \<Rightarrow> ('r, 'd) ctl" where
  "reject_call k e c = settle k (Rejected k e) c"

definition settle_ack :: "'d ctl_error + (int \<times> string list) \<Rightarrow> ('r, 'd) ctl \<Rightarrow> ('r, 'd) ctl" where
  "settle_ack x c = (case ct_ack c of AckOpen \<Rightarrow> c\<lparr>ct_ack := AckSettled x\<rparr> | _ \<Rightarrow> c)"

definition stop_timer :: "('r, 'd) ctl \<Rightarrow> ('r, 'd) ctl" where
  "stop_timer c = c\<lparr>ct_timer := False\<rparr>"

definition on_stream :: "nat \<Rightarrow> (event_stream \<Rightarrow> event_stream) \<Rightarrow> ('r, 'd) ctl \<Rightarrow> ('r, 'd) ctl" where
  "on_stream n f c = c\<lparr>ct_streams := (ct_streams c)[n := f (ct_streams c ! n)]\<rparr>"

subsection \<open>Closing\<close>

definition onClose :: "('r, 'd) ctl \<Rightarrow> ('r, 'd) ctl" where
  "onClose c =
     (if ct_closed c then c
      else
        let c1 = stop_timer (c\<lparr>ct_closed := True\<rparr>);
            c2 = (if ct_awaitingHelloAck c1
                  then settle_ack (Inl ChannelClosed) (c1\<lparr>ct_awaitingHelloAck := False\<rparr>) else c1);
            c3 = fold (\<lambda>k. reject_call k ChannelClosed) (map snd (ct_pending c2)) c2;
            c4 = fold (\<lambda>n. on_stream n end_stream) (map snd (ct_streamsById c3)) (c3\<lparr>ct_pending := []\<rparr>)
        in c4\<lparr>ct_streamsById := [], ct_subsByRef := []\<rparr>)"

text \<open>The channel tells of its close once.\<close>

definition channel_down :: "('r, 'd) ctl \<Rightarrow> ('r, 'd) ctl" where
  "channel_down c = (if ct_channelOpen c then onClose (c\<lparr>ct_channelOpen := False\<rparr>) else c)"

definition controller_close :: "('r, 'd) ctl \<Rightarrow> ('r, 'd) ctl" where
  "controller_close c = channel_down (log_ctl CloseChannelCall c)"

subsection \<open>The handshake\<close>

definition fail_negotiation :: "'d ctl_error \<Rightarrow> ('r, 'd) ctl \<Rightarrow> ('r, 'd) ctl" where
  "fail_negotiation e c = c\<lparr>ct_negotiation := Settled (Inl e)\<rparr>"

text \<open>From the making of the ack's promise to the \<open>await\<close>; sending throws once the channel is closed.\<close>

definition send_hello :: "string \<Rightarrow> bytes \<Rightarrow> ('r, 'd) ctl \<Rightarrow> ('r, 'd) ctl" where
  "send_hello keyId sig c0 =
     (let c = c0\<lparr>ct_ack := AckOpen, ct_timer := True, ct_awaitingHelloAck := True\<rparr>
      in if ct_channelOpen c
         then (log_ctl (SendHello (ct_capabilities c) keyId sig) c)\<lparr>ct_negotiation := AwaitingAck\<rparr>
         else fail_negotiation SendThrew (stop_timer (c\<lparr>ct_awaitingHelloAck := False\<rparr>)))"

definition negotiate_ready :: "bytes option \<Rightarrow> ('r, 'd) ctl \<Rightarrow> ('r, 'd) ctl" where
  "negotiate_ready sessionId c =
     (case (ct_signer c, ct_hostId c) of
        (Some keyId, Some host) \<Rightarrow>
          (case sessionId of
             None \<Rightarrow> fail_negotiation NoSessionId c
           | Some sid \<Rightarrow>
               (case deviceAuthMessage sid host keyId of
                  None \<Rightarrow> fail_negotiation BadSessionId c
                | Some msg \<Rightarrow> (log_ctl (AskSigner msg) c)\<lparr>ct_negotiation := Signing keyId\<rparr>))
      | _ \<Rightarrow> send_hello NULL_DEVICE_KEY_ID [] c)"

definition negotiate_acked :: "('r, 'd) ctl \<Rightarrow> ('r, 'd) ctl" where
  "negotiate_acked c =
     (case (ct_negotiation c, ct_ack c) of
        (AwaitingAck, AckSettled (Inl e)) \<Rightarrow> fail_negotiation e c
      | (AwaitingAck, AckSettled (Inr ack)) \<Rightarrow>
          (let (active, compat) = negotiateHello (ct_capabilities c) ack
           in if compat \<noteq> CompatOk then fail_negotiation (VersionSkew (fst ack) compat) c
              else c\<lparr>ct_negotiation := Settled (Inr active)\<rparr>)
      | _ \<Rightarrow> c)"

definition negotiation_timer :: "('r, 'd) ctl \<Rightarrow> ('r, 'd) ctl" where
  "negotiation_timer c =
     (if ct_timer c
      then controller_close (settle_ack (Inl HandshakeTimeout) (c\<lparr>ct_timer := False, ct_awaitingHelloAck := False\<rparr>))
      else c)"

definition handleHelloAck :: "('j, 'r, 'd) sdk_codec \<Rightarrow> bytes \<Rightarrow> ('r, 'd) ctl \<Rightarrow> ('r, 'd) ctl" where
  "handleHelloAck cd p c0 =
     (let c = stop_timer (c0\<lparr>ct_awaitingHelloAck := False\<rparr>)
      in case sc_ack cd p of
           None \<Rightarrow> settle_ack (Inl HandshakeViolation) c
         | Some ack \<Rightarrow> settle_ack (Inr ack) c)"

subsection \<open>Calls\<close>

text \<open>The start of \<open>#send\<close>, up to its \<open>await\<close>; an asynchronous function's throw is a rejection.\<close>

definition send_call :: "method_name \<Rightarrow> rpc_params \<Rightarrow> (string \<times> nat) option \<Rightarrow> nat option \<Rightarrow> ('r, 'd) ctl \<Rightarrow> ('r, 'd) ctl" where
  "send_call m p subs ends c0 =
     (let k = length (ct_calls c0);
          c = c0\<lparr>ct_calls := ct_calls c0 @ [\<lparr>cl_method = m, cl_params = p, cl_subscribes = subs, cl_ends = ends,
                                            cl_status = CallGated\<rparr>]\<rparr>
      in if ct_closed c then reject_call k ControllerClosed c else c)"

definition dispatch_call :: "nat \<Rightarrow> string \<Rightarrow> method_name \<Rightarrow> rpc_params \<Rightarrow> ('r, 'd) ctl \<Rightarrow> ('r, 'd) ctl" where
  "dispatch_call k rid m p c =
     (if ct_closed c then reject_call k ControllerClosed c
      else if \<not> valid_params m p then reject_call k InvalidParams c
      else
        let c1 = set_status k (CallInFlight rid) (c\<lparr>ct_pending := aset rid k (ct_pending c)\<rparr>)
        in if ct_channelOpen c1 \<and> ct_fitsRecord c1 rid m p then log_ctl (SendRequest rid m p) c1
           else reject_call k SendThrew (c1\<lparr>ct_pending := adel rid (ct_pending c1)\<rparr>))"

text \<open>The rest of \<open>#send\<close>, once the negotiation is settled.\<close>

definition resume_call :: "nat \<Rightarrow> string \<Rightarrow> ('r, 'd) ctl \<Rightarrow> ('r, 'd) ctl" where
  "resume_call k rid c =
     (if k < length (ct_calls c) \<and> cl_status (ct_calls c ! k) = CallGated
      then case ct_negotiation c of
          Settled (Inl e) \<Rightarrow> reject_call k e c
        | Settled (Inr active) \<Rightarrow>
            let m = cl_method (ct_calls c ! k); p = cl_params (ct_calls c ! k)
            in (case requiredCapability m of
                  Some cap \<Rightarrow> if cap \<notin> set active then reject_call k (CapabilityNotNegotiated cap) c
                              else dispatch_call k rid m p c
                | None \<Rightarrow> dispatch_call k rid m p c)
        | _ \<Rightarrow> c
      else c)"

text \<open>The methods. A subscription's listener is there from the start; \<open>unsubscribe\<close> of what is not
  subscribed resolves without a call.\<close>

definition subscribe_call :: "string \<Rightarrow> size option \<Rightarrow> nat option \<Rightarrow> ('r, 'd) ctl \<Rightarrow> ('r, 'd) ctl" where
  "subscribe_call ref vp listener c =
     (let n = length (ct_streams c);
          s = (case listener of None \<Rightarrow> new_stream | Some l \<Rightarrow> onEvent l new_stream)
      in send_call SessionSubscribe (SubscribeParams ref vp None) (Some (ref, n)) None
           (c\<lparr>ct_streams := ct_streams c @ [s]\<rparr>))"

definition input_call :: "(bytes \<Rightarrow> string) \<Rightarrow> string \<Rightarrow> bytes \<Rightarrow> ('r, 'd) ctl \<Rightarrow> ('r, 'd) ctl" where
  "input_call b64 ref bs c = send_call SessionInput (InputParams ref (b64 bs)) None None c"

definition resize_call :: "string \<Rightarrow> size \<Rightarrow> ('r, 'd) ctl \<Rightarrow> ('r, 'd) ctl" where
  "resize_call ref z c = send_call SessionResize (ResizeParams ref z) None None c"

definition unsubscribe_call :: "string \<Rightarrow> ('r, 'd) ctl \<Rightarrow> ('r, 'd) ctl" where
  "unsubscribe_call ref c =
     (case aget (ct_subsByRef c) ref of
        None \<Rightarrow> c
      | Some (streamId, n) \<Rightarrow>
          send_call SessionUnsubscribe (UnsubscribeParams ref streamId) None (Some n)
            (c\<lparr>ct_subsByRef := adel ref (ct_subsByRef c), ct_streamsById := adel streamId (ct_streamsById c)\<rparr>))"

definition run_finally :: "nat \<Rightarrow> ('r, 'd) ctl \<Rightarrow> ('r, 'd) ctl" where
  "run_finally i c =
     (if i < length (ct_finally c)
      then on_stream (ct_finally c ! i) end_stream
             (c\<lparr>ct_finally := take i (ct_finally c) @ drop (Suc i) (ct_finally c)\<rparr>)
      else c)"

subsection \<open>Inbound frames\<close>

text \<open>\<open>onSuccess\<close> runs before the promise resolves.\<close>

definition onResponse :: "('j, 'r, 'd) sdk_codec \<Rightarrow> ('j, 'd) response \<Rightarrow> ('r, 'd) ctl \<Rightarrow> ('r, 'd) ctl" where
  "onResponse cd r c =
     (case aget (ct_pending c) (response_id r) of
        None \<Rightarrow> c
      | Some k \<Rightarrow>
          let c1 = c\<lparr>ct_pending := adel (response_id r) (ct_pending c)\<rparr>
          in case r of
              RpcError rid code msg data \<Rightarrow> reject_call k (RpcClientError code msg data) c1
            | RpcSuccess rid j stream \<Rightarrow>
                (case sc_result cd (cl_method (ct_calls c1 ! k)) j of
                   None \<Rightarrow> reject_call k InvalidResult c1
                 | Some v \<Rightarrow>
                     let c2 = (case cl_subscribes (ct_calls c1 ! k) of
                                 None \<Rightarrow> c1
                               | Some (ref, n) \<Rightarrow>
                                   c1\<lparr>ct_streamsById := aset (sc_stream cd v) n (ct_streamsById c1),
                                      ct_subsByRef := aset ref (sc_stream cd v, n) (ct_subsByRef c1)\<rparr>)
                     in settle k (Resolved k v) c2))"

definition ctl_control :: "('j, 'r, 'd) sdk_codec \<Rightarrow> bytes \<Rightarrow> ('r, 'd) ctl \<Rightarrow> ('r, 'd) ctl" where
  "ctl_control cd p c =
     (if ct_awaitingHelloAck c then handleHelloAck cd p c
      else case sc_response cd p of None \<Rightarrow> c | Some r \<Rightarrow> onResponse cd r c)"

text \<open>A frame that makes the stream throw makes the frame handler throw: the channel hands the error to a
  handler of its own, or throws it again in a task of its own, and goes on.\<close>

definition onBinary :: "bytes \<Rightarrow> ('r, 'd) ctl \<Rightarrow> ('r, 'd) ctl" where
  "onBinary p c =
     (case decodePtyFrame p of
        None \<Rightarrow> c
      | Some f \<Rightarrow>
          (case aget (ct_streamsById c) (pf_streamId f) of
             None \<Rightarrow> c
           | Some n \<Rightarrow>
               (case ingest f (ct_streams c ! n) of
                  None \<Rightarrow> log_ctl HandlerThrew c
                | Some s \<Rightarrow> on_stream n (\<lambda>_. s) c)))"

subsection \<open>The controller as a machine\<close>

datatype ctl_event =
    ReadyEv "bytes option"
  | ReadyFailedEv
  | SignedEv "bytes option"
  | AckedEv
  | NegotiationTimeoutEv
  | RequestEv method_name rpc_params
  | SubscribeCallEv string "size option" "nat option"
  | UnsubscribeCallEv string
  | ResumeCallEv nat string
  | FinallyEv nat
  | ControlInEv bytes
  | BinaryInEv bytes
  | ChannelDownEv
  | CloseCallEv
  | ConsumerEv nat stream_event

text \<open>A consumer listens to a stream and pulls from it.\<close>

fun consumes :: "stream_event \<Rightarrow> bool" where
  "consumes PullEv = True"
| "consumes (ListenEv l) = True"
| "consumes _ = False"

definition ctl_step :: "('j, 'r, 'd) sdk_codec \<Rightarrow> ctl_event \<Rightarrow> ('r, 'd) ctl \<Rightarrow> ('r, 'd) ctl" where
  "ctl_step cd ev c =
     (case ev of
        ReadyEv sid \<Rightarrow> if ct_negotiation c = AwaitingReady then negotiate_ready sid c else c
      | ReadyFailedEv \<Rightarrow> if ct_negotiation c = AwaitingReady then fail_negotiation ChannelClosed c else c
      | SignedEv sig \<Rightarrow>
          (case ct_negotiation c of
             Signing keyId \<Rightarrow>
               (case sig of None \<Rightarrow> fail_negotiation SignerThrew c | Some b \<Rightarrow> send_hello keyId b c)
           | _ \<Rightarrow> c)
      | AckedEv \<Rightarrow> negotiate_acked c
      | NegotiationTimeoutEv \<Rightarrow> negotiation_timer c
      | RequestEv m p \<Rightarrow> send_call m p None None c
      | SubscribeCallEv ref vp l \<Rightarrow> subscribe_call ref vp l c
      | UnsubscribeCallEv ref \<Rightarrow> unsubscribe_call ref c
      | ResumeCallEv k rid \<Rightarrow> if aget (ct_pending c) rid = None then resume_call k rid c else c
      | FinallyEv i \<Rightarrow> run_finally i c
      | ControlInEv p \<Rightarrow> if ct_channelOpen c then ctl_control cd p c else c
      | BinaryInEv p \<Rightarrow> if ct_channelOpen c then onBinary p c else c
      | ChannelDownEv \<Rightarrow> channel_down c
      | CloseCallEv \<Rightarrow> controller_close c
      | ConsumerEv n e \<Rightarrow> if n < length (ct_streams c) \<and> consumes e then on_stream n (stream_step e) c else c)"

abbreviation ctl_run :: "('j, 'r, 'd) sdk_codec \<Rightarrow> ctl_event list \<Rightarrow> ('r, 'd) ctl \<Rightarrow> ('r, 'd) ctl" where
  "ctl_run cd evs c \<equiv> fold (ctl_step cd) evs c"

end
