(* ===== verification/ControllerSteps.thy ===== *)
theory ControllerSteps
  imports Controller Prelude
begin

text \<open>
  The controller's invariant: the table of awaited requests and the calls in flight are the same
  relation, each call's promise has settled exactly if it is done, nothing was requested without a
  negotiated capability, and a closed controller holds nothing.

  Every operation of the controller keeps its invariant.
\<close>

subsection \<open>What the log says of a call\<close>

fun settles :: "nat \<Rightarrow> ('r, 'd) ctl_out \<Rightarrow> bool" where
  "settles k (Resolved i v) = (i = k)"
| "settles k (Rejected i e) = (i = k)"
| "settles k _ = False"

definition settlements :: "nat \<Rightarrow> ('r, 'd) ctl_out list \<Rightarrow> nat" where
  "settlements k out = length (filter (settles k) out)"

lemma settlements_simps [simp]:
  "settlements k [] = 0" "settlements k (xs @ ys) = settlements k xs + settlements k ys"
  "settlements k (x # xs) = (if settles k x then Suc (settlements k xs) else settlements k xs)"
  by (simp_all add: settlements_def)

definition in_flight :: "('r, 'd) ctl \<Rightarrow> nat \<Rightarrow> string \<Rightarrow> bool" where
  "in_flight c k rid \<longleftrightarrow> k < length (ct_calls c) \<and> cl_status (ct_calls c ! k) = CallInFlight rid"

definition pending_ok :: "('r, 'd) ctl \<Rightarrow> bool" where
  "pending_ok c \<longleftrightarrow> distinct (akeys (ct_pending c)) \<and> (\<forall>k rid. aget (ct_pending c) rid = Some k \<longleftrightarrow> in_flight c k rid)"

definition promises_ok :: "('r, 'd) ctl \<Rightarrow> bool" where
  "promises_ok c \<longleftrightarrow>
     (\<forall>k. settlements k (ct_out c) = (if k < length (ct_calls c) \<and> cl_status (ct_calls c ! k) = CallDone then 1 else 0))"

definition requests_ok :: "('r, 'd) ctl \<Rightarrow> bool" where
  "requests_ok c \<longleftrightarrow>
     (\<forall>rid m p. SendRequest rid m p \<in> set (ct_out c) \<longrightarrow>
        valid_params m p \<and>
        (\<exists>active. ct_negotiation c = Settled (Inr active) \<and>
           (case requiredCapability m of None \<Rightarrow> True | Some cap \<Rightarrow> cap \<in> set active)))"

definition streams_ok :: "('r, 'd) ctl \<Rightarrow> bool" where
  "streams_ok c \<longleftrightarrow>
     (\<forall>n \<in> snd ` set (ct_streamsById c). n < length (ct_streams c)) \<and>
     (\<forall>(i, n) \<in> snd ` set (ct_subsByRef c). n < length (ct_streams c)) \<and>
     (\<forall>n \<in> set (ct_finally c). n < length (ct_streams c)) \<and>
     (\<forall>x \<in> set (ct_calls c). (\<forall>ref n. cl_subscribes x = Some (ref, n) \<longrightarrow> n < length (ct_streams c)) \<and>
        (\<forall>n. cl_ends x = Some n \<longrightarrow> n < length (ct_streams c)))"

definition closed_ok :: "('r, 'd) ctl \<Rightarrow> bool" where
  "closed_ok c \<longleftrightarrow>
     (ct_closed c \<longleftrightarrow> \<not> ct_channelOpen c) \<and>
     (ct_closed c \<longrightarrow> ct_pending c = [] \<and> ct_streamsById c = [] \<and> ct_subsByRef c = [])"

definition ctl_inv :: "('r, 'd) ctl \<Rightarrow> bool" where
  "ctl_inv c \<longleftrightarrow> pending_ok c \<and> promises_ok c \<and> requests_ok c \<and> streams_ok c \<and> closed_ok c"

lemmas ctl_inv_defs = ctl_inv_def pending_ok_def promises_ok_def requests_ok_def streams_ok_def closed_ok_def

subsection \<open>The parts of the state an operation leaves alone\<close>

lemma set_status_fields [simp]:
  "length (ct_calls (set_status k st c)) = length (ct_calls c)" "ct_out (set_status k st c) = ct_out c"
  "ct_pending (set_status k st c) = ct_pending c" "ct_negotiation (set_status k st c) = ct_negotiation c"
  "ct_streams (set_status k st c) = ct_streams c" "ct_streamsById (set_status k st c) = ct_streamsById c"
  "ct_subsByRef (set_status k st c) = ct_subsByRef c" "ct_finally (set_status k st c) = ct_finally c"
  "ct_closed (set_status k st c) = ct_closed c" "ct_channelOpen (set_status k st c) = ct_channelOpen c"
  by (simp_all add: set_status_def)

lemma set_status_nth:
  "k < length (ct_calls c) \<Longrightarrow>
   ct_calls (set_status k st c) ! i = (if i = k then (ct_calls c ! k)\<lparr>cl_status := st\<rparr> else ct_calls c ! i)"
  by (simp add: set_status_def nth_list_update)

lemma settle_fields [simp]:
  "length (ct_calls (settle k e c)) = length (ct_calls c)" "ct_pending (settle k e c) = ct_pending c"
  "ct_negotiation (settle k e c) = ct_negotiation c" "ct_streams (settle k e c) = ct_streams c"
  "ct_streamsById (settle k e c) = ct_streamsById c" "ct_subsByRef (settle k e c) = ct_subsByRef c"
  "ct_closed (settle k e c) = ct_closed c" "ct_channelOpen (settle k e c) = ct_channelOpen c"
  by (simp_all add: settle_def log_ctl_def Let_def split: option.split)

lemma settle_nth:
  "k < length (ct_calls c) \<Longrightarrow>
   ct_calls (settle k e c) ! i = (if i = k then (ct_calls c ! k)\<lparr>cl_status := CallDone\<rparr> else ct_calls c ! i)"
  by (auto simp: settle_def log_ctl_def set_status_nth Let_def split: option.split)

lemma settle_out:
  "ct_out (settle k e c) = ct_out c @ (if cl_status (ct_calls c ! k) = CallDone then [] else [e])"
  by (auto simp: settle_def log_ctl_def Let_def split: option.split)

lemma settle_finally:
  "set (ct_finally (settle k e c)) \<subseteq> set (ct_finally c) \<union> set_option (cl_ends (ct_calls c ! k))"
  by (auto simp: settle_def log_ctl_def Let_def split: option.split)

subsection \<open>Settling\<close>

definition settling :: "nat \<Rightarrow> ('r, 'd) ctl_out \<Rightarrow> bool" where
  "settling k e \<longleftrightarrow> (\<exists>v. e = Resolved k v) \<or> (\<exists>x. e = Rejected k x)"

lemma settling_simps [simp]: "settling k (Resolved k v)" "settling k (Rejected k x)"
  by (auto simp: settling_def)

lemma settling_settles: "settling k e \<Longrightarrow> settles i e \<longleftrightarrow> i = k"
  by (auto simp: settling_def)

lemma settle_promises:
  assumes "promises_ok c" and "k < length (ct_calls c)" and "settling k e"
  shows "promises_ok (settle k e c)"
  unfolding promises_ok_def
proof
  fix i
  show "settlements i (ct_out (settle k e c)) =
      (if i < length (ct_calls (settle k e c)) \<and> cl_status (ct_calls (settle k e c) ! i) = CallDone then 1 else 0)"
    using assms unfolding promises_ok_def
    by (auto simp: settle_out settle_nth settling_settles)
qed

lemma settle_requests:
  assumes "requests_ok c" and "settling k e"
  shows "requests_ok (settle k e c)"
proof -
  have "SendRequest rid m p \<noteq> e" for rid m p using assms(2) by (auto simp: settling_def)
  then show ?thesis using assms(1) by (auto simp: requests_ok_def settle_out)
qed

lemma calls_set: "x \<in> set (ct_calls c) \<longleftrightarrow> (\<exists>i < length (ct_calls c). ct_calls c ! i = x)"
  by (auto simp: in_set_conv_nth)

lemma settle_streams:
  assumes ok: "streams_ok c" and k: "k < length (ct_calls c)"
  shows "streams_ok (settle k e c)"
proof -
  have at: "(\<forall>ref n. cl_subscribes (ct_calls c ! i) = Some (ref, n) \<longrightarrow> n < length (ct_streams c)) \<and>
      (\<forall>n. cl_ends (ct_calls c ! i) = Some n \<longrightarrow> n < length (ct_streams c))" if "i < length (ct_calls c)" for i
    using ok nth_mem [OF that] by (auto simp: streams_ok_def)
  have "\<forall>n \<in> set (ct_finally (settle k e c)). n < length (ct_streams c)"
    using ok at [OF k] settle_finally [of k e c] unfolding streams_ok_def by fastforce
  moreover have "\<forall>x \<in> set (ct_calls (settle k e c)). (\<forall>ref n. cl_subscribes x = Some (ref, n) \<longrightarrow> n < length (ct_streams c)) \<and>
      (\<forall>n. cl_ends x = Some n \<longrightarrow> n < length (ct_streams c))"
    using at k by (auto simp: calls_set settle_nth split: if_splits)
  ultimately show ?thesis using ok by (simp add: streams_ok_def)
qed

lemma settle_closed [simp]: "closed_ok (settle k e c) = closed_ok c"
  by (simp add: closed_ok_def)

lemma settle_in_flight:
  "k < length (ct_calls c) \<Longrightarrow> in_flight (settle k e c) i rid \<longleftrightarrow> i \<noteq> k \<and> in_flight c i rid"
  by (auto simp: in_flight_def settle_nth)

lemma settle_gated:
  assumes inv: "ctl_inv c" and k: "k < length (ct_calls c)" and gated: "cl_status (ct_calls c ! k) = CallGated" and e: "settling k e"
  shows "ctl_inv (settle k e c)"
proof -
  have "pending_ok (settle k e c)"
    using inv gated unfolding ctl_inv_def pending_ok_def settle_in_flight [OF k]
    by (metis call_status.distinct(1) in_flight_def settle_fields(2))
  then show ?thesis using inv k e by (simp add: ctl_inv_def settle_promises settle_requests settle_streams)
qed

text \<open>An answered request leaves the table and settles its call.\<close>

lemma settle_answered:
  assumes inv: "ctl_inv c" and at: "aget (ct_pending c) rid = Some k" and e: "settling k e"
  shows "ctl_inv (settle k e (c\<lparr>ct_pending := adel rid (ct_pending c)\<rparr>))"
proof -
  let ?c = "c\<lparr>ct_pending := adel rid (ct_pending c)\<rparr>"
  have fl: "in_flight c k rid" using inv at by (simp add: ctl_inv_def pending_ok_def)
  then have k: "k < length (ct_calls ?c)" by (simp add: in_flight_def)
  have same: "in_flight ?c = in_flight c" by (auto simp: in_flight_def fun_eq_iff)
  have "aget (adel rid (ct_pending c)) r = Some i \<longleftrightarrow> i \<noteq> k \<and> in_flight c i r" for i r
  proof -
    have tab: "aget (ct_pending c) r = Some i \<longleftrightarrow> in_flight c i r" for i r
      using inv by (simp add: ctl_inv_def pending_ok_def del: map_of_eq_Some_iff)
    have "r = rid" if "in_flight c k r" for r using that fl by (simp add: in_flight_def)
    moreover have "i = k" if "in_flight c i rid" for i using that at tab by (metis option.inject)
    moreover have "aget (adel rid (ct_pending c)) r = (if r = rid then None else aget (ct_pending c) r)" by (rule aget_adel)
    ultimately show ?thesis using tab [of r i] by (cases "r = rid") auto
  qed
  then have "pending_ok (settle k e ?c)"
    using inv unfolding ctl_inv_def pending_ok_def settle_in_flight [OF k] same
    by (simp add: distinct_akeys_adel del: map_of_eq_Some_iff)
  moreover have "promises_ok ?c" "requests_ok ?c" "streams_ok ?c" "closed_ok ?c"
    using inv by (auto simp: ctl_inv_defs adel_def)
  ultimately show ?thesis using k e by (simp add: ctl_inv_def settle_promises settle_requests settle_streams)
qed

text \<open>Changes outside the tables, the calls, the streams and the settled negotiation.\<close>

lemma inv_frame:
  assumes "ctl_inv c" and "ct_pending c' = ct_pending c" and "ct_calls c' = ct_calls c" and "ct_out c' = ct_out c"
    and "length (ct_streams c') = length (ct_streams c)" and "ct_streamsById c' = ct_streamsById c"
    and "ct_subsByRef c' = ct_subsByRef c" and "set (ct_finally c') \<subseteq> set (ct_finally c)"
    and "ct_closed c' = ct_closed c" and "ct_channelOpen c' = ct_channelOpen c"
    and "(\<exists>active. ct_negotiation c = Settled (Inr active)) \<longrightarrow> ct_negotiation c' = ct_negotiation c"
  shows "ctl_inv c'"
proof -
  have "in_flight c' = in_flight c" using assms(3) by (auto simp: in_flight_def fun_eq_iff)
  then have "pending_ok c'" using assms(1,2) by (simp add: ctl_inv_def pending_ok_def)
  moreover have "promises_ok c'" using assms(1,3,4) by (simp add: ctl_inv_def promises_ok_def)
  moreover have "requests_ok c'" using assms(1,4,11) unfolding ctl_inv_def requests_ok_def by metis
  moreover have "streams_ok c'" using assms(1,3,5-8) unfolding ctl_inv_def streams_ok_def by (simp add: subset_iff)
  moreover have "closed_ok c'" using assms(1,2,6,7,9,10) by (simp add: ctl_inv_def closed_ok_def)
  ultimately show ?thesis by (simp add: ctl_inv_def)
qed

lemma log_inv:
  assumes "ctl_inv c" and "\<And>i. \<not> settles i e" and "\<And>rid m p. e \<noteq> SendRequest rid m p"
  shows "ctl_inv (log_ctl e c)"
proof -
  have "in_flight (log_ctl e c) = in_flight c" by (auto simp: in_flight_def fun_eq_iff log_ctl_def)
  then have "pending_ok (log_ctl e c)" using assms(1) by (simp add: ctl_inv_def pending_ok_def log_ctl_def)
  moreover have "promises_ok (log_ctl e c)" using assms(1,2) by (simp add: ctl_inv_def promises_ok_def log_ctl_def)
  moreover have "requests_ok (log_ctl e c)" using assms(1,3) unfolding ctl_inv_def requests_ok_def log_ctl_def by auto
  moreover have "streams_ok (log_ctl e c) \<and> closed_ok (log_ctl e c)"
    using assms(1) by (simp add: ctl_inv_def streams_ok_def closed_ok_def log_ctl_def)
  ultimately show ?thesis by (simp add: ctl_inv_def)
qed

text \<open>The settled negotiation is for good, and only an open one fails.\<close>

definition unsettled :: "('r, 'd) ctl \<Rightarrow> bool" where
  "unsettled c \<longleftrightarrow> (\<forall>active. ct_negotiation c \<noteq> Settled (Inr active))"

lemma fail_negotiation_inv: "ctl_inv c \<Longrightarrow> unsettled c \<Longrightarrow> ctl_inv (fail_negotiation e c)"
  by (rule inv_frame [of c]) (auto simp: fail_negotiation_def unsettled_def)

lemma settle_negotiation_inv: "ctl_inv c \<Longrightarrow> unsettled c \<Longrightarrow> ctl_inv (c\<lparr>ct_negotiation := x\<rparr>)"
  by (rule inv_frame [of c]) (auto simp: unsettled_def)

lemma settle_ack_inv: "ctl_inv c \<Longrightarrow> ctl_inv (settle_ack x c)"
  by (rule inv_frame [of c]) (auto simp: settle_ack_def split: ack_promise.split)

lemma flags_inv [simp]:
  "ctl_inv (c\<lparr>ct_awaitingHelloAck := a\<rparr>) = ctl_inv c" "ctl_inv (c\<lparr>ct_timer := a\<rparr>) = ctl_inv c"
  "ctl_inv (c\<lparr>ct_timer := a, ct_awaitingHelloAck := b\<rparr>) = ctl_inv c" "ctl_inv (stop_timer c) = ctl_inv c"
  "ctl_inv (c\<lparr>ct_ack := x\<rparr>) = ctl_inv c"
  by (simp_all add: ctl_inv_defs in_flight_def stop_timer_def)

lemma unsettled_flags [simp]:
  "unsettled (c\<lparr>ct_ack := x\<rparr>) = unsettled c" "unsettled (c\<lparr>ct_timer := a\<rparr>) = unsettled c"
  "unsettled (log_ctl e c) = unsettled c" "unsettled (stop_timer c) = unsettled c"
  "unsettled (c\<lparr>ct_awaitingHelloAck := b\<rparr>) = unsettled c"
  by (simp_all add: unsettled_def log_ctl_def stop_timer_def)

lemma send_hello_inv: "ctl_inv c \<Longrightarrow> unsettled c \<Longrightarrow> ctl_inv (send_hello k sig c)"
  by (auto simp: send_hello_def Let_def intro!: settle_negotiation_inv fail_negotiation_inv log_inv)

lemma negotiate_ready_inv: "ctl_inv c \<Longrightarrow> ct_negotiation c = AwaitingReady \<Longrightarrow> ctl_inv (negotiate_ready sid c)"
  by (auto simp: negotiate_ready_def unsettled_def
      intro!: send_hello_inv fail_negotiation_inv settle_negotiation_inv log_inv split: option.split)
    (simp add: log_ctl_def)

lemma negotiate_acked_inv: "ctl_inv c \<Longrightarrow> ctl_inv (negotiate_acked c)"
  by (auto simp: negotiate_acked_def unsettled_def intro!: fail_negotiation_inv settle_negotiation_inv
      split: negotiation.split ack_promise.split sum.split prod.split)

lemma on_stream_inv: "ctl_inv c \<Longrightarrow> ctl_inv (on_stream n f c)"
  by (rule inv_frame [of c]) (auto simp: on_stream_def)

lemma run_finally_inv: "ctl_inv c \<Longrightarrow> ctl_inv (run_finally i c)"
  unfolding run_finally_def
  by (auto intro!: on_stream_inv inv_frame [of c] dest: in_set_takeD in_set_dropD)

subsection \<open>Calls\<close>

lemma in_flight_snoc:
  "in_flight (c\<lparr>ct_calls := ct_calls c @ [x]\<rparr>) k rid \<longleftrightarrow> in_flight c k rid \<or> (k = length (ct_calls c) \<and> cl_status x = CallInFlight rid)"
  by (auto simp: in_flight_def nth_append less_Suc_eq)

lemma new_call_inv:
  assumes inv: "ctl_inv c" and x: "cl_status x = CallGated" and str: "\<forall>ref n. cl_subscribes x = Some (ref, n) \<longrightarrow> n < length (ct_streams c)"
    "\<forall>n. cl_ends x = Some n \<longrightarrow> n < length (ct_streams c)"
  shows "ctl_inv (c\<lparr>ct_calls := ct_calls c @ [x]\<rparr>)"
proof -
  let ?c = "c\<lparr>ct_calls := ct_calls c @ [x]\<rparr>"
  have fl: "in_flight ?c = in_flight c" using x by (auto simp: in_flight_snoc fun_eq_iff)
  have "pending_ok ?c" using inv by (simp add: ctl_inv_def pending_ok_def fl)
  moreover have "promises_ok ?c" using inv x by (auto simp: ctl_inv_def promises_ok_def nth_append less_Suc_eq)
  moreover have "requests_ok ?c \<and> closed_ok ?c" using inv by (simp add: ctl_inv_def requests_ok_def closed_ok_def)
  moreover have "streams_ok ?c" using inv str by (auto simp: ctl_inv_def streams_ok_def)
  ultimately show ?thesis by (simp add: ctl_inv_def)
qed

lemma send_call_inv:
  assumes "ctl_inv c" and "\<forall>ref n. subs = Some (ref, n) \<longrightarrow> n < length (ct_streams c)"
    and "\<forall>n. ends = Some n \<longrightarrow> n < length (ct_streams c)"
  shows "ctl_inv (send_call m p subs ends c)"
  unfolding send_call_def Let_def
  using assms by (auto simp: reject_call_def intro!: settle_gated new_call_inv)

lemma new_stream_ctl_inv: "ctl_inv c \<Longrightarrow> ctl_inv (c\<lparr>ct_streams := ct_streams c @ [s]\<rparr>)"
  by (fastforce simp: ctl_inv_defs in_flight_def)

lemma subscribe_call_inv: "ctl_inv c \<Longrightarrow> ctl_inv (subscribe_call ref vp l c)"
  unfolding subscribe_call_def Let_def by (intro send_call_inv new_stream_ctl_inv) auto

lemma drop_sub_inv:
  "ctl_inv c \<Longrightarrow> ctl_inv (c\<lparr>ct_subsByRef := adel ref (ct_subsByRef c), ct_streamsById := adel i (ct_streamsById c)\<rparr>)"
  by (auto simp: ctl_inv_defs in_flight_def adel_def)

lemma unsubscribe_call_inv:
  assumes inv: "ctl_inv c"
  shows "ctl_inv (unsubscribe_call ref c)"
proof -
  have "n < length (ct_streams c)" if "aget (ct_subsByRef c) ref = Some (i, n)" for i n
    using inv map_of_SomeD [OF that] by (force simp: ctl_inv_def streams_ok_def)
  then show ?thesis using inv
    by (auto simp: unsubscribe_call_def intro!: send_call_inv drop_sub_inv split: option.split)
qed

lemma adel_aset: "aget m k = None \<Longrightarrow> adel k (aset k v m) = m"
proof (induction m)
  case (Cons x m)
  then have "aget m k = None" "fst x \<noteq> k" by (cases x; auto split: if_splits)+
  moreover from this(1) have "\<forall>(k', v') \<in> set m. k' \<noteq> k" by (force simp: map_of_eq_None_iff)
  ultimately show ?case using Cons.IH by (cases x) (auto simp: adel_def)
qed (simp add: adel_def)

text \<open>A request whose send throws leaves nothing behind but its rejection.\<close>

lemma too_long:
  assumes "k < length (ct_calls c) \<and> cl_status (ct_calls c ! k) = CallGated" and "aget (ct_pending c) rid = None"
  shows "reject_call k e (set_status k (CallInFlight rid) (c\<lparr>ct_pending := aset rid k (ct_pending c)\<rparr>)
      \<lparr>ct_pending := adel rid (aset rid k (ct_pending c))\<rparr>) = reject_call k e c"
proof -
  have "adel rid (aset rid k (ct_pending c)) = ct_pending c" using assms(2) by (simp add: adel_aset)
  then have "set_status k (CallInFlight rid) (c\<lparr>ct_pending := aset rid k (ct_pending c)\<rparr>)
      \<lparr>ct_pending := adel rid (aset rid k (ct_pending c))\<rparr> = set_status k (CallInFlight rid) c" by (simp add: set_status_def)
  then show ?thesis using assms(1) by (simp add: reject_call_def settle_def set_status_def log_ctl_def Let_def)
qed

lemma resume_call_inv:
  assumes inv: "ctl_inv c" and fresh: "aget (ct_pending c) rid = None"
  shows "ctl_inv (resume_call k rid c)"
proof (cases "k < length (ct_calls c) \<and> cl_status (ct_calls c ! k) = CallGated")
  case gated: True
  have rej: "ctl_inv (reject_call k e c)" for e
    using gated inv by (simp add: reject_call_def settle_gated)
  have disp: "ctl_inv (dispatch_call k rid m p c)"
    if nego: "ct_negotiation c = Settled (Inr active)" "case requiredCapability m of None \<Rightarrow> True | Some cap \<Rightarrow> cap \<in> set active"
    for m p active
  proof (cases "ct_closed c \<or> \<not> valid_params m p")
    case True
    then show ?thesis using rej by (auto simp: dispatch_call_def)
  next
    case False
    then have on: "ct_channelOpen c" using inv by (simp add: ctl_inv_def closed_ok_def)
    show ?thesis
    proof (cases "ct_fitsRecord c rid m p")
    case no_room: False
    have "dispatch_call k rid m p c = reject_call k SendThrew c"
      using too_long [OF gated fresh] False no_room
      by (simp add: dispatch_call_def Let_def) (simp add: set_status_def)
    then show ?thesis using rej by simp
    next
    case room: True
    have d: "dispatch_call k rid m p c =
        log_ctl (SendRequest rid m p) (set_status k (CallInFlight rid) (c\<lparr>ct_pending := aset rid k (ct_pending c)\<rparr>))"
      using False room on by (simp add: dispatch_call_def Let_def) (simp add: set_status_def)
    let ?c = "dispatch_call k rid m p c"
    have nth: "ct_calls ?c ! i = (if i = k then (ct_calls c ! k)\<lparr>cl_status := CallInFlight rid\<rparr> else ct_calls c ! i)" for i
      using gated by (simp add: d log_ctl_def set_status_nth)
    have len: "length (ct_calls ?c) = length (ct_calls c)" by (simp add: d log_ctl_def)
    have fl: "in_flight ?c i r \<longleftrightarrow> (if i = k then r = rid else in_flight c i r)" for i r
      using gated by (auto simp: in_flight_def nth len)
    have tab: "aget (ct_pending c) r = Some i \<longleftrightarrow> in_flight c i r" for i r
      using inv by (simp add: ctl_inv_def pending_ok_def del: map_of_eq_Some_iff)
    have "aget (aset rid k (ct_pending c)) r = Some i \<longleftrightarrow> (if i = k then r = rid else in_flight c i r)" for i r
    proof -
      have "\<not> in_flight c k r" using gated by (simp add: in_flight_def)
      then show ?thesis using tab [of r i] tab [of rid i] fresh
        by (cases "r = rid") (auto simp: aget_aset simp del: map_of_eq_Some_iff)
    qed
    then have "pending_ok ?c" using inv unfolding pending_ok_def fl
      by (simp add: d log_ctl_def ctl_inv_def pending_ok_def distinct_akeys_aset del: map_of_eq_Some_iff)
    moreover have "promises_ok ?c" using inv gated unfolding promises_ok_def nth len
      by (auto simp: d log_ctl_def ctl_inv_def promises_ok_def)
    moreover have "requests_ok ?c" using inv that False
      by (auto simp: d log_ctl_def ctl_inv_def requests_ok_def)
    moreover have "streams_ok ?c"
    proof -
      have "\<exists>y \<in> set (ct_calls c). cl_subscribes x = cl_subscribes y \<and> cl_ends x = cl_ends y"
        if "x \<in> set (ct_calls ?c)" for x
      proof -
        have "\<exists>i < length (ct_calls ?c). ct_calls ?c ! i = x" using that by (simp only: in_set_conv_nth)
        then obtain i where "i < length (ct_calls c)" "ct_calls ?c ! i = x" unfolding len by blast
        then show ?thesis by (intro bexI [of _ "ct_calls c ! i"]) (auto simp: nth split: if_splits)
      qed
      then show ?thesis using inv unfolding ctl_inv_def streams_ok_def
        by (simp add: d log_ctl_def) (metis (no_types, lifting))
    qed
    moreover have "closed_ok ?c" using inv False by (simp add: d log_ctl_def ctl_inv_def closed_ok_def)
    ultimately show ?thesis by (simp add: ctl_inv_def)
    qed
  qed
  show ?thesis using gated inv rej disp
    by (auto simp: resume_call_def Let_def split: negotiation.split sum.split option.split)
next
  case False
  then show ?thesis using inv by (auto simp: resume_call_def)
qed

subsection \<open>Answers\<close>

lemma register_stream_inv:
  assumes inv: "ctl_inv c" and n: "n < length (ct_streams c)" and on: "\<not> ct_closed c"
  shows "ctl_inv (c\<lparr>ct_streamsById := aset i n (ct_streamsById c), ct_subsByRef := aset ref (i, n) (ct_subsByRef c)\<rparr>)"
proof -
  let ?c = "c\<lparr>ct_streamsById := aset i n (ct_streamsById c), ct_subsByRef := aset ref (i, n) (ct_subsByRef c)\<rparr>"
  have "streams_ok ?c" using inv n unfolding ctl_inv_def streams_ok_def by (auto dest!: in_set_aset)
  then show ?thesis using inv on
    by (auto simp: ctl_inv_def pending_ok_def promises_ok_def requests_ok_def closed_ok_def in_flight_def)
qed

lemma onResponse_inv:
  assumes inv: "ctl_inv c"
  shows "ctl_inv (onResponse cd r c)"
proof (cases "aget (ct_pending c) (response_id r)")
  case (Some k)
  let ?c1 = "c\<lparr>ct_pending := adel (response_id r) (ct_pending c)\<rparr>"
  have on: "\<not> ct_closed c" using inv Some by (auto simp: ctl_inv_def closed_ok_def)
  have k: "k < length (ct_calls c)" using inv Some by (simp add: ctl_inv_def pending_ok_def in_flight_def del: map_of_eq_Some_iff)
  have plain: "settling k e \<Longrightarrow> ctl_inv (settle k e ?c1)" for e by (rule settle_answered [OF inv Some])
  have sub: "ctl_inv (settle k e (?c1\<lparr>ct_streamsById := aset i n (ct_streamsById ?c1), ct_subsByRef := aset ref (i, n) (ct_subsByRef ?c1)\<rparr>))"
    if "cl_subscribes (ct_calls c ! k) = Some (ref, n)" "settling k e" for ref n i e
  proof -
    let ?d = "c\<lparr>ct_streamsById := aset i n (ct_streamsById c), ct_subsByRef := aset ref (i, n) (ct_subsByRef c)\<rparr>"
    have "n < length (ct_streams c)"
      using inv that(1) nth_mem [OF k] by (auto simp: ctl_inv_def streams_ok_def)
    then have "ctl_inv ?d" using on by (rule register_stream_inv [OF inv])
    moreover have "aget (ct_pending ?d) (response_id r) = Some k" using Some by simp
    ultimately have "ctl_inv (settle k e (?d\<lparr>ct_pending := adel (response_id r) (ct_pending ?d)\<rparr>))"
      using that(2) by (rule settle_answered)
    moreover have "?c1\<lparr>ct_streamsById := aset i n (ct_streamsById ?c1), ct_subsByRef := aset ref (i, n) (ct_subsByRef ?c1)\<rparr> =
        ?d\<lparr>ct_pending := adel (response_id r) (ct_pending ?d)\<rparr>" by simp
    ultimately show ?thesis by (simp only:)
  qed
  show ?thesis
    unfolding onResponse_def Some option.case Let_def
    using plain sub by (auto simp: reject_call_def split: response.split option.split)
qed (simp add: onResponse_def inv)

lemma handleHelloAck_inv: "ctl_inv c \<Longrightarrow> ctl_inv (handleHelloAck cd p c)"
  by (auto simp: handleHelloAck_def Let_def intro!: settle_ack_inv split: option.split)

lemma ctl_control_inv: "ctl_inv c \<Longrightarrow> ctl_inv (ctl_control cd p c)"
  by (auto simp: ctl_control_def handleHelloAck_inv onResponse_inv split: option.split)

lemma onBinary_inv: "ctl_inv c \<Longrightarrow> ctl_inv (onBinary p c)"
  by (auto simp: onBinary_def intro!: on_stream_inv log_inv split: option.split)

subsection \<open>Closing\<close>

text \<open>Rejecting every call of the table, one after the other.\<close>

lemma fold_reject:
  assumes "promises_ok c" and "requests_ok c" and "streams_ok c" and "\<forall>k \<in> set ks. k < length (ct_calls c)"
  shows "promises_ok (fold (\<lambda>k. reject_call k e) ks c) \<and> requests_ok (fold (\<lambda>k. reject_call k e) ks c) \<and>
    streams_ok (fold (\<lambda>k. reject_call k e) ks c) \<and>
    (\<forall>i rid. in_flight (fold (\<lambda>k. reject_call k e) ks c) i rid \<longleftrightarrow> i \<notin> set ks \<and> in_flight c i rid) \<and>
    ct_closed (fold (\<lambda>k. reject_call k e) ks c) = ct_closed c \<and>
    ct_channelOpen (fold (\<lambda>k. reject_call k e) ks c) = ct_channelOpen c"
  using assms
proof (induction ks arbitrary: c)
  case (Cons k ks)
  have k: "k < length (ct_calls c)" using Cons.prems(4) by simp
  have "promises_ok (reject_call k e c)" "requests_ok (reject_call k e c)" "streams_ok (reject_call k e c)"
    using Cons.prems k by (simp_all add: reject_call_def settle_promises settle_requests settle_streams)
  then have "promises_ok (fold (\<lambda>k. reject_call k e) ks (reject_call k e c)) \<and>
      requests_ok (fold (\<lambda>k. reject_call k e) ks (reject_call k e c)) \<and>
      streams_ok (fold (\<lambda>k. reject_call k e) ks (reject_call k e c)) \<and>
      (\<forall>i rid. in_flight (fold (\<lambda>k. reject_call k e) ks (reject_call k e c)) i rid \<longleftrightarrow>
         i \<notin> set ks \<and> in_flight (reject_call k e c) i rid) \<and>
      ct_closed (fold (\<lambda>k. reject_call k e) ks (reject_call k e c)) = ct_closed (reject_call k e c) \<and>
      ct_channelOpen (fold (\<lambda>k. reject_call k e) ks (reject_call k e c)) = ct_channelOpen (reject_call k e c)"
    using Cons.prems(4) by (intro Cons.IH) (simp_all add: reject_call_def)
  moreover have "in_flight (reject_call k e c) i rid \<longleftrightarrow> i \<noteq> k \<and> in_flight c i rid" for i rid
    using settle_in_flight [OF k] by (simp add: reject_call_def)
  moreover have "ct_closed (reject_call k e c) = ct_closed c" "ct_channelOpen (reject_call k e c) = ct_channelOpen c"
    by (simp_all add: reject_call_def)
  ultimately show ?case by auto
qed simp

lemma fold_on_stream_fields:
  "ct_pending (fold (\<lambda>n. on_stream n f) ns c) = ct_pending c" "ct_calls (fold (\<lambda>n. on_stream n f) ns c) = ct_calls c"
  "ct_out (fold (\<lambda>n. on_stream n f) ns c) = ct_out c" "ct_negotiation (fold (\<lambda>n. on_stream n f) ns c) = ct_negotiation c"
  "length (ct_streams (fold (\<lambda>n. on_stream n f) ns c)) = length (ct_streams c)"
  "ct_finally (fold (\<lambda>n. on_stream n f) ns c) = ct_finally c" "ct_closed (fold (\<lambda>n. on_stream n f) ns c) = ct_closed c"
  "ct_channelOpen (fold (\<lambda>n. on_stream n f) ns c) = ct_channelOpen c"
  by (induction ns arbitrary: c) (simp_all add: on_stream_def)

lemma channel_down_inv:
  assumes inv: "ctl_inv c"
  shows "ctl_inv (channel_down c)"
proof (cases "ct_channelOpen c")
  case True
  then have on: "\<not> ct_closed c" using inv by (simp add: ctl_inv_def closed_ok_def)
  let ?c1 = "stop_timer (c\<lparr>ct_channelOpen := False, ct_closed := True\<rparr>)"
  let ?c2 = "if ct_awaitingHelloAck ?c1 then settle_ack (Inl ChannelClosed) (?c1\<lparr>ct_awaitingHelloAck := False\<rparr>) else ?c1"
  let ?ks = "map snd (ct_pending ?c2)"
  let ?c3 = "fold (\<lambda>k. reject_call k ChannelClosed) ?ks ?c2"
  let ?c4 = "fold (\<lambda>n. on_stream n end_stream) (map snd (ct_streamsById ?c3)) (?c3\<lparr>ct_pending := []\<rparr>)"
  have c2: "ct_pending ?c2 = ct_pending c" "ct_calls ?c2 = ct_calls c" "ct_out ?c2 = ct_out c" "ct_closed ?c2" "\<not> ct_channelOpen ?c2"
      "ct_negotiation ?c2 = ct_negotiation c" "ct_streams ?c2 = ct_streams c" "ct_streamsById ?c2 = ct_streamsById c"
      "ct_subsByRef ?c2 = ct_subsByRef c" "ct_finally ?c2 = ct_finally c"
    by (simp_all add: stop_timer_def settle_ack_def split: ack_promise.split)
  have "promises_ok ?c2" "requests_ok ?c2" "streams_ok ?c2"
    using inv by (simp_all add: ctl_inv_def promises_ok_def requests_ok_def streams_ok_def c2)
  moreover have ks: "\<forall>k \<in> set ?ks. k < length (ct_calls ?c2)"
  proof
    fix k
    assume "k \<in> set ?ks"
    then obtain rid where "(rid, k) \<in> set (ct_pending c)" by (auto simp: c2)
    then have "aget (ct_pending c) rid = Some k" using inv by (simp add: ctl_inv_def pending_ok_def)
    then show "k < length (ct_calls ?c2)" using inv by (simp add: ctl_inv_def pending_ok_def in_flight_def c2 del: map_of_eq_Some_iff)
  qed
  ultimately have c3: "promises_ok ?c3" "requests_ok ?c3" "streams_ok ?c3"
      "\<And>i rid. in_flight ?c3 i rid \<longleftrightarrow> i \<notin> set ?ks \<and> in_flight ?c2 i rid" "ct_closed ?c3" "\<not> ct_channelOpen ?c3"
    using fold_reject [of ?c2 ?ks ChannelClosed] c2 by simp_all
  have none: "\<not> in_flight ?c3 i rid" for i rid
  proof
    assume "in_flight ?c3 i rid"
    then have "i \<notin> set ?ks" "in_flight c i rid" using c3(4) by (simp_all add: in_flight_def c2)
    moreover from this have "aget (ct_pending c) rid = Some i" using inv by (simp add: ctl_inv_def pending_ok_def del: map_of_eq_Some_iff)
    ultimately show False using map_of_SomeD [of "ct_pending c" rid i] by (force simp: c2)
  qed
  have down: "channel_down c = ?c4\<lparr>ct_streamsById := [], ct_subsByRef := []\<rparr>"
    using True on by (simp add: channel_down_def onClose_def Let_def)
  let ?d = "?c4\<lparr>ct_streamsById := [], ct_subsByRef := []\<rparr>"
  note f = fold_on_stream_fields [of end_stream "map snd (ct_streamsById ?c3)" "?c3\<lparr>ct_pending := []\<rparr>"]
  have "pending_ok ?d" using none by (simp add: pending_ok_def in_flight_def f)
  moreover have "promises_ok ?d" "requests_ok ?d" using c3(1,2) by (simp_all add: promises_ok_def requests_ok_def f)
  moreover have "streams_ok ?d" using c3(3) by (simp add: streams_ok_def f)
  moreover have "closed_ok ?d" using c3(5,6) by (simp add: closed_ok_def f)
  ultimately show ?thesis unfolding down by (simp add: ctl_inv_def)
qed (simp add: channel_down_def inv)

lemma controller_close_inv: "ctl_inv c \<Longrightarrow> ctl_inv (controller_close c)"
  unfolding controller_close_def by (intro channel_down_inv log_inv) simp_all

lemma negotiation_timer_inv: "ctl_inv c \<Longrightarrow> ctl_inv (negotiation_timer c)"
  unfolding negotiation_timer_def by (auto intro!: controller_close_inv settle_ack_inv)

lemma ctl_step_inv: "ctl_inv c \<Longrightarrow> ctl_inv (ctl_step cd ev c)"
  unfolding ctl_step_def
  by (auto simp: unsettled_def intro!: negotiate_ready_inv fail_negotiation_inv send_hello_inv negotiate_acked_inv
      negotiation_timer_inv send_call_inv subscribe_call_inv unsubscribe_call_inv resume_call_inv run_finally_inv
      ctl_control_inv onBinary_inv channel_down_inv controller_close_inv on_stream_inv
      split: ctl_event.split negotiation.split option.split)

interpretation controller: machine "ctl_step cd" "\<lambda>_. True" ctl_inv for cd
  by unfold_locales (rule ctl_step_inv)

lemma new_controller_inv: "new_controller fits caps signer host = Some c \<Longrightarrow> ctl_inv c"
  by (auto simp: new_controller_def ctl_inv_defs in_flight_def split: if_splits)

lemma ctl_run_inv: "new_controller fits caps signer host = Some c \<Longrightarrow> ctl_inv (ctl_run cd evs c)"
  by (rule controller.run_inv [OF new_controller_inv]) (simp_all add: list_all_iff)

end
