(* ===== verification/ControllerEnds.thy ===== *)
theory ControllerEnds
  imports ControllerSteps
begin

text \<open>
  Where the controller's negotiated set comes from, and what closing does to what is open: a closed
  controller owes no answer, and the streams it had registered have ended.

  How a controller's promises come to an end: a handshake that waits for the host's ack has its timer
  running or its ack's promise settled, and what closing does to each call and stream.
\<close>

subsection \<open>The negotiated set\<close>

definition ack_history :: "('j, 'r, 'd) sdk_codec \<Rightarrow> ctl_event list \<Rightarrow> ('r, 'd) ctl \<Rightarrow> bool" where
  "ack_history cd evs c \<longleftrightarrow>
     (\<forall>ack. ct_ack c = AckSettled (Inr ack) \<longrightarrow> (\<exists>p. ControlInEv p \<in> set evs \<and> sc_ack cd p = Some ack)) \<and>
     (\<forall>active. ct_negotiation c = Settled (Inr active) \<longrightarrow>
        (\<exists>ack. ct_ack c = AckSettled (Inr ack) \<and> evaluateCompat (fst ack) = CompatOk \<and>
           active = negotiate (ct_capabilities c) (snd ack))) \<and>
     (\<forall>k. ct_negotiation c = AwaitingReady \<or> ct_negotiation c = Signing k \<longrightarrow> ct_ack c = NoAck)"

text \<open>The handshake's fields, and the operations that leave them alone.\<close>

definition same_handshake :: "('r, 'd) ctl \<Rightarrow> ('r, 'd) ctl \<Rightarrow> bool" where
  "same_handshake c d \<longleftrightarrow> ct_ack d = ct_ack c \<and> ct_negotiation d = ct_negotiation c \<and> ct_capabilities d = ct_capabilities c \<and>
   ct_awaitingHelloAck d = ct_awaitingHelloAck c \<and> ct_timer d = ct_timer c \<and> ct_channelOpen d = ct_channelOpen c"

lemma same_refl [simp]: "same_handshake c c"
  by (simp add: same_handshake_def)

lemma same_trans: "same_handshake c d \<Longrightarrow> same_handshake d e \<Longrightarrow> same_handshake c e"
  by (simp add: same_handshake_def)

lemma settle_same: "same_handshake c (settle k e c)"
  by (simp add: same_handshake_def settle_def log_ctl_def set_status_def Let_def split: option.split)

lemma primitives_same [simp]:
  "same_handshake c (log_ctl e c)" "same_handshake c (on_stream n f c)" "same_handshake c (set_status k st c)"
  "same_handshake c (c\<lparr>ct_pending := x\<rparr>)" "same_handshake c (c\<lparr>ct_calls := y\<rparr>)" "same_handshake c (reject_call k z c)"
  using settle_same by (simp_all add: same_handshake_def log_ctl_def on_stream_def set_status_def reject_call_def)

lemma send_call_same: "same_handshake c (send_call m p subs ends c)"
  unfolding send_call_def Let_def by (auto intro: same_trans [OF primitives_same(5) primitives_same(6)])

lemma methods_same:
  "same_handshake c (subscribe_call ref vp l c)" "same_handshake c (unsubscribe_call ref c)" "same_handshake c (run_finally i c)"
  using send_call_same [of "c\<lparr>ct_streams := s\<rparr>" for s]
    send_call_same [of "c\<lparr>ct_subsByRef := a, ct_streamsById := b\<rparr>" for a b]
  by (simp_all add: subscribe_call_def unsubscribe_call_def run_finally_def same_handshake_def on_stream_def Let_def
      split: option.split)

lemma resume_same: "same_handshake c (resume_call k rid c)"
proof -
  have "same_handshake c (dispatch_call k rid m p c)" for m p
    by (simp add: dispatch_call_def same_handshake_def log_ctl_def set_status_def reject_call_def settle_def Let_def
        split: option.split)
  then show ?thesis by (auto simp: resume_call_def Let_def split: negotiation.split sum.split option.split)
qed

lemma onResponse_same: "same_handshake c (onResponse cd r c)"
  by (simp add: onResponse_def same_handshake_def reject_call_def settle_def log_ctl_def set_status_def Let_def
      split: option.split response.split)

lemma onBinary_same: "same_handshake c (onBinary p c)"
  by (auto simp: onBinary_def split: option.split)

lemma same_history:
  "ack_history cd evs c \<Longrightarrow> same_handshake c d \<Longrightarrow> ack_history cd (evs @ [e]) d"
  unfolding ack_history_def same_handshake_def by auto

text \<open>An open ack's promise settles; everything else of the handshake stays.\<close>

lemma fold_reject_same: "same_handshake c (fold (\<lambda>k. reject_call k e) ks c)"
proof (induction ks arbitrary: c)
  case (Cons k ks)
  then show ?case using same_trans [OF primitives_same(6) Cons.IH] by simp
qed simp

lemma fold_stream_same: "same_handshake c (fold (\<lambda>n. on_stream n f) ns c)"
proof (induction ns arbitrary: c)
  case (Cons n ns)
  then show ?case using same_trans [OF primitives_same(2) Cons.IH] by simp
qed simp

lemma closing_handshake:
  "ct_negotiation (channel_down c) = ct_negotiation c \<and> ct_capabilities (channel_down c) = ct_capabilities c \<and>
   (ct_ack (channel_down c) = ct_ack c \<or> (ct_ack c = AckOpen \<and> (\<exists>e. ct_ack (channel_down c) = AckSettled (Inl e))))"
proof (cases "ct_channelOpen c \<and> \<not> ct_closed c")
  case True
  let ?c2 = "let c1 = stop_timer (c\<lparr>ct_channelOpen := False, ct_closed := True\<rparr>)
    in if ct_awaitingHelloAck c1 then settle_ack (Inl ChannelClosed) (c1\<lparr>ct_awaitingHelloAck := False\<rparr>) else c1"
  let ?c3 = "fold (\<lambda>k. reject_call k ChannelClosed) (map snd (ct_pending ?c2)) ?c2"
  let ?c4 = "fold (\<lambda>n. on_stream n end_stream) (map snd (ct_streamsById ?c3)) (?c3\<lparr>ct_pending := []\<rparr>)"
  have down: "channel_down c = ?c4\<lparr>ct_streamsById := [], ct_subsByRef := []\<rparr>"
    using True by (simp add: channel_down_def onClose_def Let_def)
  have "same_handshake ?c2 ?c3" by (rule fold_reject_same)
  moreover have "same_handshake (?c3\<lparr>ct_pending := []\<rparr>) ?c4" by (rule fold_stream_same)
  ultimately have "same_handshake ?c2 (channel_down c)" unfolding down by (simp add: same_handshake_def)
  then show ?thesis by (auto simp: same_handshake_def stop_timer_def settle_ack_def Let_def split: ack_promise.splits if_splits)
qed (auto simp: channel_down_def onClose_def)

lemma settle_ack_fields [simp]:
  "ct_negotiation (settle_ack x c) = ct_negotiation c" "ct_capabilities (settle_ack x c) = ct_capabilities c"
  "ct_ack (settle_ack x c) = (if ct_ack c = AckOpen then AckSettled x else ct_ack c)"
  by (auto simp: settle_ack_def split: ack_promise.split)

lemma error_history:
  assumes hist: "ack_history cd evs c" and same: "ct_negotiation d = ct_negotiation c" "ct_capabilities d = ct_capabilities c"
    and ack: "ct_ack d = ct_ack c \<or> (ct_ack c = AckOpen \<and> (\<exists>e. ct_ack d = AckSettled (Inl e)))"
  shows "ack_history cd (evs @ [e]) d"
proof (cases "ct_ack d = ct_ack c")
  case True
  then show ?thesis using hist same by (auto simp: ack_history_def)
next
  case False
  then obtain x where "ct_ack c = AckOpen" "ct_ack d = AckSettled (Inl x)" using ack by blast
  then show ?thesis using hist same by (auto simp: ack_history_def)
qed

lemma ctl_step_history:
  assumes hist: "ack_history cd evs c"
  shows "ack_history cd (evs @ [ev]) (ctl_step cd ev c)"
proof (cases ev)
  case (ReadyEv sid)
  have "ack_history cd (evs @ [ev]) (negotiate_ready sid c)" if "ct_negotiation c = AwaitingReady"
    using hist that
    by (auto simp: negotiate_ready_def send_hello_def fail_negotiation_def ack_history_def log_ctl_def stop_timer_def Let_def
        split: option.split)
  then show ?thesis using ReadyEv same_history [OF hist same_refl] by (auto simp: ctl_step_def)
next
  case ReadyFailedEv
  then show ?thesis using hist by (auto simp: ctl_step_def ack_history_def fail_negotiation_def)
next
  case (SignedEv sig)
  then show ?thesis using hist
    by (auto simp: ctl_step_def ack_history_def send_hello_def fail_negotiation_def log_ctl_def stop_timer_def Let_def
        split: negotiation.split option.split)
next
  case AckedEv
  then show ?thesis using hist
    by (auto simp: ctl_step_def ack_history_def negotiate_acked_def fail_negotiation_def negotiateHello_def
        split: negotiation.split ack_promise.split sum.split prod.split)
next
  case NegotiationTimeoutEv
  show ?thesis
  proof (cases "ct_timer c")
    case True
    let ?d = "log_ctl CloseChannelCall (settle_ack (Inl HandshakeTimeout) (c\<lparr>ct_timer := False, ct_awaitingHelloAck := False\<rparr>))"
    have "ack_history cd (evs @ [ev]) (channel_down ?d)"
      by (rule error_history [OF hist]) (use closing_handshake [of ?d] in \<open>auto simp: log_ctl_def split: if_splits\<close>)
    then show ?thesis using NegotiationTimeoutEv True by (simp add: ctl_step_def negotiation_timer_def controller_close_def)
  qed (use NegotiationTimeoutEv same_history [OF hist same_refl] in \<open>simp add: ctl_step_def negotiation_timer_def\<close>)
next
  case (ControlInEv p)
  have "ack_history cd (evs @ [ev]) (handleHelloAck cd p c)"
    using hist ControlInEv
    by (auto simp: handleHelloAck_def ack_history_def stop_timer_def Let_def split: option.split)
  moreover have "ack_history cd (evs @ [ev]) (onResponse cd r c)" for r
    by (rule same_history [OF hist onResponse_same])
  ultimately show ?thesis using ControlInEv same_history [OF hist same_refl, of ev]
    by (auto simp: ctl_step_def ctl_control_def split: option.split)
next
  case ChannelDownEv
  then show ?thesis using error_history [OF hist] closing_handshake [of c] by (simp add: ctl_step_def)
next
  case CloseCallEv
  then show ?thesis using closing_handshake [of "log_ctl CloseChannelCall c"]
    by (auto simp: ctl_step_def controller_close_def log_ctl_def intro!: error_history [OF hist])
qed (auto simp: ctl_step_def intro!: same_history [OF hist] send_call_same methods_same resume_same onBinary_same)

interpretation controller_history: history_machine "ctl_step cd" "ack_history cd" for cd
  by unfold_locales (rule ctl_step_history)

lemma ctl_run_history: "new_controller fits caps signer host = Some c \<Longrightarrow> ack_history cd evs (ctl_run cd evs c)"
  by (rule controller_history.run_hist) (auto simp: ack_history_def new_controller_def split: if_splits)

subsection \<open>What closing does\<close>

lemma end_streams:
  "n \<in> set ns \<Longrightarrow> n < length (ct_streams c) \<Longrightarrow> es_ended (ct_streams (fold (\<lambda>n. on_stream n end_stream) ns c) ! n)"
proof (induction ns arbitrary: c)
  case (Cons m ns)
  have keep: "es_ended (ct_streams (fold (\<lambda>n. on_stream n end_stream) ns c) ! n)"
    if "es_ended (ct_streams c ! n)" "n < length (ct_streams c)" for c :: "('a, 'b) ctl"
    using that
  proof (induction ns arbitrary: c)
    case (Cons k ns)
    have "es_ended (ct_streams (on_stream k end_stream c) ! n)"
      using Cons.prems by (cases "k = n") (simp_all add: on_stream_def end_stream_def)
    then show ?case using Cons.IH Cons.prems(2) by (simp add: on_stream_def)
  qed simp
  show ?case
  proof (cases "n \<in> set ns")
    case True
    then show ?thesis using Cons.IH [of "on_stream m end_stream c"] Cons.prems(2) by (simp add: on_stream_def)
  next
    case False
    then have "es_ended (ct_streams (on_stream m end_stream c) ! n)"
      using Cons.prems by (simp add: on_stream_def end_stream_def)
    moreover have "n < length (ct_streams (on_stream m end_stream c))" using Cons.prems(2) by (simp add: on_stream_def)
    ultimately show ?thesis using keep [of "on_stream m end_stream c"] by simp
  qed
qed simp

lemma fold_reject_fields:
  "ct_streams (fold (\<lambda>k. reject_call k e) ks d) = ct_streams d \<and>
   ct_streamsById (fold (\<lambda>k. reject_call k e) ks d) = ct_streamsById d \<and>
   ct_closed (fold (\<lambda>k. reject_call k e) ks d) = ct_closed d"
  by (induction ks arbitrary: d) (simp_all add: reject_call_def)

lemma channel_down_streams:
  assumes inv: "ctl_inv c" and n: "n \<in> snd ` set (ct_streamsById c)"
  shows "es_ended (ct_streams (channel_down c) ! n)"
proof -
  have len: "n < length (ct_streams c)" using inv n unfolding ctl_inv_def streams_ok_def by blast
  have on: "ct_channelOpen c \<and> \<not> ct_closed c" using inv n by (auto simp: ctl_inv_def closed_ok_def)
  show ?thesis
    unfolding channel_down_def onClose_def Let_def
    using on n len
    by (auto intro!: end_streams simp: fold_reject_fields stop_timer_def settle_ack_def split: ack_promise.split) force+
qed

lemma channel_down_closed: "ctl_inv c \<Longrightarrow> ct_closed (channel_down c)"
  by (auto simp: channel_down_def onClose_def ctl_inv_def closed_ok_def fold_on_stream_fields fold_reject_fields
      stop_timer_def settle_ack_def Let_def split: ack_promise.split)

subsection \<open>The handshake\<close>

definition hello_ok :: "('r, 'd) ctl \<Rightarrow> bool" where
  "hello_ok c \<longleftrightarrow>
     (ct_negotiation c = AwaitingAck \<longrightarrow>
        (ct_ack c = AckOpen \<and> ct_awaitingHelloAck c \<and> ct_timer c \<and> ct_channelOpen c) \<or> (\<exists>x. ct_ack c = AckSettled x))"

lemma same_hello: "hello_ok c \<Longrightarrow> same_handshake c d \<Longrightarrow> hello_ok d"
  unfolding hello_ok_def same_handshake_def by auto

lemma channel_down_hello:
  assumes "hello_ok c" and "ctl_inv c"
  shows "hello_ok (channel_down c)"
proof (cases "ct_channelOpen c")
  case True
  have on: "\<not> ct_closed c" using True assms(2) by (simp add: ctl_inv_def closed_ok_def)
  have neg: "ct_negotiation (channel_down c) = ct_negotiation c" using closing_handshake [of c] by simp
  have "\<exists>x. ct_ack (channel_down c) = AckSettled x" if "ct_negotiation c = AwaitingAck"
  proof (cases "ct_ack c = AckOpen")
    case False
    then show ?thesis using assms(1) that closing_handshake [of c] by (auto simp: hello_ok_def)
  next
    case open_: True
    then have aw: "ct_awaitingHelloAck c" using assms(1) that by (simp add: hello_ok_def)
    let ?c2 = "settle_ack (Inl ChannelClosed) (stop_timer (c\<lparr>ct_channelOpen := False, ct_closed := True\<rparr>)\<lparr>ct_awaitingHelloAck := False\<rparr>)"
    let ?c3 = "fold (\<lambda>k. reject_call k ChannelClosed) (map snd (ct_pending ?c2)) ?c2"
    let ?c4 = "fold (\<lambda>n. on_stream n end_stream) (map snd (ct_streamsById ?c3)) (?c3\<lparr>ct_pending := []\<rparr>)"
    have "channel_down c = ?c4\<lparr>ct_streamsById := [], ct_subsByRef := []\<rparr>"
      using True on aw by (simp add: channel_down_def onClose_def stop_timer_def Let_def)
    moreover have "ct_ack ?c3 = ct_ack ?c2" using fold_reject_same [of ?c2] by (simp add: same_handshake_def)
    moreover have "ct_ack ?c4 = ct_ack ?c3" using fold_stream_same [of "?c3\<lparr>ct_pending := []\<rparr>"] by (simp add: same_handshake_def)
    moreover have "ct_ack ?c2 = AckSettled (Inl ChannelClosed)" using open_ by (simp add: stop_timer_def)
    ultimately show ?thesis by simp
  qed
  then show ?thesis by (simp add: hello_ok_def neg)
qed (use assms(1) in \<open>simp add: channel_down_def\<close>)

lemma controller_close_hello: "hello_ok c \<Longrightarrow> ctl_inv c \<Longrightarrow> hello_ok (controller_close c)"
  unfolding controller_close_def by (intro channel_down_hello same_hello [OF _ primitives_same(1)] log_inv) simp_all

lemma negotiation_timer_hello:
  assumes "hello_ok c" and "ctl_inv c"
  shows "hello_ok (negotiation_timer c)"
proof -
  have "hello_ok (settle_ack (Inl HandshakeTimeout) (c\<lparr>ct_timer := False, ct_awaitingHelloAck := False\<rparr>))"
    using assms(1) by (auto simp: hello_ok_def)
  moreover have "ctl_inv (settle_ack (Inl HandshakeTimeout) (c\<lparr>ct_timer := False, ct_awaitingHelloAck := False\<rparr>))"
    using assms(2) by (intro settle_ack_inv) simp
  ultimately show ?thesis using assms(1) by (simp add: negotiation_timer_def controller_close_hello)
qed

lemma hello_starts: "hello_ok (send_hello k sig c)" "ct_negotiation c = AwaitingReady \<Longrightarrow> hello_ok (negotiate_ready sid c)"
  by (auto simp: send_hello_def negotiate_ready_def hello_ok_def fail_negotiation_def log_ctl_def Let_def split: option.split)

lemma hello_acked: "hello_ok c \<Longrightarrow> hello_ok (negotiate_acked c)" "hello_ok c \<Longrightarrow> hello_ok (handleHelloAck cd p c)"
  by (auto simp: negotiate_acked_def handleHelloAck_def fail_negotiation_def hello_ok_def stop_timer_def Let_def
      split: negotiation.splits ack_promise.splits sum.splits prod.splits option.splits)

lemma hello_failed: "hello_ok (fail_negotiation e c)"
  by (simp add: hello_ok_def fail_negotiation_def)

lemma ctl_step_hello:
  assumes "hello_ok c" and "ctl_inv c"
  shows "hello_ok (ctl_step cd ev c)"
proof -
  have same: "hello_ok d" if "same_handshake c d" for d using same_hello [OF assms(1) that] .
  show ?thesis
    using assms unfolding ctl_step_def
    by (auto simp: ctl_control_def hello_starts hello_acked hello_failed negotiation_timer_hello channel_down_hello controller_close_hello
        intro!: same send_call_same methods_same resume_same onBinary_same onResponse_same
        split: ctl_event.split negotiation.split option.split)
qed

definition live_ctl :: "('r, 'd) ctl \<Rightarrow> bool" where
  "live_ctl c \<longleftrightarrow> ctl_inv c \<and> hello_ok c"

interpretation live_controller: machine "ctl_step cd" "\<lambda>_. True" live_ctl for cd
  by unfold_locales (simp add: live_ctl_def ctl_step_inv ctl_step_hello)

lemma new_controller_live: "new_controller fits caps signer host = Some c \<Longrightarrow> live_ctl c"
  using new_controller_inv [of fits caps signer host c] by (auto simp: live_ctl_def hello_ok_def new_controller_def split: if_splits)

lemma ctl_run_live: "new_controller fits caps signer host = Some c \<Longrightarrow> live_ctl (ctl_run cd evs c)"
  by (rule live_controller.run_inv [OF new_controller_live]) (simp_all add: list_all_iff)

subsection \<open>The capabilities offered\<close>

lemma ctl_step_offers: "ct_capabilities (ctl_step cd ev c) = ct_capabilities c"
proof -
  have same: "same_handshake c d \<Longrightarrow> ct_capabilities d = ct_capabilities c" for d by (simp add: same_handshake_def)
  note quiet = send_call_same methods_same resume_same onBinary_same onResponse_same
  note fields = quiet [THEN same] primitives_same(1,2) [THEN same]
  have close: "ct_capabilities (channel_down d) = ct_capabilities d" for d :: "('a, 'b) ctl" using closing_handshake [of d] by simp
  have own: "ct_capabilities (send_hello k sig c) = ct_capabilities c" "ct_capabilities (negotiate_ready sid c) = ct_capabilities c"
      "ct_capabilities (negotiate_acked c) = ct_capabilities c" "ct_capabilities (handleHelloAck cd p c) = ct_capabilities c"
      "ct_capabilities (fail_negotiation e c) = ct_capabilities c" for k sig sid p e
    by (simp_all add: send_hello_def negotiate_ready_def negotiate_acked_def handleHelloAck_def fail_negotiation_def
        log_ctl_def stop_timer_def Let_def split: option.split negotiation.split ack_promise.split sum.split prod.split)
  show ?thesis
    by (simp add: ctl_step_def ctl_control_def controller_close_def negotiation_timer_def fields own close log_ctl_def
        split: ctl_event.split negotiation.split option.split)
qed

lemma ctl_run_offers: "ct_capabilities (ctl_run cd evs c) = ct_capabilities c"
  by (induction evs arbitrary: c) (simp_all add: ctl_step_offers)

subsection \<open>The calls\<close>

lemma fold_reject_log: "set (ct_out c) \<subseteq> set (ct_out (fold (\<lambda>k. reject_call k e) ks c))"
proof (induction ks arbitrary: c)
  case (Cons k ks)
  then show ?case using Cons.IH [of "reject_call k e c"] by (simp add: reject_call_def settle_out)
qed simp

lemma channel_down_log: "set (ct_out c) \<subseteq> set (ct_out (channel_down c))"
  unfolding channel_down_def onClose_def Let_def
  using fold_reject_log
  by (auto simp: fold_on_stream_fields stop_timer_def settle_ack_def split: ack_promise.split) fastforce+

lemma fold_reject_status:
  "\<forall>i \<in> set ks. i < length (ct_calls c) \<Longrightarrow> k < length (ct_calls c) \<Longrightarrow>
   cl_status (ct_calls (fold (\<lambda>k. reject_call k e) ks c) ! k) = (if k \<in> set ks then CallDone else cl_status (ct_calls c ! k))"
proof (induction ks arbitrary: c)
  case (Cons i ks)
  then show ?case using Cons.IH [of "reject_call i e c"] by (simp add: reject_call_def settle_nth)
qed simp

text \<open>Closing settles the calls in flight and leaves the others where they are.\<close>

lemma channel_down_status:
  assumes inv: "ctl_inv c" and k: "k < length (ct_calls c)"
  shows "cl_status (ct_calls (channel_down c) ! k) =
      (if ct_channelOpen c \<and> (\<exists>rid. cl_status (ct_calls c ! k) = CallInFlight rid) then CallDone else cl_status (ct_calls c ! k)) \<and>
    length (ct_calls (channel_down c)) = length (ct_calls c)"
proof (cases "ct_channelOpen c")
  case True
  then have on: "\<not> ct_closed c" using inv by (simp add: ctl_inv_def closed_ok_def)
  let ?c1 = "stop_timer (c\<lparr>ct_channelOpen := False, ct_closed := True\<rparr>)"
  let ?c2 = "if ct_awaitingHelloAck ?c1 then settle_ack (Inl ChannelClosed) (?c1\<lparr>ct_awaitingHelloAck := False\<rparr>) else ?c1"
  let ?ks = "map snd (ct_pending ?c2)"
  let ?c3 = "fold (\<lambda>k. reject_call k ChannelClosed) ?ks ?c2"
  have c2: "ct_pending ?c2 = ct_pending c" "ct_calls ?c2 = ct_calls c"
    by (simp_all add: stop_timer_def settle_ack_def split: ack_promise.split)
  have tab: "aget (ct_pending c) rid = Some i \<longleftrightarrow> in_flight c i rid" for i rid
    using inv by (simp add: ctl_inv_def pending_ok_def del: map_of_eq_Some_iff)
  have "(rid, i) \<in> set (ct_pending c) \<longleftrightarrow> in_flight c i rid" for rid i
    using inv tab by (simp add: ctl_inv_def pending_ok_def)
  then have ks: "i \<in> set ?ks \<longleftrightarrow> (\<exists>rid. in_flight c i rid)" for i by (force simp: c2)
  then have "\<forall>i \<in> set ?ks. i < length (ct_calls ?c2)" by (auto simp: c2 in_flight_def)
  then have "cl_status (ct_calls ?c3 ! k) = (if k \<in> set ?ks then CallDone else cl_status (ct_calls ?c2 ! k))"
    by (rule fold_reject_status) (use k in \<open>simp add: c2\<close>)
  moreover have "length (ct_calls (fold (\<lambda>k. reject_call k e) xs d)) = length (ct_calls d)" for e xs and d :: "('a, 'b) ctl"
    by (induction xs arbitrary: d) (simp_all add: reject_call_def)
  moreover have "ct_calls (channel_down c) = ct_calls ?c3"
    using True on by (simp add: channel_down_def onClose_def fold_on_stream_fields Let_def)
  ultimately show ?thesis using True ks k by (simp add: c2 in_flight_def)
qed (simp add: channel_down_def)

end
