(* ===== verification/EndToEnd.thy ===== *)
theory EndToEnd
  imports EventsReplay ControllerEnds ServeHistory
begin

text \<open>
  The host's connection and the controller joined: what the host sends on a subscription, and what the
  controller makes of it.
\<close>

subsection \<open>The host's answer to a subscription\<close>

definition same_screen :: "'m session \<Rightarrow> 'm session \<Rightarrow> bool" where
  "same_screen s t \<longleftrightarrow>
     se_streamId t = se_streamId s \<and> se_seq t = se_seq s \<and> se_cols t = se_cols s \<and> se_rows t = se_rows s \<and>
     se_mirror t = se_mirror s \<and> se_ended t = se_ended s \<and> se_disposed t = se_disposed s"

lemma same_screen_frames: "same_screen s t \<Longrightarrow> snapshot_frames em t = snapshot_frames em s"
  by (simp add: same_screen_def snapshot_frames_def)

text \<open>Replacing a subscription and noting a viewport say nothing and draw nothing.\<close>

lemma binaries_Nil [simp]: "session_binaries ob f c = []" if "se_out (f (sv_sessions c ob)) = se_out (sv_sessions c ob)"
  using that by (simp add: session_binaries_def)

lemma teardown_silent:
  "sv_out (teardown em en ref False c) = sv_out c \<and> (\<forall>ob. same_screen (sv_sessions c ob) (sv_sessions (teardown em en ref False c) ob))"
  by (auto simp: teardown_def drop_sink_def on_session_eq unsubscribe_def same_screen_def Let_def split: option.split)

lemma observe_silent:
  "sv_out (on_session ob (observeViewer v x y) c) = sv_out c \<and>
   (\<forall>o'. same_screen (sv_sessions c o') (sv_sessions (on_session ob (observeViewer v x y) c) o'))"
  by (auto simp: on_session_eq observeViewer_def same_screen_def)

lemma same_screen_trans: "same_screen s t \<Longrightarrow> same_screen t u \<Longrightarrow> same_screen s u"
  by (simp add: same_screen_def)

lemma binaries_deliveries:
  "P k \<Longrightarrow> binaries P (deliveries k fs) = map (\<lambda>f. SendBinary (encodePtyFrame f)) fs"
  by (induction fs) auto

lemma attach_sends:
  assumes "\<not> se_disposed (sv_sessions c ob)" and "\<not> se_ended (sv_sessions c ob)" and "\<not> sv_closed c"
  shows "snd (attach em en ref ob c) = None \<and>
    sv_out (fst (attach em en ref ob c)) = sv_out c @ map (\<lambda>f. SendBinary (encodePtyFrame f)) (snapshot_frames em (sv_sessions c ob))"
  using assms
  by (simp add: attach_def subscribe_eq on_session_eq session_binaries_def binaries_deliveries welcome_frames_def Let_def)

lemma subscription_answer:
  assumes srv: "serving h" and req: "wc_request hc p = Some (rid, ''session.subscribe'', j)"
    and par: "safeParse hc SessionSubscribe j = Some (SubscribeParams ref vp None)" and cap: "PTY_STREAM \<in> set (sv_negotiated h)"
    and reg: "reg_get ref (sv_registry h) = Some ob" and on: "\<not> se_ended (sv_sessions h ob)" "\<not> se_disposed (sv_sessions h ob)"
  shows "sv_out (onControl em hc opts en p h) = sv_out h @
    SendResponse (success rid (StreamAck (se_streamId (sv_sessions h ob)) (se_seq (sv_sessions h ob))) True) #
    map (\<lambda>f. SendBinary (encodePtyFrame f)) (snapshot_frames em (sv_sessions h ob))"
proof -
  let ?s = "sv_sessions h ob"
  have op: "\<not> sv_closed h" using srv by (simp add: serving_def conn_inv_def phase_ok_def)
  let ?c1 = "teardown em en ref False h"
  let ?c2 = "case vp of None \<Rightarrow> ?c1 | Some z \<Rightarrow> on_session ob (observeViewer (sv_viewer ?c1) (sz_cols z) (sz_rows z)) ?c1"
  have c2: "sv_out ?c2 = sv_out h" "same_screen ?s (sv_sessions ?c2 ob)" "\<not> sv_closed ?c2"
    using teardown_silent [of em en ref h] observe_silent [of ob _ _ _ ?c1] op
    by (auto split: option.split intro: same_screen_trans)
  let ?r = "success rid (StreamAck (se_streamId ?s) (se_seq ?s)) True"
  let ?c4 = "send_response ?r (?c2\<lparr>sv_touched := set_add ob (sv_touched ?c2)\<rparr>)"
  have c4: "sv_out ?c4 = sv_out h @ [SendResponse ?r]" "same_screen ?s (sv_sessions ?c4 ob)" "\<not> sv_closed ?c4"
    using c2 by (simp_all add: send_response_def send_guarded_eq)
  have "handleSubscribe em en rid ref vp None h = attach em en ref ob ?c4"
    using reg c2(2) by (simp add: handleSubscribe_def Let_def same_screen_def)
  moreover have "snd (attach em en ref ob ?c4) = None \<and> sv_out (fst (attach em en ref ob ?c4)) =
      sv_out ?c4 @ map (\<lambda>f. SendBinary (encodePtyFrame f)) (snapshot_frames em (sv_sessions ?c4 ob))"
    using c4(2,3) on by (intro attach_sends) (simp_all add: same_screen_def)
  ultimately obtain d where d: "handleSubscribe em en rid ref vp None h = (d, None)"
      "sv_out d = sv_out h @ SendResponse ?r # map (\<lambda>f. SendBinary (encodePtyFrame f)) (snapshot_frames em ?s)"
    using c4(1) same_screen_frames [OF c4(2), of em] by (cases "attach em en ref ob ?c4") simp
  have "aget METHODS ''session.subscribe'' = Some SessionSubscribe" by (simp add: METHODS_def)
  then show ?thesis using srv req par cap d
    by (simp add: onControl_def handleRpcPayload_def dispatch_request_def serve_method_def gated_def capabilityAllows_def serving_def)
qed

subsection \<open>The controller's end\<close>

text \<open>The binary frames of a registered stream go to it, in order.\<close>

lemma binary_frames:
  assumes "ct_channelOpen c" and "aget (ct_streamsById c) i = Some n" and "n < length (ct_streams c)"
    and "\<forall>f \<in> set fs. pf_streamId f mod 2 ^ 32 = i"
  shows "ct_streams (ctl_run sd (map (\<lambda>f. BinaryInEv (encodePtyFrame f)) fs) c) =
      (ct_streams c)[n := fold feed (map encodePtyFrame fs) (ct_streams c ! n)] \<and>
    ct_streamsById (ctl_run sd (map (\<lambda>f. BinaryInEv (encodePtyFrame f)) fs) c) = ct_streamsById c \<and>
    set (ct_out c) \<subseteq> set (ct_out (ctl_run sd (map (\<lambda>f. BinaryInEv (encodePtyFrame f)) fs) c))"
  using assms
proof (induction fs arbitrary: c)
  case (Cons f fs)
  let ?c = "ctl_step sd (BinaryInEv (encodePtyFrame f)) c"
  have "\<exists>x. ?c = x \<and> ct_channelOpen x \<and> ct_streamsById x = ct_streamsById c \<and>
      ct_streams x = (ct_streams c)[n := feed (encodePtyFrame f) (ct_streams c ! n)] \<and> set (ct_out c) \<subseteq> set (ct_out x)"
    using Cons.prems
    by (auto simp: ctl_step_def onBinary_def decode_encode_mod feed_def on_stream_def log_ctl_def split: option.split)
  then have "ct_channelOpen ?c" "ct_streamsById ?c = ct_streamsById c"
      "ct_streams ?c = (ct_streams c)[n := feed (encodePtyFrame f) (ct_streams c ! n)]" "set (ct_out c) \<subseteq> set (ct_out ?c)"
    by blast+
  then show ?case using Cons.IH [of ?c] Cons.prems by (auto simp: nth_list_update_eq)
qed simp

text \<open>The channel between them, with the responses' encoding.\<close>

fun transport :: "(('o rpc_result, 'j error_data) response \<Rightarrow> bytes) \<Rightarrow> ('j, 'o) serve_out \<Rightarrow> ctl_event list" where
  "transport enc (SendResponse r) = [ControlInEv (enc r)]"
| "transport enc (SendBinary b) = [BinaryInEv b]"
| "transport enc _ = []"

lemma transport_binaries:
  "concat (map (transport enc) (map (\<lambda>f. SendBinary (encodePtyFrame f)) fs)) = map (\<lambda>f. BinaryInEv (encodePtyFrame f)) fs"
  by (induction fs) auto

lemma stream_ack_registers:
  assumes inv: "ctl_inv c" and at: "aget (ct_pending c) rid = Some k" and sub: "cl_subscribes (ct_calls c ! k) = Some (ref, n)"
    and hello: "\<not> ct_awaitingHelloAck c" and dec: "sc_response sd b = Some (RpcSuccess rid j st)"
      "sc_result sd (cl_method (ct_calls c ! k)) j = Some v"
  shows "let d = ctl_step sd (ControlInEv b) c
    in ct_channelOpen d \<and> aget (ct_streamsById d) (sc_stream sd v) = Some n \<and> ct_streams d = ct_streams c \<and>
       n < length (ct_streams c) \<and> ct_out d = ct_out c @ [Resolved k v]"
proof -
  have k: "k < length (ct_calls c)" "cl_status (ct_calls c ! k) \<noteq> CallDone"
    using inv at by (simp_all add: ctl_inv_def pending_ok_def in_flight_def del: map_of_eq_Some_iff)
  have open_: "ct_channelOpen c" using inv at by (auto simp: ctl_inv_def closed_ok_def)
  have "n < length (ct_streams c)" using inv sub nth_mem [OF k(1)] by (auto simp: ctl_inv_def streams_ok_def)
  then show ?thesis using k open_ at hello dec sub
    by (simp add: ctl_step_def ctl_control_def onResponse_def settle_out aget_aset del: map_of_eq_Some_iff)
qed

end
