(* ===== verification/SdkTheorems.thy ===== *)
theory SdkTheorems
  imports EndToEnd ServeTheorems
begin

text \<open>
  The properties of the controller's library: its event streams, alone and over what a session sends;
  its handshake, its calls and its close; and, joined to the host's connection, a subscription from
  the request to the first event. The witnesses use the echo session and connection.
\<close>

subsection \<open>Event streams\<close>

text \<open>The two ways to read a stream agree, and neither loses, repeats or reorders an event. Whatever is
  fed, pulled and listened to, in any interleaving: a listener that was there from the start has
  heard exactly the events the iterator has yielded, in that order, and those it has yet to yield;
  and the \<open>next\<close> calls are answered in the order they were made, each once, with none waiting
  while an event is queued.\<close>

lemma iterator_and_listener_agree:
  "let s = stream_run evs (onEvent l new_stream)
   in heard_by l (es_out s) = yielded (es_out s) @ es_queue s \<and>
      settled_pulls (es_out s) @ es_pullers s = [0..<es_pulls s] \<and>
      (es_queue s \<noteq> [] \<longrightarrow> es_pullers s = []) \<and> (es_ended s \<longrightarrow> es_pullers s = [])"
  using stream_run_inv [of l evs] by (simp add: stream_inv_def Let_def)

lemma iterator_and_listener_agree_witness:
  "heard_by 9 (es_out (stream_run [PullEv, IngestEv \<lparr>pf_opcode = 7, pf_streamId = 1, pf_seq = 4, pf_payload = []\<rparr>,
      IngestEv \<lparr>pf_opcode = 7, pf_streamId = 1, pf_seq = 5, pf_payload = []\<rparr>] (onEvent 9 new_stream))) = [GapEvent 4, GapEvent 5]"
proof -
  let ?s = "stream_run [PullEv, IngestEv \<lparr>pf_opcode = 7, pf_streamId = 1, pf_seq = 4, pf_payload = []\<rparr>,
      IngestEv \<lparr>pf_opcode = 7, pf_streamId = 1, pf_seq = 5, pf_payload = []\<rparr>] (onEvent 9 new_stream)"
  have "yielded (es_out ?s) @ es_queue ?s = [GapEvent 4, GapEvent 5]"
    by (simp add: ingest_def opcode_of_def push_event_def next_event_def onEvent_def new_stream_def)
  then show ?thesis using iterator_and_listener_agree [of "[PullEv, IngestEv \<lparr>pf_opcode = 7, pf_streamId = 1, pf_seq = 4, pf_payload = []\<rparr>,
      IngestEv \<lparr>pf_opcode = 7, pf_streamId = 1, pf_seq = 5, pf_payload = []\<rparr>]" 9, unfolded Let_def] by simp
qed

text \<open>C17: while a stream lives, the snapshot it is putting together is bounded: at most 8 MiB in at most
  4096 chunks, whatever the host sends. But the bound ends with the stream: a stream that has ended
  and holds a snapshot keeps every further chunk, without limit.\<close>

theorem reassembly_is_bounded:
  "let s = stream_run evs new_stream
   in (\<forall>p. \<not> es_ended s \<longrightarrow> es_snapshot s = Some p \<longrightarrow> ps_bytes p = length (concat (ps_chunks p)) \<and>
         ps_bytes p \<le> 8 * 1024 * 1024 \<and> length (ps_chunks p) \<le> 4096) \<and>
      (\<forall>p n i k b. es_ended s \<longrightarrow> es_snapshot s = Some p \<longrightarrow>
         (\<exists>q. es_snapshot (stream_run (map IngestEv (replicate n \<lparr>pf_opcode = 3, pf_streamId = i, pf_seq = k, pf_payload = b\<rparr>)) s) = Some q \<and>
            ps_bytes q = ps_bytes p + n * length b))"
proof -
  have "bounded_reassembly (stream_run evs new_stream)"
    by (rule reassembly.run_inv) (simp_all add: bounded_reassembly_def new_stream_def list_all_iff)
  then show ?thesis
    using ended_stream_grows by (fastforce simp: bounded_reassembly_def Let_def MAX_SNAPSHOT_BYTES_def MAX_SNAPSHOT_CHUNKS_def)
qed

theorem reassembly_is_bounded_witness:
  "\<exists>q. es_snapshot (stream_run (map IngestEv (replicate 10000000 \<lparr>pf_opcode = 3, pf_streamId = 1, pf_seq = 0, pf_payload = [65]\<rparr>))
     (stream_run [EndEv, IngestEv \<lparr>pf_opcode = 2, pf_streamId = 1, pf_seq = 0, pf_payload = [80, 0, 24, 0]\<rparr>] new_stream)) = Some q \<and>
     ps_bytes q = 10000000"
proof -
  let ?s = "stream_run [EndEv, IngestEv \<lparr>pf_opcode = 2, pf_streamId = 1, pf_seq = 0, pf_payload = [80, 0, 24, 0]\<rparr>] new_stream"
  have "es_ended ?s" "\<exists>p. es_snapshot ?s = Some p \<and> ps_bytes p = 0"
    by (simp_all add: ingest_def opcode_of_def end_stream_def new_stream_def decodeSizePayload_def)
  then show ?thesis
    using reassembly_is_bounded [of "[EndEv, IngestEv \<lparr>pf_opcode = 2, pf_streamId = 1, pf_seq = 0, pf_payload = [80, 0, 24, 0]\<rparr>]", unfolded Let_def]
    by fastforce
qed

lemma grouped_run:
  assumes "new_session em ref c r opts = Some s0" and "valid_size \<lparr>sz_cols = c, sz_rows = r\<rparr>" and "list_all event_sized evs"
  shows "grouped em (session_run em evs s0)"
proof -
  have "se_out s0 = []" using assms(1) by (auto simp: new_session_def split: option.splits if_splits)
  then have "grouped em s0" using new_session_inv [OF assms(1,2)] by (simp add: grouped_def)
  then show ?thesis using assms(3) by (rule grouped_session.run_inv)
qed

text \<open>C18: a consumer of events is never silently out of step with the host. Run a session through any
  operations and feed what a subscriber is sent to an event stream: if no snapshot that the subscriber was sent is
  larger than the 8 MiB a stream puts together (a longer one fails the stream, and nothing in the host keeps a serialized
  screen that short), the stream does not fail, and the events its listener has heard say what the frames say: a
  complete snapshot of some emulator state, and operations that are the first of those that lead to the session's
  emulator now, all of them unless a gap is recorded against the subscriber.\<close>

theorem consumer_rebuilds_the_emulator:
  assumes "new_session em ref c r opts = Some s0" and "valid_size \<lparr>sz_cols = c, sz_rows = r\<rparr>"
    and "list_all event_sized evs" and "b \<in> set (se_subs (session_run em evs s0))"
    and "\<forall>fs rest. frames_to (sub_id b) (se_out (session_run em evs s0)) = fs @ rest \<longrightarrow> vw_complete (view_of fs) \<longrightarrow>
      length (vw_base (view_of fs)) \<le> 8 * 1024 * 1024"
  shows "let s = session_run em evs s0;
      t = fold feed (frames_to (sub_id b) (se_out s)) (onEvent l new_stream);
      v = events_view (heard_by l (es_out t))
    in \<not> es_error t \<and> vw_complete v \<and>
       (\<exists>m0 rest. vw_base v = utf8 (em_serialize em m0) \<and>
          se_mirror s = fold (apply_op em) (vw_ops v @ rest) m0 \<and>
          (\<not> sub_missed b \<longrightarrow> rest = [] \<and> vw_size v = \<lparr>sz_cols = se_cols s, sz_rows = se_rows s\<rparr>))"
proof -
  let ?s = "session_run em evs s0"
  have g: "grouped em ?s" using grouped_run [OF assms(1-3)] .
  have "snapshots_fit blank_view (frames_to (sub_id b) (se_out ?s))"
    using assms(5) by (simp add: snapshots_fit_def MAX_SNAPSHOT_BYTES_def view_of_def)
  note replay = replay_view [OF g this, of l]
  have "sub_ok em ?s (sub_missed b) (frames_to (sub_id b) (se_out ?s))"
    using g assms(4) by (simp add: grouped_def session_inv_def)
  then show ?thesis using replay by (simp add: sub_ok_def synced_def Let_def)
qed

text \<open>A screen of a hundred characters; a viewer stalls, drains, and another joins behind it.\<close>

definition screen_emulator :: "string emulator" where
  "screen_emulator =
     \<lparr>em_new = (\<lambda>c r l. []), em_write = (\<lambda>bs m. m @ map (\<lambda>b. char_of (unat b)) bs),
      em_resize = (\<lambda>c r m. m), em_serialize = (\<lambda>m. drop (length m - 100) m)\<rparr>"

theorem consumer_rebuilds_the_emulator_witness:
  "\<exists>m0. let s = session_run screen_emulator (demo_events @ [DrainEv 0 (\<lambda>_. True)]) demo_session;
      t = fold feed (frames_to 0 (se_out s)) (onEvent 5 new_stream); v = events_view (heard_by 5 (es_out t))
    in \<not> es_error t \<and> vw_base v = utf8 (em_serialize screen_emulator m0) \<and>
       se_mirror s = fold (apply_op screen_emulator) (vw_ops v) m0"
proof -
  have new: "new_session screen_emulator ''sref'' 80 24 demo_options = Some demo_session"
    by (simp add: new_session_def demo_options_def demo_session_def new_ring_def new_mirror_def screen_emulator_def)
  have sized: "list_all event_sized (demo_events @ [DrainEv 0 (\<lambda>_. True)])" by (simp add: demo_events_def)
  have subs: "se_subs (session_run screen_emulator (demo_events @ [DrainEv 0 (\<lambda>_. True)]) demo_session) =
      [\<lparr>sub_id = 0, sub_flow = True, sub_paused = False, sub_missed = False\<rparr>]"
    by (simp add: demo_events_def demo_session_def subscribe_eq onOutput_def broadcast_eq hear_def resumeSubscriber_def
        set_sub_def emitSnapshot_eq emitTo_eq Let_def)
  have small: "\<forall>m. length (utf8 (em_serialize screen_emulator m)) \<le> MAX_SNAPSHOT_BYTES"
    by (intro allI) (simp add: screen_emulator_def MAX_SNAPSHOT_BYTES_def)
  have fit: "\<forall>fs rest. frames_to 0 (se_out (session_run screen_emulator (demo_events @ [DrainEv 0 (\<lambda>_. True)]) demo_session)) = fs @ rest \<longrightarrow>
      vw_complete (view_of fs) \<longrightarrow> length (vw_base (view_of fs)) \<le> 8 * 1024 * 1024"
    using small_serializer_fits [OF grouped_run [OF new demo_size sized] small, of 0]
    by (simp only: snapshots_fit_def view_of_def MAX_SNAPSHOT_BYTES_def)
  from consumer_rebuilds_the_emulator [OF new demo_size sized _, of "\<lparr>sub_id = 0, sub_flow = True, sub_paused = False, sub_missed = False\<rparr>" 5,
      unfolded Let_def subs subscription.simps] fit
  show ?thesis by (simp add: Let_def del: fold_append fold_simps) metis
qed

subsection \<open>The handshake and the calls\<close>

text \<open>The controller's end of the demonstration: the ack is frame \<open>[1]\<close>, responses are \<open>2 # id\<close>.\<close>

definition demo_sdk :: "(string, string, unit) sdk_codec" where
  "demo_sdk =
     \<lparr>sc_ack = (\<lambda>b. if b = [1] then Some (PROTOCOL_VERSION, [PTY_STREAM]) else None),
      sc_response = (\<lambda>b. if b = [2] then Some (RpcSuccess ''1'' ''yes'' True)
                         else if b = [3] then Some (RpcError ''1'' NotFound ''no'' None) else None),
      sc_result = (\<lambda>m j. Some j), sc_stream = (\<lambda>v. 7)\<rparr>"

definition demo_ctl :: "(string, unit) ctl" where
  "demo_ctl = \<lparr>ct_capabilities = DEFAULT_CONTROLLER_CAPABILITIES, ct_fitsRecord = (\<lambda>_ _ _. True), ct_signer = None, ct_hostId = None,
     ct_negotiation = AwaitingReady, ct_ack = NoAck, ct_awaitingHelloAck = False, ct_timer = False, ct_pending = [],
     ct_streamsById = [], ct_subsByRef = [], ct_streams = [], ct_calls = [], ct_finally = [], ct_closed = False,
     ct_channelOpen = True, ct_out = []\<rparr>"

lemma demo_ctl_new: "new_controller (\<lambda>_ _ _. True) None None None = Some demo_ctl"
  by (simp add: new_controller_def demo_ctl_def)

abbreviation demo_asking :: "ctl_event list" where
  "demo_asking \<equiv> [SubscribeCallEv demo_ref None (Some 5), ReadyEv None, ControlInEv [1], AckedEv, ResumeCallEv 0 ''1'']"

lemma demo_negotiated: "negotiateHello DEFAULT_CONTROLLER_CAPABILITIES (PROTOCOL_VERSION, [PTY_STREAM]) = ([PTY_STREAM], CompatOk)"
  by code_simp

lemma demo_valid: "valid_params SessionSubscribe (SubscribeParams demo_ref None None)"
  by (simp add: valid_params_def demo_ref_valid)

text \<open>The controller once it has subscribed and the request is on its way.\<close>

definition demo_asked :: "(string, unit) ctl" where
  "demo_asked = demo_ctl\<lparr>ct_negotiation := Settled (Inr [PTY_STREAM]), ct_ack := AckSettled (Inr (PROTOCOL_VERSION, [PTY_STREAM])),
     ct_pending := [(''1'', 0)], ct_streams := [onEvent 5 new_stream],
     ct_calls := [\<lparr>cl_method = SessionSubscribe, cl_params = SubscribeParams demo_ref None None, cl_subscribes = Some (demo_ref, 0),
                   cl_ends = None, cl_status = CallInFlight ''1''\<rparr>],
     ct_out := [SendHello DEFAULT_CONTROLLER_CAPABILITIES NULL_DEVICE_KEY_ID [], SendRequest ''1'' SessionSubscribe (SubscribeParams demo_ref None None)]\<rparr>"

lemma demo_asked_run: "ctl_run demo_sdk demo_asking demo_ctl = demo_asked"
  by (simp add: ctl_step_def demo_ctl_def demo_asked_def subscribe_call_def send_call_def negotiate_ready_def send_hello_def log_ctl_def
      ctl_control_def handleHelloAck_def demo_sdk_def settle_ack_def stop_timer_def negotiate_acked_def demo_negotiated
      resume_call_def dispatch_call_def demo_valid set_status_def Let_def)

text \<open>C19: no request leaves the controller before the host's hello ack, and none the negotiation does not
  cover. Whatever happens, a request that was sent is valid for its method, and a control frame came
  in that is a hello ack of a compatible version; the capability the method needs, if it needs one,
  is one this controller offered and the ack lists.\<close>

theorem requests_wait_for_the_handshake:
  assumes "new_controller fits caps signer host = Some c"
    and "SendRequest rid m p \<in> set (ct_out (ctl_run cd evs c))"
  shows "valid_params m p \<and>
    (\<exists>b ack. ControlInEv b \<in> set evs \<and> sc_ack cd b = Some ack \<and> evaluateCompat (fst ack) = CompatOk \<and>
       (case requiredCapability m of None \<Rightarrow> True
        | Some cap \<Rightarrow> cap \<in> set (ct_capabilities c) \<and> cap \<in> set (snd ack)))"
proof -
  let ?d = "ctl_run cd evs c"
  have "requests_ok ?d" using ctl_run_inv [OF assms(1), of cd evs] by (simp add: ctl_inv_def)
  then obtain active where "valid_params m p" and active: "ct_negotiation ?d = Settled (Inr active)"
      "case requiredCapability m of None \<Rightarrow> True | Some cap \<Rightarrow> cap \<in> set active"
    using assms(2) unfolding requests_ok_def by blast
  moreover obtain ack where "ct_ack ?d = AckSettled (Inr ack)" "evaluateCompat (fst ack) = CompatOk"
      "active = negotiate (ct_capabilities c) (snd ack)"
    using ctl_run_history [OF assms(1), of cd evs] active(1) unfolding ack_history_def ctl_run_offers by blast
  moreover from this obtain b where "ControlInEv b \<in> set evs" "sc_ack cd b = Some ack"
    using ctl_run_history [OF assms(1), of cd evs] unfolding ack_history_def by blast
  ultimately show ?thesis by (intro conjI exI [of _ b] exI [of _ ack]) (auto split: option.split)
qed

theorem requests_wait_for_the_handshake_witness:
  "PTY_STREAM \<in> set (ct_capabilities demo_ctl) \<and> (\<exists>b. ControlInEv b \<in> set demo_asking \<and> sc_ack demo_sdk b \<noteq> None)"
proof -
  have "SendRequest ''1'' SessionSubscribe (SubscribeParams demo_ref None None) \<in> set (ct_out (ctl_run demo_sdk demo_asking demo_ctl))"
    unfolding demo_asked_run by (simp add: demo_asked_def)
  from requests_wait_for_the_handshake [OF demo_ctl_new this]
  show ?thesis by (simp only: requiredCapability.simps option.case) blast
qed

text \<open>The handshake cannot hang on a host that stays silent. While the controller waits for the ack,
  either its promise has settled, or the timer runs on an open channel and the first control frame
  will be read as the ack. If the timer fires first, the negotiation fails with the timeout and the
  channel is closed; if the channel closes first, it fails with that.\<close>

lemma handshake_cannot_hang:
  assumes "new_controller fits caps signer host = Some c"
    and "ct_negotiation (ctl_run cd evs c) = AwaitingAck"
  shows "let d = ctl_run cd evs c
    in (\<exists>x. ct_ack d = AckSettled x) \<or>
       (ct_timer d \<and> ct_awaitingHelloAck d \<and>
        (let e = ctl_run cd [NegotiationTimeoutEv, AckedEv] d
         in ct_negotiation e = Settled (Inl HandshakeTimeout) \<and> ct_closed e \<and> CloseChannelCall \<in> set (ct_out e)) \<and>
        (\<exists>x. ct_negotiation (ctl_run cd [ChannelDownEv, AckedEv] d) = Settled (Inl x)))"
proof -
  let ?d = "ctl_run cd evs c"
  have live: "live_ctl ?d" using assms(1) by (rule ctl_run_live)
  then have inv: "ctl_inv ?d" by (simp add: live_ctl_def)
  show ?thesis
  proof (cases "\<exists>x. ct_ack ?d = AckSettled x")
    case False
    then have open_: "ct_ack ?d = AckOpen" "ct_awaitingHelloAck ?d" "ct_timer ?d"
      using live assms(2) by (auto simp: live_ctl_def hello_ok_def)
    let ?e = "log_ctl CloseChannelCall (settle_ack (Inl HandshakeTimeout) (?d\<lparr>ct_timer := False, ct_awaitingHelloAck := False\<rparr>))"
    have e: "ctl_inv ?e" using inv by (intro log_inv settle_ack_inv) simp_all
    have out: "ct_out ?e = ct_out ?d @ [CloseChannelCall]" "ct_ack ?e = AckSettled (Inl HandshakeTimeout)" "ct_negotiation ?e = AwaitingAck"
      using open_ assms(2) by (simp_all add: log_ctl_def settle_ack_def)
    have "ctl_step cd NegotiationTimeoutEv ?d = channel_down ?e"
      using open_ by (simp add: ctl_step_def negotiation_timer_def controller_close_def)
    moreover have "ct_ack (channel_down ?e) = AckSettled (Inl HandshakeTimeout)" "ct_negotiation (channel_down ?e) = AwaitingAck"
      using closing_handshake [of ?e] out by auto
    moreover have "set (ct_out ?e) \<subseteq> set (ct_out (channel_down ?e))" by (rule channel_down_log)
    ultimately have timeout: "let f = ctl_run cd [NegotiationTimeoutEv, AckedEv] ?d
        in ct_negotiation f = Settled (Inl HandshakeTimeout) \<and> ct_closed f \<and> CloseChannelCall \<in> set (ct_out f)"
      using channel_down_closed [OF e] out(1) by (auto simp: ctl_step_def negotiate_acked_def fail_negotiation_def)
    have "hello_ok (channel_down ?d)" using live by (simp add: live_ctl_def channel_down_hello)
    moreover have "\<not> ct_channelOpen (channel_down ?d)"
      using channel_down_closed [OF inv] channel_down_inv [OF inv] by (simp add: ctl_inv_def closed_ok_def)
    ultimately have "\<exists>x. ct_ack (channel_down ?d) = AckSettled (Inl x)"
      using assms(2) closing_handshake [of ?d] open_ by (auto simp: hello_ok_def)
    then have "\<exists>x. ct_negotiation (ctl_run cd [ChannelDownEv, AckedEv] ?d) = Settled (Inl x)"
      using assms(2) closing_handshake [of ?d] by (auto simp: ctl_step_def negotiate_acked_def fail_negotiation_def)
    then show ?thesis using timeout open_ by (simp add: Let_def)
  qed (simp add: Let_def)
qed

lemma handshake_cannot_hang_witness:
  "ct_negotiation (ctl_run demo_sdk [ReadyEv None, NegotiationTimeoutEv, AckedEv] demo_ctl) = Settled (Inl HandshakeTimeout)"
proof -
  have "ct_negotiation (ctl_run demo_sdk [ReadyEv None] demo_ctl) = AwaitingAck" "ct_ack (ctl_run demo_sdk [ReadyEv None] demo_ctl) = AckOpen"
    by (simp_all add: ctl_step_def demo_ctl_def negotiate_ready_def send_hello_def log_ctl_def Let_def)
  with handshake_cannot_hang [OF demo_ctl_new this(1), unfolded Let_def] show ?thesis by simp
qed

text \<open>C20: every call settles at most once, and closing settles what is open. However the controller is
  driven, a call's promise has settled at most once, exactly once if the call is done. Once the
  channel is down nothing is awaited: a call in flight has settled, a registered stream has ended,
  and a call that still waits for the negotiation is rejected as soon as it resumes.\<close>

theorem calls_settle_once:
  assumes "new_controller fits caps signer host = Some c"
  shows "let d = ctl_run cd evs c; e = channel_down d
    in settlements k (ct_out d) \<le> 1 \<and>
       ct_closed e \<and> ct_pending e = [] \<and>
       (\<forall>rid. in_flight d k rid \<longrightarrow> settlements k (ct_out e) = 1) \<and>
       (\<forall>n \<in> snd ` set (ct_streamsById d). es_ended (ct_streams e ! n)) \<and>
       (\<forall>x rid. k < length (ct_calls e) \<longrightarrow> cl_status (ct_calls e ! k) = CallGated \<longrightarrow> ct_negotiation e = Settled x \<longrightarrow>
          (\<exists>err. ct_out (resume_call k rid e) = ct_out e @ [Rejected k err]))"
proof -
  let ?d = "ctl_run cd evs c" and ?e = "channel_down (ctl_run cd evs c)"
  have d: "ctl_inv ?d" using assms by (rule ctl_run_inv)
  then have e: "ctl_inv ?e" by (rule channel_down_inv)
  have closed: "ct_closed ?e" using d by (rule channel_down_closed)
  then have "ct_pending ?e = []" using e by (simp add: ctl_inv_def closed_ok_def)
  moreover have "settlements k (ct_out ?d) \<le> 1" using d by (simp add: ctl_inv_def promises_ok_def)
  moreover have "settlements k (ct_out ?e) = 1" if fl: "in_flight ?d k rid" for rid
  proof -
    have "aget (ct_pending ?d) rid = Some k" using d fl by (simp add: ctl_inv_def pending_ok_def del: map_of_eq_Some_iff)
    then have "ct_channelOpen ?d" using d by (auto simp: ctl_inv_def closed_ok_def)
    moreover have "k < length (ct_calls ?d)" "cl_status (ct_calls ?d ! k) = CallInFlight rid" using fl by (simp_all add: in_flight_def)
    ultimately have "k < length (ct_calls ?e)" "cl_status (ct_calls ?e ! k) = CallDone" using channel_down_status [OF d] by auto
    then show ?thesis using e by (simp add: ctl_inv_def promises_ok_def)
  qed
  moreover have "\<forall>n \<in> snd ` set (ct_streamsById ?d). es_ended (ct_streams ?e ! n)" using channel_down_streams [OF d] by blast
  moreover have "\<exists>err. ct_out (resume_call k rid ?e) = ct_out ?e @ [Rejected k err]"
    if "k < length (ct_calls ?e)" "cl_status (ct_calls ?e ! k) = CallGated" "ct_negotiation ?e = Settled x" for x rid
    using that closed
    by (auto simp: resume_call_def dispatch_call_def reject_call_def settle_out Let_def split: sum.split option.split)
  ultimately show ?thesis using closed unfolding Let_def by blast
qed

theorem calls_settle_once_witness:
  "settlements 0 (ct_out (channel_down demo_asked)) = 1 \<and> ct_pending (channel_down demo_asked) = []"
proof -
  have "in_flight demo_asked 0 ''1''" by (simp add: in_flight_def demo_asked_def)
  then show ?thesis
    using calls_settle_once [OF demo_ctl_new, of demo_sdk demo_asking 0] unfolding demo_asked_run Let_def by blast
qed

text \<open>C21: an answer reaches the call that asked for it, and no other. A response frame whose id is
  awaited settles that call: with the error it carries, or with its result, or with a rejection if
  the result does not parse; the id is awaited no longer and every other id as before. A response with
  an id that is not awaited, like a frame that is not a response, changes nothing.\<close>

theorem answers_reach_their_call:
  assumes "new_controller fits caps signer host = Some c0" and c: "c = ctl_run cd evs c0"
    and "ct_channelOpen c" and "\<not> ct_awaitingHelloAck c"
  shows "let d = ctl_step cd (ControlInEv b) c
    in (sc_response cd b = None \<longrightarrow> d = c) \<and>
       (\<forall>r. sc_response cd b = Some r \<longrightarrow>
         (case aget (ct_pending c) (response_id r) of
            None \<Rightarrow> d = c
          | Some k \<Rightarrow>
              ct_out d = ct_out c @
                [case r of
                   RpcError i code msg data \<Rightarrow> Rejected k (RpcClientError code msg data)
                 | RpcSuccess i j st \<Rightarrow>
                     (case sc_result cd (cl_method (ct_calls c ! k)) j of
                        None \<Rightarrow> Rejected k InvalidResult | Some v \<Rightarrow> Resolved k v)] \<and>
              cl_status (ct_calls d ! k) = CallDone \<and>
              (\<forall>i. i \<noteq> k \<longrightarrow> ct_calls d ! i = ct_calls c ! i) \<and>
              (\<forall>id. aget (ct_pending d) id = (if id = response_id r then None else aget (ct_pending c) id))))"
proof (cases "sc_response cd b")
  case None
  then show ?thesis using assms(3,4) by (simp add: ctl_step_def ctl_control_def Let_def)
next
  case (Some r)
  have step: "ctl_step cd (ControlInEv b) c = onResponse cd r c" using Some assms(3,4) by (simp add: ctl_step_def ctl_control_def)
  have inv: "ctl_inv c" unfolding c using assms(1) by (rule ctl_run_inv)
  show ?thesis
  proof (cases "aget (ct_pending c) (response_id r)")
    case None
    then show ?thesis using Some step by (simp add: onResponse_def Let_def)
  next
    case k: (Some k)
    have "k < length (ct_calls c)" "cl_status (ct_calls c ! k) \<noteq> CallDone"
      using inv k by (simp_all add: ctl_inv_def pending_ok_def in_flight_def del: map_of_eq_Some_iff)
    then show ?thesis using Some k
      by (cases r) (auto simp: step onResponse_def reject_call_def settle_out settle_nth aget_adel Let_def split: option.split simp del: map_of_eq_Some_iff)
  qed
qed

theorem answers_reach_their_call_witness:
  "ct_out (ctl_step demo_sdk (ControlInEv [3]) demo_asked) = ct_out demo_asked @ [Rejected 0 (RpcClientError NotFound ''no'' None)]"
proof -
  have "ct_channelOpen demo_asked" "\<not> ct_awaitingHelloAck demo_asked" "aget (ct_pending demo_asked) ''1'' = Some 0"
    by (simp_all add: demo_asked_def demo_ctl_def)
  moreover have "sc_response demo_sdk [3] = Some (RpcError ''1'' NotFound ''no'' None)" by (simp add: demo_sdk_def)
  ultimately show ?thesis
    using answers_reach_their_call [OF demo_ctl_new demo_asked_run [symmetric], of "[3]", unfolded Let_def] by simp
qed

subsection \<open>From end to end\<close>

lemma chunk_stream_ids: "f \<in> set (chunk_frames i q cs) \<Longrightarrow> pf_streamId f = i"
  by (induction cs) auto

lemma snapshot_stream_ids: "f \<in> set (snapshot_frames em s) \<Longrightarrow> pf_streamId f = se_streamId s"
  by (auto simp: snapshot_frames_def chunk_stream_ids)

text \<open>C22: subscribing works, from the request to the screen. Take a serving host whose session is
  registered and alive, and a controller whose subscription awaits the answer, over a channel that
  delivers in order. What the host sends upon the request resolves the call with the acknowledgement,
  registers the stream under the session's id, and the first event the subscriber's listener hears,
  and the only one, is the snapshot of the session's screen as it was when the request came.\<close>

theorem subscription_end_to_end:
  fixes h :: "('j, 'o, 'm) served" and sd :: "('x, 'r, 'd) sdk_codec"
  assumes "serving h" and "wc_request hc p = Some (rid, ''session.subscribe'', j)"
    and "safeParse hc SessionSubscribe j = Some (SubscribeParams ref vp None)" and "PTY_STREAM \<in> set (sv_negotiated h)"
    and "reg_get ref (sv_registry h) = Some ob" and s: "s = sv_sessions h ob" and "\<not> se_ended s" and "\<not> se_disposed s"
    and new: "new_controller fits caps signer host = Some c0" and c: "c = ctl_run sd evs c0"
    and "aget (ct_pending c) rid = Some k" and "cl_subscribes (ct_calls c ! k) = Some (ref, n)" and "\<not> ct_awaitingHelloAck c"
    and fresh: "ct_streams c ! n = onEvent l new_stream"
    and "sc_response sd (enc (success rid (StreamAck (se_streamId s) (se_seq s)) True)) = Some (RpcSuccess rid x True)"
    and "sc_result sd (cl_method (ct_calls c ! k)) x = Some v" and id: "sc_stream sd v = se_streamId s"
    and "se_streamId s < 2 ^ 32" and "se_seq s < 2 ^ 64" and "se_cols s < 2 ^ 16" and "se_rows s < 2 ^ 16"
    and "length (utf8 (em_serialize em (se_mirror s))) \<le> 8 * 1024 * 1024"
  shows "let sent = drop (length (sv_out h)) (sv_out (onControl em hc opts en p h));
      d = ctl_run sd (concat (map (transport enc) sent)) c
    in Resolved k v \<in> set (ct_out d) \<and> aget (ct_streamsById d) (se_streamId s) = Some n \<and>
       heard_by l (es_out (ct_streams d ! n)) = [SnapshotEvent (se_seq s) (se_cols s) (se_rows s) (utf8 (em_serialize em (se_mirror s)))]"
proof -
  let ?ack = "success rid (StreamAck (se_streamId s) (se_seq s)) True :: ('o rpc_result, 'j error_data) response"
  let ?fs = "snapshot_frames em s"
  let ?resolved = "ctl_step sd (ControlInEv (enc ?ack)) c"
  let ?d = "ctl_run sd (map (\<lambda>f. BinaryInEv (encodePtyFrame f)) ?fs) ?resolved"
  have "sv_out (onControl em hc opts en p h) = sv_out h @ SendResponse ?ack # map (\<lambda>f. SendBinary (encodePtyFrame f)) ?fs"
    using subscription_answer [OF assms(1-5)] assms(7,8) by (simp add: s)
  then have run: "ctl_run sd (concat (map (transport enc) (drop (length (sv_out h)) (sv_out (onControl em hc opts en p h))))) c = ?d"
    by (simp add: transport_binaries [simplified])
  have "ctl_inv c" unfolding c using new by (rule ctl_run_inv)
  note acked = stream_ack_registers [OF this assms(11-13,15,16), unfolded Let_def id]
  have small: "length (utf8 (em_serialize em (se_mirror s))) \<le> MAX_SNAPSHOT_BYTES" using assms(22) by (simp add: MAX_SNAPSHOT_BYTES_def)
  have ids: "\<forall>f \<in> set ?fs. pf_streamId f mod 2 ^ 32 = se_streamId s" using snapshot_stream_ids [of _ em s] assms(18) by simp
  have at: "ct_channelOpen ?resolved" "aget (ct_streamsById ?resolved) (se_streamId s) = Some n" "n < length (ct_streams ?resolved)" "ct_streams ?resolved = ct_streams c"
      "ct_out ?resolved = ct_out c @ [Resolved k v]"
    using acked by simp_all
  note streamed = binary_frames [OF at(1-3) ids, of sd]
  have "Resolved k v \<in> set (ct_out ?d)" using streamed at(5) by auto
  moreover have "aget (ct_streamsById ?d) (se_streamId s) = Some n" using streamed at(2) by simp
  moreover have "ct_streams ?d ! n = push_event (SnapshotEvent (se_seq s) (se_cols s) (se_rows s)
      (utf8 (em_serialize em (se_mirror s)))) (onEvent l new_stream)"
    using streamed at(3,4) fresh feed_snapshot [OF small, of "onEvent l new_stream"] assms(19-21)
    by (simp add: onEvent_def new_stream_def)
  then have "heard_by l (es_out (ct_streams ?d ! n)) = [SnapshotEvent (se_seq s) (se_cols s) (se_rows s) (utf8 (em_serialize em (se_mirror s)))]"
    by (simp add: push_event_def onEvent_def new_stream_def)
  ultimately show ?thesis by (simp only: Let_def run)
qed

theorem subscription_end_to_end_witness:
  "heard_by 5 (es_out (ct_streams (ctl_run demo_sdk (concat (map (transport (\<lambda>_. [2]))
     (drop (length (sv_out demo_open)) (sv_out (onControl echo_emulator demo_codec demo_serving (demo_env Admit) [1] demo_open))))) demo_asked) ! 0)) =
   [SnapshotEvent 0 80 24 []]"
proof -
  have h: "serving demo_open" using demo_open_serves by (simp add: serving_def)
  have s: "demo_session = sv_sessions demo_open 0" by (simp add: demo_open_fields)
  have ack: "sc_response demo_sdk [2] = Some (RpcSuccess ''1'' ''yes'' True)" "sc_result demo_sdk (cl_method (ct_calls demo_asked ! 0)) ''yes'' = Some ''yes''"
      "sc_stream demo_sdk ''yes'' = se_streamId demo_session"
    by (simp_all add: demo_sdk_def demo_session_def)
  have c: "aget (ct_pending demo_asked) ''1'' = Some 0" "cl_subscribes (ct_calls demo_asked ! 0) = Some (demo_ref, 0)"
      "\<not> ct_awaitingHelloAck demo_asked" "ct_streams demo_asked ! 0 = onEvent 5 new_stream"
    by (simp_all add: demo_asked_def demo_ctl_def)
  have small: "se_streamId demo_session < 2 ^ 32" "se_seq demo_session < 2 ^ 64" "se_cols demo_session < 2 ^ 16" "se_rows demo_session < 2 ^ 16"
      "length (utf8 (em_serialize echo_emulator (se_mirror demo_session))) \<le> 8 * 1024 * 1024"
    by (simp_all add: demo_session_def echo_emulator_def)
  have "PTY_STREAM \<in> set (sv_negotiated demo_open)" "reg_get demo_ref (sv_registry demo_open) = Some 0"
      "\<not> se_disposed demo_session"
    by (simp_all add: demo_open_serves demo_open_fields reg_get_def demo_session_def)
  from subscription_end_to_end [where enc = "\<lambda>_. [2]", OF h demo_requests(1) demo_requests(3) this(1,2) s demo_session_open(1) this(3)
      demo_ctl_new demo_asked_run [symmetric] c ack small, of demo_serving "demo_env Admit"]
  have "heard_by 5 (es_out (ct_streams (ctl_run demo_sdk (concat (map (transport (\<lambda>_. [2]))
     (drop (length (sv_out demo_open)) (sv_out (onControl echo_emulator demo_codec demo_serving (demo_env Admit) [1] demo_open))))) demo_asked) ! 0)) =
   [SnapshotEvent (se_seq demo_session) (se_cols demo_session) (se_rows demo_session) (utf8 (em_serialize echo_emulator (se_mirror demo_session)))]"
    unfolding Let_def by blast
  then show ?thesis by (simp add: demo_session_def) (simp add: echo_emulator_def utf8_def)?
qed

end
