(* ===== verification/Stores.thy ===== *)
theory Stores
  imports Prelude
begin

text \<open>
  The list files of \<open>packages/cli\<close> (\<open>known_hosts.json\<close>, \<open>devices.json\<close>): a JSON object with one array of
  entries, checked by hand field by field when it is read and written back whole. A file is what
  \<open>readFile\<close> and \<open>JSON.parse\<close> make of it. What the two files share is here: the guard of the outer shape,
  the entries in order, the replacement of an entry by its key, and the sort; the laws are proved once,
  in a locale over the entry's own guard.
\<close>

subsection \<open>JSON values and files\<close>

datatype json =
    JNull
  | JBool bool
  | JNum int
  | JStr string
  | JArr "json list"
  | JObj "(string \<times> json) list"

text \<open>A field that occurs twice has its last value.\<close>

definition jget :: "(string \<times> json) list \<Rightarrow> string \<Rightarrow> json option" where
  "jget fs k = map_of (rev fs) k"

datatype json_file = Absent | Unreadable | NotJson | Holds json

datatype store_error =
    ReadFault
  | NotValidJson
  | ExpectedObject
  | FieldNotArray string
  | EntryNotObject nat
  | FieldNotString nat string
  | BadKey

definition requireString :: "nat \<Rightarrow> string \<Rightarrow> json option \<Rightarrow> store_error + string" where
  "requireString i field v =
     (case v of Some (JStr s) \<Rightarrow> if s \<noteq> [] then Inr s else Inl (FieldNotString i field)
      | _ \<Rightarrow> Inl (FieldNotString i field))"

lemma requireString_JStr [simp]:
  "requireString i field (Some (JStr s)) = (if s \<noteq> [] then Inr s else Inl (FieldNotString i field))"
  by (simp add: requireString_def)

subsection \<open>Entries\<close>

text \<open>\<open>hosts.map\<close> throws at the first bad entry.\<close>

fun parse_entries :: "(nat \<Rightarrow> json \<Rightarrow> store_error + 'e) \<Rightarrow> nat \<Rightarrow> json list \<Rightarrow> store_error + 'e list" where
  "parse_entries p i [] = Inr []"
| "parse_entries p i (v # vs) =
     (case p i v of
        Inl e \<Rightarrow> Inl e
      | Inr x \<Rightarrow> (case parse_entries p (Suc i) vs of Inl e \<Rightarrow> Inl e | Inr xs \<Rightarrow> Inr (x # xs)))"

definition parse_store :: "string \<Rightarrow> (nat \<Rightarrow> json \<Rightarrow> store_error + 'e) \<Rightarrow> json \<Rightarrow> store_error + 'e list" where
  "parse_store field p v =
     (case v of
        JObj fs \<Rightarrow> (case jget fs field of Some (JArr es) \<Rightarrow> parse_entries p 0 es | _ \<Rightarrow> Inl (FieldNotArray field))
      | _ \<Rightarrow> Inl ExpectedObject)"

definition read_store :: "string \<Rightarrow> (nat \<Rightarrow> json \<Rightarrow> store_error + 'e) \<Rightarrow> json_file \<Rightarrow> store_error + 'e list" where
  "read_store field p f =
     (case f of
        Absent \<Rightarrow> Inr []
      | Unreadable \<Rightarrow> Inl ReadFault
      | NotJson \<Rightarrow> Inl NotValidJson
      | Holds v \<Rightarrow> parse_store field p v)"

definition print_store :: "string \<Rightarrow> ('e \<Rightarrow> json) \<Rightarrow> 'e list \<Rightarrow> json_file" where
  "print_store field pr es = Holds (JObj [(field, JArr (map pr es))])"

text \<open>\<open>Array.sort\<close> is stable; \<open>localeCompare\<close> is the parameter \<open>le\<close>.\<close>

fun insert_by :: "(string \<Rightarrow> string \<Rightarrow> bool) \<Rightarrow> ('e \<Rightarrow> string) \<Rightarrow> 'e \<Rightarrow> 'e list \<Rightarrow> 'e list" where
  "insert_by le k x [] = [x]"
| "insert_by le k x (y # ys) = (if le (k x) (k y) then x # y # ys else y # insert_by le k x ys)"

definition sort_by :: "(string \<Rightarrow> string \<Rightarrow> bool) \<Rightarrow> ('e \<Rightarrow> string) \<Rightarrow> 'e list \<Rightarrow> 'e list" where
  "sort_by le k xs = foldr (insert_by le k) xs []"

definition put_entry :: "(string \<Rightarrow> string \<Rightarrow> bool) \<Rightarrow> ('e \<Rightarrow> string) \<Rightarrow> 'e \<Rightarrow> 'e list \<Rightarrow> 'e list" where
  "put_entry le k e es = sort_by le k (filter (\<lambda>x. k x \<noteq> k e) es @ [e])"

definition find_entry :: "('e \<Rightarrow> string) \<Rightarrow> string \<Rightarrow> 'e list \<Rightarrow> 'e option" where
  "find_entry k i es = List.find (\<lambda>x. k x = i) es"

lemma set_insert_by: "set (insert_by le k x ys) = insert x (set ys)"
  by (induction ys) auto

lemma set_sort_by [simp]: "set (sort_by le k xs) = set xs"
  by (induction xs) (simp_all add: sort_by_def set_insert_by)

lemma distinct_insert_by: "distinct (map k (insert_by le k x ys)) \<longleftrightarrow> k x \<notin> k ` set ys \<and> distinct (map k ys)"
  by (induction ys) (auto simp: set_insert_by)

lemma distinct_sort_by [simp]: "distinct (map k (sort_by le k xs)) \<longleftrightarrow> distinct (map k xs)"
proof (induction xs)
  case (Cons x xs)
  have "sort_by le k (x # xs) = insert_by le k x (sort_by le k xs)" by (simp add: sort_by_def)
  then show ?case using Cons by (simp add: distinct_insert_by)
qed (simp add: sort_by_def)

text \<open>With distinct keys an entry is found by its key, wherever it stands.\<close>

lemma find_entry_distinct: "distinct (map k es) \<Longrightarrow> find_entry k i es = Some e \<longleftrightarrow> e \<in> set es \<and> k e = i"
  unfolding find_entry_def by (induction es) force+

lemma find_entry_None: "find_entry k i es = None \<longleftrightarrow> i \<notin> k ` set es"
  by (auto simp: find_entry_def find_None_iff)

lemma find_entry_same:
  assumes "distinct (map k xs)" and "distinct (map k ys)" and "\<And>e. k e = i \<Longrightarrow> e \<in> set xs \<longleftrightarrow> e \<in> set ys"
  shows "find_entry k i xs = find_entry k i ys"
proof (cases "find_entry k i xs")
  case None
  then have "\<forall>e \<in> set ys. k e \<noteq> i" using assms(3) by (auto simp: find_entry_None)
  then have "find_entry k i ys = None" by (auto simp: find_entry_None)
  then show ?thesis using None by simp
next
  case (Some e)
  then have "e \<in> set xs" "k e = i" using assms(1) by (simp_all add: find_entry_distinct)
  then have "find_entry k i ys = Some e" using assms(2) assms(3) [of e] by (simp add: find_entry_distinct)
  then show ?thesis using Some by simp
qed

lemma distinct_put_entry: "distinct (map k es) \<Longrightarrow> distinct (map k (put_entry le k e es))"
  by (auto simp: put_entry_def distinct_map_filter)

lemma find_put_entry:
  assumes "distinct (map k es)"
  shows "find_entry k i (put_entry le k e es) = (if i = k e then Some e else find_entry k i es)"
proof (cases "i = k e")
  case True
  then show ?thesis using find_entry_distinct [OF distinct_put_entry [OF assms]] by (simp add: put_entry_def)
next
  case False
  then have "\<And>x. k x = i \<Longrightarrow> x \<in> set (put_entry le k e es) \<longleftrightarrow> x \<in> set es" by (auto simp: put_entry_def)
  then show ?thesis using False find_entry_same [OF distinct_put_entry [OF assms] assms] by simp
qed

lemma find_drop_entry: "find_entry k i (filter (\<lambda>x. k x \<noteq> j) es) = (if i = j then None else find_entry k i es)"
  unfolding find_entry_def by (induction es) auto

lemma dropped_none: "length (filter (\<lambda>x. k x \<noteq> i) es) = length es \<longleftrightarrow> find_entry k i es = None"
proof (induction es)
  case (Cons e es)
  have "length (filter (\<lambda>x. k x \<noteq> i) es) \<le> length es" by (rule length_filter_le)
  then show ?case using Cons by (auto simp: find_entry_def simp del: length_filter_le)
qed (simp add: find_entry_def)

subsection \<open>The interface of an entry's guard\<close>

text \<open>An entry that is written comes back if the guard of its fields would have it; one that is written
  and would not makes the whole file unreadable.\<close>

locale entry_store =
  fixes field :: string and parse :: "nat \<Rightarrow> json \<Rightarrow> store_error + 'e" and pr :: "'e \<Rightarrow> json" and ok :: "'e \<Rightarrow> bool"
  assumes parse_printed: "ok e \<Longrightarrow> parse i (pr e) = Inr e"
    and parse_refused: "\<not> ok e \<Longrightarrow> \<exists>x. parse i (pr e) = Inl x"
    and parse_ok: "parse i v = Inr e \<Longrightarrow> ok e"
begin

lemma parse_all: "list_all ok es \<Longrightarrow> parse_entries parse i (map pr es) = Inr es"
  by (induction es arbitrary: i) (simp_all add: parse_printed)

lemma parse_bad: "\<not> list_all ok es \<Longrightarrow> \<exists>x. parse_entries parse i (map pr es) = Inl x"
proof (induction es arbitrary: i)
  case (Cons e es)
  show ?case
  proof (cases "ok e")
    case True
    then show ?thesis using Cons.IH [of "Suc i"] Cons.prems by (auto simp: parse_printed)
  qed (use parse_refused [of e i] in auto)
qed simp

lemma read_print: "list_all ok es \<Longrightarrow> read_store field parse (print_store field pr es) = Inr es"
  by (simp add: read_store_def print_store_def parse_store_def jget_def parse_all)

lemma read_bad: "\<not> list_all ok es \<Longrightarrow> \<exists>x. read_store field parse (print_store field pr es) = Inl x"
  using parse_bad [of es 0] by (simp add: read_store_def print_store_def parse_store_def jget_def)

lemma entries_ok: "parse_entries parse i vs = Inr es \<Longrightarrow> list_all ok es"
  by (induction vs arbitrary: i es) (auto split: sum.splits dest: parse_ok)

lemma read_ok: "read_store field parse f = Inr es \<Longrightarrow> list_all ok es"
  by (auto simp: read_store_def parse_store_def entries_ok split: json_file.splits json.splits option.splits)

end

end
