(* ===== verification/Keyring.thy ===== *)
theory Keyring
  imports Stores Wire
begin

text \<open>
  \<open>packages/cli/src/known-hosts.ts\<close> and \<open>device-keyring.ts\<close>: the pins a controller trusts and the devices a
  host lets steer, each a list file; and the key codec of \<open>packages/channel/src/keys.ts\<close>. Base64 and P-256
  are parameters. Owner-only modes and the making of the directory are not modelled. A result is the
  error thrown or the value and the file left behind.
\<close>

subsection \<open>Keys as base64\<close>

text \<open>\<open>Buffer.from(_, 'base64')\<close> skips what it does not know; \<open>toString('base64')\<close> is canonical.\<close>

record base64 =
  b64_decode :: "string \<Rightarrow> bytes"
  b64_encode :: "bytes \<Rightarrow> string"

definition base64_correct :: "base64 \<Rightarrow> bool" where
  "base64_correct B \<longleftrightarrow> (\<forall>bs. b64_decode B (b64_encode B bs) = bs \<and> (bs \<noteq> [] \<longrightarrow> b64_encode B bs \<noteq> []))"

text \<open>An instance on which closed examples evaluate; it is no real codec.\<close>

definition toy_base64 :: base64 where
  "toy_base64 = \<lparr>b64_decode = utf8, b64_encode = map (\<lambda>b. char_of (unat b))\<rparr>"

definition encodeKey :: "base64 \<Rightarrow> bytes \<Rightarrow> string" where
  "encodeKey B k = b64_encode B k"

definition decodeKey :: "base64 \<Rightarrow> string \<Rightarrow> bytes option" where
  "decodeKey B t =
     (let bs = b64_decode B t in if length bs \<noteq> 32 \<or> encodeKey B bs \<noteq> t then None else Some bs)"

lemma decodeKey_Some: "decodeKey B t = Some k \<Longrightarrow> encodeKey B k = t \<and> length k = 32"
  by (auto simp: decodeKey_def Let_def split: if_splits)

lemma decode_encodeKey: "base64_correct B \<Longrightarrow> length k = 32 \<Longrightarrow> decodeKey B (encodeKey B k) = Some k"
  by (simp add: decodeKey_def encodeKey_def base64_correct_def)

subsection \<open>Known hosts\<close>

record known_host =
  kh_hostId :: string
  kh_key :: string
  kh_label :: string
  kh_addedAt :: string

definition parse_known_host :: "nat \<Rightarrow> json \<Rightarrow> store_error + known_host" where
  "parse_known_host i v =
     (case v of
        JObj fs \<Rightarrow>
          (case requireString i ''hostId'' (jget fs ''hostId'') of Inl e \<Rightarrow> Inl e | Inr h \<Rightarrow>
           case requireString i ''staticPublicKeyB64'' (jget fs ''staticPublicKeyB64'') of Inl e \<Rightarrow> Inl e | Inr k \<Rightarrow>
           case requireString i ''label'' (jget fs ''label'') of Inl e \<Rightarrow> Inl e | Inr l \<Rightarrow>
           case requireString i ''addedAt'' (jget fs ''addedAt'') of Inl e \<Rightarrow> Inl e | Inr a \<Rightarrow>
             Inr \<lparr>kh_hostId = h, kh_key = k, kh_label = l, kh_addedAt = a\<rparr>)
      | _ \<Rightarrow> Inl (EntryNotObject i))"

definition print_known_host :: "known_host \<Rightarrow> json" where
  "print_known_host e =
     JObj [(''hostId'', JStr (kh_hostId e)), (''staticPublicKeyB64'', JStr (kh_key e)),
           (''label'', JStr (kh_label e)), (''addedAt'', JStr (kh_addedAt e))]"

definition readKnownHosts :: "json_file \<Rightarrow> store_error + known_host list" where
  "readKnownHosts f = read_store ''hosts'' parse_known_host f"

definition lookupKnownHost :: "string \<Rightarrow> json_file \<Rightarrow> store_error + known_host option" where
  "lookupKnownHost hostId f =
     (case readKnownHosts f of Inl e \<Rightarrow> Inl e | Inr hs \<Rightarrow> Inr (find_entry kh_hostId hostId hs))"

definition writeKnownHost ::
  "base64 \<Rightarrow> (string \<Rightarrow> string \<Rightarrow> bool) \<Rightarrow> known_host \<Rightarrow> json_file \<Rightarrow> store_error + json_file" where
  "writeKnownHost B le e f =
     (case decodeKey B (kh_key e) of
        None \<Rightarrow> Inl BadKey
      | Some _ \<Rightarrow>
          (case readKnownHosts f of
             Inl x \<Rightarrow> Inl x
           | Inr hs \<Rightarrow> Inr (print_store ''hosts'' print_known_host (put_entry le kh_hostId e hs))))"

definition forgetKnownHost :: "string \<Rightarrow> json_file \<Rightarrow> store_error + (bool \<times> json_file)" where
  "forgetKnownHost hostId f =
     (case readKnownHosts f of
        Inl x \<Rightarrow> Inl x
      | Inr hs \<Rightarrow>
          (let rest = filter (\<lambda>h. kh_hostId h \<noteq> hostId) hs
           in if length rest = length hs then Inr (False, f)
              else Inr (True, print_store ''hosts'' print_known_host rest)))"

definition knownHostEntry :: "base64 \<Rightarrow> string \<Rightarrow> bytes \<Rightarrow> string \<Rightarrow> string \<Rightarrow> known_host" where
  "knownHostEntry B hostId key label now =
     \<lparr>kh_hostId = hostId, kh_key = encodeKey B key, kh_label = label, kh_addedAt = now\<rparr>"

definition known_host_ok :: "known_host \<Rightarrow> bool" where
  "known_host_ok e \<longleftrightarrow> kh_hostId e \<noteq> [] \<and> kh_key e \<noteq> [] \<and> kh_label e \<noteq> [] \<and> kh_addedAt e \<noteq> []"

lemma requireString_Inr: "requireString i f v = Inr s \<longleftrightarrow> v = Some (JStr s) \<and> s \<noteq> []"
  by (auto simp: requireString_def split: option.split json.split)

interpretation known_hosts: entry_store "''hosts''" parse_known_host print_known_host known_host_ok
proof
  fix e i
  show "parse_known_host i (print_known_host e) = Inr e" if "known_host_ok e"
    using that by (simp add: parse_known_host_def print_known_host_def known_host_ok_def jget_def)
  show "\<exists>x. parse_known_host i (print_known_host e) = Inl x" if "\<not> known_host_ok e"
    using that by (auto simp: parse_known_host_def print_known_host_def known_host_ok_def jget_def)
  show "known_host_ok e" if "parse_known_host i v = Inr e" for v
    using that by (auto simp: parse_known_host_def known_host_ok_def requireString_Inr split: json.splits sum.splits)
qed

subsection \<open>The device keyring\<close>

record authorized_device =
  ad_deviceKeyId :: string
  ad_publicKey :: string
  ad_label :: string
  ad_enrolledAt :: string
  ad_revokedAt :: "string option"

definition parse_device :: "nat \<Rightarrow> json \<Rightarrow> store_error + authorized_device" where
  "parse_device i v =
     (case v of
        JObj fs \<Rightarrow>
          (case requireString i ''deviceKeyId'' (jget fs ''deviceKeyId'') of Inl e \<Rightarrow> Inl e | Inr d \<Rightarrow>
           case requireString i ''publicKeyB64'' (jget fs ''publicKeyB64'') of Inl e \<Rightarrow> Inl e | Inr k \<Rightarrow>
           case requireString i ''label'' (jget fs ''label'') of Inl e \<Rightarrow> Inl e | Inr l \<Rightarrow>
           case requireString i ''enrolledAt'' (jget fs ''enrolledAt'') of Inl e \<Rightarrow> Inl e | Inr a \<Rightarrow>
             (let dev = \<lparr>ad_deviceKeyId = d, ad_publicKey = k, ad_label = l, ad_enrolledAt = a, ad_revokedAt = None\<rparr>
              in case jget fs ''revokedAt'' of
                   None \<Rightarrow> Inr dev
                 | Some r \<Rightarrow>
                     (case requireString i ''revokedAt'' (Some r) of
                        Inl e \<Rightarrow> Inl e | Inr t \<Rightarrow> Inr (dev\<lparr>ad_revokedAt := Some t\<rparr>))))
      | _ \<Rightarrow> Inl (EntryNotObject i))"

text \<open>\<open>JSON.stringify\<close> leaves an absent field out.\<close>

definition print_device :: "authorized_device \<Rightarrow> json" where
  "print_device e =
     JObj ([(''deviceKeyId'', JStr (ad_deviceKeyId e)), (''publicKeyB64'', JStr (ad_publicKey e)),
            (''label'', JStr (ad_label e)), (''enrolledAt'', JStr (ad_enrolledAt e))] @
           (case ad_revokedAt e of None \<Rightarrow> [] | Some t \<Rightarrow> [(''revokedAt'', JStr t)]))"

definition readAuthorizedDevices :: "json_file \<Rightarrow> store_error + authorized_device list" where
  "readAuthorizedDevices f = read_store ''devices'' parse_device f"

definition lookupAuthorizedDevice :: "string \<Rightarrow> json_file \<Rightarrow> store_error + authorized_device option" where
  "lookupAuthorizedDevice d f =
     (case readAuthorizedDevices f of Inl e \<Rightarrow> Inl e | Inr ds \<Rightarrow> Inr (find_entry ad_deviceKeyId d ds))"

text \<open>\<open>ec_valid\<close> is \<open>p256.utils.isValidPublicKey\<close>; \<open>ec_verify\<close> verifies a signature over a message that it
  hashes with SHA-256, under a public key, and is \<open>None\<close> where the package throws.\<close>

record ecdsa =
  ec_valid :: "bytes \<Rightarrow> bool"
  ec_verify :: "bytes \<Rightarrow> bytes \<Rightarrow> bytes \<Rightarrow> bool option"

definition writeAuthorizedDevice ::
  "base64 \<Rightarrow> ecdsa \<Rightarrow> (string \<Rightarrow> string \<Rightarrow> bool) \<Rightarrow> authorized_device \<Rightarrow> json_file \<Rightarrow> store_error + json_file" where
  "writeAuthorizedDevice B E le e f =
     (let key = b64_decode B (ad_publicKey e)
      in if length key \<noteq> DEVICE_PUBLIC_KEY_BYTES \<or> b64_encode B key \<noteq> ad_publicKey e \<or> \<not> ec_valid E key then Inl BadKey
         else case readAuthorizedDevices f of
             Inl x \<Rightarrow> Inl x
           | Inr ds \<Rightarrow> Inr (print_store ''devices'' print_device (put_entry le ad_deviceKeyId e ds)))"

text \<open>Only the first entry with the key id is marked.\<close>

fun revoke_first :: "string \<Rightarrow> string \<Rightarrow> authorized_device list \<Rightarrow> authorized_device list" where
  "revoke_first d now [] = []"
| "revoke_first d now (e # es) =
     (if ad_deviceKeyId e = d then e\<lparr>ad_revokedAt := Some now\<rparr> # es else e # revoke_first d now es)"

definition revokeAuthorizedDevice :: "string \<Rightarrow> string \<Rightarrow> json_file \<Rightarrow> store_error + (bool \<times> json_file)" where
  "revokeAuthorizedDevice d now f =
     (case readAuthorizedDevices f of
        Inl x \<Rightarrow> Inl x
      | Inr ds \<Rightarrow>
          (case find_entry ad_deviceKeyId d ds of
             None \<Rightarrow> Inr (False, f)
           | Some _ \<Rightarrow> Inr (True, print_store ''devices'' print_device (revoke_first d now ds))))"

definition DEVICE_AUTH_SIGNATURE_BYTES :: nat where
  "DEVICE_AUTH_SIGNATURE_BYTES = 64"

text \<open>What the host's connection passes to its device gate.\<close>

record device_claim =
  dc_deviceKeyId :: string
  dc_deviceAuth :: string
  dc_sessionId :: bytes

definition buildVerifyDevice :: "base64 \<Rightarrow> ecdsa \<Rightarrow> string \<Rightarrow> json_file \<Rightarrow> device_claim \<Rightarrow> bool" where
  "buildVerifyDevice B E hostId f claim =
     (case lookupAuthorizedDevice (dc_deviceKeyId claim) f of
        Inl _ \<Rightarrow> False
      | Inr None \<Rightarrow> False
      | Inr (Some dev) \<Rightarrow>
          if ad_revokedAt dev \<noteq> None then False
          else
            let publicKey = b64_decode B (ad_publicKey dev); signature = b64_decode B (dc_deviceAuth claim)
            in if length publicKey \<noteq> DEVICE_PUBLIC_KEY_BYTES \<or> length signature \<noteq> DEVICE_AUTH_SIGNATURE_BYTES then False
               else case deviceAuthMessage (dc_sessionId claim) hostId (dc_deviceKeyId claim) of
                   None \<Rightarrow> False
                 | Some m \<Rightarrow> (case ec_verify E signature m publicKey of None \<Rightarrow> False | Some v \<Rightarrow> v))"

definition device_ok :: "authorized_device \<Rightarrow> bool" where
  "device_ok e \<longleftrightarrow> ad_deviceKeyId e \<noteq> [] \<and> ad_publicKey e \<noteq> [] \<and> ad_label e \<noteq> [] \<and> ad_enrolledAt e \<noteq> [] \<and> ad_revokedAt e \<noteq> Some []"

interpretation keyring: entry_store "''devices''" parse_device print_device device_ok
proof
  fix e i
  show "parse_device i (print_device e) = Inr e" if "device_ok e"
    using that
    by (cases e; cases "ad_revokedAt e") (simp_all add: parse_device_def print_device_def device_ok_def jget_def Let_def)
  show "\<exists>x. parse_device i (print_device e) = Inl x" if "\<not> device_ok e"
    using that
    by (cases "ad_revokedAt e") (auto simp: parse_device_def print_device_def device_ok_def jget_def Let_def)
  show "device_ok e" if "parse_device i v = Inr e" for v
    using that
    by (auto simp: parse_device_def device_ok_def requireString_Inr Let_def split: json.splits sum.splits option.splits)
qed

end
