(* ===== verification/Texts.thy ===== *)
theory Texts
  imports Prelude
begin

text \<open>
  JavaScript's string operations as the command line uses them: \<open>split\<close> at a character and \<open>join\<close>,
  \<open>trim\<close>, the case functions (for ASCII), \<open>startsWith\<close>, \<open>includes\<close>; and the last component of a path.
\<close>

subsection \<open>Splitting and joining\<close>

fun split_on :: "char \<Rightarrow> string \<Rightarrow> string list" where
  "split_on c [] = [[]]"
| "split_on c (x # xs) =
     (if x = c then [] # split_on c xs
      else case split_on c xs of y # ys \<Rightarrow> (x # y) # ys | [] \<Rightarrow> [[x]])"

fun join_with :: "string \<Rightarrow> string list \<Rightarrow> string" where
  "join_with s [] = []"
| "join_with s [x] = x"
| "join_with s (x # y # ys) = x @ s @ join_with s (y # ys)"

abbreviation newline :: char where
  "newline \<equiv> CHR 0x0A"

lemma split_on_ne [simp]: "split_on c s \<noteq> []"
  by (cases s) (auto split: list.split)

lemma split_on_plain: "c \<notin> set s \<Longrightarrow> split_on c s = [s]"
  by (induction s) auto

lemma split_on_append: "split_on c (a @ c # b) = split_on c a @ split_on c b"
proof (induction a)
  case (Cons x a)
  then show ?case by (cases "split_on c a") auto
qed simp

lemma split_on_plain_append: "c \<notin> set a \<Longrightarrow> split_on c (a @ c # b) = a # split_on c b"
  by (simp add: split_on_append split_on_plain)

lemma split_on_members: "x \<in> set (split_on c s) \<Longrightarrow> c \<notin> set x"
  by (induction s arbitrary: x) (auto split: if_splits list.splits)

lemma join_with_Cons: "xs \<noteq> [] \<Longrightarrow> join_with s (x # xs) = x @ s @ join_with s xs"
  by (cases xs) auto

lemma join_with_append: "xs \<noteq> [] \<Longrightarrow> ys \<noteq> [] \<Longrightarrow> join_with s (xs @ ys) = join_with s xs @ s @ join_with s ys"
proof (induction xs)
  case (Cons x xs)
  then show ?case by (cases "xs = []") (simp_all add: join_with_Cons)
qed simp

lemma join_split: "join_with [c] (split_on c s) = s"
proof (induction s)
  case (Cons x s)
  show ?case
  proof (cases "split_on c s")
    case (Cons y ys)
    then show ?thesis using Cons.IH by (cases ys) (auto simp: join_with_Cons)
  qed simp
qed simp

lemma split_join: "xs \<noteq> [] \<Longrightarrow> \<forall>x \<in> set xs. c \<notin> set x \<Longrightarrow> split_on c (join_with [c] xs) = xs"
proof (induction xs)
  case (Cons x xs)
  then show ?case by (cases "xs = []") (simp_all add: split_on_plain join_with_Cons split_on_plain_append)
qed simp

subsection \<open>Trimming and case\<close>

text \<open>
  Strings are the bytes of their UTF-8 form, so a white space or line end that \<open>trim\<close> takes off an end is one to three
  bytes long: U+0009 to U+000D, U+0020, U+00A0, U+1680, U+2000 to U+200A, U+2028, U+2029, U+202F, U+205F, U+3000 and U+FEFF.
\<close>

definition space_units :: "string list" where
  "space_units =
     [[CHR 0x09], [CHR 0x0A], [CHR 0x0B], [CHR 0x0C], [CHR 0x0D], [CHR 0x20], [CHR 0xC2, CHR 0xA0],
      [CHR 0xE1, CHR 0x9A, CHR 0x80]] @
     map (\<lambda>c. [CHR 0xE2, CHR 0x80, c])
       [CHR 0x80, CHR 0x81, CHR 0x82, CHR 0x83, CHR 0x84, CHR 0x85, CHR 0x86, CHR 0x87, CHR 0x88, CHR 0x89, CHR 0x8A,
        CHR 0xA8, CHR 0xA9, CHR 0xAF] @
     [[CHR 0xE2, CHR 0x81, CHR 0x9F], [CHR 0xE3, CHR 0x80, CHR 0x80], [CHR 0xEF, CHR 0xBB, CHR 0xBF]]"

definition unit_at :: "string list \<Rightarrow> string \<Rightarrow> string option" where
  "unit_at us s = List.find (\<lambda>u. u \<noteq> [] \<and> take (length u) s = u) us"

text \<open>Take units off the front as long as one stands there.\<close>

function strip :: "string list \<Rightarrow> string \<Rightarrow> string" where
  "strip us s = (case unit_at us s of None \<Rightarrow> s | Some u \<Rightarrow> strip us (drop (length u) s))"
  by pat_completeness auto
termination
proof (relation "measure (\<lambda>(us, s). length s)")
  fix us s u assume "unit_at us s = Some u"
  then have "u \<noteq> []" "take (length u) s = u" by (auto simp: unit_at_def find_Some_iff)
  then have "0 < length u" "s \<noteq> []" by auto
  then show "((us, drop (length u) s), us, s) \<in> measure (\<lambda>(us, s). length s)" by simp
qed simp

declare strip.simps [simp del]

definition trim :: "string \<Rightarrow> string" where
  "trim s = rev (strip (map rev space_units) (rev (strip space_units s)))"

text \<open>Lower case of the ASCII letters; other letters are left as they are, which is exact for a comparison with a text of
  ASCII letters that no other letter has as its lower case.\<close>

definition lower :: "char \<Rightarrow> char" where
  "lower c = (let n = of_char c :: nat in if 65 \<le> n \<and> n \<le> 90 then char_of (n + 32) else c)"

text \<open>A string with no white space at its ends is its own trim.\<close>

definition trimmed :: "string \<Rightarrow> bool" where
  "trimmed s \<longleftrightarrow> trim s = s"

lemma strip_stop: "unit_at us s = None \<Longrightarrow> strip us s = s"
  by (simp add: strip.simps)

lemma strip_stopped: "unit_at us (strip us s) = None"
proof (induction us s rule: strip.induct)
  case (1 us s)
  then show ?case by (cases "unit_at us s") (simp_all add: strip.simps [of us s])
qed

lemma strip_suffix: "\<exists>p. s = p @ strip us s"
proof (induction us s rule: strip.induct)
  case (1 us s)
  show ?case
  proof (cases "unit_at us s")
    case (Some u)
    then obtain p where p: "drop (length u) s = p @ strip us (drop (length u) s)" using 1 by blast
    have "s = take (length u) s @ drop (length u) s" by simp
    also have "\<dots> = (take (length u) s @ p) @ strip us (drop (length u) s)" by (subst p) simp
    finally have "\<exists>p. s = p @ strip us (drop (length u) s)" by (rule exI)
    then show ?thesis using Some by (simp add: strip.simps [of us s])
  qed (simp add: strip_stop)
qed

lemma strip_fixed: "strip us s = s \<longleftrightarrow> unit_at us s = None"
  using strip_stopped [of us s] strip_stop by metis

text \<open>What stands at no front of a string stands at no front of a shorter piece of it.\<close>

lemma unit_at_prefix: "unit_at us (s @ t) = None \<Longrightarrow> unit_at us s = None"
proof -
  assume n: "unit_at us (s @ t) = None"
  have "\<not> (u \<noteq> [] \<and> take (length u) s = u)" if "u \<in> set us" for u
  proof
    assume u: "u \<noteq> [] \<and> take (length u) s = u"
    then have "length u \<le> length s" by (metis length_take min.absorb_iff2 min.commute)
    then have "take (length u) (s @ t) = u" using u by simp
    then show False using n u that by (auto simp: unit_at_def find_None_iff)
  qed
  then show ?thesis by (auto simp: unit_at_def find_None_iff)
qed

lemma trim_Nil [simp]: "trim [] = []"
proof -
  have "unit_at us [] = None" for us by (auto simp: unit_at_def find_None_iff)
  then show ?thesis by (simp add: trim_def strip_stop)
qed

lemma set_trim: "set (trim s) \<subseteq> set s"
proof -
  obtain p q where "s = p @ strip space_units s"
    "rev (strip space_units s) = q @ strip (map rev space_units) (rev (strip space_units s))"
    using strip_suffix by blast
  then have "set (strip (map rev space_units) (rev (strip space_units s))) \<subseteq> set (rev (strip space_units s))"
    "set (strip space_units s) \<subseteq> set s"
    by (metis Un_upper2 set_append)+
  then show ?thesis by (auto simp: trim_def)
qed

text \<open>Neither end of a trimmed string is white space, and then it is its own trim.\<close>

lemma trimmed_iff: "trimmed s \<longleftrightarrow> unit_at space_units s = None \<and> unit_at (map rev space_units) (rev s) = None"
proof
  assume t: "trimmed s"
  obtain p q where pq: "s = p @ strip space_units s"
    "rev (strip space_units s) = q @ strip (map rev space_units) (rev (strip space_units s))"
    using strip_suffix by blast
  have "length (rev s) = length (strip (map rev space_units) (rev (strip space_units s)))"
    using t by (metis trim_def trimmed_def rev_rev_ident)
  then have "length s + length q = length (strip space_units s)" using arg_cong [OF pq(2), of length] by simp
  moreover have "length s = length p + length (strip space_units s)" using arg_cong [OF pq(1), of length] by simp
  ultimately have "p = []" by simp
  then have f: "strip space_units s = s" using pq(1) by simp
  moreover have "strip (map rev space_units) (rev s) = rev s"
    using t unfolding trimmed_def trim_def f by (metis rev_rev_ident)
  ultimately show "unit_at space_units s = None \<and> unit_at (map rev space_units) (rev s) = None"
    by (simp add: strip_fixed)
qed (simp add: trimmed_def trim_def strip_stop)

lemma trim_trim: "trimmed (trim s)"
proof -
  let ?u = "strip (map rev space_units) (rev (strip space_units s))"
  obtain q where "rev (strip space_units s) = q @ ?u" using strip_suffix by blast
  then have "strip space_units s = rev ?u @ rev q" by (metis rev_append rev_rev_ident)
  then have "unit_at space_units (rev ?u) = None" using strip_stopped [of space_units s] unit_at_prefix by metis
  then show ?thesis by (simp add: trimmed_iff trim_def strip_stopped)
qed

lemma newlines_trimmed: "trimmed s \<Longrightarrow> s \<noteq> [] \<Longrightarrow> hd s \<noteq> newline"
  by (cases s) (auto simp: trimmed_iff unit_at_def space_units_def)

text \<open>A string of which neither end is a byte of a white space.\<close>

definition space_byte :: "char \<Rightarrow> bool" where
  "space_byte c \<longleftrightarrow> c \<in> set (concat space_units)"

lemma trim_ends: "s \<noteq> [] \<Longrightarrow> \<not> space_byte (hd s) \<Longrightarrow> \<not> space_byte (last s) \<Longrightarrow> trim s = s"
proof -
  have u: "unit_at us t = None" if "t \<noteq> []" "\<forall>u \<in> set us. hd t \<notin> set u" for us t
  proof -
    have "hd t \<in> set u" if "u \<noteq> []" "take (length u) t = u" for u
      using that \<open>t \<noteq> []\<close> by (cases t; cases u) auto
    then show ?thesis using \<open>\<forall>u \<in> set us. hd t \<notin> set u\<close> by (auto simp: unit_at_def find_None_iff)
  qed
  assume "s \<noteq> []" "\<not> space_byte (hd s)" "\<not> space_byte (last s)"
  then have "trimmed s" unfolding trimmed_iff by (intro conjI u) (auto simp: space_byte_def hd_rev)
  then show ?thesis by (simp add: trimmed_def)
qed

subsection \<open>Parts of strings\<close>

definition ends_with :: "string \<Rightarrow> string \<Rightarrow> bool" where
  "ends_with p s \<longleftrightarrow> length p \<le> length s \<and> drop (length s - length p) s = p"

fun contains :: "string \<Rightarrow> string \<Rightarrow> bool" where
  "contains p [] = (p = [])"
| "contains p (x # xs) = (take (length p) (x # xs) = p \<or> contains p xs)"

lemma contains_append: "contains p (a @ p @ b)"
proof (induction a)
  case Nil
  have "take (length p) (p @ b) = p" by simp
  then show ?case by (cases "p @ b") auto
qed simp

text \<open>\<open>basename\<close>: the part behind the last slash, trailing slashes aside.\<close>

definition basename :: "string \<Rightarrow> string" where
  "basename p =
     (let q = rev (dropWhile (\<lambda>c. c = CHR ''/'') (rev p))
      in rev (takeWhile (\<lambda>c. c \<noteq> CHR ''/'') (rev q)))"

end
