(* ===== verification/Trust.thy ===== *)
theory Trust
  imports Keyring Texts Serve Prelude
begin

text \<open>
  The decisions that trust rests on in \<open>packages/cli\<close>: the explicit yes of \<open>prompt.ts\<close>, which key
  \<open>commands/attach.ts\<close> pins for a remote host, when \<open>commands/dock.ts\<close> enrolls a phone; and the host's
  connection joined to the keyring, whose gate looks the claimed device up in the file as it is at that
  moment. Then what the file operations keep, and what is lost when two of them interleave.
\<close>

subsection \<open>Asking a human\<close>

text \<open>\<open>None\<close>: the input ended without a line. Only ASCII letters have the lower case \<open>y\<close>, \<open>e\<close> or \<open>s\<close>, so the case of other
  letters does not matter here.\<close>

definition confirm :: "string option \<Rightarrow> bool" where
  "confirm answer =
     (case answer of None \<Rightarrow> False | Some a \<Rightarrow> (let n = map lower (trim a) in n = ''y'' \<or> n = ''yes''))"

subsection \<open>The pin of a remote host\<close>

datatype pin_error = StoreError store_error | KeyMismatch | NotInteractive | KeyRefused | BadPin

record resolved_pin =
  rp_key :: bytes
  rp_prompted :: bool

text \<open>The human: \<open>None\<close> where there is no terminal, else the line typed. The file is what is left behind.\<close>

definition resolveRemotePin ::
  "base64 \<Rightarrow> (string \<Rightarrow> string \<Rightarrow> bool) \<Rightarrow> string \<Rightarrow> string option option \<Rightarrow> string \<Rightarrow> string \<Rightarrow> json_file \<Rightarrow>
   (pin_error + resolved_pin) \<times> json_file" where
  "resolveRemotePin B le now human hostId apiKey f =
     (case lookupKnownHost hostId f of
        Inl x \<Rightarrow> (Inl (StoreError x), f)
      | Inr (Some known) \<Rightarrow>
          if kh_key known \<noteq> apiKey then (Inl KeyMismatch, f)
          else (case decodeKey B (kh_key known) of
                  None \<Rightarrow> (Inl BadPin, f) | Some k \<Rightarrow> (Inr \<lparr>rp_key = k, rp_prompted = False\<rparr>, f))
      | Inr None \<Rightarrow>
          (case human of
             None \<Rightarrow> (Inl NotInteractive, f)
           | Some answer \<Rightarrow>
               if \<not> confirm answer then (Inl KeyRefused, f)
               else case decodeKey B apiKey of
                   None \<Rightarrow> (Inl BadPin, f)
                 | Some key \<Rightarrow>
                     (case writeKnownHost B le (knownHostEntry B hostId key ''trusted on first use'' now) f of
                        Inl x \<Rightarrow> (Inl (StoreError x), f)
                      | Inr g \<Rightarrow> (Inr \<lparr>rp_key = key, rp_prompted = True\<rparr>, g))))"

subsection \<open>The gate on the keyring as it is\<close>

text \<open>\<open>sc_lookup\<close> is the verdict the gate has reached and not yet delivered: the keyring is read after the
  hello and the promise settles later.\<close>

record ('j, 'o, 'm) guarded =
  gu_file :: json_file
  gu_lookup :: "bool option"
  gu_conn :: "('j, 'o, 'm) served"

datatype ('o, 'm) guard_event =
    EnrollEv authorized_device
  | RevokeEv string string
  | LookupEv
  | DeliverEv env
  | PeerEv "('o, 'm) serve_event"

definition claim_of :: "serve_options \<Rightarrow> hello \<Rightarrow> device_claim option" where
  "claim_of opts h =
     (case so_sessionId opts of
        None \<Rightarrow> None
      | Some sid \<Rightarrow> Some \<lparr>dc_deviceKeyId = he_deviceKeyId h, dc_deviceAuth = he_deviceAuth h, dc_sessionId = sid\<rparr>)"

fun is_verdict :: "('o, 'm) serve_event \<Rightarrow> bool" where
  "is_verdict (VerdictEv v en) = True"
| "is_verdict ev = False"

definition guard_step ::
  "'m emulator \<Rightarrow> 'j codec \<Rightarrow> serve_options \<Rightarrow> base64 \<Rightarrow> ecdsa \<Rightarrow> (string \<Rightarrow> string \<Rightarrow> bool) \<Rightarrow> string \<Rightarrow>
   ('o, 'm) guard_event \<Rightarrow> ('j, 'o, 'm) guarded \<Rightarrow> ('j, 'o, 'm) guarded" where
  "guard_step em cd opts B E le hostId ev g =
     (case ev of
        EnrollEv e \<Rightarrow> (case writeAuthorizedDevice B E le e (gu_file g) of Inl _ \<Rightarrow> g | Inr f \<Rightarrow> g\<lparr>gu_file := f\<rparr>)
      | RevokeEv d now \<Rightarrow> (case revokeAuthorizedDevice d now (gu_file g) of Inl _ \<Rightarrow> g | Inr (_, f) \<Rightarrow> g\<lparr>gu_file := f\<rparr>)
      | LookupEv \<Rightarrow>
          (case (sv_phase (gu_conn g), sv_hello (gu_conn g)) of
             (VerifyingDevice, Some h) \<Rightarrow>
               (case claim_of opts h of
                  None \<Rightarrow> g
                | Some claim \<Rightarrow>
                    if gu_lookup g = None then g\<lparr>gu_lookup := Some (buildVerifyDevice B E hostId (gu_file g) claim)\<rparr> else g)
           | _ \<Rightarrow> g)
      | DeliverEv en \<Rightarrow>
          (case gu_lookup g of
             None \<Rightarrow> g
           | Some v \<Rightarrow> g\<lparr>gu_conn := serve_step em cd opts (VerdictEv (Some v) en) (gu_conn g)\<rparr>)
      | PeerEv e \<Rightarrow> if is_verdict e then g else g\<lparr>gu_conn := serve_step em cd opts e (gu_conn g)\<rparr>)"

subsection \<open>What the file operations keep\<close>

definition keyring_sound :: "json_file \<Rightarrow> bool" where
  "keyring_sound f \<longleftrightarrow> (\<exists>ds. readAuthorizedDevices f = Inr ds \<and> distinct (map ad_deviceKeyId ds))"

definition hosts_sound :: "json_file \<Rightarrow> bool" where
  "hosts_sound f \<longleftrightarrow> (\<exists>hs. readKnownHosts f = Inr hs \<and> distinct (map kh_hostId hs))"

lemma list_all_put: "list_all ok es \<Longrightarrow> ok e \<Longrightarrow> list_all ok (put_entry le k e es)"
  by (auto simp: list_all_iff put_entry_def)

lemma readAuthorizedDevices_ok: "readAuthorizedDevices f = Inr ds \<Longrightarrow> list_all device_ok ds"
  unfolding readAuthorizedDevices_def by (rule keyring.read_ok)

lemma readKnownHosts_ok: "readKnownHosts f = Inr hs \<Longrightarrow> list_all known_host_ok hs"
  unfolding readKnownHosts_def by (rule known_hosts.read_ok)

lemma write_device:
  assumes "keyring_sound f" and "device_ok e" and "writeAuthorizedDevice B E le e f = Inr g"
  shows "keyring_sound g \<and>
    (\<forall>d. lookupAuthorizedDevice d g = (if d = ad_deviceKeyId e then Inr (Some e) else lookupAuthorizedDevice d f))"
proof -
  obtain ds where ds: "readAuthorizedDevices f = Inr ds" "distinct (map ad_deviceKeyId ds)"
    using assms(1) by (auto simp: keyring_sound_def)
  let ?ds = "put_entry le ad_deviceKeyId e ds"
  have g: "g = print_store ''devices'' print_device ?ds"
    using assms(3) ds(1) by (simp add: writeAuthorizedDevice_def Let_def split: if_splits)
  have "list_all device_ok ?ds" using readAuthorizedDevices_ok [OF ds(1)] assms(2) by (rule list_all_put)
  then have "readAuthorizedDevices g = Inr ?ds" unfolding g readAuthorizedDevices_def by (rule keyring.read_print)
  then show ?thesis using ds
    by (simp add: keyring_sound_def distinct_put_entry lookupAuthorizedDevice_def find_put_entry)
qed

lemma revoke_first_facts:
  "map ad_deviceKeyId (revoke_first d now ds) = map ad_deviceKeyId ds"
  "find_entry ad_deviceKeyId i (revoke_first d now ds) =
     (case find_entry ad_deviceKeyId i ds of
        None \<Rightarrow> None | Some e \<Rightarrow> Some (if i = d then e\<lparr>ad_revokedAt := Some now\<rparr> else e))"
  "now \<noteq> [] \<Longrightarrow> list_all device_ok ds \<Longrightarrow> list_all device_ok (revoke_first d now ds)"
  by (induction ds) (auto simp: find_entry_def device_ok_def split: option.split)

lemma revoke_device:
  assumes "keyring_sound f" and "now \<noteq> []" and "revokeAuthorizedDevice d now f = Inr (b, g)"
  shows "keyring_sound g \<and> (b \<longleftrightarrow> lookupAuthorizedDevice d f \<noteq> Inr None) \<and>
    (\<forall>i. lookupAuthorizedDevice i g =
       (case lookupAuthorizedDevice i f of
          Inr (Some e) \<Rightarrow> Inr (Some (if i = d then e\<lparr>ad_revokedAt := Some now\<rparr> else e)) | r \<Rightarrow> r))"
proof -
  obtain ds where ds: "readAuthorizedDevices f = Inr ds" "distinct (map ad_deviceKeyId ds)"
    using assms(1) by (auto simp: keyring_sound_def)
  let ?ds = "revoke_first d now ds"
  have read: "readAuthorizedDevices (print_store ''devices'' print_device ?ds) = Inr ?ds"
    unfolding readAuthorizedDevices_def
    using revoke_first_facts(3) [OF assms(2) readAuthorizedDevices_ok [OF ds(1)]] by (rule keyring.read_print)
  show ?thesis
  proof (cases "find_entry ad_deviceKeyId d ds")
    case None
    then have "b = False" "g = f" using assms(3) ds(1) by (simp_all add: revokeAuthorizedDevice_def)
    then show ?thesis using None ds by (auto simp: keyring_sound_def lookupAuthorizedDevice_def split: option.split)
  next
    case (Some e)
    then have "b = True" "g = print_store ''devices'' print_device ?ds"
      using assms(3) ds(1) by (simp_all add: revokeAuthorizedDevice_def)
    then show ?thesis using Some ds read
      by (simp add: keyring_sound_def lookupAuthorizedDevice_def revoke_first_facts split: option.split)
  qed
qed

lemma write_host:
  assumes "hosts_sound f" and "known_host_ok e" and "writeKnownHost B le e f = Inr g"
  shows "hosts_sound g \<and> (\<forall>h. lookupKnownHost h g = (if h = kh_hostId e then Inr (Some e) else lookupKnownHost h f))"
proof -
  obtain hs where hs: "readKnownHosts f = Inr hs" "distinct (map kh_hostId hs)" using assms(1) by (auto simp: hosts_sound_def)
  let ?hs = "put_entry le kh_hostId e hs"
  have g: "g = print_store ''hosts'' print_known_host ?hs"
    using assms(3) hs(1) by (simp add: writeKnownHost_def split: option.splits)
  have "list_all known_host_ok ?hs" using readKnownHosts_ok [OF hs(1)] assms(2) by (rule list_all_put)
  then have "readKnownHosts g = Inr ?hs" unfolding g readKnownHosts_def by (rule known_hosts.read_print)
  then show ?thesis using hs by (simp add: hosts_sound_def distinct_put_entry lookupKnownHost_def find_put_entry)
qed

lemma forget_host:
  assumes "hosts_sound f" and "forgetKnownHost h f = Inr (b, g)"
  shows "hosts_sound g \<and> (b \<longleftrightarrow> lookupKnownHost h f \<noteq> Inr None) \<and>
    (\<forall>i. lookupKnownHost i g = (if i = h then Inr None else lookupKnownHost i f))"
proof -
  obtain hs where hs: "readKnownHosts f = Inr hs" "distinct (map kh_hostId hs)" using assms(1) by (auto simp: hosts_sound_def)
  let ?hs = "filter (\<lambda>x. kh_hostId x \<noteq> h) hs"
  have "list_all known_host_ok ?hs" using readKnownHosts_ok [OF hs(1)] by (auto simp: list_all_iff)
  then have read: "readKnownHosts (print_store ''hosts'' print_known_host ?hs) = Inr ?hs"
    unfolding readKnownHosts_def by (rule known_hosts.read_print)
  have gone: "length ?hs = length hs \<longleftrightarrow> find_entry kh_hostId h hs = None"
    by (rule dropped_none)
  show ?thesis
  proof (cases "length ?hs = length hs")
    case True
    then have "b = False" "g = f" using assms(2) hs(1) by (simp_all add: forgetKnownHost_def)
    then show ?thesis using hs gone True by (simp add: hosts_sound_def lookupKnownHost_def)
  next
    case False
    then have "b = True" "g = print_store ''hosts'' print_known_host ?hs" using assms(2) hs(1) by (simp_all add: forgetKnownHost_def Let_def)
    then show ?thesis using hs gone False read
      by (simp add: hosts_sound_def lookupKnownHost_def find_drop_entry distinct_map_filter)
  qed
qed

end
