(* ===== verification/Gate.thy ===== *)
theory Gate
  imports Trust ServeHistory
begin

text \<open>
  The past of a guarded connection: what the gate was asked, over which keyring, and what it answered; and
  two keyring operations that interleave.
\<close>

subsection \<open>The keyring and the frames of a history\<close>

fun keyring_event ::
  "base64 \<Rightarrow> ecdsa \<Rightarrow> (string \<Rightarrow> string \<Rightarrow> bool) \<Rightarrow> ('o, 'm) guard_event \<Rightarrow> json_file \<Rightarrow> json_file" where
  "keyring_event B E le (EnrollEv e) f = (case writeAuthorizedDevice B E le e f of Inl _ \<Rightarrow> f | Inr g \<Rightarrow> g)"
| "keyring_event B E le (RevokeEv d now) f = (case revokeAuthorizedDevice d now f of Inl _ \<Rightarrow> f | Inr (_, g) \<Rightarrow> g)"
| "keyring_event B E le ev f = f"

abbreviation keyring_after where
  "keyring_after B E le evs f \<equiv> fold (keyring_event B E le) evs f"

fun frames_of :: "('o, 'm) guard_event list \<Rightarrow> ('o, 'm) serve_event list" where
  "frames_of [] = []"
| "frames_of (PeerEv e # evs) = (if control_frame e then e # frames_of evs else frames_of evs)"
| "frames_of (_ # evs) = frames_of evs"

lemma frames_of_guard_append [simp]: "frames_of (xs @ ys) = frames_of xs @ frames_of ys"
  by (induction xs rule: frames_of.induct) auto

text \<open>The gate let the device of the first hello pass: at that moment the keyring held it, not revoked, and
  the claim's signature verified under its key, over this channel's session, this host and that id.\<close>

definition let_pass ::
  "'j codec \<Rightarrow> serve_options \<Rightarrow> base64 \<Rightarrow> ecdsa \<Rightarrow> (string \<Rightarrow> string \<Rightarrow> bool) \<Rightarrow> string \<Rightarrow> json_file \<Rightarrow>
   ('o, 'm) guard_event list \<Rightarrow> bool" where
  "let_pass cd opts B E le hostId f0 evs \<longleftrightarrow>
     (\<exists>pre post p en rest h dev sid m.
        evs = pre @ LookupEv # post \<and>
        frames_of pre = ControlFrameEv p en # rest \<and> parse_hello cd p = Some h \<and>
        lookupAuthorizedDevice (he_deviceKeyId h) (keyring_after B E le pre f0) = Inr (Some dev) \<and>
        ad_revokedAt dev = None \<and> so_sessionId opts = Some sid \<and>
        deviceAuthMessage sid hostId (he_deviceKeyId h) = Some m \<and>
        ec_verify E (b64_decode B (he_deviceAuth h)) m (b64_decode B (ad_publicKey dev)) = Some True)"

lemma let_pass_more: "let_pass cd opts B E le hostId f0 evs \<Longrightarrow> let_pass cd opts B E le hostId f0 (evs @ [e])"
  unfolding let_pass_def by (metis append.assoc append_Cons)

lemma verify_sound:
  assumes "buildVerifyDevice B E hostId f claim"
  shows "\<exists>dev m. lookupAuthorizedDevice (dc_deviceKeyId claim) f = Inr (Some dev) \<and> ad_revokedAt dev = None \<and>
    deviceAuthMessage (dc_sessionId claim) hostId (dc_deviceKeyId claim) = Some m \<and>
    ec_verify E (b64_decode B (dc_deviceAuth claim)) m (b64_decode B (ad_publicKey dev)) = Some True"
  using assms by (auto simp: buildVerifyDevice_def Let_def split: sum.splits option.splits if_splits)

subsection \<open>The history\<close>

definition guard_history ::
  "'j codec \<Rightarrow> serve_options \<Rightarrow> base64 \<Rightarrow> ecdsa \<Rightarrow> (string \<Rightarrow> string \<Rightarrow> bool) \<Rightarrow> string \<Rightarrow> json_file \<Rightarrow>
   ('o, 'm) guard_event list \<Rightarrow> ('j, 'o, 'm) guarded \<Rightarrow> bool" where
  "guard_history cd opts B E le hostId f0 evs g \<longleftrightarrow>
     gu_file g = keyring_after B E le evs f0 \<and>
     (\<exists>cs. served_history cd opts cs (gu_conn g) \<and> filter control_frame cs = frames_of evs \<and>
        (\<forall>v en. VerdictEv (Some v) en \<in> set cs \<longrightarrow> gu_lookup g = Some v)) \<and>
     (gu_lookup g = Some True \<longrightarrow> let_pass cd opts B E le hostId f0 evs)"

lemma first_frame:
  assumes "greeted cd cs h en post"
  shows "\<exists>p rest. filter control_frame cs = ControlFrameEv p en # rest \<and> parse_hello cd p = Some h"
proof -
  obtain pre p where "cs = pre @ ControlFrameEv p en # post" "\<not> list_ex control_frame pre" "parse_hello cd p = Some h"
    using assms by (auto simp: greeted_def)
  moreover from this(2) have "filter control_frame pre = []" by (auto simp: filter_empty_conv list_ex_iff)
  ultimately show ?thesis by simp
qed

lemma lookup_passes:
  assumes hist: "served_history cd opts cs (gu_conn g)" "filter control_frame cs = frames_of evs"
    and disk: "gu_file g = keyring_after B E le evs f0"
    and ph: "sv_phase (gu_conn g) = VerifyingDevice" "sv_hello (gu_conn g) = Some h"
    and claim: "claim_of opts h = Some claim" "buildVerifyDevice B E hostId (gu_file g) claim"
  shows "let_pass cd opts B E le hostId f0 (evs @ [LookupEv])"
proof -
  obtain en post where greet: "greeted cd cs h en post"
    using hist(1) ph by (auto simp: served_history_def)
  then obtain p rest where "frames_of evs = ControlFrameEv p en # rest" "parse_hello cd p = Some h"
    using first_frame [OF greet] hist(2) by auto
  moreover obtain sid where sid: "so_sessionId opts = Some sid"
      "claim = \<lparr>dc_deviceKeyId = he_deviceKeyId h, dc_deviceAuth = he_deviceAuth h, dc_sessionId = sid\<rparr>"
    using claim(1) by (auto simp: claim_of_def split: option.splits)
  moreover obtain dev m where "lookupAuthorizedDevice (he_deviceKeyId h) (keyring_after B E le evs f0) = Inr (Some dev)"
      "ad_revokedAt dev = None" "deviceAuthMessage sid hostId (he_deviceKeyId h) = Some m"
      "ec_verify E (b64_decode B (he_deviceAuth h)) m (b64_decode B (ad_publicKey dev)) = Some True"
    using verify_sound [OF claim(2)] sid(2) disk by auto
  ultimately show ?thesis unfolding let_pass_def
    by (intro exI [of _ evs] exI [of _ "[]"] exI [of _ p] exI [of _ en] exI [of _ rest] exI [of _ h] exI [of _ dev]
        exI [of _ sid] exI [of _ m]) simp
qed

lemma serve_more:
  assumes "served_history cd opts cs c"
  shows "served_history cd opts (cs @ [e]) (serve_step em cd opts e c)"
  using assms by (rule connection_history.step_hist)

lemma guard_step_history:
  assumes hist: "guard_history cd opts B E le hostId f0 evs g"
  shows "guard_history cd opts B E le hostId f0 (evs @ [ev]) (guard_step em cd opts B E le hostId ev g)"
proof -
  obtain cs where cs: "served_history cd opts cs (gu_conn g)" "filter control_frame cs = frames_of evs"
      "\<forall>v en. VerdictEv (Some v) en \<in> set cs \<longrightarrow> gu_lookup g = Some v"
    using hist by (auto simp: guard_history_def)
  have disk: "gu_file g = keyring_after B E le evs f0" using hist by (simp add: guard_history_def)
  have pass: "gu_lookup g = Some True \<longrightarrow> let_pass cd opts B E le hostId f0 (evs @ [ev])"
    using hist let_pass_more by (auto simp: guard_history_def)
  have keep: "guard_history cd opts B E le hostId f0 (evs @ [ev]) d"
    if "gu_file d = keyring_event B E le ev (gu_file g)" "gu_conn d = gu_conn g" "frames_of [ev] = []" "gu_lookup d = gu_lookup g" for d
    using that cs disk pass unfolding guard_history_def by auto
  show ?thesis
  proof (cases ev)
    case (EnrollEv e)
    then show ?thesis by (intro keep) (simp_all add: guard_step_def split: sum.split)
  next
    case (RevokeEv d now)
    then show ?thesis by (intro keep) (auto simp: guard_step_def split: sum.split)
  next
    case LookupEv
    show ?thesis
    proof (cases "\<exists>h claim. sv_phase (gu_conn g) = VerifyingDevice \<and> sv_hello (gu_conn g) = Some h \<and> claim_of opts h = Some claim \<and> gu_lookup g = None")
      case False
      then have "guard_step em cd opts B E le hostId ev g = g"
        using LookupEv by (auto simp: guard_step_def split: conn_phase.split option.split)
      then show ?thesis using LookupEv keep [of g] by simp
    next
      case True
      then obtain h claim where h: "sv_phase (gu_conn g) = VerifyingDevice" "sv_hello (gu_conn g) = Some h"
          "claim_of opts h = Some claim" "gu_lookup g = None" by blast
      then have step: "guard_step em cd opts B E le hostId ev g = g\<lparr>gu_lookup := Some (buildVerifyDevice B E hostId (gu_file g) claim)\<rparr>"
        using LookupEv by (simp add: guard_step_def)
      have "let_pass cd opts B E le hostId f0 (evs @ [LookupEv])" if "buildVerifyDevice B E hostId (gu_file g) claim"
        by (rule lookup_passes [OF cs(1,2) disk h(1-3) that])
      then show ?thesis using cs disk h(4) LookupEv unfolding step guard_history_def by auto
    qed
  next
    case (DeliverEv en)
    show ?thesis
    proof (cases "gu_lookup g")
      case None
      then show ?thesis using DeliverEv keep [of g] by (simp add: guard_step_def)
    next
      case (Some v)
      then have step: "guard_step em cd opts B E le hostId ev g = g\<lparr>gu_conn := serve_step em cd opts (VerdictEv (Some v) en) (gu_conn g)\<rparr>"
        using DeliverEv by (simp add: guard_step_def)
      have "served_history cd opts (cs @ [VerdictEv (Some v) en]) (serve_step em cd opts (VerdictEv (Some v) en) (gu_conn g))"
        using cs(1) by (rule serve_more)
      moreover have "gu_lookup g = Some w" if "VerdictEv (Some w) en' \<in> set (cs @ [VerdictEv (Some v) en])" for w en'
        using that cs(3) Some by (cases "VerdictEv (Some w) en' \<in> set cs") (blast, simp)
      ultimately show ?thesis using cs(2) disk pass DeliverEv unfolding step guard_history_def
        by (intro conjI exI [of _ "cs @ [VerdictEv (Some v) en]"]) simp_all
    qed
  next
    case (PeerEv e)
    show ?thesis
    proof (cases "is_verdict e")
      case True
      then have "\<not> control_frame e" by (cases e) simp_all
      then show ?thesis using True PeerEv keep [of g] by (simp add: guard_step_def)
    next
      case False
      then have step: "guard_step em cd opts B E le hostId ev g = g\<lparr>gu_conn := serve_step em cd opts e (gu_conn g)\<rparr>"
        using PeerEv by (simp add: guard_step_def)
      have "gu_lookup g = Some w" if "VerdictEv (Some w) en' \<in> set (cs @ [e])" for w en'
        using that cs(3) False by (cases "VerdictEv (Some w) en' \<in> set cs") (blast, auto)
      then show ?thesis using serve_more [OF cs(1), of e em] cs(2) disk pass PeerEv unfolding step guard_history_def
        by (intro conjI exI [of _ "cs @ [e]"]) simp_all
    qed
  qed
qed

interpretation guard: history_machine "guard_step em cd opts B E le hostId" "guard_history cd opts B E le hostId f0"
  for em cd opts B E le hostId f0
  by unfold_locales (rule guard_step_history)

lemma guard_run_history:
  "guard_history cd opts B E le hostId f0 evs
     (fold (guard_step em cd opts B E le hostId) evs
       \<lparr>gu_file = f0, gu_lookup = None, gu_conn = serveConnection viewer heap\<rparr>)"
proof (rule guard.run_hist)
  have "served_history cd opts [] (serveConnection viewer heap)"
    using serve_run_history [of cd opts "[]"] by simp
  then show "guard_history cd opts B E le hostId f0 []
      \<lparr>gu_file = f0, gu_lookup = None, gu_conn = serveConnection viewer heap\<rparr>"
    unfolding guard_history_def by (auto intro!: exI [of _ "[]"])
qed

subsection \<open>Operations that interleave\<close>

text \<open>Each operation reads the whole file, waits, and writes the whole file: what another wrote in between
  is gone. \<open>start_op\<close> is the read, \<open>finish_op\<close> the write.\<close>

definition start_op :: "json_file \<Rightarrow> authorized_device list option" where
  "start_op f = (case readAuthorizedDevices f of Inl _ \<Rightarrow> None | Inr ds \<Rightarrow> Some ds)"

definition finish_enroll :: "(string \<Rightarrow> string \<Rightarrow> bool) \<Rightarrow> authorized_device \<Rightarrow> authorized_device list \<Rightarrow> json_file" where
  "finish_enroll le e ds = print_store ''devices'' print_device (put_entry le ad_deviceKeyId e ds)"

lemma enroll_in_two_steps:
  "writeAuthorizedDevice B E le e f = Inr g \<Longrightarrow> \<exists>ds. start_op f = Some ds \<and> g = finish_enroll le e ds"
  by (auto simp: writeAuthorizedDevice_def start_op_def finish_enroll_def Let_def split: if_splits sum.splits)

end
