(* ===== verification/TrustTheorems.thy ===== *)
theory TrustTheorems
  imports Gate ServeTheorems
begin

text \<open>
  The properties of the trust files: a pin changes only by hand, only enrolled devices steer, and a
  revocation holds until the ceremony is repeated; with what is lost when the files are written at once,
  and the entry that makes a file unreadable.
\<close>

subsection \<open>Toy codecs\<close>

definition toy_ecdsa :: ecdsa where
  "toy_ecdsa = \<lparr>ec_valid = (\<lambda>k. True), ec_verify = (\<lambda>s m k. Some (s = take 64 m))\<rparr>"

lemma utf8_of_bytes: "utf8 (map (\<lambda>b. char_of (unat b)) bs) = bs"
proof (induction bs)
  case (Cons b bs)
  have "(of_nat (of_char (char_of (unat b) :: char)) :: byte) = b"
    using unat_byte_bound [of b] by (simp add: of_char_of)
  then show ?case using Cons by (simp add: utf8_def)
qed (simp add: utf8_def)

lemma toy_base64_correct: "base64_correct toy_base64"
  by (auto simp: base64_correct_def toy_base64_def utf8_of_bytes)

subsection \<open>Pins\<close>

lemma knownHostEntry_ok:
  "base64_correct B \<Longrightarrow> hostId \<noteq> [] \<Longrightarrow> key \<noteq> [] \<Longrightarrow> label \<noteq> [] \<Longrightarrow> now \<noteq> [] \<Longrightarrow> known_host_ok (knownHostEntry B hostId key label now)"
  by (simp add: known_host_ok_def knownHostEntry_def encodeKey_def base64_correct_def)

lemma first_use:
  assumes "hosts_sound f" and B: "base64_correct B" and "now \<noteq> []" and "hostId \<noteq> []"
    and key: "decodeKey B apiKey = Some key"
    and wr: "writeKnownHost B le (knownHostEntry B hostId key ''trusted on first use'' now) f = Inr g"
  shows "hosts_sound g \<and> (\<exists>e. lookupKnownHost hostId g = Inr (Some e) \<and> kh_key e = apiKey) \<and>
    (\<forall>i. i \<noteq> hostId \<longrightarrow> lookupKnownHost i g = lookupKnownHost i f)"
proof -
  have k: "encodeKey B key = apiKey" "length key = 32" using decodeKey_Some [OF key] by auto
  then have "key \<noteq> []" by auto
  then have "known_host_ok (knownHostEntry B hostId key ''trusted on first use'' now)"
    using B assms(3,4) by (intro knownHostEntry_ok) simp_all
  from write_host [OF assms(1) this wr] show ?thesis using k(1) by (auto simp: knownHostEntry_def)
qed

text \<open>A pin never heals. For a host this machine knows, the key it dials with is the pinned one, and if
  the control plane names another there is an error, whatever a human would say, and the file stays;
  for an unknown host there is a pin only behind an explicit yes at a terminal, it is exactly the key
  that was offered, and from then on any other key is refused. No other host's pin is touched.\<close>

lemma pins_never_heal:
  assumes "hosts_sound f" and "base64_correct B" and "now \<noteq> []" and "hostId \<noteq> []"
    and "resolveRemotePin B le now human hostId apiKey f = (r, g)"
  shows "hosts_sound g \<and> (\<forall>i. i \<noteq> hostId \<longrightarrow> lookupKnownHost i g = lookupKnownHost i f) \<and>
    (\<forall>k. lookupKnownHost hostId f = Inr (Some k) \<longrightarrow>
       g = f \<and> (kh_key k \<noteq> apiKey \<longrightarrow> r = Inl KeyMismatch) \<and> (\<forall>p. r = Inr p \<longrightarrow> decodeKey B (kh_key k) = Some (rp_key p))) \<and>
    (lookupKnownHost hostId f = Inr None \<longrightarrow>
       (\<forall>p. r = Inr p \<longrightarrow> rp_prompted p \<and> (\<exists>a. human = Some a \<and> confirm a)) \<and> ((\<exists>x. r = Inl x) \<longrightarrow> g = f)) \<and>
    (\<forall>p. r = Inr p \<longrightarrow> encodeKey B (rp_key p) = apiKey \<and>
       (\<forall>other human' now'. other \<noteq> apiKey \<longrightarrow> resolveRemotePin B le now' human' hostId other g = (Inl KeyMismatch, g)))"
proof -
  obtain hs where hs: "readKnownHosts f = Inr hs" using assms(1) by (auto simp: hosts_sound_def)
  show ?thesis
  proof (cases "find_entry kh_hostId hostId hs")
    case (Some k)
    then have look: "lookupKnownHost hostId f = Inr (Some k)" using hs by (simp add: lookupKnownHost_def)
    then have "g = f" using assms(5) by (simp add: resolveRemotePin_def split: if_splits option.splits)
    moreover have "kh_key k = apiKey \<and> decodeKey B apiKey = Some (rp_key p)" if "r = Inr p" for p
      using assms(5) look that by (auto simp: resolveRemotePin_def split: if_splits option.splits)
    ultimately show ?thesis using look assms(1,5) decodeKey_Some
      by (auto simp: resolveRemotePin_def split: if_splits option.splits)
  next
    case None
    then have look: "lookupKnownHost hostId f = Inr None" using hs by (simp add: lookupKnownHost_def)
    show ?thesis
    proof (cases r)
      case (Inl x)
      then have "g = f" using assms(5) look by (auto simp: resolveRemotePin_def split: if_splits option.splits sum.splits)
      then show ?thesis using look Inl assms(1) by simp
    next
      case (Inr p)
      obtain key a where key: "decodeKey B apiKey = Some key" "p = \<lparr>rp_key = key, rp_prompted = True\<rparr>" "human = Some a" "confirm a"
          "writeKnownHost B le (knownHostEntry B hostId key ''trusted on first use'' now) f = Inr g"
        using assms(5) look Inr by (auto simp: resolveRemotePin_def split: if_splits option.splits sum.splits)
      note new = first_use [OF assms(1-4) key(1,5)]
      then obtain e where "lookupKnownHost hostId g = Inr (Some e)" "kh_key e = apiKey" by blast
      then have "resolveRemotePin B le now' human' hostId other g = (Inl KeyMismatch, g)" if "other \<noteq> apiKey" for other human' now'
        using that by (simp add: resolveRemotePin_def)
      then show ?thesis using new look key Inr decodeKey_Some [OF key(1)] by simp
    qed
  qed
qed

lemma pins_never_heal_witness:
  "\<exists>p g. resolveRemotePin toy_base64 (\<lambda>a b. True) ''now'' (Some (Some ''Yes'')) ''host_1'' (replicate 32 CHR ''k'') Absent = (Inr p, g) \<and>
     resolveRemotePin toy_base64 (\<lambda>a b. True) ''now'' (Some (Some ''y'')) ''host_1'' (replicate 32 CHR ''x'') g = (Inl KeyMismatch, g)"
proof -
  have sound: "hosts_sound Absent" by (simp add: hosts_sound_def readKnownHosts_def read_store_def)
  have "(char_of (107 :: nat) :: char) = CHR ''k''" by code_simp
  then have key: "decodeKey toy_base64 (replicate 32 CHR ''k'') = Some (replicate 32 107)"
    by (simp add: decodeKey_def encodeKey_def toy_base64_def utf8_def Let_def)
  have yes: "confirm (Some ''Yes'')" by code_simp
  have again: "decodeKey toy_base64 (kh_key (knownHostEntry toy_base64 h (replicate 32 107) l n)) = Some (replicate 32 107)" for h l n
    using decode_encodeKey [OF toy_base64_correct, of "replicate 32 107"] by (simp add: knownHostEntry_def)
  obtain p g where run: "resolveRemotePin toy_base64 (\<lambda>a b. True) ''now'' (Some (Some ''Yes'')) ''host_1'' (replicate 32 CHR ''k'') Absent = (Inr p, g)"
    using key yes again
    by (auto simp: resolveRemotePin_def lookupKnownHost_def readKnownHosts_def read_store_def find_entry_def writeKnownHost_def)
  from pins_never_heal [OF sound toy_base64_correct _ _ run] have
    "\<forall>other human' now'. other \<noteq> replicate 32 CHR ''k'' \<longrightarrow>
       resolveRemotePin toy_base64 (\<lambda>a b. True) now' human' ''host_1'' other g = (Inl KeyMismatch, g)" by simp
  moreover have "replicate 32 CHR ''x'' \<noteq> replicate 32 CHR ''k''" by (simp add: replicate_eq_replicate)
  ultimately show ?thesis using run by blast
qed

subsection \<open>Devices\<close>

text \<open>C31: only enrolled devices steer. Join a host's connection to its keyring, with enrolments and
  revocations coming in between at any time, and let the gate answer when it likes. Whatever the
  connection did for its peer, the first control frame was a hello, and when the gate looked, the
  keyring held the device the hello names, not revoked, and the hello's signature verified under that
  device's key over the statement of this channel's session, this host and that device.\<close>

theorem only_enrolled_devices_steer:
  assumes "g = fold (guard_step em cd opts B E le hostId) evs
      \<lparr>gu_file = f0, gu_lookup = None, gu_conn = serveConnection viewer heap\<rparr>"
    and "so_verifyDevice opts" and "\<forall>p en h. PeerEv (ControlFrameEv p en) \<in> set evs \<longrightarrow> en_verdict en h = Pending"
    and "SendResponse r \<in> set (sv_out (gu_conn g)) \<or> SendBinary b \<in> set (sv_out (gu_conn g)) \<or>
      CallReserve spec \<in> set (sv_out (gu_conn g)) \<or> CallClaim ref \<in> set (sv_out (gu_conn g)) \<or>
      CallLaunchStart lp \<in> set (sv_out (gu_conn g))"
  shows "\<exists>pre post p en rest h dev sid m.
    evs = pre @ LookupEv # post \<and> frames_of pre = ControlFrameEv p en # rest \<and> parse_hello cd p = Some h \<and>
    lookupAuthorizedDevice (he_deviceKeyId h) (keyring_after B E le pre f0) = Inr (Some dev) \<and> ad_revokedAt dev = None \<and>
    so_sessionId opts = Some sid \<and> deviceAuthMessage sid hostId (he_deviceKeyId h) = Some m \<and>
    ec_verify E (b64_decode B (he_deviceAuth h)) m (b64_decode B (ad_publicKey dev)) = Some True"
proof -
  have hist: "guard_history cd opts B E le hostId f0 evs g" unfolding assms(1) by (rule guard_run_history)
  then obtain cs where cs: "served_history cd opts cs (gu_conn g)" "filter control_frame cs = frames_of evs"
      "\<forall>v en. VerdictEv (Some v) en \<in> set cs \<longrightarrow> gu_lookup g = Some v"
    unfolding guard_history_def by blast
  have frames: "e \<in> set (frames_of evs) \<Longrightarrow> PeerEv e \<in> set evs" for e
    by (induction evs rule: frames_of.induct) (auto split: if_splits)
  obtain x where x: "x \<in> set (sv_out (gu_conn g))" "is_service x" using assms(4) by fastforce
  then obtain h where "admitted cd opts cs h" using cs(1) unfolding served_history_def by blast
  then obtain en post where adm: "greeted cd cs h en post"
      "en_verdict en h = Admit \<or> (\<exists>en'. VerdictEv (Some True) en' \<in> set post)"
    using assms(2) unfolding admitted_def by blast
  obtain pre p where pre: "cs = pre @ ControlFrameEv p en # post" using adm(1) by (auto simp: greeted_def)
  then have "ControlFrameEv p en \<in> set (frames_of evs)" using cs(2) [symmetric] by simp
  then have "en_verdict en h = Pending" using frames assms(3) by blast
  then obtain en' where "VerdictEv (Some True) en' \<in> set cs" using adm(2) pre by auto
  then have "let_pass cd opts B E le hostId f0 evs" using cs(3) hist unfolding guard_history_def by blast
  then show ?thesis unfolding let_pass_def .
qed

text \<open>The witness: a device is enrolled, says hello, and is answered.\<close>

definition toy_id :: string where
  "toy_id = ''0123456789abcdef''"

definition toy_device :: authorized_device where
  "toy_device = \<lparr>ad_deviceKeyId = toy_id, ad_publicKey = replicate 65 CHR ''k'', ad_label = ''phone'',
     ad_enrolledAt = ''now'', ad_revokedAt = None\<rparr>"

definition toy_session :: bytes where
  "toy_session = replicate 32 1"

definition toy_statement :: bytes where
  "toy_statement = the (deviceAuthMessage toy_session ''host_1'' toy_id)"

definition toy_hello :: hello where
  "toy_hello = demo_hello\<lparr>he_deviceKeyId := toy_id, he_deviceAuth := b64_encode toy_base64 (take 64 toy_statement)\<rparr>"

definition toy_codec :: "rpc_params codec" where
  "toy_codec = demo_codec\<lparr>wc_hello := (\<lambda>p. if p = [0] then Some toy_hello else None)\<rparr>"

definition toy_serving :: serve_options where
  "toy_serving = demo_serving\<lparr>so_sessionId := Some toy_session\<rparr>"

abbreviation toy_guard :: "(unit, string) guard_event list \<Rightarrow> (rpc_params, unit, string) guarded" where
  "toy_guard evs \<equiv> fold (guard_step echo_emulator toy_codec toy_serving toy_base64 toy_ecdsa (\<lambda>a b. True) ''host_1'') evs
     \<lparr>gu_file = Absent, gu_lookup = None, gu_conn = serveConnection 5 (\<lambda>_. demo_session)\<rparr>"

abbreviation toy_events :: "(unit, string) guard_event list" where
  "toy_events \<equiv> [EnrollEv toy_device, PeerEv (ControlFrameEv [0] (demo_env Pending)), LookupEv, DeliverEv (demo_env Pending),
     PeerEv (ControlFrameEv [2] (demo_env Pending))]"

lemma toy_pattern: "device_key_id_pattern toy_id"
  by code_simp

lemma toy_compat: "evaluateCompat PROTOCOL_VERSION = CompatOk"
  by code_simp

lemma toy_statement_eq: "deviceAuthMessage toy_session ''host_1'' toy_id = Some toy_statement \<and> 64 \<le> length toy_statement"
  by (simp add: toy_statement_def deviceAuthMessage_def toy_session_def DEVICE_AUTH_SESSION_ID_BYTES_def DEVICE_AUTH_LABEL_def toy_id_def)

lemma toy_device_ok: "device_ok toy_device"
  by (simp add: device_ok_def toy_device_def toy_id_def)

lemma toy_key: "b64_decode toy_base64 (ad_publicKey toy_device) = replicate 65 107"
  by (simp add: toy_base64_def toy_device_def utf8_def)

lemma toy_enrolled:
  "\<exists>f. writeAuthorizedDevice toy_base64 toy_ecdsa (\<lambda>a b. True) toy_device Absent = Inr f \<and>
     lookupAuthorizedDevice toy_id f = Inr (Some toy_device)"
proof -
  have "(char_of (107 :: nat) :: char) = CHR ''k''" by code_simp
  then have "b64_encode toy_base64 (b64_decode toy_base64 (ad_publicKey toy_device)) = ad_publicKey toy_device"
    unfolding toy_key by (simp add: toy_base64_def toy_device_def)
  then obtain f where f: "writeAuthorizedDevice toy_base64 toy_ecdsa (\<lambda>a b. True) toy_device Absent = Inr f"
    using toy_key by (auto simp: writeAuthorizedDevice_def Let_def DEVICE_PUBLIC_KEY_BYTES_def toy_ecdsa_def readAuthorizedDevices_def read_store_def)
  have "keyring_sound Absent" by (simp add: keyring_sound_def readAuthorizedDevices_def read_store_def)
  from write_device [OF this toy_device_ok f] have "lookupAuthorizedDevice toy_id f = Inr (Some toy_device)"
    by (simp add: toy_device_def)
  then show ?thesis using f by blast
qed

abbreviation toy_claim :: device_claim where
  "toy_claim \<equiv> \<lparr>dc_deviceKeyId = toy_id, dc_deviceAuth = b64_encode toy_base64 (take 64 toy_statement), dc_sessionId = toy_session\<rparr>"

lemma toy_verifies:
  assumes "lookupAuthorizedDevice toy_id f = Inr (Some toy_device)"
  shows "buildVerifyDevice toy_base64 toy_ecdsa ''host_1'' f toy_claim"
proof -
  have "b64_decode toy_base64 (b64_encode toy_base64 (take 64 toy_statement)) = take 64 toy_statement"
    using toy_base64_correct by (simp add: base64_correct_def)
  moreover have "ad_revokedAt toy_device = None" by (simp add: toy_device_def)
  ultimately show ?thesis
    using assms toy_key toy_statement_eq
    by (simp add: buildVerifyDevice_def Let_def DEVICE_PUBLIC_KEY_BYTES_def DEVICE_AUTH_SIGNATURE_BYTES_def toy_ecdsa_def)
qed

lemma toy_answered: "\<exists>r. SendResponse r \<in> set (sv_out (gu_conn (toy_guard toy_events)))"
proof -
  obtain f where f: "writeAuthorizedDevice toy_base64 toy_ecdsa (\<lambda>a b. True) toy_device Absent = Inr f"
      "lookupAuthorizedDevice toy_id f = Inr (Some toy_device)"
    using toy_enrolled by blast
  let ?c0 = "serveConnection 5 (\<lambda>_. demo_session) :: (rpc_params, unit, string) served"
  define c1 where "c1 = onControl echo_emulator toy_codec toy_serving (demo_env Pending) [0] ?c0"
  have hello: "parse_hello toy_codec [0] = Some toy_hello" "he_protocol toy_hello = PROTOCOL_VERSION"
      "he_deviceKeyId toy_hello = toy_id" "he_deviceAuth toy_hello = b64_encode toy_base64 (take 64 toy_statement)"
      "so_sessionId toy_serving = Some toy_session" "so_verifyDevice toy_serving"
    using toy_pattern by (simp_all add: parse_hello_def toy_codec_def toy_hello_def demo_hello_def toy_serving_def)
  have c1: "sv_phase c1 = VerifyingDevice" "sv_hello c1 = Some toy_hello" "sv_buffered c1 = []" "sv_closed c1 = False"
      "sv_pending c1 = []"
    using hello toy_compat
    by (simp_all add: c1_def onControl_def handleHello_def runDeviceGate_def send_guarded_def emit_out_def serveConnection_def)
  define c2 where "c2 = serve_step echo_emulator toy_codec toy_serving (VerdictEv (Some True) (demo_env Pending)) c1"
  have c2: "sv_phase c2 = Serving" "sv_closed c2 = False"
      "sv_negotiated c2 = negotiate (servedCapabilities toy_serving) (he_capabilities toy_hello)"
    using c1 by (simp_all add: c2_def verdict_settled_def admit_def)
  have claim: "claim_of toy_serving toy_hello = Some toy_claim" using hello by (simp add: claim_of_def)
  have "gu_conn (toy_guard toy_events) = onControl echo_emulator toy_codec toy_serving (demo_env Pending) [2] c2"
    using f c1 toy_verifies [OF f(2)] claim by (simp add: guard_step_def c2_def flip: c1_def)
  moreover have "\<exists>r. SendResponse r \<in> set (sv_out (onControl echo_emulator toy_codec toy_serving (demo_env Pending) [2] c2))"
  proof -
    have "wc_request toy_codec [2] = Some (''2'', ''launch.options'', OtherParams)"
      by (simp add: toy_codec_def demo_codec_def)
    moreover have "LAUNCH \<notin> set (sv_negotiated c2)"
      unfolding c2(3) by (simp add: toy_hello_def demo_hello_def LAUNCH_def PTY_STREAM_def)
    moreover have "aget METHODS ''launch.options'' = Some LaunchOptions" by code_simp
    moreover have "safeParse toy_codec LaunchOptions OtherParams = Some OtherParams"
      by (simp add: safeParse_def toy_codec_def demo_codec_def valid_params_def)
    ultimately show ?thesis using c2(1,2)
      by (simp add: onControl_def handleRpcPayload_def dispatch_request_def serve_method_def gated_def capabilityAllows_def
          send_response_def send_guarded_eq) blast
  qed
  ultimately show ?thesis by simp
qed

theorem only_enrolled_devices_steer_witness:
  "\<exists>f dev. lookupAuthorizedDevice toy_id f = Inr (Some dev) \<and> ad_revokedAt dev = None \<and>
     ec_verify toy_ecdsa (take 64 toy_statement) toy_statement (b64_decode toy_base64 (ad_publicKey dev)) = Some True"
proof -
  obtain r where r: "SendResponse r \<in> set (sv_out (gu_conn (toy_guard toy_events)))" using toy_answered by blast
  have hello: "parse_hello toy_codec p = Some h \<Longrightarrow> h = toy_hello" for p h
    by (auto simp: parse_hello_def toy_codec_def split: if_splits)
  have id: "he_deviceKeyId toy_hello = toy_id" "b64_decode toy_base64 (he_deviceAuth toy_hello) = take 64 toy_statement"
      "so_sessionId toy_serving = Some toy_session"
    using toy_base64_correct by (simp_all add: toy_hello_def toy_serving_def base64_correct_def)
  have "so_verifyDevice toy_serving" by (simp add: toy_serving_def)
  moreover have "\<forall>p en h. PeerEv (ControlFrameEv p en) \<in> set toy_events \<longrightarrow> en_verdict en h = Pending" by simp
  ultimately show ?thesis
    using only_enrolled_devices_steer [OF refl _ _ disjI1 [OF r]] hello id toy_statement_eq by fastforce
qed

subsection \<open>Revocation\<close>

text \<open>What may happen to a keyring while a device stays out: entries that the reader would have are enrolled
  under other ids, and any device is revoked.\<close>

fun spares :: "string \<Rightarrow> ('o, 'm) guard_event \<Rightarrow> bool" where
  "spares d (EnrollEv e) = (device_ok e \<and> ad_deviceKeyId e \<noteq> d)"
| "spares d (RevokeEv i now) = (now \<noteq> [])"
| "spares d ev = True"

definition revoked_in :: "string \<Rightarrow> json_file \<Rightarrow> bool" where
  "revoked_in d f \<longleftrightarrow> keyring_sound f \<and> (\<exists>e. lookupAuthorizedDevice d f = Inr (Some e) \<and> ad_revokedAt e \<noteq> None)"

lemma spares_revoked:
  assumes "revoked_in d f" and "spares d ev"
  shows "revoked_in d (keyring_event B E le ev f)"
proof (cases ev)
  case (EnrollEv e)
  then show ?thesis using assms write_device [of f e B E le] by (auto simp: revoked_in_def split: sum.split)
next
  case (RevokeEv i now)
  show ?thesis
  proof (cases "revokeAuthorizedDevice i now f")
    case (Inr r)
    then obtain b g where "revokeAuthorizedDevice i now f = Inr (b, g)" by (cases r) simp
    then show ?thesis using assms RevokeEv revoke_device [of f now i b g] by (auto simp: revoked_in_def)
  qed (use assms RevokeEv in simp)
qed (use assms in simp_all)

interpretation revoked_keyring: machine "keyring_event B E le" "spares d" "revoked_in d" for B E le d
  by unfold_locales (rule spares_revoked)

text \<open>C32: a revocation holds. Once a device is revoked, no claim under its id verifies, whatever the signature,
  the session and the host, through every later enrolment of other devices and every revocation, as
  long as the operations follow one another; only enrolling that very device again lets it back in.\<close>

theorem revocation_holds:
  assumes "keyring_sound f" and "revokeAuthorizedDevice d now f = Inr (True, g)" and "now \<noteq> []"
    and "list_all (spares d) evs" and "dc_deviceKeyId claim = d"
  shows "\<not> buildVerifyDevice B E hostId (keyring_after B' E' le evs g) claim"
proof -
  have after: "keyring_sound g \<and> (\<forall>i. lookupAuthorizedDevice i g =
      (case lookupAuthorizedDevice i f of
         Inr (Some e) \<Rightarrow> Inr (Some (if i = d then e\<lparr>ad_revokedAt := Some now\<rparr> else e)) | r \<Rightarrow> r))"
    and "lookupAuthorizedDevice d f \<noteq> Inr None"
    using revoke_device [OF assms(1,3,2)] by simp_all
  moreover obtain ds where "readAuthorizedDevices f = Inr ds" using assms(1) by (auto simp: keyring_sound_def)
  ultimately obtain e where "lookupAuthorizedDevice d f = Inr (Some e)" by (auto simp: lookupAuthorizedDevice_def)
  then have "revoked_in d g" using after by (simp add: revoked_in_def)
  from revoked_keyring.run_inv [OF this assms(4), of B' E' le]
  show ?thesis using assms(5) by (auto simp: revoked_in_def dest: verify_sound)
qed

theorem revocation_holds_witness:
  "\<exists>f g. buildVerifyDevice toy_base64 toy_ecdsa ''host_1'' f toy_claim \<and> revokeAuthorizedDevice toy_id ''later'' f = Inr (True, g) \<and>
     \<not> buildVerifyDevice toy_base64 toy_ecdsa ''host_1'' (keyring_after toy_base64 toy_ecdsa (\<lambda>a b. True)
         [EnrollEv (toy_device\<lparr>ad_deviceKeyId := ''f''\<rparr>)] g) toy_claim"
proof -
  obtain f where f: "writeAuthorizedDevice toy_base64 toy_ecdsa (\<lambda>a b. True) toy_device Absent = Inr f"
      "lookupAuthorizedDevice toy_id f = Inr (Some toy_device)"
    using toy_enrolled by blast
  have "keyring_sound Absent" by (simp add: keyring_sound_def readAuthorizedDevices_def read_store_def)
  then have sound: "keyring_sound f" using write_device [OF _ toy_device_ok f(1)] by blast
  obtain g where g: "revokeAuthorizedDevice toy_id ''later'' f = Inr (True, g)"
    using f(2) by (auto simp: revokeAuthorizedDevice_def lookupAuthorizedDevice_def split: sum.splits)
  have spare: "list_all (spares toy_id) [EnrollEv (toy_device\<lparr>ad_deviceKeyId := ''f''\<rparr>) :: (unit, unit) guard_event]"
    by (simp add: device_ok_def toy_device_def toy_id_def)
  have "\<not> buildVerifyDevice toy_base64 toy_ecdsa ''host_1'' (keyring_after toy_base64 toy_ecdsa (\<lambda>a b. True)
         [EnrollEv (toy_device\<lparr>ad_deviceKeyId := ''f''\<rparr>) :: (unit, unit) guard_event] g) toy_claim"
    by (rule revocation_holds [OF sound g _ spare]) simp_all
  then show ?thesis using toy_verifies [OF f(2)] g by auto
qed

text \<open>But two processes may write at once: an enrolment that read the keyring before a revocation and writes
  behind it lets the revoked device back in.\<close>

lemma interleaved_revocation_is_lost:
  assumes "keyring_sound f" and "start_op f = Some ds" and "revokeAuthorizedDevice d now f = Inr (True, g)"
    and "device_ok e" and "ad_deviceKeyId e \<noteq> d"
  shows "lookupAuthorizedDevice d (finish_enroll le e ds) = lookupAuthorizedDevice d f"
proof -
  have ds: "readAuthorizedDevices f = Inr ds" using assms(2) by (auto simp: start_op_def split: sum.splits)
  then have "list_all device_ok (put_entry le ad_deviceKeyId e ds)"
    using readAuthorizedDevices_ok [OF ds] assms(4) by (intro list_all_put)
  then have "readAuthorizedDevices (finish_enroll le e ds) = Inr (put_entry le ad_deviceKeyId e ds)"
    unfolding finish_enroll_def readAuthorizedDevices_def by (rule keyring.read_print)
  then show ?thesis using assms(1,5) ds by (auto simp: keyring_sound_def lookupAuthorizedDevice_def find_put_entry)
qed

subsection \<open>An entry that locks everyone out\<close>

text \<open>What is written is not checked as what is read. Enrolling a device with an empty label succeeds,
  and from then on the keyring cannot be read: no device verifies any more, and neither enrolling nor
  revoking is possible; in the same way a host trusted with an empty label takes every other pin
  with it. A written file that the reader would have can be read back.\<close>

lemma unlabelled_entry_locks_out:
  shows "keyring_sound f \<Longrightarrow> writeAuthorizedDevice B E le e f = Inr g \<Longrightarrow> ad_label e = [] \<Longrightarrow>
      \<not> buildVerifyDevice B E hostId g claim \<and> (\<exists>x. revokeAuthorizedDevice d now g = Inl x) \<and>
      (\<exists>x. writeAuthorizedDevice B E le e' g = Inl x)"
    and "hosts_sound f \<Longrightarrow> writeKnownHost B le h f = Inr g \<Longrightarrow> kh_label h = [] \<Longrightarrow>
      (\<exists>x. lookupKnownHost i g = Inl x) \<and> (\<exists>x. forgetKnownHost i g = Inl x) \<and> (\<exists>x. writeKnownHost B le h' g = Inl x)"
proof -
  assume "keyring_sound f" "writeAuthorizedDevice B E le e f = Inr g" "ad_label e = []"
  then obtain ds where "g = print_store ''devices'' print_device (put_entry le ad_deviceKeyId e ds)"
    by (auto simp: keyring_sound_def writeAuthorizedDevice_def Let_def split: if_splits)
  moreover have "\<not> list_all device_ok (put_entry le ad_deviceKeyId e ds)"
    using \<open>ad_label e = []\<close> by (auto simp: list_all_iff put_entry_def device_ok_def)
  ultimately obtain x where "readAuthorizedDevices g = Inl x"
    unfolding readAuthorizedDevices_def using keyring.read_bad by blast
  then show "\<not> buildVerifyDevice B E hostId g claim \<and> (\<exists>x. revokeAuthorizedDevice d now g = Inl x) \<and>
      (\<exists>x. writeAuthorizedDevice B E le e' g = Inl x)"
    by (simp add: buildVerifyDevice_def lookupAuthorizedDevice_def revokeAuthorizedDevice_def writeAuthorizedDevice_def Let_def)
next
  assume "hosts_sound f" "writeKnownHost B le h f = Inr g" "kh_label h = []"
  then obtain hs where "g = print_store ''hosts'' print_known_host (put_entry le kh_hostId h hs)"
    by (auto simp: hosts_sound_def writeKnownHost_def split: option.splits)
  moreover have "\<not> list_all known_host_ok (put_entry le kh_hostId h hs)"
    using \<open>kh_label h = []\<close> by (auto simp: list_all_iff put_entry_def known_host_ok_def)
  ultimately obtain x where "readKnownHosts g = Inl x"
    unfolding readKnownHosts_def using known_hosts.read_bad by blast
  then show "(\<exists>x. lookupKnownHost i g = Inl x) \<and> (\<exists>x. forgetKnownHost i g = Inl x) \<and> (\<exists>x. writeKnownHost B le h' g = Inl x)"
    by (auto simp: lookupKnownHost_def forgetKnownHost_def writeKnownHost_def split: option.split)
qed

end
