(* ===== verification/Boarding.thy ===== *)
theory Boarding
  imports Texts
begin

text \<open>
  \<open>packages/cli/src/custody/boarded.ts\<close> and \<open>shell-rc.ts\<close>: the line files of boarded and anchored
  repositories, and the managed block in a shell's start-up file. A file is its text, or missing, or it
  cannot be read; what a reader makes of that is its business. The paths of the files and \<open>join\<close> are
  parameters.
\<close>

datatype text_file = NoFile | Faulty | Content string

subsection \<open>List files\<close>

definition parseList :: "string \<Rightarrow> string list" where
  "parseList text = filter (\<lambda>l. l \<noteq> []) (map trim (split_on newline text))"

text \<open>\<open>None\<close> is a fault that is not a missing file.\<close>

definition readList :: "text_file \<Rightarrow> string list option" where
  "readList f = (case f of NoFile \<Rightarrow> Some (parseList []) | Faulty \<Rightarrow> None | Content t \<Rightarrow> Some (parseList t))"

definition writeList :: "string list \<Rightarrow> text_file" where
  "writeList entries = Content (if entries \<noteq> [] then join_with [newline] entries @ [newline] else [])"

definition addToList :: "string \<Rightarrow> text_file \<Rightarrow> text_file option" where
  "addToList entry f =
     (case readList f of
        None \<Rightarrow> None
      | Some es \<Rightarrow> if entry \<in> set es then Some f else Some (writeList (es @ [entry])))"

definition removeFromList :: "string \<Rightarrow> text_file \<Rightarrow> (bool \<times> text_file) option" where
  "removeFromList entry f =
     (case readList f of
        None \<Rightarrow> None
      | Some es \<Rightarrow>
          if entry \<notin> set es then Some (False, f) else Some (True, writeList (filter (\<lambda>e. e \<noteq> entry) es)))"

text \<open>A line that comes back as it was written.\<close>

definition plain_line :: "string \<Rightarrow> bool" where
  "plain_line e \<longleftrightarrow> e \<noteq> [] \<and> trimmed e \<and> newline \<notin> set e"

lemma read_write: "list_all plain_line es \<Longrightarrow> readList (writeList es) = Some es"
proof (cases "es = []")
  case False
  assume ok: "list_all plain_line es"
  have "split_on newline (join_with [newline] es @ [newline]) = es @ [[]]"
    using split_on_append [of newline "join_with [newline] es" "[]"] split_join [OF False, of newline] ok
    by (auto simp: list_all_iff plain_line_def)
  moreover have "map trim es = es" using ok by (induction es) (simp_all add: plain_line_def trimmed_def)
  moreover have "filter (\<lambda>l. l \<noteq> []) es = es" using ok by (auto simp: filter_id_conv list_all_iff plain_line_def)
  ultimately show ?thesis using False by (simp add: readList_def writeList_def parseList_def)
qed (simp add: readList_def writeList_def parseList_def)

lemma parsed_plain: "list_all plain_line (parseList t)"
proof -
  have "newline \<notin> set (trim l)" if "l \<in> set (split_on newline t)" for l
  proof -
    show ?thesis using split_on_members [OF that] set_trim by blast
  qed
  then show ?thesis by (auto simp: parseList_def list_all_iff plain_line_def trim_trim)
qed

lemma readList_plain: "readList f = Some es \<Longrightarrow> list_all plain_line es"
  using parsed_plain by (auto simp: readList_def split: text_file.splits)

subsection \<open>The managed block\<close>

definition RC_BLOCK_OPEN :: string where
  "RC_BLOCK_OPEN = ''# >>> pherry shims >>>''"

definition RC_BLOCK_CLOSE :: string where
  "RC_BLOCK_CLOSE = ''# <<< pherry shims <<<''"

datatype known_shell = Zsh | Bash | Fish

definition detectShell :: "string option \<Rightarrow> known_shell option" where
  "detectShell shell =
     (let name = basename (case shell of None \<Rightarrow> [] | Some s \<Rightarrow> s)
      in if name = ''zsh'' then Some Zsh else if name = ''bash'' then Some Bash
         else if name = ''fish'' then Some Fish else None)"

definition homeRelative :: "string \<Rightarrow> string \<Rightarrow> string" where
  "homeRelative dir home =
     (if take (length home + 1) dir = home @ ''/'' then ''$HOME'' @ drop (length home) dir else dir)"

text \<open>The dash of the comment, in its UTF-8 bytes.\<close>

definition em_dash :: string where
  "em_dash = [CHR 0xE2, CHR 0x80, CHR 0x94]"

definition posix_lines :: "string \<Rightarrow> string list" where
  "posix_lines dirExpr =
     [RC_BLOCK_OPEN,
      ''# Managed by `pherry board` '' @ em_dash @ '' keeps agent launches under custody by putting the'',
      ''# Pherry shims first on PATH. `pherry unboard` (last repo) removes this block.'',
      ''export PATH=\"'' @ dirExpr @ '':$PATH\"'',
      RC_BLOCK_CLOSE]"

definition posixBlock :: "string \<Rightarrow> string" where
  "posixBlock dirExpr = join_with [newline] (posix_lines dirExpr)"

definition fishBlock :: "string \<Rightarrow> string" where
  "fishBlock dirExpr = join_with [newline]
     [RC_BLOCK_OPEN,
      ''# Managed by `pherry board` '' @ em_dash @ '' keeps agent launches under custody by putting the'',
      ''# Pherry shims first on PATH. `pherry unboard` (last repo) deletes this file.'',
      ''if not contains -- \"'' @ dirExpr @ ''\" $PATH'',
      ''    set -gx PATH \"'' @ dirExpr @ ''\" $PATH'',
      ''end'',
      RC_BLOCK_CLOSE]"

text \<open>\<open>readIfPresent\<close> takes every fault for a missing file.\<close>

definition readIfPresent :: "text_file \<Rightarrow> string" where
  "readIfPresent f = (case f of Content t \<Rightarrow> t | _ \<Rightarrow> [])"

datatype rc_result = RcWritten | RcAlready | RcUnsupported string

text \<open>What \<open>ensureShimsOnShellPath\<close> does to the start-up file of the shell, given that file.\<close>

definition ensureShimsOnShellPath :: "string \<Rightarrow> string \<Rightarrow> string option \<Rightarrow> text_file \<Rightarrow> rc_result \<times> text_file" where
  "ensureShimsOnShellPath dir home shell f =
     (let dirExpr = homeRelative dir home
      in case detectShell shell of
           None \<Rightarrow> (RcUnsupported (''export PATH=\"'' @ dirExpr @ '':$PATH\"''), f)
         | Some sh \<Rightarrow>
             let current = readIfPresent f
             in if contains RC_BLOCK_OPEN current then (RcAlready, f)
                else
                  let block = (if sh = Fish then fishBlock dirExpr else posixBlock dirExpr);
                      separator = (if current = [] then [] else if ends_with [newline] current then [newline] else [newline, newline])
                  in (RcWritten, Content (current @ separator @ block @ [newline])))"

text \<open>\<open>findIndex\<close>, from an index on.\<close>

fun find_from :: "nat \<Rightarrow> (string \<Rightarrow> bool) \<Rightarrow> string list \<Rightarrow> nat option" where
  "find_from i P [] = None"
| "find_from i P (l # ls) = (if P l then Some i else find_from (Suc i) P ls)"

definition starts :: "string \<Rightarrow> string \<Rightarrow> bool" where
  "starts p l \<longleftrightarrow> take (length p) l = p"

definition stripBlock :: "string \<Rightarrow> string" where
  "stripBlock content =
     (let ls = split_on newline content
      in case find_from 0 (starts RC_BLOCK_OPEN) ls of
           None \<Rightarrow> content
         | Some op \<Rightarrow>
             (case find_from (Suc op) (starts RC_BLOCK_CLOSE) (drop (Suc op) ls) of
                None \<Rightarrow> content
              | Some cl \<Rightarrow>
                  (let start = (if 0 < op \<and> ls ! (op - 1) = [] then op - 1 else op)
                   in join_with [newline] (take start ls @ drop (Suc cl) ls))))"

text \<open>One round of the loop over the shells; the flag says that the file was taken for wired.\<close>

definition remove_from :: "known_shell \<Rightarrow> text_file \<Rightarrow> bool \<times> text_file" where
  "remove_from sh f =
     (let current = readIfPresent f
      in if \<not> contains RC_BLOCK_OPEN current then (False, f)
         else (True, if sh = Fish then NoFile else Content (stripBlock current)))"

definition removeShimsFromShellPath :: "(known_shell \<Rightarrow> text_file) \<Rightarrow> bool \<times> (known_shell \<Rightarrow> text_file)" where
  "removeShimsFromShellPath fs =
     (list_ex (\<lambda>sh. fst (remove_from sh (fs sh))) [Zsh, Bash, Fish], \<lambda>sh. snd (remove_from sh (fs sh)))"

subsection \<open>Taking out what was put in\<close>

lemma contains_start: "starts p l \<Longrightarrow> contains p (l @ r)"
proof -
  assume "starts p l"
  then have "l @ r = [] @ p @ (drop (length p) l @ r)" unfolding starts_def by (metis append.assoc append_Nil append_take_drop_id)
  then show ?thesis using contains_append [of p "[]"] by metis
qed

lemma contains_later: "contains p b \<Longrightarrow> contains p (a @ b)"
  by (induction a) (cases "p = []"; cases b; auto)+

text \<open>A text that does not contain the marker has no line that starts with it.\<close>

lemma no_marked_line: "\<not> contains p s \<Longrightarrow> l \<in> set (split_on newline s) \<Longrightarrow> \<not> starts p l"
proof (induction s arbitrary: l)
  case Nil
  then show ?case by (auto simp: starts_def)
next
  case (Cons x s)
  have tail: "\<not> contains p s" using Cons.prems(1) by simp
  show ?case
  proof (cases "x = newline")
    case True
    have "p \<noteq> []" using Cons.prems(1) by auto
    then show ?thesis using True Cons.prems(2) Cons.IH [OF tail] by (auto simp: starts_def)
  next
    case False
    obtain y ys where ys: "split_on newline s = y # ys" by (metis list.exhaust split_on_ne)
    have "s = y @ (if ys = [] then [] else newline # join_with [newline] ys)"
      using join_split [of newline s] ys by (cases ys) (auto simp: join_with_Cons)
    then have "\<not> starts p (x # y)" using Cons.prems(1) contains_start [of p "x # y"] by (metis append_Cons)
    then show ?thesis using False Cons.prems(2) Cons.IH [OF tail] ys by auto
  qed
qed

lemma find_from_skip: "\<forall>l \<in> set xs. \<not> P l \<Longrightarrow> find_from i P (xs @ ys) = find_from (i + length xs) P ys"
  by (induction xs arbitrary: i) auto

lemma posix_lines_facts:
  assumes "newline \<notin> set d"
  shows "\<forall>l \<in> set (posix_lines d). newline \<notin> set l" "length (posix_lines d) = 5"
    "find_from i (starts RC_BLOCK_OPEN) (posix_lines d @ r) = Some i"
    "find_from j (starts RC_BLOCK_CLOSE) (drop 1 (posix_lines d) @ r) = Some (j + 3)"
  using assms by (simp_all add: posix_lines_def starts_def RC_BLOCK_OPEN_def RC_BLOCK_CLOSE_def em_dash_def)

lemma split_block:
  "newline \<notin> set d \<Longrightarrow> split_on newline (posixBlock d @ [newline]) = posix_lines d @ [[]]"
proof -
  assume d: "newline \<notin> set d"
  have "posix_lines d \<noteq> []" by (simp add: posix_lines_def)
  then show ?thesis using split_on_append [of newline "posixBlock d" "[]"] split_join [of "posix_lines d" newline]
      posix_lines_facts(1) [OF d] by (simp add: posixBlock_def)
qed

lemma strip_appended:
  assumes "newline \<notin> set d" and "\<forall>l \<in> set (split_on newline a). \<not> starts RC_BLOCK_OPEN l"
  shows "stripBlock (a @ newline # newline # posixBlock d @ [newline]) = a @ [newline]"
proof -
  let ?A = "split_on newline a" and ?L = "posix_lines d"
  let ?ls = "?A @ [] # ?L @ [[]]"
  have ls: "split_on newline (a @ newline # newline # posixBlock d @ [newline]) = ?ls"
    using split_on_append [of newline a] split_block [OF assms(1)] by simp
  have nil: "\<not> starts RC_BLOCK_OPEN []" by (simp add: starts_def RC_BLOCK_OPEN_def)
  have "find_from 0 (starts RC_BLOCK_OPEN) ((?A @ [[]]) @ ?L @ [[]]) = find_from (0 + length (?A @ [[]])) (starts RC_BLOCK_OPEN) (?L @ [[]])"
    by (rule find_from_skip) (use assms(2) nil in auto)
  then have op: "find_from 0 (starts RC_BLOCK_OPEN) ?ls = Some (Suc (length ?A))"
    using posix_lines_facts(3) [OF assms(1), of _ "[[]]"] by simp
  have "drop (Suc (Suc (length ?A))) ?ls = drop 1 ?L @ [[]]" using posix_lines_facts(2) [OF assms(1)] by simp
  then have cl: "find_from (Suc (Suc (length ?A))) (starts RC_BLOCK_CLOSE) (drop (Suc (Suc (length ?A))) ?ls) = Some (Suc (Suc (length ?A)) + 3)"
    using posix_lines_facts(4) [OF assms(1)] by simp
  have "?ls ! length ?A = []" by simp
  moreover have "drop (Suc (Suc (Suc (length ?A)) + 3)) ?ls = [[]]" using posix_lines_facts(2) [OF assms(1)] by simp
  moreover have "join_with [newline] (?A @ [[]]) = a @ [newline]"
    using join_with_append [of ?A "[[]]" "[newline]"] join_split [of newline a] by simp
  ultimately show ?thesis unfolding stripBlock_def ls Let_def op option.case cl by simp
qed

lemma strip_alone: "newline \<notin> set d \<Longrightarrow> stripBlock (posixBlock d @ [newline]) = []"
proof -
  assume d: "newline \<notin> set d"
  have "drop (Suc 0) (posix_lines d @ [[]]) = drop 1 (posix_lines d) @ [[]]" using posix_lines_facts(2) [OF d] by simp
  then have cl: "find_from (Suc 0) (starts RC_BLOCK_CLOSE) (drop (Suc 0) (posix_lines d @ [[]])) = Some (Suc 0 + 3)"
    using posix_lines_facts(4) [OF d] by simp
  have "drop (Suc (Suc 0 + 3)) (posix_lines d @ [[]]) = [[]]" using posix_lines_facts(2) [OF d] by simp
  then show ?thesis unfolding stripBlock_def split_block [OF d] Let_def posix_lines_facts(3) [OF d] option.case cl by simp
qed

lemma ends_newline: "ends_with [newline] c \<Longrightarrow> \<exists>a. c = a @ [newline]"
  by (cases c rule: rev_cases) (auto simp: ends_with_def)

text \<open>Taking the block out of what \<open>ensure\<close> wrote gives the old text back, with a newline at its end if it had
  a last line without one.\<close>

lemma strip_ensured:
  assumes "newline \<notin> set d" and "\<not> contains RC_BLOCK_OPEN c"
  shows "stripBlock (c @ (if c = [] then [] else if ends_with [newline] c then [newline] else [newline, newline]) @ posixBlock d @ [newline]) =
    c @ (if c = [] \<or> ends_with [newline] c then [] else [newline])"
proof (cases "c = []")
  case True
  then show ?thesis using strip_alone [OF assms(1)] by simp
next
  case False
  have lines: "\<forall>l \<in> set (split_on newline c). \<not> starts RC_BLOCK_OPEN l" using no_marked_line [OF assms(2)] by blast
  show ?thesis
  proof (cases "ends_with [newline] c")
    case True
    then obtain a where a: "c = a @ [newline]" using ends_newline by blast
    then have "\<forall>l \<in> set (split_on newline a). \<not> starts RC_BLOCK_OPEN l"
      using lines split_on_append [of newline a "[]"] by auto
    from strip_appended [OF assms(1) this] show ?thesis using True a by simp
  next
    case False
    with \<open>c \<noteq> []\<close> show ?thesis using strip_appended [OF assms(1) lines] by simp
  qed
qed

end
