(* ===== verification/Shim.thy ===== *)
theory Shim
  imports Boarding
begin

text \<open>
  \<open>packages/cli/src/custody/shim.ts\<close>: the text of the script that stands in for an agent on the search
  path, and the decision that script takes, read as the shell reads it. The search of the path
  (\<open>command -v\<close>), the terminal test and the physical working directory come with the call.
\<close>

subsection \<open>The script\<close>

definition renderShimScript :: "string \<Rightarrow> string option \<Rightarrow> string" where
  "renderShimScript agent pherryCommand' =
     (let pherryCommand = (case pherryCommand' of None \<Rightarrow> ''pherry'' | Some c \<Rightarrow> c)
      in join_with [newline] [
      ''#!/bin/sh'',
      ''# Generated by pherry board '' @ em_dash @ '' overwritten on every board; do not edit by hand.'',
      ''# Fail-open PATH shim for \"'' @ agent @ ''\": an interactive launch inside a boarded,'',
      ''# un-anchored repo is handed to the host daemon; anything else execs the real'',
      ''# \"'' @ agent @ ''\" unchanged, so a launch can never break.'',
      [],
      ''pherry_home=\"${PHERRY_HOME:-$HOME/.pherry}\"'',
      ''shim_dir=\"$pherry_home/shims\"'',
      [],
      ''# Rebuild PATH without our own shim dir, in pure sh, so we can find the real bin.'',
      ''real_path=\"\"'',
      ''saved_ifs=\"$IFS\"'',
      ''IFS=\":\"'',
      ''for dir in $PATH; do'',
      ''  [ \"$dir\" = \"$shim_dir\" ] && continue'',
      ''  if [ -n \"$real_path\" ]; then'',
      ''    real_path=\"$real_path:$dir\"'',
      ''  else'',
      ''    real_path=\"$dir\"'',
      ''  fi'',
      ''done'',
      ''IFS=\"$saved_ifs\"'',
      [],
      ''# Fall open: exec the real \"'' @ agent @ ''\" from the cleaned PATH, or fail loudly.'',
      ''run_free() {'',
      ''  real_bin=$(PATH=\"$real_path\" command -v \"'' @ agent @ ''\") || real_bin=\"\"'',
      ''  if [ -z \"$real_bin\" ]; then'',
      ''    echo \"pherry: '' @ agent @ '' not found on PATH\" >&2'',
      ''    exit 127'',
      ''  fi'',
      ''  exec \"$real_bin\" \"$@\"'',
      ''}'',
      [],
      ''# Recursion guard: already inside a custody session.'',
      ''[ -n \"${PHERRY_LOCAL_ID:-}\" ] && run_free \"$@\"'',
      [],
      ''# Not an interactive terminal (PHERRY_SHIM_ASSUME_TTY is a test-only override).'',
      ''if [ -z \"${PHERRY_SHIM_ASSUME_TTY:-}\" ]; then'',
      ''  if [ ! -t 0 ] || [ ! -t 1 ]; then'',
      ''    run_free \"$@\"'',
      ''  fi'',
      ''fi'',
      [],
      ''# A passthrough / non-interactive flag anywhere in the args.'',
      ''for arg in \"$@\"; do'',
      ''  case \"$arg\" in'',
      ''    --help | -h | --version | -V | -v | --print | -p) run_free \"$@\" ;;'',
      ''  esac'',
      ''done'',
      [],
      ''# The physical cwd is not at or under a boarded repo.'',
      ''boarded=\"$pherry_home/boarded.list\"'',
      ''[ -f \"$boarded\" ] || run_free \"$@\"'',
      ''cwd=$(pwd -P)'',
      ''matched=\"\"'',
      ''while IFS= read -r line || [ -n \"$line\" ]; do'',
      ''  [ -z \"$line\" ] && continue'',
      ''  case \"$cwd/\" in'',
      ''    \"$line\"/*)'',
      ''      matched=\"$line\"'',
      ''      break'',
      ''      ;;'',
      ''  esac'',
      ''done < \"$boarded\"'',
      ''[ -z \"$matched\" ] && run_free \"$@\"'',
      [],
      ''# The matched repo is anchored (the soft brake): pass launches through.'',
      ''anchored=\"$pherry_home/anchored.list\"'',
      ''if [ -f \"$anchored\" ] && grep -qFx \"$matched\" \"$anchored\"; then'',
      ''  run_free \"$@\"'',
      ''fi'',
      [],
      ''# Custody: resolve the real bin as the fail-open fallback, then hand to the host.'',
      ''real_bin=$(PATH=\"$real_path\" command -v \"'' @ agent @ ''\") || real_bin=\"\"'',
      ''[ -z \"$real_bin\" ] && run_free \"$@\"'',
      ''exec '' @ pherryCommand @ '' open \"'' @ agent @ ''\" --exec-fallback \"$real_bin\" -- \"$@\"'',
      []])"

subsection \<open>What it decides\<close>

record shim_call =
  sc_nested :: bool
  sc_tty :: bool
  sc_args :: "string list"
  sc_cwd :: string
  sc_path :: "string list"

datatype shim_route = RunFree string | NotOnPath | Custody string

text \<open>The loop over the fields of \<open>PATH\<close> that leaves out the directory of the shims.\<close>

fun real_path_from :: "string \<Rightarrow> string \<Rightarrow> string list \<Rightarrow> string" where
  "real_path_from shim_dir real_path [] = real_path"
| "real_path_from shim_dir real_path (dir # dirs) =
     (if dir = shim_dir then real_path_from shim_dir real_path dirs
      else if real_path \<noteq> [] then real_path_from shim_dir (real_path @ '':'' @ dir) dirs
      else real_path_from shim_dir dir dirs)"

definition passthrough_flags :: "string list" where
  "passthrough_flags = [''--help'', ''-h'', ''--version'', ''-V'', ''-v'', ''--print'', ''-p'']"

definition run_free :: "string option \<Rightarrow> shim_route" where
  "run_free real_bin = (case real_bin of None \<Rightarrow> NotOnPath | Some b \<Rightarrow> RunFree b)"

text \<open>\<open>case "$cwd/" in "$line"/*\<close>: the directory is the repository or lies within it.\<close>

definition within :: "string \<Rightarrow> string \<Rightarrow> bool" where
  "within line cwd \<longleftrightarrow> starts (line @ ''/'') (cwd @ ''/'')"

text \<open>The lines are read as they stand; the first that matches ends the loop.\<close>

definition matched_repo :: "string \<Rightarrow> string \<Rightarrow> string option" where
  "matched_repo boarded cwd = find (\<lambda>line. line \<noteq> [] \<and> within line cwd) (split_on newline boarded)"

definition is_anchored :: "text_file \<Rightarrow> string \<Rightarrow> bool" where
  "is_anchored f matched = (case f of Content t \<Rightarrow> matched \<in> set (split_on newline t) | _ \<Rightarrow> False)"

definition shim_ladder ::
  "(string \<Rightarrow> string \<Rightarrow> string option) \<Rightarrow> string \<Rightarrow> string \<Rightarrow> text_file \<Rightarrow> text_file \<Rightarrow> shim_call \<Rightarrow> shim_route" where
  "shim_ladder command_v agent shim_dir boarded anchored c =
     (let real_bin = command_v (real_path_from shim_dir [] (sc_path c)) agent
      in if sc_nested c then run_free real_bin
         else if \<not> sc_tty c then run_free real_bin
         else if list_ex (\<lambda>arg. arg \<in> set passthrough_flags) (sc_args c) then run_free real_bin
         else
           (case boarded of
              Content b \<Rightarrow>
                (case matched_repo b (sc_cwd c) of
                   None \<Rightarrow> run_free real_bin
                 | Some matched \<Rightarrow>
                     if is_anchored anchored matched then run_free real_bin
                     else (case real_bin of None \<Rightarrow> run_free real_bin | Some b \<Rightarrow> Custody b))
            | _ \<Rightarrow> run_free real_bin))"

subsection \<open>Lines and repositories\<close>

lemma find_filter: "find P xs = find P (filter Q xs)" if "\<And>x. P x \<Longrightarrow> Q x"
  using that by (induction xs) auto

text \<open>On a file of plain lines the shell sees what \<open>readList\<close> sees.\<close>

lemma written_lines:
  assumes "list_all plain_line es"
  shows "filter (\<lambda>l. l \<noteq> []) (split_on newline (if es \<noteq> [] then join_with [newline] es @ [newline] else [])) = es"
proof (cases "es = []")
  case False
  have "split_on newline (join_with [newline] es @ [newline]) = es @ [[]]"
    using split_on_append [of newline "join_with [newline] es" "[]"] split_join [OF False, of newline] assms
    by (auto simp: list_all_iff plain_line_def)
  moreover have "filter (\<lambda>l. l \<noteq> []) es = es" using assms by (auto simp: filter_id_conv list_all_iff plain_line_def)
  ultimately show ?thesis using False by simp
qed simp

lemma within_both: "within a cwd \<Longrightarrow> within b cwd \<Longrightarrow> within a b \<or> within b a"
proof -
  assume a: "within a cwd" and b: "within b cwd"
  let ?a = "a @ ''/''" and ?b = "b @ ''/''" and ?c = "cwd @ ''/''"
  have c: "take (length ?a) ?c = ?a" "take (length ?b) ?c = ?b" using a b unfolding within_def starts_def by blast+
  show ?thesis
  proof (cases "length ?a \<le> length ?b")
    case True
    have "take (length ?a) ?b = take (length ?a) (take (length ?b) ?c)" using c(2) by simp
    also have "\<dots> = ?a" using True c(1) by (metis min.absorb1 take_take)
    finally show ?thesis unfolding within_def starts_def by blast
  next
    case False
    have "take (length ?b) ?a = take (length ?b) (take (length ?a) ?c)" using c(1) by simp
    also have "\<dots> = ?b" using False c(2) by (metis min.absorb1 take_take nat_le_linear)
    finally show ?thesis unfolding within_def starts_def by blast
  qed
qed

end
