(* ===== verification/Board.thy ===== *)
theory Board
  imports Shim Agents
begin

text \<open>
  \<open>packages/cli/src/commands/board.ts\<close>: boarding, anchoring and unboarding a repository, over the state
  they keep on disk (the two lists, the scripts by name and the shells' start-up files), and what the
  lists mean as two sets. \<open>realpath\<close> gives the repository or nothing; writing does not fail.
\<close>

subsection \<open>State and results\<close>

record custody_disk =
  boarded_list :: text_file
  anchored_list :: text_file
  shim_files :: "(string, string) amap"
  rc_files :: "known_shell \<Rightarrow> text_file"

datatype board_error = NoSuchDirectory string string | ListUnreadable | NotBoarded string

record board_result =
  br_repo :: string
  br_shims :: "string list"
  br_pathHint :: "string option"
  br_rc :: "rc_result option"

record unboard_result =
  ur_repo :: string
  ur_wasBoarded :: bool
  ur_shimsRemoved :: bool
  ur_rc :: "bool option"

text \<open>The directory asked for and what \<open>realpath\<close> makes of it.\<close>

definition resolveRepo :: "(string \<Rightarrow> string option) \<Rightarrow> string \<Rightarrow> string \<Rightarrow> board_error + string" where
  "resolveRepo realpath cwd verb =
     (case realpath cwd of None \<Rightarrow> Inl (NoSuchDirectory verb cwd) | Some r \<Rightarrow> Inr r)"

definition pathEntries :: "string \<Rightarrow> string list" where
  "pathEntries pathEnv = filter (\<lambda>entry. entry \<noteq> []) (split_on (CHR '':'') pathEnv)"

text \<open>The shell's start-up file is the one its name selects.\<close>

definition ensure_rc :: "string \<Rightarrow> string \<times> string option \<Rightarrow> custody_disk \<Rightarrow> rc_result \<times> custody_disk" where
  "ensure_rc dir env st =
     (let current = (case detectShell (snd env) of None \<Rightarrow> NoFile | Some sh \<Rightarrow> rc_files st sh);
          (r, f) = ensureShimsOnShellPath dir (fst env) (snd env) current
      in (r, case detectShell (snd env) of None \<Rightarrow> st | Some sh \<Rightarrow> st\<lparr>rc_files := (rc_files st)(sh := f)\<rparr>))"

subsection \<open>The commands\<close>

record board_options =
  bo_cwd :: string
  bo_pherryCommand :: "string option"
  bo_pathEnv :: string
  bo_rc :: "(string \<times> string option) option"

definition write_shims :: "string option \<Rightarrow> (string, string) amap \<Rightarrow> (string, string) amap" where
  "write_shims cmd fs = fold (\<lambda>i. aset i (renderShimScript i cmd)) AGENT_IDS fs"

definition runBoard ::
  "(string \<Rightarrow> string option) \<Rightarrow> (string \<Rightarrow> string \<Rightarrow> string) \<Rightarrow> string \<Rightarrow> board_options \<Rightarrow> custody_disk \<Rightarrow>
   (board_error + board_result) \<times> custody_disk" where
  "runBoard realpath join dir opts st =
     (case resolveRepo realpath (bo_cwd opts) ''board'' of
        Inl e \<Rightarrow> (Inl e, st)
      | Inr repo \<Rightarrow>
          let st1 = st\<lparr>shim_files := write_shims (bo_pherryCommand opts) (shim_files st)\<rparr>
          in case addToList repo (boarded_list st1) of
               None \<Rightarrow> (Inl ListUnreadable, st1)
             | Some b \<Rightarrow>
                 let st2 = st1\<lparr>boarded_list := b\<rparr>
                 in case removeFromList repo (anchored_list st2) of
                      None \<Rightarrow> (Inl ListUnreadable, st2)
                    | Some (_, a) \<Rightarrow>
                        let st3 = st2\<lparr>anchored_list := a\<rparr>;
                            (rc, st4) = (case bo_rc opts of None \<Rightarrow> (None, st3)
                                         | Some env \<Rightarrow> let (r, s) = ensure_rc dir env st3 in (Some r, s))
                        in (Inr \<lparr>br_repo = repo, br_shims = map (join dir) AGENT_IDS,
                                 br_pathHint = (if dir \<in> set (pathEntries (bo_pathEnv opts)) then None
                                                else Some (''export PATH=\"'' @ dir @ '':$PATH\"'')),
                                 br_rc = rc\<rparr>, st4))"

definition runUnboard ::
  "(string \<Rightarrow> string option) \<Rightarrow> string \<Rightarrow> bool \<Rightarrow> custody_disk \<Rightarrow> (board_error + unboard_result) \<times> custody_disk" where
  "runUnboard realpath cwd rc st =
     (case resolveRepo realpath cwd ''unboard'' of
        Inl e \<Rightarrow> (Inl e, st)
      | Inr repo \<Rightarrow>
          (case removeFromList repo (boarded_list st) of
             None \<Rightarrow> (Inl ListUnreadable, st)
           | Some (wasBoarded, b) \<Rightarrow>
               let st1 = st\<lparr>boarded_list := b\<rparr>
               in case removeFromList repo (anchored_list st1) of
                    None \<Rightarrow> (Inl ListUnreadable, st1)
                  | Some (_, a) \<Rightarrow>
                      let st2 = st1\<lparr>anchored_list := a\<rparr>
                      in case readList (boarded_list st2) of
                           None \<Rightarrow> (Inl ListUnreadable, st2)
                         | Some remaining \<Rightarrow>
                             if remaining \<noteq> []
                             then (Inr \<lparr>ur_repo = repo, ur_wasBoarded = wasBoarded, ur_shimsRemoved = False, ur_rc = None\<rparr>, st2)
                             else
                               let st3 = st2\<lparr>shim_files := fold adel AGENT_IDS (shim_files st2)\<rparr>;
                                   (r, fs) = removeShimsFromShellPath (rc_files st3)
                               in (Inr \<lparr>ur_repo = repo, ur_wasBoarded = wasBoarded, ur_shimsRemoved = True,
                                        ur_rc = (if rc then Some r else None)\<rparr>,
                                   if rc then st3\<lparr>rc_files := fs\<rparr> else st3)))"

definition runAnchor ::
  "(string \<Rightarrow> string option) \<Rightarrow> string \<Rightarrow> custody_disk \<Rightarrow> (board_error + string) \<times> custody_disk" where
  "runAnchor realpath cwd st =
     (case resolveRepo realpath cwd ''anchor'' of
        Inl e \<Rightarrow> (Inl e, st)
      | Inr repo \<Rightarrow>
          (case readList (boarded_list st) of
             None \<Rightarrow> (Inl ListUnreadable, st)
           | Some boarded \<Rightarrow>
               if repo \<notin> set boarded then (Inl (NotBoarded repo), st)
               else (case addToList repo (anchored_list st) of
                       None \<Rightarrow> (Inl ListUnreadable, st)
                     | Some a \<Rightarrow> (Inr repo, st\<lparr>anchored_list := a\<rparr>))))"

subsection \<open>A run of commands\<close>

datatype board_cmd = CmdBoard board_options | CmdUnboard string bool | CmdAnchor string

definition board_step ::
  "(string \<Rightarrow> string option) \<Rightarrow> (string \<Rightarrow> string \<Rightarrow> string) \<Rightarrow> string \<Rightarrow> board_cmd \<Rightarrow> custody_disk \<Rightarrow> custody_disk" where
  "board_step realpath join dir c st =
     (case c of
        CmdBoard opts \<Rightarrow> snd (runBoard realpath join dir opts st)
      | CmdUnboard cwd rc \<Rightarrow> snd (runUnboard realpath cwd rc st)
      | CmdAnchor cwd \<Rightarrow> snd (runAnchor realpath cwd st))"

definition fresh_disk :: custody_disk where
  "fresh_disk = \<lparr>boarded_list = NoFile, anchored_list = NoFile, shim_files = [], rc_files = \<lambda>_. NoFile\<rparr>"

definition board_run where
  "board_run realpath join dir cs = fold (board_step realpath join dir) cs fresh_disk"

subsection \<open>What the lists mean\<close>

text \<open>Boarding puts a repository in and lifts its anchor, anchoring needs a boarded one, and unboarding
  forgets it altogether.\<close>

definition custody_spec ::
  "(string \<Rightarrow> string option) \<Rightarrow> board_cmd \<Rightarrow> string set \<times> string set \<Rightarrow> string set \<times> string set" where
  "custody_spec realpath c s =
     (case c of
        CmdBoard opts \<Rightarrow> (case realpath (bo_cwd opts) of None \<Rightarrow> s | Some r \<Rightarrow> (insert r (fst s), snd s - {r}))
      | CmdUnboard cwd _ \<Rightarrow> (case realpath cwd of None \<Rightarrow> s | Some r \<Rightarrow> (fst s - {r}, snd s - {r}))
      | CmdAnchor cwd \<Rightarrow>
          (case realpath cwd of None \<Rightarrow> s | Some r \<Rightarrow> if r \<in> fst s then (fst s, insert r (snd s)) else s))"

definition lists_hold :: "text_file \<Rightarrow> string set \<Rightarrow> bool" where
  "lists_hold f S \<longleftrightarrow> f = NoFile \<and> S = {} \<or> (\<exists>es. f = writeList es \<and> list_all plain_line es \<and> set es = S)"

definition custody_holds :: "custody_disk \<Rightarrow> string set \<times> string set \<Rightarrow> bool" where
  "custody_holds st s \<longleftrightarrow>
     lists_hold (boarded_list st) (fst s) \<and> lists_hold (anchored_list st) (snd s) \<and> snd s \<subseteq> fst s \<and>
     (\<forall>i \<in> set AGENT_IDS. (aget (shim_files st) i \<noteq> None) = (fst s \<noteq> {}))"

lemma lists_hold_read: "lists_hold f S \<Longrightarrow> \<exists>es. readList f = Some es \<and> list_all plain_line es \<and> set es = S"
  unfolding lists_hold_def using read_write by (auto simp: readList_def parseList_def)

lemma lists_hold_write: "list_all plain_line es \<Longrightarrow> lists_hold (writeList es) (set es)"
  by (auto simp: lists_hold_def)

lemma add_holds: "lists_hold f S \<Longrightarrow> plain_line r \<Longrightarrow> \<exists>g. addToList r f = Some g \<and> lists_hold g (insert r S)"
proof -
  assume f: "lists_hold f S" and r: "plain_line r"
  from lists_hold_read [OF f] obtain es where es: "readList f = Some es" "list_all plain_line es" "set es = S" by blast
  show ?thesis
  proof (cases "r \<in> S")
    case True
    then show ?thesis using es f by (simp add: addToList_def insert_absorb)
  next
    case False
    have "lists_hold (writeList (es @ [r])) (insert r S)" using lists_hold_write [of "es @ [r]"] es r by simp
    then show ?thesis using es False by (simp add: addToList_def)
  qed
qed

lemma remove_holds:
  "lists_hold f S \<Longrightarrow> \<exists>g. removeFromList r f = Some (r \<in> S, g) \<and> lists_hold g (S - {r})"
proof -
  assume f: "lists_hold f S"
  from lists_hold_read [OF f] obtain es where es: "readList f = Some es" "list_all plain_line es" "set es = S" by blast
  show ?thesis
  proof (cases "r \<in> S")
    case True
    have "lists_hold (writeList (filter (\<lambda>e. e \<noteq> r) es)) (S - {r})"
      using lists_hold_write [of "filter (\<lambda>e. e \<noteq> r) es"] es by (auto simp: list_all_iff set_diff_eq)
    then show ?thesis using es True by (simp add: removeFromList_def)
  next
    case False
    then show ?thesis using es f by (simp add: removeFromList_def)
  qed
qed

lemma write_shims_agents: "i \<in> set AGENT_IDS \<Longrightarrow> aget (write_shims cmd fs) i \<noteq> None"
  by (auto simp: write_shims_def AGENT_IDS_def adapter_defs)

lemma drop_shims_agents: "i \<in> set AGENT_IDS \<Longrightarrow> aget (fold adel AGENT_IDS fs) i = None"
  by (auto simp: AGENT_IDS_def adapter_defs)

text \<open>One command keeps the lists in step with the two sets.\<close>

lemma ensure_rc_rest:
  assumes "ensure_rc dir env st = (r, st')"
  shows "boarded_list st' = boarded_list st" "anchored_list st' = anchored_list st" "shim_files st' = shim_files st"
  using assms by (auto simp: ensure_rc_def Let_def split: option.splits prod.splits)

lemma board_holds:
  assumes "custody_holds st s" and "realpath (bo_cwd opts) = Some r" and "plain_line r"
  shows "custody_holds (snd (runBoard realpath join dir opts st)) (insert r (fst s), snd s - {r})"
proof -
  let ?f = "write_shims (bo_pherryCommand opts) (shim_files st)"
  have h: "lists_hold (boarded_list st) (fst s)" "lists_hold (anchored_list st) (snd s)" "snd s \<subseteq> fst s"
    using assms(1) by (simp_all add: custody_holds_def)
  from add_holds [OF h(1) assms(3)] obtain b where b: "addToList r (boarded_list st) = Some b" "lists_hold b (insert r (fst s))" by blast
  from remove_holds [OF h(2)] obtain a where a: "removeFromList r (anchored_list st) = Some (r \<in> snd s, a)" "lists_hold a (snd s - {r})" by blast
  let ?st = "snd (runBoard realpath join dir opts st)"
  have "boarded_list ?st = b" "anchored_list ?st = a" "shim_files ?st = ?f"
    using assms(2) b(1) a(1) ensure_rc_rest
    by (simp_all add: runBoard_def resolveRepo_def Let_def split: option.split prod.split)
  then show ?thesis using b(2) a(2) h(3) write_shims_agents unfolding custody_holds_def
    by (simp add: subset_insertI2 Diff_subset subset_iff del: not_None_eq)
qed

lemma unboard_holds:
  assumes "custody_holds st s" and "realpath cwd = Some r"
  shows "custody_holds (snd (runUnboard realpath cwd rc st)) (fst s - {r}, snd s - {r})"
proof -
  have h: "lists_hold (boarded_list st) (fst s)" "lists_hold (anchored_list st) (snd s)" "snd s \<subseteq> fst s"
    using assms(1) by (simp_all add: custody_holds_def)
  from remove_holds [OF h(1)] obtain b where b: "removeFromList r (boarded_list st) = Some (r \<in> fst s, b)" "lists_hold b (fst s - {r})" by blast
  from remove_holds [OF h(2)] obtain a where a: "removeFromList r (anchored_list st) = Some (r \<in> snd s, a)" "lists_hold a (snd s - {r})" by blast
  from lists_hold_read [OF b(2)] obtain es where es: "readList b = Some es" "set es = fst s - {r}" by blast
  let ?st = "snd (runUnboard realpath cwd rc st)"
  have "boarded_list ?st = b" "anchored_list ?st = a"
    "shim_files ?st = (if es = [] then fold adel AGENT_IDS (shim_files st) else shim_files st)"
    using assms(2) b(1) a(1) es(1) by (simp_all add: runUnboard_def resolveRepo_def Let_def case_prod_beta)
  moreover have "\<forall>i \<in> set AGENT_IDS. (aget (if es = [] then fold adel AGENT_IDS (shim_files st) else shim_files st) i \<noteq> None) = (fst s - {r} \<noteq> {})"
  proof (cases "es = []")
    case True
    then show ?thesis using es(2) drop_shims_agents by auto
  next
    case False
    then have "set es \<noteq> {}" by simp
    then have "fst s - {r} \<noteq> {}" unfolding es(2) .
    moreover from this have "fst s \<noteq> {}" by blast
    ultimately show ?thesis using False assms(1) unfolding custody_holds_def by simp
  qed
  moreover have "snd s - {r} \<subseteq> fst s - {r}" using h(3) by blast
  ultimately show ?thesis using b(2) a(2) unfolding custody_holds_def fst_conv snd_conv by (intro conjI) simp_all
qed

lemma anchor_holds:
  assumes "custody_holds st s" and "realpath cwd = Some r"
  shows "custody_holds (snd (runAnchor realpath cwd st)) (if r \<in> fst s then (fst s, insert r (snd s)) else s)"
proof -
  have h: "lists_hold (boarded_list st) (fst s)" "lists_hold (anchored_list st) (snd s)" "snd s \<subseteq> fst s"
    using assms(1) by (simp_all add: custody_holds_def)
  from lists_hold_read [OF h(1)]
  obtain es where es: "readList (boarded_list st) = Some es" "list_all plain_line es" "set es = fst s" by blast
  show ?thesis
  proof (cases "r \<in> fst s")
    case True
    then have "plain_line r" using es by (auto simp: list_all_iff)
    from add_holds [OF h(2) this] obtain a where a: "addToList r (anchored_list st) = Some a" "lists_hold a (insert r (snd s))" by blast
    have "snd (runAnchor realpath cwd st) = st\<lparr>anchored_list := a\<rparr>"
      using assms(2) es a(1) True by (simp add: runAnchor_def resolveRepo_def)
    then show ?thesis using assms(1) a(2) True by (simp add: custody_holds_def)
  next
    case False
    then have "snd (runAnchor realpath cwd st) = st" using assms(2) es by (simp add: runAnchor_def resolveRepo_def)
    then show ?thesis using assms(1) False by simp
  qed
qed

lemma fresh_holds: "custody_holds fresh_disk ({}, {})"
  by (auto simp: fresh_disk_def custody_holds_def lists_hold_def)

lemma step_holds:
  assumes "custody_holds st s" and "\<forall>opts r. c = CmdBoard opts \<longrightarrow> realpath (bo_cwd opts) = Some r \<longrightarrow> plain_line r"
  shows "custody_holds (board_step realpath join dir c st) (custody_spec realpath c s)"
proof (cases c)
  case (CmdBoard opts)
  show ?thesis
  proof (cases "realpath (bo_cwd opts)")
    case None
    then show ?thesis using assms(1) CmdBoard by (simp add: board_step_def custody_spec_def runBoard_def resolveRepo_def)
  next
    case (Some r)
    then have "plain_line r" using assms(2) CmdBoard by simp
    with Some show ?thesis using board_holds [OF assms(1), of realpath opts r] CmdBoard
      by (simp add: board_step_def custody_spec_def)
  qed
next
  case (CmdUnboard cwd rc)
  then show ?thesis using assms(1) unboard_holds [OF assms(1), of realpath cwd]
    by (cases "realpath cwd") (simp_all add: board_step_def custody_spec_def runUnboard_def resolveRepo_def)
next
  case (CmdAnchor cwd)
  show ?thesis
  proof (cases "realpath cwd")
    case None
    then show ?thesis using assms(1) CmdAnchor by (simp add: board_step_def custody_spec_def runAnchor_def resolveRepo_def)
  next
    case (Some r)
    then show ?thesis using anchor_holds [OF assms(1), of realpath cwd r] CmdAnchor
      by (simp add: board_step_def custody_spec_def)
  qed
qed

lemma run_holds:
  assumes "\<forall>opts r. CmdBoard opts \<in> set cs \<longrightarrow> realpath (bo_cwd opts) = Some r \<longrightarrow> plain_line r"
  shows "custody_holds (board_run realpath join dir cs) (fold (custody_spec realpath) cs ({}, {}))"
proof -
  have "custody_holds st s \<Longrightarrow> \<forall>opts r. CmdBoard opts \<in> set cs \<longrightarrow> realpath (bo_cwd opts) = Some r \<longrightarrow> plain_line r \<Longrightarrow>
    custody_holds (fold (board_step realpath join dir) cs st) (fold (custody_spec realpath) cs s)" for st s
    using step_holds by (induction cs arbitrary: st s) auto
  from this [OF fresh_holds assms] show ?thesis by (simp add: board_run_def)
qed

subsection \<open>What the scripts then do\<close>

lemma matched_among:
  assumes "lists_hold (Content b) S" and "\<forall>r1 \<in> S. \<forall>r2 \<in> S. within r1 r2 \<longrightarrow> r1 = r2"
  shows "matched_repo b cwd = Some r \<longleftrightarrow> r \<in> S \<and> within r cwd"
    "matched_repo b cwd = None \<longleftrightarrow> (\<forall>r \<in> S. \<not> within r cwd)"
proof -
  from assms(1) obtain es where es: "Content b = writeList es" "list_all plain_line es" "set es = S"
    unfolding lists_hold_def by auto
  have "filter (\<lambda>l. l \<noteq> []) (split_on newline b) = es"
    using written_lines [OF es(2)] es(1) by (simp add: writeList_def)
  moreover have "matched_repo b cwd = find (\<lambda>line. line \<noteq> [] \<and> within line cwd) (filter (\<lambda>l. l \<noteq> []) (split_on newline b))"
    unfolding matched_repo_def by (rule find_filter) simp
  ultimately have m: "matched_repo b cwd = find (\<lambda>line. line \<noteq> [] \<and> within line cwd) es" by simp
  have ne: "\<forall>r \<in> S. r \<noteq> []" using es by (auto simp: list_all_iff plain_line_def)
  show "matched_repo b cwd = None \<longleftrightarrow> (\<forall>r \<in> S. \<not> within r cwd)"
    unfolding m find_None_iff using es(3) ne by auto
  show "matched_repo b cwd = Some r \<longleftrightarrow> r \<in> S \<and> within r cwd"
  proof
    assume "matched_repo b cwd = Some r"
    then show "r \<in> S \<and> within r cwd" unfolding m find_Some_iff using es(3) by auto
  next
    assume r: "r \<in> S \<and> within r cwd"
    then have "find (\<lambda>line. line \<noteq> [] \<and> within line cwd) es \<noteq> None" unfolding find_None_iff using es(3) ne by auto
    then obtain q where q: "find (\<lambda>line. line \<noteq> [] \<and> within line cwd) es = Some q" by blast
    then have "q \<in> S \<and> within q cwd" unfolding find_Some_iff using es(3) by auto
    then have "q = r" using within_both [of q cwd r] r assms(2) by metis
    then show "matched_repo b cwd = Some r" using q m by simp
  qed
qed

lemma anchored_among: "lists_hold f S \<Longrightarrow> r \<noteq> [] \<Longrightarrow> is_anchored f r \<longleftrightarrow> r \<in> S"
proof -
  assume f: "lists_hold f S" and r: "r \<noteq> []"
  show ?thesis
  proof (cases "f = NoFile")
    case True
    then show ?thesis using f by (auto simp: lists_hold_def is_anchored_def writeList_def)
  next
    case False
    then obtain es where es: "f = writeList es" "list_all plain_line es" "set es = S" using f unfolding lists_hold_def by auto
    have "r \<in> S \<longleftrightarrow> r \<in> set (filter (\<lambda>l. l \<noteq> []) (split_on newline (if es \<noteq> [] then join_with [newline] es @ [newline] else [])))"
      unfolding written_lines [OF es(2)] es(3) ..
    then show ?thesis using r es(1) by (simp add: is_anchored_def writeList_def)
  qed
qed

end
