(* ===== verification/BoardTheorems.thy ===== *)
theory BoardTheorems
  imports Board
begin

text \<open>
  Properties of the custody commands: the files they keep stand for two sets of repositories, the scripts
  on the search path decide by those sets, and the block in a shell's start-up file comes out as it went in.
\<close>

subsection \<open>The lists and the scripts\<close>

text \<open>C34: Whatever boarding, anchoring and unboarding were done, from nothing, where every repository that was boarded
  has a path without a line break in it and without white space at its ends (\<open>plain_line\<close>; other paths may have been
  anchored or unboarded): the two files hold the sets of boarded and anchored repositories that the commands mean,
  every anchored repository is boarded, and the scripts are in place exactly while some repository is boarded. A
  boarded path with white space at an end comes back from the file without it (\<open>padded_path_is_lost\<close>).\<close>
theorem custody_files_mean_sets:
  assumes "\<forall>opts r. CmdBoard opts \<in> set cs \<longrightarrow> realpath (bo_cwd opts) = Some r \<longrightarrow> plain_line r"
  shows "\<exists>bs as. readList (boarded_list (board_run realpath join dir cs)) = Some bs \<and>
      readList (anchored_list (board_run realpath join dir cs)) = Some as \<and>
      (set bs, set as) = fold (custody_spec realpath) cs ({}, {}) \<and> set as \<subseteq> set bs \<and>
      (\<forall>i \<in> set AGENT_IDS. (aget (shim_files (board_run realpath join dir cs)) i \<noteq> None) = (bs \<noteq> []))"
proof -
  let ?st = "board_run realpath join dir cs" and ?s = "fold (custody_spec realpath) cs ({}, {})"
  have h: "custody_holds ?st ?s" using run_holds [OF assms] .
  then obtain bs as where "readList (boarded_list ?st) = Some bs" "set bs = fst ?s"
    "readList (anchored_list ?st) = Some as" "set as = snd ?s"
    unfolding custody_holds_def using lists_hold_read by metis
  with h show ?thesis unfolding custody_holds_def by (intro exI [of _ bs] exI [of _ as]) auto
qed

definition demo_realpath :: "string \<Rightarrow> string option" where
  "demo_realpath p =
     (if p = ''.'' then Some ''/w/a'' else if p = ''..'' then Some ''/w/b'' else if p = ''c'' then Some ''/w/c '' else None)"

definition demo_board :: "string \<Rightarrow> board_cmd" where
  "demo_board p = CmdBoard \<lparr>bo_cwd = p, bo_pherryCommand = None, bo_pathEnv = ''/bin'', bo_rc = None\<rparr>"

definition demo_cmds :: "board_cmd list" where
  "demo_cmds = [demo_board ''.'', demo_board ''..'', CmdAnchor ''.'', CmdAnchor ''c'']"

lemma demo_plain: "\<forall>opts r. CmdBoard opts \<in> set demo_cmds \<longrightarrow> demo_realpath (bo_cwd opts) = Some r \<longrightarrow> plain_line r"
proof -
  have "plain_line ''/w/a''" "plain_line ''/w/b''" by code_simp+
  then show ?thesis by (auto simp: demo_cmds_def demo_board_def demo_realpath_def)
qed

lemma demo_sets:
  "fold (custody_spec demo_realpath) demo_cmds ({}, {}) = ({''/w/a'', ''/w/b''}, {''/w/a''})"
  by (simp add: demo_cmds_def demo_board_def custody_spec_def demo_realpath_def insert_commute)

definition demo_disk :: custody_disk where
  "demo_disk = board_run demo_realpath (\<lambda>d n. d @ ''/'' @ n) ''/h/shims'' demo_cmds"

lemma custody_files_mean_sets_witness:
  "\<exists>bs as. readList (boarded_list demo_disk) = Some bs \<and> readList (anchored_list demo_disk) = Some as \<and>
      (set bs, set as) = ({''/w/a'', ''/w/b''}, {''/w/a''}) \<and> set as \<subseteq> set bs \<and>
      (\<forall>i \<in> set AGENT_IDS. (aget (shim_files demo_disk) i \<noteq> None) = (bs \<noteq> []))"
  unfolding demo_disk_def demo_sets [symmetric] by (rule custody_files_mean_sets [OF demo_plain])

text \<open>A path with a space at its end is boarded and boarded again as two lines, the first by then without it, and read back as two repositories without
  the space: anchoring it is refused, and the repository without the space goes under custody.\<close>

lemma padded_path_is_lost:
  "Option.bind (addToList ''/w/a '' NoFile) (addToList ''/w/a '') = Some (writeList [''/w/a'', ''/w/a '']) \<and>
   readList (writeList [''/w/a'', ''/w/a '']) = Some [''/w/a'', ''/w/a''] \<and>
   fst (runAnchor (\<lambda>_. Some ''/w/a '') ''.'' (fresh_disk\<lparr>boarded_list := writeList [''/w/a'', ''/w/a '']\<rparr>)) =
     Inl (NotBoarded ''/w/a '')"
  by code_simp

text \<open>After any such commands, with no boarded repository inside another, an interactive launch with plain
  arguments goes under custody exactly when its directory lies in a repository that is boarded and not
  anchored; every other launch runs the agent itself, and none is lost while the agent is on the path.\<close>
lemma custody_is_taken_where_boarded:
  assumes "\<forall>opts r. CmdBoard opts \<in> set cs \<longrightarrow> realpath (bo_cwd opts) = Some r \<longrightarrow> plain_line r"
    and "fold (custody_spec realpath) cs ({}, {}) = (B, A)"
    and "\<forall>r1 \<in> B. \<forall>r2 \<in> B. within r1 r2 \<longrightarrow> r1 = r2"
    and "command_v (real_path_from dir [] (sc_path c)) agent = Some bin"
  shows "shim_ladder command_v agent dir (boarded_list (board_run realpath join dir cs))
      (anchored_list (board_run realpath join dir cs)) c =
    (if \<not> sc_nested c \<and> sc_tty c \<and> set (sc_args c) \<inter> set passthrough_flags = {} \<and>
        (\<exists>r \<in> B - A. within r (sc_cwd c))
     then Custody bin else RunFree bin)"
proof -
  let ?b = "boarded_list (board_run realpath join dir cs)" and ?a = "anchored_list (board_run realpath join dir cs)"
  have h: "lists_hold ?b B" "lists_hold ?a A" "A \<subseteq> B"
    using run_holds [OF assms(1), of join dir] unfolding assms(2) custody_holds_def by simp_all
  have flags: "list_ex (\<lambda>arg. arg \<in> set passthrough_flags) (sc_args c) = (set (sc_args c) \<inter> set passthrough_flags \<noteq> {})"
    by (auto simp: list_ex_iff)
  show ?thesis
  proof (cases ?b)
    case (Content t)
    then have t: "lists_hold (Content t) B" using h(1) by simp
    have one: "r = q" if "r \<in> B" "q \<in> B" "within r (sc_cwd c)" "within q (sc_cwd c)" for r q
      using within_both [OF that(3,4)] that(1,2) assms(3) by metis
    show ?thesis
    proof (cases "matched_repo t (sc_cwd c)")
      case None
      then have "\<not> (\<exists>r \<in> B - A. within r (sc_cwd c))" using matched_among(2) [OF t assms(3), of "sc_cwd c"] by blast
      then show ?thesis using None Content assms(4) by (simp add: shim_ladder_def run_free_def Let_def)
    next
      case (Some r)
      then have r: "r \<in> B" "within r (sc_cwd c)" using matched_among(1) [OF t assms(3), of "sc_cwd c" r] by simp_all
      have "r \<noteq> []" using Some unfolding matched_repo_def find_Some_iff by auto
      then have "is_anchored ?a r = (r \<in> A)" using anchored_among [OF h(2)] by blast
      moreover have "(\<exists>q \<in> B - A. within q (sc_cwd c)) = (r \<notin> A)" using r one by blast
      ultimately show ?thesis using Some Content assms(4) flags by (simp add: shim_ladder_def run_free_def Let_def)
    qed
  next
    case NoFile
    then have "B = {}" using h(1) by (auto simp: lists_hold_def writeList_def)
    then show ?thesis using NoFile assms(4) by (simp add: shim_ladder_def run_free_def Let_def)
  next
    case Faulty
    then show ?thesis using h(1) by (auto simp: lists_hold_def writeList_def)
  qed
qed

definition demo_call :: "string \<Rightarrow> shim_call" where
  "demo_call cwd = \<lparr>sc_nested = False, sc_tty = True, sc_args = [''fix it''], sc_cwd = cwd, sc_path = [''/h/shims'', ''/bin'']\<rparr>"

definition demo_command_v :: "string \<Rightarrow> string \<Rightarrow> string option" where
  "demo_command_v path name = (if path = ''/bin'' \<and> name = ''codex'' then Some ''/bin/codex'' else None)"

lemma custody_is_taken_where_boarded_witness:
  "shim_ladder demo_command_v ''codex'' ''/h/shims''
      (boarded_list demo_disk)
      (anchored_list demo_disk)
      (demo_call ''/w/b/src'') = Custody ''/bin/codex''"
proof -
  have "\<forall>r1 \<in> {''/w/a'', ''/w/b''}. \<forall>r2 \<in> {''/w/a'', ''/w/b''}. within r1 r2 \<longrightarrow> r1 = r2"
    by (simp add: within_def starts_def)
  moreover have "demo_command_v (real_path_from ''/h/shims'' [] (sc_path (demo_call ''/w/b/src''))) ''codex'' = Some ''/bin/codex''"
    by (simp add: demo_command_v_def demo_call_def)
  ultimately have "shim_ladder demo_command_v ''codex'' ''/h/shims''
      (boarded_list demo_disk)
      (anchored_list demo_disk)
      (demo_call ''/w/b/src'') =
    (if \<not> sc_nested (demo_call ''/w/b/src'') \<and> sc_tty (demo_call ''/w/b/src'') \<and>
        set (sc_args (demo_call ''/w/b/src'')) \<inter> set passthrough_flags = {} \<and>
        (\<exists>r \<in> {''/w/a'', ''/w/b''} - {''/w/a''}. within r (sc_cwd (demo_call ''/w/b/src'')))
     then Custody ''/bin/codex'' else RunFree ''/bin/codex'')"
    unfolding demo_disk_def by (rule custody_is_taken_where_boarded [OF demo_plain demo_sets])
  then show ?thesis by (simp add: demo_call_def passthrough_flags_def within_def starts_def)
qed

text \<open>With one boarded repository inside another the first line decides: an anchor on the inner one does not
  stop custody there.\<close>

lemma nested_anchor_is_ignored:
  "shim_ladder demo_command_v ''codex'' ''/h/shims'' (writeList [''/w'', ''/w/a'']) (writeList [''/w/a'']) (demo_call ''/w/a'') =
     Custody ''/bin/codex''"
  by code_simp

subsection \<open>The managed block\<close>

text \<open>C35: A start-up file without the marker that the shims were wired into, and taken out of again. The file may be
  missing or unreadable, which counts as empty; the path of the shims has no line break in it, which matters outside
  fish. Wiring it twice changes nothing. The file of zsh or bash then has its text back, with a newline at its end if its
  last line had none; the file of fish, which is taken for a file of pherry's own, is removed with all that was in it.\<close>
theorem managed_block_roundtrip:
  assumes "detectShell shell = Some sh" and "sh = Fish \<or> newline \<notin> set (homeRelative dir home)"
    and "\<not> contains RC_BLOCK_OPEN (readIfPresent f0)" and "c = readIfPresent f0"
  shows "\<exists>f. ensureShimsOnShellPath dir home shell f0 = (RcWritten, f) \<and>
    ensureShimsOnShellPath dir home shell f = (RcAlready, f) \<and>
    remove_from sh f =
      (True, if sh = Fish then NoFile
             else Content (c @ (if c = [] \<or> ends_with [newline] c then [] else [newline])))"
proof -
  let ?sep = "if c = [] then [] else if ends_with [newline] c then [newline] else [newline, newline]"
  let ?b = "if sh = Fish then fishBlock (homeRelative dir home) else posixBlock (homeRelative dir home)"
  let ?t = "c @ ?sep @ ?b @ [newline]"
  have "\<exists>r. ?b @ [newline] = RC_BLOCK_OPEN @ r"
    by (cases "sh = Fish") (simp_all add: posixBlock_def posix_lines_def fishBlock_def)
  then have "contains RC_BLOCK_OPEN ?t" using contains_append [of RC_BLOCK_OPEN "c @ ?sep"] by (metis append.assoc)
  moreover have "stripBlock ?t = c @ (if c = [] \<or> ends_with [newline] c then [] else [newline])" if "sh \<noteq> Fish"
    using strip_ensured [of "homeRelative dir home" c] assms(2-4) that by simp
  ultimately show ?thesis using assms(1,3,4)
    by (intro exI [of _ "Content ?t"]) (auto simp: ensureShimsOnShellPath_def readIfPresent_def remove_from_def Let_def)
qed

lemma managed_block_roundtrip_witness:
  "(\<exists>f. ensureShimsOnShellPath ''/home/u/.pherry/shims'' ''/home/u'' (Some ''/bin/zsh'') (Content ''alias ll=ls'') = (RcWritten, f) \<and>
      remove_from Zsh f = (True, Content (''alias ll=ls'' @ [newline]))) \<and>
   (\<exists>f. ensureShimsOnShellPath ''/home/u/.pherry/shims'' ''/home/u'' (Some ''/bin/fish'') (Content ''set x 1'') = (RcWritten, f) \<and>
      remove_from Fish f = (True, NoFile))"
proof -
  have "detectShell (Some ''/bin/zsh'') = Some Zsh" "newline \<notin> set (homeRelative ''/home/u/.pherry/shims'' ''/home/u'')"
    "\<not> contains RC_BLOCK_OPEN ''alias ll=ls''" "\<not> ends_with [newline] ''alias ll=ls''"
    "detectShell (Some ''/bin/fish'') = Some Fish" "\<not> contains RC_BLOCK_OPEN ''set x 1''" by code_simp+
  then show ?thesis
    using managed_block_roundtrip [of "Some ''/bin/zsh''" Zsh "''/home/u/.pherry/shims''" "''/home/u''" "Content ''alias ll=ls''"]
      managed_block_roundtrip [of "Some ''/bin/fish''" Fish "''/home/u/.pherry/shims''" "''/home/u''" "Content ''set x 1''"]
    by (simp add: readIfPresent_def) blast
qed

text \<open>A marker in the middle of a line counts as wired and cannot be taken out: the caller is told it was.\<close>

lemma marker_in_a_line:
  "ensureShimsOnShellPath ''/s'' ''/h'' (Some ''/bin/zsh'') (Content (''echo '' @ RC_BLOCK_OPEN)) =
     (RcAlready, Content (''echo '' @ RC_BLOCK_OPEN)) \<and>
   remove_from Zsh (Content (''echo '' @ RC_BLOCK_OPEN)) = (True, Content (''echo '' @ RC_BLOCK_OPEN))"
  by code_simp

text \<open>A file that cannot be read is taken for an empty one and written over.\<close>

lemma unreadable_is_overwritten:
  "ensureShimsOnShellPath ''/s'' ''/h'' (Some ''/bin/bash'') Faulty = (RcWritten, Content (posixBlock ''/s'' @ [newline]))"
  by code_simp

end
