(* ===== verification/LaunchHooks.thy ===== *)
theory LaunchHooks
  imports Boarding Agents Serve
begin

text \<open>
  \<open>packages/cli/src/launch.ts\<close>: how the daemon turns the identifiers of a remote launch back into a spawn
  it alone composed. What an awaited step sees of the machine (the clock, the daemon's environment, which
  files can be executed) is a \<open>moment\<close>; the steps of one call see one moment after the other.
\<close>

subsection \<open>What a call is built from\<close>

definition DETECT_CACHE_TTL_MS :: int where
  "DETECT_CACHE_TTL_MS = 30000"

definition PROJECT_ID_HEX_CHARS :: nat where
  "PROJECT_ID_HEX_CHARS = 16"

definition DEFAULT_COLS :: nat where "DEFAULT_COLS = 80"
definition DEFAULT_ROWS :: nat where "DEFAULT_ROWS = 24"

record moment =
  mo_now :: int
  mo_env :: "(string, string option) amap"
  mo_isExecutable :: "string \<Rightarrow> bool"

type_synonym detect_cache = "(string, int \<times> bool) amap"

text \<open>The options of \<open>buildLaunchHooks\<close>: the directory of the shims, the override of the probe, \<open>join\<close>.\<close>

record launch_hooks =
  lh_shims :: string
  lh_detectAgent :: "(agent_adapter \<Rightarrow> bool) option"
  lh_join :: "string \<Rightarrow> string \<Rightarrow> string"

definition projectId :: "crypto \<Rightarrow> string \<Rightarrow> string" where
  "projectId C path = take PROJECT_ID_HEX_CHARS (bytesToHex (sha_256 C (utf8 path)))"

fun stringOnly :: "(string, string option) amap \<Rightarrow> (string, string) amap" where
  "stringOnly [] = []"
| "stringOnly ((key, v) # env) = (case v of None \<Rightarrow> stringOnly env | Some s \<Rightarrow> (key, s) # stringOnly env)"

definition shimFreeEnv :: "launch_hooks \<Rightarrow> moment \<Rightarrow> (string, string) amap" where
  "shimFreeEnv h m =
     (let env = envForSpawn (stringOnly (mo_env m))
      in case aget env ''PATH'' of
           None \<Rightarrow> env
         | Some p \<Rightarrow> aset ''PATH'' (join_with '':'' (filter (\<lambda>entry. entry \<noteq> lh_shims h) (split_on (CHR '':'') p))) env)"

text \<open>\<open>detect\<close> of the adapter table, on a path that was split at its colons.\<close>

definition detect_on :: "launch_hooks \<Rightarrow> moment \<Rightarrow> agent_adapter \<Rightarrow> (string, string) amap \<Rightarrow> string option" where
  "detect_on h m adapter env =
     (case detect_agent (mo_isExecutable m) (lh_join h) (aa_id adapter)
         (split_on (CHR '':'') (case aget env ''PATH'' of None \<Rightarrow> [] | Some p \<Rightarrow> p)) of
        None \<Rightarrow> None
      | Some r \<Rightarrow> r)"

definition probe_agent :: "launch_hooks \<Rightarrow> moment \<Rightarrow> agent_adapter \<Rightarrow> bool" where
  "probe_agent h m adapter =
     (case lh_detectAgent h of
        Some d \<Rightarrow> d adapter
      | None \<Rightarrow> detect_on h m adapter (shimFreeEnv h m) \<noteq> None)"

text \<open>The clock is read before the probe and again behind it.\<close>

definition isAvailable ::
  "launch_hooks \<Rightarrow> moment \<Rightarrow> moment \<Rightarrow> agent_adapter \<Rightarrow> detect_cache \<Rightarrow> bool \<times> detect_cache" where
  "isAvailable h m m' adapter cache =
     (let probe = (let available = probe_agent h m adapter
                   in (available, aset (aa_id adapter) (mo_now m', available) cache))
      in case aget cache (aa_id adapter) of
           None \<Rightarrow> probe
         | Some (at, available) \<Rightarrow> if mo_now m - at < DETECT_CACHE_TTL_MS then (available, cache) else probe)"

record project =
  pj_id :: string
  pj_name :: string
  pj_path :: string

definition listProjects :: "crypto \<Rightarrow> text_file \<Rightarrow> project list option" where
  "listProjects C f =
     map_option (map (\<lambda>path. \<lparr>pj_id = projectId C path, pj_name = basename path, pj_path = path\<rparr>)) (readList f)"

fun available_from ::
  "launch_hooks \<Rightarrow> (nat \<Rightarrow> moment) \<Rightarrow> nat \<Rightarrow> agent_adapter list \<Rightarrow> detect_cache \<Rightarrow> agent_adapter list \<times> detect_cache" where
  "available_from h w k [] cache = ([], cache)"
| "available_from h w k (adapter # adapters) cache =
     (let (yes, cache1) = isAvailable h (w k) (w (Suc k)) adapter cache;
          (rest, cache2) = available_from h w (Suc (Suc k)) adapters cache1
      in (if yes then adapter # rest else rest, cache2))"

definition availableAdapters ::
  "launch_hooks \<Rightarrow> (nat \<Rightarrow> moment) \<Rightarrow> detect_cache \<Rightarrow> agent_adapter list \<times> detect_cache" where
  "availableAdapters h w cache = available_from h w 0 listAgents cache"

subsection \<open>\<open>launch.options\<close>\<close>

record agent_offer =
  ao_id :: string
  ao_name :: string
  ao_models :: "(string \<times> string) list"
  ao_promptSupported :: bool

text \<open>\<open>None\<close>: the list of boarded repositories could not be read.\<close>

definition launch_options ::
  "crypto \<Rightarrow> launch_hooks \<Rightarrow> text_file \<Rightarrow> (nat \<Rightarrow> moment) \<Rightarrow> detect_cache \<Rightarrow>
   (project list \<times> agent_offer list) option \<times> detect_cache" where
  "launch_options C h f w cache =
     (let (adapters, cache1) = availableAdapters h w cache
      in (map_option (\<lambda>projects. (projects,
            map (\<lambda>a. \<lparr>ao_id = aa_id a, ao_name = aa_name a, ao_models = aa_models a,
                      ao_promptSupported = (aa_promptArg a \<noteq> NoPrompt)\<rparr>) adapters)) (listProjects C f), cache1))"

subsection \<open>\<open>launch.start\<close>\<close>

datatype launch_fault = LaunchRefusedError | ListFault | ClaimFault thrown

datatype launch_effect = ReserveFx session_spec | ClaimFx string | AuditFx string

definition launchDetail :: "launch_params \<Rightarrow> string \<Rightarrow> string" where
  "launchDetail params projectName =
     (case lp_modelId params of None \<Rightarrow> lp_agentId params | Some m \<Rightarrow> lp_agentId params @ '':'' @ m) @
     '' in '' @ projectName"

text \<open>The joins against the current lists and the composed spawn; \<open>k\<close> is the moment behind the last probe.\<close>

definition compose_spec ::
  "launch_hooks \<Rightarrow> moment \<Rightarrow> string \<Rightarrow> launch_params \<Rightarrow> project \<Rightarrow> agent_adapter \<Rightarrow> session_spec option" where
  "compose_spec h m uuid params project adapter =
     (let env = shimFreeEnv h m
      in case detect_on h m adapter env of
           None \<Rightarrow> None
         | Some bin \<Rightarrow>
             Some \<lparr>ss_argv = buildLaunchArgv adapter
                     \<lparr>la_bin = Some bin, la_modelId = lp_modelId params, la_prompt = lp_prompt params\<rparr>,
                   ss_cwd = pj_path project,
                   ss_env = aset ''PHERRY_LOCAL_ID'' uuid env,
                   ss_cols = (case fst (lp_size params) of None \<Rightarrow> DEFAULT_COLS | Some n \<Rightarrow> n),
                   ss_rows = (case snd (lp_size params) of None \<Rightarrow> DEFAULT_ROWS | Some n \<Rightarrow> n)\<rparr>)"

definition selection ::
  "crypto \<Rightarrow> launch_hooks \<Rightarrow> text_file \<Rightarrow> (nat \<Rightarrow> moment) \<Rightarrow> string \<Rightarrow> launch_params \<Rightarrow> detect_cache \<Rightarrow>
   (launch_fault + project \<times> session_spec) \<times> detect_cache" where
  "selection C h f w uuid params cache =
     (case listProjects C f of
        None \<Rightarrow> (Inl ListFault, cache)
      | Some projects \<Rightarrow>
          (case find (\<lambda>entry. pj_id entry = lp_projectId params) projects of
             None \<Rightarrow> (Inl LaunchRefusedError, cache)
           | Some project \<Rightarrow>
               (case availableAdapters h w cache of (adapters, cache1) \<Rightarrow>
                 (case find (\<lambda>entry. aa_id entry = lp_agentId params) adapters of
                    None \<Rightarrow> (Inl LaunchRefusedError, cache1)
                  | Some adapter \<Rightarrow>
                      if (case lp_modelId params of None \<Rightarrow> False | Some m \<Rightarrow> m \<notin> fst ` set (aa_models adapter))
                      then (Inl LaunchRefusedError, cache1)
                      else if truthy (lp_prompt params) \<and> aa_promptArg adapter = NoPrompt
                      then (Inl LaunchRefusedError, cache1)
                      else (case compose_spec h (w (2 * length listAgents)) uuid params project adapter of
                              None \<Rightarrow> (Inl LaunchRefusedError, cache1)
                            | Some spec \<Rightarrow> (Inr (project, spec), cache1))))))"

text \<open>The spawner gives the reference of the reservation, and the claim of it succeeds or throws.\<close>

definition launch_start ::
  "crypto \<Rightarrow> launch_hooks \<Rightarrow> text_file \<Rightarrow> (nat \<Rightarrow> moment) \<Rightarrow> string \<Rightarrow> launch_params \<Rightarrow>
   (session_spec \<Rightarrow> string) \<Rightarrow> (string \<Rightarrow> thrown option) \<Rightarrow> detect_cache \<Rightarrow>
   (launch_fault + string) \<times> launch_effect list \<times> detect_cache" where
  "launch_start C h f w uuid params reserve claim cache =
     (case selection C h f w uuid params cache of
        (Inl e, cache1) \<Rightarrow> (Inl e, [], cache1)
      | (Inr (project, spec), cache1) \<Rightarrow>
          let sessionRef = reserve spec
          in case claim sessionRef of
               Some e \<Rightarrow> (Inl (ClaimFault e), [ReserveFx spec, ClaimFx sessionRef], cache1)
             | None \<Rightarrow>
                 (Inr sessionRef,
                  [ReserveFx spec, ClaimFx sessionRef, AuditFx (launchDetail params (pj_name project))], cache1))"

end
