(* ===== verification/LaunchTheorems.thy ===== *)
theory LaunchTheorems
  imports LaunchHooks
begin

text \<open>
  Properties of the remote launch: what reaches the spawner was composed from the host's own lists, and
  what the options advertise can be started.
\<close>

subsection \<open>Environments and binaries\<close>

lemma split_filtered_path:
  assumes "shims \<noteq> []"
  shows "shims \<notin> set (split_on c (join_with [c] (filter (\<lambda>e. e \<noteq> shims) (split_on c p))))"
proof (cases "filter (\<lambda>e. e \<noteq> shims) (split_on c p) = []")
  case False
  have "\<forall>x \<in> set (filter (\<lambda>e. e \<noteq> shims) (split_on c p)). c \<notin> set x" using split_on_members by fastforce
  from split_join [OF False this] show ?thesis by simp
qed (use assms in simp)

lemma PATH_survives: "\<not> (''PATH'' = CLAUDE_SESSION_MARKER \<or> starts_with CLAUDE_SESSION_PREFIX ''PATH'')"
  by (simp add: CLAUDE_SESSION_MARKER_def CLAUDE_SESSION_PREFIX_def starts_with_def)

lemma shimFree_get:
  "k \<noteq> ''PATH'' \<Longrightarrow> aget (shimFreeEnv h m) k =
     (if k = CLAUDE_SESSION_MARKER \<or> starts_with CLAUDE_SESSION_PREFIX k then None else aget (stringOnly (mo_env m)) k)"
  by (auto simp: shimFreeEnv_def Let_def envForSpawn_get split: option.split)

lemma shimFree_path:
  "aget (shimFreeEnv h m) ''PATH'' = Some p \<Longrightarrow> lh_shims h \<noteq> [] \<Longrightarrow> lh_shims h \<notin> set (split_on (CHR '':'') p)"
  using split_filtered_path [of "lh_shims h" "CHR '':''"]
  by (auto simp: shimFreeEnv_def Let_def split: option.splits)

lemma detect_in_some: "detect_in ex join bin dirs = Some b \<Longrightarrow> \<exists>dir \<in> set dirs. dir \<noteq> [] \<and> b = join dir bin \<and> ex b"
  by (induction dirs) (auto split: if_splits)

lemma agent_by_id: "a \<in> set listAgents \<Longrightarrow> getAdapter (aa_id a) = Some a"
proof -
  assume "a \<in> set listAgents"
  then have "a = claude \<or> a = codex \<or> a = gemini \<or> a = opencode \<or> a = kimi"
    by (simp add: listAgents_def AGENT_ADAPTERS_def)
  then show ?thesis by (elim disjE) (simp_all add: getAdapter_def adapter_defs)
qed

lemma detect_on_some:
  assumes "detect_on h m a (shimFreeEnv h m) = Some bin" and "a \<in> set listAgents" and "lh_shims h \<noteq> []"
  shows "\<exists>dir. dir \<noteq> lh_shims h \<and> dir \<noteq> [] \<and> bin = lh_join h dir (aa_bin a) \<and> mo_isExecutable m bin"
proof -
  let ?p = "case aget (shimFreeEnv h m) ''PATH'' of None \<Rightarrow> [] | Some p \<Rightarrow> p"
  have "detect_in (mo_isExecutable m) (lh_join h) (aa_bin a) (split_on (CHR '':'') ?p) = Some bin"
    using assms(1) agent_by_id [OF assms(2)] by (simp add: detect_on_def detect_agent_def)
  from detect_in_some [OF this] obtain dir where dir: "dir \<in> set (split_on (CHR '':'') ?p)" "dir \<noteq> []"
    "bin = lh_join h dir (aa_bin a)" "mo_isExecutable m bin" by blast
  have "dir \<noteq> lh_shims h"
    using dir(1,2) shimFree_path [of h m, OF _ assms(3)] by (auto split: option.splits)
  with dir show ?thesis by blast
qed

lemma available_known: "set (fst (available_from h w k as cache)) \<subseteq> set as"
proof (induction as arbitrary: k cache)
  case (Cons a as)
  obtain yes c1 where y: "isAvailable h (w k) (w (Suc k)) a cache = (yes, c1)" by fastforce
  obtain rest c2 where r: "available_from h w (Suc (Suc k)) as c1 = (rest, c2)" by fastforce
  have "set rest \<subseteq> set as" using Cons.IH [of "Suc (Suc k)" c1] r by simp
  then show ?case using y r by auto
qed simp

subsection \<open>What is launched\<close>

lemma selection_cases:
  assumes "selection C h f w uuid params cache = (Inr (project, spec), cache1)"
  obtains boarded adapters adapter where "readList f = Some boarded" "pj_path project \<in> set boarded"
    "pj_id project = lp_projectId params" "project = \<lparr>pj_id = projectId C (pj_path project), pj_name = basename (pj_path project), pj_path = pj_path project\<rparr>"
    "availableAdapters h w cache = (adapters, cache1)" "adapter \<in> set adapters" "aa_id adapter = lp_agentId params"
    "\<And>m. lp_modelId params = Some m \<Longrightarrow> m \<in> fst ` set (aa_models adapter)"
    "truthy (lp_prompt params) \<Longrightarrow> aa_promptArg adapter \<noteq> NoPrompt"
    "compose_spec h (w (2 * length listAgents)) uuid params project adapter = Some spec"
proof -
  from assms obtain projects where ps: "listProjects C f = Some projects"
    "find (\<lambda>entry. pj_id entry = lp_projectId params) projects \<noteq> None"
    by (auto simp: selection_def split: option.splits)
  obtain adapters c1 where ad: "availableAdapters h w cache = (adapters, c1)" by fastforce
  from assms ps ad have sel: "find (\<lambda>entry. pj_id entry = lp_projectId params) projects = Some project" "c1 = cache1"
    "\<exists>adapter. find (\<lambda>entry. aa_id entry = lp_agentId params) adapters = Some adapter \<and>
      (\<forall>m. lp_modelId params = Some m \<longrightarrow> m \<in> fst ` set (aa_models adapter)) \<and>
      (truthy (lp_prompt params) \<longrightarrow> aa_promptArg adapter \<noteq> NoPrompt) \<and>
      compose_spec h (w (2 * length listAgents)) uuid params project adapter = Some spec"
    by (auto simp: selection_def split: option.splits if_splits)
  then obtain adapter where a: "find (\<lambda>entry. aa_id entry = lp_agentId params) adapters = Some adapter"
      "\<forall>m. lp_modelId params = Some m \<longrightarrow> m \<in> fst ` set (aa_models adapter)"
      "truthy (lp_prompt params) \<longrightarrow> aa_promptArg adapter \<noteq> NoPrompt"
      "compose_spec h (w (2 * length listAgents)) uuid params project adapter = Some spec" by blast
  have "adapter \<in> set adapters" "aa_id adapter = lp_agentId params" using a(1) by (auto simp: find_Some_iff)
  moreover have "project \<in> set projects" "pj_id project = lp_projectId params" using sel(1) by (auto simp: find_Some_iff)
  ultimately show thesis using that ps(1) ad sel(2) a by (auto simp: listProjects_def)
qed

lemma start_reserves:
  assumes "launch_start C h f w uuid params reserve claim cache = (res, fx, cache')"
  shows "(\<exists>project spec. selection C h f w uuid params cache = (Inr (project, spec), cache') \<and>
      fx = [ReserveFx spec, ClaimFx (reserve spec)] @
        (if claim (reserve spec) = None then [AuditFx (launchDetail params (pj_name project))] else []) \<and>
      res = (case claim (reserve spec) of None \<Rightarrow> Inr (reserve spec) | Some e \<Rightarrow> Inl (ClaimFault e))) \<or>
    (\<exists>e. selection C h f w uuid params cache = (Inl e, cache') \<and> fx = [] \<and> res = Inl e)"
proof -
  obtain r c where sel: "selection C h f w uuid params cache = (r, c)" by fastforce
  show ?thesis
  proof (cases r)
    case (Inl e)
    then show ?thesis using assms sel by (simp add: launch_start_def)
  next
    case (Inr ps)
    obtain project spec where ps: "ps = (project, spec)" by fastforce
    show ?thesis using assms sel Inr ps
      by (intro disjI1 exI [of _ project] exI [of _ spec]) (simp add: launch_start_def Let_def split: option.splits)
  qed
qed

text \<open>C33: Whatever a remote launch asks for, a spawn is only reserved in a repository that is boarded at that
  moment under the identifier sent, of a known agent's own binary found on the search path outside the
  directory of the shims, with an offered model, with the prompt as one argument, in the daemon's
  environment less the session markers; and a call that reserves nothing has no effect.\<close>
theorem remote_launch_is_confined:
  assumes "launch_start C h f w uuid params reserve claim cache = (res, fx, cache')" and "lh_shims h \<noteq> []"
  shows "(fx = [] \<and> (\<exists>e. res = Inl e)) \<or>
    (\<exists>spec boarded adapter dir. hd fx = ReserveFx spec \<and> list_all (\<lambda>e. \<forall>s. e \<noteq> ReserveFx s) (tl fx) \<and>
       readList f = Some boarded \<and> ss_cwd spec \<in> set boarded \<and> projectId C (ss_cwd spec) = lp_projectId params \<and>
       adapter \<in> set listAgents \<and> aa_id adapter = lp_agentId params \<and>
       dir \<noteq> lh_shims h \<and> mo_isExecutable (w (2 * length listAgents)) (lh_join h dir (aa_bin adapter)) \<and>
       ss_argv spec = lh_join h dir (aa_bin adapter) # model_args adapter (lp_modelId params) @ prompt_args adapter (lp_prompt params) \<and>
       (\<forall>m. lp_modelId params = Some m \<longrightarrow> m \<in> fst ` set (aa_models adapter)) \<and>
       (\<forall>t. lp_prompt params = Some t \<and> t \<noteq> [] \<longrightarrow> last (ss_argv spec) = t) \<and>
       aget (ss_env spec) ''PHERRY_LOCAL_ID'' = Some uuid \<and>
       (\<forall>k. k \<notin> {''PATH'', ''PHERRY_LOCAL_ID''} \<longrightarrow> aget (ss_env spec) k =
          (if k = CLAUDE_SESSION_MARKER \<or> starts_with CLAUDE_SESSION_PREFIX k then None
           else aget (stringOnly (mo_env (w (2 * length listAgents)))) k)))"
proof (cases "fst (selection C h f w uuid params cache)")
  case (Inl e)
  then show ?thesis using start_reserves [OF assms(1)] by auto
next
  case (Inr ps)
  then obtain project spec where sel: "selection C h f w uuid params cache = (Inr (project, spec), cache')"
      and fx: "fx = [ReserveFx spec, ClaimFx (reserve spec)] @
        (if claim (reserve spec) = None then [AuditFx (launchDetail params (pj_name project))] else [])"
    using start_reserves [OF assms(1)] by auto
  let ?m = "w (2 * length listAgents)"
  from selection_cases [OF sel] obtain boarded adapters a where
      b: "readList f = Some boarded" "pj_path project \<in> set boarded" "pj_id project = lp_projectId params"
        "pj_id project = projectId C (pj_path project)"
      and a: "availableAdapters h w cache = (adapters, cache')" "a \<in> set adapters" "aa_id a = lp_agentId params"
        "\<forall>m. lp_modelId params = Some m \<longrightarrow> m \<in> fst ` set (aa_models a)"
        "truthy (lp_prompt params) \<Longrightarrow> aa_promptArg a \<noteq> NoPrompt"
      and c: "compose_spec h ?m uuid params project a = Some spec"
    by (metis project.select_convs(1))
  have known: "a \<in> set listAgents" using a(1,2) available_known [of h w 0 listAgents cache] by (auto simp: availableAdapters_def)
  then have argv: "aa_launchArgv a = [aa_bin a]" using table_shape agent_by_id by blast
  from c obtain bin where bin: "detect_on h ?m a (shimFreeEnv h ?m) = Some bin" by (auto simp: compose_spec_def Let_def split: option.splits)
  from detect_on_some [OF this known assms(2)] obtain dir where dir: "dir \<noteq> lh_shims h"
    "bin = lh_join h dir (aa_bin a)" "mo_isExecutable ?m bin" by blast
  have spec: "ss_argv spec = bin # model_args a (lp_modelId params) @ prompt_args a (lp_prompt params)"
    "ss_cwd spec = pj_path project" "ss_env spec = aset ''PHERRY_LOCAL_ID'' uuid (shimFreeEnv h ?m)"
    using c bin argv by (auto simp: compose_spec_def Let_def buildLaunchArgv_def)
  have lp: "last (ss_argv spec) = t" if "lp_prompt params = Some t" "t \<noteq> []" for t
    using a(5) that spec(1) by (auto simp: prompt_args_def truthy_def split: prompt_arg.splits)
  have "\<forall>k. k \<notin> {''PATH'', ''PHERRY_LOCAL_ID''} \<longrightarrow> aget (ss_env spec) k =
          (if k = CLAUDE_SESSION_MARKER \<or> starts_with CLAUDE_SESSION_PREFIX k then None
           else aget (stringOnly (mo_env ?m)) k)"
    unfolding spec(3) using shimFree_get by simp
  then show ?thesis using fx b a(3,4) known dir spec lp
    by (intro disjI2 exI [of _ spec] exI [of _ boarded] exI [of _ a] exI [of _ dir]) simp
qed

subsection \<open>What is advertised\<close>

text \<open>A cached verdict agrees with the machine.\<close>

definition cache_true :: "launch_hooks \<Rightarrow> moment \<Rightarrow> detect_cache \<Rightarrow> bool" where
  "cache_true h m cache \<longleftrightarrow>
     (\<forall>a \<in> set listAgents. \<forall>at av. aget cache (aa_id a) = Some (at, av) \<longrightarrow> av = probe_agent h m a)"

definition same_machine :: "moment \<Rightarrow> moment \<Rightarrow> bool" where
  "same_machine m m' \<longleftrightarrow> mo_env m = mo_env m' \<and> mo_isExecutable m = mo_isExecutable m'"

lemma probe_same: "same_machine m m' \<Longrightarrow> probe_agent h m a = probe_agent h m' a"
  by (simp add: same_machine_def probe_agent_def detect_on_def shimFreeEnv_def split: option.split)

lemma agents_by_id: "a \<in> set listAgents \<Longrightarrow> b \<in> set listAgents \<Longrightarrow> aa_id a = aa_id b \<Longrightarrow> a = b"
  using agent_by_id by (metis option.inject)

lemma isAvailable_true:
  assumes "cache_true h m cache" and "same_machine m1 m" and "a \<in> set listAgents"
    and "isAvailable h m1 m2 a cache = (yes, cache')"
  shows "yes = probe_agent h m a \<and> cache_true h m cache'"
proof -
  have p: "probe_agent h m1 a = probe_agent h m a" using probe_same [OF assms(2)] .
  have new: "cache_true h m (aset (aa_id a) (t, probe_agent h m a) cache)" for t
    using assms(1,3) agents_by_id unfolding cache_true_def by (metis aget_aset option.inject prod.inject)
  show ?thesis
  proof (cases "aget cache (aa_id a)")
    case None
    then show ?thesis using assms(4) p new by (auto simp: isAvailable_def Let_def)
  next
    case (Some x)
    obtain at av where x: "x = (at, av)" by fastforce
    with Some have "av = probe_agent h m a" using assms(1,3) unfolding cache_true_def by blast
    then show ?thesis using assms(1,4) Some x p new by (auto simp: isAvailable_def Let_def split: if_splits)
  qed
qed

lemma available_true:
  assumes "cache_true h m cache" and "\<forall>k. same_machine (w k) m" and "set as \<subseteq> set listAgents"
    and "available_from h w k as cache = (bs, cache')"
  shows "bs = filter (probe_agent h m) as \<and> cache_true h m cache'"
  using assms
proof (induction as arbitrary: k cache bs cache')
  case (Cons a as)
  obtain yes c1 where y: "isAvailable h (w k) (w (Suc k)) a cache = (yes, c1)" by fastforce
  obtain rest c2 where r: "available_from h w (Suc (Suc k)) as c1 = (rest, c2)" by fastforce
  have "yes = probe_agent h m a \<and> cache_true h m c1"
    using isAvailable_true [OF Cons.prems(1) _ _ y] Cons.prems(2,3) by simp
  moreover from this have "rest = filter (probe_agent h m) as \<and> cache_true h m c2"
    using Cons.IH [of c1 _ rest c2] Cons.prems(2,3) r by simp
  ultimately show ?case using Cons.prems(4) y r by auto
qed simp

text \<open>What the options advertise can be launched: with the list of repositories and the machine unchanged
  (the clock may run on), any advertised project, agent and model, with a prompt where prompts are
  supported, reserves a session, and the call answers with its reference when the claim succeeds.\<close>
lemma advertised_launches_start:
  assumes "lh_detectAgent h = None" and "\<forall>k. same_machine (w k) m \<and> same_machine (w' k) m"
    and "launch_options C h f w [] = (Some (projects, agents), cache)"
    and "p \<in> set projects" and "pj_id p = lp_projectId params"
    and "a \<in> set agents" and "ao_id a = lp_agentId params"
    and "\<forall>x. lp_modelId params = Some x \<longrightarrow> x \<in> fst ` set (ao_models a)"
    and "truthy (lp_prompt params) \<longrightarrow> ao_promptSupported a"
  shows "\<exists>spec. ReserveFx spec \<in> set (fst (snd (launch_start C h f w' uuid params reserve claim cache))) \<and>
    (claim (reserve spec) = None \<longrightarrow> fst (launch_start C h f w' uuid params reserve claim cache) = Inr (reserve spec))"
proof -
  have empty: "cache_true h m []" by (simp add: cache_true_def)
  obtain as c1 where as: "available_from h w 0 listAgents [] = (as, c1)" by fastforce
  have o: "map_option (\<lambda>ps. (ps, map (\<lambda>a. \<lparr>ao_id = aa_id a, ao_name = aa_name a, ao_models = aa_models a,
      ao_promptSupported = (aa_promptArg a \<noteq> NoPrompt)\<rparr>) as)) (listProjects C f) = Some (projects, agents)" "c1 = cache"
    using assms(3) as by (simp_all add: launch_options_def availableAdapters_def)
  have t: "as = filter (probe_agent h m) listAgents" "cache_true h m cache"
    using available_true [OF empty _ order_refl as] assms(2) o(2) by simp_all
  obtain bs c2 where bs: "available_from h w' 0 listAgents cache = (bs, c2)" by fastforce
  have bs_as: "bs = as" using available_true [OF t(2) _ order_refl bs] assms(2) t(1) by simp
  from assms(6) o obtain ad where ad: "ad \<in> set as" "a = \<lparr>ao_id = aa_id ad, ao_name = aa_name ad, ao_models = aa_models ad,
      ao_promptSupported = (aa_promptArg ad \<noteq> NoPrompt)\<rparr>" by auto
  then have id: "aa_id ad = lp_agentId params" using assms(7) by simp
  have found: "find (\<lambda>entry. aa_id entry = lp_agentId params) bs = Some ad"
  proof -
    obtain b where b: "find (\<lambda>entry. aa_id entry = lp_agentId params) bs = Some b"
      using ad(1) id bs_as find_None_iff [of "\<lambda>entry. aa_id entry = lp_agentId params" bs] by (cases "find (\<lambda>entry. aa_id entry = lp_agentId params) bs") auto
    then have "b \<in> set bs" "aa_id b = aa_id ad" using id by (auto simp: find_Some_iff)
    moreover have "b \<in> set listAgents" "ad \<in> set listAgents" using ad(1) bs_as t(1) \<open>b \<in> set bs\<close> by simp_all
    ultimately have "b = ad" using agents_by_id by blast
    then show ?thesis using b by simp
  qed
  obtain q where q: "find (\<lambda>entry. pj_id entry = lp_projectId params) projects = Some q"
    using assms(4,5) find_None_iff [of "\<lambda>entry. pj_id entry = lp_projectId params" projects]
    by (cases "find (\<lambda>entry. pj_id entry = lp_projectId params) projects") auto
  let ?m = "w' (2 * length listAgents)"
  have "same_machine ?m m" using assms(2) by blast
  then have "probe_agent h ?m ad" using probe_same t(1) ad(1) by simp
  then obtain bin where "detect_on h ?m ad (shimFreeEnv h ?m) = Some bin"
    using assms(1) by (auto simp: probe_agent_def)
  then obtain spec where spec: "compose_spec h ?m uuid params q ad = Some spec" by (simp add: compose_spec_def Let_def)
  have pj: "listProjects C f = Some projects" using o(1) by auto
  have "\<not> (case lp_modelId params of None \<Rightarrow> False | Some x \<Rightarrow> x \<notin> fst ` set (aa_models ad))"
    using assms(8) ad(2) by (simp split: option.split)
  moreover have "\<not> (truthy (lp_prompt params) \<and> aa_promptArg ad = NoPrompt)" using assms(9) ad(2) by simp
  ultimately have "selection C h f w' uuid params cache = (Inr (q, spec), c2)"
    using pj q bs found spec by (simp add: selection_def availableAdapters_def)
  then show ?thesis by (intro exI [of _ spec]) (simp add: launch_start_def Let_def split: option.split)
qed

subsection \<open>One machine\<close>

definition demo_hooks :: launch_hooks where
  "demo_hooks = \<lparr>lh_shims = ''/s'', lh_detectAgent = None, lh_join = (\<lambda>d n. d @ ''/'' @ n)\<rparr>"

definition demo_moment :: "nat \<Rightarrow> moment" where
  "demo_moment k =
     \<lparr>mo_now = int k * 7, mo_env = [(''PATH'', Some ''/s:/bin''), (''CLAUDECODE'', Some ''1''), (''TERM'', None)],
      mo_isExecutable = (\<lambda>p. p = ''/bin/codex'' \<or> p = ''/s/codex'')\<rparr>"

definition demo_boarded :: text_file where
  "demo_boarded = writeList [''/w/a'', ''/w/b'']"

definition demo_params :: launch_params where
  "demo_params = \<lparr>lp_projectId = projectId demo_crypto ''/w/b'', lp_agentId = ''codex'', lp_modelId = Some ''gpt-5'',
     lp_prompt = Some ''fix; it'', lp_size = (None, Some 40)\<rparr>"

definition demo_spec :: session_spec where
  "demo_spec = \<lparr>ss_argv = [''/bin/codex'', ''--model'', ''gpt-5'', ''fix; it''], ss_cwd = ''/w/b'',
     ss_env = [(''PATH'', ''/bin''), (''PHERRY_LOCAL_ID'', ''u1'')], ss_cols = 80, ss_rows = 40\<rparr>"

lemma demo_selected:
  "fst (selection demo_crypto demo_hooks demo_boarded demo_moment ''u1'' demo_params []) =
     Inr (\<lparr>pj_id = projectId demo_crypto ''/w/b'', pj_name = ''b'', pj_path = ''/w/b''\<rparr>, demo_spec)"
  by code_simp

lemma demo_started:
  "\<exists>cache. launch_start demo_crypto demo_hooks demo_boarded demo_moment ''u1'' demo_params (\<lambda>_. ''r1'') (\<lambda>_. None) [] =
     (Inr ''r1'', [ReserveFx demo_spec, ClaimFx ''r1'', AuditFx ''codex:gpt-5 in b''], cache)"
proof -
  obtain r c where sel: "selection demo_crypto demo_hooks demo_boarded demo_moment ''u1'' demo_params [] = (r, c)" by fastforce
  then have "r = Inr (\<lparr>pj_id = projectId demo_crypto ''/w/b'', pj_name = ''b'', pj_path = ''/w/b''\<rparr>, demo_spec)"
    using demo_selected by simp
  then show ?thesis using sel by (simp add: launch_start_def launchDetail_def demo_params_def Let_def)
qed

lemma remote_launch_is_confined_witness:
  "\<exists>boarded adapter dir. readList demo_boarded = Some boarded \<and> ss_cwd demo_spec \<in> set boarded \<and>
     adapter \<in> set listAgents \<and> aa_id adapter = ''codex'' \<and> dir \<noteq> ''/s'' \<and>
     mo_isExecutable (demo_moment 10) (dir @ ''/'' @ aa_bin adapter) \<and> aget (ss_env demo_spec) ''CLAUDECODE'' = None"
proof -
  obtain cache where st: "launch_start demo_crypto demo_hooks demo_boarded demo_moment ''u1'' demo_params (\<lambda>_. ''r1'') (\<lambda>_. None) [] =
     (Inr ''r1'', [ReserveFx demo_spec, ClaimFx ''r1'', AuditFx ''codex:gpt-5 in b''], cache)"
    using demo_started by blast
  have "lh_shims demo_hooks \<noteq> []" by (simp add: demo_hooks_def)
  from remote_launch_is_confined [OF st this]
  obtain spec boarded adapter dir where s: "spec = demo_spec" and
      r: "readList demo_boarded = Some boarded" "ss_cwd spec \<in> set boarded" "adapter \<in> set listAgents"
        "aa_id adapter = lp_agentId demo_params" "dir \<noteq> lh_shims demo_hooks"
        "mo_isExecutable (demo_moment (2 * length listAgents)) (lh_join demo_hooks dir (aa_bin adapter))"
      and e: "\<forall>k. k \<notin> {''PATH'', ''PHERRY_LOCAL_ID''} \<longrightarrow> aget (ss_env spec) k =
          (if k = CLAUDE_SESSION_MARKER \<or> starts_with CLAUDE_SESSION_PREFIX k then None
           else aget (stringOnly (mo_env (demo_moment (2 * length listAgents)))) k)"
    by auto
  have "aget (ss_env spec) ''CLAUDECODE'' = None" using e by (simp add: CLAUDE_SESSION_MARKER_def)
  moreover have "2 * length listAgents = 10" by (simp add: listAgents_def AGENT_ADAPTERS_def)
  ultimately show ?thesis using r unfolding s
    by (intro exI [of _ boarded] exI [of _ adapter] exI [of _ dir]) (simp add: demo_hooks_def demo_params_def)
qed

lemma demo_same: "\<forall>k. same_machine (demo_moment k) (demo_moment 0) \<and> same_machine (demo_moment (k + 9000)) (demo_moment 0)"
  by (simp add: same_machine_def demo_moment_def)

definition demo_offer :: agent_offer where
  "demo_offer = \<lparr>ao_id = ''codex'', ao_name = ''Codex'', ao_models = aa_models codex, ao_promptSupported = True\<rparr>"

definition demo_projects :: "project list" where
  "demo_projects = map (\<lambda>p. \<lparr>pj_id = projectId demo_crypto p, pj_name = basename p, pj_path = p\<rparr>) [''/w/a'', ''/w/b'']"

lemma demo_offered:
  "fst (launch_options demo_crypto demo_hooks demo_boarded demo_moment []) = Some (demo_projects, [demo_offer])"
  by code_simp

lemma advertised_launches_start_witness:
  "\<exists>spec. ReserveFx spec \<in> set (fst (snd (launch_start demo_crypto demo_hooks demo_boarded (\<lambda>k. demo_moment (k + 9000)) ''u2''
      demo_params (\<lambda>_. ''r2'') (\<lambda>_. None) (snd (launch_options demo_crypto demo_hooks demo_boarded demo_moment []))))) \<and>
    ((None :: thrown option) = None \<longrightarrow> fst (launch_start demo_crypto demo_hooks demo_boarded (\<lambda>k. demo_moment (k + 9000)) ''u2''
      demo_params (\<lambda>_. ''r2'') (\<lambda>_. None) (snd (launch_options demo_crypto demo_hooks demo_boarded demo_moment []))) = Inr ''r2'')"
proof -
  have "launch_options demo_crypto demo_hooks demo_boarded demo_moment [] =
      (Some (demo_projects, [demo_offer]), snd (launch_options demo_crypto demo_hooks demo_boarded demo_moment []))"
    using demo_offered by (metis prod.collapse)
  moreover have "lh_detectAgent demo_hooks = None" by (simp add: demo_hooks_def)
  moreover have "\<lparr>pj_id = projectId demo_crypto ''/w/b'', pj_name = basename ''/w/b'', pj_path = ''/w/b''\<rparr> \<in> set demo_projects"
    by (simp add: demo_projects_def)
  moreover have "pj_id \<lparr>pj_id = projectId demo_crypto ''/w/b'', pj_name = basename ''/w/b'', pj_path = ''/w/b''\<rparr> =
      lp_projectId demo_params" by (simp add: demo_params_def)
  moreover have "demo_offer \<in> set [demo_offer]" "ao_id demo_offer = lp_agentId demo_params"
    "\<forall>x. lp_modelId demo_params = Some x \<longrightarrow> x \<in> fst ` set (ao_models demo_offer)"
    "truthy (lp_prompt demo_params) \<longrightarrow> ao_promptSupported demo_offer"
    by (simp_all add: demo_params_def demo_offer_def codex_def)
  ultimately show ?thesis
    using advertised_launches_start [OF _ demo_same, where params = demo_params and claim = "\<lambda>_. None" and reserve = "\<lambda>_. ''r2''"]
    by blast
qed

end
