(* ===== verification/Redis.thy ===== *)
theory Redis
  imports Prelude
begin

text \<open>
  \<open>apps/control-plane/src/redis.ts\<close>: the key-value store the control plane's services share, as the
  interface \<open>RedisLike\<close> (a locale over one call at a time) and as \<open>MemoryRedis\<close>, which provides it. A
  value is the text of a number or of a JSON document, or some other text; what documents there are is
  the services' business. The clock reading comes with the call.
\<close>

subsection \<open>Values and calls\<close>

datatype 'j redis_value = NumText int | JsonText 'j | OddText

datatype 'j redis_op =
    OpSet string "'j redis_value" bool "int option"
  | OpGet string
  | OpGetdel string
  | OpDel string
  | OpIncr string
  | OpPexpire string int

text \<open>\<open>OK\<close> or \<open>null\<close>, a value or \<open>null\<close>, nothing, a number (\<open>None\<close> is \<open>NaN\<close>).\<close>

datatype 'j redis_reply = RSet bool | RVal "'j redis_value option" | RVoid | RNum "int option"

text \<open>\<open>Number(value) + 1\<close> and its text.\<close>

definition bump :: "'j redis_value option \<Rightarrow> int option \<times> 'j redis_value" where
  "bump v =
     (case v of
        None \<Rightarrow> (Some 1, NumText 1)
      | Some (NumText n) \<Rightarrow> (Some (n + 1), NumText (n + 1))
      | Some _ \<Rightarrow> (None, OddText))"

subsection \<open>What a store promises\<close>

text \<open>To its clients a key has a value at each time from now on; a call changes that of one key.\<close>

definition redis_effect ::
  "'j redis_op \<Rightarrow> int \<Rightarrow> string \<Rightarrow> (int \<Rightarrow> 'j redis_value option) \<Rightarrow> int \<Rightarrow> 'j redis_value option" where
  "redis_effect op now k old t =
     (case op of
        OpSet k' v nx px \<Rightarrow>
          if k' \<noteq> k \<or> (nx \<and> old now \<noteq> None) then old t
          else (case px of None \<Rightarrow> Some v | Some ms \<Rightarrow> if now + ms \<le> t then None else Some v)
      | OpGet k' \<Rightarrow> old t
      | OpGetdel k' \<Rightarrow> if k' = k then None else old t
      | OpDel k' \<Rightarrow> if k' = k then None else old t
      | OpIncr k' \<Rightarrow>
          if k' \<noteq> k then old t
          else (case old now of
                  None \<Rightarrow> Some (snd (bump None))
                | Some v \<Rightarrow> if old t = None then None else Some (snd (bump (Some v))))
      | OpPexpire k' ms \<Rightarrow>
          if k' \<noteq> k then old t else if old now = None \<or> now + ms \<le> t then None else old now)"

definition redis_answer :: "'j redis_op \<Rightarrow> (string \<Rightarrow> 'j redis_value option) \<Rightarrow> 'j redis_reply" where
  "redis_answer op at =
     (case op of
        OpSet k v nx px \<Rightarrow> RSet (\<not> (nx \<and> at k \<noteq> None))
      | OpGet k \<Rightarrow> RVal (at k)
      | OpGetdel k \<Rightarrow> RVal (at k)
      | OpDel k \<Rightarrow> RVoid
      | OpIncr k \<Rightarrow> RNum (fst (bump (at k)))
      | OpPexpire k ms \<Rightarrow> RVoid)"

text \<open>Calls one after the other, each at its own time.\<close>

fun exec_all ::
  "(int \<Rightarrow> 'j redis_op \<Rightarrow> 's \<Rightarrow> 'j redis_reply \<times> 's) \<Rightarrow> (int \<times> 'j redis_op) list \<Rightarrow> 's \<Rightarrow> 'j redis_reply list \<times> 's" where
  "exec_all exec [] s = ([], s)"
| "exec_all exec ((now, op) # ops) s =
     (let (r, s1) = exec now op s; (rs, s2) = exec_all exec ops s1 in (r # rs, s2))"

lemma exec_all_append:
  "exec_all exec (xs @ ys) s =
     (fst (exec_all exec xs s) @ fst (exec_all exec ys (snd (exec_all exec xs s))),
      snd (exec_all exec ys (snd (exec_all exec xs s))))"
  by (induction xs arbitrary: s) (auto simp: Let_def split: prod.split)

lemma exec_all_length [simp]: "length (fst (exec_all exec xs s)) = length xs"
proof (induction xs arbitrary: s)
  case (Cons x xs)
  obtain now op where x: "x = (now, op)" by fastforce
  obtain r s1 where "exec now op s = (r, s1)" by fastforce
  then show ?case using Cons [of s1] x by (simp add: Let_def case_prod_beta)
qed simp

text \<open>The key of a call.\<close>

fun op_key :: "'j redis_op \<Rightarrow> string" where
  "op_key (OpSet k v nx px) = k"
| "op_key (OpGet k) = k"
| "op_key (OpGetdel k) = k"
| "op_key (OpDel k) = k"
| "op_key (OpIncr k) = k"
| "op_key (OpPexpire k ms) = k"

text \<open>A call that takes the key away.\<close>

definition takes :: "string \<Rightarrow> 'j redis_op \<Rightarrow> bool" where
  "takes k op \<longleftrightarrow> op = OpGetdel k \<or> op = OpDel k"

locale redis_like =
  fixes exec :: "int \<Rightarrow> 'j redis_op \<Rightarrow> 's \<Rightarrow> 'j redis_reply \<times> 's"
    and lookup :: "int \<Rightarrow> string \<Rightarrow> 's \<Rightarrow> 'j redis_value option"
  assumes effect: "now \<le> t \<Longrightarrow> lookup t k (snd (exec now op s)) = redis_effect op now k (\<lambda>t. lookup t k s) t"
    and answer: "fst (exec now op s) = redis_answer op (\<lambda>k. lookup now k s)"
    and fades: "now \<le> t \<Longrightarrow> lookup t k s = Some v \<Longrightarrow> lookup now k s = Some v"
begin

lemma getdel_takes: "now \<le> t \<Longrightarrow> lookup t k (snd (exec now (OpGetdel k) s)) = None"
  by (simp add: effect redis_effect_def)

text \<open>One step back: a document that is there was there before, or was just put there.\<close>

lemma document_step:
  assumes "lookup t k (snd (exec now op s)) = Some (JsonText j)" and "now \<le> t"
  shows "(lookup t k s = Some (JsonText j) \<and> \<not> takes k op) \<or>
    (lookup now k s = Some (JsonText j) \<and> (\<exists>ms. op = OpPexpire k ms)) \<or>
    (\<exists>nx px. op = OpSet k (JsonText j) nx px \<and> (nx \<longrightarrow> lookup now k s = None) \<and> (\<forall>ms. px = Some ms \<longrightarrow> t < now + ms))"
  using assms(1) unfolding effect [OF assms(2)]
  by (auto simp: redis_effect_def takes_def bump_def split: redis_op.splits if_splits option.splits redis_value.splits)

text \<open>Where no lifetime is prolonged, a document has one origin, within its lifetime, and was not taken since.\<close>

lemma document_origin:
  assumes "sorted (map fst ops @ [t])" and "\<forall>(n, op) \<in> set ops. \<forall>ms. op \<noteq> OpPexpire k ms" and "\<forall>t. lookup t k s = None"
    and "lookup t k (snd (exec_all exec ops s)) = Some (JsonText j)"
  shows "\<exists>i nx px. i < length ops \<and> snd (ops ! i) = OpSet k (JsonText j) nx px \<and> fst (exec_all exec ops s) ! i = RSet True \<and>
    (\<forall>ms. px = Some ms \<longrightarrow> t < fst (ops ! i) + ms) \<and> (\<forall>m. i < m \<and> m < length ops \<longrightarrow> \<not> takes k (snd (ops ! m)))"
  using assms
proof (induction ops rule: rev_induct)
  case (snoc x ops)
  obtain now op where x: "x = (now, op)" by fastforce
  let ?s = "snd (exec_all exec ops s)"
  have run: "exec_all exec (ops @ [(now, op)]) s = (fst (exec_all exec ops s) @ [fst (exec now op ?s)], snd (exec now op ?s))"
    by (simp add: exec_all_append Let_def case_prod_beta)
  have t: "now \<le> t" "sorted (map fst ops @ [t])" using snoc.prems(1) x by (auto simp: sorted_append)
  have "lookup t k (snd (exec now op ?s)) = Some (JsonText j)" using snoc.prems(4) run x by simp
  from document_step [OF this t(1)] snoc.prems(2) x
  consider (old) "lookup t k ?s = Some (JsonText j)" "\<not> takes k op"
    | (new) nx px where "op = OpSet k (JsonText j) nx px" "nx \<longrightarrow> lookup now k ?s = None" "\<forall>ms. px = Some ms \<longrightarrow> t < now + ms"
    by auto
  then show ?case
  proof cases
    case old
    from snoc.IH [OF t(2) _ snoc.prems(3) old(1)] snoc.prems(2)
    obtain i nx px where i: "i < length ops" "snd (ops ! i) = OpSet k (JsonText j) nx px" "fst (exec_all exec ops s) ! i = RSet True"
      "\<forall>ms. px = Some ms \<longrightarrow> t < fst (ops ! i) + ms" "\<forall>m. i < m \<and> m < length ops \<longrightarrow> \<not> takes k (snd (ops ! m))" by auto
    have "\<forall>m. i < m \<and> m < length (ops @ [x]) \<longrightarrow> \<not> takes k (snd ((ops @ [x]) ! m))"
      using i(5) old(2) x by (auto simp: nth_append less_Suc_eq)
    then show ?thesis using i by (intro exI [of _ i] exI [of _ nx] exI [of _ px]) (auto simp: x run nth_append)
  next
    case new
    have "fst (exec now op ?s) = RSet True" using new(1,2) by (simp add: answer redis_answer_def)
    then show ?thesis using new(1,3) unfolding x run
      by (intro exI [of _ "length ops"] exI [of _ nx] exI [of _ px]) (auto simp: nth_append less_Suc_eq)
  qed
qed simp

end

subsection \<open>The store in memory\<close>

record 'j redis_entry =
  re_value :: "'j redis_value"
  re_expiresAt :: "int option"

type_synonym 'j memory_redis = "(string, 'j redis_entry) amap"

definition expired :: "int \<Rightarrow> 'j redis_entry \<Rightarrow> bool" where
  "expired now e = (case re_expiresAt e of None \<Rightarrow> False | Some t \<Rightarrow> t \<le> now)"

text \<open>\<open>#live\<close>: the entry, or nothing and the store without it.\<close>

definition redis_live :: "int \<Rightarrow> string \<Rightarrow> 'j memory_redis \<Rightarrow> 'j redis_entry option \<times> 'j memory_redis" where
  "redis_live now k s =
     (case aget s k of
        None \<Rightarrow> (None, s)
      | Some e \<Rightarrow> if expired now e then (None, adel k s) else (Some e, s))"

definition redis_set ::
  "int \<Rightarrow> string \<Rightarrow> 'j redis_value \<Rightarrow> bool \<Rightarrow> int option \<Rightarrow> 'j memory_redis \<Rightarrow> bool \<times> 'j memory_redis" where
  "redis_set now k v nx px s =
     (let (e, s1) = (if nx then redis_live now k s else (None, s))
      in if e \<noteq> None then (False, s1)
         else (True, aset k \<lparr>re_value = v, re_expiresAt = map_option (\<lambda>ms. now + ms) px\<rparr> s1))"

definition redis_get :: "int \<Rightarrow> string \<Rightarrow> 'j memory_redis \<Rightarrow> 'j redis_value option \<times> 'j memory_redis" where
  "redis_get now k s = (let (e, s1) = redis_live now k s in (map_option re_value e, s1))"

definition redis_getdel :: "int \<Rightarrow> string \<Rightarrow> 'j memory_redis \<Rightarrow> 'j redis_value option \<times> 'j memory_redis" where
  "redis_getdel now k s =
     (let (e, s1) = redis_live now k s
      in case e of None \<Rightarrow> (None, s1) | Some e \<Rightarrow> (Some (re_value e), adel k s1))"

definition redis_del :: "string \<Rightarrow> 'j memory_redis \<Rightarrow> 'j memory_redis" where
  "redis_del k s = adel k s"

definition redis_incr :: "int \<Rightarrow> string \<Rightarrow> 'j memory_redis \<Rightarrow> int option \<times> 'j memory_redis" where
  "redis_incr now k s =
     (let (e, s1) = redis_live now k s; (n, v) = bump (map_option re_value e)
      in (n, aset k \<lparr>re_value = v, re_expiresAt = (case e of None \<Rightarrow> None | Some e \<Rightarrow> re_expiresAt e)\<rparr> s1))"

definition redis_pexpire :: "int \<Rightarrow> string \<Rightarrow> int \<Rightarrow> 'j memory_redis \<Rightarrow> 'j memory_redis" where
  "redis_pexpire now k ms s =
     (let (e, s1) = redis_live now k s
      in case e of None \<Rightarrow> s1 | Some e \<Rightarrow> aset k (e\<lparr>re_expiresAt := Some (now + ms)\<rparr>) s1)"

fun redis_exec :: "int \<Rightarrow> 'j redis_op \<Rightarrow> 'j memory_redis \<Rightarrow> 'j redis_reply \<times> 'j memory_redis" where
  "redis_exec now (OpSet k v nx px) s = (let (ok, s1) = redis_set now k v nx px s in (RSet ok, s1))"
| "redis_exec now (OpGet k) s = (let (v, s1) = redis_get now k s in (RVal v, s1))"
| "redis_exec now (OpGetdel k) s = (let (v, s1) = redis_getdel now k s in (RVal v, s1))"
| "redis_exec now (OpDel k) s = (RVoid, redis_del k s)"
| "redis_exec now (OpIncr k) s = (let (n, s1) = redis_incr now k s in (RNum n, s1))"
| "redis_exec now (OpPexpire k ms) s = (RVoid, redis_pexpire now k ms s)"

text \<open>What a key holds at a time.\<close>

definition redis_lookup :: "int \<Rightarrow> string \<Rightarrow> 'j memory_redis \<Rightarrow> 'j redis_value option" where
  "redis_lookup t k s =
     (case aget s k of None \<Rightarrow> None | Some e \<Rightarrow> if expired t e then None else Some (re_value e))"

lemma expired_later: "expired now e \<Longrightarrow> now \<le> t \<Longrightarrow> expired t e"
  by (auto simp: expired_def split: option.splits)

lemmas redis_op_defs = redis_live_def redis_set_def redis_get_def redis_getdel_def redis_del_def redis_incr_def
  redis_pexpire_def redis_lookup_def redis_effect_def redis_answer_def

lemma live_facts:
  "fst (redis_live now k s) = (case aget s k of None \<Rightarrow> None | Some e \<Rightarrow> if expired now e then None else Some e)"
  "aget (snd (redis_live now k s)) k' =
     (if k' = k then (case aget s k of None \<Rightarrow> None | Some e \<Rightarrow> if expired now e then None else Some e) else aget s k')"
  by (auto simp: redis_live_def split: option.splits)

lemma lookup_live: "now \<le> t \<Longrightarrow> redis_lookup t k' (snd (redis_live now k s)) = redis_lookup t k' s"
  by (auto simp: redis_lookup_def live_facts(2) expired_later split: option.split)

lemma lookup_aset:
  "redis_lookup t k' (aset k e s) = (if k' = k then (if expired t e then None else Some (re_value e)) else redis_lookup t k' s)"
  by (simp add: redis_lookup_def)

lemma lookup_adel: "redis_lookup t k' (adel k s) = (if k' = k then None else redis_lookup t k' s)"
  by (simp add: redis_lookup_def)

lemma lookup_now: "map_option re_value (fst (redis_live now k s)) = redis_lookup now k s"
  by (auto simp: live_facts(1) redis_lookup_def split: option.split)

lemma set_effect:
  "now \<le> t \<Longrightarrow> redis_lookup t k' (snd (redis_set now k v nx px s)) =
     redis_effect (OpSet k v nx px) now k' (\<lambda>t. redis_lookup t k' s) t"
  using lookup_now [of now k s] lookup_live [of now t k' k s]
  by (cases "fst (redis_live now k s)")
    (auto simp: redis_set_def redis_effect_def case_prod_beta lookup_aset expired_def split: option.split)

lemma lookup_dead: "fst (redis_live now k s) = None \<Longrightarrow> now \<le> t \<Longrightarrow> redis_lookup t k s = None"
  using expired_later [of now _ t] by (auto simp: live_facts(1) redis_lookup_def split: option.splits if_splits)

lemma getdel_effect:
  assumes "now \<le> t"
  shows "redis_lookup t k' (snd (redis_getdel now k s)) = redis_effect (OpGetdel k) now k' (\<lambda>t. redis_lookup t k' s) t"
proof (cases "fst (redis_live now k s)")
  case None
  then show ?thesis using lookup_dead [OF None assms] lookup_live [OF assms, of k' k s]
    by (auto simp: redis_getdel_def redis_effect_def case_prod_beta)
next
  case (Some e)
  then show ?thesis using lookup_live [OF assms, of k' k s]
    by (simp add: redis_getdel_def redis_effect_def case_prod_beta lookup_adel)
qed

lemma incr_effect:
  assumes "now \<le> t"
  shows "redis_lookup t k' (snd (redis_incr now k s)) = redis_effect (OpIncr k) now k' (\<lambda>t. redis_lookup t k' s) t"
proof (cases "fst (redis_live now k s)")
  case None
  then have "redis_lookup now k s = None" using lookup_now [of now k s] by simp
  then show ?thesis using None lookup_live [OF assms, of k' k s]
    by (auto simp: redis_incr_def redis_effect_def case_prod_beta lookup_aset expired_def)
next
  case (Some e)
  then have e: "aget s k = Some e" "\<not> expired now e" by (auto simp: live_facts(1) split: option.splits if_splits)
  have "redis_lookup now k s = Some (re_value e)" "redis_lookup t k s = (if expired t e then None else Some (re_value e))"
    using e by (simp_all add: redis_lookup_def)
  then show ?thesis using Some lookup_live [OF assms, of k' k s]
    by (auto simp: redis_incr_def redis_effect_def case_prod_beta lookup_aset expired_def)
qed

lemma pexpire_effect:
  assumes "now \<le> t"
  shows "redis_lookup t k' (redis_pexpire now k ms s) = redis_effect (OpPexpire k ms) now k' (\<lambda>t. redis_lookup t k' s) t"
proof (cases "fst (redis_live now k s)")
  case None
  then have "redis_lookup now k s = None" using lookup_now [of now k s] by simp
  moreover have "redis_lookup t k s = None" using lookup_dead [OF None assms] .
  ultimately show ?thesis using None lookup_live [OF assms, of k' k s]
    by (auto simp: redis_pexpire_def redis_effect_def case_prod_beta)
next
  case (Some e)
  then show ?thesis using lookup_now [of now k s] lookup_live [OF assms, of k' k s]
    by (auto simp: redis_pexpire_def redis_effect_def case_prod_beta lookup_aset expired_def)
qed

interpretation memory: redis_like redis_exec redis_lookup
proof
  fix now t :: int and k :: string and op :: "'j redis_op" and s :: "'j memory_redis" and v
  show "redis_lookup t k (snd (redis_exec now op s)) = redis_effect op now k (\<lambda>t. redis_lookup t k s) t" if "now \<le> t"
  proof (cases op)
    case (OpGet k')
    then show ?thesis using lookup_live [OF that, of k k' s] by (simp add: redis_get_def redis_effect_def case_prod_beta)
  next
    case (OpDel k')
    then show ?thesis by (auto simp: redis_del_def redis_effect_def lookup_adel)
  qed (use set_effect [OF that] getdel_effect [OF that] incr_effect [OF that] pexpire_effect [OF that]
      in \<open>simp_all add: case_prod_beta\<close>)
  show "fst (redis_exec now op s) = redis_answer op (\<lambda>k. redis_lookup now k s)"
    by (cases op) (auto simp: redis_set_def redis_get_def redis_getdel_def redis_incr_def redis_answer_def case_prod_beta
        lookup_now [symmetric] split: option.split)
  show "redis_lookup now k s = Some v" if "now \<le> t" "redis_lookup t k s = Some v"
    using that expired_later [of now _ t] by (auto simp: redis_lookup_def split: option.splits if_splits)
qed

subsection \<open>What a key holds, expired or not\<close>

definition holds :: "string \<Rightarrow> 'j redis_value \<Rightarrow> 'j memory_redis \<Rightarrow> bool" where
  "holds k v s = (case aget s k of None \<Rightarrow> False | Some e \<Rightarrow> re_value e = v)"

named_theorems holds_simps

lemma holds_live [dest]: "holds k' v (snd (redis_live now k s)) \<Longrightarrow> holds k' v s"
  by (auto simp: holds_def live_facts(2) split: option.splits if_splits)

lemma holds_live_other [holds_simps]: "k' \<noteq> k \<Longrightarrow> holds k' v (snd (redis_live now k s)) = holds k' v s"
  by (simp add: holds_def live_facts(2))

lemma holds_set_other [holds_simps]: "k' \<noteq> k \<Longrightarrow> holds k' v (snd (redis_set now k w nx px s)) = holds k' v s"
  by (auto simp: redis_set_def case_prod_beta holds_def live_facts(2))

lemma holds_set_won:
  "fst (redis_set now k w nx px s) \<Longrightarrow> holds k v (snd (redis_set now k w nx px s)) = (v = w)"
  by (auto simp: redis_set_def case_prod_beta holds_def split: if_splits)

lemma holds_set_lost:
  "\<not> fst (redis_set now k w nx px s) \<Longrightarrow> holds k v (snd (redis_set now k w nx px s)) \<Longrightarrow> holds k v s"
  by (auto simp: redis_set_def case_prod_beta split: if_splits)

lemma holds_get: "fst (redis_get now k s) = Some v \<Longrightarrow> holds k v s"
  by (auto simp: redis_get_def case_prod_beta holds_def live_facts(1) split: option.splits if_splits)

lemma holds_get_after [dest]: "holds k' v (snd (redis_get now k s)) \<Longrightarrow> holds k' v s"
  by (auto simp: redis_get_def case_prod_beta)

lemma holds_getdel: "fst (redis_getdel now k s) = Some v \<Longrightarrow> holds k v s \<and> \<not> holds k w (snd (redis_getdel now k s))"
  by (auto simp: redis_getdel_def case_prod_beta holds_def live_facts(1) split: option.splits if_splits)

lemma holds_getdel_after [dest]: "holds k' v (snd (redis_getdel now k s)) \<Longrightarrow> holds k' v s"
  by (auto simp: redis_getdel_def case_prod_beta holds_def live_facts(2) split: option.splits if_splits)

lemma holds_del_after [dest]: "holds k' v (redis_del k s) \<Longrightarrow> holds k' v s"
  by (auto simp: redis_del_def holds_def split: option.splits if_splits)

lemma holds_incr_other [holds_simps]: "k' \<noteq> k \<Longrightarrow> holds k' v (snd (redis_incr now k s)) = holds k' v s"
  by (auto simp: redis_incr_def case_prod_beta holds_def live_facts(2))

lemma holds_pexpire_other [holds_simps]: "k' \<noteq> k \<Longrightarrow> holds k' v (redis_pexpire now k ms s) = holds k' v s"
  by (auto simp: redis_pexpire_def case_prod_beta holds_def live_facts(2) split: option.splits)

lemma holds_other:
  "k \<noteq> op_key op \<Longrightarrow> holds k v (snd (redis_exec now op s)) \<Longrightarrow> holds k v s"
  by (cases op) (auto simp: case_prod_beta holds_simps)

end
