(* ===== verification/Tenancy.thy ===== *)
theory Tenancy
  imports Redis Wire
begin

text \<open>
  The control plane's rows (\<open>apps/control-plane/src/db/schema.ts\<close>) and its principals
  (\<open>services/auth.ts\<close> and the guards of \<open>routers/http.ts\<close>). A table is the list of its rows;
  \<open>limit(1)\<close> takes the first that matches, and the columns declared unique make that the only one. Times
  are epoch milliseconds. The identity provider is the function that verifies a token.
\<close>

subsection \<open>Rows\<close>

record org_row =
  og_id :: string
  og_name :: string

record user_row =
  us_id :: string
  us_clerkUserId :: string
  us_primaryOrgId :: "string option"

record host_row =
  hr_id :: string
  hr_orgId :: string
  hr_userId :: string
  hr_name :: string
  hr_staticPublicKey :: string
  hr_hostKeyHash :: string
  hr_hostKeyPrefix :: string
  hr_lastSeenAt :: "int option"
  hr_revokedAt :: "int option"

record device_row =
  dr_id :: string
  dr_orgId :: string
  dr_userId :: string
  dr_name :: string
  dr_deviceTokenHash :: string
  dr_deviceTokenPrefix :: string
  dr_pushToken :: "string option"
  dr_voipPushToken :: "string option"
  dr_devicePublicKey :: "string option"
  dr_lastSeenAt :: "int option"
  dr_revokedAt :: "int option"

record pair_row =
  pr_id :: string
  pr_orgId :: string
  pr_userId :: string
  pr_hostId :: string
  pr_tokenHash :: string
  pr_expiresAt :: int
  pr_redeemedAt :: "int option"
  pr_redeemedDeviceId :: "string option"

record session_row =
  sr_id :: string
  sr_hostId :: string
  sr_orgId :: string
  sr_sessionRef :: string
  sr_status :: string
  sr_startedAt :: int
  sr_endedAt :: "int option"

record attention_row =
  ar_id :: string
  ar_orgId :: string
  ar_hostId :: string
  ar_sessionRef :: string
  ar_kind :: string
  ar_summary :: string
  ar_question :: "string option"
  ar_options :: "string list option"
  ar_urgency :: string
  ar_ackedAt :: "int option"
  ar_createdAt :: int

datatype audit_kind = HostRegistered | HostRevoked | PairMinted | DevicePaired | DeviceRevoked | TicketMinted

record audit_row =
  au_id :: string
  au_orgId :: string
  au_kind :: audit_kind
  au_hostId :: "string option"
  au_deviceId :: "string option"
  au_detail :: "(string \<times> string) list"
  au_createdAt :: int

record db =
  db_orgs :: "org_row list"
  db_users :: "user_row list"
  db_hosts :: "host_row list"
  db_devices :: "device_row list"
  db_pairs :: "pair_row list"
  db_sessions :: "session_row list"
  db_attention :: "attention_row list"
  db_audit :: "audit_row list"

subsection \<open>The documents kept in the store\<close>

text \<open>What the services write with \<open>JSON.stringify\<close>. The schemas of \<open>zod\<close> require the fields of their own
  kind, which no other kind has, so reading one as another fails.\<close>

datatype principal_kind = DevicePrincipal | HumanPrincipal

record ticket_value =
  tv_hostId :: string
  tv_orgId :: string
  tv_principalKind :: principal_kind
  tv_principalId :: string
  tv_expiresAt :: int

record cli_request =
  cq_secretHash :: string
  cq_callback :: "string option"
  cq_expiresAt :: int
  cq_userCodeHash :: "string option"

record cli_grant =
  cg_userId :: string
  cg_codeHash :: "string option"

record cli_token =
  ct_userId :: string
  ct_expiresAt :: int

datatype cp_json = TicketJson ticket_value | RequestJson cli_request | GrantJson cli_grant | CliTokenJson cli_token

type_synonym cp_store = "cp_json memory_redis"

subsection \<open>Credentials\<close>

definition sha256Hex :: "crypto \<Rightarrow> string \<Rightarrow> string" where
  "sha256Hex C input = bytesToHex (sha_256 C (utf8 input))"

record minted_secret =
  ms_token :: string
  ms_hash :: string
  ms_prefix :: string

text \<open>The random part, 40 hex digits, is an argument.\<close>

definition mintSecret :: "crypto \<Rightarrow> string \<Rightarrow> string \<Rightarrow> minted_secret" where
  "mintSecret C prefix random =
     (let token = prefix @ ''_'' @ random
      in \<lparr>ms_token = token, ms_hash = sha256Hex C token, ms_prefix = take 8 random\<rparr>)"

definition cliTokenKey :: "string \<Rightarrow> string" where
  "cliTokenKey tokenHash = ''cliauth:tok:'' @ tokenHash"

definition line_break :: "char \<Rightarrow> bool" where
  "line_break c \<longleftrightarrow> c = CHR 0x0A \<or> c = CHR 0x0D"

definition parseBearer :: "string option \<Rightarrow> string option" where
  "parseBearer header =
     (case header of
        None \<Rightarrow> None
      | Some h \<Rightarrow>
          if take 7 h = ''Bearer '' \<and> drop 7 h \<noteq> [] \<and> \<not> list_ex line_break (drop 7 h) then Some (drop 7 h) else None)"

definition has_prefix :: "string \<Rightarrow> string \<Rightarrow> bool" where
  "has_prefix p s \<longleftrightarrow> take (length p) s = p"

subsection \<open>Principals\<close>

text \<open>The inner join of a user with its primary organisation.\<close>

definition load_human :: "(user_row \<Rightarrow> bool) \<Rightarrow> db \<Rightarrow> (user_row \<times> org_row) option" where
  "load_human P db =
     (case find (\<lambda>u. P u \<and> list_ex (\<lambda>g. us_primaryOrgId u = Some (og_id g)) (db_orgs db)) (db_users db) of
        None \<Rightarrow> None
      | Some u \<Rightarrow> map_option (\<lambda>g. (u, g)) (find (\<lambda>g. us_primaryOrgId u = Some (og_id g)) (db_orgs db)))"

definition loadHumanByClerkId :: "db \<Rightarrow> string \<Rightarrow> (user_row \<times> org_row) option" where
  "loadHumanByClerkId db externalUserId = load_human (\<lambda>u. us_clerkUserId u = externalUserId) db"

definition parse_cli_token :: "cp_json redis_value \<Rightarrow> cli_token option" where
  "parse_cli_token v = (case v of JsonText (CliTokenJson t) \<Rightarrow> Some t | _ \<Rightarrow> None)"

definition authenticateCliToken ::
  "crypto \<Rightarrow> db \<Rightarrow> int \<Rightarrow> cp_store \<Rightarrow> int \<Rightarrow> string \<Rightarrow> (user_row \<times> org_row) option" where
  "authenticateCliToken C db clock s now token =
     (case fst (redis_get clock (cliTokenKey (sha256Hex C token)) s) of
        None \<Rightarrow> None
      | Some raw \<Rightarrow>
          (case parse_cli_token raw of
             None \<Rightarrow> None
           | Some record \<Rightarrow>
               if ct_expiresAt record \<le> now then None
               else load_human (\<lambda>u. us_id u = ct_userId record) db))"

definition authenticateHuman ::
  "crypto \<Rightarrow> (string \<Rightarrow> string option) \<Rightarrow> db \<Rightarrow> int \<Rightarrow> cp_store \<Rightarrow> int \<Rightarrow> string option \<Rightarrow> (user_row \<times> org_row) option" where
  "authenticateHuman C verifyHuman db clock s now header =
     (case parseBearer header of
        None \<Rightarrow> None
      | Some token \<Rightarrow>
          if has_prefix ''ct_'' token then authenticateCliToken C db clock s now token
          else (case verifyHuman token of
                  None \<Rightarrow> None
                | Some externalUserId \<Rightarrow> loadHumanByClerkId db externalUserId))"

definition authenticateHost :: "crypto \<Rightarrow> db \<Rightarrow> string option \<Rightarrow> host_row option" where
  "authenticateHost C db header =
     (case parseBearer header of
        None \<Rightarrow> None
      | Some token \<Rightarrow>
          if \<not> has_prefix ''hk_'' token then None
          else (case find (\<lambda>h. hr_hostKeyHash h = sha256Hex C token) (db_hosts db) of
                  None \<Rightarrow> None
                | Some h \<Rightarrow> if hr_revokedAt h \<noteq> None then None else Some h))"

definition authenticateDevice :: "crypto \<Rightarrow> db \<Rightarrow> string option \<Rightarrow> device_row option" where
  "authenticateDevice C db header =
     (case parseBearer header of
        None \<Rightarrow> None
      | Some token \<Rightarrow>
          if \<not> has_prefix ''dt_'' token then None
          else (case find (\<lambda>d. dr_deviceTokenHash d = sha256Hex C token) (db_devices db) of
                  None \<Rightarrow> None
                | Some d \<Rightarrow> if dr_revokedAt d \<noteq> None then None else Some d))"

record relay_principal =
  rp_kind :: principal_kind
  rp_id :: string
  rp_orgId :: string

definition requireDeviceOrHuman ::
  "crypto \<Rightarrow> (string \<Rightarrow> string option) \<Rightarrow> db \<Rightarrow> int \<Rightarrow> cp_store \<Rightarrow> int \<Rightarrow> string option \<Rightarrow> relay_principal option" where
  "requireDeviceOrHuman C verifyHuman db clock s now header =
     (case authenticateDevice C db header of
        Some d \<Rightarrow> Some \<lparr>rp_kind = DevicePrincipal, rp_id = dr_id d, rp_orgId = dr_orgId d\<rparr>
      | None \<Rightarrow>
          (case authenticateHuman C verifyHuman db clock s now header of
             Some (u, g) \<Rightarrow> Some \<lparr>rp_kind = HumanPrincipal, rp_id = us_id u, rp_orgId = og_id g\<rparr>
           | None \<Rightarrow> None))"

subsection \<open>The audit log\<close>

definition appendAuditEvent ::
  "string \<Rightarrow> int \<Rightarrow> string \<Rightarrow> audit_kind \<Rightarrow> string option \<Rightarrow> string option \<Rightarrow> (string \<times> string) list \<Rightarrow> db \<Rightarrow> db" where
  "appendAuditEvent newId now orgId kind hostId deviceId detail db =
     db\<lparr>db_audit := db_audit db @ [\<lparr>au_id = newId, au_orgId = orgId, au_kind = kind, au_hostId = hostId,
          au_deviceId = deviceId, au_detail = detail, au_createdAt = now\<rparr>]\<rparr>"

definition AUDIT_LIST_DEFAULT_LIMIT :: int where "AUDIT_LIST_DEFAULT_LIMIT = 100"
definition AUDIT_LIST_MAX_LIMIT :: int where "AUDIT_LIST_MAX_LIMIT = 500"

text \<open>Newest first; rows of one instant come in no promised order, and here in that of the table.\<close>

definition listAuditEvents :: "string \<Rightarrow> int option \<Rightarrow> db \<Rightarrow> audit_row list" where
  "listAuditEvents orgId limit db =
     (let n = min (max (case limit of None \<Rightarrow> AUDIT_LIST_DEFAULT_LIMIT | Some l \<Rightarrow> l) 1) AUDIT_LIST_MAX_LIMIT
      in take (nat n) (sort_key (\<lambda>r. - au_createdAt r) (filter (\<lambda>r. au_orgId r = orgId) (db_audit db))))"

subsection \<open>Rate limits\<close>

text \<open>The two calls of \<open>checkRateLimit\<close>, each at its own time.\<close>

definition rateKey :: "string \<Rightarrow> string \<Rightarrow> string" where
  "rateKey name key = ''rl:'' @ name @ '':'' @ key"

definition checkRateLimit ::
  "int \<Rightarrow> int \<Rightarrow> string \<Rightarrow> string \<Rightarrow> int \<Rightarrow> int \<Rightarrow> 'j memory_redis \<Rightarrow> bool \<times> 'j memory_redis" where
  "checkRateLimit t1 t2 name key limit windowMs s =
     (let redisKey = rateKey name key;
          (_, s1) = redis_set t1 redisKey (NumText 0) True (Some windowMs) s;
          (count, s2) = redis_incr t2 redisKey s1
      in (case count of None \<Rightarrow> False | Some n \<Rightarrow> n \<le> limit, s2))"

end
