(* ===== verification/Attention.thy ===== *)
theory Attention
  imports Tenancy
begin

text \<open>
  The attention plane of the control plane: \<open>services/attention.ts\<close> (raise, list, acknowledge),
  \<open>services/attention-channels.ts\<close> (the routing table and the channels), \<open>push.ts\<close> and the status mapping and
  the token cache of \<open>adapters/apns.ts\<close>. The push service is a function from a push to its outcome; log lines
  are left out.
\<close>

subsection \<open>Events\<close>

datatype attention_kind = KindDone | KindBlocked | KindAsks
datatype urgency = UrgencyCall | UrgencyNotify | UrgencyDigest

definition kind_text :: "attention_kind \<Rightarrow> string" where
  "kind_text k = (case k of KindDone \<Rightarrow> ''done'' | KindBlocked \<Rightarrow> ''blocked'' | KindAsks \<Rightarrow> ''asks'')"

definition urgency_text :: "urgency \<Rightarrow> string" where
  "urgency_text u = (case u of UrgencyCall \<Rightarrow> ''call'' | UrgencyNotify \<Rightarrow> ''notify'' | UrgencyDigest \<Rightarrow> ''digest'')"

record attention_event =
  ae_sessionRef :: string
  ae_kind :: attention_kind
  ae_summary :: string
  ae_question :: "string option"
  ae_options :: "string list option"
  ae_urgency :: urgency

subsection \<open>Pushes\<close>

datatype push_kind = AlertPush | VoipPush

datatype push_delivery = PushOk | BadToken | PushUnavailable

text \<open>The payload: \<open>aps\<close> is the alert or empty, \<open>pherry\<close> what the app needs to find the event.\<close>

record push_payload =
  pp_alert :: "(string \<times> string \<times> string) option"
  pp_eventId :: string
  pp_hostId :: string
  pp_hostName :: string
  pp_sessionRef :: string
  pp_kind :: string
  pp_summary :: "string option"
  pp_urgency :: "string option"

record outbound_push =
  op_kind :: push_kind
  op_token :: string
  op_payload :: push_payload

type_synonym push_sender = "outbound_push \<Rightarrow> push_delivery"

subsection \<open>The push service\<close>

definition JWT_REUSE_MS :: int where "JWT_REUSE_MS = 50 * 60 * 1000"

record apns_conf =
  ac_bundleId :: string
  ac_production :: bool

record apns_request =
  aq_authority :: string
  aq_path :: string
  aq_authorization :: string
  aq_topic :: string
  aq_push_type :: string
  aq_expiration :: "string option"
  aq_payload :: push_payload

text \<open>Signing at a time (in seconds) is a parameter; the cache is the last token and when it was minted.\<close>

definition currentJwt :: "(int \<Rightarrow> string) \<Rightarrow> int \<Rightarrow> (string \<times> int) option \<Rightarrow> string \<times> (string \<times> int) option" where
  "currentJwt sign atMs cached =
     (case cached of
        Some (jwt, mintedAt) \<Rightarrow> if atMs - mintedAt < JWT_REUSE_MS then (jwt, cached)
          else (sign (atMs div 1000), Some (sign (atMs div 1000), atMs))
      | None \<Rightarrow> (sign (atMs div 1000), Some (sign (atMs div 1000), atMs)))"

text \<open>The reason a body names, where it is a JSON object that has one.\<close>

definition isDeadTokenReason :: "(string \<Rightarrow> string option) \<Rightarrow> string \<Rightarrow> bool" where
  "isDeadTokenReason reason_of body = (reason_of body = Some ''BadDeviceToken'' \<or> reason_of body = Some ''DeviceTokenNotForTopic'')"

definition apns_request_for :: "apns_conf \<Rightarrow> string \<Rightarrow> outbound_push \<Rightarrow> apns_request" where
  "apns_request_for conf jwt p =
     (let isVoip = (op_kind p = VoipPush)
      in \<lparr>aq_authority = (if ac_production conf then ''https://api.push.apple.com'' else ''https://api.sandbox.push.apple.com''),
          aq_path = ''/3/device/'' @ op_token p,
          aq_authorization = ''bearer '' @ jwt,
          aq_topic = (if isVoip then ac_bundleId conf @ ''.voip'' else ac_bundleId conf),
          aq_push_type = (if isVoip then ''voip'' else ''alert''),
          aq_expiration = (if isVoip then Some ''0'' else None),
          aq_payload = op_payload p\<rparr>)"

text \<open>What the transport answers: a status and a body, or a throw.\<close>

definition apns_outcome :: "(string \<Rightarrow> string option) \<Rightarrow> (nat \<times> string) option \<Rightarrow> push_delivery" where
  "apns_outcome reason_of res =
     (case res of
        None \<Rightarrow> PushUnavailable
      | Some (status, body) \<Rightarrow>
          if status = 200 then PushOk
          else if status = 410 then BadToken
          else if status = 400 \<and> isDeadTokenReason reason_of body then BadToken
          else PushUnavailable)"

definition apns_send ::
  "(int \<Rightarrow> string) \<Rightarrow> (string \<Rightarrow> string option) \<Rightarrow> (apns_request \<Rightarrow> (nat \<times> string) option) \<Rightarrow> apns_conf \<Rightarrow> int \<Rightarrow>
   outbound_push \<Rightarrow> (string \<times> int) option \<Rightarrow> push_delivery \<times> (string \<times> int) option" where
  "apns_send sign reason_of transport conf now p cached =
     (let (jwt, cached') = currentJwt sign now cached
      in (apns_outcome reason_of (transport (apns_request_for conf jwt p)), cached'))"

subsection \<open>Channels\<close>

datatype channel_key = InApp | PushKey | RingKey

definition ATTENTION_ROUTING :: "urgency \<Rightarrow> channel_key list" where
  "ATTENTION_ROUTING u =
     (case u of UrgencyCall \<Rightarrow> [RingKey, PushKey, InApp] | UrgencyNotify \<Rightarrow> [PushKey, InApp] | UrgencyDigest \<Rightarrow> [InApp])"

definition PUSH_TITLES :: "string \<Rightarrow> string" where
  "PUSH_TITLES kind =
     (if kind = ''done'' then ''Agent finished'' else if kind = ''blocked'' then ''Agent blocked'' else ''Agent asks'')"

definition resolveHostName :: "db \<Rightarrow> string \<Rightarrow> string" where
  "resolveHostName db hostId = (case find (\<lambda>h. hr_id h = hostId) (db_hosts db) of None \<Rightarrow> hostId | Some h \<Rightarrow> hr_name h)"

definition healDelivery :: "channel_key \<Rightarrow> string \<Rightarrow> push_delivery \<Rightarrow> db \<Rightarrow> db" where
  "healDelivery channel deviceId delivery db =
     (case delivery of
        PushOk \<Rightarrow> db
      | PushUnavailable \<Rightarrow> db
      | BadToken \<Rightarrow>
          db\<lparr>db_devices := map (\<lambda>d. if dr_id d = deviceId
                then (if channel = PushKey then d\<lparr>dr_pushToken := None\<rparr> else d\<lparr>dr_voipPushToken := None\<rparr>) else d) (db_devices db)\<rparr>)"

definition push_for :: "string \<Rightarrow> attention_row \<Rightarrow> string \<Rightarrow> outbound_push" where
  "push_for hostName event token =
     \<lparr>op_kind = AlertPush, op_token = token,
      op_payload = \<lparr>pp_alert = Some (PUSH_TITLES (ar_kind event), ar_summary event, ar_sessionRef event), pp_eventId = ar_id event,
        pp_hostId = ar_hostId event, pp_hostName = hostName, pp_sessionRef = ar_sessionRef event, pp_kind = ar_kind event,
        pp_summary = None, pp_urgency = Some (ar_urgency event)\<rparr>\<rparr>"

definition ring_for :: "string \<Rightarrow> attention_row \<Rightarrow> string \<Rightarrow> outbound_push" where
  "ring_for hostName event token =
     \<lparr>op_kind = VoipPush, op_token = token,
      op_payload = \<lparr>pp_alert = None, pp_eventId = ar_id event, pp_hostId = ar_hostId event, pp_hostName = hostName,
        pp_sessionRef = ar_sessionRef event, pp_kind = ar_kind event, pp_summary = Some (ar_summary event), pp_urgency = None\<rparr>\<rparr>"

text \<open>
  One channel: a send per device that has the token, in the order of the list, and what its outcome does to
  the row of the device. \<open>between\<close> is what else happens in the database while that send is under way.
\<close>

fun deliver_each ::
  "push_sender \<Rightarrow> (string \<Rightarrow> db \<Rightarrow> db) \<Rightarrow> channel_key \<Rightarrow> (string \<Rightarrow> outbound_push) \<Rightarrow> (device_row \<Rightarrow> string option) \<Rightarrow>
   device_row list \<Rightarrow> db \<Rightarrow> outbound_push list \<times> db" where
  "deliver_each sender between channel mk token_of [] db = ([], db)"
| "deliver_each sender between channel mk token_of (d # ds) db =
     (case token_of d of
        None \<Rightarrow> deliver_each sender between channel mk token_of ds db
      | Some token \<Rightarrow>
          let p = mk token; db1 = healDelivery channel (dr_id d) (sender p) (between (dr_id d) db);
              (sent, db2) = deliver_each sender between channel mk token_of ds db1
          in (p # sent, db2))"

text \<open>The stubs without a sender send nothing, and neither does the channel in the app.\<close>

definition channel_deliver ::
  "push_sender option \<Rightarrow> (string \<Rightarrow> db \<Rightarrow> db) \<Rightarrow> attention_row \<Rightarrow> device_row list \<Rightarrow> channel_key \<Rightarrow> db \<Rightarrow> outbound_push list \<times> db" where
  "channel_deliver sender between event ds key db =
     (case sender of
        None \<Rightarrow> ([], db)
      | Some s \<Rightarrow>
          (case key of
             InApp \<Rightarrow> ([], db)
           | PushKey \<Rightarrow> deliver_each s between PushKey (push_for (resolveHostName db (ar_hostId event)) event) dr_pushToken ds db
           | RingKey \<Rightarrow> deliver_each s between RingKey (ring_for (resolveHostName db (ar_hostId event)) event) dr_voipPushToken ds db))"

fun route_event ::
  "push_sender option \<Rightarrow> (string \<Rightarrow> db \<Rightarrow> db) \<Rightarrow> attention_row \<Rightarrow> device_row list \<Rightarrow> channel_key list \<Rightarrow> db \<Rightarrow> outbound_push list \<times> db" where
  "route_event sender between event ds [] db = ([], db)"
| "route_event sender between event ds (key # keys) db =
     (let (sent, db1) = channel_deliver sender between event ds key db; (sent', db2) = route_event sender between event ds keys db1
      in (sent @ sent', db2))"

subsection \<open>Raise, list, acknowledge\<close>

definition LIST_CAP :: nat where "LIST_CAP = 100"

definition suppressionKey :: "string \<Rightarrow> string \<Rightarrow> string \<Rightarrow> string" where
  "suppressionKey hostId sessionRef kind = ''attn:sup:'' @ hostId @ '':'' @ sessionRef @ '':'' @ kind"

datatype raise_result = RaiseSuppressed | RaiseFresh string

text \<open>The answer: nothing, a result, or a throw (the insert of an id that is there).\<close>

datatype raise_answer = NoSession | Raised raise_result | RaiseThrow

definition attention_of :: "string \<Rightarrow> int \<Rightarrow> host_row \<Rightarrow> attention_event \<Rightarrow> attention_row" where
  "attention_of newId now host event =
     \<lparr>ar_id = newId, ar_orgId = hr_orgId host, ar_hostId = hr_id host, ar_sessionRef = ae_sessionRef event,
      ar_kind = kind_text (ae_kind event), ar_summary = ae_summary event, ar_question = ae_question event,
      ar_options = ae_options event, ar_urgency = urgency_text (ae_urgency event), ar_ackedAt = None, ar_createdAt = now\<rparr>"

definition org_devices :: "string \<Rightarrow> db \<Rightarrow> device_row list" where
  "org_devices orgId db = filter (\<lambda>d. dr_orgId d = orgId \<and> dr_revokedAt d = None) (db_devices db)"

definition raiseAttention ::
  "push_sender option \<Rightarrow> (string \<Rightarrow> db \<Rightarrow> db) \<Rightarrow> int \<Rightarrow> int \<Rightarrow> int \<Rightarrow> string \<Rightarrow> host_row \<Rightarrow> attention_event \<Rightarrow> db \<Rightarrow> 'j memory_redis \<Rightarrow>
   raise_answer \<times> outbound_push list \<times> db \<times> 'j memory_redis" where
  "raiseAttention sender between debounceMs clock now newId host event db s =
     (if find (\<lambda>r. sr_hostId r = hr_id host \<and> sr_sessionRef r = ae_sessionRef event) (db_sessions db) = None
      then (NoSession, [], db, s)
      else
        let (claimed, s1) = redis_set clock (suppressionKey (hr_id host) (ae_sessionRef event) (kind_text (ae_kind event)))
              (NumText 1) True (Some debounceMs) s
        in if \<not> claimed then (Raised RaiseSuppressed, [], db, s1)
           else if list_ex (\<lambda>r. ar_id r = newId) (db_attention db) then (RaiseThrow, [], db, s1)
           else
             let row = attention_of newId now host event;
                 db1 = db\<lparr>db_attention := db_attention db @ [row]\<rparr>;
                 (sent, db2) = route_event sender between row (org_devices (hr_orgId host) db1) (ATTENTION_ROUTING (ae_urgency event)) db1
             in (Raised (RaiseFresh newId), sent, db2, s1))"

definition pending_attention :: "string \<Rightarrow> int option \<Rightarrow> db \<Rightarrow> attention_row list" where
  "pending_attention orgId since db =
     filter (\<lambda>r. ar_orgId r = orgId \<and> ar_ackedAt r = None \<and> (case since of None \<Rightarrow> True | Some t \<Rightarrow> t < ar_createdAt r)) (db_attention db)"

definition listAttention :: "string \<Rightarrow> int option \<Rightarrow> db \<Rightarrow> attention_row list" where
  "listAttention orgId since db = take LIST_CAP (sort_key (\<lambda>r. - ar_createdAt r) (pending_attention orgId since db))"

definition ack_guard :: "string \<Rightarrow> string \<Rightarrow> attention_row \<Rightarrow> bool" where
  "ack_guard orgId i r \<longleftrightarrow> ar_id r = i \<and> ar_orgId r = orgId \<and> ar_ackedAt r = None"

definition ackAttention :: "int \<Rightarrow> string \<Rightarrow> string \<Rightarrow> db \<Rightarrow> attention_row option \<times> db" where
  "ackAttention now orgId i db =
     (map_option (\<lambda>r. r\<lparr>ar_ackedAt := Some now\<rparr>) (find (ack_guard orgId i) (db_attention db)),
      db\<lparr>db_attention := map (\<lambda>r. if ack_guard orgId i r then r\<lparr>ar_ackedAt := Some now\<rparr> else r) (db_attention db)\<rparr>)"

text \<open>
  The long poll: what each look found, with the clock before and after each pause; \<open>closed\<close> is where the client
  went away meanwhile. The looks come from the outside, so the loop ends where they do.
\<close>

definition POLL_INTERVAL_MS :: int where "POLL_INTERVAL_MS = 200"

fun poll_looks :: "int \<Rightarrow> (int \<times> bool \<times> attention_row list) list \<Rightarrow> attention_row list option" where
  "poll_looks deadline [] = None"
| "poll_looks deadline ((t, closed, rows) # looks) =
     (if deadline \<le> t then Some []
      else if closed then Some []
      else if rows \<noteq> [] then Some rows
      else poll_looks deadline looks)"

definition pollAttention :: "int \<Rightarrow> int \<Rightarrow> attention_row list \<Rightarrow> (int \<times> bool \<times> attention_row list) list \<Rightarrow> attention_row list option" where
  "pollAttention waitMs start first looks =
     (if first \<noteq> [] \<or> waitMs \<le> 0 then Some first else poll_looks (start + waitMs) looks)"

end
