(* ===== verification/AttentionTheorems.thy ===== *)
theory AttentionTheorems
  imports Attention "HOL-Library.Multiset"
begin

text \<open>
  \<open>services/rate-limit.ts\<close> under interleaving: the two calls of a check are steps of their own, among those of
  other checks on the same counter and calls on other keys.

  The attention queue over any run of raises, acknowledgements and other calls of the store: what an
  organisation is shown, how often a flapping session gets through, and whose devices are pushed to.
\<close>

datatype rate_event = ArmEv int | CountEv int | OtherKeyEv int "cp_json redis_op"

text \<open>What a check decides at its count.\<close>

fun rate_step :: "string \<Rightarrow> int \<Rightarrow> int \<Rightarrow> rate_event \<Rightarrow> cp_store \<Rightarrow> bool list \<times> cp_store" where
  "rate_step k limit windowMs (ArmEv t) s = ([], snd (redis_set t k (NumText 0) True (Some windowMs) s))"
| "rate_step k limit windowMs (CountEv t) s =
     (let (count, s1) = redis_incr t k s in ([case count of None \<Rightarrow> False | Some n \<Rightarrow> n \<le> limit], s1))"
| "rate_step k limit windowMs (OtherKeyEv t op) s = (if op_key op = k then ([], s) else ([], snd (redis_exec t op s)))"

fun rate_run :: "string \<Rightarrow> int \<Rightarrow> int \<Rightarrow> rate_event list \<Rightarrow> cp_store \<Rightarrow> bool list \<times> cp_store" where
  "rate_run k limit windowMs [] s = ([], s)"
| "rate_run k limit windowMs (e # es) s =
     (let (v, s1) = rate_step k limit windowMs e s; (vs, s2) = rate_run k limit windowMs es s1 in (v @ vs, s2))"

lemma check_is_two_steps:
  "checkRateLimit t1 t2 name key limit windowMs s =
     (case rate_run (rateKey name key) limit windowMs [ArmEv t1, CountEv t2] s of (vs, s') \<Rightarrow> (hd vs, s'))"
  by (simp add: checkRateLimit_def case_prod_beta Let_def)

fun rate_time :: "rate_event \<Rightarrow> int" where
  "rate_time (ArmEv t) = t"
| "rate_time (CountEv t) = t"
| "rate_time (OtherKeyEv t op) = t"

fun counts :: "rate_event \<Rightarrow> bool" where
  "counts (CountEv t) \<longleftrightarrow> True"
| "counts _ \<longleftrightarrow> False"

lemma exec_other_key: "k \<noteq> op_key op \<Longrightarrow> aget (snd (redis_exec t op s)) k = aget s k"
  by (cases op) (auto simp: case_prod_beta redis_set_def redis_get_def redis_getdel_def redis_del_def redis_incr_def
      redis_pexpire_def live_facts(2) split: option.splits)

lemma live_entry: "aget s k = Some e \<Longrightarrow> \<not> expired t e \<Longrightarrow> redis_live t k s = (Some e, s)"
  by (simp add: redis_live_def)

text \<open>While the counter lives, each count adds one and nothing else changes it.\<close>

lemma counting:
  assumes "aget s k = Some \<lparr>re_value = NumText c, re_expiresAt = x\<rparr>"
    and "\<forall>e \<in> set es. case x of None \<Rightarrow> True | Some u \<Rightarrow> rate_time e < u"
  shows "fst (rate_run k limit windowMs es s) = map (\<lambda>i. c + int i < limit) [0..<length (filter counts es)]"
  using assms
proof (induction es arbitrary: s c)
  case (Cons e es)
  have live: "\<not> expired (rate_time e) \<lparr>re_value = NumText c, re_expiresAt = x\<rparr>"
    using Cons.prems(2) by (auto simp: expired_def split: option.splits)
  note entry = live_entry [OF Cons.prems(1) live]
  show ?case
  proof (cases e)
    case (ArmEv t)
    have "snd (redis_set t k (NumText 0) True (Some windowMs) s) = s"
      using entry by (simp add: ArmEv redis_set_def)
    then show ?thesis using Cons.IH [OF Cons.prems(1)] Cons.prems(2) by (simp add: ArmEv Let_def case_prod_beta)
  next
    case (CountEv t)
    obtain n s1 where i: "redis_incr t k s = (n, s1)" by fastforce
    have n: "n = Some (c + 1)" and s1: "aget s1 k = Some \<lparr>re_value = NumText (c + 1), re_expiresAt = x\<rparr>"
      using i entry by (auto simp: CountEv redis_incr_def bump_def)
    have "fst (rate_run k limit windowMs es s1) = map (\<lambda>i. c + 1 + int i < limit) [0..<length (filter counts es)]"
      using Cons.IH [OF s1] Cons.prems(2) by simp
    moreover have "map (\<lambda>i. c + int i < limit) [0..<Suc m] = (c + 1 \<le> limit) # map (\<lambda>i. c + 1 + int i < limit) [0..<m]" for m
      by (rule nth_equalityI) (auto simp: nth_Cons ac_simps simp del: upt_Suc split: nat.split)
    ultimately show ?thesis by (simp add: CountEv i n Let_def case_prod_beta del: upt_Suc)
  next
    case (OtherKeyEv t op)
    have "aget (if op_key op = k then s else snd (redis_exec t op s)) k = Some \<lparr>re_value = NumText c, re_expiresAt = x\<rparr>"
      using Cons.prems(1) exec_other_key [of k op t s] by simp
    from Cons.IH [OF this] Cons.prems(2) show ?thesis by (simp add: OtherKeyEv Let_def case_prod_beta split: if_splits)
  qed
qed simp

text \<open>C27: In one window, from the call that armed it, where no counter was, to its end on the store's clock, the first
  \<open>limit\<close> checks are allowed and every other is refused, in the order of their counts, however the two calls of each
  check and the calls on other keys mix. A check is those two calls, and callers with different keys do not share a counter.\<close>

theorem rate_limit_holds_in_a_window:
  assumes "redis_lookup t0 (rateKey name key) s = None"
    and "\<forall>e \<in> set es. rate_time e < t0 + windowMs"
  shows "fst (rate_run (rateKey name key) limit windowMs (ArmEv t0 # es) s) = map (\<lambda>i. int i < limit) [0..<length (filter counts es)] \<and>
    (\<forall>t1 t2 (st :: cp_store). checkRateLimit t1 t2 name key limit windowMs st =
       (case rate_run (rateKey name key) limit windowMs [ArmEv t1, CountEv t2] st of (vs, st') \<Rightarrow> (hd vs, st'))) \<and>
    (\<forall>other. rateKey name other = rateKey name key \<longleftrightarrow> other = key)"
proof -
  let ?k = "rateKey name key"
  have "fst (redis_live t0 ?k s) = None" using assms(1) lookup_now [of t0 ?k s] by simp
  then have "aget (snd (redis_set t0 ?k (NumText 0) True (Some windowMs) s)) ?k =
      Some \<lparr>re_value = NumText 0, re_expiresAt = Some (t0 + windowMs)\<rparr>"
    by (simp add: redis_set_def case_prod_beta)
  from counting [OF this] assms(2)
  have "fst (rate_run ?k limit windowMs (ArmEv t0 # es) s) = map (\<lambda>i. int i < limit) [0..<length (filter counts es)]"
    by (simp add: Let_def case_prod_beta)
  then show ?thesis using check_is_two_steps by (simp add: rateKey_def)
qed

lemma rate_limit_holds_in_a_window_witness:
  "fst (rate_run (rateKey ''t'' ''d'') 2 60 (ArmEv 5 # [CountEv 6, ArmEv 7, ArmEv 8, CountEv 9, OtherKeyEv 9 (OpDel ''x''), CountEv 10]) []) =
     map (\<lambda>i. int i < 2) [0..<length (filter counts [CountEv 6, ArmEv 7, ArmEv 8, CountEv 9, OtherKeyEv 9 (OpDel ''x''), CountEv 10])]"
  by (rule conjunct1 [OF rate_limit_holds_in_a_window]) (simp_all add: redis_lookup_def)

text \<open>
  The two calls can fall on both sides of the end of a window: the first finds the counter and leaves it, the
  second finds none and makes one that never ends. From then on the limit is on all checks ever.
\<close>

definition torn_check :: "rate_event list" where
  "torn_check = [ArmEv 0, CountEv 0, ArmEv 59999, CountEv 60000]"

lemma torn_check_leaves_an_endless_counter:
  "aget (snd (rate_run (rateKey ''tickets'' ''dev'') 30 60000 torn_check [])) (rateKey ''tickets'' ''dev'') =
     Some \<lparr>re_value = NumText 1, re_expiresAt = None\<rparr>"
  by code_simp

lemma rate_limit_can_stick:
  "fst (rate_run (rateKey ''tickets'' ''dev'') 30 60000 es (snd (rate_run (rateKey ''tickets'' ''dev'') 30 60000 torn_check []))) =
     map (\<lambda>i. 1 + int i < 30) [0..<length (filter counts es)]"
  by (rule counting [OF torn_check_leaves_an_endless_counter]) simp

subsection \<open>Runs\<close>

datatype attn_event =
    RaiseEv "push_sender option" "string \<Rightarrow> db \<Rightarrow> db" int int string host_row attention_event
  | AckEv int string string
  | StoreEv int "cp_json redis_op"

datatype attn_answer = AnsRaise raise_answer | AnsAck "attention_row option" | AnsStore

type_synonym attn_state = "db \<times> cp_store"

fun attn_step :: "int \<Rightarrow> attn_event \<Rightarrow> attn_state \<Rightarrow> attn_answer \<times> attn_state" where
  "attn_step debounceMs (RaiseEv sender between clock now newId host event) (db, s) =
     (let (answer, sent, db', s') = raiseAttention sender between debounceMs clock now newId host event db s
      in (AnsRaise answer, (db', s')))"
| "attn_step debounceMs (AckEv now orgId i) (db, s) = (let (r, db') = ackAttention now orgId i db in (AnsAck r, (db', s)))"
| "attn_step debounceMs (StoreEv t op) (db, s) =
     (AnsStore, (db, if has_prefix ''attn:'' (op_key op) then s else snd (redis_exec t op s)))"

fun attn_run :: "int \<Rightarrow> attn_event list \<Rightarrow> attn_state \<Rightarrow> (attn_event \<times> attn_answer) list \<times> attn_state" where
  "attn_run debounceMs [] st = ([], st)"
| "attn_run debounceMs (e # es) st =
     (let (a, st1) = attn_step debounceMs e st; (log, st2) = attn_run debounceMs es st1 in ((e, a) # log, st2))"

text \<open>What else happens in the database during a send is not about attention rows.\<close>

fun calm :: "attn_event \<Rightarrow> bool" where
  "calm (RaiseEv sender between clock now newId host event) \<longleftrightarrow> (\<forall>i db. db_attention (between i db) = db_attention db)"
| "calm _ \<longleftrightarrow> True"

fun raised_by :: "string \<Rightarrow> attn_event \<times> attn_answer \<Rightarrow> string list" where
  "raised_by orgId (RaiseEv sender between clock now newId host event, AnsRaise (Raised (RaiseFresh i))) =
     (if hr_orgId host = orgId then [i] else [])"
| "raised_by orgId _ = []"

fun acked_by :: "string \<Rightarrow> attn_event \<times> attn_answer \<Rightarrow> string list" where
  "acked_by orgId (AckEv now orgId' i, AnsAck (Some r)) = (if orgId' = orgId then [ar_id r] else [])"
| "acked_by orgId _ = []"

definition raised :: "string \<Rightarrow> (attn_event \<times> attn_answer) list \<Rightarrow> string list" where
  "raised orgId log = concat (map (raised_by orgId) log)"

definition acked :: "string \<Rightarrow> (attn_event \<times> attn_answer) list \<Rightarrow> string list" where
  "acked orgId log = concat (map (acked_by orgId) log)"

lemma attn_run_snoc:
  "attn_run d (es @ [e]) st =
     (let (log, st1) = attn_run d es st; (a, st2) = attn_step d e st1 in (log @ [(e, a)], st2))"
  by (induction es arbitrary: st) (auto simp: Let_def split: prod.split)

lemma log_append [simp]: "raised orgId (xs @ ys) = raised orgId xs @ raised orgId ys" "acked orgId (xs @ ys) = acked orgId xs @ acked orgId ys"
  "raised orgId [] = []" "acked orgId [] = []" "raised orgId [x] = raised_by orgId x" "acked orgId [x] = acked_by orgId x"
  by (simp_all add: raised_def acked_def)

subsection \<open>What the fan-out touches\<close>

lemma deliver_keeps:
  assumes "\<forall>i db. db_attention (between i db) = db_attention db"
  shows "db_attention (snd (deliver_each sender between channel mk token_of ds db)) = db_attention db"
  by (induction ds arbitrary: db) (auto simp: assms Let_def case_prod_beta healDelivery_def split: option.split push_delivery.split)

lemma route_event_keeps:
  assumes "\<forall>i db. db_attention (between i db) = db_attention db"
  shows "db_attention (snd (route_event sender between event ds keys db)) = db_attention db"
  by (induction keys arbitrary: db)
    (auto simp: Let_def case_prod_beta channel_deliver_def deliver_keeps [OF assms] split: option.split channel_key.split)

lemma raise_rows:
  assumes "\<forall>i db. db_attention (between i db) = db_attention db"
    and "raiseAttention sender between d clock now newId host event db s = (answer, sent, db', s')"
  shows "(\<exists>i. answer = Raised (RaiseFresh i) \<and> i = newId \<and> newId \<notin> ar_id ` set (db_attention db) \<and>
       db_attention db' = db_attention db @ [attention_of newId now host event]) \<or>
     (\<nexists>i. answer = Raised (RaiseFresh i)) \<and> db_attention db' = db_attention db"
  using assms(2) route_event_keeps [OF assms(1)]
  by (auto simp: raiseAttention_def Let_def case_prod_beta list_ex_iff split: if_splits)

subsection \<open>The invariant\<close>

definition queue_ok :: "(attn_event \<times> attn_answer) list \<Rightarrow> db \<Rightarrow> bool" where
  "queue_ok log db \<longleftrightarrow>
     distinct (map ar_id (db_attention db)) \<and>
     (\<forall>r \<in> set (db_attention db). ar_ackedAt r \<noteq> None \<longleftrightarrow> ar_id r \<in> set (acked (ar_orgId r) log)) \<and>
     (\<forall>orgId. map ar_id (filter (\<lambda>r. ar_orgId r = orgId) (db_attention db)) = raised orgId log \<and>
        distinct (acked orgId log) \<and> set (acked orgId log) \<subseteq> set (raised orgId log))"

lemma ack_ok:
  assumes ok: "queue_ok log db" and a: "ackAttention now orgId i db = (res, db')"
  shows "queue_ok (log @ [(AckEv now orgId i, AnsAck res)]) db'"
proof -
  let ?ack = "\<lambda>r. if ack_guard orgId i r then r\<lparr>ar_ackedAt := Some now\<rparr> else r"
  have db': "db_attention db' = map ?ack (db_attention db)"
    and res: "res = map_option (\<lambda>r. r\<lparr>ar_ackedAt := Some now\<rparr>) (find (ack_guard orgId i) (db_attention db))"
    using a by (auto simp: ackAttention_def)
  have same: "ar_id (?ack r) = ar_id r" "ar_orgId (?ack r) = ar_orgId r" for r by simp_all
  have ids: "map ar_id (filter (\<lambda>r. ar_orgId r = g) (db_attention db')) = map ar_id (filter (\<lambda>r. ar_orgId r = g) (db_attention db))" for g
    unfolding db' filter_map comp_def same map_map ..
  have all_ids: "map ar_id (db_attention db') = map ar_id (db_attention db)" unfolding db' map_map comp_def same ..
  from ok have u: "distinct (map ar_id (db_attention db))"
    and st: "\<And>r. r \<in> set (db_attention db) \<Longrightarrow> ar_ackedAt r \<noteq> None \<longleftrightarrow> ar_id r \<in> set (acked (ar_orgId r) log)"
    and rs: "\<And>g. map ar_id (filter (\<lambda>r. ar_orgId r = g) (db_attention db)) = raised g log"
    and ds: "\<And>g. distinct (acked g log)" "\<And>g. set (acked g log) \<subseteq> set (raised g log)"
    unfolding queue_ok_def by auto
  show ?thesis
  proof (cases "find (ack_guard orgId i) (db_attention db)")
    case None
    then have "db_attention db' = db_attention db" unfolding db' by (simp add: find_None_iff map_idI)
    then show ?thesis using ok None res by (simp add: queue_ok_def)
  next
    case (Some r0)
    then have r0: "r0 \<in> set (db_attention db)" "ack_guard orgId i r0" by (auto simp: find_Some_iff)
    then have g0: "ar_id r0 = i" "ar_orgId r0 = orgId" "ar_ackedAt r0 = None" by (auto simp: ack_guard_def)
    have log: "acked g (log @ [(AckEv now orgId i, AnsAck res)]) = acked g log @ (if orgId = g then [i] else [])"
      "raised g (log @ [(AckEv now orgId i, AnsAck res)]) = raised g log" for g
      using res Some g0 by simp_all
    have fresh: "i \<notin> set (acked orgId log)" using st [OF r0(1)] g0 by simp
    have only: "ar_id r = i \<Longrightarrow> r \<in> set (db_attention db) \<Longrightarrow> r = r0" for r
      using u r0(1) g0(1) by (auto simp: distinct_map inj_on_def)
    have marks: "ar_ackedAt (?ack r) \<noteq> None \<longleftrightarrow> ar_id r \<in> set (acked (ar_orgId r) log @ (if orgId = ar_orgId r then [i] else []))"
      if "r \<in> set (db_attention db)" for r
    proof (cases "r = r0")
      case True
      then show ?thesis using r0(2) g0 by simp
    next
      case False
      then have "ar_id r \<noteq> i" using only [of r] that by blast
      then show ?thesis using st [OF that] by (simp add: ack_guard_def)
    qed
    have "i \<in> set (raised orgId log)" using rs [of orgId, symmetric] r0(1) g0 by auto
    then have acks: "distinct (acked g log @ (if orgId = g then [i] else [])) \<and>
        set (acked g log @ (if orgId = g then [i] else [])) \<subseteq> set (raised g log)" for g
      using ds [of g] fresh by (cases "orgId = g") simp_all
    have "ar_ackedAt r \<noteq> None \<longleftrightarrow> ar_id r \<in> set (acked (ar_orgId r) log @ (if orgId = ar_orgId r then [i] else []))"
      if "r \<in> set (db_attention db')" for r
    proof -
      from that obtain r1 where "r1 \<in> set (db_attention db)" "r = ?ack r1" unfolding db' by auto
      then show ?thesis using marks [of r1] same [of r1] by simp
    qed
    then show ?thesis unfolding queue_ok_def log all_ids ids using u rs acks by blast
  qed
qed

lemma raise_ok:
  assumes ok: "queue_ok log db" and b: "\<forall>i db. db_attention (between i db) = db_attention db"
    and r: "raiseAttention sender between d clock now newId host event db s = (answer, sent, db', s')"
  shows "queue_ok (log @ [(RaiseEv sender between clock now newId host event, AnsRaise answer)]) db'"
proof -
  let ?e = "RaiseEv sender between clock now newId host event"
  have acks: "acked g (log @ [(?e, AnsRaise answer)]) = acked g log" for g by simp
  from raise_rows [OF b r] show ?thesis
  proof
    assume "\<exists>i. answer = Raised (RaiseFresh i) \<and> i = newId \<and> newId \<notin> ar_id ` set (db_attention db) \<and>
       db_attention db' = db_attention db @ [attention_of newId now host event]"
    then have a: "answer = Raised (RaiseFresh newId)" and f: "newId \<notin> ar_id ` set (db_attention db)"
      and db': "db_attention db' = db_attention db @ [attention_of newId now host event]" by auto
    have n: "newId \<notin> set (acked g log)" for g
      using ok f unfolding queue_ok_def by (metis (no_types, lifting) filter_is_subset image_mono list.set_map subset_iff)
    have row: "ar_id (attention_of newId now host event) = newId" "ar_orgId (attention_of newId now host event) = hr_orgId host"
      "ar_ackedAt (attention_of newId now host event) = None" by (simp_all add: attention_of_def)
    show ?thesis using ok f n unfolding queue_ok_def acks a by (auto simp: db' row)
  next
    assume q: "(\<nexists>i. answer = Raised (RaiseFresh i)) \<and> db_attention db' = db_attention db"
    have "raised_by g (?e, AnsRaise answer) = []" for g
      using q by (cases "(g, ?e, AnsRaise answer)" rule: raised_by.cases) auto
    then show ?thesis using ok q by (simp add: queue_ok_def)
  qed
qed

lemma attn_run_ok:
  assumes "\<forall>e \<in> set es. calm e" "db_attention db = []" "attn_run d es (db, s) = (log, (db', s'))"
  shows "queue_ok log db'"
  using assms
proof (induction es arbitrary: log db' s' rule: rev_induct)
  case Nil
  then show ?case by (simp add: queue_ok_def)
next
  case (snoc e es)
  obtain log1 db1 s1 where r: "attn_run d es (db, s) = (log1, (db1, s1))" by (metis prod.exhaust)
  have ok: "queue_ok log1 db1" using snoc.IH [OF _ _ r] snoc.prems by simp
  obtain a where st: "attn_step d e (db1, s1) = (a, (db', s'))" and log: "log = log1 @ [(e, a)]"
    using snoc.prems(3) by (auto simp: attn_run_snoc r split: prod.splits)
  show ?case
  proof (cases e)
    case (RaiseEv sender between clock now newId host event)
    obtain answer sent where x: "raiseAttention sender between d clock now newId host event db1 s1 = (answer, sent, db', s')"
      and a: "a = AnsRaise answer"
      using st RaiseEv by (auto split: prod.splits)
    show ?thesis unfolding log RaiseEv a by (rule raise_ok [OF ok _ x]) (use snoc.prems(1) RaiseEv in auto)
  next
    case (AckEv now orgId i)
    then show ?thesis using st ack_ok [OF ok] log by (auto split: prod.splits)
  next
    case (StoreEv t op)
    then show ?thesis using st ok log by (auto simp: queue_ok_def)
  qed
qed

subsection \<open>The queue\<close>

text \<open>C28: From no attention rows, after any run of raises and acknowledgements, by any hosts and organisations (what else
  happens in the database while the pushes of a raise are sent leaves the attention rows alone, \<open>calm\<close>), the pending queue of an
  organisation holds exactly the events that its own hosts raised and it has not acknowledged, an
  acknowledgement succeeds at most once for an event and only in the event's organisation, and what is listed
  is the newest part of that queue: all of it, newest first, where the page is large enough.\<close>

theorem attention_queue_is_raised_minus_acked:
  assumes "\<forall>e \<in> set es. calm e" and "db_attention db = []" and "attn_run d es (db, s) = (log, (db', s'))"
  shows "map ar_id (pending_attention orgId None db') = filter (\<lambda>i. i \<notin> set (acked orgId log)) (raised orgId log) \<and>
    distinct (acked orgId log) \<and> set (acked orgId log) \<subseteq> set (raised orgId log) \<and>
    sorted (map (\<lambda>r. - ar_createdAt r) (listAttention orgId None db')) \<and>
    set (listAttention orgId None db') \<subseteq> set (pending_attention orgId None db') \<and>
    length (listAttention orgId None db') = min 100 (length (pending_attention orgId None db')) \<and>
    (\<forall>q \<in> set (listAttention orgId None db'). \<forall>r \<in> set (pending_attention orgId None db') - set (listAttention orgId None db').
       ar_createdAt r \<le> ar_createdAt q) \<and>
    (length (pending_attention orgId None db') \<le> 100 \<longrightarrow>
       mset (listAttention orgId None db') = mset (pending_attention orgId None db'))"
proof -
  have ok: "queue_ok log db'" by (rule attn_run_ok [OF assms])
  then have st: "\<And>r. r \<in> set (db_attention db') \<Longrightarrow> ar_ackedAt r = None \<longleftrightarrow> ar_id r \<notin> set (acked (ar_orgId r) log)"
    and rs: "map ar_id (filter (\<lambda>r. ar_orgId r = orgId) (db_attention db')) = raised orgId log"
    and ds: "distinct (acked orgId log)" "set (acked orgId log) \<subseteq> set (raised orgId log)"
    unfolding queue_ok_def by auto
  have "pending_attention orgId None db' = filter (\<lambda>r. ar_id r \<notin> set (acked orgId log)) (filter (\<lambda>r. ar_orgId r = orgId) (db_attention db'))"
    unfolding pending_attention_def filter_filter by (rule filter_cong [OF refl]) (use st in \<open>auto simp del: split_paired_Ex\<close>)
  then have "map ar_id (pending_attention orgId None db') = filter (\<lambda>i. i \<notin> set (acked orgId log)) (raised orgId log)"
    by (simp add: rs [symmetric] filter_map comp_def)
  moreover have "sorted (map (\<lambda>r. - ar_createdAt r) (listAttention orgId None db'))"
    by (simp add: listAttention_def take_map [symmetric] sorted_wrt_take)
  moreover have "set (listAttention orgId None db') \<subseteq> set (pending_attention orgId None db')"
    using set_take_subset by (fastforce simp: listAttention_def)
  moreover have "length (pending_attention orgId None db') \<le> 100 \<longrightarrow>
      mset (listAttention orgId None db') = mset (pending_attention orgId None db')"
    by (simp add: listAttention_def LIST_CAP_def)
  moreover have "length (listAttention orgId None db') = min 100 (length (pending_attention orgId None db'))"
    by (simp add: listAttention_def LIST_CAP_def)
  moreover have "ar_createdAt r \<le> ar_createdAt q"
    if "q \<in> set (listAttention orgId None db')" "r \<in> set (pending_attention orgId None db') - set (listAttention orgId None db')" for q r
  proof -
    let ?xs = "sort_key (\<lambda>r. - ar_createdAt r) (pending_attention orgId None db')"
    have "sorted (map (\<lambda>r. - ar_createdAt r) (take LIST_CAP ?xs @ drop LIST_CAP ?xs))" by simp
    moreover have "r \<in> set (drop LIST_CAP ?xs)"
      using that(2) set_append [of "take LIST_CAP ?xs" "drop LIST_CAP ?xs"] by (auto simp: listAttention_def)
    ultimately show ?thesis using that(1) unfolding map_append sorted_append by (auto simp: listAttention_def)
  qed
  ultimately show ?thesis using ds by blast
qed

definition attn_host :: host_row where
  "attn_host = \<lparr>hr_id = ''h'', hr_orgId = ''o'', hr_userId = ''u'', hr_name = ''mac'', hr_staticPublicKey = ''k'', hr_hostKeyHash = ''x'',
     hr_hostKeyPrefix = ''p'', hr_lastSeenAt = None, hr_revokedAt = None\<rparr>"

definition attn_phone :: device_row where
  "attn_phone = \<lparr>dr_id = ''d'', dr_orgId = ''o'', dr_userId = ''u'', dr_name = ''phone'', dr_deviceTokenHash = ''x'', dr_deviceTokenPrefix = ''p'',
     dr_pushToken = Some ''old'', dr_voipPushToken = None, dr_devicePublicKey = None, dr_lastSeenAt = None, dr_revokedAt = None\<rparr>"

definition attn_db :: db where
  "attn_db = \<lparr>db_orgs = [], db_users = [], db_hosts = [attn_host], db_devices = [attn_phone], db_pairs = [],
     db_sessions = [\<lparr>sr_id = ''s1'', sr_hostId = ''h'', sr_orgId = ''o'', sr_sessionRef = ''r'', sr_status = ''live'', sr_startedAt = 0, sr_endedAt = None\<rparr>],
     db_attention = [], db_audit = []\<rparr>"

definition attn_asks :: attention_event where
  "attn_asks = \<lparr>ae_sessionRef = ''r'', ae_kind = KindAsks, ae_summary = ''hm'', ae_question = None, ae_options = None, ae_urgency = UrgencyNotify\<rparr>"

definition attn_demo :: "attn_event list" where
  "attn_demo = [RaiseEv None (\<lambda>i db. db) 1 1 ''a'' attn_host attn_asks, RaiseEv None (\<lambda>i db. db) 2 2 ''b'' attn_host attn_asks,
     RaiseEv None (\<lambda>i db. db) 20 20 ''c'' attn_host attn_asks, AckEv 21 ''x'' ''a'', AckEv 22 ''o'' ''a'', AckEv 23 ''o'' ''a'']"

lemma attention_queue_is_raised_minus_acked_witness:
  "let (log, (db', s')) = attn_run 10 attn_demo (attn_db, []) in
    map ar_id (pending_attention ''o'' None db') = filter (\<lambda>i. i \<notin> set (acked ''o'' log)) (raised ''o'' log) \<and>
    raised ''o'' log = [''a'', ''c''] \<and> acked ''o'' log = [''a'']"
proof -
  obtain log db' s' where r: "attn_run 10 attn_demo (attn_db, []) = (log, (db', s'))" by (metis prod.exhaust)
  have "raised ''o'' (fst (attn_run 10 attn_demo (attn_db, []))) = [''a'', ''c''] \<and> acked ''o'' (fst (attn_run 10 attn_demo (attn_db, []))) = [''a'']"
    by code_simp
  moreover have "\<forall>e \<in> set attn_demo. calm e" "db_attention attn_db = []" by (simp_all add: attn_demo_def attn_db_def)
  ultimately show ?thesis using attention_queue_is_raised_minus_acked [OF _ _ r, of "''o''"] by (simp add: r)
qed

subsection \<open>Debouncing\<close>

fun attn_clock :: "attn_event \<Rightarrow> int option" where
  "attn_clock (RaiseEv sender between clock now newId host event) = Some clock"
| "attn_clock (AckEv now orgId i) = None"
| "attn_clock (StoreEv t op) = Some t"

lemma raise_store:
  "snd (snd (snd (raiseAttention sender between d clock now newId host event db s))) =
     (if find (\<lambda>r. sr_hostId r = hr_id host \<and> sr_sessionRef r = ae_sessionRef event) (db_sessions db) = None then s
      else snd (redis_set clock (suppressionKey (hr_id host) (ae_sessionRef event) (kind_text (ae_kind event))) (NumText 1) True (Some d) s))"
  by (simp add: raiseAttention_def Let_def case_prod_beta)

lemma set_other_key: "k \<noteq> k' \<Longrightarrow> aget (snd (redis_set t k' v nx px s)) k = aget s k"
  using exec_other_key [of k "OpSet k' v nx px" t s] by (simp add: case_prod_beta)

text \<open>A lock that has not run out stays as it is.\<close>

lemma lock_stays:
  assumes "aget s k = Some e" and "re_expiresAt e = Some u" and "has_prefix ''attn:'' k"
    and "\<forall>ev \<in> set es. \<forall>t. attn_clock ev = Some t \<longrightarrow> t < u"
  shows "aget (snd (snd (attn_run d es (db, s)))) k = Some e"
  using assms
proof (induction es arbitrary: db s)
  case (Cons ev es)
  obtain a db1 s1 where st: "attn_step d ev (db, s) = (a, (db1, s1))" by (metis prod.exhaust)
  have "aget s1 k = Some e"
  proof (cases ev)
    case (RaiseEv sender between clock now newId host event)
    let ?k = "suppressionKey (hr_id host) (ae_sessionRef event) (kind_text (ae_kind event))"
    have "\<not> expired clock e" using Cons.prems(2,4) RaiseEv by (auto simp: expired_def)
    then have "redis_set clock k (NumText 1) True (Some d) s = (False, s)" using live_entry [OF Cons.prems(1)] by (simp add: redis_set_def)
    moreover have "s1 = snd (snd (snd (raiseAttention sender between d clock now newId host event db s)))"
      using st RaiseEv by (auto split: prod.splits)
    ultimately show ?thesis using Cons.prems(1) set_other_key [of k ?k clock "NumText 1" True "Some d" s]
      by (cases "k = ?k") (auto simp: raise_store)
  next
    case (AckEv now orgId i)
    then show ?thesis using st Cons.prems(1) by (auto split: prod.splits)
  next
    case (StoreEv t op)
    then show ?thesis using st Cons.prems(1,3) exec_other_key [of k op t s] by (auto split: if_splits)
  qed
  from Cons.IH [OF this Cons.prems(2,3)] Cons.prems(4) show ?case by (simp add: st Let_def case_prod_beta)
qed simp

lemma fresh_takes_lock:
  assumes "raiseAttention sender between d clock now newId host event db s = (Raised (RaiseFresh i), sent, db', s')"
  shows "fst (redis_set clock (suppressionKey (hr_id host) (ae_sessionRef event) (kind_text (ae_kind event))) (NumText 1) True (Some d) s) \<and>
    aget s' (suppressionKey (hr_id host) (ae_sessionRef event) (kind_text (ae_kind event))) =
      Some \<lparr>re_value = NumText 1, re_expiresAt = Some (clock + d)\<rparr>"
  using assms by (auto simp: raiseAttention_def Let_def case_prod_beta redis_set_def split: if_splits)

text \<open>Two raises of one host for one session and kind that both get through are a debounce window apart, whatever
  is raised, acknowledged or stored in between; the others are coalesced, with no row and no push.\<close>

lemma attention_is_debounced:
  assumes "attn_step d (RaiseEv sender between clock now newId host event) st = (AnsRaise (Raised (RaiseFresh i)), st1)"
    and "attn_step d (RaiseEv sender' between' clock' now' newId' host' event') (snd (attn_run d es st1)) = (AnsRaise (Raised (RaiseFresh i')), st2)"
    and "hr_id host' = hr_id host" "ae_sessionRef event' = ae_sessionRef event" "ae_kind event' = ae_kind event"
    and "\<forall>e \<in> set es. \<forall>t. attn_clock e = Some t \<longrightarrow> t \<le> clock'"
  shows "clock + d \<le> clock'"
proof (rule ccontr)
  let ?k = "suppressionKey (hr_id host) (ae_sessionRef event) (kind_text (ae_kind event))"
  assume "\<not> clock + d \<le> clock'"
  then have early: "clock' < clock + d" by simp
  obtain db s where st: "st = (db, s)" by fastforce
  obtain db1 s1 where st1: "st1 = (db1, s1)" by fastforce
  obtain sent where "raiseAttention sender between d clock now newId host event db s = (Raised (RaiseFresh i), sent, db1, s1)"
    using assms(1) by (auto simp: st st1 split: prod.splits)
  from fresh_takes_lock [OF this] have lock: "aget s1 ?k = Some \<lparr>re_value = NumText 1, re_expiresAt = Some (clock + d)\<rparr>" by simp
  obtain db2 s2 where run: "snd (attn_run d es st1) = (db2, s2)" by fastforce
  have "aget (snd (snd (attn_run d es (db1, s1)))) ?k = Some \<lparr>re_value = NumText 1, re_expiresAt = Some (clock + d)\<rparr>"
    by (rule lock_stays [OF lock]) (use early assms(6) in \<open>auto simp: suppressionKey_def has_prefix_def\<close>)
  then have l2: "aget s2 ?k = Some \<lparr>re_value = NumText 1, re_expiresAt = Some (clock + d)\<rparr>" using run st1 by simp
  have "\<not> expired clock' \<lparr>re_value = NumText 1 :: cp_json redis_value, re_expiresAt = Some (clock + d)\<rparr>" using early by (simp add: expired_def)
  from live_entry [OF l2 this] have "\<not> fst (redis_set clock' ?k (NumText 1) True (Some d) s2)" by (simp add: redis_set_def)
  moreover obtain sent' db3 s3 where "raiseAttention sender' between' d clock' now' newId' host' event' db2 s2 = (Raised (RaiseFresh i'), sent', db3, s3)"
    using assms(2) by (auto simp: run split: prod.splits)
  ultimately show False using fresh_takes_lock assms(3-5) by metis
qed

definition attn_raise :: "int \<Rightarrow> string \<Rightarrow> attn_event" where
  "attn_raise t i = RaiseEv None (\<lambda>i db. db) t t i attn_host attn_asks"

lemma attn_demo_answers:
  "fst (attn_step 10 (attn_raise 1 ''a'') (attn_db, [])) = AnsRaise (Raised (RaiseFresh ''a''))"
  "fst (attn_step 10 (attn_raise 2 ''b'') (snd (attn_step 10 (attn_raise 1 ''a'') (attn_db, [])))) = AnsRaise (Raised RaiseSuppressed)"
  "fst (attn_step 10 (attn_raise 20 ''c'') (snd (attn_run 10 [attn_raise 2 ''b''] (snd (attn_step 10 (attn_raise 1 ''a'') (attn_db, [])))))) =
     AnsRaise (Raised (RaiseFresh ''c''))"
  by code_simp+

lemma attention_is_debounced_witness:
  "fst (attn_step 10 (attn_raise 20 ''c'') (snd (attn_run 10 [attn_raise 2 ''b''] (snd (attn_step 10 (attn_raise 1 ''a'') (attn_db, [])))))) =
     AnsRaise (Raised (RaiseFresh ''c'')) \<and> (1::int) + 10 \<le> 20"
proof (rule conjI [OF attn_demo_answers(3)])
  let ?st1 = "snd (attn_step 10 (attn_raise 1 ''a'') (attn_db, []))"
  let ?st = "snd (attn_run 10 [attn_raise 2 ''b''] ?st1)"
  have one: "attn_step 10 (attn_raise 1 ''a'') (attn_db, []) = (AnsRaise (Raised (RaiseFresh ''a'')), ?st1)"
    using attn_demo_answers(1) by (metis prod.collapse)
  have two: "attn_step 10 (attn_raise 20 ''c'') ?st = (AnsRaise (Raised (RaiseFresh ''c'')), snd (attn_step 10 (attn_raise 20 ''c'') ?st))"
    using attn_demo_answers(3) by (metis prod.collapse)
  show "(1::int) + 10 \<le> 20"
    by (rule attention_is_debounced [OF one [unfolded attn_raise_def] two [unfolded attn_raise_def]]) (simp_all add: attn_raise_def)
qed

subsection \<open>Pushes\<close>

lemma deliver_tokens:
  "p \<in> set (fst (deliver_each sender between channel mk token_of ds db)) \<Longrightarrow> \<exists>d \<in> set ds. \<exists>token. token_of d = Some token \<and> p = mk token"
  by (induction ds arbitrary: db) (auto simp: Let_def case_prod_beta split: option.splits)

lemma route_event_tokens:
  "p \<in> set (fst (route_event sender between event ds keys db)) \<Longrightarrow>
     \<exists>d \<in> set ds. (op_kind p = AlertPush \<and> dr_pushToken d = Some (op_token p) \<and> PushKey \<in> set keys) \<or>
       (op_kind p = VoipPush \<and> dr_voipPushToken d = Some (op_token p) \<and> RingKey \<in> set keys)"
proof (induction keys arbitrary: db)
  case (Cons key keys)
  obtain sent db1 where c: "channel_deliver sender between event ds key db = (sent, db1)" by fastforce
  have "p \<in> set sent \<Longrightarrow> \<exists>d \<in> set ds. (op_kind p = AlertPush \<and> dr_pushToken d = Some (op_token p) \<and> key = PushKey) \<or>
      (op_kind p = VoipPush \<and> dr_voipPushToken d = Some (op_token p) \<and> key = RingKey)"
  proof -
    assume p: "p \<in> set sent"
    then obtain s where s: "sender = Some s" using c by (cases sender) (auto simp: channel_deliver_def)
    show ?thesis
    proof (cases key)
      case InApp
      then show ?thesis using p c s by (simp add: channel_deliver_def)
    next
      case PushKey
      have "p \<in> set (fst (deliver_each s between PushKey (push_for (resolveHostName db (ar_hostId event)) event) dr_pushToken ds db))"
        using p c s PushKey by (simp add: channel_deliver_def)
      from deliver_tokens [OF this] show ?thesis by (auto simp: push_for_def PushKey)
    next
      case RingKey
      have "p \<in> set (fst (deliver_each s between RingKey (ring_for (resolveHostName db (ar_hostId event)) event) dr_voipPushToken ds db))"
        using p c s RingKey by (simp add: channel_deliver_def)
      from deliver_tokens [OF this] show ?thesis by (auto simp: ring_for_def RingKey)
    qed
  qed
  moreover have "p \<in> set sent \<or> p \<in> set (fst (route_event sender between event ds keys db1))"
    using Cons.prems c by (auto simp: Let_def case_prod_beta)
  ultimately show ?case using Cons.IH [of db1] by auto
qed simp

text \<open>A raise pushes only to unrevoked devices of the organisation of its host, and only what the urgency routes to.\<close>

lemma pushes_reach_own_devices:
  assumes "raiseAttention sender between d clock now newId host event db s = (answer, sent, db', s')" and "p \<in> set sent"
  shows "\<exists>dev \<in> set (db_devices db). dr_orgId dev = hr_orgId host \<and> dr_revokedAt dev = None \<and>
    ((op_kind p = AlertPush \<and> dr_pushToken dev = Some (op_token p) \<and> ae_urgency event \<noteq> UrgencyDigest) \<or>
     (op_kind p = VoipPush \<and> dr_voipPushToken dev = Some (op_token p) \<and> ae_urgency event = UrgencyCall))"
proof -
  obtain row db1 where "p \<in> set (fst (route_event sender between row (org_devices (hr_orgId host) db) (ATTENTION_ROUTING (ae_urgency event)) db1))"
    using assms by (fastforce simp: raiseAttention_def Let_def case_prod_beta org_devices_def split: if_splits)
  from route_event_tokens [OF this] show ?thesis
    by (cases "ae_urgency event") (auto simp: org_devices_def ATTENTION_ROUTING_def)
qed

text \<open>
  The outcome of a send is applied to the device, whatever token it has by then: a phone that registers a new
  token while the push to its old one is under way loses the new one.
\<close>

lemma heal_wipes_the_new_token:
  "let between = (\<lambda>i db. db\<lparr>db_devices := map (\<lambda>d. if dr_id d = i then d\<lparr>dr_pushToken := Some ''new''\<rparr> else d) (db_devices db)\<rparr>);
       (answer, sent, db', s') = raiseAttention (Some (\<lambda>p. if op_token p = ''old'' then BadToken else PushOk)) between 10 1 1 ''a'' attn_host attn_asks attn_db
         ([] :: cp_store)
   in map op_token sent = [''old''] \<and> map dr_pushToken (db_devices db') = [None]"
  by code_simp

end
