(* ===== verification/Tickets.thy ===== *)
theory Tickets
  imports Tenancy Keyring
begin

text \<open>
  \<open>services/relay-coordination.ts\<close>, the route \<open>POST /v1/relay/tickets\<close> and the two internal ones, and the
  relay's client of these (\<open>apps/relay/src/authorizer.ts\<close>): one-time tickets from their issue to the cell
  that presents them. Fresh tickets, row ids and the configuration are arguments; a response of the
  internal API is its status and its body, or nothing when the transport fails.
\<close>

subsection \<open>Issue\<close>

definition ticketKey :: "crypto \<Rightarrow> string \<Rightarrow> string" where
  "ticketKey C ticket = ''relay:tkt:'' @ sha256Hex C ticket"

definition TICKET_MINT_ATTEMPTS :: nat where
  "TICKET_MINT_ATTEMPTS = 3"

record issue_result =
  ir_ticket :: string
  ir_expiresAt :: int
  ir_cellUrl :: "string option"
  ir_hostPublicKeyB64 :: string

record relay_config =
  rc_relayTicketTtlMs :: int
  rc_directorUrl :: "string option"
  rc_ticketsPerMin :: int

definition ticket_for :: "relay_config \<Rightarrow> int \<Rightarrow> host_row \<Rightarrow> string \<Rightarrow> principal_kind \<Rightarrow> string \<Rightarrow> ticket_value" where
  "ticket_for config now host orgId kind principalId =
     \<lparr>tv_hostId = hr_id host, tv_orgId = orgId, tv_principalKind = kind, tv_principalId = principalId,
      tv_expiresAt = now + rc_relayTicketTtlMs config\<rparr>"

text \<open>The loop over the attempts, each with its own fresh ticket and store clock; \<open>None\<close> is the throw.\<close>

fun issue_attempts ::
  "crypto \<Rightarrow> relay_config \<Rightarrow> host_row \<Rightarrow> ticket_value \<Rightarrow> (int \<times> string) list \<Rightarrow> cp_store \<Rightarrow> issue_result option \<times> cp_store" where
  "issue_attempts C config host v [] s = (None, s)"
| "issue_attempts C config host v ((clock, ticket) # more_tickets) s =
     (let (stored, s1) = redis_set clock (ticketKey C ticket) (JsonText (TicketJson v)) True (Some (rc_relayTicketTtlMs config)) s
      in if stored
         then (Some \<lparr>ir_ticket = ticket, ir_expiresAt = tv_expiresAt v, ir_cellUrl = rc_directorUrl config,
                     ir_hostPublicKeyB64 = hr_staticPublicKey host\<rparr>, s1)
         else issue_attempts C config host v more_tickets s1)"

definition issueTicket ::
  "crypto \<Rightarrow> relay_config \<Rightarrow> int \<Rightarrow> host_row \<Rightarrow> string \<Rightarrow> principal_kind \<Rightarrow> string \<Rightarrow> (int \<times> string) list \<Rightarrow> cp_store \<Rightarrow>
   issue_result option \<times> cp_store" where
  "issueTicket C config now host orgId kind principalId fresh s =
     issue_attempts C config host (ticket_for config now host orgId kind principalId) (take TICKET_MINT_ATTEMPTS fresh) s"

subsection \<open>Consumption\<close>

definition loadActiveHost :: "db \<Rightarrow> string \<Rightarrow> host_row option" where
  "loadActiveHost db hostId =
     (case find (\<lambda>h. hr_id h = hostId) (db_hosts db) of
        None \<Rightarrow> None
      | Some row \<Rightarrow> if hr_revokedAt row \<noteq> None then None else Some row)"

record consumed_ticket =
  ck_hostId :: string
  ck_orgId :: string
  ck_expiresAt :: int
  ck_hostStaticPublicKey :: bytes
  ck_hostPublicKeyB64 :: string

definition parse_ticket :: "cp_json redis_value \<Rightarrow> ticket_value option" where
  "parse_ticket v = (case v of JsonText (TicketJson t) \<Rightarrow> Some t | _ \<Rightarrow> None)"

text \<open>Behind the atomic read and delete.\<close>

definition resolve_record :: "base64 \<Rightarrow> db \<Rightarrow> int \<Rightarrow> cp_json redis_value option \<Rightarrow> consumed_ticket option" where
  "resolve_record B db now raw =
     (case raw of
        None \<Rightarrow> None
      | Some v \<Rightarrow>
          (case parse_ticket v of
             None \<Rightarrow> None
           | Some record \<Rightarrow>
               if tv_expiresAt record \<le> now then None
               else
                 (case loadActiveHost db (tv_hostId record) of
                    None \<Rightarrow> None
                  | Some host \<Rightarrow>
                      map_option (\<lambda>key. \<lparr>ck_hostId = hr_id host, ck_orgId = tv_orgId record, ck_expiresAt = tv_expiresAt record,
                          ck_hostStaticPublicKey = key, ck_hostPublicKeyB64 = hr_staticPublicKey host\<rparr>)
                        (decodeKey B (hr_staticPublicKey host)))))"

definition consumeTicket ::
  "crypto \<Rightarrow> base64 \<Rightarrow> int \<Rightarrow> db \<Rightarrow> int \<Rightarrow> string \<Rightarrow> cp_store \<Rightarrow> consumed_ticket option \<times> cp_store" where
  "consumeTicket C B clock db now ticket s =
     (let (raw, s1) = redis_getdel clock (ticketKey C ticket) s in (resolve_record B db now raw, s1))"

text \<open>\<open>makeControlPlaneAuthorizer\<close>: what a cell is told.\<close>

definition cp_resolveTicket ::
  "crypto \<Rightarrow> base64 \<Rightarrow> int \<Rightarrow> db \<Rightarrow> int \<Rightarrow> string \<Rightarrow> cp_store \<Rightarrow> (string \<times> int) option \<times> cp_store" where
  "cp_resolveTicket C B clock db now ticket s =
     (let (c, s1) = consumeTicket C B clock db now ticket s
      in (map_option (\<lambda>c. (ck_hostId c, ck_expiresAt c)) c, s1))"

definition cp_hostStaticPublicKey :: "base64 \<Rightarrow> db \<Rightarrow> string \<Rightarrow> bytes option" where
  "cp_hostStaticPublicKey B db hostId =
     (case loadActiveHost db hostId of None \<Rightarrow> None | Some h \<Rightarrow> decodeKey B (hr_staticPublicKey h))"

subsection \<open>The routes\<close>

datatype ticket_reply = TicketOk issue_result | TicketError nat string | TicketThrow

text \<open>The clock readings: of the guard, the two of the rate limit, of the issue, and of the audit row.\<close>

record route_times =
  rt_auth :: int
  rt_now :: int
  rt_rate1 :: int
  rt_rate2 :: int
  rt_issue :: int
  rt_audit :: int

definition ticket_route ::
  "crypto \<Rightarrow> (string \<Rightarrow> string option) \<Rightarrow> relay_config \<Rightarrow> route_times \<Rightarrow> (int \<times> string) list \<Rightarrow> string \<Rightarrow>
   string option \<Rightarrow> string option \<Rightarrow> db \<Rightarrow> cp_store \<Rightarrow> ticket_reply \<times> db \<times> cp_store" where
  "ticket_route C verifyHuman config rt fresh auditId header body db s =
     (case requireDeviceOrHuman C verifyHuman db (rt_auth rt) s (rt_now rt) header of
        None \<Rightarrow> (TicketError 401 ''unauthenticated'', db, s)
      | Some caller \<Rightarrow>
          let (allowed, s1) = checkRateLimit (rt_rate1 rt) (rt_rate2 rt) ''tickets'' (rp_id caller) (rc_ticketsPerMin config) 60000 s
          in if \<not> allowed then (TicketError 429 ''rate-limited'', db, s1)
             else case body of
                 None \<Rightarrow> (TicketError 400 ''invalid-request'', db, s1)
               | Some hostId \<Rightarrow>
                   (case find (\<lambda>h. hr_id h = hostId) (db_hosts db) of
                      None \<Rightarrow> (TicketError 404 ''host-not-found'', db, s1)
                    | Some host \<Rightarrow>
                        if hr_revokedAt host \<noteq> None \<or> hr_orgId host \<noteq> rp_orgId caller
                        then (TicketError 404 ''host-not-found'', db, s1)
                        else
                          (case issueTicket C config (rt_issue rt) host (rp_orgId caller) (rp_kind caller) (rp_id caller) fresh s1 of
                             (None, s2) \<Rightarrow> (TicketThrow, db, s2)
                           | (Some r, s2) \<Rightarrow>
                               (TicketOk r,
                                appendAuditEvent auditId (rt_audit rt) (rp_orgId caller) TicketMinted (Some (hr_id host))
                                  (if rp_kind caller = DevicePrincipal then Some (rp_id caller) else None)
                                  [(''principal'', if rp_kind caller = DevicePrincipal then ''device'' else ''human'')] db, s2))))"

definition authorizeInternal :: "string option \<Rightarrow> string option \<Rightarrow> (nat \<times> string) option" where
  "authorizeInternal configured provided =
     (case configured of
        None \<Rightarrow> Some (503, ''not-configured'')
      | Some key \<Rightarrow>
          (case provided of
             None \<Rightarrow> Some (401, ''unauthenticated'')
           | Some p \<Rightarrow> if constantTimeEqual (utf8 p) (utf8 key) then None else Some (401, ''unauthenticated'')))"

datatype internal_body = ValidateOk string string int string | HostKeyOk string | ErrorBody string

definition validate_route ::
  "crypto \<Rightarrow> base64 \<Rightarrow> string option \<Rightarrow> string option \<Rightarrow> int \<Rightarrow> db \<Rightarrow> int \<Rightarrow> string option \<Rightarrow> cp_store \<Rightarrow>
   (nat \<times> internal_body) \<times> cp_store" where
  "validate_route C B configured provided clock db now body s =
     (case authorizeInternal configured provided of
        Some (status, code) \<Rightarrow> ((status, ErrorBody code), s)
      | None \<Rightarrow>
          (case body of
             None \<Rightarrow> ((400, ErrorBody ''invalid-request''), s)
           | Some ticket \<Rightarrow>
               (case consumeTicket C B clock db now ticket s of
                  (None, s1) \<Rightarrow> ((404, ErrorBody ''ticket-invalid''), s1)
                | (Some c, s1) \<Rightarrow>
                    ((200, ValidateOk (ck_hostId c) (ck_orgId c) (ck_expiresAt c) (ck_hostPublicKeyB64 c)), s1))))"

definition host_key_route ::
  "string option \<Rightarrow> string option \<Rightarrow> db \<Rightarrow> string option \<Rightarrow> nat \<times> internal_body" where
  "host_key_route configured provided db body =
     (case authorizeInternal configured provided of
        Some (status, code) \<Rightarrow> (status, ErrorBody code)
      | None \<Rightarrow>
          (case body of
             None \<Rightarrow> (400, ErrorBody ''invalid-request'')
           | Some hostId \<Rightarrow>
               (case find (\<lambda>h. hr_id h = hostId) (db_hosts db) of
                  None \<Rightarrow> (404, ErrorBody ''host-not-found'')
                | Some h \<Rightarrow> if hr_revokedAt h \<noteq> None then (404, ErrorBody ''host-not-found'') else (200, HostKeyOk (hr_staticPublicKey h)))))"

subsection \<open>The relay's client\<close>

text \<open>A response: none when \<open>fetch\<close> rejected; a body that is not JSON or not of the schema is \<open>None\<close>.\<close>

definition http_resolveTicket :: "(nat \<times> internal_body option) option \<Rightarrow> (string \<times> int) option" where
  "http_resolveTicket response =
     (case response of
        Some (status, Some (ValidateOk hostId orgId expiresAt key)) \<Rightarrow>
          if status = 200 \<and> hostId \<noteq> [] then Some (hostId, expiresAt) else None
      | _ \<Rightarrow> None)"

definition http_hostStaticPublicKey :: "base64 \<Rightarrow> (nat \<times> internal_body option) option \<Rightarrow> bytes option" where
  "http_hostStaticPublicKey B response =
     (case response of
        Some (status, Some (HostKeyOk key)) \<Rightarrow> if status = 200 \<and> key \<noteq> [] then decodeKey B key else None
      | Some (status, Some (ValidateOk hostId orgId expiresAt key)) \<Rightarrow>
          if status = 200 \<and> key \<noteq> [] then decodeKey B key else None
      | _ \<Rightarrow> None)"

end
