(* ===== verification/Pairing.thy ===== *)
theory Pairing
  imports Tenancy Trust
begin

text \<open>
  Pairing a phone: \<open>services/pairing.ts\<close> of the control plane and \<open>enrollDevice\<close> of
  \<open>packages/cli/src/commands/dock.ts\<close>. Each statement on the database is one step, so that the calls of
  many replicas interleave between them; random parts, row ids and the identity provider's answer come
  with the step.
\<close>

subsection \<open>Minting\<close>

record pair_config =
  pc_pairTokenTtlMs :: int
  pc_directorUrl :: "string option"
  pc_apiPublicUrl :: "string option"

definition unreserved :: "char \<Rightarrow> bool" where
  "unreserved c \<longleftrightarrow>
     (let n = of_char c :: nat
      in (48 \<le> n \<and> n \<le> 57) \<or> (65 \<le> n \<and> n \<le> 90) \<or> (97 \<le> n \<and> n \<le> 122)) \<or>
     c \<in> set ''-_.!~*'' \<or> c = CHR 0x27 \<or> c = CHR ''('' \<or> c = CHR '')''"

text \<open>On a text given by its UTF-8 bytes; the digits are upper case.\<close>

definition encodeURIComponent :: "string \<Rightarrow> string" where
  "encodeURIComponent s =
     concat (map (\<lambda>c. if unreserved c then [c]
       else let n = of_char c :: nat in [CHR ''%'', upper (hex_digit (n div 16)), upper (hex_digit (n mod 16))]) s)"

text \<open>\<open>toString('base64url')\<close>.\<close>

definition base64url :: "base64 \<Rightarrow> bytes \<Rightarrow> string" where
  "base64url B bs =
     map (\<lambda>c. if c = CHR ''+'' then CHR ''-'' else if c = CHR ''/'' then CHR ''_'' else c)
       (filter (\<lambda>c. c \<noteq> CHR ''='') (b64_encode B bs))"

definition text_or_blank :: "string option \<Rightarrow> string" where
  "text_or_blank x = (case x of None \<Rightarrow> [] | Some s \<Rightarrow> s)"

record mint_result =
  mr_pairToken :: string
  mr_expiresAt :: int
  mr_qrUrl :: string

definition pair_url :: "base64 \<Rightarrow> pair_config \<Rightarrow> string \<Rightarrow> host_row \<Rightarrow> string" where
  "pair_url B config token host =
     ''pherry://pair?token='' @ encodeURIComponent token @
     ''&host='' @ encodeURIComponent (hr_id host) @
     ''&key='' @ encodeURIComponent (base64url B (b64_decode B (hr_staticPublicKey host))) @
     ''&director='' @ encodeURIComponent (text_or_blank (pc_directorUrl config)) @
     ''&api='' @ encodeURIComponent (text_or_blank (pc_apiPublicUrl config))"

text \<open>The insert fails where a row with the id or the hash is there; \<open>None\<close> is that throw.\<close>

definition mintPairToken ::
  "crypto \<Rightarrow> base64 \<Rightarrow> pair_config \<Rightarrow> int \<Rightarrow> host_row \<Rightarrow> user_row \<Rightarrow> org_row \<Rightarrow> string \<Rightarrow> string \<Rightarrow> db \<Rightarrow>
   mint_result option \<times> db" where
  "mintPairToken C B config now host user org random newId db =
     (let secret = mintSecret C ''pt'' random;
          expiresAt = now + pc_pairTokenTtlMs config;
          row = \<lparr>pr_id = newId, pr_orgId = og_id org, pr_userId = us_id user, pr_hostId = hr_id host,
                 pr_tokenHash = ms_hash secret, pr_expiresAt = expiresAt, pr_redeemedAt = None, pr_redeemedDeviceId = None\<rparr>
      in if list_ex (\<lambda>r. pr_id r = newId \<or> pr_tokenHash r = ms_hash secret) (db_pairs db) then (None, db)
         else (Some \<lparr>mr_pairToken = ms_token secret, mr_expiresAt = expiresAt, mr_qrUrl = pair_url B config (ms_token secret) host\<rparr>,
               db\<lparr>db_pairs := db_pairs db @ [row]\<rparr>))"

subsection \<open>Redemption\<close>

record redeem_options =
  ro_pairToken :: string
  ro_deviceName :: "string option"
  ro_devicePublicKeyB64 :: "string option"

definition redeemable :: "crypto \<Rightarrow> int \<Rightarrow> string \<Rightarrow> pair_row \<Rightarrow> bool" where
  "redeemable C now token r \<longleftrightarrow> pr_tokenHash r = sha256Hex C token \<and> pr_redeemedAt r = None \<and> now < pr_expiresAt r"

text \<open>The guarded update, and the first row it returned.\<close>

definition claim_pair :: "crypto \<Rightarrow> int \<Rightarrow> string \<Rightarrow> db \<Rightarrow> pair_row option \<times> db" where
  "claim_pair C now token db =
     (map_option (\<lambda>r. r\<lparr>pr_redeemedAt := Some now\<rparr>) (find (redeemable C now token) (db_pairs db)),
      db\<lparr>db_pairs := map (\<lambda>r. if redeemable C now token r then r\<lparr>pr_redeemedAt := Some now\<rparr> else r) (db_pairs db)\<rparr>)"

record redeem_result =
  rr_deviceToken :: string
  rr_signInToken :: "string option"
  rr_hostId :: string
  rr_hostKey :: string
  rr_directorUrl :: "string option"

text \<open>Where a redemption stands between its statements.\<close>

datatype redeem_phase =
    AtClaim
  | AtInsert pair_row
  | AtStamp pair_row device_row string
  | AtAudit pair_row device_row string
  | AtHost pair_row string
  | AtUser pair_row string host_row
  | Refused
  | Threw
  | Redeemed redeem_result

record redeem_fresh =
  rf_random :: string
  rf_deviceId :: string
  rf_auditId :: string
  rf_signIn :: "string \<Rightarrow> string option"

definition redeem_step ::
  "crypto \<Rightarrow> pair_config \<Rightarrow> int \<Rightarrow> redeem_options \<Rightarrow> redeem_fresh \<Rightarrow> redeem_phase \<Rightarrow> db \<Rightarrow> redeem_phase \<times> db" where
  "redeem_step C config now opts fresh phase db =
     (case phase of
        AtClaim \<Rightarrow>
          (case claim_pair C now (ro_pairToken opts) db of
             (None, db1) \<Rightarrow> (Refused, db1)
           | (Some token, db1) \<Rightarrow> (AtInsert token, db1))
      | AtInsert token \<Rightarrow>
          let secret = mintSecret C ''dt'' (rf_random fresh);
              device = \<lparr>dr_id = rf_deviceId fresh, dr_orgId = pr_orgId token, dr_userId = pr_userId token,
                 dr_name = (case ro_deviceName opts of None \<Rightarrow> ''device'' | Some n \<Rightarrow> n), dr_deviceTokenHash = ms_hash secret,
                 dr_deviceTokenPrefix = ms_prefix secret, dr_pushToken = None, dr_voipPushToken = None,
                 dr_devicePublicKey = ro_devicePublicKeyB64 opts, dr_lastSeenAt = None, dr_revokedAt = None\<rparr>
          in if list_ex (\<lambda>d. dr_id d = rf_deviceId fresh \<or> dr_deviceTokenHash d = ms_hash secret) (db_devices db)
             then (Threw, db)
             else (AtStamp token device (ms_token secret), db\<lparr>db_devices := db_devices db @ [device]\<rparr>)
      | AtStamp token device plain \<Rightarrow>
          (AtAudit token device plain,
           db\<lparr>db_pairs := map (\<lambda>r. if pr_id r = pr_id token then r\<lparr>pr_redeemedDeviceId := Some (dr_id device)\<rparr> else r) (db_pairs db)\<rparr>)
      | AtAudit token device plain \<Rightarrow>
          (AtHost token plain,
           appendAuditEvent (rf_auditId fresh) now (pr_orgId token) DevicePaired (Some (pr_hostId token)) (Some (dr_id device))
             [(''name'', dr_name device), (''identityKey'', if ro_devicePublicKeyB64 opts \<noteq> None then ''true'' else ''false'')] db)
      | AtHost token plain \<Rightarrow>
          (case find (\<lambda>h. hr_id h = pr_hostId token) (db_hosts db) of
             None \<Rightarrow> (Threw, db)
           | Some host \<Rightarrow> (AtUser token plain host, db))
      | AtUser token plain host \<Rightarrow>
          (case find (\<lambda>u. us_id u = pr_userId token) (db_users db) of
             None \<Rightarrow> (Threw, db)
           | Some user \<Rightarrow>
               (Redeemed \<lparr>rr_deviceToken = plain, rr_signInToken = rf_signIn fresh (us_clerkUserId user), rr_hostId = hr_id host,
                  rr_hostKey = hr_staticPublicKey host, rr_directorUrl = pc_directorUrl config\<rparr>, db))
      | done \<Rightarrow> (done, db))"

text \<open>A redemption with nothing in between.\<close>

definition redeemPairToken ::
  "crypto \<Rightarrow> pair_config \<Rightarrow> int \<Rightarrow> redeem_options \<Rightarrow> redeem_fresh \<Rightarrow> db \<Rightarrow> redeem_phase \<times> db" where
  "redeemPairToken C config now opts fresh db =
     ((\<lambda>(p, db). redeem_step C config now opts fresh p db) ^^ 6) (AtClaim, db)"

subsection \<open>Status\<close>

datatype pair_status = PairPending | PairRedeemed "(string option \<times> string option) option" | PairExpired

definition pairTokenStatus :: "crypto \<Rightarrow> int \<Rightarrow> string \<Rightarrow> db \<Rightarrow> pair_status option" where
  "pairTokenStatus C now token db =
     (case find (\<lambda>r. pr_tokenHash r = sha256Hex C token) (db_pairs db) of
        None \<Rightarrow> None
      | Some row \<Rightarrow>
          if pr_redeemedAt row \<noteq> None
          then Some (PairRedeemed
            (case pr_redeemedDeviceId row of
               None \<Rightarrow> None
             | Some i \<Rightarrow> map_option (\<lambda>d. (Some (dr_name d), dr_devicePublicKey d)) (find (\<lambda>d. dr_id d = i) (db_devices db))))
          else if pr_expiresAt row \<le> now then Some PairExpired
          else Some PairPending)"

subsection \<open>The ceremony at the host\<close>

datatype enroll_outcome =
    Enrolled string string "string option"
  | EnrollExpired
  | Declined
  | NonInteractive
  | NoKey
  | StatusFault
  | BadKeyLength
  | KeyringFault store_error

text \<open>The polls: the clock, and the status or a fault of the request. The list ends where the ceremony was
  broken off; \<open>None\<close> is that.\<close>

fun await_redeemed ::
  "int \<Rightarrow> (int \<times> pair_status option) list \<Rightarrow> (enroll_outcome + (string option \<times> string option) option) option" where
  "await_redeemed expiresAt [] = None"
| "await_redeemed expiresAt ((clock, status) # polls) =
     (if expiresAt \<le> clock then Some (Inl EnrollExpired)
      else case status of
          None \<Rightarrow> Some (Inl StatusFault)
        | Some (PairRedeemed device) \<Rightarrow> Some (Inr device)
        | Some PairExpired \<Rightarrow> Some (Inl EnrollExpired)
        | Some PairPending \<Rightarrow> await_redeemed expiresAt polls)"

text \<open>The human: no terminal, or what was typed (\<open>None\<close> where the input ended).\<close>

definition enroll_device ::
  "crypto \<Rightarrow> base64 \<Rightarrow> ecdsa \<Rightarrow> (string \<Rightarrow> string \<Rightarrow> bool) \<Rightarrow> string \<Rightarrow> string option option \<Rightarrow>
   (string option \<times> string option) option \<Rightarrow> json_file \<Rightarrow> enroll_outcome \<times> json_file" where
  "enroll_device C B E le now human device f =
     (case device of
        Some (name, Some k64) \<Rightarrow>
          if k64 = [] then (NoKey, f)
          else
            (case deviceKeyIdOf C (b64_decode B k64) of
               None \<Rightarrow> (BadKeyLength, f)
             | Some deviceKeyId \<Rightarrow>
                 (case deviceFingerprint deviceKeyId of
                    None \<Rightarrow> (BadKeyLength, f)
                  | Some fingerprint \<Rightarrow>
                      (case human of
                         None \<Rightarrow> (NonInteractive, f)
                       | Some answer \<Rightarrow>
                           if \<not> confirm answer then (Declined, f)
                           else
                             (case writeAuthorizedDevice B E le
                                 \<lparr>ad_deviceKeyId = deviceKeyId, ad_publicKey = k64,
                                  ad_label = (case name of None \<Rightarrow> ''device'' | Some n \<Rightarrow> n),
                                  ad_enrolledAt = now, ad_revokedAt = None\<rparr> f of
                                Inl e \<Rightarrow> (KeyringFault e, f)
                              | Inr g \<Rightarrow> (Enrolled deviceKeyId fingerprint name, g)))))
      | _ \<Rightarrow> (NoKey, f))"

definition enrollDevice ::
  "crypto \<Rightarrow> base64 \<Rightarrow> ecdsa \<Rightarrow> (string \<Rightarrow> string \<Rightarrow> bool) \<Rightarrow> string \<Rightarrow> string option option \<Rightarrow> int \<Rightarrow>
   (int \<times> pair_status option) list \<Rightarrow> json_file \<Rightarrow> (enroll_outcome \<times> json_file) option" where
  "enrollDevice C B E le now human expiresAt polls f =
     (case await_redeemed expiresAt polls of
        None \<Rightarrow> None
      | Some (Inl r) \<Rightarrow> Some (r, f)
      | Some (Inr device) \<Rightarrow> Some (enroll_device C B E le now human device f))"

end
