(* ===== verification/Routes.thy ===== *)
theory Routes
  imports Tickets Pairing Attention
begin

text \<open>
  The routes of the control plane's API: \<open>routers/user.ts\<close>, \<open>host.ts\<close>, \<open>device.ts\<close>, \<open>attention.ts\<close>,
  \<open>pairing.ts\<close> and \<open>webhooks.ts\<close> (with the signature check of \<open>adapters/clerk.ts\<close>). A route takes the
  authorization header and the body as the schema left it (\<open>None\<close> where it failed), and gives the answer
  and the rows and the store after it; fresh ids and random parts come with the request. An insert whose
  primary key or unique column is taken throws, as the database does.
\<close>

subsection \<open>Requests, callers, answers\<close>

record api_config =
  af_maxHostsPerOrg :: int
  af_pair :: pair_config
  af_pairRedeemPerMin :: int
  af_attentionHostPerMin :: int
  af_attentionOrgPerMin :: int
  af_attentionDebounceMs :: int

record api_env =
  en_header :: "string option"
  en_clock :: int
  en_now :: int
  en_fresh :: "nat \<Rightarrow> string"
  en_random :: string
  en_auditId :: string

record session_report =
  sp_sessionRef :: string
  sp_status :: string
  sp_startedAt :: "int option"
  sp_endedAt :: "int option"

datatype api_request =
    GetMe
  | PostHosts "(string \<times> string) option"
  | GetHosts
  | PostPair string
  | DeleteHost string
  | GetDevices
  | DeleteDevice string
  | GetSessions
  | GetAudit "int option option"
  | PostHeartbeat "session_report list option"
  | PostPushTokens "(string option option \<times> string option option) option"
  | PostAttention "push_sender option" "string \<Rightarrow> db \<Rightarrow> db" "attention_event option"
  | GetAttention "int option option"
  | PostAck string

datatype api_caller =
    HumanCaller user_row org_row
  | HostCaller host_row
  | DeviceCaller device_row
  | EitherCaller relay_principal

datatype api_reply =
    ApiError nat string
  | ApiThrew
  | OkReply
  | MeReply string string string
  | HostReply string string string string "string option"
  | HostsReply "(string \<times> string \<times> string \<times> int option \<times> int option) list"
  | PairReply mint_result
  | DevicesReply "(string \<times> string \<times> string \<times> int option \<times> int option) list"
  | SessionsReply "(string \<times> string \<times> string \<times> string \<times> string \<times> int \<times> int option) list"
  | AuditReply "(string \<times> audit_kind \<times> string option \<times> string option \<times> (string \<times> string) list \<times> int) list"
  | RaiseReply "string option"
  | AttentionReply "(string \<times> string \<times> string \<times> string \<times> string \<times> string option \<times> string list option \<times> string \<times> int) list"

type_synonym cp_world = "db \<times> cp_store"

subsection \<open>Hosts and devices\<close>

definition active_hosts :: "string \<Rightarrow> db \<Rightarrow> nat" where
  "active_hosts orgId db = length (filter (\<lambda>h. hr_orgId h = orgId \<and> hr_revokedAt h = None) (db_hosts db))"

text \<open>The two statements of a registration: the count, and the insert.\<close>

definition over_cap :: "api_config \<Rightarrow> string \<Rightarrow> db \<Rightarrow> bool" where
  "over_cap config orgId db \<longleftrightarrow> af_maxHostsPerOrg config \<le> int (active_hosts orgId db)"

definition new_host :: "crypto \<Rightarrow> api_env \<Rightarrow> user_row \<Rightarrow> org_row \<Rightarrow> string \<Rightarrow> string \<Rightarrow> host_row" where
  "new_host C env u g name key =
     \<lparr>hr_id = en_fresh env 0, hr_orgId = og_id g, hr_userId = us_id u, hr_name = name, hr_staticPublicKey = key,
      hr_hostKeyHash = ms_hash (mintSecret C ''hk'' (en_random env)), hr_hostKeyPrefix = ms_prefix (mintSecret C ''hk'' (en_random env)),
      hr_lastSeenAt = None, hr_revokedAt = None\<rparr>"

definition insert_host :: "host_row \<Rightarrow> db \<Rightarrow> db option" where
  "insert_host h db =
     (if list_ex (\<lambda>r. hr_id r = hr_id h \<or> hr_hostKeyHash r = hr_hostKeyHash h) (db_hosts db) then None
      else Some (db\<lparr>db_hosts := db_hosts db @ [h]\<rparr>))"

definition post_hosts ::
  "crypto \<Rightarrow> base64 \<Rightarrow> api_config \<Rightarrow> api_env \<Rightarrow> user_row \<Rightarrow> org_row \<Rightarrow> (string \<times> string) option \<Rightarrow> db \<Rightarrow> api_reply \<times> db" where
  "post_hosts C B config env u g body db =
     (case body of
        None \<Rightarrow> (ApiError 400 ''invalid-request'', db)
      | Some (name, key) \<Rightarrow>
          if name = [] \<or> decodeKey B key = None then (ApiError 400 ''invalid-request'', db)
          else if over_cap config (og_id g) db then (ApiError 403 ''too-many-hosts'', db)
          else
            let h = new_host C env u g name key
            in (case insert_host h db of
                  None \<Rightarrow> (ApiThrew, db)
                | Some db1 \<Rightarrow>
                    (HostReply (hr_id h) (hr_name h) (hr_hostKeyPrefix h) (ms_token (mintSecret C ''hk'' (en_random env)))
                       (pc_directorUrl (af_pair config)),
                     appendAuditEvent (en_auditId env) (en_now env) (og_id g) HostRegistered (Some (hr_id h)) None [] db1)))"

definition get_hosts :: "string \<Rightarrow> db \<Rightarrow> api_reply" where
  "get_hosts orgId db =
     HostsReply (map (\<lambda>h. (hr_id h, hr_name h, hr_hostKeyPrefix h, hr_lastSeenAt h, hr_revokedAt h))
       (filter (\<lambda>h. hr_orgId h = orgId) (db_hosts db)))"

definition post_pair ::
  "crypto \<Rightarrow> base64 \<Rightarrow> api_config \<Rightarrow> api_env \<Rightarrow> user_row \<Rightarrow> org_row \<Rightarrow> string \<Rightarrow> db \<Rightarrow> api_reply \<times> db" where
  "post_pair C B config env u g i db =
     (case find (\<lambda>h. hr_id h = i) (db_hosts db) of
        None \<Rightarrow> (ApiError 404 ''host-not-found'', db)
      | Some host \<Rightarrow>
          if hr_orgId host \<noteq> og_id g \<or> hr_revokedAt host \<noteq> None then (ApiError 404 ''host-not-found'', db)
          else (case mintPairToken C B (af_pair config) (en_now env) host u g (en_random env) (en_fresh env 0) db of
                  (None, db1) \<Rightarrow> (ApiThrew, db1)
                | (Some r, db1) \<Rightarrow>
                    (PairReply r, appendAuditEvent (en_auditId env) (en_now env) (og_id g) PairMinted (Some (hr_id host)) None [] db1)))"

text \<open>The guarded update of a revocation, and whether it found a row.\<close>

definition revoke_host_row :: "int \<Rightarrow> string \<Rightarrow> db \<Rightarrow> bool \<times> db" where
  "revoke_host_row now i db =
     (list_ex (\<lambda>h. hr_id h = i \<and> hr_revokedAt h = None) (db_hosts db),
      db\<lparr>db_hosts := map (\<lambda>h. if hr_id h = i \<and> hr_revokedAt h = None then h\<lparr>hr_revokedAt := Some now\<rparr> else h) (db_hosts db)\<rparr>)"

definition delete_host :: "api_env \<Rightarrow> org_row \<Rightarrow> string \<Rightarrow> db \<Rightarrow> api_reply \<times> db" where
  "delete_host env g i db =
     (case find (\<lambda>h. hr_id h = i) (db_hosts db) of
        None \<Rightarrow> (ApiError 404 ''host-not-found'', db)
      | Some host \<Rightarrow>
          if hr_orgId host \<noteq> og_id g then (ApiError 404 ''host-not-found'', db)
          else
            let (revoked, db1) = revoke_host_row (en_now env) (hr_id host) db
            in (OkReply,
                if revoked then appendAuditEvent (en_auditId env) (en_now env) (og_id g) HostRevoked (Some (hr_id host)) None [] db1
                else db1))"

definition get_devices :: "string \<Rightarrow> db \<Rightarrow> api_reply" where
  "get_devices orgId db =
     DevicesReply (map (\<lambda>d. (dr_id d, dr_name d, dr_deviceTokenPrefix d, dr_lastSeenAt d, dr_revokedAt d))
       (filter (\<lambda>d. dr_orgId d = orgId) (db_devices db)))"

definition revoke_device_row :: "int \<Rightarrow> string \<Rightarrow> db \<Rightarrow> bool \<times> db" where
  "revoke_device_row now i db =
     (list_ex (\<lambda>d. dr_id d = i \<and> dr_revokedAt d = None) (db_devices db),
      db\<lparr>db_devices := map (\<lambda>d. if dr_id d = i \<and> dr_revokedAt d = None then d\<lparr>dr_revokedAt := Some now\<rparr> else d) (db_devices db)\<rparr>)"

definition delete_device :: "api_env \<Rightarrow> org_row \<Rightarrow> string \<Rightarrow> db \<Rightarrow> api_reply \<times> db" where
  "delete_device env g i db =
     (case find (\<lambda>d. dr_id d = i) (db_devices db) of
        None \<Rightarrow> (ApiError 404 ''device-not-found'', db)
      | Some device \<Rightarrow>
          if dr_orgId device \<noteq> og_id g then (ApiError 404 ''device-not-found'', db)
          else
            let (revoked, db1) = revoke_device_row (en_now env) (dr_id device) db
            in (OkReply,
                if revoked then appendAuditEvent (en_auditId env) (en_now env) (og_id g) DeviceRevoked None (Some (dr_id device)) [] db1
                else db1))"

text \<open>The inner join of the sessions with their hosts.\<close>

definition get_sessions :: "string \<Rightarrow> db \<Rightarrow> api_reply" where
  "get_sessions orgId db =
     SessionsReply (concat (map (\<lambda>s. case find (\<lambda>h. hr_id h = sr_hostId s) (db_hosts db) of
          None \<Rightarrow> []
        | Some h \<Rightarrow> [(sr_id s, sr_hostId s, hr_name h, sr_sessionRef s, sr_status s, sr_startedAt s, sr_endedAt s)])
       (filter (\<lambda>s. sr_orgId s = orgId) (db_sessions db))))"

definition get_audit :: "string \<Rightarrow> int option option \<Rightarrow> db \<Rightarrow> api_reply" where
  "get_audit orgId query db =
     (case query of
        None \<Rightarrow> ApiError 400 ''invalid-request''
      | Some limit \<Rightarrow>
          AuditReply (map (\<lambda>e. (au_id e, au_kind e, au_hostId e, au_deviceId e, au_detail e, au_createdAt e)) (listAuditEvents orgId limit db)))"

subsection \<open>The heartbeat of a host\<close>

definition MAX_HEARTBEAT_SESSIONS :: nat where "MAX_HEARTBEAT_SESSIONS = 100"

definition upsert_session :: "string \<Rightarrow> int \<Rightarrow> host_row \<Rightarrow> session_report \<Rightarrow> db \<Rightarrow> db option" where
  "upsert_session newId now host report db =
     (let same = (\<lambda>r :: session_row. sr_hostId r = hr_id host \<and> sr_sessionRef r = sp_sessionRef report)
      in if list_ex same (db_sessions db)
         then Some (db\<lparr>db_sessions := map (\<lambda>r. if same r then r\<lparr>sr_status := sp_status report, sr_endedAt := sp_endedAt report\<rparr> else r) (db_sessions db)\<rparr>)
         else if list_ex (\<lambda>r. sr_id r = newId) (db_sessions db) then None
         else Some (db\<lparr>db_sessions := db_sessions db @ [\<lparr>sr_id = newId, sr_hostId = hr_id host, sr_orgId = hr_orgId host,
                sr_sessionRef = sp_sessionRef report, sr_status = sp_status report,
                sr_startedAt = (case sp_startedAt report of None \<Rightarrow> now | Some t \<Rightarrow> t), sr_endedAt = sp_endedAt report\<rparr>]\<rparr>))"

fun upsert_all :: "(nat \<Rightarrow> string) \<Rightarrow> nat \<Rightarrow> int \<Rightarrow> host_row \<Rightarrow> session_report list \<Rightarrow> db \<Rightarrow> api_reply \<times> db" where
  "upsert_all fresh i now host [] db = (OkReply, db)"
| "upsert_all fresh i now host (r # rs) db =
     (case upsert_session (fresh i) now host r db of
        None \<Rightarrow> (ApiThrew, db)
      | Some db1 \<Rightarrow> upsert_all fresh (Suc i) now host rs db1)"

definition touch_host :: "int \<Rightarrow> string \<Rightarrow> db \<Rightarrow> db" where
  "touch_host now i db = db\<lparr>db_hosts := map (\<lambda>h. if hr_id h = i then h\<lparr>hr_lastSeenAt := Some now\<rparr> else h) (db_hosts db)\<rparr>"

definition post_heartbeat :: "api_env \<Rightarrow> host_row \<Rightarrow> session_report list option \<Rightarrow> db \<Rightarrow> api_reply \<times> db" where
  "post_heartbeat env host body db =
     (case body of
        None \<Rightarrow> (ApiError 400 ''invalid-request'', db)
      | Some reports \<Rightarrow>
          if MAX_HEARTBEAT_SESSIONS < length reports then (ApiError 400 ''invalid-request'', db)
          else upsert_all (en_fresh env) 0 (en_now env) host reports (touch_host (en_now env) (hr_id host) db))"

subsection \<open>The push tokens of a device\<close>

text \<open>A present key sets or clears, an absent key leaves.\<close>

definition post_push_tokens ::
  "api_env \<Rightarrow> device_row \<Rightarrow> (string option option \<times> string option option) option \<Rightarrow> db \<Rightarrow> api_reply \<times> db" where
  "post_push_tokens env device body db =
     (case body of
        None \<Rightarrow> (ApiError 400 ''invalid-request'', db)
      | Some (pushToken, voip) \<Rightarrow>
          if pushToken = None \<and> voip = None then (ApiError 400 ''invalid-request'', db)
          else
            (OkReply,
             db\<lparr>db_devices := map (\<lambda>d. if dr_id d = dr_id device
                  then d\<lparr>dr_lastSeenAt := Some (en_now env),
                         dr_pushToken := (case pushToken of None \<Rightarrow> dr_pushToken d | Some t \<Rightarrow> t),
                         dr_voipPushToken := (case voip of None \<Rightarrow> dr_voipPushToken d | Some t \<Rightarrow> t)\<rparr> else d) (db_devices db)\<rparr>))"

subsection \<open>Attention\<close>

definition post_attention ::
  "api_config \<Rightarrow> api_env \<Rightarrow> host_row \<Rightarrow> push_sender option \<Rightarrow> (string \<Rightarrow> db \<Rightarrow> db) \<Rightarrow> attention_event option \<Rightarrow> db \<Rightarrow> cp_store \<Rightarrow>
   api_reply \<times> db \<times> cp_store" where
  "post_attention config env host sender between body db s =
     (let (hostOk, s1) = checkRateLimit (en_clock env) (en_clock env) ''attention-host'' (hr_id host) (af_attentionHostPerMin config) 60000 s
      in if \<not> hostOk then (ApiError 429 ''rate-limited'', db, s1)
         else
           let (orgOk, s2) = checkRateLimit (en_clock env) (en_clock env) ''attention-org'' (hr_orgId host) (af_attentionOrgPerMin config) 60000 s1
           in if \<not> orgOk then (ApiError 429 ''rate-limited'', db, s2)
              else (case body of
                 None \<Rightarrow> (ApiError 400 ''invalid-request'', db, s2)
               | Some event \<Rightarrow>
                   let (answer, sent, db1, s3) = raiseAttention sender between (af_attentionDebounceMs config) (en_clock env) (en_now env) (en_fresh env 0) host event db s2
                   in (case answer of
                         NoSession \<Rightarrow> ApiError 404 ''session-not-found''
                       | RaiseThrow \<Rightarrow> ApiThrew
                       | Raised RaiseSuppressed \<Rightarrow> RaiseReply None
                       | Raised (RaiseFresh i) \<Rightarrow> RaiseReply (Some i), db1, s3)))"

definition toView :: "attention_row \<Rightarrow> string \<times> string \<times> string \<times> string \<times> string \<times> string option \<times> string list option \<times> string \<times> int" where
  "toView r = (ar_id r, ar_hostId r, ar_sessionRef r, ar_kind r, ar_summary r, ar_question r, ar_options r, ar_urgency r, ar_createdAt r)"

text \<open>The answer without a wait; the long poll is \<open>pollAttention\<close>.\<close>

definition get_attention :: "string \<Rightarrow> int option option \<Rightarrow> db \<Rightarrow> api_reply" where
  "get_attention orgId query db =
     (case query of
        None \<Rightarrow> ApiError 400 ''invalid-request''
      | Some since \<Rightarrow> AttentionReply (map toView (listAttention orgId since db)))"

definition post_ack :: "api_env \<Rightarrow> string \<Rightarrow> string \<Rightarrow> db \<Rightarrow> api_reply \<times> db" where
  "post_ack env orgId i db =
     (let (cleared, db1) = ackAttention (en_now env) orgId i db
      in (if cleared = None then ApiError 404 ''attention-not-found'' else OkReply, db1))"

subsection \<open>The guard and the dispatch\<close>

definition caller_of ::
  "crypto \<Rightarrow> (string \<Rightarrow> string option) \<Rightarrow> api_env \<Rightarrow> api_request \<Rightarrow> db \<Rightarrow> cp_store \<Rightarrow> api_caller option" where
  "caller_of C verifyHuman env req db s =
     (let human = map_option (\<lambda>(u, g). HumanCaller u g) (authenticateHuman C verifyHuman db (en_clock env) s (en_now env) (en_header env));
          either' = map_option EitherCaller (requireDeviceOrHuman C verifyHuman db (en_clock env) s (en_now env) (en_header env));
          host = map_option HostCaller (authenticateHost C db (en_header env))
      in case req of
           PostHeartbeat body \<Rightarrow> host
         | PostAttention sender between body \<Rightarrow> host
         | PostPushTokens body \<Rightarrow> map_option DeviceCaller (authenticateDevice C db (en_header env))
         | GetHosts \<Rightarrow> either'
         | GetAttention query \<Rightarrow> either'
         | PostAck i \<Rightarrow> either'
         | _ \<Rightarrow> human)"

definition with_store :: "cp_store \<Rightarrow> api_reply \<times> db \<Rightarrow> api_reply \<times> cp_world" where
  "with_store s r = (fst r, (snd r, s))"

text \<open>A route gets the caller of its guard.\<close>

definition serve_human ::
  "crypto \<Rightarrow> base64 \<Rightarrow> api_config \<Rightarrow> api_env \<Rightarrow> user_row \<Rightarrow> org_row \<Rightarrow> api_request \<Rightarrow> db \<Rightarrow> api_reply \<times> db" where
  "serve_human C B config env u g req db =
     (case req of
        GetMe \<Rightarrow> (MeReply (us_id u) (og_id g) (og_name g), db)
      | PostHosts body \<Rightarrow> post_hosts C B config env u g body db
      | PostPair i \<Rightarrow> post_pair C B config env u g i db
      | DeleteHost i \<Rightarrow> delete_host env g i db
      | GetDevices \<Rightarrow> (get_devices (og_id g) db, db)
      | DeleteDevice i \<Rightarrow> delete_device env g i db
      | GetSessions \<Rightarrow> (get_sessions (og_id g) db, db)
      | GetAudit query \<Rightarrow> (get_audit (og_id g) query db, db)
      | _ \<Rightarrow> (ApiThrew, db))"

definition serve_either :: "api_env \<Rightarrow> string \<Rightarrow> api_request \<Rightarrow> db \<Rightarrow> api_reply \<times> db" where
  "serve_either env orgId req db =
     (case req of
        GetHosts \<Rightarrow> (get_hosts orgId db, db)
      | GetAttention query \<Rightarrow> (get_attention orgId query db, db)
      | PostAck i \<Rightarrow> post_ack env orgId i db
      | _ \<Rightarrow> (ApiThrew, db))"

definition serve_caller ::
  "crypto \<Rightarrow> base64 \<Rightarrow> api_config \<Rightarrow> api_env \<Rightarrow> api_caller \<Rightarrow> api_request \<Rightarrow> cp_world \<Rightarrow> api_reply \<times> cp_world" where
  "serve_caller C B config env caller req w =
     (case w of (db, s) \<Rightarrow>
        (case caller of
           HumanCaller u g \<Rightarrow> with_store s (serve_human C B config env u g req db)
         | EitherCaller p \<Rightarrow> with_store s (serve_either env (rp_orgId p) req db)
         | DeviceCaller d \<Rightarrow>
             (case req of PostPushTokens body \<Rightarrow> with_store s (post_push_tokens env d body db) | _ \<Rightarrow> (ApiThrew, w))
         | HostCaller h \<Rightarrow>
             (case req of
                PostHeartbeat body \<Rightarrow> with_store s (post_heartbeat env h body db)
              | PostAttention sender between body \<Rightarrow>
                  (case post_attention config env h sender between body db s of (r, db1, s1) \<Rightarrow> (r, (db1, s1)))
              | _ \<Rightarrow> (ApiThrew, w))))"

definition api_handle ::
  "crypto \<Rightarrow> base64 \<Rightarrow> (string \<Rightarrow> string option) \<Rightarrow> api_config \<Rightarrow> api_env \<Rightarrow> api_request \<Rightarrow> cp_world \<Rightarrow> api_reply \<times> cp_world" where
  "api_handle C B verifyHuman config env req w =
     (case caller_of C verifyHuman env req (fst w) (snd w) of
        None \<Rightarrow> (ApiError 401 ''unauthenticated'', w)
      | Some caller \<Rightarrow> serve_caller C B config env caller req w)"

subsection \<open>The pairing routes\<close>

datatype pair_reply = PairError nat string | PairThrew | RedeemOk redeem_result | StatusOk pair_status

definition redeem_route ::
  "crypto \<Rightarrow> api_config \<Rightarrow> int \<Rightarrow> int \<Rightarrow> string \<Rightarrow> redeem_fresh \<Rightarrow> redeem_options option \<Rightarrow> cp_world \<Rightarrow> pair_reply \<times> cp_world" where
  "redeem_route C config clock now ip fresh body w =
     (case w of (db, s) \<Rightarrow>
        let (allowed, s1) = checkRateLimit clock clock ''pair-redeem'' ip (af_pairRedeemPerMin config) 60000 s
        in if \<not> allowed then (PairError 429 ''rate-limited'', (db, s1))
           else (case body of
              None \<Rightarrow> (PairError 400 ''invalid-request'', (db, s1))
            | Some opts \<Rightarrow>
                (case redeemPairToken C (af_pair config) now opts fresh db of
                   (Refused, db1) \<Rightarrow> (PairError 404 ''pair-token-invalid'', (db1, s1))
                 | (Redeemed r, db1) \<Rightarrow> (RedeemOk r, (db1, s1))
                 | (_, db1) \<Rightarrow> (PairThrew, (db1, s1)))))"

definition status_route :: "crypto \<Rightarrow> int \<Rightarrow> string option \<Rightarrow> db \<Rightarrow> pair_reply" where
  "status_route C now body db =
     (case body of
        None \<Rightarrow> PairError 400 ''invalid-request''
      | Some token \<Rightarrow>
          (case pairTokenStatus C now token db of
             None \<Rightarrow> PairError 404 ''pair-token-invalid''
           | Some r \<Rightarrow> StatusOk r))"

subsection \<open>The webhook\<close>

datatype clerk_event =
    UserChanged string
  | OrgCreated string "string option"
  | MemberAdded string "string option" string
  | MemberRemoved string string
  | OtherClerkEvent

definition ensure_org :: "string \<Rightarrow> string option \<Rightarrow> db \<Rightarrow> db" where
  "ensure_org i name db =
     (if list_ex (\<lambda>g. og_id g = i) (db_orgs db) then db
      else db\<lparr>db_orgs := db_orgs db @ [\<lparr>og_id = i, og_name = (case name of None \<Rightarrow> i | Some n \<Rightarrow> n)\<rparr>]\<rparr>)"

text \<open>\<open>None\<close> is a throw of the insert.\<close>

definition handleEvent :: "string \<Rightarrow> clerk_event \<Rightarrow> db \<Rightarrow> db option" where
  "handleEvent newId event db =
     (case event of
        UserChanged clerkId \<Rightarrow>
          if list_ex (\<lambda>u. us_clerkUserId u = clerkId) (db_users db) then Some db
          else if list_ex (\<lambda>u. us_id u = newId) (db_users db) then None
          else Some (db\<lparr>db_users := db_users db @ [\<lparr>us_id = newId, us_clerkUserId = clerkId, us_primaryOrgId = None\<rparr>]\<rparr>)
      | OrgCreated i name \<Rightarrow>
          Some (if list_ex (\<lambda>g. og_id g = i) (db_orgs db)
                then db\<lparr>db_orgs := map (\<lambda>g. if og_id g = i then g\<lparr>og_name := (case name of None \<Rightarrow> i | Some n \<Rightarrow> n)\<rparr> else g) (db_orgs db)\<rparr>
                else ensure_org i name db)
      | MemberAdded i name clerkId \<Rightarrow>
          (let db1 = ensure_org i name db
           in Some (db1\<lparr>db_users := map (\<lambda>u. if us_clerkUserId u = clerkId \<and> us_primaryOrgId u = None
                  then u\<lparr>us_primaryOrgId := Some i\<rparr> else u) (db_users db1)\<rparr>))
      | MemberRemoved i clerkId \<Rightarrow>
          Some (db\<lparr>db_users := map (\<lambda>u. if us_clerkUserId u = clerkId \<and> us_primaryOrgId u = Some i
                  then u\<lparr>us_primaryOrgId := None\<rparr> else u) (db_users db)\<rparr>)
      | OtherClerkEvent \<Rightarrow> Some db)"

definition WEBHOOK_TOLERANCE_MS :: int where "WEBHOOK_TOLERANCE_MS = 5 * 60 * 1000"

record svix_headers =
  sv_id :: "string option"
  sv_timestamp :: "string option"
  sv_signature :: "string option"

fun split_at :: "char \<Rightarrow> string \<Rightarrow> string list" where
  "split_at c [] = [[]]"
| "split_at c (x # xs) = (if x = c then [] # split_at c xs else (case split_at c xs of [] \<Rightarrow> [[x]] | p # ps \<Rightarrow> (x # p) # ps))"

text \<open>The value of a numeral, where it is a finite number, is a parameter (in milliseconds when multiplied out).\<close>

definition verifyClerkWebhook ::
  "crypto \<Rightarrow> base64 \<Rightarrow> (string \<Rightarrow> int option) \<Rightarrow> svix_headers \<Rightarrow> string \<Rightarrow> string \<Rightarrow> int \<Rightarrow> bool" where
  "verifyClerkWebhook C B millis headers rawBody secret now =
     (case (sv_id headers, sv_timestamp headers, sv_signature headers) of
        (Some i, Some timestamp, Some signatureHeader) \<Rightarrow>
          if secret = [] then False
          else (case millis timestamp of
            None \<Rightarrow> False
          | Some ts \<Rightarrow>
              if WEBHOOK_TOLERANCE_MS < \<bar>now - ts\<bar> then False
              else
                let key = b64_decode B (if has_prefix ''whsec_'' secret then drop 6 secret else secret)
                in if key = [] then False
                   else
                     let expected = b64_encode B (hmac_256 C key (utf8 (i @ ''.'' @ timestamp @ ''.'' @ rawBody)))
                     in list_ex (\<lambda>part. case split_at CHR '','' part of
                          version # sig # _ \<Rightarrow> version = ''v1'' \<and> constantTimeEqual (utf8 sig) (utf8 expected)
                        | _ \<Rightarrow> False) (split_at CHR '' '' signatureHeader))
      | _ \<Rightarrow> False)"

text \<open>A body that is no event of Clerk's envelope is acknowledged.\<close>

definition webhook_route ::
  "crypto \<Rightarrow> base64 \<Rightarrow> (string \<Rightarrow> int option) \<Rightarrow> (string \<Rightarrow> clerk_event option) \<Rightarrow> string option \<Rightarrow> svix_headers \<Rightarrow> string \<Rightarrow>
   int \<Rightarrow> string \<Rightarrow> db \<Rightarrow> api_reply \<times> db" where
  "webhook_route C B millis parse secret headers rawBody now newId db =
     (case secret of
        None \<Rightarrow> (ApiError 503 ''not-configured'', db)
      | Some secret \<Rightarrow>
          if \<not> verifyClerkWebhook C B millis headers rawBody secret now then (ApiError 401 ''unauthenticated'', db)
          else (case parse rawBody of
             None \<Rightarrow> (OkReply, db)
           | Some event \<Rightarrow> (case handleEvent newId event db of None \<Rightarrow> (ApiThrew, db) | Some db1 \<Rightarrow> (OkReply, db1))))"

end
