(* ===== verification/RoutesWf.thy ===== *)
theory RoutesWf
  imports Routes
begin

text \<open>
  The rows of the control plane are well formed: primary keys and unique columns do not repeat, and every
  reference points to a row, of the same organisation where both have one. All of that is said of the keys of
  the rows alone, so a request that changes no key keeps it at once.

  Every request, webhook and redemption keeps the rows well formed.
\<close>

subsection \<open>Keys\<close>

record db_keys =
  k_orgs :: "string list"
  k_users :: "(string \<times> string \<times> string option) list"
  k_hosts :: "(string \<times> string \<times> string \<times> string) list"
  k_devices :: "(string \<times> string \<times> string \<times> string) list"
  k_pairs :: "(string \<times> string \<times> string \<times> string \<times> string \<times> string option) list"
  k_sessions :: "(string \<times> string \<times> string \<times> string) list"
  k_attention :: "(string \<times> string \<times> string) list"
  k_audit :: "string list"

definition host_key :: "host_row \<Rightarrow> string \<times> string \<times> string \<times> string" where
  "host_key h = (hr_id h, hr_orgId h, hr_userId h, hr_hostKeyHash h)"

definition device_key :: "device_row \<Rightarrow> string \<times> string \<times> string \<times> string" where
  "device_key d = (dr_id d, dr_orgId d, dr_userId d, dr_deviceTokenHash d)"

definition pair_key :: "pair_row \<Rightarrow> string \<times> string \<times> string \<times> string \<times> string \<times> string option" where
  "pair_key p = (pr_id p, pr_orgId p, pr_userId p, pr_hostId p, pr_tokenHash p, pr_redeemedDeviceId p)"

definition session_key :: "session_row \<Rightarrow> string \<times> string \<times> string \<times> string" where
  "session_key s = (sr_id s, sr_hostId s, sr_orgId s, sr_sessionRef s)"

definition attention_key :: "attention_row \<Rightarrow> string \<times> string \<times> string" where
  "attention_key a = (ar_id a, ar_hostId a, ar_orgId a)"

definition user_key :: "user_row \<Rightarrow> string \<times> string \<times> string option" where
  "user_key u = (us_id u, us_clerkUserId u, us_primaryOrgId u)"

definition keys_of :: "db \<Rightarrow> db_keys" where
  "keys_of db = \<lparr>k_orgs = map og_id (db_orgs db), k_users = map user_key (db_users db), k_hosts = map host_key (db_hosts db),
     k_devices = map device_key (db_devices db), k_pairs = map pair_key (db_pairs db), k_sessions = map session_key (db_sessions db),
     k_attention = map attention_key (db_attention db), k_audit = map au_orgId (db_audit db)\<rparr>"

subsection \<open>Well-formed keys\<close>

definition in_org :: "(string \<times> string \<times> string \<times> string) list \<Rightarrow> string \<Rightarrow> string \<Rightarrow> bool" where
  "in_org ks i g \<longleftrightarrow> list_ex (\<lambda>(i', g', u, x). i' = i \<and> g' = g) ks"

definition wf_users :: "db_keys \<Rightarrow> bool" where
  "wf_users k \<longleftrightarrow> distinct (k_orgs k) \<and> distinct (map fst (k_users k)) \<and> distinct (map (\<lambda>(i, c, p). c) (k_users k)) \<and>
     list_all (\<lambda>(i, c, p). p = None \<or> the p \<in> set (k_orgs k)) (k_users k)"

definition wf_owned :: "db_keys \<Rightarrow> (string \<times> string \<times> string \<times> string) list \<Rightarrow> bool" where
  "wf_owned k ks \<longleftrightarrow> distinct (map fst ks) \<and> distinct (map (\<lambda>(i, g, u, x). x) ks) \<and>
     list_all (\<lambda>(i, g, u, x). g \<in> set (k_orgs k) \<and> u \<in> fst ` set (k_users k)) ks"

definition wf_pairs :: "db_keys \<Rightarrow> bool" where
  "wf_pairs k \<longleftrightarrow> distinct (map fst (k_pairs k)) \<and> distinct (map (\<lambda>(i, g, u, h, x, d). x) (k_pairs k)) \<and>
     list_all (\<lambda>(i, g, u, h, x, d). in_org (k_hosts k) h g \<and> u \<in> fst ` set (k_users k) \<and>
       (d = None \<or> in_org (k_devices k) (the d) g)) (k_pairs k)"

definition wf_sessions :: "db_keys \<Rightarrow> bool" where
  "wf_sessions k \<longleftrightarrow> distinct (map fst (k_sessions k)) \<and> distinct (map (\<lambda>(i, h, g, r). (h, r)) (k_sessions k)) \<and>
     list_all (\<lambda>(i, h, g, r). in_org (k_hosts k) h g) (k_sessions k)"

definition wf_attention :: "db_keys \<Rightarrow> bool" where
  "wf_attention k \<longleftrightarrow> distinct (map fst (k_attention k)) \<and> list_all (\<lambda>(i, h, g). in_org (k_hosts k) h g) (k_attention k)"

definition wf_audit :: "db_keys \<Rightarrow> bool" where
  "wf_audit k \<longleftrightarrow> list_all (\<lambda>g. g \<in> set (k_orgs k)) (k_audit k)"

definition wf_keys :: "db_keys \<Rightarrow> bool" where
  "wf_keys k \<longleftrightarrow> wf_users k \<and> wf_owned k (k_hosts k) \<and> wf_owned k (k_devices k) \<and> wf_pairs k \<and> wf_sessions k \<and> wf_attention k \<and> wf_audit k"

definition wf_db :: "db \<Rightarrow> bool" where
  "wf_db db \<longleftrightarrow> wf_keys (keys_of db)"

lemmas wf_defs = wf_keys_def wf_users_def wf_owned_def wf_pairs_def wf_sessions_def wf_attention_def wf_audit_def

lemma in_org_append [simp]: "in_org (ks @ ls) i g \<longleftrightarrow> in_org ks i g \<or> in_org ls i g"
  by (simp add: in_org_def)

lemma in_org_host: "in_org (map host_key hs) i g \<longleftrightarrow> (\<exists>h \<in> set hs. hr_id h = i \<and> hr_orgId h = g)"
  by (auto simp: in_org_def list_ex_iff host_key_def)

lemma in_org_device: "in_org (map device_key ds) i g \<longleftrightarrow> (\<exists>d \<in> set ds. dr_id d = i \<and> dr_orgId d = g)"
  by (auto simp: in_org_def list_ex_iff device_key_def)

lemma list_all_weaken: "list_all P xs \<Longrightarrow> (\<And>x. P x \<Longrightarrow> Q x) \<Longrightarrow> list_all Q xs"
  by (auto simp: list_all_iff)

text \<open>What each part does not look at.\<close>

lemma wf_users_same [simp]:
  "wf_users (k\<lparr>k_hosts := a\<rparr>) = wf_users k" "wf_users (k\<lparr>k_devices := a\<rparr>) = wf_users k" "wf_users (k\<lparr>k_pairs := b\<rparr>) = wf_users k"
  "wf_users (k\<lparr>k_sessions := c\<rparr>) = wf_users k" "wf_users (k\<lparr>k_attention := d\<rparr>) = wf_users k" "wf_users (k\<lparr>k_audit := e\<rparr>) = wf_users k"
  by (simp_all add: wf_users_def)

lemma wf_owned_same [simp]:
  "wf_owned (k\<lparr>k_hosts := a\<rparr>) = wf_owned k" "wf_owned (k\<lparr>k_devices := a\<rparr>) = wf_owned k" "wf_owned (k\<lparr>k_pairs := b\<rparr>) = wf_owned k"
  "wf_owned (k\<lparr>k_sessions := c\<rparr>) = wf_owned k" "wf_owned (k\<lparr>k_attention := d\<rparr>) = wf_owned k" "wf_owned (k\<lparr>k_audit := e\<rparr>) = wf_owned k"
  by (simp_all add: wf_owned_def fun_eq_iff)

lemma wf_pairs_same [simp]:
  "wf_pairs (k\<lparr>k_orgs := o'\<rparr>) = wf_pairs k" "wf_pairs (k\<lparr>k_sessions := c\<rparr>) = wf_pairs k" "wf_pairs (k\<lparr>k_attention := d\<rparr>) = wf_pairs k"
  "wf_pairs (k\<lparr>k_audit := e\<rparr>) = wf_pairs k"
  by (simp_all add: wf_pairs_def)

lemma wf_sessions_same [simp]:
  "wf_sessions (k\<lparr>k_orgs := o'\<rparr>) = wf_sessions k" "wf_sessions (k\<lparr>k_users := us\<rparr>) = wf_sessions k" "wf_sessions (k\<lparr>k_devices := a\<rparr>) = wf_sessions k"
  "wf_sessions (k\<lparr>k_pairs := b\<rparr>) = wf_sessions k" "wf_sessions (k\<lparr>k_attention := d\<rparr>) = wf_sessions k" "wf_sessions (k\<lparr>k_audit := e\<rparr>) = wf_sessions k"
  by (simp_all add: wf_sessions_def)

lemma wf_attention_same [simp]:
  "wf_attention (k\<lparr>k_orgs := o'\<rparr>) = wf_attention k" "wf_attention (k\<lparr>k_users := us\<rparr>) = wf_attention k" "wf_attention (k\<lparr>k_devices := a\<rparr>) = wf_attention k"
  "wf_attention (k\<lparr>k_pairs := b\<rparr>) = wf_attention k" "wf_attention (k\<lparr>k_sessions := c\<rparr>) = wf_attention k" "wf_attention (k\<lparr>k_audit := e\<rparr>) = wf_attention k"
  by (simp_all add: wf_attention_def)

lemma wf_audit_same [simp]:
  "wf_audit (k\<lparr>k_users := us\<rparr>) = wf_audit k" "wf_audit (k\<lparr>k_hosts := a\<rparr>) = wf_audit k" "wf_audit (k\<lparr>k_devices := a\<rparr>) = wf_audit k"
  "wf_audit (k\<lparr>k_pairs := b\<rparr>) = wf_audit k" "wf_audit (k\<lparr>k_sessions := c\<rparr>) = wf_audit k" "wf_audit (k\<lparr>k_attention := d\<rparr>) = wf_audit k"
  by (simp_all add: wf_audit_def)

text \<open>One more row.\<close>

lemma wf_add_audit: "wf_keys k \<Longrightarrow> g \<in> set (k_orgs k) \<Longrightarrow> wf_keys (k\<lparr>k_audit := k_audit k @ [g]\<rparr>)"
  by (simp add: wf_keys_def) (simp add: wf_audit_def)

lemma wf_owned_add:
  "wf_owned k ks \<Longrightarrow> i \<notin> fst ` set ks \<Longrightarrow> x \<notin> (\<lambda>(i, g, u, x). x) ` set ks \<Longrightarrow> g \<in> set (k_orgs k) \<Longrightarrow> u \<in> fst ` set (k_users k) \<Longrightarrow>
     wf_owned k (ks @ [(i, g, u, x)])"
  by (simp add: wf_owned_def)

lemma wf_add_host:
  assumes "wf_keys k" "i \<notin> fst ` set (k_hosts k)" "x \<notin> (\<lambda>(i, g, u, x). x) ` set (k_hosts k)" "g \<in> set (k_orgs k)" "u \<in> fst ` set (k_users k)"
  shows "wf_keys (k\<lparr>k_hosts := k_hosts k @ [(i, g, u, x)]\<rparr>)"
proof -
  have "wf_pairs k \<Longrightarrow> wf_pairs (k\<lparr>k_hosts := k_hosts k @ [(i, g, u, x)]\<rparr>)" "wf_sessions k \<Longrightarrow> wf_sessions (k\<lparr>k_hosts := k_hosts k @ [(i, g, u, x)]\<rparr>)"
    "wf_attention k \<Longrightarrow> wf_attention (k\<lparr>k_hosts := k_hosts k @ [(i, g, u, x)]\<rparr>)"
    by (auto simp: wf_pairs_def wf_sessions_def wf_attention_def list_all_iff)
  then show ?thesis using assms wf_owned_add [of k "k_hosts k" i x g u] by (simp add: wf_keys_def)
qed

lemma wf_add_device:
  assumes "wf_keys k" "i \<notin> fst ` set (k_devices k)" "x \<notin> (\<lambda>(i, g, u, x). x) ` set (k_devices k)" "g \<in> set (k_orgs k)" "u \<in> fst ` set (k_users k)"
  shows "wf_keys (k\<lparr>k_devices := k_devices k @ [(i, g, u, x)]\<rparr>)"
proof -
  have "wf_pairs k \<Longrightarrow> wf_pairs (k\<lparr>k_devices := k_devices k @ [(i, g, u, x)]\<rparr>)"
    by (fastforce simp: wf_pairs_def list_all_iff)
  then show ?thesis using assms wf_owned_add [of k "k_devices k" i x g u] by (simp add: wf_keys_def)
qed

lemma wf_add_pair:
  assumes "wf_keys k" "i \<notin> fst ` set (k_pairs k)" "x \<notin> (\<lambda>(i, g, u, h, x, d). x) ` set (k_pairs k)" "in_org (k_hosts k) h g" "u \<in> fst ` set (k_users k)"
  shows "wf_keys (k\<lparr>k_pairs := k_pairs k @ [(i, g, u, h, x, None)]\<rparr>)"
proof -
  have "wf_pairs k \<Longrightarrow> wf_pairs (k\<lparr>k_pairs := k_pairs k @ [(i, g, u, h, x, None)]\<rparr>)" using assms(2-) by (simp add: wf_pairs_def)
  then show ?thesis using assms(1) by (simp add: wf_keys_def)
qed

lemma wf_add_session:
  assumes "wf_keys k" "i \<notin> fst ` set (k_sessions k)" "(h, r) \<notin> (\<lambda>(i, h, g, r). (h, r)) ` set (k_sessions k)" "in_org (k_hosts k) h g"
  shows "wf_keys (k\<lparr>k_sessions := k_sessions k @ [(i, h, g, r)]\<rparr>)"
proof -
  have "wf_sessions k \<Longrightarrow> wf_sessions (k\<lparr>k_sessions := k_sessions k @ [(i, h, g, r)]\<rparr>)" using assms(2-) by (simp add: wf_sessions_def)
  then show ?thesis using assms(1) by (simp add: wf_keys_def)
qed

lemma wf_add_attention:
  assumes "wf_keys k" "i \<notin> fst ` set (k_attention k)" "in_org (k_hosts k) h g"
  shows "wf_keys (k\<lparr>k_attention := k_attention k @ [(i, h, g)]\<rparr>)"
proof -
  have "wf_attention k \<Longrightarrow> wf_attention (k\<lparr>k_attention := k_attention k @ [(i, h, g)]\<rparr>)" using assms(2-) by (simp add: wf_attention_def)
  then show ?thesis using assms(1) by (simp add: wf_keys_def)
qed

lemma wf_add_org:
  assumes "wf_keys k" "i \<notin> set (k_orgs k)"
  shows "wf_keys (k\<lparr>k_orgs := k_orgs k @ [i]\<rparr>)"
proof -
  have "wf_users k \<Longrightarrow> wf_users (k\<lparr>k_orgs := k_orgs k @ [i]\<rparr>)" using assms(2)
    by (fastforce simp: wf_users_def list_all_iff)
  moreover have "wf_owned k ks \<Longrightarrow> wf_owned (k\<lparr>k_orgs := k_orgs k @ [i]\<rparr>) ks" for ks by (auto simp: wf_owned_def list_all_iff)
  moreover have "wf_audit k \<Longrightarrow> wf_audit (k\<lparr>k_orgs := k_orgs k @ [i]\<rparr>)" by (auto simp: wf_audit_def list_all_iff)
  ultimately show ?thesis using assms(1) by (simp add: wf_keys_def)
qed

text \<open>Users may come, and change their organisation.\<close>

lemma wf_change_users:
  assumes "wf_keys k" "distinct (map fst us)" "distinct (map (\<lambda>(i, c, p). c) us)"
    and "list_all (\<lambda>(i, c, p). p = None \<or> the p \<in> set (k_orgs k)) us" "fst ` set (k_users k) \<subseteq> fst ` set us"
  shows "wf_keys (k\<lparr>k_users := us\<rparr>)"
proof -
  have users: "wf_users k \<Longrightarrow> wf_users (k\<lparr>k_users := us\<rparr>)" using assms(2-4) by (simp add: wf_users_def)
  have sub: "u \<in> fst ` set (k_users k) \<Longrightarrow> u \<in> fst ` set us" for u using assms(5) by (rule subsetD)
  have owned: "list_all (\<lambda>(i, g, u, x). g \<in> set (k_orgs k) \<and> u \<in> fst ` set us) ks"
    if "list_all (\<lambda>(i, g, u, x). g \<in> set (k_orgs k) \<and> u \<in> fst ` set (k_users k)) ks" for ks :: "(string \<times> string \<times> string \<times> string) list"
    using that by (rule list.pred_mono_strong) (simp add: split_def sub)
  have "wf_owned k ks \<Longrightarrow> wf_owned (k\<lparr>k_users := us\<rparr>) ks" for ks using owned by (simp add: wf_owned_def)
  moreover have "list_all (\<lambda>(i, g, u, h, x, d). in_org (k_hosts k) h g \<and> u \<in> fst ` set us \<and> (d = None \<or> in_org (k_devices k) (the d) g)) (k_pairs k)"
    if "list_all (\<lambda>(i, g, u, h, x, d). in_org (k_hosts k) h g \<and> u \<in> fst ` set (k_users k) \<and> (d = None \<or> in_org (k_devices k) (the d) g)) (k_pairs k)"
    using that by (rule list.pred_mono_strong) (simp add: split_def sub)
  then have "wf_pairs k \<Longrightarrow> wf_pairs (k\<lparr>k_users := us\<rparr>)" by (simp add: wf_pairs_def)
  ultimately show ?thesis using assms(1) users by (simp add: wf_keys_def)
qed

subsection \<open>What changes no key\<close>

lemma map_same: "(\<And>x. x \<in> set xs \<Longrightarrow> f (g x) = f x) \<Longrightarrow> map f (map g xs) = map f xs"
  by simp

lemma keys_audit [simp]:
  "keys_of (appendAuditEvent i now g kind h d detail db) = (keys_of db)\<lparr>k_audit := k_audit (keys_of db) @ [g]\<rparr>"
  by (simp add: keys_of_def appendAuditEvent_def)

lemma keys_revoke_host [simp]: "keys_of (snd (revoke_host_row now i db)) = keys_of db"
  by (simp add: keys_of_def revoke_host_row_def host_key_def)

lemma keys_revoke_device [simp]: "keys_of (snd (revoke_device_row now i db)) = keys_of db"
  by (simp add: keys_of_def revoke_device_row_def device_key_def)

lemma keys_touch [simp]: "keys_of (touch_host now i db) = keys_of db"
  by (simp add: keys_of_def touch_host_def host_key_def)

lemma keys_push_tokens [simp]: "keys_of (snd (post_push_tokens env d body db)) = keys_of db"
  by (simp add: keys_of_def post_push_tokens_def device_key_def split: option.split)

lemma keys_ack [simp]: "keys_of (snd (ackAttention now g i db)) = keys_of db"
  by (simp add: keys_of_def ackAttention_def attention_key_def)

lemma keys_heal [simp]: "keys_of (healDelivery channel i delivery db) = keys_of db"
  by (simp add: keys_of_def healDelivery_def device_key_def split: push_delivery.split)

lemma keys_claim [simp]: "keys_of (snd (claim_pair C now token db)) = keys_of db"
  by (simp add: keys_of_def claim_pair_def pair_key_def)

lemmas keys_members = keys_of_def host_key_def device_key_def pair_key_def session_key_def attention_key_def user_key_def

lemma org_key: "g \<in> set (db_orgs db) \<Longrightarrow> og_id g \<in> set (k_orgs (keys_of db))"
  by (simp add: keys_of_def)

lemma user_key_in: "u \<in> set (db_users db) \<Longrightarrow> us_id u \<in> fst ` set (k_users (keys_of db))"
  by (force simp: keys_of_def user_key_def)

lemma host_key_in: "h \<in> set (db_hosts db) \<Longrightarrow> in_org (k_hosts (keys_of db)) (hr_id h) (hr_orgId h)"
  by (auto simp: keys_of_def in_org_host)

subsection \<open>Callers\<close>

lemma load_human_rows: "load_human P db = Some (u, g) \<Longrightarrow> u \<in> set (db_users db) \<and> g \<in> set (db_orgs db)"
  by (auto simp: load_human_def find_Some_iff split: option.splits)

lemma human_rows: "authenticateHuman C v db clock s now header = Some (u, g) \<Longrightarrow> u \<in> set (db_users db) \<and> g \<in> set (db_orgs db)"
  by (auto simp: authenticateHuman_def authenticateCliToken_def loadHumanByClerkId_def dest: load_human_rows split: option.splits if_splits)

lemma host_row_in: "authenticateHost C db header = Some h \<Longrightarrow> h \<in> set (db_hosts db) \<and> hr_revokedAt h = None"
  by (auto simp: authenticateHost_def find_Some_iff split: option.splits if_splits)

lemma device_row_in: "authenticateDevice C db header = Some d \<Longrightarrow> d \<in> set (db_devices db) \<and> dr_revokedAt d = None"
  by (auto simp: authenticateDevice_def find_Some_iff split: option.splits if_splits)

fun caller_ok :: "db \<Rightarrow> api_caller \<Rightarrow> bool" where
  "caller_ok db (HumanCaller u g) \<longleftrightarrow> u \<in> set (db_users db) \<and> g \<in> set (db_orgs db)"
| "caller_ok db (HostCaller h) \<longleftrightarrow> h \<in> set (db_hosts db)"
| "caller_ok db (DeviceCaller d) \<longleftrightarrow> d \<in> set (db_devices db)"
| "caller_ok db (EitherCaller p) \<longleftrightarrow> True"

lemma caller_of_ok: "caller_of C v env req db s = Some caller \<Longrightarrow> caller_ok db caller"
  by (cases req) (auto simp: caller_of_def Let_def dest: human_rows host_row_in device_row_in)

subsection \<open>Routes\<close>

lemma wf_post_hosts:
  assumes "wf_db db" "u \<in> set (db_users db)" "g \<in> set (db_orgs db)"
  shows "wf_db (snd (post_hosts C B config env u g body db))"
proof -
  have "wf_keys ((keys_of db)\<lparr>k_hosts := k_hosts (keys_of db) @ [host_key h], k_audit := k_audit (keys_of db) @ [og_id g]\<rparr>)"
    if h: "h = new_host C env u g name key" and "\<not> list_ex (\<lambda>r. hr_id r = hr_id h \<or> hr_hostKeyHash r = hr_hostKeyHash h) (db_hosts db)" for h name key
  proof -
    have n: "hr_id h \<notin> fst ` set (k_hosts (keys_of db))" "hr_hostKeyHash h \<notin> (\<lambda>(i, g, u, x). x) ` set (k_hosts (keys_of db))"
      using that(2) by (force simp: keys_of_def host_key_def list_ex_iff)+
    have w: "wf_keys ((keys_of db)\<lparr>k_hosts := k_hosts (keys_of db) @ [(hr_id h, og_id g, us_id u, hr_hostKeyHash h)]\<rparr>)"
      by (rule wf_add_host [OF _ n org_key [OF assms(3)] user_key_in [OF assms(2)]]) (use assms(1) in \<open>simp add: wf_db_def\<close>)
    have "host_key h = (hr_id h, og_id g, us_id u, hr_hostKeyHash h)" by (simp add: h host_key_def new_host_def)
    then show ?thesis using wf_add_audit [OF w, of "og_id g"] org_key [OF assms(3)] by simp
  qed
  moreover have "keys_of (db\<lparr>db_hosts := db_hosts db @ [h]\<rparr>) = (keys_of db)\<lparr>k_hosts := k_hosts (keys_of db) @ [host_key h]\<rparr>" for h
    by (simp add: keys_of_def)
  ultimately show ?thesis using assms(1)
    by (simp add: post_hosts_def insert_host_def wf_db_def Let_def split: option.split prod.split)
qed

lemma wf_post_pair:
  assumes "wf_db db" "u \<in> set (db_users db)" "g \<in> set (db_orgs db)"
  shows "wf_db (snd (post_pair C B config env u g i db))"
proof (cases "find (\<lambda>h. hr_id h = i) (db_hosts db)")
  case (Some host)
  then have host: "host \<in> set (db_hosts db)" by (auto simp: find_Some_iff)
  let ?x = "ms_hash (mintSecret C ''pt'' (en_random env))"
  show ?thesis
  proof (cases "hr_orgId host \<noteq> og_id g \<or> hr_revokedAt host \<noteq> None \<or> list_ex (\<lambda>r. pr_id r = en_fresh env 0 \<or> pr_tokenHash r = ?x) (db_pairs db)")
    case True
    then show ?thesis using assms(1) Some by (auto simp: post_pair_def mintPairToken_def Let_def)
  next
    case False
    have n: "en_fresh env 0 \<notin> fst ` set (k_pairs (keys_of db))" "?x \<notin> (\<lambda>(i, g, u, h, x, d). x) ` set (k_pairs (keys_of db))"
      using False by (force simp: keys_of_def pair_key_def list_ex_iff)+
    have h: "in_org (k_hosts (keys_of db)) (hr_id host) (og_id g)" using host_key_in [OF host] False by simp
    have w: "wf_keys ((keys_of db)\<lparr>k_pairs := k_pairs (keys_of db) @ [(en_fresh env 0, og_id g, us_id u, hr_id host, ?x, None)]\<rparr>)"
      by (rule wf_add_pair [OF _ n h user_key_in [OF assms(2)]]) (use assms(1) in \<open>simp add: wf_db_def\<close>)
    have k: "keys_of (db\<lparr>db_pairs := db_pairs db @ [p]\<rparr>) = (keys_of db)\<lparr>k_pairs := k_pairs (keys_of db) @ [pair_key p]\<rparr>" for p
      by (simp add: keys_of_def)
    show ?thesis using False Some wf_add_audit [OF w, of "og_id g"] org_key [OF assms(3)]
      by (simp add: post_pair_def mintPairToken_def Let_def wf_db_def k pair_key_def)
  qed
qed (use assms(1) in \<open>simp add: post_pair_def\<close>)

lemma wf_delete_host: "wf_db db \<Longrightarrow> g \<in> set (db_orgs db) \<Longrightarrow> wf_db (snd (delete_host env g i db))"
  using wf_add_audit [of "keys_of db" "og_id g"] org_key [of g db]
  by (simp add: delete_host_def case_prod_beta Let_def wf_db_def split: option.split)

lemma wf_delete_device: "wf_db db \<Longrightarrow> g \<in> set (db_orgs db) \<Longrightarrow> wf_db (snd (delete_device env g i db))"
  using wf_add_audit [of "keys_of db" "og_id g"] org_key [of g db]
  by (simp add: delete_device_def case_prod_beta Let_def wf_db_def split: option.split)

lemma wf_upsert:
  assumes "wf_db db" "in_org (k_hosts (keys_of db)) (hr_id host) (hr_orgId host)" "upsert_session newId now host report db = Some db'"
  shows "wf_db db' \<and> k_hosts (keys_of db') = k_hosts (keys_of db)"
proof (cases "list_ex (\<lambda>r. sr_hostId r = hr_id host \<and> sr_sessionRef r = sp_sessionRef report) (db_sessions db)")
  case True
  then have "keys_of db' = keys_of db"
    using assms(3) by (auto simp: upsert_session_def Let_def keys_of_def session_key_def)
  then show ?thesis using assms(1) by (simp add: wf_db_def)
next
  case False
  then have n: "newId \<notin> fst ` set (k_sessions (keys_of db))" and db': "keys_of db' = (keys_of db)\<lparr>k_sessions := k_sessions (keys_of db) @
      [(newId, hr_id host, hr_orgId host, sp_sessionRef report)]\<rparr>"
    using assms(3) by (force simp: upsert_session_def Let_def keys_of_def session_key_def list_ex_iff split: if_splits)+
  have "(hr_id host, sp_sessionRef report) \<notin> (\<lambda>(i, h, g, r). (h, r)) ` set (k_sessions (keys_of db))"
    using False by (force simp: keys_of_def session_key_def list_ex_iff)
  from wf_add_session [OF _ n this assms(2)] show ?thesis using assms(1) db' by (simp add: wf_db_def)
qed

lemma wf_upsert_all:
  "wf_db db \<Longrightarrow> in_org (k_hosts (keys_of db)) (hr_id host) (hr_orgId host) \<Longrightarrow> wf_db (snd (upsert_all fresh i now host rs db))"
proof (induction rs arbitrary: i db)
  case (Cons r rs)
  show ?case
  proof (cases "upsert_session (fresh i) now host r db")
    case (Some db1)
    then show ?thesis using wf_upsert [OF Cons.prems Some] Cons.IH [of db1 "Suc i"] Cons.prems(2) by simp
  qed (use Cons.prems in simp)
qed simp

lemma wf_post_heartbeat: "wf_db db \<Longrightarrow> host \<in> set (db_hosts db) \<Longrightarrow> wf_db (snd (post_heartbeat env host body db))"
  using wf_upsert_all [of "touch_host (en_now env) (hr_id host) db" host] host_key_in [of host db]
  by (simp add: post_heartbeat_def wf_db_def split: option.split)

subsection \<open>Attention\<close>

definition keeps_wf :: "(string \<Rightarrow> db \<Rightarrow> db) \<Rightarrow> bool" where
  "keeps_wf between \<longleftrightarrow> (\<forall>i db. wf_db db \<longrightarrow> wf_db (between i db))"

lemma wf_deliver: "keeps_wf between \<Longrightarrow> wf_db db \<Longrightarrow> wf_db (snd (deliver_each sender between channel mk token_of ds db))"
  by (induction ds arbitrary: db) (auto simp: Let_def case_prod_beta keeps_wf_def wf_db_def split: option.split)

lemma wf_route_event: "keeps_wf between \<Longrightarrow> wf_db db \<Longrightarrow> wf_db (snd (route_event sender between event ds keys db))"
  by (induction keys arbitrary: db) (auto simp: Let_def case_prod_beta channel_deliver_def wf_deliver split: option.split channel_key.split)

lemma wf_raise:
  assumes "wf_db db" "host \<in> set (db_hosts db)" "keeps_wf between"
  shows "wf_db (fst (snd (snd (raiseAttention sender between d clock now newId host event db s))))"
proof -
  have "wf_db (db\<lparr>db_attention := db_attention db @ [attention_of newId now host event]\<rparr>)" if "\<not> list_ex (\<lambda>r. ar_id r = newId) (db_attention db)"
  proof -
    have n: "newId \<notin> fst ` set (k_attention (keys_of db))" using that by (force simp: keys_of_def attention_key_def list_ex_iff)
    have "keys_of (db\<lparr>db_attention := db_attention db @ [attention_of newId now host event]\<rparr>) =
        (keys_of db)\<lparr>k_attention := k_attention (keys_of db) @ [(newId, hr_id host, hr_orgId host)]\<rparr>"
      by (simp add: keys_of_def attention_key_def attention_of_def)
    then show ?thesis using wf_add_attention [OF _ n host_key_in [OF assms(2)]] assms(1) by (simp add: wf_db_def)
  qed
  then show ?thesis using assms(1) wf_route_event [OF assms(3)] by (simp add: raiseAttention_def Let_def case_prod_beta)
qed

fun calm_request :: "api_request \<Rightarrow> bool" where
  "calm_request (PostAttention sender between body) \<longleftrightarrow> keeps_wf between"
| "calm_request _ \<longleftrightarrow> True"

lemma wf_serve:
  assumes "wf_db db" "caller_ok db caller" "calm_request req"
  shows "wf_db (fst (snd (serve_caller C B config env caller req (db, s))))"
proof (cases caller)
  case (HumanCaller u g)
  then have m: "u \<in> set (db_users db)" "g \<in> set (db_orgs db)" using assms(2) by simp_all
  show ?thesis
    by (cases req) (simp_all add: HumanCaller serve_caller_def with_store_def serve_human_def assms(1) m wf_post_hosts wf_post_pair wf_delete_host wf_delete_device)
next
  case (HostCaller h)
  then have h: "h \<in> set (db_hosts db)" using assms(2) by simp
  show ?thesis
  proof (cases req)
    case (PostHeartbeat body)
    then show ?thesis by (simp add: HostCaller serve_caller_def with_store_def wf_post_heartbeat [OF assms(1) h])
  next
    case (PostAttention sender between body)
    then have b: "keeps_wf between" using assms(3) by simp
    show ?thesis
      by (simp add: HostCaller PostAttention serve_caller_def post_attention_def Let_def case_prod_beta assms(1) wf_raise [OF assms(1) h b] split: option.split)
  qed (simp_all add: HostCaller serve_caller_def assms(1))
next
  case (DeviceCaller d)
  then show ?thesis using assms(1) by (cases req) (simp_all add: serve_caller_def with_store_def wf_db_def)
next
  case (EitherCaller p)
  then show ?thesis using assms(1)
    by (cases req) (simp_all add: serve_caller_def with_store_def serve_either_def post_ack_def Let_def case_prod_beta wf_db_def)
qed

lemma wf_api_handle:
  assumes "wf_db (fst w)" "calm_request req"
  shows "wf_db (fst (snd (api_handle C B v config env req w)))"
proof (cases w)
  case (Pair db s)
  show ?thesis
  proof (cases "caller_of C v env req db s")
    case None
    then show ?thesis using assms(1) by (simp add: api_handle_def Pair)
  next
    case (Some caller)
    then show ?thesis using wf_serve [OF _ caller_of_ok [OF Some] assms(2)] assms(1) by (simp add: api_handle_def Pair)
  qed
qed

subsection \<open>The webhook\<close>

lemma wf_ensure_org: "wf_db db \<Longrightarrow> wf_db (ensure_org i name db) \<and> i \<in> set (k_orgs (keys_of (ensure_org i name db)))"
proof (cases "list_ex (\<lambda>g. og_id g = i) (db_orgs db)")
  case True
  moreover assume "wf_db db"
  ultimately show ?thesis by (auto simp: ensure_org_def keys_of_def list_ex_iff)
next
  case False
  assume wf: "wf_db db"
  have n: "i \<notin> set (k_orgs (keys_of db))" using False by (auto simp: keys_of_def list_ex_iff)
  have "keys_of (ensure_org i name db) = (keys_of db)\<lparr>k_orgs := k_orgs (keys_of db) @ [i]\<rparr>" using False by (simp add: ensure_org_def keys_of_def)
  then show ?thesis using wf_add_org [OF _ n] wf by (simp add: wf_db_def)
qed

lemma wf_update_users:
  assumes "wf_db db" "\<And>u. us_id (f u) = us_id u" "\<And>u. us_clerkUserId (f u) = us_clerkUserId u"
    and "\<And>u. us_primaryOrgId (f u) = us_primaryOrgId u \<or> us_primaryOrgId (f u) = None \<or> the (us_primaryOrgId (f u)) \<in> set (k_orgs (keys_of db))"
  shows "wf_db (db\<lparr>db_users := map f (db_users db)\<rparr>)"
proof -
  have w: "wf_users (keys_of db)" using assms(1) by (simp add: wf_db_def wf_keys_def)
  have k: "keys_of (db\<lparr>db_users := map f (db_users db)\<rparr>) = (keys_of db)\<lparr>k_users := map (\<lambda>u. user_key (f u)) (db_users db)\<rparr>"
    by (simp add: keys_of_def)
  have "wf_keys ((keys_of db)\<lparr>k_users := map (\<lambda>u. user_key (f u)) (db_users db)\<rparr>)"
  proof (rule wf_change_users)
    show "wf_keys (keys_of db)" using assms(1) by (simp add: wf_db_def)
    show "distinct (map fst (map (\<lambda>u. user_key (f u)) (db_users db)))" "distinct (map (\<lambda>(i, c, p). c) (map (\<lambda>u. user_key (f u)) (db_users db)))"
      using w assms(2,3) by (simp_all add: wf_users_def keys_of_def user_key_def comp_def)
    show "list_all (\<lambda>(i, c, p). p = None \<or> the p \<in> set (k_orgs (keys_of db))) (map (\<lambda>u. user_key (f u)) (db_users db))"
    proof -
      have "us_primaryOrgId (f u) = None \<or> the (us_primaryOrgId (f u)) \<in> set (k_orgs (keys_of db))" if "u \<in> set (db_users db)" for u
      proof -
        have "us_primaryOrgId u = None \<or> the (us_primaryOrgId u) \<in> set (k_orgs (keys_of db))"
          using w that by (simp add: wf_users_def keys_of_def user_key_def list_all_iff)
        then show ?thesis using assms(4) [of u] by (elim disjE) (simp_all del: not_None_eq)
      qed
      then show ?thesis by (simp add: list_all_iff user_key_def del: not_None_eq)
    qed
    show "fst ` set (k_users (keys_of db)) \<subseteq> fst ` set (map (\<lambda>u. user_key (f u)) (db_users db))"
      using assms(2) by (auto simp: keys_of_def user_key_def image_image)
  qed
  then show ?thesis by (simp add: wf_db_def k)
qed

lemma wf_handleEvent:
  assumes "wf_db db" "handleEvent newId event db = Some db'"
  shows "wf_db db'"
proof (cases event)
  case (UserChanged c)
  show ?thesis
  proof (cases "list_ex (\<lambda>u. us_clerkUserId u = c) (db_users db)")
    case False
    have w: "wf_users (keys_of db)" using assms(1) by (simp add: wf_db_def wf_keys_def)
    have n: "newId \<notin> fst ` set (k_users (keys_of db))" "c \<notin> (\<lambda>(i, c, p). c) ` set (k_users (keys_of db))"
      using False UserChanged assms(2) by (force simp: handleEvent_def keys_of_def user_key_def list_ex_iff split: if_splits)+
    have "keys_of db' = (keys_of db)\<lparr>k_users := k_users (keys_of db) @ [(newId, c, None)]\<rparr>"
      using False UserChanged assms(2) by (auto simp: handleEvent_def keys_of_def user_key_def split: if_splits)
    moreover have "wf_keys ((keys_of db)\<lparr>k_users := k_users (keys_of db) @ [(newId, c, None)]\<rparr>)"
      by (rule wf_change_users) (use assms(1) w n in \<open>auto simp: wf_db_def wf_users_def\<close>)
    ultimately show ?thesis by (simp add: wf_db_def)
  qed (use assms UserChanged in \<open>simp add: handleEvent_def\<close>)
next
  case (OrgCreated i name)
  show ?thesis
  proof (cases "list_ex (\<lambda>g. og_id g = i) (db_orgs db)")
    case True
    have "map og_id (map (\<lambda>g. if og_id g = i then g\<lparr>og_name := x\<rparr> else g) gs) = map og_id gs" for gs :: "org_row list" and x by simp
    then have "keys_of db' = keys_of db" using True OrgCreated assms(2) by (auto simp: handleEvent_def keys_of_def)
    then show ?thesis using assms(1) by (simp add: wf_db_def)
  next
    case False
    then have "db' = ensure_org i name db" using OrgCreated assms(2) by (simp add: handleEvent_def)
    then show ?thesis using wf_ensure_org assms(1) by simp
  qed
next
  case (MemberAdded i name c)
  let ?db = "ensure_org i name db"
  have db': "db' = ?db\<lparr>db_users := map (\<lambda>u. if us_clerkUserId u = c \<and> us_primaryOrgId u = None then u\<lparr>us_primaryOrgId := Some i\<rparr> else u) (db_users ?db)\<rparr>"
    using MemberAdded assms(2) by (simp add: handleEvent_def Let_def)
  show ?thesis unfolding db' by (rule wf_update_users) (use wf_ensure_org [OF assms(1)] in auto)
next
  case (MemberRemoved i c)
  have db': "db' = db\<lparr>db_users := map (\<lambda>u. if us_clerkUserId u = c \<and> us_primaryOrgId u = Some i then u\<lparr>us_primaryOrgId := None\<rparr> else u) (db_users db)\<rparr>"
    using MemberRemoved assms(2) by (simp add: handleEvent_def)
  show ?thesis unfolding db' by (rule wf_update_users) (use assms(1) in auto)
next
  case OtherClerkEvent
  then show ?thesis using assms by (simp add: handleEvent_def)
qed

lemma wf_webhook: "wf_db db \<Longrightarrow> wf_db (snd (webhook_route C B millis parse secret headers rawBody now newId db))"
  by (auto simp: webhook_route_def dest: wf_handleEvent split: option.split)

subsection \<open>Redemptions\<close>

text \<open>What a redemption knows of the token it claimed and the device it made.\<close>

definition token_ok :: "db \<Rightarrow> pair_row \<Rightarrow> bool" where
  "token_ok db token \<longleftrightarrow> pr_orgId token \<in> set (k_orgs (keys_of db)) \<and> pr_userId token \<in> fst ` set (k_users (keys_of db)) \<and>
     (\<forall>p \<in> set (db_pairs db). pr_id p = pr_id token \<longrightarrow> pr_orgId p = pr_orgId token)"

fun redeem_wf :: "db \<Rightarrow> redeem_phase \<Rightarrow> bool" where
  "redeem_wf db (AtInsert token) \<longleftrightarrow> token_ok db token"
| "redeem_wf db (AtStamp token device plain) \<longleftrightarrow> token_ok db token \<and> in_org (k_devices (keys_of db)) (dr_id device) (pr_orgId token)"
| "redeem_wf db (AtAudit token device plain) \<longleftrightarrow> token_ok db token"
| "redeem_wf db _ \<longleftrightarrow> True"

lemma pair_parts:
  assumes "wf_db db" "p \<in> set (db_pairs db)"
  shows "in_org (k_hosts (keys_of db)) (pr_hostId p) (pr_orgId p)" "pr_userId p \<in> fst ` set (k_users (keys_of db))"
    "pr_orgId p \<in> set (k_orgs (keys_of db))"
proof -
  have w: "wf_pairs (keys_of db)" "wf_owned (keys_of db) (k_hosts (keys_of db))" using assms(1) by (simp_all add: wf_db_def wf_keys_def)
  show "in_org (k_hosts (keys_of db)) (pr_hostId p) (pr_orgId p)" and u: "pr_userId p \<in> fst ` set (k_users (keys_of db))"
    using w(1) assms(2) by (auto simp: wf_pairs_def list_all_iff keys_members)
  then have "in_org (k_hosts (keys_of db)) (pr_hostId p) (pr_orgId p)" by simp
  then obtain h where "h \<in> set (db_hosts db)" "hr_orgId h = pr_orgId p" by (auto simp: keys_of_def in_org_host)
  then show "pr_orgId p \<in> set (k_orgs (keys_of db))" using w(2) by (force simp: wf_owned_def list_all_iff keys_members)
qed

lemma pair_ids_unique: "wf_db db \<Longrightarrow> p \<in> set (db_pairs db) \<Longrightarrow> q \<in> set (db_pairs db) \<Longrightarrow> pr_id p = pr_id q \<Longrightarrow> p = q"
  by (auto simp: wf_db_def wf_keys_def wf_pairs_def keys_of_def pair_key_def comp_def distinct_map inj_on_def)

lemma claim_token_ok:
  assumes "wf_db db" "claim_pair C now plain db = (Some token, db1)"
  shows "token_ok db1 token"
proof -
  from assms(2) obtain p where p: "p \<in> set (db_pairs db)" and token: "token = p\<lparr>pr_redeemedAt := Some now\<rparr>"
    and db1: "db1 = db\<lparr>db_pairs := map (\<lambda>r. if redeemable C now plain r then r\<lparr>pr_redeemedAt := Some now\<rparr> else r) (db_pairs db)\<rparr>"
    using nth_mem by (fastforce simp: claim_pair_def find_Some_iff)
  have "keys_of db1 = keys_of db" using keys_claim [of C now plain db] assms(2) by simp
  moreover have "pr_orgId q = pr_orgId p" if q: "q \<in> set (db_pairs db1)" "pr_id q = pr_id p" for q
  proof -
    obtain r where "r \<in> set (db_pairs db)" "pr_id q = pr_id r" "pr_orgId q = pr_orgId r" using q(1) unfolding db1 by (auto split: if_splits)
    then show ?thesis using pair_ids_unique [OF assms(1) p, of r] q(2) by simp
  qed
  ultimately show ?thesis using pair_parts [OF assms(1) p] by (simp add: token_ok_def token)
qed

lemma wf_insert_device:
  assumes "wf_db db" "token_ok db token" "\<not> list_ex (\<lambda>d. dr_id d = dr_id device \<or> dr_deviceTokenHash d = dr_deviceTokenHash device) (db_devices db)"
    and "dr_orgId device = pr_orgId token" "dr_userId device = pr_userId token"
  shows "wf_db (db\<lparr>db_devices := db_devices db @ [device]\<rparr>) \<and> redeem_wf (db\<lparr>db_devices := db_devices db @ [device]\<rparr>) (AtStamp token device plain)"
proof -
  have n: "dr_id device \<notin> fst ` set (k_devices (keys_of db))" "dr_deviceTokenHash device \<notin> (\<lambda>(i, g, u, x). x) ` set (k_devices (keys_of db))"
    using assms(3) by (force simp: keys_of_def device_key_def list_ex_iff)+
  have k: "keys_of (db\<lparr>db_devices := db_devices db @ [device]\<rparr>) = (keys_of db)\<lparr>k_devices := k_devices (keys_of db) @
      [(dr_id device, pr_orgId token, pr_userId token, dr_deviceTokenHash device)]\<rparr>"
    by (simp add: keys_of_def device_key_def assms(4,5))
  have "wf_keys ((keys_of db)\<lparr>k_devices := k_devices (keys_of db) @ [(dr_id device, pr_orgId token, pr_userId token, dr_deviceTokenHash device)]\<rparr>)"
    by (rule wf_add_device [OF _ n]) (use assms(1,2) in \<open>simp_all add: wf_db_def token_ok_def\<close>)
  then show ?thesis using assms(2) by (simp add: wf_db_def k token_ok_def in_org_def)
qed

lemma wf_stamp:
  assumes "wf_db db" "token_ok db token" "in_org (k_devices (keys_of db)) e (pr_orgId token)"
  shows "wf_db (db\<lparr>db_pairs := map (\<lambda>r. if pr_id r = pr_id token then r\<lparr>pr_redeemedDeviceId := Some e\<rparr> else r) (db_pairs db)\<rparr>)"
proof -
  let ?f = "\<lambda>r. if pr_id r = pr_id token then r\<lparr>pr_redeemedDeviceId := Some e\<rparr> else r"
  let ?ks = "map (\<lambda>r. pair_key (?f r)) (db_pairs db)"
  have w: "wf_pairs (keys_of db)" using assms(1) by (simp add: wf_db_def wf_keys_def)
  have k: "keys_of (db\<lparr>db_pairs := map ?f (db_pairs db)\<rparr>) = (keys_of db)\<lparr>k_pairs := ?ks\<rparr>" by (simp add: keys_of_def)
  have fst: "fst (pair_key (?f r)) = pr_id r" "(case pair_key (?f r) of (i, g, u, h, x, d) \<Rightarrow> x) = pr_tokenHash r" for r by (simp_all add: pair_key_def)
  have each: "list_all (\<lambda>(i, g, u, h, x, d). in_org (k_hosts (keys_of db)) h g \<and> u \<in> fst ` set (k_users (keys_of db)) \<and>
      (d = None \<or> in_org (k_devices (keys_of db)) (the d) g)) ?ks"
  proof -
    have "in_org (k_hosts (keys_of db)) (pr_hostId r) (pr_orgId r) \<and> pr_userId r \<in> fst ` set (k_users (keys_of db)) \<and>
        (pr_redeemedDeviceId (?f r) = None \<or> in_org (k_devices (keys_of db)) (the (pr_redeemedDeviceId (?f r))) (pr_orgId r))"
      if r: "r \<in> set (db_pairs db)" for r
    proof -
      have "pr_redeemedDeviceId r = None \<or> in_org (k_devices (keys_of db)) (the (pr_redeemedDeviceId r)) (pr_orgId r)"
        using w r by (auto simp: wf_pairs_def list_all_iff keys_of_def pair_key_def)
      moreover have "pr_id r = pr_id token \<Longrightarrow> pr_orgId r = pr_orgId token" using assms(2) r by (simp add: token_ok_def)
      ultimately show ?thesis using pair_parts(1,2) [OF assms(1) r] assms(3) by simp
    qed
    note facts = this
    have "pair_key (?f r) = (pr_id r, pr_orgId r, pr_userId r, pr_hostId r, pr_tokenHash r, pr_redeemedDeviceId (?f r))" for r
      by (simp add: pair_key_def)
    then show ?thesis unfolding list_all_iff set_map using facts by (simp del: not_None_eq if_split) 
  qed
  have "wf_pairs ((keys_of db)\<lparr>k_pairs := ?ks\<rparr>)"
    using w each by (simp add: wf_pairs_def keys_of_def comp_def fst) (simp add: pair_key_def)
  then show ?thesis using assms(1) by (simp add: wf_db_def k wf_keys_def)
qed

lemma wf_redeem_step:
  assumes "wf_db db" "redeem_wf db phase" "redeem_step C config now opts fresh phase db = (phase', db')"
  shows "wf_db db' \<and> redeem_wf db' phase'"
proof (cases phase)
  case AtClaim
  obtain res db1 where c: "claim_pair C now (ro_pairToken opts) db = (res, db1)" by fastforce
  have "wf_db db1" using keys_claim [of C now "ro_pairToken opts" db] c assms(1) by (simp add: wf_db_def)
  then show ?thesis using assms(3) c claim_token_ok [OF assms(1)] by (auto simp: AtClaim redeem_step_def split: option.splits)
next
  case (AtInsert token)
  define device where "device = \<lparr>dr_id = rf_deviceId fresh, dr_orgId = pr_orgId token, dr_userId = pr_userId token,
     dr_name = (case ro_deviceName opts of None \<Rightarrow> ''device'' | Some n \<Rightarrow> n), dr_deviceTokenHash = ms_hash (mintSecret C ''dt'' (rf_random fresh)),
     dr_deviceTokenPrefix = ms_prefix (mintSecret C ''dt'' (rf_random fresh)), dr_pushToken = None, dr_voipPushToken = None,
     dr_devicePublicKey = ro_devicePublicKeyB64 opts, dr_lastSeenAt = None, dr_revokedAt = None\<rparr>"
  show ?thesis
  proof (cases "list_ex (\<lambda>d. dr_id d = dr_id device \<or> dr_deviceTokenHash d = dr_deviceTokenHash device) (db_devices db)")
    case True
    then show ?thesis using assms(1,3) by (auto simp: AtInsert redeem_step_def Let_def device_def)
  next
    case False
    then have "phase' = AtStamp token device (ms_token (mintSecret C ''dt'' (rf_random fresh)))" "db' = db\<lparr>db_devices := db_devices db @ [device]\<rparr>"
      using assms(3) by (auto simp: AtInsert redeem_step_def Let_def device_def)
    then show ?thesis using wf_insert_device [OF assms(1) _ False] assms(2) by (simp add: AtInsert device_def)
  qed
next
  case (AtStamp token device plain)
  then have "phase' = AtAudit token device plain"
    "db' = db\<lparr>db_pairs := map (\<lambda>r. if pr_id r = pr_id token then r\<lparr>pr_redeemedDeviceId := Some (dr_id device)\<rparr> else r) (db_pairs db)\<rparr>"
    using assms(3) by (auto simp: redeem_step_def)
  then show ?thesis using wf_stamp [OF assms(1), of token "dr_id device"] assms(2) by (auto simp: AtStamp token_ok_def keys_of_def)
next
  case (AtAudit token device plain)
  then show ?thesis using assms wf_add_audit [of "keys_of db" "pr_orgId token"] by (auto simp: redeem_step_def token_ok_def wf_db_def)
next
  case (AtHost token plain)
  then show ?thesis using assms(1,3) by (auto simp: redeem_step_def split: option.splits)
next
  case (AtUser token plain host)
  then show ?thesis using assms(1,3) by (auto simp: redeem_step_def split: option.splits)
qed (use assms in \<open>auto simp: redeem_step_def\<close>)

lemma wf_redeem:
  assumes "wf_db db"
  shows "wf_db (snd (redeemPairToken C config now opts fresh db))"
proof -
  have "wf_db (snd (((\<lambda>(p, db). redeem_step C config now opts fresh p db) ^^ n) (AtClaim, db))) \<and>
      redeem_wf (snd (((\<lambda>(p, db). redeem_step C config now opts fresh p db) ^^ n) (AtClaim, db)))
        (fst (((\<lambda>(p, db). redeem_step C config now opts fresh p db) ^^ n) (AtClaim, db)))" for n
  proof (induction n)
    case (Suc n)
    obtain p d where r: "((\<lambda>(p, db). redeem_step C config now opts fresh p db) ^^ n) (AtClaim, db) = (p, d)" by fastforce
    obtain p' d' where st: "redeem_step C config now opts fresh p d = (p', d')" by fastforce
    show ?case using wf_redeem_step [OF _ _ st] Suc by (simp add: r st)
  qed (use assms in simp)
  then show ?thesis by (simp add: redeemPairToken_def)
qed

lemma wf_redeem_route: "wf_db (fst w) \<Longrightarrow> wf_db (fst (snd (redeem_route C config clock now ip fresh body w)))"
proof -
  assume wf: "wf_db (fst w)"
  obtain db s where w: "w = (db, s)" by fastforce
  have "wf_db (fst (snd (case redeemPairToken C (af_pair config) now opts fresh db of
      (Refused, db1) \<Rightarrow> (PairError 404 ''pair-token-invalid'', (db1, s1)) | (Redeemed r, db1) \<Rightarrow> (RedeemOk r, (db1, s1)) | (_, db1) \<Rightarrow> (PairThrew, (db1, s1)))))"
    for opts and s1 :: cp_store
  proof -
    obtain p d where r: "redeemPairToken C (af_pair config) now opts fresh db = (p, d)" by fastforce
    then have "wf_db d" using wf_redeem [of db C "af_pair config" now opts fresh] wf w by simp
    then show ?thesis by (cases p) (simp_all add: r)
  qed
  then show ?thesis using wf w by (simp add: redeem_route_def case_prod_beta Let_def split: option.split)
qed

end
