(* ===== verification/RevocationSteps.thy ===== *)
theory RevocationSteps
  imports RoutesWf
begin

text \<open>
  Revocable rows: the interface between a table whose rows live and die and the log of their deaths, with what
  follows from it for any run, and the two tables of the control plane that have it, hosts and devices.

  Hosts and devices are revocable: one step per request.
\<close>

subsection \<open>Life and death\<close>

text \<open>A step keeps the rows, adds a live one under a new key, or kills the live rows of one key and logs it.\<close>

inductive life_step :: "(string \<times> bool) list \<times> string list \<Rightarrow> (string \<times> bool) list \<times> string list \<Rightarrow> bool" where
  stay: "life_step (rows, deaths) (rows, deaths)"
| arrive: "i \<notin> fst ` set rows \<Longrightarrow> life_step (rows, deaths) (rows @ [(i, False)], deaths)"
| die: "(i, False) \<in> set rows \<Longrightarrow> life_step (rows, deaths) (map (\<lambda>(j, dead). (j, dead \<or> j = i)) rows, deaths @ [i])"

inductive_cases life_stepE: "life_step (rows, deaths) (rows', deaths')"

definition life_ok :: "(string \<times> bool) list \<Rightarrow> string list \<Rightarrow> bool" where
  "life_ok rows deaths \<longleftrightarrow> distinct (map fst rows) \<and> distinct deaths \<and> set deaths = {i. (i, True) \<in> set rows}"

lemma life_step_ok:
  assumes "life_step (rows, deaths) (rows', deaths')" "life_ok rows deaths"
  shows "life_ok rows' deaths'"
  using assms(1)
proof cases
  case stay
  then show ?thesis using assms(2) by simp
next
  case (arrive i)
  then show ?thesis using assms(2) by (auto simp: life_ok_def)
next
  case (die i)
  let ?f = "\<lambda>(j, dead). (j, dead \<or> j = i)"
  have u: "(i, True) \<notin> set rows" using assms(2) die(3) by (auto simp: life_ok_def dest: eq_key_imp_eq_value)
  have keys: "map fst (map ?f rows) = map fst rows" by (induction rows) auto
  have gone: "{j. (j, True) \<in> set (map ?f rows)} = insert i {j. (j, True) \<in> set rows}" using die(3) by force
  show ?thesis using assms(2) u unfolding life_ok_def die(1,2) keys gone by simp
qed

lemma life_step_dead:
  "life_step (rows, deaths) (rows', deaths') \<Longrightarrow> (i, True) \<in> set rows \<Longrightarrow> (i, True) \<in> set rows'"
  by (erule life_stepE) force+

lemma filter_one: "i \<in> set xs \<Longrightarrow> distinct xs \<Longrightarrow> filter (\<lambda>j. j = i) xs = [i]"
  by (induction xs) (auto simp: filter_empty_conv)

locale revocable =
  fixes step :: "'e \<Rightarrow> 's \<Rightarrow> 's" and good :: "'e \<Rightarrow> bool" and ok :: "'s \<Rightarrow> bool"
    and rows :: "'s \<Rightarrow> (string \<times> bool) list" and deaths :: "'s \<Rightarrow> string list"
  assumes step_ok: "ok s \<Longrightarrow> good e \<Longrightarrow> ok (step e s)"
    and step_life: "ok s \<Longrightarrow> good e \<Longrightarrow> life_step (rows s, deaths s) (rows (step e s), deaths (step e s))"
begin

lemma life_run_ok:
  "ok s \<Longrightarrow> life_ok (rows s) (deaths s) \<Longrightarrow> \<forall>e \<in> set es. good e \<Longrightarrow>
     ok (fold step es s) \<and> life_ok (rows (fold step es s)) (deaths (fold step es s))"
proof (induction es arbitrary: s)
  case (Cons e es)
  then show ?case using step_ok [of s e] life_step_ok [OF step_life [of s e]] by simp
qed simp

lemma run_dead:
  "ok s \<Longrightarrow> (i, True) \<in> set (rows s) \<Longrightarrow> \<forall>e \<in> set es. good e \<Longrightarrow> (i, True) \<in> set (rows (fold step es s))"
proof (induction es arbitrary: s)
  case (Cons e es)
  then show ?case using step_ok [of s e] life_step_dead [OF step_life [of s e]] by simp
qed simp

text \<open>Whoever is dead at some point stays dead, and died once.\<close>

lemma death_is_final:
  assumes "ok s" "life_ok (rows s) (deaths s)" "\<forall>e \<in> set (es @ fs). good e" "(i, True) \<in> set (rows (fold step es s))"
  shows "(i, False) \<notin> set (rows (fold step (es @ fs) s))" "(i, True) \<in> set (rows (fold step (es @ fs) s))"
    "filter (\<lambda>j. j = i) (deaths (fold step (es @ fs) s)) = [i]"
proof -
  have d: "(i, True) \<in> set (rows (fold step (es @ fs) s))"
    using run_dead [OF _ assms(4), of fs] life_run_ok [OF assms(1,2), of es] assms(3) by simp
  have l: "life_ok (rows (fold step (es @ fs) s)) (deaths (fold step (es @ fs) s))" using life_run_ok [OF assms(1-3)] by simp
  show "(i, True) \<in> set (rows (fold step (es @ fs) s))" by (rule d)
  show "(i, False) \<notin> set (rows (fold step (es @ fs) s))" using l d by (auto simp: life_ok_def dest: eq_key_imp_eq_value)
  have "i \<in> set (deaths (fold step (es @ fs) s))" "distinct (deaths (fold step (es @ fs) s))" using l d by (auto simp: life_ok_def)
  then show "filter (\<lambda>j. j = i) (deaths (fold step (es @ fs) s)) = [i]" by (rule filter_one)
qed

end

subsection \<open>Runs of the control plane\<close>

record cp_params =
  cp_crypto :: crypto
  cp_base64 :: base64
  cp_verify :: "string \<Rightarrow> string option"
  cp_config :: api_config
  cp_millis :: "string \<Rightarrow> int option"
  cp_parse :: "string \<Rightarrow> clerk_event option"
  cp_secret :: "string option"

datatype cp_event =
    ApiEv api_env api_request
  | RedeemEv int int string redeem_fresh "redeem_options option"
  | HookEv svix_headers string int string

fun cp_serve :: "cp_params \<Rightarrow> cp_event \<Rightarrow> cp_world \<Rightarrow> cp_world" where
  "cp_serve P (ApiEv env req) w = snd (api_handle (cp_crypto P) (cp_base64 P) (cp_verify P) (cp_config P) env req w)"
| "cp_serve P (RedeemEv clock now ip fresh body) w = snd (redeem_route (cp_crypto P) (cp_config P) clock now ip fresh body w)"
| "cp_serve P (HookEv headers rawBody now newId) w =
     (snd (webhook_route (cp_crypto P) (cp_base64 P) (cp_millis P) (cp_parse P) (cp_secret P) headers rawBody now newId (fst w)), snd w)"

definition cp_run :: "cp_params \<Rightarrow> cp_event list \<Rightarrow> cp_world \<Rightarrow> cp_world" where
  "cp_run P es w = fold (cp_serve P) es w"

definition no_rows :: db where
  "no_rows = \<lparr>db_orgs = [], db_users = [], db_hosts = [], db_devices = [], db_pairs = [], db_sessions = [], db_attention = [], db_audit = []\<rparr>"

lemma no_rows_wf: "wf_db no_rows"
  by (simp add: wf_db_def keys_of_def no_rows_def wf_defs)

fun calm_event :: "cp_event \<Rightarrow> bool" where
  "calm_event (ApiEv env req) \<longleftrightarrow> calm_request req"
| "calm_event _ \<longleftrightarrow> True"

lemma cp_serve_wf: "wf_db (fst w) \<Longrightarrow> calm_event e \<Longrightarrow> wf_db (fst (cp_serve P e w))"
  by (cases e) (simp_all add: wf_api_handle wf_redeem_route wf_webhook)

text \<open>Nothing else happens during the sends of a raise.\<close>

fun alone :: "cp_event \<Rightarrow> bool" where
  "alone (ApiEv env (PostAttention sender between body)) \<longleftrightarrow> between = (\<lambda>i db. db)"
| "alone _ \<longleftrightarrow> True"

lemma alone_calm: "alone e \<Longrightarrow> calm_event e"
  by (cases e rule: alone.cases) (simp_all add: keeps_wf_def)

definition host_rows :: "db \<Rightarrow> (string \<times> bool) list" where
  "host_rows db = map (\<lambda>h. (hr_id h, hr_revokedAt h \<noteq> None)) (db_hosts db)"

definition host_deaths :: "db \<Rightarrow> string list" where
  "host_deaths db = concat (map (\<lambda>e. if au_kind e = HostRevoked then (case au_hostId e of None \<Rightarrow> [] | Some i \<Rightarrow> [i]) else []) (db_audit db))"

definition device_rows :: "db \<Rightarrow> (string \<times> bool) list" where
  "device_rows db = map (\<lambda>d. (dr_id d, dr_revokedAt d \<noteq> None)) (db_devices db)"

definition device_deaths :: "db \<Rightarrow> string list" where
  "device_deaths db = concat (map (\<lambda>e. if au_kind e = DeviceRevoked then (case au_deviceId e of None \<Rightarrow> [] | Some i \<Rightarrow> [i]) else []) (db_audit db))"

definition host_life :: "db \<Rightarrow> (string \<times> bool) list \<times> string list" where
  "host_life db = (host_rows db, host_deaths db)"

definition device_life :: "db \<Rightarrow> (string \<times> bool) list \<times> string list" where
  "device_life db = (device_rows db, device_deaths db)"

lemmas life_defs = host_life_def host_rows_def host_deaths_def device_life_def device_rows_def device_deaths_def

lemma life_refl: "life_step (host_life db) (host_life db)" "life_step (device_life db) (device_life db)"
  by (simp_all add: host_life_def device_life_def stay)

subsection \<open>What leaves the lives alone\<close>

lemma life_audit:
  "host_life (appendAuditEvent i now g kind h d detail db) =
     (fst (host_life db), snd (host_life db) @ (if kind = HostRevoked then (case h of None \<Rightarrow> [] | Some j \<Rightarrow> [j]) else []))"
  "device_life (appendAuditEvent i now g kind h d detail db) =
     (fst (device_life db), snd (device_life db) @ (if kind = DeviceRevoked then (case d of None \<Rightarrow> [] | Some j \<Rightarrow> [j]) else []))"
  by (simp_all add: life_defs appendAuditEvent_def)

lemma life_other_tables [simp]:
  "host_life (db\<lparr>db_devices := ds\<rparr>) = host_life db" "host_life (db\<lparr>db_pairs := ps\<rparr>) = host_life db" "host_life (db\<lparr>db_sessions := ss\<rparr>) = host_life db"
  "host_life (db\<lparr>db_attention := as\<rparr>) = host_life db" "host_life (db\<lparr>db_users := us\<rparr>) = host_life db" "host_life (db\<lparr>db_orgs := gs\<rparr>) = host_life db"
  "device_life (db\<lparr>db_hosts := hs\<rparr>) = device_life db" "device_life (db\<lparr>db_pairs := ps\<rparr>) = device_life db" "device_life (db\<lparr>db_sessions := ss\<rparr>) = device_life db"
  "device_life (db\<lparr>db_attention := as\<rparr>) = device_life db" "device_life (db\<lparr>db_users := us\<rparr>) = device_life db" "device_life (db\<lparr>db_orgs := gs\<rparr>) = device_life db"
  by (simp_all add: life_defs)

lemma device_life_heal [simp]: "device_life (healDelivery channel i delivery db) = device_life db" "host_life (healDelivery channel i delivery db) = host_life db"
  by (simp_all add: life_defs healDelivery_def comp_def split: push_delivery.split)

lemma life_deliver:
  "device_life (snd (deliver_each sender (\<lambda>i db. db) channel mk token_of ds db)) = device_life db"
  "host_life (snd (deliver_each sender (\<lambda>i db. db) channel mk token_of ds db)) = host_life db"
  by (induction ds arbitrary: db) (simp_all add: Let_def case_prod_beta split: option.split)

lemma life_route_event:
  "device_life (snd (route_event sender (\<lambda>i db. db) event ds keys db)) = device_life db"
  "host_life (snd (route_event sender (\<lambda>i db. db) event ds keys db)) = host_life db"
  by (induction keys arbitrary: db) (simp_all add: Let_def case_prod_beta channel_deliver_def life_deliver split: option.split channel_key.split)

lemma life_raise:
  "device_life (fst (snd (snd (raiseAttention sender (\<lambda>i db. db) d clock now newId host event db s)))) = device_life db"
  "host_life (fst (snd (snd (raiseAttention sender (\<lambda>i db. db) d clock now newId host event db s)))) = host_life db"
  by (simp_all add: raiseAttention_def Let_def case_prod_beta life_route_event)

lemma life_touch [simp]: "host_life (touch_host now i db) = host_life db" "device_life (touch_host now i db) = device_life db"
  by (simp_all add: life_defs touch_host_def comp_def)

lemma life_upsert_all:
  "host_life (snd (upsert_all fresh i now host rs db)) = host_life db \<and> device_life (snd (upsert_all fresh i now host rs db)) = device_life db"
proof (induction rs arbitrary: i db)
  case (Cons r rs)
  have "upsert_session (fresh i) now host r db = Some db1 \<Longrightarrow> host_life db1 = host_life db \<and> device_life db1 = device_life db" for db1
    by (auto simp: upsert_session_def Let_def split: if_splits)
  then show ?case using Cons by (auto split: option.split)
qed simp

lemma life_heartbeat: "host_life (snd (post_heartbeat env host body db)) = host_life db" "device_life (snd (post_heartbeat env host body db)) = device_life db"
  by (simp_all add: post_heartbeat_def life_upsert_all split: option.split)

lemma life_push_tokens: "host_life (snd (post_push_tokens env d body db)) = host_life db" "device_life (snd (post_push_tokens env d body db)) = device_life db"
  by (simp_all add: post_push_tokens_def life_defs comp_def split: option.split)

lemma life_post_pair:
  "host_life (snd (post_pair C B config env u g i db)) = host_life db" "device_life (snd (post_pair C B config env u g i db)) = device_life db"
  by (simp_all add: post_pair_def mintPairToken_def Let_def life_audit split: option.split)

lemma life_ack: "host_life (snd (ackAttention now g i db)) = host_life db" "device_life (snd (ackAttention now g i db)) = device_life db"
  by (simp_all add: ackAttention_def)

lemma life_handleEvent: "handleEvent newId event db = Some db' \<Longrightarrow> host_life db' = host_life db \<and> device_life db' = device_life db"
  by (auto simp: handleEvent_def ensure_org_def Let_def split: clerk_event.splits if_splits)

lemma life_webhook:
  "host_life (snd (webhook_route C B millis parse secret headers rawBody now newId db)) = host_life db"
  "device_life (snd (webhook_route C B millis parse secret headers rawBody now newId db)) = device_life db"
  using life_handleEvent by (auto simp: webhook_route_def split: option.split)

subsection \<open>What changes them\<close>

lemma host_life_register: "life_step (host_life db) (host_life (snd (post_hosts C B config env u g body db)))"
proof -
  have "insert_host h db = Some db1 \<Longrightarrow> hr_revokedAt h = None \<Longrightarrow> life_step (host_life db) (host_life db1)" for h db1
  proof -
    assume i: "insert_host h db = Some db1" "hr_revokedAt h = None"
    then have "host_life db1 = (host_rows db @ [(hr_id h, False)], host_deaths db)" "hr_id h \<notin> fst ` set (host_rows db)"
      by (auto simp: insert_host_def life_defs list_ex_iff split: if_splits)
    then show ?thesis by (simp add: host_life_def arrive)
  qed
  moreover have "life_step (host_life db) (host_life db)" by (simp add: host_life_def stay)
  moreover have "hr_revokedAt (new_host C env u g name key) = None" for name key by (simp add: new_host_def)
  ultimately show ?thesis
    by (simp add: post_hosts_def Let_def life_audit split: option.split prod.split)
qed

lemma device_life_register: "device_life (snd (post_hosts C B config env u g body db)) = device_life db"
  by (auto simp: post_hosts_def Let_def insert_host_def life_audit split: option.split prod.split)

lemma revoke_host_life:
  "fst (revoke_host_row now i db) \<longleftrightarrow> (i, False) \<in> set (host_rows db)"
  "host_rows (snd (revoke_host_row now i db)) = map (\<lambda>(j, dead). (j, dead \<or> j = i)) (host_rows db)"
  "host_deaths (snd (revoke_host_row now i db)) = host_deaths db" "device_life (snd (revoke_host_row now i db)) = device_life db"
  by (auto simp: revoke_host_row_def life_defs list_ex_iff)

lemma revoke_device_life:
  "fst (revoke_device_row now i db) \<longleftrightarrow> (i, False) \<in> set (device_rows db)"
  "device_rows (snd (revoke_device_row now i db)) = map (\<lambda>(j, dead). (j, dead \<or> j = i)) (device_rows db)"
  "device_deaths (snd (revoke_device_row now i db)) = device_deaths db" "host_life (snd (revoke_device_row now i db)) = host_life db"
  by (auto simp: revoke_device_row_def life_defs list_ex_iff)

lemma no_live_row: "(i, False) \<notin> set rows \<Longrightarrow> map (\<lambda>(j, dead). (j, dead \<or> j = i)) rows = rows"
  by (rule map_idI) (auto, metis (full_types))

lemma host_life_delete: "life_step (host_life db) (host_life (snd (delete_host env g i db)))"
proof -
  have "life_step (host_life db) (host_life (if fst (revoke_host_row now j db)
      then appendAuditEvent a now g' HostRevoked (Some j) None [] (snd (revoke_host_row now j db)) else snd (revoke_host_row now j db)))" for now j a g'
    using no_live_row [of j "host_rows db"] die [of j "host_rows db" "host_deaths db"] stay [of "host_rows db" "host_deaths db"]
    by (simp add: revoke_host_life life_audit) (simp add: host_life_def revoke_host_life)
  moreover have "life_step (host_life db) (host_life db)" by (simp add: host_life_def stay)
  ultimately show ?thesis by (simp add: delete_host_def case_prod_beta Let_def split: option.split)
qed

lemma device_life_delete: "life_step (device_life db) (device_life (snd (delete_device env g i db)))"
proof -
  have "life_step (device_life db) (device_life (if fst (revoke_device_row now j db)
      then appendAuditEvent a now g' DeviceRevoked None (Some j) [] (snd (revoke_device_row now j db)) else snd (revoke_device_row now j db)))" for now j a g'
    using no_live_row [of j "device_rows db"] die [of j "device_rows db" "device_deaths db"] stay [of "device_rows db" "device_deaths db"]
    by (simp add: revoke_device_life life_audit) (simp add: device_life_def revoke_device_life)
  moreover have "life_step (device_life db) (device_life db)" by (simp add: device_life_def stay)
  ultimately show ?thesis by (simp add: delete_device_def case_prod_beta Let_def split: option.split)
qed

lemma life_cross_delete: "device_life (snd (delete_host env g i db)) = device_life db" "host_life (snd (delete_device env g i db)) = host_life db"
  by (simp_all add: delete_host_def delete_device_def case_prod_beta Let_def life_audit revoke_host_life revoke_device_life split: option.split)

text \<open>The first steps of a redemption and its insert; what follows leaves the devices alone.\<close>

definition redeem_tail :: "redeem_phase \<Rightarrow> bool" where
  "redeem_tail p \<longleftrightarrow> (case p of AtClaim \<Rightarrow> False | AtInsert token \<Rightarrow> False | _ \<Rightarrow> True)"

lemma redeem_tail_step:
  "redeem_tail p \<Longrightarrow> redeem_step C config now opts fresh p db = (p', db') \<Longrightarrow>
     redeem_tail p' \<and> device_life db' = device_life db \<and> host_life db' = host_life db"
  by (auto simp: redeem_tail_def redeem_step_def life_audit split: redeem_phase.splits option.splits)

lemma redeem_tail_steps:
  "redeem_tail p \<Longrightarrow> device_life (snd (((\<lambda>(p, db). redeem_step C config now opts fresh p db) ^^ n) (p, db))) = device_life db \<and>
     host_life (snd (((\<lambda>(p, db). redeem_step C config now opts fresh p db) ^^ n) (p, db))) = host_life db"
proof (induction n arbitrary: p db)
  case (Suc n)
  obtain p' db' where st: "redeem_step C config now opts fresh p db = (p', db')" by fastforce
  show ?case using Suc.IH [of p' db'] redeem_tail_step [OF Suc.prems st] st by (simp add: funpow_Suc_right del: funpow.simps)
qed simp

lemma redeem_insert_step:
  assumes "redeem_step C config now opts fresh (AtInsert token) db = (p', db')"
  shows "redeem_tail p' \<and> life_step (device_life db) (device_life db') \<and> host_life db' = host_life db"
proof -
  have "life_step (device_life db) (device_life (db\<lparr>db_devices := db_devices db @ [d]\<rparr>))"
    if "\<not> list_ex (\<lambda>r. dr_id r = dr_id d \<or> dr_deviceTokenHash r = dr_deviceTokenHash d) (db_devices db)" "dr_revokedAt d = None" for d
  proof -
    have "device_life (db\<lparr>db_devices := db_devices db @ [d]\<rparr>) = (device_rows db @ [(dr_id d, False)], device_deaths db)" "dr_id d \<notin> fst ` set (device_rows db)"
      using that by (auto simp: life_defs list_ex_iff)
    then show ?thesis by (simp add: device_life_def arrive)
  qed
  moreover have "life_step (device_life db) (device_life db)" by (simp add: device_life_def stay)
  ultimately show ?thesis using assms by (auto simp: redeem_step_def Let_def redeem_tail_def split: if_splits)
qed

lemma redeem_life:
  "life_step (device_life db) (device_life (snd (redeemPairToken C config now opts fresh db))) \<and>
   host_life (snd (redeemPairToken C config now opts fresh db)) = host_life db"
proof -
  obtain res db1 where c: "claim_pair C now (ro_pairToken opts) db = (res, db1)" by fastforce
  have same: "device_life db1 = device_life db" "host_life db1 = host_life db" using c by (auto simp: claim_pair_def)
  show ?thesis
  proof (cases res)
    case None
    then have "redeem_step C config now opts fresh AtClaim db = (Refused, db1)" using c by (simp add: redeem_step_def)
    then show ?thesis using redeem_tail_steps [where p = Refused and n = 5 and db = db1] same
      by (simp add: redeemPairToken_def eval_nat_numeral funpow_Suc_right redeem_tail_def device_life_def stay del: funpow.simps)
  next
    case (Some token)
    then have st: "redeem_step C config now opts fresh AtClaim db = (AtInsert token, db1)" using c by (simp add: redeem_step_def)
    obtain p2 db2 where st2: "redeem_step C config now opts fresh (AtInsert token) db1 = (p2, db2)" by fastforce
    from redeem_insert_step [OF st2] redeem_tail_steps [where p = p2 and n = 4 and db = db2] same show ?thesis
      by (simp add: redeemPairToken_def eval_nat_numeral funpow_Suc_right st st2 del: funpow.simps)
  qed
qed

lemma redeem_route_life:
  "life_step (device_life (fst w)) (device_life (fst (snd (redeem_route C config clock now ip fresh body w)))) \<and>
   host_life (fst (snd (redeem_route C config clock now ip fresh body w))) = host_life (fst w)"
proof -
  obtain db s where w: "w = (db, s)" by fastforce
  have "life_step (device_life db) (device_life db)" by (simp add: device_life_def stay)
  moreover have "fst (snd (case redeemPairToken C (af_pair config) now opts fresh db of
      (Refused, db1) \<Rightarrow> (PairError 404 ''pair-token-invalid'', (db1, s1)) | (Redeemed r, db1) \<Rightarrow> (RedeemOk r, (db1, s1)) | (_, db1) \<Rightarrow> (PairThrew, (db1, s1)))) =
      snd (redeemPairToken C (af_pair config) now opts fresh db)" for opts and s1 :: cp_store
  proof -
    obtain p d where r: "redeemPairToken C (af_pair config) now opts fresh db = (p, d)" by fastforce
    then show ?thesis by (cases p) (simp_all add: r)
  qed
  ultimately show ?thesis using redeem_life w by (simp add: redeem_route_def case_prod_beta Let_def split: option.split)
qed

subsection \<open>One step per request\<close>

lemma api_life:
  assumes "alone (ApiEv env req)"
  shows "life_step (host_life (fst w)) (host_life (fst (snd (api_handle C B v config env req w)))) \<and>
    life_step (device_life (fst w)) (device_life (fst (snd (api_handle C B v config env req w))))"
proof -
  obtain db s where w: "w = (db, s)" by fastforce
  have refl: "life_step (host_life db) (host_life db)" "life_step (device_life db) (device_life db)" by (simp_all add: host_life_def device_life_def stay)
  have "life_step (host_life db) (host_life (fst (snd (serve_caller C B config env caller req (db, s))))) \<and>
      life_step (device_life db) (device_life (fst (snd (serve_caller C B config env caller req (db, s)))))" for caller
  proof (cases caller)
    case (HumanCaller u g)
    then show ?thesis
      by (cases req) (simp_all add: serve_caller_def with_store_def serve_human_def refl host_life_register device_life_register life_post_pair
          host_life_delete device_life_delete life_cross_delete)
  next
    case (HostCaller h)
    show ?thesis
    proof (cases req)
      case (PostAttention sender between body)
      then show ?thesis using assms
        by (simp add: HostCaller serve_caller_def post_attention_def Let_def case_prod_beta life_raise refl split: option.split)
    qed (simp_all add: HostCaller serve_caller_def with_store_def life_heartbeat refl)
  next
    case (DeviceCaller d)
    then show ?thesis by (cases req) (simp_all add: serve_caller_def with_store_def life_push_tokens refl)
  next
    case (EitherCaller p)
    then show ?thesis
      by (cases req) (simp_all add: serve_caller_def with_store_def serve_either_def post_ack_def Let_def case_prod_beta life_ack refl)
  qed
  then show ?thesis using refl by (simp add: api_handle_def w split: option.split)
qed

lemma serve_life:
  "alone e \<Longrightarrow> life_step (host_life (fst w)) (host_life (fst (cp_serve P e w))) \<and> life_step (device_life (fst w)) (device_life (fst (cp_serve P e w)))"
  using redeem_route_life api_life by (cases e) (simp_all add: life_webhook life_refl)

interpretation host_lives: revocable "cp_serve P" alone "\<lambda>w. wf_db (fst w)" "\<lambda>w. host_rows (fst w)" "\<lambda>w. host_deaths (fst w)" for P
  by unfold_locales (use serve_life alone_calm cp_serve_wf in \<open>auto simp: host_life_def\<close>)

interpretation device_lives: revocable "cp_serve P" alone "\<lambda>w. wf_db (fst w)" "\<lambda>w. device_rows (fst w)" "\<lambda>w. device_deaths (fst w)" for P
  by unfold_locales (use serve_life alone_calm cp_serve_wf in \<open>auto simp: device_life_def\<close>)

end
