(* ===== verification/RoutesTheorems.thy ===== *)
theory RoutesTheorems
  imports RevocationSteps
begin

text \<open>The control plane's API over whole runs: its rows stay well formed, and a revocation is final.\<close>

lemma cp_run_simps [simp]: "cp_run P [] w = w" "cp_run P (e # es) w = cp_run P es (cp_serve P e w)"
  "cp_run P (es @ fs) w = cp_run P fs (cp_run P es w)"
  by (simp_all add: cp_run_def)

subsection \<open>The demo\<close>

definition api_conf :: api_config where
  "api_conf = \<lparr>af_maxHostsPerOrg = 1, af_pair = \<lparr>pc_pairTokenTtlMs = 100, pc_directorUrl = None, pc_apiPublicUrl = None\<rparr>,
     af_pairRedeemPerMin = 5, af_attentionHostPerMin = 5, af_attentionOrgPerMin = 5, af_attentionDebounceMs = 10\<rparr>"

text \<open>Functions on which the demo evaluates quickly; they are no real hash and no real codec.\<close>

definition short_crypto :: crypto where
  "short_crypto = demo_crypto\<lparr>sha_256 := drop 4\<rparr>"

definition short_base64 :: base64 where
  "short_base64 = \<lparr>b64_decode = (\<lambda>t. replicate 32 0), b64_encode = (\<lambda>bs. ''k'')\<rparr>"

definition api_params :: cp_params where
  "api_params = \<lparr>cp_crypto = short_crypto, cp_base64 = short_base64, cp_verify = (\<lambda>t. if t = ''jwt'' then Some ''c1'' else if t = ''jwt2'' then Some ''c2'' else None),
     cp_config = api_conf, cp_millis = (\<lambda>t. Some 0), cp_parse = (\<lambda>t. None), cp_secret = None\<rparr>"

definition api_start :: db where
  "api_start = no_rows\<lparr>db_orgs := [\<lparr>og_id = ''o1'', og_name = ''one''\<rparr>, \<lparr>og_id = ''o2'', og_name = ''two''\<rparr>],
     db_users := [\<lparr>us_id = ''u1'', us_clerkUserId = ''c1'', us_primaryOrgId = Some ''o1''\<rparr>,
       \<lparr>us_id = ''u2'', us_clerkUserId = ''c2'', us_primaryOrgId = Some ''o2''\<rparr>]\<rparr>"

definition human_env :: "string \<Rightarrow> int \<Rightarrow> string \<Rightarrow> api_env" where
  "human_env jwt t fresh = \<lparr>en_header = Some (''Bearer '' @ jwt), en_clock = t, en_now = t, en_fresh = (\<lambda>i. fresh), en_random = fresh, en_auditId = fresh\<rparr>"

definition api_demo :: "cp_event list" where
  "api_demo =
     [ApiEv (human_env ''jwt'' 1 ''h1'') (PostHosts (Some (''mac'', ''k''))),
      ApiEv (human_env ''jwt2'' 2 ''h2'') (PostHosts (Some (''pc'', ''k''))),
      ApiEv (human_env ''hk_h1'' 5 ''s1'') (PostHeartbeat (Some [\<lparr>sp_sessionRef = ''r'', sp_status = ''live'', sp_startedAt = None, sp_endedAt = None\<rparr>])),
      ApiEv (human_env ''jwt2'' 6 ''a'') (DeleteHost ''h1'')]"

lemma api_demo_calm: "\<forall>e \<in> set api_demo. calm_event e" "\<forall>e \<in> set api_demo. alone e"
  by (simp_all add: api_demo_def)

lemma api_start_wf: "wf_db api_start" "life_ok (host_rows api_start) (host_deaths api_start)"
  by (simp add: wf_db_def keys_of_def api_start_def no_rows_def wf_defs user_key_def)
    (simp add: life_ok_def host_rows_def host_deaths_def api_start_def no_rows_def)

lemma api_demo_ends:
  "(\<lambda>db. (host_rows db, map sr_id (db_sessions db))) (fst (cp_run api_params api_demo (api_start, []))) =
     ([(''h1'', False), (''h2'', False)], [''s1''])"
  "fst (api_handle (cp_crypto api_params) (cp_base64 api_params) (cp_verify api_params) (cp_config api_params) (human_env ''jwt'' 7 ''b'') (DeleteHost ''h1'')
     (cp_run api_params api_demo (api_start, []))) = OkReply"
  by code_simp+

subsection \<open>Well-formed rows\<close>

text \<open>Every run of requests, webhooks and redemptions keeps the rows well formed: no primary key and no unique
  column repeats, a host and a device belong to an organisation and a user there are, and a pair token, a
  session and an attention event point to a host of their own organisation, a redeemed token to a device of it.\<close>

lemma rows_stay_well_formed:
  assumes "wf_db (fst w)" and "\<forall>e \<in> set es. calm_event e"
  shows "wf_db (fst (cp_run P es w))"
  using assms by (induction es arbitrary: w) (simp_all add: cp_serve_wf)

lemma rows_stay_well_formed_witness: "wf_db (fst (cp_run api_params api_demo (api_start, [])))"
  by (rule rows_stay_well_formed) (simp_all add: api_start_wf api_demo_calm)

subsection \<open>Revocation\<close>

lemma find_in: "find P xs = Some x \<Longrightarrow> x \<in> set xs \<and> P x"
  by (auto simp: find_Some_iff)

lemma count_concat_map:
  assumes "\<And>e. length (filter R (f e)) = (if Q e then 1 else 0)"
  shows "length (filter R (concat (map f es))) = length (filter Q es)"
  by (induction es) (simp_all add: assms)

lemma one_or_none: "length (filter (\<lambda>j. j = i) (case x of None \<Rightarrow> [] | Some i \<Rightarrow> [i])) = (if x = Some i then 1 else 0)"
  by (cases x) simp_all

lemma deaths_are_rows:
  "length (filter (\<lambda>j. j = i) (host_deaths db)) = length (filter (\<lambda>e. au_kind e = HostRevoked \<and> au_hostId e = Some i) (db_audit db))"
  unfolding host_deaths_def 
proof (rule count_concat_map)
  show "length (filter (\<lambda>j. j = i) (if au_kind e = HostRevoked then (case au_hostId e of None \<Rightarrow> [] | Some i \<Rightarrow> [i]) else [])) =
      (if au_kind e = HostRevoked \<and> au_hostId e = Some i then 1 else 0)" for e :: audit_row
    by (cases "au_kind e = HostRevoked") (simp_all only: one_or_none if_True if_False simp_thms filter.simps list.size)
qed

lemma device_deaths_are_rows:
  "length (filter (\<lambda>j. j = i) (device_deaths db)) = length (filter (\<lambda>e. au_kind e = DeviceRevoked \<and> au_deviceId e = Some i) (db_audit db))"
  unfolding device_deaths_def 
proof (rule count_concat_map)
  show "length (filter (\<lambda>j. j = i) (if au_kind e = DeviceRevoked then (case au_deviceId e of None \<Rightarrow> [] | Some i \<Rightarrow> [i]) else [])) =
      (if au_kind e = DeviceRevoked \<and> au_deviceId e = Some i then 1 else 0)" for e :: audit_row
    by (cases "au_kind e = DeviceRevoked") (simp_all only: one_or_none if_True if_False simp_thms filter.simps list.size)
qed

lemma audit_host_rows [simp]: "host_rows (appendAuditEvent a now g kind h d detail db) = host_rows db"
    "device_rows (appendAuditEvent a now g kind h d detail db) = device_rows db"
  by (simp_all add: host_rows_def device_rows_def appendAuditEvent_def)

text \<open>A delete that answers well leaves the row dead.\<close>

lemma deleted_host_is_dead:
  assumes "fst (api_handle C B v config env (DeleteHost i) w) = OkReply"
  shows "(i, True) \<in> set (host_rows (fst (snd (api_handle C B v config env (DeleteHost i) w))))"
proof -
  obtain db s where w: "w = (db, s)" by fastforce
  obtain u g where c: "caller_of C v env (DeleteHost i) db s = Some (HumanCaller u g)"
    using assms by (auto simp: api_handle_def w caller_of_def Let_def split: option.splits)
  obtain host where h: "find (\<lambda>h. hr_id h = i) (db_hosts db) = Some host" "hr_orgId host = og_id g"
    using assms by (auto simp: api_handle_def w c serve_caller_def with_store_def serve_human_def delete_host_def split: option.splits if_splits)
  then have "host \<in> set (db_hosts db)" "hr_id host = i" using find_in [OF h(1)] by simp_all
  then have "(i, hr_revokedAt host \<noteq> None) \<in> set (host_rows db)" by (force simp: host_rows_def)
  then have "(i, True) \<in> set (host_rows (snd (revoke_host_row (en_now env) i db)))" by (force simp: revoke_host_life)
  then show ?thesis using h \<open>hr_id host = i\<close>
    by (simp add: api_handle_def w c serve_caller_def with_store_def serve_human_def delete_host_def Let_def case_prod_beta)
qed

lemma deleted_device_is_dead:
  assumes "fst (api_handle C B v config env (DeleteDevice i) w) = OkReply"
  shows "(i, True) \<in> set (device_rows (fst (snd (api_handle C B v config env (DeleteDevice i) w))))"
proof -
  obtain db s where w: "w = (db, s)" by fastforce
  obtain u g where c: "caller_of C v env (DeleteDevice i) db s = Some (HumanCaller u g)"
    using assms by (auto simp: api_handle_def w caller_of_def Let_def split: option.splits)
  obtain device where d: "find (\<lambda>d. dr_id d = i) (db_devices db) = Some device" "dr_orgId device = og_id g"
    using assms by (auto simp: api_handle_def w c serve_caller_def with_store_def serve_human_def delete_device_def split: option.splits if_splits)
  then have "device \<in> set (db_devices db)" "dr_id device = i" using find_in [OF d(1)] by simp_all
  then have "(i, dr_revokedAt device \<noteq> None) \<in> set (device_rows db)" by (force simp: device_rows_def)
  then have "(i, True) \<in> set (device_rows (snd (revoke_device_row (en_now env) i db)))" by (force simp: revoke_device_life)
  then show ?thesis using d \<open>dr_id device = i\<close>
    by (simp add: api_handle_def w c serve_caller_def with_store_def serve_human_def delete_device_def Let_def case_prod_beta)
qed

text \<open>C29: From rows that are well formed and whose revoked hosts are those the audit log has a revocation of, and with
  nothing else happening while the pushes of a raise are sent (\<open>alone\<close>): once a request to revoke a host was answered well, whatever is requested later, by anyone, the host's key
  never authenticates again, no ticket resolves to it or can be issued for it, and the audit log has exactly
  one row of its revocation, also where it is revoked again.\<close>

theorem host_revocation_is_final:
  assumes "wf_db (fst w)" "life_ok (host_rows (fst w)) (host_deaths (fst w))" "\<forall>e \<in> set (es @ ApiEv env (DeleteHost i) # fs). alone e"
    and "fst (api_handle (cp_crypto P) (cp_base64 P) (cp_verify P) (cp_config P) env (DeleteHost i) (cp_run P es w)) = OkReply"
    and "w' = cp_run P (es @ ApiEv env (DeleteHost i) # fs) w"
  shows "(\<forall>header h. authenticateHost (cp_crypto P) (fst w') header = Some h \<longrightarrow> hr_id h \<noteq> i) \<and>
    loadActiveHost (fst w') i = None \<and>
    (\<forall>rc rt fresh auditId header r. fst (ticket_route (cp_crypto P) (cp_verify P) rc rt fresh auditId header (Some i) (fst w') (snd w')) \<noteq> TicketOk r) \<and>
    length (filter (\<lambda>e. au_kind e = HostRevoked \<and> au_hostId e = Some i) (db_audit (fst w'))) = 1"
proof -
  let ?es = "es @ [ApiEv env (DeleteHost i)]"
  have w': "w' = fold (cp_serve P) (?es @ fs) w" using assms(5) by (simp add: cp_run_def)
  have dead: "(i, True) \<in> set (host_rows (fst (fold (cp_serve P) ?es w)))"
    using deleted_host_is_dead [OF assms(4)] by (simp add: cp_run_def)
  have good: "\<forall>e \<in> set (?es @ fs). alone e" using assms(3) by simp
  note final = host_lives.death_is_final [where P = P and fs = fs, OF assms(1,2) good dead, folded w']
  have rows: "h \<in> set (db_hosts (fst w')) \<Longrightarrow> hr_id h = i \<Longrightarrow> hr_revokedAt h \<noteq> None" for h
    using final(1) by (force simp: host_rows_def)
  have found: "find (\<lambda>h. hr_id h = i) (db_hosts (fst w')) = Some h \<Longrightarrow> hr_revokedAt h \<noteq> None" for h
    using rows [of h] by (auto simp: find_Some_iff)
  have "authenticateHost (cp_crypto P) (fst w') header = Some h \<Longrightarrow> hr_id h \<noteq> i" for header h
    using host_row_in [of "cp_crypto P" "fst w'" header h] rows [of h] by auto
  moreover have "loadActiveHost (fst w') i = None"
    using found by (auto simp: loadActiveHost_def split: option.split)
  moreover have "fst (ticket_route (cp_crypto P) (cp_verify P) rc rt fresh auditId header (Some i) (fst w') (snd w')) \<noteq> TicketOk r"
    for rc rt fresh auditId header r
    using found by (auto simp: ticket_route_def case_prod_beta Let_def split: option.split)
  moreover have "length (filter (\<lambda>e. au_kind e = HostRevoked \<and> au_hostId e = Some i) (db_audit (fst w'))) = 1"
    using deaths_are_rows [of i "fst w'"] final(3) by simp
  ultimately show ?thesis by blast
qed

text \<open>The same of devices.\<close>

lemma device_revocation_is_final:
  assumes "wf_db (fst w)" "life_ok (device_rows (fst w)) (device_deaths (fst w))" "\<forall>e \<in> set (es @ ApiEv env (DeleteDevice i) # fs). alone e"
    and "fst (api_handle (cp_crypto P) (cp_base64 P) (cp_verify P) (cp_config P) env (DeleteDevice i) (cp_run P es w)) = OkReply"
    and "w' = cp_run P (es @ ApiEv env (DeleteDevice i) # fs) w"
  shows "(\<forall>header d. authenticateDevice (cp_crypto P) (fst w') header = Some d \<longrightarrow> dr_id d \<noteq> i) \<and>
    length (filter (\<lambda>e. au_kind e = DeviceRevoked \<and> au_deviceId e = Some i) (db_audit (fst w'))) = 1"
proof -
  let ?es = "es @ [ApiEv env (DeleteDevice i)]"
  have w': "w' = fold (cp_serve P) (?es @ fs) w" using assms(5) by (simp add: cp_run_def)
  have dead: "(i, True) \<in> set (device_rows (fst (fold (cp_serve P) ?es w)))"
    using deleted_device_is_dead [OF assms(4)] by (simp add: cp_run_def)
  have good: "\<forall>e \<in> set (?es @ fs). alone e" using assms(3) by simp
  note final = device_lives.death_is_final [where P = P and fs = fs, OF assms(1,2) good dead, folded w']
  have rows: "d \<in> set (db_devices (fst w')) \<Longrightarrow> dr_id d = i \<Longrightarrow> dr_revokedAt d \<noteq> None" for d
    using final(1) by (force simp: device_rows_def)
  have "authenticateDevice (cp_crypto P) (fst w') header = Some d \<Longrightarrow> dr_id d \<noteq> i" for header d
    using device_row_in [of "cp_crypto P" "fst w'" header d] rows [of d] by auto
  then show ?thesis using device_deaths_are_rows [of i "fst w'"] final(3) by simp
qed

definition api_revoke :: "cp_event list" where
  "api_revoke = [ApiEv (human_env ''jwt'' 8 ''b'') (DeleteHost ''h1''), ApiEv (human_env ''jwt'' 9 ''h1'') (PostHosts (Some (''mac'', ''k'')))]"

lemma host_revocation_is_final_witness:
  "loadActiveHost (fst (cp_run api_params (api_demo @ ApiEv (human_env ''jwt'' 7 ''b'') (DeleteHost ''h1'') # api_revoke) (api_start, []))) ''h1'' = None"
  using host_revocation_is_final [of "(api_start, [])" api_demo "human_env ''jwt'' 7 ''b''" "''h1''" api_revoke api_params, OF _ _ _ api_demo_ends(2) refl]
  by (simp add: api_start_wf api_demo_calm api_revoke_def del: cp_run_simps)

subsection \<open>Where the routes fall short\<close>

text \<open>
  The cap on hosts is a count and a later insert: of two registrations whose counts both come before the
  inserts, both get through, and the organisation has more hosts than the cap.
\<close>

lemma cap_is_not_atomic:
  "let db = api_start; u = hd (db_users db); g = hd (db_orgs db); h1 = new_host short_crypto (human_env ''jwt'' 1 ''h1'') u g ''mac'' ''k'';
       h2 = new_host short_crypto (human_env ''jwt'' 1 ''h2'') u g ''pc'' ''k''
   in \<not> over_cap api_conf (og_id g) db \<and>
      (case insert_host h1 db of None \<Rightarrow> False
       | Some db1 \<Rightarrow> (case insert_host h2 db1 of None \<Rightarrow> False | Some db2 \<Rightarrow> af_maxHostsPerOrg api_conf < int (active_hosts (og_id g) db2)))"
  by code_simp

text \<open>A human removed from the organisation is locked out, and the devices they paired are not.\<close>

lemma offboarded_devices_stay:
  "let db = api_start\<lparr>db_devices := [\<lparr>dr_id = ''d1'', dr_orgId = ''o1'', dr_userId = ''u1'', dr_name = ''phone'',
         dr_deviceTokenHash = ms_hash (mintSecret short_crypto ''dt'' ''d1''), dr_deviceTokenPrefix = ''d1'', dr_pushToken = None,
         dr_voipPushToken = None, dr_devicePublicKey = None, dr_lastSeenAt = None, dr_revokedAt = None\<rparr>]\<rparr>; db' = the (handleEvent ''x'' (MemberRemoved ''o1'' ''c1'') db)
   in authenticateHuman short_crypto (cp_verify api_params) db' 9 [] 9 (Some ''Bearer jwt'') = None \<and>
      map_option dr_orgId (authenticateDevice short_crypto db' (Some ''Bearer dt_d1'')) = Some ''o1''"
  by code_simp

text \<open>A delivery that comes twice, or late, is applied again: the removed member is back.\<close>

lemma late_delivery_undoes_removal:
  "let db1 = the (handleEvent ''x'' (MemberRemoved ''o1'' ''c1'') api_start); db2 = the (handleEvent ''y'' (MemberAdded ''o1'' None ''c1'') db1)
   in us_primaryOrgId (hd (db_users db1)) = None \<and> us_primaryOrgId (hd (db_users db2)) = Some ''o1''"
  by code_simp

end
