(* ===== verification/Tenants.thy ===== *)
theory Tenants
  imports RoutesWf
begin

text \<open>
  Tenancy: what an organisation can see of the rows, and that a request of one organisation neither changes
  what another sees nor depends on it.
\<close>

subsection \<open>The view of an organisation\<close>

record view =
  vw_orgs :: "org_row list"
  vw_users :: "user_row list"
  vw_hosts :: "host_row list"
  vw_devices :: "device_row list"
  vw_pairs :: "pair_row list"
  vw_sessions :: "session_row list"
  vw_attention :: "attention_row list"
  vw_audit :: "audit_row list"

definition view :: "string \<Rightarrow> db \<Rightarrow> view" where
  "view g db = \<lparr>vw_orgs = filter (\<lambda>r. og_id r = g) (db_orgs db), vw_users = filter (\<lambda>r. us_primaryOrgId r = Some g) (db_users db),
     vw_hosts = filter (\<lambda>r. hr_orgId r = g) (db_hosts db), vw_devices = filter (\<lambda>r. dr_orgId r = g) (db_devices db),
     vw_pairs = filter (\<lambda>r. pr_orgId r = g) (db_pairs db), vw_sessions = filter (\<lambda>r. sr_orgId r = g) (db_sessions db),
     vw_attention = filter (\<lambda>r. ar_orgId r = g) (db_attention db), vw_audit = filter (\<lambda>r. au_orgId r = g) (db_audit db)\<rparr>"

definition confined :: "string \<Rightarrow> db \<Rightarrow> db \<Rightarrow> bool" where
  "confined g db db' \<longleftrightarrow> (\<forall>g'. g' \<noteq> g \<longrightarrow> view g' db' = view g' db)"

definition alike :: "string \<Rightarrow> db \<Rightarrow> db \<Rightarrow> bool" where
  "alike g db1 db2 \<longleftrightarrow> view g db1 = view g db2"

text \<open>A route of the organisation \<open>g\<close> that keeps to it, on two worlds.\<close>

definition keeps_to :: "string \<Rightarrow> (db \<Rightarrow> 'r \<times> db) \<Rightarrow> db \<Rightarrow> db \<Rightarrow> bool" where
  "keeps_to g f db1 db2 \<longleftrightarrow> confined g db1 (snd (f db1)) \<and> confined g db2 (snd (f db2)) \<and>
     fst (f db1) = fst (f db2) \<and> alike g (snd (f db1)) (snd (f db2))"

lemma confined_refl [simp]: "confined g db db"
  by (simp add: confined_def)

lemma confined_trans: "confined g a b \<Longrightarrow> confined g b c \<Longrightarrow> confined g a c"
  by (simp add: confined_def)

lemma filter_of_map: "(\<And>x. x \<in> set xs \<Longrightarrow> Q (f x) = Q x) \<Longrightarrow> filter Q (map f xs) = map f (filter Q xs)"
  by (induction xs) auto

text \<open>Updating rows without moving them, where only those of one organisation change.\<close>

lemma org_update:
  assumes "\<And>x. org (f x) = org x" "\<And>x. x \<in> set xs \<Longrightarrow> org x \<noteq> g \<Longrightarrow> f x = x"
  shows "g' \<noteq> g \<Longrightarrow> filter (\<lambda>r. org r = g') (map f xs) = filter (\<lambda>r. org r = g') xs"
    and "filter (\<lambda>r. org r = g) (map f xs) = map f (filter (\<lambda>r. org r = g) xs)"
  using assms by (induction xs) auto

text \<open>A row found by its key in the table is found in the view, where it is the organisation's.\<close>

lemma in_filter: "filter Q xs = filter Q ys \<Longrightarrow> x \<in> set xs \<Longrightarrow> Q x \<Longrightarrow> x \<in> set ys"
  by (metis (mono_tags, lifting) mem_Collect_eq set_filter)

lemma find_row: "find P xs = Some x \<Longrightarrow> x \<in> set xs \<and> P x"
  by (auto simp: find_Some_iff)

lemma find_own:
  assumes "distinct (map k xs)"
  shows "(case find (\<lambda>x. k x = i) xs of None \<Rightarrow> None | Some x \<Rightarrow> if Q x then Some x else None) = find (\<lambda>x. k x = i) (filter Q xs)"
  using assms
proof (induction xs)
  case (Cons a xs)
  have "k a \<notin> k ` set xs \<Longrightarrow> find (\<lambda>x. k x = k a) (filter Q xs) = None"
    by (simp add: find_None_iff) (metis imageI)
  then show ?case using Cons by auto
qed simp

lemma own_cases:
  assumes "distinct (map k xs)" "distinct (map k ys)" "filter Q xs = filter Q ys"
  obtains (own) x where "find (\<lambda>x. k x = i) xs = Some x" "find (\<lambda>x. k x = i) ys = Some x" "Q x"
  | (other) "\<forall>x. find (\<lambda>x. k x = i) xs = Some x \<longrightarrow> \<not> Q x" "\<forall>y. find (\<lambda>x. k x = i) ys = Some y \<longrightarrow> \<not> Q y"
proof (cases "find (\<lambda>x. k x = i) (filter Q xs)")
  case None
  then show ?thesis using find_own [OF assms(1), where i = i and Q = Q] find_own [OF assms(2), where i = i and Q = Q] assms(3) other
    by (auto split: option.splits if_splits)
next
  case (Some x)
  then show ?thesis using find_own [OF assms(1), where i = i and Q = Q] find_own [OF assms(2), where i = i and Q = Q] assms(3) own
    by (auto split: option.splits if_splits)
qed

subsection \<open>What is distinct in well-formed rows\<close>

lemma wf_distinct:
  assumes "wf_db db"
  shows "distinct (map hr_id (db_hosts db))" "distinct (map dr_id (db_devices db))" "distinct (map ar_id (db_attention db))"
    "distinct (map (\<lambda>s. (sr_hostId s, sr_sessionRef s)) (db_sessions db))"
  using assms by (simp_all add: wf_db_def wf_keys_def wf_owned_def wf_attention_def wf_sessions_def keys_members comp_def)

lemma key_unique: "distinct (map k xs) \<Longrightarrow> x \<in> set xs \<Longrightarrow> y \<in> set xs \<Longrightarrow> k x = k y \<Longrightarrow> x = y"
  by (auto simp: distinct_map inj_on_def)

lemma session_host:
  assumes "wf_db db" "s \<in> set (db_sessions db)"
  shows "\<exists>h \<in> set (db_hosts db). hr_id h = sr_hostId s \<and> hr_orgId h = sr_orgId s"
  using assms by (auto simp: wf_db_def wf_keys_def wf_sessions_def list_all_iff keys_of_def session_key_def in_org_host)

subsection \<open>Audit rows and single tables\<close>

lemma view_audit: "view g' (appendAuditEvent i now g kind h d detail db) =
    (view g' db)\<lparr>vw_audit := vw_audit (view g' db) @ (if g = g' then [\<lparr>au_id = i, au_orgId = g, au_kind = kind, au_hostId = h,
      au_deviceId = d, au_detail = detail, au_createdAt = now\<rparr>] else [])\<rparr>"
  by (simp add: view_def appendAuditEvent_def)

lemma confined_audit: "confined g db db' \<Longrightarrow> confined g db (appendAuditEvent i now g kind h d detail db')"
  by (simp add: confined_def view_audit)

lemma alike_audit: "alike g db1 db2 \<Longrightarrow> alike g (appendAuditEvent i now g kind h d detail db1) (appendAuditEvent i now g kind h d detail db2)"
  by (simp add: alike_def view_audit)

lemma alike_parts:
  assumes "alike g db1 db2"
  shows "filter (\<lambda>r. hr_orgId r = g) (db_hosts db1) = filter (\<lambda>r. hr_orgId r = g) (db_hosts db2)"
    "filter (\<lambda>r. dr_orgId r = g) (db_devices db1) = filter (\<lambda>r. dr_orgId r = g) (db_devices db2)"
    "filter (\<lambda>r. sr_orgId r = g) (db_sessions db1) = filter (\<lambda>r. sr_orgId r = g) (db_sessions db2)"
    "filter (\<lambda>r. ar_orgId r = g) (db_attention db1) = filter (\<lambda>r. ar_orgId r = g) (db_attention db2)"
    "filter (\<lambda>r. au_orgId r = g) (db_audit db1) = filter (\<lambda>r. au_orgId r = g) (db_audit db2)"
  using assms by (simp_all add: alike_def view_def)

text \<open>Updating the rows of one key, which is the organisation's.\<close>

lemma update_hosts:
  assumes "\<And>h. hr_orgId (f h) = hr_orgId h" "\<And>h. h \<in> set (db_hosts db) \<Longrightarrow> hr_orgId h \<noteq> g \<Longrightarrow> f h = h"
  shows "confined g db (db\<lparr>db_hosts := map f (db_hosts db)\<rparr>)"
    and "view g (db\<lparr>db_hosts := map f (db_hosts db)\<rparr>) = (view g db)\<lparr>vw_hosts := map f (vw_hosts (view g db))\<rparr>"
  using org_update [where org = hr_orgId and f = f and xs = "db_hosts db" and g = g, OF assms] by (simp_all add: confined_def view_def)

lemma update_devices:
  assumes "\<And>d. dr_orgId (f d) = dr_orgId d" "\<And>d. d \<in> set (db_devices db) \<Longrightarrow> dr_orgId d \<noteq> g \<Longrightarrow> f d = d"
  shows "confined g db (db\<lparr>db_devices := map f (db_devices db)\<rparr>)"
    and "view g (db\<lparr>db_devices := map f (db_devices db)\<rparr>) = (view g db)\<lparr>vw_devices := map f (vw_devices (view g db))\<rparr>"
  using org_update [where org = dr_orgId and f = f and xs = "db_devices db" and g = g, OF assms] by (simp_all add: confined_def view_def)

lemma update_attention:
  assumes "\<And>a. ar_orgId (f a) = ar_orgId a" "\<And>a. a \<in> set (db_attention db) \<Longrightarrow> ar_orgId a \<noteq> g \<Longrightarrow> f a = a"
  shows "confined g db (db\<lparr>db_attention := map f (db_attention db)\<rparr>)"
    and "view g (db\<lparr>db_attention := map f (db_attention db)\<rparr>) = (view g db)\<lparr>vw_attention := map f (vw_attention (view g db))\<rparr>"
  using org_update [where org = ar_orgId and f = f and xs = "db_attention db" and g = g, OF assms] by (simp_all add: confined_def view_def)

lemma update_sessions:
  assumes "\<And>s. sr_orgId (f s) = sr_orgId s" "\<And>s. s \<in> set (db_sessions db) \<Longrightarrow> sr_orgId s \<noteq> g \<Longrightarrow> f s = s"
  shows "confined g db (db\<lparr>db_sessions := map f (db_sessions db)\<rparr>)"
    and "view g (db\<lparr>db_sessions := map f (db_sessions db)\<rparr>) = (view g db)\<lparr>vw_sessions := map f (vw_sessions (view g db))\<rparr>"
  using org_update [where org = sr_orgId and f = f and xs = "db_sessions db" and g = g, OF assms] by (simp_all add: confined_def view_def)

text \<open>One more row of the organisation.\<close>

lemma add_row:
  "hr_orgId h = g \<Longrightarrow> confined g db (db\<lparr>db_hosts := db_hosts db @ [h]\<rparr>)" "pr_orgId p = g \<Longrightarrow> confined g db (db\<lparr>db_pairs := db_pairs db @ [p]\<rparr>)"
  "sr_orgId s = g \<Longrightarrow> confined g db (db\<lparr>db_sessions := db_sessions db @ [s]\<rparr>)" "ar_orgId a = g \<Longrightarrow> confined g db (db\<lparr>db_attention := db_attention db @ [a]\<rparr>)"
  by (auto simp: confined_def view_def)

lemma alike_add:
  assumes "alike g db1 db2"
  shows "alike g (db1\<lparr>db_hosts := db_hosts db1 @ [h]\<rparr>) (db2\<lparr>db_hosts := db_hosts db2 @ [h]\<rparr>)"
    "alike g (db1\<lparr>db_pairs := db_pairs db1 @ [p]\<rparr>) (db2\<lparr>db_pairs := db_pairs db2 @ [p]\<rparr>)"
    "alike g (db1\<lparr>db_sessions := db_sessions db1 @ [s]\<rparr>) (db2\<lparr>db_sessions := db_sessions db2 @ [s]\<rparr>)"
    "alike g (db1\<lparr>db_attention := db_attention db1 @ [a]\<rparr>) (db2\<lparr>db_attention := db_attention db2 @ [a]\<rparr>)"
  using assms by (simp_all add: alike_def view_def)

subsection \<open>The routes of a human\<close>

text \<open>The ids and secrets a request brings are those of no row.\<close>

definition brings_fresh :: "crypto \<Rightarrow> api_env \<Rightarrow> db \<Rightarrow> bool" where
  "brings_fresh C env db \<longleftrightarrow>
     (\<forall>h \<in> set (db_hosts db). hr_id h \<noteq> en_fresh env 0 \<and> hr_hostKeyHash h \<noteq> ms_hash (mintSecret C ''hk'' (en_random env))) \<and>
     (\<forall>p \<in> set (db_pairs db). pr_id p \<noteq> en_fresh env 0 \<and> pr_tokenHash p \<noteq> ms_hash (mintSecret C ''pt'' (en_random env))) \<and>
     (\<forall>s \<in> set (db_sessions db). \<forall>i. sr_id s \<noteq> en_fresh env i) \<and>
     (\<forall>a \<in> set (db_attention db). ar_id a \<noteq> en_fresh env 0) \<and> (\<forall>i j. en_fresh env i = en_fresh env j \<longrightarrow> i = j)"

lemma keeps_to_read: "(\<And>db. snd (f db) = db) \<Longrightarrow> alike g db1 db2 \<Longrightarrow> fst (f db1) = fst (f db2) \<Longrightarrow> keeps_to g f db1 db2"
  by (simp add: keeps_to_def)

lemma active_hosts_view: "alike g db1 db2 \<Longrightarrow> active_hosts g db1 = active_hosts g db2"
proof -
  assume a: "alike g db1 db2"
  have "active_hosts g db = length (filter (\<lambda>h. hr_revokedAt h = None) (filter (\<lambda>h. hr_orgId h = g) (db_hosts db)))" for db
    by (simp add: active_hosts_def conj_commute)
  note count = this
  show ?thesis unfolding count [of db1] count [of db2] alike_parts(1) [OF a] ..
qed

lemma keeps_post_hosts:
  assumes "alike (og_id g) db1 db2" "brings_fresh C env db1" "brings_fresh C env db2"
  shows "keeps_to (og_id g) (post_hosts C B config env u g body) db1 db2"
proof -
  have ins: "insert_host (new_host C env u g name key) db = Some (db\<lparr>db_hosts := db_hosts db @ [new_host C env u g name key]\<rparr>)"
    if "brings_fresh C env db" for name key db
    using that by (auto simp: insert_host_def new_host_def brings_fresh_def list_ex_iff)
  have org: "hr_orgId (new_host C env u g name key) = og_id g" for name key by (simp add: new_host_def)
  show ?thesis
    using assms(1) active_hosts_view [OF assms(1)]
    by (auto simp: keeps_to_def post_hosts_def over_cap_def Let_def ins assms(2,3) org intro!: confined_audit add_row alike_audit alike_add
        split: option.split)
qed

lemma keeps_post_pair:
  assumes "wf_db db1" "wf_db db2" "alike (og_id g) db1 db2" "brings_fresh C env db1" "brings_fresh C env db2"
  shows "keeps_to (og_id g) (post_pair C B config env u g i) db1 db2"
proof -
  have "mintPairToken C B pc now host u g (en_random env) (en_fresh env 0) db =
      (Some \<lparr>mr_pairToken = ms_token (mintSecret C ''pt'' (en_random env)), mr_expiresAt = now + pc_pairTokenTtlMs pc,
         mr_qrUrl = pair_url B pc (ms_token (mintSecret C ''pt'' (en_random env))) host\<rparr>,
       db\<lparr>db_pairs := db_pairs db @ [\<lparr>pr_id = en_fresh env 0, pr_orgId = og_id g, pr_userId = us_id u, pr_hostId = hr_id host,
         pr_tokenHash = ms_hash (mintSecret C ''pt'' (en_random env)), pr_expiresAt = now + pc_pairTokenTtlMs pc, pr_redeemedAt = None,
         pr_redeemedDeviceId = None\<rparr>]\<rparr>)" if "brings_fresh C env db" for db pc now host
    using that by (auto simp: mintPairToken_def Let_def brings_fresh_def list_ex_iff)
  note mint = this
  from wf_distinct(1) [OF assms(1)] wf_distinct(1) [OF assms(2)] alike_parts(1) [OF assms(3)] show ?thesis
  proof (cases rule: own_cases [where i = i])
    case (own host)
    then show ?thesis using assms(3)
      by (auto simp: keeps_to_def post_pair_def mint assms(4,5) intro!: confined_audit add_row alike_audit alike_add)
  next
    case other
    then show ?thesis using assms(3) by (auto simp: keeps_to_def post_pair_def split: option.split)
  qed
qed

lemma revoke_host_keeps:
  assumes "wf_db db1" "wf_db db2" "alike g db1 db2" "host \<in> set (db_hosts db1)" "host \<in> set (db_hosts db2)" "hr_orgId host = g"
  shows "keeps_to g (revoke_host_row now (hr_id host)) db1 db2"
proof -
  let ?f = "\<lambda>h :: host_row. if hr_id h = hr_id host \<and> hr_revokedAt h = None then h\<lparr>hr_revokedAt := Some now\<rparr> else h"
  have only: "h \<in> set (db_hosts db1) \<Longrightarrow> hr_id h = hr_id host \<Longrightarrow> h = host" "h \<in> set (db_hosts db2) \<Longrightarrow> hr_id h = hr_id host \<Longrightarrow> h = host" for h
    using key_unique [OF wf_distinct(1) [OF assms(1)] _ assms(4)] key_unique [OF wf_distinct(1) [OF assms(2)] _ assms(5)] by blast+
  have keep: "h \<in> set (db_hosts db1) \<Longrightarrow> hr_orgId h \<noteq> g \<Longrightarrow> hr_id h \<noteq> hr_id host" "h \<in> set (db_hosts db2) \<Longrightarrow> hr_orgId h \<noteq> g \<Longrightarrow> hr_id h \<noteq> hr_id host" for h
    using only assms(6) by metis+
  have u1: "confined g db1 (db1\<lparr>db_hosts := map ?f (db_hosts db1)\<rparr>)"
      "view g (db1\<lparr>db_hosts := map ?f (db_hosts db1)\<rparr>) = (view g db1)\<lparr>vw_hosts := map ?f (vw_hosts (view g db1))\<rparr>"
    by (rule update_hosts; simp add: keep(1))+
  have u2: "confined g db2 (db2\<lparr>db_hosts := map ?f (db_hosts db2)\<rparr>)"
      "view g (db2\<lparr>db_hosts := map ?f (db_hosts db2)\<rparr>) = (view g db2)\<lparr>vw_hosts := map ?f (vw_hosts (view g db2))\<rparr>"
    by (rule update_hosts; simp add: keep(2))+
  have "list_ex (\<lambda>h. hr_id h = hr_id host \<and> hr_revokedAt h = None) (db_hosts db1) = (hr_revokedAt host = None)"
    "list_ex (\<lambda>h. hr_id h = hr_id host \<and> hr_revokedAt h = None) (db_hosts db2) = (hr_revokedAt host = None)"
    unfolding list_ex_iff using only assms(4,5) by metis+
  then show ?thesis using u1 u2 assms(3) by (simp add: keeps_to_def revoke_host_row_def alike_def)
qed

lemma keeps_delete_host:
  assumes "wf_db db1" "wf_db db2" "alike (og_id g) db1 db2"
  shows "keeps_to (og_id g) (delete_host env g i) db1 db2"
  using wf_distinct(1) [OF assms(1)] wf_distinct(1) [OF assms(2)] alike_parts(1) [OF assms(3)]
proof (cases rule: own_cases [where i = i])
  case (own host)
  then have m: "host \<in> set (db_hosts db1)" "host \<in> set (db_hosts db2)" using find_row [OF own(1)] find_row [OF own(2)] by simp_all
  from revoke_host_keeps [OF assms m own(3), of "en_now env"] own show ?thesis
    by (auto simp: keeps_to_def delete_host_def Let_def case_prod_beta intro!: confined_audit alike_audit)
next
  case other
  then show ?thesis using assms(3) by (auto simp: keeps_to_def delete_host_def split: option.split)
qed

lemma revoke_device_keeps:
  assumes "wf_db db1" "wf_db db2" "alike g db1 db2" "dev \<in> set (db_devices db1)" "dev \<in> set (db_devices db2)" "dr_orgId dev = g"
  shows "keeps_to g (revoke_device_row now (dr_id dev)) db1 db2"
proof -
  let ?f = "\<lambda>d :: device_row. if dr_id d = dr_id dev \<and> dr_revokedAt d = None then d\<lparr>dr_revokedAt := Some now\<rparr> else d"
  have only: "d \<in> set (db_devices db1) \<Longrightarrow> dr_id d = dr_id dev \<Longrightarrow> d = dev" "d \<in> set (db_devices db2) \<Longrightarrow> dr_id d = dr_id dev \<Longrightarrow> d = dev" for d
    using key_unique [OF wf_distinct(2) [OF assms(1)] _ assms(4)] key_unique [OF wf_distinct(2) [OF assms(2)] _ assms(5)] by blast+
  have keep: "d \<in> set (db_devices db1) \<Longrightarrow> dr_orgId d \<noteq> g \<Longrightarrow> dr_id d \<noteq> dr_id dev" "d \<in> set (db_devices db2) \<Longrightarrow> dr_orgId d \<noteq> g \<Longrightarrow> dr_id d \<noteq> dr_id dev" for d
    using only assms(6) by metis+
  have u1: "confined g db1 (db1\<lparr>db_devices := map ?f (db_devices db1)\<rparr>)"
      "view g (db1\<lparr>db_devices := map ?f (db_devices db1)\<rparr>) = (view g db1)\<lparr>vw_devices := map ?f (vw_devices (view g db1))\<rparr>"
    by (rule update_devices; simp add: keep(1))+
  have u2: "confined g db2 (db2\<lparr>db_devices := map ?f (db_devices db2)\<rparr>)"
      "view g (db2\<lparr>db_devices := map ?f (db_devices db2)\<rparr>) = (view g db2)\<lparr>vw_devices := map ?f (vw_devices (view g db2))\<rparr>"
    by (rule update_devices; simp add: keep(2))+
  have "list_ex (\<lambda>d. dr_id d = dr_id dev \<and> dr_revokedAt d = None) (db_devices db1) = (dr_revokedAt dev = None)"
    "list_ex (\<lambda>d. dr_id d = dr_id dev \<and> dr_revokedAt d = None) (db_devices db2) = (dr_revokedAt dev = None)"
    unfolding list_ex_iff using only assms(4,5) by metis+
  then show ?thesis using u1 u2 assms(3) by (simp add: keeps_to_def revoke_device_row_def alike_def)
qed

lemma keeps_delete_device:
  assumes "wf_db db1" "wf_db db2" "alike (og_id g) db1 db2"
  shows "keeps_to (og_id g) (delete_device env g i) db1 db2"
  using wf_distinct(2) [OF assms(1)] wf_distinct(2) [OF assms(2)] alike_parts(2) [OF assms(3)]
proof (cases rule: own_cases [where i = i])
  case (own dev)
  then have m: "dev \<in> set (db_devices db1)" "dev \<in> set (db_devices db2)" using find_row [OF own(1)] find_row [OF own(2)] by simp_all
  from revoke_device_keeps [OF assms m own(3), of "en_now env"] own show ?thesis
    by (auto simp: keeps_to_def delete_device_def Let_def case_prod_beta intro!: confined_audit alike_audit)
next
  case other
  then show ?thesis using assms(3) by (auto simp: keeps_to_def delete_device_def split: option.split)
qed

text \<open>A host of the organisation is found alike in both.\<close>

lemma find_host_alike:
  assumes "wf_db db1" "wf_db db2" "alike g db1 db2" "h \<in> set (db_hosts db1)" "hr_orgId h = g" "hr_id h = i"
  shows "find (\<lambda>h. hr_id h = i) (db_hosts db1) = Some h" "find (\<lambda>h. hr_id h = i) (db_hosts db2) = Some h"
proof -
  have m: "h \<in> set (db_hosts db2)" using in_filter [OF alike_parts(1) [OF assms(3)]] assms(4,5) by blast
  have "h \<in> set hs \<Longrightarrow> distinct (map hr_id hs) \<Longrightarrow> find (\<lambda>h. hr_id h = i) hs = Some h" for hs using assms(6) by (induction hs) auto
  then show "find (\<lambda>h. hr_id h = i) (db_hosts db1) = Some h" "find (\<lambda>h. hr_id h = i) (db_hosts db2) = Some h"
    using assms(4) m wf_distinct(1) [OF assms(1)] wf_distinct(1) [OF assms(2)] by blast+
qed

lemma sessions_alike:
  assumes "wf_db db1" "wf_db db2" "alike g db1 db2"
  shows "get_sessions g db1 = get_sessions g db2"
proof -
  have "find (\<lambda>h. hr_id h = sr_hostId s) (db_hosts db1) = find (\<lambda>h. hr_id h = sr_hostId s) (db_hosts db2)"
    if s: "s \<in> set (filter (\<lambda>s. sr_orgId s = g) (db_sessions db2))" for s
  proof -
    have "s \<in> set (db_sessions db1)" "sr_orgId s = g" using in_filter [OF alike_parts(3) [OF assms(3), symmetric]] s by auto
    then obtain h where "h \<in> set (db_hosts db1)" "hr_id h = sr_hostId s" "hr_orgId h = g" using session_host [OF assms(1)] by blast
    then show ?thesis using find_host_alike [OF assms, of h] by simp
  qed
  then show ?thesis unfolding get_sessions_def alike_parts(3) [OF assms(3)]
    by (intro arg_cong [where f = SessionsReply] arg_cong [where f = concat] map_cong refl) simp
qed

lemma keeps_human:
  assumes "wf_db db1" "wf_db db2" "alike (og_id g) db1 db2" "brings_fresh C env db1" "brings_fresh C env db2"
  shows "keeps_to (og_id g) (serve_human C B config env u g req) db1 db2"
proof (cases req)
  case (PostHosts body)
  then show ?thesis using keeps_post_hosts [OF assms(3-5)] by (simp add: serve_human_def keeps_to_def)
next
  case (PostPair i)
  then show ?thesis using keeps_post_pair [OF assms] by (simp add: serve_human_def keeps_to_def)
next
  case (DeleteHost i)
  then show ?thesis using keeps_delete_host [OF assms(1-3)] by (simp add: serve_human_def keeps_to_def)
next
  case (DeleteDevice i)
  then show ?thesis using keeps_delete_device [OF assms(1-3)] by (simp add: serve_human_def keeps_to_def)
next
  case GetSessions
  then show ?thesis using assms(3) sessions_alike [OF assms(1-3)] by (simp add: serve_human_def keeps_to_def)
next
  case (GetAudit query)
  then show ?thesis using assms(3) alike_parts(5) [OF assms(3)] by (cases query) (simp_all add: serve_human_def keeps_to_def get_audit_def listAuditEvents_def)
next
  case GetDevices
  then show ?thesis using assms(3) alike_parts(2) [OF assms(3)] by (simp add: serve_human_def keeps_to_def get_devices_def)
qed (use assms(3) in \<open>simp_all add: serve_human_def keeps_to_def\<close>)

end
