(* ===== verification/TicketTheorems.thy ===== *)
theory TicketTheorems
  imports Tickets
begin

text \<open>
  Tickets under interleaving: the calls of any number of replicas and cells reach one store in some order,
  among other calls on other keys; each call is one step. And what a ticket request needs to be granted.
\<close>

subsection \<open>Interleaved calls\<close>

text \<open>One attempt of \<open>issueTicket\<close>, one \<open>consumeTicket\<close>, or a call on a key of another kind.\<close>

datatype ticket_event =
    MintEv int relay_config int host_row string principal_kind string string
  | ConsumeEv int db int string
  | OtherEv int "cp_json redis_op"

datatype ticket_outcome = Issued "issue_result option" | Consumed "consumed_ticket option" | Passed

fun event_clock :: "ticket_event \<Rightarrow> int" where
  "event_clock (MintEv clock config now host orgId kind pid ticket) = clock"
| "event_clock (ConsumeEv clock db now ticket) = clock"
| "event_clock (OtherEv clock op) = clock"

fun ticket_step :: "crypto \<Rightarrow> base64 \<Rightarrow> ticket_event \<Rightarrow> cp_store \<Rightarrow> ticket_outcome \<times> cp_store" where
  "ticket_step C B (MintEv clock config now host orgId kind pid ticket) s =
     (let (r, s1) = issueTicket C config now host orgId kind pid [(clock, ticket)] s in (Issued r, s1))"
| "ticket_step C B (ConsumeEv clock db now ticket) s =
     (let (r, s1) = consumeTicket C B clock db now ticket s in (Consumed r, s1))"
| "ticket_step C B (OtherEv clock op) s = (Passed, snd (redis_exec clock op s))"

fun ticket_run :: "crypto \<Rightarrow> base64 \<Rightarrow> ticket_event list \<Rightarrow> cp_store \<Rightarrow> ticket_outcome list \<times> cp_store" where
  "ticket_run C B [] s = ([], s)"
| "ticket_run C B (e # es) s =
     (let (r, s1) = ticket_step C B e s; (rs, s2) = ticket_run C B es s1 in (r # rs, s2))"

definition elsewhere :: "ticket_event \<Rightarrow> bool" where
  "elsewhere e = (case e of OtherEv clock op \<Rightarrow> \<not> has_prefix ''relay:tkt:'' (op_key op) | _ \<Rightarrow> True)"

text \<open>The call an event makes, and what its reply means.\<close>

fun event_op :: "crypto \<Rightarrow> ticket_event \<Rightarrow> int \<times> cp_json redis_op" where
  "event_op C (MintEv clock config now host orgId kind pid ticket) =
     (clock, OpSet (ticketKey C ticket) (JsonText (TicketJson (ticket_for config now host orgId kind pid))) True
        (Some (rc_relayTicketTtlMs config)))"
| "event_op C (ConsumeEv clock db now ticket) = (clock, OpGetdel (ticketKey C ticket))"
| "event_op C (OtherEv clock op) = (clock, op)"

lemma event_op_clock: "fst (event_op C e) = event_clock e"
  by (cases e) auto

lemma step_is_call:
  "snd (ticket_step C B e s) = snd (redis_exec (fst (event_op C e)) (snd (event_op C e)) s)"
  by (cases e) (simp_all add: issueTicket_def TICKET_MINT_ATTEMPTS_def consumeTicket_def case_prod_beta Let_def)

lemma run_is_calls: "snd (ticket_run C B es s) = snd (exec_all redis_exec (map (event_op C) es) s)"
proof (induction es arbitrary: s)
  case (Cons e es)
  obtain now op where o: "event_op C e = (now, op)" by fastforce
  have "snd (ticket_step C B e s) = snd (redis_exec now op s)" using step_is_call [of C B e s] o by simp
  then show ?case using Cons o by (simp add: case_prod_beta Let_def)
qed simp

lemma run_length [simp]: "length (fst (ticket_run C B es s)) = length es"
  by (induction es arbitrary: s) (simp_all add: case_prod_beta Let_def)

lemma run_at:
  "j < length es \<Longrightarrow> fst (ticket_run C B es s) ! j = fst (ticket_step C B (es ! j) (snd (ticket_run C B (take j es) s)))"
proof (induction es arbitrary: j s)
  case (Cons e es)
  then show ?case by (cases j) (simp_all add: case_prod_beta Let_def)
qed simp

lemma exec_at:
  "j < length ops \<Longrightarrow> fst (exec_all exec ops s) ! j =
     fst (exec (fst (ops ! j)) (snd (ops ! j)) (snd (exec_all exec (take j ops) s)))"
proof (induction ops arbitrary: j s)
  case (Cons x ops)
  obtain now op where "x = (now, op)" by fastforce
  with Cons show ?case by (cases j) (simp_all add: case_prod_beta Let_def)
qed simp

lemma mint_outcome:
  assumes "i < length es" and "es ! i = MintEv clock config now host orgId kind pid ticket"
    and "fst (exec_all redis_exec (map (event_op C) es) s) ! i = RSet True"
  shows "\<exists>r. fst (ticket_run C B es s) ! i = Issued (Some r) \<and> ir_ticket r = ticket"
proof -
  let ?s = "snd (ticket_run C B (take i es) s)"
  have "fst (redis_exec clock (OpSet (ticketKey C ticket) (JsonText (TicketJson (ticket_for config now host orgId kind pid))) True
      (Some (rc_relayTicketTtlMs config))) ?s) = RSet True"
    using assms exec_at [of i "map (event_op C) es" redis_exec s] by (simp add: run_is_calls take_map)
  then show ?thesis using run_at [OF assms(1), of C B s] assms(2)
    by (simp add: issueTicket_def TICKET_MINT_ATTEMPTS_def case_prod_beta Let_def)
qed

lemma ticket_prefix: "has_prefix ''relay:tkt:'' (ticketKey C t)"
  by (simp add: has_prefix_def ticketKey_def)

lemma resolved_raw: "resolve_record B db now raw = Some c \<Longrightarrow> \<exists>v. raw = Some (JsonText (TicketJson v))"
  by (auto simp: resolve_record_def parse_ticket_def split: option.splits redis_value.splits cp_json.splits)

text \<open>C23: However the calls of all replicas and cells interleave: a ticket that resolves was issued before, for
  the host and organisation it resolves to, within its lifetime on either clock, to a host that is
  registered and not revoked when it resolves; and no other resolution took it since that issue.\<close>
theorem ticket_resolves_once:
  assumes "sorted (map event_clock es)" and "\<forall>e \<in> set es. elsewhere e" and "j < length es"
    and "es ! j = ConsumeEv clock db now ticket"
    and "fst (ticket_run C B es []) ! j = Consumed (Some c)"
  shows "\<exists>i t config tnow host orgId kind pid ticket' r. i < j \<and>
      es ! i = MintEv t config tnow host orgId kind pid ticket' \<and> ticketKey C ticket' = ticketKey C ticket \<and>
      fst (ticket_run C B es []) ! i = Issued (Some r) \<and>
      ck_hostId c = hr_id host \<and> ck_orgId c = orgId \<and> ck_expiresAt c = tnow + rc_relayTicketTtlMs config \<and>
      now < ck_expiresAt c \<and> clock < t + rc_relayTicketTtlMs config \<and>
      (\<exists>row. loadActiveHost db (hr_id host) = Some row \<and> ck_hostPublicKeyB64 c = hr_staticPublicKey row) \<and>
      (\<forall>m. i < m \<and> m < j \<longrightarrow> (\<forall>cl d n t. es ! m = ConsumeEv cl d n t \<longrightarrow> ticketKey C t \<noteq> ticketKey C ticket))"
proof -
  let ?k = "ticketKey C ticket" and ?pre = "take j es" and ?ops = "map (event_op C) (take j es)"
  let ?s = "snd (exec_all redis_exec ?ops [])"
  have "fst (consumeTicket C B clock db now ticket ?s) = Some c"
    using run_at [OF assms(3), of C B "[]"] assms(4,5) by (simp add: run_is_calls case_prod_beta Let_def)
  then have cons: "resolve_record B db now (fst (redis_getdel clock ?k ?s)) = Some c"
    by (simp add: consumeTicket_def case_prod_beta Let_def)
  then obtain v where raw: "fst (redis_getdel clock ?k ?s) = Some (JsonText (TicketJson v))" using resolved_raw by blast
  with cons have res: "resolve_record B db now (Some (JsonText (TicketJson v))) = Some c" by simp
  from res obtain row where row: "loadActiveHost db (tv_hostId v) = Some row" "hr_id row = ck_hostId c" "ck_orgId c = tv_orgId v"
      "ck_expiresAt c = tv_expiresAt v" "now < tv_expiresAt v" "ck_hostPublicKeyB64 c = hr_staticPublicKey row"
    by (auto simp: resolve_record_def parse_ticket_def split: option.splits if_splits)
  have id: "hr_id row = tv_hostId v" using row(1) by (auto simp: loadActiveHost_def find_Some_iff split: option.splits if_splits)
  have "redis_lookup clock ?k ?s = Some (JsonText (TicketJson v))"
    using raw memory.answer [of clock "OpGetdel ?k" ?s] by (simp add: redis_answer_def case_prod_beta)
  moreover have "sorted (map fst ?ops @ [clock])"
  proof -
    have "take (Suc j) es = take j es @ [es ! j]" using assms(3) by (rule take_Suc_conv_app_nth)
    then have "map event_clock (take (Suc j) es) = map event_clock (take j es) @ [clock]" using assms(4) by simp
    moreover have "sorted (map event_clock (take (Suc j) es))" using assms(1) by (metis append_take_drop_id map_append sorted_append)
    ultimately show ?thesis by (simp add: event_op_clock o_def)
  qed
  moreover have "\<forall>(n, op) \<in> set ?ops. \<forall>ms. op \<noteq> OpPexpire ?k ms"
  proof -
    have "op \<noteq> OpPexpire ?k ms" if "e \<in> set es" "event_op C e = (n, op)" for e n op ms
      using assms(2) that ticket_prefix [of C ticket] by (cases e) (auto simp: elsewhere_def)
    then show ?thesis by (auto dest: in_set_takeD) (metis in_set_takeD)
  qed
  ultimately obtain i nx px where i: "i < length ?ops" "snd (?ops ! i) = OpSet ?k (JsonText (TicketJson v)) nx px"
      "fst (exec_all redis_exec ?ops []) ! i = RSet True" "\<forall>ms. px = Some ms \<longrightarrow> clock < fst (?ops ! i) + ms"
      "\<forall>m. i < m \<and> m < length ?ops \<longrightarrow> \<not> takes ?k (snd (?ops ! m))"
    using memory.document_origin [of ?ops clock ?k "[]" "TicketJson v"] by (auto simp: redis_lookup_def)
  have ij: "i < j" "i < length es" using i(1) assms(3) by simp_all
  have at: "?ops ! i = event_op C (es ! i)" using i(1) by simp
  obtain t config tnow host orgId kind pid ticket' where ev: "es ! i = MintEv t config tnow host orgId kind pid ticket'"
    using i(2) at assms(2) nth_mem [OF ij(2)] ticket_prefix [of C ticket]
    by (cases "es ! i") (auto simp: elsewhere_def dest!: bspec)
  then have key: "ticketKey C ticket' = ?k" "v = ticket_for config tnow host orgId kind pid" "px = Some (rc_relayTicketTtlMs config)"
    using i(2) at by simp_all
  have "take i (take j es) = take i es" using ij(1) by simp
  then have "fst (exec_all redis_exec (map (event_op C) es) []) ! i = RSet True"
    using i(1,3) exec_at [of i ?ops redis_exec "[]"] exec_at [of i "map (event_op C) es" redis_exec "[]"] ij by (simp add: take_map)
  from mint_outcome [OF ij(2) ev this] obtain r where r: "fst (ticket_run C B es []) ! i = Issued (Some r)" by blast
  have taken: "\<forall>m. i < m \<and> m < j \<longrightarrow> (\<forall>cl d n t. es ! m = ConsumeEv cl d n t \<longrightarrow> ticketKey C t \<noteq> ?k)"
  proof (intro allI impI)
    fix m cl d n t
    assume m: "i < m \<and> m < j" and e: "es ! m = ConsumeEv cl d n t"
    have "?ops ! m = event_op C (es ! m)" "m < length ?ops" using m assms(3) by simp_all
    then show "ticketKey C t \<noteq> ?k" using i(5) m e by (auto simp: takes_def)
  qed
  have "ck_hostId c = hr_id host" "ck_orgId c = orgId" "ck_expiresAt c = tnow + rc_relayTicketTtlMs config" "now < ck_expiresAt c"
    "tv_hostId v = hr_id host" "clock < t + rc_relayTicketTtlMs config"
    using row id key i(4) at ev by (simp_all add: ticket_for_def)
  then show ?thesis using ij(1) ev key(1) r row(1,6) taken
    by (intro exI [of _ i] exI [of _ t] exI [of _ config] exI [of _ tnow] exI [of _ host] exI [of _ orgId] exI [of _ kind]
        exI [of _ pid] exI [of _ ticket'] exI [of _ r]) simp
qed

definition demo_config :: relay_config where
  "demo_config = \<lparr>rc_relayTicketTtlMs = 60000, rc_directorUrl = None, rc_ticketsPerMin = 30\<rparr>"

definition demo_host :: host_row where
  "demo_host = \<lparr>hr_id = ''hst_1'', hr_orgId = ''org_1'', hr_userId = ''usr_1'', hr_name = ''mac'',
     hr_staticPublicKey = encodeKey toy_base64 (replicate 32 7), hr_hostKeyHash = ''h'', hr_hostKeyPrefix = ''p'',
     hr_lastSeenAt = None, hr_revokedAt = None\<rparr>"

definition demo_db :: db where
  "demo_db = \<lparr>db_orgs = [\<lparr>og_id = ''org_1'', og_name = ''o''\<rparr>],
     db_users = [\<lparr>us_id = ''usr_1'', us_clerkUserId = ''clerk'', us_primaryOrgId = Some ''org_1''\<rparr>],
     db_hosts = [demo_host], db_devices = [], db_pairs = [], db_sessions = [], db_attention = [], db_audit = []\<rparr>"

definition demo_ticket_events :: "ticket_event list" where
  "demo_ticket_events =
     [MintEv 10 demo_config 10 demo_host ''org_1'' HumanPrincipal ''usr_1'' ''tkt_a'',
      OtherEv 11 (OpIncr ''rl:tickets:usr_1''),
      ConsumeEv 20 demo_db 20 ''tkt_a'', ConsumeEv 21 demo_db 21 ''tkt_a'']"

definition demo_consumed :: consumed_ticket where
  "demo_consumed = \<lparr>ck_hostId = ''hst_1'', ck_orgId = ''org_1'', ck_expiresAt = 60010, ck_hostStaticPublicKey = replicate 32 7,
     ck_hostPublicKeyB64 = encodeKey toy_base64 (replicate 32 7)\<rparr>"

lemma demo_ticket_outcomes:
  "fst (ticket_run demo_crypto toy_base64 demo_ticket_events []) ! 2 = Consumed (Some demo_consumed)"
  "fst (ticket_run demo_crypto toy_base64 demo_ticket_events []) ! 3 = Consumed None"
  by code_simp+

lemma ticket_resolves_once_witness:
  "\<exists>i t config tnow host orgId kind pid ticket' r. i < 2 \<and>
      demo_ticket_events ! i = MintEv t config tnow host orgId kind pid ticket' \<and>
      ticketKey demo_crypto ticket' = ticketKey demo_crypto ''tkt_a'' \<and>
      fst (ticket_run demo_crypto toy_base64 demo_ticket_events []) ! i = Issued (Some r) \<and>
      ck_hostId demo_consumed = hr_id host \<and> ck_orgId demo_consumed = orgId \<and>
      ck_expiresAt demo_consumed = tnow + rc_relayTicketTtlMs config \<and>
      20 < ck_expiresAt demo_consumed \<and> 20 < t + rc_relayTicketTtlMs config \<and>
      (\<exists>row. loadActiveHost demo_db (hr_id host) = Some row \<and> ck_hostPublicKeyB64 demo_consumed = hr_staticPublicKey row) \<and>
      (\<forall>m. i < m \<and> m < 2 \<longrightarrow> (\<forall>cl d n t. demo_ticket_events ! m = ConsumeEv cl d n t \<longrightarrow>
         ticketKey demo_crypto t \<noteq> ticketKey demo_crypto ''tkt_a''))"
proof -
  have s: "sorted (map event_clock demo_ticket_events)" "2 < length demo_ticket_events"
    "demo_ticket_events ! 2 = ConsumeEv 20 demo_db 20 ''tkt_a''" by (simp_all add: demo_ticket_events_def)
  have e: "\<forall>e \<in> set demo_ticket_events. elsewhere e"
    by (simp add: demo_ticket_events_def elsewhere_def has_prefix_def)
  show ?thesis by (rule ticket_resolves_once [OF s(1) e s(2,3) demo_ticket_outcomes(1)])
qed

subsection \<open>Who gets a ticket\<close>

lemma find_hit: "find P xs = Some x \<Longrightarrow> x \<in> set xs \<and> P x"
  by (auto simp: find_Some_iff)

text \<open>A device or a human stands behind a caller of the relay route.\<close>

definition stands_behind ::
  "crypto \<Rightarrow> (string \<Rightarrow> string option) \<Rightarrow> db \<Rightarrow> int \<Rightarrow> cp_store \<Rightarrow> int \<Rightarrow> string \<Rightarrow> relay_principal \<Rightarrow> bool" where
  "stands_behind C verifyHuman db clock s now token p \<longleftrightarrow>
     (case rp_kind p of
        DevicePrincipal \<Rightarrow>
          list_ex (\<lambda>d. rp_id p = dr_id d \<and> rp_orgId p = dr_orgId d \<and> dr_revokedAt d = None \<and>
            dr_deviceTokenHash d = sha256Hex C token \<and> has_prefix ''dt_'' token) (db_devices db)
      | HumanPrincipal \<Rightarrow>
          list_ex (\<lambda>u. rp_id p = us_id u \<and> us_primaryOrgId u = Some (rp_orgId p) \<and>
            (if has_prefix ''ct_'' token
             then (case redis_lookup clock (cliTokenKey (sha256Hex C token)) s of
                     Some (JsonText (CliTokenJson r)) \<Rightarrow> ct_userId r = us_id u \<and> now < ct_expiresAt r
                   | _ \<Rightarrow> False)
             else verifyHuman token = Some (us_clerkUserId u))) (db_users db))"

lemma load_human_Some:
  "load_human P db = Some (u, g) \<Longrightarrow> u \<in> set (db_users db) \<and> P u \<and> us_primaryOrgId u = Some (og_id g)"
  by (auto simp: load_human_def dest!: find_hit split: option.splits)

lemma caller_stands:
  assumes "requireDeviceOrHuman C verifyHuman db clock s now header = Some p"
  shows "\<exists>token. parseBearer header = Some token \<and> stands_behind C verifyHuman db clock s now token p"
proof (cases "authenticateDevice C db header")
  case (Some d)
  then have "\<exists>token. parseBearer header = Some token \<and> has_prefix ''dt_'' token \<and> d \<in> set (db_devices db) \<and>
      dr_deviceTokenHash d = sha256Hex C token \<and> dr_revokedAt d = None"
    by (auto simp: authenticateDevice_def dest!: find_hit split: option.splits if_splits)
  moreover have "p = \<lparr>rp_kind = DevicePrincipal, rp_id = dr_id d, rp_orgId = dr_orgId d\<rparr>"
    using assms Some by (simp add: requireDeviceOrHuman_def)
  ultimately show ?thesis by (auto simp: stands_behind_def list_ex_iff)
next
  case None
  with assms obtain u g where h: "authenticateHuman C verifyHuman db clock s now header = Some (u, g)"
      and p: "p = \<lparr>rp_kind = HumanPrincipal, rp_id = us_id u, rp_orgId = og_id g\<rparr>"
    by (auto simp: requireDeviceOrHuman_def split: option.splits)
  from h obtain token where t: "parseBearer header = Some token" by (auto simp: authenticateHuman_def split: option.splits)
  show ?thesis
  proof (cases "has_prefix ''ct_'' token")
    case True
    with h t have "authenticateCliToken C db clock s now token = Some (u, g)" by (simp add: authenticateHuman_def)
    then obtain raw r where r: "fst (redis_get clock (cliTokenKey (sha256Hex C token)) s) = Some raw" "parse_cli_token raw = Some r"
        "now < ct_expiresAt r" "load_human (\<lambda>u. us_id u = ct_userId r) db = Some (u, g)"
      by (auto simp: authenticateCliToken_def split: option.splits if_splits)
    then have "redis_lookup clock (cliTokenKey (sha256Hex C token)) s = Some (JsonText (CliTokenJson r))"
      using memory.answer [of clock "OpGet (cliTokenKey (sha256Hex C token))" s]
      by (auto simp: redis_answer_def case_prod_beta parse_cli_token_def split: redis_value.splits cp_json.splits)
    then show ?thesis using t True p r(3) load_human_Some [OF r(4)]
      by (auto simp: stands_behind_def list_ex_iff intro!: bexI [of _ u])
  next
    case False
    with h t obtain ext where "verifyHuman token = Some ext" "loadHumanByClerkId db ext = Some (u, g)"
      by (auto simp: authenticateHuman_def split: option.splits)
    then show ?thesis using t False p load_human_Some [of _ db u g]
      by (auto simp: stands_behind_def list_ex_iff loadHumanByClerkId_def intro!: bexI [of _ u])
  qed
qed

lemma issue_attempts_Some:
  "issue_attempts C config host v fresh s = (Some r, s') \<Longrightarrow>
     ir_ticket r \<in> snd ` set fresh \<and> ir_hostPublicKeyB64 r = hr_staticPublicKey host \<and> ir_expiresAt r = tv_expiresAt v \<and>
     (\<exists>clock. (clock, ir_ticket r) \<in> set fresh \<and>
        aget s' (ticketKey C (ir_ticket r)) = Some \<lparr>re_value = JsonText (TicketJson v), re_expiresAt = Some (clock + rc_relayTicketTtlMs config)\<rparr>)"
proof (induction C config host v fresh s rule: issue_attempts.induct)
  case (2 C config host v clock ticket rest s)
  obtain ok s1 where set: "redis_set clock (ticketKey C ticket) (JsonText (TicketJson v)) True (Some (rc_relayTicketTtlMs config)) s = (ok, s1)"
    by fastforce
  show ?case
  proof (cases ok)
    case True
    then have "aget s1 (ticketKey C ticket) = Some \<lparr>re_value = JsonText (TicketJson v), re_expiresAt = Some (clock + rc_relayTicketTtlMs config)\<rparr>"
      using set by (auto simp: redis_set_def case_prod_beta Let_def split: if_splits)
    then show ?thesis using 2(2) set True by auto
  next
    case False
    then show ?thesis using 2(1) [OF set [symmetric] refl] 2(2) set by auto
  qed
qed simp

text \<open>A ticket is only handed out to an unrevoked device or a signed-in human, for a registered, unrevoked
  host of the caller's own organisation; it is then in the store under that host and organisation, and the
  grant is in the audit log.\<close>
lemma tickets_stay_in_the_organisation:
  assumes "ticket_route C verifyHuman config rt fresh auditId header body db s = (TicketOk r, db', s')"
  shows "\<exists>token caller host clock. parseBearer header = Some token \<and>
      stands_behind C verifyHuman db (rt_auth rt) s (rt_now rt) token caller \<and>
      host \<in> set (db_hosts db) \<and> body = Some (hr_id host) \<and> hr_revokedAt host = None \<and> hr_orgId host = rp_orgId caller \<and>
      ir_hostPublicKeyB64 r = hr_staticPublicKey host \<and>
      aget s' (ticketKey C (ir_ticket r)) =
        Some \<lparr>re_value = JsonText (TicketJson (ticket_for config (rt_issue rt) host (rp_orgId caller) (rp_kind caller) (rp_id caller))),
              re_expiresAt = Some (clock + rc_relayTicketTtlMs config)\<rparr> \<and>
      (\<exists>row. db_audit db' = db_audit db @ [row] \<and> au_kind row = TicketMinted \<and> au_orgId row = hr_orgId host \<and> au_hostId row = Some (hr_id host))"
proof -
  from assms obtain caller where caller: "requireDeviceOrHuman C verifyHuman db (rt_auth rt) s (rt_now rt) header = Some caller"
    by (auto simp: ticket_route_def split: option.splits)
  obtain ok s1 where rate: "checkRateLimit (rt_rate1 rt) (rt_rate2 rt) ''tickets'' (rp_id caller) (rc_ticketsPerMin config) 60000 s = (ok, s1)"
    by fastforce
  from assms caller rate obtain hostId where b: "ok" "body = Some hostId"
    by (auto simp: ticket_route_def split: option.splits if_splits)
  with assms caller rate obtain host where h: "find (\<lambda>h. hr_id h = hostId) (db_hosts db) = Some host"
    by (auto simp: ticket_route_def split: option.splits if_splits)
  obtain res s2 where issue: "issueTicket C config (rt_issue rt) host (rp_orgId caller) (rp_kind caller) (rp_id caller) fresh s1 = (res, s2)"
    by fastforce
  from assms caller rate b h issue have ok: "hr_revokedAt host = None" "hr_orgId host = rp_orgId caller" "res = Some r" "s' = s2"
      "db' = appendAuditEvent auditId (rt_audit rt) (rp_orgId caller) TicketMinted (Some (hr_id host))
        (if rp_kind caller = DevicePrincipal then Some (rp_id caller) else None)
        [(''principal'', if rp_kind caller = DevicePrincipal then ''device'' else ''human'')] db"
    by (auto simp: ticket_route_def split: if_splits option.splits)
  from caller_stands [OF caller] obtain token where "parseBearer header = Some token"
    "stands_behind C verifyHuman db (rt_auth rt) s (rt_now rt) token caller" by blast
  moreover have "issue_attempts C config host (ticket_for config (rt_issue rt) host (rp_orgId caller) (rp_kind caller) (rp_id caller))
      (take TICKET_MINT_ATTEMPTS fresh) s1 = (Some r, s')"
    using issue ok(3,4) by (simp add: issueTicket_def)
  moreover have "host \<in> set (db_hosts db)" "hr_id host = hostId" using find_hit [OF h] by simp_all
  ultimately show ?thesis using issue_attempts_Some ok(1,2,5) b(2)
    by (fastforce simp: appendAuditEvent_def)
qed

definition demo_times :: route_times where
  "demo_times = \<lparr>rt_auth = 5, rt_now = 5, rt_rate1 = 6, rt_rate2 = 7, rt_issue = 8, rt_audit = 9\<rparr>"

definition demo_verify :: "string \<Rightarrow> string option" where
  "demo_verify t = (if t = ''jwt'' then Some ''clerk'' else None)"

definition demo_ticket_answer where
  "demo_ticket_answer = ticket_route demo_crypto demo_verify demo_config demo_times [(8, ''tkt_b'')] ''aud_1'' (Some ''Bearer jwt'')
     (Some ''hst_1'') demo_db []"

definition demo_issued :: issue_result where
  "demo_issued = \<lparr>ir_ticket = ''tkt_b'', ir_expiresAt = 60008, ir_cellUrl = None, ir_hostPublicKeyB64 = hr_staticPublicKey demo_host\<rparr>"

lemma demo_ticket_granted: "fst demo_ticket_answer = TicketOk demo_issued"
  by code_simp

lemma tickets_stay_in_the_organisation_witness:
  "\<exists>token caller host clock. parseBearer (Some ''Bearer jwt'') = Some token \<and>
      stands_behind demo_crypto demo_verify demo_db 5 [] 5 token caller \<and>
      host \<in> set (db_hosts demo_db) \<and> Some ''hst_1'' = Some (hr_id host) \<and> hr_revokedAt host = None \<and> hr_orgId host = rp_orgId caller \<and>
      ir_hostPublicKeyB64 demo_issued = hr_staticPublicKey host \<and>
      aget (snd (snd demo_ticket_answer)) (ticketKey demo_crypto (ir_ticket demo_issued)) =
        Some \<lparr>re_value = JsonText (TicketJson (ticket_for demo_config 8 host (rp_orgId caller) (rp_kind caller) (rp_id caller))),
              re_expiresAt = Some (clock + rc_relayTicketTtlMs demo_config)\<rparr> \<and>
      (\<exists>row. db_audit (fst (snd demo_ticket_answer)) = db_audit demo_db @ [row] \<and> au_kind row = TicketMinted \<and>
         au_orgId row = hr_orgId host \<and> au_hostId row = Some (hr_id host))"
proof -
  have "ticket_route demo_crypto demo_verify demo_config demo_times [(8, ''tkt_b'')] ''aud_1'' (Some ''Bearer jwt'') (Some ''hst_1'') demo_db [] =
      (TicketOk demo_issued, fst (snd demo_ticket_answer), snd (snd demo_ticket_answer))"
    using demo_ticket_granted unfolding demo_ticket_answer_def by (metis prod.collapse)
  from tickets_stay_in_the_organisation [OF this] show ?thesis unfolding demo_times_def route_times.select_convs .
qed

end
