(* ===== verification/PairingTheorems.thy ===== *)
theory PairingTheorems
  imports Pairing
begin

text \<open>
  Pairing under interleaving: mints, redemptions of any number of replicas with their statements mixed, and
  revocations; one pair token makes one device, and what the host's keyring gets is the key of the phone
  that redeemed it.
\<close>

subsection \<open>Interleaved calls\<close>

datatype pair_event =
    MintPairEv int host_row user_row org_row string string
  | StartRedeemEv redeem_options int
  | RedeemStepEv nat redeem_fresh
  | RevokeDeviceEv string int

text \<open>The calls under way, and which devices were made for which token by which call.\<close>

record pairing =
  pg_db :: db
  pg_calls :: "(redeem_options \<times> int \<times> redeem_phase) list"
  pg_made :: "(pair_row \<times> redeem_options \<times> device_row) list"

fun made_by :: "redeem_phase \<Rightarrow> redeem_phase \<Rightarrow> redeem_options \<Rightarrow> (pair_row \<times> redeem_options \<times> device_row) list" where
  "made_by (AtInsert token) (AtStamp token' device plain) opts = [(token, opts, device)]"
| "made_by _ _ opts = []"

fun pair_step :: "crypto \<Rightarrow> base64 \<Rightarrow> pair_config \<Rightarrow> pair_event \<Rightarrow> pairing \<Rightarrow> pairing" where
  "pair_step C B config (MintPairEv now host user org random newId) s =
     s\<lparr>pg_db := snd (mintPairToken C B config now host user org random newId (pg_db s))\<rparr>"
| "pair_step C B config (StartRedeemEv opts now) s = s\<lparr>pg_calls := pg_calls s @ [(opts, now, AtClaim)]\<rparr>"
| "pair_step C B config (RedeemStepEv i fresh) s =
     (if i < length (pg_calls s)
      then
        let (opts, now, phase) = pg_calls s ! i; (phase', db') = redeem_step C config now opts fresh phase (pg_db s)
        in s\<lparr>pg_db := db', pg_calls := (pg_calls s)[i := (opts, now, phase')], pg_made := pg_made s @ made_by phase phase' opts\<rparr>
      else s)"
| "pair_step C B config (RevokeDeviceEv deviceId now) s =
     s\<lparr>pg_db := (pg_db s)\<lparr>db_devices := map (\<lambda>d. if dr_id d = deviceId then d\<lparr>dr_revokedAt := Some now\<rparr> else d) (db_devices (pg_db s))\<rparr>\<rparr>"

definition pair_run where
  "pair_run C B config evs db = fold (pair_step C B config) evs \<lparr>pg_db = db, pg_calls = [], pg_made = []\<rparr>"

subsection \<open>The invariant\<close>

text \<open>The token a call holds: claimed, and not yet turned into a device.\<close>

fun pending_token :: "redeem_phase \<Rightarrow> pair_row option" where
  "pending_token (AtInsert token) = Some token"
| "pending_token _ = None"

definition pending_of :: "(redeem_options \<times> int \<times> redeem_phase) list \<Rightarrow> string list" where
  "pending_of calls =
     concat (map (\<lambda>(opts, now, phase). case pending_token phase of None \<Rightarrow> [] | Some token \<Rightarrow> [pr_id token]) calls)"

definition made_ids :: "pairing \<Rightarrow> string list" where
  "made_ids s = map (\<lambda>(token, opts, device). pr_id token) (pg_made s)"

text \<open>A claimed row is still in the table, marked.\<close>

definition row_of :: "pairing \<Rightarrow> pair_row \<Rightarrow> bool" where
  "row_of s token \<longleftrightarrow> (\<exists>r \<in> set (db_pairs (pg_db s)). pr_id r = pr_id token \<and> pr_tokenHash r = pr_tokenHash token \<and>
     pr_redeemedAt r \<noteq> None)"

definition good_token :: "crypto \<Rightarrow> int \<Rightarrow> redeem_options \<Rightarrow> pair_row \<Rightarrow> bool" where
  "good_token C now opts token \<longleftrightarrow> pr_tokenHash token = sha256Hex C (ro_pairToken opts) \<and>
     pr_redeemedAt token = Some now \<and> now < pr_expiresAt token"

definition good_device :: "pair_row \<Rightarrow> redeem_options \<Rightarrow> device_row \<Rightarrow> bool" where
  "good_device token opts device \<longleftrightarrow>
     dr_orgId device = pr_orgId token \<and> dr_userId device = pr_userId token \<and>
     dr_devicePublicKey device = ro_devicePublicKeyB64 opts"

fun phase_ok :: "crypto \<Rightarrow> pairing \<Rightarrow> int \<Rightarrow> redeem_options \<Rightarrow> redeem_phase \<Rightarrow> bool" where
  "phase_ok C s now opts (AtInsert token) \<longleftrightarrow> row_of s token \<and> good_token C now opts token"
| "phase_ok C s now opts (AtStamp token device plain) \<longleftrightarrow> (token, opts, device) \<in> set (pg_made s)"
| "phase_ok C s now opts _ \<longleftrightarrow> True"

text \<open>A device is one that was made, up to its revocation.\<close>

definition same_device :: "device_row \<Rightarrow> device_row \<Rightarrow> bool" where
  "same_device d e \<longleftrightarrow> dr_id d = dr_id e \<and> dr_name d = dr_name e \<and> dr_orgId d = dr_orgId e \<and> dr_userId d = dr_userId e \<and>
     dr_devicePublicKey d = dr_devicePublicKey e"

definition pairing_ok :: "crypto \<Rightarrow> pairing \<Rightarrow> bool" where
  "pairing_ok C s \<longleftrightarrow>
     distinct (map pr_id (db_pairs (pg_db s))) \<and> distinct (map pr_tokenHash (db_pairs (pg_db s))) \<and>
     distinct (map dr_id (db_devices (pg_db s))) \<and>
     distinct (pending_of (pg_calls s) @ made_ids s) \<and>
     (\<forall>(opts, now, phase) \<in> set (pg_calls s). phase_ok C s now opts phase) \<and>
     (\<forall>(token, opts, device) \<in> set (pg_made s). row_of s token \<and> (\<exists>now. good_token C now opts token) \<and> good_device token opts device) \<and>
     list_all2 same_device (db_devices (pg_db s)) (map (\<lambda>(token, opts, device). device) (pg_made s)) \<and>
     (\<forall>r \<in> set (db_pairs (pg_db s)). \<forall>i. pr_redeemedDeviceId r = Some i \<longrightarrow>
        (\<exists>(token, opts, device) \<in> set (pg_made s). pr_id token = pr_id r \<and> dr_id device = i))"

lemma pending_of_append [simp]: "pending_of (xs @ ys) = pending_of xs @ pending_of ys"
  by (simp add: pending_of_def)

lemma pending_of_Cons [simp]:
  "pending_of ((opts, now, phase) # ys) = (case pending_token phase of None \<Rightarrow> [] | Some token \<Rightarrow> [pr_id token]) @ pending_of ys"
  by (simp add: pending_of_def)

lemma pending_of_Nil [simp]: "pending_of [] = []"
  by (simp add: pending_of_def)

lemma in_pending_of: "x \<in> set (pending_of calls) \<longleftrightarrow> (\<exists>opts now token. (opts, now, AtInsert token) \<in> set calls \<and> x = pr_id token)"
proof (induction calls)
  case (Cons c calls)
  obtain opts now phase where "c = (opts, now, phase)" by (cases c)
  then show ?case using Cons by (cases phase) auto
qed simp

text \<open>Every id that is pending or made is of a row that is marked.\<close>

lemma used_rows:
  assumes "pairing_ok C s" and "x \<in> set (pending_of (pg_calls s) @ made_ids s)"
  shows "\<exists>r \<in> set (db_pairs (pg_db s)). pr_id r = x \<and> pr_redeemedAt r \<noteq> None"
proof -
  have calls: "\<forall>(opts, now, phase) \<in> set (pg_calls s). phase_ok C s now opts phase"
    and made: "\<forall>(token, opts, device) \<in> set (pg_made s). row_of s token"
    using assms(1) unfolding pairing_ok_def by blast+
  have "\<exists>token. pr_id token = x \<and> row_of s token"
  proof (cases "x \<in> set (made_ids s)")
    case True
    then show ?thesis using made by (auto simp: made_ids_def)
  next
    case False
    then obtain opts now token where "(opts, now, AtInsert token) \<in> set (pg_calls s)" "x = pr_id token"
      using assms(2) in_pending_of by auto
    then show ?thesis using calls by force
  qed
  then show ?thesis by (auto simp: row_of_def)
qed

text \<open>The parts of the invariant that a step on the calls leaves alone.\<close>

lemma replace_call:
  assumes "pg_calls s = xs @ (opts, now, phase) # ys" and "pairing_ok C s" and "pending_token phase' = pending_token phase"
    and "phase_ok C s now opts phase'"
  shows "pairing_ok C (s\<lparr>pg_calls := xs @ (opts, now, phase') # ys\<rparr>)"
proof -
  have "phase_ok C (s\<lparr>pg_calls := cs\<rparr>) n opts p = phase_ok C s n opts p" for cs n opts p
    by (cases p) (simp_all add: row_of_def)
  then show ?thesis using assms by (auto simp: pairing_ok_def made_ids_def row_of_def)
qed

lemma claim_pair_facts:
  assumes "claim_pair C now token db = (Some t, db')" and "distinct (map pr_tokenHash (db_pairs db))"
    and "distinct (map pr_id (db_pairs db))"
  obtains r where "r \<in> set (db_pairs db)" "redeemable C now token r" "t = r\<lparr>pr_redeemedAt := Some now\<rparr>"
    "db' = db\<lparr>db_pairs := map (\<lambda>x. if pr_id x = pr_id r then x\<lparr>pr_redeemedAt := Some now\<rparr> else x) (db_pairs db)\<rparr>"
proof -
  from assms(1) obtain r where r: "find (redeemable C now token) (db_pairs db) = Some r" "t = r\<lparr>pr_redeemedAt := Some now\<rparr>"
    and db: "db' = db\<lparr>db_pairs := map (\<lambda>r. if redeemable C now token r then r\<lparr>pr_redeemedAt := Some now\<rparr> else r) (db_pairs db)\<rparr>"
    by (auto simp: claim_pair_def)
  from r(1) have m: "r \<in> set (db_pairs db)" "redeemable C now token r" by (auto simp: find_Some_iff)
  have "redeemable C now token x \<longleftrightarrow> pr_id x = pr_id r" if "x \<in> set (db_pairs db)" for x
  proof
    assume "redeemable C now token x"
    then have "pr_tokenHash x = pr_tokenHash r" using m(2) by (simp add: redeemable_def)
    then show "pr_id x = pr_id r" using assms(2) that m(1) by (metis distinct_map inj_onD)
  next
    assume "pr_id x = pr_id r"
    then show "redeemable C now token x" using assms(3) that m by (metis distinct_map inj_onD)
  qed
  then have "db' = db\<lparr>db_pairs := map (\<lambda>x. if pr_id x = pr_id r then x\<lparr>pr_redeemedAt := Some now\<rparr> else x) (db_pairs db)\<rparr>"
    using db by (auto intro!: map_cong)
  then show thesis using that m r(2) by blast
qed

lemma claim_none: "claim_pair C now token db = (None, db') \<Longrightarrow> db' = db"
  by (auto simp: claim_pair_def find_None_iff map_idI)

lemma same_tables:
  assumes "pairing_ok C s" and "db_pairs db = db_pairs (pg_db s)" and "db_devices db = db_devices (pg_db s)"
  shows "pairing_ok C (s\<lparr>pg_db := db\<rparr>)"
proof -
  have "phase_ok C (s\<lparr>pg_db := db\<rparr>) n opts p = phase_ok C s n opts p" for n opts p
    using assms(2) by (cases p) (simp_all add: row_of_def)
  then show ?thesis using assms by (simp add: pairing_ok_def made_ids_def row_of_def)
qed

lemma phase_ok_mono:
  assumes "phase_ok C s n opts p" and "\<And>token. row_of s token \<Longrightarrow> row_of s' token" and "set (pg_made s) \<subseteq> set (pg_made s')"
  shows "phase_ok C s' n opts p"
  using assms by (cases p) auto

lemma pairing_parts:
  assumes "pairing_ok C s"
  shows "distinct (map pr_id (db_pairs (pg_db s)))" "distinct (map pr_tokenHash (db_pairs (pg_db s)))"
    "distinct (map dr_id (db_devices (pg_db s)))" "distinct (pending_of (pg_calls s) @ made_ids s)"
    "\<And>opts now phase. (opts, now, phase) \<in> set (pg_calls s) \<Longrightarrow> phase_ok C s now opts phase"
    "\<And>token opts device. (token, opts, device) \<in> set (pg_made s) \<Longrightarrow>
       row_of s token \<and> (\<exists>now. good_token C now opts token) \<and> good_device token opts device"
    "list_all2 same_device (db_devices (pg_db s)) (map (\<lambda>(token, opts, device). device) (pg_made s))"
    "\<And>r i. r \<in> set (db_pairs (pg_db s)) \<Longrightarrow> pr_redeemedDeviceId r = Some i \<Longrightarrow>
       \<exists>(token, opts, device) \<in> set (pg_made s). pr_id token = pr_id r \<and> dr_id device = i"
  using assms unfolding pairing_ok_def by blast+

lemma pairing_okI:
  assumes "distinct (map pr_id (db_pairs (pg_db s)))" "distinct (map pr_tokenHash (db_pairs (pg_db s)))"
    "distinct (map dr_id (db_devices (pg_db s)))" "distinct (pending_of (pg_calls s) @ made_ids s)"
    "\<And>opts now phase. (opts, now, phase) \<in> set (pg_calls s) \<Longrightarrow> phase_ok C s now opts phase"
    "\<And>token opts device. (token, opts, device) \<in> set (pg_made s) \<Longrightarrow>
       row_of s token \<and> (\<exists>now. good_token C now opts token) \<and> good_device token opts device"
    "list_all2 same_device (db_devices (pg_db s)) (map (\<lambda>(token, opts, device). device) (pg_made s))"
    "\<And>r i. r \<in> set (db_pairs (pg_db s)) \<Longrightarrow> pr_redeemedDeviceId r = Some i \<Longrightarrow>
       \<exists>(token, opts, device) \<in> set (pg_made s). pr_id token = pr_id r \<and> dr_id device = i"
  shows "pairing_ok C s"
  unfolding pairing_ok_def using assms by blast

lemma mint_ok:
  assumes ok: "pairing_ok C s" and "mintPairToken C B config now host user org random newId (pg_db s) = (res, db)"
  shows "pairing_ok C (s\<lparr>pg_db := db\<rparr>)"
proof (cases res)
  case None
  then have "db = pg_db s" using assms(2) by (auto simp: mintPairToken_def Let_def split: if_splits)
  then show ?thesis using ok same_tables by simp
next
  case (Some r)
  then obtain row where row: "db = (pg_db s)\<lparr>db_pairs := db_pairs (pg_db s) @ [row]\<rparr>" "pr_id row \<notin> pr_id ` set (db_pairs (pg_db s))"
      "pr_tokenHash row \<notin> pr_tokenHash ` set (db_pairs (pg_db s))" "pr_redeemedDeviceId row = None"
    using assms(2) by (fastforce simp: mintPairToken_def Let_def list_ex_iff split: if_splits)
  let ?s = "s\<lparr>pg_db := db\<rparr>"
  have mono: "row_of s t \<Longrightarrow> row_of ?s t" for t using row(1) by (auto simp: row_of_def)
  show ?thesis
  proof (rule pairing_okI)
    show "phase_ok C ?s n opts p" if "(opts, n, p) \<in> set (pg_calls ?s)" for opts n p
    proof -
      have "phase_ok C s n opts p" using that pairing_parts(5) [OF ok] by simp
      then show ?thesis by (rule phase_ok_mono) (use mono in auto)
    qed
    show "row_of ?s token \<and> (\<exists>now. good_token C now opts token) \<and> good_device token opts device"
      if "(token, opts, device) \<in> set (pg_made ?s)" for token opts device
      using that pairing_parts(6) [OF ok] mono by simp
    show "\<exists>(token, opts, device) \<in> set (pg_made ?s). pr_id token = pr_id q \<and> dr_id device = i"
      if "q \<in> set (db_pairs (pg_db ?s))" "pr_redeemedDeviceId q = Some i" for q i
      using that pairing_parts(8) [OF ok, of q i] row(1,4) by auto
  qed (use row pairing_parts [OF ok] in \<open>simp_all add: made_ids_def\<close>)
qed

lemma claim_ok:
  assumes ok: "pairing_ok C s" and cs: "pg_calls s = xs @ (opts, now, AtClaim) # ys"
    and cl: "claim_pair C now (ro_pairToken opts) (pg_db s) = (Some t, db)"
  shows "pairing_ok C (s\<lparr>pg_db := db, pg_calls := xs @ (opts, now, AtInsert t) # ys\<rparr>)"
proof -
  obtain r where r: "r \<in> set (db_pairs (pg_db s))" "redeemable C now (ro_pairToken opts) r" "t = r\<lparr>pr_redeemedAt := Some now\<rparr>"
    "db = (pg_db s)\<lparr>db_pairs := map (\<lambda>x. if pr_id x = pr_id r then x\<lparr>pr_redeemedAt := Some now\<rparr> else x) (db_pairs (pg_db s))\<rparr>"
    using claim_pair_facts [OF cl pairing_parts(2,1) [OF ok]] .
  let ?s = "s\<lparr>pg_db := db, pg_calls := xs @ (opts, now, AtInsert t) # ys\<rparr>"
  have mono: "row_of s q \<Longrightarrow> row_of ?s q" for q
  proof -
    assume "row_of s q"
    then obtain x where x: "x \<in> set (db_pairs (pg_db s))" "pr_id x = pr_id q" "pr_tokenHash x = pr_tokenHash q" "pr_redeemedAt x \<noteq> None"
      by (auto simp: row_of_def)
    let ?x = "if pr_id x = pr_id r then x\<lparr>pr_redeemedAt := Some now\<rparr> else x"
    have "?x \<in> set (db_pairs (pg_db ?s))" using x(1) r(4) by auto
    then show ?thesis using x(2,3,4) unfolding row_of_def by (intro bexI [of _ ?x]) auto
  qed
  have new: "pr_id r \<notin> set (pending_of (pg_calls s) @ made_ids s)"
  proof
    assume "pr_id r \<in> set (pending_of (pg_calls s) @ made_ids s)"
    then obtain q where "q \<in> set (db_pairs (pg_db s))" "pr_id q = pr_id r" "pr_redeemedAt q \<noteq> None" using used_rows [OF ok] by blast
    moreover from this have "q = r" using pairing_parts(1) [OF ok] r(1) by (metis distinct_map inj_onD)
    ultimately show False using r(2) by (simp add: redeemable_def)
  qed
  have "t \<in> set (db_pairs (pg_db ?s))" using r(1,3,4) by (force simp: image_iff)
  then have row: "row_of ?s t" using r(3) unfolding row_of_def by (intro bexI [of _ t]) auto
  have good: "good_token C now opts t" using r(2,3) by (simp add: good_token_def redeemable_def)
  show ?thesis
  proof (rule pairing_okI)
    show "phase_ok C ?s n o' p" if "(o', n, p) \<in> set (pg_calls ?s)" for o' n p
    proof (cases "(o', n, p) = (opts, now, AtInsert t)")
      case True
      then show ?thesis using row good by simp
    next
      case False
      then have "(o', n, p) \<in> set (pg_calls s)" using that cs by auto
      from pairing_parts(5) [OF ok this] show ?thesis by (rule phase_ok_mono) (use mono in auto)
    qed
    show "row_of ?s token \<and> (\<exists>now. good_token C now o' token) \<and> good_device token o' device"
      if "(token, o', device) \<in> set (pg_made ?s)" for token o' device
      using that pairing_parts(6) [OF ok] mono by simp
    show "distinct (pending_of (pg_calls ?s) @ made_ids ?s)"
      using pairing_parts(4) [OF ok] new cs r(3) by (auto simp: made_ids_def)
    show "\<exists>(token, opts, device) \<in> set (pg_made ?s). pr_id token = pr_id q \<and> dr_id device = i"
      if "q \<in> set (db_pairs (pg_db ?s))" "pr_redeemedDeviceId q = Some i" for q i
    proof -
      let ?g = "\<lambda>x :: pair_row. if pr_id x = pr_id r then x\<lparr>pr_redeemedAt := Some now\<rparr> else x"
      have "db_pairs (pg_db ?s) = map ?g (db_pairs (pg_db s))" using r(4) by simp
      then have "q \<in> ?g ` set (db_pairs (pg_db s))" using that(1) by (simp only: list.set_map)
      then obtain x where x: "x \<in> set (db_pairs (pg_db s))" "q = ?g x" by (rule imageE)
      then have "pr_id x = pr_id q" "pr_redeemedDeviceId x = Some i" using that(2) by (auto split: if_splits)
      with x(1) show ?thesis using pairing_parts(8) [OF ok, of x i] by auto
    qed
    have same: "map pr_id (db_pairs db) = map pr_id (db_pairs (pg_db s))" "map pr_tokenHash (db_pairs db) = map pr_tokenHash (db_pairs (pg_db s))"
      "db_devices db = db_devices (pg_db s)" using r(4) by (auto simp: o_def)
    show "distinct (map pr_id (db_pairs (pg_db ?s)))" "distinct (map pr_tokenHash (db_pairs (pg_db ?s)))"
      using pairing_parts(1,2) [OF ok] same by simp_all
    show "distinct (map dr_id (db_devices (pg_db ?s)))"
      "list_all2 same_device (db_devices (pg_db ?s)) (map (\<lambda>(token, opts, device). device) (pg_made ?s))"
      using pairing_parts(3,7) [OF ok] same by simp_all
  qed
qed

lemma insert_ok:
  assumes ok: "pairing_ok C s" and cs: "pg_calls s = xs @ (opts, now, AtInsert t) # ys"
    and new: "dr_id d \<notin> dr_id ` set (db_devices (pg_db s))" and good: "good_device t opts d"
  shows "pairing_ok C (s\<lparr>pg_db := (pg_db s)\<lparr>db_devices := db_devices (pg_db s) @ [d]\<rparr>,
      pg_calls := xs @ (opts, now, AtStamp t d plain) # ys, pg_made := pg_made s @ [(t, opts, d)]\<rparr>)"
    (is "pairing_ok C ?s")
proof (rule pairing_okI)
  have row: "row_of ?s q \<longleftrightarrow> row_of s q" for q by (simp add: row_of_def)
  have t: "row_of s t" "good_token C now opts t" using pairing_parts(5) [OF ok, of opts now "AtInsert t"] cs by simp_all
  show "phase_ok C ?s n o' p" if "(o', n, p) \<in> set (pg_calls ?s)" for o' n p
  proof (cases "(o', n, p) = (opts, now, AtStamp t d plain)")
    case False
    then have "(o', n, p) \<in> set (pg_calls s)" using that cs by auto
    from pairing_parts(5) [OF ok this] show ?thesis by (rule phase_ok_mono) (use row in auto)
  qed simp
  show "row_of ?s token \<and> (\<exists>now. good_token C now o' token) \<and> good_device token o' device"
    if "(token, o', device) \<in> set (pg_made ?s)" for token o' device
    using that pairing_parts(6) [OF ok] row t good by auto
  show "distinct (pending_of (pg_calls ?s) @ made_ids ?s)"
    using pairing_parts(4) [OF ok] cs by (auto simp: made_ids_def)
  show "distinct (map dr_id (db_devices (pg_db ?s)))" using pairing_parts(3) [OF ok] new by simp
  show "list_all2 same_device (db_devices (pg_db ?s)) (map (\<lambda>(token, opts, device). device) (pg_made ?s))"
    using pairing_parts(7) [OF ok] by (simp add: list_all2_appendI same_device_def)
  show "\<exists>(token, opts, device) \<in> set (pg_made ?s). pr_id token = pr_id q \<and> dr_id device = i"
    if "q \<in> set (db_pairs (pg_db ?s))" "pr_redeemedDeviceId q = Some i" for q i
    using that pairing_parts(8) [OF ok, of q i] by auto
qed (use pairing_parts(1,2) [OF ok] in simp_all)

lemma stamp_ok:
  assumes ok: "pairing_ok C s" and cs: "pg_calls s = xs @ (opts, now, AtStamp t d plain) # ys"
  shows "pairing_ok C (s\<lparr>pg_db := (pg_db s)\<lparr>db_pairs :=
        map (\<lambda>r. if pr_id r = pr_id t then r\<lparr>pr_redeemedDeviceId := Some (dr_id d)\<rparr> else r) (db_pairs (pg_db s))\<rparr>,
      pg_calls := xs @ (opts, now, AtAudit t d plain) # ys\<rparr>)"
    (is "pairing_ok C ?s")
proof (rule pairing_okI)
  let ?f = "\<lambda>r :: pair_row. if pr_id r = pr_id t then r\<lparr>pr_redeemedDeviceId := Some (dr_id d)\<rparr> else r"
  have made: "(t, opts, d) \<in> set (pg_made s)" using pairing_parts(5) [OF ok, of opts now "AtStamp t d plain"] cs by simp
  have row: "row_of ?s q" if q: "row_of s q" for q
  proof -
    obtain x where x: "x \<in> set (db_pairs (pg_db s))" "pr_id x = pr_id q" "pr_tokenHash x = pr_tokenHash q" "pr_redeemedAt x \<noteq> None"
      using q by (auto simp: row_of_def)
    have "?f x \<in> set (db_pairs (pg_db ?s))" using x(1) by auto
    then show ?thesis using x(2,3,4) unfolding row_of_def by (intro bexI [of _ "?f x"]) auto
  qed
  show "phase_ok C ?s n o' p" if "(o', n, p) \<in> set (pg_calls ?s)" for o' n p
  proof (cases "(o', n, p) = (opts, now, AtAudit t d plain)")
    case False
    then have "(o', n, p) \<in> set (pg_calls s)" using that cs by auto
    from pairing_parts(5) [OF ok this] show ?thesis by (rule phase_ok_mono) (use row in auto)
  qed simp
  show "row_of ?s token \<and> (\<exists>now. good_token C now o' token) \<and> good_device token o' device"
    if "(token, o', device) \<in> set (pg_made ?s)" for token o' device
    using that pairing_parts(6) [OF ok] row by simp
  show "distinct (pending_of (pg_calls ?s) @ made_ids ?s)"
    using pairing_parts(4) [OF ok] cs by (auto simp: made_ids_def)
  show "\<exists>(token, opts, device) \<in> set (pg_made ?s). pr_id token = pr_id q \<and> dr_id device = i"
    if q: "q \<in> set (db_pairs (pg_db ?s))" "pr_redeemedDeviceId q = Some i" for q i
  proof -
    obtain x where x: "x \<in> set (db_pairs (pg_db s))" "q = ?f x" using q(1) by auto
    show ?thesis
    proof (cases "pr_id x = pr_id t")
      case True
      then have "i = dr_id d" "pr_id q = pr_id t" using x(2) q(2) by simp_all
      then show ?thesis using made by (intro bexI [of _ "(t, opts, d)"]) auto
    next
      case False
      then show ?thesis using x q(2) pairing_parts(8) [OF ok, of x i] by auto
    qed
  qed
  have "pr_id \<circ> ?f = pr_id" "pr_tokenHash \<circ> ?f = pr_tokenHash" by (rule ext, simp)+
  then show "distinct (map pr_id (db_pairs (pg_db ?s)))" "distinct (map pr_tokenHash (db_pairs (pg_db ?s)))"
    using pairing_parts(1,2) [OF ok] by simp_all
qed (use pairing_parts(3,7) [OF ok] in simp_all)

lemma revoke_ok:
  assumes ok: "pairing_ok C s"
  shows "pairing_ok C (pair_step C B config (RevokeDeviceEv i now) s)" (is "pairing_ok C ?s")
proof (rule pairing_okI)
  let ?f = "\<lambda>d :: device_row. if dr_id d = i then d\<lparr>dr_revokedAt := Some now\<rparr> else d"
  have row: "row_of ?s q = row_of s q" for q by (simp add: row_of_def)
  show "phase_ok C ?s n o' p" if "(o', n, p) \<in> set (pg_calls ?s)" for o' n p
  proof -
    have "phase_ok C s n o' p" using that pairing_parts(5) [OF ok] by simp
    then show ?thesis by (rule phase_ok_mono) (use row in auto)
  qed
  show "row_of ?s token \<and> (\<exists>now. good_token C now o' token) \<and> good_device token o' device"
    if "(token, o', device) \<in> set (pg_made ?s)" for token o' device
    using that pairing_parts(6) [OF ok] row by simp
  have "dr_id \<circ> ?f = dr_id" by (rule ext) simp
  then show "distinct (map dr_id (db_devices (pg_db ?s)))" using pairing_parts(3) [OF ok] by simp
  have "same_device (?f d) e = same_device d e" for d e by (simp add: same_device_def)
  then show "list_all2 same_device (db_devices (pg_db ?s)) (map (\<lambda>(token, opts, device). device) (pg_made ?s))"
    using pairing_parts(7) [OF ok] by (simp add: list_all2_map1)
  show "\<exists>(token, opts, device) \<in> set (pg_made ?s). pr_id token = pr_id q \<and> dr_id device = j"
    if "q \<in> set (db_pairs (pg_db ?s))" "pr_redeemedDeviceId q = Some j" for q j
    using that pairing_parts(8) [OF ok, of q j] by simp
qed (use pairing_parts(1,2,4) [OF ok] in \<open>simp_all add: made_ids_def\<close>)

text \<open>A step on a call that is neither of these leaves the tables of tokens and devices alone.\<close>

lemma step_ok: "pairing_ok C s \<Longrightarrow> pairing_ok C (pair_step C B config ev s)"
proof (cases ev)
  case (MintPairEv now host user org random newId)
  assume ok: "pairing_ok C s"
  then show ?thesis using mint_ok [OF ok] MintPairEv by (metis pair_step.simps(1) prod.collapse)
next
  case (StartRedeemEv opts now)
  assume ok: "pairing_ok C s"
  have "phase_ok C (s\<lparr>pg_calls := cs\<rparr>) n o' p = phase_ok C s n o' p" for cs n o' p by (cases p) (simp_all add: row_of_def)
  then show ?thesis using ok StartRedeemEv by (auto simp: pairing_ok_def made_ids_def row_of_def)
next
  case (RevokeDeviceEv i now)
  assume "pairing_ok C s"
  then show ?thesis unfolding RevokeDeviceEv by (rule revoke_ok)
next
  case (RedeemStepEv i fresh)
  assume ok: "pairing_ok C s"
  show ?thesis
  proof (cases "i < length (pg_calls s)")
    case True
    obtain opts now phase where at: "pg_calls s ! i = (opts, now, phase)" by (cases "pg_calls s ! i")
    let ?xs = "take i (pg_calls s)" and ?ys = "drop (Suc i) (pg_calls s)"
    have cs: "pg_calls s = ?xs @ (opts, now, phase) # ?ys" using id_take_nth_drop [OF True] at by simp
    obtain phase' db where st: "redeem_step C config now opts fresh phase (pg_db s) = (phase', db)" by fastforce
    have step: "pair_step C B config ev s = s\<lparr>pg_db := db, pg_calls := ?xs @ (opts, now, phase') # ?ys, pg_made := pg_made s @ made_by phase phase' opts\<rparr>"
      using True at st upd_conv_take_nth_drop [OF True, of "(opts, now, phase')"] by (simp add: RedeemStepEv)
    have plain: "pairing_ok C (s\<lparr>pg_db := db, pg_calls := ?xs @ (opts, now, phase') # ?ys, pg_made := pg_made s\<rparr>)"
      if "db_pairs db = db_pairs (pg_db s)" "db_devices db = db_devices (pg_db s)" "pending_token phase' = pending_token phase"
        "phase_ok C s now opts phase'"
    proof -
      have "pairing_ok C (s\<lparr>pg_calls := ?xs @ (opts, now, phase') # ?ys\<rparr>)" using replace_call [OF cs ok that(3,4)] .
      from same_tables [OF this, of db] that(1,2)
      have "pairing_ok C (s\<lparr>pg_calls := ?xs @ (opts, now, phase') # ?ys, pg_db := db\<rparr>)" by simp
      moreover have "s\<lparr>pg_db := db, pg_calls := ?xs @ (opts, now, phase') # ?ys, pg_made := pg_made s\<rparr> =
          s\<lparr>pg_calls := ?xs @ (opts, now, phase') # ?ys, pg_db := db\<rparr>" by simp
      ultimately show ?thesis by (simp only:)
    qed
    show ?thesis
    proof (cases phase)
      case AtClaim
      show ?thesis
      proof (cases "claim_pair C now (ro_pairToken opts) (pg_db s)")
        case (Pair res db1)
        show ?thesis
        proof (cases res)
          case None
          then have "db = pg_db s" "phase' = Refused" using st AtClaim Pair claim_none by (auto simp: redeem_step_def)
          then show ?thesis unfolding step using plain AtClaim by simp
        next
          case (Some t)
          then have "db = db1" "phase' = AtInsert t" using st AtClaim Pair by (auto simp: redeem_step_def)
          then show ?thesis unfolding step using claim_ok [OF ok, of ?xs opts now ?ys t db] cs AtClaim Pair Some by simp
        qed
      qed
    next
      case (AtInsert t)
      let ?d = "\<lparr>dr_id = rf_deviceId fresh, dr_orgId = pr_orgId t, dr_userId = pr_userId t,
                 dr_name = (case ro_deviceName opts of None \<Rightarrow> ''device'' | Some n \<Rightarrow> n),
                 dr_deviceTokenHash = ms_hash (mintSecret C ''dt'' (rf_random fresh)),
                 dr_deviceTokenPrefix = ms_prefix (mintSecret C ''dt'' (rf_random fresh)), dr_pushToken = None, dr_voipPushToken = None,
                 dr_devicePublicKey = ro_devicePublicKeyB64 opts, dr_lastSeenAt = None, dr_revokedAt = None\<rparr>"
      show ?thesis
      proof (cases "phase' = Threw")
        case True
        then have "db = pg_db s" using st AtInsert by (auto simp: redeem_step_def Let_def split: if_splits)
        have "pairing_ok C (s\<lparr>pg_calls := ?xs @ (opts, now, Threw) # ?ys\<rparr>)"
        proof (rule pairing_okI)
          have "distinct (pending_of (pg_calls s) @ made_ids s)" using pairing_parts(4) [OF ok] .
          then show "distinct (pending_of (pg_calls (s\<lparr>pg_calls := ?xs @ (opts, now, Threw) # ?ys\<rparr>)) @ made_ids (s\<lparr>pg_calls := ?xs @ (opts, now, Threw) # ?ys\<rparr>))"
            by (subst (asm) cs) (auto simp: made_ids_def AtInsert)
          have same: "phase_ok C (s\<lparr>pg_calls := cs\<rparr>) n o' p = phase_ok C s n o' p" for cs n o' p by (cases p) (simp_all add: row_of_def)
          show "phase_ok C (s\<lparr>pg_calls := ?xs @ (opts, now, Threw) # ?ys\<rparr>) n o' p"
            if "(o', n, p) \<in> set (pg_calls (s\<lparr>pg_calls := ?xs @ (opts, now, Threw) # ?ys\<rparr>))" for o' n p
            using that pairing_parts(5) [OF ok, of o' n p] unfolding same by (auto dest: in_set_takeD in_set_dropD)
        qed (use pairing_parts [OF ok] in \<open>simp_all add: row_of_def\<close>)
        then show ?thesis unfolding step using \<open>db = pg_db s\<close> True AtInsert by simp
      next
        case False
        then have d: "dr_id ?d \<notin> dr_id ` set (db_devices (pg_db s))" and
          p': "phase' = AtStamp t ?d (ms_token (mintSecret C ''dt'' (rf_random fresh)))" "db = (pg_db s)\<lparr>db_devices := db_devices (pg_db s) @ [?d]\<rparr>"
          using st AtInsert by (auto simp: redeem_step_def Let_def list_ex_iff split: if_splits)
        have "good_device t opts ?d" by (simp add: good_device_def)
        from insert_ok [OF ok cs [unfolded AtInsert] d this] show ?thesis unfolding step p' AtInsert by simp
      qed
    next
      case (AtStamp t d secret)
      then show ?thesis unfolding step using st stamp_ok [OF ok cs [unfolded AtStamp]] by (auto simp: redeem_step_def)
    next
      case (AtAudit t d secret)
      then have "phase' = AtHost t secret" "db_pairs db = db_pairs (pg_db s)" "db_devices db = db_devices (pg_db s)"
        using st by (auto simp: redeem_step_def appendAuditEvent_def)
      then show ?thesis unfolding step using plain AtAudit by simp
    next
      case (AtHost t secret)
      then have "db = pg_db s" "phase' = Threw \<or> (\<exists>h. phase' = AtUser t secret h)"
        using st by (auto simp: redeem_step_def split: option.splits)
      then show ?thesis unfolding step using plain AtHost by auto
    next
      case (AtUser t secret h)
      then have "db = pg_db s" "phase' = Threw \<or> (\<exists>r. phase' = Redeemed r)"
        using st by (auto simp: redeem_step_def split: option.splits)
      then show ?thesis unfolding step using plain AtUser by auto
    qed (use st plain step in \<open>auto simp: redeem_step_def\<close>)
  qed (use ok RedeemStepEv in simp)
qed

lemma run_ok:
  assumes "db_pairs db = []" and "db_devices db = []"
  shows "pairing_ok C (pair_run C B config evs db)"
proof -
  have "pairing_ok C s \<Longrightarrow> pairing_ok C (fold (pair_step C B config) evs s)" for s
    by (induction evs arbitrary: s) (auto simp: step_ok)
  moreover have "pairing_ok C \<lparr>pg_db = db, pg_calls = [], pg_made = []\<rparr>"
    using assms by (simp add: pairing_ok_def made_ids_def)
  ultimately show ?thesis by (simp add: pair_run_def)
qed

subsection \<open>One device per token\<close>

lemma distinct_map_via:
  "distinct (map f xs) \<Longrightarrow> (\<And>x y. x \<in> set xs \<Longrightarrow> y \<in> set xs \<Longrightarrow> h x = h y \<Longrightarrow> f x = f y) \<Longrightarrow> distinct (map h xs)"
  by (metis distinct_map inj_on_def)

subsection \<open>Back to the mint\<close>

text \<open>A row of a token is as one of the mints wrote it, but for the marks of its redemption.\<close>

definition minted_as :: "crypto \<Rightarrow> pair_config \<Rightarrow> pair_event list \<Rightarrow> pair_row \<Rightarrow> bool" where
  "minted_as C config evs r \<longleftrightarrow>
     (\<exists>at host user org random. MintPairEv at host user org random (pr_id r) \<in> set evs \<and>
        pr_orgId r = og_id org \<and> pr_userId r = us_id user \<and> pr_hostId r = hr_id host \<and>
        pr_tokenHash r = sha256Hex C (''pt_'' @ random) \<and> pr_expiresAt r = at + pc_pairTokenTtlMs config)"

lemma minted_as_marks [simp]:
  "minted_as C config evs (r\<lparr>pr_redeemedAt := x\<rparr>) = minted_as C config evs r"
  "minted_as C config evs (r\<lparr>pr_redeemedDeviceId := y\<rparr>) = minted_as C config evs r"
  by (simp_all add: minted_as_def)

text \<open>What a call holds was made, with the credential that it is going to answer, for a host that is there.\<close>

definition made_with :: "crypto \<Rightarrow> pairing \<Rightarrow> redeem_options \<Rightarrow> pair_row \<Rightarrow> device_row \<Rightarrow> string \<Rightarrow> bool" where
  "made_with C s opts t d plain \<longleftrightarrow> (t, opts, d) \<in> set (pg_made s) \<and> dr_deviceTokenHash d = sha256Hex C plain"

fun phase_traced :: "crypto \<Rightarrow> pair_config \<Rightarrow> pair_event list \<Rightarrow> pairing \<Rightarrow> redeem_options \<Rightarrow> redeem_phase \<Rightarrow> bool" where
  "phase_traced C config evs s opts (AtInsert t) \<longleftrightarrow> minted_as C config evs t"
| "phase_traced C config evs s opts (AtStamp t d plain) \<longleftrightarrow> made_with C s opts t d plain"
| "phase_traced C config evs s opts (AtAudit t d plain) \<longleftrightarrow> made_with C s opts t d plain"
| "phase_traced C config evs s opts (AtHost t plain) \<longleftrightarrow> (\<exists>d. made_with C s opts t d plain)"
| "phase_traced C config evs s opts (AtUser t plain h) \<longleftrightarrow>
     (\<exists>d. made_with C s opts t d plain) \<and> h \<in> set (db_hosts (pg_db s)) \<and> hr_id h = pr_hostId t"
| "phase_traced C config evs s opts (Redeemed res) \<longleftrightarrow>
     (\<exists>t d h. made_with C s opts t d (rr_deviceToken res) \<and> h \<in> set (db_hosts (pg_db s)) \<and> hr_id h = pr_hostId t \<and>
        rr_hostId res = hr_id h \<and> rr_hostKey res = hr_staticPublicKey h)"
| "phase_traced C config evs s opts _ \<longleftrightarrow> True"

definition traced :: "crypto \<Rightarrow> pair_config \<Rightarrow> pair_event list \<Rightarrow> host_row list \<Rightarrow> pairing \<Rightarrow> bool" where
  "traced C config evs hosts s \<longleftrightarrow>
     db_hosts (pg_db s) = hosts \<and>
     (\<forall>r \<in> set (db_pairs (pg_db s)). minted_as C config evs r) \<and>
     (\<forall>(t, opts, d) \<in> set (pg_made s). minted_as C config evs t) \<and>
     (\<forall>(opts, now, phase) \<in> set (pg_calls s). phase_traced C config evs s opts phase)"

lemma phase_traced_mono:
  "phase_traced C config evs s opts p \<Longrightarrow> set (pg_made s) \<subseteq> set (pg_made s') \<Longrightarrow> db_hosts (pg_db s') = db_hosts (pg_db s) \<Longrightarrow>
   phase_traced C config evs s' opts p"
  by (cases p) (auto simp: made_with_def)

lemma mint_traced:
  assumes "mintPairToken C B config now host user org random newId db = (res, db')"
    and "MintPairEv now host user org random newId \<in> set evs" and "\<forall>r \<in> set (db_pairs db). minted_as C config evs r"
  shows "\<forall>r \<in> set (db_pairs db'). minted_as C config evs r" "db_hosts db' = db_hosts db"
proof -
  have "minted_as C config evs \<lparr>pr_id = newId, pr_orgId = og_id org, pr_userId = us_id user, pr_hostId = hr_id host,
      pr_tokenHash = ms_hash (mintSecret C ''pt'' random), pr_expiresAt = now + pc_pairTokenTtlMs config,
      pr_redeemedAt = None, pr_redeemedDeviceId = None\<rparr>"
    unfolding minted_as_def
    by (intro exI [of _ now] exI [of _ host] exI [of _ user] exI [of _ org] exI [of _ random])
      (use assms(2) in \<open>simp add: mintSecret_def Let_def\<close>)
  then show "\<forall>r \<in> set (db_pairs db'). minted_as C config evs r" "db_hosts db' = db_hosts db"
    using assms(1,3) by (auto simp: mintPairToken_def Let_def split: if_splits)
qed

lemma redeem_traced:
  assumes st: "redeem_step C config now opts fresh phase (pg_db s) = (phase', db')"
    and ph: "phase_traced C config evs s opts phase" and rows: "\<forall>r \<in> set (db_pairs (pg_db s)). minted_as C config evs r"
    and s': "pg_made s' = pg_made s @ made_by phase phase' opts" "db_hosts (pg_db s') = db_hosts db'"
  shows "db_hosts db' = db_hosts (pg_db s)" "\<forall>r \<in> set (db_pairs db'). minted_as C config evs r"
    "\<forall>(t, o', d) \<in> set (made_by phase phase' opts). minted_as C config evs t" "phase_traced C config evs s' opts phase'"
proof -
  have "db_hosts db' = db_hosts (pg_db s) \<and> (\<forall>r \<in> set (db_pairs db'). minted_as C config evs r) \<and>
      (\<forall>(t, o', d) \<in> set (made_by phase phase' opts). minted_as C config evs t) \<and> phase_traced C config evs s' opts phase'"
  proof (cases phase)
    case AtClaim
    show ?thesis
    proof (cases "find (redeemable C now (ro_pairToken opts)) (db_pairs (pg_db s))")
      case None
      then show ?thesis using st AtClaim rows by (auto simp: redeem_step_def claim_pair_def)
    next
      case (Some r)
      then have "r \<in> set (db_pairs (pg_db s))" by (auto simp: find_Some_iff)
      then show ?thesis using st AtClaim rows Some by (auto simp: redeem_step_def claim_pair_def)
    qed
  next
    case (AtInsert t)
    then show ?thesis using st ph rows s' by (auto simp: redeem_step_def Let_def made_with_def mintSecret_def split: if_splits)
  next
    case (AtStamp t d plain)
    then show ?thesis using st ph rows s' by (auto simp: redeem_step_def made_with_def)
  next
    case (AtAudit t d plain)
    then show ?thesis using st ph rows s' by (auto simp: redeem_step_def made_with_def appendAuditEvent_def Let_def)
  next
    case (AtHost t plain)
    then show ?thesis using st ph rows s' by (auto simp: redeem_step_def made_with_def find_Some_iff split: option.splits)
  next
    case (AtUser t plain h)
    then show ?thesis using st ph rows s' by (fastforce simp: redeem_step_def made_with_def split: option.splits)
  next
    case (Redeemed res)
    then have "phase' = phase" "db' = pg_db s" using st by (simp_all add: redeem_step_def)
    then show ?thesis using ph rows s' Redeemed by (simp add: made_with_def)
  qed (use st ph rows s' in \<open>simp_all add: redeem_step_def made_with_def\<close>)
  then show "db_hosts db' = db_hosts (pg_db s)" "\<forall>r \<in> set (db_pairs db'). minted_as C config evs r"
    "\<forall>(t, o', d) \<in> set (made_by phase phase' opts). minted_as C config evs t" "phase_traced C config evs s' opts phase'" by blast+
qed

lemma step_traced:
  assumes t: "traced C config evs hosts s" and ev: "ev \<in> set evs"
  shows "traced C config evs hosts (pair_step C B config ev s)"
proof -
  let ?s' = "pair_step C B config ev s"
  have p: "db_hosts (pg_db s) = hosts" "\<forall>r \<in> set (db_pairs (pg_db s)). minted_as C config evs r"
    "\<forall>(t, opts, d) \<in> set (pg_made s). minted_as C config evs t"
    "\<And>opts now ph. (opts, now, ph) \<in> set (pg_calls s) \<Longrightarrow> phase_traced C config evs s opts ph"
    using t unfolding traced_def by blast+
  show ?thesis
  proof (cases ev)
    case (MintPairEv now host user org random newId)
    obtain res db' where m: "mintPairToken C B config now host user org random newId (pg_db s) = (res, db')" by fastforce
    note db = mint_traced [OF m _ p(2)]
    have s': "?s' = s\<lparr>pg_db := db'\<rparr>" using m MintPairEv by simp
    have "phase_traced C config evs (s\<lparr>pg_db := db'\<rparr>) opts ph" if "(opts, n, ph) \<in> set (pg_calls s)" for opts n ph
      using p(4) [OF that] by (rule phase_traced_mono) (use db ev MintPairEv in auto)
    then show ?thesis unfolding s' traced_def using p(1,3) db ev MintPairEv by auto
  next
    case (StartRedeemEv opts now)
    have "phase_traced C config evs ?s' o' ph" if "(o', n, ph) \<in> set (pg_calls s)" for o' n ph
      using p(4) [OF that] by (rule phase_traced_mono) (use StartRedeemEv in auto)
    then show ?thesis using p(1-3) StartRedeemEv unfolding traced_def by auto
  next
    case (RevokeDeviceEv i now)
    have "phase_traced C config evs ?s' o' ph" if "(o', n, ph) \<in> set (pg_calls s)" for o' n ph
      using p(4) [OF that] by (rule phase_traced_mono) (use RevokeDeviceEv in auto)
    then show ?thesis using p(1-3) RevokeDeviceEv unfolding traced_def by auto
  next
    case (RedeemStepEv i fresh)
    show ?thesis
    proof (cases "i < length (pg_calls s)")
      case True
      obtain opts now phase where at: "pg_calls s ! i = (opts, now, phase)" by (cases "pg_calls s ! i")
      obtain phase' db' where st: "redeem_step C config now opts fresh phase (pg_db s) = (phase', db')" by fastforce
      have s': "?s' = s\<lparr>pg_db := db', pg_calls := (pg_calls s)[i := (opts, now, phase')], pg_made := pg_made s @ made_by phase phase' opts\<rparr>"
        using True at st RedeemStepEv by simp
      have "(opts, now, phase) \<in> set (pg_calls s)" using True at by (metis nth_mem)
      note r = redeem_traced [OF st p(4) [OF this] p(2), of ?s']
      have r': "db_hosts db' = db_hosts (pg_db s)" "\<forall>r \<in> set (db_pairs db'). minted_as C config evs r"
        "\<forall>(t, o', d) \<in> set (made_by phase phase' opts). minted_as C config evs t" "phase_traced C config evs ?s' opts phase'"
        by (rule r; simp add: s')+
      have "phase_traced C config evs ?s' o' ph" if "(o', n, ph) \<in> set (pg_calls ?s')" for o' n ph
      proof -
        have "(o', n, ph) \<in> insert (opts, now, phase') (set (pg_calls s))"
          using that set_update_subset_insert unfolding s' by fastforce
        then show ?thesis
        proof
          assume "(o', n, ph) \<in> set (pg_calls s)"
          from p(4) [OF this] show ?thesis by (rule phase_traced_mono) (use r'(1) s' in auto)
        qed (use r'(4) in simp)
      qed
      then show ?thesis using p(1,3) r'(1-3) unfolding traced_def by (auto simp: s')
    qed (use t RedeemStepEv in simp)
  qed
qed

lemma run_traced:
  assumes "db_pairs db = []"
  shows "traced C config evs (db_hosts db) (pair_run C B config evs db)"
proof -
  have "traced C config evs (db_hosts db) (fold (pair_step C B config) es s)"
    if "traced C config evs (db_hosts db) s" "set es \<subseteq> set evs" for es s
    using that step_traced by (induction es arbitrary: s) auto
  from this [of "\<lparr>pg_db = db, pg_calls = [], pg_made = []\<rparr>" evs] show ?thesis
    using assms by (simp add: pair_run_def traced_def)
qed

subsection \<open>One token, one device\<close>

text \<open>C24: However mints, redemptions and revocations interleave, from no pair tokens and no devices: no two devices come
  of one pair token, and the table has no other devices. Each was made for the redeemer of a token that some mint issued,
  before that token's lifetime had run out; it belongs to the user and the organisation of that mint and has the
  redeemer's identity key. A redemption that answered gives out the credential of the device that it made, and the
  identity and the key of the host that the mint was for.\<close>
theorem pair_token_mints_one_device:
  assumes "db_pairs db = []" and "db_devices db = []" and "s = pair_run C B config evs db"
  shows "distinct (map (\<lambda>(token, opts, device). pr_tokenHash token) (pg_made s)) \<and>
    list_all2 same_device (db_devices (pg_db s)) (map (\<lambda>(token, opts, device). device) (pg_made s)) \<and>
    (\<forall>(token, opts, device) \<in> set (pg_made s). \<exists>at host user org random.
       MintPairEv at host user org random (pr_id token) \<in> set evs \<and>
       pr_tokenHash token = sha256Hex C (''pt_'' @ random) \<and> sha256Hex C (ro_pairToken opts) = sha256Hex C (''pt_'' @ random) \<and>
       (\<exists>now. pr_redeemedAt token = Some now \<and> now < at + pc_pairTokenTtlMs config) \<and>
       dr_orgId device = og_id org \<and> dr_userId device = us_id user \<and> pr_hostId token = hr_id host \<and>
       dr_devicePublicKey device = ro_devicePublicKeyB64 opts) \<and>
    (\<forall>(opts, now, phase) \<in> set (pg_calls s). \<forall>res. phase = Redeemed res \<longrightarrow>
       (\<exists>token device host. (token, opts, device) \<in> set (pg_made s) \<and>
          dr_deviceTokenHash device = sha256Hex C (rr_deviceToken res) \<and>
          host \<in> set (db_hosts db) \<and> hr_id host = pr_hostId token \<and>
          rr_hostId res = hr_id host \<and> rr_hostKey res = hr_staticPublicKey host))"
proof -
  have ok: "pairing_ok C s" using run_ok [OF assms(1,2)] assms(3) by simp
  have ids: "distinct (map (\<lambda>(token, opts, device). pr_id token) (pg_made s))"
    using pairing_parts(4) [OF ok] by (simp add: made_ids_def)
  have same: "pr_id t = pr_id t'"
    if m1: "(t, o1, d1) \<in> set (pg_made s)" and m2: "(t', o2, d2) \<in> set (pg_made s)" and h: "pr_tokenHash t = pr_tokenHash t'" for t o1 d1 t' o2 d2
  proof -
    obtain r r' where r: "r \<in> set (db_pairs (pg_db s))" "pr_id r = pr_id t" "pr_tokenHash r = pr_tokenHash t"
      "r' \<in> set (db_pairs (pg_db s))" "pr_id r' = pr_id t'" "pr_tokenHash r' = pr_tokenHash t'"
      using pairing_parts(6) [OF ok m1] pairing_parts(6) [OF ok m2] by (auto simp: row_of_def)
    then have "r = r'" using h pairing_parts(2) [OF ok] by (metis distinct_map inj_onD)
    then show ?thesis using r by simp
  qed
  have "distinct (map (\<lambda>(token, opts, device). pr_tokenHash token) (pg_made s))"
  proof (rule distinct_map_via [OF ids])
    fix x y
    assume xy: "x \<in> set (pg_made s)" "y \<in> set (pg_made s)"
      "(case x of (token, opts, device) \<Rightarrow> pr_tokenHash token) = (case y of (token, opts, device) \<Rightarrow> pr_tokenHash token)"
    obtain t o1 d1 t' o2 d2 where "x = (t, o1, d1)" "y = (t', o2, d2)" by (cases x, cases y)
    then show "(case x of (token, opts, device) \<Rightarrow> pr_id token) = (case y of (token, opts, device) \<Rightarrow> pr_id token)"
      using same [of t o1 d1 t' o2 d2] xy by simp
  qed
  moreover have tr: "traced C config evs (db_hosts db) s" using run_traced [OF assms(1)] assms(3) by simp
  have "\<exists>at host user org random.
       MintPairEv at host user org random (pr_id token) \<in> set evs \<and>
       pr_tokenHash token = sha256Hex C (''pt_'' @ random) \<and> sha256Hex C (ro_pairToken opts) = sha256Hex C (''pt_'' @ random) \<and>
       (\<exists>now. pr_redeemedAt token = Some now \<and> now < at + pc_pairTokenTtlMs config) \<and>
       dr_orgId device = og_id org \<and> dr_userId device = us_id user \<and> pr_hostId token = hr_id host \<and>
       dr_devicePublicKey device = ro_devicePublicKeyB64 opts" if m: "(token, opts, device) \<in> set (pg_made s)" for token opts device
  proof -
    have "minted_as C config evs token" using tr m unfolding traced_def by blast
    moreover have "\<exists>now. good_token C now opts token" "good_device token opts device" using pairing_parts(6) [OF ok m] by blast+
    ultimately show ?thesis unfolding minted_as_def good_token_def good_device_def by metis
  qed
  moreover have "\<exists>token device host. (token, opts, device) \<in> set (pg_made s) \<and>
          dr_deviceTokenHash device = sha256Hex C (rr_deviceToken res) \<and>
          host \<in> set (db_hosts db) \<and> hr_id host = pr_hostId token \<and>
          rr_hostId res = hr_id host \<and> rr_hostKey res = hr_staticPublicKey host"
    if "(opts, now, Redeemed res) \<in> set (pg_calls s)" for opts now res
  proof -
    have "phase_traced C config evs s opts (Redeemed res)" "db_hosts (pg_db s) = db_hosts db" using tr that unfolding traced_def by blast+
    then show ?thesis by (auto simp: made_with_def)
  qed
  ultimately show ?thesis using pairing_parts(7) [OF ok] by blast
qed

subsection \<open>The ceremony\<close>

text \<open>What the status tells of a redeemer is what it sent.\<close>

lemma status_redeemed:
  assumes ok: "pairing_ok C s" and st: "pairTokenStatus C now token (pg_db s) = Some (PairRedeemed (Some (name, key)))"
  shows "\<exists>t opts d. (t, opts, d) \<in> set (pg_made s) \<and> pr_tokenHash t = sha256Hex C token \<and>
    sha256Hex C (ro_pairToken opts) = sha256Hex C token \<and> key = ro_devicePublicKeyB64 opts \<and> name = Some (dr_name d)"
proof -
  from st obtain row i d where row: "find (\<lambda>r. pr_tokenHash r = sha256Hex C token) (db_pairs (pg_db s)) = Some row"
      "pr_redeemedDeviceId row = Some i" "find (\<lambda>d. dr_id d = i) (db_devices (pg_db s)) = Some d"
      "name = Some (dr_name d)" "key = dr_devicePublicKey d"
    by (auto simp: pairTokenStatus_def split: option.splits if_splits)
  from row(1) have r: "row \<in> set (db_pairs (pg_db s))" "pr_tokenHash row = sha256Hex C token" by (auto simp: find_Some_iff)
  from pairing_parts(8) [OF ok r(1) row(2)] obtain t opts e where m: "(t, opts, e) \<in> set (pg_made s)" "pr_id t = pr_id row" "dr_id e = i"
    by auto
  from pairing_parts(6) [OF ok m(1)] obtain q now where q: "q \<in> set (db_pairs (pg_db s))" "pr_id q = pr_id t"
      "pr_tokenHash q = pr_tokenHash t" "good_token C now opts t" "good_device t opts e"
    by (auto simp: row_of_def)
  then have "q = row" using m(2) r(1) pairing_parts(1) [OF ok] by (metis distinct_map inj_onD)
  then have hash: "pr_tokenHash t = sha256Hex C token" using q(3) r(2) by simp
  have d: "d \<in> set (db_devices (pg_db s))" "dr_id d = i" using row(3) by (auto simp: find_Some_iff)
  have l: "list_all2 same_device (db_devices (pg_db s)) (map (\<lambda>(token, opts, device). device) (pg_made s))"
    using pairing_parts(7) [OF ok] .
  have "e \<in> set (map (\<lambda>(token, opts, device). device) (pg_made s))" using m(1) by force
  then obtain k where k: "k < length (pg_made s)" "map (\<lambda>(token, opts, device). device) (pg_made s) ! k = e"
    by (metis in_set_conv_nth length_map)
  then have "same_device (db_devices (pg_db s) ! k) e" "k < length (db_devices (pg_db s))"
    using l by (auto simp: list_all2_conv_all_nth)
  then have "db_devices (pg_db s) ! k = d" "same_device d e"
  proof -
    have "dr_id (db_devices (pg_db s) ! k) = dr_id d" using \<open>same_device (db_devices (pg_db s) ! k) e\<close> m(3) d(2) by (simp add: same_device_def)
    then show "db_devices (pg_db s) ! k = d" using pairing_parts(3) [OF ok] d(1) \<open>k < length (db_devices (pg_db s))\<close>
      by (metis distinct_map inj_onD nth_mem)
    then show "same_device d e" using \<open>same_device (db_devices (pg_db s) ! k) e\<close> by simp
  qed
  then have "key = ro_devicePublicKeyB64 opts" "name = Some (dr_name e)"
    using row(4,5) q(5) by (simp_all add: same_device_def good_device_def)
  then show ?thesis using m(1) hash q(4) by (metis good_token_def)
qed

lemma find_own_entry: "find_entry k (k e) (put_entry le k e es) = Some e"
proof -
  have only: "x = e" if "x \<in> set (put_entry le k e es)" "k x = k e" for x using that by (auto simp: put_entry_def)
  have "e \<in> set (put_entry le k e es)" by (simp add: put_entry_def)
  then have "find_entry k (k e) (put_entry le k e es) \<noteq> None" unfolding find_entry_None by blast
  then obtain x where x: "find_entry k (k e) (put_entry le k e es) = Some x" by blast
  then have "x \<in> set (put_entry le k e es)" "k x = k e" by (auto simp: find_entry_def find_Some_iff)
  then show ?thesis using only x by simp
qed

lemma written_is_found:
  assumes "writeAuthorizedDevice B E le e f = Inr g" and "device_ok e"
  shows "lookupAuthorizedDevice (ad_deviceKeyId e) g = Inr (Some e)"
proof -
  from assms(1) obtain ds where ds: "readAuthorizedDevices f = Inr ds" "g = print_store ''devices'' print_device (put_entry le ad_deviceKeyId e ds)"
    by (auto simp: writeAuthorizedDevice_def Let_def split: if_splits sum.splits)
  have "list_all device_ok ds" using keyring.read_ok ds(1) by (simp add: readAuthorizedDevices_def)
  then have "list_all device_ok (put_entry le ad_deviceKeyId e ds)" using assms(2) by (auto simp: list_all_iff put_entry_def)
  then have "readAuthorizedDevices g = Inr (put_entry le ad_deviceKeyId e ds)"
    using keyring.read_print ds(2) by (simp add: readAuthorizedDevices_def)
  then show ?thesis using find_own_entry by (simp add: lookupAuthorizedDevice_def)
qed

lemma await_cases:
  "await_redeemed expiresAt polls = Some (Inr device) \<Longrightarrow> \<exists>clock. (clock, Some (PairRedeemed device)) \<in> set polls \<and> clock < expiresAt"
  by (induction polls rule: await_redeemed.induct) (auto split: if_splits option.splits pair_status.splits)

lemma await_failed: "await_redeemed expiresAt polls = Some (Inl r) \<Longrightarrow> r = EnrollExpired \<or> r = StatusFault"
  by (induction polls rule: await_redeemed.induct) (auto split: if_splits option.splits pair_status.splits)

text \<open>C25: A device that the ceremony enrols at the host carries the very key that the redeemer of this pair token
  sent, under the identifier and the fingerprint computed from that key, and only after the human's yes.
  (The polls are what the control plane answers, each after some run of calls.)\<close>
theorem enrolled_key_is_the_redeemers:
  assumes "db_pairs db = []" and "db_devices db = []"
    and "\<forall>(clock, st) \<in> set polls. \<exists>evs. st = pairTokenStatus C clock token (pg_db (pair_run C B config evs db))"
    and "enrollDevice C B E le now human expiresAt polls f = Some (Enrolled deviceKeyId fingerprint name, g)"
    and "now \<noteq> []" and "name \<noteq> Some []"
  shows "\<exists>answer k64 evs t opts d dev. human = Some answer \<and> confirm answer \<and>
      (t, opts, d) \<in> set (pg_made (pair_run C B config evs db)) \<and> sha256Hex C (ro_pairToken opts) = sha256Hex C token \<and>
      ro_devicePublicKeyB64 opts = Some k64 \<and> deviceKeyIdOf C (b64_decode B k64) = Some deviceKeyId \<and>
      deviceFingerprint deviceKeyId = Some fingerprint \<and>
      lookupAuthorizedDevice deviceKeyId g = Inr (Some dev) \<and> ad_publicKey dev = k64 \<and> ad_revokedAt dev = None"
proof -
  from assms(4) obtain device where dev: "await_redeemed expiresAt polls = Some (Inr device)"
      "enroll_device C B E le now human device f = (Enrolled deviceKeyId fingerprint name, g)"
    using await_failed by (fastforce simp: enrollDevice_def split: option.splits sum.splits)
  from dev(2) obtain k64 answer where k: "device = Some (name, Some k64)" "k64 \<noteq> []" "deviceKeyIdOf C (b64_decode B k64) = Some deviceKeyId"
      "deviceFingerprint deviceKeyId = Some fingerprint" "human = Some answer" "confirm answer"
      and w: "writeAuthorizedDevice B E le \<lparr>ad_deviceKeyId = deviceKeyId, ad_publicKey = k64,
          ad_label = (case name of None \<Rightarrow> ''device'' | Some n \<Rightarrow> n), ad_enrolledAt = now, ad_revokedAt = None\<rparr> f = Inr g"
    by (auto simp: enroll_device_def split: option.splits prod.splits if_splits sum.splits)
  from await_cases [OF dev(1)] assms(3) obtain clock evs
    where "pairTokenStatus C clock token (pg_db (pair_run C B config evs db)) = Some (PairRedeemed device)" by fastforce
  then have "\<exists>t opts d. (t, opts, d) \<in> set (pg_made (pair_run C B config evs db)) \<and> pr_tokenHash t = sha256Hex C token \<and>
      sha256Hex C (ro_pairToken opts) = sha256Hex C token \<and> Some k64 = ro_devicePublicKeyB64 opts \<and> name = Some (dr_name d)"
    unfolding k(1) by (rule status_redeemed [OF run_ok [OF assms(1,2)]])
  then obtain t opts d where m: "(t, opts, d) \<in> set (pg_made (pair_run C B config evs db))"
      "sha256Hex C (ro_pairToken opts) = sha256Hex C token" "ro_devicePublicKeyB64 opts = Some k64" by metis
  have "deviceKeyId \<noteq> []" using k(4) by (auto simp: deviceFingerprint_def device_key_id_pattern_def split: if_splits)
  moreover have "(case name of None \<Rightarrow> ''device'' | Some n \<Rightarrow> n) \<noteq> []" using assms(6) by (cases name) auto
  ultimately have "device_ok \<lparr>ad_deviceKeyId = deviceKeyId, ad_publicKey = k64,
          ad_label = (case name of None \<Rightarrow> ''device'' | Some n \<Rightarrow> n), ad_enrolledAt = now, ad_revokedAt = None\<rparr>"
    using k(2) assms(5) by (simp add: device_ok_def)
  from written_is_found [OF w this] show ?thesis using k(3,4,5,6) m by fastforce
qed

subsection \<open>A run\<close>

definition demo_user :: user_row where
  "demo_user = \<lparr>us_id = ''usr_1'', us_clerkUserId = ''clerk'', us_primaryOrgId = Some ''org_1''\<rparr>"

definition demo_org :: org_row where
  "demo_org = \<lparr>og_id = ''org_1'', og_name = ''o''\<rparr>"

definition pair_host :: host_row where
  "pair_host = \<lparr>hr_id = ''hst_1'', hr_orgId = ''org_1'', hr_userId = ''usr_1'', hr_name = ''mac'',
     hr_staticPublicKey = encodeKey toy_base64 (replicate 32 7), hr_hostKeyHash = ''h'', hr_hostKeyPrefix = ''p'',
     hr_lastSeenAt = None, hr_revokedAt = None\<rparr>"

definition pair_db :: db where
  "pair_db = \<lparr>db_orgs = [demo_org], db_users = [demo_user], db_hosts = [pair_host], db_devices = [], db_pairs = [],
     db_sessions = [], db_attention = [], db_audit = []\<rparr>"

definition pair_conf :: pair_config where
  "pair_conf = \<lparr>pc_pairTokenTtlMs = 600000, pc_directorUrl = None, pc_apiPublicUrl = None\<rparr>"

definition phone_key :: string where
  "phone_key = replicate 65 (CHR ''k'')"

definition demo_redeem :: redeem_options where
  "demo_redeem = \<lparr>ro_pairToken = ''pt_ab'', ro_deviceName = Some ''phone'', ro_devicePublicKeyB64 = Some phone_key\<rparr>"

definition demo_fresh :: redeem_fresh where
  "demo_fresh = \<lparr>rf_random = ''cd'', rf_deviceId = ''dev_1'', rf_auditId = ''aud_1'', rf_signIn = (\<lambda>_. None)\<rparr>"

text \<open>Two redemptions race for the token; the first to claim it goes on to its stamp.\<close>

definition demo_race :: "pair_event list" where
  "demo_race = [MintPairEv 0 pair_host demo_user demo_org ''ab'' ''ptr_1'', StartRedeemEv demo_redeem 5, StartRedeemEv demo_redeem 5,
     RedeemStepEv 1 demo_fresh, RedeemStepEv 0 demo_fresh, RedeemStepEv 1 demo_fresh, RedeemStepEv 1 demo_fresh]"

abbreviation race_state :: pairing where
  "race_state \<equiv> pair_run demo_crypto toy_base64 pair_conf demo_race pair_db"

lemma demo_race_state:
  "map (\<lambda>(token, opts, device). (pr_id token, dr_name device)) (pg_made race_state) = [(''ptr_1'', ''phone'')]"
  "pairTokenStatus demo_crypto 6 ''pt_ab'' (pg_db race_state) = Some (PairRedeemed (Some (Some ''phone'', Some phone_key)))"
  by code_simp+

lemma pair_db_empty: "db_pairs pair_db = []" "db_devices pair_db = []"
  by (simp_all add: pair_db_def)

lemma pair_token_mints_one_device_witness:
  "distinct (map (\<lambda>(token, opts, device). pr_tokenHash token) (pg_made race_state)) \<and>
    list_all2 same_device (db_devices (pg_db race_state)) (map (\<lambda>(token, opts, device). device) (pg_made race_state)) \<and>
    length (pg_made race_state) = 1"
  using pair_token_mints_one_device [OF pair_db_empty refl, where C = demo_crypto and B = toy_base64 and config = pair_conf and evs = demo_race]
    arg_cong [OF demo_race_state(1), of length] by simp

lemma hex_replicate: "bytesToHex (replicate n 107) = concat (replicate n ''6b'')"
  by (induction n) (simp_all add: hex_digit_def)
lemma phone_key_bytes: "utf8 phone_key = replicate 65 107"
  by (simp add: phone_key_def utf8_def)
lemma phone_key_id: "deviceKeyIdOf demo_crypto (b64_decode toy_base64 phone_key) = Some ''6b6b6b6b6b6b6b6b''" 
proof -
  have "sha_256 demo_crypto (replicate 65 107) = replicate 32 107" by (simp add: demo_crypto_def pad_def)
  moreover have "take 16 (concat (replicate 32 ''6b'')) = ''6b6b6b6b6b6b6b6b''" by code_simp
  ultimately show ?thesis
  by (simp add: deviceKeyIdOf_def toy_base64_def phone_key_bytes hex_replicate DEVICE_PUBLIC_KEY_BYTES_def DEVICE_KEY_ID_LENGTH_def)
qed
lemma phone_print: "deviceFingerprint ''6b6b6b6b6b6b6b6b'' = Some ''6B6B-6B6B-6B6B-6B6B''" by code_simp
lemma phone_key_codec: "b64_encode toy_base64 (b64_decode toy_base64 phone_key) = phone_key" "length (b64_decode toy_base64 phone_key) = 65"
proof -
  have "(char_of (107 :: nat) :: char) = CHR ''k''" by code_simp
  then show "b64_encode toy_base64 (b64_decode toy_base64 phone_key) = phone_key"
    by (simp add: toy_base64_def phone_key_bytes) (simp add: phone_key_def)
  show "length (b64_decode toy_base64 phone_key) = 65" by (simp add: toy_base64_def phone_key_bytes)
qed
definition pair_ecdsa :: ecdsa where
  "pair_ecdsa = \<lparr>ec_valid = (\<lambda>k. True), ec_verify = (\<lambda>s m k. Some True)\<rparr>"

lemma demo_written:
  "\<exists>g. enroll_device demo_crypto toy_base64 pair_ecdsa (\<lambda>a b. True) ''today'' (Some (Some ''y'')) (Some (Some ''phone'', Some phone_key)) Absent =
     (Enrolled ''6b6b6b6b6b6b6b6b'' ''6B6B-6B6B-6B6B-6B6B'' (Some ''phone''), g)"
proof -
  have "phone_key \<noteq> []" "confirm (Some ''y'')" by (simp add: phone_key_def, code_simp)
  then show ?thesis
    by (simp add: enroll_device_def phone_key_id phone_print phone_key_codec writeAuthorizedDevice_def DEVICE_PUBLIC_KEY_BYTES_def pair_ecdsa_def
        readAuthorizedDevices_def read_store_def)
qed
definition demo_enroll where
  "demo_enroll = enrollDevice demo_crypto toy_base64 pair_ecdsa (\<lambda>a b. True) ''today'' (Some (Some ''y'')) 600000
     [(3, Some PairPending), (6, Some (PairRedeemed (Some (Some ''phone'', Some phone_key))))] Absent"

lemma demo_pending:
  "pairTokenStatus demo_crypto 3 ''pt_ab'' (pg_db (pair_run demo_crypto toy_base64 pair_conf (take 3 demo_race) pair_db)) = Some PairPending"
  by code_simp

lemma enrolled_key_is_the_redeemers_witness:
  "\<exists>g answer k64 evs t opts d dev. demo_enroll = Some (Enrolled ''6b6b6b6b6b6b6b6b'' ''6B6B-6B6B-6B6B-6B6B'' (Some ''phone''), g) \<and>
      Some (Some ''y'') = Some answer \<and> confirm answer \<and>
      (t, opts, d) \<in> set (pg_made (pair_run demo_crypto toy_base64 pair_conf evs pair_db)) \<and>
      sha256Hex demo_crypto (ro_pairToken opts) = sha256Hex demo_crypto ''pt_ab'' \<and>
      ro_devicePublicKeyB64 opts = Some k64 \<and> deviceKeyIdOf demo_crypto (b64_decode toy_base64 k64) = Some ''6b6b6b6b6b6b6b6b'' \<and>
      deviceFingerprint ''6b6b6b6b6b6b6b6b'' = Some ''6B6B-6B6B-6B6B-6B6B'' \<and>
      lookupAuthorizedDevice ''6b6b6b6b6b6b6b6b'' g = Inr (Some dev) \<and> ad_publicKey dev = k64 \<and> ad_revokedAt dev = None"
proof -
  obtain g where g: "demo_enroll = Some (Enrolled ''6b6b6b6b6b6b6b6b'' ''6B6B-6B6B-6B6B-6B6B'' (Some ''phone''), g)"
    using demo_written by (auto simp: demo_enroll_def enrollDevice_def)
  have polls: "\<forall>(clock, st) \<in> set [(3, Some PairPending), (6, Some (PairRedeemed (Some (Some ''phone'', Some phone_key))))].
      \<exists>evs. st = pairTokenStatus demo_crypto clock ''pt_ab'' (pg_db (pair_run demo_crypto toy_base64 pair_conf evs pair_db))"
    using demo_pending [symmetric] demo_race_state(2) [symmetric] by auto
  have "''today'' \<noteq> []" "Some ''phone'' \<noteq> Some []" by simp_all
  from enrolled_key_is_the_redeemers [OF pair_db_empty polls g [unfolded demo_enroll_def] this] g show ?thesis by blast
qed

text \<open>Between the claim and the stamp the status is redeemed with no device: a host that asks then gives up on
  a phone that did send its key.\<close>

lemma claimed_but_not_stamped:
  "pairTokenStatus demo_crypto 6 ''pt_ab'' (pg_db (pair_run demo_crypto toy_base64 pair_conf (take 4 demo_race) pair_db)) =
     Some (PairRedeemed None) \<and>
   map_option fst (enrollDevice demo_crypto toy_base64 pair_ecdsa (\<lambda>a b. True) ''today'' (Some (Some ''y'')) 600000
     [(6, Some (PairRedeemed None))] Absent) = Some NoKey"
  by code_simp

end
