(* ===== verification/CliAuth.thy ===== *)
theory CliAuth
  imports Tenancy
begin

text \<open>
  \<open>services/cli-auth.ts\<close>: the login of the command line, which lives in the shared store only. Every call
  of the store is one step, so that the calls of many replicas interleave between them; random parts come
  with the step, and parsing a URL is a parameter.
\<close>

subsection \<open>Codes and keys\<close>

definition CLI_AUTH_POLL_INTERVAL_MS :: int where "CLI_AUTH_POLL_INTERVAL_MS = 3000"
definition MAX_APPROVE_ATTEMPTS :: int where "MAX_APPROVE_ATTEMPTS = 5"
definition USER_CODE_ALPHABET :: string where "USER_CODE_ALPHABET = ''ABCDEFGHJKLMNPQRSTUVWXYZ23456789''"
definition USER_CODE_LENGTH :: nat where "USER_CODE_LENGTH = 8"

definition requestKey :: "string \<Rightarrow> string" where "requestKey requestId = ''cliauth:req:'' @ requestId"
definition grantKey :: "string \<Rightarrow> string" where "grantKey requestId = ''cliauth:grant:'' @ requestId"
definition attemptsKey :: "string \<Rightarrow> string" where "attemptsKey requestId = ''cliauth:approve-attempts:'' @ requestId"

text \<open>From eight random bytes.\<close>

definition mintUserCode :: "bytes \<Rightarrow> string" where
  "mintUserCode bs =
     (let code = map (\<lambda>i. USER_CODE_ALPHABET ! (unat (bs ! i) mod length USER_CODE_ALPHABET)) [0..<USER_CODE_LENGTH]
      in take 4 code @ ''-'' @ drop 4 code)"

definition alnum_upper :: "char \<Rightarrow> bool" where
  "alnum_upper c \<longleftrightarrow> (let n = of_char c :: nat in (65 \<le> n \<and> n \<le> 90) \<or> (48 \<le> n \<and> n \<le> 57))"

definition normalizeUserCode :: "string \<Rightarrow> string" where
  "normalizeUserCode value' = filter alnum_upper (map upper value')"

text \<open>What \<open>new URL\<close> makes of a text: the protocol and the host name, or a throw.\<close>

definition isLoopbackCallback :: "(string \<Rightarrow> (string \<times> string) option) \<Rightarrow> string \<Rightarrow> bool" where
  "isLoopbackCallback parse_url value' =
     (case parse_url value' of
        None \<Rightarrow> False
      | Some (protocol, hostname) \<Rightarrow>
          if protocol \<noteq> ''http:'' then False
          else
            let h1 = (if take 1 hostname = ''['' then drop 1 hostname else hostname);
                host = (if h1 \<noteq> [] \<and> last h1 = CHR '']'' then butlast h1 else h1)
            in host = ''127.0.0.1'' \<or> host = ''::1'' \<or> host = ''localhost'')"

definition appendCode :: "string \<Rightarrow> string \<Rightarrow> string" where
  "appendCode callback code = callback @ (if CHR ''?'' \<in> set callback then ''&'' else ''?'') @ ''code='' @ code"

definition parse_request :: "cp_json redis_value \<Rightarrow> cli_request option" where
  "parse_request v = (case v of JsonText (RequestJson r) \<Rightarrow> Some r | _ \<Rightarrow> None)"

definition parse_grant :: "cp_json redis_value \<Rightarrow> cli_grant option" where
  "parse_grant v = (case v of JsonText (GrantJson g) \<Rightarrow> Some g | _ \<Rightarrow> None)"

definition loadRequest :: "int \<Rightarrow> int \<Rightarrow> string \<Rightarrow> cp_store \<Rightarrow> cli_request option \<times> cp_store" where
  "loadRequest clock now requestId s =
     (let (raw, s1) = redis_get clock (requestKey requestId) s
      in (case raw of
            None \<Rightarrow> None
          | Some v \<Rightarrow>
              (case parse_request v of
                 None \<Rightarrow> None
               | Some record \<Rightarrow> if cq_expiresAt record \<le> now then None else Some record), s1))"

definition describeCliAuthRequest :: "int \<Rightarrow> int \<Rightarrow> string \<Rightarrow> cp_store \<Rightarrow> (string \<times> bool) option \<times> cp_store" where
  "describeCliAuthRequest clock now requestId s =
     (let (record, s1) = loadRequest clock now requestId s
      in (map_option (\<lambda>r. (requestId, cq_userCodeHash r \<noteq> None)) record, s1))"

subsection \<open>Start\<close>

record cli_config =
  cc_requestTtlMs :: int
  cc_tokenTtlMs :: int
  cc_apiPublicUrl :: "string option"

record start_result =
  st_requestId :: string
  st_cliSecret :: string
  st_browserUrl :: string
  st_userCode :: "string option"
  st_expiresAt :: int

text \<open>The request id, the secret and the bytes of the user code are fresh.\<close>

definition request_of :: "crypto \<Rightarrow> cli_config \<Rightarrow> int \<Rightarrow> string option \<Rightarrow> string \<Rightarrow> bytes \<Rightarrow> cli_request" where
  "request_of C config now callback cliSecret codeBytes =
     \<lparr>cq_secretHash = sha256Hex C cliSecret, cq_callback = callback, cq_expiresAt = now + cc_requestTtlMs config,
      cq_userCodeHash = (if callback = None then Some (sha256Hex C (normalizeUserCode (mintUserCode codeBytes))) else None)\<rparr>"

definition startCliAuth ::
  "crypto \<Rightarrow> cli_config \<Rightarrow> int \<Rightarrow> int \<Rightarrow> string option \<Rightarrow> string \<Rightarrow> string \<Rightarrow> bytes \<Rightarrow> cp_store \<Rightarrow> start_result \<times> cp_store" where
  "startCliAuth C config clock now callback requestId cliSecret codeBytes s =
     (let record = request_of C config now callback cliSecret codeBytes;
          (_, s1) = redis_set clock (requestKey requestId) (JsonText (RequestJson record)) True (Some (cc_requestTtlMs config)) s
      in (\<lparr>st_requestId = requestId, st_cliSecret = cliSecret,
           st_browserUrl = (case cc_apiPublicUrl config of None \<Rightarrow> [] | Some u \<Rightarrow> u) @ ''/cli/auth/'' @ requestId,
           st_userCode = (if callback = None then Some (mintUserCode codeBytes) else None),
           st_expiresAt = now + cc_requestTtlMs config\<rparr>, s1))"

subsection \<open>Approval\<close>

record approve_args =
  ap_requestId :: string
  ap_userId :: string
  ap_userCode :: "string option"

datatype approve_phase =
    ApLoad
  | ApSeed cli_request
  | ApCount cli_request
  | ApBurn
  | ApGrant cli_request
  | ApRefused
  | ApOk "string option"

definition code_matches :: "crypto \<Rightarrow> cli_request \<Rightarrow> string option \<Rightarrow> bool" where
  "code_matches C record userCode =
     (case cq_userCodeHash record of
        None \<Rightarrow> True
      | Some h \<Rightarrow>
          (let provided = (case userCode of None \<Rightarrow> [] | Some c \<Rightarrow> normalizeUserCode c)
           in provided \<noteq> [] \<and> sha256Hex C provided = h))"

text \<open>The one-time code, minted for a request with a callback.\<close>

definition approve_step ::
  "crypto \<Rightarrow> int \<Rightarrow> int \<Rightarrow> approve_args \<Rightarrow> string \<Rightarrow> approve_phase \<Rightarrow> cp_store \<Rightarrow> approve_phase \<times> cp_store" where
  "approve_step C clock now args code phase s =
     (case phase of
        ApLoad \<Rightarrow>
          (case loadRequest clock now (ap_requestId args) s of
             (None, s1) \<Rightarrow> (ApRefused, s1)
           | (Some record, s1) \<Rightarrow> (if code_matches C record (ap_userCode args) then ApGrant record else ApSeed record, s1))
      | ApSeed record \<Rightarrow>
          (ApCount record,
           snd (redis_set clock (attemptsKey (ap_requestId args)) (NumText 0) True (Some (max 1 (cq_expiresAt record - now))) s))
      | ApCount record \<Rightarrow>
          (case redis_incr clock (attemptsKey (ap_requestId args)) s of
             (attempts, s1) \<Rightarrow> (case attempts of None \<Rightarrow> ApRefused | Some n \<Rightarrow> if MAX_APPROVE_ATTEMPTS \<le> n then ApBurn else ApRefused, s1))
      | ApBurn \<Rightarrow> (ApRefused, redis_del (requestKey (ap_requestId args)) s)
      | ApGrant record \<Rightarrow>
          (case redis_set clock (grantKey (ap_requestId args))
              (JsonText (GrantJson \<lparr>cg_userId = ap_userId args,
                 cg_codeHash = (if cq_callback record = None then None else Some (sha256Hex C code))\<rparr>))
              True (Some (cq_expiresAt record - now)) s of
             (stored, s1) \<Rightarrow> (if stored then ApOk (map_option (\<lambda>cb. appendCode cb code) (cq_callback record)) else ApRefused, s1))
      | done \<Rightarrow> (done, s))"

definition approveCliAuth ::
  "crypto \<Rightarrow> int \<Rightarrow> int \<Rightarrow> approve_args \<Rightarrow> string \<Rightarrow> cp_store \<Rightarrow> approve_phase \<times> cp_store" where
  "approveCliAuth C clock now args code s = ((\<lambda>(p, s). approve_step C clock now args code p s) ^^ 4) (ApLoad, s)"

subsection \<open>Exchange\<close>

record exchange_args =
  ex_requestId :: string
  ex_cliSecret :: string
  ex_code :: "string option"

datatype exchange_phase =
    ExLoad
  | ExTake cli_request
  | ExMint cli_request cli_grant
  | ExRetire string int
  | ExRefused
  | ExPending
  | ExOk string int

definition redirect_matches :: "crypto \<Rightarrow> cli_request \<Rightarrow> cli_grant \<Rightarrow> string option \<Rightarrow> bool" where
  "redirect_matches C record grant code =
     (cq_callback record = None \<or>
      (case (code, cg_codeHash grant) of (Some c, Some h) \<Rightarrow> sha256Hex C c = h | _ \<Rightarrow> False))"

definition exchange_step ::
  "crypto \<Rightarrow> cli_config \<Rightarrow> int \<Rightarrow> int \<Rightarrow> exchange_args \<Rightarrow> string \<Rightarrow> exchange_phase \<Rightarrow> cp_store \<Rightarrow> exchange_phase \<times> cp_store" where
  "exchange_step C config clock now args random phase s =
     (case phase of
        ExLoad \<Rightarrow>
          (case loadRequest clock now (ex_requestId args) s of
             (None, s1) \<Rightarrow> (ExRefused, s1)
           | (Some record, s1) \<Rightarrow> (if sha256Hex C (ex_cliSecret args) \<noteq> cq_secretHash record then ExRefused else ExTake record, s1))
      | ExTake record \<Rightarrow>
          (case redis_getdel clock (grantKey (ex_requestId args)) s of
             (None, s1) \<Rightarrow> (ExPending, s1)
           | (Some raw, s1) \<Rightarrow>
               (case parse_grant raw of
                  None \<Rightarrow> ExRefused
                | Some grant \<Rightarrow> if redirect_matches C record grant (ex_code args) then ExMint record grant else ExRefused, s1))
      | ExMint record grant \<Rightarrow>
          (let secret = mintSecret C ''ct'' random; expiresAt = now + cc_tokenTtlMs config
           in (ExRetire (ms_token secret) expiresAt,
               snd (redis_set clock (cliTokenKey (ms_hash secret))
                 (JsonText (CliTokenJson \<lparr>ct_userId = cg_userId grant, ct_expiresAt = expiresAt\<rparr>)) False (Some (cc_tokenTtlMs config)) s)))
      | ExRetire token expiresAt \<Rightarrow> (ExOk token expiresAt, redis_del (requestKey (ex_requestId args)) s)
      | done \<Rightarrow> (done, s))"

definition exchangeCliAuth ::
  "crypto \<Rightarrow> cli_config \<Rightarrow> int \<Rightarrow> int \<Rightarrow> exchange_args \<Rightarrow> string \<Rightarrow> cp_store \<Rightarrow> exchange_phase \<times> cp_store" where
  "exchangeCliAuth C config clock now args random s =
     ((\<lambda>(p, s). exchange_step C config clock now args random p s) ^^ 4) (ExLoad, s)"

end
