(* ===== verification/CliAuthTheorems.thy ===== *)
theory CliAuthTheorems
  imports CliAuth
begin

text \<open>
  The login of the command line under interleaving: starts, approvals and exchanges of any number of
  replicas, call by call on one store, among calls on keys of other kinds. A token is only minted on an
  approval, one for each.
\<close>

subsection \<open>Interleaved calls\<close>

datatype cli_call = ApproveCall approve_args int approve_phase | ExchangeCall exchange_args int exchange_phase

datatype cli_event =
    StartCliEv int int "string option" string string bytes
  | BeginApprove int int "string option" db string "string option"
  | BeginExchange exchange_args int
  | CallStepEv nat int string
  | ElseEv int "cp_json redis_op"

text \<open>The store, the calls, and what was started, granted and minted.\<close>

record cli_machine =
  cm_store :: cp_store
  cm_calls :: "cli_call list"
  cm_started :: "(string \<times> cli_request) list"
  cm_granted :: "(approve_args \<times> cli_request \<times> cli_grant) list"
  cm_minted :: "(exchange_args \<times> cli_request \<times> cli_grant) list"

fun granted_by :: "crypto \<Rightarrow> string \<Rightarrow> approve_args \<Rightarrow> approve_phase \<Rightarrow> approve_phase \<Rightarrow> (approve_args \<times> cli_request \<times> cli_grant) list" where
  "granted_by C code args (ApGrant record) (ApOk url) =
     [(args, record, \<lparr>cg_userId = ap_userId args, cg_codeHash = (if cq_callback record = None then None else Some (sha256Hex C code))\<rparr>)]"
| "granted_by C code args _ _ = []"

fun minted_by :: "exchange_args \<Rightarrow> exchange_phase \<Rightarrow> (exchange_args \<times> cli_request \<times> cli_grant) list" where
  "minted_by args (ExMint record grant) = [(args, record, grant)]"
| "minted_by args _ = []"

definition call_step :: "crypto \<Rightarrow> cli_config \<Rightarrow> nat \<Rightarrow> int \<Rightarrow> string \<Rightarrow> cli_call \<Rightarrow> cli_machine \<Rightarrow> cli_machine" where
  "call_step C config i clock fresh call s =
     (case call of
        ApproveCall args now phase \<Rightarrow>
          (let (phase', store) = approve_step C clock now args fresh phase (cm_store s)
           in s\<lparr>cm_store := store, cm_calls := (cm_calls s)[i := ApproveCall args now phase'],
                cm_granted := cm_granted s @ granted_by C fresh args phase phase'\<rparr>)
      | ExchangeCall args now phase \<Rightarrow>
          (let (phase', store) = exchange_step C config clock now args fresh phase (cm_store s)
           in s\<lparr>cm_store := store, cm_calls := (cm_calls s)[i := ExchangeCall args now phase'],
                cm_minted := cm_minted s @ minted_by args phase\<rparr>))"

text \<open>
  An approval begins at its route, with the header of the request, the database as it is then and the body: who is not
  signed in is refused there. (A request that the rate limit or the shape of its body stops does not come.)
\<close>

fun cli_step :: "crypto \<Rightarrow> (string \<Rightarrow> string option) \<Rightarrow> cli_config \<Rightarrow> cli_event \<Rightarrow> cli_machine \<Rightarrow> cli_machine" where
  "cli_step C verify config (StartCliEv clock now callback requestId cliSecret codeBytes) s =
     s\<lparr>cm_store := snd (startCliAuth C config clock now callback requestId cliSecret codeBytes (cm_store s)),
       cm_started := cm_started s @ [(requestId, request_of C config now callback cliSecret codeBytes)]\<rparr>"
| "cli_step C verify config (BeginApprove clock now header db requestId userCode) s =
     (case authenticateHuman C verify db clock (cm_store s) now header of
        None \<Rightarrow> s
      | Some (user, org) \<Rightarrow>
          s\<lparr>cm_calls := cm_calls s @
            [ApproveCall \<lparr>ap_requestId = requestId, ap_userId = us_id user, ap_userCode = userCode\<rparr> now ApLoad]\<rparr>)"
| "cli_step C verify config (BeginExchange args now) s = s\<lparr>cm_calls := cm_calls s @ [ExchangeCall args now ExLoad]\<rparr>"
| "cli_step C verify config (CallStepEv i clock fresh) s =
     (if i < length (cm_calls s) then call_step C config i clock fresh (cm_calls s ! i) s else s)"
| "cli_step C verify config (ElseEv clock op) s =
     (if has_prefix ''cliauth:'' (op_key op) then s else s\<lparr>cm_store := snd (redis_exec clock op (cm_store s))\<rparr>)"

definition cli_run where
  "cli_run C verify config evs =
     fold (cli_step C verify config) evs \<lparr>cm_store = [], cm_calls = [], cm_started = [], cm_granted = [], cm_minted = []\<rparr>"

subsection \<open>The invariant\<close>

lemma cli_keys [simp]:
  "requestKey r \<noteq> grantKey q" "grantKey q \<noteq> requestKey r" "requestKey r \<noteq> attemptsKey q" "grantKey r \<noteq> attemptsKey q"
  "requestKey r \<noteq> cliTokenKey q" "grantKey r \<noteq> cliTokenKey q"
  "requestKey r = requestKey q \<longleftrightarrow> r = q" "grantKey r = grantKey q \<longleftrightarrow> r = q"
  "has_prefix ''cliauth:'' (requestKey r)" "has_prefix ''cliauth:'' (grantKey r)"
  by (simp_all add: requestKey_def grantKey_def attemptsKey_def cliTokenKey_def has_prefix_def)

definition exchange_good :: "crypto \<Rightarrow> cli_machine \<Rightarrow> exchange_args \<Rightarrow> cli_request \<Rightarrow> bool" where
  "exchange_good C s args record \<longleftrightarrow>
     (ex_requestId args, record) \<in> set (cm_started s) \<and> sha256Hex C (ex_cliSecret args) = cq_secretHash record"

definition approve_good :: "crypto \<Rightarrow> cli_machine \<Rightarrow> approve_args \<Rightarrow> cli_request \<Rightarrow> bool" where
  "approve_good C s args record \<longleftrightarrow> (ap_requestId args, record) \<in> set (cm_started s) \<and> code_matches C record (ap_userCode args)"

fun call_ok :: "crypto \<Rightarrow> cli_machine \<Rightarrow> cli_call \<Rightarrow> bool" where
  "call_ok C s (ApproveCall args now (ApGrant record)) \<longleftrightarrow> approve_good C s args record"
| "call_ok C s (ExchangeCall args now (ExTake record)) \<longleftrightarrow> exchange_good C s args record"
| "call_ok C s (ExchangeCall args now (ExMint record grant)) \<longleftrightarrow>
     exchange_good C s args record \<and> redirect_matches C record grant (ex_code args)"
| "call_ok C s _ \<longleftrightarrow> True"

text \<open>The grants of a request that are in the store, in the hands of an exchange, or turned into a token.\<close>

fun in_hand :: "cli_call \<Rightarrow> (string \<times> cli_grant) option" where
  "in_hand (ExchangeCall args now (ExMint record grant)) = Some (ex_requestId args, grant)"
| "in_hand _ = None"

definition hands :: "string \<Rightarrow> cli_grant \<Rightarrow> cli_call list \<Rightarrow> nat" where
  "hands r g calls = length (filter (\<lambda>c. in_hand c = Some (r, g)) calls)"

definition tokens_of :: "string \<Rightarrow> cli_grant \<Rightarrow> cli_machine \<Rightarrow> nat" where
  "tokens_of r g s = length (filter (\<lambda>(args, record, grant). ex_requestId args = r \<and> grant = g) (cm_minted s))"

definition grants_of :: "string \<Rightarrow> cli_grant \<Rightarrow> cli_machine \<Rightarrow> nat" where
  "grants_of r g s = length (filter (\<lambda>(args, record, grant). ap_requestId args = r \<and> grant = g) (cm_granted s))"

definition stored :: "string \<Rightarrow> cli_grant \<Rightarrow> cp_store \<Rightarrow> nat" where
  "stored r g store = (if holds (grantKey r) (JsonText (GrantJson g)) store then 1 else 0)"

definition cli_ok :: "crypto \<Rightarrow> cli_machine \<Rightarrow> bool" where
  "cli_ok C s \<longleftrightarrow>
     (\<forall>r q. holds (requestKey r) (JsonText (RequestJson q)) (cm_store s) \<longrightarrow> (r, q) \<in> set (cm_started s)) \<and>
     (\<forall>c \<in> set (cm_calls s). call_ok C s c) \<and>
     (\<forall>(args, record, grant) \<in> set (cm_granted s). approve_good C s args record \<and> cg_userId grant = ap_userId args) \<and>
     (\<forall>(args, record, grant) \<in> set (cm_minted s). exchange_good C s args record \<and> redirect_matches C record grant (ex_code args)) \<and>
     (\<forall>r g. stored r g (cm_store s) + hands r g (cm_calls s) + tokens_of r g s \<le> grants_of r g s)"

lemma cli_okI:
  assumes "\<And>r q. holds (requestKey r) (JsonText (RequestJson q)) (cm_store s) \<Longrightarrow> (r, q) \<in> set (cm_started s)"
    and "\<And>c. c \<in> set (cm_calls s) \<Longrightarrow> call_ok C s c"
    and "\<And>args record grant. (args, record, grant) \<in> set (cm_granted s) \<Longrightarrow> approve_good C s args record \<and> cg_userId grant = ap_userId args"
    and "\<And>args record grant. (args, record, grant) \<in> set (cm_minted s) \<Longrightarrow>
      exchange_good C s args record \<and> redirect_matches C record grant (ex_code args)"
    and "\<And>r g. stored r g (cm_store s) + hands r g (cm_calls s) + tokens_of r g s \<le> grants_of r g s"
  shows "cli_ok C s"
  unfolding cli_ok_def using assms by blast

lemma cli_parts:
  assumes "cli_ok C s"
  shows "\<And>r q. holds (requestKey r) (JsonText (RequestJson q)) (cm_store s) \<Longrightarrow> (r, q) \<in> set (cm_started s)"
    and "\<And>c. c \<in> set (cm_calls s) \<Longrightarrow> call_ok C s c"
    and "\<And>args record grant. (args, record, grant) \<in> set (cm_granted s) \<Longrightarrow> approve_good C s args record \<and> cg_userId grant = ap_userId args"
    and "\<And>args record grant. (args, record, grant) \<in> set (cm_minted s) \<Longrightarrow>
      exchange_good C s args record \<and> redirect_matches C record grant (ex_code args)"
    and "\<And>r g. stored r g (cm_store s) + hands r g (cm_calls s) + tokens_of r g s \<le> grants_of r g s"
  using assms unfolding cli_ok_def by blast+

lemma call_ok_mono:
  "call_ok C s c \<Longrightarrow> set (cm_started s) \<subseteq> set (cm_started s') \<Longrightarrow> call_ok C s' c"
  by (cases "(C, s, c)" rule: call_ok.cases) (auto simp: exchange_good_def approve_good_def)

lemma hands_append [simp]: "hands r g (xs @ ys) = hands r g xs + hands r g ys"
  by (simp add: hands_def)

lemma hands_Cons [simp]: "hands r g (c # ys) = (if in_hand c = Some (r, g) then 1 else 0) + hands r g ys"
  by (simp add: hands_def)

lemma hands_Nil [simp]: "hands r g [] = 0"
  by (simp add: hands_def)

text \<open>A step on one call, from what it does to the store, the call and the records of grants and tokens.\<close>

lemma replace_ok:
  assumes ok: "cli_ok C s" and cs: "cm_calls s = xs @ c # ys"
    and reqs: "\<And>r q. holds (requestKey r) (JsonText (RequestJson q)) store \<Longrightarrow> holds (requestKey r) (JsonText (RequestJson q)) (cm_store s)"
    and call: "call_ok C s c'"
    and granted: "\<And>args record grant. (args, record, grant) \<in> set gs \<Longrightarrow> approve_good C s args record \<and> cg_userId grant = ap_userId args"
    and minted: "\<And>args record grant. (args, record, grant) \<in> set ms \<Longrightarrow>
      exchange_good C s args record \<and> redirect_matches C record grant (ex_code args)"
    and count: "\<And>r g. stored r g store + (if in_hand c' = Some (r, g) then 1 else 0) +
        length (filter (\<lambda>(args, record, grant). ex_requestId args = r \<and> grant = g) ms) \<le>
      stored r g (cm_store s) + (if in_hand c = Some (r, g) then 1 else 0) +
        length (filter (\<lambda>(args, record, grant). ap_requestId args = r \<and> grant = g) gs)"
  shows "cli_ok C (s\<lparr>cm_store := store, cm_calls := xs @ c' # ys, cm_granted := cm_granted s @ gs, cm_minted := cm_minted s @ ms\<rparr>)"
    (is "cli_ok C ?s")
proof (rule cli_okI)
  note p = cli_parts [OF ok]
  have good: "approve_good C ?s = approve_good C s" "exchange_good C ?s = exchange_good C s"
    by (simp_all add: approve_good_def exchange_good_def fun_eq_iff)
  show "(r, q) \<in> set (cm_started ?s)" if "holds (requestKey r) (JsonText (RequestJson q)) (cm_store ?s)" for r q
    using that reqs p(1) by simp
  show "call_ok C ?s d" if "d \<in> set (cm_calls ?s)" for d
  proof -
    have "call_ok C s d" using that call p(2) cs by auto
    then show ?thesis by (rule call_ok_mono) simp
  qed
  show "approve_good C ?s args req \<and> cg_userId grant = ap_userId args" if "(args, req, grant) \<in> set (cm_granted ?s)" for args req grant
    using that granted p(3) unfolding good by auto
  show "exchange_good C ?s args req \<and> redirect_matches C req grant (ex_code args)"
    if "(args, req, grant) \<in> set (cm_minted ?s)" for args req grant
    using that minted p(4) unfolding good by auto
  show "stored r g (cm_store ?s) + hands r g (cm_calls ?s) + tokens_of r g ?s \<le> grants_of r g ?s" for r g
    using p(5) [of r g] count [of r g] by (simp add: cs tokens_of_def grants_of_def)
qed

lemma load_facts:
  assumes "loadRequest clock now r s = (res, s')"
  shows "res = Some q \<Longrightarrow> holds (requestKey r) (JsonText (RequestJson q)) s"
    and "holds k v s' \<Longrightarrow> holds k v s"
proof -
  have raw: "parse_request v = Some q \<Longrightarrow> v = JsonText (RequestJson q)" for v
    by (auto simp: parse_request_def split: redis_value.splits cp_json.splits)
  show "res = Some q \<Longrightarrow> holds (requestKey r) (JsonText (RequestJson q)) s"
    using assms holds_get raw by (fastforce simp: loadRequest_def case_prod_beta Let_def split: option.splits if_splits)
  show "holds k v s' \<Longrightarrow> holds k v s"
    using assms by (auto simp: loadRequest_def case_prod_beta Let_def)
qed

lemma stored_le: "(holds (grantKey r) (JsonText (GrantJson g)) store' \<Longrightarrow> holds (grantKey r) (JsonText (GrantJson g)) store) \<Longrightarrow>
    stored r g store' \<le> stored r g store"
  by (auto simp: stored_def)

text \<open>A step that only lets the store lose keys and has no grant in hand.\<close>

lemma quiet_step:
  assumes ok: "cli_ok C s" and cs: "cm_calls s = xs @ c # ys"
    and sub: "\<And>k v. k \<in> range requestKey \<union> range grantKey \<Longrightarrow> holds k v store \<Longrightarrow> holds k v (cm_store s)"
    and call: "call_ok C s c'" and hand: "in_hand c' = None"
  shows "cli_ok C (s\<lparr>cm_store := store, cm_calls := xs @ c' # ys, cm_granted := cm_granted s @ [], cm_minted := cm_minted s @ []\<rparr>)"
proof (rule replace_ok [OF ok cs])
  show "stored r g store + (if in_hand c' = Some (r, g) then 1 else 0) +
        length (filter (\<lambda>(args, record, grant). ex_requestId args = r \<and> grant = g) []) \<le>
      stored r g (cm_store s) + (if in_hand c = Some (r, g) then 1 else 0) +
        length (filter (\<lambda>(args, record, grant). ap_requestId args = r \<and> grant = g) [])" for r g
    using stored_le [of r g store "cm_store s"] sub hand by auto
qed (use sub call in auto)

lemma approve_ok:
  assumes ok: "cli_ok C s" and cs: "cm_calls s = xs @ ApproveCall args now phase # ys"
    and st: "approve_step C clock now args code phase (cm_store s) = (phase', store)"
  shows "cli_ok C (s\<lparr>cm_store := store, cm_calls := xs @ ApproveCall args now phase' # ys,
      cm_granted := cm_granted s @ granted_by C code args phase phase', cm_minted := cm_minted s @ []\<rparr>)"
proof -
  have here: "call_ok C s (ApproveCall args now phase)" using cli_parts(2) [OF ok] cs by simp
  show ?thesis
  proof (cases phase)
    case ApLoad
    obtain res s1 where l: "loadRequest clock now (ap_requestId args) (cm_store s) = (res, s1)" by fastforce
    have "store = s1" "phase' = (case res of None \<Rightarrow> ApRefused | Some q \<Rightarrow> if code_matches C q (ap_userCode args) then ApGrant q else ApSeed q)"
      using st l by (auto simp: ApLoad approve_step_def split: option.splits)
    moreover have "call_ok C s (ApproveCall args now phase')"
      using calculation(2) load_facts(1) [OF l] cli_parts(1) [OF ok]
      by (auto simp: approve_good_def split: option.splits)
    ultimately show ?thesis using quiet_step [OF ok cs, of store "ApproveCall args now phase'"] load_facts(2) [OF l] by (simp add: ApLoad)
  next
    case (ApSeed q)
    obtain won s1 where w: "redis_set clock (attemptsKey (ap_requestId args)) (NumText 0) True (Some (max 1 (cq_expiresAt q - now))) (cm_store s) = (won, s1)"
      by fastforce
    have h: "k \<noteq> attemptsKey (ap_requestId args) \<Longrightarrow> holds k v s1 = holds k v (cm_store s)" for k v
      using holds_set_other [of k "attemptsKey (ap_requestId args)" v clock "NumText 0" True "Some (max 1 (cq_expiresAt q - now))" "cm_store s"] w by simp
    have p: "store = s1" "phase' = ApCount q" using st w by (auto simp: ApSeed approve_step_def)
    have "k \<in> range requestKey \<union> range grantKey \<Longrightarrow> holds k v s1 \<Longrightarrow> holds k v (cm_store s)" for k v using h by auto
    from quiet_step [OF ok cs this, where c' = "ApproveCall args now phase'"] show ?thesis by (simp add: ApSeed p)
  next
    case (ApCount q)
    obtain n s1 where i: "redis_incr clock (attemptsKey (ap_requestId args)) (cm_store s) = (n, s1)" by fastforce
    have h: "k \<noteq> attemptsKey (ap_requestId args) \<Longrightarrow> holds k v s1 = holds k v (cm_store s)" for k v
      using holds_incr_other [of k "attemptsKey (ap_requestId args)" v clock "cm_store s"] i by simp
    have p: "store = s1" "phase' = ApRefused \<or> phase' = ApBurn"
      using st i by (auto simp: ApCount approve_step_def split: option.splits if_splits)
    have "k \<in> range requestKey \<union> range grantKey \<Longrightarrow> holds k v s1 \<Longrightarrow> holds k v (cm_store s)" for k v using h by auto
    from quiet_step [OF ok cs this, where c' = "ApproveCall args now phase'"] show ?thesis using p by (auto simp: ApCount)
  next
    case ApBurn
    then have "store = redis_del (requestKey (ap_requestId args)) (cm_store s)" "phase' = ApRefused" using st by (auto simp: approve_step_def)
    then show ?thesis using quiet_step [OF ok cs, of store "ApproveCall args now phase'"] by (auto simp: ApBurn)
  next
    case (ApGrant q)
    let ?g = "\<lparr>cg_userId = ap_userId args, cg_codeHash = (if cq_callback q = None then None else Some (sha256Hex C code))\<rparr>"
    let ?k = "grantKey (ap_requestId args)"
    obtain won s1 where w: "redis_set clock ?k (JsonText (GrantJson ?g)) True (Some (cq_expiresAt q - now)) (cm_store s) = (won, s1)" by fastforce
    have good: "approve_good C s args q" using here ApGrant by simp
    have other: "k \<noteq> ?k \<Longrightarrow> holds k v s1 = holds k v (cm_store s)" for k v
      using holds_set_other [of k ?k v clock "JsonText (GrantJson ?g)" True "Some (cq_expiresAt q - now)" "cm_store s"] w by simp
    show ?thesis
    proof (cases won)
      case True
      then have p: "store = s1" "phase' = ApOk (map_option (\<lambda>cb. appendCode cb code) (cq_callback q))"
        using st w by (auto simp: ApGrant approve_step_def)
      have mine: "holds ?k v s1 = (v = JsonText (GrantJson ?g))" for v
        using holds_set_won [of clock ?k "JsonText (GrantJson ?g)" True "Some (cq_expiresAt q - now)" "cm_store s" v] w True by simp
      show ?thesis unfolding p ApGrant granted_by.simps
      proof (rule replace_ok [OF ok cs [unfolded ApGrant]])
        show "stored r g s1 + (if in_hand (ApproveCall args now (ApOk (map_option (\<lambda>cb. appendCode cb code) (cq_callback q)))) = Some (r, g) then 1 else 0) +
            length (filter (\<lambda>(args, record, grant). ex_requestId args = r \<and> grant = g) []) \<le>
          stored r g (cm_store s) + (if in_hand (ApproveCall args now (ApGrant q)) = Some (r, g) then 1 else 0) +
            length (filter (\<lambda>(args, record, grant). ap_requestId args = r \<and> grant = g) [(args, q, ?g)])" for r g
          using other [of "grantKey r" "JsonText (GrantJson g)"]
          by (cases "r = ap_requestId args") (auto simp: stored_def mine)
      qed (use other good in auto)
    next
      case False
      then have p: "store = s1" "phase' = ApRefused" using st w by (auto simp: ApGrant approve_step_def)
      have "holds k v s1 \<Longrightarrow> holds k v (cm_store s)" for k v
        using other holds_set_lost [of clock ?k "JsonText (GrantJson ?g)" True "Some (cq_expiresAt q - now)" "cm_store s" v] w False
        by (cases "k = ?k") auto
      then show ?thesis using quiet_step [OF ok cs, of store "ApproveCall args now phase'"] p by (simp add: ApGrant)
    qed
  next
    case ApRefused
    then show ?thesis using st quiet_step [OF ok cs, of store "ApproveCall args now phase'"] by (auto simp: approve_step_def)
  next
    case (ApOk url)
    then show ?thesis using st quiet_step [OF ok cs, of store "ApproveCall args now phase'"] by (auto simp: approve_step_def)
  qed
qed

lemma exchange_ok:
  assumes ok: "cli_ok C s" and cs: "cm_calls s = xs @ ExchangeCall args now phase # ys"
    and st: "exchange_step C config clock now args random phase (cm_store s) = (phase', store)"
  shows "cli_ok C (s\<lparr>cm_store := store, cm_calls := xs @ ExchangeCall args now phase' # ys,
      cm_granted := cm_granted s @ [], cm_minted := cm_minted s @ minted_by args phase\<rparr>)"
proof -
  have here: "call_ok C s (ExchangeCall args now phase)" using cli_parts(2) [OF ok] cs by simp
  show ?thesis
  proof (cases phase)
    case ExLoad
    obtain res s1 where l: "loadRequest clock now (ex_requestId args) (cm_store s) = (res, s1)" by fastforce
    have "store = s1" "phase' = (case res of None \<Rightarrow> ExRefused | Some q \<Rightarrow> if sha256Hex C (ex_cliSecret args) \<noteq> cq_secretHash q then ExRefused else ExTake q)"
      using st l by (auto simp: ExLoad exchange_step_def split: option.splits)
    moreover have "call_ok C s (ExchangeCall args now phase')"
      using calculation(2) load_facts(1) [OF l] cli_parts(1) [OF ok]
      by (auto simp: exchange_good_def split: option.splits)
    moreover have "in_hand (ExchangeCall args now phase') = None" using calculation(2) by (auto split: option.splits)
    ultimately show ?thesis using quiet_step [OF ok cs, of store "ExchangeCall args now phase'"] load_facts(2) [OF l] by (simp add: ExLoad)
  next
    case (ExTake q)
    let ?k = "grantKey (ex_requestId args)"
    obtain raw s1 where g: "redis_getdel clock ?k (cm_store s) = (raw, s1)" by fastforce
    have sub: "holds k v s1 \<Longrightarrow> holds k v (cm_store s)" for k v using holds_getdel_after [of k v clock ?k "cm_store s"] g by simp
    have store: "store = s1" using st g by (auto simp: ExTake exchange_step_def split: option.splits)
    show ?thesis
    proof (cases "\<exists>grant. phase' = ExMint q grant")
      case False
      then have "phase' = ExPending \<or> phase' = ExRefused"
        using st g by (auto simp: ExTake exchange_step_def split: option.splits if_splits)
      then show ?thesis using quiet_step [OF ok cs, of store "ExchangeCall args now phase'"] sub store by (auto simp: ExTake)
    next
      case True
      then obtain grant where p: "phase' = ExMint q grant" by blast
      then obtain v where v: "raw = Some v" "parse_grant v = Some grant" "redirect_matches C q grant (ex_code args)"
        using st g by (auto simp: ExTake exchange_step_def split: option.splits if_splits)
      then have "raw = Some (JsonText (GrantJson grant))" by (auto simp: parse_grant_def split: redis_value.splits cp_json.splits)
      then have h: "holds ?k (JsonText (GrantJson grant)) (cm_store s)" "\<And>w. \<not> holds ?k w s1"
        using holds_getdel [of clock ?k "cm_store s"] g by auto
      show ?thesis unfolding p store ExTake minted_by.simps
      proof (rule replace_ok [OF ok cs [unfolded ExTake]])
        show "call_ok C s (ExchangeCall args now (ExMint q grant))" using here ExTake v(3) by simp
        show "stored r g s1 + (if in_hand (ExchangeCall args now (ExMint q grant)) = Some (r, g) then 1 else 0) +
            length (filter (\<lambda>(args, record, grant). ex_requestId args = r \<and> grant = g) []) \<le>
          stored r g (cm_store s) + (if in_hand (ExchangeCall args now (ExTake q)) = Some (r, g) then 1 else 0) +
            length (filter (\<lambda>(args, record, grant). ap_requestId args = r \<and> grant = g) [])" for r g
          using h sub [of "grantKey r" "JsonText (GrantJson g)"] by (cases "r = ex_requestId args") (auto simp: stored_def)
      qed (use sub in auto)
    qed
  next
    case (ExMint q grant)
    then have p: "phase' = ExRetire (ms_token (mintSecret C ''ct'' random)) (now + cc_tokenTtlMs config)"
      and sub: "k \<in> range requestKey \<union> range grantKey \<Longrightarrow> holds k v store = holds k v (cm_store s)" for k v
      using st by (auto simp: exchange_step_def Let_def holds_simps)
    show ?thesis unfolding p ExMint minted_by.simps
    proof (rule replace_ok [OF ok cs [unfolded ExMint]])
      show "stored r g store + (if in_hand (ExchangeCall args now (ExRetire (ms_token (mintSecret C ''ct'' random)) (now + cc_tokenTtlMs config))) = Some (r, g) then 1 else 0) +
          length (filter (\<lambda>(args, record, grant). ex_requestId args = r \<and> grant = g) [(args, q, grant)]) \<le>
        stored r g (cm_store s) + (if in_hand (ExchangeCall args now (ExMint q grant)) = Some (r, g) then 1 else 0) +
          length (filter (\<lambda>(args, record, grant). ap_requestId args = r \<and> grant = g) [])" for r g
        using sub by (auto simp: stored_def)
    qed (use sub here ExMint in auto)
  next
    case (ExRetire token e)
    then have "store = redis_del (requestKey (ex_requestId args)) (cm_store s)" "phase' = ExOk token e" using st by (auto simp: exchange_step_def)
    then show ?thesis using quiet_step [OF ok cs, of store "ExchangeCall args now phase'"] by (auto simp: ExRetire)
  next
    case ExRefused
    then show ?thesis using st quiet_step [OF ok cs, of store "ExchangeCall args now phase'"] by (auto simp: exchange_step_def)
  next
    case ExPending
    then show ?thesis using st quiet_step [OF ok cs, of store "ExchangeCall args now phase'"] by (auto simp: exchange_step_def)
  next
    case (ExOk token e)
    then show ?thesis using st quiet_step [OF ok cs, of store "ExchangeCall args now phase'"] by (auto simp: exchange_step_def)
  qed
qed

text \<open>A step that touches neither the calls nor what was granted and minted.\<close>

lemma outside_ok:
  assumes ok: "cli_ok C s"
    and reqs: "\<And>r q. holds (requestKey r) (JsonText (RequestJson q)) store \<Longrightarrow>
      holds (requestKey r) (JsonText (RequestJson q)) (cm_store s) \<or> (r, q) \<in> set started"
    and grants: "\<And>r g. holds (grantKey r) (JsonText (GrantJson g)) store \<Longrightarrow> holds (grantKey r) (JsonText (GrantJson g)) (cm_store s)"
    and more': "set (cm_started s) \<subseteq> set started"
  shows "cli_ok C (s\<lparr>cm_store := store, cm_started := started\<rparr>)" (is "cli_ok C ?s")
proof (rule cli_okI)
  note p = cli_parts [OF ok]
  have mono: "approve_good C s a q \<Longrightarrow> approve_good C ?s a q" "exchange_good C s e q \<Longrightarrow> exchange_good C ?s e q" for a e q
    using more' by (auto simp: approve_good_def exchange_good_def)
  show "(r, q) \<in> set (cm_started ?s)" if "holds (requestKey r) (JsonText (RequestJson q)) (cm_store ?s)" for r q
    using that reqs [of r q] p(1) more' by auto
  show "call_ok C ?s c" if "c \<in> set (cm_calls ?s)" for c
    using that p(2) [of c] call_ok_mono [of C s c ?s] more' by simp
  show "approve_good C ?s args req \<and> cg_userId grant = ap_userId args" if "(args, req, grant) \<in> set (cm_granted ?s)" for args req grant
    using that p(3) [of args req grant] mono(1) by simp
  show "exchange_good C ?s args req \<and> redirect_matches C req grant (ex_code args)"
    if "(args, req, grant) \<in> set (cm_minted ?s)" for args req grant
    using that p(4) [of args req grant] mono(2) by simp
  show "stored r g (cm_store ?s) + hands r g (cm_calls ?s) + tokens_of r g ?s \<le> grants_of r g ?s" for r g
    using p(5) [of r g] stored_le [of r g store "cm_store s"] grants by (simp add: tokens_of_def grants_of_def)
qed

lemma call_step_ok:
  assumes ok: "cli_ok C s" and i: "i < length (cm_calls s)"
  shows "cli_ok C (call_step C config i clock fresh (cm_calls s ! i) s)"
proof -
  have cs: "cm_calls s = take i (cm_calls s) @ cm_calls s ! i # drop (Suc i) (cm_calls s)" using i by (rule id_take_nth_drop)
  have upd: "(cm_calls s)[i := c] = take i (cm_calls s) @ c # drop (Suc i) (cm_calls s)" for c using i by (rule upd_conv_take_nth_drop)
  show ?thesis
  proof (cases "cm_calls s ! i")
    case (ApproveCall args now phase)
    obtain phase' store where st: "approve_step C clock now args fresh phase (cm_store s) = (phase', store)" by fastforce
    from approve_ok [OF ok cs [unfolded ApproveCall] st] show ?thesis by (simp add: call_step_def ApproveCall st upd)
  next
    case (ExchangeCall args now phase)
    obtain phase' store where st: "exchange_step C config clock now args fresh phase (cm_store s) = (phase', store)" by fastforce
    from exchange_ok [OF ok cs [unfolded ExchangeCall] st] show ?thesis by (simp add: call_step_def ExchangeCall st upd)
  qed
qed

lemma start_ok:
  assumes ok: "cli_ok C s"
  shows "cli_ok C (cli_step C verify config (StartCliEv clock now callback requestId cliSecret codeBytes) s)"
proof -
  let ?q = "request_of C config now callback cliSecret codeBytes"
  let ?set = "redis_set clock (requestKey requestId) (JsonText (RequestJson ?q)) True (Some (cc_requestTtlMs config)) (cm_store s)"
  have store: "snd (startCliAuth C config clock now callback requestId cliSecret codeBytes (cm_store s)) = snd ?set"
    by (simp add: startCliAuth_def case_prod_beta)
  have other: "k \<noteq> requestKey requestId \<Longrightarrow> holds k v (snd ?set) = holds k v (cm_store s)" for k v
    by (rule holds_set_other)
  show ?thesis unfolding cli_step.simps store
  proof (rule outside_ok [OF ok])
    show "holds (requestKey r) (JsonText (RequestJson q)) (cm_store s) \<or> (r, q) \<in> set (cm_started s @ [(requestId, ?q)])"
      if "holds (requestKey r) (JsonText (RequestJson q)) (snd ?set)" for r q
      using that other [of "requestKey r" "JsonText (RequestJson q)"] holds_set_won holds_set_lost
      by (cases "r = requestId"; cases "fst ?set") fastforce+
  qed (use other in auto)
qed

lemma begin_ok:
  assumes ok: "cli_ok C s" and call: "call_ok C s c" and hand: "in_hand c = None"
  shows "cli_ok C (s\<lparr>cm_calls := cm_calls s @ [c]\<rparr>)" (is "cli_ok C ?s")
proof (rule cli_okI)
  note p = cli_parts [OF ok]
  have good: "approve_good C ?s = approve_good C s" "exchange_good C ?s = exchange_good C s"
    by (simp_all add: approve_good_def exchange_good_def fun_eq_iff)
  show "call_ok C ?s d" if "d \<in> set (cm_calls ?s)" for d
  proof -
    have "call_ok C s d" using that call p(2) by auto
    then show ?thesis by (rule call_ok_mono) simp
  qed
  show "stored r g (cm_store ?s) + hands r g (cm_calls ?s) + tokens_of r g ?s \<le> grants_of r g ?s" for r g
    using p(5) [of r g] hand by (simp add: tokens_of_def grants_of_def)
qed (use cli_parts [OF ok] in \<open>simp_all add: approve_good_def exchange_good_def\<close>)

lemma cli_step_ok: "cli_ok C s \<Longrightarrow> cli_ok C (cli_step C verify config ev s)"
proof (cases ev)
  case (ElseEv clock op)
  assume ok: "cli_ok C s"
  show ?thesis
  proof (cases "has_prefix ''cliauth:'' (op_key op)")
    case False
    then have sub: "holds k v (snd (redis_exec clock op (cm_store s))) \<Longrightarrow> holds k v (cm_store s)" if "has_prefix ''cliauth:'' k" for k v
      using that holds_other [of k op v clock "cm_store s"] by metis
    have "cli_ok C (s\<lparr>cm_store := snd (redis_exec clock op (cm_store s)), cm_started := cm_started s\<rparr>)"
      by (rule outside_ok [OF ok]) (use sub in auto)
    then show ?thesis using False by (simp add: ElseEv)
  qed (use ok ElseEv in simp)
qed (auto simp: start_ok [unfolded cli_step.simps] call_step_ok begin_ok split: option.split)

lemma cli_run_ok: "cli_ok C (cli_run C verify config evs)"
proof -
  have "cli_ok C s \<Longrightarrow> cli_ok C (fold (cli_step C verify config) evs s)" for s
    by (induction evs arbitrary: s) (auto simp: cli_step_ok)
  moreover have "cli_ok C \<lparr>cm_store = [], cm_calls = [], cm_started = [], cm_granted = [], cm_minted = []\<rparr>"
    by (auto simp: cli_ok_def holds_def stored_def tokens_of_def grants_of_def)
  ultimately show ?thesis by (simp add: cli_run_def)
qed

subsection \<open>What the endpoint promises\<close>

text \<open>What stands for a token in the store was put there by an exchange.\<close>

lemma token_keys [simp]:
  "cliTokenKey h \<noteq> requestKey r" "cliTokenKey h \<noteq> grantKey r" "cliTokenKey h \<noteq> attemptsKey r" "has_prefix ''cliauth:'' (cliTokenKey h)"
  by (simp_all add: requestKey_def grantKey_def attemptsKey_def cliTokenKey_def has_prefix_def)

lemma approve_tokens:
  assumes "approve_step C clock now args code phase s = (phase', s')" and "holds (cliTokenKey h) v s'"
  shows "holds (cliTokenKey h) v s"
proof (cases phase)
  case ApLoad
  obtain res s1 where l: "loadRequest clock now (ap_requestId args) s = (res, s1)" by fastforce
  then have "s' = s1" using assms(1) ApLoad by (auto simp: approve_step_def split: option.splits)
  then show ?thesis using load_facts(2) [OF l] assms(2) by simp
next
  case (ApSeed q)
  then show ?thesis using assms by (auto simp: approve_step_def holds_simps)
next
  case (ApCount q)
  then have "s' = snd (redis_incr clock (attemptsKey (ap_requestId args)) s)" using assms(1) by (auto simp: approve_step_def split: prod.splits)
  then show ?thesis using assms(2) by (simp add: holds_simps)
next
  case (ApGrant q)
  then have "\<exists>w px. s' = snd (redis_set clock (grantKey (ap_requestId args)) w True px s)"
    using assms(1) by (auto simp: approve_step_def split: prod.splits) (metis snd_conv)+
  then show ?thesis using assms(2) by (auto simp: holds_simps)
qed (use assms in \<open>auto simp: approve_step_def\<close>)

lemma exchange_tokens:
  assumes "exchange_step C config clock now args random phase s = (phase', s')"
    and "holds (cliTokenKey h) (JsonText (CliTokenJson t)) s'"
  shows "holds (cliTokenKey h) (JsonText (CliTokenJson t)) s \<or>
    (\<exists>q g. phase = ExMint q g \<and> ct_userId t = cg_userId g \<and> ct_expiresAt t = now + cc_tokenTtlMs config)"
proof (cases phase)
  case ExLoad
  obtain res s1 where l: "loadRequest clock now (ex_requestId args) s = (res, s1)" by fastforce
  then have "s' = s1" using assms(1) ExLoad by (auto simp: exchange_step_def split: option.splits)
  then show ?thesis using load_facts(2) [OF l] assms(2) by simp
next
  case (ExTake q)
  then have "s' = snd (redis_getdel clock (grantKey (ex_requestId args)) s)"
    using assms(1) by (auto simp: exchange_step_def split: prod.splits option.splits)
  then show ?thesis using assms(2) by auto
next
  case (ExMint q g)
  let ?k = "cliTokenKey (ms_hash (mintSecret C ''ct'' random))"
  let ?w = "JsonText (CliTokenJson \<lparr>ct_userId = cg_userId g, ct_expiresAt = now + cc_tokenTtlMs config\<rparr>) :: cp_json redis_value"
  have s': "s' = snd (redis_set clock ?k ?w False (Some (cc_tokenTtlMs config)) s)"
    using assms(1) ExMint by (simp add: exchange_step_def Let_def)
  show ?thesis
  proof (cases "cliTokenKey h = ?k")
    case True
    have "fst (redis_set clock ?k ?w False (Some (cc_tokenTtlMs config)) s)" by (simp add: redis_set_def case_prod_beta)
    then have "JsonText (CliTokenJson t) = ?w" using holds_set_won assms(2) True unfolding s' by metis
    then show ?thesis using ExMint by auto
  next
    case False
    then show ?thesis using assms(2) unfolding s' by (simp add: holds_simps)
  qed
qed (use assms in \<open>auto simp: exchange_step_def\<close>)

text \<open>An approval is one that a signed-in human asked for, at the time of the run when it was asked for.\<close>

definition asked_by ::
  "crypto \<Rightarrow> (string \<Rightarrow> string option) \<Rightarrow> cli_config \<Rightarrow> cli_event list \<Rightarrow> approve_args \<Rightarrow> user_row \<Rightarrow> bool" where
  "asked_by C verify config evs args user \<longleftrightarrow>
     (\<exists>before after clock now header db org.
        evs = before @ BeginApprove clock now header db (ap_requestId args) (ap_userCode args) # after \<and>
        authenticateHuman C verify db clock (cm_store (cli_run C verify config before)) now header = Some (user, org))"

definition approver :: "crypto \<Rightarrow> (string \<Rightarrow> string option) \<Rightarrow> cli_config \<Rightarrow> cli_event list \<Rightarrow> approve_args \<Rightarrow> bool" where
  "approver C verify config evs args \<longleftrightarrow> (\<exists>user. asked_by C verify config evs args user \<and> ap_userId args = us_id user)"

lemma approver_later: "approver C verify config evs args \<Longrightarrow> approver C verify config (evs @ [e]) args"
  unfolding approver_def asked_by_def by fastforce

definition login_traced :: "crypto \<Rightarrow> (string \<Rightarrow> string option) \<Rightarrow> cli_config \<Rightarrow> cli_event list \<Rightarrow> cli_machine \<Rightarrow> bool" where
  "login_traced C verify config evs s \<longleftrightarrow>
     (\<forall>args now phase. ApproveCall args now phase \<in> set (cm_calls s) \<longrightarrow> approver C verify config evs args) \<and>
     (\<forall>(args, q, g) \<in> set (cm_granted s). approver C verify config evs args) \<and>
     (\<forall>h t. holds (cliTokenKey h) (JsonText (CliTokenJson t)) (cm_store s) \<longrightarrow>
        (\<exists>(args, q, g) \<in> set (cm_minted s). ct_userId t = cg_userId g))"

lemma call_step_traced:
  assumes t: "login_traced C verify config evs s" and i: "i < length (cm_calls s)"
  shows "login_traced C verify config evs (call_step C config i clock fresh (cm_calls s ! i) s)"
proof -
  have mem: "cm_calls s ! i \<in> set (cm_calls s)" using i by simp
  have upd: "c \<in> set ((cm_calls s)[i := d]) \<Longrightarrow> c = d \<or> c \<in> set (cm_calls s)" for c d
    using set_update_subset_insert by fastforce
  show ?thesis
  proof (cases "cm_calls s ! i")
    case (ApproveCall args now phase)
    obtain phase' store where st: "approve_step C clock now args fresh phase (cm_store s) = (phase', store)" by fastforce
    have a: "approver C verify config evs args" using t mem ApproveCall unfolding login_traced_def by metis
    have "(a', q, g) \<in> set (granted_by C fresh args phase phase') \<Longrightarrow> a' = args" for a' q g
      by (cases "(C, fresh, args, phase, phase')" rule: granted_by.cases) auto
    then show ?thesis
      using t a approve_tokens [OF st] unfolding login_traced_def by (auto simp: call_step_def ApproveCall st dest!: upd) metis+
  next
    case (ExchangeCall args now phase)
    obtain phase' store where st: "exchange_step C config clock now args fresh phase (cm_store s) = (phase', store)" by fastforce
    have "\<exists>(a, q, g) \<in> set (cm_minted s @ minted_by args phase). ct_userId t = cg_userId g"
      if "holds (cliTokenKey h) (JsonText (CliTokenJson t)) store" for h t
      using exchange_tokens [OF st that]
    proof
      assume "holds (cliTokenKey h) (JsonText (CliTokenJson t)) (cm_store s)"
      then show ?thesis using t unfolding login_traced_def by fastforce
    next
      assume "\<exists>q g. phase = ExMint q g \<and> ct_userId t = cg_userId g \<and> ct_expiresAt t = now + cc_tokenTtlMs config"
      then show ?thesis by auto
    qed
    moreover have "ApproveCall a n p \<in> set ((cm_calls s)[i := ExchangeCall args now phase']) \<Longrightarrow> ApproveCall a n p \<in> set (cm_calls s)" for a n p
      using upd by blast
    ultimately show ?thesis using t unfolding login_traced_def by (simp add: call_step_def ExchangeCall st) blast
  qed
qed

lemma login_traced_step:
  assumes t: "login_traced C verify config evs (cli_run C verify config evs)"
  shows "login_traced C verify config (evs @ [e]) (cli_run C verify config (evs @ [e]))"
proof -
  let ?s = "cli_run C verify config evs"
  have run: "cli_run C verify config (evs @ [e]) = cli_step C verify config e ?s" by (simp add: cli_run_def)
  have later: "login_traced C verify config evs s \<Longrightarrow> login_traced C verify config (evs @ [e]) s" for s
    unfolding login_traced_def using approver_later by fastforce
  show ?thesis unfolding run
  proof (cases e)
    case (StartCliEv clock now callback requestId cliSecret codeBytes)
    have "holds (cliTokenKey h) v (snd (startCliAuth C config clock now callback requestId cliSecret codeBytes (cm_store ?s))) \<Longrightarrow>
      holds (cliTokenKey h) v (cm_store ?s)" for h v
      by (simp add: startCliAuth_def case_prod_beta Let_def holds_simps)
    then show "login_traced C verify config (evs @ [e]) (cli_step C verify config e ?s)"
      using later [OF t] unfolding login_traced_def by (simp add: StartCliEv) blast
  next
    case (BeginApprove clock now header db requestId userCode)
    show "login_traced C verify config (evs @ [e]) (cli_step C verify config e ?s)"
    proof (cases "authenticateHuman C verify db clock (cm_store ?s) now header")
      case None
      then show ?thesis using later [OF t] by (simp add: BeginApprove)
    next
      case (Some h)
      obtain user org where h: "h = (user, org)" by (cases h)
      let ?args = "\<lparr>ap_requestId = requestId, ap_userId = us_id user, ap_userCode = userCode\<rparr>"
      have "asked_by C verify config (evs @ [e]) ?args user"
        unfolding asked_by_def by (rule exI [of _ evs], rule exI [of _ "[]"]) (use Some h in \<open>auto simp: BeginApprove\<close>)
      then have "approver C verify config (evs @ [e]) ?args" by (auto simp: approver_def)
      then show ?thesis using later [OF t] Some h unfolding login_traced_def by (auto simp: BeginApprove)
    qed
  next
    case (BeginExchange args now)
    then show "login_traced C verify config (evs @ [e]) (cli_step C verify config e ?s)" using later [OF t] by (simp add: login_traced_def)
  next
    case (CallStepEv i clock fresh)
    then show "login_traced C verify config (evs @ [e]) (cli_step C verify config e ?s)"
      using later [OF t] call_step_traced [OF later [OF t], of i clock fresh] by simp
  next
    case (ElseEv clock op)
    have "\<not> has_prefix ''cliauth:'' (op_key op) \<Longrightarrow> holds (cliTokenKey h) v (snd (redis_exec clock op (cm_store ?s))) \<Longrightarrow>
      holds (cliTokenKey h) v (cm_store ?s)" for h v
      using holds_other [of "cliTokenKey h" op v clock "cm_store ?s"] token_keys(4) [of h] by metis
    then show "login_traced C verify config (evs @ [e]) (cli_step C verify config e ?s)"
      using later [OF t] unfolding login_traced_def by (simp add: ElseEv) blast
  qed
qed

lemma login_run_traced: "login_traced C verify config evs (cli_run C verify config evs)"
proof (induction evs rule: rev_induct)
  case Nil
  show ?case by (simp add: login_traced_def cli_run_def holds_def)
next
  case (snoc e evs)
  then show ?case by (rule login_traced_step)
qed

text \<open>C26: Whatever the interleaving of starts, approvals and exchanges: a login token in the store was minted by an
  exchange, for the user of the grant that the exchange took. It was minted for a request that was started, by a caller
  who showed the secret of that request and, where the request came with a callback, a code that hashes to the one in the
  grant. The grant was given to that request by its user, who was signed in when asking to approve it (as the route
  finds from the header of that request) and, where the request has a user code, showed a text that hashes to it once it
  is normalized. And a request yields no more tokens out of a grant than approvals gave it: at most one for each
  approval. (It is not at most one for each request: \<open>two_tokens_for_one_request\<close>.)\<close>

theorem tokens_need_approvals:
  "(\<forall>h t. holds (cliTokenKey h) (JsonText (CliTokenJson t)) (cm_store (cli_run C verify config evs)) \<longrightarrow>
      (\<exists>(args, req, grant) \<in> set (cm_minted (cli_run C verify config evs)). ct_userId t = cg_userId grant)) \<and>
   (\<forall>(args, req, grant) \<in> set (cm_minted (cli_run C verify config evs)).
      (ex_requestId args, req) \<in> set (cm_started (cli_run C verify config evs)) \<and>
      sha256Hex C (ex_cliSecret args) = cq_secretHash req \<and>
      (cq_callback req \<noteq> None \<longrightarrow> (\<exists>code. ex_code args = Some code \<and> cg_codeHash grant = Some (sha256Hex C code))) \<and>
      (\<exists>q userCode before after clock now header db user org.
         (ex_requestId args, q) \<in> set (cm_started (cli_run C verify config evs)) \<and>
         evs = before @ BeginApprove clock now header db (ex_requestId args) userCode # after \<and>
         authenticateHuman C verify db clock (cm_store (cli_run C verify config before)) now header = Some (user, org) \<and>
         cg_userId grant = us_id user \<and>
         (\<forall>h. cq_userCodeHash q = Some h \<longrightarrow>
            (\<exists>c. userCode = Some c \<and> normalizeUserCode c \<noteq> [] \<and> sha256Hex C (normalizeUserCode c) = h))) \<and>
      tokens_of (ex_requestId args) grant (cli_run C verify config evs) \<le>
        grants_of (ex_requestId args) grant (cli_run C verify config evs))"
proof -
  let ?s = "cli_run C verify config evs"
  note p = cli_parts [OF cli_run_ok [of C verify config evs]]
  note t = login_run_traced [of C verify config evs]
  have "(ex_requestId args, req) \<in> set (cm_started ?s) \<and>
      sha256Hex C (ex_cliSecret args) = cq_secretHash req \<and>
      (cq_callback req \<noteq> None \<longrightarrow> (\<exists>code. ex_code args = Some code \<and> cg_codeHash grant = Some (sha256Hex C code))) \<and>
      (\<exists>q userCode before after clock now header db user org.
         (ex_requestId args, q) \<in> set (cm_started ?s) \<and>
         evs = before @ BeginApprove clock now header db (ex_requestId args) userCode # after \<and>
         authenticateHuman C verify db clock (cm_store (cli_run C verify config before)) now header = Some (user, org) \<and>
         cg_userId grant = us_id user \<and>
         (\<forall>h. cq_userCodeHash q = Some h \<longrightarrow>
            (\<exists>c. userCode = Some c \<and> normalizeUserCode c \<noteq> [] \<and> sha256Hex C (normalizeUserCode c) = h))) \<and>
      tokens_of (ex_requestId args) grant ?s \<le> grants_of (ex_requestId args) grant ?s"
    if m: "(args, req, grant) \<in> set (cm_minted ?s)" for args req grant
  proof -
    have le: "tokens_of (ex_requestId args) grant ?s \<le> grants_of (ex_requestId args) grant ?s"
      using p(5) [of "ex_requestId args" grant] by simp
    have "0 < tokens_of (ex_requestId args) grant ?s"
      unfolding tokens_of_def length_greater_0_conv using m by (auto simp: filter_empty_conv)
    with le have "0 < grants_of (ex_requestId args) grant ?s" by simp
    then obtain approval q where g: "(approval, q, grant) \<in> set (cm_granted ?s)" "ap_requestId approval = ex_requestId args"
      by (auto simp: grants_of_def filter_empty_conv)
    then have "approver C verify config evs approval" using t unfolding login_traced_def by blast
    then obtain user where u: "asked_by C verify config evs approval user" "ap_userId approval = us_id user" by (auto simp: approver_def)
    have a: "(ex_requestId args, q) \<in> set (cm_started ?s)" "code_matches C q (ap_userCode approval)" "cg_userId grant = us_id user"
      using p(3) [OF g(1)] g(2) u(2) by (simp_all add: approve_good_def)
    have code: "\<forall>h. cq_userCodeHash q = Some h \<longrightarrow>
        (\<exists>c. ap_userCode approval = Some c \<and> normalizeUserCode c \<noteq> [] \<and> sha256Hex C (normalizeUserCode c) = h)"
      using a(2) by (auto simp: code_matches_def Let_def split: option.splits)
    have "exchange_good C ?s args req" "redirect_matches C req grant (ex_code args)" using p(4) [OF m] by simp_all
    then have "(ex_requestId args, req) \<in> set (cm_started ?s)" "sha256Hex C (ex_cliSecret args) = cq_secretHash req"
      "cq_callback req \<noteq> None \<longrightarrow> (\<exists>code. ex_code args = Some code \<and> cg_codeHash grant = Some (sha256Hex C code))"
      by (auto simp: exchange_good_def redirect_matches_def split: option.splits)
    moreover note u(1) [unfolded asked_by_def g(2)]
    ultimately show ?thesis using a(1,3) code le by metis
  qed
  note minted = this
  show ?thesis
  proof (rule conjI)
    show "\<forall>h t. holds (cliTokenKey h) (JsonText (CliTokenJson t)) (cm_store ?s) \<longrightarrow>
        (\<exists>(args, req, grant) \<in> set (cm_minted ?s). ct_userId t = cg_userId grant)"
      using t unfolding login_traced_def by (elim conjE)
  qed (rule ballI, rule case_prodI2, rule case_prodI2, rule minted, simp only:)
qed

definition cli_conf :: cli_config where
  "cli_conf = \<lparr>cc_requestTtlMs = 600, cc_tokenTtlMs = 900, cc_apiPublicUrl = None\<rparr>"

definition cli_db :: db where
  "cli_db = \<lparr>db_orgs = [\<lparr>og_id = ''o'', og_name = ''o''\<rparr>],
     db_users = [\<lparr>us_id = ''u'', us_clerkUserId = ''ann'', us_primaryOrgId = Some ''o''\<rparr>,
       \<lparr>us_id = ''v'', us_clerkUserId = ''ben'', us_primaryOrgId = Some ''o''\<rparr>],
     db_hosts = [], db_devices = [], db_pairs = [], db_sessions = [], db_attention = [], db_audit = []\<rparr>"

text \<open>An identity provider whose tokens are the names.\<close>

definition cli_verify :: "string \<Rightarrow> string option" where
  "cli_verify token = Some token"

definition login_approval :: "int \<Rightarrow> string option \<Rightarrow> cli_event" where
  "login_approval now header = BeginApprove now now header cli_db ''r'' (Some ''aaaa aaaa'')"

definition login_exchange :: exchange_args where
  "login_exchange = \<lparr>ex_requestId = ''r'', ex_cliSecret = ''s'', ex_code = None\<rparr>"

text \<open>A headless login; an approval with no header comes to nothing.\<close>

definition one_login :: "cli_event list" where
  "one_login = [StartCliEv 1 1 None ''r'' ''s'' (replicate 8 0), login_approval 1 None, BeginExchange login_exchange 2, CallStepEv 0 2 [], CallStepEv 0 2 [],
     login_approval 3 (Some ''Bearer ann''), CallStepEv 1 3 [], CallStepEv 1 3 [], BeginExchange login_exchange 4,
     CallStepEv 2 4 ''t'', CallStepEv 2 4 ''t'', CallStepEv 2 4 ''t'', CallStepEv 2 4 ''t'']"

definition login_request :: cli_request where
  "login_request = request_of demo_crypto cli_conf 1 None ''s'' (replicate 8 0)"

lemma one_login_mints:
  "cm_minted (cli_run demo_crypto cli_verify cli_conf one_login) = [(login_exchange, login_request, \<lparr>cg_userId = ''u'', cg_codeHash = None\<rparr>)]"
  by code_simp

lemma tokens_need_approvals_witness:
  "(''r'', login_request) \<in> set (cm_started (cli_run demo_crypto cli_verify cli_conf one_login)) \<and>
    (\<exists>userCode before after clock now header db user org.
       one_login = before @ BeginApprove clock now header db ''r'' userCode # after \<and>
       authenticateHuman demo_crypto cli_verify db clock (cm_store (cli_run demo_crypto cli_verify cli_conf before)) now header = Some (user, org) \<and>
       us_id user = ''u'') \<and>
    tokens_of ''r'' \<lparr>cg_userId = ''u'', cg_codeHash = None\<rparr> (cli_run demo_crypto cli_verify cli_conf one_login) \<le>
      grants_of ''r'' \<lparr>cg_userId = ''u'', cg_codeHash = None\<rparr> (cli_run demo_crypto cli_verify cli_conf one_login)"
proof -
  have "(login_exchange, login_request, \<lparr>cg_userId = ''u'', cg_codeHash = None\<rparr>) \<in> set (cm_minted (cli_run demo_crypto cli_verify cli_conf one_login))"
    by (simp add: one_login_mints)
  from bspec [OF conjunct2 [OF tokens_need_approvals] this]
  show ?thesis by (simp add: login_exchange_def) metis
qed

text \<open>
  One request, two tokens: between an exchange that took the grant and the end of that exchange, the request
  is still there and a second approval is let in, of another human even.
\<close>

definition two_logins :: "cli_event list" where
  "two_logins = [StartCliEv 1 1 None ''r'' ''s'' (replicate 8 0), login_approval 3 (Some ''Bearer ann''), BeginExchange login_exchange 4,
     login_approval 5 (Some ''Bearer ben''), BeginExchange login_exchange 6,
     CallStepEv 0 3 [], CallStepEv 0 3 [], CallStepEv 1 4 ''t'', CallStepEv 1 4 ''t'', CallStepEv 2 5 [], CallStepEv 2 5 [],
     CallStepEv 3 6 ''w'', CallStepEv 3 6 ''w'', CallStepEv 1 7 ''t'', CallStepEv 3 7 ''w'']"

lemma two_tokens_for_one_request:
  "map (\<lambda>(args, req, grant). (ex_requestId args, cg_userId grant)) (cm_minted (cli_run demo_crypto cli_verify cli_conf two_logins)) =
     [(''r'', ''u''), (''r'', ''v'')]"
  by code_simp

end
