(* ===== verification/Daemon.thy ===== *)
theory Daemon
  imports Routes LaunchHooks Serve
begin

text \<open>
  The custody daemon, \<open>packages/cli/src/commands/serve.ts\<close>: one registry and one desk behind the local socket
  and the relay, the reserve-and-claim of every spawn, the watch for the end of a session, and the heartbeat with
  its buffer of ended sessions; and its lock, \<open>daemon/pidfile.ts\<close> and \<open>transport-node/src/unix.ts\<close>. Paths, modes and
  the channels are left out: what a served connection does to a session is a session event here.
\<close>

subsection \<open>Constants\<close>

definition DEFAULT_RESERVE_TTL_MS :: int where "DEFAULT_RESERVE_TTL_MS = 30000"
definition MAX_ENDED_REPORTS :: nat where "MAX_ENDED_REPORTS = 256"

definition SERVED_CAPABILITIES :: "string list" where
  "SERVED_CAPABILITIES = DEFAULT_SERVED_CAPABILITIES @ [LAUNCH]"

subsection \<open>State\<close>

text \<open>The audit file's kinds and lines; the stamp is the writer's.\<close>

datatype local_audit_kind =
    ConnectionAccepted | ConnectionRefused | ConnectionLocal | CustodyReserved | CustodyClaimed | LaunchedHere
  | DeviceEnrolledHere | DeviceRevokedHere

datatype front_door = RelayDoor | LocalDoor

record local_audit =
  lv_kind :: local_audit_kind
  lv_deviceKeyId :: "string option"
  lv_transport :: "front_door option"
  lv_detail :: "string option"

record launch_entry =
  le_argv :: "string list"
  le_cwd :: string
  le_startedAt :: int

text \<open>A beat that is under way: the body it posted and how many ended reports were in it.\<close>

record beat =
  bt_body :: "session_report list"
  bt_ended :: nat

record 'm daemon =
  dm_desk :: desk
  dm_registry :: "'m session registry"
  dm_launches :: "(string, launch_entry) amap"
  dm_ended :: "session_report list"
  dm_collect :: bool
  dm_stream :: nat
  dm_waiting :: "(string \<times> reservation \<times> session_options) list"
  dm_beats :: "beat list"
  dm_audit :: "local_audit list"

definition new_daemon :: "bool \<Rightarrow> 'm daemon" where
  "new_daemon docked =
     \<lparr>dm_desk = new_desk \<lparr>op_ringBytes = None, op_scrollback = None, op_streamId = None\<rparr>, dm_registry = [], dm_launches = [],
      dm_ended = [], dm_collect = docked, dm_stream = 1, dm_waiting = [], dm_beats = [], dm_audit = []\<rparr>"

definition audit_line :: "local_audit \<Rightarrow> 'm daemon \<Rightarrow> 'm daemon" where
  "audit_line e d = d\<lparr>dm_audit := dm_audit d @ [e]\<rparr>"

subsection \<open>The spawner\<close>

text \<open>The sweep stays where the reservation throws.\<close>

definition spawner_reserve ::
  "string \<Rightarrow> int \<Rightarrow> int option \<Rightarrow> session_spec \<Rightarrow> 'm daemon \<Rightarrow> 'm daemon \<times> (string \<times> int) option" where
  "spawner_reserve newRef now ttl spec d =
     (let swept = d\<lparr>dm_desk := fst (sweepExpired now (dm_desk d))\<rparr>
      in case reserveOpenSession newRef now spec ttl (dm_desk swept) of
           None \<Rightarrow> (swept, None)
         | Some (dk, ref, expiresAt) \<Rightarrow>
             (swept\<lparr>dm_desk := dk,
                dm_launches := aset ref \<lparr>le_argv = ss_argv spec, le_cwd = ss_cwd spec, le_startedAt = now\<rparr> (dm_launches swept)\<rparr>,
              Some (ref, expiresAt)))"

text \<open>A claim takes a stream id, also one that fails.\<close>

definition claim_options :: "nat \<Rightarrow> session_options" where
  "claim_options streamId = \<lparr>op_ringBytes = None, op_scrollback = None, op_streamId = Some streamId\<rparr>"

definition spawner_claim :: "string \<Rightarrow> int \<Rightarrow> 'm daemon \<Rightarrow> 'm daemon \<times> custody_error option" where
  "spawner_claim ref now d =
     (let streamId = dm_stream d; d1 = d\<lparr>dm_stream := Suc streamId\<rparr>
      in case claimOpenSession ref now (dm_desk d1) of
           (dk, Inl e) \<Rightarrow> (d1\<lparr>dm_desk := dk\<rparr>, Some e)
         | (dk, Inr r) \<Rightarrow> (d1\<lparr>dm_desk := dk, dm_waiting := dm_waiting d1 @ [(ref, r, claim_options streamId)]\<rparr>, None))"

text \<open>
  The spawn of a waiting claim settled. The daemon's own subscription, \<open>watchSessionEnd\<close>, is the first of the session.
\<close>

definition watched :: "'m emulator \<Rightarrow> 'm session \<Rightarrow> 'm session" where
  "watched em s = (case subscribe em False (\<lambda>_. True) s of None \<Rightarrow> s | Some (s1, sink) \<Rightarrow> s1)"

definition spawner_settled :: "'m emulator \<Rightarrow> nat \<Rightarrow> bool \<Rightarrow> 'm daemon \<Rightarrow> 'm daemon" where
  "spawner_settled em i spawned d =
     (if i < length (dm_waiting d)
      then
        (case dm_waiting d ! i of (ref, r, opts) \<Rightarrow>
          (case claim_settled em ref r spawned opts (dm_desk d) (dm_registry d) of (dk, g, res) \<Rightarrow>
             let d1 = d\<lparr>dm_desk := dk, dm_registry := g, dm_waiting := take i (dm_waiting d) @ drop (Suc i) (dm_waiting d)\<rparr>
             in (case res of None \<Rightarrow> d1 | Some s \<Rightarrow> d1\<lparr>dm_registry := aset ref (watched em s) (dm_registry d1)\<rparr>)))
      else d)"

text \<open>The end of a watched session: its report is buffered, the oldest one gives way, and it is listed no more.\<close>

definition push_ended :: "session_report \<Rightarrow> session_report list \<Rightarrow> session_report list" where
  "push_ended r rs = (if MAX_ENDED_REPORTS < length (rs @ [r]) then drop 1 (rs @ [r]) else rs @ [r])"

definition session_over :: "string \<Rightarrow> int \<Rightarrow> 'm daemon \<Rightarrow> 'm daemon" where
  "session_over ref now d =
     (let ended' =
        (case aget (dm_launches d) ref of
           Some l \<Rightarrow> if dm_collect d
             then push_ended \<lparr>sp_sessionRef = ref, sp_status = ''ended'', sp_startedAt = Some (le_startedAt l), sp_endedAt = Some now\<rparr> (dm_ended d)
             else dm_ended d
         | None \<Rightarrow> dm_ended d)
      in d\<lparr>dm_ended := ended', dm_registry := fst (reg_remove ref (dm_registry d)), dm_launches := adel ref (dm_launches d)\<rparr>)"

text \<open>What happens to a listed session: its viewers, its process. The watch sees the end at once.\<close>

definition session_event_on :: "'m emulator \<Rightarrow> string \<Rightarrow> int \<Rightarrow> session_event \<Rightarrow> 'm daemon \<Rightarrow> 'm daemon" where
  "session_event_on em ref now ev d =
     (case reg_get ref (dm_registry d) of
        None \<Rightarrow> d
      | Some s \<Rightarrow>
          let s1 = session_step em ev s; d1 = d\<lparr>dm_registry := aset ref s1 (dm_registry d)\<rparr>
          in if se_ended s1 \<and> \<not> se_ended s then session_over ref now d1 else d1)"

subsection \<open>The hooks of the two front doors\<close>

definition custody_reserve :: "string \<Rightarrow> int \<Rightarrow> int option \<Rightarrow> session_spec \<Rightarrow> 'm daemon \<Rightarrow> 'm daemon \<times> (string \<times> int) option" where
  "custody_reserve newRef now ttl spec d =
     (case spawner_reserve newRef now ttl spec d of
        (d1, None) \<Rightarrow> (d1, None)
      | (d1, Some (ref, expiresAt)) \<Rightarrow>
          (audit_line \<lparr>lv_kind = CustodyReserved, lv_deviceKeyId = Some ''local'', lv_transport = Some LocalDoor, lv_detail = Some ref\<rparr> d1,
           Some (ref, expiresAt)))"

definition custody_claim :: "string \<Rightarrow> int \<Rightarrow> 'm daemon \<Rightarrow> 'm daemon \<times> custody_error option" where
  "custody_claim ref now d =
     spawner_claim ref now
       (audit_line \<lparr>lv_kind = CustodyClaimed, lv_deviceKeyId = Some ''local'', lv_transport = Some LocalDoor, lv_detail = Some ref\<rparr> d)"

text \<open>The gate of the relay leg with its line, and the line of a launch.\<close>

definition gate_verdict :: "string \<Rightarrow> bool \<Rightarrow> 'm daemon \<Rightarrow> 'm daemon" where
  "gate_verdict deviceKeyId allowed d =
     audit_line \<lparr>lv_kind = (if allowed then ConnectionAccepted else ConnectionRefused), lv_deviceKeyId = Some deviceKeyId,
       lv_transport = Some RelayDoor, lv_detail = None\<rparr> d"

definition local_connection :: "'m daemon \<Rightarrow> 'm daemon" where
  "local_connection d = audit_line \<lparr>lv_kind = ConnectionLocal, lv_deviceKeyId = Some ''local'', lv_transport = Some LocalDoor, lv_detail = None\<rparr> d"

definition launched :: "string option \<Rightarrow> front_door \<Rightarrow> string \<Rightarrow> 'm daemon \<Rightarrow> 'm daemon" where
  "launched verified door detail d =
     audit_line \<lparr>lv_kind = LaunchedHere,
       lv_deviceKeyId = Some (case door of LocalDoor \<Rightarrow> ''local'' | RelayDoor \<Rightarrow> (case verified of None \<Rightarrow> ''unverified'' | Some i \<Rightarrow> i)),
       lv_transport = Some door, lv_detail = Some detail\<rparr> d"

definition listSessions :: "'m daemon \<Rightarrow> session_info list" where
  "listSessions d =
     map (\<lambda>s. let launch = aget (dm_launches d) (se_ref s)
          in \<lparr>si_ref = se_ref s, si_argv = (case launch of None \<Rightarrow> [''?''] | Some l \<Rightarrow> le_argv l),
              si_cwd = (case launch of None \<Rightarrow> ''.'' | Some l \<Rightarrow> le_cwd l), si_size = \<lparr>sz_cols = se_cols s, sz_rows = se_rows s\<rparr>,
              si_subscribers = subscriberCount s - 1\<rparr>) (reg_list (dm_registry d))"

subsection \<open>Heartbeats\<close>

definition live_reports :: "int \<Rightarrow> 'm daemon \<Rightarrow> session_report list" where
  "live_reports now d =
     map (\<lambda>s. \<lparr>sp_sessionRef = se_ref s, sp_status = ''live'',
          sp_startedAt = Some (case aget (dm_launches d) (se_ref s) of None \<Rightarrow> now | Some l \<Rightarrow> le_startedAt l), sp_endedAt = None\<rparr>)
       (reg_list (dm_registry d))"

definition beat_body :: "int \<Rightarrow> 'm daemon \<Rightarrow> session_report list" where
  "beat_body now d = live_reports now d @ dm_ended d"

definition send_heartbeat :: "int \<Rightarrow> 'm daemon \<Rightarrow> 'm daemon" where
  "send_heartbeat now d = d\<lparr>dm_beats := dm_beats d @ [\<lparr>bt_body = beat_body now d, bt_ended = length (dm_ended d)\<rparr>]\<rparr>"

text \<open>The post settled; \<open>splice(0, n)\<close> takes the first \<open>n\<close> of what the buffer is by then.\<close>

definition beat_settled :: "nat \<Rightarrow> bool \<Rightarrow> 'm daemon \<Rightarrow> 'm daemon" where
  "beat_settled i ok d =
     (if i < length (dm_beats d)
      then d\<lparr>dm_beats := take i (dm_beats d) @ drop (Suc i) (dm_beats d),
             dm_ended := (if ok then drop (bt_ended (dm_beats d ! i)) (dm_ended d) else dm_ended d)\<rparr>
      else d)"

subsection \<open>The daemon as a machine\<close>

datatype daemon_event =
    DmReserve string int "int option" session_spec
  | DmClaim string int
  | DmRemoteReserve string int "int option" session_spec
  | DmRemoteClaim string int
  | DmSettled nat bool
  | DmSession string int session_event
  | DmGate string bool
  | DmLocal
  | DmLaunched "string option" front_door string
  | DmBeat int
  | DmBeatSettled nat bool

definition daemon_step :: "'m emulator \<Rightarrow> daemon_event \<Rightarrow> 'm daemon \<Rightarrow> 'm daemon" where
  "daemon_step em e d =
     (case e of
        DmReserve newRef now ttl spec \<Rightarrow> fst (custody_reserve newRef now ttl spec d)
      | DmClaim ref now \<Rightarrow> fst (custody_claim ref now d)
      | DmRemoteReserve newRef now ttl spec \<Rightarrow> fst (spawner_reserve newRef now ttl spec d)
      | DmRemoteClaim ref now \<Rightarrow> fst (spawner_claim ref now d)
      | DmSettled i spawned \<Rightarrow> spawner_settled em i spawned d
      | DmSession ref now ev \<Rightarrow> session_event_on em ref now ev d
      | DmGate deviceKeyId allowed \<Rightarrow> gate_verdict deviceKeyId allowed d
      | DmLocal \<Rightarrow> local_connection d
      | DmLaunched verified door detail \<Rightarrow> launched verified door detail d
      | DmBeat now \<Rightarrow> send_heartbeat now d
      | DmBeatSettled i ok \<Rightarrow> beat_settled i ok d)"

definition daemon_run :: "'m emulator \<Rightarrow> daemon_event list \<Rightarrow> 'm daemon \<Rightarrow> 'm daemon" where
  "daemon_run em es d = fold (daemon_step em) es d"

subsection \<open>The lock\<close>

text \<open>The digits at the front, as \<open>parseInt\<close> reads them; a sign makes the number one that is not positive, or is skipped.\<close>

definition is_digit :: "char \<Rightarrow> bool" where
  "is_digit c \<longleftrightarrow> c \<in> set ''0123456789''"

definition digit_value :: "char \<Rightarrow> nat" where
  "digit_value c = of_char c - 48"

definition read_digits :: "string \<Rightarrow> nat option" where
  "read_digits s =
     (case takeWhile is_digit s of [] \<Rightarrow> None | ds \<Rightarrow> Some (foldl (\<lambda>n c. 10 * n + digit_value c) 0 ds))"

definition pid_of_text :: "string \<Rightarrow> nat option" where
  "pid_of_text text =
     (let t = trim text; body = (if has_prefix ''+'' t then drop 1 t else t)
      in case read_digits body of None \<Rightarrow> None | Some n \<Rightarrow> if 0 < n then Some n else None)"

definition pid_text :: "(nat \<Rightarrow> string) \<Rightarrow> nat \<Rightarrow> string" where
  "pid_text show_nat pid = show_nat pid @ [newline]"

text \<open>The lock file, and the process that accepts on the socket path.\<close>

record lock_world =
  lw_pid :: "string option"
  lw_socket :: "nat option"

definition readPidFile :: "lock_world \<Rightarrow> nat option" where
  "readPidFile w = (case lw_pid w of None \<Rightarrow> None | Some text \<Rightarrow> pid_of_text text)"

definition removePidFile :: "lock_world \<Rightarrow> lock_world" where
  "removePidFile w = w\<lparr>lw_pid := None\<rparr>"

definition writePidFile :: "(nat \<Rightarrow> string) \<Rightarrow> nat \<Rightarrow> lock_world \<Rightarrow> lock_world" where
  "writePidFile show_nat pid w = w\<lparr>lw_pid := Some (pid_text show_nat pid)\<rparr>"

definition livePid :: "(nat \<Rightarrow> bool) \<Rightarrow> lock_world \<Rightarrow> nat option \<times> lock_world" where
  "livePid alive w =
     (case readPidFile w of
        None \<Rightarrow> (None, w)
      | Some pid \<Rightarrow> if alive pid then (Some pid, w) else (None, removePidFile w))"

text \<open>\<open>listenUnix\<close> unlinks what is at the path, whoever listens there, and binds.\<close>

definition listenUnix :: "nat \<Rightarrow> bool \<Rightarrow> lock_world \<Rightarrow> lock_world \<times> bool" where
  "listenUnix me binds w = (if binds then (w\<lparr>lw_socket := Some me\<rparr>, True) else (w\<lparr>lw_socket := None\<rparr>, False))"

text \<open>A start, await by await; each call gives the next one or the outcome.\<close>

datatype start_phase = StartRead | StartReclaim | StartWrite | StartListen | StartRunning | StartRefused nat | StartFailed

definition start_step :: "(nat \<Rightarrow> string) \<Rightarrow> (nat \<Rightarrow> bool) \<Rightarrow> nat \<Rightarrow> bool \<Rightarrow> start_phase \<Rightarrow> lock_world \<Rightarrow> start_phase \<times> lock_world" where
  "start_step show_nat alive me binds p w =
     (case p of
        StartRead \<Rightarrow>
          (case readPidFile w of
             None \<Rightarrow> (StartWrite, w)
           | Some pid \<Rightarrow> if alive pid then (StartRefused pid, w) else (StartReclaim, w))
      | StartReclaim \<Rightarrow> (StartWrite, removePidFile w)
      | StartWrite \<Rightarrow> (StartListen, writePidFile show_nat me w)
      | StartListen \<Rightarrow>
          (case listenUnix me binds w of (w1, True) \<Rightarrow> (StartRunning, w1) | (w1, False) \<Rightarrow> (StartFailed, removePidFile w1))
      | _ \<Rightarrow> (p, w))"

text \<open>Closing unlinks the path and removes the lock, whoever they are of.\<close>

definition close_daemon :: "lock_world \<Rightarrow> lock_world" where
  "close_daemon w = removePidFile (w\<lparr>lw_socket := None\<rparr>)"

text \<open>\<open>pherry stop\<close>: a signal, and then what the polls within the three seconds see of the lock and of its process.\<close>

record stop_result =
  st_running :: bool
  st_stopped :: "bool option"

definition stop_seen :: "lock_world \<times> (nat \<Rightarrow> bool) \<Rightarrow> bool" where
  "stop_seen seen = (case seen of (w, alive) \<Rightarrow> (case readPidFile w of None \<Rightarrow> True | Some still \<Rightarrow> \<not> alive still))"

definition stopServe :: "(nat \<Rightarrow> bool) \<Rightarrow> (nat \<Rightarrow> bool) \<Rightarrow> (lock_world \<times> (nat \<Rightarrow> bool)) list \<Rightarrow> lock_world \<Rightarrow> stop_result \<times> lock_world" where
  "stopServe alive signals polls w =
     (case readPidFile w of
        None \<Rightarrow> (\<lparr>st_running = False, st_stopped = None\<rparr>, w)
      | Some pid \<Rightarrow>
          if \<not> alive pid then (\<lparr>st_running = False, st_stopped = None\<rparr>, removePidFile w)
          else if \<not> signals pid then (\<lparr>st_running = False, st_stopped = None\<rparr>, removePidFile w)
          else (\<lparr>st_running = True, st_stopped = Some (list_ex stop_seen polls)\<rparr>, w))"

end
