(* ===== verification/DaemonSteps.thy ===== *)
theory DaemonSteps
  imports Daemon
begin

text \<open>
  The daemon's books agree: every reference is at one place, among the reservations that can be claimed, the
  claims that wait for their spawn, the listed sessions or the buffered reports of ended ones; whatever can
  still become a report has its launch noted; and no two sessions have one stream id.
\<close>

subsection \<open>What sessions keep\<close>

definition name_of :: "'m session \<Rightarrow> string \<times> nat" where
  "name_of s = (se_ref s, se_streamId s)"

lemma name_of_fields [simp]: "name_of (s\<lparr>se_out := a\<rparr>) = name_of s" "name_of (s\<lparr>se_subs := b\<rparr>) = name_of s" "name_of (s\<lparr>se_seq := n\<rparr>) = name_of s"
    "name_of (s\<lparr>se_next := n\<rparr>) = name_of s" "name_of (s\<lparr>se_lastWriter := w\<rparr>) = name_of s" "name_of (s\<lparr>se_cols := n\<rparr>) = name_of s"
    "name_of (s\<lparr>se_rows := n\<rparr>) = name_of s" "name_of (s\<lparr>se_mirror := m\<rparr>) = name_of s" "name_of (s\<lparr>se_ring := r\<rparr>) = name_of s"
    "name_of (s\<lparr>se_ended := c\<rparr>) = name_of s" "name_of (s\<lparr>se_endedSeq := n\<rparr>) = name_of s" "name_of (s\<lparr>se_disposed := c\<rparr>) = name_of s"
    "name_of (s\<lparr>se_viewports := v\<rparr>) = name_of s" "name_of (s\<lparr>se_tick := n\<rparr>) = name_of s" "name_of (s\<lparr>se_authority := q\<rparr>) = name_of s"
  by (simp_all add: name_of_def)

lemma name_emit [simp]: "name_of (session_emit e s) = name_of s" "name_of (emitTo sink op p n s) = name_of s"
  by (simp_all add: session_emit_def emitTo_def)

lemma name_chunks [simp]: "name_of (emit_chunks sink body offset n s) = name_of s"
proof (induction sink body offset n s rule: emit_chunks.induct)
  case (1 sink body offset n s)
  then show ?case by (subst emit_chunks.simps) simp
qed

lemma name_broadcast [simp]: "name_of (broadcast w op p s) = name_of s" "name_of (emitSnapshot em sink s) = name_of s"
    "name_of (set_sub sink f s) = name_of s" "name_of (unsubscribe sink s) = name_of s" "name_of (detach_backend s) = name_of s"
  by (simp_all add: broadcast_def emitSnapshot_def set_sub_def unsubscribe_def detach_backend_def Let_def case_prod_beta)

lemma name_subscribe: "subscribe em flow w s = Some (s', sink) \<Longrightarrow> name_of s' = name_of s"
  by (auto simp: subscribe_def Let_def split: if_splits)

lemma name_resize [simp]: "name_of (resize em w c r s) = name_of s"
  by (simp add: resize_def)

lemma name_release [simp]: "name_of (releaseViewer em w v s) = name_of s" "name_of (resumeSubscriber em w sink s) = name_of s"
  by (auto simp: releaseViewer_def resumeSubscriber_def Let_def split: option.split list.split)

lemma name_step [simp]: "name_of (session_step em ev s) = name_of s"
  by (cases ev) (auto simp: writeInput_def observeViewer_def resizeViewer_def dispose_def onOutput_def onExit_def Let_def
      split: option.split dest: name_subscribe)

lemma name_watched [simp]: "name_of (watched em s) = name_of s"
  by (auto simp: watched_def split: option.split dest: name_subscribe)

subsection \<open>The books\<close>

definition open_refs :: "desk \<Rightarrow> string set" where
  "open_refs dk = {k. \<exists>r. (k, r) \<in> set (dk_reservations dk) \<and> \<not> rr_claimed r}"

definition waiting_refs :: "'m daemon \<Rightarrow> string list" where
  "waiting_refs d = map fst (dm_waiting d)"

definition ended_refs :: "'m daemon \<Rightarrow> string list" where
  "ended_refs d = map sp_sessionRef (dm_ended d)"

definition stream_ids :: "'m daemon \<Rightarrow> nat option list" where
  "stream_ids d = map (\<lambda>(ref, r, opts). op_streamId opts) (dm_waiting d) @ map (\<lambda>(k, s). Some (se_streamId s)) (dm_registry d)"

definition used_refs :: "'m daemon \<Rightarrow> string set" where
  "used_refs d = fst ` set (dk_reservations (dm_desk d)) \<union> set (waiting_refs d @ akeys (dm_registry d) @ ended_refs d)"

definition desk_ok :: "desk \<Rightarrow> (string \<times> reservation \<times> session_options) list \<Rightarrow> bool" where
  "desk_ok dk ws \<longleftrightarrow> distinct (akeys (dk_reservations dk)) \<and> (\<forall>(k, r) \<in> set (dk_reservations dk). rr_obj r < dk_next dk) \<and>
     (\<forall>(k, r) \<in> set (dk_reservations dk). \<forall>(k', r') \<in> set (dk_reservations dk). rr_obj r = rr_obj r' \<longrightarrow> k = k') \<and>
     (\<forall>(ref, r, opts) \<in> set ws. rr_obj r < dk_next dk \<and> (\<forall>(k, r') \<in> set (dk_reservations dk). rr_obj r' = rr_obj r \<longrightarrow> k = ref))"

definition places :: "string set \<Rightarrow> string list \<Rightarrow> string list \<Rightarrow> string list \<Rightarrow> string set \<Rightarrow> bool" where
  "places opened ws gs es noted \<longleftrightarrow> distinct (ws @ gs @ es) \<and> opened \<inter> set (ws @ gs @ es) = {} \<and> opened \<union> set (ws @ gs) \<subseteq> noted"

lemma places_back: "places opened (xs @ ref # ys) gs es noted \<Longrightarrow> opened' \<subseteq> insert ref opened \<Longrightarrow> places opened' (xs @ ys) gs es noted"
  unfolding places_def by auto

lemma places_list: "places opened (xs @ ref # ys) gs es noted \<Longrightarrow> places opened (xs @ ys) (gs @ [ref]) es noted"
  unfolding places_def by auto

lemma places_claim: "places opened ws gs es noted \<Longrightarrow> ref \<in> opened \<Longrightarrow> opened' \<subseteq> opened - {ref} \<Longrightarrow> places opened' (ws @ [ref]) gs es noted"
  unfolding places_def by auto

lemma places_fewer: "places opened ws gs es noted \<Longrightarrow> opened' \<subseteq> opened \<Longrightarrow> places opened' ws gs es noted"
  unfolding places_def by auto

lemma places_new: "places opened ws gs es noted \<Longrightarrow> ref \<notin> set (ws @ gs @ es) \<Longrightarrow> places (insert ref opened) ws gs es (insert ref noted)"
  unfolding places_def by auto

lemma places_over: "places opened ws (xs @ ref # ys) es noted \<Longrightarrow> places opened ws (xs @ ys) (es @ [ref]) (noted - {ref})"
  unfolding places_def by auto

lemma places_drop: "places opened ws gs es noted \<Longrightarrow> places opened ws gs (drop n es) noted"
  unfolding places_def using set_drop_subset [of n es] by (auto simp: distinct_drop)

definition refs_ok :: "'m daemon \<Rightarrow> bool" where
  "refs_ok d \<longleftrightarrow> places (open_refs (dm_desk d)) (waiting_refs d) (akeys (dm_registry d)) (ended_refs d) (fst ` set (dm_launches d))"

definition ids_below :: "nat option list \<Rightarrow> nat \<Rightarrow> bool" where
  "ids_below xs n \<longleftrightarrow> distinct xs \<and> (\<forall>x \<in> set xs. \<exists>m. x = Some m \<and> m < n)"

lemma ids_below_Suc: "ids_below xs n \<Longrightarrow> ids_below xs (Suc n)"
  unfolding ids_below_def by (metis less_SucI)

lemma ids_below_new: "ids_below (xs @ ys) n \<Longrightarrow> ids_below (xs @ Some n # ys) (Suc n)"
  unfolding ids_below_def by auto (metis less_SucI less_irrefl option.inject Un_iff)+

lemma ids_below_drop: "ids_below (xs @ y # ys) n \<Longrightarrow> ids_below (xs @ ys) n"
  by (simp add: ids_below_def)

lemma ids_below_move: "ids_below (xs @ y # ys) n \<Longrightarrow> ids_below (xs @ ys @ [y]) n"
  unfolding ids_below_def by simp

definition streams_ok :: "'m daemon \<Rightarrow> bool" where
  "streams_ok d \<longleftrightarrow> ids_below (stream_ids d) (dm_stream d)"

definition reports_ok :: "'m daemon \<Rightarrow> bool" where
  "reports_ok d \<longleftrightarrow> length (dm_ended d) \<le> MAX_ENDED_REPORTS \<and> (\<forall>r \<in> set (dm_ended d). sp_status r = ''ended'' \<and> sp_endedAt r \<noteq> None)"

definition listed_ok :: "'m daemon \<Rightarrow> bool" where
  "listed_ok d \<longleftrightarrow> (\<forall>(k, s) \<in> set (dm_registry d). se_ref s = k)"

definition daemon_ok :: "'m daemon \<Rightarrow> bool" where
  "daemon_ok d \<longleftrightarrow> desk_ok (dm_desk d) (dm_waiting d) \<and> refs_ok d \<and> streams_ok d \<and> reports_ok d \<and> listed_ok d"

lemmas books = refs_ok_def streams_ok_def reports_ok_def listed_ok_def waiting_refs_def ended_refs_def stream_ids_def

lemma new_daemon_ok: "daemon_ok (new_daemon docked)" "used_refs (new_daemon docked) = {}"
  by (simp_all add: daemon_ok_def desk_ok_def books new_daemon_def new_desk_def open_refs_def used_refs_def ids_below_def places_def)

text \<open>Events that touch nothing of the books.\<close>

lemma audit_books [simp]: "daemon_ok (audit_line e d) = daemon_ok d" "used_refs (audit_line e d) = used_refs d"
  by (simp_all add: daemon_ok_def books audit_line_def used_refs_def)

lemma beat_books [simp]: "daemon_ok (send_heartbeat now d) = daemon_ok d" "used_refs (send_heartbeat now d) = used_refs d"
  by (simp_all add: daemon_ok_def books send_heartbeat_def used_refs_def)

subsection \<open>The desk\<close>

lemma open_sweep: "open_refs (fst (sweepExpired now dk)) \<subseteq> open_refs dk"
  using sweep_mem unfolding open_refs_def by fastforce

lemma distinct_fold_adel: "distinct (akeys m) \<Longrightarrow> distinct (akeys (fold (\<lambda>(k, r) m. adel k m) gone m))"
  by (induction gone arbitrary: m) (auto simp: amap_simps)

lemma sweep_keys: "distinct (akeys (dk_reservations dk)) \<Longrightarrow> distinct (akeys (dk_reservations (fst (sweepExpired now dk))))"
  by (simp add: sweepExpired_def Let_def distinct_fold_adel)

lemma desk_okI:
  assumes "distinct (akeys (dk_reservations dk))" "\<And>k r. (k, r) \<in> set (dk_reservations dk) \<Longrightarrow> rr_obj r < dk_next dk"
    and "\<And>k r k' r'. (k, r) \<in> set (dk_reservations dk) \<Longrightarrow> (k', r') \<in> set (dk_reservations dk) \<Longrightarrow> rr_obj r = rr_obj r' \<Longrightarrow> k = k'"
    and "\<And>ref r opts. (ref, r, opts) \<in> set ws \<Longrightarrow> rr_obj r < dk_next dk"
    and "\<And>ref r opts k r'. (ref, r, opts) \<in> set ws \<Longrightarrow> (k, r') \<in> set (dk_reservations dk) \<Longrightarrow> rr_obj r' = rr_obj r \<Longrightarrow> k = ref"
  shows "desk_ok dk ws"
  unfolding desk_ok_def using assms by blast

lemma desk_okD:
  assumes "desk_ok dk ws"
  shows "distinct (akeys (dk_reservations dk))" "(k, r) \<in> set (dk_reservations dk) \<Longrightarrow> rr_obj r < dk_next dk"
    "(k, r) \<in> set (dk_reservations dk) \<Longrightarrow> (k', r') \<in> set (dk_reservations dk) \<Longrightarrow> rr_obj r = rr_obj r' \<Longrightarrow> k = k'"
    "(ref, r, opts) \<in> set ws \<Longrightarrow> rr_obj r < dk_next dk"
    "(ref, r, opts) \<in> set ws \<Longrightarrow> (k, r') \<in> set (dk_reservations dk) \<Longrightarrow> rr_obj r' = rr_obj r \<Longrightarrow> k = ref"
  using assms unfolding desk_ok_def by blast+

lemma desk_ok_subset:
  assumes "desk_ok dk ws" "set (dk_reservations dk') \<subseteq> set (dk_reservations dk)" "dk_next dk' = dk_next dk" "distinct (akeys (dk_reservations dk'))"
  shows "desk_ok dk' ws"
proof (rule desk_okI)
  show "distinct (akeys (dk_reservations dk'))" by (rule assms(4))
  show "rr_obj r < dk_next dk'" if "(k, r) \<in> set (dk_reservations dk')" for k r
    using desk_okD(2) [OF assms(1)] assms(2,3) that by (metis subsetD)
  show "k = k'" if "(k, r) \<in> set (dk_reservations dk')" "(k', r') \<in> set (dk_reservations dk')" "rr_obj r = rr_obj r'" for k r k' r'
    using desk_okD(3) [OF assms(1)] assms(2) that by (metis subsetD)
  show "rr_obj r < dk_next dk'" if "(ref, r, opts) \<in> set ws" for ref r opts using desk_okD(4) [OF assms(1) that] assms(3) by simp
  show "k = ref" if "(ref, r, opts) \<in> set ws" "(k, r') \<in> set (dk_reservations dk')" "rr_obj r' = rr_obj r" for ref r opts k r'
    using desk_okD(5) [OF assms(1) that(1)] assms(2) that(2,3) by (metis subsetD)
qed

lemma sweep_ok: "desk_ok dk ws \<Longrightarrow> desk_ok (fst (sweepExpired now dk)) ws"
  by (rule desk_ok_subset) (auto simp: desk_ok_def dest: sweep_mem intro: sweep_keys)

lemma open_mono: "set (dk_reservations dk') \<subseteq> set (dk_reservations dk) \<Longrightarrow> open_refs dk' \<subseteq> open_refs dk"
  unfolding open_refs_def by blast

lemma open_used: "open_refs dk \<subseteq> fst ` set (dk_reservations dk)"
  unfolding open_refs_def by force

lemma set_claimed_keys [simp]: "akeys (dk_reservations (set_claimed i b dk)) = akeys (dk_reservations dk)"
  by (simp add: set_claimed_def comp_def case_prod_beta)

lemma set_claimed_keys' [simp]: "fst ` set (dk_reservations (set_claimed i b dk)) = fst ` set (dk_reservations dk)"
  by (metis list.set_map set_claimed_keys)

lemma set_claimed_from:
  assumes "(k, r) \<in> set (dk_reservations (set_claimed i b dk))"
  shows "\<exists>r0. (k, r0) \<in> set (dk_reservations dk) \<and> rr_obj r0 = rr_obj r \<and> rr_claimed r = (if rr_obj r0 = i then b else rr_claimed r0)"
  using set_claimed_mem [OF assms] by (metis reservation.select_convs(1,5) reservation.surjective reservation.update_convs(5))

lemma set_claimed_ok:
  assumes "desk_ok dk ws"
  shows "desk_ok (set_claimed i b dk) ws"
proof -
  have "rr_obj r < dk_next dk" if "(k, r) \<in> set (dk_reservations (set_claimed i b dk))" for k r
    using set_claimed_from [OF that] desk_okD(2) [OF assms] by metis
  moreover have "k = ref" if "(ref, r, opts) \<in> set ws" "(k, r') \<in> set (dk_reservations (set_claimed i b dk))" "rr_obj r' = rr_obj r" for ref r opts k r'
    using set_claimed_from [OF that(2)] desk_okD(5) [OF assms that(1)] that(3) by metis
  moreover have "k = k'" if "(k, r) \<in> set (dk_reservations (set_claimed i b dk))" "(k', r') \<in> set (dk_reservations (set_claimed i b dk))"
      "rr_obj r = rr_obj r'" for k r k' r'
    using set_claimed_from [OF that(1)] set_claimed_from [OF that(2)] desk_okD(3) [OF assms] that(3) by metis
  moreover have "rr_obj r < dk_next dk" if "(ref, r, opts) \<in> set ws" for ref r opts using desk_okD(4) [OF assms that] .
  ultimately show ?thesis using desk_okD(1) [OF assms] by (intro desk_okI) simp_all
qed

text \<open>Claiming closes one reference; giving it back opens at most that one.\<close>

lemma same_entry: "distinct (akeys m) \<Longrightarrow> (k, x) \<in> set m \<Longrightarrow> (k, y) \<in> set m \<Longrightarrow> x = y"
  by (metis map_of_is_SomeI option.inject)

lemma claim_closes:
  assumes "distinct (akeys (dk_reservations dk))" "(ref, r) \<in> set (dk_reservations dk)"
  shows "open_refs (set_claimed (rr_obj r) True dk) \<subseteq> open_refs dk - {ref}"
proof
  fix k
  assume "k \<in> open_refs (set_claimed (rr_obj r) True dk)"
  then obtain r' where m: "(k, r') \<in> set (dk_reservations (set_claimed (rr_obj r) True dk))" "\<not> rr_claimed r'" by (auto simp: open_refs_def)
  obtain r0 where r0: "(k, r0) \<in> set (dk_reservations dk)" "rr_claimed r' = (if rr_obj r0 = rr_obj r then True else rr_claimed r0)"
    using set_claimed_from [OF m(1)] by blast
  have "k \<noteq> ref" using same_entry [OF assms(1,2)] r0 m(2) by auto
  moreover have "\<not> rr_claimed r0" using r0(2) m(2) by (simp split: if_splits)
  ultimately show "k \<in> open_refs dk - {ref}" using r0(1) by (auto simp: open_refs_def)
qed

lemma unclaim_opens:
  assumes "desk_ok dk ws" "(ref, r, opts) \<in> set ws"
  shows "open_refs (set_claimed (rr_obj r) False dk) \<subseteq> insert ref (open_refs dk)"
proof
  fix k
  assume "k \<in> open_refs (set_claimed (rr_obj r) False dk)"
  then obtain r' where m: "(k, r') \<in> set (dk_reservations (set_claimed (rr_obj r) False dk))" "\<not> rr_claimed r'" by (auto simp: open_refs_def)
  obtain r0 where r0: "(k, r0) \<in> set (dk_reservations dk)" "rr_claimed r' = (if rr_obj r0 = rr_obj r then False else rr_claimed r0)"
    using set_claimed_from [OF m(1)] by blast
  show "k \<in> insert ref (open_refs dk)"
  proof (cases "rr_obj r0 = rr_obj r")
    case True
    then show ?thesis using desk_okD(5) [OF assms r0(1)] by simp
  next
    case False
    then show ?thesis using r0 m(2) by (auto simp: open_refs_def)
  qed
qed

subsection \<open>The spawner\<close>

lemma sweep_used: "fst ` set (dk_reservations (fst (sweepExpired now dk))) \<subseteq> fst ` set (dk_reservations dk)"
  using sweep_mem by fastforce

lemma swept_ok:
  assumes "daemon_ok d"
  shows "daemon_ok (d\<lparr>dm_desk := fst (sweepExpired now (dm_desk d))\<rparr>)" "used_refs (d\<lparr>dm_desk := fst (sweepExpired now (dm_desk d))\<rparr>) \<subseteq> used_refs d"
proof -
  have "desk_ok (fst (sweepExpired now (dm_desk d))) (dm_waiting d)" using assms sweep_ok by (auto simp: daemon_ok_def)
  then show "daemon_ok (d\<lparr>dm_desk := fst (sweepExpired now (dm_desk d))\<rparr>)"
    using assms open_sweep [of now "dm_desk d"] unfolding daemon_ok_def books by (auto intro: places_fewer)
  show "used_refs (d\<lparr>dm_desk := fst (sweepExpired now (dm_desk d))\<rparr>) \<subseteq> used_refs d"
    using sweep_used [of now "dm_desk d"] by (auto simp: used_refs_def waiting_refs_def ended_refs_def)
qed

lemma aset_new: "k \<notin> fst ` set m \<Longrightarrow> aset k v m = m @ [(k, v)]"
  by (induction m) auto

lemma open_insert:
  "set (dk_reservations dk') = insert (k, r) (set (dk_reservations dk)) \<Longrightarrow> \<not> rr_claimed r \<Longrightarrow> open_refs dk' = insert k (open_refs dk)"
  unfolding open_refs_def by auto

lemma reserve_books:
  assumes "daemon_ok d" "ref \<notin> used_refs d"
  shows "daemon_ok (d\<lparr>dm_desk := (dm_desk d)\<lparr>dk_reservations := aset ref \<lparr>rr_obj = dk_next (dm_desk d), rr_ref = ref, rr_spec = spec, rr_expiresAt = t,
      rr_claimed = False\<rparr> (dk_reservations (dm_desk d)), dk_next := Suc (dk_next (dm_desk d))\<rparr>, dm_launches := aset ref l (dm_launches d)\<rparr>)"
    (is "daemon_ok ?d")
proof -
  let ?m = "dk_reservations (dm_desk d)" and ?n = "dk_next (dm_desk d)"
  let ?r = "\<lparr>rr_obj = ?n, rr_ref = ref, rr_spec = spec, rr_expiresAt = t, rr_claimed = False\<rparr>"
  have new: "ref \<notin> fst ` set ?m" "ref \<notin> set (waiting_refs d @ akeys (dm_registry d) @ ended_refs d)" using assms(2) by (auto simp: used_refs_def)
  have a: "aset ref ?r ?m = ?m @ [(ref, ?r)]" by (rule aset_new [OF new(1)])
  have d: "desk_ok (dm_desk d) (dm_waiting d)" and r: "refs_ok d" using assms(1) by (simp_all add: daemon_ok_def)
  have less: "rr_obj r < ?n" if "(k, r) \<in> set ?m" for k r using desk_okD(2) [OF d that] .
  have wl: "rr_obj r < ?n" "(k, r') \<in> set ?m \<Longrightarrow> rr_obj r' = rr_obj r \<Longrightarrow> k = w" if "(w, r, opts) \<in> set (dm_waiting d)" for w r opts k r'
    using desk_okD(4) [OF d that] desk_okD(5) [OF d that] by blast+
  have "distinct (akeys (?m @ [(ref, ?r)]))" using d new(1) by (simp add: desk_ok_def)
  moreover have "\<forall>(k, r) \<in> set (?m @ [(ref, ?r)]). rr_obj r < Suc ?n" using less by (auto simp: less_Suc_eq)
  moreover have "\<forall>(w, r, opts) \<in> set (dm_waiting d). rr_obj r < Suc ?n \<and> (\<forall>(k, r') \<in> set (?m @ [(ref, ?r)]). rr_obj r' = rr_obj r \<longrightarrow> k = w)"
  proof (clarify, intro conjI ballI, goal_cases)
    case (1 w r opts)
    then show ?case using wl(1) by (simp add: less_Suc_eq)
  next
    case (2 w r opts x)
    then show ?case using wl(1) [OF 2(1)] wl(2) [OF 2(1), of "fst x" "snd x"] by (cases x) auto
  qed
  moreover have "\<forall>(k, r) \<in> set (?m @ [(ref, ?r)]). \<forall>(k', r') \<in> set (?m @ [(ref, ?r)]). rr_obj r = rr_obj r' \<longrightarrow> k = k'"
  proof (clarify, goal_cases)
    case (1 k r k' r')
    have "(k, r) \<in> set ?m \<Longrightarrow> (k', r') \<in> set ?m \<Longrightarrow> k = k'" using desk_okD(3) [OF d] 1(3) by blast
    then show ?case using 1 less [of k r] less [of k' r'] by auto
  qed
  ultimately have "desk_ok (dm_desk ?d) (dm_waiting ?d)" by (simp add: desk_ok_def a)
  moreover have o: "open_refs (dm_desk ?d) = insert ref (open_refs (dm_desk d))" by (rule open_insert [where r = ?r]) (simp_all add: a)
  have "refs_ok ?d" using places_new [OF r [unfolded refs_ok_def] new(2)] unfolding refs_ok_def o by (simp add: waiting_refs_def ended_refs_def set_akeys_aset)
  ultimately show ?thesis using assms(1) unfolding daemon_ok_def books by auto
qed

lemma spawner_reserve_ok:
  assumes "daemon_ok d" "ref \<notin> used_refs d"
  shows "daemon_ok (fst (spawner_reserve ref now ttl spec d))" "used_refs (fst (spawner_reserve ref now ttl spec d)) \<subseteq> insert ref (used_refs d)"
proof -
  let ?s = "d\<lparr>dm_desk := fst (sweepExpired now (dm_desk d))\<rparr>"
  note s = swept_ok [OF assms(1), of now]
  have n: "ref \<notin> used_refs ?s" using assms(2) s(2) by blast
  have "daemon_ok (fst (spawner_reserve ref now ttl spec d)) \<and> used_refs (fst (spawner_reserve ref now ttl spec d)) \<subseteq> insert ref (used_refs ?s)"
  proof (cases "reserveOpenSession ref now spec ttl (dm_desk ?s)")
    case None
    then show ?thesis using s(1) by (auto simp: spawner_reserve_def Let_def)
  next
    case (Some x)
    then obtain t where t: "ttl = Some t" "0 < t" by (auto simp: reserveOpenSession_def split: option.splits if_splits)
    show ?thesis
      using reserve_books [OF s(1) n, where spec = spec and t = "now + t" and l = "\<lparr>le_argv = ss_argv spec, le_cwd = ss_cwd spec, le_startedAt = now\<rparr>"] t
      by (simp add: spawner_reserve_def reserveOpenSession_def Let_def used_refs_def waiting_refs_def ended_refs_def set_akeys_aset)
  qed
  then show "daemon_ok (fst (spawner_reserve ref now ttl spec d))" "used_refs (fst (spawner_reserve ref now ttl spec d)) \<subseteq> insert ref (used_refs d)"
    using s(2) by blast+
qed

lemma claim_waits:
  assumes "daemon_ok d" "aget (dk_reservations (dm_desk d)) ref = Some r" "\<not> rr_claimed r"
  shows "daemon_ok (d\<lparr>dm_stream := Suc (dm_stream d), dm_desk := set_claimed (rr_obj r) True (dm_desk d),
      dm_waiting := dm_waiting d @ [(ref, r, claim_options (dm_stream d))]\<rparr>)" (is "daemon_ok ?d")
    and "ref \<in> used_refs d"
proof -
  let ?dk = "dm_desk d"
  have d: "desk_ok ?dk (dm_waiting d)" and rf: "refs_ok d" and st: "streams_ok d" using assms(1) by (simp_all add: daemon_ok_def)
  have m: "(ref, r) \<in> set (dk_reservations ?dk)" using map_of_SomeD [OF assms(2)] .
  then have o: "ref \<in> open_refs ?dk" using assms(3) by (auto simp: open_refs_def)
  show "ref \<in> used_refs d" using m by (force simp: used_refs_def)
  have c: "open_refs (set_claimed (rr_obj r) True ?dk) \<subseteq> open_refs ?dk - {ref}" using claim_closes [OF _ m] d by (simp add: desk_ok_def)
  have k: "desk_ok (set_claimed (rr_obj r) True ?dk) (dm_waiting d)" using d by (rule set_claimed_ok)
  have one: "k = ref" if "(k, r') \<in> set (dk_reservations (set_claimed (rr_obj r) True ?dk))" "rr_obj r' = rr_obj r" for k r'
    using set_claimed_from [OF that(1)] desk_okD(3) [OF d _ m] that(2) by metis
  have less: "rr_obj r < dk_next ?dk" using desk_okD(2) [OF d m] .
  have "desk_ok (set_claimed (rr_obj r) True ?dk) (dm_waiting d @ [(ref, r, claim_options (dm_stream d))])"
  proof (rule desk_okI, goal_cases)
    case (4 w r' opts)
    then show ?case using desk_okD(4) [OF k, of w r' opts] less by auto
  next
    case (5 w r' opts k r'')
    then show ?case using desk_okD(5) [OF \<open>desk_ok (set_claimed (rr_obj r) True ?dk) (dm_waiting d)\<close>, of w r' opts k r''] one by auto
  qed (use desk_okD(1-3) [OF k] in blast)+
  moreover have "refs_ok ?d"
    using places_claim [OF _ o c] rf by (simp add: refs_ok_def waiting_refs_def ended_refs_def)
  moreover have "streams_ok ?d"
    using ids_below_new [of "map (\<lambda>(ref, r, opts). op_streamId opts) (dm_waiting d)" "map (\<lambda>(k, s). Some (se_streamId s)) (dm_registry d)" "dm_stream d"] st
    by (simp add: streams_ok_def stream_ids_def claim_options_def)
  ultimately show "daemon_ok ?d" using assms(1) unfolding daemon_ok_def books by simp
qed

lemma desk_shrinks:
  assumes "daemon_ok d" "set (dk_reservations dk) \<subseteq> set (dk_reservations (dm_desk d))" "dk_next dk = dk_next (dm_desk d)" "distinct (akeys (dk_reservations dk))"
  shows "daemon_ok (d\<lparr>dm_stream := Suc (dm_stream d), dm_desk := dk\<rparr>)" "used_refs (d\<lparr>dm_stream := Suc (dm_stream d), dm_desk := dk\<rparr>) \<subseteq> used_refs d"
proof -
  have "desk_ok dk (dm_waiting d)" using assms by (auto intro: desk_ok_subset simp: daemon_ok_def)
  then show "daemon_ok (d\<lparr>dm_stream := Suc (dm_stream d), dm_desk := dk\<rparr>)"
    using assms(1) open_mono [OF assms(2)] unfolding daemon_ok_def books by (auto intro: places_fewer dest: ids_below_Suc)
  show "used_refs (d\<lparr>dm_stream := Suc (dm_stream d), dm_desk := dk\<rparr>) \<subseteq> used_refs d"
    using assms(2) by (auto simp: used_refs_def waiting_refs_def ended_refs_def)
qed

lemma spawner_claim_ok:
  assumes "daemon_ok d"
  shows "daemon_ok (fst (spawner_claim ref now d))" "used_refs (fst (spawner_claim ref now d)) \<subseteq> used_refs d"
proof -
  have dk: "distinct (akeys (dk_reservations (dm_desk d)))" using assms by (simp add: daemon_ok_def desk_ok_def)
  note same = desk_shrinks [OF assms, of "dm_desk d"]
  note gone = desk_shrinks [OF assms, of "(dm_desk d)\<lparr>dk_reservations := adel ref (dk_reservations (dm_desk d))\<rparr>"]
  have "daemon_ok (fst (spawner_claim ref now d)) \<and> used_refs (fst (spawner_claim ref now d)) \<subseteq> used_refs d"
  proof (cases "aget (dk_reservations (dm_desk d)) ref")
    case None
    then show ?thesis using same dk by (simp add: spawner_claim_def claimOpenSession_def Let_def)
  next
    case (Some r)
    consider "rr_claimed r" | "\<not> rr_claimed r" "rr_expiresAt r < now" | "\<not> rr_claimed r" "\<not> rr_expiresAt r < now" by blast
    then show ?thesis
    proof cases
      case 1
      then show ?thesis using same dk Some by (simp add: spawner_claim_def claimOpenSession_def Let_def)
    next
      case 2
      have "set (adel ref (dk_reservations (dm_desk d))) \<subseteq> set (dk_reservations (dm_desk d))" by (auto simp: adel_def)
      then show ?thesis using gone dk 2 Some by (simp add: spawner_claim_def claimOpenSession_def Let_def distinct_akeys_adel)
    next
      case 3
      then show ?thesis using claim_waits [OF assms Some 3(1)] Some
        by (auto simp: spawner_claim_def claimOpenSession_def Let_def used_refs_def waiting_refs_def ended_refs_def)
    qed
  qed
  then show "daemon_ok (fst (spawner_claim ref now d))" "used_refs (fst (spawner_claim ref now d)) \<subseteq> used_refs d" by blast+
qed

lemma desk_ok_fewer: "desk_ok dk ws \<Longrightarrow> set ws' \<subseteq> set ws \<Longrightarrow> desk_ok dk ws'"
proof (rule desk_okI, goal_cases)
  case (4 ref r opts)
  then show ?case using desk_okD(4) by (meson subsetD)
next
  case (5 ref r opts k r')
  then show ?case using desk_okD(5) by (meson subsetD)
next
  case (3 k r k' r')
  then show ?case using desk_okD(3) by metis
qed (simp_all add: desk_okD)

lemma new_session_name:
  "new_session em ref c r opts = Some s \<Longrightarrow> name_of s = (ref, case op_streamId opts of None \<Rightarrow> DEFAULT_STREAM_ID | Some n \<Rightarrow> n)"
  unfolding new_session_def name_of_def
  by (cases "new_ring (case op_ringBytes opts of None \<Rightarrow> DEFAULT_RING_BYTES | Some n \<Rightarrow> n)") auto

lemma opened_name:
  assumes "openSession em ref spec spawned g (merge_options base opts) = Some (g', s)" "op_streamId opts = Some n"
  shows "aget g ref = None" "g' = aset ref s g" "name_of s = (ref, n)"
proof -
  obtain s' where n: "new_session em ref (ss_cols spec) (ss_rows spec) (merge_options base opts) = Some s'" and g: "reg_register ref s' g = Some g'" "s' = s"
    using assms(1) by (auto simp: openSession_def split: if_splits option.splits)
  show "aget g ref = None" "g' = aset ref s g" using g by (simp_all add: reg_register_def split: if_splits)
  show "name_of s = (ref, n)" using new_session_name [OF n] g(2) assms(2) by (simp add: merge_options_def over_def)
qed

lemma aset_twice: "aset k v (aset k v' m) = aset k v m"
  by (induction m) auto

lemma settled_ok:
  assumes "daemon_ok d" and w: "dm_waiting d = xs @ (ref, r, opts) # ys"
    and st: "claim_settled em ref r spawned opts (dm_desk d) (dm_registry d) = (dk, g, so)"
  defines "d' \<equiv> d\<lparr>dm_desk := dk, dm_registry := (case so of None \<Rightarrow> g | Some s \<Rightarrow> aset ref (watched em s) g), dm_waiting := xs @ ys\<rparr>"
  shows "daemon_ok d'" "used_refs d' \<subseteq> used_refs d"
proof -
  have d: "desk_ok (dm_desk d) (dm_waiting d)" and rf: "refs_ok d" and sm: "streams_ok d" and rp: "reports_ok d" and ls: "listed_ok d"
    using assms(1) by (simp_all add: daemon_ok_def)
  have mem: "(ref, r, opts) \<in> set (dm_waiting d)" by (simp add: w)
  have waits: "set (xs @ ys) \<subseteq> set (dm_waiting d)" by (auto simp: w)
  have "daemon_ok d' \<and> used_refs d' \<subseteq> used_refs d"
  proof (cases so)
    case None
    then have e: "dk = set_claimed (rr_obj r) False (dm_desk d)" "g = dm_registry d"
      using st by (auto simp: claim_settled_def split: option.splits)
    have "desk_ok dk (xs @ ys)" unfolding e using desk_ok_fewer [OF set_claimed_ok [OF d] waits] .
    moreover have "refs_ok d'"
      using places_back [OF _ unclaim_opens [OF d mem]] rf by (simp add: refs_ok_def waiting_refs_def ended_refs_def d'_def None e w)
    moreover have "streams_ok d'"
      using ids_below_drop [of "map (\<lambda>(ref, r, opts). op_streamId opts) xs" "op_streamId opts" _ "dm_stream d"] sm
      by (simp add: streams_ok_def stream_ids_def d'_def None e w)
    moreover have "used_refs d' \<subseteq> used_refs d" by (auto simp: used_refs_def waiting_refs_def ended_refs_def d'_def None e w)
    ultimately show ?thesis using rp ls by (simp add: daemon_ok_def reports_ok_def listed_ok_def d'_def None e)
  next
    case (Some s)
    then obtain g' where e: "dk = dm_desk d" "g = g'" and op: "openSession em ref (rr_spec r) spawned (dm_registry d) (merge_options (dk_options (dm_desk d)) opts) = Some (g', s)"
      using st by (auto simp: claim_settled_def split: option.splits)
    have "op_streamId opts \<in> set (stream_ids d)" by (simp add: stream_ids_def w)
    then obtain n where n: "op_streamId opts = Some n" using sm unfolding streams_ok_def ids_below_def by blast
    note o = opened_name [OF op n]
    have reg: "dm_registry d' = dm_registry d @ [(ref, watched em s)]"
      unfolding d'_def using aset_new [of ref "dm_registry d" "watched em s"] o(1) aset_twice [of ref "watched em s" s "dm_registry d"]
      by (simp add: Some e o(2) map_of_eq_None_iff)
    have nm: "se_ref (watched em s) = ref" "se_streamId (watched em s) = n" using name_watched [of em s] o(3) by (simp_all add: name_of_def)
    have k: "dm_waiting d' = xs @ ys" "dm_desk d' = dm_desk d" "dm_ended d' = dm_ended d" "dm_launches d' = dm_launches d" "dm_stream d' = dm_stream d"
      by (simp_all add: d'_def e)
    have "desk_ok (dm_desk d') (dm_waiting d')" unfolding k using desk_ok_fewer [OF d waits] .
    moreover have "refs_ok d'" using places_list rf by (simp add: refs_ok_def waiting_refs_def ended_refs_def k reg w)
    moreover have "streams_ok d'"
      using ids_below_move [of "map (\<lambda>(ref, r, opts). op_streamId opts) xs" "Some n"
          "map (\<lambda>(ref, r, opts). op_streamId opts) ys @ map (\<lambda>(k, s). Some (se_streamId s)) (dm_registry d)" "dm_stream d"] sm
      by (simp add: streams_ok_def stream_ids_def k reg w n nm)
    moreover have "listed_ok d'" using ls nm by (auto simp: listed_ok_def reg)
    moreover have "used_refs d' \<subseteq> used_refs d" by (auto simp: used_refs_def waiting_refs_def ended_refs_def k reg w)
    ultimately show ?thesis using rp by (simp add: daemon_ok_def reports_ok_def k)
  qed
  then show "daemon_ok d'" "used_refs d' \<subseteq> used_refs d" by blast+
qed

lemma spawner_settled_ok:
  assumes "daemon_ok d"
  shows "daemon_ok (spawner_settled em i spawned d)" "used_refs (spawner_settled em i spawned d) \<subseteq> used_refs d"
proof -
  have "daemon_ok (spawner_settled em i spawned d) \<and> used_refs (spawner_settled em i spawned d) \<subseteq> used_refs d"
  proof (cases "i < length (dm_waiting d)")
    case True
    obtain ref r opts where x: "dm_waiting d ! i = (ref, r, opts)" by (cases "dm_waiting d ! i")
    have w: "dm_waiting d = take i (dm_waiting d) @ (ref, r, opts) # drop (Suc i) (dm_waiting d)" using id_take_nth_drop [OF True] x by simp
    obtain dk g so where st: "claim_settled em ref r spawned opts (dm_desk d) (dm_registry d) = (dk, g, so)"
      by (cases "claim_settled em ref r spawned opts (dm_desk d) (dm_registry d)")
    have "spawner_settled em i spawned d = d\<lparr>dm_desk := dk, dm_registry := (case so of None \<Rightarrow> g | Some s \<Rightarrow> aset ref (watched em s) g),
        dm_waiting := take i (dm_waiting d) @ drop (Suc i) (dm_waiting d)\<rparr>"
      using True x st by (cases so) (simp_all add: spawner_settled_def)
    then show ?thesis using settled_ok [OF assms w st] by simp
  next
    case False
    then show ?thesis using assms by (simp add: spawner_settled_def)
  qed
  then show "daemon_ok (spawner_settled em i spawned d)" "used_refs (spawner_settled em i spawned d) \<subseteq> used_refs d" by blast+
qed

subsection \<open>Sessions\<close>

lemma aset_place:
  "aget m k = Some v \<Longrightarrow> \<exists>m1 m2. m = m1 @ (k, v) # m2 \<and> (\<forall>v'. aset k v' m = m1 @ (k, v') # m2)"
proof (induction m)
  case (Cons p m)
  show ?case
  proof (cases "fst p = k")
    case True
    then show ?thesis using Cons.prems by (intro exI [of _ "[]"] exI [of _ m]) (cases p; simp)
  next
    case False
    then obtain m1 m2 where "m = m1 @ (k, v) # m2" "\<forall>v'. aset k v' m = m1 @ (k, v') # m2" using Cons by (cases p) auto
    then show ?thesis using False by (intro exI [of _ "p # m1"] exI [of _ m2]) (cases p; simp)
  qed
qed simp

lemma event_books:
  assumes "daemon_ok d" "aget (dm_registry d) ref = Some s" "name_of s' = name_of s"
  shows "daemon_ok (d\<lparr>dm_registry := aset ref s' (dm_registry d)\<rparr>)" "used_refs (d\<lparr>dm_registry := aset ref s' (dm_registry d)\<rparr>) = used_refs d"
proof -
  obtain m1 m2 where m: "dm_registry d = m1 @ (ref, s) # m2" and a: "aset ref s' (dm_registry d) = m1 @ (ref, s') # m2"
    using aset_place [OF assms(2)] by blast
  have n: "se_ref s' = se_ref s" "se_streamId s' = se_streamId s" using assms(3) by (simp_all add: name_of_def)
  show "daemon_ok (d\<lparr>dm_registry := aset ref s' (dm_registry d)\<rparr>)" "used_refs (d\<lparr>dm_registry := aset ref s' (dm_registry d)\<rparr>) = used_refs d"
    using assms(1) unfolding a
    by (simp_all add: daemon_ok_def refs_ok_def streams_ok_def stream_ids_def reports_ok_def listed_ok_def waiting_refs_def ended_refs_def used_refs_def m n)
qed

lemma buffer_bounded: "length es \<le> MAX_ENDED_REPORTS \<Longrightarrow> length (push_ended r es) \<le> MAX_ENDED_REPORTS"
  by (auto simp: push_ended_def MAX_ENDED_REPORTS_def)

lemma over_ok:
  assumes "daemon_ok d" "aget (dm_registry d) ref = Some s"
  shows "daemon_ok (session_over ref now d)" "used_refs (session_over ref now d) \<subseteq> used_refs d"
proof -
  obtain m1 m2 where m: "dm_registry d = m1 @ (ref, s) # m2" using aset_place [OF assms(2)] by blast
  have rf: "places (open_refs (dm_desk d)) (waiting_refs d) (akeys (dm_registry d)) (ended_refs d) (fst ` set (dm_launches d))"
    using assms(1) by (simp add: daemon_ok_def refs_ok_def)
  then have "ref \<notin> fst ` set m1" "ref \<notin> fst ` set m2" unfolding m places_def by simp_all
  then have n: "\<forall>p \<in> set m1. fst p \<noteq> ref" "\<forall>p \<in> set m2. fst p \<noteq> ref" by (metis imageI)+
  have keep: "\<forall>p \<in> set xs. fst p \<noteq> ref \<Longrightarrow> filter (\<lambda>(k', v). k' \<noteq> ref) xs = xs" for xs :: "(string \<times> 'a session) list"
    by (intro filter_True) auto
  have gone: "adel ref (dm_registry d) = m1 @ m2" unfolding m adel_def using keep [OF n(1)] keep [OF n(2)] by simp
  have reg: "dm_registry (session_over ref now d) = m1 @ m2" using gone assms(2) by (simp add: session_over_def reg_remove_def)
  have noted: "fst ` set (adel ref (dm_launches d)) = fst ` set (dm_launches d) - {ref}" by (auto simp: adel_def)
  have over: "places (open_refs (dm_desk d)) (waiting_refs d) (akeys (m1 @ m2)) (ended_refs d @ [ref]) (fst ` set (adel ref (dm_launches d)))"
    unfolding noted using places_over [of _ _ "akeys m1" ref "akeys m2"] rf by (simp add: m)
  have k: "dm_desk (session_over ref now d) = dm_desk d" "dm_waiting (session_over ref now d) = dm_waiting d" "dm_stream (session_over ref now d) = dm_stream d"
    "dm_launches (session_over ref now d) = adel ref (dm_launches d)"
    by (simp_all add: session_over_def Let_def)
  consider (same) "dm_ended (session_over ref now d) = dm_ended d"
    | (push) r where "dm_ended (session_over ref now d) = push_ended r (dm_ended d)" "sp_sessionRef r = ref" "sp_status r = ''ended''" "sp_endedAt r = Some now"
    by (cases "aget (dm_launches d) ref"; cases "dm_collect d") (auto simp: session_over_def Let_def)
  then obtain es where es: "dm_ended (session_over ref now d) = es" "length es \<le> MAX_ENDED_REPORTS" "\<forall>r \<in> set es. sp_status r = ''ended'' \<and> sp_endedAt r \<noteq> None"
    "places (open_refs (dm_desk d)) (waiting_refs d) (akeys (m1 @ m2)) (map sp_sessionRef es) (fst ` set (adel ref (dm_launches d)))"
    "set (map sp_sessionRef es) \<subseteq> insert ref (set (ended_refs d))"
  proof cases
    case same
    have "places (open_refs (dm_desk d)) (waiting_refs d) (akeys (m1 @ m2)) (ended_refs d) (fst ` set (adel ref (dm_launches d)))"
      using over unfolding places_def by auto
    then show ?thesis using that [OF same] assms(1) by (auto simp: daemon_ok_def reports_ok_def ended_refs_def)
  next
    case push
    have "\<exists>n. push_ended r (dm_ended d) = drop n (dm_ended d @ [r])" unfolding push_ended_def by (metis drop0)
    then obtain n where n: "push_ended r (dm_ended d) = drop n (dm_ended d @ [r])" by blast
    have "set (drop n (dm_ended d @ [r])) \<subseteq> insert r (set (dm_ended d))" using set_drop_subset [of n "dm_ended d @ [r]"] by auto
    moreover have "places (open_refs (dm_desk d)) (waiting_refs d) (akeys (m1 @ m2)) (map sp_sessionRef (drop n (dm_ended d @ [r]))) (fst ` set (adel ref (dm_launches d)))"
      using places_drop [OF over, of n] push(2) by (simp add: drop_map [symmetric] ended_refs_def)
    moreover have "length (push_ended r (dm_ended d)) \<le> MAX_ENDED_REPORTS" using assms(1) buffer_bounded by (auto simp: daemon_ok_def reports_ok_def)
    ultimately show ?thesis using that [OF push(1)] push(2-4) assms(1) unfolding n
      by (auto simp: daemon_ok_def reports_ok_def ended_refs_def)
  qed
  have "streams_ok (session_over ref now d)"
    using assms(1) ids_below_drop [of "map (\<lambda>(ref, r, opts). op_streamId opts) (dm_waiting d) @ map (\<lambda>(k, s). Some (se_streamId s)) m1"
        "Some (se_streamId s)" "map (\<lambda>(k, s). Some (se_streamId s)) m2" "dm_stream d"]
    by (simp add: daemon_ok_def streams_ok_def stream_ids_def k reg m)
  moreover have "listed_ok (session_over ref now d)" using assms(1) by (auto simp: daemon_ok_def listed_ok_def reg m)
  ultimately show "daemon_ok (session_over ref now d)"
    using assms(1) es(1-4) by (simp add: daemon_ok_def refs_ok_def reports_ok_def waiting_refs_def ended_refs_def k reg)
  show "used_refs (session_over ref now d) \<subseteq> used_refs d"
    using es(1,5) by (auto simp: used_refs_def waiting_refs_def ended_refs_def k reg m)
qed

lemma session_event_ok:
  assumes "daemon_ok d"
  shows "daemon_ok (session_event_on em ref now ev d)" "used_refs (session_event_on em ref now ev d) \<subseteq> used_refs d"
proof -
  have "daemon_ok (session_event_on em ref now ev d) \<and> used_refs (session_event_on em ref now ev d) \<subseteq> used_refs d"
  proof (cases "aget (dm_registry d) ref")
    case None
    then show ?thesis using assms by (simp add: session_event_on_def reg_get_def)
  next
    case (Some s)
    note e = event_books [OF assms Some name_step [of em ev s]]
    note o = over_ok [OF e(1), of ref "session_step em ev s" now]
    show ?thesis using e o Some by (auto simp: session_event_on_def reg_get_def Let_def)
  qed
  then show "daemon_ok (session_event_on em ref now ev d)" "used_refs (session_event_on em ref now ev d) \<subseteq> used_refs d" by blast+
qed

subsection \<open>Beats, and the machine\<close>

lemma beat_settled_ok:
  assumes "daemon_ok d"
  shows "daemon_ok (beat_settled i ok d)" "used_refs (beat_settled i ok d) \<subseteq> used_refs d"
proof -
  have "daemon_ok (d\<lparr>dm_beats := b, dm_ended := drop n (dm_ended d)\<rparr>) \<and> used_refs (d\<lparr>dm_beats := b, dm_ended := drop n (dm_ended d)\<rparr>) \<subseteq> used_refs d" for b n
  proof -
    have "set (drop n (dm_ended d)) \<subseteq> set (dm_ended d)" by (rule set_drop_subset)
    then show ?thesis using assms places_drop [of _ _ _ "ended_refs d" _ n]
      by (auto simp: daemon_ok_def books drop_map used_refs_def)
  qed
  from this [where n = 0] this show "daemon_ok (beat_settled i ok d)" "used_refs (beat_settled i ok d) \<subseteq> used_refs d"
    using assms by (simp_all add: beat_settled_def)
qed

definition reserved_refs :: "daemon_event list \<Rightarrow> string list" where
  "reserved_refs es = concat (map (\<lambda>e. case e of DmReserve ref now ttl spec \<Rightarrow> [ref] | DmRemoteReserve ref now ttl spec \<Rightarrow> [ref] | _ \<Rightarrow> []) es)"

definition daemon_history :: "daemon_event list \<Rightarrow> 'm daemon \<Rightarrow> bool" where
  "daemon_history es d \<longleftrightarrow> (distinct (reserved_refs es) \<longrightarrow> daemon_ok d \<and> used_refs d \<subseteq> set (reserved_refs es))"

lemma custody_hooks:
  "daemon_ok (fst (custody_reserve ref now ttl spec d)) = daemon_ok (fst (spawner_reserve ref now ttl spec d))"
  "used_refs (fst (custody_reserve ref now ttl spec d)) = used_refs (fst (spawner_reserve ref now ttl spec d))"
  by (auto simp: custody_reserve_def split: prod.split option.split)

lemma daemon_step_history:
  assumes "daemon_history es d"
  shows "daemon_history (es @ [e]) (daemon_step em e d)"
  unfolding daemon_history_def
proof
  assume "distinct (reserved_refs (es @ [e]))"
  then have ok: "daemon_ok d" "used_refs d \<subseteq> set (reserved_refs es)" and new: "\<forall>ref \<in> set (reserved_refs [e]). ref \<notin> used_refs d"
    using assms by (auto simp: daemon_history_def reserved_refs_def)
  have "daemon_ok (daemon_step em e d) \<and> used_refs (daemon_step em e d) \<subseteq> set (reserved_refs [e]) \<union> used_refs d"
    using spawner_reserve_ok [OF ok(1)] new spawner_claim_ok [OF ok(1)] spawner_settled_ok [OF ok(1)] session_event_ok [OF ok(1)] beat_settled_ok [OF ok(1)] ok(1)
      spawner_claim_ok [of "audit_line b d" for b]
    by (cases e) (simp_all add: daemon_step_def reserved_refs_def custody_hooks custody_claim_def gate_verdict_def local_connection_def launched_def)
  then show "daemon_ok (daemon_step em e d) \<and> used_refs (daemon_step em e d) \<subseteq> set (reserved_refs (es @ [e]))"
    using ok(2) by (auto simp: reserved_refs_def)
qed

interpretation daemon: history_machine "daemon_step em" daemon_history
  for em :: "'m emulator"
  by unfold_locales (rule daemon_step_history)

lemma daemon_run_ok:
  assumes "distinct (reserved_refs es)"
  shows "daemon_ok (daemon_run em es (new_daemon docked))"
proof -
  have "daemon_history [] (new_daemon docked)" by (simp add: daemon_history_def new_daemon_ok)
  from daemon.run_hist [where em = em, OF this] show ?thesis using assms by (simp add: daemon_history_def daemon_run_def)
qed

end
