(* ===== verification/Uplink.thy ===== *)
theory Uplink
  imports Prelude
begin

text \<open>
  The reconnecting uplink of the daemon, \<open>packages/cli/src/daemon/relay-uplink.ts\<close>: its registration loop, its
  back-off and its beats. A registration is one outcome, success or failure, and then the end of the control
  connection; delays are whole milliseconds and the growth factor is a whole number.
\<close>

definition DEFAULT_HEARTBEAT_INTERVAL_MS :: nat where "DEFAULT_HEARTBEAT_INTERVAL_MS = 30000"
definition DEFAULT_BACKOFF_INITIAL_MS :: nat where "DEFAULT_BACKOFF_INITIAL_MS = 500"
definition DEFAULT_BACKOFF_MAX_MS :: nat where "DEFAULT_BACKOFF_MAX_MS = 30000"
definition DEFAULT_BACKOFF_FACTOR :: nat where "DEFAULT_BACKOFF_FACTOR = 2"

record backoff =
  bo_initialMs :: nat
  bo_maxMs :: nat
  bo_factor :: nat

definition default_backoff :: backoff where
  "default_backoff = \<lparr>bo_initialMs = DEFAULT_BACKOFF_INITIAL_MS, bo_maxMs = DEFAULT_BACKOFF_MAX_MS, bo_factor = DEFAULT_BACKOFF_FACTOR\<rparr>"

datatype uplink_state = UpConnecting | UpRegistered | UpBackoff

text \<open>Where the loop waits: for the registration, for its end, for a sleep, or nowhere any more.\<close>

datatype uplink_wait = WaitDial | WaitClose | WaitSleep nat | WaitNone

record uplink =
  up_closed :: bool
  up_wait :: uplink_wait
  up_backoff :: nat
  up_beating :: bool
  up_beats :: nat
  up_reports :: "uplink_state list"

definition up_report :: "uplink_state \<Rightarrow> uplink \<Rightarrow> uplink" where
  "up_report st u = u\<lparr>up_reports := up_reports u @ [st]\<rparr>"

text \<open>The head of the loop.\<close>

definition loop_head :: "uplink \<Rightarrow> uplink" where
  "loop_head u = (if up_closed u then u\<lparr>up_wait := WaitNone\<rparr> else (up_report UpConnecting u)\<lparr>up_wait := WaitDial\<rparr>)"

text \<open>Behind \<open>registerOnce\<close>.\<close>

definition registration_over :: "uplink \<Rightarrow> uplink" where
  "registration_over u =
     (if up_closed u then u\<lparr>up_wait := WaitNone\<rparr>
      else (up_report UpBackoff u)\<lparr>up_wait := WaitSleep (up_backoff u)\<rparr>)"

text \<open>Behind the sleep.\<close>

definition sleep_over :: "backoff \<Rightarrow> uplink \<Rightarrow> uplink" where
  "sleep_over b u = loop_head (u\<lparr>up_backoff := min (bo_maxMs b) (up_backoff u * bo_factor b)\<rparr>)"

definition startRelayUplink :: "backoff \<Rightarrow> uplink" where
  "startRelayUplink b =
     loop_head \<lparr>up_closed = False, up_wait = WaitNone, up_backoff = bo_initialMs b, up_beating = True, up_beats = 1, up_reports = []\<rparr>"

text \<open>A close wakes the sleep and closes a live registration; a registration that comes later is closed at once.\<close>

definition close_uplink :: "backoff \<Rightarrow> uplink \<Rightarrow> uplink" where
  "close_uplink b u =
     (if up_closed u then u
      else
        let u1 = u\<lparr>up_closed := True, up_beating := False\<rparr>
        in (case up_wait u1 of
              WaitSleep d \<Rightarrow> sleep_over b u1
            | WaitClose \<Rightarrow> registration_over u1
            | _ \<Rightarrow> u1))"

datatype uplink_event = DialDone bool | ControlGone | SleepDone | BeatTick | CloseUplink

definition uplink_step :: "backoff \<Rightarrow> uplink_event \<Rightarrow> uplink \<Rightarrow> uplink" where
  "uplink_step b e u =
     (case e of
        DialDone ok \<Rightarrow>
          if up_wait u \<noteq> WaitDial then u
          else if \<not> ok \<or> up_closed u then registration_over u
          else (up_report UpRegistered u)\<lparr>up_wait := WaitClose, up_backoff := bo_initialMs b\<rparr>
      | ControlGone \<Rightarrow> if up_wait u = WaitClose then registration_over u else u
      | SleepDone \<Rightarrow> (case up_wait u of WaitSleep d \<Rightarrow> sleep_over b u | _ \<Rightarrow> u)
      | BeatTick \<Rightarrow> if up_beating u then u\<lparr>up_beats := Suc (up_beats u)\<rparr> else u
      | CloseUplink \<Rightarrow> close_uplink b u)"

definition uplink_run :: "backoff \<Rightarrow> uplink_event list \<Rightarrow> uplink \<Rightarrow> uplink" where
  "uplink_run b es u = fold (uplink_step b) es u"

subsection \<open>The loop's invariant\<close>

text \<open>The failures since the last registration, as the reports tell them.\<close>

definition failures :: "uplink_state list \<Rightarrow> nat" where
  "failures rs = length (filter (\<lambda>r. r = UpBackoff) (takeWhile (\<lambda>r. r \<noteq> UpRegistered) (rev rs)))"

lemma failures_snoc [simp]: "failures [] = 0" "failures (rs @ [UpConnecting]) = failures rs" "failures (rs @ [UpBackoff]) = Suc (failures rs)"
  "failures (rs @ [UpRegistered]) = 0"
  by (simp_all add: failures_def)

definition delay_after :: "backoff \<Rightarrow> nat \<Rightarrow> nat" where
  "delay_after b k = min (bo_maxMs b) (bo_initialMs b * bo_factor b ^ k)"

definition sane :: "backoff \<Rightarrow> bool" where
  "sane b \<longleftrightarrow> bo_initialMs b \<le> bo_maxMs b \<and> 1 \<le> bo_factor b"

lemma delay_Suc: "sane b \<Longrightarrow> min (bo_maxMs b) (delay_after b k * bo_factor b) = delay_after b (Suc k)"
proof -
  assume s: "sane b"
  let ?x = "bo_initialMs b * bo_factor b ^ k" and ?m = "bo_maxMs b" and ?f = "bo_factor b"
  have "min ?m (min ?m ?x * ?f) = min ?m (?x * ?f)"
  proof (cases "?m \<le> ?x")
    case True
    have f: "1 \<le> ?f" using s by (simp add: sane_def)
    have "?m \<le> ?m * ?f" "?m \<le> ?x * ?f" using f True by (metis mult.right_neutral mult_le_mono le_refl)+
    then show ?thesis using True by (simp add: min_def)
  qed (simp add: min_def)
  then show ?thesis by (simp add: delay_after_def ac_simps)
qed

definition uplink_ok :: "backoff \<Rightarrow> uplink \<Rightarrow> bool" where
  "uplink_ok b u \<longleftrightarrow>
     (if up_closed u then \<not> up_beating u \<and> (up_wait u = WaitDial \<or> up_wait u = WaitNone)
      else up_beating u \<and>
        (case up_wait u of
           WaitDial \<Rightarrow> up_backoff u = delay_after b (failures (up_reports u))
         | WaitClose \<Rightarrow> failures (up_reports u) = 0 \<and> up_backoff u = bo_initialMs b
         | WaitSleep d \<Rightarrow> 0 < failures (up_reports u) \<and> d = up_backoff u \<and> d = delay_after b (failures (up_reports u) - 1)
         | WaitNone \<Rightarrow> False))"

lemma delay_0: "sane b \<Longrightarrow> delay_after b 0 = bo_initialMs b"
  by (simp add: delay_after_def sane_def)

lemma start_uplink_ok: "sane b \<Longrightarrow> uplink_ok b (startRelayUplink b)"
  using failures_snoc(2) [of "[]"] by (simp add: startRelayUplink_def loop_head_def up_report_def uplink_ok_def delay_0)

lemma over_uplink_ok: "sane b \<Longrightarrow> uplink_ok b u \<Longrightarrow> up_wait u = WaitDial \<or> up_wait u = WaitClose \<Longrightarrow> uplink_ok b (registration_over u)"
  using delay_0 [of b] by (auto simp: registration_over_def uplink_ok_def up_report_def split: if_splits)

lemma sleep_uplink_ok: "sane b \<Longrightarrow> uplink_ok b u \<Longrightarrow> up_wait u = WaitSleep d \<Longrightarrow> uplink_ok b (sleep_over b u)"
  using delay_Suc [of b "failures (up_reports u) - 1"]
  by (auto simp: sleep_over_def loop_head_def uplink_ok_def up_report_def split: if_splits)

lemma uplink_step_ok:
  assumes "sane b" "uplink_ok b u"
  shows "uplink_ok b (uplink_step b e u)"
proof (cases e)
  case (DialDone ok)
  then show ?thesis using assms over_uplink_ok [OF assms] by (auto simp: uplink_step_def uplink_ok_def up_report_def split: if_splits)
next
  case ControlGone
  then show ?thesis using assms over_uplink_ok [OF assms] by (auto simp: uplink_step_def)
next
  case SleepDone
  then show ?thesis using assms sleep_uplink_ok [OF assms] by (auto simp: uplink_step_def split: uplink_wait.split)
next
  case BeatTick
  then show ?thesis using assms by (cases "up_wait u"; cases "up_closed u") (auto simp: uplink_step_def uplink_ok_def)
next
  case CloseUplink
  then show ?thesis using assms
    by (auto simp: uplink_step_def close_uplink_def uplink_ok_def sleep_over_def loop_head_def registration_over_def Let_def split: uplink_wait.split)
qed

interpretation uplink: machine "uplink_step b" "\<lambda>e. True" "\<lambda>u. sane b \<and> uplink_ok b u" for b
  by unfold_locales (simp add: uplink_step_ok)

lemma uplink_run_ok: "sane b \<Longrightarrow> uplink_ok b (uplink_run b es (startRelayUplink b))"
  using uplink.run_inv [of b "startRelayUplink b" es] start_uplink_ok [of b] by (simp add: uplink_run_def list_all_iff)

text \<open>Only a close closes, and a closed uplink is silent.\<close>

lemma open_step: "\<not> up_closed u \<Longrightarrow> e \<noteq> CloseUplink \<Longrightarrow> \<not> up_closed (uplink_step b e u)"
  by (cases e; cases "up_wait u") (auto simp: uplink_step_def sleep_over_def loop_head_def registration_over_def up_report_def)

lemma open_run: "\<not> up_closed u \<Longrightarrow> CloseUplink \<notin> set es \<Longrightarrow> \<not> up_closed (uplink_run b es u)"
proof (induction es arbitrary: u)
  case (Cons e es)
  then have "e \<noteq> CloseUplink" "CloseUplink \<notin> set es" by auto
  then show ?case using open_step [of u e b] Cons.IH [of "uplink_step b e u"] Cons.prems(1) by (simp add: uplink_run_def)
qed (simp add: uplink_run_def)

lemma closed_uplink_step:
  assumes "up_closed u" "\<not> up_beating u" "up_wait u = WaitDial \<or> up_wait u = WaitNone"
  shows "uplink_step b e u = u \<or> uplink_step b e u = u\<lparr>up_wait := WaitNone\<rparr>"
proof (cases "up_wait u = WaitDial")
  case True
  then show ?thesis using assms(1,2) by (cases e) (simp_all add: uplink_step_def registration_over_def close_uplink_def)
next
  case False
  then have "up_wait u = WaitNone" using assms(3) by simp
  then show ?thesis using assms(1,2) by (cases e) (simp_all add: uplink_step_def registration_over_def close_uplink_def)
qed

lemma closed_run:
  assumes "up_closed u" "\<not> up_beating u" "up_wait u = WaitDial \<or> up_wait u = WaitNone"
  shows "up_closed (uplink_run b es u) \<and> up_reports (uplink_run b es u) = up_reports u \<and> up_beats (uplink_run b es u) = up_beats u \<and>
    (up_wait (uplink_run b es u) = WaitDial \<or> up_wait (uplink_run b es u) = WaitNone)"
  using assms
proof (induction es arbitrary: u)
  case (Cons e es)
  from closed_uplink_step [OF Cons.prems, of b e] consider "uplink_step b e u = u" | "uplink_step b e u = u\<lparr>up_wait := WaitNone\<rparr>" by blast
  then show ?case
  proof cases
    case 1
    then show ?thesis using Cons.IH [OF Cons.prems] by (simp add: uplink_run_def)
  next
    case 2
    then show ?thesis using Cons.IH [of "u\<lparr>up_wait := WaitNone\<rparr>"] Cons.prems by (simp add: uplink_run_def)
  qed
qed (simp add: uplink_run_def)

end
