(* ===== verification/Hook.thy ===== *)
theory Hook
  imports Daemon
begin

text \<open>
  The loopback attention hook of the daemon (\<open>handleHookRequest\<close> and its helpers in \<open>commands/serve.ts\<close>) and the
  requests of \<open>control-plane-client.ts\<close> that the daemon makes, here answered by the model of the control plane's own routes.
  HTTP is a request's parts; \<open>JSON.parse\<close> is a parameter.
\<close>

definition MAX_HOOK_BODY_BYTES :: nat where "MAX_HOOK_BODY_BYTES = 64 * 1024"

record hook_http =
  hq_method :: string
  hq_path :: string
  hq_authorization :: "string option"
  hq_chunks :: "bytes list"
  hq_broken :: bool

definition registryLatest :: "'m session registry \<Rightarrow> string option" where
  "registryLatest g = (case rev (reg_list g) of [] \<Rightarrow> None | s # ss \<Rightarrow> Some (se_ref s))"

text \<open>Buffers are equal where length and bytes are.\<close>

definition hookAuthorized :: "hook_http \<Rightarrow> string \<Rightarrow> bool" where
  "hookAuthorized req secret =
     (let provided = (case hq_authorization req of
          None \<Rightarrow> []
        | Some header \<Rightarrow> if has_prefix ''Bearer '' header then drop (length ''Bearer '') header else [])
      in utf8 provided = utf8 secret)"

text \<open>The chunks kept, their size, and whether the cap was passed.\<close>

fun hook_chunks :: "bytes list \<Rightarrow> bytes \<times> nat \<times> bool \<Rightarrow> bytes \<times> nat \<times> bool" where
  "hook_chunks [] acc = acc"
| "hook_chunks (c # cs) (kept, n, overflow) =
     (if MAX_HOOK_BODY_BYTES < n + length c then hook_chunks cs (kept, n + length c, True)
      else hook_chunks cs (if overflow then kept else kept @ c, n + length c, overflow))"

definition readHookBody :: "hook_http \<Rightarrow> bytes option" where
  "readHookBody req =
     (if hq_broken req then None
      else (case hook_chunks (hq_chunks req) ([], 0, False) of (kept, n, overflow) \<Rightarrow> if overflow then None else Some kept))"

subsection \<open>The event atom\<close>

definition jstring :: "nat \<Rightarrow> nat \<Rightarrow> json option \<Rightarrow> string option" where
  "jstring lo hi v = (case v of Some (JStr s) \<Rightarrow> if lo \<le> length s \<and> length s \<le> hi then Some s else None | _ \<Rightarrow> None)"

definition jkind :: "json option \<Rightarrow> attention_kind option" where
  "jkind v = (if v = Some (JStr ''done'') then Some KindDone else if v = Some (JStr ''blocked'') then Some KindBlocked
     else if v = Some (JStr ''asks'') then Some KindAsks else None)"

definition jurgency :: "json option \<Rightarrow> urgency option" where
  "jurgency v = (if v = Some (JStr ''call'') then Some UrgencyCall else if v = Some (JStr ''notify'') then Some UrgencyNotify
     else if v = Some (JStr ''digest'') then Some UrgencyDigest else None)"

fun jstrings :: "nat \<Rightarrow> json list \<Rightarrow> string list option" where
  "jstrings hi [] = Some []"
| "jstrings hi (v # vs) =
     (case (jstring 0 hi (Some v), jstrings hi vs) of (Some s, Some ss) \<Rightarrow> Some (s # ss) | _ \<Rightarrow> None)"

text \<open>An optional field is left out, or is there and is well formed: the outer option is the failure.\<close>

definition joptional :: "(json option \<Rightarrow> 'a option) \<Rightarrow> json option \<Rightarrow> 'a option option" where
  "joptional p v = (case v of None \<Rightarrow> Some None | Some x \<Rightarrow> map_option Some (p (Some x)))"

definition joptions :: "json option \<Rightarrow> string list option" where
  "joptions v = (case v of Some (JArr vs) \<Rightarrow> if length vs \<le> 4 then jstrings 80 vs else None | _ \<Rightarrow> None)"

text \<open>\<open>urgency ?? 'notify'\<close>: \<open>null\<close> gets the default too.\<close>

definition default_urgency :: "json option \<Rightarrow> json option" where
  "default_urgency v = (if v = None \<or> v = Some JNull then Some (JStr ''notify'') else v)"

definition parse_event :: "string \<Rightarrow> (string \<times> json) list \<Rightarrow> attention_event option" where
  "parse_event sessionRef members =
     (if \<not> valid_session_ref sessionRef then None
      else (case (jkind (jget members ''kind''), jstring 1 2000 (jget members ''summary''), jurgency (default_urgency (jget members ''urgency'')),
                  joptional (jstring 0 1000) (jget members ''question''), joptional joptions (jget members ''options'')) of
              (Some kind, Some summary, Some u, Some question, Some opts) \<Rightarrow>
                Some \<lparr>ae_sessionRef = sessionRef, ae_kind = kind, ae_summary = summary, ae_question = question, ae_options = opts, ae_urgency = u\<rparr>
            | _ \<Rightarrow> None))"

subsection \<open>The handler\<close>

text \<open>The reply: a status with its error, or the id of the event, none where it was coalesced.\<close>

datatype hook_reply = HookError nat string | HookOk "string option"

text \<open>The control plane as the client has it: a heartbeat succeeds or throws, a raise gives its result or throws.\<close>

definition hook_raise ::
  "(session_report list \<Rightarrow> 'w \<Rightarrow> bool \<times> 'w) \<Rightarrow> (attention_event \<Rightarrow> 'w \<Rightarrow> string option option \<times> 'w) \<Rightarrow> attention_event \<Rightarrow> 'w \<Rightarrow> hook_reply \<times> 'w" where
  "hook_raise heartbeat raise event w =
     (case heartbeat [\<lparr>sp_sessionRef = ae_sessionRef event, sp_status = ''live'', sp_startedAt = None, sp_endedAt = None\<rparr>] w of
        (False, w1) \<Rightarrow> (HookError 502 ''control-plane-unreachable'', w1)
      | (True, w1) \<Rightarrow>
          (case raise event w1 of
             (None, w2) \<Rightarrow> (HookError 502 ''control-plane-unreachable'', w2)
           | (Some i, w2) \<Rightarrow> (HookOk i, w2)))"

definition hook_session :: "(string \<times> json) list \<Rightarrow> 'm session registry \<Rightarrow> string option" where
  "hook_session members g = (case jget members ''sessionRef'' of Some (JStr s) \<Rightarrow> Some s | _ \<Rightarrow> registryLatest g)"

definition handleHookRequest ::
  "(bytes \<Rightarrow> json option) \<Rightarrow> string \<Rightarrow> 'm session registry \<Rightarrow> (session_report list \<Rightarrow> 'w \<Rightarrow> bool \<times> 'w) \<Rightarrow>
   (attention_event \<Rightarrow> 'w \<Rightarrow> string option option \<times> 'w) \<Rightarrow> hook_http \<Rightarrow> 'w \<Rightarrow> hook_reply \<times> 'w" where
  "handleHookRequest parse secret g heartbeat raise req w =
     (if hq_method req \<noteq> ''POST'' \<or> hq_path req \<noteq> ''/'' then (HookError 404 ''not-found'', w)
      else if \<not> hookAuthorized req secret then (HookError 401 ''unauthorized'', w)
      else (case readHookBody req of
              None \<Rightarrow> (HookError 413 ''body-too-large'', w)
            | Some raw \<Rightarrow>
                (case (if raw = [] then Some (JObj []) else parse raw) of
                   None \<Rightarrow> (HookError 400 ''invalid-json'', w)
                 | Some (JObj members) \<Rightarrow>
                     (case hook_session members g of
                        None \<Rightarrow> (HookError 503 ''no-session'', w)
                      | Some sessionRef \<Rightarrow>
                          (case parse_event sessionRef members of
                             None \<Rightarrow> (HookError 400 ''invalid-event'', w)
                           | Some event \<Rightarrow> hook_raise heartbeat raise event w))
                 | _ \<Rightarrow> (HookError 400 ''invalid-payload'', w))))"

subsection \<open>The client\<close>

record cp_server =
  sv_crypto :: crypto
  sv_base64 :: base64
  sv_verify :: "string \<Rightarrow> string option"
  sv_config :: api_config
  sv_sender :: "push_sender option"

text \<open>A request under a bearer token, at a moment of the server.\<close>

definition with_bearer :: "string \<Rightarrow> api_env \<Rightarrow> api_env" where
  "with_bearer token env = env\<lparr>en_header := Some (''Bearer '' @ token)\<rparr>"

definition cp_request :: "cp_server \<Rightarrow> string \<Rightarrow> api_env \<Rightarrow> api_request \<Rightarrow> cp_world \<Rightarrow> api_reply \<times> cp_world" where
  "cp_request sv token env req w = api_handle (sv_crypto sv) (sv_base64 sv) (sv_verify sv) (sv_config sv) (with_bearer token env) req w"

definition client_heartbeat :: "cp_server \<Rightarrow> string \<Rightarrow> api_env \<Rightarrow> session_report list \<Rightarrow> cp_world \<Rightarrow> bool \<times> cp_world" where
  "client_heartbeat sv token env reports w =
     (case cp_request sv token env (PostHeartbeat (Some reports)) w of (reply, w1) \<Rightarrow> (reply = OkReply, w1))"

definition client_raise :: "cp_server \<Rightarrow> string \<Rightarrow> api_env \<Rightarrow> attention_event \<Rightarrow> cp_world \<Rightarrow> string option option \<times> cp_world" where
  "client_raise sv token env event w =
     (case cp_request sv token env (PostAttention (sv_sender sv) (\<lambda>i db. db) (Some event)) w of
        (RaiseReply i, w1) \<Rightarrow> (Some i, w1)
      | (_, w1) \<Rightarrow> (None, w1))"

end
