(* ===== verification/DaemonTheorems.thy ===== *)
theory DaemonTheorems
  imports DaemonSteps Uplink Hook RoutesTheorems
begin

text \<open>
  The properties of the daemon: its books, its beats against the control plane's own heartbeat route, its hook, its
  uplink; and where the buffer of ended sessions, the hook and the lock fall short.
\<close>

subsection \<open>The demo\<close>

definition silent :: "unit emulator" where
  "silent = \<lparr>em_new = (\<lambda>c r n. ()), em_write = (\<lambda>bs m. ()), em_resize = (\<lambda>c r m. ()), em_serialize = (\<lambda>m. [])\<rparr>"

definition shell_spec :: session_spec where
  "shell_spec = \<lparr>ss_argv = [''sh''], ss_cwd = ''/'', ss_env = [], ss_cols = 80, ss_rows = 24\<rparr>"

definition two_sessions :: "daemon_event list" where
  "two_sessions = [DmReserve ''r1'' 0 (Some 30) shell_spec, DmClaim ''r1'' 1, DmSettled 0 True,
     DmRemoteReserve ''r2'' 2 (Some 30) shell_spec, DmRemoteClaim ''r2'' 3, DmSettled 0 True, DmSession ''r1'' 4 (ExitEv (Some 0))]"

lemma two_sessions_distinct: "distinct (reserved_refs two_sessions)"
  by (simp add: reserved_refs_def two_sessions_def)

subsection \<open>The books\<close>

lemma listed_refs: "listed_ok d \<Longrightarrow> map se_ref (reg_list (dm_registry d)) = akeys (dm_registry d)"
  by (auto simp: listed_ok_def reg_list_def)

lemma beat_refs: "listed_ok d \<Longrightarrow> map sp_sessionRef (beat_body now d) = akeys (dm_registry d) @ ended_refs d"
  using listed_refs [of d] by (simp add: beat_body_def live_reports_def ended_refs_def comp_def)

text \<open>C36: Whatever the two front doors, the processes and the beats do, and in whatever order, as long as minted references
  differ: the list has each session of the registry once, with the command and the directory of the launch that is noted
  under its reference, no two of them share a stream id, at most 256 ended reports wait, and a beat reports each session
  once, those listed as live and those waiting as ended.\<close>

theorem daemon_books_agree:
  assumes "distinct (reserved_refs es)" and "d = daemon_run em es (new_daemon docked)"
  shows "map si_ref (listSessions d) = map se_ref (reg_list (dm_registry d)) \<and> distinct (map se_ref (reg_list (dm_registry d))) \<and>
    (\<forall>s \<in> set (reg_list (dm_registry d)). \<exists>l. aget (dm_launches d) (se_ref s) = Some l \<and>
       (\<exists>i \<in> set (listSessions d). si_ref i = se_ref s \<and> si_argv i = le_argv l \<and> si_cwd i = le_cwd l)) \<and>
    distinct (map se_streamId (reg_list (dm_registry d))) \<and> length (dm_ended d) \<le> 256 \<and>
    map sp_sessionRef (beat_body now d) = map se_ref (reg_list (dm_registry d)) @ map sp_sessionRef (dm_ended d) \<and>
    distinct (map sp_sessionRef (beat_body now d)) \<and>
    map sp_status (beat_body now d) = replicate (length (listSessions d)) ''live'' @ replicate (length (dm_ended d)) ''ended''"
proof -
  have ok: "daemon_ok d" using daemon_run_ok [OF assms(1)] assms(2) by simp
  then have l: "listed_ok d" and p: "places (open_refs (dm_desk d)) (waiting_refs d) (akeys (dm_registry d)) (ended_refs d) (fst ` set (dm_launches d))"
    and s: "distinct (stream_ids d)" by (simp_all add: daemon_ok_def refs_ok_def streams_ok_def ids_below_def)
  have "map Some (map se_streamId (reg_list (dm_registry d))) = map (\<lambda>(k, s). Some (se_streamId s)) (dm_registry d)" by (simp add: reg_list_def case_prod_beta)
  then have "distinct (map se_streamId (reg_list (dm_registry d)))" using s unfolding stream_ids_def by (metis distinct_append distinct_map)
  moreover have "map si_ref (listSessions d) = map se_ref (reg_list (dm_registry d))" by (simp add: listSessions_def Let_def comp_def)
  moreover have "distinct (map se_ref (reg_list (dm_registry d)))" using p unfolding listed_refs [OF l] by (auto simp: places_def)
  moreover have "\<exists>l. aget (dm_launches d) (se_ref s) = Some l \<and>
      (\<exists>i \<in> set (listSessions d). si_ref i = se_ref s \<and> si_argv i = le_argv l \<and> si_cwd i = le_cwd l)"
    if m: "s \<in> set (reg_list (dm_registry d))" for s
  proof -
    have "se_ref s \<in> set (map se_ref (reg_list (dm_registry d)))" using m by simp
    then have "se_ref s \<in> set (akeys (dm_registry d))" by (simp only: listed_refs [OF l])
    then have "se_ref s \<in> fst ` set (dm_launches d)" using p by (auto simp: places_def)
    then obtain x where x: "aget (dm_launches d) (se_ref s) = Some x" by (metis map_of_eq_None_iff option.exhaust)
    moreover have "\<exists>i \<in> set (listSessions d). si_ref i = se_ref s \<and> si_argv i = le_argv x \<and> si_cwd i = le_cwd x"
      unfolding listSessions_def set_map Let_def by (rule bexI [OF _ imageI [OF m]]) (simp add: x)
    ultimately show ?thesis by blast
  qed
  moreover have "length (dm_ended d) \<le> 256" and e: "\<forall>r \<in> set (dm_ended d). sp_status r = ''ended''"
    using ok by (simp_all add: daemon_ok_def reports_ok_def MAX_ENDED_REPORTS_def)
  moreover have "map sp_sessionRef (beat_body now d) = map se_ref (reg_list (dm_registry d)) @ map sp_sessionRef (dm_ended d)"
    by (simp add: beat_body_def live_reports_def comp_def)
  moreover have "distinct (map sp_sessionRef (beat_body now d))" using p unfolding beat_refs [OF l] by (auto simp: places_def)
  moreover have "map sp_status (beat_body now d) = replicate (length (listSessions d)) ''live'' @ replicate (length (dm_ended d)) ''ended''"
  proof -
    have "map sp_status (dm_ended d) = map (\<lambda>_. ''ended'') (dm_ended d)" using e by (intro map_cong) auto
    then show ?thesis by (simp add: beat_body_def live_reports_def listSessions_def comp_def map_replicate_const)
  qed
  ultimately show ?thesis by blast
qed

lemma daemon_books_agree_witness:
  "distinct (map se_ref (reg_list (dm_registry (daemon_run silent two_sessions (new_daemon True))))) \<and>
   distinct (map sp_sessionRef (beat_body 9 (daemon_run silent two_sessions (new_daemon True))))"
  using daemon_books_agree [OF two_sessions_distinct refl, of silent True 9] by blast

subsection \<open>Beats\<close>

definition mirrored :: "host_row \<Rightarrow> db \<Rightarrow> session_report \<Rightarrow> bool" where
  "mirrored host db r \<longleftrightarrow> (\<exists>row \<in> set (db_sessions db). sr_hostId row = hr_id host \<and> sr_sessionRef row = sp_sessionRef r \<and>
     sr_status row = sp_status r \<and> sr_endedAt row = sp_endedAt r)"

definition retold :: "host_row \<Rightarrow> session_report \<Rightarrow> session_row \<Rightarrow> session_row" where
  "retold host r s = (if sr_hostId s = hr_id host \<and> sr_sessionRef s = sp_sessionRef r
     then s\<lparr>sr_status := sp_status r, sr_endedAt := sp_endedAt r\<rparr> else s)"

lemma retold_parts [simp]: "sr_id (retold host r s) = sr_id s" "sr_hostId (retold host r s) = sr_hostId s"
  "sr_sessionRef (retold host r s) = sr_sessionRef s"
  by (simp_all add: retold_def)

definition told :: "host_row \<Rightarrow> session_row list \<Rightarrow> session_report \<Rightarrow> bool" where
  "told host rows r \<longleftrightarrow> (\<exists>row \<in> set rows. sr_hostId row = hr_id host \<and> sr_sessionRef row = sp_sessionRef r \<and>
     sr_status row = sp_status r \<and> sr_endedAt row = sp_endedAt r)"

lemma mirrored_told: "mirrored host db r = told host (db_sessions db) r"
  by (simp add: mirrored_def told_def)

lemma told_now:
  assumes "list_ex (\<lambda>s. sr_hostId s = hr_id host \<and> sr_sessionRef s = sp_sessionRef r) rows"
  shows "told host (map (retold host r) rows) r"
proof -
  obtain s where s: "s \<in> set rows" "sr_hostId s = hr_id host" "sr_sessionRef s = sp_sessionRef r" using assms by (auto simp: list_ex_iff)
  have "sr_status (retold host r s) = sp_status r" "sr_endedAt (retold host r s) = sp_endedAt r" using s by (simp_all add: retold_def)
  moreover have "retold host r s \<in> set (map (retold host r) rows)" using s(1) by simp
  ultimately show ?thesis using s(2,3) unfolding told_def by (metis retold_parts(2,3))
qed

lemma told_still:
  assumes "sp_sessionRef r' \<noteq> sp_sessionRef r" "told host rows r'"
  shows "told host (map (retold host r) rows) r'"
proof -
  obtain s where s: "s \<in> set rows" "sr_hostId s = hr_id host" "sr_sessionRef s = sp_sessionRef r'" "sr_status s = sp_status r'" "sr_endedAt s = sp_endedAt r'"
    using assms(2) unfolding told_def by blast
  have "retold host r s = s" using s(3) assms(1) by (simp add: retold_def)
  then have "s \<in> set (map (retold host r) rows)" using s(1) by (metis image_eqI list.set_map)
  then show ?thesis using s(2-5) unfolding told_def by blast
qed

lemma told_snoc: "told host rows r' \<Longrightarrow> told host (rows @ [row]) r'"
  unfolding told_def by auto

lemma upsert_mirrors:
  assumes "\<not> list_ex (\<lambda>s. sr_id s = newId) (db_sessions db)"
  obtains rows where "upsert_session newId now host r db = Some (db\<lparr>db_sessions := rows\<rparr>)" "told host rows r"
    "\<And>r'. sp_sessionRef r' \<noteq> sp_sessionRef r \<Longrightarrow> told host (db_sessions db) r' \<Longrightarrow> told host rows r'"
    "sr_id ` set rows \<subseteq> insert newId (sr_id ` set (db_sessions db))"
proof (cases "list_ex (\<lambda>s. sr_hostId s = hr_id host \<and> sr_sessionRef s = sp_sessionRef r) (db_sessions db)")
  case True
  then have u: "upsert_session newId now host r db = Some (db\<lparr>db_sessions := map (retold host r) (db_sessions db)\<rparr>)"
    by (simp add: upsert_session_def Let_def retold_def [abs_def])
  have m: "map sr_id (map (retold host r) (db_sessions db)) = map sr_id (db_sessions db)" by simp
  have i: "sr_id ` set (map (retold host r) (db_sessions db)) \<subseteq> insert newId (sr_id ` set (db_sessions db))"
    using arg_cong [OF m, of set] by (simp only: list.set_map) blast
  show ?thesis by (rule that [OF u told_now [OF True] told_still i])
next
  case False
  let ?new = "\<lparr>sr_id = newId, sr_hostId = hr_id host, sr_orgId = hr_orgId host, sr_sessionRef = sp_sessionRef r, sr_status = sp_status r,
    sr_startedAt = (case sp_startedAt r of None \<Rightarrow> now | Some t \<Rightarrow> t), sr_endedAt = sp_endedAt r\<rparr>"
  have u: "upsert_session newId now host r db = Some (db\<lparr>db_sessions := db_sessions db @ [?new]\<rparr>)" using False assms by (simp add: upsert_session_def Let_def)
  have n: "told host (db_sessions db @ [?new]) r" by (simp add: told_def)
  have i: "sr_id ` set (db_sessions db @ [?new]) \<subseteq> insert newId (sr_id ` set (db_sessions db))" by auto
  show ?thesis by (rule that [OF u n told_snoc i])
qed

lemma upsert_all_mirrors:
  assumes "distinct (map sp_sessionRef rs)" "\<forall>j \<ge> i. fresh j \<notin> sr_id ` set (db_sessions db)" "inj (fresh :: nat \<Rightarrow> string)"
  shows "fst (upsert_all fresh i now host rs db) = OkReply \<and> db_hosts (snd (upsert_all fresh i now host rs db)) = db_hosts db \<and>
    (\<forall>r \<in> set rs. mirrored host (snd (upsert_all fresh i now host rs db)) r) \<and>
    (\<forall>r'. sp_sessionRef r' \<notin> sp_sessionRef ` set rs \<longrightarrow> mirrored host db r' \<longrightarrow> mirrored host (snd (upsert_all fresh i now host rs db)) r')"
  using assms
proof (induction rs arbitrary: i db)
  case (Cons r rs)
  have "\<not> list_ex (\<lambda>s. sr_id s = fresh i) (db_sessions db)" using Cons.prems(2) by (force simp: list_ex_iff)
  from upsert_mirrors [OF this, of now host r] obtain rows where u: "upsert_session (fresh i) now host r db = Some (db\<lparr>db_sessions := rows\<rparr>)" "told host rows r"
    and keep: "\<And>r'. sp_sessionRef r' \<noteq> sp_sessionRef r \<Longrightarrow> told host (db_sessions db) r' \<Longrightarrow> told host rows r'"
    and ids: "sr_id ` set rows \<subseteq> insert (fresh i) (sr_id ` set (db_sessions db))" by blast
  let ?db1 = "db\<lparr>db_sessions := rows\<rparr>"
  have "fresh j \<noteq> fresh i" if "Suc i \<le> j" for j using Cons.prems(3) that by (metis Suc_n_not_le_n injD)
  then have f: "\<forall>j \<ge> Suc i. fresh j \<notin> sr_id ` set (db_sessions ?db1)" using ids Cons.prems(2) by simp (meson Suc_leD insertE subsetD)
  have d: "distinct (map sp_sessionRef rs)" "sp_sessionRef r \<notin> sp_sessionRef ` set rs" using Cons.prems(1) by simp_all
  note ih = Cons.IH [OF d(1) f Cons.prems(3)]
  have step: "upsert_all fresh i now host (r # rs) db = upsert_all fresh (Suc i) now host rs ?db1" by (simp add: u(1))
  have "mirrored host ?db1 r" using u(2) by (simp add: mirrored_told)
  moreover have "mirrored host ?db1 r'" if "sp_sessionRef r' \<noteq> sp_sessionRef r" "mirrored host db r'" for r'
    using keep [OF that(1)] that(2) by (simp add: mirrored_told)
  ultimately show ?case unfolding step using ih d(2) by simp
qed simp

lemma heartbeat_taken:
  assumes "authenticateHost (sv_crypto sv) db (Some (''Bearer '' @ token)) = Some host"
  shows "client_heartbeat sv token env body (db, s) =
    (fst (post_heartbeat (with_bearer token env) host (Some body) db) = OkReply, (snd (post_heartbeat (with_bearer token env) host (Some body) db), s))"
  using assms by (simp add: client_heartbeat_def cp_request_def api_handle_def caller_of_def with_bearer_def Let_def serve_caller_def with_store_def case_prod_beta)

text \<open>C37: Where minted references differ and the row ids that the control plane mints are new, a beat of any daemon that the control plane takes leaves its rows as the daemon is: each listed session has a row of
  the host that is live and not ended, and each session whose end was waiting to be told has one that is ended, at its
  time. The beat of a host whose key is good is taken where it has at most the 100 reports that the route allows.\<close>

theorem beat_is_mirrored:
  assumes "distinct (reserved_refs es)" and "d = daemon_run em es (new_daemon docked)" and "length (beat_body now d) \<le> 100"
    and "inj (en_fresh env)" "\<forall>j. en_fresh env j \<notin> sr_id ` set (db_sessions db)"
    and "authenticateHost (sv_crypto sv) db (Some (''Bearer '' @ token)) = Some host"
  shows "\<exists>db'. client_heartbeat sv token env (beat_body now d) (db, s) = (True, (db', s)) \<and>
    (\<forall>x \<in> set (reg_list (dm_registry d)). \<exists>row \<in> set (db_sessions db'). sr_hostId row = hr_id host \<and> sr_sessionRef row = se_ref x \<and>
       sr_status row = ''live'' \<and> sr_endedAt row = None) \<and>
    (\<forall>r \<in> set (dm_ended d). \<exists>row \<in> set (db_sessions db'). sr_hostId row = hr_id host \<and> sr_sessionRef row = sp_sessionRef r \<and>
       sr_status row = ''ended'' \<and> sr_endedAt row = sp_endedAt r)"
proof -
  have ok: "daemon_ok d" using daemon_run_ok [OF assms(1)] assms(2) by simp
  let ?body = "beat_body now d" and ?db = "touch_host (en_now env) (hr_id host) db"
  let ?r = "upsert_all (en_fresh env) 0 (en_now env) host ?body ?db"
  have "distinct (map sp_sessionRef ?body)"
    using ok beat_refs [of d now] by (simp add: daemon_ok_def refs_ok_def places_def)
  from upsert_all_mirrors [OF this, of 0 "en_fresh env" ?db "en_now env" host] assms(4,5)
  have u: "fst ?r = OkReply" "\<forall>r \<in> set ?body. mirrored host (snd ?r) r" by (simp_all add: touch_host_def)
  have h: "client_heartbeat sv token env ?body (db, s) = (True, (snd ?r, s))"
    using assms(3) u(1) by (simp add: MAX_HEARTBEAT_SESSIONS_def heartbeat_taken [OF assms(6)] post_heartbeat_def with_bearer_def)
  have live: "mirrored host (snd ?r) \<lparr>sp_sessionRef = se_ref x, sp_status = ''live'',
      sp_startedAt = Some (case aget (dm_launches d) (se_ref x) of None \<Rightarrow> now | Some l \<Rightarrow> le_startedAt l), sp_endedAt = None\<rparr>"
    if "x \<in> set (reg_list (dm_registry d))" for x
    using u(2) that by (auto simp: beat_body_def live_reports_def)
  have over: "mirrored host (snd ?r) r \<and> sp_status r = ''ended''" if "r \<in> set (dm_ended d)" for r
    using u(2) that ok by (auto simp: beat_body_def daemon_ok_def reports_ok_def)
  show ?thesis
  proof (intro exI [of _ "snd ?r"] conjI ballI)
    show "client_heartbeat sv token env ?body (db, s) = (True, (snd ?r, s))" by (rule h)
  qed (use live over in \<open>simp_all add: mirrored_def, metis\<close>)
qed

lemma reports_bounded:
  assumes "distinct (reserved_refs es)"
  shows "length (beat_body now (daemon_run em es (new_daemon docked))) \<le> length (reserved_refs es)"
proof -
  let ?d = "daemon_run em es (new_daemon docked)"
  have "daemon_history [] (new_daemon docked)" by (simp add: daemon_history_def new_daemon_ok)
  from daemon.run_hist [where em = em, OF this] have u: "used_refs ?d \<subseteq> set (reserved_refs es)" and ok: "daemon_ok ?d"
    using assms by (simp_all add: daemon_history_def daemon_run_def)
  have b: "map sp_sessionRef (beat_body now ?d) = akeys (dm_registry ?d) @ ended_refs ?d" using ok by (simp add: daemon_ok_def beat_refs)
  have "distinct (map sp_sessionRef (beat_body now ?d))" using ok unfolding b by (simp add: daemon_ok_def refs_ok_def places_def)
  moreover have "set (map sp_sessionRef (beat_body now ?d)) \<subseteq> set (reserved_refs es)" using u unfolding b by (auto simp: used_refs_def)
  ultimately show ?thesis by (metis assms card_mono distinct_card length_map List.finite_set)
qed

definition docked_db :: db where
  "docked_db = api_start\<lparr>db_hosts := [new_host short_crypto (human_env ''jwt'' 1 ''h1'') (hd (db_users api_start)) (hd (db_orgs api_start)) ''mac'' ''k'']\<rparr>"

definition docked_server :: cp_server where
  "docked_server = \<lparr>sv_crypto = short_crypto, sv_base64 = short_base64, sv_verify = (\<lambda>t. None), sv_config = api_conf, sv_sender = None\<rparr>"

definition docked_env :: "int \<Rightarrow> api_env" where
  "docked_env t = (human_env ''jwt'' t ''x'')\<lparr>en_fresh := (\<lambda>i. ''s'' @ replicate i CHR ''x'')\<rparr>"

lemma docked_env_fresh: "inj (en_fresh (docked_env t))"
proof (rule injI)
  fix i j
  assume "en_fresh (docked_env t) i = en_fresh (docked_env t) j"
  then have "length (en_fresh (docked_env t) i) = length (en_fresh (docked_env t) j)" by simp
  then show "i = j" by (simp add: docked_env_def)
qed

lemma docked_auth: "map_option hr_id (authenticateHost short_crypto docked_db (Some ''Bearer hk_h1'')) = Some ''h1''"
  by code_simp

lemma beat_is_mirrored_witness:
  "\<exists>db'. client_heartbeat docked_server ''hk_h1'' (docked_env 9) (beat_body 9 (daemon_run silent two_sessions (new_daemon True))) (docked_db, []) = (True, (db', []))"
proof -
  obtain host where h: "authenticateHost (sv_crypto docked_server) docked_db (Some (''Bearer '' @ ''hk_h1'')) = Some host"
    using docked_auth by (auto simp: docked_server_def)
  have l: "length (beat_body 9 (daemon_run silent two_sessions (new_daemon True))) \<le> 100"
    by (rule order_trans [OF reports_bounded [OF two_sessions_distinct]]) (simp add: reserved_refs_def two_sessions_def)
  have "db_sessions docked_db = []" by (simp add: docked_db_def api_start_def no_rows_def)
  then show ?thesis
    using beat_is_mirrored [OF two_sessions_distinct refl l docked_env_fresh _ h, where s = "[]"] by (metis empty_iff image_empty list.set(1))
qed

lemma heartbeat_refused:
  assumes "authenticateHost (sv_crypto sv) db (Some (''Bearer '' @ token)) = None"
  shows "\<not> fst (client_heartbeat sv token env body (db, s))"
  using assms by (simp add: client_heartbeat_def cp_request_def api_handle_def caller_of_def with_bearer_def Let_def)

subsection \<open>The uplink\<close>

text \<open>An uplink that nobody closes never stops trying: it waits for a registration, or for its end, or sleeps, and each of
  these leads on to the next; after the \<open>k\<close>-th failure in a row it sleeps exactly the first delay grown \<open>k - 1\<close> times and
  capped, a registration starts that anew, and it beats whatever the registration does. Once it is closed it is silent:
  no beat, no report, no sleep, whatever is still under way.\<close>

lemma uplink_keeps_trying:
  assumes "sane b" and "CloseUplink \<notin> set es" and "u = uplink_run b es (startRelayUplink b)"
  shows "(case up_wait u of
        WaitDial \<Rightarrow> up_wait (uplink_step b (DialDone ok) u) = (if ok then WaitClose else WaitSleep (delay_after b (failures (up_reports u))))
      | WaitClose \<Rightarrow> up_wait (uplink_step b ControlGone u) = WaitSleep (bo_initialMs b)
      | WaitSleep ms \<Rightarrow> 0 < failures (up_reports u) \<and> ms = delay_after b (failures (up_reports u) - 1) \<and> ms \<le> bo_maxMs b \<and>
          up_wait (uplink_step b SleepDone u) = WaitDial
      | WaitNone \<Rightarrow> False) \<and>
    up_beats (uplink_step b BeatTick u) = Suc (up_beats u) \<and>
    up_beats (uplink_run b (CloseUplink # fs) u) = up_beats u \<and> up_reports (uplink_run b (CloseUplink # fs) u) = up_reports u \<and>
    (up_wait (uplink_run b (CloseUplink # fs) u) = WaitDial \<or> up_wait (uplink_run b (CloseUplink # fs) u) = WaitNone)"
proof -
  have ok: "uplink_ok b u" using uplink_run_ok [OF assms(1)] assms(3) by simp
  have "\<not> up_closed (startRelayUplink b)" by (simp add: startRelayUplink_def loop_head_def up_report_def)
  from open_run [OF this assms(2)] have o: "\<not> up_closed u" using assms(3) by simp
  have c: "uplink_run b (CloseUplink # fs) u = uplink_run b fs (close_uplink b u)" by (simp add: uplink_run_def uplink_step_def)
  have "up_closed (close_uplink b u) \<and> \<not> up_beating (close_uplink b u) \<and> up_beats (close_uplink b u) = up_beats u \<and> up_reports (close_uplink b u) = up_reports u
      \<and> (up_wait (close_uplink b u) = WaitDial \<or> up_wait (close_uplink b u) = WaitNone)"
    using ok o by (auto simp: close_uplink_def sleep_over_def loop_head_def registration_over_def uplink_ok_def Let_def split: uplink_wait.split)
  with closed_run [of "close_uplink b u" b fs] have "up_beats (uplink_run b (CloseUplink # fs) u) = up_beats u \<and>
      up_reports (uplink_run b (CloseUplink # fs) u) = up_reports u \<and>
      (up_wait (uplink_run b (CloseUplink # fs) u) = WaitDial \<or> up_wait (uplink_run b (CloseUplink # fs) u) = WaitNone)" unfolding c by auto
  then show ?thesis using ok o
    by (auto simp: uplink_ok_def uplink_step_def registration_over_def sleep_over_def loop_head_def up_report_def delay_after_def split: uplink_wait.split)
qed

definition bad_night :: "uplink_event list" where
  "bad_night = [DialDone False, SleepDone, BeatTick, DialDone False, SleepDone, DialDone False]"

lemma default_sane: "sane default_backoff"
  by (simp add: sane_def default_backoff_def DEFAULT_BACKOFF_INITIAL_MS_def DEFAULT_BACKOFF_MAX_MS_def DEFAULT_BACKOFF_FACTOR_def)

lemma uplink_keeps_trying_witness:
  "up_wait (uplink_run default_backoff bad_night (startRelayUplink default_backoff)) = WaitSleep 2000 \<and>
   up_beats (uplink_run default_backoff [CloseUplink, BeatTick] (uplink_run default_backoff bad_night (startRelayUplink default_backoff))) = 2"
  (is "up_wait ?u = _ \<and> _")
proof -
  have w: "up_wait ?u = WaitSleep 2000 \<and> up_beats ?u = 2"
    by (simp add: uplink_run_def bad_night_def uplink_step_def startRelayUplink_def loop_head_def registration_over_def sleep_over_def up_report_def
        default_backoff_def DEFAULT_BACKOFF_INITIAL_MS_def DEFAULT_BACKOFF_MAX_MS_def DEFAULT_BACKOFF_FACTOR_def)
  have "CloseUplink \<notin> set bad_night" by (simp add: bad_night_def)
  from uplink_keeps_trying [OF default_sane this refl, of True "[BeatTick]"] w show ?thesis by simp
qed

subsection \<open>The hook\<close>












text \<open>The heartbeat in front of a raise keeps its promise: once it was taken, the raise finds the session's row, so it is
  never answered with \<open>session-not-found\<close>, at whatever moment the server has it.\<close>

lemma upsert_tells:
  assumes "upsert_session newId now host r db = Some db1"
  shows "told host (db_sessions db1) r \<and> db_hosts db1 = db_hosts db"
proof (cases "list_ex (\<lambda>s. sr_hostId s = hr_id host \<and> sr_sessionRef s = sp_sessionRef r) (db_sessions db)")
  case True
  then have "db1 = db\<lparr>db_sessions := map (retold host r) (db_sessions db)\<rparr>"
    using assms by (simp add: upsert_session_def Let_def retold_def [abs_def])
  then show ?thesis using told_now [OF True] by simp
next
  case False
  then show ?thesis using assms by (auto simp: upsert_session_def Let_def told_def split: if_splits)
qed

lemma find_map_same: "(\<And>x. P (f x) = P x) \<Longrightarrow> find P (map f xs) = map_option f (find P xs)"
  by (induction xs) auto

lemma auth_touch:
  assumes "authenticateHost C db header = Some host" and "db_hosts db1 = db_hosts (touch_host now i db)"
  obtains host1 where "authenticateHost C db1 header = Some host1" "hr_id host1 = hr_id host"
proof -
  let ?f = "\<lambda>h :: host_row. if hr_id h = i then h\<lparr>hr_lastSeenAt := Some now\<rparr> else h"
  obtain token where t: "parseBearer header = Some token" "has_prefix ''hk_'' token" "find (\<lambda>h. hr_hostKeyHash h = sha256Hex C token) (db_hosts db) = Some host"
    "hr_revokedAt host = None"
    using assms(1) by (auto simp: authenticateHost_def split: option.splits if_splits)
  have "find (\<lambda>h. hr_hostKeyHash h = sha256Hex C token) (db_hosts db1) = Some (?f host)"
    unfolding assms(2) touch_host_def using find_map_same [of "\<lambda>h. hr_hostKeyHash h = sha256Hex C token" ?f] t(3) by simp
  then have "authenticateHost C db1 header = Some (?f host)" using t by (simp add: authenticateHost_def)
  then show ?thesis by (rule that) simp
qed

lemma raise_finds_its_session:
  assumes "client_heartbeat sv token env [r] w = (True, w1)" and "ae_sessionRef event = sp_sessionRef r"
  shows "fst (cp_request sv token env' (PostAttention sender between (Some event)) w1) \<noteq> ApiError 404 ''session-not-found''"
proof -
  obtain db s where w: "w = (db, s)" by fastforce
  let ?h = "Some (''Bearer '' @ token)"
  have "authenticateHost (sv_crypto sv) db ?h \<noteq> None"
    using assms(1) heartbeat_refused [of sv db token env "[r]" s] by (auto simp: w)
  then obtain host where h: "authenticateHost (sv_crypto sv) db ?h = Some host" by blast
  let ?db = "touch_host (en_now env) (hr_id host) db"
  have "fst (post_heartbeat (with_bearer token env) host (Some [r]) db) = OkReply"
    and w1: "w1 = (snd (post_heartbeat (with_bearer token env) host (Some [r]) db), s)"
    using assms(1) by (simp_all add: w heartbeat_taken [OF h])
  then obtain db1 where u: "upsert_session (en_fresh env 0) (en_now env) host r ?db = Some db1" and db1: "w1 = (db1, s)"
    by (cases "upsert_session (en_fresh env 0) (en_now env) host r ?db")
      (simp_all add: post_heartbeat_def with_bearer_def MAX_HEARTBEAT_SESSIONS_def)
  have t: "told host (db_sessions db1) r" "db_hosts db1 = db_hosts ?db" using upsert_tells [OF u] by simp_all
  obtain host1 where h1: "authenticateHost (sv_crypto sv) db1 ?h = Some host1" "hr_id host1 = hr_id host" using auth_touch [OF h t(2)] .
  have f: "find (\<lambda>r. sr_hostId r = hr_id host1 \<and> sr_sessionRef r = ae_sessionRef event) (db_sessions db1) \<noteq> None"
    using t(1) h1(2) assms(2) by (auto simp: told_def find_None_iff)
  then have "fst (raiseAttention sender between ms c t' i host1 event db1 s1) \<noteq> NoSession" for ms c t' i and s1 :: cp_store
    by (simp add: raiseAttention_def Let_def case_prod_beta)
  then have "fst (post_attention config env'' host1 sender between (Some event) db1 s) \<noteq> ApiError 404 ''session-not-found''" for config env''
    by (auto simp: post_attention_def Let_def case_prod_beta split: raise_answer.splits raise_result.splits)
  then show ?thesis using h1(1)
    by (simp add: db1 cp_request_def api_handle_def caller_of_def with_bearer_def Let_def serve_caller_def case_prod_beta)
qed

subsection \<open>Where the daemon falls short\<close>

text \<open>
  A beat that takes longer than the interval overlaps the next: both post the same ended reports, and each takes as
  many off the buffer, so a session that ends between their answers is dropped unreported.
\<close>

lemma overlapping_beats_lose:
  assumes "dm_beats d = []" "dm_ended d = [a]" "dm_collect d" "aget (dm_launches d) ref = Some l"
    and "d1 = beat_settled 0 True (send_heartbeat t2 (send_heartbeat t1 d))" and "d2 = session_over ref t3 d1"
  shows "map bt_body (dm_beats d2) = [beat_body t2 d] \<and> ended_refs d2 = [ref] \<and> ended_refs (beat_settled 0 True d2) = []"
  using assms by (simp add: beat_settled_def send_heartbeat_def session_over_def push_ended_def MAX_ENDED_REPORTS_def beat_body_def live_reports_def ended_refs_def)

text \<open>
  The buffer holds more reports than the route takes: once more than its limit wait, each beat is refused whole, so the
  buffer, which only a beat that was taken drains, never drains again, and the live sessions are told no more either.
\<close>

lemma wedged_beat:
  assumes "MAX_HEARTBEAT_SESSIONS < length (dm_ended d)"
  shows "\<not> fst (client_heartbeat sv token env (beat_body now d) w)"
proof -
  obtain db s where w: "w = (db, s)" by fastforce
  show ?thesis
  proof (cases "authenticateHost (sv_crypto sv) db (Some (''Bearer '' @ token))")
    case None
    then show ?thesis unfolding w by (rule heartbeat_refused)
  next
    case (Some host)
    then show ?thesis using assms by (simp add: w heartbeat_taken [OF Some] post_heartbeat_def beat_body_def)
  qed
qed

lemma ended_grows:
  assumes "\<forall>i. e \<noteq> DmBeatSettled i True"
  shows "length (dm_ended d) \<le> length (dm_ended (daemon_step em e d))"
proof -
  have push: "length rs \<le> length (push_ended r rs)" for r rs by (cases rs) (simp_all add: push_ended_def)
  then have over: "length (dm_ended d) \<le> length (dm_ended (session_over ref now d))" for ref now and d :: "'a daemon"
    by (simp add: session_over_def Let_def split: option.split)
  have event: "length (dm_ended d) \<le> length (dm_ended (session_event_on em ref now ev d))" for ref now ev
    using over [of "d\<lparr>dm_registry := g\<rparr>" ref now for g] by (auto simp: session_event_on_def Let_def split: option.split)
  have reserve: "dm_ended (fst (spawner_reserve ref now ttl spec d)) = dm_ended d" for ref now ttl spec
    by (simp add: spawner_reserve_def Let_def split: option.split prod.split)
  have claim: "dm_ended (fst (spawner_claim ref now d')) = dm_ended d'" for ref now and d' :: "'a daemon"
    by (simp add: spawner_claim_def Let_def split: sum.split prod.split)
  have settled: "dm_ended (spawner_settled em i ok d) = dm_ended d" for i ok
    by (simp add: spawner_settled_def Let_def split: option.split prod.split)
  have creserve: "dm_ended (fst (custody_reserve ref now ttl spec d)) = dm_ended d" for ref now ttl spec
    using reserve [of ref now ttl spec] by (auto simp: custody_reserve_def audit_line_def split: option.split prod.split)
  show ?thesis using assms event reserve claim settled creserve
    by (cases e) (simp_all add: daemon_step_def custody_claim_def gate_verdict_def local_connection_def launched_def audit_line_def send_heartbeat_def beat_settled_def)
qed

lemma wedged_for_ever:
  assumes "MAX_HEARTBEAT_SESSIONS < length (dm_ended d)" and "\<forall>e \<in> set es. \<forall>i. e \<noteq> DmBeatSettled i True"
  shows "MAX_HEARTBEAT_SESSIONS < length (dm_ended (daemon_run em es d))"
  using assms
proof (induction es arbitrary: d)
  case (Cons e es)
  then have "MAX_HEARTBEAT_SESSIONS < length (dm_ended (daemon_step em e d))" using ended_grows [of e d em] by force
  then show ?case using Cons by (simp add: daemon_run_def)
qed (simp add: daemon_run_def)

text \<open>The lock is a read and a later write, and the listener unlinks the path: of two starts that both read first, both run, and the
  second has the socket.\<close>

lemma two_daemons_start:
  assumes "lw_pid w = None" "start = (\<lambda>me p w. start_step show_nat alive me True p w)"
  shows "let (p1, w1) = start 1 StartRead w; (p2, w2) = start 2 StartRead w1; (p1, w3) = start 1 p1 w2; (p2, w4) = start 2 p2 w3;
      (p1, w5) = start 1 p1 w4; (p2, w6) = start 2 p2 w5
    in p1 = StartRunning \<and> p2 = StartRunning \<and> lw_socket w6 = Some 2"
  using assms by (simp add: start_step_def readPidFile_def writePidFile_def listenUnix_def)

text \<open>A launch whose reservation nobody claims is noted for good.\<close>

lemma unclaimed_launch_stays:
  assumes "spawner_reserve ref now ttl spec d = (d1, Some (ref, t))"
  shows "aget (dm_launches (fst (spawner_claim ref late d1))) ref \<noteq> None"
  using assms by (auto simp: spawner_reserve_def spawner_claim_def Let_def aget_aset split: option.splits prod.splits sum.splits)

end
