(* ===== verification/Startup.thy ===== *)
theory Startup
  imports Daemon CliAuthTheorems RevocationSteps "HOL-Library.Monad_Syntax"
begin

text \<open>
  The edges of the programs. What the servers make of their environment before they listen
  (\<open>apps/control-plane/src/config.ts\<close>, \<open>identity.ts\<close>, \<open>main.ts\<close>, \<open>apps/relay/src/config.ts\<close>); the cell's address and the docked state of the
  command line (\<open>cli/src/cell-url.ts\<close>, \<open>dock-config.ts\<close>); and the HTTP routes of the login (\<open>routers/cli-auth.ts\<close>). What \<open>Number\<close> makes of
  a text, what \<open>new URL\<close> makes of it and what the identity provider signs are parameters.
\<close>

subsection \<open>The environment of the control plane\<close>

text \<open>A blank variable is as good as none.\<close>

type_synonym environment = "string \<Rightarrow> string option"


record clerk_config =
  kc_issuer :: "string option"
  kc_jwksUrl :: "string option"
  kc_secretKey :: "string option"
  kc_webhookSecret :: "string option"
  kc_audience :: "string option"

datatype apns_environment = ApnsSandbox | ApnsProduction

record apns_config =
  pn_teamId :: "string option"
  pn_keyId :: "string option"
  pn_privateKey :: "string option"
  pn_bundleId :: "string option"
  pn_environment :: apns_environment

record limits_config =
  lm_pairRedeemPerMin :: int
  lm_ticketsPerMin :: int
  lm_cliAuthPerMin :: int
  lm_attentionHostPerMin :: int
  lm_attentionOrgPerMin :: int

text \<open>\<open>false\<close>, \<open>true\<close>, or a number of hops.\<close>

datatype trust_proxy = TrustNone | TrustAll | TrustHops int

record cp_config =
  cf_nodeEnv :: "string option"
  cf_databaseUrl :: "string option"
  cf_redisUrl :: "string option"
  cf_clerk :: clerk_config
  cf_directorUrl :: "string option"
  cf_apiPublicUrl :: "string option"
  cf_dashboardUrl :: "string option"
  cf_internalApiKey :: "string option"
  cf_internalListenPort :: "int option"
  cf_internalListenHost :: string
  cf_trustProxy :: trust_proxy
  cf_maxHostsPerOrg :: int
  cf_allowDevIdentity :: bool
  cf_pairTokenTtlMs :: int
  cf_relayTicketTtlMs :: int
  cf_cliAuthRequestTtlMs :: int
  cf_cliTokenTtlMs :: int
  cf_attentionDebounceMs :: int
  cf_attentionLongPollMaxMs :: int
  cf_devHumanToken :: "string option"
  cf_devHumanExtUser :: string
  cf_apns :: apns_config
  cf_limits :: limits_config

text \<open>\<open>num\<close> is the whole number that \<open>Number\<close> reads, if it reads one; \<open>None\<close> of the result is the \<open>ZodError\<close>.\<close>

definition positive :: "(string \<Rightarrow> int option) \<Rightarrow> string \<Rightarrow> int option" where
  "positive num t = (case num t of None \<Rightarrow> None | Some n \<Rightarrow> if 0 < n then Some n else None)"

definition knob :: "(string \<Rightarrow> int option) \<Rightarrow> environment \<Rightarrow> string \<Rightarrow> int \<Rightarrow> int option" where
  "knob num env k d = (case env k of None \<Rightarrow> Some d | Some t \<Rightarrow> positive num t)"










definition apnsConfigured :: "cp_config \<Rightarrow> bool" where
  "apnsConfigured c \<longleftrightarrow> pn_teamId (cf_apns c) \<noteq> None \<and> pn_keyId (cf_apns c) \<noteq> None \<and> pn_privateKey (cf_apns c) \<noteq> None \<and> pn_bundleId (cf_apns c) \<noteq> None"


datatype boot_error =
    InvalidEnvironment | InternalKeyRequired | InternalKeyShort | DevIdentityRefused | DatabaseRequired | RedisRequired | AmbiguousIdentity
  | CleartextRefused


subsection \<open>The identity provider\<close>







text \<open>Where the internal routes are served: on the public listener, or on one of their own.\<close>

definition internal_listener :: "cp_config \<Rightarrow> (string \<times> int) option" where
  "internal_listener c = map_option (\<lambda>port. (cf_internalListenHost c, port)) (cf_internalListenPort c)"

text \<open>The parts of the configuration that the modelled services read.\<close>

definition pair_part :: "cp_config \<Rightarrow> pair_config" where
  "pair_part c = \<lparr>pc_pairTokenTtlMs = cf_pairTokenTtlMs c, pc_directorUrl = cf_directorUrl c, pc_apiPublicUrl = cf_apiPublicUrl c\<rparr>"

definition api_part :: "cp_config \<Rightarrow> api_config" where
  "api_part c = \<lparr>af_maxHostsPerOrg = cf_maxHostsPerOrg c, af_pair = pair_part c, af_pairRedeemPerMin = lm_pairRedeemPerMin (cf_limits c),
     af_attentionHostPerMin = lm_attentionHostPerMin (cf_limits c), af_attentionOrgPerMin = lm_attentionOrgPerMin (cf_limits c),
     af_attentionDebounceMs = cf_attentionDebounceMs c\<rparr>"

definition cli_part :: "cp_config \<Rightarrow> cli_config" where
  "cli_part c = \<lparr>cc_requestTtlMs = cf_cliAuthRequestTtlMs c, cc_tokenTtlMs = cf_cliTokenTtlMs c, cc_apiPublicUrl = cf_apiPublicUrl c\<rparr>"

subsection \<open>The environment of the relay\<close>

text \<open>A URL by its protocol and its host name.\<close>

definition parseHttpUrl :: "(string \<Rightarrow> (string \<times> string) option) \<Rightarrow> string \<Rightarrow> (string \<times> string) option" where
  "parseHttpUrl parse_url t =
     (case parse_url t of
        None \<Rightarrow> None
      | Some (protocol, hostname) \<Rightarrow> if protocol = ''http:'' \<or> protocol = ''https:'' then Some (protocol, hostname) else None)"

definition bare_host :: "string \<Rightarrow> string" where
  "bare_host hostname =
     (let h = (if take 1 hostname = ''['' then drop 1 hostname else hostname)
      in if h \<noteq> [] \<and> last h = CHR '']'' then butlast h else h)"

definition isLoopbackHost :: "string \<Rightarrow> bool" where
  "isLoopbackHost hostname \<longleftrightarrow> bare_host hostname \<in> {''127.0.0.1'', ''localhost'', ''::1''}"

record cell_config =
  ec_cellId :: string
  ec_listenHost :: string
  ec_listenPort :: int
  ec_nodeEnv :: "string option"
  ec_controlPlaneUrl :: string
  ec_internalApiKey :: string

text \<open>Here a blank variable is not taken for none: it is refused.\<close>

definition nonempty :: "string option \<Rightarrow> string option" where
  "nonempty v = (case v of Some t \<Rightarrow> if t = [] then None else Some t | None \<Rightarrow> None)"

definition relay_env :: "(string \<Rightarrow> int option) \<Rightarrow> (string \<Rightarrow> (string \<times> string) option) \<Rightarrow> environment \<Rightarrow> cell_config option" where
  "relay_env num parse_url env =
     do {
       cellId \<leftarrow> nonempty (env ''CELL_ID'');
       host \<leftarrow> (if env ''LISTEN_HOST'' = None then Some ''0.0.0.0'' else nonempty (env ''LISTEN_HOST''));
       port \<leftarrow> knob num env ''LISTEN_PORT'' 9443;
       nodeEnv \<leftarrow> (if env ''NODE_ENV'' = None then Some None else map_option Some (nonempty (env ''NODE_ENV'')));
       url \<leftarrow> nonempty (env ''CONTROL_PLANE_URL'');
       parts \<leftarrow> parseHttpUrl parse_url url;
       key \<leftarrow> nonempty (env ''INTERNAL_API_KEY'');
       Some \<lparr>ec_cellId = cellId, ec_listenHost = host, ec_listenPort = port, ec_nodeEnv = nodeEnv, ec_controlPlaneUrl = url,
         ec_internalApiKey = key\<rparr>
     }"

definition load_relay_config ::
  "(string \<Rightarrow> int option) \<Rightarrow> (string \<Rightarrow> (string \<times> string) option) \<Rightarrow> environment \<Rightarrow> boot_error + cell_config" where
  "load_relay_config num parse_url env =
     (case relay_env num parse_url env of
        None \<Rightarrow> Inl InvalidEnvironment
      | Some c \<Rightarrow>
          if ec_nodeEnv c = Some ''production'' \<and>
             (case parseHttpUrl parse_url (ec_controlPlaneUrl c) of
                None \<Rightarrow> False | Some (protocol, hostname) \<Rightarrow> protocol \<noteq> ''https:'' \<and> \<not> isLoopbackHost hostname)
          then Inl CleartextRefused
          else Inr c)"

subsection \<open>The address of a cell\<close>

datatype cell_url_error = UnsupportedScheme | UnclosedBracket | MissingPort | MissingHost | NonNumericPort | PortOutOfRange

definition is_letter :: "char \<Rightarrow> bool" where
  "is_letter c \<longleftrightarrow> (let n = of_char c :: nat in (65 \<le> n \<and> n \<le> 90) \<or> (97 \<le> n \<and> n \<le> 122))"

definition scheme_char :: "char \<Rightarrow> bool" where
  "scheme_char c \<longleftrightarrow> is_letter c \<or> is_digit c \<or> c \<in> set ''+.-''"

definition has_scheme :: "string \<Rightarrow> bool" where
  "has_scheme t = (case t of [] \<Rightarrow> False | c # cs \<Rightarrow> is_letter c \<and> take 3 (dropWhile scheme_char cs) = ''://'')"

definition ends_authority :: "char \<Rightarrow> bool" where
  "ends_authority c \<longleftrightarrow> c \<in> set ''/?#''"

text \<open>The text before and behind the last occurrence of a character.\<close>

definition split_last :: "char \<Rightarrow> string \<Rightarrow> (string \<times> string) option" where
  "split_last c s =
     (case dropWhile (\<lambda>x. x \<noteq> c) (rev s) of
        [] \<Rightarrow> None
      | x # before \<Rightarrow> Some (rev before, rev (takeWhile (\<lambda>x. x \<noteq> c) (rev s))))"

definition host_and_port :: "string \<Rightarrow> cell_url_error + string \<times> string" where
  "host_and_port hostPort =
     (if take 1 hostPort = ''[''
      then
        (let inner = takeWhile (\<lambda>c. c \<noteq> CHR '']'') (drop 1 hostPort); rest = drop (length inner + 2) hostPort
         in if CHR '']'' \<notin> set hostPort then Inl UnclosedBracket
            else if take 1 rest \<noteq> '':'' then Inl MissingPort
            else Inr (inner, drop 1 rest))
      else (case split_last (CHR '':'') hostPort of None \<Rightarrow> Inl MissingPort | Some p \<Rightarrow> Inr p))"

definition decimal :: "string \<Rightarrow> nat" where
  "decimal ds = foldl (\<lambda>n c. 10 * n + digit_value c) 0 ds"

definition checked_address :: "string \<Rightarrow> string \<Rightarrow> cell_url_error + string \<times> nat" where
  "checked_address host portText =
     (if host = [] then Inl MissingHost
      else if portText = [] \<or> \<not> list_all is_digit portText then Inl NonNumericPort
      else if decimal portText < 1 \<or> 65535 < decimal portText then Inl PortOutOfRange
      else Inr (host, decimal portText))"

definition parseCellUrl :: "string \<Rightarrow> cell_url_error + string \<times> nat" where
  "parseCellUrl url =
     (let t = trim url
      in if \<not> has_prefix ''tcp://'' t \<and> has_scheme t then Inl UnsupportedScheme
         else
           let authority = (if has_prefix ''tcp://'' t then drop (length ''tcp://'') t else t);
               hostPort = takeWhile (\<lambda>c. \<not> ends_authority c) authority
           in (case host_and_port hostPort of
                 Inl e \<Rightarrow> Inl e
               | Inr (host, portText) \<Rightarrow> checked_address host portText))"

subsection \<open>The docked state\<close>

record dock_config =
  dc_apiUrl :: string
  dc_directorUrl :: "string option"
  dc_hostId :: string
  dc_hostCredential :: string

datatype dock_error = DockUnreadable | DockNotJson | DockNotObject | DockField string

definition dockString :: "string \<Rightarrow> json option \<Rightarrow> dock_error + string" where
  "dockString field v = (case v of Some (JStr s) \<Rightarrow> if s = [] then Inl (DockField field) else Inr s | _ \<Rightarrow> Inl (DockField field))"

definition requireNullableString :: "string \<Rightarrow> json option \<Rightarrow> dock_error + string option" where
  "requireNullableString field v =
     (if v = Some JNull then Inr None else (case dockString field v of Inl e \<Rightarrow> Inl e | Inr s \<Rightarrow> Inr (Some s)))"

definition parseDockConfig :: "json \<Rightarrow> dock_error + dock_config" where
  "parseDockConfig v =
     (case v of
        JObj members \<Rightarrow>
          (case dockString ''apiUrl'' (jget members ''apiUrl'') of
             Inl e \<Rightarrow> Inl e
           | Inr api \<Rightarrow>
               (case requireNullableString ''directorUrl'' (jget members ''directorUrl'') of
                  Inl e \<Rightarrow> Inl e
                | Inr director \<Rightarrow>
                    (case dockString ''hostId'' (jget members ''hostId'') of
                       Inl e \<Rightarrow> Inl e
                     | Inr hostId \<Rightarrow>
                         (case dockString ''hostCredential'' (jget members ''hostCredential'') of
                            Inl e \<Rightarrow> Inl e
                          | Inr cred \<Rightarrow>
                              Inr \<lparr>dc_apiUrl = api, dc_directorUrl = director, dc_hostId = hostId, dc_hostCredential = cred\<rparr>))))
      | _ \<Rightarrow> Inl DockNotObject)"

definition readDockConfig :: "json_file \<Rightarrow> dock_error + dock_config option" where
  "readDockConfig f =
     (case f of
        Absent \<Rightarrow> Inr None
      | Unreadable \<Rightarrow> Inl DockUnreadable
      | NotJson \<Rightarrow> Inl DockNotJson
      | Holds v \<Rightarrow> (case parseDockConfig v of Inl e \<Rightarrow> Inl e | Inr c \<Rightarrow> Inr (Some c)))"

text \<open>The fields in their order on disk.\<close>

definition serialize_dock :: "dock_config \<Rightarrow> json" where
  "serialize_dock c =
     JObj [(''apiUrl'', JStr (dc_apiUrl c)), (''directorUrl'', case dc_directorUrl c of None \<Rightarrow> JNull | Some u \<Rightarrow> JStr u),
       (''hostId'', JStr (dc_hostId c)), (''hostCredential'', JStr (dc_hostCredential c))]"

definition writeDockConfig :: "dock_config \<Rightarrow> json_file" where
  "writeDockConfig c = Holds (serialize_dock c)"

text \<open>What the daemon makes of it: docked with an uplink, docked with the hook alone, or local only, also where the file is broken.\<close>

definition docked_uplink :: "json_file \<Rightarrow> dock_config option" where
  "docked_uplink f = (case readDockConfig f of Inr (Some c) \<Rightarrow> if dc_directorUrl c = None then None else Some c | _ \<Rightarrow> None)"

definition docked_hook :: "json_file \<Rightarrow> dock_config option" where
  "docked_hook f = (case readDockConfig f of Inr (Some c) \<Rightarrow> Some c | _ \<Rightarrow> None)"

subsection \<open>The routes of the login\<close>

definition escape_char :: "char \<Rightarrow> string" where
  "escape_char c =
     (if c = CHR ''&'' then ''&amp;'' else if c = CHR ''<'' then ''&lt;'' else if c = CHR ''>'' then ''&gt;''
      else if c = CHR 0x22 then ''&quot;'' else if c = CHR 0x27 then ''&#39;'' else [c])"

definition escapeHtml :: "string \<Rightarrow> string" where
  "escapeHtml t = concat (map escape_char t)"

text \<open>The pages by what they name: the approval page the request's id, in markup.\<close>

datatype cli_reply =
    CliError nat string
  | CliStarted start_result int
  | CliDescribed string bool
  | CliNotFoundPage
  | CliApprovalPage string
  | CliRedirect string
  | CliApproved "string option"
  | CliPending
  | CliToken string int

text \<open>The body of a start that is well formed gives the callback, if there is one.\<close>

definition start_route ::
  "crypto \<Rightarrow> (string \<Rightarrow> (string \<times> string) option) \<Rightarrow> cp_config \<Rightarrow> int \<Rightarrow> int \<Rightarrow> string \<Rightarrow> string option option \<Rightarrow> string \<Rightarrow> string \<Rightarrow> bytes \<Rightarrow>
   cp_store \<Rightarrow> cli_reply \<times> cp_store" where
  "start_route C parse_url c clock now ip body requestId cliSecret codeBytes s =
     (case checkRateLimit clock clock ''cli-auth'' ip (lm_cliAuthPerMin (cf_limits c)) 60000 s of
        (allowed, s1) \<Rightarrow>
          if \<not> allowed then (CliError 429 ''rate-limited'', s1)
          else (case body of
                  None \<Rightarrow> (CliError 400 ''invalid-request'', s1)
                | Some callback \<Rightarrow>
                    if (case callback of None \<Rightarrow> False | Some u \<Rightarrow> \<not> isLoopbackCallback parse_url u) then (CliError 400 ''invalid-request'', s1)
                    else (case startCliAuth C (cli_part c) clock now callback requestId cliSecret codeBytes s1 of
                            (r, s2) \<Rightarrow> (CliStarted r CLI_AUTH_POLL_INTERVAL_MS, s2))))"

definition describe_route :: "int \<Rightarrow> int \<Rightarrow> string \<Rightarrow> cp_store \<Rightarrow> cli_reply \<times> cp_store" where
  "describe_route clock now requestId s =
     (case describeCliAuthRequest clock now requestId s of
        (None, s1) \<Rightarrow> (CliError 404 ''cli-auth-invalid'', s1)
      | (Some (i, needsCode), s1) \<Rightarrow> (CliDescribed i needsCode, s1))"

definition page_route :: "cp_config \<Rightarrow> int \<Rightarrow> int \<Rightarrow> string \<Rightarrow> cp_store \<Rightarrow> cli_reply \<times> cp_store" where
  "page_route c clock now requestId s =
     (case describeCliAuthRequest clock now requestId s of
        (None, s1) \<Rightarrow> (CliNotFoundPage, s1)
      | (Some (i, needsCode), s1) \<Rightarrow>
          (case cf_dashboardUrl c of
             Some u \<Rightarrow> (CliRedirect (u @ ''/cli-auth/'' @ i), s1)
           | None \<Rightarrow> (CliApprovalPage (escapeHtml i), s1)))"

text \<open>A body by its id and its code; empty texts are refused.\<close>

definition approve_route ::
  "crypto \<Rightarrow> (string \<Rightarrow> string option) \<Rightarrow> cp_config \<Rightarrow> int \<Rightarrow> int \<Rightarrow> string option \<Rightarrow> (string \<times> string option) option \<Rightarrow> string \<Rightarrow> db \<Rightarrow>
   cp_store \<Rightarrow> cli_reply \<times> cp_store" where
  "approve_route C verifyHuman c clock now header body code db s =
     (case authenticateHuman C verifyHuman db clock s now header of
        None \<Rightarrow> (CliError 401 ''unauthenticated'', s)
      | Some (u, g) \<Rightarrow>
          (case checkRateLimit clock clock ''cli-auth-approve'' (us_id u) (lm_cliAuthPerMin (cf_limits c)) 60000 s of
             (allowed, s1) \<Rightarrow>
               if \<not> allowed then (CliError 429 ''rate-limited'', s1)
               else (case body of
                       None \<Rightarrow> (CliError 400 ''invalid-request'', s1)
                     | Some (requestId, userCode) \<Rightarrow>
                         if requestId = [] \<or> userCode = Some [] then (CliError 400 ''invalid-request'', s1)
                         else (case approveCliAuth C clock now \<lparr>ap_requestId = requestId, ap_userId = us_id u, ap_userCode = userCode\<rparr> code s1 of
                                 (ApOk url, s2) \<Rightarrow> (CliApproved url, s2)
                               | (_, s2) \<Rightarrow> (CliError 404 ''cli-auth-invalid'', s2)))))"

definition exchange_route ::
  "crypto \<Rightarrow> cp_config \<Rightarrow> int \<Rightarrow> int \<Rightarrow> string \<Rightarrow> exchange_args option \<Rightarrow> string \<Rightarrow> cp_store \<Rightarrow> cli_reply \<times> cp_store" where
  "exchange_route C c clock now ip body random s =
     (case checkRateLimit clock clock ''cli-auth'' ip (lm_cliAuthPerMin (cf_limits c)) 60000 s of
        (allowed, s1) \<Rightarrow>
          if \<not> allowed then (CliError 429 ''rate-limited'', s1)
          else (case body of
                  None \<Rightarrow> (CliError 400 ''invalid-request'', s1)
                | Some args \<Rightarrow>
                    if ex_requestId args = [] \<or> ex_cliSecret args = [] \<or> ex_code args = Some [] then (CliError 400 ''invalid-request'', s1)
                    else (case exchangeCliAuth C (cli_part c) clock now args random s1 of
                            (ExOk token expiresAt, s2) \<Rightarrow> (CliToken token expiresAt, s2)
                          | (ExPending, s2) \<Rightarrow> (CliPending, s2)
                          | (_, s2) \<Rightarrow> (CliError 404 ''cli-auth-invalid'', s2))))"

text \<open>Requests in any order, with whatever the other services do on the store in between.\<close>

datatype login_event =
    LoginStart int int string "string option option" string string bytes
  | LoginDescribe int int string
  | LoginPage int int string
  | LoginApprove int int "string option" "(string \<times> string option) option" string db
  | LoginExchange int int string "exchange_args option" string
  | LoginElse int "cp_json redis_op"

record login_params =
  lp_crypto :: crypto
  lp_url :: "string \<Rightarrow> (string \<times> string) option"
  lp_verify :: "string \<Rightarrow> string option"
  lp_config :: cp_config

definition login_serve :: "login_params \<Rightarrow> login_event \<Rightarrow> cp_store \<Rightarrow> cli_reply option \<times> cp_store" where
  "login_serve P e s =
     (let reply = (\<lambda>x. (Some (fst x), snd x)); C = lp_crypto P; c = lp_config P
      in case e of
           LoginStart clock now ip body requestId cliSecret codeBytes \<Rightarrow>
             reply (start_route C (lp_url P) c clock now ip body requestId cliSecret codeBytes s)
         | LoginDescribe clock now requestId \<Rightarrow> reply (describe_route clock now requestId s)
         | LoginPage clock now requestId \<Rightarrow> reply (page_route c clock now requestId s)
         | LoginApprove clock now header body code db \<Rightarrow> reply (approve_route C (lp_verify P) c clock now header body code db s)
         | LoginExchange clock now ip body random \<Rightarrow> reply (exchange_route C c clock now ip body random s)
         | LoginElse clock op \<Rightarrow> (None, snd (redis_exec clock op s)))"

definition login_step :: "login_params \<Rightarrow> login_event \<Rightarrow> cli_reply list \<times> cp_store \<Rightarrow> cli_reply list \<times> cp_store" where
  "login_step P e w =
     (case login_serve P e (snd w) of (r, s) \<Rightarrow> (case r of None \<Rightarrow> (fst w, s) | Some x \<Rightarrow> (fst w @ [x], s)))"

definition login_run :: "login_params \<Rightarrow> login_event list \<Rightarrow> cli_reply list \<times> cp_store" where
  "login_run P es = fold (login_step P) es ([], [])"

subsection \<open>Booting\<close>








definition prod_config :: cp_config where
  "prod_config =
     \<lparr>cf_nodeEnv = Some ''production'', cf_databaseUrl = Some ''pg'', cf_redisUrl = Some ''r'',
      cf_clerk = \<lparr>kc_issuer = Some ''https://c/'', kc_jwksUrl = Some ''https://c/.well-known/jwks.json'', kc_secretKey = None, kc_webhookSecret = None,
        kc_audience = None\<rparr>,
      cf_directorUrl = None, cf_apiPublicUrl = None, cf_dashboardUrl = None, cf_internalApiKey = Some (replicate 40 CHR ''k''),
      cf_internalListenPort = None, cf_internalListenHost = ''127.0.0.1'', cf_trustProxy = TrustNone, cf_maxHostsPerOrg = 100,
      cf_allowDevIdentity = False, cf_pairTokenTtlMs = 600000, cf_relayTicketTtlMs = 5, cf_cliAuthRequestTtlMs = 600000,
      cf_cliTokenTtlMs = 3600000, cf_attentionDebounceMs = 30000, cf_attentionLongPollMaxMs = 25000, cf_devHumanToken = None,
      cf_devHumanExtUser = ''dev_user'',
      cf_apns = \<lparr>pn_teamId = None, pn_keyId = None, pn_privateKey = None, pn_bundleId = None, pn_environment = ApnsSandbox\<rparr>,
      cf_limits = \<lparr>lm_pairRedeemPerMin = 10, lm_ticketsPerMin = 30, lm_cliAuthPerMin = 10, lm_attentionHostPerMin = 30, lm_attentionOrgPerMin = 120\<rparr>\<rparr>"






text \<open>The relay's key goes over TLS, or stays on the machine.\<close>

lemma relay_key_stays_covered:
  assumes "load_relay_config num parse_url env = Inr c" and "env ''NODE_ENV'' = Some ''production''"
  shows "\<exists>protocol hostname. parse_url (ec_controlPlaneUrl c) = Some (protocol, hostname) \<and>
    (protocol = ''https:'' \<or> protocol = ''http:'' \<and> isLoopbackHost hostname)"
proof -
  have e: "relay_env num parse_url env = Some c" using assms(1) by (auto simp: load_relay_config_def split: option.splits if_splits)
  have p: "ec_nodeEnv c = Some ''production''" using e assms(2) by (auto simp: relay_env_def bind_eq_Some_conv nonempty_def)
  obtain parts where u: "parseHttpUrl parse_url (ec_controlPlaneUrl c) = Some parts" using e by (auto simp: relay_env_def bind_eq_Some_conv)
  obtain protocol hostname where h: "parts = (protocol, hostname)" by fastforce
  have "parse_url (ec_controlPlaneUrl c) = Some (protocol, hostname)" "protocol = ''http:'' \<or> protocol = ''https:''"
    using u h by (auto simp: parseHttpUrl_def split: option.splits if_splits)
  then show ?thesis using assms(1) e p u h by (auto simp: load_relay_config_def split: if_splits)
qed

subsection \<open>The login's redirects\<close>

definition local_callbacks :: "(string \<Rightarrow> (string \<times> string) option) \<Rightarrow> cp_store \<Rightarrow> bool" where
  "local_callbacks url s \<longleftrightarrow> (\<forall>k r. holds k (JsonText (RequestJson r)) s \<longrightarrow> (\<forall>cb. cq_callback r = Some cb \<longrightarrow> isLoopbackCallback url cb))"

lemma callbacks_fewer: "local_callbacks url s \<Longrightarrow> (\<And>k r. holds k (JsonText (RequestJson r)) s' \<Longrightarrow> holds k (JsonText (RequestJson r)) s) \<Longrightarrow> local_callbacks url s'"
  unfolding local_callbacks_def by blast

lemma holds_set_any: "holds k v (snd (redis_set now k' w nx px s)) \<Longrightarrow> v = w \<and> k = k' \<or> holds k v s"
  using holds_set_other [of k k' v now w nx px s] holds_set_won [of now k' w nx px s v] holds_set_lost [of now k' w nx px s v]
  by (cases "k = k'") auto

lemma callbacks_set:
  "local_callbacks url s \<Longrightarrow> (\<And>r cb. w = JsonText (RequestJson r) \<Longrightarrow> cq_callback r = Some cb \<Longrightarrow> isLoopbackCallback url cb) \<Longrightarrow>
    local_callbacks url (snd (redis_set now k w nx px s))"
  using holds_set_any unfolding local_callbacks_def by metis

lemma callbacks_set_other: "local_callbacks url s \<Longrightarrow> \<forall>r. w \<noteq> JsonText (RequestJson r) \<Longrightarrow> local_callbacks url (snd (redis_set now k w nx px s))"
  by (rule callbacks_set) auto

lemma holds_incr_doc: "holds k (JsonText j) (snd (redis_incr now k' s)) \<Longrightarrow> holds k (JsonText j) s"
proof (cases "k = k'")
  case True
  assume "holds k (JsonText j) (snd (redis_incr now k' s))"
  then show ?thesis using True by (auto simp: redis_incr_def case_prod_beta holds_def bump_def split: option.splits redis_value.splits)
qed (simp add: holds_incr_other)

lemma holds_pexpire_doc: "holds k v (redis_pexpire now k' ms s) \<Longrightarrow> holds k v s"
  by (cases "k = k'") (auto simp: holds_pexpire_other redis_pexpire_def case_prod_beta holds_def live_facts split: option.splits if_splits)

lemma callbacks_incr: "local_callbacks url s \<Longrightarrow> local_callbacks url (snd (redis_incr now k s))"
  by (erule callbacks_fewer) (rule holds_incr_doc)

lemma callbacks_get: "local_callbacks url s \<Longrightarrow> local_callbacks url (snd (redis_get now k s))"
  by (erule callbacks_fewer) blast

lemma callbacks_getdel: "local_callbacks url s \<Longrightarrow> local_callbacks url (snd (redis_getdel now k s))"
  by (erule callbacks_fewer) blast

lemma callbacks_del: "local_callbacks url s \<Longrightarrow> local_callbacks url (redis_del k s)"
  by (erule callbacks_fewer) blast

lemma callbacks_limit: "local_callbacks url s \<Longrightarrow> local_callbacks url (snd (checkRateLimit t1 t2 n k l ms s))"
  by (simp add: checkRateLimit_def Let_def case_prod_beta callbacks_incr callbacks_set_other)

lemma callbacks_load: "local_callbacks url s \<Longrightarrow> local_callbacks url (snd (loadRequest clock now r s))"
  by (simp add: loadRequest_def Let_def case_prod_beta callbacks_get)

lemma callbacks_describe: "local_callbacks url s \<Longrightarrow> local_callbacks url (snd (describeCliAuthRequest clock now r s))"
  by (simp add: describeCliAuthRequest_def Let_def case_prod_beta callbacks_load)

definition calm_op :: "cp_json redis_op \<Rightarrow> bool" where
  "calm_op op \<longleftrightarrow> (\<forall>k r nx px. op \<noteq> OpSet k (JsonText (RequestJson r)) nx px)"

lemma callbacks_exec: "calm_op op \<Longrightarrow> local_callbacks url s \<Longrightarrow> local_callbacks url (snd (redis_exec now op s))"
  by (cases op) (auto simp: calm_op_def case_prod_beta callbacks_get callbacks_getdel callbacks_del callbacks_incr
      intro: callbacks_set elim: callbacks_fewer dest: holds_pexpire_doc)

text \<open>A phase of an approval has only records whose callback is local; its outcome goes there.\<close>

fun local_phase :: "(string \<Rightarrow> (string \<times> string) option) \<Rightarrow> approve_phase \<Rightarrow> bool" where
  "local_phase url (ApGrant r) = (\<forall>cb. cq_callback r = Some cb \<longrightarrow> isLoopbackCallback url cb)"
| "local_phase url (ApOk (Some u)) = (\<exists>cb code. u = appendCode cb code \<and> isLoopbackCallback url cb)"
| "local_phase url _ = True"

lemma approve_step_local:
  assumes "local_callbacks url s" "local_phase url p"
  shows "local_callbacks url (snd (approve_step C clock now args code p s)) \<and> local_phase url (fst (approve_step C clock now args code p s))"
proof (cases p)
  case ApLoad
  obtain res s1 where l: "loadRequest clock now (ap_requestId args) s = (res, s1)" by fastforce
  have "local_callbacks url s1" using callbacks_load [OF assms(1), of clock now "ap_requestId args"] l by simp
  moreover have "\<forall>cb. cq_callback r = Some cb \<longrightarrow> isLoopbackCallback url cb" if "res = Some r" for r
    using load_facts(1) [OF l that] assms(1) unfolding local_callbacks_def by blast
  ultimately show ?thesis using l by (auto simp: ApLoad approve_step_def split: option.splits)
next
  case (ApSeed r)
  then show ?thesis using assms(1) by (simp add: approve_step_def callbacks_set_other)
next
  case (ApCount r)
  then show ?thesis using callbacks_incr [OF assms(1), of clock "attemptsKey (ap_requestId args)"]
    by (auto simp: approve_step_def case_prod_beta split: option.splits)
next
  case ApBurn
  then show ?thesis using callbacks_del [OF assms(1)] by (simp add: approve_step_def)
next
  case (ApGrant r)
  have "local_callbacks url (snd (redis_set clock k (JsonText (GrantJson g)) nx px s))" for k g nx px using assms(1) by (simp add: callbacks_set_other)
  then show ?thesis using assms(2) by (cases "cq_callback r") (auto simp: ApGrant approve_step_def case_prod_beta)
qed (use assms in \<open>simp_all add: approve_step_def\<close>)

lemma approve_local:
  assumes "local_callbacks url s"
  shows "local_callbacks url (snd (approveCliAuth C clock now args code s)) \<and> local_phase url (fst (approveCliAuth C clock now args code s))"
proof -
  let ?f = "\<lambda>(p, s). approve_step C clock now args code p s"
  have "local_callbacks url (snd ((?f ^^ n) (ApLoad, s))) \<and> local_phase url (fst ((?f ^^ n) (ApLoad, s)))" for n
    using assms approve_step_local by (induction n) (simp_all add: case_prod_beta)
  then show ?thesis by (simp add: approveCliAuth_def)
qed

lemma exchange_step_local: "local_callbacks url s \<Longrightarrow> local_callbacks url (snd (exchange_step C c clock now args random p s))"
  by (cases p) (auto simp: exchange_step_def case_prod_beta Let_def callbacks_set_other callbacks_del
      dest: callbacks_load [of url s clock now "ex_requestId args"] callbacks_getdel [of url s clock "grantKey (ex_requestId args)"] split: option.splits)

lemma exchange_local: "local_callbacks url s \<Longrightarrow> local_callbacks url (snd (exchangeCliAuth C c clock now args random s))"
proof -
  assume a: "local_callbacks url s"
  let ?f = "\<lambda>(p, s). exchange_step C c clock now args random p s"
  have "local_callbacks url (snd ((?f ^^ n) (ExLoad, s)))" for n
    using a exchange_step_local by (induction n) (simp_all add: case_prod_beta)
  then show ?thesis by (simp add: exchangeCliAuth_def)
qed

definition calm_login :: "login_event \<Rightarrow> bool" where
  "calm_login e \<longleftrightarrow> (case e of LoginElse clock op \<Rightarrow> calm_op op | _ \<Rightarrow> True)"

definition local_reply :: "(string \<Rightarrow> (string \<times> string) option) \<Rightarrow> cli_reply \<Rightarrow> bool" where
  "local_reply url r \<longleftrightarrow> (\<forall>u. r = CliApproved (Some u) \<longrightarrow> (\<exists>cb code. u = appendCode cb code \<and> isLoopbackCallback url cb))"

lemma start_route_local:
  assumes "local_callbacks (lp_url P) s"
  shows "local_callbacks (lp_url P) (snd (start_route C (lp_url P) c clock now ip body requestId cliSecret codeBytes s)) \<and>
    local_reply (lp_url P) (fst (start_route C (lp_url P) c clock now ip body requestId cliSecret codeBytes s))"
proof -
  let ?s1 = "snd (checkRateLimit clock clock ''cli-auth'' ip (lm_cliAuthPerMin (cf_limits c)) 60000 s)"
  have l: "local_callbacks (lp_url P) ?s1" using assms by (rule callbacks_limit)
  have "local_callbacks (lp_url P) (snd (startCliAuth C (cli_part c) clock now callback requestId cliSecret codeBytes ?s1))"
    if "\<forall>u. callback = Some u \<longrightarrow> isLoopbackCallback (lp_url P) u" for callback
  proof -
    have "cq_callback (request_of C (cli_part c) now callback cliSecret codeBytes) = callback" by (simp add: request_of_def)
    then have "local_callbacks (lp_url P) (snd (redis_set clock k (JsonText (RequestJson (request_of C (cli_part c) now callback cliSecret codeBytes))) nx px ?s1))"
      for k nx px using that by (intro callbacks_set [OF l]) simp
    then show ?thesis by (simp add: startCliAuth_def Let_def case_prod_beta)
  qed
  then show ?thesis using l by (auto simp: start_route_def case_prod_beta local_reply_def split: option.splits)
qed

lemma approve_route_local:
  assumes "local_callbacks url s"
  shows "local_callbacks url (snd (approve_route C v c clock now header body code db s)) \<and>
    local_reply url (fst (approve_route C v c clock now header body code db s))"
proof (cases "authenticateHuman C v db clock s now header")
  case None
  then show ?thesis using assms by (simp add: approve_route_def local_reply_def)
next
  case (Some ug)
  let ?l = "checkRateLimit clock clock ''cli-auth-approve'' (us_id (fst ug)) (lm_cliAuthPerMin (cf_limits c)) 60000 s"
  have l: "local_callbacks url (snd ?l)" using assms by (rule callbacks_limit)
  show ?thesis
  proof (cases "\<not> fst ?l \<or> body = None \<or> (\<exists>r k. body = Some (r, k) \<and> (r = [] \<or> k = Some []))")
    case True
    then show ?thesis using l Some by (auto simp: approve_route_def case_prod_beta local_reply_def split: option.split)
  next
    case False
    then obtain r k where b: "body = Some (r, k)" "r \<noteq> []" "k \<noteq> Some []" "fst ?l" by (cases body) auto
    obtain p s2 where a: "approveCliAuth C clock now \<lparr>ap_requestId = r, ap_userId = us_id (fst ug), ap_userCode = k\<rparr> code (snd ?l) = (p, s2)" by fastforce
    have "local_callbacks url s2" "local_phase url p"
      using approve_local [OF l, of C clock now "\<lparr>ap_requestId = r, ap_userId = us_id (fst ug), ap_userCode = k\<rparr>" code] a by simp_all
    then show ?thesis using Some b a by (cases p) (auto simp: approve_route_def case_prod_beta local_reply_def)
  qed
qed

lemma exchange_route_local:
  assumes "local_callbacks url s"
  shows "local_callbacks url (snd (exchange_route C c clock now ip body random s)) \<and> local_reply url (fst (exchange_route C c clock now ip body random s))"
proof -
  let ?s1 = "snd (checkRateLimit clock clock ''cli-auth'' ip (lm_cliAuthPerMin (cf_limits c)) 60000 s)"
  have l: "local_callbacks url ?s1" using assms by (rule callbacks_limit)
  have "local_callbacks url (snd (exchangeCliAuth C (cli_part c) clock now args random ?s1))" for args using l by (rule exchange_local)
  then show ?thesis using l by (auto simp: exchange_route_def case_prod_beta local_reply_def split: option.split exchange_phase.split)
qed

lemma login_serve_local:
  assumes "local_callbacks (lp_url P) s" "calm_login e"
  shows "local_callbacks (lp_url P) (snd (login_serve P e s)) \<and> (\<forall>r. fst (login_serve P e s) = Some r \<longrightarrow> local_reply (lp_url P) r)"
proof (cases e)
  case (LoginDescribe clock now requestId)
  then show ?thesis using callbacks_describe [OF assms(1), of clock now requestId]
    by (auto simp: login_serve_def describe_route_def case_prod_beta Let_def local_reply_def split: option.split prod.splits)
next
  case (LoginPage clock now requestId)
  then show ?thesis using callbacks_describe [OF assms(1), of clock now requestId]
    by (auto simp: login_serve_def page_route_def case_prod_beta Let_def local_reply_def split: option.splits prod.splits)
qed (use assms start_route_local [OF assms(1)] approve_route_local [OF assms(1)] exchange_route_local [OF assms(1)] callbacks_exec
    in \<open>simp_all add: login_serve_def Let_def calm_login_def\<close>)

interpretation login: machine "login_step P" calm_login "\<lambda>w. local_callbacks (lp_url P) (snd w) \<and> (\<forall>r \<in> set (fst w). local_reply (lp_url P) r)" for P
proof unfold_locales
  fix w :: "cli_reply list \<times> cp_store" and e
  assume w: "local_callbacks (lp_url P) (snd w) \<and> (\<forall>r \<in> set (fst w). local_reply (lp_url P) r)" and e: "calm_login e"
  then show "local_callbacks (lp_url P) (snd (login_step P e w)) \<and> (\<forall>r \<in> set (fst (login_step P e w)). local_reply (lp_url P) r)"
    using login_serve_local [of P "snd w" e] by (auto simp: login_step_def case_prod_beta split: option.split)
qed

lemma loopback_names:
  assumes "isLoopbackCallback url callback"
  shows "\<exists>hostname. url callback = Some (''http:'', hostname) \<and>
    (\<exists>name \<in> {''127.0.0.1'', ''::1'', ''localhost''}. hostname \<in> {name, ''['' @ name, name @ '']'', ''['' @ name @ '']''})"
proof -
  obtain hostname where u: "url callback = Some (''http:'', hostname)"
    using assms by (auto simp: isLoopbackCallback_def split: option.splits if_splits)
  define h where "h = (if take 1 hostname = ''['' then drop 1 hostname else hostname)"
  define n where "n = (if h \<noteq> [] \<and> last h = CHR '']'' then butlast h else h)"
  have n: "n \<in> {''127.0.0.1'', ''::1'', ''localhost''}"
    using assms u unfolding isLoopbackCallback_def Let_def n_def h_def by simp
  have "hostname = h \<or> hostname = ''['' @ h" unfolding h_def by (cases hostname) auto
  moreover have "h = n \<or> h = n @ '']''" unfolding n_def by (metis append_butlast_last_id)
  ultimately have "hostname \<in> {n, ''['' @ n, n @ '']'', ''['' @ n @ '']''}" by (elim disjE) simp_all
  then show ?thesis using u n by blast
qed

text \<open>C40: Over any requests to the login routes, among whatever else happens on the store that does not itself write a login
  request there (\<open>calm_login\<close>), an approval that sends the browser
  away with a code sends it to a callback that parses as an \<open>http\<close> address of this machine by one of its three loopback
  names (a bracket around it aside): the code never leaves it.\<close>

theorem approvals_redirect_to_loopback:
  assumes "\<forall>e \<in> set es. calm_login e" and "CliApproved (Some url) \<in> set (fst (login_run P es))"
  shows "\<exists>callback code hostname. url = callback @ (if CHR ''?'' \<in> set callback then ''&'' else ''?'') @ ''code='' @ code \<and>
    lp_url P callback = Some (''http:'', hostname) \<and>
    (\<exists>name \<in> {''127.0.0.1'', ''::1'', ''localhost''}. hostname \<in> {name, ''['' @ name, name @ '']'', ''['' @ name @ '']''})"
proof -
  have "local_callbacks (lp_url P) (snd (login_run P es)) \<and> (\<forall>r \<in> set (fst (login_run P es)). local_reply (lp_url P) r)"
    unfolding login_run_def using login.run_inv [of P "([], [])" es] assms(1) by (simp add: list_all_iff local_callbacks_def holds_def)
  then obtain callback code where c: "url = appendCode callback code" "isLoopbackCallback (lp_url P) callback"
    using assms(2) unfolding local_reply_def by blast
  then show ?thesis using loopback_names [OF c(2)] unfolding appendCode_def by blast
qed

lemma escaped_is_plain: "c \<in> set (escapeHtml t) \<Longrightarrow> c \<notin> {CHR ''<'', CHR ''>'', CHR 0x22, CHR 0x27}"
  by (auto simp: escapeHtml_def escape_char_def split: if_splits)

subsection \<open>Addresses and the docked state\<close>

lemma split_last_join: "c \<notin> set b \<Longrightarrow> split_last c (a @ c # b) = Some (a, b)"
proof -
  assume "c \<notin> set b"
  then have "dropWhile (\<lambda>x. x \<noteq> c) (rev b @ c # rev a) = c # rev a" "takeWhile (\<lambda>x. x \<noteq> c) (rev b @ c # rev a) = rev b"
    by (subst dropWhile_append2 takeWhile_append2; auto)+
  then show ?thesis by (simp add: split_last_def)
qed

lemma digit_facts: "is_digit c \<Longrightarrow> \<not> ends_authority c \<and> c \<noteq> CHR '':'' \<and> \<not> space_byte c"
  by (auto simp: is_digit_def ends_authority_def space_byte_def space_units_def)

lemma takeWhile_all: "\<forall>c \<in> set s. P c \<Longrightarrow> takeWhile P s = s"
  by simp

lemma parse_tcp:
  assumes "trim (''tcp://'' @ r) = ''tcp://'' @ r" "takeWhile (\<lambda>c. \<not> ends_authority c) r = r"
  shows "parseCellUrl (''tcp://'' @ r) = (case host_and_port r of Inl e \<Rightarrow> Inl e | Inr (host, portText) \<Rightarrow> checked_address host portText)"
  unfolding parseCellUrl_def assms(1) Let_def using assms(2) by (simp add: has_prefix_def del: takeWhile_eq_all_conv)

text \<open>The address of a cell is read back as it is written: any host that has no slash, question mark or hash in it and does not
  open a bracket, also one with colons in it, and any port there is.\<close>

lemma cell_url_roundtrip:
  assumes "host \<noteq> []" "\<forall>c \<in> set host. \<not> ends_authority c" "take 1 host \<noteq> ''[''"
    and "ds \<noteq> []" "list_all is_digit ds" "1 \<le> decimal ds" "decimal ds \<le> 65535"
  shows "parseCellUrl (''tcp://'' @ host @ '':'' @ ds) = Inr (host, decimal ds)"
proof -
  let ?u = "''tcp://'' @ host @ '':'' @ ds"
  have d: "\<forall>c \<in> set ds. \<not> ends_authority c \<and> c \<noteq> CHR '':'' \<and> \<not> space_byte c" using assms(5) digit_facts by (auto simp: list_all_iff)
  have "last ?u \<in> set ds" using assms(4) by simp
  then have "\<not> space_byte (last ?u)" using d by blast
  moreover have "\<not> space_byte (hd ?u)" by (simp add: space_byte_def space_units_def)
  ultimately have t: "trim ?u = ?u" by (intro trim_ends) simp_all
  have "\<forall>c \<in> set (host @ '':'' @ ds). \<not> ends_authority c" using assms(2) d by (auto simp: ends_authority_def)
  then have w: "takeWhile (\<lambda>c. \<not> ends_authority c) (host @ '':'' @ ds) = host @ '':'' @ ds" by (simp only: takeWhile_all)
  have "take 1 (host @ '':'' @ ds) = take 1 host" using assms(1) by (cases host) simp_all
  then have h: "host_and_port (host @ '':'' @ ds) = Inr (host, ds)"
  proof -
    have "CHR '':'' \<notin> set ds" using d by blast
    then have "split_last (CHR '':'') (host @ '':'' @ ds) = Some (host, ds)" using split_last_join [of "CHR '':''" ds host] by simp
    then show ?thesis unfolding host_and_port_def \<open>take 1 (host @ '':'' @ ds) = take 1 host\<close> using assms(3) by simp
  qed
  have "parseCellUrl ?u = (case host_and_port (host @ '':'' @ ds) of Inl e \<Rightarrow> Inl e | Inr (host, portText) \<Rightarrow> checked_address host portText)"
    by (rule parse_tcp [OF t w])
  then show ?thesis unfolding h using assms(1,4-7) by (simp add: checked_address_def)
qed

lemma cell_url_roundtrip_witness: "parseCellUrl (''tcp://'' @ ''::1'' @ '':'' @ ''9443'') = Inr (''::1'', 9443)"
proof -
  have v: "decimal ''9443'' = 9443" by (simp add: decimal_def digit_value_def)
  show ?thesis using cell_url_roundtrip [of "''::1''" "''9443''"] unfolding v by (simp add: ends_authority_def is_digit_def)
qed

lemma cell_url_range: "parseCellUrl url = Inr (h, p) \<Longrightarrow> h \<noteq> [] \<and> 1 \<le> p \<and> p \<le> 65535"
  by (auto simp: parseCellUrl_def Let_def checked_address_def split: if_splits sum.splits prod.splits)

text \<open>What a dock wrote is what the daemon reads, where no text of it is blank.\<close>

lemma dock_roundtrip:
  assumes "dc_apiUrl c \<noteq> []" "dc_directorUrl c \<noteq> Some []" "dc_hostId c \<noteq> []" "dc_hostCredential c \<noteq> []"
  shows "readDockConfig (writeDockConfig c) = Inr (Some c)"
  using assms by (cases "dc_directorUrl c")
    (simp_all add: readDockConfig_def writeDockConfig_def parseDockConfig_def serialize_dock_def dockString_def requireNullableString_def jget_def)

text \<open>The demo of the login: a start with a callback on this machine, its approval by a signed-in human.\<close>

definition login_url :: "string \<Rightarrow> (string \<times> string) option" where
  "login_url t = (if t = ''cb'' then Some (''http:'', ''[::1]'') else None)"

definition login_db :: db where
  "login_db = no_rows\<lparr>db_orgs := [\<lparr>og_id = ''o1'', og_name = ''one''\<rparr>], db_users := [\<lparr>us_id = ''u1'', us_clerkUserId = ''c1'', us_primaryOrgId = Some ''o1''\<rparr>]\<rparr>"

definition login_demo :: login_params where
  "login_demo = \<lparr>lp_crypto = demo_crypto\<lparr>sha_256 := (\<lambda>bs. [1])\<rparr>, lp_url = login_url, lp_verify = (\<lambda>t. if t = ''jwt'' then Some ''c1'' else None), lp_config = prod_config\<rparr>"

definition login_events :: "login_event list" where
  "login_events = [LoginStart 1 1 ''ip'' (Some (Some ''cb'')) ''q1'' ''cs'' [], LoginApprove 2 2 (Some ''Bearer jwt'') (Some (''q1'', None)) ''x'' login_db]"

lemma login_demo_ends: "map (\<lambda>r. r = CliApproved (Some ''cb?code=x'')) (fst (login_run login_demo login_events)) = [False, True]"
  by code_simp

lemma approvals_redirect_to_loopback_witness:
  "\<exists>callback code hostname. ''cb?code=x'' = callback @ (if CHR ''?'' \<in> set callback then ''&'' else ''?'') @ ''code='' @ code \<and>
    login_url callback = Some (''http:'', hostname) \<and>
    (\<exists>name \<in> {''127.0.0.1'', ''::1'', ''localhost''}. hostname \<in> {name, ''['' @ name, name @ '']'', ''['' @ name @ '']''})"
proof -
  have e: "CliApproved (Some ''cb?code=x'') \<in> set (fst (login_run login_demo login_events))"
    using login_demo_ends by (auto simp: map_eq_Cons_conv)
  have "\<forall>e \<in> set login_events. calm_login e" by (simp add: login_events_def calm_login_def)
  from approvals_redirect_to_loopback [OF this e] show ?thesis by (simp only: login_demo_def login_params.simps)
qed

end
