(* ===== verification/Spec2Isabelle.thy ===== *)
theory Spec2Isabelle
  imports ChannelTheorems RelayTheorems CellTheorems SessionTheorems ServeTheorems SdkTheorems TrustTheorems BoardTheorems LaunchTheorems AttentionTheorems RoutesTheorems TenantTheorems TicketTheorems PairingTheorems CliAuthTheorems DaemonTheorems Startup
begin

text \<open>
  Pherry lets a phone or a browser steer coding agents that run in terminals on one's own machines. The parts of
  the repository and the way they interact:

  \<^item> a \<^emph>\<open>host\<close> (\<open>packages/host\<close>, run by \<open>packages/cli\<close>) owns terminal sessions: a pseudo-terminal, a headless
    emulator that mirrors it, a ring of raw bytes, and the viewers that follow it. It serves each
    controller over an end-to-end encrypted channel;
  \<^item> a \<^emph>\<open>controller\<close> (\<open>packages/sdk\<close>) speaks the protocol of \<open>protocol/\<close> over such a channel: a handshake that
    negotiates capabilities, requests and answers as JSON, terminal frames as bytes;
  \<^item> the \<^emph>\<open>secure channel\<close> (\<open>packages/channel\<close>) is a Noise-like handshake and an AEAD record layer over any byte duplex;
  \<^item> a \<^emph>\<open>relay cell\<close> (\<open>packages/relay-core\<close>, deployed by \<open>apps/relay\<close>) pairs a controller's connection with one the host
    dials for it, and passes ciphertext between the two;
  \<^item> the \<^emph>\<open>control plane\<close> (\<open>apps/control-plane\<close>) keeps organisations, users, hosts and devices, pairs phones,
    issues the one-time tickets that cells redeem, raises attention events and logs in the command line;
  \<^item> the \<^emph>\<open>command line\<close> (\<open>packages/cli\<close>) keeps the trust files (pins of host keys, the keyring of enrolled
    devices), decides on attaches and remote launches, and puts repositories under custody.

  The development models the TypeScript of these parts. Definitions keep the names of the source; a name that
  clashes with one of the library has a prefix or a suffix.


  \<^bold>\<open>Theories.\<close> A model theory holds the records, datatypes and operations of a component; its invariant and the
  proofs over runs follow in theories of the same stem; a theory \<open>...Theorems\<close> holds the properties and closed examples.

  \<^item> \<open>Prelude\<close>: bytes, integer layouts, insertion-ordered maps (JavaScript's \<open>Map\<close>), and the locales of event machines
    (\<open>machine\<close>, \<open>history_machine\<close>, \<open>logging_machine\<close>) that the event-driven components interpret.
  \<^item> \<open>ByteStream\<close>, \<open>ByteQueue\<close> (\<open>channel/src/byte-queue.ts\<close>): the locale of a byte queue; the code's growing buffer with its
    views refines a plain list of bytes.
  \<^item> \<open>Crypto\<close>, \<open>RecordLayer\<close>, \<open>Handshake\<close>, \<open>Channel\<close> (\<open>record.ts\<close>, \<open>frame.ts\<close>, \<open>handshake.ts\<close>, \<open>kdf.ts\<close>, \<open>keys.ts\<close>, \<open>channel.ts\<close>), \<open>ChannelSpec\<close> (invariant
    and the receiver over a list of bytes), \<open>ChannelIntegrity\<close> (in order, nothing else, fail closed), \<open>ChannelTheorems\<close>.
  \<^item> \<open>PtyFrame\<close>, \<open>Wire\<close> (\<open>protocol/src\<close>: terminal frames, versions, capabilities, methods, the envelope, the statement a device
    signs), \<open>OuterFrame\<close> (\<open>relay-core\<close>: messages and framing), \<open>HostProof\<close> (proofs, contexts), \<open>DemoCodec\<close>, \<open>RelayTheorems\<close>.
  \<^item> \<open>Cell\<close> (\<open>relay-core/src/cell.ts\<close>) as a machine of events: \<open>CellInv\<close>, \<open>CellSteps\<close> (invariant, fuel), \<open>CellReach\<close>, \<open>CellEnds\<close> (where
    registrations and bridges come from, timers), \<open>CellRun\<close>, \<open>CellTheorems\<close>; \<open>DataConnection\<close> and \<open>HostAdapter\<close>: the two clients.
  \<^item> \<open>Ring\<close>, \<open>Session\<close> (\<open>host/src/session\<close>), \<open>SessionReach\<close> (what a viewer can rebuild), \<open>SessionSizing\<close> (who sizes the terminal),
    \<open>Custody\<close> (\<open>open.ts\<close>, \<open>spawn.ts\<close>, the registry, the backends), \<open>Agents\<close>, \<open>SessionTheorems\<close>.
  \<^item> \<open>Serve\<close> (\<open>host/src/serve/serve-connection.ts\<close>), \<open>ServeReach\<close>, \<open>ServeSteps\<close>, \<open>ServeHistory\<close>, \<open>ServeAnswers\<close>, \<open>ServeTheorems\<close>.
  \<^item> \<open>Events\<close>, \<open>EventsReplay\<close>, \<open>Controller\<close>, \<open>ControllerSteps\<close>, \<open>ControllerEnds\<close> (\<open>sdk/src\<close>), \<open>EndToEnd\<close> (host and controller joined),
    \<open>SdkTheorems\<close>.
  \<^item> \<open>Texts\<close> (strings as their UTF-8 bytes, with the white space of Unicode), \<open>Stores\<close>, \<open>Keyring\<close>, \<open>Trust\<close>, \<open>Gate\<close>, \<open>TrustTheorems\<close> (\<open>cli/src/known-hosts.ts\<close>, \<open>device-keyring.ts\<close>, \<open>commands/attach.ts\<close>,
    \<open>prompt.ts\<close>): the trust files, their locale, and the gate in front of a served connection.
  \<^item> \<open>Boarding\<close>, \<open>Shim\<close>, \<open>Board\<close>, \<open>BoardTheorems\<close> (\<open>cli/src/custody\<close>, \<open>commands/board.ts\<close>); \<open>LaunchHooks\<close>, \<open>LaunchTheorems\<close> (\<open>cli/src/launch.ts\<close>).
  \<^item> \<open>Redis\<close> (\<open>control-plane/src/redis.ts\<close>, with the locale \<open>redis_like\<close> of a store), \<open>Tenancy\<close> (rows, principals, audit, rate limits),
    \<open>Tickets\<close>, \<open>Pairing\<close>, \<open>CliAuth\<close> with their theorems, each call of the shared store one step of an interleaving.
  \<^item> \<open>Attention\<close>, \<open>AttentionTheorems\<close>; \<open>Routes\<close> (every route of the API, and the webhook), \<open>RoutesWf\<close> (well-formed rows),
    \<open>RevocationSteps\<close> (the locale \<open>revocable\<close>, interpreted by hosts and by devices), \<open>RoutesTheorems\<close>, \<open>Tenants\<close>, \<open>TenantTheorems\<close>.
  \<^item> \<open>Daemon\<close> (\<open>cli/src/commands/serve.ts\<close>, \<open>daemon/pidfile.ts\<close>, \<open>transport-node/src/unix.ts\<close>): the registry and the desk of custody behind the two front
    doors as a machine of events, its beats, its lock; \<open>DaemonSteps\<close> (its books agree), \<open>Uplink\<close> (\<open>daemon/relay-uplink.ts\<close>), \<open>Hook\<close> (the loopback
    hook, \<open>control-plane-client.ts\<close>), \<open>DaemonTheorems\<close>: beats and hook joined to the routes they call.
  \<^item> \<open>Startup\<close>: what the servers make of their environment (\<open>control-plane/src/config.ts\<close>, \<open>identity.ts\<close>, \<open>main.ts\<close>, \<open>relay/src/config.ts\<close>), the
    command line of a cell's address and its docked state (\<open>cell-url.ts\<close>, \<open>dock-config.ts\<close>), and the routes of the login (\<open>routers/cli-auth.ts\<close>).


  \<^bold>\<open>What the lemmas show.\<close> The channel delivers what was sent, in order and once, however the transport splits it, and fails
  closed. The cell registers only who proves the registered key, joins only the two ends of one ticket, carries
  bytes between them and nowhere else, and times out. A session's viewer is in step with its terminal or knows
  that it is not. A served connection does nothing before admission and answers every request once. A controller's
  calls settle once, its reassembly is bounded, its consumer can rebuild the screen. Only enrolled devices steer,
  remote launches are confined to the host's own lists, custody lists mean sets (of paths with no white space at their ends).
  Tickets and pair tokens are single use under any interleaving, and each login token takes an approval of its own; revocations are final; rows stay well formed; no request crosses
  organisations. The daemon's books agree over any run, the control plane mirrors its beats, its uplink never stops trying.
  No server listens in production with its guards open, and a login's code is only ever sent to a loopback address.


  \<^bold>\<open>Parameters.\<close> Cryptography (X25519, AEAD, SHA-256, HKDF, HMAC, P-256), JSON and zod parsing (the codecs), base64, the terminal
  emulator, the clock, random ids, URL parsing, \<open>localeCompare\<close>, the identity provider, the push service and the operating system
  (what can be executed, what a file holds) are arguments. Where a property needs something of them, it is a
  hypothesis in its statement: that an AEAD opens what it sealed, that a codec round-trips, that a MAC of other bytes differs.


  \<^bold>\<open>Bounds and fuel.\<close> Loops over a queue of bytes run on fuel, the number of bytes in it plus one: each turn takes at least a
  frame header, so it is enough (\<open>every_chunk_is_processed\<close> for the cell; the channel's and the controller's likewise). Counters
  are naturals below the bounds the code checks (a sealer refuses from \<open>2 ^ 53\<close> records on, sequence numbers below \<open>2 ^ 53\<close>); sizes (frames, rings, snapshots, lists) are the
  code's own constants.


  \<^bold>\<open>Not modelled.\<close> Sends and sinks that throw (apart from a send on a closed channel and a request longer than a record) or call back into the caller; JSON text; the emulator's inside; processes,
  sockets, HTTP and file modes; writes that fail; ids longer than a relay message holds and ids that name members of \<open>Object.prototype\<close>.
  Requests to the API are served one at a time, apart from tickets, pairing, login, rate limits and the races stated
  as lemmas, whose calls interleave. The dashboard, the iOS app, the database client and the migrations, what assembles the
  servers on the HTTP library, and what \<open>packages/cli\<close> does around the modelled decisions (argument parsing, printing, the service
  manager, key files, the pages of the login) are glue over what is modelled and are left out.
\<close>

end
